(* ===== verification/Prelude.thy ===== *)
theory Prelude
  imports Main "HOL-Library.Word" "HOL-Library.Monad_Syntax"
begin

unbundle bit_operations_syntax

text \<open>
  Shared vocabulary of the development: the machine types of the sources, byte buffers with
  their slice and overwrite operations (the model of \<open>memcpy\<close>, \<open>read\<close> and
  \<open>write\<close> on a buffer), C strings and their comparison, and the named collections the
  component theories feed.

  An \<open>option\<close> result wraps every operation that can leave the defined behaviour of C:
  \<open>None\<close> is an access outside a buffer, a null dereference or a loop that never ends;
  \<open>Some\<close> carries what the function returns and the state it leaves.
\<close>

section \<open>Machine types\<close>

type_synonym u8 = "8 word"
type_synonym u16 = "16 word"
type_synonym u32 = "32 word"
type_synonym u64 = "64 word"
type_synonym bytes = "u8 list"

named_theorems slice_simps \<open>reading back byte ranges after writes\<close>
named_theorems guard_defs \<open>definitions of well-formedness predicates\<close>

section \<open>Byte buffers\<close>

definition slice :: "nat \<Rightarrow> nat \<Rightarrow> 'a list \<Rightarrow> 'a list" where
  "slice off n xs = take n (drop off xs)"

definition overwrite :: "nat \<Rightarrow> 'a list \<Rightarrow> 'a list \<Rightarrow> 'a list" where
  "overwrite off bs xs = take off xs @ bs @ drop (off + length bs) xs"

text \<open>Two byte ranges that share no position.\<close>

definition apart :: "nat \<Rightarrow> nat \<Rightarrow> nat \<Rightarrow> nat \<Rightarrow> bool" where
  "apart a m b n \<longleftrightarrow> a + m \<le> b \<or> b + n \<le> a"

text \<open>A C string literal as the bytes before its terminator.\<close>

definition cstr :: "string \<Rightarrow> bytes" where
  "cstr s = map of_char s"

text \<open>
  The C string a buffer holds: its bytes up to the first zero. \<open>strncmp\<close> of two strings
  is 0 exactly when their first \<open>n\<close> characters agree, the terminator counting as one.
\<close>

definition cstr_of :: "bytes \<Rightarrow> bytes" where
  "cstr_of bs = takeWhile (\<lambda>b. b \<noteq> 0) bs"

definition strncmp_eq :: "'a list \<Rightarrow> 'a list \<Rightarrow> nat \<Rightarrow> bool" where
  "strncmp_eq a b n \<longleftrightarrow> take n a = take n b"

section \<open>Lemmas on buffers\<close>

lemma length_slice: "off + n \<le> length xs \<Longrightarrow> length (slice off n xs) = n"
  by (simp add: slice_def)

lemma length_overwrite [simp]:
  "off + length bs \<le> length xs \<Longrightarrow> length (overwrite off bs xs) = length xs"
  by (simp add: overwrite_def)

lemma nth_overwrite:
  "off + length bs \<le> length xs \<Longrightarrow> i < length xs \<Longrightarrow>
   overwrite off bs xs ! i =
     (if off \<le> i \<and> i < off + length bs then bs ! (i - off) else xs ! i)"
  by (auto simp: overwrite_def nth_append min_def)

lemma nth_slice: "off + n \<le> length xs \<Longrightarrow> i < n \<Longrightarrow> slice off n xs ! i = xs ! (off + i)"
  by (simp add: slice_def)

lemma slice_overwrite_same [slice_simps]:
  "off + length bs \<le> length xs \<Longrightarrow> n = length bs \<Longrightarrow> slice off n (overwrite off bs xs) = bs"
  by (simp add: slice_def overwrite_def)

lemma slice_overwrite_apart [slice_simps]:
  assumes "apart a (length bs) b n" "a + length bs \<le> length xs"
  shows "slice b n (overwrite a bs xs) = slice b n xs"
proof (rule nth_equalityI)
  show len: "length (slice b n (overwrite a bs xs)) = length (slice b n xs)"
    using assms by (simp add: slice_def)
  fix i assume "i < length (slice b n (overwrite a bs xs))"
  then have i: "i < n" "b + i < length xs"
    using assms by (auto simp: slice_def)
  then have "overwrite a bs xs ! (b + i) = xs ! (b + i)"
    using assms by (auto simp: nth_overwrite apart_def)
  with i assms show "slice b n (overwrite a bs xs) ! i = slice b n xs ! i"
    by (simp add: slice_def)
qed

lemma slice_full [simp]: "n = length xs \<Longrightarrow> slice 0 n xs = xs"
  by (simp add: slice_def)

lemma overwrite_full [simp]: "length bs = length xs \<Longrightarrow> overwrite 0 bs xs = bs"
  by (simp add: overwrite_def)

lemma overwrite_slice: "off + n \<le> length xs \<Longrightarrow> overwrite off (slice off n xs) xs = xs"
  by (simp add: overwrite_def slice_def) (metis append_take_drop_id add.commute drop_drop)

lemma apart_sym: "apart a m b n \<longleftrightarrow> apart b n a m"
  by (auto simp: apart_def)

lemma apart_sub: "apart a m b n \<Longrightarrow> b \<le> c \<Longrightarrow> c + k \<le> b + n \<Longrightarrow> apart a m c k"
  by (auto simp: apart_def)


section \<open>Reasoning about option computations\<close>

text \<open>
  \<open>wp m Q\<close>: every result of \<open>m\<close> satisfies \<open>Q\<close>. The rules walk through a body in the
  order the code runs it and leave one implication per branch.
\<close>

definition wp :: "'a option \<Rightarrow> ('a \<Rightarrow> bool) \<Rightarrow> bool" where
  "wp m Q \<longleftrightarrow> (\<forall>x. m = Some x \<longrightarrow> Q x)"

named_theorems wp_rules \<open>stepping through option computations\<close>

lemma wp_Some [wp_rules]: "wp (Some x) Q = Q x"
  and wp_None [wp_rules]: "wp None Q = True"
  and wp_bind [wp_rules]: "wp (Option.bind m f) Q = (\<forall>x. m = Some x \<longrightarrow> wp (f x) Q)"
  by (auto simp: wp_def bind_eq_Some_conv)

lemma wp_if [wp_rules]: "wp (if b then m else n) Q = ((b \<longrightarrow> wp m Q) \<and> (\<not> b \<longrightarrow> wp n Q))"
  by simp

lemma wp_option [wp_rules]:
  "wp (case m of None \<Rightarrow> n | Some x \<Rightarrow> f x) Q = ((m = None \<longrightarrow> wp n Q) \<and> (\<forall>x. m = Some x \<longrightarrow> wp (f x) Q))"
  by (cases m) auto

lemma wp_sum [wp_rules]:
  "wp (case m of Inl x \<Rightarrow> g x | Inr x \<Rightarrow> f x) Q =
     ((\<forall>x. m = Inl x \<longrightarrow> wp (g x) Q) \<and> (\<forall>x. m = Inr x \<longrightarrow> wp (f x) Q))"
  by (cases m) auto

lemma wp_prod [wp_rules]: "wp (case p of (a, b) \<Rightarrow> f a b) Q = (\<forall>a b. p = (a, b) \<longrightarrow> wp (f a b) Q)"
  by (cases p) auto

lemma wp_let [wp_rules]: "wp (Let v f) Q = wp (f v) Q"
  by simp

lemma wpD: "wp m Q \<Longrightarrow> m = Some x \<Longrightarrow> Q x"
  by (simp add: wp_def)

lemma wp_mono: "wp m P \<Longrightarrow> (\<And>x. P x \<Longrightarrow> Q x) \<Longrightarrow> wp m Q"
  by (simp add: wp_def)

lemma wpI: "(\<And>x. m = Some x \<Longrightarrow> Q x) \<Longrightarrow> wp m Q"
  by (simp add: wp_def)

lemma wp_mono2: "wp m (\<lambda>(a, b). P a b) \<Longrightarrow> (\<And>a b. P a b \<Longrightarrow> Q a b) \<Longrightarrow> wp m (\<lambda>(a, b). Q a b)"
  by (auto simp: wp_def)

end
