(* ===== verification/SparseCrc.thy ===== *)
theory SparseCrc
  imports Prelude
begin

unbundle bit_operations_syntax

text \<open>
  The table-driven checksum \<open>gpt-utils/sparse_crc32.cpp\<close>, against the definition of CRC-32 bit by
  bit: division by the reversed polynomial, one step per bit.
\<close>

section \<open>The code\<close>

definition crc32_tab :: "32 word list" where
  "crc32_tab = [
    0x00000000, 0x77073096, 0xee0e612c, 0x990951ba, 0x076dc419, 0x706af48f, 0xe963a535, 0x9e6495a3,
    0x0edb8832, 0x79dcb8a4, 0xe0d5e91e, 0x97d2d988, 0x09b64c2b, 0x7eb17cbd, 0xe7b82d07, 0x90bf1d91,
    0x1db71064, 0x6ab020f2, 0xf3b97148, 0x84be41de, 0x1adad47d, 0x6ddde4eb, 0xf4d4b551, 0x83d385c7,
    0x136c9856, 0x646ba8c0, 0xfd62f97a, 0x8a65c9ec, 0x14015c4f, 0x63066cd9, 0xfa0f3d63, 0x8d080df5,
    0x3b6e20c8, 0x4c69105e, 0xd56041e4, 0xa2677172, 0x3c03e4d1, 0x4b04d447, 0xd20d85fd, 0xa50ab56b,
    0x35b5a8fa, 0x42b2986c, 0xdbbbc9d6, 0xacbcf940, 0x32d86ce3, 0x45df5c75, 0xdcd60dcf, 0xabd13d59,
    0x26d930ac, 0x51de003a, 0xc8d75180, 0xbfd06116, 0x21b4f4b5, 0x56b3c423, 0xcfba9599, 0xb8bda50f,
    0x2802b89e, 0x5f058808, 0xc60cd9b2, 0xb10be924, 0x2f6f7c87, 0x58684c11, 0xc1611dab, 0xb6662d3d,
    0x76dc4190, 0x01db7106, 0x98d220bc, 0xefd5102a, 0x71b18589, 0x06b6b51f, 0x9fbfe4a5, 0xe8b8d433,
    0x7807c9a2, 0x0f00f934, 0x9609a88e, 0xe10e9818, 0x7f6a0dbb, 0x086d3d2d, 0x91646c97, 0xe6635c01,
    0x6b6b51f4, 0x1c6c6162, 0x856530d8, 0xf262004e, 0x6c0695ed, 0x1b01a57b, 0x8208f4c1, 0xf50fc457,
    0x65b0d9c6, 0x12b7e950, 0x8bbeb8ea, 0xfcb9887c, 0x62dd1ddf, 0x15da2d49, 0x8cd37cf3, 0xfbd44c65,
    0x4db26158, 0x3ab551ce, 0xa3bc0074, 0xd4bb30e2, 0x4adfa541, 0x3dd895d7, 0xa4d1c46d, 0xd3d6f4fb,
    0x4369e96a, 0x346ed9fc, 0xad678846, 0xda60b8d0, 0x44042d73, 0x33031de5, 0xaa0a4c5f, 0xdd0d7cc9,
    0x5005713c, 0x270241aa, 0xbe0b1010, 0xc90c2086, 0x5768b525, 0x206f85b3, 0xb966d409, 0xce61e49f,
    0x5edef90e, 0x29d9c998, 0xb0d09822, 0xc7d7a8b4, 0x59b33d17, 0x2eb40d81, 0xb7bd5c3b, 0xc0ba6cad,
    0xedb88320, 0x9abfb3b6, 0x03b6e20c, 0x74b1d29a, 0xead54739, 0x9dd277af, 0x04db2615, 0x73dc1683,
    0xe3630b12, 0x94643b84, 0x0d6d6a3e, 0x7a6a5aa8, 0xe40ecf0b, 0x9309ff9d, 0x0a00ae27, 0x7d079eb1,
    0xf00f9344, 0x8708a3d2, 0x1e01f268, 0x6906c2fe, 0xf762575d, 0x806567cb, 0x196c3671, 0x6e6b06e7,
    0xfed41b76, 0x89d32be0, 0x10da7a5a, 0x67dd4acc, 0xf9b9df6f, 0x8ebeeff9, 0x17b7be43, 0x60b08ed5,
    0xd6d6a3e8, 0xa1d1937e, 0x38d8c2c4, 0x4fdff252, 0xd1bb67f1, 0xa6bc5767, 0x3fb506dd, 0x48b2364b,
    0xd80d2bda, 0xaf0a1b4c, 0x36034af6, 0x41047a60, 0xdf60efc3, 0xa867df55, 0x316e8eef, 0x4669be79,
    0xcb61b38c, 0xbc66831a, 0x256fd2a0, 0x5268e236, 0xcc0c7795, 0xbb0b4703, 0x220216b9, 0x5505262f,
    0xc5ba3bbe, 0xb2bd0b28, 0x2bb45a92, 0x5cb36a04, 0xc2d7ffa7, 0xb5d0cf31, 0x2cd99e8b, 0x5bdeae1d,
    0x9b64c2b0, 0xec63f226, 0x756aa39c, 0x026d930a, 0x9c0906a9, 0xeb0e363f, 0x72076785, 0x05005713,
    0x95bf4a82, 0xe2b87a14, 0x7bb12bae, 0x0cb61b38, 0x92d28e9b, 0xe5d5be0d, 0x7cdcefb7, 0x0bdbdf21,
    0x86d3d2d4, 0xf1d4e242, 0x68ddb3f8, 0x1fda836e, 0x81be16cd, 0xf6b9265b, 0x6fb077e1, 0x18b74777,
    0x88085ae6, 0xff0f6a70, 0x66063bca, 0x11010b5c, 0x8f659eff, 0xf862ae69, 0x616bffd3, 0x166ccf45,
    0xa00ae278, 0xd70dd2ee, 0x4e048354, 0x3903b3c2, 0xa7672661, 0xd06016f7, 0x4969474d, 0x3e6e77db,
    0xaed16a4a, 0xd9d65adc, 0x40df0b66, 0x37d83bf0, 0xa9bcae53, 0xdebb9ec5, 0x47b2cf7f, 0x30b5ffe9,
    0xbdbdf21c, 0xcabac28a, 0x53b39330, 0x24b4a3a6, 0xbad03605, 0xcdd70693, 0x54de5729, 0x23d967bf,
    0xb3667a2e, 0xc4614ab8, 0x5d681b02, 0x2a6f2b94, 0xb40bbe37, 0xc30c8ea1, 0x5a05df1b, 0x2d02ef8d]"

definition crc_step :: "32 word \<Rightarrow> 8 word \<Rightarrow> 32 word" where
  "crc_step crc p = crc32_tab ! unat ((crc XOR ucast p) AND 0xFF) XOR drop_bit 8 crc"

fun crc_loop :: "32 word \<Rightarrow> 8 word list \<Rightarrow> 32 word" where
  "crc_loop crc [] = crc"
| "crc_loop crc (p # buf) = crc_loop (crc_step crc p) buf"

definition sparse_crc32 :: "32 word \<Rightarrow> 8 word list \<Rightarrow> 32 word" where
  "sparse_crc32 crc_in buf = crc_loop (crc_in XOR NOT 0) buf XOR NOT 0"

section \<open>Bit by bit\<close>

definition crc_bit :: "32 word \<Rightarrow> 32 word" where
  "crc_bit c = (if bit c 0 then drop_bit 1 c XOR 0xEDB88320 else drop_bit 1 c)"

fun crc_bits :: "nat \<Rightarrow> 32 word \<Rightarrow> 32 word" where
  "crc_bits 0 c = c"
| "crc_bits (Suc n) c = crc_bits n (crc_bit c)"

fun crc_ref :: "32 word \<Rightarrow> 8 word list \<Rightarrow> 32 word" where
  "crc_ref crc [] = crc"
| "crc_ref crc (p # buf) = crc_ref (crc_bits 8 (crc XOR ucast p)) buf"

lemma crc_bit_xor: "crc_bit (x XOR y) = crc_bit x XOR crc_bit y"
  by (auto simp: crc_bit_def bit_xor_iff drop_bit_xor xor.assoc xor.left_commute xor.commute)

lemma crc_bits_xor: "crc_bits n (x XOR y) = crc_bits n x XOR crc_bits n y"
  by (induction n arbitrary: x y) (simp_all add: crc_bit_xor)

text \<open>Eight steps on a value whose low byte is zero only shift.\<close>

lemma crc_bits_high: "take_bit n c = 0 \<Longrightarrow> crc_bits n c = drop_bit n c"
proof (induction n arbitrary: c)
  case (Suc n)
  have b: "\<not> bit c i" if "i < Suc n" for i using Suc.prems that by (metis bit_take_bit_iff bit_0_eq bot_apply bot_bool_def)
  then have "crc_bit c = drop_bit 1 c" by (simp add: crc_bit_def)
  moreover have "take_bit n (drop_bit 1 c) = 0" using b by (auto intro!: bit_eqI simp: bit_take_bit_iff bit_drop_bit_eq)
  ultimately show ?case using Suc.IH by simp
qed simp

text \<open>A table of the sums of the values at the powers of two.\<close>

fun sums :: "nat \<Rightarrow> 32 word list" where
  "sums 0 = [0]"
| "sums (Suc k) = sums k @ map (\<lambda>x. x XOR crc_bits 8 (2 ^ k)) (sums k)"

lemma length_sums [simp]: "length (sums k) = 2 ^ k"
  by (induction k) simp_all

lemma crc_bits_0 [simp]: "crc_bits n 0 = 0"
  by (induction n) (simp_all add: crc_bit_def)

lemma power_xor: "j < 2 ^ k \<Longrightarrow> (of_nat (2 ^ k + j) :: 32 word) = of_nat j XOR 2 ^ k"
proof -
  assume j: "j < 2 ^ k"
  have "j AND 2 ^ k = 0" using j by (metis and.commute and_exp_eq_0_iff_not_bit bit_take_bit_iff less_irrefl take_bit_nat_eq_self_iff)
  then have "2 ^ k + j = 2 ^ k XOR j" by (simp add: disjunctive_add_eq_xor and.commute)
  then have "(of_nat (2 ^ k + j) :: 32 word) = of_nat (2 ^ k XOR j)" by simp
  then show ?thesis by (simp add: of_nat_xor_eq xor.commute)
qed

lemma sums_nth: "i < 2 ^ k \<Longrightarrow> sums k ! i = crc_bits 8 (of_nat i)"
proof (induction k arbitrary: i)
  case (Suc k)
  show ?case
  proof (cases "i < 2 ^ k")
    case True
    then show ?thesis using Suc.IH by (simp add: nth_append)
  next
    case False
    then obtain j where j: "i = 2 ^ k + j" "j < 2 ^ k" using Suc.prems by (metis add_diff_inverse_nat less_diff_conv2 linorder_not_less mult_2 power_Suc)
    then show ?thesis using Suc.IH [OF j(2)] by (simp only: sums.simps nth_append length_sums power_xor crc_bits_xor) simp
  qed
qed simp

lemma eight: "crc_bits 8 c = crc_bit (crc_bit (crc_bit (crc_bit (crc_bit (crc_bit (crc_bit (crc_bit c)))))))"
  by (simp add: eval_nat_numeral)

lemma basis:
  "crc_bits 8 1 = 0x77073096"
  "crc_bits 8 0x2 = 0xee0e612c"
  "crc_bits 8 0x4 = 0x076dc419"
  "crc_bits 8 0x8 = 0x0edb8832"
  "crc_bits 8 0x10 = 0x1db71064"
  "crc_bits 8 0x20 = 0x3b6e20c8"
  "crc_bits 8 0x40 = 0x76dc4190"
  "crc_bits 8 0x80 = 0xedb88320"
  by (simp_all add: eight crc_bit_def)

text \<open>The table of the code is that one.\<close>

lemma tab_sums: "crc32_tab = sums 8"
proof -
  have 8: "sums 8 = sums (Suc (Suc (Suc (Suc (Suc (Suc (Suc (Suc 0))))))))" by (simp add: eval_nat_numeral)
  show ?thesis
    unfolding 8 sums.simps power.simps power_0 mult_1_right
    by (simp add: basis crc32_tab_def)
qed

section \<open>Properties\<close>

lemma tab_nth: "x < 0x100 \<Longrightarrow> crc32_tab ! unat x = crc_bits 8 x"
  using sums_nth [of "unat x" 8] by (simp add: tab_sums word_less_nat_alt)

lemma crc_step_ref: "crc_step c p = crc_bits 8 (c XOR ucast p)"
proof -
  let ?x = "c XOR ucast p"
  have split: "?x = (?x AND 0xFF) XOR push_bit 8 (drop_bit 8 ?x)"
  proof (rule bit_eqI)
    fix n assume "possible_bit TYPE(32 word) n"
    then have n: "n < 32" by simp
    have m: "(0xFF :: 32 word) = mask 8" by (simp add: mask_eq_exp_minus_1)
    show "bit ?x n = bit ((?x AND 0xFF) XOR push_bit 8 (drop_bit 8 ?x)) n"
      unfolding m using n by (auto simp: bit_simps)
  qed
  have low: "?x AND 0xFF < 0x100" using word_and_le1 [of ?x "0xFF"] by (simp add: word_le_nat_alt word_less_nat_alt)
  have "take_bit 8 (push_bit 8 (drop_bit 8 ?x)) = 0" by (simp add: take_bit_push_bit)
  then have high: "crc_bits 8 (push_bit 8 (drop_bit 8 ?x)) = drop_bit 8 (push_bit 8 (drop_bit 8 ?x))" by (rule crc_bits_high)
  have "drop_bit 8 (push_bit 8 (drop_bit 8 ?x)) = drop_bit 8 c"
    by (rule bit_eqI) (auto simp: bit_simps dest: bit_imp_le_length)
  then have "crc_bits 8 ?x = crc_bits 8 (?x AND 0xFF) XOR drop_bit 8 c"
    by (subst split) (simp only: crc_bits_xor high)
  then show ?thesis by (simp add: crc_step_def tab_nth [OF low])
qed

lemma crc_loop_ref: "crc_loop c buf = crc_ref c buf"
  by (induction buf arbitrary: c) (simp_all add: crc_step_ref)

lemma crc_loop_append: "crc_loop c (a @ b) = crc_loop (crc_loop c a) b"
  by (induction a arbitrary: c) simp_all

text \<open>
  C20. The table-driven checksum equals the bitwise one on every input, the table lookup never
  leaves the table, a buffer may be checksummed in pieces, and the checksum of the digits 1 to 9 is
  the published check value of CRC-32.
\<close>

theorem sparse_crc32_correct:
  "sparse_crc32 s buf = crc_ref (s XOR NOT 0) buf XOR NOT 0 \<and>
   unat (((c :: 32 word) XOR ucast (p :: 8 word)) AND 0xFF) < length crc32_tab \<and>
   sparse_crc32 (sparse_crc32 s a) b = sparse_crc32 s (a @ b) \<and>
   sparse_crc32 0 [0x31, 0x32, 0x33, 0x34, 0x35, 0x36, 0x37, 0x38, 0x39] = 0xCBF43926"
proof (intro conjI)
  show "sparse_crc32 s buf = crc_ref (s XOR NOT 0) buf XOR NOT 0" by (simp add: sparse_crc32_def crc_loop_ref)
  show "unat ((c XOR ucast p) AND 0xFF) < length crc32_tab"
    using word_and_le1 [of "c XOR ucast p" "0xFF"] by (simp add: word_le_nat_alt tab_sums)
  show "sparse_crc32 (sparse_crc32 s a) b = sparse_crc32 s (a @ b)"
    by (simp add: sparse_crc32_def crc_loop_append xor.assoc)
  show "sparse_crc32 0 [0x31, 0x32, 0x33, 0x34, 0x35, 0x36, 0x37, 0x38, 0x39] = 0xCBF43926"
    by (simp add: sparse_crc32_def crc_loop_ref eight crc_bit_def)
qed

end
