(* ===== verification/GptBytes.thy ===== *)
theory GptBytes
  imports Prelude
begin

unbundle bit_operations_syntax

text \<open>
  The little-endian field accessors of \<open>gpt-utils/gpt-utils.cpp\<close> (\<open>GET_4_BYTES\<close>,
  \<open>GET_8_BYTES\<close>, \<open>PUT_4_BYTES\<close>) and the offsets of \<open>gpt-utils.h\<close>. A buffer
  is a byte list; an access past its end is \<open>None\<close>.
\<close>

section \<open>Offsets and constants of gpt-utils.h\<close>

definition GPT_SIGNATURE :: bytes where
  \<comment> \<open>\<open>sizeof\<close> of the literal counts its terminator, so nine bytes are copied and compared\<close>
  "GPT_SIGNATURE = [69, 70, 73, 32, 80, 65, 82, 84, 0]"

abbreviation (input) HEADER_SIZE_OFFSET :: nat where "HEADER_SIZE_OFFSET \<equiv> 12"
abbreviation (input) HEADER_CRC_OFFSET :: nat where "HEADER_CRC_OFFSET \<equiv> 16"
abbreviation (input) PENTRIES_OFFSET :: nat where "PENTRIES_OFFSET \<equiv> 72"
abbreviation (input) PARTITION_COUNT_OFFSET :: nat where "PARTITION_COUNT_OFFSET \<equiv> 80"
abbreviation (input) PENTRY_SIZE_OFFSET :: nat where "PENTRY_SIZE_OFFSET \<equiv> 84"
abbreviation (input) PARTITION_CRC_OFFSET :: nat where "PARTITION_CRC_OFFSET \<equiv> 88"
abbreviation (input) TYPE_GUID_SIZE :: nat where "TYPE_GUID_SIZE \<equiv> 16"
abbreviation (input) PTN_ENTRY_SIZE :: nat where "PTN_ENTRY_SIZE \<equiv> 128"
abbreviation (input) PARTITION_NAME_OFFSET :: nat where "PARTITION_NAME_OFFSET \<equiv> 56"
abbreviation (input) MAX_GPT_NAME_SIZE :: nat where "MAX_GPT_NAME_SIZE \<equiv> 72"
abbreviation (input) AB_FLAG_OFFSET :: nat where "AB_FLAG_OFFSET \<equiv> 54"

abbreviation (input) AB_PARTITION_ATTR_SLOT_ACTIVE :: u8 where "AB_PARTITION_ATTR_SLOT_ACTIVE \<equiv> 0x04"
abbreviation (input) AB_PARTITION_ATTR_BOOT_SUCCESSFUL :: u8 where "AB_PARTITION_ATTR_BOOT_SUCCESSFUL \<equiv> 0x40"
abbreviation (input) AB_PARTITION_ATTR_UNBOOTABLE :: u8 where "AB_PARTITION_ATTR_UNBOOTABLE \<equiv> 0x80"
abbreviation (input) AB_SLOT_ACTIVE_VAL :: u8 where "AB_SLOT_ACTIVE_VAL \<equiv> 0x3F"

section \<open>Field accessors\<close>

definition le4 :: "u8 \<Rightarrow> u8 \<Rightarrow> u8 \<Rightarrow> u8 \<Rightarrow> u32" where
  "le4 b0 b1 b2 b3 =
     ucast b0 OR push_bit 8 (ucast b1) OR push_bit 16 (ucast b2) OR push_bit 24 (ucast b3)"

definition GET_4_BYTES :: "bytes \<Rightarrow> nat \<Rightarrow> u32 option" where
  "GET_4_BYTES buf p =
     (if p + 4 \<le> length buf
      then Some (le4 (buf ! p) (buf ! (p + 1)) (buf ! (p + 2)) (buf ! (p + 3)))
      else None)"

definition GET_8_BYTES :: "bytes \<Rightarrow> nat \<Rightarrow> u64 option" where
  "GET_8_BYTES buf p =
     (if p + 8 \<le> length buf
      then Some (ucast (buf ! p) OR push_bit 8 (ucast (buf ! (p + 1)))
             OR push_bit 16 (ucast (buf ! (p + 2))) OR push_bit 24 (ucast (buf ! (p + 3)))
             OR push_bit 32 (ucast (buf ! (p + 4))) OR push_bit 40 (ucast (buf ! (p + 5)))
             OR push_bit 48 (ucast (buf ! (p + 6))) OR push_bit 56 (ucast (buf ! (p + 7))))
      else None)"

definition le4_bytes :: "u32 \<Rightarrow> bytes" where
  "le4_bytes y =
     [ucast (y AND 0xff), ucast (drop_bit 8 y AND 0xff),
      ucast (drop_bit 16 y AND 0xff), ucast (drop_bit 24 y AND 0xff)]"

definition PUT_4_BYTES :: "bytes \<Rightarrow> nat \<Rightarrow> u32 \<Rightarrow> bytes option" where
  "PUT_4_BYTES buf p y =
     (if p + 4 \<le> length buf then Some (overwrite p (le4_bytes y) buf) else None)"

section \<open>Properties\<close>

lemma length_le4_bytes [simp]: "length (le4_bytes y) = 4"
  by (simp add: le4_bytes_def)

lemma le4_le4_bytes:
  "le4 (ucast (y AND 0xff)) (ucast (drop_bit 8 y AND 0xff))
       (ucast (drop_bit 16 y AND 0xff)) (ucast (drop_bit 24 y AND 0xff)) = y"
proof (rule bit_word_eqI)
  fix n assume "n < LENGTH(32)"
  then have "n < 32" by simp
  have m: "(0xff :: u32) = mask 8" by (simp add: mask_eq_exp_minus_1)
  consider "n < 8" | "8 \<le> n" "n < 16" | "16 \<le> n" "n < 24" | "24 \<le> n"
    using \<open>n < 32\<close> by linarith
  then show "bit (le4 (ucast (y AND 0xff)) (ucast (drop_bit 8 y AND 0xff))
       (ucast (drop_bit 16 y AND 0xff)) (ucast (drop_bit 24 y AND 0xff))) n = bit y n"
    unfolding m le4_def using \<open>n < 32\<close> by cases (simp_all add: bit_simps less_diff_conv2)
qed

lemma GET_4_BYTES_slice:
  "GET_4_BYTES buf p = (case slice p 4 buf of [a, b, c, d] \<Rightarrow> Some (le4 a b c d) | _ \<Rightarrow> None)"
proof (cases "p + 4 \<le> length buf")
  case True
  then have "slice p 4 buf = [buf ! p, buf ! (p + 1), buf ! (p + 2), buf ! (p + 3)]"
    by (intro nth_equalityI) (auto simp: slice_def less_Suc_eq numeral_eq_Suc)
  with True show ?thesis by (simp add: GET_4_BYTES_def)
next
  case False
  then have "length (slice p 4 buf) < 4" by (auto simp: slice_def)
  with False show ?thesis by (auto simp: GET_4_BYTES_def split: list.splits)
qed

lemma GET_4_BYTES_defined: "p + 4 \<le> length buf \<Longrightarrow> \<exists>y. GET_4_BYTES buf p = Some y"
  by (simp add: GET_4_BYTES_def)

lemma PUT_4_BYTES_Some:
  "PUT_4_BYTES buf p y = Some buf' \<longleftrightarrow> p + 4 \<le> length buf \<and> buf' = overwrite p (le4_bytes y) buf"
  by (auto simp: PUT_4_BYTES_def)

lemma GET_4_overwrite_same [slice_simps]:
  "p + 4 \<le> length buf \<Longrightarrow> GET_4_BYTES (overwrite p (le4_bytes y) buf) p = Some y"
  by (simp add: GET_4_BYTES_slice slice_overwrite_same) (simp add: le4_bytes_def le4_le4_bytes)

lemma GET_4_overwrite_apart [slice_simps]:
  "apart p (length bs) q 4 \<Longrightarrow> p + length bs \<le> length buf \<Longrightarrow>
   GET_4_BYTES (overwrite p bs buf) q = GET_4_BYTES buf q"
  by (simp add: GET_4_BYTES_slice slice_overwrite_apart)

lemma GET_8_overwrite_apart [slice_simps]:
  "apart p (length bs) q 8 \<Longrightarrow> p + length bs \<le> length buf \<Longrightarrow>
   GET_8_BYTES (overwrite p bs buf) q = GET_8_BYTES buf q"
proof -
  assume a: "apart p (length bs) q 8" "p + length bs \<le> length buf"
  then have "q + 8 \<le> length buf \<Longrightarrow> i < 8 \<Longrightarrow> overwrite p bs buf ! (q + i) = buf ! (q + i)" for i
    by (subst nth_overwrite) (auto simp: apart_def)
  from this [of 0] this [of 1] this [of 2] this [of 3] this [of 4] this [of 5] this [of 6] this [of 7] a
  show ?thesis by (simp add: GET_8_BYTES_def)
qed

end
