(* ===== verification/BlockDev.thy ===== *)
theory BlockDev
  imports Prelude
begin

text \<open>
  The operating-system surface the boot code runs on, and \<open>blk_rw\<close>, the one routine of
  \<open>gpt-utils.cpp\<close> that touches a block device.

  What is not in the repository is a parameter, a field of \<open>env\<close>: zlib's \<open>crc32\<close>,
  the property service, the file system below \<open>/dev\<close> (\<open>stat\<close>, \<open>readlink\<close>,
  directory listings), the bytes a fresh \<open>malloc\<close> block happens to hold, and whether the
  next fallible call succeeds. Fallible calls are numbered by \<open>w_tick\<close>: the call with
  number \<open>k\<close> fails exactly when \<open>env_ok k\<close> is false, so a theorem over every
  \<open>env\<close> covers every pattern of failing opens, seeks, reads, writes, ioctls and
  allocations; \<open>env_errno k + 1\<close> is the (positive) \<open>errno\<close> it leaves. \<open>world\<close> is the part that changes: the contents of the block devices and the
  boot LUN the UFS device was told to use.
\<close>

section \<open>Environment and world\<close>

record env =
  env_crc32 :: "u32 \<Rightarrow> bytes \<Rightarrow> u32"
  env_prop :: "string \<Rightarrow> string option"
  env_stat :: "string \<Rightarrow> bool"
  env_readlink :: "string \<Rightarrow> string option"
  env_dir :: "string \<Rightarrow> string list option"
  env_fill :: "nat \<Rightarrow> u8"
  env_errno :: "nat \<Rightarrow> nat"
  env_ok :: "nat \<Rightarrow> bool"

record blkdev =
  bd_blksz :: u32
  bd_data :: bytes

type_synonym fd = string

record world =
  w_tick :: nat
  w_dev :: "fd \<Rightarrow> blkdev option"
  w_boot_lun :: "u8 option"

definition sys :: "env \<Rightarrow> world \<Rightarrow> bool \<times> world" where
  "sys e w = (env_ok e (w_tick w), w\<lparr>w_tick := Suc (w_tick w)\<rparr>)"

definition set_data :: "world \<Rightarrow> fd \<Rightarrow> bytes \<Rightarrow> world" where
  "set_data w fd bs =
     (case w_dev w fd of None \<Rightarrow> w
      | Some d \<Rightarrow> w\<lparr>w_dev := (w_dev w)(fd \<mapsto> d\<lparr>bd_data := bs\<rparr>)\<rparr>)"

text \<open>\<open>open (path, O_RDWR)\<close>: a descriptor is named by the device path it was opened on.\<close>

definition sys_open :: "env \<Rightarrow> string \<Rightarrow> world \<Rightarrow> fd option \<times> world" where
  "sys_open e path w =
     (let (ok, w) = sys e w in (if ok \<and> w_dev w path \<noteq> None then Some path else None, w))"

text \<open>\<open>ioctl (fd, BLKSSZGET, ...)\<close>: the logical block size.\<close>

definition sys_blksz :: "env \<Rightarrow> fd \<Rightarrow> world \<Rightarrow> u32 option \<times> world" where
  "sys_blksz e fd w =
     (let (ok, w) = sys e w in (if ok then map_option bd_blksz (w_dev w fd) else None, w))"

text \<open>\<open>lseek64 (fd, 0, SEEK_END)\<close>: the device size, or -1.\<close>

definition lseek_end :: "env \<Rightarrow> fd \<Rightarrow> world \<Rightarrow> int \<times> world" where
  "lseek_end e fd w =
     (let (ok, w) = sys e w in
      (case w_dev w fd of Some d \<Rightarrow> (if ok then int (length (bd_data d)) else -1) | None \<Rightarrow> -1, w))"

definition malloc :: "env \<Rightarrow> nat \<Rightarrow> world \<Rightarrow> bytes option \<times> world" where
  "malloc e n w = (let (ok, w) = sys e w in (if ok then Some (map (env_fill e) [0..<n]) else None, w))"

definition calloc :: "env \<Rightarrow> nat \<Rightarrow> world \<Rightarrow> bytes option \<times> world" where
  "calloc e n w = (let (ok, w) = sys e w in (if ok then Some (replicate n 0) else None, w))"

text \<open>\<open>crc32 (crc_zero, buf, len)\<close> with \<open>crc_zero = crc32 (0, Z_NULL, 0)\<close>.\<close>

definition crc_zero :: "env \<Rightarrow> u32" where
  "crc_zero e = env_crc32 e 0 []"

definition crc32 :: "env \<Rightarrow> bytes \<Rightarrow> u32 \<Rightarrow> u32 option" where
  "crc32 e buf len =
     (if unat len \<le> length buf then Some (env_crc32 e (crc_zero e) (take (unat len) buf)) else None)"

section \<open>blk_rw\<close>

text \<open>
  \<open>lseek64\<close> on a block device refuses a position outside it; \<open>write\<close> at the end of the
  device fails with \<open>ENOSPC\<close>, a transfer that reaches the end is cut short, and the code
  counts a short transfer as success. The result is the return code, the buffer and the world.
\<close>

definition blk_rw :: "env \<Rightarrow> fd \<Rightarrow> bool \<Rightarrow> int \<Rightarrow> bytes \<Rightarrow> nat \<Rightarrow> world \<Rightarrow> (int \<times> bytes \<times> world) option" where
  "blk_rw e fd rw off buf len w =
     (case w_dev w fd of
        None \<Rightarrow> Some (-1, buf, w)
      | Some d \<Rightarrow>
         (let data = bd_data d; (ok, w) = sys e w in
          if \<not> ok \<or> off < 0 \<or> off > int (length data) then Some (-1, buf, w)
          else if len > length buf then None
          else (let (ok, w) = sys e w; p = nat off in
            if rw then
              (if \<not> ok \<or> (len > 0 \<and> p = length data) then Some (-1, buf, w)
               else Some (0, buf,
                      set_data w fd (overwrite p (take (min len (length data - p)) buf) data)))
            else if \<not> ok then Some (-1, buf, w)
            else Some (0, overwrite 0 (slice p len data) buf, w))))"

section \<open>Lemmas\<close>

text \<open>The projections of a world that a failing or successful call leaves alone.\<close>

lemma w_dev_sys [simp]: "w_dev (snd (sys e w)) = w_dev w"
  and w_boot_lun_sys [simp]: "w_boot_lun (snd (sys e w)) = w_boot_lun w"
  by (simp_all add: sys_def)

lemma w_dev_set_data:
  "w_dev (set_data w fd bs) = (case w_dev w fd of None \<Rightarrow> w_dev w
     | Some d \<Rightarrow> (w_dev w)(fd \<mapsto> d\<lparr>bd_data := bs\<rparr>))"
  by (simp add: set_data_def split: option.splits)

lemma w_boot_lun_set_data [simp]: "w_boot_lun (set_data w fd bs) = w_boot_lun w"
  by (simp add: set_data_def split: option.splits)


text \<open>What each call says about the world it leaves; \<open>io_frame\<close> collects them.\<close>

named_theorems io_frame \<open>effect of the operating-system calls on devices\<close>

lemma sys_blkszD [io_frame]:
  "sys_blksz e fd w = (x, w') \<Longrightarrow>
   w_dev w' = w_dev w \<and> (\<forall>b. x = Some b \<longrightarrow> (\<exists>d. w_dev w fd = Some d \<and> b = bd_blksz d))"
  by (auto simp: sys_blksz_def sys_def split: if_splits)

lemma lseek_endD [io_frame]:
  "lseek_end e fd w = (x, w') \<Longrightarrow>
   w_dev w' = w_dev w \<and> (x = -1 \<or> (\<exists>d. w_dev w fd = Some d \<and> x = int (length (bd_data d))))"
  by (auto simp: lseek_end_def sys_def split: option.splits if_splits)

lemma mallocD [io_frame]:
  "malloc e n w = (x, w') \<Longrightarrow> w_dev w' = w_dev w \<and> (\<forall>b. x = Some b \<longrightarrow> length b = n)"
  by (auto simp: malloc_def sys_def split: if_splits)

lemma callocD [io_frame]:
  "calloc e n w = (x, w') \<Longrightarrow> w_dev w' = w_dev w \<and> (\<forall>b. x = Some b \<longrightarrow> length b = n)"
  by (auto simp: calloc_def sys_def split: if_splits)

lemma sys_openD [io_frame]:
  "sys_open e path w = (x, w') \<Longrightarrow>
   w_dev w' = w_dev w \<and> (\<forall>fd. x = Some fd \<longrightarrow> fd = path \<and> w_dev w path \<noteq> None)"
  by (auto simp: sys_open_def sys_def split: if_splits)

text \<open>A read never changes a device; a full read returns the bytes of the device.\<close>

lemma blk_readD:
  "blk_rw e fd False off buf len w = Some (r, buf', w') \<Longrightarrow>
   w_dev w' = w_dev w \<and> (r = 0 \<or> r = -1) \<and>
   (r = 0 \<longrightarrow> len \<le> length buf \<and> (\<exists>d. w_dev w fd = Some d \<and> 0 \<le> off \<and> off \<le> int (length (bd_data d)) \<and>
       buf' = overwrite 0 (slice (nat off) len (bd_data d)) buf))"
  by (auto simp: blk_rw_def sys_def Let_def split: option.splits if_splits)

lemma blk_read_dev: "blk_rw e fd False off buf len w = Some (r, buf', w') \<Longrightarrow> w_dev w' = w_dev w"
  by (simp add: blk_readD)

lemma calloc_dev: "calloc e n w = (x, w') \<Longrightarrow> w_dev w' = w_dev w"
  by (simp add: callocD)

lemma blk_read_full:
  assumes "blk_rw e fd False (int p) buf len w = Some (0, buf', w')" "w_dev w fd = Some d"
    "length buf = len" "p + len \<le> length (bd_data d)"
  shows "buf' = slice p len (bd_data d)"
  using blk_readD [OF assms(1)] assms(2,3,4) by (auto simp: length_slice)

lemma blk_read_length:
  assumes "blk_rw e fd False off buf len w = Some (r, buf', w')"
  shows "length buf' = length buf"
proof (cases "r = 0")
  case True
  with blk_readD [OF assms] obtain x where "buf' = overwrite 0 x buf" "length x \<le> length buf"
    by (auto simp: slice_def)
  then show ?thesis by simp
next
  case False
  with assms show ?thesis
    by (auto simp: blk_rw_def sys_def Let_def split: option.splits if_splits)
qed

text \<open>A write changes one device, inside the written range, and never its size.\<close>

lemma blk_writeD:
  assumes "blk_rw e fd True off buf len w = Some (r, buf', w')"
  shows "(r = 0 \<or> r = -1) \<and> buf' = buf \<and> (r \<noteq> 0 \<longrightarrow> w_dev w' = w_dev w) \<and>
   (r = 0 \<longrightarrow> len \<le> length buf \<and> (\<exists>d. w_dev w fd = Some d \<and> 0 \<le> off \<and> off \<le> int (length (bd_data d)) \<and>
      w_dev w' = (w_dev w)(fd \<mapsto> d\<lparr>bd_data := overwrite (nat off)
         (take (min len (length (bd_data d) - nat off)) buf) (bd_data d)\<rparr>)))"
  using assms
  by (auto simp: blk_rw_def sys_def Let_def w_dev_set_data split: option.splits if_splits)


lemma blk_write_cases:
  assumes "blk_rw e fd True off buf len w = Some (r, buf', w')" "w_dev w fd = Some d"
  obtains "r = -1" "w_dev w' = w_dev w"
  | d' where "r = 0" "len \<le> length buf" "0 \<le> off" "off \<le> int (length (bd_data d))"
      "w_dev w' = (w_dev w)(fd \<mapsto> d')" "bd_blksz d' = bd_blksz d"
      "bd_data d' = overwrite (nat off) (take (min len (length (bd_data d) - nat off)) buf) (bd_data d)"
      "length (bd_data d') = length (bd_data d)"
      "\<And>b m. apart (nat off) len b m \<Longrightarrow> slice b m (bd_data d') = slice b m (bd_data d)"
proof (cases "r = 0")
  case True
  let ?x = "take (min len (length (bd_data d) - nat off)) buf"
  let ?d' = "d\<lparr>bd_data := overwrite (nat off) ?x (bd_data d)\<rparr>"
  from True blk_writeD [OF assms(1)] assms(2) have *: "len \<le> length buf" "0 \<le> off"
    "off \<le> int (length (bd_data d))" "w_dev w' = (w_dev w)(fd \<mapsto> ?d')"
    by auto
  then have len: "nat off + length ?x \<le> length (bd_data d)" "length ?x \<le> len" by auto
  have "slice b m (bd_data ?d') = slice b m (bd_data d)" if "apart (nat off) len b m" for b m
    using that len by (auto simp: apart_def intro!: slice_overwrite_apart)
  with True * len that(2) [of ?d'] show ?thesis by simp
next
  case False
  with blk_writeD [OF assms(1)] that(1) show ?thesis by auto
qed


text \<open>
  An environment for concrete runs: the checksum adds the number of bytes, there are no
  properties and no files, and every call succeeds.
\<close>

definition wit_env :: env where
  "wit_env = \<lparr>env_crc32 = (\<lambda>s bs. s + of_nat (length bs)), env_prop = (\<lambda>_. None), env_stat = (\<lambda>_. False),
     env_readlink = (\<lambda>_. None), env_dir = (\<lambda>_. None), env_fill = (\<lambda>_. 0), env_errno = (\<lambda>_. 0),
     env_ok = (\<lambda>_. True)\<rparr>"

end
