(* ===== verification/GptEntry.thy ===== *)
theory GptEntry
  imports GptBytes BlockDev "HOL-Library.Multiset"
begin

text \<open>
  Searching and swapping partition entries: \<open>gpt_pentry_seek\<close>, \<open>gpt_boot_chain_swap\<close> and
  \<open>gpt_utils_is_ufs_device\<close> of \<open>gpt-utils.cpp\<close>. A pointer into the entry array is a
  byte offset. The second half abstracts an array to its list of entries and shows that the
  pointer loops compute \<open>find\<close> and pairwise exchanges on that list.
\<close>

section \<open>Device kind and partition lists\<close>

definition PTN_SWAP_LIST :: "string list" where
  "PTN_SWAP_LIST =
     [''xbl'', ''xbl_config'', ''sbl1'', ''rpm'', ''tz'', ''aboot'', ''abl'', ''hyp'',
      ''lksecapp'', ''keymaster'', ''cmnlib'', ''cmnlib32'', ''cmnlib64'', ''pmic'', ''apdp'',
      ''devcfg'', ''hosd'', ''keystore'', ''msadp'', ''mdtp'', ''mdtpsecapp'', ''dsp'', ''aop'',
      ''qupfw'', ''vbmeta'', ''dtbo'', ''imagefv'', ''ImageFv'', ''multiimgoem'',
      ''multiimgqti'', ''uefisecapp'', ''shrm'', ''cpucp'']"

definition AB_PTN_LIST :: "string list" where
  "AB_PTN_LIST = PTN_SWAP_LIST @
     [''boot'', ''system'', ''vendor'', ''odm'', ''modem'', ''bluetooth'', ''fsg'', ''logo'',
      ''mdm1m9kefs3'', ''prov'', ''spss'', ''storsec'', ''vbmeta_system'', ''vendor_boot'']"

text \<open>\<open>property_get\<close> with its default value.\<close>

definition property_get :: "env \<Rightarrow> string \<Rightarrow> string \<Rightarrow> string" where
  "property_get e key dflt = (case env_prop e key of Some v \<Rightarrow> v | None \<Rightarrow> dflt)"

definition gpt_utils_is_ufs_device :: "env \<Rightarrow> bool" where
  "gpt_utils_is_ufs_device e =
     (let bootdevice = property_get e ''ro.boot.bootdevice'' ''N/A'' in
      if length bootdevice < length ''.ufshc'' + 1 then False
      else strncmp_eq (drop (length bootdevice - length ''.ufshc'') bootdevice) ''.ufshc'' 7)"

section \<open>gpt_pentry_seek\<close>

text \<open>
  The loop copies every other byte of the 72-byte UTF-16 name into \<open>name8\<close>, so it reads up
  to offset 70 of the name field.
\<close>

definition pentry_name8 :: "bytes \<Rightarrow> nat \<Rightarrow> bytes" where
  "pentry_name8 arr off =
     cstr_of (map (\<lambda>i. arr ! (off + PARTITION_NAME_OFFSET + i * 2)) [0..<MAX_GPT_NAME_SIZE div 2])"

definition pentry_match :: "bytes \<Rightarrow> bytes \<Rightarrow> bool" where
  "pentry_match ptn_name name8 \<longleftrightarrow>
     strncmp_eq ptn_name name8 (length ptn_name) \<and>
     (drop (length ptn_name) name8 = [] \<or> drop (length ptn_name) name8 = cstr ''bak'')"

text \<open>
  \<open>None\<close>: a name field that leaves the array, or a zero stride that never reaches the end.
  \<open>Some None\<close> is the \<open>NULL\<close> result.
\<close>

function gpt_pentry_seek :: "bytes \<Rightarrow> bytes \<Rightarrow> nat \<Rightarrow> nat \<Rightarrow> nat \<Rightarrow> nat option option" where
  "gpt_pentry_seek ptn_name arr off pend pentry_size =
     (if off + PARTITION_NAME_OFFSET < pend then
        (if off + PARTITION_NAME_OFFSET + 70 \<ge> length arr then None
         else if pentry_match ptn_name (pentry_name8 arr off) then Some (Some off)
         else if pentry_size = 0 then None
         else gpt_pentry_seek ptn_name arr (off + pentry_size) pend pentry_size)
      else Some None)"
  by pat_completeness auto
termination
  by (relation "measure (\<lambda>(ptn, arr, off, pend, psize). pend - off)") auto

declare gpt_pentry_seek.simps [simp del]

section \<open>gpt_boot_chain_swap\<close>

text \<open>
  One turn of the loop for one name: find the first entry of that name, find its twin behind
  it, exchange the two through \<open>ptn_swap\<close> (three \<open>memcpy\<close> calls of
  \<open>PTN_ENTRY_SIZE\<close> bytes, which must lie inside the array and not overlap).
\<close>

definition swap_bytes :: "nat \<Rightarrow> nat \<Rightarrow> nat \<Rightarrow> bytes \<Rightarrow> bytes option" where
  "swap_bytes p q n arr =
     (if p + n \<le> length arr \<and> q + n \<le> length arr \<and> apart p n q n
      then (let ptn_swap = slice p n arr; arr1 = overwrite p (slice q n arr) arr
            in Some (overwrite q ptn_swap arr1))
      else None)"

fun gpt_boot_chain_swap_loop ::
  "env \<Rightarrow> string list \<Rightarrow> bytes \<Rightarrow> nat \<Rightarrow> nat \<Rightarrow> bool \<Rightarrow> (bool \<times> bytes) option" where
  "gpt_boot_chain_swap_loop e [] arr pend psize backup_not_found = Some (backup_not_found, arr)"
| "gpt_boot_chain_swap_loop e (name # names) arr pend psize backup_not_found =
     (if gpt_utils_is_ufs_device e \<and> strncmp_eq name ''xbl'' 3
      then gpt_boot_chain_swap_loop e names arr pend psize backup_not_found
      else do {
        r \<leftarrow> gpt_pentry_seek (cstr name) arr 0 pend psize;
        case r of
          None \<Rightarrow> gpt_boot_chain_swap_loop e names arr pend psize backup_not_found
        | Some ptn_entry \<Rightarrow> do {
            r \<leftarrow> gpt_pentry_seek (cstr name) arr (ptn_entry + psize) pend psize;
            case r of
              None \<Rightarrow> gpt_boot_chain_swap_loop e names arr pend psize backup_not_found
            | Some ptn_bak_entry \<Rightarrow> do {
                arr \<leftarrow> swap_bytes ptn_entry ptn_bak_entry PTN_ENTRY_SIZE arr;
                gpt_boot_chain_swap_loop e names arr pend psize False
              }
          }
      })"

definition gpt_boot_chain_swap :: "env \<Rightarrow> bytes \<Rightarrow> nat \<Rightarrow> nat \<Rightarrow> (int \<times> bytes) option" where
  "gpt_boot_chain_swap e arr pend psize =
     map_option (\<lambda>(nf, arr). (if nf then 1 else 0, arr))
       (gpt_boot_chain_swap_loop e PTN_SWAP_LIST arr pend psize True)"


section \<open>The array as a list of entries\<close>

text \<open>
  The table of a well-formed disk is an array of 128-byte entries. \<open>entry_name\<close> is the
  name the code sees in one entry, \<open>twins\<close> the positions of a partition and its backup,
  and \<open>chain_swap\<close> the exchange of every pair, entry by entry.
\<close>

definition entries_wf :: "bytes list \<Rightarrow> bool" where
  [guard_defs]: "entries_wf es \<longleftrightarrow> list_all (\<lambda>x. length x = PTN_ENTRY_SIZE) es"

definition entry_name :: "bytes \<Rightarrow> bytes" where
  "entry_name x = pentry_name8 x 0"

definition entry_index :: "bytes \<Rightarrow> bytes list \<Rightarrow> nat \<Rightarrow> nat option" where
  "entry_index nm es k = find (\<lambda>i. pentry_match nm (entry_name (es ! i))) [k..<length es]"

definition twins :: "bytes \<Rightarrow> bytes list \<Rightarrow> (nat \<times> nat) option" where
  "twins nm es = do { i \<leftarrow> entry_index nm es 0; j \<leftarrow> entry_index nm es (Suc i); Some (i, j) }"

definition swap_twins :: "bytes \<Rightarrow> bytes list \<Rightarrow> bytes list" where
  "swap_twins nm es = (case twins nm es of None \<Rightarrow> es | Some (i, j) \<Rightarrow> es[i := es ! j, j := es ! i])"

definition swap_names :: "env \<Rightarrow> bytes list" where
  "swap_names e =
     map cstr (filter (\<lambda>n. \<not> (gpt_utils_is_ufs_device e \<and> strncmp_eq n ''xbl'' 3)) PTN_SWAP_LIST)"

fun chain_swap :: "bytes list \<Rightarrow> bytes list \<Rightarrow> bytes list" where
  "chain_swap [] es = es"
| "chain_swap (n # ns) es = chain_swap ns (swap_twins n es)"

fun any_twins :: "bytes list \<Rightarrow> bytes list \<Rightarrow> bool" where
  "any_twins [] es = False"
| "any_twins (n # ns) es = (twins n es \<noteq> None \<or> any_twins ns (swap_twins n es))"

subsection \<open>Entries of a concatenation\<close>

lemma entries_wf_len: "entries_wf es \<Longrightarrow> i < length es \<Longrightarrow> length (es ! i) = 128"
  by (simp add: entries_wf_def list_all_length)

lemma entries_wf_update [intro]:
  "entries_wf es \<Longrightarrow> length x = 128 \<Longrightarrow> entries_wf (es[i := x])"
  by (cases "i < length es") (auto simp: entries_wf_def list_all_length nth_list_update)

lemma length_concat_wf: "entries_wf es \<Longrightarrow> length (concat es) = 128 * length es"
  by (induction es) (auto simp: entries_wf_def)

lemma nth_concat_wf:
  "entries_wf es \<Longrightarrow> i < length es \<Longrightarrow> k < 128 \<Longrightarrow> concat es ! (128 * i + k) = es ! i ! k"
proof (induction es arbitrary: i)
  case (Cons x es)
  then have x: "length x = 128" "entries_wf es" by (auto simp: entries_wf_def)
  show ?case
  proof (cases i)
    case 0
    with Cons.prems x show ?thesis by (simp add: nth_append)
  next
    case (Suc i')
    with Cons.prems x Cons.IH [of i'] show ?thesis by (simp add: nth_append)
  qed
qed simp

lemma slice_concat_wf:
  assumes "entries_wf es" "i < length es"
  shows "slice (128 * i) 128 (concat es) = es ! i"
proof (rule nth_equalityI)
  have len: "128 * i + 128 \<le> length (concat es)"
    using assms by (simp add: length_concat_wf)
  then show "length (slice (128 * i) 128 (concat es)) = length (es ! i)"
    using assms by (simp add: length_slice entries_wf_len)
  fix k assume "k < length (slice (128 * i) 128 (concat es))"
  with len have "k < 128" by (simp add: length_slice)
  with assms len show "slice (128 * i) 128 (concat es) ! k = es ! i ! k"
    by (simp add: nth_slice nth_concat_wf)
qed

lemma overwrite_concat_wf:
  assumes "entries_wf es" "i < length es" "length x = 128"
  shows "overwrite (128 * i) x (concat es) = concat (es[i := x])"
proof (rule nth_equalityI)
  note wf' = entries_wf_update [OF assms(1,3), of i]
  have len: "128 * i + length x \<le> length (concat es)"
    using assms by (simp add: length_concat_wf)
  then show "length (overwrite (128 * i) x (concat es)) = length (concat (es[i := x]))"
    using assms wf' by (simp add: length_concat_wf)
  fix k assume "k < length (overwrite (128 * i) x (concat es))"
  then have k: "k < 128 * length es"
    using len assms by (simp add: length_concat_wf)
  define a b where "a = k div 128" and "b = k mod 128"
  then have ab: "k = 128 * a + b" "b < 128" by simp_all
  with k have a: "a < length es" by simp
  have rng: "128 * i \<le> k \<and> k < 128 * i + length x \<longleftrightarrow> a = i"
    using ab assms(3) by auto
  show "overwrite (128 * i) x (concat es) ! k = concat (es[i := x]) ! k"
    using len k a ab rng assms wf'
    by (auto simp: nth_overwrite length_concat_wf nth_concat_wf nth_list_update)
qed

lemma pentry_name8_concat:
  "entries_wf es \<Longrightarrow> i < length es \<Longrightarrow> pentry_name8 (concat es) (128 * i) = entry_name (es ! i)"
  by (auto simp: pentry_name8_def entry_name_def nth_concat_wf add.assoc intro!: arg_cong [where f = cstr_of])

subsection \<open>The seek loop is a search over the entries\<close>

lemma pentry_match_iff: "pentry_match nm x \<longleftrightarrow> x = nm \<or> x = nm @ cstr ''bak''"
  by (auto simp: pentry_match_def strncmp_eq_def) (metis append_take_drop_id append_Nil2)+

lemma entry_index_step:
  "k < length es \<Longrightarrow> entry_index nm es k =
     (if pentry_match nm (entry_name (es ! k)) then Some k else entry_index nm es (Suc k))"
  by (simp add: entry_index_def upt_rec [of k])

lemma entry_index_end: "length es \<le> k \<Longrightarrow> entry_index nm es k = None"
  by (simp add: entry_index_def)

lemma entry_index_SomeD:
  "entry_index nm es k = Some i \<Longrightarrow>
     k \<le> i \<and> i < length es \<and> pentry_match nm (entry_name (es ! i))
     \<and> (\<forall>j. k \<le> j \<and> j < i \<longrightarrow> \<not> pentry_match nm (entry_name (es ! j)))"
  by (auto simp: entry_index_def find_Some_iff) (metis add_less_cancel_left le_iff_add)

lemma entry_index_None:
  "entry_index nm es k = None \<longleftrightarrow> (\<forall>i. k \<le> i \<and> i < length es \<longrightarrow> \<not> pentry_match nm (entry_name (es ! i)))"
  by (auto simp: entry_index_def find_None_iff)

lemma seek_concat:
  assumes "entries_wf es"
  shows "gpt_pentry_seek nm (concat es) (128 * k) (128 * length es) 128 =
     Some (map_option (\<lambda>i. 128 * i) (entry_index nm es k))"
proof (induction "length es - k" arbitrary: k)
  case 0
  then show ?case
    by (subst gpt_pentry_seek.simps) (simp add: entry_index_end)
next
  case (Suc n)
  then have k: "k < length es" by simp
  have step: "128 * k + 128 = 128 * Suc k" by simp
  from Suc k have "gpt_pentry_seek nm (concat es) (128 * Suc k) (128 * length es) 128 =
     Some (map_option (\<lambda>i. 128 * i) (entry_index nm es (Suc k)))"
    by (intro Suc.hyps(1)) simp
  with k assms show ?case
    by (subst gpt_pentry_seek.simps)
       (simp only: step, simp add: length_concat_wf pentry_name8_concat entry_index_step)
qed


subsection \<open>The swap loop exchanges twins\<close>

lemma twins_SomeD:
  assumes "twins nm es = Some (i, j)"
  shows "i < j" "j < length es" "pentry_match nm (entry_name (es ! i))"
    "pentry_match nm (entry_name (es ! j))"
  using assms by (auto simp: twins_def bind_eq_Some_conv dest!: entry_index_SomeD)

lemma swap_bytes_concat:
  assumes "entries_wf es" "i < j" "j < length es"
  shows "swap_bytes (128 * i) (128 * j) 128 (concat es) = Some (concat (es[i := es ! j, j := es ! i]))"
proof -
  have len: "128 * i + 128 \<le> length (concat es)" "128 * j + 128 \<le> length (concat es)"
    and ap: "apart (128 * i) 128 (128 * j) 128"
    using assms by (auto simp: length_concat_wf apart_def)
  have wf: "entries_wf (es[i := es ! j])"
    using assms by (auto simp: entries_wf_len)
  have "overwrite (128 * i) (es ! j) (concat es) = concat (es[i := es ! j])"
    using assms by (simp add: overwrite_concat_wf entries_wf_len)
  moreover have "overwrite (128 * j) (es ! i) (concat (es[i := es ! j])) =
      concat (es[i := es ! j, j := es ! i])"
    using assms wf by (simp add: overwrite_concat_wf entries_wf_len)
  ultimately show ?thesis
    using assms len ap by (simp add: swap_bytes_def Let_def slice_concat_wf)
qed

lemma entries_wf_swap_twins:
  assumes "entries_wf es"
  shows "entries_wf (swap_twins nm es)"
proof (cases "twins nm es")
  case None
  with assms show ?thesis by (simp add: swap_twins_def)
next
  case (Some ij)
  then obtain i j where ij: "twins nm es = Some (i, j)" by (cases ij) auto
  with twins_SomeD [OF ij] assms show ?thesis
    by (auto simp: swap_twins_def entries_wf_len intro!: entries_wf_update)
qed

lemma length_swap_twins [simp]: "length (swap_twins nm es) = length es"
  by (simp add: swap_twins_def split: option.splits)

text \<open>One turn of the loop for a name that is not skipped.\<close>

lemma swap_turn:
  assumes wf: "entries_wf es" and n: "\<not> (gpt_utils_is_ufs_device e \<and> strncmp_eq n ''xbl'' 3)"
  shows "gpt_boot_chain_swap_loop e (n # names) (concat es) (128 * length es) 128 nf =
    gpt_boot_chain_swap_loop e names (concat (swap_twins (cstr n) es)) (128 * length es) 128
      (nf \<and> twins (cstr n) es = None)"
proof -
  have step: "128 * i + 128 = 128 * Suc i" for i by simp
  note seek = seek_concat [OF wf, of "cstr n" 0, simplified] seek_concat [OF wf, of "cstr n"]
  show ?thesis
  proof (cases "twins (cstr n) es")
    case None
    with n wf show ?thesis
      by (auto simp: step seek twins_def swap_twins_def bind_eq_None_conv simp del: mult_Suc_right
          split: option.splits)
  next
    case (Some ij)
    then obtain i j where ij: "twins (cstr n) es = Some (i, j)" by (cases ij) auto
    then have "entry_index (cstr n) es 0 = Some i" "entry_index (cstr n) es (Suc i) = Some j"
      by (auto simp: twins_def bind_eq_Some_conv)
    with n wf twins_SomeD [OF ij] ij show ?thesis
      by (auto simp: step seek swap_bytes_concat swap_twins_def simp del: mult_Suc_right)
  qed
qed

lemma swap_loop_concat:
  "entries_wf es \<Longrightarrow>
   gpt_boot_chain_swap_loop e names (concat es) (128 * length es) 128 nf =
    (let ns = map cstr (filter (\<lambda>n. \<not> (gpt_utils_is_ufs_device e \<and> strncmp_eq n ''xbl'' 3)) names)
     in Some (nf \<and> \<not> any_twins ns es, concat (chain_swap ns es)))"
proof (induction names arbitrary: es nf)
  case (Cons n names)
  show ?case
  proof (cases "gpt_utils_is_ufs_device e \<and> strncmp_eq n ''xbl'' 3")
    case True
    with Cons show ?thesis by simp
  next
    case False
    show ?thesis
      using False Cons.IH [OF entries_wf_swap_twins [OF Cons.prems, of "cstr n"]]
      by (cases "twins (cstr n) es")
         (auto simp: swap_turn [OF Cons.prems False] Let_def simp del: gpt_boot_chain_swap_loop.simps)
  qed
qed simp


subsection \<open>Exchanges of compatible names commute and undo themselves\<close>

text \<open>
  Two names are compatible when no entry name can match both. The names of
  \<open>PTN_SWAP_LIST\<close> are pairwise compatible: they are distinct and none ends in \<open>bak\<close>.
\<close>

definition compat :: "bytes \<Rightarrow> bytes \<Rightarrow> bool" where
  "compat a b \<longleftrightarrow> (\<forall>x. \<not> (pentry_match a x \<and> pentry_match b x))"

lemma entry_index_cong:
  "length es' = length es \<Longrightarrow>
   (\<And>i. i < length es \<Longrightarrow> pentry_match nm (entry_name (es' ! i)) = pentry_match nm (entry_name (es ! i))) \<Longrightarrow>
   entry_index nm es' k = entry_index nm es k"
  unfolding entry_index_def by (auto intro: find_cong)

lemma twins_cong:
  "length es' = length es \<Longrightarrow>
   (\<And>i. i < length es \<Longrightarrow> pentry_match nm (entry_name (es' ! i)) = pentry_match nm (entry_name (es ! i))) \<Longrightarrow>
   twins nm es' = twins nm es"
  unfolding twins_def by (simp add: entry_index_cong [of es' es])

lemma twins_swap_self: "twins nm (swap_twins nm es) = twins nm es"
proof (cases "twins nm es")
  case None
  then show ?thesis by (simp add: swap_twins_def)
next
  case (Some ij)
  then obtain i j where ij: "twins nm es = Some (i, j)" by (cases ij) auto
  show ?thesis
    using twins_SomeD [OF ij] by (intro twins_cong) (auto simp: swap_twins_def ij nth_list_update)
qed

lemma swap_twins_twice: "swap_twins nm (swap_twins nm es) = es"
proof (cases "twins nm es")
  case None
  then show ?thesis by (simp add: swap_twins_def)
next
  case (Some ij)
  then obtain i j where ij: "twins nm es = Some (i, j)" by (cases ij) auto
  note d = twins_SomeD [OF ij]
  have "swap_twins nm (swap_twins nm es) = (let s = swap_twins nm es in s[i := s ! j, j := s ! i])"
    using twins_swap_self [of nm es] by (simp add: swap_twins_def ij Let_def)
  also have "\<dots> = es"
    using d by (auto simp: swap_twins_def ij Let_def nth_list_update intro!: nth_equalityI)
  finally show ?thesis .
qed

lemma twins_swap_other:
  assumes "compat a b"
  shows "twins a (swap_twins b es) = twins a es"
proof (cases "twins b es")
  case None
  then show ?thesis by (simp add: swap_twins_def)
next
  case (Some ij)
  then obtain i j where ij: "twins b es = Some (i, j)" by (cases ij) auto
  with twins_SomeD [OF ij] assms show ?thesis
    by (intro twins_cong) (auto simp: swap_twins_def nth_list_update compat_def)
qed

lemma compat_sym: "compat a b \<Longrightarrow> compat b a"
  by (auto simp: compat_def)

lemma swap_twins_commute:
  assumes "compat a b"
  shows "swap_twins a (swap_twins b es) = swap_twins b (swap_twins a es)"
proof (cases "twins a es = None \<or> twins b es = None")
  case True
  with twins_swap_other [OF assms] twins_swap_other [OF compat_sym [OF assms]]
  show ?thesis by (auto simp: swap_twins_def split: option.splits)
next
  case False
  then obtain i j k l where ij: "twins a es = Some (i, j)" and kl: "twins b es = Some (k, l)"
    by (metis option.exhaust surj_pair)
  have "i \<noteq> k" "i \<noteq> l" "j \<noteq> k" "j \<noteq> l"
    using twins_SomeD [OF ij] twins_SomeD [OF kl] assms by (auto simp: compat_def)
  moreover have "twins a (swap_twins b es) = Some (i, j)" "twins b (swap_twins a es) = Some (k, l)"
    using ij kl twins_swap_other [OF assms] twins_swap_other [OF compat_sym [OF assms]] by auto
  ultimately show ?thesis
    using twins_SomeD (1,2) [OF ij] twins_SomeD (1,2) [OF kl]
    by (simp add: swap_twins_def ij kl) (rule nth_equalityI, simp_all add: nth_list_update)
qed

lemma chain_swap_through:
  "list_all (compat a) ns \<Longrightarrow> chain_swap ns (swap_twins a es) = swap_twins a (chain_swap ns es)"
proof (induction ns arbitrary: es)
  case (Cons b ns)
  then have "swap_twins b (swap_twins a es) = swap_twins a (swap_twins b es)"
    by (simp add: swap_twins_commute [OF compat_sym])
  with Cons show ?case by simp
qed simp

lemma chain_swap_twice:
  "sorted_wrt compat ns \<Longrightarrow> chain_swap ns (chain_swap ns es) = es"
  by (induction ns arbitrary: es)
     (auto simp: list_all_iff swap_twins_twice simp flip: chain_swap_through)

lemma mset_swap_twins: "mset (swap_twins nm es) = mset es"
proof (cases "twins nm es")
  case (Some ij)
  then obtain i j where ij: "twins nm es = Some (i, j)" by (cases ij) auto
  with twins_SomeD [OF ij] show ?thesis
    by (simp add: swap_twins_def mset_swap)
qed (simp add: swap_twins_def)


lemma mset_chain_swap: "mset (chain_swap ns es) = mset es"
  by (induction ns arbitrary: es) (auto simp: mset_swap_twins)

lemma entries_wf_chain_swap: "entries_wf es \<Longrightarrow> entries_wf (chain_swap ns es)"
  by (induction ns arbitrary: es) (auto simp: entries_wf_swap_twins)

lemma length_chain_swap [simp]: "length (chain_swap ns es) = length es"
  by (induction ns arbitrary: es) auto

lemma any_twins_iff:
  "sorted_wrt compat ns \<Longrightarrow> any_twins ns es \<longleftrightarrow> (\<exists>n \<in> set ns. twins n es \<noteq> None)"
proof (induction ns arbitrary: es)
  case (Cons a ns)
  then have "twins n (swap_twins a es) = twins n es" if "n \<in> set ns" for n
    using that by (intro twins_swap_other) (auto intro: compat_sym)
  with Cons show ?case by auto
qed simp

lemma any_twins_chain_swap:
  assumes "sorted_wrt compat ns" shows "any_twins ns (chain_swap ns es) = any_twins ns es"
proof -
  have "twins n (chain_swap ms es) = twins n es" if "\<forall>m \<in> set ms. m = n \<or> compat n m" for n ms es
    using that
    by (induction ms arbitrary: es) (auto simp: twins_swap_self twins_swap_other)
  moreover have "\<forall>m \<in> set ns. m = n \<or> compat n m" if "n \<in> set ns" for n
    using assms that by (induction ns) (auto intro: compat_sym)
  ultimately show ?thesis
    using assms by (simp add: any_twins_iff)
qed

lemma not_twins_chain_swap: "\<not> any_twins ns es \<Longrightarrow> chain_swap ns es = es"
  by (induction ns arbitrary: es) (auto simp: swap_twins_def split: option.splits)

text \<open>What a chain of exchanges of compatible names leaves at each position.\<close>

lemma chain_swap_frame:
  assumes "sorted_wrt compat ns"
    and "\<forall>n \<in> set ns. \<forall>i j. twins n es = Some (i, j) \<longrightarrow> k \<noteq> i \<and> k \<noteq> j"
  shows "chain_swap ns es ! k = es ! k"
  using assms
proof (induction ns arbitrary: es)
  case (Cons a ns)
  then have "twins n (swap_twins a es) = twins n es" if "n \<in> set ns" for n
    using that by (intro twins_swap_other) (auto intro: compat_sym)
  moreover have "swap_twins a es ! k = es ! k"
    using Cons.prems(2) by (auto simp: swap_twins_def split: option.splits)
  ultimately show ?case
    using Cons by simp
qed simp

lemma twins_apart:
  assumes "compat a b" "twins a es = Some (i, j)" "twins b es = Some (k, l)"
  shows "i \<noteq> k" "i \<noteq> l" "j \<noteq> k" "j \<noteq> l"
  using assms(1) twins_SomeD(3,4) [OF assms(2)] twins_SomeD(3,4) [OF assms(3)]
  by (auto simp: compat_def)

lemma chain_swap_pair:
  assumes "sorted_wrt compat ns" "n \<in> set ns" "twins n es = Some (i, j)"
  shows "chain_swap ns es ! i = es ! j \<and> chain_swap ns es ! j = es ! i"
  using assms
proof (induction ns arbitrary: es)
  case (Cons a ns)
  note d = twins_SomeD [OF Cons.prems(3)]
  show ?case
  proof (cases "n = a")
    case True
    have "\<forall>m \<in> set ns. \<forall>k l. twins m (swap_twins a es) = Some (k, l) \<longrightarrow> i \<noteq> k \<and> i \<noteq> l \<and> j \<noteq> k \<and> j \<noteq> l"
    proof (intro ballI allI impI)
      fix m k l assume m: "m \<in> set ns" "twins m (swap_twins a es) = Some (k, l)"
      with Cons.prems(1) have c: "compat a m" by simp
      with m(2) have "twins m es = Some (k, l)" by (simp add: twins_swap_other [OF compat_sym])
      from twins_apart [OF c _ this] Cons.prems(3) True
      show "i \<noteq> k \<and> i \<noteq> l \<and> j \<noteq> k \<and> j \<noteq> l" by blast
    qed
    then have "chain_swap ns (swap_twins a es) ! k = swap_twins a es ! k" if "k \<in> {i, j}" for k
      using Cons.prems(1) that by (intro chain_swap_frame) auto
    with d Cons.prems(3) True show ?thesis
      by (simp add: swap_twins_def nth_list_update)
  next
    case False
    with Cons.prems have c: "compat n a" and n: "n \<in> set ns" by (auto intro: compat_sym)
    have "twins a es = Some (k, l) \<Longrightarrow> i \<noteq> k \<and> i \<noteq> l \<and> j \<noteq> k \<and> j \<noteq> l" for k l
      using twins_apart [OF c Cons.prems(3)] by blast
    then have "swap_twins a es ! i = es ! i" "swap_twins a es ! j = es ! j"
      by (auto simp: swap_twins_def split: option.splits)
    with Cons.IH [of "swap_twins a es"] Cons.prems n twins_swap_other [OF c, of es] show ?thesis
      by simp
  qed
qed simp

definition ends_bak :: "bytes \<Rightarrow> bool" where
  "ends_bak a \<longleftrightarrow> drop (length a - 3) a = cstr ''bak''"

lemma compatI: "a \<noteq> b \<Longrightarrow> \<not> ends_bak a \<Longrightarrow> \<not> ends_bak b \<Longrightarrow> compat a b"
  by (auto simp: compat_def pentry_match_iff ends_bak_def cstr_def)

lemma sorted_compatI:
  "distinct ns \<Longrightarrow> list_all (\<lambda>n. \<not> ends_bak n) ns \<Longrightarrow> sorted_wrt compat ns"
  by (induction ns) (auto simp: list_all_iff intro!: compatI)

lemma swap_list_compat: "sorted_wrt compat (map cstr PTN_SWAP_LIST)"
proof (rule sorted_compatI)
  show "distinct (map cstr PTN_SWAP_LIST)"
    by (simp add: PTN_SWAP_LIST_def cstr_def)
  show "list_all (\<lambda>n. \<not> ends_bak n) (map cstr PTN_SWAP_LIST)"
    by (simp add: PTN_SWAP_LIST_def cstr_def ends_bak_def)
qed

lemma swap_names_compat: "sorted_wrt compat (swap_names e)"
  using swap_list_compat by (simp add: swap_names_def sorted_wrt_map sorted_wrt_filter)

lemma boot_chain_swap_concat:
  "entries_wf es \<Longrightarrow> gpt_boot_chain_swap e (concat es) (128 * length es) 128 =
     Some (if any_twins (swap_names e) es then 0 else 1, concat (chain_swap (swap_names e) es))"
  by (simp add: gpt_boot_chain_swap_def swap_loop_concat swap_names_def Let_def)

section \<open>Properties\<close>

text \<open>A table with a partition \<open>tz\<close>, an unrelated partition and the backup of \<open>tz\<close>.\<close>

definition wit_entry :: "u8 \<Rightarrow> string \<Rightarrow> bytes" where
  "wit_entry guid name = guid # replicate 55 0 @ concat (map (\<lambda>c. [c, 0]) (cstr name))
     @ replicate (72 - 2 * length name) 0"

definition wit_table :: "bytes list" where
  "wit_table = [wit_entry 1 ''tz'', wit_entry 2 ''modem'', wit_entry 3 ''tzbak'']"

lemma wit_table_wf: "entries_wf wit_table"
  by (simp add: entries_wf_def wit_table_def wit_entry_def cstr_def)

text \<open>
  C1. On a table of 128-byte entries \<open>gpt_pentry_seek\<close> always returns, and what it returns
  is the first entry whose name is the wanted name or that name with \<open>bak\<close> behind it:
  no match means that no entry carries either name.
\<close>

theorem pentry_seek_first_match:
  assumes "entries_wf es"
  shows "\<exists>r. gpt_pentry_seek nm (concat es) 0 (128 * length es) 128 = Some r \<and>
    (case r of
       None \<Rightarrow> (\<forall>i < length es. entry_name (es ! i) \<notin> {nm, nm @ cstr ''bak''})
     | Some off \<Rightarrow> (\<exists>i < length es. off = 128 * i \<and> entry_name (es ! i) \<in> {nm, nm @ cstr ''bak''}
         \<and> (\<forall>j < i. entry_name (es ! j) \<notin> {nm, nm @ cstr ''bak''})))"
proof (cases "entry_index nm es 0")
  case None
  with seek_concat [OF assms, of nm 0] entry_index_None [of nm es 0] show ?thesis
    by (simp add: pentry_match_iff)
next
  case (Some i)
  with seek_concat [OF assms, of nm 0] entry_index_SomeD [OF Some] show ?thesis
    by (auto simp: pentry_match_iff)
qed

theorem pentry_seek_first_match_witness:
  "\<exists>r. gpt_pentry_seek (cstr ''tz'') (concat wit_table) 0 (128 * length wit_table) 128 = Some r"
  using pentry_seek_first_match [OF wit_table_wf, of "cstr ''tz''"] by blast

text \<open>
  C2. Swapping the boot chain exchanges every partition of the list with its backup and touches
  nothing else. A pair is the first two positions of the table whose names are the wanted name
  or that name with \<open>bak\<close> behind it; on a UFS device the names that begin with
  \<open>xbl\<close> are left out of the list. The swap returns on every table of 128-byte entries; in
  the new table the two entries of each pair have changed places, every position that belongs to
  no pair holds its old entry, so that every entry is still there exactly once; the code is 1
  when there is no pair at all, and then the table is untouched, and 0 otherwise.
\<close>

theorem boot_chain_swap_permutes:
  assumes "entries_wf es"
  shows "\<exists>r es'. gpt_boot_chain_swap e (concat es) (128 * length es) 128 = Some (r, concat es')
    \<and> entries_wf es' \<and> length es' = length es \<and> mset es' = mset es
    \<and> (\<forall>n \<in> set (swap_names e). \<forall>i j. twins n es = Some (i, j) \<longrightarrow> es' ! i = es ! j \<and> es' ! j = es ! i)
    \<and> (\<forall>k < length es. (\<forall>n \<in> set (swap_names e). \<forall>i j. twins n es = Some (i, j) \<longrightarrow> k \<noteq> i \<and> k \<noteq> j)
          \<longrightarrow> es' ! k = es ! k)
    \<and> r = (if \<forall>n \<in> set (swap_names e). twins n es = None then 1 else 0)
    \<and> (r = 1 \<longrightarrow> es' = es)"
proof -
  let ?ns = "swap_names e"
  let ?es' = "chain_swap ?ns es"
  have r: "gpt_boot_chain_swap e (concat es) (128 * length es) 128 =
      Some (if \<forall>n \<in> set ?ns. twins n es = None then 1 else 0, concat ?es')"
    using assms by (simp add: boot_chain_swap_concat any_twins_iff [OF swap_names_compat])
  have same: "(\<forall>n \<in> set ?ns. twins n es = None) \<longrightarrow> ?es' = es"
    using not_twins_chain_swap [of ?ns es] by (simp add: any_twins_iff [OF swap_names_compat])
  have pairs: "\<forall>n \<in> set ?ns. \<forall>i j. twins n es = Some (i, j) \<longrightarrow> ?es' ! i = es ! j \<and> ?es' ! j = es ! i"
    using chain_swap_pair [OF swap_names_compat] by blast
  have frame: "\<forall>k < length es. (\<forall>n \<in> set ?ns. \<forall>i j. twins n es = Some (i, j) \<longrightarrow> k \<noteq> i \<and> k \<noteq> j)
      \<longrightarrow> ?es' ! k = es ! k"
    using chain_swap_frame [OF swap_names_compat] by blast
  show ?thesis
    by (rule exI, rule exI [of _ ?es'], intro conjI, rule r)
       (use assms same pairs frame in \<open>simp_all add: entries_wf_chain_swap mset_chain_swap\<close>)
qed

text \<open>On the witness table the swap really exchanges \<open>tz\<close> and its backup.\<close>

lemma wit_table_twins: "twins (cstr ''tz'') wit_table = Some (0, 2)"
  by code_simp

lemma wit_table_tz: "cstr ''tz'' \<in> set (swap_names wit_env)"
  by (simp add: swap_names_def PTN_SWAP_LIST_def strncmp_eq_def)

theorem boot_chain_swap_permutes_witness:
  "\<exists>es'. gpt_boot_chain_swap wit_env (concat wit_table) (128 * length wit_table) 128 = Some (0, concat es')
    \<and> mset es' = mset wit_table \<and> es' ! 0 = wit_entry 3 ''tzbak'' \<and> es' ! 2 = wit_entry 1 ''tz''"
proof -
  have w: "wit_table ! 0 = wit_entry 1 ''tz''" "wit_table ! 2 = wit_entry 3 ''tzbak''"
    by (simp_all add: wit_table_def)
  have "\<not> (\<forall>n \<in> set (swap_names wit_env). twins n wit_table = None)"
    using wit_table_tz wit_table_twins by (metis option.distinct(1))
  with boot_chain_swap_permutes [OF wit_table_wf, of wit_env] wit_table_tz wit_table_twins
  show ?thesis
    unfolding w [symmetric] by (metis (no_types, lifting))
qed

text \<open>
  Swapping the boot chain a second time undoes the first swap: the table comes back byte
  for byte, with the same return code.
\<close>

theorem boot_chain_swap_involution:
  assumes "entries_wf es"
  shows "\<exists>r arr. gpt_boot_chain_swap e (concat es) (128 * length es) 128 = Some (r, arr)
    \<and> gpt_boot_chain_swap e arr (128 * length es) 128 = Some (r, concat es)"
  using assms boot_chain_swap_concat [OF entries_wf_chain_swap [OF assms, of "swap_names e"], of e]
  by (simp add: boot_chain_swap_concat any_twins_chain_swap chain_swap_twice swap_names_compat)


theorem boot_chain_swap_involution_witness:
  "\<exists>r arr. gpt_boot_chain_swap wit_env (concat wit_table) (128 * length wit_table) 128 = Some (r, arr)
    \<and> gpt_boot_chain_swap wit_env arr (128 * length wit_table) 128 = Some (r, concat wit_table)"
  by (rule boot_chain_swap_involution [OF wit_table_wf])

end
