(* ===== verification/UfsBsg.thy ===== *)
theory UfsBsg
  imports GptBytes BlockDev
begin

unbundle bit_operations_syntax

text \<open>
  Switching the boot LUN of a UFS device: \<open>gpt-utils/recovery-ufs-bsg.cpp\<close> in the
  configuration the build file selects (\<open>_BSG_FRAMEWORK_KERNEL_HEADERS\<close>). The query request
  is built field by field, in big-endian byte order on a little-endian host, and the device
  side of the ioctl decodes it: a standard write of attribute 0 (\<open>bBootLunEn\<close>) selects
  the boot LUN.
\<close>

section \<open>Requests\<close>

definition htobe32 :: "u32 \<Rightarrow> u32" where
  "htobe32 x =
     push_bit 24 (x AND 0xff) OR push_bit 16 (drop_bit 8 x AND 0xff)
     OR push_bit 8 (drop_bit 16 x AND 0xff) OR (drop_bit 24 x AND 0xff)"

definition htobe16 :: "u16 \<Rightarrow> u16" where
  "htobe16 x = push_bit 8 (x AND 0xff) OR drop_bit 8 x"

definition DWORD :: "u32 \<Rightarrow> u32 \<Rightarrow> u32 \<Rightarrow> u32 \<Rightarrow> u32" where
  "DWORD b3 b2 b1 b0 = htobe32 (push_bit 24 b3 OR push_bit 16 b2 OR push_bit 8 b1 OR b0)"

datatype bsg_ioctl_dir = BSG_IOCTL_DIR_TO_DEV | BSG_IOCTL_DIR_FROM_DEV

record ufs_bsg_request =
  req_msgcode :: u32
  hdr_dword_0 :: u32
  hdr_dword_1 :: u32
  hdr_dword_2 :: u32
  qr_opcode :: u8
  qr_idn :: u8
  qr_index :: u8
  qr_selector :: u8
  qr_length :: u16
  qr_value :: u32

abbreviation (input) UTP_UPIU_QUERY_REQ :: u32 where "UTP_UPIU_QUERY_REQ \<equiv> 0x16"
abbreviation (input) QUERY_REQ_FUNC_STD_WRITE :: u8 where "QUERY_REQ_FUNC_STD_WRITE \<equiv> 0x81"
abbreviation (input) QUERY_REQ_OP_WRITE_DESC :: u8 where "QUERY_REQ_OP_WRITE_DESC \<equiv> 0x2"
abbreviation (input) QUERY_REQ_OP_WRITE_ATTR :: u8 where "QUERY_REQ_OP_WRITE_ATTR \<equiv> 0x4"
abbreviation (input) QUERY_ATTR_IDN_BOOT_LU_EN :: u8 where "QUERY_ATTR_IDN_BOOT_LU_EN \<equiv> 0x00"

definition zero_request :: ufs_bsg_request where
  "zero_request = \<lparr>req_msgcode = 0, hdr_dword_0 = 0, hdr_dword_1 = 0, hdr_dword_2 = 0,
     qr_opcode = 0, qr_idn = 0, qr_index = 0, qr_selector = 0, qr_length = 0, qr_value = 0\<rparr>"

definition compose_ufs_bsg_query_req ::
  "ufs_bsg_request \<Rightarrow> u8 \<Rightarrow> u8 \<Rightarrow> u8 \<Rightarrow> u8 \<Rightarrow> u8 \<Rightarrow> u16 \<Rightarrow> ufs_bsg_request" where
  "compose_ufs_bsg_query_req req func opcode idn index sel len =
     req\<lparr>req_msgcode := UTP_UPIU_QUERY_REQ,
         hdr_dword_0 := DWORD UTP_UPIU_QUERY_REQ 0 0 0,
         hdr_dword_1 := DWORD 0 (ucast func) 0 0,
         hdr_dword_2 := DWORD 0 0 (ucast (drop_bit 8 len)) (ucast (ucast len :: u8)),
         qr_opcode := opcode, qr_idn := idn, qr_index := index, qr_selector := sel,
         qr_length := htobe16 len\<rparr>"

text \<open>
  The device side of \<open>ioctl (fd, SG_IO, ...)\<close>. A query request (message code 0x16) with the
  standard-write function in its header and the write-attribute opcode stores the big-endian
  value of the request into the named attribute.
\<close>

definition ufs_device_query :: "ufs_bsg_request \<Rightarrow> bsg_ioctl_dir \<Rightarrow> world \<Rightarrow> world" where
  "ufs_device_query req dir w =
     (if req_msgcode req = UTP_UPIU_QUERY_REQ \<and> dir = BSG_IOCTL_DIR_TO_DEV
         \<and> hdr_dword_1 req = DWORD 0 0x81 0 0
         \<and> qr_opcode req = QUERY_REQ_OP_WRITE_ATTR \<and> qr_idn req = QUERY_ATTR_IDN_BOOT_LU_EN
      then w\<lparr>w_boot_lun := Some (ucast (htobe32 (qr_value req)))\<rparr> else w)"

section \<open>recovery-ufs-bsg.cpp\<close>

definition ufs_bsg_ioctl :: "env \<Rightarrow> ufs_bsg_request \<Rightarrow> bsg_ioctl_dir \<Rightarrow> world \<Rightarrow> int \<times> world" where
  "ufs_bsg_ioctl e req dir w =
     (let (ok, w) = sys e w; ret = (if ok then 0 else -1);
          (reply_ok, w) = sys e w;
          w = (if ok \<and> reply_ok then ufs_device_query req dir w else w)
      in (if reply_ok then ret else -11, w))"

definition ufs_query_attr ::
  "env \<Rightarrow> u32 \<Rightarrow> u8 \<Rightarrow> u8 \<Rightarrow> u8 \<Rightarrow> u8 \<Rightarrow> u8 \<Rightarrow> world \<Rightarrow> int \<times> world" where
  "ufs_query_attr e v func opcode idn index sel w =
     (let dir = (if opcode = QUERY_REQ_OP_WRITE_DESC \<or> opcode = QUERY_REQ_OP_WRITE_ATTR
                 then BSG_IOCTL_DIR_TO_DEV else BSG_IOCTL_DIR_FROM_DEV);
          req = zero_request\<lparr>qr_value := htobe32 v\<rparr>;
          req = compose_ufs_bsg_query_req req func opcode idn index sel 0
      in ufs_bsg_ioctl e req dir w)"

definition get_ufs_bsg_dev :: "env \<Rightarrow> int \<times> string" where
  "get_ufs_bsg_dev e =
     (case env_dir e ''/dev'' of
        None \<Rightarrow> (-22, ''/dev/ufs-bsg'')
      | Some names \<Rightarrow>
         (case find (\<lambda>n. n = ''ufs-bsg'' \<or> n = ''ufs-bsg0'') names of
            None \<Rightarrow> (-19, ''/dev/ufs-bsg'')
          | Some n \<Rightarrow> (0, ''/dev/'' @ n)))"

definition ufs_bsg_dev_open :: "env \<Rightarrow> string \<Rightarrow> world \<Rightarrow> int \<times> world" where
  "ufs_bsg_dev_open e dev w =
     (let errno = int (env_errno e (w_tick w)) + 1; (ok, w) = sys e w
      in (if ok then 0 else errno, w))"

definition set_boot_lun :: "env \<Rightarrow> u8 \<Rightarrow> world \<Rightarrow> int \<times> world" where
  "set_boot_lun e lun_id w =
     (let boot_lun_id = ucast lun_id :: u32; (ret, dev) = get_ufs_bsg_dev e in
      if ret \<noteq> 0 then (ret, w)
      else (let (ret, w) = ufs_bsg_dev_open e dev w in
        if ret \<noteq> 0 then (ret, w)
        else ufs_query_attr e boot_lun_id QUERY_REQ_FUNC_STD_WRITE QUERY_REQ_OP_WRITE_ATTR
               QUERY_ATTR_IDN_BOOT_LU_EN 0 0 w))"

section \<open>Properties\<close>

lemma htobe32_twice: "htobe32 (htobe32 x) = x"
proof (rule bit_word_eqI)
  fix n assume "n < LENGTH(32)"
  then have n: "n < 32" by simp
  have m: "(0xff :: u32) = mask 8" by (simp add: mask_eq_exp_minus_1)
  consider "n < 8" | "8 \<le> n" "n < 16" | "16 \<le> n" "n < 24" | "24 \<le> n"
    using n by linarith
  then show "bit (htobe32 (htobe32 x)) n = bit x n"
    unfolding m htobe32_def using n by cases (auto simp: bit_simps less_diff_conv2 le_diff_conv2)
qed

lemma ufs_bsg_ioctl_frame:
  "ufs_bsg_ioctl e req dir w = (r, w') \<Longrightarrow> w_dev w' = w_dev w"
  by (auto simp: ufs_bsg_ioctl_def ufs_device_query_def sys_def split: if_splits)

lemma ucast_u32_u8 [simp]: "ucast (ucast x :: u32) = (x :: u8)"
  by (rule bit_word_eqI) (simp add: bit_simps)

lemma ufs_write_boot_lun:
  "ufs_query_attr e (ucast lun) 0x81 4 0 0 0 w = (r, w') \<Longrightarrow>
   w_boot_lun w' = (if r = 0 then Some lun else w_boot_lun w)"
  by (auto simp: ufs_query_attr_def ufs_bsg_ioctl_def ufs_device_query_def
      compose_ufs_bsg_query_req_def zero_request_def sys_def htobe32_twice split: if_splits)

lemma set_boot_lun_frame: "set_boot_lun e lun w = (r, w') \<Longrightarrow> w_dev w' = w_dev w"
  by (auto simp: set_boot_lun_def ufs_bsg_dev_open_def ufs_query_attr_def sys_def Let_def
      split: prod.splits if_splits dest!: ufs_bsg_ioctl_frame)

lemma set_boot_lun_result:
  "set_boot_lun e lun w = (r, w') \<Longrightarrow> w_boot_lun w' = (if r = 0 then Some lun else w_boot_lun w)"
  by (auto simp: set_boot_lun_def ufs_bsg_dev_open_def sys_def Let_def
      split: prod.splits if_splits dest!: ufs_write_boot_lun)

end
