(* ===== verification/GptUpdate.thy ===== *)
theory GptUpdate
  imports GptEntry UfsBsg
begin

unbundle bit_operations_syntax

text \<open>
  The failsafe update protocol of \<open>gpt-utils.cpp\<close>: reading and marking the state of the
  two GPT headers (\<open>gpt_get_state\<close>, \<open>gpt_set_state\<close>), rewriting the secondary table
  (\<open>gpt2_set_boot_chain\<close>), choosing the boot LUN (\<open>gpt_utils_set_xbl_boot_partition\<close>) and
  the stage machine \<open>prepare_partitions\<close> that \<open>prepare_boot_update\<close> runs on every LUN.
  Functions return their C return code and the world they leave.
\<close>

section \<open>Types\<close>

datatype boot_update_stage = UPDATE_MAIN | UPDATE_BACKUP | UPDATE_FINALIZE
datatype gpt_instance = PRIMARY_GPT | SECONDARY_GPT
datatype boot_chain = NORMAL_BOOT | BACKUP_BOOT
datatype gpt_state = GPT_OK | GPT_BAD_SIGNATURE | GPT_BAD_CRC

fun stage_num :: "boot_update_stage \<Rightarrow> int" where
  "stage_num UPDATE_MAIN = 1"
| "stage_num UPDATE_BACKUP = 2"
| "stage_num UPDATE_FINALIZE = 3"

definition XBL_PRIMARY :: string where "XBL_PRIMARY = ''/dev/block/bootdevice/by-name/xbl''"
definition XBL_BACKUP :: string where "XBL_BACKUP = ''/dev/block/bootdevice/by-name/xblbak''"
definition XBL_AB_PRIMARY :: string where "XBL_AB_PRIMARY = ''/dev/block/bootdevice/by-name/xbl_a''"
definition XBL_AB_SECONDARY :: string where "XBL_AB_SECONDARY = ''/dev/block/bootdevice/by-name/xbl_b''"
definition BLK_DEV_FILE :: string where "BLK_DEV_FILE = ''/dev/block/mmcblk0''"
definition BOOT_DEV_DIR :: string where "BOOT_DEV_DIR = ''/dev/block/bootdevice/by-name''"

abbreviation (input) PATH_TRUNCATE_LOC :: nat where "PATH_TRUNCATE_LOC \<equiv> 14"
abbreviation (input) LUN_NAME_START_LOC :: nat where "LUN_NAME_START_LOC \<equiv> 11"
abbreviation (input) MAX_LUNS :: nat where "MAX_LUNS \<equiv> 26"

section \<open>Header state\<close>

definition gpt_header_offset :: "env \<Rightarrow> fd \<Rightarrow> gpt_instance \<Rightarrow> u32 \<Rightarrow> world \<Rightarrow> int \<times> world" where
  "gpt_header_offset e fd gpt blk_size w =
     (if gpt = PRIMARY_GPT then (int (unat blk_size), w)
      else (let (sz, w) = lseek_end e fd w in (sz - int (unat blk_size), w)))"

definition header_state :: "env \<Rightarrow> bytes \<Rightarrow> gpt_state option" where
  "header_state e gpt_header =
     (if length gpt_header < length GPT_SIGNATURE then None
      else do {
        let state = (if take (length GPT_SIGNATURE) gpt_header \<noteq> GPT_SIGNATURE
                     then GPT_BAD_SIGNATURE else GPT_OK);
        gpt_header_size \<leftarrow> GET_4_BYTES gpt_header HEADER_SIZE_OFFSET;
        crc \<leftarrow> GET_4_BYTES gpt_header HEADER_CRC_OFFSET;
        hdr0 \<leftarrow> PUT_4_BYTES gpt_header HEADER_CRC_OFFSET 0;
        c \<leftarrow> crc32 e hdr0 gpt_header_size;
        Some (if c \<noteq> crc then GPT_BAD_CRC else state)
      })"

text \<open>
  \<open>gpt_get_state\<close> and \<open>gpt_set_state\<close> open with the same statements: block size, buffer,
  header position, read. \<open>None\<close> inside is their common \<open>goto error\<close>.
\<close>

definition read_header ::
  "env \<Rightarrow> fd \<Rightarrow> gpt_instance \<Rightarrow> world \<Rightarrow> ((bytes \<times> int \<times> u32) option \<times> world) option" where
  "read_header e fd gpt w =
     (let (bs, w) = sys_blksz e fd w in
      case bs of None \<Rightarrow> Some (None, w)
      | Some blk_size \<Rightarrow>
       (let (hdr, w) = malloc e (unat blk_size) w in
        case hdr of None \<Rightarrow> Some (None, w)
        | Some gpt_header \<Rightarrow>
         (let (off, w) = gpt_header_offset e fd gpt blk_size w in
          if off < 0 then Some (None, w)
          else do {
            (r, gpt_header, w) \<leftarrow> blk_rw e fd False off gpt_header (unat blk_size) w;
            Some (if r \<noteq> 0 then None else Some (gpt_header, off, blk_size), w)
          })))"

definition gpt_get_state ::
  "env \<Rightarrow> fd \<Rightarrow> gpt_instance \<Rightarrow> world \<Rightarrow> (int \<times> gpt_state \<times> world) option" where
  "gpt_get_state e fd gpt w = do {
     (h, w) \<leftarrow> read_header e fd gpt w;
     case h of None \<Rightarrow> Some (-1, GPT_OK, w)
     | Some (gpt_header, _, _) \<Rightarrow> do {
         st \<leftarrow> header_state e gpt_header;
         Some (0, st, w)
       }
   }"

text \<open>\<open>gpt_header_size\<close> bytes are checksummed with the CRC field cleared, then it is filled in.\<close>

definition put_header_crc :: "env \<Rightarrow> bytes \<Rightarrow> bytes option" where
  "put_header_crc e gpt_header = do {
     gpt_header_size \<leftarrow> GET_4_BYTES gpt_header HEADER_SIZE_OFFSET;
     gpt_header \<leftarrow> PUT_4_BYTES gpt_header HEADER_CRC_OFFSET 0;
     crc \<leftarrow> crc32 e gpt_header gpt_header_size;
     PUT_4_BYTES gpt_header HEADER_CRC_OFFSET crc
   }"

definition mark_header :: "gpt_state \<Rightarrow> bytes \<Rightarrow> bytes option option" where
  \<comment> \<open>the outer option is defined behaviour, the inner one the \<open>Invalid state\<close> branch\<close>
  "mark_header state gpt_header =
     (case state of
        GPT_OK \<Rightarrow> (if length GPT_SIGNATURE \<le> length gpt_header
                    then Some (Some (overwrite 0 GPT_SIGNATURE gpt_header)) else None)
      | GPT_BAD_SIGNATURE \<Rightarrow> (if gpt_header = [] then None else Some (Some (overwrite 0 [0] gpt_header)))
      | GPT_BAD_CRC \<Rightarrow> Some None)"

definition gpt_set_state ::
  "env \<Rightarrow> fd \<Rightarrow> gpt_instance \<Rightarrow> gpt_state \<Rightarrow> world \<Rightarrow> (int \<times> world) option" where
  "gpt_set_state e fd gpt state w = do {
     (h, w) \<leftarrow> read_header e fd gpt w;
     case h of None \<Rightarrow> Some (-1, w)
     | Some (gpt_header, off, blk_size) \<Rightarrow> do {
         marked \<leftarrow> mark_header state gpt_header;
         case marked of None \<Rightarrow> Some (-1, w)
         | Some gpt_header \<Rightarrow> do {
             gpt_header \<leftarrow> put_header_crc e gpt_header;
             (r, _, w) \<leftarrow> blk_rw e fd True off gpt_header (unat blk_size) w;
             Some (if r \<noteq> 0 then -1 else 0, w)
           }
       }
   }"

section \<open>gpt2_set_boot_chain\<close>

text \<open>
  The primary header locates the primary entries; they are verified, rearranged when the backup
  chain is wanted, and written, with fresh checksums, where the secondary header points. The
  function is split where the code turns from reading to writing: \<open>gpt2_load\<close> ends with the
  secondary header read into the buffer, \<open>gpt2_store\<close> starts after the swap. \<open>Inl\<close> is a
  return code.
\<close>

definition gpt2_load ::
  "env \<Rightarrow> fd \<Rightarrow> world \<Rightarrow> ((int + bytes \<times> u32 \<times> u32 \<times> bytes \<times> int \<times> u32) \<times> world) option" where
  "gpt2_load e fd w =
     (let (bs, w) = sys_blksz e fd w in
      case bs of None \<Rightarrow> Some (Inl (-1), w)
      | Some blk_size \<Rightarrow>
       (let (hdr, w) = malloc e (unat blk_size) w in
        case hdr of None \<Rightarrow> Some (Inl (-1), w)
        | Some gpt_header \<Rightarrow>
         (let (sz, w) = lseek_end e fd w; gpt2_header_offset = sz - int (unat blk_size) in
          if gpt2_header_offset < 0 then Some (Inl (-1), w)
          else do {
            (r, gpt_header, w) \<leftarrow> blk_rw e fd False (int (unat blk_size)) gpt_header (unat blk_size) w;
            if r \<noteq> 0 then Some (Inl r, w)
            else do {
              lba \<leftarrow> GET_8_BYTES gpt_header PENTRIES_OFFSET;
              let pentries_start_offset = lba * ucast blk_size;
              pentry_size \<leftarrow> GET_4_BYTES gpt_header PENTRY_SIZE_OFFSET;
              count \<leftarrow> GET_4_BYTES gpt_header PARTITION_COUNT_OFFSET;
              let pentries_array_size = count * pentry_size;
              let (pe, w) = calloc e (unat pentries_array_size) w;
              case pe of None \<Rightarrow> Some (Inl (-1), w)
              | Some pentries \<Rightarrow> do {
                (r, pentries, w) \<leftarrow> blk_rw e fd False (sint pentries_start_offset) pentries
                                     (unat pentries_array_size) w;
                if r \<noteq> 0 then Some (Inl r, w)
                else do {
                  crc \<leftarrow> crc32 e pentries pentries_array_size;
                  want \<leftarrow> GET_4_BYTES gpt_header PARTITION_CRC_OFFSET;
                  if want \<noteq> crc then Some (Inl (-1), w)
                  else do {
                    (r, gpt_header, w) \<leftarrow> blk_rw e fd False gpt2_header_offset gpt_header (unat blk_size) w;
                    if r \<noteq> 0 then Some (Inl r, w)
                    else Some (Inr (pentries, pentries_array_size, pentry_size, gpt_header,
                                    gpt2_header_offset, blk_size), w)
                  }
                }
              }
            }
          })))"

definition gpt2_store ::
  "env \<Rightarrow> fd \<Rightarrow> bytes \<Rightarrow> u32 \<Rightarrow> bytes \<Rightarrow> int \<Rightarrow> u32 \<Rightarrow> world \<Rightarrow> (int \<times> world) option" where
  "gpt2_store e fd pentries pentries_array_size gpt_header gpt2_header_offset blk_size w = do {
     gpt_header_size \<leftarrow> GET_4_BYTES gpt_header HEADER_SIZE_OFFSET;
     lba \<leftarrow> GET_8_BYTES gpt_header PENTRIES_OFFSET;
     let pentries_start_offset = lba * ucast blk_size;
     crc \<leftarrow> crc32 e pentries pentries_array_size;
     gpt_header \<leftarrow> PUT_4_BYTES gpt_header PARTITION_CRC_OFFSET crc;
     gpt_header \<leftarrow> PUT_4_BYTES gpt_header HEADER_CRC_OFFSET 0;
     crc \<leftarrow> crc32 e gpt_header gpt_header_size;
     gpt_header \<leftarrow> PUT_4_BYTES gpt_header HEADER_CRC_OFFSET crc;
     (r, _, w) \<leftarrow> blk_rw e fd True gpt2_header_offset gpt_header (unat blk_size) w;
     if r \<noteq> 0 then Some (r, w)
     else do {
       (r, _, w) \<leftarrow> blk_rw e fd True (sint pentries_start_offset) pentries
                     (unat pentries_array_size) w;
       Some (r, w)
     }
   }"

definition gpt2_set_boot_chain :: "env \<Rightarrow> fd \<Rightarrow> boot_chain \<Rightarrow> world \<Rightarrow> (int \<times> world) option" where
  "gpt2_set_boot_chain e fd boot w = do {
     (x, w) \<leftarrow> gpt2_load e fd w;
     case x of Inl r \<Rightarrow> Some (r, w)
     | Inr (pentries, pentries_array_size, pentry_size, gpt_header, gpt2_header_offset, blk_size) \<Rightarrow> do {
         (r, pentries) \<leftarrow>
           (if boot = BACKUP_BOOT
            then gpt_boot_chain_swap e pentries (unat pentries_array_size) (unat pentry_size)
            else Some (0, pentries));
         if r \<noteq> 0 then Some (r, w)
         else gpt2_store e fd pentries pentries_array_size gpt_header gpt2_header_offset blk_size w
       }
   }"

section \<open>Boot LUN\<close>

definition get_scsi_node_from_bootdevice :: "env \<Rightarrow> string \<Rightarrow> string option" where
  "get_scsi_node_from_bootdevice e bootdev_path =
     (case env_readlink e bootdev_path of
        None \<Rightarrow> None
      | Some real_path \<Rightarrow>
         if length real_path < PATH_TRUNCATE_LOC + 1 then None
         else (let real_path = take PATH_TRUNCATE_LOC real_path in
           if length real_path < LUN_NAME_START_LOC + 1 then None
           else (case env_dir e (''/sys/block/'' @ drop LUN_NAME_START_LOC real_path
                                  @ ''/device/scsi_generic'') of
                   None \<Rightarrow> None
                 | Some names \<Rightarrow>
                    map_option (\<lambda>n. ''/dev/'' @ n)
                      (find (\<lambda>n. \<not> strncmp_eq n ''.'' 1 \<and> strncmp_eq n ''sg'' 2) names))))"

definition gpt_utils_set_xbl_boot_partition :: "env \<Rightarrow> boot_chain \<Rightarrow> world \<Rightarrow> int \<times> world" where
  "gpt_utils_set_xbl_boot_partition e chain w =
     (let (boot_lun_id, boot_dev) =
        (case chain of
           BACKUP_BOOT \<Rightarrow> (2 :: u8,
             if env_stat e XBL_BACKUP then Some XBL_BACKUP
             else if env_stat e XBL_AB_SECONDARY then Some XBL_AB_SECONDARY else None)
         | NORMAL_BOOT \<Rightarrow> (1,
             if env_stat e XBL_PRIMARY then Some XBL_PRIMARY
             else if env_stat e XBL_AB_PRIMARY then Some XBL_AB_PRIMARY else None))
      in case boot_dev of
           None \<Rightarrow> (-1, w)
         | Some dev \<Rightarrow>
            if (\<not> env_stat e XBL_PRIMARY \<or> \<not> env_stat e XBL_BACKUP) \<and>
               (\<not> env_stat e XBL_AB_PRIMARY \<or> \<not> env_stat e XBL_AB_SECONDARY) then (-1, w)
            else (case get_scsi_node_from_bootdevice e dev of
                    None \<Rightarrow> (-1, w)
                  | Some sg_dev_node \<Rightarrow>
                     (let (r, w) = set_boot_lun e boot_lun_id w in (if r \<noteq> 0 then -1 else 0, w))))"

section \<open>The stage machine\<close>

definition internal_stage :: "gpt_state \<Rightarrow> gpt_state \<Rightarrow> boot_update_stage option" where
  "internal_stage gpt_prim gpt_second =
     (if gpt_prim = GPT_BAD_CRC \<or> gpt_second = GPT_BAD_CRC then None
      else if gpt_prim = GPT_BAD_SIGNATURE \<and> gpt_second = GPT_BAD_SIGNATURE then None
      else if gpt_prim = GPT_OK \<and> gpt_second = GPT_OK then Some UPDATE_MAIN
      else if gpt_prim = GPT_BAD_SIGNATURE then Some UPDATE_BACKUP
      else if gpt_second = GPT_BAD_SIGNATURE then Some UPDATE_FINALIZE
      else None)"

text \<open>The boot LUN switch both of the first two stages start with.\<close>

definition stage_boot_lun :: "env \<Rightarrow> boot_chain \<Rightarrow> world \<Rightarrow> int \<times> world" where
  "stage_boot_lun e chain w =
     (if gpt_utils_is_ufs_device e then
        (if \<not> env_stat e XBL_PRIMARY \<or> \<not> env_stat e XBL_BACKUP then (0, w)
         else gpt_utils_set_xbl_boot_partition e chain w)
      else (0, w))"

definition stage_main :: "env \<Rightarrow> fd \<Rightarrow> world \<Rightarrow> (int \<times> world) option" where
  "stage_main e fd w =
     (let (r, w) = stage_boot_lun e BACKUP_BOOT w in
      if r \<noteq> 0 then Some (r, w)
      else do {
        (r, w) \<leftarrow> gpt2_set_boot_chain e fd BACKUP_BOOT w;
        if r \<noteq> 0 then Some (if r < 0 then r else 0, w)
        else gpt_set_state e fd PRIMARY_GPT GPT_BAD_SIGNATURE w
      })"

definition stage_backup :: "env \<Rightarrow> fd \<Rightarrow> world \<Rightarrow> (int \<times> world) option" where
  "stage_backup e fd w =
     (let (r, w) = stage_boot_lun e NORMAL_BOOT w in
      if r \<noteq> 0 then Some (r, w)
      else do {
        (r, w) \<leftarrow> gpt_set_state e fd PRIMARY_GPT GPT_OK w;
        if r \<noteq> 0 then Some (r, w)
        else gpt_set_state e fd SECONDARY_GPT GPT_BAD_SIGNATURE w
      })"

definition stage_finalize :: "env \<Rightarrow> fd \<Rightarrow> world \<Rightarrow> (int \<times> world) option" where
  "stage_finalize e fd w = do {
     (r, w) \<leftarrow> gpt2_set_boot_chain e fd NORMAL_BOOT w;
     if r < 0 then Some (r, w)
     else gpt_set_state e fd SECONDARY_GPT GPT_OK w
   }"

definition prepare_partitions :: "env \<Rightarrow> boot_update_stage \<Rightarrow> string \<Rightarrow> world \<Rightarrow> (int \<times> world) option" where
  "prepare_partitions e stage dev_path w =
     (let (ofd, w) = sys_open e dev_path w in
      case ofd of None \<Rightarrow> Some (-1, w)
      | Some fd \<Rightarrow> do {
          (r, gpt_prim, w) \<leftarrow> gpt_get_state e fd PRIMARY_GPT w;
          if r \<noteq> 0 then Some (1, w)
          else do {
            (r, gpt_second, w) \<leftarrow> gpt_get_state e fd SECONDARY_GPT w;
            if r \<noteq> 0 then Some (1, w)
            else (case internal_stage gpt_prim gpt_second of
                None \<Rightarrow> Some (-1, w)
              | Some istage \<Rightarrow>
                 if stage_num stage = stage_num istage - 1 then Some (0, w)
                 else if stage \<noteq> istage then Some (-1, w)
                 else (case stage of
                     UPDATE_MAIN \<Rightarrow> stage_main e fd w
                   | UPDATE_BACKUP \<Rightarrow> stage_backup e fd w
                   | UPDATE_FINALIZE \<Rightarrow> stage_finalize e fd w))
          }
        })"

section \<open>prepare_boot_update\<close>

text \<open>
  \<open>update_data\<close> is the array of LUN paths in use, oldest first: \<open>num_valid_entries\<close> is its
  length. An entry past the array is \<open>None\<close>.
\<close>

definition add_lun_to_update_list :: "env \<Rightarrow> string \<Rightarrow> string list \<Rightarrow> (int \<times> string list) option" where
  "add_lun_to_update_list e lun_path lun_list =
     (if \<not> env_stat e lun_path then Some (-1, lun_list)
      else if length lun_list = 0 then Some (0, [lun_path])
      else if length lun_list < MAX_LUNS - 1 \<and>
              (\<exists>l \<in> set lun_list. strncmp_eq lun_path l (length l)) then Some (0, lun_list)
      else if length lun_list < MAX_LUNS then Some (0, lun_list @ [lun_path])
      else None)"

fun collect_luns :: "env \<Rightarrow> string list \<Rightarrow> string list \<Rightarrow> string list option" where
  "collect_luns e [] luns = Some luns"
| "collect_luns e (n # ns) luns =
     (let buf = BOOT_DEV_DIR @ ''/'' @ n @ ''bak'' in
      if strncmp_eq n ''xbl'' 3 \<or> \<not> env_stat e buf then collect_luns e ns luns
      else (case env_readlink e buf of
              None \<Rightarrow> collect_luns e ns luns
            | Some real_path \<Rightarrow>
               if length real_path < PATH_TRUNCATE_LOC + 1 then collect_luns e ns luns
               else do {
                 (_, luns) \<leftarrow> add_lun_to_update_list e (take PATH_TRUNCATE_LOC real_path) luns;
                 collect_luns e ns luns
               }))"

fun prepare_luns :: "env \<Rightarrow> boot_update_stage \<Rightarrow> string list \<Rightarrow> bool \<Rightarrow> world \<Rightarrow> (bool \<times> world) option" where
  "prepare_luns e stage [] is_error w = Some (is_error, w)"
| "prepare_luns e stage (l # ls) is_error w = do {
     (rcode, w) \<leftarrow> prepare_partitions e stage l w;
     prepare_luns e stage ls (is_error \<or> rcode \<noteq> 0) w
   }"

definition prepare_boot_update :: "env \<Rightarrow> boot_update_stage \<Rightarrow> world \<Rightarrow> (int \<times> world) option" where
  "prepare_boot_update e stage w =
     (if \<not> gpt_utils_is_ufs_device e then prepare_partitions e stage BLK_DEV_FILE w
      else do {
        luns \<leftarrow> collect_luns e PTN_SWAP_LIST [];
        (is_error, w) \<leftarrow> prepare_luns e stage luns False w;
        Some (if is_error then -1 else 0, w)
      })"

end
