(* ===== verification/GptSafety.thy ===== *)
theory GptSafety
  imports GptUpdate
begin

text \<open>
  Correctness of the update protocol of \<open>GptUpdate\<close>. \<open>hstate\<close> is the state of a header as
  it lies on a device; the lemmas say what each routine reads and how it moves a header's state,
  under every pattern of failing calls. \<open>GptStages\<close> puts them together for whole stages.
\<close>

section \<open>Headers on a device\<close>

definition header_off :: "blkdev \<Rightarrow> gpt_instance \<Rightarrow> nat" where
  "header_off d gpt =
     (if gpt = PRIMARY_GPT then unat (bd_blksz d) else length (bd_data d) - unat (bd_blksz d))"

definition hdr_bytes :: "blkdev \<Rightarrow> gpt_instance \<Rightarrow> bytes" where
  "hdr_bytes d gpt = slice (header_off d gpt) (unat (bd_blksz d)) (bd_data d)"

definition hstate :: "env \<Rightarrow> blkdev \<Rightarrow> gpt_instance \<Rightarrow> gpt_state option" where
  "hstate e d gpt = header_state e (hdr_bytes d gpt)"

text \<open>A block holds the 92 bytes of a header, and the device has a protective block, two header
  blocks and nothing in common between them.\<close>

definition geom :: "blkdev \<Rightarrow> bool" where
  [guard_defs]: "geom d \<longleftrightarrow> 92 \<le> unat (bd_blksz d) \<and> 3 * unat (bd_blksz d) \<le> length (bd_data d)"

text \<open>Device \<open>d'\<close> is \<open>d\<close> outside the given range, with the same size and block size.\<close>

definition same_outside :: "nat \<Rightarrow> nat \<Rightarrow> blkdev \<Rightarrow> blkdev \<Rightarrow> bool" where
  "same_outside p n d d' \<longleftrightarrow> bd_blksz d' = bd_blksz d \<and> length (bd_data d') = length (bd_data d) \<and>
     (\<forall>b m. apart p n b m \<longrightarrow> slice b m (bd_data d') = slice b m (bd_data d))"

lemma geom_off: "geom d \<Longrightarrow> header_off d gpt + unat (bd_blksz d) \<le> length (bd_data d)"
  by (cases gpt) (auto simp: geom_def header_off_def)

lemma length_hdr_bytes [simp]: "geom d \<Longrightarrow> length (hdr_bytes d gpt) = unat (bd_blksz d)"
  by (simp add: hdr_bytes_def length_slice geom_off)

lemma headers_apart:
  "geom d \<Longrightarrow> gpt \<noteq> gpt' \<Longrightarrow>
   apart (header_off d gpt) (unat (bd_blksz d)) (header_off d gpt') (unat (bd_blksz d))"
  by (cases gpt; cases gpt') (auto simp: geom_def header_off_def apart_def)

lemma same_outside_geom: "same_outside p n d d' \<Longrightarrow> geom d' = geom d"
  by (simp add: same_outside_def geom_def)

lemma same_outside_off:
  "same_outside p n d d' \<Longrightarrow> header_off d' gpt = header_off d gpt"
  "same_outside p n d d' \<Longrightarrow> bd_blksz d' = bd_blksz d"
  by (auto simp: same_outside_def header_off_def)

lemma same_outside_hdr:
  "same_outside p n d d' \<Longrightarrow> apart p n (header_off d gpt) (unat (bd_blksz d)) \<Longrightarrow>
   hdr_bytes d' gpt = hdr_bytes d gpt"
  by (auto simp: same_outside_def hdr_bytes_def header_off_def split: if_splits)

lemma same_outside_hstate:
  "same_outside p n d d' \<Longrightarrow> apart p n (header_off d gpt) (unat (bd_blksz d)) \<Longrightarrow>
   hstate e d' gpt = hstate e d gpt"
  by (simp add: hstate_def same_outside_hdr)

section \<open>Checksums\<close>

lemma length_SIGNATURE [simp]: "length GPT_SIGNATURE = 9"
  by (simp add: GPT_SIGNATURE_def)

lemma take_overwrite: "n \<le> p \<Longrightarrow> p \<le> length xs \<Longrightarrow> take n (overwrite p bs xs) = take n xs"
  by (simp add: overwrite_def)

lemma overwrite_twice:
  "length bs = length cs \<Longrightarrow> p + length bs \<le> length xs \<Longrightarrow>
   overwrite p cs (overwrite p bs xs) = overwrite p cs xs"
  by (simp add: overwrite_def)

text \<open>After \<open>put_header_crc\<close> the checksum is right, so only the signature decides the state.\<close>

lemma put_header_crc_state:
  assumes "put_header_crc e h = Some h'"
  shows "length h' = length h"
    and "20 \<le> length h"
    and "take 9 h' = take 9 h"
    and "header_state e h' = Some (if take 9 h = GPT_SIGNATURE then GPT_OK else GPT_BAD_SIGNATURE)"
proof -
  from assms obtain n c where n: "GET_4_BYTES h 12 = Some n" and len: "20 \<le> length h"
    and c: "crc32 e (overwrite 16 (le4_bytes 0) h) n = Some c"
    and h': "h' = overwrite 16 (le4_bytes c) h"
    by (auto simp: put_header_crc_def bind_eq_Some_conv PUT_4_BYTES_Some overwrite_twice)
  then show "length h' = length h" "20 \<le> length h" "take 9 h' = take 9 h"
    by (auto simp: take_overwrite)
  have "GET_4_BYTES h' 12 = Some n" "GET_4_BYTES h' 16 = Some c"
    using n len by (simp_all add: h' slice_simps apart_def)
  moreover have "PUT_4_BYTES h' 16 0 = Some (overwrite 16 (le4_bytes 0) h)"
    using len by (simp add: h' PUT_4_BYTES_Some overwrite_twice)
  ultimately show "header_state e h' = Some (if take 9 h = GPT_SIGNATURE then GPT_OK else GPT_BAD_SIGNATURE)"
    using c len \<open>take 9 h' = take 9 h\<close> \<open>length h' = length h\<close>
    by (simp add: header_state_def)
qed

lemma put_header_crc_tail:
  "put_header_crc e h = Some h' \<Longrightarrow> 20 \<le> p \<Longrightarrow> slice p n h' = slice p n h"
  by (auto simp: put_header_crc_def bind_eq_Some_conv PUT_4_BYTES_Some overwrite_twice apart_def
      intro!: slice_overwrite_apart)

lemma mark_header_tail:
  "mark_header st h = Some (Some h') \<Longrightarrow> 9 \<le> p \<Longrightarrow> slice p n h' = slice p n h"
  by (cases h) (auto simp: mark_header_def apart_def split: gpt_state.splits if_splits
      intro!: slice_overwrite_apart)

lemma GET_8_cong:
  assumes "slice p 8 h' = slice p 8 h" "length h' = length h"
  shows "GET_8_BYTES h' p = GET_8_BYTES h p"
proof (cases "p + 8 \<le> length h")
  case True
  then have "h' ! (p + i) = h ! (p + i)" if "i < 8" for i
    using nth_slice [of p 8 h i] nth_slice [of p 8 h' i] assms that by simp
  from this [of 0] this [of 1] this [of 2] this [of 3] this [of 4] this [of 5] this [of 6] this [of 7]
  show ?thesis using assms(2) by (simp add: GET_8_BYTES_def)
qed (simp add: GET_8_BYTES_def assms)

lemma mark_header_sig:
  assumes "mark_header st h = Some (Some h')"
  shows "length h' = length h"
    and "st = (if take 9 h' = GPT_SIGNATURE then GPT_OK else GPT_BAD_SIGNATURE)"
  using assms
  by (auto simp: mark_header_def GPT_SIGNATURE_def overwrite_def Suc_le_length_iff
      split: gpt_state.splits if_splits)

section \<open>Reading and marking a header\<close>

lemma uint_not_le_minus_one [simp]: "\<not> uint x \<le> - 1"
  using uint_ge_0 [of x] by linarith

lemma header_offset_of:
  assumes "gpt_header_offset e fd gpt (bd_blksz d) w = (off, w')" "w_dev w fd = Some d" "geom d" "0 \<le> off"
  shows "off = int (header_off d gpt) \<and> w_dev w' = w_dev w"
  using assms
  by (auto simp: gpt_header_offset_def header_off_def geom_def split: prod.splits if_splits
      dest!: lseek_endD)


lemma read_headerD:
  assumes "read_header e fd gpt w = Some (h, w')" "w_dev w fd = Some d" "geom d"
  shows "w_dev w' = w_dev w"
    and "h = Some (hdr, off, bs) \<Longrightarrow> hdr = hdr_bytes d gpt \<and> off = int (header_off d gpt) \<and> bs = bd_blksz d"
proof -
  obtain x w1 where 1: "sys_blksz e fd w = (x, w1)" by (cases "sys_blksz e fd w")
  obtain y w2 where 2: "malloc e (unat (bd_blksz d)) w1 = (y, w2)"
    by (cases "malloc e (unat (bd_blksz d)) w1")
  obtain o' w3 where 3: "gpt_header_offset e fd gpt (bd_blksz d) w2 = (o', w3)"
    by (cases "gpt_header_offset e fd gpt (bd_blksz d) w2")
  note d12 = sys_blkszD [OF 1] mallocD [OF 2]
  have w3: "w_dev w3 = w_dev w2"
    using 3 by (auto simp: gpt_header_offset_def split: if_splits prod.splits dest!: lseek_endD)
  have x: "x = None \<or> x = Some (bd_blksz d)" using d12(1) assms(2) by (cases x) auto
  show "w_dev w' = w_dev w"
    using assms(1) 1 2 3 x d12 w3 blk_readD
    by (force simp: read_header_def bind_eq_Some_conv split: if_splits option.splits)
  assume h: "h = Some (hdr, off, bs)"
  with assms(1) 1 2 3 x obtain buf where buf: "y = Some buf" "0 \<le> o'" "off = o'" "bs = bd_blksz d"
    and rd: "blk_rw e fd False o' buf (unat (bd_blksz d)) w3 = Some (0, hdr, w')"
    by (auto simp: read_header_def bind_eq_Some_conv split: if_splits option.splits)
  have off: "o' = int (header_off d gpt)"
    using header_offset_of [OF 3 _ assms(3) buf(2)] d12 assms(2) by auto
  have "hdr = hdr_bytes d gpt"
    using blk_read_full [OF rd [unfolded off]] d12 w3 buf assms geom_off [OF assms(3), of gpt]
    by (simp add: hdr_bytes_def)
  with off buf show "hdr = hdr_bytes d gpt \<and> off = int (header_off d gpt) \<and> bs = bd_blksz d"
    by simp
qed

lemma get_state_sound:
  assumes "gpt_get_state e fd gpt w = Some (r, st, w')" "w_dev w fd = Some d" "geom d"
  shows "w_dev w' = w_dev w \<and> (r = 0 \<longrightarrow> hstate e d gpt = Some st)"
proof -
  from assms(1) obtain h where h: "read_header e fd gpt w = Some (h, w')"
    "r = 0 \<Longrightarrow> \<exists>x o' b. h = Some (x, o', b) \<and> header_state e x = Some st"
    by (auto simp: gpt_get_state_def bind_eq_Some_conv split: option.splits)
  with read_headerD [OF h(1) assms(2,3)] show ?thesis by (auto simp: hstate_def)
qed

lemma set_state_cases:
  assumes "gpt_set_state e fd gpt st w = Some (r, w')" "w_dev w fd = Some d" "geom d"
  obtains "r = -1" "w_dev w' = w_dev w"
  | d' where "r = 0" "w_dev w' = (w_dev w)(fd \<mapsto> d')" "hstate e d' gpt = Some st"
      "same_outside (header_off d gpt) (unat (bd_blksz d)) d d'"
      "\<And>p n. 20 \<le> p \<Longrightarrow> slice p n (hdr_bytes d' gpt) = slice p n (hdr_bytes d gpt)"
proof -
  from assms(1) obtain h w1 where h: "read_header e fd gpt w = Some (h, w1)"
    by (auto simp: gpt_set_state_def bind_eq_Some_conv)
  note rh = read_headerD [OF h assms(2,3)]
  show thesis
  proof (cases "w_dev w' = w_dev w1 \<and> r = -1")
    case True
    with rh(1) that(1) show thesis by simp
  next
    case False
    with assms(1) h obtain x o' b m y z r' where hx: "h = Some (x, o', b)"
      and m: "mark_header st x = Some (Some m)" and y: "put_header_crc e m = Some y"
      and wr: "blk_rw e fd True o' y (unat b) w1 = Some (r', z, w')" "r = (if r' \<noteq> 0 then -1 else 0)"
      by (fastforce simp: gpt_set_state_def bind_eq_Some_conv split: option.splits)
    note rx = rh(2) [OF hx]
    have leny: "length y = unat (bd_blksz d)"
      using mark_header_sig(1) [OF m] put_header_crc_state(1) [OF y] rx assms(3) by simp
    from wr(1) have dw: "w_dev w1 fd = Some d" using rh(1) assms(2) by simp
    from blk_write_cases [OF wr(1) dw] show thesis
    proof cases
      case 1
      with False wr show thesis by auto
    next
      case (2 d')
      let ?p = "header_off d gpt" and ?n = "unat (bd_blksz d)"
      have fit: "?p + ?n \<le> length (bd_data d)" using geom_off [OF assms(3)] .
      have same: "same_outside ?p ?n d d'" using 2 rx by (simp add: same_outside_def)
      have "bd_data d' = overwrite ?p y (bd_data d)"
        using 2 rx leny fit by (simp add: min_def)
      then have "slice ?p ?n (bd_data d') = y"
        using fit leny by (simp add: slice_overwrite_same)
      then have y': "hdr_bytes d' gpt = y"
        using same by (simp add: hdr_bytes_def same_outside_off)
      have "slice p n (hdr_bytes d' gpt) = slice p n (hdr_bytes d gpt)" if "20 \<le> p" for p n
        using put_header_crc_tail [OF y that] mark_header_tail [OF m] that y' rx by simp
      moreover have "hstate e d' gpt = Some st"
        using put_header_crc_state(4) [OF y] mark_header_sig(2) [OF m] y' by (simp add: hstate_def)
      ultimately show thesis using 2 wr same rh(1) that(2) [of d'] by simp
    qed
  qed
qed


section \<open>Rewriting the secondary table\<close>

lemma swap_bytes_length: "swap_bytes p q n arr = Some arr' \<Longrightarrow> length arr' = length arr"
  by (auto simp: swap_bytes_def Let_def slice_def split: if_splits)

lemma swap_loop_length:
  "gpt_boot_chain_swap_loop e ns arr pend psize nf = Some (nf', arr') \<Longrightarrow> length arr' = length arr"
proof (induction ns arbitrary: arr nf)
  case (Cons n ns)
  then show ?case
    by (auto simp: bind_eq_Some_conv split: if_splits option.splits dest!: swap_bytes_length)
qed simp

text \<open>The header \<open>gpt2_set_boot_chain\<close> writes back: same signature and LBA, right checksums.\<close>

lemma rewritten_header:
  assumes "92 \<le> length h" "GET_4_BYTES h 12 = Some n" "PUT_4_BYTES h 88 c = Some h1"
    "PUT_4_BYTES h1 16 0 = Some h2" "crc32 e h2 n = Some c2" "PUT_4_BYTES h2 16 c2 = Some h3"
  shows "length h3 = length h" "take 9 h3 = take 9 h" "GET_8_BYTES h3 72 = GET_8_BYTES h 72"
    "GET_4_BYTES h3 88 = Some c"
    "header_state e h3 = Some (if take 9 h = GPT_SIGNATURE then GPT_OK else GPT_BAD_SIGNATURE)"
proof -
  have h: "h1 = overwrite 88 (le4_bytes c) h" "h2 = overwrite 16 (le4_bytes 0) h1"
    "h3 = overwrite 16 (le4_bytes c2) h1" "length h1 = length h"
    using assms by (auto simp: PUT_4_BYTES_Some overwrite_twice)
  have "GET_4_BYTES h1 12 = Some n"
    using assms(1,2) by (simp add: h slice_simps apart_def)
  then have p: "put_header_crc e h1 = Some h3"
    using assms h by (simp add: put_header_crc_def)
  have t: "take 9 h1 = take 9 h" using assms(1) by (simp add: h take_overwrite)
  from put_header_crc_state [OF p] t h(4)
  show "length h3 = length h" "take 9 h3 = take 9 h"
    "header_state e h3 = Some (if take 9 h = GPT_SIGNATURE then GPT_OK else GPT_BAD_SIGNATURE)"
    by simp_all
  show "GET_8_BYTES h3 72 = GET_8_BYTES h 72" "GET_4_BYTES h3 88 = Some c"
    using assms(1) h by (simp_all add: slice_simps apart_def)
qed


lemma read_pri:
  assumes "blk_rw e fd False (int (unat (bd_blksz d))) buf (unat (bd_blksz d)) w = Some (0, h, w')"
    "w_dev w fd = Some d" "geom d" "length buf = unat (bd_blksz d)"
  shows "h = hdr_bytes d PRIMARY_GPT"
  using blk_read_full [OF assms(1,2,4)] geom_off [OF assms(3), of PRIMARY_GPT]
  by (simp add: hdr_bytes_def header_off_def)

lemma read_sec:
  assumes "blk_rw e fd False off buf (unat (bd_blksz d)) w = Some (0, h, w')"
    "w_dev w fd = Some d" "geom d" "length buf = unat (bd_blksz d)"
    "off = int (length (bd_data d)) - int (unat (bd_blksz d))"
  shows "h = hdr_bytes d SECONDARY_GPT \<and> off = int (header_off d SECONDARY_GPT)"
proof -
  have off: "off = int (header_off d SECONDARY_GPT)"
    using assms(3,5) by (auto simp: header_off_def geom_def of_nat_diff simp del: of_nat_unat)
  show ?thesis
    using blk_read_full [OF assms(1) [unfolded off] assms(2,4)] geom_off [OF assms(3), of SECONDARY_GPT] off
    by (simp add: hdr_bytes_def)
qed

lemma gpt2_load_wp:
  assumes d: "w_dev w fd = Some d" "geom d"
  shows "wp (gpt2_load e fd w) (\<lambda>(x, w'). w_dev w' = w_dev w \<and>
    (case x of Inl r \<Rightarrow> r < 0
     | Inr (pe, sz, psz, h, off, bs) \<Rightarrow> bs = bd_blksz d \<and> h = hdr_bytes d SECONDARY_GPT \<and>
        off = int (header_off d SECONDARY_GPT) \<and> length pe = unat sz \<and>
        (\<exists>count. GET_4_BYTES (hdr_bytes d PRIMARY_GPT) 80 = Some count \<and> sz = count * psz) \<and>
        GET_4_BYTES (hdr_bytes d PRIMARY_GPT) 84 = Some psz \<and>
        GET_4_BYTES (hdr_bytes d PRIMARY_GPT) 88 = crc32 e pe sz \<and> crc32 e pe sz \<noteq> None \<and>
        (\<forall>lba p. GET_8_BYTES (hdr_bytes d PRIMARY_GPT) 72 = Some lba \<longrightarrow> sint (lba * ucast bs) = int p \<longrightarrow>
           p + unat sz \<le> length (bd_data d) \<longrightarrow> pe = slice p (unat sz) (bd_data d))))"
  unfolding gpt2_load_def wp_rules
proof (intro allI impI conjI, goal_cases)
  case (9 a b x aa ba buf sz bb xb ac bc h1 bd lba psz count ae be xf xg af bf pe bg crc xi xj ah bh h w')
  then have x: "x = bd_blksz d" and buf: "length buf = unat (bd_blksz d)"
    and dv: "w_dev bb = w_dev w" "w_dev bd = w_dev w" "w_dev be = w_dev w" "w_dev bg = w_dev w" "w_dev w' = w_dev w"
    using d by (auto dest!: sys_blkszD mallocD lseek_endD blk_read_dev calloc_dev)
  have sz: "sz = int (length (bd_data d))"
    using 9 x d lseek_endD [OF 9(5)] sys_blkszD [OF 9(1)] mallocD [OF 9(3)]
    by (auto simp del: of_nat_unat)
  have h1: "h1 = hdr_bytes d PRIMARY_GPT" "length h1 = unat (bd_blksz d)"
    using 9 x buf dv d read_pri blk_read_length by auto
  have "h = hdr_bytes d SECONDARY_GPT \<and> sz - int (unat x) = int (header_off d SECONDARY_GPT)"
    using 9 x dv d h1 sz by (intro read_sec [where e = e and fd = fd and buf = h1 and w = bg and w' = w']) auto
  moreover have "length pe = unat (count * psz)"
    using 9 blk_read_length callocD by fastforce
  moreover have "pe = slice p (unat (count * psz)) (bd_data d)"
    if "sint (lba * ucast (bd_blksz d)) = int p" "p + unat (count * psz) \<le> length (bd_data d)" for p
    using 9 x dv d that callocD
    by (intro blk_read_full [where e = e and fd = fd and buf = xf and w = be and w' = bg]) auto
  ultimately show ?case
    using 9 x dv h1 by simp
qed (use d in \<open>auto dest!: sys_blkszD mallocD lseek_endD blk_readD callocD\<close>)


definition sig_state :: "bytes \<Rightarrow> gpt_state" where
  "sig_state h = (if take 9 h = GPT_SIGNATURE then GPT_OK else GPT_BAD_SIGNATURE)"

section \<open>Stages\<close>

lemma stage_boot_lun_frame: "stage_boot_lun e chain w = (r, w') \<Longrightarrow> w_dev w' = w_dev w"
  by (auto simp: stage_boot_lun_def gpt_utils_set_xbl_boot_partition_def
      split: if_splits option.splits prod.splits boot_chain.splits dest!: set_boot_lun_frame)

lemma sig_state_OK: "hstate e d gpt = Some GPT_OK \<Longrightarrow> sig_state (hdr_bytes d gpt) = GPT_OK"
  by (auto simp: hstate_def header_state_def sig_state_def bind_eq_Some_conv split: if_splits)

lemma sig_state_BAD:
  "hstate e d gpt = Some GPT_BAD_SIGNATURE \<Longrightarrow> sig_state (hdr_bytes d gpt) = GPT_BAD_SIGNATURE"
  by (auto simp: hstate_def header_state_def sig_state_def bind_eq_Some_conv split: if_splits)

lemma internal_stage_cases:
  "internal_stage p s = Some st \<Longrightarrow>
     st = UPDATE_MAIN \<and> p = GPT_OK \<and> s = GPT_OK \<or>
     st = UPDATE_BACKUP \<and> p = GPT_BAD_SIGNATURE \<and> s = GPT_OK \<or>
     st = UPDATE_FINALIZE \<and> p = GPT_OK \<and> s = GPT_BAD_SIGNATURE"
  by (cases p; cases s) (auto simp: internal_stage_def split: if_splits)

lemma states_read:
  assumes "sys_open e dev w = (Some fd, w1)" "gpt_get_state e fd PRIMARY_GPT w1 = Some (0, gp, w2)"
    "gpt_get_state e fd SECONDARY_GPT w2 = Some (0, gs, w3)" "w_dev w dev = Some d" "geom d"
  shows "fd = dev" "w_dev w3 = w_dev w" "hstate e d PRIMARY_GPT = Some gp" "hstate e d SECONDARY_GPT = Some gs"
  using assms sys_openD [OF assms(1)] get_state_sound [OF assms(2)] get_state_sound [OF assms(3)]
  by auto

end
