(* ===== verification/GptDisk.thy ===== *)
theory GptDisk
  imports GptUpdate "HOL-Library.Char_ord" "HOL-Library.List_Lexorder"
begin

unbundle bit_operations_syntax

text \<open>
  The \<open>gpt_disk\<close> interface of \<open>gpt-utils.cpp\<close>: resolving a partition name to the device that
  holds its table, loading both copies of the table into a \<open>struct gpt_disk\<close>, finding entries in
  it, refreshing its checksums and writing it back. Boot control is built on these operations.

  A \<open>NULL\<close> pointer is \<open>None\<close>. \<open>gpt_disk_free\<close> only returns memory and has no counterpart.
\<close>

section \<open>Resolving partitions\<close>

text \<open>
  Every caller passes a zero-filled buffer of \<open>PATH_MAX\<close> bytes, so the name that
  \<open>readlink\<close> leaves unterminated ends at its own length or at \<open>PATH_TRUNCATE_LOC\<close>.
\<close>

abbreviation (input) PATH_MAX :: nat where "PATH_MAX \<equiv> 4096"

definition get_dev_path_from_partition_name :: "env \<Rightarrow> string \<Rightarrow> nat \<Rightarrow> string option" where
  "get_dev_path_from_partition_name e partname buflen =
     (if buflen < PATH_TRUNCATE_LOC + 1 then None
      else if gpt_utils_is_ufs_device e then
        (let path = BOOT_DEV_DIR @ ''/'' @ partname in
         if \<not> env_stat e path then None
         else (case env_readlink e path of
                 None \<Rightarrow> None
               | Some buf \<Rightarrow> Some (take PATH_TRUNCATE_LOC buf)))
      else Some (take (buflen - 1) BLK_DEV_FILE))"

text \<open>\<open>std::map<string, vector<string>>\<close>: the pairs in the order of their keys.\<close>

type_synonym partition_map = "(string \<times> string list) list"

fun map_push :: "string \<Rightarrow> string \<Rightarrow> partition_map \<Rightarrow> partition_map" where
  "map_push path p [] = [(path, [p])]"
| "map_push path p ((k, ps) # m) =
     (if path = k then (k, ps @ [p]) # m
      else if path < k then (path, [p]) # (k, ps) # m
      else (k, ps) # map_push path p m)"

fun partition_map_loop :: "env \<Rightarrow> string list \<Rightarrow> partition_map \<Rightarrow> partition_map" where
  "partition_map_loop e [] m = m"
| "partition_map_loop e (p # ps) m =
     (case get_dev_path_from_partition_name e p PATH_MAX of
        None \<Rightarrow> partition_map_loop e ps m
      | Some path \<Rightarrow> partition_map_loop e ps (map_push path p m))"

definition gpt_utils_get_partition_map :: "env \<Rightarrow> string list \<Rightarrow> partition_map \<Rightarrow> int \<times> partition_map" where
  "gpt_utils_get_partition_map e ptn_list m =
     (if length ptn_list < 1 then (-1, m) else (0, partition_map_loop e ptn_list m))"

section \<open>Headers and entry arrays\<close>

text \<open>0 stands for a failed ioctl, as in the code.\<close>

definition gpt_get_block_size :: "env \<Rightarrow> fd \<Rightarrow> world \<Rightarrow> u32 \<times> world" where
  "gpt_get_block_size e fd w =
     (let (bs, w) = sys_blksz e fd w in (case bs of Some b \<Rightarrow> b | None \<Rightarrow> 0, w))"

definition gpt_set_header :: "env \<Rightarrow> bytes option \<Rightarrow> fd \<Rightarrow> gpt_instance \<Rightarrow> world \<Rightarrow> (int \<times> world) option" where
  "gpt_set_header e gpt_header fd instance w =
     (case gpt_header of None \<Rightarrow> Some (-1, w)
      | Some hdr \<Rightarrow>
       (let (block_size, w) = gpt_get_block_size e fd w in
        if block_size = 0 then Some (-1, w)
        else (let (off, w) = gpt_header_offset e fd instance block_size w in
          if off \<le> 0 then Some (-1, w)
          else do {
            (r, _, w) \<leftarrow> blk_rw e fd True off hdr (unat block_size) w;
            Some (if r \<noteq> 0 then -1 else 0, w)
          })))"

text \<open>
  The code goes on after a failed \<open>malloc\<close>: the transfer into the null buffer then fails with
  \<open>EFAULT\<close>, whatever the seek before it says, and the result is \<open>NULL\<close>.
\<close>

definition gpt_get_header :: "env \<Rightarrow> string \<Rightarrow> gpt_instance \<Rightarrow> world \<Rightarrow> (bytes option \<times> world) option" where
  "gpt_get_header e partname instance w =
     (case get_dev_path_from_partition_name e partname PATH_MAX of
        None \<Rightarrow> Some (None, w)
      | Some devpath \<Rightarrow>
       (let (ofd, w) = sys_open e devpath w in
        case ofd of None \<Rightarrow> Some (None, w)
        | Some fd \<Rightarrow>
         (let (block_size, w) = gpt_get_block_size e fd w in
          if block_size = 0 then Some (None, w)
          else (let (hdr, w) = malloc e (unat block_size) w;
                    (hdr_offset, w) = gpt_header_offset e fd instance block_size w in
            if hdr_offset < 0 then Some (None, w)
            else (case hdr of
                None \<Rightarrow> do {
                  (_, _, w) \<leftarrow> blk_rw e fd False hdr_offset [] 0 w;
                  Some (None, w)
                }
              | Some hdr \<Rightarrow> do {
                  (r, hdr, w) \<leftarrow> blk_rw e fd False hdr_offset hdr (unat block_size) w;
                  Some (if r \<noteq> 0 then None else Some hdr, w)
                })))))"

text \<open>The byte offset and size of the array a header describes, at the widths of the code.\<close>

definition pentries_start :: "bytes \<Rightarrow> u32 \<Rightarrow> u64 option" where
  "pentries_start hdr block_size = map_option (\<lambda>lba. lba * ucast block_size) (GET_8_BYTES hdr PENTRIES_OFFSET)"

definition pentries_arr_size :: "bytes \<Rightarrow> u32 option" where
  "pentries_arr_size hdr = do {
     pentry_size \<leftarrow> GET_4_BYTES hdr PENTRY_SIZE_OFFSET;
     count \<leftarrow> GET_4_BYTES hdr PARTITION_COUNT_OFFSET;
     Some (count * pentry_size)
   }"

definition gpt_get_pentry_arr :: "env \<Rightarrow> bytes option \<Rightarrow> fd \<Rightarrow> world \<Rightarrow> (bytes option \<times> world) option" where
  "gpt_get_pentry_arr e hdr fd w =
     (case hdr of None \<Rightarrow> Some (None, w)
      | Some hdr \<Rightarrow>
       (let (block_size, w) = gpt_get_block_size e fd w in
        if block_size = 0 then Some (None, w)
        else do {
          start \<leftarrow> pentries_start hdr block_size;
          arr_size \<leftarrow> pentries_arr_size hdr;
          let (arr, w) = calloc e (unat arr_size) w;
          case arr of None \<Rightarrow> Some (None, w)
          | Some arr \<Rightarrow> do {
              (r, arr, w) \<leftarrow> blk_rw e fd False (sint start) arr (unat arr_size) w;
              Some (if r \<noteq> 0 then None else Some arr, w)
            }
        }))"

definition gpt_set_pentry_arr ::
  "env \<Rightarrow> bytes option \<Rightarrow> fd \<Rightarrow> bytes option \<Rightarrow> world \<Rightarrow> (int \<times> world) option" where
  "gpt_set_pentry_arr e hdr fd arr w =
     (case (hdr, arr) of
        (Some hdr, Some arr) \<Rightarrow>
         (let (block_size, w) = gpt_get_block_size e fd w in
          if block_size = 0 then Some (-1, w)
          else do {
            start \<leftarrow> pentries_start hdr block_size;
            arr_size \<leftarrow> pentries_arr_size hdr;
            (r, _, w) \<leftarrow> blk_rw e fd True (sint start) arr (unat arr_size) w;
            Some (if r \<noteq> 0 then -1 else 0, w)
          })
      | _ \<Rightarrow> Some (-1, w))"

section \<open>struct gpt_disk\<close>

record gpt_disk =
  gd_hdr :: "bytes option"
  gd_hdr_crc :: u32
  gd_hdr_bak :: "bytes option"
  gd_hdr_bak_crc :: u32
  gd_pentry_arr :: "bytes option"
  gd_pentry_arr_bak :: "bytes option"
  gd_pentry_arr_size :: u32
  gd_pentry_size :: u32
  gd_pentry_arr_crc :: u32
  gd_pentry_arr_bak_crc :: u32
  gd_devpath :: string
  gd_block_size :: u32
  gd_is_initialized :: u32

abbreviation (input) GPT_DISK_INIT_MAGIC :: u32 where "GPT_DISK_INIT_MAGIC \<equiv> 0xABCD"

definition gpt_disk_zero :: gpt_disk where
  "gpt_disk_zero = \<lparr>gd_hdr = None, gd_hdr_crc = 0, gd_hdr_bak = None, gd_hdr_bak_crc = 0,
     gd_pentry_arr = None, gd_pentry_arr_bak = None, gd_pentry_arr_size = 0, gd_pentry_size = 0,
     gd_pentry_arr_crc = 0, gd_pentry_arr_bak_crc = 0, gd_devpath = [], gd_block_size = 0,
     gd_is_initialized = 0\<rparr>"

definition gpt_disk_alloc :: "env \<Rightarrow> world \<Rightarrow> gpt_disk option \<times> world" where
  "gpt_disk_alloc e w = (let (ok, w) = sys e w in (if ok then Some gpt_disk_zero else None, w))"

text \<open>
  \<open>gpt_disk_get_disk_info\<close> in the two halves of the code: the headers with the checksums of
  what was read, then, on the descriptor of the device, the entry arrays and the sizes.
\<close>

definition load_headers ::
  "env \<Rightarrow> string \<Rightarrow> gpt_disk \<Rightarrow> world \<Rightarrow> (int \<times> gpt_disk \<times> world) option" where
  "load_headers e dev disk w = do {
     (h, w) \<leftarrow> gpt_get_header e dev PRIMARY_GPT w;
     let disk = disk\<lparr>gd_hdr := h\<rparr>;
     case h of None \<Rightarrow> Some (-1, disk, w)
     | Some hdr \<Rightarrow> do {
         gpt_header_size \<leftarrow> GET_4_BYTES hdr HEADER_SIZE_OFFSET;
         crc \<leftarrow> crc32 e hdr gpt_header_size;
         (hb, w) \<leftarrow> gpt_get_header e dev SECONDARY_GPT w;
         let disk = disk\<lparr>gd_hdr_crc := crc, gd_hdr_bak := hb\<rparr>;
         case hb of None \<Rightarrow> Some (-1, disk, w)
         | Some hdr_bak \<Rightarrow> do {
             crc \<leftarrow> crc32 e hdr_bak gpt_header_size;
             Some (0, disk\<lparr>gd_hdr_bak_crc := crc\<rparr>, w)
           }
       }
   }"

definition load_arrays ::
  "env \<Rightarrow> fd \<Rightarrow> gpt_disk \<Rightarrow> world \<Rightarrow> (int \<times> gpt_disk \<times> world) option" where
  "load_arrays e fd disk w = do {
     (arr, w) \<leftarrow> gpt_get_pentry_arr e (gd_hdr disk) fd w;
     let disk = disk\<lparr>gd_pentry_arr := arr\<rparr>;
     if arr = None then Some (-1, disk, w)
     else do {
       (arr_bak, w) \<leftarrow> gpt_get_pentry_arr e (gd_hdr_bak disk) fd w;
       let disk = disk\<lparr>gd_pentry_arr_bak := arr_bak\<rparr>;
       if arr_bak = None then Some (-1, disk, w)
       else do {
         hdr \<leftarrow> gd_hdr disk;
         hdr_bak \<leftarrow> gd_hdr_bak disk;
         pentry_size \<leftarrow> GET_4_BYTES hdr PENTRY_SIZE_OFFSET;
         count \<leftarrow> GET_4_BYTES hdr PARTITION_COUNT_OFFSET;
         arr_crc \<leftarrow> GET_4_BYTES hdr PARTITION_CRC_OFFSET;
         arr_bak_crc \<leftarrow> GET_4_BYTES hdr_bak PARTITION_CRC_OFFSET;
         let (block_size, w) = gpt_get_block_size e fd w;
         Some (0, disk\<lparr>gd_pentry_size := pentry_size, gd_pentry_arr_size := count * pentry_size,
           gd_pentry_arr_crc := arr_crc, gd_pentry_arr_bak_crc := arr_bak_crc,
           gd_block_size := block_size, gd_is_initialized := GPT_DISK_INIT_MAGIC\<rparr>, w)
       }
     }
   }"

definition gpt_disk_get_disk_info ::
  "env \<Rightarrow> string \<Rightarrow> gpt_disk \<Rightarrow> world \<Rightarrow> (int \<times> gpt_disk \<times> world) option" where
  "gpt_disk_get_disk_info e dev disk w = do {
     (r, disk, w) \<leftarrow> load_headers e dev disk w;
     if r \<noteq> 0 then Some (-1, disk, w)
     else (case get_dev_path_from_partition_name e dev PATH_MAX of
         None \<Rightarrow> Some (-1, disk, w)
       | Some path \<Rightarrow>
          (let disk = disk\<lparr>gd_devpath := path\<rparr>; (ofd, w) = sys_open e path w in
           case ofd of None \<Rightarrow> Some (-1, disk, w)
           | Some fd \<Rightarrow> load_arrays e fd disk w))
   }"

text \<open>A pointer to an entry is its byte offset in the array of the chosen copy.\<close>

definition gpt_disk_get_pentry :: "gpt_disk \<Rightarrow> string \<Rightarrow> gpt_instance \<Rightarrow> nat option option" where
  "gpt_disk_get_pentry disk partname instance =
     (if gd_is_initialized disk \<noteq> GPT_DISK_INIT_MAGIC then Some None
      else do {
        arr \<leftarrow> (if instance = PRIMARY_GPT then gd_pentry_arr disk else gd_pentry_arr_bak disk);
        gpt_pentry_seek (cstr partname) arr 0 (unat (gd_pentry_arr_size disk)) (unat (gd_pentry_size disk))
      })"

definition gpt_disk_update_crc :: "env \<Rightarrow> gpt_disk \<Rightarrow> (int \<times> gpt_disk) option" where
  "gpt_disk_update_crc e disk =
     (if gd_is_initialized disk \<noteq> GPT_DISK_INIT_MAGIC then Some (-1, disk)
      else do {
        arr \<leftarrow> gd_pentry_arr disk;
        arr_bak \<leftarrow> gd_pentry_arr_bak disk;
        hdr \<leftarrow> gd_hdr disk;
        hdr_bak \<leftarrow> gd_hdr_bak disk;
        arr_crc \<leftarrow> crc32 e arr (gd_pentry_arr_size disk);
        arr_bak_crc \<leftarrow> crc32 e arr_bak (gd_pentry_arr_size disk);
        hdr \<leftarrow> PUT_4_BYTES hdr PARTITION_CRC_OFFSET arr_crc;
        hdr_bak \<leftarrow> PUT_4_BYTES hdr_bak PARTITION_CRC_OFFSET arr_bak_crc;
        gpt_header_size \<leftarrow> GET_4_BYTES hdr HEADER_SIZE_OFFSET;
        hdr \<leftarrow> PUT_4_BYTES hdr HEADER_CRC_OFFSET 0;
        hdr_bak \<leftarrow> PUT_4_BYTES hdr_bak HEADER_CRC_OFFSET 0;
        hdr_crc \<leftarrow> crc32 e hdr gpt_header_size;
        hdr_bak_crc \<leftarrow> crc32 e hdr_bak gpt_header_size;
        hdr \<leftarrow> PUT_4_BYTES hdr HEADER_CRC_OFFSET hdr_crc;
        hdr_bak \<leftarrow> PUT_4_BYTES hdr_bak HEADER_CRC_OFFSET hdr_bak_crc;
        Some (0, disk\<lparr>gd_hdr := Some hdr, gd_hdr_bak := Some hdr_bak,
          gd_hdr_crc := hdr_crc, gd_hdr_bak_crc := hdr_bak_crc,
          gd_pentry_arr_crc := arr_crc, gd_pentry_arr_bak_crc := arr_bak_crc\<rparr>)
      })"

definition gpt_disk_commit :: "env \<Rightarrow> gpt_disk \<Rightarrow> world \<Rightarrow> (int \<times> world) option" where
  "gpt_disk_commit e disk w =
     (if gd_is_initialized disk \<noteq> GPT_DISK_INIT_MAGIC then Some (-1, w)
      else (let (ofd, w) = sys_open e (gd_devpath disk) w in
        case ofd of None \<Rightarrow> Some (-1, w)
        | Some fd \<Rightarrow> do {
            (r, w) \<leftarrow> gpt_set_header e (gd_hdr disk) fd PRIMARY_GPT w;
            if r \<noteq> 0 then Some (-1, w)
            else do {
              (r, w) \<leftarrow> gpt_set_pentry_arr e (gd_hdr disk) fd (gd_pentry_arr disk) w;
              if r \<noteq> 0 then Some (-1, w)
              else do {
                (r, w) \<leftarrow> gpt_set_header e (gd_hdr_bak disk) fd SECONDARY_GPT w;
                if r \<noteq> 0 then Some (-1, w)
                else do {
                  (r, w) \<leftarrow> gpt_set_pentry_arr e (gd_hdr_bak disk) fd (gd_pentry_arr_bak disk) w;
                  if r \<noteq> 0 then Some (-1, w) else Some (0, w)
                }
              }
            }
          }))"

end
