(* ===== verification/GptStore.thy ===== *)
theory GptStore
  imports GptSafety GptDisk
begin

unbundle bit_operations_syntax

text \<open>
  What the \<open>gpt_disk\<close> interface guarantees. \<open>copy d gpt\<close> is one copy of the table as it lies on
  a device: its header block and its entry array. Loading returns both copies, committing
  replaces both, and a commit that fails half way has either left the backup copy alone or
  finished the primary one.
\<close>

section \<open>The tables of a device\<close>

text \<open>Offset and size of the array the header of one copy describes, when the offset is valid.\<close>

definition hdr_region :: "bytes \<Rightarrow> u32 \<Rightarrow> (nat \<times> nat) option" where
  "hdr_region h bs = do {
     start \<leftarrow> pentries_start h bs;
     sz \<leftarrow> pentries_arr_size h;
     if 0 \<le> sint start then Some (nat (sint start), unat sz) else None
   }"

definition region :: "blkdev \<Rightarrow> gpt_instance \<Rightarrow> (nat \<times> nat) option" where
  "region d gpt = hdr_region (hdr_bytes d gpt) (bd_blksz d)"

definition table :: "blkdev \<Rightarrow> gpt_instance \<Rightarrow> bytes" where
  "table d gpt = (case region d gpt of Some (p, n) \<Rightarrow> slice p n (bd_data d) | None \<Rightarrow> [])"

definition copy :: "blkdev \<Rightarrow> gpt_instance \<Rightarrow> bytes \<times> bytes" where
  "copy d gpt = (hdr_bytes d gpt, table d gpt)"

text \<open>Both arrays have one size, lie inside the device and clear of each other and the headers.\<close>

definition tables_at :: "blkdev \<Rightarrow> nat \<Rightarrow> nat \<Rightarrow> nat \<Rightarrow> bool" where
  "tables_at d p q n \<longleftrightarrow> geom d \<and> region d PRIMARY_GPT = Some (p, n) \<and> region d SECONDARY_GPT = Some (q, n)
     \<and> p + n \<le> length (bd_data d) \<and> q + n \<le> length (bd_data d) \<and> apart p n q n
     \<and> (\<forall>gpt. apart p n (header_off d gpt) (unat (bd_blksz d)) \<and> apart q n (header_off d gpt) (unat (bd_blksz d)))"

definition tables_ok :: "blkdev \<Rightarrow> bool" where
  [guard_defs]: "tables_ok d \<longleftrightarrow> (\<exists>p q n. tables_at d p q n)"

fun start_of :: "nat \<Rightarrow> nat \<Rightarrow> gpt_instance \<Rightarrow> nat" where
  "start_of p q PRIMARY_GPT = p"
| "start_of p q SECONDARY_GPT = q"

lemma tables_at_region: "tables_at d p q n \<Longrightarrow> region d gpt = Some (start_of p q gpt, n)"
  by (cases gpt) (auto simp: tables_at_def)

lemma tables_at_fit: "tables_at d p q n \<Longrightarrow> start_of p q gpt + n \<le> length (bd_data d)"
  by (cases gpt) (auto simp: tables_at_def)

lemma tables_at_apart:
  "tables_at d p q n \<Longrightarrow> apart (start_of p q gpt) n (header_off d g) (unat (bd_blksz d))"
  "tables_at d p q n \<Longrightarrow> gpt \<noteq> g \<Longrightarrow> apart (start_of p q gpt) n (start_of p q g) n"
  by (cases gpt; cases g; auto simp: tables_at_def apart_sym [of p n q n])+

lemma tables_at_geom: "tables_at d p q n \<Longrightarrow> geom d"
  by (simp add: tables_at_def)

lemma table_at: "tables_at d p q n \<Longrightarrow> table d gpt = slice (start_of p q gpt) n (bd_data d)"
  by (simp add: table_def tables_at_region)

lemma length_table: "tables_at d p q n \<Longrightarrow> length (table d gpt) = n"
  by (simp add: table_at length_slice tables_at_fit)

lemma tables_at_cong:
  assumes "tables_at d p q n" "bd_blksz d' = bd_blksz d" "length (bd_data d') = length (bd_data d)"
    "\<And>gpt. region d' gpt = region d gpt"
  shows "tables_at d' p q n"
proof -
  have "header_off d' = header_off d" using assms by (auto simp: header_off_def)
  with assms show ?thesis by (simp add: tables_at_def geom_def)
qed

section \<open>Reading\<close>

lemma get_block_sizeD:
  "gpt_get_block_size e fd w = (b, w') \<Longrightarrow> w_dev w fd = Some d \<Longrightarrow> w_dev w' = w_dev w \<and> (b = 0 \<or> b = bd_blksz d)"
  by (auto simp: gpt_get_block_size_def split: prod.splits option.splits dest!: sys_blkszD)

lemma header_offset_dev: "gpt_header_offset e fd gpt b w = (off, w') \<Longrightarrow> w_dev w' = w_dev w"
  by (auto simp: gpt_header_offset_def split: if_splits prod.splits dest!: lseek_endD)

lemma get_header_wp:
  assumes p: "get_dev_path_from_partition_name e part PATH_MAX = Some path"
    and d: "w_dev w path = Some d" "geom d"
  shows "wp (gpt_get_header e part gpt w) (\<lambda>(h, w'). w_dev w' = w_dev w \<and>
     (\<forall>x. h = Some x \<longrightarrow> x = hdr_bytes d gpt))"
proof -
  have opn: "fd = path \<and> w_dev w1 = w_dev w" if "sys_open e path w = (Some fd, w1)" for fd w1
    using sys_openD [OF that] by simp
  have pre: "w_dev w4 = w_dev w \<and> b = bd_blksz d \<and> (\<forall>y. buf = Some y \<longrightarrow> length y = unat b) \<and>
      (0 \<le> off \<longrightarrow> off = int (header_off d gpt))"
    if "w_dev w1 = w_dev w" "gpt_get_block_size e path w1 = (b, w2)" "b \<noteq> 0"
      "malloc e (unat b) w2 = (buf, w3)" "gpt_header_offset e path gpt b w3 = (off, w4)"
    for w1 b w2 buf w3 off w4
  proof -
    have b: "w_dev w2 = w_dev w" "b = bd_blksz d"
      using get_block_sizeD [OF that(2)] that(1,3) d by auto
    have m: "w_dev w3 = w_dev w" "\<forall>y. buf = Some y \<longrightarrow> length y = unat b"
      using mallocD [OF that(4)] b by auto
    have "w_dev w4 = w_dev w" using header_offset_dev [OF that(5)] m by simp
    moreover have "off = int (header_off d gpt)" if "0 \<le> off"
      using header_offset_of [of e path gpt d w3 off w4] \<open>gpt_header_offset e path gpt b w3 = (off, w4)\<close>
        b m d that by simp
    ultimately show ?thesis using b m by blast
  qed
  have fin: "w_dev w5 = w_dev w \<and> (r = 0 \<longrightarrow> h = hdr_bytes d gpt)"
    if "w_dev w4 = w_dev w" "length y = unat (bd_blksz d)"
      "blk_rw e path False (int (header_off d gpt)) y (unat (bd_blksz d)) w4 = Some (r, h, w5)"
    for w4 y r h w5
    using that blk_read_dev [OF that(3)] blk_read_full [of e path "header_off d gpt" y "unat (bd_blksz d)" w4 h w5 d]
      d geom_off [OF d(2), of gpt] by (auto simp: hdr_bytes_def)
  show ?thesis
    unfolding gpt_get_header_def wp_rules p
  proof (intro allI impI conjI, goal_cases)
    case (1) then show ?case by simp
  next
    case (2 path' a w1)
    then show ?case by (auto dest: sys_openD)
  next
    case (3 path' a w1 fd b w2)
    then show ?case using opn [of fd w1] get_block_sizeD [of e path w1 b w2 d] d by auto
  next
    case (4 path' a w1 fd b w2 buf w3 off w4)
    then show ?case using opn [of fd w1] pre [of w1 b w2 buf w3 off w4] by auto
  next
    case (5 path' a w1 fd b w2 buf w3 off w4 x r aa h w')
    then show ?case using opn [of fd w1] pre [of w1 b w2 buf w3 off w4] by (auto dest: blk_read_dev)
  next
    case (6 path' a w1 fd b w2 buf w3 off w4 y x r aa h w')
    have o: "fd = path" "w_dev w1 = w_dev w" using opn [of fd w1] 6 by auto
    have q: "w_dev w4 = w_dev w" "b = bd_blksz d" "length y = unat b" "off = int (header_off d gpt)"
      using pre [of w1 b w2 buf w3 off w4] 6 o by auto
    have "blk_rw e path False (int (header_off d gpt)) y (unat (bd_blksz d)) w4 = Some (r, h, w')"
      using 6(10,11,12) o(1) q(2,4) by simp
    from fin [OF q(1) _ this] q(2,3) show ?case by auto
  qed
qed

lemma get_pentry_arr_wp:
  assumes d: "w_dev w fd = Some d" "tables_at d p q n"
  shows "wp (gpt_get_pentry_arr e (Some (hdr_bytes d gpt)) fd w) (\<lambda>(a, w'). w_dev w' = w_dev w \<and>
     (\<forall>x. a = Some x \<longrightarrow> x = table d gpt))"
  unfolding gpt_get_pentry_arr_def wp_rules
proof (intro allI impI conjI, goal_cases)
  case (4 h b w1 start sz a w2 buf x r y arr w')
  then have b: "w_dev w1 = w_dev w" "b = bd_blksz d" "h = hdr_bytes d gpt"
    using get_block_sizeD [of e fd w b w1 d] d by auto
  have c: "w_dev w2 = w_dev w" "length buf = unat sz" using 4 b callocD by fastforce+
  have reg: "sint start = int (start_of p q gpt)" "unat sz = n"
    using 4 b tables_at_region [OF d(2), of gpt]
    by (auto simp: region_def hdr_region_def split: if_splits)
  show ?case
  proof (simp only: prod.case, intro conjI allI impI)
    show "w_dev w' = w_dev w" using 4 c blk_read_dev by auto
    fix z assume "(if r \<noteq> 0 then None else Some arr) = Some z"
    then have "r = 0" "z = arr" by (auto split: if_splits)
    with 4 c reg d tables_at_fit [OF d(2), of gpt] show "z = table d gpt"
      unfolding table_at [OF d(2)] by (intro blk_read_full [where buf = buf and w = w2]) auto
  qed
qed (use d in \<open>auto dest!: callocD dest: get_block_sizeD\<close>)

text \<open>A \<open>gpt_disk\<close> that holds both copies of the table of \<open>d\<close>, found at \<open>path\<close>.\<close>

definition loaded :: "blkdev \<Rightarrow> string \<Rightarrow> gpt_disk \<Rightarrow> bool" where
  "loaded d path disk \<longleftrightarrow>
     gd_hdr disk = Some (hdr_bytes d PRIMARY_GPT) \<and> gd_hdr_bak disk = Some (hdr_bytes d SECONDARY_GPT) \<and>
     gd_pentry_arr disk = Some (table d PRIMARY_GPT) \<and> gd_pentry_arr_bak disk = Some (table d SECONDARY_GPT) \<and>
     pentries_arr_size (hdr_bytes d PRIMARY_GPT) = Some (gd_pentry_arr_size disk) \<and>
     GET_4_BYTES (hdr_bytes d PRIMARY_GPT) 84 = Some (gd_pentry_size disk) \<and>
     gd_devpath disk = path \<and> gd_is_initialized disk = 0xABCD"

lemma load_headers_wp:
  assumes p: "get_dev_path_from_partition_name e part PATH_MAX = Some path"
    and d: "w_dev w path = Some d" "geom d"
  shows "wp (load_headers e part disk w) (\<lambda>(r, disk', w'). w_dev w' = w_dev w \<and> r \<in> {0, -1} \<and>
     (r = 0 \<longrightarrow> gd_hdr disk' = Some (hdr_bytes d PRIMARY_GPT) \<and>
        gd_hdr_bak disk' = Some (hdr_bytes d SECONDARY_GPT)))"
proof -
  have H: "gpt_get_header e part gpt w1 = Some (h, w2) \<Longrightarrow> w_dev w1 = w_dev w \<Longrightarrow>
     w_dev w2 = w_dev w \<and> (\<forall>x. h = Some x \<longrightarrow> x = hdr_bytes d gpt)" for gpt w1 h w2
    using wpD [OF get_header_wp [OF p, of w1 d gpt]] d by auto
  show ?thesis
    unfolding load_headers_def wp_rules
    by (intro allI impI conjI) (auto dest!: H)
qed

lemma load_arrays_wp:
  assumes d: "w_dev w fd = Some d" "tables_at d p q n"
    and h: "gd_hdr disk = Some (hdr_bytes d PRIMARY_GPT)" "gd_hdr_bak disk = Some (hdr_bytes d SECONDARY_GPT)"
    and path: "gd_devpath disk = path"
  shows "wp (load_arrays e fd disk w) (\<lambda>(r, disk', w'). w_dev w' = w_dev w \<and> r \<in> {0, -1} \<and>
     (r = 0 \<longrightarrow> loaded d path disk'))"
proof -
  have A: "gpt_get_pentry_arr e (Some (hdr_bytes d gpt)) fd w1 = Some (a, w2) \<Longrightarrow> w_dev w1 = w_dev w \<Longrightarrow>
     w_dev w2 = w_dev w \<and> (\<forall>x. a = Some x \<longrightarrow> x = table d gpt)" for gpt w1 a w2
    using wpD [OF get_pentry_arr_wp [OF _ d(2), of w1 fd e gpt]] d by auto
  have B: "gpt_get_block_size e fd w1 = (b, w2) \<Longrightarrow> w_dev w1 = w_dev w \<Longrightarrow> w_dev w2 = w_dev w" for w1 b w2
    using get_block_sizeD [of e fd w1 b w2 d] d by simp
  show ?thesis
    unfolding load_arrays_def wp_rules Let_def
    by (intro allI impI conjI)
       (auto simp: h path loaded_def pentries_arr_size_def dest!: A B)
qed

lemma get_disk_info_wp:
  assumes p: "get_dev_path_from_partition_name e part PATH_MAX = Some path"
    and d: "w_dev w path = Some d" "tables_ok d"
  shows "wp (gpt_disk_get_disk_info e part disk w) (\<lambda>(r, disk', w'). w_dev w' = w_dev w \<and>
     r \<in> {0, -1} \<and> (r = 0 \<longrightarrow> loaded d path disk'))"
proof -
  from d(2) obtain ps q n where at: "tables_at d ps q n" by (auto simp: tables_ok_def)
  have H: "load_headers e part disk w = Some (r, disk1, w1) \<Longrightarrow> w_dev w1 = w_dev w \<and> r \<in> {0, -1} \<and>
     (r = 0 \<longrightarrow> gd_hdr disk1 = Some (hdr_bytes d PRIMARY_GPT) \<and>
        gd_hdr_bak disk1 = Some (hdr_bytes d SECONDARY_GPT))" for r disk1 w1
    using wpD [OF load_headers_wp [OF p d(1) tables_at_geom [OF at], of disk]] by auto
  have A: "wp (load_arrays e fd (disk1\<lparr>gd_devpath := path\<rparr>) w2) (\<lambda>(r, disk', w'). w_dev w' = w_dev w \<and>
      r \<in> {0, -1} \<and> (r = 0 \<longrightarrow> loaded d path disk'))"
    if "load_headers e part disk w = Some (0, disk1, w1)" "sys_open e path w1 = (Some fd, w2)" for disk1 w1 fd w2
    using load_arrays_wp [of w2 fd d ps q n "disk1\<lparr>gd_devpath := path\<rparr>" path e] at d(1)
      H [OF that(1)] sys_openD [OF that(2)] by simp
  show ?thesis
    unfolding gpt_disk_get_disk_info_def wp_rules p
  proof (intro allI impI conjI, goal_cases)
    case (1 x r b disk1 w1)
    then show ?case using H by auto
  next
    case (2 x r b disk1 w1)
    then show ?case using H by auto
  next
    case (3 x r b disk1 w1 path' a w2)
    then show ?case using H sys_openD [of e path w1 a w2] by auto
  next
    case (4 x r b disk1 w1 path' a w2 fd)
    then show ?case using A by auto
  qed
qed


section \<open>Writing\<close>

lemma set_header_wp:
  assumes d: "w_dev w fd = Some d" "geom d" and h: "length h = unat (bd_blksz d)"
  shows "wp (gpt_set_header e (Some h) fd gpt w) (\<lambda>(r, w'). r = -1 \<and> w_dev w' = w_dev w \<or>
     r = 0 \<and> (\<exists>d'. w_dev w' = (w_dev w)(fd \<mapsto> d') \<and> hdr_bytes d' gpt = h \<and>
       same_outside (header_off d gpt) (unat (bd_blksz d)) d d'))"
  unfolding gpt_set_header_def wp_rules
proof (intro allI impI conjI, goal_cases)
  case (4 h' b w1 off w2 x r y z w')
  then have b: "w_dev w1 = w_dev w" "b = bd_blksz d" "h' = h"
    using get_block_sizeD [OF 4(2) d(1)] by auto
  have w2: "w_dev w2 = w_dev w" "off = int (header_off d gpt)"
    using header_offset_of [of e fd gpt d w1 off w2] 4 b d header_offset_dev [OF 4(4)] by auto
  have wr: "blk_rw e fd True (int (header_off d gpt)) h (unat (bd_blksz d)) w2 = Some (r, z, w')"
    using 4 b w2 by simp
  have "w_dev w2 fd = Some d" using w2 d by simp
  from blk_write_cases [OF wr this] show ?case
  proof cases
    case (2 d')
    let ?p = "header_off d gpt" and ?n = "unat (bd_blksz d)"
    have same: "same_outside ?p ?n d d'" using 2 by (simp add: same_outside_def)
    have "slice ?p ?n (bd_data d') = h"
      using 2 h geom_off [OF d(2), of gpt] by (simp add: slice_overwrite_same min_def)
    then have "hdr_bytes d' gpt = h" using same by (simp add: hdr_bytes_def same_outside_off)
    with same 2 w2 show ?thesis by auto
  qed (use w2 in auto)
qed (use d in \<open>auto dest!: get_block_sizeD [OF _ d(1)] header_offset_dev\<close>)

lemma set_pentry_arr_wp:
  assumes d: "w_dev w fd = Some d" and reg: "hdr_region h (bd_blksz d) = Some (p, n)"
    and a: "length a = n" "p + n \<le> length (bd_data d)"
  shows "wp (gpt_set_pentry_arr e (Some h) fd (Some a) w) (\<lambda>(r, w'). r = -1 \<and> w_dev w' = w_dev w \<or>
     r = 0 \<and> (\<exists>d'. w_dev w' = (w_dev w)(fd \<mapsto> d') \<and> slice p n (bd_data d') = a \<and> same_outside p n d d'))"
  unfolding gpt_set_pentry_arr_def prod.case option.case wp_rules
proof (intro allI impI conjI, goal_cases)
  case (1 b w1)
  then show ?case using get_block_sizeD [OF 1(1) d] by auto
next
  case (2 b w1 start sz x r y z w')
  have b: "w_dev w1 = w_dev w" "b = bd_blksz d" using get_block_sizeD [OF 2(1) d] 2(2) by auto
  have "sint start = int p" "unat sz = n"
    using reg 2(3,4) b by (auto simp: hdr_region_def split: if_splits)
  then have wr: "blk_rw e fd True (int p) a n w1 = Some (r, z, w')" using 2 by simp
  have "w_dev w1 fd = Some d" using b d by simp
  from blk_write_cases [OF wr this] show ?case
  proof cases
    case (2 d')
    have "same_outside p n d d'" using 2 by (simp add: same_outside_def)
    moreover have "slice p n (bd_data d') = a"
      using 2 a by (simp add: slice_overwrite_same min_def)
    ultimately show ?thesis using 2 b by auto
  qed (use b in auto)
qed

text \<open>Header, then entries: the half of \<open>gpt_disk_commit\<close> that writes one copy.\<close>

definition put_copy ::
  "env \<Rightarrow> fd \<Rightarrow> gpt_instance \<Rightarrow> bytes option \<Rightarrow> bytes option \<Rightarrow> world \<Rightarrow> (int \<times> world) option" where
  "put_copy e fd gpt h a w = do {
     (r, w) \<leftarrow> gpt_set_header e h fd gpt w;
     if r \<noteq> 0 then Some (-1, w)
     else do { (r, w) \<leftarrow> gpt_set_pentry_arr e h fd a w; Some (if r \<noteq> 0 then -1 else 0, w) }
   }"

lemma commit_put_copies:
  "gpt_disk_commit e disk w =
     (if gd_is_initialized disk \<noteq> 0xABCD then Some (-1, w)
      else (let (ofd, w) = sys_open e (gd_devpath disk) w in
        case ofd of None \<Rightarrow> Some (-1, w)
        | Some fd \<Rightarrow> do {
            (r, w) \<leftarrow> put_copy e fd PRIMARY_GPT (gd_hdr disk) (gd_pentry_arr disk) w;
            if r \<noteq> 0 then Some (-1, w)
            else put_copy e fd SECONDARY_GPT (gd_hdr_bak disk) (gd_pentry_arr_bak disk) w
          }))"
  by (auto simp: gpt_disk_commit_def put_copy_def Let_def bind_assoc split: prod.splits option.splits
      intro!: Option.bind_cong [OF refl])


text \<open>A header and an array that describe the same region as the copy they replace.\<close>

definition fits_copy :: "blkdev \<Rightarrow> gpt_instance \<Rightarrow> bytes \<Rightarrow> bytes \<Rightarrow> bool" where
  [guard_defs]: "fits_copy d gpt h a \<longleftrightarrow> length h = unat (bd_blksz d) \<and>
     hdr_region h (bd_blksz d) = region d gpt \<and> length a = length (table d gpt)"

lemma header_replaced:
  assumes at: "tables_at d p q n" and same: "same_outside (header_off d gpt) (unat (bd_blksz d)) d d'"
    and reg: "hdr_region (hdr_bytes d' gpt) (bd_blksz d) = region d gpt"
  shows "tables_at d' p q n" "table d' g = table d g" "g \<noteq> gpt \<Longrightarrow> copy d' g = copy d g"
proof -
  have g: "geom d" using at by (rule tables_at_geom)
  have other: "hdr_bytes d' g = hdr_bytes d g" if "g \<noteq> gpt" for g
    using same_outside_hdr [OF same headers_apart [OF g]] that by auto
  have "region d' g = region d g" for g
    using other [of g] reg same by (cases "g = gpt") (auto simp: region_def same_outside_def)
  then show at': "tables_at d' p q n"
    using same by (intro tables_at_cong [OF at]) (auto simp: same_outside_def)
  show t: "table d' g = table d g" for g
    using same tables_at_apart(1) [OF at, of g gpt]
    by (simp add: table_at [OF at] table_at [OF at'] same_outside_def apart_sym)
  show "g \<noteq> gpt \<Longrightarrow> copy d' g = copy d g"
    using other t by (simp add: copy_def)
qed

lemma array_replaced:
  assumes at: "tables_at d p q n" and same: "same_outside (start_of p q gpt) n d d'"
  shows "tables_at d' p q n" "hdr_bytes d' g = hdr_bytes d g" "g \<noteq> gpt \<Longrightarrow> copy d' g = copy d g"
proof -
  show hd: "hdr_bytes d' g = hdr_bytes d g" for g
    using same_outside_hdr [OF same tables_at_apart(1) [OF at]] .
  show at': "tables_at d' p q n"
    using hd same by (intro tables_at_cong [OF at]) (auto simp: same_outside_def region_def)
  show "g \<noteq> gpt \<Longrightarrow> copy d' g = copy d g"
    using same tables_at_apart(2) [OF at, of gpt g] hd
    by (simp add: copy_def table_at [OF at] table_at [OF at'] same_outside_def)
qed

text \<open>Writing one copy: the other copy is untouched, and success means this one is replaced.\<close>

lemma put_copy_wp:
  assumes d: "w_dev w fd = Some d" "tables_at d p q n" and fits: "fits_copy d gpt h a"
  shows "wp (put_copy e fd gpt (Some h) (Some a) w) (\<lambda>(r, w'). r \<in> {0, -1} \<and>
     (\<exists>d'. w_dev w' = (w_dev w)(fd \<mapsto> d') \<and> bd_blksz d' = bd_blksz d \<and> tables_at d' p q n \<and>
        (\<forall>g. region d' g = region d g) \<and>
        hdr_bytes d' gpt \<in> {hdr_bytes d gpt, h} \<and>
        (\<forall>g. g \<noteq> gpt \<longrightarrow> copy d' g = copy d g) \<and> (r = 0 \<longrightarrow> copy d' gpt = (h, a))))"
  unfolding put_copy_def wp_rules
proof (intro allI impI conjI, goal_cases)
  case (1 x r w')
  from wpD [OF set_header_wp [OF d(1) tables_at_geom [OF d(2)]] 1(1)] 1(2,3) fits d
  show ?case by (intro case_prodI conjI exI [of _ d]) (auto simp: fits_copy_def fun_upd_idem)
next
  case (2 x r w1 y r2 w2)
  from wpD [OF set_header_wp [OF d(1) tables_at_geom [OF d(2)]] 2(1)] 2(2,3) fits
  obtain d1 where d1: "w_dev w1 = (w_dev w)(fd \<mapsto> d1)" "hdr_bytes d1 gpt = h"
    and same1: "same_outside (header_off d gpt) (unat (bd_blksz d)) d d1"
    by (auto simp: fits_copy_def)
  have b1: "bd_blksz d1 = bd_blksz d" using same1 by (simp add: same_outside_def)
  have reg: "hdr_region (hdr_bytes d1 gpt) (bd_blksz d) = region d gpt" using d1(2) fits by (simp add: fits_copy_def)
  note hr = header_replaced [OF d(2) same1 reg]
  have reg1: "hdr_region h (bd_blksz d1) = Some (start_of p q gpt, n)"
    using fits b1 tables_at_region [OF d(2)] by (simp add: fits_copy_def)
  have a: "length a = n" "start_of p q gpt + n \<le> length (bd_data d1)"
    using fits length_table [OF d(2)] tables_at_fit [OF hr(1)] by (auto simp: fits_copy_def)
  have "w_dev w1 fd = Some d1" using d1 by simp
  from wpD [OF set_pentry_arr_wp [OF this reg1 a] 2(4)] 2(5) consider
      (bad) "r2 = -1" "w_dev w2 = w_dev w1"
    | (ok) d2 where "r2 = 0" "w_dev w2 = (w_dev w1)(fd \<mapsto> d2)" "slice (start_of p q gpt) n (bd_data d2) = a"
        "same_outside (start_of p q gpt) n d1 d2"
    by auto
  then show ?case
  proof cases
    case bad
    with d1 hr b1 tables_at_region [OF d(2)] tables_at_region [OF hr(1)] show ?thesis
      by (intro case_prodI conjI exI [of _ d1]) auto
  next
    case (ok d2)
    note ar = array_replaced [OF hr(1) ok(4)]
    have "copy d2 gpt = (h, a)"
      using ok d1(2) ar(2) by (simp add: copy_def table_at [OF ar(1)])
    with ok d1 hr ar b1 tables_at_region [OF d(2)] tables_at_region [OF ar(1)] show ?thesis
      by (intro case_prodI conjI exI [of _ d2]) (auto simp: same_outside_def)
  qed
qed


fun holds :: "gpt_disk \<Rightarrow> gpt_instance \<Rightarrow> bytes \<Rightarrow> bytes \<Rightarrow> bool" where
  "holds disk PRIMARY_GPT h a = (gd_hdr disk = Some h \<and> gd_pentry_arr disk = Some a)"
| "holds disk SECONDARY_GPT h a = (gd_hdr_bak disk = Some h \<and> gd_pentry_arr_bak disk = Some a)"

definition fits_disk :: "blkdev \<Rightarrow> gpt_disk \<Rightarrow> bool" where
  [guard_defs]: "fits_disk d disk \<longleftrightarrow> gd_is_initialized disk = 0xABCD \<and>
     (\<forall>gpt. \<exists>h a. holds disk gpt h a \<and> fits_copy d gpt h a)"

text \<open>Every copy a commit has not finished with is the one the device had before.\<close>

definition committed :: "int \<Rightarrow> gpt_disk \<Rightarrow> blkdev \<Rightarrow> blkdev \<Rightarrow> bool" where
  "committed r disk d d' \<longleftrightarrow>
     (r = 0 \<longrightarrow> (\<forall>gpt. case_prod (holds disk gpt) (copy d' gpt))) \<and>
     (r \<noteq> 0 \<longrightarrow> copy d' SECONDARY_GPT = copy d SECONDARY_GPT \<or>
        case_prod (holds disk PRIMARY_GPT) (copy d' PRIMARY_GPT))"

lemma fits_copy_cong:
  assumes "fits_copy d gpt h a" "tables_at d p q n" "tables_at d' p q n" "bd_blksz d' = bd_blksz d"
    "region d' gpt = region d gpt"
  shows "fits_copy d' gpt h a"
  using assms by (simp add: fits_copy_def length_table)

lemma commit_wp:
  assumes d: "w_dev w (gd_devpath disk) = Some d" "tables_ok d" and fits: "fits_disk d disk"
  shows "wp (gpt_disk_commit e disk w) (\<lambda>(r, w'). r \<in> {0, -1} \<and>
     (\<exists>d'. w_dev w' = (w_dev w)(gd_devpath disk \<mapsto> d') \<and> tables_ok d' \<and> bd_blksz d' = bd_blksz d \<and>
        (\<forall>g. region d' g = region d g) \<and>
        (\<forall>g. hdr_bytes d' g = hdr_bytes d g \<or> (\<exists>a. holds disk g (hdr_bytes d' g) a)) \<and>
        committed r disk d d'))"
proof -
  from d(2) obtain p q n where at: "tables_at d p q n" by (auto simp: tables_ok_def)
  from fits have "\<exists>h a. holds disk gpt h a \<and> fits_copy d gpt h a" for gpt by (simp add: fits_disk_def)
  from this [of PRIMARY_GPT] this [of SECONDARY_GPT] fits obtain h a hb ab where
    P: "gd_hdr disk = Some h" "gd_pentry_arr disk = Some a" "fits_copy d PRIMARY_GPT h a" and
    S: "gd_hdr_bak disk = Some hb" "gd_pentry_arr_bak disk = Some ab" "fits_copy d SECONDARY_GPT hb ab" and
    init: "gd_is_initialized disk = 0xABCD"
    by (auto simp: fits_disk_def)
  have PC: "\<exists>d1. w_dev w2 = (w_dev w)(fd \<mapsto> d1) \<and> bd_blksz d1 = bd_blksz d \<and> tables_at d1 p q n \<and>
      (\<forall>g. region d1 g = region d g) \<and> copy d1 SECONDARY_GPT = copy d SECONDARY_GPT \<and>
      hdr_bytes d1 PRIMARY_GPT \<in> {hdr_bytes d PRIMARY_GPT, h} \<and> (r = 0 \<longrightarrow> copy d1 PRIMARY_GPT = (h, a)) \<and> r \<in> {0, -1}"
    if "put_copy e fd PRIMARY_GPT (Some h) (Some a) w1 = Some (r, w2)" "fd = gd_devpath disk" "w_dev w1 = w_dev w"
    for fd r w1 w2
    using wpD [OF put_copy_wp [OF _ at P(3)] that(1)] that(2,3) d(1) by fastforce
  show ?thesis
    unfolding commit_put_copies wp_rules P(1,2) S(1,2)
  proof (intro allI impI conjI, goal_cases)
    case 1
    then show ?case using init by simp
  next
    case (2 a w')
    then show ?case using sys_openD [OF 2(2)] d at
      by (intro case_prodI conjI exI [of _ d]) (auto simp: committed_def fun_upd_idem)
  next
    case (3 b w1 fd x r w')
    then have o: "fd = gd_devpath disk" "w_dev w1 = w_dev w" using sys_openD [of e "gd_devpath disk" w b w1] by auto
    from PC [OF _ o, of r w'] 3 obtain d1 where d1: "w_dev w' = (w_dev w)(fd \<mapsto> d1)" "bd_blksz d1 = bd_blksz d"
      "tables_at d1 p q n" "\<forall>g. region d1 g = region d g" "copy d1 SECONDARY_GPT = copy d SECONDARY_GPT"
      "hdr_bytes d1 PRIMARY_GPT \<in> {hdr_bytes d PRIMARY_GPT, h}" by blast
    moreover have "hdr_bytes d1 g = hdr_bytes d g \<or> (\<exists>a. holds disk g (hdr_bytes d1 g) a)" for g
      using calculation(5,6) P by (cases g) (auto simp: copy_def)
    ultimately show ?case unfolding o(1)
      by (intro case_prodI conjI exI [of _ d1]) (auto simp: committed_def tables_ok_def)
  next
    case (4 b w1 fd x r w2)
    then have o: "fd = gd_devpath disk" "w_dev w1 = w_dev w" using sys_openD [of e "gd_devpath disk" w b w1] by auto
    from PC [OF _ o, of 0 w2] 4 obtain d1 where d1: "w_dev w2 = (w_dev w)(fd \<mapsto> d1)" "bd_blksz d1 = bd_blksz d"
      "tables_at d1 p q n" "\<forall>g. region d1 g = region d g" "copy d1 PRIMARY_GPT = (h, a)"
      "copy d1 SECONDARY_GPT = copy d SECONDARY_GPT" by blast
    have fit1: "fits_copy d1 SECONDARY_GPT hb ab"
      using fits_copy_cong [OF S(3) at d1(3,2)] d1(4) by simp
    have w2: "w_dev w2 fd = Some d1" using d1 by simp
    show ?case
    proof (rule wpI)
      fix y assume "put_copy e fd SECONDARY_GPT (Some hb) (Some ab) w2 = Some y"
      from wpD [OF put_copy_wp [OF w2 d1(3) fit1] this] obtain r w' d2 where y: "y = (r, w')"
        and d2: "r \<in> {0, -1}" "w_dev w' = (w_dev w2)(fd \<mapsto> d2)" "bd_blksz d2 = bd_blksz d1"
        "tables_at d2 p q n" "\<forall>g. region d2 g = region d1 g"
        "\<forall>g. g \<noteq> SECONDARY_GPT \<longrightarrow> copy d2 g = copy d1 g" "r = 0 \<longrightarrow> copy d2 SECONDARY_GPT = (hb, ab)"
        "hdr_bytes d2 SECONDARY_GPT \<in> {hdr_bytes d1 SECONDARY_GPT, hb}"
        by (cases y) auto
      have hd: "hdr_bytes d2 g = hdr_bytes d g \<or> (\<exists>a. holds disk g (hdr_bytes d2 g) a)" for g
        using d2(6,8) d1(5,6) P S by (cases g) (auto simp: copy_def)
      have c: "case_prod (holds disk PRIMARY_GPT) (copy d2 PRIMARY_GPT)"
        using d2(6) d1(5) P by simp
      have "case_prod (holds disk gpt) (copy d2 gpt)" if "r = 0" for gpt
        using c d2(7) that S by (cases gpt) auto
      with c have "committed r disk d d2" by (simp add: committed_def)
      moreover have "w_dev w' = (w_dev w)(gd_devpath disk \<mapsto> d2)" using d2(2) d1(1) o(1) by simp
      ultimately show "case y of (r, w') \<Rightarrow> r \<in> {0, -1} \<and> (\<exists>d'. w_dev w' = (w_dev w)(gd_devpath disk \<mapsto> d') \<and>
          tables_ok d' \<and> bd_blksz d' = bd_blksz d \<and> (\<forall>g. region d' g = region d g) \<and>
          (\<forall>g. hdr_bytes d' g = hdr_bytes d g \<or> (\<exists>a. holds disk g (hdr_bytes d' g) a)) \<and> committed r disk d d')"
        using d2(1,3,4,5) d1(2,4) hd unfolding y
        by (intro case_prodI conjI exI [of _ d2]) (auto simp: tables_ok_def)
    qed
  qed
qed


section \<open>Checksums\<close>

text \<open>
  A copy is sealed when the checksum in its header is right, so that only the signature decides
  its state, and the header carries the checksum of the first \<open>n\<close> bytes of the entries.
\<close>

definition sealed :: "env \<Rightarrow> u32 \<Rightarrow> bytes \<Rightarrow> bytes \<Rightarrow> bool" where
  "sealed e n h a \<longleftrightarrow> header_state e h = Some (sig_state h) \<and>
     (\<exists>c. crc32 e a n = Some c \<and> GET_4_BYTES h 88 = Some c)"

lemma crc_fields:
  assumes "92 \<le> length h" "PUT_4_BYTES h 88 c = Some h1" "PUT_4_BYTES h1 16 0 = Some h2" "PUT_4_BYTES h2 16 c2 = Some h3"
  shows "length h3 = length h" "hdr_region h3 bs = hdr_region h bs" "GET_4_BYTES h1 12 = GET_4_BYTES h 12"
    "GET_4_BYTES h3 12 = GET_4_BYTES h 12" "take 9 h3 = take 9 h" "GET_4_BYTES h3 84 = GET_4_BYTES h 84"
proof -
  have h: "h1 = overwrite 88 (le4_bytes c) h" "h2 = overwrite 16 (le4_bytes 0) h1"
    "h3 = overwrite 16 (le4_bytes c2) h1" "length h1 = length h"
    using assms by (auto simp: PUT_4_BYTES_Some overwrite_twice)
  show "length h3 = length h" "GET_4_BYTES h1 12 = GET_4_BYTES h 12" "GET_4_BYTES h3 12 = GET_4_BYTES h 12"
    "take 9 h3 = take 9 h" "GET_4_BYTES h3 84 = GET_4_BYTES h 84"
    using assms(1) h by (simp_all add: slice_simps apart_def take_overwrite)
  have "GET_8_BYTES h3 72 = GET_8_BYTES h 72" "GET_4_BYTES h3 80 = GET_4_BYTES h 80" "GET_4_BYTES h3 84 = GET_4_BYTES h 84"
    using assms(1) h by (simp_all add: slice_simps apart_def)
  then show "hdr_region h3 bs = hdr_region h bs"
    by (simp add: hdr_region_def pentries_start_def pentries_arr_size_def)
qed

lemma update_crc_wp:
  assumes init: "gd_is_initialized disk = 0xABCD"
    and P: "holds disk PRIMARY_GPT h a" "92 \<le> length h" and S: "holds disk SECONDARY_GPT hb ab" "92 \<le> length hb"
  shows "wp (gpt_disk_update_crc e disk) (\<lambda>(r, disk'). r = 0 \<and>
     (\<exists>h' hb'. holds disk' PRIMARY_GPT h' a \<and> holds disk' SECONDARY_GPT hb' ab \<and>
        length h' = length h \<and> length hb' = length hb \<and> take 9 h' = take 9 h \<and> take 9 hb' = take 9 hb \<and>
        GET_4_BYTES h' 12 = GET_4_BYTES h 12 \<and> GET_4_BYTES hb' 12 = GET_4_BYTES hb 12 \<and>
        GET_4_BYTES h' 84 = GET_4_BYTES h 84 \<and>
        (\<forall>bs. hdr_region h' bs = hdr_region h bs \<and> hdr_region hb' bs = hdr_region hb bs) \<and>
        sealed e (gd_pentry_arr_size disk) h' a \<and>
        (GET_4_BYTES hb 12 = GET_4_BYTES h 12 \<longrightarrow> sealed e (gd_pentry_arr_size disk) hb' ab)) \<and>
     gd_is_initialized disk' = 0xABCD \<and> gd_devpath disk' = gd_devpath disk \<and>
     gd_pentry_arr_size disk' = gd_pentry_arr_size disk \<and> gd_pentry_size disk' = gd_pentry_size disk)" (is "wp _ ?Q")
proof (rule wpI)
  fix x assume x: "gpt_disk_update_crc e disk = Some x"
  have eqs: "gd_pentry_arr disk = Some a" "gd_pentry_arr_bak disk = Some ab" "gd_hdr disk = Some h" "gd_hdr_bak disk = Some hb"
    using P S by auto
  let ?n = "gd_pentry_arr_size disk"
  from x init eqs obtain c cb h1 hb1 hs h2 hb2 c2 cb2 h3 hb3 where
    c: "crc32 e a ?n = Some c" "crc32 e ab ?n = Some cb" and
    h1: "PUT_4_BYTES h 88 c = Some h1" "PUT_4_BYTES hb 88 cb = Some hb1" and hs: "GET_4_BYTES h1 12 = Some hs" and
    h2: "PUT_4_BYTES h1 16 0 = Some h2" "PUT_4_BYTES hb1 16 0 = Some hb2" and
    c2: "crc32 e h2 hs = Some c2" "crc32 e hb2 hs = Some cb2" and
    h3: "PUT_4_BYTES h2 16 c2 = Some h3" "PUT_4_BYTES hb2 16 cb2 = Some hb3" and
    x': "x = (0, disk\<lparr>gd_hdr := Some h3, gd_hdr_bak := Some hb3, gd_hdr_crc := c2, gd_hdr_bak_crc := cb2,
       gd_pentry_arr_crc := c, gd_pentry_arr_bak_crc := cb\<rparr>)"
    by (auto simp: gpt_disk_update_crc_def bind_eq_Some_conv)
  note f = crc_fields [OF P(2) h1(1) h2(1) h3(1)] and fb = crc_fields [OF S(2) h1(2) h2(2) h3(2)]
  have hs': "GET_4_BYTES h 12 = Some hs" using hs f(3) by simp
  note rp = rewritten_header [OF P(2) hs' h1(1) h2(1) c2(1) h3(1)]
  have sp: "sealed e ?n h3 a" using rp f c by (simp add: sealed_def sig_state_def)
  have sb: "sealed e ?n hb3 ab" if "GET_4_BYTES hb 12 = GET_4_BYTES h 12"
    using rewritten_header [OF S(2) _ h1(2) h2(2) c2(2) h3(2)] that hs' fb c by (simp add: sealed_def sig_state_def)
  show "?Q x"
    unfolding x' prod.case
    by (intro conjI exI [of _ h3] exI [of _ hb3]) (auto simp: f fb sp sb init eqs)
qed


section \<open>When no call fails\<close>

definition no_fail :: "env \<Rightarrow> bool" where
  [guard_defs]: "no_fail e \<longleftrightarrow> (\<forall>k. env_ok e k)"

lemma sys_no_fail: "no_fail e \<Longrightarrow> sys e w = (True, w\<lparr>w_tick := Suc (w_tick w)\<rparr>)"
  by (simp add: no_fail_def sys_def)

lemmas calls_no_fail = sys_blksz_def lseek_end_def malloc_def calloc_def sys_open_def sys_no_fail

lemma blk_rw_no_fail:
  assumes "no_fail e" "w_dev w fd = Some d" "p + n \<le> length (bd_data d)" "n \<le> length buf"
  shows "\<exists>buf' w'. blk_rw e fd rw (int p) buf n w = Some (0, buf', w')"
  using assms by (auto simp: blk_rw_def sys_no_fail Let_def)

lemma block_size_no_fail:
  "no_fail e \<Longrightarrow> w_dev w fd = Some d \<Longrightarrow>
   \<exists>w'. gpt_get_block_size e fd w = (bd_blksz d, w') \<and> w_dev w' = w_dev w"
  by (simp add: gpt_get_block_size_def calls_no_fail)

lemma geom_blksz: "geom d \<Longrightarrow> bd_blksz d \<noteq> 0"
  by (auto simp: geom_def)

lemma header_offset_no_fail:
  "no_fail e \<Longrightarrow> w_dev w fd = Some d \<Longrightarrow> geom d \<Longrightarrow>
   \<exists>w'. gpt_header_offset e fd gpt (bd_blksz d) w = (int (header_off d gpt), w') \<and> w_dev w' = w_dev w"
  by (cases gpt) (auto simp: gpt_header_offset_def calls_no_fail header_off_def geom_def of_nat_diff
      simp del: of_nat_unat)

lemma set_header_no_fail:
  assumes "no_fail e" "w_dev w fd = Some d" "geom d" "length h = unat (bd_blksz d)"
  shows "\<exists>w'. gpt_set_header e (Some h) fd gpt w = Some (0, w')"
proof -
  obtain w1 where 1: "gpt_get_block_size e fd w = (bd_blksz d, w1)" "w_dev w1 = w_dev w"
    using block_size_no_fail assms(1,2) by blast
  obtain w2 where 2: "gpt_header_offset e fd gpt (bd_blksz d) w1 = (int (header_off d gpt), w2)" "w_dev w2 = w_dev w"
    using header_offset_no_fail [of e w1 fd d gpt] assms(1,2,3) 1(2) by auto
  obtain b w3 where 3: "blk_rw e fd True (int (header_off d gpt)) h (unat (bd_blksz d)) w2 = Some (0, b, w3)"
    using blk_rw_no_fail [of e w2 fd d "header_off d gpt" "unat (bd_blksz d)" h True] assms 2(2) geom_off by auto
  have "0 < header_off d gpt" using assms(3) by (cases gpt) (auto simp: header_off_def geom_def)
  then show ?thesis using 1 2 3 geom_blksz [OF assms(3)] by (simp add: gpt_set_header_def)
qed

lemma set_pentry_arr_no_fail:
  assumes "no_fail e" "w_dev w fd = Some d" "geom d" "hdr_region h (bd_blksz d) = Some (p, n)"
    "length a = n" "p + n \<le> length (bd_data d)"
  shows "\<exists>w'. gpt_set_pentry_arr e (Some h) fd (Some a) w = Some (0, w')"
proof -
  obtain w1 where 1: "gpt_get_block_size e fd w = (bd_blksz d, w1)" "w_dev w1 = w_dev w"
    using block_size_no_fail assms(1,2) by blast
  from assms(4) obtain st sz where reg: "pentries_start h (bd_blksz d) = Some st" "pentries_arr_size h = Some sz"
    "sint st = int p" "unat sz = n"
    by (auto simp: hdr_region_def bind_eq_Some_conv split: if_splits)
  obtain b w2 where "blk_rw e fd True (int p) a n w1 = Some (0, b, w2)"
    using blk_rw_no_fail [of e w1 fd d p n a True] assms 1(2) by auto
  then show ?thesis using 1 reg geom_blksz [OF assms(3)] by (simp add: gpt_set_pentry_arr_def)
qed

lemma put_copy_no_fail:
  assumes "no_fail e" "w_dev w fd = Some d" "tables_at d p q n" "fits_copy d gpt h a"
  shows "\<exists>w'. put_copy e fd gpt (Some h) (Some a) w = Some (0, w')"
proof -
  have g: "geom d" and h: "length h = unat (bd_blksz d)"
    using assms(3,4) by (auto simp: tables_at_geom fits_copy_def)
  obtain w1 where 1: "gpt_set_header e (Some h) fd gpt w = Some (0, w1)"
    using set_header_no_fail [OF assms(1,2) g h] by blast
  from wpD [OF set_header_wp [OF assms(2) g h] this] obtain d1 where
    d1: "w_dev w1 fd = Some d1" "same_outside (header_off d gpt) (unat (bd_blksz d)) d d1" by auto
  have "hdr_region h (bd_blksz d1) = Some (start_of p q gpt, n)"
    using assms(3,4) d1(2) tables_at_region by (simp add: fits_copy_def same_outside_off)
  moreover have "length a = n" "start_of p q gpt + n \<le> length (bd_data d1)"
    using assms(4) length_table [OF assms(3)] tables_at_fit [OF assms(3)] d1(2)
    by (auto simp: fits_copy_def same_outside_def)
  ultimately obtain w2 where "gpt_set_pentry_arr e (Some h) fd (Some a) w1 = Some (0, w2)"
    using set_pentry_arr_no_fail [OF assms(1) d1(1)] g same_outside_geom [OF d1(2)] by blast
  with 1 show ?thesis by (simp add: put_copy_def)
qed


lemma commit_no_fail:
  assumes "no_fail e" "w_dev w (gd_devpath disk) = Some d" "tables_ok d" "fits_disk d disk"
  shows "\<exists>w'. gpt_disk_commit e disk w = Some (0, w')"
proof -
  from assms(3) obtain p q n where at: "tables_at d p q n" by (auto simp: tables_ok_def)
  from assms(4) have "\<exists>h a. holds disk gpt h a \<and> fits_copy d gpt h a" for gpt by (simp add: fits_disk_def)
  from this [of PRIMARY_GPT] this [of SECONDARY_GPT] assms(4) obtain h a hb ab where
    P: "gd_hdr disk = Some h" "gd_pentry_arr disk = Some a" "fits_copy d PRIMARY_GPT h a" and
    S: "gd_hdr_bak disk = Some hb" "gd_pentry_arr_bak disk = Some ab" "fits_copy d SECONDARY_GPT hb ab" and
    init: "gd_is_initialized disk = 0xABCD"
    by (auto simp: fits_disk_def)
  let ?fd = "gd_devpath disk"
  obtain w1 where o: "sys_open e ?fd w = (Some ?fd, w1)" "w_dev w1 ?fd = Some d"
    using assms(1,2) by (simp add: calls_no_fail)
  obtain w2 where 2: "put_copy e ?fd PRIMARY_GPT (Some h) (Some a) w1 = Some (0, w2)"
    using put_copy_no_fail [OF assms(1) o(2) at P(3)] by blast
  from wpD [OF put_copy_wp [OF o(2) at P(3)] 2] obtain d1 where d1: "w_dev w2 ?fd = Some d1"
    "tables_at d1 p q n" "bd_blksz d1 = bd_blksz d" "region d1 SECONDARY_GPT = region d SECONDARY_GPT"
    by auto
  obtain w3 where "put_copy e ?fd SECONDARY_GPT (Some hb) (Some ab) w2 = Some (0, w3)"
    using put_copy_no_fail [OF assms(1) d1(1,2) fits_copy_cong [OF S(3) at d1(2,3,4)]] by blast
  with o 2 P S init show ?thesis by (simp add: commit_put_copies)
qed

lemma get_header_no_fail:
  assumes p: "get_dev_path_from_partition_name e part PATH_MAX = Some path"
    and d: "no_fail e" "w_dev w path = Some d" "geom d"
  shows "\<exists>w'. gpt_get_header e part gpt w = Some (Some (hdr_bytes d gpt), w') \<and> w_dev w' = w_dev w"
proof -
  obtain w1 where o: "sys_open e path w = (Some path, w1)" "w_dev w1 = w_dev w"
    using d by (simp add: calls_no_fail)
  obtain w2 where 1: "gpt_get_block_size e path w1 = (bd_blksz d, w2)" "w_dev w2 = w_dev w"
    using block_size_no_fail [of e w1 path d] d o by auto
  obtain b w3 where m: "malloc e (unat (bd_blksz d)) w2 = (Some b, w3)" "w_dev w3 = w_dev w" "length b = unat (bd_blksz d)"
    using d(1) 1(2) by (simp add: calls_no_fail)
  obtain w4 where 2: "gpt_header_offset e path gpt (bd_blksz d) w3 = (int (header_off d gpt), w4)" "w_dev w4 = w_dev w"
    using header_offset_no_fail [of e w3 path d gpt] d m(2) by auto
  obtain h w5 where 3: "blk_rw e path False (int (header_off d gpt)) b (unat (bd_blksz d)) w4 = Some (0, h, w5)"
    using blk_rw_no_fail [of e w4 path d "header_off d gpt" "unat (bd_blksz d)" b False] d 2(2) m(3) geom_off by auto
  have g: "gpt_get_header e part gpt w = Some (Some h, w5)"
    using p o 1 m 2 3 geom_blksz [OF d(3)] by (simp add: gpt_get_header_def)
  from wpD [OF get_header_wp [OF p d(2,3)] g] g show ?thesis by auto
qed

lemma get_pentry_arr_no_fail:
  assumes d: "no_fail e" "w_dev w fd = Some d" "tables_at d p q n"
  shows "\<exists>w'. gpt_get_pentry_arr e (Some (hdr_bytes d gpt)) fd w = Some (Some (table d gpt), w') \<and> w_dev w' = w_dev w"
proof -
  obtain w1 where 1: "gpt_get_block_size e fd w = (bd_blksz d, w1)" "w_dev w1 = w_dev w"
    using block_size_no_fail d(1,2) by blast
  from tables_at_region [OF d(3), of gpt] obtain st sz where
    reg: "pentries_start (hdr_bytes d gpt) (bd_blksz d) = Some st" "pentries_arr_size (hdr_bytes d gpt) = Some sz"
      "sint st = int (start_of p q gpt)" "unat sz = n"
    by (auto simp: region_def hdr_region_def bind_eq_Some_conv split: if_splits)
  obtain b w2 where c: "calloc e n w1 = (Some b, w2)" "w_dev w2 = w_dev w" "length b = n"
    using d(1) 1(2) by (simp add: calls_no_fail)
  obtain a w3 where 2: "blk_rw e fd False (int (start_of p q gpt)) b n w2 = Some (0, a, w3)"
    using blk_rw_no_fail [of e w2 fd d "start_of p q gpt" n b False] d c(2,3) tables_at_fit [OF d(3)] by auto
  have g: "gpt_get_pentry_arr e (Some (hdr_bytes d gpt)) fd w = Some (Some a, w3)"
    using 1 reg c 2 geom_blksz [OF tables_at_geom [OF d(3)]] by (simp add: gpt_get_pentry_arr_def)
  from wpD [OF get_pentry_arr_wp [OF d(2,3)] g] g show ?thesis by auto
qed

text \<open>The header size both loads trust must stay inside the block, or the checksum runs off it.\<close>

definition header_size_ok :: "blkdev \<Rightarrow> bool" where
  [guard_defs]: "header_size_ok d \<longleftrightarrow>
     (\<exists>n. GET_4_BYTES (hdr_bytes d PRIMARY_GPT) 12 = Some n \<and> unat n \<le> unat (bd_blksz d))"

lemma get_disk_info_no_fail:
  assumes p: "get_dev_path_from_partition_name e part PATH_MAX = Some path"
    and d: "no_fail e" "w_dev w path = Some d" "tables_ok d" "header_size_ok d"
  shows "\<exists>disk' w'. gpt_disk_get_disk_info e part disk w = Some (0, disk', w')"
proof -
  from d(3) obtain ps q n where at: "tables_at d ps q n" by (auto simp: tables_ok_def)
  note g = tables_at_geom [OF at]
  from d(4) obtain hs where hs: "GET_4_BYTES (hdr_bytes d PRIMARY_GPT) 12 = Some hs" "unat hs \<le> unat (bd_blksz d)"
    by (auto simp: header_size_ok_def)
  have crc: "\<exists>c. crc32 e (hdr_bytes d gpt) hs = Some c" for gpt using hs(2) g by (simp add: crc32_def)
  obtain w1 where 1: "gpt_get_header e part PRIMARY_GPT w = Some (Some (hdr_bytes d PRIMARY_GPT), w1)" "w_dev w1 = w_dev w"
    using get_header_no_fail [OF p d(1,2) g] by blast
  obtain w2 where 2: "gpt_get_header e part SECONDARY_GPT w1 = Some (Some (hdr_bytes d SECONDARY_GPT), w2)" "w_dev w2 = w_dev w"
    using get_header_no_fail [OF p d(1) _ g, of w1] d(2) 1(2) by auto
  obtain disk1 where lh: "load_headers e part disk w = Some (0, disk1, w2)"
      "gd_hdr disk1 = Some (hdr_bytes d PRIMARY_GPT)" "gd_hdr_bak disk1 = Some (hdr_bytes d SECONDARY_GPT)"
    using 1 2 hs crc [of PRIMARY_GPT] crc [of SECONDARY_GPT] by (auto simp: load_headers_def)
  obtain w3 where o: "sys_open e path w2 = (Some path, w3)" "w_dev w3 = w_dev w"
    using d(1,2) 2(2) by (simp add: calls_no_fail)
  obtain w4 where 4: "gpt_get_pentry_arr e (Some (hdr_bytes d PRIMARY_GPT)) path w3 = Some (Some (table d PRIMARY_GPT), w4)"
      "w_dev w4 = w_dev w"
    using get_pentry_arr_no_fail [OF d(1) _ at, of w3 path] d(2) o(2) by auto
  obtain w5 where 5: "gpt_get_pentry_arr e (Some (hdr_bytes d SECONDARY_GPT)) path w4 = Some (Some (table d SECONDARY_GPT), w5)"
    using get_pentry_arr_no_fail [OF d(1) _ at, of w4 path] d(2) 4(2) by auto
  have "92 \<le> length (hdr_bytes d gpt)" for gpt using g by (simp add: geom_def)
  then have "\<exists>y. GET_4_BYTES (hdr_bytes d gpt) o' = Some y" if "o' + 4 \<le> 92" for gpt o'
    using that le_trans by (intro GET_4_BYTES_defined) blast
  from this [of 84 PRIMARY_GPT] this [of 80 PRIMARY_GPT] this [of 88 PRIMARY_GPT] this [of 88 SECONDARY_GPT]
  show ?thesis
    using p lh o(1) 4 5 by (auto simp: gpt_disk_get_disk_info_def load_arrays_def Let_def split: prod.splits)
qed


section \<open>A concrete disk\<close>

text \<open>
  Seven blocks of 128 bytes: a protective block, the primary header, two primary entries, two
  secondary entries and the secondary header. \<open>tab_disk\<close> is what loading it gives.
\<close>

definition tab_header :: "u8 \<Rightarrow> bytes" where
  "tab_header lba = [69, 70, 73, 32, 80, 65, 82, 84, 0, 0, 0, 0, 92, 0, 0, 0, 92, 0, 0, 0] @ replicate 52 0
     @ [lba, 0, 0, 0, 0, 0, 0, 0, 2, 0, 0, 0, 128, 0, 0, 0, 0, 1, 0, 0] @ replicate 36 0"

definition tab_dev :: "bytes \<Rightarrow> bytes \<Rightarrow> blkdev" where
  "tab_dev a b = \<lparr>bd_blksz = 128, bd_data = replicate 128 0 @ tab_header 2 @ a @ b @ tab_header 4\<rparr>"

definition tab_world :: "string \<Rightarrow> bytes \<Rightarrow> bytes \<Rightarrow> world" where
  "tab_world path a b = \<lparr>w_tick = 0, w_dev = [path \<mapsto> tab_dev a b], w_boot_lun = None\<rparr>"

definition tab_disk :: "bytes \<Rightarrow> bytes \<Rightarrow> string \<Rightarrow> gpt_disk" where
  "tab_disk a b path = \<lparr>gd_hdr = Some (tab_header 2), gd_hdr_crc = 92, gd_hdr_bak = Some (tab_header 4),
     gd_hdr_bak_crc = 92, gd_pentry_arr = Some a, gd_pentry_arr_bak = Some b, gd_pentry_arr_size = 256,
     gd_pentry_size = 128, gd_pentry_arr_crc = 256, gd_pentry_arr_bak_crc = 256, gd_devpath = path,
     gd_block_size = 128, gd_is_initialized = 0xABCD\<rparr>"

lemma tab_disk_sel [simp]: "gd_devpath (tab_disk a b path) = path" "gd_pentry_arr (tab_disk a b path) = Some a"
  by (simp_all add: tab_disk_def)

lemma length_tab_header [simp]: "length (tab_header lba) = 128"
  by (simp add: tab_header_def)

lemma tab_hdr:
  assumes "length a = 256" "length b = 256"
  shows "hdr_bytes (tab_dev a b) PRIMARY_GPT = tab_header 2" "hdr_bytes (tab_dev a b) SECONDARY_GPT = tab_header 4"
  using assms by (simp_all add: hdr_bytes_def header_off_def tab_dev_def slice_def)

lemma tab_fields:
  "GET_8_BYTES (tab_header lba) 72 = Some (ucast lba)" "GET_4_BYTES (tab_header lba) 80 = Some 2"
  "GET_4_BYTES (tab_header lba) 84 = Some 128" "GET_4_BYTES (tab_header lba) 12 = Some 92"
  by (simp_all add: tab_header_def GET_8_BYTES_def GET_4_BYTES_def le4_def nth_append)

lemma tab_region: "hdr_region (tab_header 2) 128 = Some (256, 256)" "hdr_region (tab_header 4) 128 = Some (512, 256)"
  by (simp_all add: hdr_region_def pentries_start_def pentries_arr_size_def tab_fields)

lemma tab_tables_at: "length a = 256 \<Longrightarrow> length b = 256 \<Longrightarrow> tables_at (tab_dev a b) 256 512 256"
  by (simp add: tables_at_def region_def tab_hdr geom_def header_off_def)
     (simp add: tab_dev_def tab_region apart_def)


lemma tab_table:
  assumes "length a = 256" "length b = 256"
  shows "table (tab_dev a b) PRIMARY_GPT = a" "table (tab_dev a b) SECONDARY_GPT = b"
  using assms by (simp_all add: table_at [OF tab_tables_at [OF assms]]) (simp_all add: tab_dev_def slice_def)

lemma tab_tables_ok: "length a = 256 \<Longrightarrow> length b = 256 \<Longrightarrow> tables_ok (tab_dev a b)"
  using tab_tables_at [of a b] unfolding tables_ok_def by blast

lemma tab_fits:
  assumes "length a = 256" "length b = 256" "length a' = 256" "length b' = 256"
  shows "fits_disk (tab_dev a b) (tab_disk a' b' path)"
  unfolding fits_disk_def
proof (intro conjI allI)
  fix gpt
  show "\<exists>h x. holds (tab_disk a' b' path) gpt h x \<and> fits_copy (tab_dev a b) gpt h x"
    using assms by (cases gpt) (simp_all add: tab_disk_def fits_copy_def tab_table region_def tab_hdr, simp_all add: tab_dev_def)
qed (simp add: tab_disk_def)

lemma wit_no_fail: "no_fail wit_env"
  by (simp add: no_fail_def wit_env_def)

lemma wit_path: "get_dev_path_from_partition_name wit_env part PATH_MAX = Some BLK_DEV_FILE"
  by (simp add: get_dev_path_from_partition_name_def gpt_utils_is_ufs_device_def property_get_def)
     (simp add: wit_env_def BLK_DEV_FILE_def)

lemma wit_path_length [simp]: "length (concat wit_table) = 384"
  by (simp add: length_concat_wf [OF wit_table_wf]) (simp add: wit_table_def)

section \<open>Properties\<close>

text \<open>
  \<open>gpt_disk_update_crc\<close> seals what it is given: on an initialised disk with header blocks of
  at least 92 bytes it returns 0 and leaves the entries alone, and afterwards the primary header
  has a correct checksum and carries the checksum of its entries; so does the backup header when
  both headers announce the same header size (the code checksums the backup header with the size
  of the primary one).
\<close>

theorem update_crc_seals:
  assumes "gd_is_initialized disk = 0xABCD"
    and "gd_hdr disk = Some h" "gd_pentry_arr disk = Some a" "92 \<le> length h"
    and "gd_hdr_bak disk = Some hb" "gd_pentry_arr_bak disk = Some ab" "92 \<le> length hb"
    and "gpt_disk_update_crc e disk = Some (r, disk')"
  shows "r = 0 \<and> gd_pentry_arr disk' = Some a \<and> gd_pentry_arr_bak disk' = Some ab \<and>
    (\<exists>h' hb'. gd_hdr disk' = Some h' \<and> gd_hdr_bak disk' = Some hb' \<and>
       sealed e (gd_pentry_arr_size disk) h' a \<and>
       (GET_4_BYTES hb HEADER_SIZE_OFFSET = GET_4_BYTES h HEADER_SIZE_OFFSET \<longrightarrow>
          sealed e (gd_pentry_arr_size disk) hb' ab))"
  using wpD [OF update_crc_wp [of disk h a hb ab] assms(8)] assms(1-7) by auto

theorem update_crc_seals_witness:
  "\<exists>h'. sealed wit_env 256 h' (replicate 256 1)"
proof -
  let ?d = "tab_disk (replicate 256 1) (replicate 256 2) BLK_DEV_FILE"
  have "\<exists>x. gpt_disk_update_crc wit_env ?d = Some x"
    by (simp add: gpt_disk_update_crc_def tab_disk_def crc32_def PUT_4_BYTES_def tab_fields slice_simps apart_def)
  then obtain r disk' where "gpt_disk_update_crc wit_env ?d = Some (r, disk')" by auto
  from update_crc_seals [OF _ _ _ _ _ _ _ this, of "tab_header 2" "replicate 256 1" "tab_header 4" "replicate 256 2"]
  show ?thesis by (auto simp: tab_disk_def)
qed

text \<open>
  C7. A commit is safe at every point of failure. Writing back a disk that fits the device
  touches no other device and keeps the layout; if it reports success both copies on the device
  are the ones in memory; if it fails, whichever call failed, then the backup copy on the device
  is still the old one or the primary copy is completely the new one.
\<close>

theorem commit_crash_safe:
  assumes "w_dev w (gd_devpath disk) = Some d" "tables_ok d" "fits_disk d disk"
    and "gpt_disk_commit e disk w = Some (r, w')"
  shows "\<exists>d'. w_dev w' = (w_dev w)(gd_devpath disk \<mapsto> d') \<and> tables_ok d' \<and>
    (r = 0 \<longrightarrow> (\<forall>gpt. case_prod (holds disk gpt) (copy d' gpt))) \<and>
    (r \<noteq> 0 \<longrightarrow> r = -1 \<and> (copy d' SECONDARY_GPT = copy d SECONDARY_GPT \<or>
       case_prod (holds disk PRIMARY_GPT) (copy d' PRIMARY_GPT)))"
  using wpD [OF commit_wp [OF assms(1-3)] assms(4)] by (auto simp: committed_def)

theorem commit_crash_safe_witness:
  "\<exists>(w' :: world) d'. w_dev w' BLK_DEV_FILE = Some d' \<and>
     case_prod (holds (tab_disk (replicate 256 1) (replicate 256 2) BLK_DEV_FILE) PRIMARY_GPT) (copy d' PRIMARY_GPT)"
proof -
  let ?d = "tab_dev (replicate 256 0) (replicate 256 0)" and ?k = "tab_disk (replicate 256 1) (replicate 256 2) BLK_DEV_FILE"
  let ?w = "tab_world BLK_DEV_FILE (replicate 256 0) (replicate 256 0)"
  have w: "w_dev ?w (gd_devpath ?k) = Some ?d" by (simp add: tab_world_def tab_disk_def)
  have ok: "tables_ok ?d" "fits_disk ?d ?k" by (simp_all add: tab_tables_ok tab_fits)
  obtain w' where c: "gpt_disk_commit wit_env ?k ?w = Some (0, w')"
    using commit_no_fail [OF wit_no_fail w ok] by blast
  obtain d' where "w_dev w' = (w_dev ?w)(gd_devpath ?k \<mapsto> d')"
    "\<forall>gpt. case_prod (holds ?k gpt) (copy d' gpt)"
    using commit_crash_safe [OF w ok c] by auto
  then have "w_dev w' BLK_DEV_FILE = Some d'" "case_prod (holds ?k PRIMARY_GPT) (copy d' PRIMARY_GPT)" by auto
  then show ?thesis by (intro exI conjI)
qed

text \<open>
  C8. What is committed is what is read back. When no call fails, committing a disk that fits
  the device returns 0, loading the device again returns 0, and the reloaded disk holds the same
  headers and entries in both copies.
\<close>

theorem commit_reload:
  assumes "get_dev_path_from_partition_name e part PATH_MAX = Some (gd_devpath disk)" "no_fail e"
    and "w_dev w (gd_devpath disk) = Some d" "tables_ok d" "fits_disk d disk"
    and "gd_hdr disk = Some h" "GET_4_BYTES h HEADER_SIZE_OFFSET = Some n" "unat n \<le> length h"
  shows "\<exists>w' disk' w''. gpt_disk_commit e disk w = Some (0, w') \<and>
    gpt_disk_get_disk_info e part disk0 w' = Some (0, disk', w'') \<and>
    gd_hdr disk' = gd_hdr disk \<and> gd_pentry_arr disk' = gd_pentry_arr disk \<and>
    gd_hdr_bak disk' = gd_hdr_bak disk \<and> gd_pentry_arr_bak disk' = gd_pentry_arr_bak disk"
proof -
  obtain w' where c: "gpt_disk_commit e disk w = Some (0, w')"
    using commit_no_fail [OF assms(2-5)] by blast
  from wpD [OF commit_wp [OF assms(3-5)] c] obtain d' where d': "w_dev w' (gd_devpath disk) = Some d'" "tables_ok d'"
    "\<forall>gpt. case_prod (holds disk gpt) (copy d' gpt)" "bd_blksz d' = bd_blksz d"
    by (auto simp: committed_def)
  have P: "gd_hdr disk = Some (hdr_bytes d' PRIMARY_GPT)" "gd_pentry_arr disk = Some (table d' PRIMARY_GPT)"
    and S: "gd_hdr_bak disk = Some (hdr_bytes d' SECONDARY_GPT)" "gd_pentry_arr_bak disk = Some (table d' SECONDARY_GPT)"
    using d'(3) [rule_format, of PRIMARY_GPT] d'(3) [rule_format, of SECONDARY_GPT] by (auto simp: copy_def)
  have "geom d'" using d'(2) tables_at_geom by (auto simp: tables_ok_def)
  then have "header_size_ok d'" using assms(6-8) P by (auto simp: header_size_ok_def)
  then obtain disk' w'' where l: "gpt_disk_get_disk_info e part disk0 w' = Some (0, disk', w'')"
    using get_disk_info_no_fail [OF assms(1,2) d'(1,2)] by blast
  from wpD [OF get_disk_info_wp [OF assms(1) d'(1,2)] l] c l P S show ?thesis
    by (auto simp: loaded_def)
qed

theorem commit_reload_witness:
  "\<exists>w' disk' w''.
    gpt_disk_commit wit_env (tab_disk (replicate 256 1) (replicate 256 2) BLK_DEV_FILE)
      (tab_world BLK_DEV_FILE (replicate 256 0) (replicate 256 0)) = Some (0, w') \<and>
    gpt_disk_get_disk_info wit_env ''boot_a'' gpt_disk_zero w' = Some (0, disk', w'') \<and>
    gd_pentry_arr disk' = Some (replicate 256 1)"
proof -
  let ?d = "tab_dev (replicate 256 0) (replicate 256 0)" and ?k = "tab_disk (replicate 256 1) (replicate 256 2) BLK_DEV_FILE"
  let ?w = "tab_world BLK_DEV_FILE (replicate 256 0) (replicate 256 0)"
  have w: "w_dev ?w (gd_devpath ?k) = Some ?d" by (simp add: tab_world_def tab_disk_def)
  have ok: "tables_ok ?d" "fits_disk ?d ?k" by (simp_all add: tab_tables_ok tab_fits)
  have path: "get_dev_path_from_partition_name wit_env ''boot_a'' PATH_MAX = Some (gd_devpath ?k)"
    by (simp only: wit_path) (simp add: tab_disk_def)
  have h: "gd_hdr ?k = Some (tab_header 2)" by (simp add: tab_disk_def)
  have "unat (92 :: u32) \<le> length (tab_header 2)" by simp
  from commit_reload [OF path wit_no_fail w ok h tab_fields(4) this, of gpt_disk_zero] show ?thesis
    by auto
qed

end
