(* ===== verification/GptStages.thy ===== *)
theory GptStages
  imports GptStore
begin

text \<open>
  The failsafe update as a whole. A copy of the table is \<open>whole\<close> when its header is valid and its
  entries match the checksum in the header. The lemmas follow header states, entries and entry
  checksums through every stage of \<open>prepare_partitions\<close>, under every pattern of failing calls;
  the properties conclude that a device always keeps a whole copy and that a stage that reports
  success has done its work.
\<close>

section \<open>Whole copies\<close>

definition entries_match :: "env \<Rightarrow> blkdev \<Rightarrow> gpt_instance \<Rightarrow> bool" where
  "entries_match e d gpt \<longleftrightarrow> (\<exists>n c. pentries_arr_size (hdr_bytes d gpt) = Some n \<and>
     crc32 e (table d gpt) n = Some c \<and> GET_4_BYTES (hdr_bytes d gpt) PARTITION_CRC_OFFSET = Some c)"

definition whole :: "env \<Rightarrow> blkdev \<Rightarrow> gpt_instance \<Rightarrow> bool" where
  "whole e d gpt \<longleftrightarrow> hstate e d gpt = Some GPT_OK \<and> entries_match e d gpt"

text \<open>
  What the protocol maintains: the primary entries always match the checksum in the primary
  header, even while its signature is struck out, and one of the copies is whole.
\<close>

definition recoverable :: "env \<Rightarrow> blkdev \<Rightarrow> bool" where
  "recoverable e d \<longleftrightarrow> tables_ok d \<and> entries_match e d PRIMARY_GPT \<and>
     (whole e d PRIMARY_GPT \<or> whole e d SECONDARY_GPT)"

text \<open>Between \<open>w\<close> and \<open>w'\<close> only the device \<open>fd\<close> changed, from \<open>d\<close> to \<open>d'\<close>, and its primary entries are
  where they were and what they were.\<close>

definition kept :: "fd \<Rightarrow> nat \<Rightarrow> nat \<Rightarrow> nat \<Rightarrow> blkdev \<Rightarrow> world \<Rightarrow> blkdev \<Rightarrow> world \<Rightarrow> bool" where
  "kept fd p q n d w d' w' \<longleftrightarrow> w_dev w' = (w_dev w)(fd \<mapsto> d') \<and> tables_at d' p q n \<and>
     table d' PRIMARY_GPT = table d PRIMARY_GPT \<and>
     GET_4_BYTES (hdr_bytes d' PRIMARY_GPT) 84 = GET_4_BYTES (hdr_bytes d PRIMARY_GPT) 84"

lemma kept_same: "w_dev w fd = Some d \<Longrightarrow> tables_at d p q n \<Longrightarrow> w_dev w' = w_dev w \<Longrightarrow> kept fd p q n d w d w'"
  by (auto simp: kept_def)

lemma kept_trans: "kept fd p q n d w d1 w1 \<Longrightarrow> kept fd p q n d1 w1 d2 w2 \<Longrightarrow> kept fd p q n d w d2 w2"
  by (simp add: kept_def)

lemma kept_dev: "kept fd p q n d w d1 w1 \<Longrightarrow> w_dev w1 fd = Some d1 \<and> tables_at d1 p q n"
  by (simp add: kept_def)

lemma arr_size_region: "region d gpt = Some (p, n) \<Longrightarrow> \<exists>sz. pentries_arr_size (hdr_bytes d gpt) = Some sz \<and> unat sz = n"
  by (auto simp: region_def hdr_region_def bind_eq_Some_conv split: if_splits)

lemma entries_match_cong:
  "pentries_arr_size (hdr_bytes d' gpt) = pentries_arr_size (hdr_bytes d gpt) \<Longrightarrow> table d' gpt = table d gpt \<Longrightarrow>
   GET_4_BYTES (hdr_bytes d' gpt) 88 = GET_4_BYTES (hdr_bytes d gpt) 88 \<Longrightarrow> entries_match e d' gpt = entries_match e d gpt"
  by (simp add: entries_match_def)

section \<open>Striking out and restoring a signature\<close>

lemma mark_wp:
  assumes d: "w_dev w fd = Some d" "tables_at d p q n"
  shows "wp (gpt_set_state e fd gpt st w) (\<lambda>(r, w'). r \<noteq> 0 \<and> w_dev w' = w_dev w \<or>
     r = 0 \<and> (\<exists>d'. kept fd p q n d w d' w' \<and> hstate e d' gpt = Some st \<and>
       (\<forall>g. table d' g = table d g \<and> entries_match e d' g = entries_match e d g) \<and>
       (\<forall>g. g \<noteq> gpt \<longrightarrow> hstate e d' g = hstate e d g)))"
proof (rule wpI, simp only: split_paired_all prod.case)
  fix r w' assume x: "gpt_set_state e fd gpt st w = Some (r, w')"
  have g: "geom d" using d(2) by (rule tables_at_geom)
  from x d(1) g show "r \<noteq> 0 \<and> w_dev w' = w_dev w \<or>
     r = 0 \<and> (\<exists>d'. kept fd p q n d w d' w' \<and> hstate e d' gpt = Some st \<and>
       (\<forall>g. table d' g = table d g \<and> entries_match e d' g = entries_match e d g) \<and>
       (\<forall>g. g \<noteq> gpt \<longrightarrow> hstate e d' g = hstate e d g))"
  proof (cases rule: set_state_cases)
    case (2 d')
    have other: "hdr_bytes d' g' = hdr_bytes d g'" if "g' \<noteq> gpt" for g'
      using same_outside_hdr [OF 2(4) headers_apart [OF g that [symmetric]]] .
    have tail: "slice k m (hdr_bytes d' g') = slice k m (hdr_bytes d g')" if "20 \<le> k" for k m g'
      using 2(5) [OF that] other [of g'] by (cases "g' = gpt") auto
    have "geom d'" using g same_outside_geom [OF 2(4)] by simp
    then have len: "length (hdr_bytes d' g') = length (hdr_bytes d g')" for g'
      using g same_outside_off(2) [OF 2(4)] by simp
    have f4: "GET_4_BYTES (hdr_bytes d' g') k = GET_4_BYTES (hdr_bytes d g') k" if "20 \<le> k" for k g'
      using tail [OF that] len by (simp add: GET_4_BYTES_slice)
    have f8: "GET_8_BYTES (hdr_bytes d' g') 72 = GET_8_BYTES (hdr_bytes d g') 72" for g'
      by (rule GET_8_cong [OF tail len]) simp
    have sz: "pentries_arr_size (hdr_bytes d' g') = pentries_arr_size (hdr_bytes d g')" for g'
      by (simp add: pentries_arr_size_def f4)
    have reg: "hdr_region (hdr_bytes d' gpt) (bd_blksz d) = region d gpt"
      by (simp add: region_def hdr_region_def pentries_start_def sz f8)
    note hr = header_replaced [OF d(2) 2(4) reg]
    have em: "entries_match e d' g' = entries_match e d g'" for g'
      by (intro entries_match_cong sz hr(2) f4) simp
    have "kept fd p q n d w d' w'" using 2(2) hr f4 by (simp add: kept_def)
    moreover have "\<forall>g'. g' \<noteq> gpt \<longrightarrow> hstate e d' g' = hstate e d g'" using other by (simp add: hstate_def)
    ultimately show ?thesis using 2(1,3) hr(2) em by blast
  qed simp
qed

section \<open>Rewriting the secondary copy\<close>

lemma store_wp:
  assumes d: "w_dev w fd = Some d" "tables_at d p q n" and pe: "length pe = n" "n = unat sz"
  shows "wp (gpt2_store e fd pe sz (hdr_bytes d SECONDARY_GPT) (int (header_off d SECONDARY_GPT)) (bd_blksz d) w)
     (\<lambda>(r, w'). r = -1 \<and> w_dev w' = w_dev w \<or>
        r \<in> {0, -1} \<and> (\<exists>d'. kept fd p q n d w d' w' \<and> hdr_bytes d' PRIMARY_GPT = hdr_bytes d PRIMARY_GPT \<and>
          hstate e d' SECONDARY_GPT = Some (sig_state (hdr_bytes d SECONDARY_GPT)) \<and>
          (r = 0 \<longrightarrow> table d' SECONDARY_GPT = pe \<and> entries_match e d' SECONDARY_GPT)))"
  unfolding gpt2_store_def wp_rules
proof (intro allI impI conjI, goal_cases)
  case (1 hs lba crc h1 h2 c2 h3 xg r' bf z w')
  then show ?case using blk_writeD [of e fd _ h3 _ w r' z w'] by auto
next
  case (2 hs lba crc h1 h2 c2 h3 xg r' bf z w1 xh r2 bg z2 w')
  let ?h = "hdr_bytes d SECONDARY_GPT" and ?p = "header_off d SECONDARY_GPT" and ?b = "unat (bd_blksz d)"
  have g: "geom d" using d(2) by (rule tables_at_geom)
  have l92: "92 \<le> length ?h" using g by (simp add: geom_def)
  note rh = rewritten_header [OF l92 2(1) 2(4) 2(5) 2(6) 2(7)] and cf = crc_fields [OF l92 2(4) 2(5) 2(7)]
  have reg: "hdr_region ?h (bd_blksz d) = Some (q, n)"
    using tables_at_region [OF d(2), of SECONDARY_GPT] by (simp add: region_def)
  then have so: "sint (lba * ucast (bd_blksz d)) = int q"
    using 2(2) by (auto simp: hdr_region_def pentries_start_def bind_eq_Some_conv split: if_splits)
  from 2 have wr1: "blk_rw e fd True (int ?p) h3 ?b w = Some (0, z, w1)"
    and wr2: "blk_rw e fd True (int q) pe n w1 = Some (r2, z2, w')" using so pe(2) by auto
  from blk_write_cases [OF wr1 d(1)] obtain d1 where d1: "w_dev w1 = (w_dev w)(fd \<mapsto> d1)"
    "bd_data d1 = overwrite ?p (take (min ?b (length (bd_data d) - ?p)) h3) (bd_data d)"
    and same1: "same_outside ?p ?b d d1"
    by cases (auto simp: same_outside_def)
  have "slice ?p ?b (bd_data d1) = h3"
    using d1(2) rh(1) g geom_off [OF g, of SECONDARY_GPT] by (simp add: slice_overwrite_same min_def)
  then have h1: "hdr_bytes d1 SECONDARY_GPT = h3" "hdr_bytes d1 PRIMARY_GPT = hdr_bytes d PRIMARY_GPT"
    using same1 same_outside_hdr [OF same1 headers_apart [OF g]] by (auto simp: hdr_bytes_def same_outside_off)
  have "hdr_region (hdr_bytes d1 SECONDARY_GPT) (bd_blksz d) = region d SECONDARY_GPT"
    using cf(2) h1 by (simp add: region_def)
  note hr = header_replaced [OF d(2) same1 this]
  have st: "hstate e d1 SECONDARY_GPT = Some (sig_state ?h)" using rh(5) h1 by (simp add: hstate_def sig_state_def)
  have k1: "kept fd p q n d w d1 w1" using d1(1) hr h1 by (simp add: kept_def)
  from d1 have "w_dev w1 fd = Some d1" by simp
  from blk_write_cases [OF wr2 this] show ?case
  proof cases
    case 1
    with k1 have "kept fd p q n d w d1 w'" by (simp add: kept_def)
    with 1 h1 st show ?thesis by auto
  next
    case (2 d2)
    have so2: "same_outside (start_of p q SECONDARY_GPT) n d1 d2" using 2 by (simp add: same_outside_def)
    note ar = array_replaced [OF hr(1) so2]
    have t: "table d2 SECONDARY_GPT = pe"
      using 2 pe(1) tables_at_fit [OF hr(1), of SECONDARY_GPT]
      by (simp add: table_at [OF ar(1)] slice_overwrite_same min_def)
    have c: "copy d2 PRIMARY_GPT = copy d1 PRIMARY_GPT" using ar(3) by simp
    obtain s2 where s2: "pentries_arr_size (hdr_bytes d2 SECONDARY_GPT) = Some s2" "unat s2 = n"
      using arr_size_region [OF tables_at_region [OF ar(1), of SECONDARY_GPT]] by auto
    then have "s2 = sz" using pe(2) by (simp add: word_unat_eq_iff)
    then have "entries_match e d2 SECONDARY_GPT"
      using s2 t rh(4) ar(2) h1 \<open>crc32 e pe sz = Some crc\<close> by (simp add: entries_match_def)
    moreover have "kept fd p q n d w d2 w'"
      using k1 c 2(5) ar(1,2) by (simp add: kept_def copy_def)
    moreover have "hstate e d2 SECONDARY_GPT = Some (sig_state ?h)" using st ar(2) by (simp add: hstate_def)
    ultimately show ?thesis using 2(1) t ar(2) h1 by auto
  qed
qed

lemma chain_result: "gpt_boot_chain_swap e arr pend psz = Some (r, arr') \<Longrightarrow> r \<in> {0, 1} \<and> length arr' = length arr"
  by (auto simp: gpt_boot_chain_swap_def dest!: swap_loop_length)

text \<open>The entries \<open>gpt2_set_boot_chain\<close> means to write, with the code of the swap.\<close>

definition chain_entries :: "env \<Rightarrow> boot_chain \<Rightarrow> blkdev \<Rightarrow> (int \<times> bytes) option" where
  "chain_entries e boot d =
     (if boot = BACKUP_BOOT
      then GET_4_BYTES (hdr_bytes d PRIMARY_GPT) 84 \<bind>
             (\<lambda>psz. gpt_boot_chain_swap e (table d PRIMARY_GPT) (length (table d PRIMARY_GPT)) (unat psz))
      else Some (0, table d PRIMARY_GPT))"

lemma load_table:
  assumes d: "w_dev w fd = Some d" "tables_at d p q n"
    and x: "gpt2_load e fd w = Some (Inr (pe, sz, psz, h, off, bs), w')"
  shows "w_dev w' = w_dev w" "bs = bd_blksz d" "h = hdr_bytes d SECONDARY_GPT" "off = int (header_off d SECONDARY_GPT)"
    "pe = table d PRIMARY_GPT" "unat sz = n" "GET_4_BYTES (hdr_bytes d PRIMARY_GPT) 84 = Some psz"
proof -
  note L = wpD [OF gpt2_load_wp [OF d(1) tables_at_geom [OF d(2)]] x, simplified]
  from L show "w_dev w' = w_dev w" "bs = bd_blksz d" "h = hdr_bytes d SECONDARY_GPT"
    "off = int (header_off d SECONDARY_GPT)" "GET_4_BYTES (hdr_bytes d PRIMARY_GPT) 84 = Some psz"
    by simp_all
  have "region d PRIMARY_GPT = Some (p, n)" using tables_at_region [OF d(2), of PRIMARY_GPT] by simp
  then obtain lba sz' where lba: "GET_8_BYTES (hdr_bytes d PRIMARY_GPT) 72 = Some lba" "sint (lba * ucast (bd_blksz d)) = int p"
    and n: "pentries_arr_size (hdr_bytes d PRIMARY_GPT) = Some sz'" "unat sz' = n"
    using L by (auto simp: region_def hdr_region_def pentries_start_def pentries_arr_size_def bind_eq_Some_conv split: if_splits)
  then show "unat sz = n" using L by (auto simp: pentries_arr_size_def)
  with L lba tables_at_fit [OF d(2), of PRIMARY_GPT] show "pe = table d PRIMARY_GPT"
    by (simp add: table_at [OF d(2)])
qed

lemma set_chain_wp:
  assumes d: "w_dev w fd = Some d" "tables_at d p q n"
  shows "wp (gpt2_set_boot_chain e fd boot w) (\<lambda>(r, w').
     r < 0 \<and> w_dev w' = w_dev w \<or>
     r = 1 \<and> w_dev w' = w_dev w \<and> boot = BACKUP_BOOT \<and> (\<exists>arr. chain_entries e boot d = Some (1, arr)) \<or>
     r \<in> {0, -1} \<and> (\<exists>d'. kept fd p q n d w d' w' \<and> hdr_bytes d' PRIMARY_GPT = hdr_bytes d PRIMARY_GPT \<and>
       hstate e d' SECONDARY_GPT = Some (sig_state (hdr_bytes d SECONDARY_GPT)) \<and>
       (r = 0 \<longrightarrow> chain_entries e boot d = Some (0, table d' SECONDARY_GPT) \<and> entries_match e d' SECONDARY_GPT)))"
  unfolding gpt2_set_boot_chain_def wp_rules
proof (intro allI impI conjI, goal_cases)
  case (1 x a b r)
  with wpD [OF gpt2_load_wp [OF d(1) tables_at_geom [OF d(2)], of e] 1(1)] show ?case by auto
next
  case (2 x a w1 y pe0 b1 sz b2 psz b3 h b4 off bs z r pe)
  then have ld: "gpt2_load e fd w = Some (Inr (pe0, sz, psz, h, off, bs), w1)" by simp
  note L = load_table [OF d ld]
  from 2 have sw: "boot = BACKUP_BOOT" "gpt_boot_chain_swap e pe0 (unat sz) (unat psz) = Some (r, pe)"
    by (auto split: if_splits)
  from chain_result [OF sw(2)] 2 have "r = 1" by auto
  moreover have "chain_entries e boot d = Some (r, pe)"
    using sw L by (simp add: chain_entries_def length_table [OF d(2)])
  ultimately show ?case using L(1) sw(1) by auto
next
  case (3 x a w1 y pe0 b1 sz b2 psz b3 h b4 off bs z r pe)
  then have ld: "gpt2_load e fd w = Some (Inr (pe0, sz, psz, h, off, bs), w1)" by simp
  note L = load_table [OF d ld]
  from 3 L have ch: "chain_entries e boot d = Some (0, pe)"
    by (auto simp: chain_entries_def length_table [OF d(2)] split: if_splits)
  from 3 L have len: "length pe = n"
    by (auto simp: length_table [OF d(2)] dest!: chain_result split: if_splits)
  have w1: "w_dev w1 fd = Some d" using L(1) d(1) by simp
  show ?case unfolding L(2-4)
    by (rule wp_mono2 [OF store_wp [OF w1 d(2) len L(6) [symmetric], of e]])
       (use L(1) ch in \<open>auto simp: kept_def\<close>)
qed

section \<open>Stages\<close>

lemma recoverableI:
  "tables_at d p q n \<Longrightarrow> entries_match e d PRIMARY_GPT \<Longrightarrow> hstate e d PRIMARY_GPT = Some GPT_OK \<or> whole e d SECONDARY_GPT \<Longrightarrow>
   recoverable e d"
  by (auto simp: recoverable_def whole_def tables_ok_def)

lemma primary_rewritten:
  assumes "kept fd p q n d w d' w'" "hdr_bytes d' PRIMARY_GPT = hdr_bytes d PRIMARY_GPT"
  shows "hstate e d' PRIMARY_GPT = hstate e d PRIMARY_GPT" "entries_match e d' PRIMARY_GPT = entries_match e d PRIMARY_GPT"
  using assms by (simp_all add: kept_def hstate_def entries_match_def)

text \<open>What success of each stage means, for the device before and after it.\<close>

fun stage_effect :: "env \<Rightarrow> boot_update_stage \<Rightarrow> blkdev \<Rightarrow> blkdev \<Rightarrow> bool" where
  "stage_effect e UPDATE_MAIN d d' =
     ((\<exists>arr. chain_entries e BACKUP_BOOT d = Some (1, arr)) \<and> d' = d \<or>
      hstate e d' PRIMARY_GPT = Some GPT_BAD_SIGNATURE \<and> whole e d' SECONDARY_GPT \<and>
      chain_entries e BACKUP_BOOT d = Some (0, table d' SECONDARY_GPT))"
| "stage_effect e UPDATE_BACKUP d d' =
     (whole e d' PRIMARY_GPT \<and> hstate e d' SECONDARY_GPT = Some GPT_BAD_SIGNATURE \<and>
      table d' SECONDARY_GPT = table d SECONDARY_GPT)"
| "stage_effect e UPDATE_FINALIZE d d' =
     (whole e d' PRIMARY_GPT \<and> whole e d' SECONDARY_GPT \<and> table d' SECONDARY_GPT = table d' PRIMARY_GPT)"

definition stage_post :: "env \<Rightarrow> boot_update_stage \<Rightarrow> fd \<Rightarrow> nat \<Rightarrow> nat \<Rightarrow> nat \<Rightarrow> blkdev \<Rightarrow> world \<Rightarrow> int \<Rightarrow> world \<Rightarrow> bool" where
  "stage_post e stage fd p q n d w r w' \<longleftrightarrow>
     (\<exists>d'. kept fd p q n d w d' w' \<and> recoverable e d' \<and> (r = 0 \<longrightarrow> stage_effect e stage d d'))"

lemma stage_postI:
  "kept fd p q n d w d' w' \<Longrightarrow> recoverable e d' \<Longrightarrow> (r = 0 \<Longrightarrow> stage_effect e stage d d') \<Longrightarrow>
   stage_post e stage fd p q n d w r w'"
  by (auto simp: stage_post_def)

lemma stage_main_wp:
  assumes d: "w_dev w fd = Some d" "tables_at d p q n" "entries_match e d PRIMARY_GPT"
    and st: "hstate e d PRIMARY_GPT = Some GPT_OK" "hstate e d SECONDARY_GPT = Some GPT_OK"
  shows "wp (stage_main e fd w) (\<lambda>(r, w'). stage_post e UPDATE_MAIN fd p q n d w r w')"
  unfolding stage_main_def wp_rules
proof (intro allI impI conjI, goal_cases)
  case (1 r w')
  with stage_boot_lun_frame [OF 1(1)] d st show ?case
    by (auto intro!: stage_postI [of _ _ _ _ d] kept_same recoverableI)
next
  case (2 r0 w1 x r w')
  then have w1: "w_dev w1 fd = Some d" "w_dev w1 = w_dev w" using stage_boot_lun_frame [OF 2(1)] d by auto
  from wpD [OF set_chain_wp [OF w1(1) d(2)] 2(3)] 2(4,5)
  consider "r < 0" "w_dev w' = w_dev w1" | "r = 1" "w_dev w' = w_dev w1" "\<exists>arr. chain_entries e BACKUP_BOOT d = Some (1, arr)"
    | d2 where "r < 0" "kept fd p q n d w1 d2 w'" "hdr_bytes d2 PRIMARY_GPT = hdr_bytes d PRIMARY_GPT"
    by auto
  then show ?case
  proof cases
    case (3 d2)
    with primary_rewritten [OF 3(2,3)] d st w1 show ?thesis
      by (auto simp: kept_def intro!: stage_postI [of _ _ _ _ _ _ d2] recoverableI)
  qed (use d st w1 in \<open>auto intro!: stage_postI [of _ _ _ _ d _ d] kept_same recoverableI\<close>)
next
  case (3 r0 w1 x r w2)
  then have w1: "w_dev w1 fd = Some d" "w_dev w1 = w_dev w" using stage_boot_lun_frame [OF 3(1)] d by auto
  from wpD [OF set_chain_wp [OF w1(1) d(2)] 3(3)] 3(4,5) sig_state_OK [OF st(2)] obtain d2 where
    d2: "kept fd p q n d w d2 w2" "hdr_bytes d2 PRIMARY_GPT = hdr_bytes d PRIMARY_GPT"
      "whole e d2 SECONDARY_GPT" "chain_entries e BACKUP_BOOT d = Some (0, table d2 SECONDARY_GPT)"
    using w1(2) by (auto simp: kept_def whole_def)
  note pr = primary_rewritten [OF d2(1,2)]
  show ?case
  proof (rule wp_mono2 [OF mark_wp [of w2 fd d2 p q n]])
    show "w_dev w2 fd = Some d2" "tables_at d2 p q n" using kept_dev [OF d2(1)] by auto
    fix r :: int and w' assume "r \<noteq> 0 \<and> w_dev w' = w_dev w2 \<or> r = 0 \<and> (\<exists>d'. kept fd p q n d2 w2 d' w' \<and>
       hstate e d' PRIMARY_GPT = Some GPT_BAD_SIGNATURE \<and>
       (\<forall>g. table d' g = table d2 g \<and> entries_match e d' g = entries_match e d2 g) \<and>
       (\<forall>g. g \<noteq> PRIMARY_GPT \<longrightarrow> hstate e d' g = hstate e d2 g))"
    then show "stage_post e UPDATE_MAIN fd p q n d w r w'"
    proof (elim disjE conjE exE)
      assume "r \<noteq> 0" "w_dev w' = w_dev w2"
      with d2 pr d st show ?thesis
        by (auto simp: kept_def intro!: stage_postI [of _ _ _ _ _ _ d2] recoverableI)
    next
      fix d3 assume d3: "kept fd p q n d2 w2 d3 w'" "hstate e d3 PRIMARY_GPT = Some GPT_BAD_SIGNATURE"
        "\<forall>g. table d3 g = table d2 g \<and> entries_match e d3 g = entries_match e d2 g"
        "\<forall>g. g \<noteq> PRIMARY_GPT \<longrightarrow> hstate e d3 g = hstate e d2 g"
      then have "whole e d3 SECONDARY_GPT" using d2(3) by (simp add: whole_def)
      with d2 d3 pr d(3) show ?thesis
        by (auto intro!: stage_postI [OF kept_trans] recoverableI dest: kept_dev)
    qed
  qed
qed

lemma stage_backup_wp:
  assumes d: "w_dev w fd = Some d" "tables_at d p q n" "entries_match e d PRIMARY_GPT"
    and st: "whole e d SECONDARY_GPT"
  shows "wp (stage_backup e fd w) (\<lambda>(r, w'). stage_post e UPDATE_BACKUP fd p q n d w r w')"
  unfolding stage_backup_def wp_rules
proof (intro allI impI conjI, goal_cases)
  case (1 r w')
  with stage_boot_lun_frame [OF 1(1)] d st show ?case
    by (auto intro!: stage_postI [of _ _ _ _ d] kept_same recoverableI)
next
  case (2 r0 w1 x r w')
  then have w1: "w_dev w1 fd = Some d" "w_dev w1 = w_dev w" using stage_boot_lun_frame [OF 2(1)] d by auto
  from wpD [OF mark_wp [OF w1(1) d(2)] 2(3)] 2(4,5) have "w_dev w' = w_dev w" using w1 by auto
  with 2(4,5) d st show ?case by (auto intro!: stage_postI [of _ _ _ _ d] kept_same recoverableI)
next
  case (3 r0 w1 x r w2)
  then have w1: "w_dev w1 fd = Some d" "w_dev w1 = w_dev w" using stage_boot_lun_frame [OF 3(1)] d by auto
  from wpD [OF mark_wp [OF w1(1) d(2)] 3(3)] 3(4,5) d(3) w1(2) obtain d2 where
    d2: "kept fd p q n d w d2 w2" "whole e d2 PRIMARY_GPT" "\<forall>g. table d2 g = table d g"
    by (auto simp: kept_def whole_def)
  show ?case
  proof (rule wp_mono2 [OF mark_wp [of w2 fd d2 p q n]])
    show "w_dev w2 fd = Some d2" "tables_at d2 p q n" using kept_dev [OF d2(1)] by auto
    fix r :: int and w' assume "r \<noteq> 0 \<and> w_dev w' = w_dev w2 \<or> r = 0 \<and> (\<exists>d'. kept fd p q n d2 w2 d' w' \<and>
       hstate e d' SECONDARY_GPT = Some GPT_BAD_SIGNATURE \<and>
       (\<forall>g. table d' g = table d2 g \<and> entries_match e d' g = entries_match e d2 g) \<and>
       (\<forall>g. g \<noteq> SECONDARY_GPT \<longrightarrow> hstate e d' g = hstate e d2 g))"
    then show "stage_post e UPDATE_BACKUP fd p q n d w r w'"
    proof (elim disjE conjE exE)
      assume "r \<noteq> 0" "w_dev w' = w_dev w2"
      with d2 show ?thesis
        by (auto simp: kept_def whole_def intro!: stage_postI [of _ _ _ _ _ _ d2] recoverableI)
    next
      fix d3 assume d3: "kept fd p q n d2 w2 d3 w'" "hstate e d3 SECONDARY_GPT = Some GPT_BAD_SIGNATURE"
        "\<forall>g. table d3 g = table d2 g \<and> entries_match e d3 g = entries_match e d2 g"
        "\<forall>g. g \<noteq> SECONDARY_GPT \<longrightarrow> hstate e d3 g = hstate e d2 g"
      then have "whole e d3 PRIMARY_GPT" using d2(2) by (simp add: whole_def)
      with d2 d3 show ?thesis
        by (auto simp: whole_def intro!: stage_postI [OF kept_trans] recoverableI dest: kept_dev)
    qed
  qed
qed

lemma stage_finalize_wp:
  assumes d: "w_dev w fd = Some d" "tables_at d p q n" and st: "whole e d PRIMARY_GPT"
  shows "wp (stage_finalize e fd w) (\<lambda>(r, w'). stage_post e UPDATE_FINALIZE fd p q n d w r w')"
  unfolding stage_finalize_def wp_rules
proof (intro allI impI conjI, goal_cases)
  case (1 x r w')
  from wpD [OF set_chain_wp [OF d] 1(1)] 1(2,3)
  consider "w_dev w' = w_dev w" | d2 where "kept fd p q n d w d2 w'" "hdr_bytes d2 PRIMARY_GPT = hdr_bytes d PRIMARY_GPT"
    by auto
  then show ?case
  proof cases
    case (2 d2)
    with primary_rewritten [OF 2] 1(2,3) st show ?thesis
      by (auto simp: whole_def intro!: stage_postI [of _ _ _ _ _ _ d2] recoverableI dest: kept_dev)
  qed (use 1(2,3) d st in \<open>auto simp: whole_def intro!: stage_postI [of _ _ _ _ d _ d] kept_same recoverableI\<close>)
next
  case (2 x r w2)
  from wpD [OF set_chain_wp [OF d] 2(1)] 2(2,3) obtain d2 where
    d2: "kept fd p q n d w d2 w2" "hdr_bytes d2 PRIMARY_GPT = hdr_bytes d PRIMARY_GPT"
      "table d2 SECONDARY_GPT = table d2 PRIMARY_GPT" "entries_match e d2 SECONDARY_GPT"
    by (auto simp: chain_entries_def kept_def)
  have pr: "whole e d2 PRIMARY_GPT" using primary_rewritten [OF d2(1,2)] st by (simp add: whole_def)
  show ?case
  proof (rule wp_mono2 [OF mark_wp [of w2 fd d2 p q n]])
    show "w_dev w2 fd = Some d2" "tables_at d2 p q n" using kept_dev [OF d2(1)] by auto
    fix r :: int and w' assume "r \<noteq> 0 \<and> w_dev w' = w_dev w2 \<or> r = 0 \<and> (\<exists>d'. kept fd p q n d2 w2 d' w' \<and>
       hstate e d' SECONDARY_GPT = Some GPT_OK \<and>
       (\<forall>g. table d' g = table d2 g \<and> entries_match e d' g = entries_match e d2 g) \<and>
       (\<forall>g. g \<noteq> SECONDARY_GPT \<longrightarrow> hstate e d' g = hstate e d2 g))"
    then show "stage_post e UPDATE_FINALIZE fd p q n d w r w'"
    proof (elim disjE conjE exE)
      assume "r \<noteq> 0" "w_dev w' = w_dev w2"
      with d2 pr show ?thesis
        by (auto simp: kept_def whole_def intro!: stage_postI [of _ _ _ _ _ _ d2] recoverableI)
    next
      fix d3 assume d3: "kept fd p q n d2 w2 d3 w'" "hstate e d3 SECONDARY_GPT = Some GPT_OK"
        "\<forall>g. table d3 g = table d2 g \<and> entries_match e d3 g = entries_match e d2 g"
        "\<forall>g. g \<noteq> SECONDARY_GPT \<longrightarrow> hstate e d3 g = hstate e d2 g"
      then have "whole e d3 PRIMARY_GPT" "whole e d3 SECONDARY_GPT" using pr d2(4) by (simp_all add: whole_def)
      with d2 d3 show ?thesis
        by (auto simp: whole_def intro!: stage_postI [OF kept_trans] recoverableI dest: kept_dev)
    qed
  qed
qed

section \<open>The stage machine\<close>

lemma recoverable_whole:
  assumes "recoverable e d"
  shows "hstate e d PRIMARY_GPT = Some GPT_OK \<Longrightarrow> whole e d PRIMARY_GPT"
    and "hstate e d PRIMARY_GPT \<noteq> Some GPT_OK \<Longrightarrow> whole e d SECONDARY_GPT"
  using assms by (auto simp: recoverable_def whole_def)

lemma run_stage_wp:
  assumes d: "w_dev w fd = Some d" "tables_at d p q n" "recoverable e d"
    and st: "hstate e d PRIMARY_GPT = Some a" "hstate e d SECONDARY_GPT = Some b" "internal_stage a b = Some stage"
  shows "wp (case stage of UPDATE_MAIN \<Rightarrow> stage_main e fd w | UPDATE_BACKUP \<Rightarrow> stage_backup e fd w
         | UPDATE_FINALIZE \<Rightarrow> stage_finalize e fd w) (\<lambda>(r, w'). stage_post e stage fd p q n d w r w')"
  using internal_stage_cases [OF st(3)] d(3) st recoverable_whole [OF d(3)]
  by (elim disjE conjE)
     (auto simp: recoverable_def intro: stage_main_wp [OF d(1,2)] stage_backup_wp [OF d(1,2)] stage_finalize_wp [OF d(1,2)])

text \<open>\<open>UPDATE_MAIN\<close> asked for again, on a device that has been through it.\<close>

definition main_again :: "env \<Rightarrow> boot_update_stage \<Rightarrow> blkdev \<Rightarrow> bool" where
  "main_again e stage d \<longleftrightarrow> stage = UPDATE_MAIN \<and> hstate e d PRIMARY_GPT = Some GPT_BAD_SIGNATURE"

lemma prepare_partitions_wp:
  assumes d: "w_dev w dev = Some d" "tables_at d p q n" "recoverable e d"
  shows "wp (prepare_partitions e stage dev w) (\<lambda>(r, w').
     stage_post e stage dev p q n d w r w' \<and> \<not> (r = 0 \<and> main_again e stage d) \<or>
     r = 0 \<and> main_again e stage d \<and> w_dev w' = w_dev w)"
proof -
  have err: "stage_post e stage dev p q n d w r w'" if "r \<noteq> 0" "w_dev w' = w_dev w" for r w'
    using d that by (auto intro!: stage_postI kept_same)
  note g = tables_at_geom [OF d(2)]
  show ?thesis
    unfolding prepare_partitions_def wp_rules
  proof (intro allI impI conjI, goal_cases)
    case (1 a w')
    then show ?case using err sys_openD [OF 1(1)] by auto
  next
    case (2 a w1 fd x r1 b gp w')
    then have o: "w_dev w1 = w_dev w" "fd = dev" using sys_openD [OF 2(1)] by auto
    with 2 d g err get_state_sound [of e fd PRIMARY_GPT w1 r1 gp w' d] show ?case by auto
  next
    case (3 a w1 fd x r1 b gp w2 y r2 c gs w')
    then have o: "w_dev w1 = w_dev w" "fd = dev" using sys_openD [OF 3(1)] by auto
    with 3 d g err get_state_sound [of e fd PRIMARY_GPT w1 r1 gp w2 d]
      get_state_sound [of e fd SECONDARY_GPT w2 r2 gs w' d] show ?case by auto
  next
    case (4 a w1 fd x r1 b gp w2 y r2 c gs w3)
    then have "w_dev w3 = w_dev w" using states_read [of e dev w fd w1 gp w2 gs w3 d] d g by auto
    with err show ?case by auto
  next
    case (5 a w1 fd x r1 b gp w2 y r2 c gs w3 istage)
    then have *: "w_dev w3 = w_dev w" "hstate e d PRIMARY_GPT = Some gp" "hstate e d SECONDARY_GPT = Some gs"
      using states_read [of e dev w fd w1 gp w2 gs w3 d] d g by auto
    from 5 have i: "internal_stage gp gs = Some istage" "stage_num stage = stage_num istage - 1" by auto
    then consider "main_again e stage d"
      | "stage = UPDATE_BACKUP" "hstate e d PRIMARY_GPT = Some GPT_OK" "hstate e d SECONDARY_GPT = Some GPT_BAD_SIGNATURE"
      using internal_stage_cases [OF i(1)] * by (cases stage) (auto simp: main_again_def)
    then show ?case
    proof cases
      case 2
      with * d recoverable_whole [OF d(3)] have "stage_post e stage dev p q n d w 0 w3"
        by (intro stage_postI [of _ _ _ _ d _ d]) (auto simp: kept_same)
      with 2 show ?thesis by (simp add: main_again_def)
    qed (use * in simp)
  next
    case (6 a w1 fd x r1 b gp w2 y r2 c gs w3 istage)
    then have "w_dev w3 = w_dev w" using states_read [of e dev w fd w1 gp w2 gs w3 d] d g by auto
    with err show ?case by auto
  next
    case (7 a w1 fd x r1 b gp w2 y r2 c gs w3 istage)
    then have *: "fd = dev" "w_dev w3 = w_dev w" "hstate e d PRIMARY_GPT = Some gp"
        "hstate e d SECONDARY_GPT = Some gs"
      using states_read [of e dev w fd w1 gp w2 gs w3 d] d g by auto
    have i: "internal_stage gp gs = Some stage" using 7 by simp
    then have "\<not> main_again e stage d" using internal_stage_cases [OF i] *(3) by (auto simp: main_again_def)
    have "w_dev w3 dev = Some d" using * d by simp
    from run_stage_wp [OF this d(2,3) *(3,4) i] show ?case
      unfolding *(1) by (rule wp_mono2) (use \<open>\<not> main_again e stage d\<close> *(2) in \<open>auto simp: stage_post_def kept_def\<close>)
  qed
qed

lemma chain_entries_concat:
  assumes "table d PRIMARY_GPT = concat es" "entries_wf es" "GET_4_BYTES (hdr_bytes d PRIMARY_GPT) 84 = Some 128"
  shows "chain_entries e BACKUP_BOOT d =
    Some (if \<forall>n \<in> set (swap_names e). twins n es = None then 1 else 0, concat (chain_swap (swap_names e) es))"
  using assms by (simp add: chain_entries_def length_concat_wf boot_chain_swap_concat any_twins_iff [OF swap_names_compat])

section \<open>When no call fails\<close>

lemma read_header_no_fail:
  assumes "no_fail e" "w_dev w fd = Some d" "geom d"
  shows "\<exists>w'. read_header e fd gpt w = Some (Some (hdr_bytes d gpt, int (header_off d gpt), bd_blksz d), w') \<and> w_dev w' = w_dev w"
proof -
  obtain w1 where 1: "sys_blksz e fd w = (Some (bd_blksz d), w1)" "w_dev w1 = w_dev w"
    using assms(1,2) by (simp add: calls_no_fail)
  obtain b w2 where 2: "malloc e (unat (bd_blksz d)) w1 = (Some b, w2)" "w_dev w2 = w_dev w" "length b = unat (bd_blksz d)"
    using assms(1) 1(2) by (simp add: calls_no_fail)
  obtain w3 where 3: "gpt_header_offset e fd gpt (bd_blksz d) w2 = (int (header_off d gpt), w3)" "w_dev w3 = w_dev w"
    using header_offset_no_fail [of e w2 fd d gpt] assms 2(2) by auto
  obtain h w4 where "blk_rw e fd False (int (header_off d gpt)) b (unat (bd_blksz d)) w3 = Some (0, h, w4)"
    using blk_rw_no_fail [of e w3 fd d "header_off d gpt" "unat (bd_blksz d)" b False] assms 3(2) 2(3) geom_off by auto
  with 1 2 3 have r: "read_header e fd gpt w = Some (Some (h, int (header_off d gpt), bd_blksz d), w4)"
    by (simp add: read_header_def)
  with read_headerD [OF r assms(2,3)] show ?thesis by auto
qed

lemma get_state_no_fail:
  assumes "no_fail e" "w_dev w fd = Some d" "geom d" "hstate e d gpt = Some st"
  shows "\<exists>w'. gpt_get_state e fd gpt w = Some (0, st, w') \<and> w_dev w' = w_dev w"
  using read_header_no_fail [OF assms(1-3), of gpt] assms(4) by (auto simp: gpt_get_state_def hstate_def)

text \<open>The checksum of a header that has a state can be computed, marked or not.\<close>

lemma put_header_crc_defined:
  assumes "header_state e h = Some st" "length h' = length h" "slice 12 4 h' = slice 12 4 h"
  shows "put_header_crc e h' \<noteq> None"
proof -
  from assms(1) obtain n where n: "GET_4_BYTES h 12 = Some n" "unat n \<le> length h" "20 \<le> length h"
    by (auto simp: header_state_def bind_eq_Some_conv PUT_4_BYTES_Some crc32_def split: if_splits)
  then have "GET_4_BYTES h' 12 = Some n" using assms(2,3) by (simp add: GET_4_BYTES_slice)
  with n assms(2) show ?thesis
    by (simp add: put_header_crc_def PUT_4_BYTES_def crc32_def)
qed

lemma set_state_no_fail:
  assumes "no_fail e" "w_dev w fd = Some d" "geom d" "hstate e d gpt \<noteq> None" "st \<noteq> GPT_BAD_CRC"
  shows "\<exists>w'. gpt_set_state e fd gpt st w = Some (0, w')"
proof -
  let ?h = "hdr_bytes d gpt"
  obtain w1 where 1: "read_header e fd gpt w = Some (Some (?h, int (header_off d gpt), bd_blksz d), w1)" "w_dev w1 = w_dev w"
    using read_header_no_fail [OF assms(1-3)] by blast
  have "92 \<le> length ?h" using assms(3) by (simp add: geom_def)
  then obtain m where m: "mark_header st ?h = Some (Some m)" using assms(5)
    by (cases st; cases "?h = []") (auto simp: mark_header_def)
  obtain h' where h': "put_header_crc e m = Some h'"
    using put_header_crc_defined [of e ?h _ m] assms(4) mark_header_sig(1) [OF m] mark_header_tail [OF m, of 12 4]
    by (auto simp: hstate_def)
  have "length h' = unat (bd_blksz d)"
    using put_header_crc_state(1) [OF h'] mark_header_sig(1) [OF m] assms(3) by simp
  then obtain b w2 where "blk_rw e fd True (int (header_off d gpt)) h' (unat (bd_blksz d)) w1 = Some (0, b, w2)"
    using blk_rw_no_fail [of e w1 fd d "header_off d gpt" "unat (bd_blksz d)" h' True] assms(1-3) 1(2) geom_off by auto
  with 1 m h' show ?thesis by (simp add: gpt_set_state_def)
qed

lemma load_no_fail:
  assumes e: "no_fail e" and d: "w_dev w fd = Some d" "tables_at d p q n" "entries_match e d PRIMARY_GPT"
  shows "\<exists>x w'. gpt2_load e fd w = Some (Inr x, w') \<and> w_dev w' = w_dev w"
proof -
  have g: "geom d" using d(2) by (rule tables_at_geom)
  let ?b = "unat (bd_blksz d)" and ?h = "hdr_bytes d PRIMARY_GPT"
  obtain w1 where 1: "sys_blksz e fd w = (Some (bd_blksz d), w1)" "w_dev w1 = w_dev w"
    using e d(1) by (simp add: calls_no_fail)
  obtain b w2 where 2: "malloc e ?b w1 = (Some b, w2)" "w_dev w2 = w_dev w" "length b = ?b"
    using e 1(2) by (simp add: calls_no_fail)
  obtain w3 where 3: "lseek_end e fd w2 = (int (length (bd_data d)), w3)" "w_dev w3 = w_dev w"
    using e d(1) 2(2) by (simp add: calls_no_fail)
  have off: "int (length (bd_data d)) - int ?b = int (header_off d SECONDARY_GPT)"
    using g by (simp add: geom_def header_off_def of_nat_diff del: of_nat_unat)
  have pri: "header_off d PRIMARY_GPT = ?b" by (simp add: header_off_def)
  obtain h1 w4 where 4: "blk_rw e fd False (int ?b) b ?b w3 = Some (0, h1, w4)"
    using blk_rw_no_fail [of e w3 fd d ?b ?b b False] e d(1) 3(2) 2(3) geom_off [OF g, of PRIMARY_GPT] pri by auto
  have h1: "h1 = ?h" "w_dev w4 = w_dev w"
    using read_pri [OF 4] blk_read_dev [OF 4] 3(2) d(1) g 2(3) by auto
  from tables_at_region [OF d(2), of PRIMARY_GPT] d(3) obtain lba ps ct c where
    f: "GET_8_BYTES ?h 72 = Some lba" "sint (lba * ucast (bd_blksz d)) = int p" "GET_4_BYTES ?h 84 = Some ps"
      "GET_4_BYTES ?h 80 = Some ct" "unat (ct * ps) = n" "GET_4_BYTES ?h 88 = Some c"
      "crc32 e (table d PRIMARY_GPT) (ct * ps) = Some c"
    by (auto simp: region_def hdr_region_def pentries_start_def pentries_arr_size_def entries_match_def
        bind_eq_Some_conv split: if_splits)
  obtain pb w5 where 5: "calloc e n w4 = (Some pb, w5)" "w_dev w5 = w_dev w" "length pb = n"
    using e h1(2) by (simp add: calls_no_fail)
  obtain pe w6 where 6: "blk_rw e fd False (int p) pb n w5 = Some (0, pe, w6)"
    using blk_rw_no_fail [of e w5 fd d p n pb False] e d(1) 5 tables_at_fit [OF d(2), of PRIMARY_GPT] by auto
  have pe: "pe = table d PRIMARY_GPT" "w_dev w6 = w_dev w"
    using blk_read_full [OF 6] blk_read_dev [OF 6] 5 d(1) tables_at_fit [OF d(2), of PRIMARY_GPT]
    by (auto simp: table_at [OF d(2)])
  obtain h2 w7 where 7: "blk_rw e fd False (int (header_off d SECONDARY_GPT)) h1 ?b w6 = Some (0, h2, w7)"
    using blk_rw_no_fail [of e w6 fd d "header_off d SECONDARY_GPT" ?b h1 False] e d(1) pe(2) h1(1) g geom_off [OF g] by auto
  show ?thesis
    using 1 2 3 4 5 6 7 h1 f pe off blk_read_dev [OF 7]
    by (simp add: gpt2_load_def Let_def del: of_nat_unat)
qed

lemma store_no_fail:
  assumes e: "no_fail e" and d: "w_dev w fd = Some d" "tables_at d p q n" "hstate e d SECONDARY_GPT \<noteq> None"
    and pe: "length pe = n" "n = unat sz"
  shows "\<exists>w'. gpt2_store e fd pe sz (hdr_bytes d SECONDARY_GPT) (int (header_off d SECONDARY_GPT)) (bd_blksz d) w = Some (0, w')"
proof -
  have g: "geom d" using d(2) by (rule tables_at_geom)
  let ?h = "hdr_bytes d SECONDARY_GPT" and ?b = "unat (bd_blksz d)"
  have l: "length ?h = ?b" "92 \<le> ?b" using g by (auto simp: geom_def)
  from d(3) obtain hs where hs: "GET_4_BYTES ?h 12 = Some hs" "unat hs \<le> ?b"
    using l by (auto simp: hstate_def header_state_def bind_eq_Some_conv PUT_4_BYTES_Some crc32_def split: if_splits)
  obtain lba where lba: "GET_8_BYTES ?h 72 = Some lba" "sint (lba * ucast (bd_blksz d)) = int q"
    using tables_at_region [OF d(2), of SECONDARY_GPT]
    by (auto simp: region_def hdr_region_def pentries_start_def bind_eq_Some_conv split: if_splits)
  obtain c where c: "crc32 e pe sz = Some c" using pe by (simp add: crc32_def)
  obtain h1 where h1: "PUT_4_BYTES ?h 88 c = Some h1" "length h1 = ?b" using l by (simp add: PUT_4_BYTES_def)
  obtain h2 where h2: "PUT_4_BYTES h1 16 0 = Some h2" "length h2 = ?b" using l h1 by (simp add: PUT_4_BYTES_def)
  obtain c2 where c2: "crc32 e h2 hs = Some c2" using hs h2 by (simp add: crc32_def)
  obtain h3 where h3: "PUT_4_BYTES h2 16 c2 = Some h3" "length h3 = ?b" using l h2 by (simp add: PUT_4_BYTES_def)
  obtain b1 w1 where w1: "blk_rw e fd True (int (header_off d SECONDARY_GPT)) h3 ?b w = Some (0, b1, w1)"
    using blk_rw_no_fail [of e w fd d "header_off d SECONDARY_GPT" ?b h3 True] e d(1) h3 geom_off [OF g] by auto
  from blk_write_cases [OF w1 d(1)] obtain d1 where d1: "w_dev w1 fd = Some d1" "length (bd_data d1) = length (bd_data d)"
    by cases auto
  obtain b2 w2 where "blk_rw e fd True (int q) pe n w1 = Some (0, b2, w2)"
    using blk_rw_no_fail [of e w1 fd d1 q n pe True] e d1 pe(1) tables_at_fit [OF d(2), of SECONDARY_GPT] by auto
  with w1 hs lba c h1 h2 c2 h3 pe(2) show ?thesis by (simp add: gpt2_store_def Let_def)
qed

lemma set_chain_no_fail:
  assumes e: "no_fail e" and d: "w_dev w fd = Some d" "tables_at d p q n" "entries_match e d PRIMARY_GPT"
    "hstate e d SECONDARY_GPT \<noteq> None" and c: "chain_entries e boot d = Some (0, pe')"
  shows "\<exists>w'. gpt2_set_boot_chain e fd boot w = Some (0, w')"
proof -
  obtain pe sz psz h off bs w1 where ld: "gpt2_load e fd w = Some (Inr (pe, sz, psz, h, off, bs), w1)"
    using load_no_fail [OF e d(1-3)] by auto
  note L = load_table [OF d(1,2) ld]
  have len: "length pe' = n"
    using c chain_result by (auto simp: chain_entries_def bind_eq_Some_conv length_table [OF d(2)] split: if_splits)
  have "w_dev w1 fd = Some d" using L(1) d(1) by simp
  from store_no_fail [OF e this d(2,4) len L(6) [symmetric]] c L ld show ?thesis
    by (auto simp: gpt2_set_boot_chain_def chain_entries_def length_table [OF d(2)] bind_eq_Some_conv split: if_splits)
qed

lemma stage_main_no_fail:
  assumes e: "no_fail e" "\<not> gpt_utils_is_ufs_device e" and d: "w_dev w fd = Some d" "tables_at d p q n"
    "whole e d PRIMARY_GPT" "hstate e d SECONDARY_GPT = Some GPT_OK" and c: "chain_entries e BACKUP_BOOT d = Some (0, pe)"
  shows "\<exists>w'. stage_main e fd w = Some (0, w')"
proof -
  have em: "entries_match e d PRIMARY_GPT" using d(3) by (simp add: whole_def)
  obtain w1 where 1: "gpt2_set_boot_chain e fd BACKUP_BOOT w = Some (0, w1)"
    using set_chain_no_fail [OF e(1) d(1,2) em _ c] d(4) by auto
  from wpD [OF set_chain_wp [OF d(1,2)] this] obtain d1 where
    d1: "kept fd p q n d w d1 w1" "hdr_bytes d1 PRIMARY_GPT = hdr_bytes d PRIMARY_GPT" by auto
  have "hstate e d1 PRIMARY_GPT \<noteq> None" using primary_rewritten(1) [OF d1] d(3) by (simp add: whole_def)
  with set_state_no_fail [OF e(1), of w1 fd d1 PRIMARY_GPT GPT_BAD_SIGNATURE] kept_dev [OF d1(1)] 1 e(2)
  show ?thesis by (auto simp: stage_main_def stage_boot_lun_def dest: tables_at_geom)
qed

lemma stage_backup_no_fail:
  assumes e: "no_fail e" "\<not> gpt_utils_is_ufs_device e" and d: "w_dev w fd = Some d" "tables_at d p q n"
    "hstate e d PRIMARY_GPT \<noteq> None" "hstate e d SECONDARY_GPT \<noteq> None"
  shows "\<exists>w'. stage_backup e fd w = Some (0, w')"
proof -
  obtain w1 where 1: "gpt_set_state e fd PRIMARY_GPT GPT_OK w = Some (0, w1)"
    using set_state_no_fail [OF e(1) d(1) tables_at_geom [OF d(2)] d(3), of GPT_OK] by auto
  from wpD [OF mark_wp [OF d(1,2)] this] d(4) obtain d1 where
    d1: "kept fd p q n d w d1 w1" "hstate e d1 SECONDARY_GPT \<noteq> None" by auto
  with set_state_no_fail [OF e(1), of w1 fd d1 SECONDARY_GPT GPT_BAD_SIGNATURE] kept_dev [OF d1(1)] 1 e(2)
  show ?thesis by (auto simp: stage_backup_def stage_boot_lun_def dest: tables_at_geom)
qed

lemma stage_finalize_no_fail:
  assumes e: "no_fail e" and d: "w_dev w fd = Some d" "tables_at d p q n" "whole e d PRIMARY_GPT" "hstate e d SECONDARY_GPT \<noteq> None"
  shows "\<exists>w'. stage_finalize e fd w = Some (0, w')"
proof -
  have em: "entries_match e d PRIMARY_GPT" using d(3) by (simp add: whole_def)
  obtain w1 where 1: "gpt2_set_boot_chain e fd NORMAL_BOOT w = Some (0, w1)"
    using set_chain_no_fail [OF e d(1,2) em d(4), of NORMAL_BOOT] by (auto simp: chain_entries_def)
  from wpD [OF set_chain_wp [OF d(1,2)] this] obtain d1 where
    d1: "kept fd p q n d w d1 w1" "hstate e d1 SECONDARY_GPT \<noteq> None" by auto
  with set_state_no_fail [OF e, of w1 fd d1 SECONDARY_GPT GPT_OK] kept_dev [OF d1(1)] 1
  show ?thesis by (auto simp: stage_finalize_def dest: tables_at_geom)
qed

lemma prepare_no_fail:
  assumes e: "no_fail e" "\<not> gpt_utils_is_ufs_device e" and d: "w_dev w dev = Some d" "recoverable e d"
    and st: "hstate e d PRIMARY_GPT = Some a" "hstate e d SECONDARY_GPT = Some b" "internal_stage a b = Some stage"
    and c: "stage = UPDATE_MAIN \<Longrightarrow> chain_entries e BACKUP_BOOT d = Some (0, pe)"
  shows "\<exists>w'. prepare_partitions e stage dev w = Some (0, w')"
proof -
  obtain p q n where at: "tables_at d p q n" using d(2) by (auto simp: recoverable_def tables_ok_def)
  note g = tables_at_geom [OF at]
  obtain w1 where 1: "sys_open e dev w = (Some dev, w1)" "w_dev w1 = w_dev w" using e(1) d(1) by (simp add: calls_no_fail)
  obtain w2 where 2: "gpt_get_state e dev PRIMARY_GPT w1 = Some (0, a, w2)" "w_dev w2 = w_dev w"
    using get_state_no_fail [OF e(1) _ g st(1), of w1 dev] 1(2) d(1) by auto
  obtain w3 where 3: "gpt_get_state e dev SECONDARY_GPT w2 = Some (0, b, w3)" "w_dev w3 = w_dev w"
    using get_state_no_fail [OF e(1) _ g st(2), of w2 dev] 2(2) d(1) by auto
  have w3: "w_dev w3 dev = Some d" using 3(2) d(1) by simp
  have "\<exists>w'. (case stage of UPDATE_MAIN \<Rightarrow> stage_main e dev w3 | UPDATE_BACKUP \<Rightarrow> stage_backup e dev w3
       | UPDATE_FINALIZE \<Rightarrow> stage_finalize e dev w3) = Some (0, w')"
    using internal_stage_cases [OF st(3)] stage_main_no_fail [OF e w3 at] stage_backup_no_fail [OF e w3 at]
      stage_finalize_no_fail [OF e(1) w3 at] st c recoverable_whole [OF d(2)] by auto
  with 1 2 3 st(3) show ?thesis by (auto simp: prepare_partitions_def)
qed

section \<open>A concrete device\<close>

text \<open>A partition \<open>tz\<close> and its backup, in both copies.\<close>

definition tz_table :: "bytes list" where
  "tz_table = [wit_entry 1 ''tz'', wit_entry 3 ''tzbak'']"

lemma tz_table_wf: "entries_wf tz_table"
  by (simp add: entries_wf_def tz_table_def wit_entry_def cstr_def)

lemma tz_length: "length (concat tz_table) = 256"
  by (simp add: length_concat_wf [OF tz_table_wf]) (simp add: tz_table_def)

lemma tz_twins: "twins (cstr ''tz'') tz_table = Some (0, 1)"
  by code_simp

definition tz_dev :: blkdev where
  "tz_dev = tab_dev (concat tz_table) (concat tz_table)"

definition tz_world :: world where
  "tz_world = tab_world BLK_DEV_FILE (concat tz_table) (concat tz_table)"

lemma tz_world_dev: "w_dev tz_world BLK_DEV_FILE = Some tz_dev"
  by (simp add: tz_world_def tab_world_def tz_dev_def)

lemma tz_hdr: "hdr_bytes tz_dev PRIMARY_GPT = tab_header 2" "hdr_bytes tz_dev SECONDARY_GPT = tab_header 4"
  "table tz_dev gpt = concat tz_table"
  using tab_hdr [OF tz_length tz_length] tab_table [OF tz_length tz_length] by (cases gpt; simp add: tz_dev_def)+

lemma tab_header_ok: "header_state wit_env (tab_header lba) = Some GPT_OK"
  by (simp add: header_state_def wit_env_def tab_header_def GPT_SIGNATURE_def GET_4_BYTES_def PUT_4_BYTES_def
      le4_def crc32_def crc_zero_def overwrite_def le4_bytes_def nth_append)

lemma tz_whole: "whole wit_env tz_dev gpt"
proof -
  have "GET_4_BYTES (tab_header lba) 88 = Some 256" for lba
    by (simp add: tab_header_def GET_4_BYTES_def le4_def nth_append)
  then show ?thesis
    by (cases gpt) (simp_all add: whole_def hstate_def entries_match_def tz_hdr tab_header_ok pentries_arr_size_def tab_fields
        crc32_def crc_zero_def tz_length, simp_all add: wit_env_def tz_length)
qed

lemma tz_tables_ok: "tables_ok tz_dev"
  unfolding tz_dev_def by (rule tab_tables_ok [OF tz_length tz_length])

lemma tz_recoverable: "recoverable wit_env tz_dev"
  using tz_tables_ok tz_whole by (simp add: recoverable_def) (simp add: whole_def)

lemma tz_pair: "\<not> (\<forall>n \<in> set (swap_names wit_env). twins n tz_table = None)"
  using wit_table_tz tz_twins by (metis option.distinct(1))

lemma wit_not_ufs: "\<not> gpt_utils_is_ufs_device wit_env"
  by (simp add: gpt_utils_is_ufs_device_def property_get_def) (simp add: wit_env_def)

lemma tz_main: "\<exists>w'. prepare_partitions wit_env UPDATE_MAIN BLK_DEV_FILE tz_world = Some (0, w')"
proof (rule prepare_no_fail [OF wit_no_fail wit_not_ufs tz_world_dev tz_recoverable])
  show "hstate wit_env tz_dev PRIMARY_GPT = Some GPT_OK" "hstate wit_env tz_dev SECONDARY_GPT = Some GPT_OK"
    using tz_whole by (simp_all add: whole_def)
  show "internal_stage GPT_OK GPT_OK = Some UPDATE_MAIN" by (simp add: internal_stage_def)
  have "GET_4_BYTES (hdr_bytes tz_dev PRIMARY_GPT) 84 = Some 128" by (simp add: tz_hdr tab_fields)
  from chain_entries_concat [OF tz_hdr(3) tz_table_wf this, of wit_env] tz_pair
  show "chain_entries wit_env BACKUP_BOOT tz_dev = Some (0, concat (chain_swap (swap_names wit_env) tz_table))"
    by (simp only: if_False)
qed

section \<open>Properties\<close>

text \<open>
  C4. The update protocol never leaves a device without a complete partition table. The device
  has its two arrays of entries inside it, of one size and clear of each other and of the two
  header blocks (\<open>tables_ok\<close>). It starts \<open>recoverable\<close>: the primary entries match the checksum in the
  primary header, and the primary or the secondary copy is whole, with its signature, its header
  checksum and its entry checksum right. Then, whatever the stage asked for and whichever
  opens, ioctls, reads, writes or allocations fail, \<open>prepare_partitions\<close> leaves it recoverable: one
  of the copies is whole, the primary entries are what they were and match their checksum, and
  no other device was touched. A failing write writes nothing; a transfer torn in the middle is
  not considered.
\<close>

theorem prepare_partitions_keeps_usable:
  assumes "w_dev w dev = Some d" "tables_ok d" "entries_match e d PRIMARY_GPT"
    and "whole e d PRIMARY_GPT \<or> whole e d SECONDARY_GPT"
    and "prepare_partitions e stage dev w = Some (r, w')"
  shows "(\<forall>x. x \<noteq> dev \<longrightarrow> w_dev w' x = w_dev w x) \<and>
    (\<exists>d'. w_dev w' dev = Some d' \<and> tables_ok d' \<and> (whole e d' PRIMARY_GPT \<or> whole e d' SECONDARY_GPT) \<and>
       entries_match e d' PRIMARY_GPT \<and> table d' PRIMARY_GPT = table d PRIMARY_GPT)"
proof -
  from assms(2) obtain p q n where at: "tables_at d p q n" by (auto simp: tables_ok_def)
  have rec: "recoverable e d" using assms(2-4) by (simp add: recoverable_def)
  from wpD [OF prepare_partitions_wp [OF assms(1) at rec] assms(5)] show ?thesis
  proof (elim case_prodE disjE conjE, goal_cases)
    case (1 a b)
    then show ?case by (auto simp: stage_post_def kept_def recoverable_def)
  next
    case (2 a b)
    with assms(1) rec show ?case by (auto simp: recoverable_def)
  qed
qed

theorem prepare_partitions_keeps_usable_witness:
  "\<exists>w' d'. prepare_partitions wit_env UPDATE_MAIN BLK_DEV_FILE tz_world = Some (0, w') \<and>
     w_dev w' BLK_DEV_FILE = Some d' \<and> (whole wit_env d' PRIMARY_GPT \<or> whole wit_env d' SECONDARY_GPT) \<and>
     table d' PRIMARY_GPT = concat tz_table"
proof -
  obtain w' where w': "prepare_partitions wit_env UPDATE_MAIN BLK_DEV_FILE tz_world = Some (0, w')"
    using tz_main by blast
  have "entries_match wit_env tz_dev PRIMARY_GPT" using tz_whole by (simp add: whole_def)
  from prepare_partitions_keeps_usable [OF tz_world_dev tz_tables_ok this _ w'] tz_whole w' show ?thesis
    by (auto simp: tz_hdr(3))
qed

text \<open>
  C5. A stage that reports success has done its work, on a recoverable device with 128-byte
  entries. \<open>UPDATE_MAIN\<close>: on a device that has been through it (primary signature already struck out)
  nothing changes; when no partition of the list has a backup twin nothing changes either;
  otherwise the secondary copy is whole and holds the primary entries with every partition
  exchanged with its backup, and the primary signature is struck out. \<open>UPDATE_BACKUP\<close>: the primary copy is
  whole, the secondary signature is struck out, the entries of both are what they were.
  \<open>UPDATE_FINALIZE\<close>: both copies are whole and hold the same entries. In every stage the primary entries are
  unchanged.
\<close>

theorem prepare_partitions_reaches_stage:
  assumes "w_dev w dev = Some d" "recoverable e d"
    and "table d PRIMARY_GPT = concat es" "entries_wf es" "GET_4_BYTES (hdr_bytes d PRIMARY_GPT) PENTRY_SIZE_OFFSET = Some 128"
    and "prepare_partitions e stage dev w = Some (0, w')"
  shows "\<exists>d'. w_dev w' dev = Some d' \<and> table d' PRIMARY_GPT = concat es \<and>
    (case stage of
       UPDATE_MAIN \<Rightarrow>
         (if hstate e d PRIMARY_GPT = Some GPT_BAD_SIGNATURE \<or> (\<forall>n \<in> set (swap_names e). twins n es = None) then d' = d
          else hstate e d' PRIMARY_GPT = Some GPT_BAD_SIGNATURE \<and> whole e d' SECONDARY_GPT \<and>
            table d' SECONDARY_GPT = concat (chain_swap (swap_names e) es))
     | UPDATE_BACKUP \<Rightarrow> whole e d' PRIMARY_GPT \<and> hstate e d' SECONDARY_GPT = Some GPT_BAD_SIGNATURE \<and>
         table d' SECONDARY_GPT = table d SECONDARY_GPT
     | UPDATE_FINALIZE \<Rightarrow> whole e d' PRIMARY_GPT \<and> whole e d' SECONDARY_GPT \<and>
         table d' SECONDARY_GPT = concat es)"
proof -
  from assms(2) obtain p q n where at: "tables_at d p q n" by (auto simp: recoverable_def tables_ok_def)
  note c = chain_entries_concat [OF assms(3,4,5), of e]
  from wpD [OF prepare_partitions_wp [OF assms(1) at assms(2)] assms(6)]
  consider "main_again e stage d" "w_dev w' = w_dev w"
    | d' where "\<not> main_again e stage d" "kept dev p q n d w d' w'" "stage_effect e stage d d'"
    by (auto simp: stage_post_def)
  then show ?thesis
  proof cases
    case 1
    with assms(1,3) show ?thesis by (simp add: main_again_def)
  next
    case (2 d')
    then have "w_dev w' dev = Some d'" "table d' PRIMARY_GPT = concat es" using assms(3) by (auto simp: kept_def)
    with 2(1,3) c show ?thesis
      by (intro exI [of _ d']) (cases stage, auto simp: main_again_def split: if_splits)
  qed
qed

theorem prepare_partitions_reaches_stage_witness:
  "\<exists>w' d'. prepare_partitions wit_env UPDATE_MAIN BLK_DEV_FILE tz_world = Some (0, w') \<and>
     w_dev w' BLK_DEV_FILE = Some d' \<and> hstate wit_env d' PRIMARY_GPT = Some GPT_BAD_SIGNATURE \<and>
     whole wit_env d' SECONDARY_GPT \<and> table d' SECONDARY_GPT = concat (chain_swap (swap_names wit_env) tz_table)"
proof -
  obtain w' where w': "prepare_partitions wit_env UPDATE_MAIN BLK_DEV_FILE tz_world = Some (0, w')"
    using tz_main by blast
  have sz: "GET_4_BYTES (hdr_bytes tz_dev PRIMARY_GPT) PENTRY_SIZE_OFFSET = Some 128" by (simp add: tz_hdr tab_fields)
  have "hstate wit_env tz_dev PRIMARY_GPT \<noteq> Some GPT_BAD_SIGNATURE" using tz_whole by (simp add: whole_def)
  with prepare_partitions_reaches_stage [OF tz_world_dev tz_recoverable tz_hdr(3) tz_table_wf sz w'] tz_pair w'
  show ?thesis by auto
qed

text \<open>
  C22. An update completes: the three stages in order, on a device whose copies are both whole and lie
  where their headers say, with entries of 128 bytes and well-formed names of which at least one
  partition has a backup, when no call fails and the device is not UFS. Each stage returns 0. After the
  first, the signature of the primary copy is gone and the secondary copy is whole, with every partition
  and its backup exchanged, so that the device boots from the backups; after the second, the primary copy is
  whole with the entries it had and the signature of the secondary copy is gone; and at the end both copies
  are whole and hold the entries they held at the beginning.
\<close>

theorem update_cycle_completes:
  assumes "no_fail e" "\<not> gpt_utils_is_ufs_device e" "w_dev w dev = Some d" "tables_ok d"
    and "whole e d PRIMARY_GPT" "whole e d SECONDARY_GPT"
    and "table d PRIMARY_GPT = concat es" "entries_wf es" "GET_4_BYTES (hdr_bytes d PRIMARY_GPT) PENTRY_SIZE_OFFSET = Some 128"
    and "nm \<in> set (swap_names e)" "twins nm es = Some ij"
  shows "\<exists>w1 w2 w3 d1 d2 d3.
    prepare_partitions e UPDATE_MAIN dev w = Some (0, w1) \<and> w_dev w1 dev = Some d1 \<and>
      hstate e d1 PRIMARY_GPT = Some GPT_BAD_SIGNATURE \<and> whole e d1 SECONDARY_GPT \<and>
      table d1 SECONDARY_GPT = concat (chain_swap (swap_names e) es) \<and>
    prepare_partitions e UPDATE_BACKUP dev w1 = Some (0, w2) \<and> w_dev w2 dev = Some d2 \<and>
      whole e d2 PRIMARY_GPT \<and> hstate e d2 SECONDARY_GPT = Some GPT_BAD_SIGNATURE \<and> table d2 PRIMARY_GPT = concat es \<and>
    prepare_partitions e UPDATE_FINALIZE dev w2 = Some (0, w3) \<and> w_dev w3 dev = Some d3 \<and>
      whole e d3 PRIMARY_GPT \<and> whole e d3 SECONDARY_GPT \<and>
      table d3 PRIMARY_GPT = concat es \<and> table d3 SECONDARY_GPT = concat es"
proof -
  have rec: "recoverable e d" using assms(4-6) by (auto simp: recoverable_def whole_def)
  obtain p q n where at: "tables_at d p q n" using assms(4) by (auto simp: tables_ok_def)
  have h: "hstate e d PRIMARY_GPT = Some GPT_OK" "hstate e d SECONDARY_GPT = Some GPT_OK"
    using assms(5,6) by (simp_all add: whole_def)
  have tw: "\<not> (\<forall>n \<in> set (swap_names e). twins n es = None)" using assms(10,11) by force
  have c: "chain_entries e BACKUP_BOOT d = Some (0, concat (chain_swap (swap_names e) es))"
    using chain_entries_concat [OF assms(7-9), of e] tw by simp
  obtain w1 where w1: "prepare_partitions e UPDATE_MAIN dev w = Some (0, w1)"
    using prepare_no_fail [OF assms(1-3) rec h, of UPDATE_MAIN] c by (auto simp: internal_stage_def)
  from wpD [OF prepare_partitions_wp [OF assms(3) at rec] w1] h c obtain d1 where
    d1: "kept dev p q n d w d1 w1" "recoverable e d1" "hstate e d1 PRIMARY_GPT = Some GPT_BAD_SIGNATURE"
      "whole e d1 SECONDARY_GPT" "table d1 SECONDARY_GPT = concat (chain_swap (swap_names e) es)"
    by (auto simp: main_again_def stage_post_def)
  note k1 = kept_dev [OF d1(1), THEN conjunct1] kept_dev [OF d1(1), THEN conjunct2]
  obtain w2 where w2: "prepare_partitions e UPDATE_BACKUP dev w1 = Some (0, w2)"
    using prepare_no_fail [OF assms(1,2) k1(1) d1(2,3), of GPT_OK UPDATE_BACKUP] d1(4)
    by (auto simp: internal_stage_def whole_def)
  from wpD [OF prepare_partitions_wp [OF k1 d1(2)] w2] obtain d2 where
    d2: "kept dev p q n d1 w1 d2 w2" "recoverable e d2" "whole e d2 PRIMARY_GPT"
      "hstate e d2 SECONDARY_GPT = Some GPT_BAD_SIGNATURE"
    by (auto simp: main_again_def stage_post_def)
  note k2 = kept_dev [OF d2(1), THEN conjunct1] kept_dev [OF d2(1), THEN conjunct2]
  obtain w3 where w3: "prepare_partitions e UPDATE_FINALIZE dev w2 = Some (0, w3)"
    using prepare_no_fail [OF assms(1,2) k2(1) d2(2) _ d2(4), of GPT_OK UPDATE_FINALIZE] d2(3)
    by (auto simp: internal_stage_def whole_def)
  from wpD [OF prepare_partitions_wp [OF k2 d2(2)] w3] obtain d3 where
    d3: "kept dev p q n d2 w2 d3 w3" "whole e d3 PRIMARY_GPT" "whole e d3 SECONDARY_GPT"
      "table d3 SECONDARY_GPT = table d3 PRIMARY_GPT"
    by (auto simp: main_again_def stage_post_def)
  have t: "table d2 PRIMARY_GPT = concat es" "table d3 PRIMARY_GPT = concat es"
    using d1(1) d2(1) d3(1) assms(7) by (auto simp: kept_def)
  show ?thesis
    using w1 k1 d1 w2 k2 d2 w3 kept_dev [OF d3(1)] d3 t by (intro exI conjI) auto
qed

theorem update_cycle_completes_witness:
  "\<exists>w1 w2 w3 d3. prepare_partitions wit_env UPDATE_MAIN BLK_DEV_FILE tz_world = Some (0, w1) \<and>
     prepare_partitions wit_env UPDATE_BACKUP BLK_DEV_FILE w1 = Some (0, w2) \<and>
     prepare_partitions wit_env UPDATE_FINALIZE BLK_DEV_FILE w2 = Some (0, w3) \<and>
     w_dev w3 BLK_DEV_FILE = Some d3 \<and> table d3 SECONDARY_GPT = concat tz_table"
proof -
  have sz: "GET_4_BYTES (hdr_bytes tz_dev PRIMARY_GPT) PENTRY_SIZE_OFFSET = Some 128" by (simp add: tz_hdr tab_fields)
  from update_cycle_completes [OF wit_no_fail wit_not_ufs tz_world_dev tz_tables_ok tz_whole tz_whole tz_hdr(3)
      tz_table_wf sz wit_table_tz tz_twins]
  show ?thesis by blast
qed

end
