(* ===== verification/BootCtl.thy ===== *)
theory BootCtl
  imports GptStore
begin

unbundle bit_operations_syntax

text \<open>
  The boot control library \<open>bootctrl/1.1/libboot_control_qti/libboot_control_qti.cpp\<close>: reading and
  setting the A/B attributes of the partitions of a slot, and switching the active slot.

  The misc-partition functions of the recovery library (\<open>get_bootloader_message_blk_device\<close>,
  \<open>read_bootloader_message_from\<close>, \<open>write_bootloader_message_to\<close> and the virtual A/B merge
  status) are not in the repository: they are the fields of a record \<open>misc_ops\<close> over a state
  \<open>'m\<close> that only they know. Functions that touch the GPT only pass the world through.
\<close>

section \<open>State\<close>

datatype part_attr_type = ATTR_SLOT_ACTIVE | ATTR_BOOT_SUCCESSFUL | ATTR_UNBOOTABLE

datatype merge_status = MS_NONE | MS_UNKNOWN | MS_SNAPSHOTTED | MS_MERGING | MS_CANCELLED

text \<open>The \<open>reserved\<close> bytes of a bootloader message, the only ones boot control looks at.\<close>

type_synonym boot_message = bytes

record 'm misc_ops =
  get_bootloader_message_blk_device :: "'m \<Rightarrow> string"
  read_bootloader_message_from :: "string \<Rightarrow> 'm \<Rightarrow> boot_message option"
  write_bootloader_message_to :: "boot_message \<Rightarrow> string \<Rightarrow> 'm \<Rightarrow> bool \<times> 'm"
  uninitialized_message :: boot_message
  InitMiscVirtualAbMessageIfNeeded :: "'m \<Rightarrow> bool \<times> 'm"
  SetMiscVirtualAbMergeStatus :: "u32 \<Rightarrow> merge_status \<Rightarrow> 'm \<Rightarrow> bool \<times> 'm"
  GetMiscVirtualAbMergeStatus :: "u32 \<Rightarrow> 'm \<Rightarrow> merge_status option"

record 'm boot_state =
  b_world :: world
  b_misc :: 'm
  mGvmqPlatform :: bool

definition AB_SLOT_A_SUFFIX :: string where "AB_SLOT_A_SUFFIX = ''_a''"
definition AB_SLOT_B_SUFFIX :: string where "AB_SLOT_B_SUFFIX = ''_b''"

text \<open>The array with its terminating \<open>NULL\<close>; reading behind it is undefined.\<close>

definition slot_suffix_arr :: "string option list" where
  "slot_suffix_arr = [Some AB_SLOT_A_SUFFIX, Some AB_SLOT_B_SUFFIX, None]"

definition suffix_at :: "u32 \<Rightarrow> string option option" where
  "suffix_at slot = (if unat slot < length slot_suffix_arr then Some (slot_suffix_arr ! unat slot) else None)"

definition slot_suffixes :: "string list" where
  "slot_suffixes = List.map_filter id slot_suffix_arr"

section \<open>Attributes\<close>

text \<open>The byte at an entry's \<open>AB_FLAG_OFFSET\<close>.\<close>

definition attr_at :: "bytes \<Rightarrow> nat \<Rightarrow> u8 option" where
  "attr_at arr pentry = (if pentry + AB_FLAG_OFFSET < length arr then Some (arr ! (pentry + AB_FLAG_OFFSET)) else None)"

fun attr_bit :: "part_attr_type \<Rightarrow> u8" where
  "attr_bit ATTR_SLOT_ACTIVE = AB_PARTITION_ATTR_SLOT_ACTIVE"
| "attr_bit ATTR_BOOT_SUCCESSFUL = AB_PARTITION_ATTR_BOOT_SUCCESSFUL"
| "attr_bit ATTR_UNBOOTABLE = AB_PARTITION_ATTR_UNBOOTABLE"

definition boot_ctl_get_disk_info :: "env \<Rightarrow> string \<Rightarrow> world \<Rightarrow> (gpt_disk option \<times> world) option" where
  "boot_ctl_get_disk_info e part w =
     (let (disk, w) = gpt_disk_alloc e w in
      case disk of None \<Rightarrow> Some (None, w)
      | Some disk \<Rightarrow> do {
          (rc, disk, w) \<leftarrow> gpt_disk_get_disk_info e part disk w;
          Some (if rc \<noteq> 0 then None else Some disk, w)
        })"

definition get_partition_attribute ::
  "env \<Rightarrow> string \<Rightarrow> part_attr_type \<Rightarrow> world \<Rightarrow> (int \<times> world) option" where
  "get_partition_attribute e partname part_attr w =
     (let (disk, w) = gpt_disk_alloc e w in
      case disk of None \<Rightarrow> Some (-1, w)
      | Some disk \<Rightarrow> do {
          (rc, disk, w) \<leftarrow> gpt_disk_get_disk_info e partname disk w;
          if rc \<noteq> 0 then Some (-1, w)
          else do {
            pentry \<leftarrow> gpt_disk_get_pentry disk partname PRIMARY_GPT;
            case pentry of None \<Rightarrow> Some (-1, w)
            | Some pentry \<Rightarrow> do {
                arr \<leftarrow> gd_pentry_arr disk;
                attr \<leftarrow> attr_at arr pentry;
                Some (if attr AND attr_bit part_attr \<noteq> 0 then 1 else 0, w)
              }
          }
        })"

text \<open>
  The assignments through \<open>attr\<close> and \<open>attr_bak\<close>. For \<open>ATTR_SLOT_ACTIVE\<close> the backup byte
  is computed from the primary one, as the code has it.
\<close>

definition set_attr :: "part_attr_type \<Rightarrow> nat \<Rightarrow> nat \<Rightarrow> gpt_disk \<Rightarrow> gpt_disk option" where
  "set_attr ab_attr pentry pentry_bak disk = do {
     arr \<leftarrow> gd_pentry_arr disk;
     arr_bak \<leftarrow> gd_pentry_arr_bak disk;
     attr \<leftarrow> attr_at arr pentry;
     attr_bak \<leftarrow> attr_at arr_bak pentry_bak;
     let attr' = attr OR attr_bit ab_attr;
     let attr_bak' = (if ab_attr = ATTR_SLOT_ACTIVE then attr' else attr_bak) OR attr_bit ab_attr;
     Some (disk\<lparr>gd_pentry_arr := Some (arr[pentry + AB_FLAG_OFFSET := attr']),
       gd_pentry_arr_bak := Some (arr_bak[pentry_bak + AB_FLAG_OFFSET := attr_bak'])\<rparr>)
   }"

text \<open>One turn of the loop in \<open>update_slot_attribute\<close>, from the allocation of the disk on.\<close>

definition update_attr :: "env \<Rightarrow> string \<Rightarrow> part_attr_type \<Rightarrow> world \<Rightarrow> (int \<times> world) option" where
  "update_attr e partName ab_attr w =
     (let (disk, w) = gpt_disk_alloc e w in
      case disk of None \<Rightarrow> Some (-1, w)
      | Some disk \<Rightarrow> do {
          (rc, disk, w) \<leftarrow> gpt_disk_get_disk_info e partName disk w;
          if rc \<noteq> 0 then Some (-1, w)
          else do {
            pentry \<leftarrow> gpt_disk_get_pentry disk partName PRIMARY_GPT;
            pentry_bak \<leftarrow> gpt_disk_get_pentry disk partName SECONDARY_GPT;
            case (pentry, pentry_bak) of
              (Some pentry, Some pentry_bak) \<Rightarrow> do {
                disk \<leftarrow> set_attr ab_attr pentry pentry_bak disk;
                (rc, disk) \<leftarrow> gpt_disk_update_crc e disk;
                if rc \<noteq> 0 then Some (-1, w)
                else do {
                  (rc, w) \<leftarrow> gpt_disk_commit e disk w;
                  Some (if rc \<noteq> 0 then -1 else 0, w)
                }
              }
            | _ \<Rightarrow> Some (-1, w)
          }
        })"

definition ab_ptn_exists :: "env \<Rightarrow> string \<Rightarrow> bool" where
  "ab_ptn_exists e ptn \<longleftrightarrow>
     env_stat e (BOOT_DEV_DIR @ ''/'' @ ptn @ AB_SLOT_A_SUFFIX) \<and>
     env_stat e (BOOT_DEV_DIR @ ''/'' @ ptn @ AB_SLOT_B_SUFFIX)"

fun update_slot_loop ::
  "env \<Rightarrow> string \<Rightarrow> part_attr_type \<Rightarrow> string list \<Rightarrow> world \<Rightarrow> (int \<times> world) option" where
  "update_slot_loop e slot ab_attr [] w = Some (0, w)"
| "update_slot_loop e slot ab_attr (ptn # ptns) w =
     (if \<not> ab_ptn_exists e ptn then update_slot_loop e slot ab_attr ptns w
      else do {
        (rc, w) \<leftarrow> update_attr e (take (MAX_GPT_NAME_SIZE - 1) (ptn @ slot)) ab_attr w;
        if rc \<noteq> 0 then Some (-1, w) else update_slot_loop e slot ab_attr ptns w
      })"

text \<open>A \<open>NULL\<close> slot is refused.\<close>

definition update_slot_attribute ::
  "env \<Rightarrow> string option \<Rightarrow> part_attr_type \<Rightarrow> world \<Rightarrow> (int \<times> world) option" where
  "update_slot_attribute e slot ab_attr w =
     (case slot of None \<Rightarrow> Some (-1, w)
      | Some slot \<Rightarrow>
         if \<not> (\<exists>s \<in> set slot_suffixes. strncmp_eq slot s (length s)) then Some (-1, w)
         else update_slot_loop e slot ab_attr AB_PTN_LIST w)"

section \<open>Slots\<close>

definition BOOTDEV_DIR :: string where "BOOTDEV_DIR = ''/dev/block/bootdevice/by-name''"

definition get_number_slots :: "env \<Rightarrow> bool \<Rightarrow> u32" where
  "get_number_slots e gvmq =
     (if gvmq then 2
      else (case env_dir e BOOTDEV_DIR of
              None \<Rightarrow> 0
            | Some names \<Rightarrow>
               of_nat (length (filter (\<lambda>n. \<not> strncmp_eq n ''.'' 1 \<and> strncmp_eq n ''boot'' 4) names))))"

definition boot_control_check_slot_sanity :: "env \<Rightarrow> bool \<Rightarrow> u32 \<Rightarrow> int" where
  "boot_control_check_slot_sanity e gvmq slot =
     (let num_slots = get_number_slots e gvmq in
      if num_slots < 1 \<or> slot > num_slots - 1 then -1 else 0)"

definition get_current_slot :: "env \<Rightarrow> bool \<Rightarrow> u32" where
  "get_current_slot e gvmq =
     (if get_number_slots e gvmq \<le> 1 then 0
      else (let bootSlotProp = property_get e ''ro.boot.slot_suffix'' ''N/A'' in
        if strncmp_eq bootSlotProp ''N/A'' 3 then 0
        else (case find (\<lambda>i. strncmp_eq bootSlotProp (slot_suffixes ! i) (length (slot_suffixes ! i)))
                     [0..<length slot_suffixes] of
                Some i \<Rightarrow> of_nat i
              | None \<Rightarrow> 0)))"


section \<open>Switching the active slot\<close>

text \<open>The macro \<open>UPDATE_SLOT\<close>: copy the type GUID, then set or clear the active state.\<close>

definition UPDATE_SLOT :: "bytes \<Rightarrow> nat \<Rightarrow> bytes \<Rightarrow> bool \<Rightarrow> bytes option" where
  "UPDATE_SLOT arr pentry guid active =
     (if pentry + AB_FLAG_OFFSET < length arr then
        (let arr = overwrite pentry guid arr; flag = arr ! (pentry + AB_FLAG_OFFSET) in
         Some (arr[pentry + AB_FLAG_OFFSET :=
           (if active then AB_SLOT_ACTIVE_VAL else flag AND NOT AB_PARTITION_ATTR_SLOT_ACTIVE)]))
      else None)"

definition update_disk_slot :: "gpt_disk \<Rightarrow> nat \<Rightarrow> nat \<Rightarrow> bytes \<Rightarrow> bool \<Rightarrow> gpt_disk option" where
  "update_disk_slot disk pentry pentry_bak guid active = do {
     arr \<leftarrow> gd_pentry_arr disk;
     arr \<leftarrow> UPDATE_SLOT arr pentry guid active;
     arr_bak \<leftarrow> gd_pentry_arr_bak disk;
     arr_bak \<leftarrow> UPDATE_SLOT arr_bak pentry_bak guid active;
     Some (disk\<lparr>gd_pentry_arr := Some arr, gd_pentry_arr_bak := Some arr_bak\<rparr>)
   }"

text \<open>\<open>memcpy (guid, pentry, TYPE_GUID_SIZE)\<close> out of the primary table of a disk.\<close>

definition type_guid :: "gpt_disk \<Rightarrow> nat \<Rightarrow> bytes option" where
  "type_guid disk pentry = do {
     arr \<leftarrow> gd_pentry_arr disk;
     if pentry + TYPE_GUID_SIZE \<le> length arr then Some (slice pentry TYPE_GUID_SIZE arr) else None
   }"

text \<open>
  The GUIDs of the active and of the inactive partition: the attribute is read from the device
  again, for A and, unless A is active, for B. \<open>Some None\<close> is the abort when both are inactive.
\<close>

definition slot_guids ::
  "env \<Rightarrow> string \<Rightarrow> string \<Rightarrow> gpt_disk \<Rightarrow> gpt_disk \<Rightarrow> nat \<Rightarrow> nat \<Rightarrow> world \<Rightarrow>
     ((bytes \<times> bytes) option \<times> world) option" where
  "slot_guids e slotA slotB diskA diskB pentryA pentryB w = do {
     (ra, w) \<leftarrow> get_partition_attribute e slotA ATTR_SLOT_ACTIVE w;
     if ra = 1 then do {
       active \<leftarrow> type_guid diskA pentryA;
       inactive \<leftarrow> type_guid diskB pentryB;
       Some (Some (active, inactive), w)
     } else do {
       (rb, w) \<leftarrow> get_partition_attribute e slotB ATTR_SLOT_ACTIVE w;
       if rb = 1 then do {
         active \<leftarrow> type_guid diskB pentryB;
         inactive \<leftarrow> type_guid diskA pentryA;
         Some (Some (active, inactive), w)
       } else Some (None, w)
     }
   }"

text \<open>
  The four \<open>UPDATE_SLOT\<close> lines of one turn. \<open>suf\<close> is the suffix of the slot to activate;
  \<open>Some None\<close> is the unknown-suffix branch.
\<close>

definition update_slots ::
  "string \<Rightarrow> bytes \<Rightarrow> bytes \<Rightarrow> gpt_disk \<Rightarrow> nat \<Rightarrow> nat \<Rightarrow> gpt_disk \<Rightarrow> nat \<Rightarrow> nat \<Rightarrow>
     (gpt_disk \<times> gpt_disk) option option" where
  "update_slots suf active inactive diskA pA pA_bak diskB pB pB_bak =
     (if strncmp_eq suf AB_SLOT_A_SUFFIX (length AB_SLOT_A_SUFFIX) then do {
        diskA \<leftarrow> update_disk_slot diskA pA pA_bak active True;
        diskB \<leftarrow> update_disk_slot diskB pB pB_bak inactive False;
        Some (Some (diskA, diskB))
      } else if strncmp_eq suf AB_SLOT_B_SUFFIX (length AB_SLOT_B_SUFFIX) then do {
        diskB \<leftarrow> update_disk_slot diskB pB pB_bak active True;
        diskA \<leftarrow> update_disk_slot diskA pA pA_bak inactive False;
        Some (Some (diskA, diskB))
      } else Some None)"

text \<open>One turn for a partition whose two versions exist. \<open>Inl\<close> is \<open>goto error\<close>.\<close>

definition switch_partition ::
  "env \<Rightarrow> u32 \<Rightarrow> string \<Rightarrow> gpt_disk \<Rightarrow> gpt_disk \<Rightarrow> world \<Rightarrow>
     ((unit + gpt_disk \<times> gpt_disk) \<times> world) option" where
  "switch_partition e slot prefix diskA diskB w = do {
     let slotA = take (MAX_GPT_NAME_SIZE - 1) (prefix @ AB_SLOT_A_SUFFIX);
     let slotB = take (MAX_GPT_NAME_SIZE - 1) (prefix @ AB_SLOT_B_SUFFIX);
     pentryA \<leftarrow> gpt_disk_get_pentry diskA slotA PRIMARY_GPT;
     pentryA_bak \<leftarrow> gpt_disk_get_pentry diskA slotA SECONDARY_GPT;
     pentryB \<leftarrow> gpt_disk_get_pentry diskB slotB PRIMARY_GPT;
     pentryB_bak \<leftarrow> gpt_disk_get_pentry diskB slotB SECONDARY_GPT;
     case (pentryA, pentryA_bak, pentryB, pentryB_bak) of
       (Some pA, Some pA_bak, Some pB, Some pB_bak) \<Rightarrow> do {
         (guids, w) \<leftarrow> slot_guids e slotA slotB diskA diskB pA pB w;
         case guids of None \<Rightarrow> Some (Inl (), w)
         | Some (active, inactive) \<Rightarrow> do {
             suf \<leftarrow> suffix_at slot;
             suf \<leftarrow> suf;
             disks \<leftarrow> update_slots suf active inactive diskA pA pA_bak diskB pB pB_bak;
             case disks of None \<Rightarrow> Some (Inl (), w)
             | Some (diskA, diskB) \<Rightarrow> do {
                 (rc, diskA) \<leftarrow> gpt_disk_update_crc e diskA;
                 if rc \<noteq> 0 then Some (Inl (), w)
                 else do {
                   (rc, diskB) \<leftarrow> gpt_disk_update_crc e diskB;
                   if rc \<noteq> 0 then Some (Inl (), w) else Some (Inr (diskA, diskB), w)
                 }
               }
           }
       }
     | _ \<Rightarrow> Some (Inl (), w)
   }"

text \<open>\<open>if (!disk) disk = boot_ctl_get_disk_info (part)\<close>; a \<open>NULL\<close> result is an error.\<close>

definition ensure_disk ::
  "env \<Rightarrow> string \<Rightarrow> gpt_disk option \<Rightarrow> world \<Rightarrow> (gpt_disk option \<times> world) option" where
  "ensure_disk e part disk w =
     (case disk of Some d \<Rightarrow> Some (Some d, w) | None \<Rightarrow> boot_ctl_get_disk_info e part w)"

fun switch_loop ::
  "env \<Rightarrow> u32 \<Rightarrow> string list \<Rightarrow> gpt_disk option \<Rightarrow> gpt_disk option \<Rightarrow> world \<Rightarrow>
     ((unit + gpt_disk option \<times> gpt_disk option) \<times> world) option" where
  "switch_loop e slot [] diskA diskB w = Some (Inr (diskA, diskB), w)"
| "switch_loop e slot (part # parts) diskA diskB w =
     (if length part < length AB_SLOT_A_SUFFIX + 1 then Some (Inl (), w)
      else (let prefix = take (length part - length AB_SLOT_A_SUFFIX) part in
        if \<not> ab_ptn_exists e prefix then switch_loop e slot parts diskA diskB w
        else do {
          (diskA, w) \<leftarrow> ensure_disk e (take (MAX_GPT_NAME_SIZE - 1) (prefix @ AB_SLOT_A_SUFFIX)) diskA w;
          case diskA of None \<Rightarrow> Some (Inl (), w)
          | Some diskA \<Rightarrow> do {
              (diskB, w) \<leftarrow> ensure_disk e (take (MAX_GPT_NAME_SIZE - 1) (prefix @ AB_SLOT_B_SUFFIX)) diskB w;
              case diskB of None \<Rightarrow> Some (Inl (), w)
              | Some diskB \<Rightarrow> do {
                  (r, w) \<leftarrow> switch_partition e slot prefix diskA diskB w;
                  case r of Inl _ \<Rightarrow> Some (Inl (), w)
                  | Inr (diskA, diskB) \<Rightarrow> switch_loop e slot parts (Some diskA) (Some diskB) w
                }
            }
        }))"

definition commit_opt :: "env \<Rightarrow> gpt_disk option \<Rightarrow> world \<Rightarrow> (int \<times> world) option" where
  "commit_opt e disk w = (case disk of None \<Rightarrow> Some (0, w) | Some d \<Rightarrow> gpt_disk_commit e d w)"

definition boot_ctl_set_active_slot_for_partitions ::
  "env \<Rightarrow> string list \<Rightarrow> u32 \<Rightarrow> world \<Rightarrow> (int \<times> world) option" where
  "boot_ctl_set_active_slot_for_partitions e part_list slot w = do {
     (r, w) \<leftarrow> switch_loop e slot part_list None None w;
     case r of Inl _ \<Rightarrow> Some (-1, w)
     | Inr (diskA, diskB) \<Rightarrow> do {
         (rc, w) \<leftarrow> commit_opt e diskA w;
         if rc \<noteq> 0 then Some (-1, w)
         else do {
           (rc, w) \<leftarrow> commit_opt e diskB w;
           if rc \<noteq> 0 then Some (-1, w) else Some (0, w)
         }
       }
   }"


section \<open>The library's interface\<close>

definition bootcontrol_init :: "env \<Rightarrow> 'm misc_ops \<Rightarrow> 'm boot_state \<Rightarrow> bool \<times> 'm boot_state" where
  "bootcontrol_init e ops s =
     (let platform = property_get e ''ro.build.product'' [];
          s = (if strncmp_eq platform ''msmnile_gvmq'' (length ''msmnile_gvmq'')
               then s\<lparr>mGvmqPlatform := True\<rparr> else s);
          (ok, m) = InitMiscVirtualAbMessageIfNeeded ops (b_misc s)
      in (ok, s\<lparr>b_misc := m\<rparr>))"

text \<open>Writing a bootloader message and reading it back, the tail of both GVMQ branches.\<close>

definition store_message :: "'m misc_ops \<Rightarrow> boot_message \<Rightarrow> string \<Rightarrow> 'm \<Rightarrow> bool \<times> 'm" where
  "store_message ops boot dev m =
     (let (ok, m) = write_bootloader_message_to ops boot dev m in
      (ok \<and> read_bootloader_message_from ops dev m \<noteq> None, m))"

definition gvmq_mark_successful :: "'m misc_ops \<Rightarrow> 'm \<Rightarrow> bool \<times> 'm" where
  "gvmq_mark_successful ops m =
     (let misc_blk_device = get_bootloader_message_blk_device ops m in
      if misc_blk_device = [] then (False, m)
      else (case read_bootloader_message_from ops misc_blk_device m of
              None \<Rightarrow> (False, m)
            | Some boot \<Rightarrow> store_message ops (boot[2 := of_char (CHR ''y'')]) misc_blk_device m))"

definition mark_boot_successful :: "env \<Rightarrow> 'm misc_ops \<Rightarrow> 'm boot_state \<Rightarrow> (int \<times> 'm boot_state) option" where
  "mark_boot_successful e ops s =
     (let (ok, m) = (if mGvmqPlatform s then gvmq_mark_successful ops (b_misc s) else (True, b_misc s));
          s = s\<lparr>b_misc := m\<rparr> in
      if \<not> ok then Some (-1, s)
      else do {
        suf \<leftarrow> suffix_at (get_current_slot e (mGvmqPlatform s));
        (r, w) \<leftarrow> update_slot_attribute e suf ATTR_BOOT_SUCCESSFUL (b_world s);
        Some (if r \<noteq> 0 then -1 else 0, s\<lparr>b_world := w\<rparr>)
      })"

definition slot_letter :: "u32 \<Rightarrow> u8" where
  "slot_letter slot = (if slot = 0 then of_char (CHR ''a'') else of_char (CHR ''b''))"

definition gvmq_set_active :: "env \<Rightarrow> 'm misc_ops \<Rightarrow> u32 \<Rightarrow> bool \<Rightarrow> 'm \<Rightarrow> bool \<times> 'm" where
  "gvmq_set_active e ops slot gvmq m =
     (let misc_blk_device = get_bootloader_message_blk_device ops m in
      if misc_blk_device = [] then (False, m)
      else (let current_slot = get_current_slot e gvmq; num_slots = get_number_slots e gvmq in
        if num_slots < 1 \<or> current_slot > num_slots - 1 then (False, m)
        else store_message ops
          ((uninitialized_message ops)[0 := slot_letter current_slot, 1 := slot_letter slot, 2 := 0])
          misc_blk_device m))"

definition slot_ptn_vec :: "env \<Rightarrow> string \<Rightarrow> string list" where
  "slot_ptn_vec e suf =
     map (\<lambda>ptn. ptn @ suf)
       (filter (\<lambda>ptn. \<not> (gpt_utils_is_ufs_device e \<and>
          (strncmp_eq ptn ''xbl'' 3 \<or> strncmp_eq ptn ''xbl_config'' 10))) AB_PTN_LIST)"

fun set_active_loop :: "env \<Rightarrow> u32 \<Rightarrow> partition_map \<Rightarrow> world \<Rightarrow> (int \<times> world) option" where
  "set_active_loop e slot [] w = Some (0, w)"
| "set_active_loop e slot ((path, parts) # m) w =
     (if length parts < 1 then set_active_loop e slot m w
      else do {
        (rc, w) \<leftarrow> boot_ctl_set_active_slot_for_partitions e parts slot w;
        if rc \<noteq> 0 then Some (-1, w) else set_active_loop e slot m w
      })"

text \<open>The part of \<open>set_active_boot_slot\<close> after the argument check.\<close>

definition switch_slot :: "env \<Rightarrow> u32 \<Rightarrow> world \<Rightarrow> (int \<times> world) option" where
  "switch_slot e slot w = do {
     suf \<leftarrow> suffix_at slot;
     suf \<leftarrow> suf;
     let (rc, ptn_map) = gpt_utils_get_partition_map e (slot_ptn_vec e suf) [];
     if rc \<noteq> 0 then Some (-1, w)
     else do {
       (rc, w) \<leftarrow> set_active_loop e slot ptn_map w;
       if rc \<noteq> 0 then Some (-1, w)
       else if gpt_utils_is_ufs_device e then
         (if strncmp_eq suf AB_SLOT_A_SUFFIX (length AB_SLOT_A_SUFFIX)
             \<or> strncmp_eq suf AB_SLOT_B_SUFFIX (length AB_SLOT_B_SUFFIX) then
            (let (rc, w) = gpt_utils_set_xbl_boot_partition e
                 (if strncmp_eq suf AB_SLOT_A_SUFFIX (length AB_SLOT_A_SUFFIX) then NORMAL_BOOT else BACKUP_BOOT) w
             in Some (if rc \<noteq> 0 then -1 else 0, w))
          else Some (-1, w))
       else Some (0, w)
     }
   }"

definition set_active_boot_slot ::
  "env \<Rightarrow> 'm misc_ops \<Rightarrow> u32 \<Rightarrow> 'm boot_state \<Rightarrow> (int \<times> 'm boot_state) option" where
  "set_active_boot_slot e ops slot s =
     (let gvmq = mGvmqPlatform s;
          (ok, m) = (if gvmq then gvmq_set_active e ops slot gvmq (b_misc s) else (True, b_misc s));
          s = s\<lparr>b_misc := m\<rparr> in
      if \<not> ok then Some (-1, s)
      else if boot_control_check_slot_sanity e gvmq slot \<noteq> 0 then Some (-1, s)
      else do {
        (rc, w) \<leftarrow> switch_slot e slot (b_world s);
        Some (rc, s\<lparr>b_world := w\<rparr>)
      })"

definition set_slot_as_unbootable :: "env \<Rightarrow> u32 \<Rightarrow> 'm boot_state \<Rightarrow> (int \<times> 'm boot_state) option" where
  "set_slot_as_unbootable e slot s =
     (if boot_control_check_slot_sanity e (mGvmqPlatform s) slot \<noteq> 0 then Some (-1, s)
      else do {
        suf \<leftarrow> suffix_at slot;
        (r, w) \<leftarrow> update_slot_attribute e suf ATTR_UNBOOTABLE (b_world s);
        Some (if r \<noteq> 0 then -1 else 0, s\<lparr>b_world := w\<rparr>)
      })"

text \<open>\<open>snprintf (bootPartition, sizeof (bootPartition) - 1, "boot%s", slot_suffix_arr[slot])\<close>.\<close>

definition boot_partition_attr ::
  "env \<Rightarrow> u32 \<Rightarrow> part_attr_type \<Rightarrow> 'm boot_state \<Rightarrow> (int \<times> 'm boot_state) option" where
  "boot_partition_attr e slot attr s = do {
     suf \<leftarrow> suffix_at slot;
     suf \<leftarrow> suf;
     (r, w) \<leftarrow> get_partition_attribute e (take (MAX_GPT_NAME_SIZE - 1) (''boot'' @ suf)) attr (b_world s);
     Some (r, s\<lparr>b_world := w\<rparr>)
   }"

definition is_slot_bootable :: "env \<Rightarrow> u32 \<Rightarrow> 'm boot_state \<Rightarrow> (int \<times> 'm boot_state) option" where
  "is_slot_bootable e slot s =
     (if boot_control_check_slot_sanity e (mGvmqPlatform s) slot \<noteq> 0 then Some (-1, s)
      else do {
        (attr, s) \<leftarrow> boot_partition_attr e slot ATTR_UNBOOTABLE s;
        Some (if attr \<ge> 0 then (if attr = 0 then 1 else 0) else -1, s)
      })"

definition is_slot_marked_successful :: "env \<Rightarrow> u32 \<Rightarrow> 'm boot_state \<Rightarrow> (int \<times> 'm boot_state) option" where
  "is_slot_marked_successful e slot s =
     (if boot_control_check_slot_sanity e (mGvmqPlatform s) slot \<noteq> 0 then Some (-1, s)
      else do {
        (attr, s) \<leftarrow> boot_partition_attr e slot ATTR_BOOT_SUCCESSFUL s;
        Some (if attr \<ge> 0 then attr else -1, s)
      })"

definition get_suffix :: "env \<Rightarrow> u32 \<Rightarrow> 'm boot_state \<Rightarrow> string option option" where
  "get_suffix e slot s =
     (if boot_control_check_slot_sanity e (mGvmqPlatform s) slot \<noteq> 0 then Some None else suffix_at slot)"

definition set_snapshot_merge_status ::
  "env \<Rightarrow> 'm misc_ops \<Rightarrow> merge_status \<Rightarrow> 'm boot_state \<Rightarrow> bool \<times> 'm boot_state" where
  "set_snapshot_merge_status e ops status s =
     (let (ok, m) = SetMiscVirtualAbMergeStatus ops (get_current_slot e (mGvmqPlatform s)) status (b_misc s)
      in (ok, s\<lparr>b_misc := m\<rparr>))"

definition get_snapshot_merge_status :: "env \<Rightarrow> 'm misc_ops \<Rightarrow> 'm boot_state \<Rightarrow> merge_status" where
  "get_snapshot_merge_status e ops s =
     (case GetMiscVirtualAbMergeStatus ops (get_current_slot e (mGvmqPlatform s)) (b_misc s) of
        None \<Rightarrow> MS_UNKNOWN | Some status \<Rightarrow> status)"

end
