(* ===== verification/BootAttr.thy ===== *)
theory BootAttr
  imports BootCtl
begin

unbundle bit_operations_syntax

text \<open>
  What boot control guarantees about the A/B attributes. The tables of all devices are abstracted
  to lists of entries (\<open>tabs\<close>), an attribute operation to \<open>put_attr\<close> on one entry; the locale
  \<open>attr_store\<close> states what clients may rely on and is interpreted on these definitions.
\<close>

section \<open>Tables as lists of entries\<close>

definition chunks :: "nat \<Rightarrow> bytes \<Rightarrow> bytes list" where
  "chunks k xs = map (\<lambda>i. slice (128 * i) 128 xs) [0..<k]"

lemma length_chunks [simp]: "length (chunks k xs) = k"
  by (simp add: chunks_def)

lemma nth_chunks: "i < k \<Longrightarrow> chunks k xs ! i = slice (128 * i) 128 xs"
  by (simp add: chunks_def)

lemma chunks_wf: "length xs = 128 * k \<Longrightarrow> entries_wf (chunks k xs)"
  by (auto simp: entries_wf_def list_all_length nth_chunks length_slice)

lemma concat_chunks: "length xs = 128 * k \<Longrightarrow> concat (chunks k xs) = xs"
proof (rule nth_equalityI)
  assume len: "length xs = 128 * k"
  note wf = chunks_wf [OF len]
  show "length (concat (chunks k xs)) = length xs"
    using len by (simp add: length_concat_wf [OF wf])
  fix i assume "i < length (concat (chunks k xs))"
  then have i: "i < 128 * k" by (simp add: length_concat_wf [OF wf])
  then have "i div 128 < k" "i mod 128 < 128" "128 * (i div 128) + i mod 128 = i" by auto
  with nth_concat_wf [OF wf, of "i div 128" "i mod 128"] len i
  show "concat (chunks k xs) ! i = xs ! i"
    by (simp add: nth_chunks nth_slice)
qed

lemma chunks_concat: "entries_wf es \<Longrightarrow> chunks (length es) (concat es) = es"
  by (rule nth_equalityI) (simp_all add: nth_chunks slice_concat_wf)

definition entries :: "blkdev \<Rightarrow> gpt_instance \<Rightarrow> bytes list" where
  "entries d gpt = chunks (length (table d gpt) div 128) (table d gpt)"

text \<open>A device whose tables have entries of the standard size and a header inside its block.\<close>

definition std :: "blkdev \<Rightarrow> bool" where
  [guard_defs]: "std d \<longleftrightarrow> tables_ok d \<and> GET_4_BYTES (hdr_bytes d PRIMARY_GPT) 84 = Some 128 \<and>
     128 dvd length (table d PRIMARY_GPT) \<and> header_size_ok d"

lemma std_len: "std d \<Longrightarrow> length (table d gpt) = 128 * length (entries d gpt)"
  by (cases gpt) (auto simp: std_def tables_ok_def entries_def length_table)

lemma std_same_len: "std d \<Longrightarrow> length (table d gpt) = length (table d g)"
  by (auto simp: std_def tables_ok_def length_table)

lemma entries_length: "std d \<Longrightarrow> length (entries d gpt) = length (entries d g)"
  using std_len [of d gpt] std_len [of d g] std_same_len [of d gpt g] by simp

lemma std_entries: "std d \<Longrightarrow> entries_wf (entries d gpt) \<and> concat (entries d gpt) = table d gpt"
  using std_len [of d gpt] chunks_wf concat_chunks by (auto simp: entries_def)

text \<open>Searching the loaded disk is searching the entries.\<close>

lemma get_pentry_loaded:
  assumes "loaded d path disk" "std d"
  shows "gpt_disk_get_pentry disk part gpt =
     Some (map_option (\<lambda>i. 128 * i) (entry_index (cstr part) (entries d gpt) 0))"
proof -
  have sz: "unat (gd_pentry_size disk) = 128"
    using assms by (auto simp: loaded_def std_def)
  obtain p q n where at: "tables_at d p q n" using assms(2) by (auto simp: std_def tables_ok_def)
  have "unat (gd_pentry_arr_size disk) = length (table d PRIMARY_GPT)"
    using assms(1) tables_at_region [OF at, of PRIMARY_GPT] length_table [OF at, of PRIMARY_GPT]
    by (auto simp: loaded_def region_def hdr_region_def bind_eq_Some_conv split: if_splits)
  then have n: "unat (gd_pentry_arr_size disk) = 128 * length (entries d gpt)"
    using std_len [OF assms(2)] entries_length [OF assms(2)] by metis
  have e: "entries_wf (entries d gpt)" "concat (entries d gpt) = table d gpt"
    using std_entries [OF assms(2)] by auto
  have arr: "(if gpt = PRIMARY_GPT then gd_pentry_arr disk else gd_pentry_arr_bak disk) = Some (table d gpt)"
    using assms(1) by (cases gpt) (auto simp: loaded_def)
  have "gd_is_initialized disk = 0xABCD" using assms(1) by (simp add: loaded_def)
  then show ?thesis
    using seek_concat [OF e(1), of "cstr part" 0] unfolding gpt_disk_get_pentry_def arr n sz e(2) by simp
qed

section \<open>Attributes of entries\<close>

text \<open>\<open>AB_FLAG_OFFSET\<close> lies before the name, so changing the attribute keeps every name.\<close>

definition mark :: "nat \<Rightarrow> u8 \<Rightarrow> bytes list \<Rightarrow> bytes list" where
  "mark i b es = es[i := (es ! i)[54 := b]]"

lemma length_mark [simp]: "length (mark i b es) = length es"
  by (simp add: mark_def)

lemma entries_wf_mark: "entries_wf es \<Longrightarrow> i < length es \<Longrightarrow> entries_wf (mark i b es)"
  by (auto simp: mark_def entries_wf_len intro!: entries_wf_update)

lemma entry_name_update: "entry_name (x[54 := b]) = entry_name x"
  by (simp add: entry_name_def pentry_name8_def cong: map_cong)

lemma entry_name_mark: "j < length es \<Longrightarrow> entry_name (mark i b es ! j) = entry_name (es ! j)"
  by (cases "i = j") (auto simp: mark_def entry_name_update nth_list_update)

lemma entry_index_mark: "entry_index nm (mark i b es) k = entry_index nm es k"
  unfolding entry_index_def
  by (rule find_cong) (auto simp: entry_name_mark)

lemma concat_mark:
  assumes "entries_wf es" "i < length es"
  shows "concat (mark i b es) = (concat es)[128 * i + 54 := b]"
proof -
  have "(concat es)[128 * i + 54 := b] = overwrite (128 * i) ((es ! i)[54 := b]) (concat es)" (is "?l = ?r")
  proof (rule nth_equalityI)
    have len: "128 * i + length ((es ! i)[54 := b]) \<le> length (concat es)"
      using assms by (simp add: length_concat_wf entries_wf_len)
    then show "length ?l = length ?r" by simp
    fix k assume "k < length ?l"
    then have k: "k < length (concat es)" by simp
    show "?l ! k = ?r ! k"
    proof (cases "128 * i \<le> k \<and> k < 128 * i + 128")
      case True
      then obtain j where "k = 128 * i + j" "j < 128" by (metis add_diff_inverse_nat less_diff_conv2 not_less add.commute)
      with k len assms show ?thesis
        by (simp add: nth_overwrite entries_wf_len nth_list_update nth_concat_wf)
    next
      case False
      with k len assms show ?thesis
        by (auto simp: nth_overwrite entries_wf_len nth_list_update)
    qed
  qed
  with assms show ?thesis by (simp add: mark_def overwrite_concat_wf entries_wf_len)
qed

lemma attr_at_concat:
  "entries_wf es \<Longrightarrow> i < length es \<Longrightarrow> attr_at (concat es) (128 * i) = Some (es ! i ! 54)"
  by (simp add: attr_at_def length_concat_wf nth_concat_wf)


section \<open>The interface of an attribute store\<close>

text \<open>Setting a bit in the attribute of every partition of a list, on any store.\<close>

fun set_bits :: "('s \<Rightarrow> 'n \<Rightarrow> u8 option) \<Rightarrow> ('n \<Rightarrow> u8 \<Rightarrow> 's \<Rightarrow> 's) \<Rightarrow> u8 \<Rightarrow> 'n list \<Rightarrow> 's \<Rightarrow> 's" where
  "set_bits attr put fl [] s = s"
| "set_bits attr put fl (n # ns) s =
     set_bits attr put fl ns (case attr s n of None \<Rightarrow> s | Some a \<Rightarrow> put n (a OR fl) s)"

text \<open>
  \<open>attr\<close> reads the attribute of a partition and \<open>put\<close> replaces it. \<open>proper\<close> names do not alias:
  a write under one of them is not seen under another.
\<close>

locale attr_store =
  fixes attr :: "'s \<Rightarrow> 'n \<Rightarrow> u8 option"
    and put :: "'n \<Rightarrow> u8 \<Rightarrow> 's \<Rightarrow> 's"
    and inv :: "'s \<Rightarrow> bool"
    and proper :: "'n \<Rightarrow> bool"
  assumes inv_put: "inv s \<Longrightarrow> inv (put n b s)"
    and attr_put_same: "inv s \<Longrightarrow> attr s n = Some a \<Longrightarrow> attr (put n b s) n = Some b"
    and attr_put_other: "inv s \<Longrightarrow> proper n \<Longrightarrow> proper m \<Longrightarrow> n \<noteq> m \<Longrightarrow> attr (put n b s) m = attr s m"
begin

lemma set_bits_inv: "inv s \<Longrightarrow> inv (set_bits attr put fl ns s)"
  by (induction ns arbitrary: s) (auto simp: inv_put split: option.splits)

lemma attr_set_bits:
  "inv s \<Longrightarrow> list_all proper ns \<Longrightarrow> proper m \<Longrightarrow>
   attr (set_bits attr put fl ns s) m = map_option (\<lambda>a. if m \<in> set ns then a OR fl else a) (attr s m)"
proof (induction ns arbitrary: s)
  case Nil
  then show ?case by (simp add: option.map_ident)
next
  case (Cons n ns)
  let ?s = "case attr s n of None \<Rightarrow> s | Some a \<Rightarrow> put n (a OR fl) s"
  have inv: "inv ?s" using Cons.prems(1) by (simp add: inv_put split: option.splits)
  have "attr ?s m = map_option (\<lambda>a. if m = n then a OR fl else a) (attr s m)"
    using Cons.prems by (cases "m = n") (auto simp: attr_put_same attr_put_other option.map_ident split: option.splits)
  with Cons.IH [OF inv] Cons.prems show ?case
    by (cases "attr s m") (auto simp: or.assoc)
qed

text \<open>Bits are only ever added.\<close>

lemma set_bits_keeps:
  assumes "inv s" "list_all proper ns" "proper m" "attr s m = Some a" "a AND c = c"
  shows "\<exists>a'. attr (set_bits attr put fl ns s) m = Some a' \<and> a' AND c = c"
proof -
  have "bit a k" if "bit c k" for k using assms(5) that by (metis bit_and_iff)
  then have "(a OR fl) AND c = c" by (intro bit_word_eqI) (auto simp: bit_simps)
  with attr_set_bits [OF assms(1-3)] assms(4,5) show ?thesis by auto
qed

end

section \<open>The tables as an attribute store\<close>

type_synonym tables = "fd \<Rightarrow> bytes list option"

definition tabs :: "world \<Rightarrow> gpt_instance \<Rightarrow> tables" where
  "tabs w gpt path = map_option (\<lambda>d. entries d gpt) (w_dev w path)"

definition tables_wf :: "tables \<Rightarrow> bool" where
  [guard_defs]: "tables_wf t \<longleftrightarrow> (\<forall>p es. t p = Some es \<longrightarrow> entries_wf es)"

definition get_attr :: "env \<Rightarrow> tables \<Rightarrow> string \<Rightarrow> u8 option" where
  "get_attr e t part = do {
     path \<leftarrow> get_dev_path_from_partition_name e part PATH_MAX;
     es \<leftarrow> t path;
     i \<leftarrow> entry_index (cstr part) es 0;
     Some (es ! i ! 54)
   }"

definition put_attr :: "env \<Rightarrow> string \<Rightarrow> u8 \<Rightarrow> tables \<Rightarrow> tables" where
  "put_attr e part b t =
     (case get_dev_path_from_partition_name e part PATH_MAX of None \<Rightarrow> t
      | Some path \<Rightarrow> (case t path of None \<Rightarrow> t
         | Some es \<Rightarrow> (case entry_index (cstr part) es 0 of None \<Rightarrow> t
            | Some i \<Rightarrow> t(path \<mapsto> mark i b es))))"

definition slot_name :: "string \<Rightarrow> bool" where
  [guard_defs]: "slot_name n \<longleftrightarrow> \<not> ends_bak (cstr n)"

lemma of_char_u8_inj: "(of_char c :: u8) = of_char d \<Longrightarrow> c = d"
proof -
  assume "(of_char c :: u8) = of_char d"
  then have "(of_nat (of_char c) :: u8) = of_nat (of_char d)" by (simp add: of_nat_of_char)
  then have "(of_char c :: nat) mod 256 = of_char d mod 256" by (simp add: word_of_nat_eq_iff take_bit_eq_mod)
  then show "c = d" by (simp only: of_char_mod_256 of_char_eq_iff)
qed

lemma cstr_inj: "cstr a = cstr b \<Longrightarrow> a = b"
  unfolding cstr_def by (rule map_injective) (auto intro: injI of_char_u8_inj)

interpretation gpt: attr_store "get_attr e" "put_attr e" tables_wf slot_name
proof
  fix s n b assume inv: "tables_wf s"
  show "tables_wf (put_attr e n b s)"
    using inv by (auto simp: tables_wf_def put_attr_def split: option.splits
        intro!: entries_wf_mark dest!: entry_index_SomeD)
next
  fix s n a b assume inv: "tables_wf s" and a: "get_attr e s n = Some a"
  then obtain path es i where p: "get_dev_path_from_partition_name e n PATH_MAX = Some path" "s path = Some es"
    "entry_index (cstr n) es 0 = Some i" by (auto simp: get_attr_def bind_eq_Some_conv)
  moreover have "i < length es" "length (es ! i) = 128"
    using inv p entry_index_SomeD [OF p(3)] by (auto simp: tables_wf_def entries_wf_len)
  ultimately show "get_attr e (put_attr e n b s) n = Some b"
    by (simp add: get_attr_def put_attr_def entry_index_mark) (simp add: mark_def)
next
  fix s n m b assume inv: "tables_wf s" and nm: "slot_name n" "slot_name m" "n \<noteq> m"
  show "get_attr e (put_attr e n b s) m = get_attr e s m"
  proof (cases "put_attr e n b s = s")
    case False
    then obtain path es i where p: "get_dev_path_from_partition_name e n PATH_MAX = Some path" "s path = Some es"
      "entry_index (cstr n) es 0 = Some i" by (auto simp: put_attr_def split: option.splits)
    have c: "compat (cstr n) (cstr m)" using nm cstr_inj by (auto simp: slot_name_def intro!: compatI)
    have "mark i b es ! j = es ! j" if "entry_index (cstr m) es 0 = Some j" for j
      using c entry_index_SomeD [OF p(3)] entry_index_SomeD [OF that] by (auto simp: mark_def compat_def nth_list_update)
    with p show ?thesis
      by (cases "get_dev_path_from_partition_name e m PATH_MAX"; cases "entry_index (cstr m) es 0")
         (auto simp: get_attr_def put_attr_def entry_index_mark)
  qed simp
qed


section \<open>Writing tables back\<close>

text \<open>
  One copy is valid: right signature, right header checksum, and the header carries the checksum
  of the entries. A sound device has two valid copies with one header size.
\<close>

definition copy_valid :: "env \<Rightarrow> blkdev \<Rightarrow> gpt_instance \<Rightarrow> bool" where
  "copy_valid e d gpt \<longleftrightarrow> take 9 (hdr_bytes d gpt) = GPT_SIGNATURE \<and>
     (\<exists>n. pentries_arr_size (hdr_bytes d gpt) = Some n \<and> sealed e n (hdr_bytes d gpt) (table d gpt))"

definition sound :: "env \<Rightarrow> blkdev \<Rightarrow> bool" where
  [guard_defs]: "sound e d \<longleftrightarrow> (\<forall>gpt. copy_valid e d gpt) \<and>
     GET_4_BYTES (hdr_bytes d SECONDARY_GPT) 12 = GET_4_BYTES (hdr_bytes d PRIMARY_GPT) 12"

lemma copy_valid_cong: "copy d' gpt = copy d gpt \<Longrightarrow> copy_valid e d' gpt = copy_valid e d gpt"
  by (simp add: copy_valid_def copy_def)

lemma copy_valid_hstate: "copy_valid e d gpt \<Longrightarrow> hstate e d gpt = Some GPT_OK"
  by (auto simp: copy_valid_def sealed_def hstate_def sig_state_def)

lemma region_size:
  "hdr_region h bs = Some (p, n) \<Longrightarrow> \<exists>sz. pentries_arr_size h = Some sz \<and> unat sz = n"
  by (auto simp: hdr_region_def bind_eq_Some_conv split: if_splits)

lemma arr_size_same:
  assumes "hdr_region h bs = Some (p, n)" "hdr_region h' bs' = Some (p', n)"
  shows "pentries_arr_size h = pentries_arr_size h'"
  using region_size [OF assms(1)] region_size [OF assms(2)] by (auto simp: word_unat_eq_iff)

text \<open>The effect of refreshing the checksums of a loaded disk whose entries were replaced.\<close>

definition rewritten :: "gpt_disk \<Rightarrow> bytes list \<Rightarrow> bytes list \<Rightarrow> gpt_disk" where
  "rewritten disk es es_bak = disk\<lparr>gd_pentry_arr := Some (concat es), gd_pentry_arr_bak := Some (concat es_bak)\<rparr>"

text \<open>A disk in memory with new entries and headers that fit the device it was loaded from.\<close>

definition ready :: "env \<Rightarrow> blkdev \<Rightarrow> string \<Rightarrow> bytes list \<Rightarrow> bytes list \<Rightarrow> gpt_disk \<Rightarrow> bool" where
  "ready e d path es es_bak disk \<longleftrightarrow> fits_disk d disk \<and> gd_devpath disk = path \<and>
     (\<exists>h hb. holds disk PRIMARY_GPT h (concat es) \<and> holds disk SECONDARY_GPT hb (concat es_bak) \<and>
        GET_4_BYTES h 84 = Some 128 \<and> GET_4_BYTES h 12 = GET_4_BYTES (hdr_bytes d PRIMARY_GPT) 12 \<and>
        GET_4_BYTES hb 12 = GET_4_BYTES (hdr_bytes d SECONDARY_GPT) 12 \<and>
        (sound e d \<longrightarrow> take 9 h = GPT_SIGNATURE \<and> take 9 hb = GPT_SIGNATURE \<and>
           (\<exists>n. pentries_arr_size h = Some n \<and> sealed e n h (concat es)) \<and>
           (\<exists>n. pentries_arr_size hb = Some n \<and> sealed e n hb (concat es_bak))))"

lemma update_crc_ready:
  assumes l: "loaded d path disk" "std d"
    and es: "entries_wf es" "entries_wf es_bak" "length es = length (entries d PRIMARY_GPT)"
      "length es_bak = length (entries d SECONDARY_GPT)"
    and u: "gpt_disk_update_crc e (rewritten disk es es_bak) = Some (r, disk')"
  shows "r = 0 \<and> ready e d path es es_bak disk'"
proof -
  let ?h = "hdr_bytes d PRIMARY_GPT" and ?hb = "hdr_bytes d SECONDARY_GPT"
  obtain p q n where at: "tables_at d p q n" using l(2) by (auto simp: std_def tables_ok_def)
  have "92 \<le> length (hdr_bytes d gpt)" for gpt using tables_at_geom [OF at] by (simp add: geom_def)
  note l92 = this [of PRIMARY_GPT] this [of SECONDARY_GPT]
  have pre: "gd_is_initialized (rewritten disk es es_bak) = 0xABCD"
    "holds (rewritten disk es es_bak) PRIMARY_GPT ?h (concat es)"
    "holds (rewritten disk es es_bak) SECONDARY_GPT ?hb (concat es_bak)"
    using l(1) by (auto simp: rewritten_def loaded_def)
  from wpD [OF update_crc_wp [OF pre(1,2) l92(1) pre(3) l92(2)] u] obtain h hb where r: "r = 0" and
    H: "holds disk' PRIMARY_GPT h (concat es)" "holds disk' SECONDARY_GPT hb (concat es_bak)"
      "length h = length ?h" "length hb = length ?hb" "take 9 h = take 9 ?h" "take 9 hb = take 9 ?hb"
      "GET_4_BYTES h 12 = GET_4_BYTES ?h 12" "GET_4_BYTES hb 12 = GET_4_BYTES ?hb 12" "GET_4_BYTES h 84 = GET_4_BYTES ?h 84"
      "hdr_region h (bd_blksz d) = region d PRIMARY_GPT" "hdr_region hb (bd_blksz d) = region d SECONDARY_GPT"
      "sealed e (gd_pentry_arr_size disk) h (concat es)"
      "GET_4_BYTES ?hb 12 = GET_4_BYTES ?h 12 \<longrightarrow> sealed e (gd_pentry_arr_size disk) hb (concat es_bak)"
      "gd_is_initialized disk' = 0xABCD" "gd_devpath disk' = gd_devpath disk"
    by (auto simp: rewritten_def region_def)
  have sz: "pentries_arr_size h = Some (gd_pentry_arr_size disk)" "pentries_arr_size hb = Some (gd_pentry_arr_size disk)"
    using l(1) arr_size_same [of h "bd_blksz d" p n ?h "bd_blksz d" p] arr_size_same [of hb "bd_blksz d" q n ?h "bd_blksz d" p]
      H(10,11) tables_at_region [OF at, of PRIMARY_GPT] tables_at_region [OF at, of SECONDARY_GPT]
    by (auto simp: loaded_def region_def)
  have len: "length (concat es) = length (table d PRIMARY_GPT)" "length (concat es_bak) = length (table d SECONDARY_GPT)"
    using es std_len [OF l(2)] by (simp_all add: length_concat_wf)
  have "\<exists>h a. holds disk' gpt h a \<and> fits_copy d gpt h a" for gpt
    using H len tables_at_geom [OF at] by (cases gpt) (auto simp: fits_copy_def)
  then have "fits_disk d disk'" using H(14) by (simp add: fits_disk_def)
  moreover have "GET_4_BYTES h 84 = Some 128" using H(9) l(2) by (simp add: std_def)
  moreover have "take 9 ?h = GPT_SIGNATURE \<and> take 9 ?hb = GPT_SIGNATURE \<and> GET_4_BYTES ?hb 12 = GET_4_BYTES ?h 12"
    if "sound e d" using that by (auto simp: sound_def copy_valid_def)
  ultimately show ?thesis
    unfolding ready_def using r H sz l(1)
    by (intro conjI exI [of _ h] exI [of _ hb]) (auto simp: loaded_def)
qed


lemma entries_of_table:
  assumes "entries_wf es" "table d gpt = concat es" shows "entries d gpt = es"
  using chunks_concat [OF assms(1)] assms by (simp add: entries_def length_concat_wf)

text \<open>The device after a commit: laid out as before, and with a valid copy whatever failed.\<close>

definition stored :: "env \<Rightarrow> blkdev \<Rightarrow> bytes list \<Rightarrow> bytes list \<Rightarrow> int \<Rightarrow> blkdev \<Rightarrow> bool" where
  "stored e d es es_bak r d' \<longleftrightarrow> std d' \<and> bd_blksz d' = bd_blksz d \<and> (\<forall>g. region d' g = region d g) \<and>
     (r = 0 \<longrightarrow> entries d' PRIMARY_GPT = es \<and> entries d' SECONDARY_GPT = es_bak \<and> (sound e d \<longrightarrow> sound e d')) \<and>
     (sound e d \<longrightarrow> (\<exists>gpt. copy_valid e d' gpt))"

lemma commit_ready_wp:
  assumes d: "w_dev w path = Some d" "std d" and rdy: "ready e d path es es_bak disk"
    and es: "entries_wf es" "entries_wf es_bak"
  shows "wp (gpt_disk_commit e disk w) (\<lambda>(r, w'). r \<in> {0, -1} \<and>
     (\<exists>d'. w_dev w' = (w_dev w)(path \<mapsto> d') \<and> stored e d es es_bak r d'))"
proof (rule wpI)
  fix x assume x: "gpt_disk_commit e disk w = Some x"
  from rdy obtain h hb where fit: "fits_disk d disk" and path: "gd_devpath disk = path" and
    H: "holds disk PRIMARY_GPT h (concat es)" "holds disk SECONDARY_GPT hb (concat es_bak)" "GET_4_BYTES h 84 = Some 128"
      "GET_4_BYTES h 12 = GET_4_BYTES (hdr_bytes d PRIMARY_GPT) 12"
      "GET_4_BYTES hb 12 = GET_4_BYTES (hdr_bytes d SECONDARY_GPT) 12" and
    S: "sound e d \<Longrightarrow> take 9 h = GPT_SIGNATURE \<and> take 9 hb = GPT_SIGNATURE \<and>
           (\<exists>n. pentries_arr_size h = Some n \<and> sealed e n h (concat es)) \<and>
           (\<exists>n. pentries_arr_size hb = Some n \<and> sealed e n hb (concat es_bak))"
    unfolding ready_def by blast
  have ok: "tables_ok d" using d(2) by (simp add: std_def)
  from wpD [OF commit_wp [of w disk d, OF _ ok fit] x] d(1) path obtain r w' d' where
    x': "x = (r, w')" "r \<in> {0, -1}" "w_dev w' = (w_dev w)(path \<mapsto> d')" and
    d': "tables_ok d'" "bd_blksz d' = bd_blksz d" "\<forall>g. region d' g = region d g"
      "\<forall>g. hdr_bytes d' g = hdr_bytes d g \<or> (\<exists>a. holds disk g (hdr_bytes d' g) a)" "committed r disk d d'"
    by (cases x) auto
  from d'(4) H(1,3) d(2) have psz: "GET_4_BYTES (hdr_bytes d' PRIMARY_GPT) 84 = Some 128"
    by (auto simp: std_def dest: spec [of _ PRIMARY_GPT])
  from d'(4) H(1,4) have "GET_4_BYTES (hdr_bytes d' PRIMARY_GPT) 12 = GET_4_BYTES (hdr_bytes d PRIMARY_GPT) 12"
    by (auto dest: spec [of _ PRIMARY_GPT])
  then have hsz: "header_size_ok d'" using d(2) d'(2) by (simp add: std_def header_size_ok_def)
  obtain p q n where at: "tables_at d p q n" using ok by (auto simp: tables_ok_def)
  obtain p' q' n' where at': "tables_at d' p' q' n'" using d'(1) by (auto simp: tables_ok_def)
  have "n' = n" using tables_at_region [OF at, of PRIMARY_GPT] tables_at_region [OF at', of PRIMARY_GPT] d'(3) by simp
  then have std': "std d'" using d(2) d'(1) psz hsz by (simp add: std_def length_table [OF at] length_table [OF at'])
  have P: "copy d' PRIMARY_GPT = (h, concat es)" if "case_prod (holds disk PRIMARY_GPT) (copy d' PRIMARY_GPT)"
    using that H(1) by (cases "copy d' PRIMARY_GPT") auto
  have B: "copy d' SECONDARY_GPT = (hb, concat es_bak)" if "case_prod (holds disk SECONDARY_GPT) (copy d' SECONDARY_GPT)"
    using that H(2) by (cases "copy d' SECONDARY_GPT") auto
  have vP: "copy_valid e d' PRIMARY_GPT" if "sound e d" "copy d' PRIMARY_GPT = (h, concat es)"
    using S [OF that(1)] that(2) by (simp add: copy_valid_def copy_def)
  have vB: "copy_valid e d' SECONDARY_GPT" if "sound e d" "copy d' SECONDARY_GPT = (hb, concat es_bak)"
    using S [OF that(1)] that(2) by (simp add: copy_valid_def copy_def)
  have all: "copy d' PRIMARY_GPT = (h, concat es)" "copy d' SECONDARY_GPT = (hb, concat es_bak)" if "r = 0"
    using d'(5) that P B by (auto simp: committed_def)
  have snd: "sound e d'" if "sound e d" "r = 0"
  proof -
    have "copy_valid e d' gpt" for gpt using all [OF that(2)] vP [OF that(1)] vB [OF that(1)] by (cases gpt) auto
    moreover have "GET_4_BYTES (hdr_bytes d' SECONDARY_GPT) 12 = GET_4_BYTES (hdr_bytes d' PRIMARY_GPT) 12"
      using all [OF that(2)] H(4,5) that(1) by (simp add: copy_def sound_def)
    ultimately show ?thesis by (simp add: sound_def)
  qed
  have one: "\<exists>gpt. copy_valid e d' gpt" if "sound e d"
  proof (cases "r = 0")
    case True
    with snd [OF that] show ?thesis by (auto simp: sound_def)
  next
    case False
    then have "copy d' SECONDARY_GPT = copy d SECONDARY_GPT \<or> copy d' PRIMARY_GPT = (h, concat es)"
      using d'(5) P by (auto simp: committed_def)
    with vP [OF that] that show ?thesis by (auto simp: sound_def dest: copy_valid_cong [of d'])
  qed
  have "stored e d es es_bak r d'"
    using std' d'(2,3) all snd one es entries_of_table by (auto simp: stored_def copy_def)
  with x' show "case x of (r, w') \<Rightarrow> r \<in> {0, -1} \<and> (\<exists>d'. w_dev w' = (w_dev w)(path \<mapsto> d') \<and> stored e d es es_bak r d')"
    by auto
qed


section \<open>Reading and updating one attribute\<close>

text \<open>Loading a disk changes no device, and needs a name that resolves to one.\<close>

lemma block_size_dev: "gpt_get_block_size e fd w = (b, w') \<Longrightarrow> w_dev w' = w_dev w"
  by (auto simp: gpt_get_block_size_def split: prod.splits dest!: sys_blkszD)

lemma malloc_dev: "malloc e n w = (x, w') \<Longrightarrow> w_dev w' = w_dev w"
  using mallocD by blast

lemma get_header_frame:
  assumes "gpt_get_header e part gpt w = Some (h, w')"
  shows "w_dev w' = w_dev w \<and> (h \<noteq> None \<longrightarrow>
     (\<exists>path. get_dev_path_from_partition_name e part PATH_MAX = Some path \<and> w_dev w path \<noteq> None))"
proof -
  have "wp (gpt_get_header e part gpt w) (\<lambda>(h, w'). w_dev w' = w_dev w \<and> (h \<noteq> None \<longrightarrow>
     (\<exists>path. get_dev_path_from_partition_name e part PATH_MAX = Some path \<and> w_dev w path \<noteq> None)))"
    unfolding gpt_get_header_def wp_rules
  proof (intro allI impI conjI, goal_cases)
    case (6 path a w1 fd b w2 buf w3 off w4 y x r aa h w')
    note sys_openD [OF 6(2)] block_size_dev [OF 6(4)] malloc_dev [OF 6(6)] header_offset_dev [OF 6(7)]
    with 6 blk_read_dev show ?case by simp
  next
    case (5 path a w1 fd b w2 buf w3 off w4 x r aa h w')
    note sys_openD [OF 5(2)] block_size_dev [OF 5(4)] malloc_dev [OF 5(6)] header_offset_dev [OF 5(7)]
    with 5 blk_read_dev show ?case by simp
  next
    case (4 path a w1 fd b w2 buf w3 off w4)
    note sys_openD [OF 4(2)] block_size_dev [OF 4(4)] malloc_dev [OF 4(6)] header_offset_dev [OF 4(7)]
    with 4 show ?case by simp
  next
    case (3 path a w1 fd b w2)
    with sys_openD [OF 3(2)] block_size_dev [OF 3(4)] show ?case by simp
  next
    case (2 path a w1)
    with sys_openD [OF 2(2)] show ?case by simp
  qed simp
  from wpD [OF this assms] show ?thesis by simp
qed

lemma load_headers_frame:
  "load_headers e part disk w = Some (r, disk', w') \<Longrightarrow> w_dev w' = w_dev w \<and> (r = 0 \<longrightarrow>
     (\<exists>path. get_dev_path_from_partition_name e part PATH_MAX = Some path \<and> w_dev w path \<noteq> None))"
  by (auto simp: load_headers_def bind_eq_Some_conv Let_def split: option.splits dest!: get_header_frame)

lemma get_pentry_arr_dev: "gpt_get_pentry_arr e h fd w = Some (a, w') \<Longrightarrow> w_dev w' = w_dev w"
proof -
  have "wp (gpt_get_pentry_arr e h fd w) (\<lambda>(a, w'). w_dev w' = w_dev w)"
    unfolding gpt_get_pentry_arr_def wp_rules
    by (intro allI impI conjI) (auto dest!: block_size_dev calloc_dev blk_read_dev)
  then show "gpt_get_pentry_arr e h fd w = Some (a, w') \<Longrightarrow> w_dev w' = w_dev w" by (auto dest: wpD)
qed

lemma load_arrays_dev: "load_arrays e fd disk w = Some (r, disk', w') \<Longrightarrow> w_dev w' = w_dev w"
proof -
  have "wp (load_arrays e fd disk w) (\<lambda>(r, disk', w'). w_dev w' = w_dev w)"
    unfolding load_arrays_def wp_rules Let_def
    by (intro allI impI conjI) (auto dest!: block_size_dev get_pentry_arr_dev)
  then show "load_arrays e fd disk w = Some (r, disk', w') \<Longrightarrow> w_dev w' = w_dev w" by (auto dest: wpD)
qed

lemma get_disk_info_frame:
  assumes "gpt_disk_get_disk_info e part disk w = Some (r, disk', w')"
  shows "w_dev w' = w_dev w" "r = 0 \<Longrightarrow>
     \<exists>path d. get_dev_path_from_partition_name e part PATH_MAX = Some path \<and> w_dev w path = Some d"
proof -
  from assms obtain r1 disk1 w1 where 1: "load_headers e part disk w = Some (r1, disk1, w1)"
    by (auto simp: gpt_disk_get_disk_info_def bind_eq_Some_conv)
  note f = load_headers_frame [OF 1]
  have "wp (gpt_disk_get_disk_info e part disk w) (\<lambda>(r, disk', w'). w_dev w' = w_dev w)"
    unfolding gpt_disk_get_disk_info_def wp_rules 1
  proof (intro allI impI conjI, goal_cases)
    case (3 x r2 y disk2 w2 path a w3)
    with f sys_openD [OF 3(6)] show ?case by simp
  next
    case (4 x r2 y disk2 w2 path a w3 fd)
    with f sys_openD [OF 4(6)] show ?case by (auto intro!: wpI dest!: load_arrays_dev)
  qed (use f in simp_all)
  from wpD [OF this assms] show "w_dev w' = w_dev w" by simp
  assume "r = 0"
  then have "r1 = 0" using assms 1 by (auto simp: gpt_disk_get_disk_info_def split: if_splits)
  with f show "\<exists>path d. get_dev_path_from_partition_name e part PATH_MAX = Some path \<and> w_dev w path = Some d"
    by auto
qed

definition world_ok :: "world \<Rightarrow> bool" where
  [guard_defs]: "world_ok w \<longleftrightarrow> (\<forall>p d. w_dev w p = Some d \<longrightarrow> std d)"

lemma disk_alloc_dev: "gpt_disk_alloc e w = (x, w') \<Longrightarrow> w_dev w' = w_dev w"
  by (auto simp: gpt_disk_alloc_def sys_def split: if_splits)

text \<open>A successful load, in one step: where it read and what it holds.\<close>

lemma get_disk_info_ok:
  assumes "gpt_disk_get_disk_info e part disk w = Some (0, disk', w')" "world_ok w"
  obtains path d where "get_dev_path_from_partition_name e part PATH_MAX = Some path" "w_dev w path = Some d"
    "std d" "loaded d path disk'" "w_dev w' = w_dev w"
proof -
  from get_disk_info_frame [OF assms(1)] obtain path d where
    p: "get_dev_path_from_partition_name e part PATH_MAX = Some path" "w_dev w path = Some d" "w_dev w' = w_dev w"
    by auto
  moreover have "std d" using p assms(2) by (auto simp: world_ok_def)
  moreover have "loaded d path disk'"
    using wpD [OF get_disk_info_wp [OF p(1,2)] assms(1)] \<open>std d\<close> by (simp add: std_def)
  ultimately show thesis using that by blast
qed

text \<open>Reading an attribute: -1, or the bit of the first matching entry of the primary table.\<close>

lemma get_attribute_wp:
  assumes "world_ok w"
  shows "wp (get_partition_attribute e part a w) (\<lambda>(r, w'). w_dev w' = w_dev w \<and>
     (r = -1 \<or> (\<exists>b. get_attr e (tabs w PRIMARY_GPT) part = Some b \<and>
        r = (if b AND attr_bit a \<noteq> 0 then 1 else 0))))"
  unfolding get_partition_attribute_def wp_rules
proof (intro allI impI conjI, goal_cases)
  case (1 x w1)
  then show ?case using disk_alloc_dev by auto
next
  case (2 x w1 disk y r z disk' w2)
  then show ?case using disk_alloc_dev [OF 2(1)] get_disk_info_frame(1) [of e part disk w1 r disk' w2] by auto
next
  case (3 x w1 disk y r z disk' w2 pe)
  then show ?case using disk_alloc_dev [OF 3(1)] get_disk_info_frame(1) [of e part disk w1 r disk' w2] by auto
next
  case (4 x w1 disk y r z disk' w2 pe pentry arr attr)
  have w1: "w_dev w1 = w_dev w" "world_ok w1" using disk_alloc_dev [OF 4(1)] assms by (auto simp: world_ok_def)
  have "gpt_disk_get_disk_info e part disk w1 = Some (0, disk', w2)" using 4 by simp
  from get_disk_info_ok [OF this w1(2)] obtain path d where
    p: "get_dev_path_from_partition_name e part PATH_MAX = Some path" "w_dev w1 path = Some d" "std d"
      "loaded d path disk'" "w_dev w2 = w_dev w1" .
  have e: "entries_wf (entries d PRIMARY_GPT)" "concat (entries d PRIMARY_GPT) = table d PRIMARY_GPT"
    using std_entries [OF p(3)] by auto
  obtain i where i: "entry_index (cstr part) (entries d PRIMARY_GPT) 0 = Some i" "pentry = 128 * i"
    using 4 get_pentry_loaded [OF p(4,3), of part PRIMARY_GPT] by auto
  have arr: "arr = concat (entries d PRIMARY_GPT)" using 4 p(4) e(2) by (simp add: loaded_def)
  have "attr = entries d PRIMARY_GPT ! i ! 54"
    using 4 attr_at_concat [OF e(1), of i] entry_index_SomeD [OF i(1)] unfolding i(2) arr by auto
  then have "get_attr e (tabs w PRIMARY_GPT) part = Some attr"
    using p i w1 by (simp add: get_attr_def tabs_def)
  then show ?case using p(5) w1(1) by simp
qed


definition all_sound :: "env \<Rightarrow> world \<Rightarrow> bool" where
  [guard_defs]: "all_sound e w \<longleftrightarrow> (\<forall>p d. w_dev w p = Some d \<longrightarrow> sound e d)"

text \<open>Every device still has a copy of its table that the boot loader accepts.\<close>

definition all_valid :: "env \<Rightarrow> world \<Rightarrow> bool" where
  [guard_defs]: "all_valid e w \<longleftrightarrow> (\<forall>p d. w_dev w p = Some d \<longrightarrow> (\<exists>gpt. copy_valid e d gpt))"

lemma all_sound_valid: "all_sound e w \<Longrightarrow> all_valid e w"
  by (auto simp: all_sound_def all_valid_def sound_def)

definition safe_after :: "env \<Rightarrow> world \<Rightarrow> int \<Rightarrow> world \<Rightarrow> bool" where
  "safe_after e w r w' \<longleftrightarrow> world_ok w' \<and> (all_sound e w \<longrightarrow> all_valid e w' \<and> (r = 0 \<longrightarrow> all_sound e w'))"

lemma safe_after_same: "world_ok w \<Longrightarrow> w_dev w' = w_dev w \<Longrightarrow> safe_after e w r w'"
  using all_sound_valid [of e w] by (auto simp: safe_after_def world_ok_def all_sound_def all_valid_def)

lemma safe_after_stored:
  assumes "world_ok w" "w_dev w path = Some d" "w_dev w' = (w_dev w)(path \<mapsto> d')" "stored e d es eb r d'"
  shows "safe_after e w r w'"
  using assms
  by (auto simp: safe_after_def world_ok_def all_sound_def all_valid_def stored_def sound_def split: if_splits)

text \<open>The new attribute byte of the backup copy.\<close>

definition bak_attr :: "part_attr_type \<Rightarrow> u8 \<Rightarrow> u8 \<Rightarrow> u8" where
  "bak_attr a attr attr_bak = (if a = ATTR_SLOT_ACTIVE then attr OR attr_bit a else attr_bak) OR attr_bit a"

lemma tabs_stored:
  assumes "get_dev_path_from_partition_name e part PATH_MAX = Some path" "w_dev w path = Some d"
    "w_dev w' = (w_dev w)(path \<mapsto> d')" "entry_index (cstr part) (entries d gpt) 0 = Some i"
    "entries d' gpt = mark i b (entries d gpt)"
  shows "tabs w' gpt = put_attr e part b (tabs w gpt)"
  using assms by (auto simp: tabs_def put_attr_def fun_eq_iff)

lemma set_attr_rewritten:
  assumes l: "loaded d path disk" "std d" and s: "set_attr a (128 * i) (128 * j) disk = Some disk'"
    and i: "i < length (entries d PRIMARY_GPT)" "j < length (entries d SECONDARY_GPT)"
  shows "disk' = rewritten disk (mark i (entries d PRIMARY_GPT ! i ! 54 OR attr_bit a) (entries d PRIMARY_GPT))
     (mark j (bak_attr a (entries d PRIMARY_GPT ! i ! 54) (entries d SECONDARY_GPT ! j ! 54)) (entries d SECONDARY_GPT))"
proof -
  note eP = std_entries [OF l(2), of PRIMARY_GPT] and eS = std_entries [OF l(2), of SECONDARY_GPT]
  have arr: "gd_pentry_arr disk = Some (concat (entries d PRIMARY_GPT))"
    "gd_pentry_arr_bak disk = Some (concat (entries d SECONDARY_GPT))"
    using l(1) eP eS by (simp_all add: loaded_def)
  have wf: "entries_wf (entries d PRIMARY_GPT)" "entries_wf (entries d SECONDARY_GPT)" using eP eS by auto
  show ?thesis
    using s wf attr_at_concat [OF wf(1) i(1)] attr_at_concat [OF wf(2) i(2)] i
    by (simp add: set_attr_def arr rewritten_def concat_mark bak_attr_def Let_def)
qed

lemma attr_committed:
  assumes ok: "world_ok w"
    and p: "get_dev_path_from_partition_name e part PATH_MAX = Some path" "w_dev w path = Some d"
      "loaded d path disk1" "w_dev w2 = w_dev w"
    and pe: "gpt_disk_get_pentry disk1 part PRIMARY_GPT = Some (Some pe)"
      "gpt_disk_get_pentry disk1 part SECONDARY_GPT = Some (Some pb)"
    and run: "set_attr a pe pb disk1 = Some disk2" "gpt_disk_update_crc e disk2 = Some (r, disk3)"
      "gpt_disk_commit e disk3 w2 = Some (r2, w3)"
  shows "r2 \<in> {0, -1} \<and> safe_after e w r2 w3 \<and>
     (r2 = 0 \<longrightarrow> (\<exists>x y. get_attr e (tabs w PRIMARY_GPT) part = Some x \<and> get_attr e (tabs w SECONDARY_GPT) part = Some y \<and>
        tabs w3 PRIMARY_GPT = put_attr e part (x OR attr_bit a) (tabs w PRIMARY_GPT) \<and>
        tabs w3 SECONDARY_GPT = put_attr e part (bak_attr a x y) (tabs w SECONDARY_GPT)))"
proof -
  let ?P = "entries d PRIMARY_GPT" and ?S = "entries d SECONDARY_GPT"
  have std: "std d" using ok p(2) by (simp add: world_ok_def)
  note seek = get_pentry_loaded [OF p(3) std, of part]
  obtain i j where ij: "entry_index (cstr part) ?P 0 = Some i" "entry_index (cstr part) ?S 0 = Some j"
    "pe = 128 * i" "pb = 128 * j" using pe seek by auto
  define x where "x = ?P ! i ! 54"
  define y where "y = ?S ! j ! 54"
  let ?P' = "mark i (x OR attr_bit a) ?P" and ?S' = "mark j (bak_attr a x y) ?S"
  have lt: "i < length ?P" "j < length ?S" using entry_index_SomeD ij(1,2) by blast+
  have wf: "entries_wf ?P'" "entries_wf ?S'" using entries_wf_mark lt std_entries [OF std] by blast+
  have "disk2 = rewritten disk1 ?P' ?S'"
    using set_attr_rewritten [OF p(3) std _ lt] run(1) ij(3,4) by (simp add: x_def y_def)
  then have u: "gpt_disk_update_crc e (rewritten disk1 ?P' ?S') = Some (r, disk3)" using run(2) by simp
  have rdy: "ready e d path ?P' ?S' disk3" using update_crc_ready [OF p(3) std wf _ _ u] by simp
  have "w_dev w2 path = Some d" using p by simp
  from wpD [OF commit_ready_wp [OF this std rdy wf] run(3)] obtain d' where
    d': "r2 \<in> {0, -1}" "w_dev w3 = (w_dev w)(path \<mapsto> d')" "stored e d ?P' ?S' r2 d'"
    using p(4) by auto
  have "tabs w3 PRIMARY_GPT = put_attr e part (x OR attr_bit a) (tabs w PRIMARY_GPT)"
    "tabs w3 SECONDARY_GPT = put_attr e part (bak_attr a x y) (tabs w SECONDARY_GPT)" if "r2 = 0"
    using tabs_stored [OF p(1,2) d'(2)] ij(1,2) d'(3) that by (auto simp: stored_def)
  moreover have "get_attr e (tabs w PRIMARY_GPT) part = Some x" "get_attr e (tabs w SECONDARY_GPT) part = Some y"
    using p(1,2) ij(1,2) by (auto simp: get_attr_def tabs_def x_def y_def)
  moreover have "safe_after e w r2 w3" using safe_after_stored [OF ok p(2) d'(2,3)] .
  ultimately show ?thesis using d'(1) by blast
qed

lemma update_attr_wp:
  assumes ok: "world_ok w"
  shows "wp (update_attr e part a w) (\<lambda>(r, w'). r \<in> {0, -1} \<and> safe_after e w r w' \<and>
     (r = 0 \<longrightarrow> (\<exists>x y. get_attr e (tabs w PRIMARY_GPT) part = Some x \<and> get_attr e (tabs w SECONDARY_GPT) part = Some y \<and>
        tabs w' PRIMARY_GPT = put_attr e part (x OR attr_bit a) (tabs w PRIMARY_GPT) \<and>
        tabs w' SECONDARY_GPT = put_attr e part (bak_attr a x y) (tabs w SECONDARY_GPT))))"
proof -
  have A: "w_dev w1 = w_dev w \<and> world_ok w1" if "gpt_disk_alloc e w = (x, w1)" for x w1
    using disk_alloc_dev [OF that] ok by (simp add: world_ok_def)
  have I: "w_dev w2 = w_dev w" if "gpt_disk_alloc e w = (x, w1)" "gpt_disk_get_disk_info e part disk w1 = Some (r, disk', w2)"
    for x w1 disk r disk' w2 using A [OF that(1)] get_disk_info_frame(1) [OF that(2)] by simp
  show ?thesis
    unfolding update_attr_def wp_rules
  proof (intro allI impI conjI, goal_cases)
    case (1 x w1)
    then show ?case using A by (auto intro: safe_after_same ok)
  next
    case (2 x w1 disk y r z disk' w2)
    then show ?case using I by (auto intro: safe_after_same ok)
  next
    case (3 x w1 disk y r z disk' w2)
    then show ?case using I by (auto intro: safe_after_same ok)
  next
    case (4 x w1 disk y r z disk' w2)
    then show ?case using I by (auto intro: safe_after_same ok)
  next
    case (5 x w1 disk y r z disk' w2)
    then show ?case using I by (auto intro: safe_after_same ok)
  next
    case (6 x w1 disk y r z disk1 w2 pe pb pe' pb' pe0 pb0 disk2 t r2 disk3 u r3 w3)
    have A1: "w_dev w1 = w_dev w" "world_ok w1" using A [of x w1] 6 by auto
    have "gpt_disk_get_disk_info e part disk w1 = Some (0, disk1, w2)" using 6 by simp
    from get_disk_info_ok [OF this A1(2)] obtain path d where
      "get_dev_path_from_partition_name e part PATH_MAX = Some path" "w_dev w1 path = Some d" "std d"
        "loaded d path disk1" "w_dev w2 = w_dev w1" .
    with A1(1) have p: "get_dev_path_from_partition_name e part PATH_MAX = Some path" "w_dev w path = Some d"
        "loaded d path disk1" "w_dev w2 = w_dev w" by simp_all
    have "r3 \<in> {0, -1} \<and> safe_after e w r3 w3 \<and>
     (r3 = 0 \<longrightarrow> (\<exists>x y. get_attr e (tabs w PRIMARY_GPT) part = Some x \<and> get_attr e (tabs w SECONDARY_GPT) part = Some y \<and>
        tabs w3 PRIMARY_GPT = put_attr e part (x OR attr_bit a) (tabs w PRIMARY_GPT) \<and>
        tabs w3 SECONDARY_GPT = put_attr e part (bak_attr a x y) (tabs w SECONDARY_GPT)))"
      by (rule attr_committed [OF ok p, of pe0 pb0 a disk2 r2 disk3]) (use 6 in auto)
    then show ?case by auto
  qed
qed


section \<open>Updating all partitions of a slot\<close>

definition slot_parts :: "env \<Rightarrow> string \<Rightarrow> string list \<Rightarrow> string list" where
  "slot_parts e slot ptns = map (\<lambda>p. take 71 (p @ slot)) (filter (ab_ptn_exists e) ptns)"

abbreviation (input) set_slot_bits :: "env \<Rightarrow> u8 \<Rightarrow> string list \<Rightarrow> tables \<Rightarrow> tables" where
  "set_slot_bits e \<equiv> set_bits (get_attr e) (put_attr e)"

lemma safe_after_trans: "safe_after e w 0 w1 \<Longrightarrow> safe_after e w1 r w' \<Longrightarrow> safe_after e w r w'"
  by (auto simp: safe_after_def)

text \<open>
  What a request for \<open>ATTR_SLOT_ACTIVE\<close> writes into the backup table \<open>u\<close>: the attribute of the primary
  table \<open>t\<close>, with the bit added, in place of the backup's own.
\<close>

fun copy_active :: "env \<Rightarrow> string list \<Rightarrow> tables \<Rightarrow> tables \<Rightarrow> tables" where
  "copy_active e [] t u = u"
| "copy_active e (n # ns) t u = (case get_attr e t n of
     None \<Rightarrow> copy_active e ns t u
   | Some x \<Rightarrow> copy_active e ns (put_attr e n (x OR attr_bit ATTR_SLOT_ACTIVE) t) (put_attr e n (x OR attr_bit ATTR_SLOT_ACTIVE) u))"

lemma bak_attr_active: "bak_attr ATTR_SLOT_ACTIVE x y = x OR attr_bit ATTR_SLOT_ACTIVE"
  by (simp add: bak_attr_def or.assoc)

lemma bak_attr_or: "a \<noteq> ATTR_SLOT_ACTIVE \<Longrightarrow> bak_attr a x y = y OR attr_bit a"
  by (simp add: bak_attr_def)

lemma update_slot_loop_wp:
  "world_ok w \<Longrightarrow> wp (update_slot_loop e slot a ptns w) (\<lambda>(r, w'). r \<in> {0, -1} \<and> safe_after e w r w' \<and>
     (r = 0 \<longrightarrow> tabs w' PRIMARY_GPT = set_slot_bits e (attr_bit a) (slot_parts e slot ptns) (tabs w PRIMARY_GPT) \<and>
        (a \<noteq> ATTR_SLOT_ACTIVE \<longrightarrow>
           tabs w' SECONDARY_GPT = set_slot_bits e (attr_bit a) (slot_parts e slot ptns) (tabs w SECONDARY_GPT)) \<and>
        (a = ATTR_SLOT_ACTIVE \<longrightarrow>
           tabs w' SECONDARY_GPT = copy_active e (slot_parts e slot ptns) (tabs w PRIMARY_GPT) (tabs w SECONDARY_GPT))))"
proof (induction ptns arbitrary: w)
  case Nil
  then show ?case by (simp add: wp_rules slot_parts_def safe_after_same)
next
  case (Cons p ptns)
  show ?case
  proof (cases "ab_ptn_exists e p")
    case False
    with Cons show ?thesis by (simp add: slot_parts_def)
  next
    case True
    let ?n = "take 71 (p @ slot)"
    have parts: "slot_parts e slot (p # ptns) = ?n # slot_parts e slot ptns" using True by (simp add: slot_parts_def)
    have loop: "update_slot_loop e slot a (p # ptns) w = do {
        (rc, w) \<leftarrow> update_attr e ?n a w;
        if rc \<noteq> 0 then Some (-1, w) else update_slot_loop e slot a ptns w }" using True by simp
    show ?thesis unfolding loop wp_rules
    proof (intro allI impI conjI, goal_cases)
      case (1 x r w')
      from wpD [OF update_attr_wp [OF Cons.prems] 1(1)] 1 show ?case by (auto simp: parts)
    next
      case (2 x r w1)
      from wpD [OF update_attr_wp [OF Cons.prems] 2(1)] 2 obtain u v where
        1: "safe_after e w 0 w1" "get_attr e (tabs w PRIMARY_GPT) ?n = Some u" "get_attr e (tabs w SECONDARY_GPT) ?n = Some v"
          "tabs w1 PRIMARY_GPT = put_attr e ?n (u OR attr_bit a) (tabs w PRIMARY_GPT)"
          "tabs w1 SECONDARY_GPT = put_attr e ?n (bak_attr a u v) (tabs w SECONDARY_GPT)" by auto
      have "world_ok w1" using 1(1) by (simp add: safe_after_def)
      from Cons.IH [OF this] show ?case
        unfolding parts by (rule wp_mono) (use 1 safe_after_trans [OF 1(1)] in \<open>auto simp: bak_attr_or bak_attr_active\<close>)
    qed
  qed
qed


section \<open>When no call fails\<close>

lemma update_crc_defined:
  assumes l: "loaded d path disk" "std d"
    and es: "entries_wf es" "entries_wf es_bak" "length es = length (entries d PRIMARY_GPT)"
      "length es_bak = length (entries d SECONDARY_GPT)"
  shows "\<exists>x. gpt_disk_update_crc e (rewritten disk es es_bak) = Some x"
proof -
  let ?h = "hdr_bytes d PRIMARY_GPT" and ?hb = "hdr_bytes d SECONDARY_GPT"
  obtain p q n where at: "tables_at d p q n" using l(2) by (auto simp: std_def tables_ok_def)
  have len: "length ?h = unat (bd_blksz d)" "length ?hb = unat (bd_blksz d)" "92 \<le> unat (bd_blksz d)"
    using tables_at_geom [OF at] by (simp_all add: geom_def)
  obtain hs where hs: "GET_4_BYTES ?h 12 = Some hs" "unat hs \<le> unat (bd_blksz d)"
    using l(2) by (auto simp: std_def header_size_ok_def)
  have sz: "unat (gd_pentry_arr_size disk) = n"
    using l(1) tables_at_region [OF at, of PRIMARY_GPT]
    by (auto simp: loaded_def region_def hdr_region_def bind_eq_Some_conv split: if_splits)
  have c: "unat (gd_pentry_arr_size disk) \<le> length (concat es)" "unat (gd_pentry_arr_size disk) \<le> length (concat es_bak)"
    using es std_len [OF l(2)] length_table [OF at] sz by (simp_all add: length_concat_wf)
  show ?thesis
    using l(1) c hs len
    by (simp add: gpt_disk_update_crc_def rewritten_def loaded_def PUT_4_BYTES_def slice_simps apart_def crc32_def)
qed

lemma get_attr_put_None: "get_attr e (put_attr e n b t) m = None \<longleftrightarrow> get_attr e t m = None"
  by (auto simp: get_attr_def put_attr_def entry_index_mark bind_eq_None_conv split: option.splits if_splits)

lemma update_attr_no_fail:
  assumes ok: "no_fail e" "world_ok w"
    and here: "get_attr e (tabs w PRIMARY_GPT) part \<noteq> None" "get_attr e (tabs w SECONDARY_GPT) part \<noteq> None"
  shows "\<exists>w'. update_attr e part a w = Some (0, w')"
proof -
  from here obtain path d i j where p: "get_dev_path_from_partition_name e part PATH_MAX = Some path" "w_dev w path = Some d"
    "entry_index (cstr part) (entries d PRIMARY_GPT) 0 = Some i" "entry_index (cstr part) (entries d SECONDARY_GPT) 0 = Some j"
    by (auto simp: get_attr_def tabs_def bind_eq_Some_conv)
  let ?P = "entries d PRIMARY_GPT" and ?S = "entries d SECONDARY_GPT"
  have std: "std d" using ok(2) p(2) by (simp add: world_ok_def)
  have t: "tables_ok d" "header_size_ok d" using std by (simp_all add: std_def)
  obtain w1 where 1: "gpt_disk_alloc e w = (Some gpt_disk_zero, w1)" "w_dev w1 = w_dev w"
    using ok(1) by (simp add: gpt_disk_alloc_def sys_no_fail)
  obtain disk1 w2 where 2: "gpt_disk_get_disk_info e part gpt_disk_zero w1 = Some (0, disk1, w2)"
    using get_disk_info_no_fail [OF p(1) ok(1) _ t, of w1 gpt_disk_zero] 1(2) p(2) by auto
  have l: "loaded d path disk1" "w_dev w2 = w_dev w"
    using wpD [OF get_disk_info_wp [OF p(1) _ t(1)] 2] 1(2) p(2) by auto
  have pe: "gpt_disk_get_pentry disk1 part PRIMARY_GPT = Some (Some (128 * i))"
    "gpt_disk_get_pentry disk1 part SECONDARY_GPT = Some (Some (128 * j))"
    using get_pentry_loaded [OF l(1) std, of part] p(3,4) by auto
  have lt: "i < length ?P" "j < length ?S" using entry_index_SomeD p(3,4) by blast+
  note wfe = std_entries [OF std]
  have arr: "gd_pentry_arr disk1 = Some (concat ?P)" "gd_pentry_arr_bak disk1 = Some (concat ?S)"
    using l(1) wfe by (simp_all add: loaded_def)
  have "attr_at (concat ?P) (128 * i) \<noteq> None" "attr_at (concat ?S) (128 * j) \<noteq> None"
    using attr_at_concat [OF _ lt(1)] attr_at_concat [OF _ lt(2)] wfe by (metis option.distinct(1))+
  then obtain disk2 where sa: "set_attr a (128 * i) (128 * j) disk1 = Some disk2"
    using arr by (auto simp: set_attr_def Let_def)
  let ?P' = "mark i (?P ! i ! 54 OR attr_bit a) ?P" and ?S' = "mark j (bak_attr a (?P ! i ! 54) (?S ! j ! 54)) ?S"
  have d2: "disk2 = rewritten disk1 ?P' ?S'" using set_attr_rewritten [OF l(1) std sa lt] .
  have wf: "entries_wf ?P'" "entries_wf ?S'" using entries_wf_mark lt wfe by blast+
  obtain r disk3 where u: "gpt_disk_update_crc e disk2 = Some (r, disk3)"
    using update_crc_defined [OF l(1) std wf, of e] unfolding d2 by auto
  have rdy: "r = 0" "fits_disk d disk3" "gd_devpath disk3 = path"
    using update_crc_ready [OF l(1) std wf _ _ u [unfolded d2]] by (auto simp: ready_def)
  obtain w3 where "gpt_disk_commit e disk3 w2 = Some (0, w3)"
    using commit_no_fail [OF ok(1) _ t(1) rdy(2), of w2] l(2) p(2) rdy(3) by auto
  then show ?thesis
    using 1 2 pe sa u rdy(1) by (simp add: update_attr_def)
qed

lemma update_slot_loop_no_fail:
  assumes "no_fail e" "world_ok w"
    "\<forall>n \<in> set (slot_parts e slot ptns). get_attr e (tabs w PRIMARY_GPT) n \<noteq> None \<and> get_attr e (tabs w SECONDARY_GPT) n \<noteq> None"
  shows "\<exists>w'. update_slot_loop e slot a ptns w = Some (0, w')"
  using assms
proof (induction ptns arbitrary: w)
  case (Cons p ptns)
  show ?case
  proof (cases "ab_ptn_exists e p")
    case False
    with Cons show ?thesis by (simp add: slot_parts_def)
  next
    case True
    let ?n = "take 71 (p @ slot)"
    have parts: "slot_parts e slot (p # ptns) = ?n # slot_parts e slot ptns" using True by (simp add: slot_parts_def)
    obtain w1 where 1: "update_attr e ?n a w = Some (0, w1)"
      using update_attr_no_fail [OF Cons.prems(1,2), of ?n a] Cons.prems(3) by (auto simp: parts)
    from wpD [OF update_attr_wp [OF Cons.prems(2)] 1] obtain u v where
      ok: "world_ok w1" and t: "tabs w1 PRIMARY_GPT = put_attr e ?n u (tabs w PRIMARY_GPT)"
        "tabs w1 SECONDARY_GPT = put_attr e ?n v (tabs w SECONDARY_GPT)"
      by (auto simp: safe_after_def)
    have "\<exists>w'. update_slot_loop e slot a ptns w1 = Some (0, w')"
      using Cons.prems(3) by (intro Cons.IH [OF Cons.prems(1) ok]) (auto simp: t get_attr_put_None parts simp del: not_None_eq)
    with 1 True show ?thesis by simp
  qed
qed simp


section \<open>Slots\<close>

lemma suffix_at_cases:
  "suffix_at slot = Some (Some suf) \<longleftrightarrow> slot = 0 \<and> suf = ''_a'' \<or> slot = 1 \<and> suf = ''_b''"
proof -
  have "slot = 0 \<or> slot = 1 \<or> slot = 2" if "unat slot < 3"
    using that by (auto simp: word_unat_eq_iff less_Suc_eq numeral_3_eq_3)
  then show ?thesis
    by (auto simp: suffix_at_def slot_suffix_arr_def AB_SLOT_A_SUFFIX_def AB_SLOT_B_SUFFIX_def)
qed

lemma boot_in_list: "''boot'' \<in> set AB_PTN_LIST"
  by (simp add: AB_PTN_LIST_def)

lemma short_names: "list_all (\<lambda>p. length p < 60) AB_PTN_LIST"
  by (simp add: AB_PTN_LIST_def PTN_SWAP_LIST_def)

lemma slot_parts_list:
  assumes "suf = ''_a'' \<or> suf = ''_b''"
  shows "slot_parts e suf AB_PTN_LIST = map (\<lambda>p. p @ suf) (filter (ab_ptn_exists e) AB_PTN_LIST)"
proof -
  have "take 71 (p @ suf) = p @ suf" if "p \<in> set AB_PTN_LIST" for p
    using short_names that assms by (auto simp: list_all_iff)
  then show ?thesis by (auto simp: slot_parts_def)
qed

lemma slot_name_suffix: "suf = ''_a'' \<or> suf = ''_b'' \<Longrightarrow> slot_name (p @ suf)"
  by (auto simp: slot_name_def ends_bak_def cstr_def)

lemma update_slot_suffix:
  assumes "suffix_at slot = Some suf" "update_slot_attribute e suf a w = Some (0, w')"
  shows "\<exists>s. suf = Some s \<and> (s = ''_a'' \<or> s = ''_b'') \<and> update_slot_loop e s a AB_PTN_LIST w = Some (0, w')"
  using assms suffix_at_cases [of slot]
  by (cases suf) (auto simp: update_slot_attribute_def split: if_splits)

text \<open>After a successful update the attribute of the slot's boot partition has the bit.\<close>

lemma updated_boot_attr:
  assumes ok: "world_ok w" and s: "s = ''_a'' \<or> s = ''_b''" and run: "update_slot_loop e s a AB_PTN_LIST w = Some (0, w')"
    and ex: "ab_ptn_exists e ''boot''" and b: "get_attr e (tabs w' PRIMARY_GPT) (''boot'' @ s) = Some x"
  shows "x AND attr_bit a = attr_bit a"
proof -
  let ?ns = "slot_parts e s AB_PTN_LIST"
  have t: "tabs w' PRIMARY_GPT = set_slot_bits e (attr_bit a) ?ns (tabs w PRIMARY_GPT)"
    using wpD [OF update_slot_loop_wp [OF ok] run] by simp
  have wf: "tables_wf (tabs w PRIMARY_GPT)"
    using ok std_entries by (auto simp: tables_wf_def tabs_def world_ok_def)
  have "list_all slot_name ?ns" "''boot'' @ s \<in> set ?ns"
    using slot_name_suffix [OF s] boot_in_list ex unfolding slot_parts_list [OF s] by (auto simp: list_all_iff)
  from gpt.attr_set_bits [OF wf this(1) slot_name_suffix [OF s, of "''boot''"], of e "attr_bit a"] this(2) b
  obtain y where "x = y OR attr_bit a" unfolding t [symmetric] by auto
  then show ?thesis by simp
qed


section \<open>A concrete device\<close>

text \<open>An eMMC device with \<open>boot_a\<close> and \<open>boot_b\<close>, on which every call succeeds.\<close>

definition boot_env :: env where
  "boot_env = wit_env\<lparr>
     env_stat := (\<lambda>p. p = ''/dev/block/bootdevice/by-name/boot_a'' \<or> p = ''/dev/block/bootdevice/by-name/boot_b''),
     env_dir := (\<lambda>p. if p = BOOTDEV_DIR then Some [''.'', ''..'', ''boot_a'', ''boot_b''] else None)\<rparr>"

definition boot_table :: "bytes list" where
  "boot_table = [wit_entry 1 ''boot_a'', wit_entry 2 ''boot_b'']"

definition boot_dev :: blkdev where
  "boot_dev = tab_dev (concat boot_table) (concat boot_table)"

definition boot_world :: "unit boot_state" where
  "boot_world = \<lparr>b_world = tab_world BLK_DEV_FILE (concat boot_table) (concat boot_table), b_misc = (),
     mGvmqPlatform = False\<rparr>"

lemma boot_table_wf: "entries_wf boot_table" "length (concat boot_table) = 256"
  by (simp_all add: entries_wf_def boot_table_def wit_entry_def cstr_def)

lemma boot_entries: "entries boot_dev gpt = boot_table"
  using tab_table [OF boot_table_wf(2) boot_table_wf(2)]
  by (cases gpt) (auto simp: boot_dev_def intro: entries_of_table [OF boot_table_wf(1)])

lemma boot_dev_std: "std boot_dev"
  using tab_tables_ok [OF boot_table_wf(2) boot_table_wf(2)] tab_table [OF boot_table_wf(2) boot_table_wf(2)]
    tab_hdr [OF boot_table_wf(2) boot_table_wf(2)] boot_table_wf(2) tab_fields [of 2]
  by (simp add: std_def boot_dev_def header_size_ok_def) (simp add: tab_dev_def)

lemma boot_world_dev: "w_dev (b_world boot_world) = [BLK_DEV_FILE \<mapsto> boot_dev]"
  by (simp add: boot_world_def tab_world_def boot_dev_def)

lemma boot_world_ok: "world_ok (b_world boot_world)"
  using boot_dev_std by (simp add: world_ok_def boot_world_dev)

lemma boot_no_fail: "no_fail boot_env"
  by (simp add: no_fail_def boot_env_def wit_env_def)

lemma boot_path: "get_dev_path_from_partition_name boot_env part PATH_MAX = Some BLK_DEV_FILE"
  by (simp add: get_dev_path_from_partition_name_def gpt_utils_is_ufs_device_def property_get_def)
     (simp add: boot_env_def wit_env_def BLK_DEV_FILE_def)

lemma boot_names: "entry_name (wit_entry 1 ''boot_a'') = cstr ''boot_a''" "entry_name (wit_entry 2 ''boot_b'') = cstr ''boot_b''"
  by code_simp+

lemma boot_index: "entry_index (cstr ''boot_a'') boot_table 0 = Some 0" "entry_index (cstr ''boot_b'') boot_table 0 = Some 1"
  by (simp_all add: boot_table_def entry_index_step boot_names pentry_match_iff) (simp_all add: cstr_def)

lemma boot_attr:
  "get_attr boot_env (tabs (b_world boot_world) gpt) ''boot_a'' = Some 0"
  "get_attr boot_env (tabs (b_world boot_world) gpt) ''boot_b'' = Some 0"
  by (simp_all add: get_attr_def boot_path tabs_def boot_world_dev boot_entries boot_index)
     (simp_all add: boot_table_def wit_entry_def nth_append)

lemma boot_exists: "ab_ptn_exists boot_env p \<longleftrightarrow> p = ''boot''"
  by (auto simp: ab_ptn_exists_def boot_env_def BOOT_DEV_DIR_def AB_SLOT_A_SUFFIX_def AB_SLOT_B_SUFFIX_def)

lemma boot_slots: "get_number_slots boot_env False = 2"
  by (simp add: get_number_slots_def boot_env_def strncmp_eq_def)


lemma get_attribute_no_fail:
  assumes ok: "no_fail e" "world_ok w" and here: "get_attr e (tabs w PRIMARY_GPT) part = Some b"
  shows "\<exists>w'. get_partition_attribute e part a w = Some (if b AND attr_bit a \<noteq> 0 then 1 else 0, w')"
proof -
  from here obtain path d i where p: "get_dev_path_from_partition_name e part PATH_MAX = Some path" "w_dev w path = Some d"
    "entry_index (cstr part) (entries d PRIMARY_GPT) 0 = Some i" "b = entries d PRIMARY_GPT ! i ! 54"
    by (auto simp: get_attr_def tabs_def bind_eq_Some_conv)
  have std: "std d" using ok(2) p(2) by (simp add: world_ok_def)
  then have t: "tables_ok d" "header_size_ok d" by (simp_all add: std_def)
  obtain w1 where 1: "gpt_disk_alloc e w = (Some gpt_disk_zero, w1)" "w_dev w1 = w_dev w"
    using ok(1) by (simp add: gpt_disk_alloc_def sys_no_fail)
  obtain disk1 w2 where 2: "gpt_disk_get_disk_info e part gpt_disk_zero w1 = Some (0, disk1, w2)"
    using get_disk_info_no_fail [OF p(1) ok(1) _ t, of w1 gpt_disk_zero] 1(2) p(2) by auto
  have l: "loaded d path disk1"
    using wpD [OF get_disk_info_wp [OF p(1) _ t(1)] 2] 1(2) p(2) by auto
  have pe: "gpt_disk_get_pentry disk1 part PRIMARY_GPT = Some (Some (128 * i))"
    using get_pentry_loaded [OF l std, of part] p(3) by auto
  have wf: "entries_wf (entries d PRIMARY_GPT)" "gd_pentry_arr disk1 = Some (concat (entries d PRIMARY_GPT))"
    using l std_entries [OF std] by (simp_all add: loaded_def)
  have at: "attr_at (concat (entries d PRIMARY_GPT)) (128 * i) = Some b"
    using attr_at_concat [OF wf(1), of i] entry_index_SomeD [OF p(3)] p(4) by simp
  show ?thesis
    unfolding get_partition_attribute_def 1(1) prod.case Let_def option.case 2 pe bind.bind_lunit wf(2) at by simp
qed

text \<open>A query of a boot partition after a successful update of its slot.\<close>

lemma query_after_update:
  assumes ok: "world_ok w" and suf: "suffix_at slot = Some suf"
    and run: "update_slot_attribute e suf a w = Some (0, w')" and ex: "ab_ptn_exists e ''boot''"
    and here: "get_attr e (tabs w PRIMARY_GPT) (''boot'' @ the suf) \<noteq> None"
    and q: "boot_partition_attr e slot a (s\<lparr>b_world := w'\<rparr>) = Some (r, s')"
  shows "r \<in> {1, -1} \<and> (no_fail e \<longrightarrow> r = 1)"
proof -
  from update_slot_suffix [OF suf run] obtain t where
    t: "suf = Some t" "t = ''_a'' \<or> t = ''_b''" "update_slot_loop e t a AB_PTN_LIST w = Some (0, w')" by blast
  have ok': "world_ok w'" using wpD [OF update_slot_loop_wp [OF ok] t(3)] by (simp add: safe_after_def)
  have nz: "attr_bit a \<noteq> 0" by (cases a) auto
  have "take 71 (''boot'' @ t) = ''boot'' @ t" using t(2) by auto
  then obtain w2 where g: "get_partition_attribute e (''boot'' @ t) a w' = Some (r, w2)"
    using q suf t(1) by (auto simp: boot_partition_attr_def bind_eq_Some_conv)
  have r1: "r = 1 \<or> r = -1"
    using wpD [OF get_attribute_wp [OF ok'] g] updated_boot_attr [OF ok t(2,3) ex] nz by auto
  moreover have "r = 1" if nf: "no_fail e"
  proof -
    have tw: "tabs w' PRIMARY_GPT = set_slot_bits e (attr_bit a) (slot_parts e t AB_PTN_LIST) (tabs w PRIMARY_GPT)"
      using wpD [OF update_slot_loop_wp [OF ok] t(3)] by simp
    have "tables_wf (tabs w PRIMARY_GPT)"
      using ok std_entries by (auto simp: tables_wf_def tabs_def world_ok_def)
    moreover have "list_all slot_name (slot_parts e t AB_PTN_LIST)"
      using slot_name_suffix [OF t(2)] unfolding slot_parts_list [OF t(2)] by (auto simp: list_all_iff)
    ultimately have "get_attr e (tabs w' PRIMARY_GPT) (''boot'' @ t) \<noteq> None"
      using gpt.attr_set_bits [OF _ _ slot_name_suffix [OF t(2), of "''boot''"], of _ _ e "attr_bit a"] here t(1)
      unfolding tw by auto
    then obtain b where "get_attr e (tabs w' PRIMARY_GPT) (''boot'' @ t) = Some b" by auto
    from get_attribute_no_fail [OF nf ok' this, of a] g r1 show ?thesis by (auto split: if_splits)
  qed
  ultimately show ?thesis by auto
qed

lemma boot_update_runs:
  "\<exists>w'. update_slot_attribute boot_env (Some ''_a'') a (b_world boot_world) = Some (0, w')"
proof -
  have parts: "slot_parts boot_env ''_a'' AB_PTN_LIST = [''boot_a'']"
    by (simp add: slot_parts_def boot_exists AB_PTN_LIST_def PTN_SWAP_LIST_def)
  have "\<exists>w'. update_slot_loop boot_env ''_a'' a AB_PTN_LIST (b_world boot_world) = Some (0, w')"
    using boot_attr by (intro update_slot_loop_no_fail boot_no_fail boot_world_ok) (auto simp: parts)
  then show ?thesis
    by (simp add: update_slot_attribute_def slot_suffixes_def slot_suffix_arr_def List.map_filter_def
        AB_SLOT_A_SUFFIX_def AB_SLOT_B_SUFFIX_def strncmp_eq_def)
qed

section \<open>Properties\<close>

text \<open>
  C9. \<open>update_slot_attribute\<close> implements its specification, for the slots \<open>_a\<close> and \<open>_b\<close> and all three
  attributes, on devices laid out as their headers say: when it reports success, the primary copy of every
  table is the old one with the attribute bit added to exactly the partitions of \<open>AB_PTN_LIST\<close> that exist in
  both slots, under the suffix of the given slot. For the attributes successful and unbootable the same holds of the
  backup copy. For the attribute active the backup copy is given the attribute of the primary copy, with the bit
  added, in place of its own.
\<close>

theorem update_slot_refines:
  assumes "world_ok w" "s = ''_a'' \<or> s = ''_b''"
    and "update_slot_attribute e (Some s) a w = Some (0, w')"
  shows "let names = map (\<lambda>p. p @ s) (filter (ab_ptn_exists e) AB_PTN_LIST) in
    tabs w' PRIMARY_GPT = set_bits (get_attr e) (put_attr e) (attr_bit a) names (tabs w PRIMARY_GPT) \<and>
    tabs w' SECONDARY_GPT =
      (if a = ATTR_SLOT_ACTIVE then copy_active e names (tabs w PRIMARY_GPT) (tabs w SECONDARY_GPT)
       else set_bits (get_attr e) (put_attr e) (attr_bit a) names (tabs w SECONDARY_GPT))"
proof -
  have "update_slot_loop e s a AB_PTN_LIST w = Some (0, w')"
    using assms(3) by (auto simp: update_slot_attribute_def split: if_splits)
  from wpD [OF update_slot_loop_wp [OF assms(1)] this] show ?thesis
    by (simp add: slot_parts_list [OF assms(2)])
qed

theorem update_slot_refines_witness:
  "\<exists>w'. update_slot_attribute boot_env (Some ''_a'') ATTR_UNBOOTABLE (b_world boot_world) = Some (0, w') \<and>
     tabs w' SECONDARY_GPT = set_bits (get_attr boot_env) (put_attr boot_env) 0x80
       (map (\<lambda>p. p @ ''_a'') (filter (ab_ptn_exists boot_env) AB_PTN_LIST)) (tabs (b_world boot_world) SECONDARY_GPT)"
proof -
  obtain w' where w': "update_slot_attribute boot_env (Some ''_a'') ATTR_UNBOOTABLE (b_world boot_world) = Some (0, w')"
    using boot_update_runs by blast
  from update_slot_refines [OF boot_world_ok _ w'] w' show ?thesis by (auto simp: Let_def)
qed

text \<open>
  C10. Whatever calls fail, an attribute update keeps every device bootable: when both copies of
  every table are valid before, each device has a valid copy afterwards, and both are valid again
  if the update reports success.
\<close>

theorem update_slot_keeps_valid:
  assumes "world_ok w" "all_sound e w" "update_slot_attribute e slot a w = Some (r, w')"
  shows "all_valid e w' \<and> (r = 0 \<longrightarrow> all_sound e w')"
proof (cases "\<exists>s. slot = Some s \<and> update_slot_loop e s a AB_PTN_LIST w = Some (r, w')")
  case True
  then obtain s where "update_slot_loop e s a AB_PTN_LIST w = Some (r, w')" by blast
  from wpD [OF update_slot_loop_wp [OF assms(1)] this] assms(2) show ?thesis by (simp add: safe_after_def)
next
  case False
  with assms(3) have "w' = w" by (auto simp: update_slot_attribute_def split: option.splits if_splits)
  with assms(2) show ?thesis by (simp add: all_sound_valid)
qed


lemma boot_header_ok: "header_state boot_env (tab_header lba) = Some GPT_OK"
proof -
  have "GET_4_BYTES (tab_header lba) 16 = Some 92"
    by (simp add: tab_header_def GET_4_BYTES_def le4_def)
  moreover have "take 9 (tab_header lba) = GPT_SIGNATURE" by (simp add: tab_header_def GPT_SIGNATURE_def)
  ultimately show ?thesis
    by (simp add: header_state_def tab_fields PUT_4_BYTES_def crc32_def crc_zero_def) (simp add: boot_env_def wit_env_def)
qed

lemma boot_all_sound: "all_sound boot_env (b_world boot_world)"
proof -
  have sig: "take 9 (tab_header lba) = GPT_SIGNATURE" for lba by (simp add: tab_header_def GPT_SIGNATURE_def)
  have "GET_4_BYTES (tab_header lba) 88 = Some 256" for lba
    by (simp add: tab_header_def GET_4_BYTES_def le4_def nth_append)
  then have "sealed boot_env 256 (tab_header lba) (concat boot_table)" for lba
    using boot_header_ok [of lba] boot_table_wf(2)
    by (simp add: sealed_def sig_state_def sig crc32_def crc_zero_def) (simp add: boot_env_def wit_env_def)
  then have "copy_valid boot_env boot_dev gpt" for gpt
    using sig tab_hdr [OF boot_table_wf(2) boot_table_wf(2)] tab_table [OF boot_table_wf(2) boot_table_wf(2)]
    by (cases gpt) (simp_all add: copy_valid_def boot_dev_def pentries_arr_size_def tab_fields)
  then show ?thesis
    using tab_hdr [OF boot_table_wf(2) boot_table_wf(2)]
    by (simp add: all_sound_def sound_def boot_world_dev) (simp add: boot_dev_def tab_fields)
qed

theorem update_slot_keeps_valid_witness: "\<exists>w'. all_sound boot_env w'"
proof -
  obtain w' where "update_slot_attribute boot_env (Some ''_a'') ATTR_UNBOOTABLE (b_world boot_world) = Some (0, w')"
    using boot_update_runs by blast
  from update_slot_keeps_valid [OF boot_world_ok boot_all_sound this] show ?thesis by blast
qed

text \<open>
  A slot that was set unbootable is never reported bootable: after a successful
  \<open>set_slot_as_unbootable\<close>, \<open>is_slot_bootable\<close> of that slot returns 0, or -1 when one of its
  own calls fails.
\<close>

theorem unbootable_is_not_bootable:
  assumes "world_ok (b_world s)" "ab_ptn_exists e ''boot''"
    and "suffix_at slot = Some (Some suf)" "get_attr e (tabs (b_world s) PRIMARY_GPT) (''boot'' @ suf) \<noteq> None"
    and "set_slot_as_unbootable e slot s = Some (0, s')"
    and "is_slot_bootable e slot s' = Some (r, s'')"
  shows "r \<in> {0, -1} \<and> (no_fail e \<longrightarrow> r = 0)"
proof -
  from assms(3,5) obtain w' where
    run: "update_slot_attribute e (Some suf) ATTR_UNBOOTABLE (b_world s) = Some (0, w')" "s' = s\<lparr>b_world := w'\<rparr>"
    and sane: "boot_control_check_slot_sanity e (mGvmqPlatform s) slot = 0"
    by (auto simp: set_slot_as_unbootable_def bind_eq_Some_conv split: if_splits)
  from assms(6) sane run(2) obtain q where q: "boot_partition_attr e slot ATTR_UNBOOTABLE (s\<lparr>b_world := w'\<rparr>) = Some (q, s'')"
    "r = (if q \<ge> 0 then (if q = 0 then 1 else 0) else -1)"
    by (auto simp: is_slot_bootable_def bind_eq_Some_conv)
  from query_after_update [OF assms(1,3) run(1) assms(2) _ q(1)] assms(4) q(2) show ?thesis by auto
qed

lemma boot_sane: "boot_control_check_slot_sanity boot_env False 0 = 0"
  by (simp add: boot_control_check_slot_sanity_def boot_slots)

lemma boot_suffix: "suffix_at 0 = Some (Some ''_a'')"
  by (simp add: suffix_at_cases)

lemma query_defined:
  assumes "no_fail e" "world_ok (b_world s)" "suffix_at slot = Some (Some suf)" "suf = ''_a'' \<or> suf = ''_b''"
    "get_attr e (tabs (b_world s) PRIMARY_GPT) (''boot'' @ suf) = Some b"
  shows "\<exists>r s'. boot_partition_attr e slot a s = Some (r, s')"
proof -
  have "take 71 (''boot'' @ suf) = ''boot'' @ suf" using assms(4) by auto
  with get_attribute_no_fail [OF assms(1,2,5), of a] assms(3) show ?thesis
    by (auto simp: boot_partition_attr_def)
qed

lemma boot_after_update:
  assumes "update_slot_attribute boot_env (Some ''_a'') a (b_world boot_world) = Some (0, w')"
  shows "world_ok w' \<and> (\<exists>b. get_attr boot_env (tabs w' PRIMARY_GPT) (''boot'' @ ''_a'') = Some b)"
proof -
  have parts: "slot_parts boot_env ''_a'' AB_PTN_LIST = [''boot_a'']"
    by (simp add: slot_parts_def boot_exists AB_PTN_LIST_def PTN_SWAP_LIST_def)
  have "update_slot_loop boot_env ''_a'' a AB_PTN_LIST (b_world boot_world) = Some (0, w')"
    using assms by (auto simp: update_slot_attribute_def split: if_splits)
  from wpD [OF update_slot_loop_wp [OF boot_world_ok] this]
  have t: "tabs w' PRIMARY_GPT = set_slot_bits boot_env (attr_bit a) [''boot_a''] (tabs (b_world boot_world) PRIMARY_GPT)"
    and ok: "world_ok w'" by (simp_all add: parts safe_after_def)
  have "get_attr boot_env (tabs w' PRIMARY_GPT) ''boot_a'' \<noteq> None"
    unfolding t using get_attr_put_None [of boot_env] boot_attr(1) by simp
  with ok show ?thesis by auto
qed

theorem unbootable_is_not_bootable_witness:
  "\<exists>s' s''. set_slot_as_unbootable boot_env 0 boot_world = Some (0, s') \<and> is_slot_bootable boot_env 0 s' = Some (0, s'')"
proof -
  obtain w' where u: "update_slot_attribute boot_env (Some ''_a'') ATTR_UNBOOTABLE (b_world boot_world) = Some (0, w')"
    using boot_update_runs by blast
  let ?s' = "boot_world\<lparr>b_world := w'\<rparr>"
  have gv: "mGvmqPlatform boot_world = False" by (simp add: boot_world_def)
  have run: "set_slot_as_unbootable boot_env 0 boot_world = Some (0, ?s')"
    using u gv by (simp add: set_slot_as_unbootable_def boot_sane boot_suffix)
  obtain q s'' where "boot_partition_attr boot_env 0 ATTR_UNBOOTABLE ?s' = Some (q, s'')"
    using query_defined [OF boot_no_fail _ boot_suffix, of ?s' _ ATTR_UNBOOTABLE] boot_after_update [OF u] by auto
  then obtain r where q: "is_slot_bootable boot_env 0 ?s' = Some (r, s'')"
    using gv by (simp add: is_slot_bootable_def boot_sane)
  have "r = 0"
    using unbootable_is_not_bootable [OF boot_world_ok _ boot_suffix _ run q] boot_attr boot_exists boot_no_fail by auto
  with run q show ?thesis by auto
qed

text \<open>
  A slot that was marked successful is reported successful: after \<open>mark_boot_successful\<close>
  returns 0, \<open>is_slot_marked_successful\<close> of the current slot returns 1, or -1 when the slot does
  not pass the argument check or one of its own calls fails.
\<close>

theorem marked_is_successful:
  assumes "world_ok (b_world s)" "ab_ptn_exists e ''boot''"
    and "suffix_at (get_current_slot e (mGvmqPlatform s)) = Some (Some suf)"
    and "get_attr e (tabs (b_world s) PRIMARY_GPT) (''boot'' @ suf) \<noteq> None"
    and "mark_boot_successful e ops s = Some (0, s')"
    and "is_slot_marked_successful e (get_current_slot e (mGvmqPlatform s')) s' = Some (r, s'')"
  shows "r \<in> {1, -1}"
proof -
  let ?slot = "get_current_slot e (mGvmqPlatform s)"
  from assms(3,5) obtain w' where
    run: "update_slot_attribute e (Some suf) ATTR_BOOT_SUCCESSFUL (b_world s) = Some (0, w')"
      "b_world s' = w'" "mGvmqPlatform s' = mGvmqPlatform s"
    by (auto simp: mark_boot_successful_def bind_eq_Some_conv Let_def split: if_splits prod.splits)
  have s': "s' = s'\<lparr>b_world := w'\<rparr>" using run(2) by simp
  from assms(6) consider "r = -1" | q where
    "boot_partition_attr e ?slot ATTR_BOOT_SUCCESSFUL (s'\<lparr>b_world := w'\<rparr>) = Some (q, s'')"
    "r = (if q \<ge> 0 then q else -1)"
    unfolding run(3) s' [symmetric] by (auto simp: is_slot_marked_successful_def bind_eq_Some_conv run(3) split: if_splits)
  then show ?thesis
  proof cases
    case (2 q)
    from query_after_update [OF assms(1,3) run(1) assms(2) _ 2(1)] assms(4) 2(2) show ?thesis by auto
  qed simp
qed


text \<open>Operations on a misc partition that is never used, for concrete runs.\<close>

definition null_ops :: "unit misc_ops" where
  "null_ops = \<lparr>get_bootloader_message_blk_device = (\<lambda>_. []), read_bootloader_message_from = (\<lambda>_ _. None),
     write_bootloader_message_to = (\<lambda>_ _ m. (False, m)), uninitialized_message = [],
     InitMiscVirtualAbMessageIfNeeded = (\<lambda>m. (True, m)), SetMiscVirtualAbMergeStatus = (\<lambda>_ _ m. (False, m)),
     GetMiscVirtualAbMergeStatus = (\<lambda>_ _. None)\<rparr>"

lemma boot_current: "get_current_slot boot_env False = 0"
  by (simp add: get_current_slot_def boot_slots property_get_def) (simp add: boot_env_def wit_env_def strncmp_eq_def)

theorem marked_is_successful_witness:
  "\<exists>s' r s''. mark_boot_successful boot_env null_ops boot_world = Some (0, s') \<and>
     is_slot_marked_successful boot_env 0 s' = Some (r, s'') \<and> r \<in> {1, -1}"
proof -
  obtain w' where u: "update_slot_attribute boot_env (Some ''_a'') ATTR_BOOT_SUCCESSFUL (b_world boot_world) = Some (0, w')"
    using boot_update_runs by blast
  let ?s' = "boot_world\<lparr>b_world := w'\<rparr>"
  have gv: "mGvmqPlatform boot_world = False" by (simp add: boot_world_def)
  have run: "mark_boot_successful boot_env null_ops boot_world = Some (0, ?s')"
    using u gv by (simp add: mark_boot_successful_def boot_current boot_suffix)
  obtain q s'' where "boot_partition_attr boot_env 0 ATTR_BOOT_SUCCESSFUL ?s' = Some (q, s'')"
    using query_defined [OF boot_no_fail _ boot_suffix, of ?s' _ ATTR_BOOT_SUCCESSFUL] boot_after_update [OF u] by auto
  then obtain r where q: "is_slot_marked_successful boot_env 0 ?s' = Some (r, s'')"
    using gv by (simp add: is_slot_marked_successful_def boot_sane)
  have c: "get_current_slot boot_env (mGvmqPlatform boot_world) = 0" "get_current_slot boot_env (mGvmqPlatform ?s') = 0"
    using gv boot_current by simp_all
  have "r \<in> {1, -1}"
    by (rule marked_is_successful [OF boot_world_ok _ _ _ run, of "''_a''", unfolded c])
       (use boot_exists boot_suffix boot_attr q in auto)
  with run q show ?thesis by blast
qed

text \<open>
  The argument check protects the suffix table as long as the device has at most two names
  beginning with \<open>boot\<close>: then \<open>get_suffix\<close> is defined for every slot, gives \<open>_a\<close> or
  \<open>_b\<close> for the slots 0 and 1 that exist and \<open>NULL\<close> otherwise.
\<close>

theorem suffix_in_bounds:
  assumes "get_number_slots e (mGvmqPlatform s) \<le> 2"
  shows "get_suffix e slot s = Some (if slot < get_number_slots e (mGvmqPlatform s)
           then Some (if slot = 0 then ''_a'' else ''_b'') else None)"
proof -
  let ?n = "get_number_slots e (mGvmqPlatform s)"
  have "unat ?n \<le> 2" using assms by (simp add: word_le_nat_alt)
  then have "unat ?n = 0 \<or> unat ?n = 1 \<or> unat ?n = 2" by linarith
  then have n: "?n = 0 \<or> ?n = 1 \<or> ?n = 2" by (auto simp: word_unat_eq_iff)
  have "unat slot = 0 \<or> unat slot = 1 \<or> unat slot \<ge> 2" by linarith
  then have s: "slot = 0 \<or> slot = 1 \<or> slot \<ge> 2" by (auto simp: word_unat_eq_iff word_le_nat_alt)
  have "\<not> slot < 1 \<and> \<not> slot < 2 \<and> slot > 0 \<and> slot > 1" if "slot \<ge> 2"
    using that by (auto simp: word_le_nat_alt word_less_nat_alt)
  with n s show ?thesis
    by (auto simp: get_suffix_def boot_control_check_slot_sanity_def suffix_at_def slot_suffix_arr_def
        AB_SLOT_A_SUFFIX_def AB_SLOT_B_SUFFIX_def)
qed

theorem suffix_in_bounds_witness: "get_suffix boot_env 1 boot_world = Some (Some ''_b'')"
  using suffix_in_bounds [of boot_env boot_world 1] boot_slots by (simp add: boot_world_def)

text \<open>
  With more than two such names the check lets slots through that the table does not have:
  on a device with \<open>boot_a\<close>, \<open>boot_b\<close>, \<open>bootloader_a\<close> and \<open>bootloader_b\<close>, slot 3
  passes the check and \<open>get_suffix\<close> reads behind the end of \<open>slot_suffix_arr\<close>.
\<close>

theorem suffix_out_of_bounds:
  "let e = boot_env\<lparr>env_dir := (\<lambda>_. Some [''boot_a'', ''boot_b'', ''bootloader_a'', ''bootloader_b''])\<rparr> in
     boot_control_check_slot_sanity e False 3 = 0 \<and> get_suffix e 3 boot_world = None"
  by (simp add: boot_control_check_slot_sanity_def get_number_slots_def get_suffix_def suffix_at_def slot_suffix_arr_def
      strncmp_eq_def boot_world_def)

end
