(* ===== verification/BootHal.thy ===== *)
theory BootHal
  imports BootAttr
begin

text \<open>
  The two faces of boot control: the HIDL service \<open>bootctrl/1.1/impl/BootControl.cpp\<close>, which
  turns the library's return codes into results for the framework, and the older hardware module
  \<open>bootctrl/boot_control.cpp\<close>, whose operations take a module pointer (\<open>None\<close> for
  \<open>NULL\<close>) and whose helper functions are, word for word, those of the library. \<open>strerror\<close>
  is the C library's and stays a parameter.
\<close>

section \<open>The HIDL service\<close>

record CommandResult =
  cr_success :: bool
  cr_errMsg :: string

datatype BoolResult = BR_FALSE | BR_TRUE | BR_INVALID_SLOT

definition command_result :: "(int \<Rightarrow> string) \<Rightarrow> int \<Rightarrow> CommandResult" where
  "command_result strerror ret = \<lparr>cr_success = (ret = 0), cr_errMsg = strerror (- ret)\<rparr>"

definition bool_result :: "int \<Rightarrow> BoolResult" where
  "bool_result ret = (if ret < 0 then BR_INVALID_SLOT else if ret \<noteq> 0 then BR_TRUE else BR_FALSE)"

definition getNumberSlots :: "env \<Rightarrow> 'm boot_state \<Rightarrow> u32" where
  "getNumberSlots e s = get_number_slots e (mGvmqPlatform s)"

definition getCurrentSlot :: "env \<Rightarrow> 'm boot_state \<Rightarrow> u32" where
  "getCurrentSlot e s = get_current_slot e (mGvmqPlatform s)"

definition markBootSuccessful ::
  "env \<Rightarrow> (int \<Rightarrow> string) \<Rightarrow> 'm misc_ops \<Rightarrow> 'm boot_state \<Rightarrow> (CommandResult \<times> 'm boot_state) option" where
  "markBootSuccessful e strerror ops s = do {
     (ret, s) \<leftarrow> mark_boot_successful e ops s;
     Some (command_result strerror ret, s)
   }"

definition setActiveBootSlot ::
  "env \<Rightarrow> (int \<Rightarrow> string) \<Rightarrow> 'm misc_ops \<Rightarrow> u32 \<Rightarrow> 'm boot_state \<Rightarrow> (CommandResult \<times> 'm boot_state) option" where
  "setActiveBootSlot e strerror ops slot s = do {
     (ret, s) \<leftarrow> set_active_boot_slot e ops slot s;
     Some (command_result strerror ret, s)
   }"

definition setSlotAsUnbootable ::
  "env \<Rightarrow> (int \<Rightarrow> string) \<Rightarrow> u32 \<Rightarrow> 'm boot_state \<Rightarrow> (CommandResult \<times> 'm boot_state) option" where
  "setSlotAsUnbootable e strerror slot s = do {
     (ret, s) \<leftarrow> set_slot_as_unbootable e slot s;
     Some (command_result strerror ret, s)
   }"

definition isSlotBootable :: "env \<Rightarrow> u32 \<Rightarrow> 'm boot_state \<Rightarrow> (BoolResult \<times> 'm boot_state) option" where
  "isSlotBootable e slot s = do {
     (ret, s) \<leftarrow> is_slot_bootable e slot s;
     Some (bool_result ret, s)
   }"

definition isSlotMarkedSuccessful :: "env \<Rightarrow> u32 \<Rightarrow> 'm boot_state \<Rightarrow> (BoolResult \<times> 'm boot_state) option" where
  "isSlotMarkedSuccessful e slot s = do {
     (ret, s) \<leftarrow> is_slot_marked_successful e slot s;
     Some (bool_result ret, s)
   }"

text \<open>A \<open>NULL\<close> suffix becomes the empty string.\<close>

definition getSuffix :: "env \<Rightarrow> u32 \<Rightarrow> 'm boot_state \<Rightarrow> string option" where
  "getSuffix e slot s = map_option (\<lambda>suffix. case suffix of Some x \<Rightarrow> x | None \<Rightarrow> []) (get_suffix e slot s)"

definition setSnapshotMergeStatus ::
  "env \<Rightarrow> 'm misc_ops \<Rightarrow> merge_status \<Rightarrow> 'm boot_state \<Rightarrow> bool \<times> 'm boot_state" where
  "setSnapshotMergeStatus e ops status s = set_snapshot_merge_status e ops status s"

definition getSnapshotMergeStatus :: "env \<Rightarrow> 'm misc_ops \<Rightarrow> 'm boot_state \<Rightarrow> merge_status" where
  "getSnapshotMergeStatus e ops s = get_snapshot_merge_status e ops s"

text \<open>A service instance, or \<open>nullptr\<close> when initialisation fails.\<close>

definition HIDL_FETCH_IBootControl ::
  "env \<Rightarrow> 'm misc_ops \<Rightarrow> 'm boot_state \<Rightarrow> bool \<times> 'm boot_state" where
  "HIDL_FETCH_IBootControl e ops s = bootcontrol_init e ops s"

section \<open>The hardware module\<close>

type_synonym hw_module = "unit option"

definition legacy_get_number_slots :: "env \<Rightarrow> hw_module \<Rightarrow> u32" where
  "legacy_get_number_slots e module =
     (if module = None then 0
      else (case env_dir e BOOTDEV_DIR of
              None \<Rightarrow> 0
            | Some names \<Rightarrow>
               of_nat (length (filter (\<lambda>n. \<not> strncmp_eq n ''.'' 1 \<and> strncmp_eq n ''boot'' 4) names))))"

definition legacy_get_current_slot :: "env \<Rightarrow> hw_module \<Rightarrow> u32" where
  "legacy_get_current_slot e module =
     (if module = None then 0
      else if legacy_get_number_slots e module \<le> 1 then 0
      else (let bootSlotProp = property_get e ''ro.boot.slot_suffix'' ''N/A'' in
        if strncmp_eq bootSlotProp ''N/A'' 3 then 0
        else (case find (\<lambda>i. strncmp_eq bootSlotProp (slot_suffixes ! i) (length (slot_suffixes ! i)))
                     [0..<length slot_suffixes] of
                Some i \<Rightarrow> of_nat i
              | None \<Rightarrow> 0)))"

definition legacy_check_slot_sanity :: "env \<Rightarrow> hw_module \<Rightarrow> u32 \<Rightarrow> int" where
  "legacy_check_slot_sanity e module slot =
     (if module = None then -1
      else (let num_slots = legacy_get_number_slots e module in
        if num_slots < 1 \<or> slot > num_slots - 1 then -1 else 0))"

definition legacy_mark_boot_successful :: "env \<Rightarrow> hw_module \<Rightarrow> world \<Rightarrow> (int \<times> world) option" where
  "legacy_mark_boot_successful e module w =
     (if module = None then Some (-1, w)
      else do {
        suf \<leftarrow> suffix_at (legacy_get_current_slot e module);
        (r, w) \<leftarrow> update_slot_attribute e suf ATTR_BOOT_SUCCESSFUL w;
        Some (if r \<noteq> 0 then -1 else 0, w)
      })"

definition legacy_get_suffix :: "env \<Rightarrow> hw_module \<Rightarrow> u32 \<Rightarrow> string option option" where
  "legacy_get_suffix e module slot =
     (if legacy_check_slot_sanity e module slot \<noteq> 0 then Some None else suffix_at slot)"

definition legacy_set_active_boot_slot :: "env \<Rightarrow> hw_module \<Rightarrow> u32 \<Rightarrow> world \<Rightarrow> (int \<times> world) option" where
  "legacy_set_active_boot_slot e module slot w =
     (if legacy_check_slot_sanity e module slot \<noteq> 0 then Some (-1, w) else switch_slot e slot w)"

definition legacy_set_slot_as_unbootable :: "env \<Rightarrow> hw_module \<Rightarrow> u32 \<Rightarrow> world \<Rightarrow> (int \<times> world) option" where
  "legacy_set_slot_as_unbootable e module slot w =
     (if legacy_check_slot_sanity e module slot \<noteq> 0 then Some (-1, w)
      else do {
        suf \<leftarrow> suffix_at slot;
        (r, w) \<leftarrow> update_slot_attribute e suf ATTR_UNBOOTABLE w;
        Some (if r \<noteq> 0 then -1 else 0, w)
      })"

definition legacy_boot_attr :: "env \<Rightarrow> u32 \<Rightarrow> part_attr_type \<Rightarrow> world \<Rightarrow> (int \<times> world) option" where
  "legacy_boot_attr e slot attr w = do {
     suf \<leftarrow> suffix_at slot;
     suf \<leftarrow> suf;
     get_partition_attribute e (take (MAX_GPT_NAME_SIZE - 1) (''boot'' @ suf)) attr w
   }"

definition legacy_is_slot_bootable :: "env \<Rightarrow> hw_module \<Rightarrow> u32 \<Rightarrow> world \<Rightarrow> (int \<times> world) option" where
  "legacy_is_slot_bootable e module slot w =
     (if legacy_check_slot_sanity e module slot \<noteq> 0 then Some (-1, w)
      else do {
        (attr, w) \<leftarrow> legacy_boot_attr e slot ATTR_UNBOOTABLE w;
        Some (if attr \<ge> 0 then (if attr = 0 then 1 else 0) else -1, w)
      })"

definition legacy_is_slot_marked_successful :: "env \<Rightarrow> hw_module \<Rightarrow> u32 \<Rightarrow> world \<Rightarrow> (int \<times> world) option" where
  "legacy_is_slot_marked_successful e module slot w =
     (if legacy_check_slot_sanity e module slot \<noteq> 0 then Some (-1, w)
      else do {
        (attr, w) \<leftarrow> legacy_boot_attr e slot ATTR_BOOT_SUCCESSFUL w;
        Some (if attr \<ge> 0 then attr else -1, w)
      })"

section \<open>Both faces agree\<close>

text \<open>The result of a library call, with the state reduced to the devices.\<close>

definition on_world :: "(int \<times> 'm boot_state) option \<Rightarrow> (int \<times> world) option" where
  "on_world x = map_option (\<lambda>(r, s). (r, b_world s)) x"

lemma legacy_slots:
  "legacy_get_number_slots e (Some ()) = get_number_slots e False"
  "legacy_get_current_slot e (Some ()) = get_current_slot e False"
  "legacy_check_slot_sanity e (Some ()) slot = boot_control_check_slot_sanity e False slot"
  by (simp_all add: legacy_get_number_slots_def get_number_slots_def legacy_get_current_slot_def get_current_slot_def
      legacy_check_slot_sanity_def boot_control_check_slot_sanity_def)

lemma on_world_bind:
  "on_world (Option.bind x f) = Option.bind x (\<lambda>a. on_world (f a))"
  "on_world (if b then y else z) = (if b then on_world y else on_world z)"
  "on_world (Some p) = Some (fst p, b_world (snd p))"
  by (cases x; auto simp: on_world_def split: prod.splits)+

lemma bind_boot_attr:
  "Option.bind (boot_partition_attr e slot a s) (\<lambda>(r, s'). Some (f r, b_world s')) =
   Option.bind (legacy_boot_attr e slot a (b_world s)) (\<lambda>(r, w). Some (f r, w))"
  by (auto simp: boot_partition_attr_def legacy_boot_attr_def split: prod.splits intro!: Option.bind_cong [OF refl])

text \<open>
  The older module and the library are the same program on a device that is not the GVMQ
  platform: with a module pointer, every operation of the module returns the code of the
  library's operation and leaves the same devices.
\<close>

theorem legacy_equivalent:
  assumes "\<not> mGvmqPlatform s"
  shows "legacy_mark_boot_successful e (Some ()) (b_world s) = on_world (mark_boot_successful e ops s) \<and>
    legacy_set_active_boot_slot e (Some ()) slot (b_world s) = on_world (set_active_boot_slot e ops slot s) \<and>
    legacy_set_slot_as_unbootable e (Some ()) slot (b_world s) = on_world (set_slot_as_unbootable e slot s) \<and>
    legacy_is_slot_bootable e (Some ()) slot (b_world s) = on_world (is_slot_bootable e slot s) \<and>
    legacy_is_slot_marked_successful e (Some ()) slot (b_world s) = on_world (is_slot_marked_successful e slot s) \<and>
    legacy_get_suffix e (Some ()) slot = get_suffix e slot s"
  using assms
  by (auto simp: legacy_mark_boot_successful_def mark_boot_successful_def legacy_set_active_boot_slot_def
      set_active_boot_slot_def legacy_set_slot_as_unbootable_def set_slot_as_unbootable_def
      legacy_is_slot_bootable_def is_slot_bootable_def legacy_is_slot_marked_successful_def is_slot_marked_successful_def
      legacy_get_suffix_def get_suffix_def legacy_slots on_world_bind bind_boot_attr prod.case_distrib [of on_world]
      case_prod_beta simp flip: bind_boot_attr intro!: Option.bind_cong [OF refl])

theorem legacy_equivalent_witness:
  "legacy_is_slot_bootable boot_env (Some ()) 0 (b_world boot_world) = on_world (is_slot_bootable boot_env 0 boot_world)"
  using legacy_equivalent [of boot_world boot_env null_ops 0] by (simp add: boot_world_def)

end
