(* ===== verification/BootSwitch.thy ===== *)
theory BootSwitch
  imports BootHal
begin

unbundle bit_operations_syntax

text \<open>
  Switching the active slot, \<open>boot_ctl_set_active_slot_for_partitions\<close>: the code loads one disk
  for the A versions and one for the B versions of a list of partitions, changes the entries in
  memory and commits both. This theory follows the two disks through the loop and shows what the
  device tables hold afterwards, for versions on two devices and on one.
\<close>

section \<open>Disks in memory\<close>

text \<open>A disk loaded from \<open>d\<close> at \<open>path\<close> whose entries have since become \<open>es\<close> and \<open>esb\<close>.\<close>

definition in_mem :: "blkdev \<Rightarrow> string \<Rightarrow> (gpt_instance \<Rightarrow> bytes list) \<Rightarrow> gpt_disk \<Rightarrow> bool" where
  "in_mem d path es disk \<longleftrightarrow> gd_is_initialized disk = 0xABCD \<and> gd_devpath disk = path \<and>
     unat (gd_pentry_size disk) = 128 \<and> unat (gd_pentry_arr_size disk) = 128 * length (entries d PRIMARY_GPT) \<and>
     (\<forall>gpt. entries_wf (es gpt) \<and> length (es gpt) = length (entries d gpt) \<and>
        (\<exists>h. holds disk gpt h (concat (es gpt)) \<and> length h = unat (bd_blksz d) \<and>
           hdr_region h (bd_blksz d) = region d gpt \<and> GET_4_BYTES h 12 = GET_4_BYTES (hdr_bytes d gpt) 12))"

lemma in_memD:
  assumes "in_mem d path es disk"
  obtains h where "holds disk gpt h (concat (es gpt))" "length h = unat (bd_blksz d)"
    "hdr_region h (bd_blksz d) = region d gpt" "entries_wf (es gpt)" "length (es gpt) = length (entries d gpt)"
    "GET_4_BYTES h 12 = GET_4_BYTES (hdr_bytes d gpt) 12"
  using assms unfolding in_mem_def by blast

lemma loaded_in_mem:
  assumes "loaded d path disk" "std d"
  shows "in_mem d path (entries d) disk"
proof -
  obtain p q n where at: "tables_at d p q n" using assms(2) by (auto simp: std_def tables_ok_def)
  have "unat (gd_pentry_arr_size disk) = length (table d PRIMARY_GPT)"
    using assms(1) tables_at_region [OF at, of PRIMARY_GPT] length_table [OF at, of PRIMARY_GPT]
    by (auto simp: loaded_def region_def hdr_region_def bind_eq_Some_conv split: if_splits)
  moreover have "\<exists>h. holds disk gpt h (concat (entries d gpt)) \<and> length h = unat (bd_blksz d) \<and>
      hdr_region h (bd_blksz d) = region d gpt \<and> GET_4_BYTES h 12 = GET_4_BYTES (hdr_bytes d gpt) 12" for gpt
    using assms(1) std_entries [OF assms(2), of gpt] tables_at_geom [OF at]
    by (cases gpt) (auto simp: loaded_def region_def geom_def)
  ultimately show ?thesis
    using assms std_len [OF assms(2), of PRIMARY_GPT] std_entries [OF assms(2)]
    by (auto simp: in_mem_def loaded_def std_def)
qed

lemma seek_in_mem:
  assumes "in_mem d path es disk" "std d"
  shows "gpt_disk_get_pentry disk part gpt =
     Some (map_option (\<lambda>i. 128 * i) (entry_index (cstr part) (es gpt) 0))"
proof -
  obtain h where h: "holds disk gpt h (concat (es gpt))" "entries_wf (es gpt)" "length (es gpt) = length (entries d gpt)"
    using in_memD [OF assms(1)] by blast
  have n: "unat (gd_pentry_arr_size disk) = 128 * length (es gpt)" "unat (gd_pentry_size disk) = 128"
    "gd_is_initialized disk = 0xABCD"
    using assms(1) h(3) entries_length [OF assms(2), of gpt PRIMARY_GPT] by (simp_all add: in_mem_def)
  have arr: "(if gpt = PRIMARY_GPT then gd_pentry_arr disk else gd_pentry_arr_bak disk) = Some (concat (es gpt))"
    using h(1) by (cases gpt) auto
  show ?thesis
    using seek_concat [OF h(2), of "cstr part" 0] n unfolding gpt_disk_get_pentry_def arr by simp
qed

lemma in_mem_fits:
  assumes "in_mem d path es disk" "std d"
  shows "fits_disk d disk"
proof -
  have "\<exists>h a. holds disk gpt h a \<and> fits_copy d gpt h a" for gpt
  proof -
    obtain h where "holds disk gpt h (concat (es gpt))" "length h = unat (bd_blksz d)"
      "hdr_region h (bd_blksz d) = region d gpt" "entries_wf (es gpt)" "length (es gpt) = length (entries d gpt)"
      by (rule in_memD [OF assms(1)])
    moreover from this have "length (concat (es gpt)) = length (table d gpt)"
      using std_len [OF assms(2), of gpt] by (simp add: length_concat_wf)
    ultimately show ?thesis by (auto simp: fits_copy_def)
  qed
  then show ?thesis using assms(1) by (simp add: fits_disk_def in_mem_def)
qed

lemma crc_in_mem:
  assumes m: "in_mem d path es disk" and std: "std d" and u: "gpt_disk_update_crc e disk = Some (r, disk')"
  shows "r = 0 \<and> in_mem d path es disk'"
proof -
  obtain h where h: "holds disk PRIMARY_GPT h (concat (es PRIMARY_GPT))" "length h = unat (bd_blksz d)"
    "hdr_region h (bd_blksz d) = region d PRIMARY_GPT"
    "GET_4_BYTES h 12 = GET_4_BYTES (hdr_bytes d PRIMARY_GPT) 12" by (rule in_memD [OF m])
  obtain hb where hb: "holds disk SECONDARY_GPT hb (concat (es SECONDARY_GPT))" "length hb = unat (bd_blksz d)"
    "hdr_region hb (bd_blksz d) = region d SECONDARY_GPT"
    "GET_4_BYTES hb 12 = GET_4_BYTES (hdr_bytes d SECONDARY_GPT) 12" by (rule in_memD [OF m])
  have "geom d" using std tables_at_geom by (auto simp: std_def tables_ok_def)
  then have l: "92 \<le> length h" "92 \<le> length hb" using h(2) hb(2) by (simp_all add: geom_def)
  have init: "gd_is_initialized disk = 0xABCD" using m by (simp add: in_mem_def)
  from wpD [OF update_crc_wp [OF init h(1) l(1) hb(1) l(2)] u] obtain h' hb' where
    "r = 0" "holds disk' PRIMARY_GPT h' (concat (es PRIMARY_GPT))" "holds disk' SECONDARY_GPT hb' (concat (es SECONDARY_GPT))"
    "length h' = length h" "length hb' = length hb" "GET_4_BYTES h' 12 = GET_4_BYTES h 12" "GET_4_BYTES hb' 12 = GET_4_BYTES hb 12"
    "hdr_region h' (bd_blksz d) = hdr_region h (bd_blksz d)" "hdr_region hb' (bd_blksz d) = hdr_region hb (bd_blksz d)"
    "gd_is_initialized disk' = 0xABCD" "gd_devpath disk' = gd_devpath disk"
    "gd_pentry_arr_size disk' = gd_pentry_arr_size disk" "gd_pentry_size disk' = gd_pentry_size disk"
    by auto
  moreover have "\<exists>h. holds disk' gpt h (concat (es gpt)) \<and> length h = unat (bd_blksz d) \<and>
      hdr_region h (bd_blksz d) = region d gpt \<and> GET_4_BYTES h 12 = GET_4_BYTES (hdr_bytes d gpt) 12" for gpt
    using calculation h hb by (cases gpt) auto
  ultimately show ?thesis using m by (simp add: in_mem_def)
qed

section \<open>One slot update\<close>

definition slot_entry :: "bytes \<Rightarrow> bool \<Rightarrow> bytes \<Rightarrow> bytes" where
  "slot_entry guid active x = (guid @ drop TYPE_GUID_SIZE x)[AB_FLAG_OFFSET :=
     (if active then AB_SLOT_ACTIVE_VAL else x ! AB_FLAG_OFFSET AND NOT AB_PARTITION_ATTR_SLOT_ACTIVE)]"

lemma length_slot_entry: "length guid = 16 \<Longrightarrow> length x = 128 \<Longrightarrow> length (slot_entry guid active x) = 128"
  by (simp add: slot_entry_def)

lemma UPDATE_SLOT_concat:
  assumes wf: "entries_wf es" and i: "i < length es" and g: "length guid = 16"
  shows "UPDATE_SLOT (concat es) (128 * i) guid active = Some (concat (es[i := slot_entry guid active (es ! i)]))"
proof -
  have x: "length (es ! i) = 128" using wf i by (rule entries_wf_len)
  let ?x = "guid @ drop 16 (es ! i)"
  have len: "128 * i + 128 \<le> length (concat es)" using wf i by (simp add: length_concat_wf)
  have "overwrite (128 * i) guid (concat es) = overwrite (128 * i) ?x (concat es)"
  proof (rule nth_equalityI)
    show "length (overwrite (128 * i) guid (concat es)) = length (overwrite (128 * i) ?x (concat es))"
      using len g x by simp
    fix k assume "k < length (overwrite (128 * i) guid (concat es))"
    then have k: "k < length (concat es)" using len g by simp
    have "concat es ! k = es ! i ! (k - 128 * i)" if "128 * i \<le> k" "k < 128 * i + 128"
      using nth_concat_wf [OF wf i, of "k - 128 * i"] that by simp
    then show "overwrite (128 * i) guid (concat es) ! k = overwrite (128 * i) ?x (concat es) ! k"
      using len g x k by (auto simp: nth_overwrite nth_append)
  qed
  also have "\<dots> = concat (es[i := ?x])" using overwrite_concat_wf [OF wf i, of ?x] g x by simp
  finally have over: "overwrite (128 * i) guid (concat es) = concat (es[i := ?x])" .
  have wf': "entries_wf (es[i := ?x])" using wf g x by (simp add: entries_wf_update)
  have flag: "concat (es[i := ?x]) ! (128 * i + 54) = es ! i ! 54"
    using nth_concat_wf [OF wf', of i 54] i g x by (simp add: nth_append)
  have "(concat (es[i := ?x]))[128 * i + 54 := b] = concat (es[i := ?x[54 := b]])" for b
    using concat_mark [OF wf', of i b] i by (simp add: mark_def)
  then show ?thesis
    using len over flag by (simp add: UPDATE_SLOT_def Let_def slot_entry_def)
qed

lemma entry_name_slot_entry:
  "length guid = 16 \<Longrightarrow> length x = 128 \<Longrightarrow> entry_name (slot_entry guid active x) = entry_name x"
  by (simp add: entry_name_def pentry_name8_def slot_entry_def nth_append cong: map_cong)


lemma entry_index_slot_entry:
  assumes "entries_wf es" "i < length es" "length guid = 16"
  shows "entry_index nm (es[i := slot_entry guid active (es ! i)]) k = entry_index nm es k"
proof (rule entry_index_cong)
  fix j assume "j < length es"
  then show "pentry_match nm (entry_name (es[i := slot_entry guid active (es ! i)] ! j)) = pentry_match nm (entry_name (es ! j))"
    using entry_name_slot_entry [OF assms(3) entries_wf_len [OF assms(1,2)]] by (cases "i = j") auto
qed simp

text \<open>The attribute byte of a name in a list of entries, and the change of one name's entry.\<close>

definition attr_of :: "bytes list \<Rightarrow> string \<Rightarrow> u8 option" where
  "attr_of es nm = map_option (\<lambda>i. es ! i ! AB_FLAG_OFFSET) (entry_index (cstr nm) es 0)"

definition slot_state :: "bool \<Rightarrow> u8 option \<Rightarrow> bool" where
  "slot_state active b \<longleftrightarrow>
     (if active then b = Some AB_SLOT_ACTIVE_VAL else (\<exists>x. b = Some x \<and> x AND AB_PARTITION_ATTR_SLOT_ACTIVE = 0))"

definition turned :: "bool \<Rightarrow> string list \<Rightarrow> bytes list \<Rightarrow> bytes list \<Rightarrow> bool" where
  "turned active ns es es' \<longleftrightarrow>
     (\<forall>nm. slot_name nm \<and> nm \<notin> set ns \<longrightarrow> attr_of es' nm = attr_of es nm) \<and>
     (\<forall>nm \<in> set ns. slot_state active (attr_of es' nm))"

lemma turned_Nil [simp]: "turned active [] es es"
  by (simp add: turned_def)

lemma turned_trans:
  "turned active [n] es es1 \<Longrightarrow> turned active ns es1 es2 \<Longrightarrow> slot_name n \<Longrightarrow> turned active (n # ns) es es2"
  unfolding turned_def by (intro conjI allI ballI impI; cases "n \<in> set ns") auto

lemma turned_slot_entry:
  assumes wf: "entries_wf es" and i: "entry_index (cstr n) es 0 = Some i" and g: "length guid = 16" and n: "slot_name n"
  shows "turned active [n] es (es[i := slot_entry guid active (es ! i)])"
proof -
  have lt: "i < length es" using entry_index_SomeD [OF i] by blast
  have x: "length (es ! i) = 128" using wf lt by (rule entries_wf_len)
  note idx = entry_index_slot_entry [OF wf lt g]
  have "attr_of (es[i := slot_entry guid active (es ! i)]) m = attr_of es m" if "slot_name m" "m \<noteq> n" for m
  proof -
    have "compat (cstr n) (cstr m)" using that n cstr_inj by (auto simp: slot_name_def intro!: compatI)
    then have "j \<noteq> i" if "entry_index (cstr m) es 0 = Some j" for j
      using entry_index_SomeD [OF i] entry_index_SomeD [OF that] by (auto simp: compat_def)
    then show ?thesis by (cases "entry_index (cstr m) es 0") (auto simp: attr_of_def idx)
  qed
  moreover have "attr_of (es[i := slot_entry guid active (es ! i)]) n =
      Some (if active then 0x3F else es ! i ! 54 AND NOT 4)"
    unfolding attr_of_def idx i using lt x g by (simp add: slot_entry_def nth_append)
  moreover have "(b AND NOT 4) AND 4 = 0" for b :: u8 by (simp add: and.assoc)
  ultimately show ?thesis by (auto simp: turned_def slot_state_def)
qed

lemma update_slot_in_mem:
  assumes m: "in_mem d path es disk" and n: "slot_name n" and g: "length guid = 16"
    and i: "\<And>gpt. entry_index (cstr n) (es gpt) 0 = Some (k gpt)"
    and u: "update_disk_slot disk (128 * k PRIMARY_GPT) (128 * k SECONDARY_GPT) guid active = Some disk'"
  shows "\<exists>es'. in_mem d path es' disk' \<and> (\<forall>gpt. turned active [n] (es gpt) (es' gpt))"
proof -
  let ?es = "\<lambda>gpt. (es gpt)[k gpt := slot_entry guid active (es gpt ! k gpt)]"
  have wf: "entries_wf (es gpt)" "k gpt < length (es gpt)" for gpt
    using m entry_index_SomeD [OF i] by (auto simp: in_mem_def)
  obtain h hb where h: "holds disk PRIMARY_GPT h (concat (es PRIMARY_GPT))" "holds disk SECONDARY_GPT hb (concat (es SECONDARY_GPT))"
    using in_memD [OF m] by metis
  have "disk' = disk\<lparr>gd_pentry_arr := Some (concat (?es PRIMARY_GPT)), gd_pentry_arr_bak := Some (concat (?es SECONDARY_GPT))\<rparr>"
    using u h UPDATE_SLOT_concat [OF wf g] by (simp add: update_disk_slot_def)
  moreover have "entries_wf (?es gpt)" for gpt
    using wf entries_wf_update length_slot_entry [OF g entries_wf_len [OF wf]] by blast
  moreover have "\<exists>h. holds disk' gpt h (concat (?es gpt)) \<and> length h = unat (bd_blksz d) \<and>
      hdr_region h (bd_blksz d) = region d gpt \<and> GET_4_BYTES h 12 = GET_4_BYTES (hdr_bytes d gpt) 12" for gpt
    by (rule in_memD [OF m, of gpt]) (use calculation(1) in \<open>cases gpt; auto\<close>)
  ultimately have "in_mem d path ?es disk'" using m by (simp add: in_mem_def)
  with turned_slot_entry [OF wf(1) i g n] show ?thesis by blast
qed

section \<open>One partition\<close>

lemma type_guid_length: "type_guid disk p = Some g \<Longrightarrow> length g = 16"
  by (auto simp: type_guid_def bind_eq_Some_conv length_slice split: if_splits)

lemma slot_guids_wp:
  assumes "world_ok w"
  shows "wp (slot_guids e nA nB diskA diskB pA pB w) (\<lambda>(g, w'). w_dev w' = w_dev w \<and>
     (\<forall>a i. g = Some (a, i) \<longrightarrow> length a = 16 \<and> length i = 16))"
proof -
  have A: "w_dev w' = w_dev w1" if "get_partition_attribute e n a w1 = Some (r, w')" "w_dev w1 = w_dev w" for n a w1 r w'
    using wpD [OF get_attribute_wp that(1)] assms that(2) by (simp add: world_ok_def)
  show ?thesis
    unfolding slot_guids_def wp_rules by (auto dest!: A type_guid_length)
qed

text \<open>The four slot updates of one turn: the chosen version is turned on, the other one off.\<close>

lemma update_slots_in_mem:
  assumes A: "in_mem dA pathA esA diskA" "\<And>gpt. entry_index (cstr nA) (esA gpt) 0 = Some (kA gpt)" "slot_name nA"
    and B: "in_mem dB pathB esB diskB" "\<And>gpt. entry_index (cstr nB) (esB gpt) 0 = Some (kB gpt)" "slot_name nB"
    and g: "length active = 16" "length inactive = 16" and suf: "suffix_at slot = Some (Some suf)"
    and u: "update_slots suf active inactive diskA (128 * kA PRIMARY_GPT) (128 * kA SECONDARY_GPT)
        diskB (128 * kB PRIMARY_GPT) (128 * kB SECONDARY_GPT) = Some (Some (diskA', diskB'))"
  shows "(\<exists>es. in_mem dA pathA es diskA' \<and> (\<forall>gpt. turned (slot = 0) [nA] (esA gpt) (es gpt))) \<and>
     (\<exists>es. in_mem dB pathB es diskB' \<and> (\<forall>gpt. turned (slot \<noteq> 0) [nB] (esB gpt) (es gpt)))"
proof -
  note UA = update_slot_in_mem [OF A(1,3) _ A(2)] and UB = update_slot_in_mem [OF B(1,3) _ B(2)]
  from suf consider "slot = 0" "suf = ''_a''" | "slot = 1" "suf = ''_b''" by (auto simp: suffix_at_cases)
  then show ?thesis
  proof cases
    case 1
    with u UA [OF g(1), of True diskA'] UB [OF g(2), of False diskB'] show ?thesis
      by (auto simp: update_slots_def bind_eq_Some_conv strncmp_eq_def AB_SLOT_A_SUFFIX_def split: if_splits)
  next
    case 2
    with u UA [OF g(2), of False diskA'] UB [OF g(1), of True diskB'] show ?thesis
      by (auto simp: update_slots_def bind_eq_Some_conv strncmp_eq_def AB_SLOT_A_SUFFIX_def AB_SLOT_B_SUFFIX_def split: if_splits)
  qed
qed

lemma switch_partition_wp:
  assumes w: "world_ok w" and p: "length p \<le> 69"
    and A: "in_mem dA pathA esA diskA" "std dA" and B: "in_mem dB pathB esB diskB" "std dB"
  shows "wp (switch_partition e slot p diskA diskB w) (\<lambda>(r, w'). w_dev w' = w_dev w \<and>
     (\<forall>diskA' diskB'. r = Inr (diskA', diskB') \<longrightarrow>
        (\<exists>es. in_mem dA pathA es diskA' \<and> (\<forall>gpt. turned (slot = 0) [p @ ''_a''] (esA gpt) (es gpt))) \<and>
        (\<exists>es. in_mem dB pathB es diskB' \<and> (\<forall>gpt. turned (slot \<noteq> 0) [p @ ''_b''] (esB gpt) (es gpt)))))"
proof -
  let ?nA = "p @ ''_a''" and ?nB = "p @ ''_b''"
  have nm: "take (MAX_GPT_NAME_SIZE - 1) (p @ AB_SLOT_A_SUFFIX) = ?nA" "take (MAX_GPT_NAME_SIZE - 1) (p @ AB_SLOT_B_SUFFIX) = ?nB"
    "slot_name ?nA" "slot_name ?nB"
    using p slot_name_suffix by (simp_all add: AB_SLOT_A_SUFFIX_def AB_SLOT_B_SUFFIX_def)
  let ?kA = "\<lambda>gpt. the (entry_index (cstr ?nA) (esA gpt) 0)" and ?kB = "\<lambda>gpt. the (entry_index (cstr ?nB) (esB gpt) 0)"
  note sA = seek_in_mem [OF A, of ?nA] and sB = seek_in_mem [OF B, of ?nB]
  have turn: "(\<exists>es. in_mem dA pathA es diskA' \<and> (\<forall>gpt. turned (slot = 0) [?nA] (esA gpt) (es gpt))) \<and>
        (\<exists>es. in_mem dB pathB es diskB' \<and> (\<forall>gpt. turned (slot \<noteq> 0) [?nB] (esB gpt) (es gpt)))"
    if pe: "gpt_disk_get_pentry diskA ?nA PRIMARY_GPT = Some (Some pA)" "gpt_disk_get_pentry diskA ?nA SECONDARY_GPT = Some (Some pA')"
        "gpt_disk_get_pentry diskB ?nB PRIMARY_GPT = Some (Some pB)" "gpt_disk_get_pentry diskB ?nB SECONDARY_GPT = Some (Some pB')"
      and g: "slot_guids e ?nA ?nB diskA diskB pA pB w = Some (Some (g1, g2), w1)" and suf: "suffix_at slot = Some (Some suf)"
      and u: "update_slots suf g1 g2 diskA pA pA' diskB pB pB' = Some (Some (diskA1, diskB1))"
      and c: "gpt_disk_update_crc e diskA1 = Some (r, diskA')" "gpt_disk_update_crc e diskB1 = Some (r', diskB')"
    for pA pA' pB pB' g1 g2 w1 suf diskA1 diskB1 diskA' diskB' r r'
  proof -
    have ix: "entry_index (cstr ?nA) (esA gpt) 0 = Some (?kA gpt)" "entry_index (cstr ?nB) (esB gpt) 0 = Some (?kB gpt)" for gpt
      using pe by (cases gpt; auto simp: sA sB)+
    have k: "pA = 128 * ?kA PRIMARY_GPT" "pA' = 128 * ?kA SECONDARY_GPT" "pB = 128 * ?kB PRIMARY_GPT" "pB' = 128 * ?kB SECONDARY_GPT"
      using pe by (auto simp: sA sB)
    have len: "length g1 = 16" "length g2 = 16" using wpD [OF slot_guids_wp [OF w] g] by auto
    from update_slots_in_mem [OF A(1) ix(1) nm(3) B(1) ix(2) nm(4) len suf u [unfolded k]]
    show ?thesis using crc_in_mem [OF _ A(2) c(1)] crc_in_mem [OF _ B(2) c(2)] by blast
  qed
  have dev: "w_dev w' = w_dev w" if "slot_guids e ?nA ?nB diskA diskB pA pB w = Some (g, w')" for pA pB g w'
    using wpD [OF slot_guids_wp [OF w] that] by auto
  show ?thesis
    unfolding switch_partition_def Let_def nm(1,2) wp_rules
    by (intro allI impI conjI; clarsimp simp: dev; rule turn)
qed

section \<open>All partitions\<close>

text \<open>A disk that is loaded when the first partition asks for it.\<close>

fun held :: "blkdev \<Rightarrow> string \<Rightarrow> (gpt_instance \<Rightarrow> bytes list) \<Rightarrow> gpt_disk option \<Rightarrow> bool" where
  "held d path es None \<longleftrightarrow> es = entries d"
| "held d path es (Some disk) \<longleftrightarrow> in_mem d path es disk"

definition held_turned ::
  "blkdev \<Rightarrow> string \<Rightarrow> bool \<Rightarrow> string list \<Rightarrow> (gpt_instance \<Rightarrow> bytes list) \<Rightarrow> gpt_disk option \<Rightarrow> bool" where
  "held_turned d path active ns es disk \<longleftrightarrow>
     (\<exists>es'. held d path es' disk \<and> (\<forall>gpt. turned active ns (es gpt) (es' gpt)))"

lemma held_turned_Cons:
  "(\<And>gpt. turned active [n] (es gpt) (es1 gpt)) \<Longrightarrow> slot_name n \<Longrightarrow> held_turned d path active ns es1 disk \<Longrightarrow>
     held_turned d path active (n # ns) es disk"
  unfolding held_turned_def using turned_trans by meson

lemma ensure_disk_wp:
  assumes w: "world_ok w" "w_dev w path = Some d" and n: "get_dev_path_from_partition_name e n PATH_MAX = Some path"
    and h: "held d path es disk"
  shows "wp (ensure_disk e n disk w) (\<lambda>(disk', w'). w_dev w' = w_dev w \<and> (disk' \<noteq> None \<longrightarrow> held d path es disk'))"
proof (cases disk)
  case None
  have L: "w_dev w' = w_dev w \<and> (r = 0 \<longrightarrow> in_mem d path es disk')"
    if run: "gpt_disk_get_disk_info e n disk0 w1 = Some (r, disk', w')" and w1: "w_dev w1 = w_dev w" for r disk0 disk' w1 w'
  proof (intro conjI impI)
    show "w_dev w' = w_dev w" using get_disk_info_frame(1) [OF run] w1 by simp
    assume "r = 0"
    with run w w1 have "gpt_disk_get_disk_info e n disk0 w1 = Some (0, disk', w')" "world_ok w1" by (auto simp: world_ok_def)
    from get_disk_info_ok [OF this] obtain d0 where "w_dev w1 path = Some d0" "std d0" "loaded d0 path disk'" using n by auto
    with w w1 h None show "in_mem d path es disk'" using loaded_in_mem by auto
  qed
  show ?thesis
    using None unfolding ensure_disk_def boot_ctl_get_disk_info_def option.case wp_rules
    by (auto dest!: L disk_alloc_dev)
qed (use h in \<open>simp add: ensure_disk_def wp_Some\<close>)

text \<open>The prefixes of the partitions that exist in both slots, those the loop works on.\<close>

definition switched :: "env \<Rightarrow> string list \<Rightarrow> string list" where
  "switched e parts = filter (ab_ptn_exists e) (map (\<lambda>p. take (length p - 2) p) parts)"

definition placed :: "env \<Rightarrow> string list \<Rightarrow> string \<Rightarrow> string \<Rightarrow> bool" where
  [guard_defs]: "placed e parts pathA pathB \<longleftrightarrow> (\<forall>p \<in> set (switched e parts). length p \<le> 69 \<and>
     get_dev_path_from_partition_name e (p @ ''_a'') PATH_MAX = Some pathA \<and>
     get_dev_path_from_partition_name e (p @ ''_b'') PATH_MAX = Some pathB)"

definition names :: "string \<Rightarrow> string list \<Rightarrow> string list" where
  "names suf ps = map (\<lambda>p. p @ suf) ps"

lemma switch_loop_wp:
  assumes w: "world_ok w" "w_dev w pathA = Some dA" "w_dev w pathB = Some dB" and at: "placed e parts pathA pathB"
    and h: "held dA pathA esA diskA" "held dB pathB esB diskB" "diskA = None \<longleftrightarrow> diskB = None"
  shows "wp (switch_loop e slot parts diskA diskB w) (\<lambda>(r, w'). w_dev w' = w_dev w \<and>
     (\<forall>diskA' diskB'. r = Inr (diskA', diskB') \<longrightarrow> (diskA' = None \<longleftrightarrow> diskB' = None) \<and>
        held_turned dA pathA (slot = 0) (names ''_a'' (switched e parts)) esA diskA' \<and>
        held_turned dB pathB (slot \<noteq> 0) (names ''_b'' (switched e parts)) esB diskB'))"
  using assms
proof (induction parts arbitrary: diskA diskB esA esB w)
  case Nil
  then show ?case by (auto simp: wp_Some names_def switched_def held_turned_def intro: exI [of _ esA] exI [of _ esB])
next
  case (Cons part parts)
  let ?p = "take (length part - 2) part"
  have at: "placed e parts pathA pathB" using Cons.prems(4) by (auto simp: placed_def switched_def)
  have std: "std dA" "std dB" using Cons.prems(1,2,3) by (auto simp: world_ok_def)
  have suf: "length AB_SLOT_A_SUFFIX = 2" by (simp add: AB_SLOT_A_SUFFIX_def)
  show ?case
  proof (cases "ab_ptn_exists e ?p")
    case False
    then have "switched e (part # parts) = switched e parts" by (simp add: switched_def)
    with Cons.IH [OF Cons.prems(1-3) at Cons.prems(5-7)] False show ?thesis by (simp add: wp_Some suf)
  next
    case True
    then have sw: "switched e (part # parts) = ?p # switched e parts" by (simp add: switched_def)
    have p: "length ?p \<le> 69" "get_dev_path_from_partition_name e (?p @ ''_a'') PATH_MAX = Some pathA"
      "get_dev_path_from_partition_name e (?p @ ''_b'') PATH_MAX = Some pathB"
      using Cons.prems(4) unfolding placed_def sw by auto
    have nm: "take (MAX_GPT_NAME_SIZE - 1) (?p @ AB_SLOT_A_SUFFIX) = ?p @ ''_a''"
      "take (MAX_GPT_NAME_SIZE - 1) (?p @ AB_SLOT_B_SUFFIX) = ?p @ ''_b''"
      using p(1) by (simp_all add: AB_SLOT_A_SUFFIX_def AB_SLOT_B_SUFFIX_def)
    have cong: "world_ok w1" "w_dev w1 pathA = Some dA" "w_dev w1 pathB = Some dB" if "w_dev w1 = w_dev w" for w1
      using that Cons.prems(1-3) by (simp_all add: world_ok_def)
    have LA: "w_dev w1 = w_dev w \<and> (x \<noteq> None \<longrightarrow> held dA pathA esA x)" if "ensure_disk e (?p @ ''_a'') diskA w = Some (x, w1)" for x w1
      using wpD [OF ensure_disk_wp [OF Cons.prems(1,2) p(2) Cons.prems(5)] that] by simp
    have LB: "w_dev w2 = w_dev w \<and> (x \<noteq> None \<longrightarrow> held dB pathB esB x)"
      if "ensure_disk e (?p @ ''_b'') diskB w1 = Some (x, w2)" "w_dev w1 = w_dev w" for x w1 w2
      using wpD [OF ensure_disk_wp [OF cong(1,3) [OF that(2)] p(3) Cons.prems(6)] that(1)] that(2) by simp
    have LP: "w_dev w3 = w_dev w" if "switch_partition e slot ?p A B w2 = Some (r, w3)" "w_dev w2 = w_dev w"
        "held dA pathA esA (Some A)" "held dB pathB esB (Some B)" for A B w2 r w3
      using wpD [OF switch_partition_wp [OF cong(1) [OF that(2)] p(1) _ std(1) _ std(2)] that(1)] that(2-4) by auto
    have rec: "wp (switch_loop e slot parts (Some A2) (Some B2) w3) (\<lambda>(r, w'). w_dev w' = w_dev w \<and>
        (\<forall>diskA' diskB'. r = Inr (diskA', diskB') \<longrightarrow> (diskA' = None \<longleftrightarrow> diskB' = None) \<and>
          held_turned dA pathA (slot = 0) (names ''_a'' (?p # switched e parts)) esA diskA' \<and>
          held_turned dB pathB (slot \<noteq> 0) (names ''_b'' (?p # switched e parts)) esB diskB'))"
      if run: "switch_partition e slot ?p A B w2 = Some (Inr (A2, B2), w3)" and dev: "w_dev w2 = w_dev w"
        and AB: "held dA pathA esA (Some A)" "held dB pathB esB (Some B)" for A B w2 A2 B2 w3
    proof -
      from wpD [OF switch_partition_wp [OF cong(1) [OF dev] p(1) _ std(1) _ std(2)] run] AB obtain es1 es2 where
        1: "held dA pathA es1 (Some A2)" "\<And>gpt. turned (slot = 0) [?p @ ''_a''] (esA gpt) (es1 gpt)" and
        2: "held dB pathB es2 (Some B2)" "\<And>gpt. turned (slot \<noteq> 0) [?p @ ''_b''] (esB gpt) (es2 gpt)" and
        dev3: "w_dev w3 = w_dev w" using dev by auto blast
      note N = slot_name_suffix [of "''_a''" ?p] slot_name_suffix [of "''_b''" ?p]
      note IH = Cons.IH [OF cong [OF dev3] at 1(1) 2(1), simplified dev3]
      note TA = held_turned_Cons [OF 1(2) N(1)] and TB = held_turned_Cons [OF 2(2) N(2)]
      show ?thesis
        by (rule wp_mono2 [OF IH]) (auto simp: names_def intro: TA TB)
    qed
    have LAB: "w_dev w2 = w_dev w \<and> held dA pathA esA (Some A) \<and> (\<forall>B. y = Some B \<longrightarrow> held dB pathB esB (Some B))"
      if "ensure_disk e (?p @ ''_a'') diskA w = Some (Some A, w1)" "ensure_disk e (?p @ ''_b'') diskB w1 = Some (y, w2)" for A w1 y w2
      using LA [OF that(1)] LB [OF that(2)] by auto
    show ?thesis
      unfolding sw switch_loop.simps Let_def suf nm wp_rules
      apply (intro allI impI conjI)
      subgoal by simp
      subgoal using True by simp
      subgoal by (auto dest: LA)
      subgoal by (auto dest: LAB)
      subgoal using LP by (auto dest!: LAB)
      subgoal by (auto dest!: LAB intro: rec)
      done
  qed
qed

section \<open>The commits\<close>

definition layout :: "blkdev \<Rightarrow> blkdev \<Rightarrow> bool" where
  "layout d d' \<longleftrightarrow> tables_ok d' \<and> bd_blksz d' = bd_blksz d \<and> (\<forall>g. region d' g = region d g)"

lemma fits_disk_layout:
  assumes "fits_disk d disk" "tables_ok d" "layout d d'"
  shows "fits_disk d' disk"
proof -
  obtain p q n where at: "tables_at d p q n" using assms(2) by (auto simp: tables_ok_def)
  obtain p' q' n' where at': "tables_at d' p' q' n'" using assms(3) by (auto simp: tables_ok_def layout_def)
  have "n' = n" using tables_at_region [OF at, of PRIMARY_GPT] tables_at_region [OF at', of PRIMARY_GPT] assms(3)
    by (simp add: layout_def)
  then have "fits_copy d' gpt h a" if "fits_copy d gpt h a" for gpt h a
    using that assms(3) by (simp add: fits_copy_def layout_def length_table [OF at] length_table [OF at'])
  then show ?thesis using assms(1) unfolding fits_disk_def by blast
qed

text \<open>A disk loaded from \<open>d\<close> is written to the device that is at its path by now.\<close>

lemma commit_held_wp:
  assumes d: "std d" "w_dev w path = Some d'" "layout d d'" and h: "held d path es disk"
  shows "wp (commit_opt e disk w) (\<lambda>(r, w'). r = 0 \<longrightarrow> (\<exists>d2. w_dev w' = (w_dev w)(path \<mapsto> d2) \<and> layout d d2 \<and>
     (if disk = None then d2 = d' else \<forall>gpt. entries d2 gpt = es gpt)))"
proof (cases disk)
  case None
  then show ?thesis using d by (auto simp: commit_opt_def wp_Some fun_upd_idem)
next
  case (Some dk)
  then have m: "in_mem d path es dk" using h by simp
  then have path: "gd_devpath dk = path" by (simp add: in_mem_def)
  have ok: "tables_ok d'" "tables_ok d" using d by (simp_all add: layout_def std_def)
  have fit: "fits_disk d' dk" using fits_disk_layout [OF in_mem_fits [OF m d(1)] ok(2) d(3)] .
  have "entries d2 gpt = es gpt" if "committed 0 dk d' d2" for d2 gpt
  proof (rule entries_of_table)
    from in_memD [OF m, of gpt] obtain h where "holds dk gpt h (concat (es gpt))" "entries_wf (es gpt)" by blast
    moreover have "holds dk gpt (hdr_bytes d2 gpt) (table d2 gpt)" using that by (simp add: committed_def copy_def)
    ultimately show "entries_wf (es gpt)" "table d2 gpt = concat (es gpt)" by (cases gpt; simp)+
  qed
  with commit_wp [of w dk d' e, OF _ ok(1) fit] show ?thesis
    using d path Some by (fastforce simp: commit_opt_def wp_def layout_def)
qed

section \<open>When no call fails\<close>

lemma crc_in_mem_defined:
  assumes m: "in_mem d path es disk" and std: "std d"
  shows "\<exists>disk'. gpt_disk_update_crc e disk = Some (0, disk') \<and> in_mem d path es disk'"
proof -
  obtain h where h: "holds disk PRIMARY_GPT h (concat (es PRIMARY_GPT))" "length h = unat (bd_blksz d)"
    "GET_4_BYTES h 12 = GET_4_BYTES (hdr_bytes d PRIMARY_GPT) 12" by (rule in_memD [OF m])
  obtain hb where hb: "holds disk SECONDARY_GPT hb (concat (es SECONDARY_GPT))" "length hb = unat (bd_blksz d)"
    by (rule in_memD [OF m])
  have "geom d" using std tables_at_geom by (auto simp: std_def tables_ok_def)
  then have bs: "92 \<le> unat (bd_blksz d)" by (simp add: geom_def)
  obtain hs where hs: "GET_4_BYTES h 12 = Some hs" "unat hs \<le> unat (bd_blksz d)"
    using std h(3) by (auto simp: std_def header_size_ok_def)
  have c: "unat (gd_pentry_arr_size disk) \<le> length (concat (es gpt))" for gpt
    using m entries_length [OF std, of gpt PRIMARY_GPT] by (simp add: in_mem_def length_concat_wf)
  have init: "gd_is_initialized disk = 0xABCD" using m by (simp add: in_mem_def)
  have "\<exists>x. gpt_disk_update_crc e disk = Some x"
    using init h(1,2) hb hs c [of PRIMARY_GPT] c [of SECONDARY_GPT] bs
    by (simp add: gpt_disk_update_crc_def PUT_4_BYTES_def slice_simps apart_def crc32_def)
  with crc_in_mem [OF m std] show ?thesis by (metis prod.exhaust)
qed

lemma update_disk_slot_defined:
  assumes m: "in_mem d path es disk" and i: "\<And>gpt. entry_index (cstr n) (es gpt) 0 = Some (k gpt)" and g: "length guid = 16"
  shows "\<exists>disk'. update_disk_slot disk (128 * k PRIMARY_GPT) (128 * k SECONDARY_GPT) guid active = Some disk'"
proof -
  have wf: "entries_wf (es gpt)" "k gpt < length (es gpt)" for gpt
    using m entry_index_SomeD [OF i] by (auto simp: in_mem_def)
  obtain h hb where h: "holds disk PRIMARY_GPT h (concat (es PRIMARY_GPT))" "holds disk SECONDARY_GPT hb (concat (es SECONDARY_GPT))"
    using in_memD [OF m] by metis
  then show ?thesis using UPDATE_SLOT_concat [OF wf g] by (simp add: update_disk_slot_def)
qed

lemma type_guid_defined:
  assumes m: "in_mem d path es disk" and i: "entry_index (cstr n) (es PRIMARY_GPT) 0 = Some k"
  shows "\<exists>g. type_guid disk (128 * k) = Some g \<and> length g = 16"
proof -
  obtain h where h: "holds disk PRIMARY_GPT h (concat (es PRIMARY_GPT))" "entries_wf (es PRIMARY_GPT)" by (rule in_memD [OF m])
  then have "128 * k + 16 \<le> length (concat (es PRIMARY_GPT))"
    using entry_index_SomeD [OF i] by (auto simp: length_concat_wf)
  with h(1) show ?thesis by (simp add: type_guid_def length_slice)
qed

lemma slot_guids_no_fail:
  assumes ok: "no_fail e" "world_ok w"
    and A: "in_mem dA pathA esA diskA" "entry_index (cstr nA) (esA PRIMARY_GPT) 0 = Some kA"
    and B: "in_mem dB pathB esB diskB" "entry_index (cstr nB) (esB PRIMARY_GPT) 0 = Some kB"
    and on: "get_attr e (tabs w PRIMARY_GPT) nA = Some a" "get_attr e (tabs w PRIMARY_GPT) nB = Some b" "a AND 4 \<noteq> 0 \<or> b AND 4 \<noteq> 0"
  shows "\<exists>g1 g2 w'. slot_guids e nA nB diskA diskB (128 * kA) (128 * kB) w = Some (Some (g1, g2), w')"
proof -
  obtain g1 g2 where g: "type_guid diskA (128 * kA) = Some g1" "type_guid diskB (128 * kB) = Some g2"
    using type_guid_defined [OF A] type_guid_defined [OF B] by blast
  obtain w1 where 1: "get_partition_attribute e nA ATTR_SLOT_ACTIVE w = Some (if a AND 4 \<noteq> 0 then 1 else 0, w1)"
    using get_attribute_no_fail [OF ok on(1), of ATTR_SLOT_ACTIVE] by auto
  have ok1: "world_ok w1" "tabs w1 = tabs w"
    using wpD [OF get_attribute_wp [OF ok(2)] 1] ok(2) by (auto simp: world_ok_def tabs_def fun_eq_iff)
  obtain w2 where 2: "get_partition_attribute e nB ATTR_SLOT_ACTIVE w1 = Some (if b AND 4 \<noteq> 0 then 1 else 0, w2)"
    using get_attribute_no_fail [OF ok(1) ok1(1), of nB b ATTR_SLOT_ACTIVE] ok1(2) on(2) by auto
  from 1 2 g on(3) show ?thesis by (cases "a AND 4 = 0") (simp_all add: slot_guids_def)
qed

lemma switch_partition_no_fail:
  assumes ok: "no_fail e" "world_ok w" and p: "length p \<le> 69" and slot: "slot = 0 \<or> slot = 1"
    and A: "in_mem dA pathA esA diskA" "std dA" "\<And>gpt. attr_of (esA gpt) (p @ ''_a'') \<noteq> None"
    and B: "in_mem dB pathB esB diskB" "std dB" "\<And>gpt. attr_of (esB gpt) (p @ ''_b'') \<noteq> None"
    and on: "get_attr e (tabs w PRIMARY_GPT) (p @ ''_a'') = Some a" "get_attr e (tabs w PRIMARY_GPT) (p @ ''_b'') = Some b"
      "a AND 4 \<noteq> 0 \<or> b AND 4 \<noteq> 0"
  shows "\<exists>diskA' diskB' w'. switch_partition e slot p diskA diskB w = Some (Inr (diskA', diskB'), w')"
proof -
  let ?nA = "p @ ''_a''" and ?nB = "p @ ''_b''"
  let ?kA = "\<lambda>gpt. the (entry_index (cstr ?nA) (esA gpt) 0)" and ?kB = "\<lambda>gpt. the (entry_index (cstr ?nB) (esB gpt) 0)"
  have nm: "take (MAX_GPT_NAME_SIZE - 1) (p @ AB_SLOT_A_SUFFIX) = ?nA" "take (MAX_GPT_NAME_SIZE - 1) (p @ AB_SLOT_B_SUFFIX) = ?nB"
    "slot_name ?nA" "slot_name ?nB"
    using p slot_name_suffix by (simp_all add: AB_SLOT_A_SUFFIX_def AB_SLOT_B_SUFFIX_def)
  have kA: "entry_index (cstr ?nA) (esA gpt) 0 = Some (?kA gpt)" for gpt using A(3) [of gpt] by (auto simp: attr_of_def)
  have kB: "entry_index (cstr ?nB) (esB gpt) 0 = Some (?kB gpt)" for gpt using B(3) [of gpt] by (auto simp: attr_of_def)
  obtain g1 g2 w1 where g: "slot_guids e ?nA ?nB diskA diskB (128 * ?kA PRIMARY_GPT) (128 * ?kB PRIMARY_GPT) w = Some (Some (g1, g2), w1)"
    using slot_guids_no_fail [OF ok A(1) kA B(1) kB on] by blast
  have len: "length g1 = 16" "length g2 = 16" using wpD [OF slot_guids_wp [OF ok(2)] g] by auto
  obtain suf where suf: "suffix_at slot = Some (Some suf)" "suf = ''_a'' \<or> suf = ''_b''" using slot by (auto simp: suffix_at_cases)
  obtain diskA1 diskB1 where u: "update_slots suf g1 g2 diskA (128 * ?kA PRIMARY_GPT) (128 * ?kA SECONDARY_GPT)
        diskB (128 * ?kB PRIMARY_GPT) (128 * ?kB SECONDARY_GPT) = Some (Some (diskA1, diskB1))"
  proof -
    obtain A1 A2 B1 B2 where
      "update_disk_slot diskA (128 * ?kA PRIMARY_GPT) (128 * ?kA SECONDARY_GPT) g1 True = Some A1"
      "update_disk_slot diskA (128 * ?kA PRIMARY_GPT) (128 * ?kA SECONDARY_GPT) g2 False = Some A2"
      "update_disk_slot diskB (128 * ?kB PRIMARY_GPT) (128 * ?kB SECONDARY_GPT) g1 True = Some B1"
      "update_disk_slot diskB (128 * ?kB PRIMARY_GPT) (128 * ?kB SECONDARY_GPT) g2 False = Some B2"
      using update_disk_slot_defined [OF A(1) kA] update_disk_slot_defined [OF B(1) kB] len by metis
    with suf(2) that show thesis
      by (auto simp: update_slots_def strncmp_eq_def AB_SLOT_A_SUFFIX_def AB_SLOT_B_SUFFIX_def)
  qed
  from update_slots_in_mem [OF A(1) kA nm(3) B(1) kB nm(4) len suf(1) u]
  obtain diskA2 diskB2 where "gpt_disk_update_crc e diskA1 = Some (0, diskA2)" "gpt_disk_update_crc e diskB1 = Some (0, diskB2)"
    using crc_in_mem_defined [OF _ A(2)] crc_in_mem_defined [OF _ B(2)] by metis
  moreover have "gpt_disk_get_pentry diskA ?nA gpt = Some (Some (128 * ?kA gpt))" "gpt_disk_get_pentry diskB ?nB gpt = Some (Some (128 * ?kB gpt))" for gpt
    unfolding seek_in_mem [OF A(1,2)] seek_in_mem [OF B(1,2)] using kA [of gpt] kB [of gpt] by auto
  ultimately show ?thesis
    unfolding switch_partition_def Let_def nm(1,2) using g suf(1) u by simp
qed

text \<open>Every partition the loop works on is in its tables, and one of its versions is active.\<close>

definition switchable :: "env \<Rightarrow> string list \<Rightarrow> world \<Rightarrow> bool" where
  [guard_defs]: "switchable e ps w \<longleftrightarrow> (\<forall>p \<in> set ps. (\<forall>gpt. get_attr e (tabs w gpt) (p @ ''_a'') \<noteq> None \<and>
     get_attr e (tabs w gpt) (p @ ''_b'') \<noteq> None) \<and> (\<exists>n \<in> {p @ ''_a'', p @ ''_b''}. \<exists>b.
     get_attr e (tabs w PRIMARY_GPT) n = Some b \<and> b AND AB_PARTITION_ATTR_SLOT_ACTIVE \<noteq> 0))"

lemma get_attr_dev:
  "get_dev_path_from_partition_name e n PATH_MAX = Some path \<Longrightarrow> w_dev w path = Some d \<Longrightarrow>
     get_attr e (tabs w gpt) n = attr_of (entries d gpt) n"
  by (cases "entry_index (cstr n) (entries d gpt) 0") (simp_all add: get_attr_def tabs_def attr_of_def)

lemma ensure_disk_no_fail:
  assumes "no_fail e" "world_ok w" "w_dev w path = Some d" "get_dev_path_from_partition_name e n PATH_MAX = Some path"
  shows "\<exists>dk w'. ensure_disk e n disk w = Some (Some dk, w')"
proof (cases disk)
  case None
  have t: "tables_ok d" "header_size_ok d" using assms(2,3) by (auto simp: world_ok_def std_def)
  obtain w1 where 1: "gpt_disk_alloc e w = (Some gpt_disk_zero, w1)" "w_dev w1 = w_dev w"
    using assms(1) by (simp add: gpt_disk_alloc_def sys_no_fail)
  obtain dk w2 where "gpt_disk_get_disk_info e n gpt_disk_zero w1 = Some (0, dk, w2)"
    using get_disk_info_no_fail [OF assms(4,1) _ t, of w1 gpt_disk_zero] 1(2) assms(3) by auto
  with None 1 show ?thesis by (simp add: ensure_disk_def boot_ctl_get_disk_info_def)
qed (simp add: ensure_disk_def)

lemma turned_here: "turned active ns es es' \<Longrightarrow> slot_name m \<Longrightarrow> attr_of es m \<noteq> None \<Longrightarrow> attr_of es' m \<noteq> None"
  by (cases "m \<in> set ns") (auto simp: turned_def slot_state_def split: if_splits)

lemma switch_loop_no_fail:
  assumes ok: "no_fail e" "slot = 0 \<or> slot = 1" and w: "world_ok w" "w_dev w pathA = Some dA" "w_dev w pathB = Some dB"
    and at: "placed e parts pathA pathB" and parts: "list_all (\<lambda>p. 3 \<le> length p) parts"
    and on: "switchable e (switched e parts) w"
    and h: "held dA pathA esA diskA" "held dB pathB esB diskB"
    and here: "\<And>p gpt. p \<in> set (switched e parts) \<Longrightarrow> attr_of (esA gpt) (p @ ''_a'') \<noteq> None \<and> attr_of (esB gpt) (p @ ''_b'') \<noteq> None"
  shows "\<exists>diskA' diskB' w'. switch_loop e slot parts diskA diskB w = Some (Inr (diskA', diskB'), w')"
  using w at parts on h here
proof (induction parts arbitrary: diskA diskB esA esB w)
  case (Cons part parts)
  let ?p = "take (length part - 2) part"
  have at: "placed e parts pathA pathB" using Cons.prems(4) by (auto simp: placed_def switched_def)
  have len: "\<not> length part < length AB_SLOT_A_SUFFIX + 1" using Cons.prems(5) by (simp add: AB_SLOT_A_SUFFIX_def)
  have suf: "length AB_SLOT_A_SUFFIX = 2" by (simp add: AB_SLOT_A_SUFFIX_def)
  have std: "std dA" "std dB" using Cons.prems(1,2,3) by (auto simp: world_ok_def)
  show ?case
  proof (cases "ab_ptn_exists e ?p")
    case False
    then have "switched e (part # parts) = switched e parts" by (simp add: switched_def)
    with Cons.IH [OF Cons.prems(1-3) at _ _ Cons.prems(7,8)] Cons.prems(5,6,9) False len show ?thesis by (simp add: suf)
  next
    case True
    then have sw: "switched e (part # parts) = ?p # switched e parts" by (simp add: switched_def)
    have p: "length ?p \<le> 69" "get_dev_path_from_partition_name e (?p @ ''_a'') PATH_MAX = Some pathA"
      "get_dev_path_from_partition_name e (?p @ ''_b'') PATH_MAX = Some pathB"
      using Cons.prems(4) unfolding placed_def sw by auto
    have nm: "take (MAX_GPT_NAME_SIZE - 1) (?p @ AB_SLOT_A_SUFFIX) = ?p @ ''_a''"
      "take (MAX_GPT_NAME_SIZE - 1) (?p @ AB_SLOT_B_SUFFIX) = ?p @ ''_b''"
      using p(1) by (simp_all add: AB_SLOT_A_SUFFIX_def AB_SLOT_B_SUFFIX_def)
    have cong: "world_ok w1" "w_dev w1 pathA = Some dA" "w_dev w1 pathB = Some dB" "tabs w1 = tabs w" if "w_dev w1 = w_dev w" for w1
      using that Cons.prems(1-3) by (simp_all add: world_ok_def tabs_def fun_eq_iff)
    obtain A w1 where A: "ensure_disk e (?p @ ''_a'') diskA w = Some (Some A, w1)"
      using ensure_disk_no_fail [OF ok(1) Cons.prems(1,2) p(2)] by blast
    have w1: "w_dev w1 = w_dev w" "in_mem dA pathA esA A" using wpD [OF ensure_disk_wp [OF Cons.prems(1,2) p(2) Cons.prems(7)] A] by auto
    obtain B w2 where B: "ensure_disk e (?p @ ''_b'') diskB w1 = Some (Some B, w2)"
      using ensure_disk_no_fail [OF ok(1) cong(1,3) [OF w1(1)] p(3)] by blast
    have w2: "w_dev w2 = w_dev w" "in_mem dB pathB esB B"
      using wpD [OF ensure_disk_wp [OF cong(1,3) [OF w1(1)] p(3) Cons.prems(8)] B] w1(1) by auto
    have "switchable e [?p] w2" using Cons.prems(6) cong(4) [OF w2(1)] unfolding sw by (simp add: switchable_def)
    then obtain a b where ab: "get_attr e (tabs w2 PRIMARY_GPT) (?p @ ''_a'') = Some a"
      "get_attr e (tabs w2 PRIMARY_GPT) (?p @ ''_b'') = Some b" "a AND 4 \<noteq> 0 \<or> b AND 4 \<noteq> 0"
      unfolding switchable_def by fastforce
    have h0: "attr_of (esA gpt) (?p @ ''_a'') \<noteq> None" "attr_of (esB gpt) (?p @ ''_b'') \<noteq> None" for gpt
      using Cons.prems(9) [of ?p gpt] unfolding sw by simp_all
    obtain A' B' w3 where run: "switch_partition e slot ?p A B w2 = Some (Inr (A', B'), w3)"
      using switch_partition_no_fail [OF ok(1) cong(1) [OF w2(1)] p(1) ok(2) w1(2) std(1) h0(1) w2(2) std(2) h0(2) ab] by blast
    from wpD [OF switch_partition_wp [OF cong(1) [OF w2(1)] p(1) w1(2) std(1) w2(2) std(2)] run] obtain es1 es2 where
      1: "held dA pathA es1 (Some A')" "\<And>gpt. turned (slot = 0) [?p @ ''_a''] (esA gpt) (es1 gpt)" and
      2: "held dB pathB es2 (Some B')" "\<And>gpt. turned (slot \<noteq> 0) [?p @ ''_b''] (esB gpt) (es2 gpt)" and
      w3: "w_dev w3 = w_dev w" using w2(1) by auto
    have "attr_of (es1 gpt) (q @ ''_a'') \<noteq> None \<and> attr_of (es2 gpt) (q @ ''_b'') \<noteq> None" if "q \<in> set (switched e parts)" for q gpt
      using that turned_here [OF 1(2) slot_name_suffix] turned_here [OF 2(2) slot_name_suffix] Cons.prems(9) unfolding sw by simp
    moreover have "switchable e (switched e parts) w3"
      using Cons.prems(6) cong(4) [OF w3] unfolding sw by (simp add: switchable_def)
    ultimately have "\<exists>diskA' diskB' w'. switch_loop e slot parts (Some A') (Some B') w3 = Some (Inr (diskA', diskB'), w')"
      using Cons.IH [OF cong(1,2,3) [OF w3] at _ _ 1(1) 2(1)] Cons.prems(5) by simp
    with A B run True len show ?thesis unfolding switch_loop.simps Let_def suf nm by simp
  qed
qed simp

lemma commit_held_no_fail:
  assumes ok: "no_fail e" and d: "std d" "w_dev w path = Some d'" "layout d d'" and h: "held d path es disk"
  shows "\<exists>w'. commit_opt e disk w = Some (0, w')"
proof (cases disk)
  case (Some dk)
  then have m: "in_mem d path es dk" using h by simp
  then have path: "gd_devpath dk = path" by (simp add: in_mem_def)
  have t: "tables_ok d'" "tables_ok d" using d by (simp_all add: layout_def std_def)
  have "fits_disk d' dk" using fits_disk_layout [OF in_mem_fits [OF m d(1)] t(2) d(3)] .
  with commit_no_fail [OF ok _ t(1)] d path Some show ?thesis by (simp add: commit_opt_def)
qed (simp add: commit_opt_def)

text \<open>The whole function: the two disks it works on, and the devices after its two commits.\<close>

lemma set_active_runs:
  assumes w: "world_ok w" "w_dev w pathA = Some dA" "w_dev w pathB = Some dB" and at: "placed e parts pathA pathB"
    and run: "boot_ctl_set_active_slot_for_partitions e parts slot w = Some (0, w')"
  obtains esA esB dA' dB' where
    "\<And>gpt. turned (slot = 0) (names ''_a'' (switched e parts)) (entries dA gpt) (esA gpt)"
    "\<And>gpt. turned (slot \<noteq> 0) (names ''_b'' (switched e parts)) (entries dB gpt) (esB gpt)"
    "w_dev w' = (w_dev w)(pathA \<mapsto> dA', pathB \<mapsto> dB')"
    "pathA \<noteq> pathB \<Longrightarrow> entries dA' = esA" "entries dB' = esB"
proof -
  have std: "std dA" "std dB" using w by (auto simp: world_ok_def)
  have lay: "layout dA dA" "layout dB dB" using std by (simp_all add: layout_def std_def)
  from run obtain x w1 where x: "switch_loop e slot parts None None w = Some (x, w1)"
    by (auto simp: boot_ctl_set_active_slot_for_partitions_def bind_eq_Some_conv)
  with run obtain A B w2 where r: "switch_loop e slot parts None None w = Some (Inr (A, B), w1)"
      "commit_opt e A w1 = Some (0, w2)" "commit_opt e B w2 = Some (0, w')"
    by (cases x) (auto simp: boot_ctl_set_active_slot_for_partitions_def bind_eq_Some_conv split: if_splits)
  from wpD [OF switch_loop_wp [OF w at, of "entries dA" None "entries dB" None] r(1)] obtain esA esB where
    w1: "w_dev w1 = w_dev w" "A = None \<longleftrightarrow> B = None" and
    A: "held dA pathA esA A" "\<And>gpt. turned (slot = 0) (names ''_a'' (switched e parts)) (entries dA gpt) (esA gpt)" and
    B: "held dB pathB esB B" "\<And>gpt. turned (slot \<noteq> 0) (names ''_b'' (switched e parts)) (entries dB gpt) (esB gpt)"
    by (auto simp: held_turned_def)
  from wpD [OF commit_held_wp [OF std(1) _ lay(1) A(1)] r(2)] w w1 obtain dA' where
    a: "w_dev w2 = (w_dev w)(pathA \<mapsto> dA')" "layout dA dA'" "if A = None then dA' = dA else \<forall>gpt. entries dA' gpt = esA gpt" by auto
  let ?d = "if pathA = pathB then dA' else dB"
  have "w_dev w2 pathB = Some ?d" "layout dB ?d" using a w lay by (auto split: if_splits)
  from wpD [OF commit_held_wp [OF std(2) this B(1)] r(3)] a obtain dB' where
    b: "w_dev w' = (w_dev w)(pathA \<mapsto> dA', pathB \<mapsto> dB')" "if B = None then dB' = ?d else \<forall>gpt. entries dB' gpt = esB gpt" by auto
  have "entries dA' = esA" using a(3) A(1) by (cases A) (auto simp: fun_eq_iff)
  moreover have "entries dB' = esB" using a(3) b(2) w w1(2) B(1) by (cases B) (auto simp: fun_eq_iff split: if_splits)
  ultimately show thesis using that [OF A(2) B(2) b(1)] by blast
qed

lemma set_active_no_fail:
  assumes ok: "no_fail e" "slot = 0 \<or> slot = 1" and w: "world_ok w" "w_dev w pathA = Some dA" "w_dev w pathB = Some dB"
    and at: "placed e parts pathA pathB" "list_all (\<lambda>p. 3 \<le> length p) parts" "switchable e (switched e parts) w"
  shows "\<exists>w'. boot_ctl_set_active_slot_for_partitions e parts slot w = Some (0, w')"
proof -
  have std: "std dA" "std dB" using w by (auto simp: world_ok_def)
  have lay: "layout dA dA" "layout dB dB" using std by (simp_all add: layout_def std_def)
  have here: "attr_of (entries dA gpt) (p @ ''_a'') \<noteq> None \<and> attr_of (entries dB gpt) (p @ ''_b'') \<noteq> None"
    if "p \<in> set (switched e parts)" for p gpt
    using that at(1,3) get_attr_dev [OF _ w(2), of e "p @ ''_a''"] get_attr_dev [OF _ w(3), of e "p @ ''_b''"]
    by (auto simp: placed_def switchable_def)
  obtain A B w1 where 1: "switch_loop e slot parts None None w = Some (Inr (A, B), w1)"
    using switch_loop_no_fail [OF ok w at, of "entries dA" None "entries dB" None] here by auto
  from wpD [OF switch_loop_wp [OF w at(1), of "entries dA" None "entries dB" None] 1] obtain esA esB where
    w1: "w_dev w1 = w_dev w" and AB: "held dA pathA esA A" "held dB pathB esB B"
    by (auto simp: held_turned_def)
  obtain w2 where 2: "commit_opt e A w1 = Some (0, w2)"
    using commit_held_no_fail [OF ok(1) std(1) _ lay(1) AB(1), of w1] w w1 by auto
  from wpD [OF commit_held_wp [OF std(1) _ lay(1) AB(1)] 2] w w1 obtain dA' where
    a: "w_dev w2 = (w_dev w)(pathA \<mapsto> dA')" "layout dA dA'" by auto
  let ?d = "if pathA = pathB then dA' else dB"
  have "w_dev w2 pathB = Some ?d" "layout dB ?d" using a w lay by (auto split: if_splits)
  from commit_held_no_fail [OF ok(1) std(2) this AB(2)] 1 2 show ?thesis
    by (auto simp: boot_ctl_set_active_slot_for_partitions_def)
qed

section \<open>A concrete UFS device\<close>

text \<open>
  Two logical units, each with a table that knows \<open>boot_a\<close>, active, and \<open>boot_b\<close>. The links
  of the two versions point to one unit or to two.
\<close>

definition unit_a :: string where "unit_a = ''/dev/block/sda''"
definition unit_b :: string where "unit_b = ''/dev/block/sdb''"

definition ufs_env :: "bool \<Rightarrow> env" where
  "ufs_env two = boot_env\<lparr>
     env_prop := (\<lambda>k. if k = ''ro.boot.bootdevice'' then Some ''1d84000.ufshc'' else None),
     env_readlink := (\<lambda>p. if p = BOOT_DEV_DIR @ ''/boot_b'' \<and> two then Some (unit_b @ ''2'') else Some (unit_a @ ''1''))\<rparr>"

definition ufs_table :: "bytes list" where
  "ufs_table = mark 0 4 boot_table"

definition ufs_dev :: blkdev where
  "ufs_dev = tab_dev (concat ufs_table) (concat ufs_table)"

definition ufs_world :: world where
  "ufs_world = \<lparr>w_tick = 0, w_dev = [unit_a \<mapsto> ufs_dev, unit_b \<mapsto> ufs_dev], w_boot_lun = None\<rparr>"

lemma ufs_table_wf: "entries_wf ufs_table" "length (concat ufs_table) = 256"
proof -
  show wf: "entries_wf ufs_table" using entries_wf_mark [OF boot_table_wf(1)] by (simp add: ufs_table_def boot_table_def)
  show "length (concat ufs_table) = 256" using length_concat_wf [OF wf] by (simp add: ufs_table_def boot_table_def)
qed

lemma ufs_entries: "entries ufs_dev gpt = ufs_table"
  using tab_table [OF ufs_table_wf(2) ufs_table_wf(2)]
  by (cases gpt) (auto simp: ufs_dev_def intro: entries_of_table [OF ufs_table_wf(1)])

lemma ufs_dev_std: "std ufs_dev"
  using tab_tables_ok [OF ufs_table_wf(2) ufs_table_wf(2)] tab_table [OF ufs_table_wf(2) ufs_table_wf(2)]
    tab_hdr [OF ufs_table_wf(2) ufs_table_wf(2)] ufs_table_wf(2) tab_fields [of 2]
  by (simp add: std_def ufs_dev_def header_size_ok_def) (simp add: tab_dev_def)

lemma ufs_units: "w_dev ufs_world unit_a = Some ufs_dev" "w_dev ufs_world unit_b = Some ufs_dev" "unit_a \<noteq> unit_b"
  by (simp_all add: ufs_world_def unit_a_def unit_b_def)

lemma ufs_world_ok: "world_ok ufs_world"
  using ufs_dev_std by (simp add: world_ok_def ufs_world_def)

lemma ufs_no_fail: "no_fail (ufs_env two)"
  using boot_no_fail by (simp add: no_fail_def ufs_env_def)

lemma ufs_exists: "ab_ptn_exists (ufs_env two) p \<longleftrightarrow> p = ''boot''"
  using boot_exists by (simp add: ab_ptn_exists_def ufs_env_def)

lemma ufs_switched: "switched (ufs_env two) [''boot_b''] = [''boot'']"
  by (simp add: switched_def ufs_exists)

lemma ufs_paths:
  "get_dev_path_from_partition_name (ufs_env two) ''boot_a'' PATH_MAX = Some unit_a"
  "get_dev_path_from_partition_name (ufs_env two) ''boot_b'' PATH_MAX = Some (if two then unit_b else unit_a)"
proof -
  have "gpt_utils_is_ufs_device (ufs_env two)"
    by (simp add: gpt_utils_is_ufs_device_def property_get_def ufs_env_def strncmp_eq_def)
  moreover have "env_stat (ufs_env two) (BOOT_DEV_DIR @ ''/'' @ ''boot_a'')" "env_stat (ufs_env two) (BOOT_DEV_DIR @ ''/'' @ ''boot_b'')"
    by (simp_all add: ufs_env_def boot_env_def BOOT_DEV_DIR_def)
  ultimately show "get_dev_path_from_partition_name (ufs_env two) ''boot_a'' PATH_MAX = Some unit_a"
    "get_dev_path_from_partition_name (ufs_env two) ''boot_b'' PATH_MAX = Some (if two then unit_b else unit_a)"
    by (simp_all add: get_dev_path_from_partition_name_def) (simp_all add: ufs_env_def unit_a_def unit_b_def)
qed

lemma ufs_placed: "placed (ufs_env two) [''boot_b''] unit_a (if two then unit_b else unit_a)"
  using ufs_paths [of two] by (simp add: placed_def ufs_switched)

lemma ufs_attr:
  "get_attr (ufs_env two) (tabs ufs_world gpt) ''boot_a'' = Some 4"
  "get_attr (ufs_env two) (tabs ufs_world gpt) ''boot_b'' = Some 0"
proof -
  have "attr_of ufs_table ''boot_a'' = Some 4" "attr_of ufs_table ''boot_b'' = Some 0"
    using boot_index by (simp_all add: attr_of_def ufs_table_def entry_index_mark)
       (simp_all add: mark_def boot_table_def wit_entry_def nth_append)
  then show "get_attr (ufs_env two) (tabs ufs_world gpt) ''boot_a'' = Some 4"
    "get_attr (ufs_env two) (tabs ufs_world gpt) ''boot_b'' = Some 0"
    using get_attr_dev [OF ufs_paths(1) ufs_units(1)] get_attr_dev [OF ufs_paths(2), of ufs_world two ufs_dev] ufs_units
    by (simp_all add: ufs_entries)
qed

lemma ufs_switchable: "switchable (ufs_env two) (switched (ufs_env two) [''boot_b'']) ufs_world"
  using ufs_attr [of two] by (simp add: switchable_def ufs_switched)

section \<open>Properties\<close>

lemma get_attr_other:
  assumes "w_dev w' = (w_dev w)(pathA \<mapsto> dA', pathB \<mapsto> dB')" "get_dev_path_from_partition_name e n PATH_MAX \<notin> {Some pathA, Some pathB}"
  shows "get_attr e (tabs w' gpt) n = get_attr e (tabs w gpt) n"
  using assms by (cases "get_dev_path_from_partition_name e n PATH_MAX") (auto simp: get_attr_def tabs_def)

text \<open>
  C33. Switching the active slot does what it is for when the A and the B versions are on two
  devices: after \<open>boot_ctl_set_active_slot_for_partitions\<close> reports success, every listed partition
  that exists in both slots has the active attribute value in the chosen slot and no active bit in
  the other one, in both copies of the table, and every other partition has the attributes it had.
\<close>

theorem switch_two_devices:
  assumes "world_ok w" "w_dev w pathA = Some dA" "w_dev w pathB = Some dB" "placed e parts pathA pathB" "pathA \<noteq> pathB"
    and "boot_ctl_set_active_slot_for_partitions e parts slot w = Some (0, w')"
  shows "(\<forall>p \<in> set (switched e parts). slot_state (slot = 0) (get_attr e (tabs w' gpt) (p @ ''_a'')) \<and>
            slot_state (slot \<noteq> 0) (get_attr e (tabs w' gpt) (p @ ''_b''))) \<and>
     (\<forall>n. slot_name n \<and> (\<forall>p \<in> set (switched e parts). n \<noteq> p @ ''_a'' \<and> n \<noteq> p @ ''_b'') \<longrightarrow>
            get_attr e (tabs w' gpt) n = get_attr e (tabs w gpt) n)"
proof -
  let ?ps = "switched e parts"
  obtain esA esB dA' dB' where
    t: "turned (slot = 0) (names ''_a'' ?ps) (entries dA gpt) (esA gpt)"
      "turned (slot \<noteq> 0) (names ''_b'' ?ps) (entries dB gpt) (esB gpt)" and
    w': "w_dev w' = (w_dev w)(pathA \<mapsto> dA', pathB \<mapsto> dB')" "entries dA' = esA" "entries dB' = esB"
    using set_active_runs [OF assms(1-4,6)] assms(5) by metis
  have d': "w_dev w' pathA = Some dA'" "w_dev w' pathB = Some dB'" using w'(1) assms(5) by simp_all
  have "slot_state (slot = 0) (get_attr e (tabs w' gpt) (p @ ''_a'')) \<and> slot_state (slot \<noteq> 0) (get_attr e (tabs w' gpt) (p @ ''_b''))"
    if "p \<in> set ?ps" for p
    using that assms(4) t w'(2,3) get_attr_dev [OF _ d'(1), of e "p @ ''_a''"] get_attr_dev [OF _ d'(2), of e "p @ ''_b''"]
    by (simp add: placed_def turned_def names_def)
  moreover have "get_attr e (tabs w' gpt) n = get_attr e (tabs w gpt) n"
    if n: "slot_name n" "\<forall>p \<in> set ?ps. n \<noteq> p @ ''_a'' \<and> n \<noteq> p @ ''_b''" for n
  proof -
    have "attr_of (entries dA' gpt) n = attr_of (entries dA gpt) n" "attr_of (entries dB' gpt) n = attr_of (entries dB gpt) n"
      using n t w'(2,3) by (auto simp: turned_def names_def)
    then show ?thesis
      using get_attr_dev [OF _ d'(1), of e n] get_attr_dev [OF _ d'(2), of e n] get_attr_dev [OF _ assms(2), of e n]
        get_attr_dev [OF _ assms(3), of e n] get_attr_other [OF w'(1), of e n]
      by (cases "get_dev_path_from_partition_name e n PATH_MAX \<in> {Some pathA, Some pathB}") auto
  qed
  ultimately show ?thesis by blast
qed

theorem switch_two_devices_witness:
  "\<exists>w'. boot_ctl_set_active_slot_for_partitions (ufs_env True) [''boot_b''] 1 ufs_world = Some (0, w') \<and>
     slot_state True (get_attr (ufs_env True) (tabs w' SECONDARY_GPT) ''boot_b'') \<and>
     slot_state False (get_attr (ufs_env True) (tabs w' SECONDARY_GPT) ''boot_a'')"
proof -
  note at = ufs_placed [of True, simplified]
  obtain w' where run: "boot_ctl_set_active_slot_for_partitions (ufs_env True) [''boot_b''] 1 ufs_world = Some (0, w')"
    using set_active_no_fail [OF ufs_no_fail _ ufs_world_ok ufs_units(1,2) at _ ufs_switchable, of 1] by auto
  from switch_two_devices [OF ufs_world_ok ufs_units(1,2) at ufs_units(3) run, of SECONDARY_GPT] run show ?thesis
    by (auto simp: ufs_switched)
qed

text \<open>
  The switch succeeds when no call fails: if every listed partition that exists in both slots
  is in both copies of its tables and active in one of the slots, the function returns 0. In
  particular no partition is reported missing or inactive because an earlier one of the list was
  changed.
\<close>

theorem switch_succeeds:
  assumes "no_fail e" "slot = 0 \<or> slot = 1" "world_ok w" "w_dev w pathA = Some dA" "w_dev w pathB = Some dB"
    and "placed e parts pathA pathB" "list_all (\<lambda>p. 3 \<le> length p) parts" "switchable e (switched e parts) w"
  shows "\<exists>w'. boot_ctl_set_active_slot_for_partitions e parts slot w = Some (0, w')"
  using assms by (rule set_active_no_fail)

theorem switch_succeeds_witness:
  "\<exists>w'. boot_ctl_set_active_slot_for_partitions (ufs_env True) [''boot_b''] 0 ufs_world = Some (0, w')"
  using switch_succeeds [OF ufs_no_fail _ ufs_world_ok ufs_units(1,2) ufs_placed [of True, simplified] _ ufs_switchable, of 0] by auto

text \<open>
  C35. On one device the switch is lost for slot A: the A and the B versions of the table are
  loaded as two disks, and the commit of the second one writes back the entries of slot A as they
  were on the device before. After a reported success slot B has its new state and slot A has the
  attributes it had before, so that switching from A to B leaves both slots active.
\<close>

theorem switch_one_device:
  assumes "world_ok w" "w_dev w path = Some d" "placed e parts path path"
    and "boot_ctl_set_active_slot_for_partitions e parts slot w = Some (0, w')" "p \<in> set (switched e parts)"
  shows "slot_state (slot \<noteq> 0) (get_attr e (tabs w' gpt) (p @ ''_b'')) \<and>
     get_attr e (tabs w' gpt) (p @ ''_a'') = get_attr e (tabs w gpt) (p @ ''_a'')"
proof -
  obtain esB dB' where
    t: "turned (slot \<noteq> 0) (names ''_b'' (switched e parts)) (entries d gpt) (esB gpt)" and
    w': "w_dev w' path = Some dB'" "entries dB' = esB"
    using set_active_runs [OF assms(1,2,2,3,4)] by (metis fun_upd_same)
  have "slot_name (p @ ''_a'')" by (simp add: slot_name_suffix)
  moreover have "p @ ''_a'' \<notin> set (names ''_b'' (switched e parts))" by (auto simp: names_def)
  ultimately have "attr_of (entries dB' gpt) (p @ ''_a'') = attr_of (entries d gpt) (p @ ''_a'')"
    using t w'(2) by (simp add: turned_def)
  moreover have "slot_state (slot \<noteq> 0) (attr_of (entries dB' gpt) (p @ ''_b''))"
    using t w'(2) assms(5) by (simp add: turned_def names_def)
  ultimately show ?thesis
    using assms(3,5) get_attr_dev [OF _ w'(1), of e] get_attr_dev [OF _ assms(2), of e] by (simp add: placed_def)
qed

theorem switch_one_device_witness:
  "\<exists>w'. boot_ctl_set_active_slot_for_partitions (ufs_env False) [''boot_b''] 1 ufs_world = Some (0, w') \<and>
     slot_state True (get_attr (ufs_env False) (tabs w' PRIMARY_GPT) ''boot_b'') \<and>
     get_attr (ufs_env False) (tabs w' PRIMARY_GPT) ''boot_a'' = Some AB_PARTITION_ATTR_SLOT_ACTIVE"
proof -
  note at = ufs_placed [of False, simplified]
  obtain w' where run: "boot_ctl_set_active_slot_for_partitions (ufs_env False) [''boot_b''] 1 ufs_world = Some (0, w')"
    using set_active_no_fail [OF ufs_no_fail _ ufs_world_ok ufs_units(1,1) at _ ufs_switchable, of 1] by auto
  from switch_one_device [OF ufs_world_ok ufs_units(1) at run, of "''boot''" PRIMARY_GPT] run show ?thesis
    by (auto simp: ufs_switched ufs_attr)
qed

end
