(* ===== verification/Agps.thy ===== *)
theory Agps
  imports Prelude
begin

text \<open>
  The assisted-GPS data call state machine, \<open>gps/gnss/Agps.cpp\<close> and \<open>Agps.h\<close>: one
  machine per network interface keeps the modem's open requests (subscribers), asks the framework
  for a data connection when the first one arrives, tells every subscriber the outcome and gives
  the connection back when the last active one leaves.

  Subscribers are heap objects reached through the list of the machine and through
  \<open>mCurrentSubscriber\<close>, which points to a local variable of \<open>requestATL\<close> or into the
  list. A list node carries the address of its object, a pointer is null, a local object, an
  address or dangling, and following a pointer whose object has gone yields \<open>None\<close>. The
  callbacks to the modem and to the framework are recorded in the order they are made.
\<close>

section \<open>Data\<close>

datatype AgpsState =
    AGPS_STATE_INVALID | AGPS_STATE_RELEASED | AGPS_STATE_PENDING
  | AGPS_STATE_ACQUIRED | AGPS_STATE_RELEASING

datatype AgpsEvent =
    AGPS_EVENT_INVALID | AGPS_EVENT_SUBSCRIBE | AGPS_EVENT_UNSUBSCRIBE
  | AGPS_EVENT_GRANTED | AGPS_EVENT_RELEASED | AGPS_EVENT_DENIED

datatype AgpsNotificationType =
    AGPS_NOTIFICATION_TYPE_INVALID | AGPS_NOTIFICATION_TYPE_FOR_ALL_SUBSCRIBERS
  | AGPS_NOTIFICATION_TYPE_FOR_INACTIVE_SUBSCRIBERS | AGPS_NOTIFICATION_TYPE_FOR_ACTIVE_SUBSCRIBERS

definition LOC_AGPS_TYPE_INVALID :: int where "LOC_AGPS_TYPE_INVALID = -1"
definition LOC_AGPS_TYPE_ANY :: int where "LOC_AGPS_TYPE_ANY = 0"
definition LOC_AGPS_TYPE_SUPL :: int where "LOC_AGPS_TYPE_SUPL = 1"
definition LOC_AGPS_TYPE_WWAN_ANY :: int where "LOC_AGPS_TYPE_WWAN_ANY = 3"
definition LOC_AGPS_TYPE_SUPL_ES :: int where "LOC_AGPS_TYPE_SUPL_ES = 5"

lemmas agps_type_defs = LOC_AGPS_TYPE_INVALID_def LOC_AGPS_TYPE_ANY_def LOC_AGPS_TYPE_SUPL_def
  LOC_AGPS_TYPE_WWAN_ANY_def LOC_AGPS_TYPE_SUPL_ES_def

definition AGPS_APN_BEARER_INVALID :: int where "AGPS_APN_BEARER_INVALID = 0"
definition AGPS_APN_BEARER_IPV4 :: int where "AGPS_APN_BEARER_IPV4 = 1"

definition LOC_APN_TYPE_MASK_SUPL :: u32 where "LOC_APN_TYPE_MASK_SUPL = 0x10"
definition LOC_APN_TYPE_MASK_EMERGENCY :: u32 where "LOC_APN_TYPE_MASK_EMERGENCY = 0x200"
definition AGPS_ATL_TYPE_SUPL :: u32 where "AGPS_ATL_TYPE_SUPL = 1"
definition AGPS_ATL_TYPE_SUPL_ES :: u32 where "AGPS_ATL_TYPE_SUPL_ES = 2"
definition AGPS_ATL_TYPE_WWAN :: u32 where "AGPS_ATL_TYPE_WWAN = 4"
definition LOC_GPS_CAPABILITY_MSB :: u32 where "LOC_GPS_CAPABILITY_MSB = 2"
definition LOC_GPS_CAPABILITY_MSA :: u32 where "LOC_GPS_CAPABILITY_MSA = 4"
definition MAX_APN_LEN :: nat where "MAX_APN_LEN = 100"

record AgpsSubscriber =
  mConnHandle :: int
  mWaitForCloseComplete :: bool
  mIsInactive :: bool
  mSubApnTypeMask :: u32

datatype sub_ptr = SubNull | SubLocal AgpsSubscriber | SubHeap nat | SubDangling

datatype data_conn_status = LOC_GPS_REQUEST_AGPS_DATA_CONN | LOC_GPS_RELEASE_AGPS_DATA_CONN

record AGnssExtStatusIpV4 =
  nif_type :: int
  nif_apnTypeMask :: u32
  nif_status :: data_conn_status

text \<open>
  The callbacks: \<open>mAtlOpenStatusCb\<close> (handle, success, APN and its length, bearer, type,
  apnMask), \<open>mAtlCloseStatusCb\<close> (handle, success) and \<open>mFrameworkStatusV4Cb\<close>.
\<close>

datatype agps_call =
    AtlOpenStatus int int "bytes option" u32 int int u32
  | AtlCloseStatus int int
  | FrameworkStatus AGnssExtStatusIpV4

record AgpsStateMachine =
  mSubscriberList :: "(nat \<times> AgpsSubscriber) list"
  mNextObject :: nat
  mCurrentSubscriber :: sub_ptr
  mState :: AgpsState
  mAgpsType :: int
  mApnTypeMask :: u32
  mAPN :: "bytes option"
  mAPNLen :: u32
  mBearer :: int

text \<open>
  The constructor leaves \<open>mApnTypeMask\<close> uninitialised; \<open>junk\<close> is the value it happens
  to have.
\<close>

definition new_AgpsStateMachine :: "u32 \<Rightarrow> int \<Rightarrow> AgpsStateMachine" where
  "new_AgpsStateMachine junk agpsType =
     \<lparr>mSubscriberList = [], mNextObject = 0, mCurrentSubscriber = SubNull,
      mState = AGPS_STATE_RELEASED, mAgpsType = agpsType, mApnTypeMask = junk,
      mAPN = None, mAPNLen = 0, mBearer = AGPS_APN_BEARER_INVALID\<rparr>"

type_synonym sm_run = "AgpsStateMachine \<times> agps_call list"

section \<open>The subscriber list\<close>

text \<open>The object a pointer leads to.\<close>

definition deref :: "sub_ptr \<Rightarrow> (nat \<times> AgpsSubscriber) list \<Rightarrow> AgpsSubscriber option" where
  "deref p subs = (case p of
       SubNull \<Rightarrow> None
     | SubLocal s \<Rightarrow> Some s
     | SubHeap a \<Rightarrow> map_of subs a
     | SubDangling \<Rightarrow> None)"

definition equals :: "AgpsSubscriber \<Rightarrow> AgpsSubscriber \<Rightarrow> bool" where
  "equals s t \<longleftrightarrow> mConnHandle s = mConnHandle t"

definition addSubscriber :: "sub_ptr \<Rightarrow> AgpsStateMachine \<Rightarrow> AgpsStateMachine option" where
  "addSubscriber p sm = do {
     s \<leftarrow> deref p (mSubscriberList sm);
     if list_ex (\<lambda>(a, t). equals t s) (mSubscriberList sm) then Some sm
     else Some (sm\<lparr>mSubscriberList := mSubscriberList sm @ [(mNextObject sm, s)],
                   mNextObject := mNextObject sm + 1\<rparr>)
   }"

text \<open>
  The deletion loop compares every node with the object \<open>p\<close> points to, also after it has
  deleted that very object.
\<close>

fun delete_loop :: "sub_ptr \<Rightarrow> (nat \<times> AgpsSubscriber) list \<Rightarrow> (nat \<times> AgpsSubscriber) list \<Rightarrow>
    (nat \<times> AgpsSubscriber) list option" where
  "delete_loop p passed [] = Some passed"
| "delete_loop p passed ((a, t) # rest) = do {
     s \<leftarrow> deref p (passed @ (a, t) # rest);
     if equals t s then delete_loop p passed rest else delete_loop p (passed @ [(a, t)]) rest
   }"

definition deleteSubscriber :: "sub_ptr \<Rightarrow> AgpsStateMachine \<Rightarrow> AgpsStateMachine option" where
  "deleteSubscriber p sm = do {
     subs \<leftarrow> delete_loop p [] (mSubscriberList sm);
     Some (sm\<lparr>mSubscriberList := subs\<rparr>)
   }"

definition anyActiveSubscribers :: "AgpsStateMachine \<Rightarrow> bool" where
  "anyActiveSubscribers sm = list_ex (\<lambda>(a, s). \<not> mIsInactive s) (mSubscriberList sm)"

definition getSubscriber :: "int \<Rightarrow> AgpsStateMachine \<Rightarrow> sub_ptr" where
  "getSubscriber connHandle sm =
     (case find (\<lambda>(a, s). mConnHandle s = connHandle) (mSubscriberList sm) of
        Some (a, s) \<Rightarrow> SubHeap a | None \<Rightarrow> SubNull)"

definition getFirstSubscriber :: "bool \<Rightarrow> AgpsStateMachine \<Rightarrow> sub_ptr" where
  "getFirstSubscriber isInactive sm =
     (case find (\<lambda>(a, s). mIsInactive s = isInactive) (mSubscriberList sm) of
        Some (a, s) \<Rightarrow> SubHeap a | None \<Rightarrow> SubNull)"

definition dropAllSubscribers :: "AgpsStateMachine \<Rightarrow> AgpsStateMachine" where
  "dropAllSubscribers sm = sm\<lparr>mSubscriberList := []\<rparr>"

text \<open>\<open>mCurrentSubscriber->mIsInactive = true\<close>, in the local object or in the list.\<close>

definition set_inactive :: "AgpsStateMachine \<Rightarrow> AgpsStateMachine" where
  "set_inactive sm = (case mCurrentSubscriber sm of
       SubLocal s \<Rightarrow> sm\<lparr>mCurrentSubscriber := SubLocal (s\<lparr>mIsInactive := True\<rparr>)\<rparr>
     | SubHeap a \<Rightarrow> sm\<lparr>mSubscriberList :=
         map (\<lambda>(b, s). (b, if b = a then s\<lparr>mIsInactive := True\<rparr> else s)) (mSubscriberList sm)\<rparr>
     | _ \<Rightarrow> sm)"

text \<open>
  \<open>strlen(apn) != len\<close> compares the C string the pointer leads to with the length; both are
  taken up to the first zero byte, which \<open>apn\<close> contains.
\<close>

definition setAPN :: "bytes option \<Rightarrow> u32 \<Rightarrow> AgpsStateMachine \<Rightarrow> AgpsStateMachine" where
  "setAPN apn len sm = (case apn of
       None \<Rightarrow> sm\<lparr>mAPN := None, mAPNLen := 0\<rparr>
     | Some s \<Rightarrow>
         if MAX_APN_LEN < unat len \<or> length (cstr_of s) \<noteq> unat len
         then sm\<lparr>mAPN := None, mAPNLen := 0\<rparr>
         else sm\<lparr>mAPN := Some (take (unat len) s @ [0]), mAPNLen := len\<rparr>)"

section \<open>Notifications\<close>

definition transitionState :: "AgpsState \<Rightarrow> AgpsStateMachine \<Rightarrow> AgpsStateMachine" where
  "transitionState newState sm = sm\<lparr>mState := newState\<rparr>"

definition requestOrReleaseDataConn :: "bool \<Rightarrow> sm_run \<Rightarrow> sm_run" where
  "requestOrReleaseDataConn request = (\<lambda>(sm, cs).
     (sm, cs @ [FrameworkStatus
        \<lparr>nif_type = mAgpsType sm, nif_apnTypeMask = mApnTypeMask sm,
         nif_status = (if request then LOC_GPS_REQUEST_AGPS_DATA_CONN
                       else LOC_GPS_RELEASE_AGPS_DATA_CONN)\<rparr>]))"

text \<open>The callback made for one event and one connection handle.\<close>

definition notify_call :: "AgpsStateMachine \<Rightarrow> AgpsEvent \<Rightarrow> int \<Rightarrow> agps_call list" where
  "notify_call sm event h = (case event of
       AGPS_EVENT_GRANTED \<Rightarrow>
         [AtlOpenStatus h 1 (mAPN sm) (mAPNLen sm) (mBearer sm) (mAgpsType sm) (mApnTypeMask sm)]
     | AGPS_EVENT_DENIED \<Rightarrow>
         [AtlOpenStatus h 0 (mAPN sm) (mAPNLen sm) (mBearer sm) (mAgpsType sm) (mApnTypeMask sm)]
     | AGPS_EVENT_UNSUBSCRIBE \<Rightarrow> [AtlCloseStatus h 1]
     | AGPS_EVENT_RELEASED \<Rightarrow> [AtlCloseStatus h 1]
     | _ \<Rightarrow> [])"

text \<open>Called only with the four events above that read the subscriber.\<close>

definition notifyEventToSubscriber :: "AgpsEvent \<Rightarrow> sub_ptr \<Rightarrow> bool \<Rightarrow> sm_run \<Rightarrow> sm_run option" where
  "notifyEventToSubscriber event p deletePostNotify = (\<lambda>(sm, cs). do {
     s \<leftarrow> deref p (mSubscriberList sm);
     let cs = cs @ notify_call sm event (mConnHandle s);
     if deletePostNotify then do {
       sm \<leftarrow> deleteSubscriber p sm;
       Some (sm, cs)
     }
     else Some (sm, cs)
   })"

definition notify_matches :: "AgpsNotificationType \<Rightarrow> AgpsSubscriber \<Rightarrow> bool" where
  "notify_matches nt s \<longleftrightarrow>
     nt = AGPS_NOTIFICATION_TYPE_FOR_ALL_SUBSCRIBERS \<or>
     nt = AGPS_NOTIFICATION_TYPE_FOR_INACTIVE_SUBSCRIBERS \<and> mIsInactive s \<or>
     nt = AGPS_NOTIFICATION_TYPE_FOR_ACTIVE_SUBSCRIBERS \<and> \<not> mIsInactive s"

text \<open>The iteration over the list: the nodes that stay and the callbacks made.\<close>

fun notify_loop :: "AgpsStateMachine \<Rightarrow> AgpsEvent \<Rightarrow> bool \<Rightarrow> AgpsNotificationType \<Rightarrow>
    (nat \<times> AgpsSubscriber) list \<Rightarrow> agps_call list \<Rightarrow> (nat \<times> AgpsSubscriber) list \<times> agps_call list" where
  "notify_loop sm event del nt [] cs = ([], cs)"
| "notify_loop sm event del nt ((a, s) # rest) cs =
     (if notify_matches nt s then
        let (kept, cs) = notify_loop sm event del nt rest (cs @ notify_call sm event (mConnHandle s))
        in (if del then kept else (a, s) # kept, cs)
      else
        let (kept, cs) = notify_loop sm event del nt rest cs in ((a, s) # kept, cs))"

definition notifyAllSubscribers :: "AgpsEvent \<Rightarrow> bool \<Rightarrow> AgpsNotificationType \<Rightarrow> sm_run \<Rightarrow> sm_run" where
  "notifyAllSubscribers event del nt = (\<lambda>(sm, cs).
     let (kept, cs) = notify_loop sm event del nt (mSubscriberList sm) cs
     in (sm\<lparr>mSubscriberList := kept\<rparr>, cs))"

section \<open>The event handlers\<close>

definition processAgpsEventSubscribe :: "sm_run \<Rightarrow> sm_run option" where
  "processAgpsEventSubscribe = (\<lambda>(sm, cs). case mState sm of
       AGPS_STATE_RELEASED \<Rightarrow> do {
         sm \<leftarrow> addSubscriber (mCurrentSubscriber sm) sm;
         let (sm, cs) = requestOrReleaseDataConn True (sm, cs);
         Some (transitionState AGPS_STATE_PENDING sm, cs)
       }
     | AGPS_STATE_PENDING \<Rightarrow> do {
         sm \<leftarrow> addSubscriber (mCurrentSubscriber sm) sm;
         Some (sm, cs)
       }
     | AGPS_STATE_ACQUIRED \<Rightarrow> do {
         (sm, cs) \<leftarrow> notifyEventToSubscriber AGPS_EVENT_GRANTED (mCurrentSubscriber sm) False (sm, cs);
         sm \<leftarrow> addSubscriber (mCurrentSubscriber sm) sm;
         Some (sm, cs)
       }
     | AGPS_STATE_RELEASING \<Rightarrow> do {
         sm \<leftarrow> addSubscriber (mCurrentSubscriber sm) sm;
         Some (sm, cs)
       }
     | _ \<Rightarrow> Some (sm, cs))"

text \<open>Waiting subscribers become inactive, the others are told and deleted.\<close>

definition unsubscribe_current :: "sm_run \<Rightarrow> sm_run option" where
  "unsubscribe_current = (\<lambda>(sm, cs). do {
     s \<leftarrow> deref (mCurrentSubscriber sm) (mSubscriberList sm);
     if mWaitForCloseComplete s then Some (set_inactive sm, cs)
     else notifyEventToSubscriber AGPS_EVENT_UNSUBSCRIBE (mCurrentSubscriber sm) True (sm, cs)
   })"

definition unsubscribe_connected :: "sm_run \<Rightarrow> sm_run option" where
  "unsubscribe_connected r = do {
     (sm, cs) \<leftarrow> unsubscribe_current r;
     if mSubscriberList sm = [] then
       Some (requestOrReleaseDataConn False (transitionState AGPS_STATE_RELEASED sm, cs))
     else if \<not> anyActiveSubscribers sm then
       Some (requestOrReleaseDataConn False (transitionState AGPS_STATE_RELEASING sm, cs))
     else Some (sm, cs)
   }"

definition processAgpsEventUnsubscribe :: "sm_run \<Rightarrow> sm_run option" where
  "processAgpsEventUnsubscribe = (\<lambda>(sm, cs). case mState sm of
       AGPS_STATE_RELEASED \<Rightarrow>
         notifyEventToSubscriber AGPS_EVENT_UNSUBSCRIBE (mCurrentSubscriber sm) False (sm, cs)
     | AGPS_STATE_PENDING \<Rightarrow> unsubscribe_connected (sm, cs)
     | AGPS_STATE_ACQUIRED \<Rightarrow> unsubscribe_connected (sm, cs)
     | AGPS_STATE_RELEASING \<Rightarrow> do {
         (sm, cs) \<leftarrow> unsubscribe_current (sm, cs);
         if mSubscriberList sm = [] then Some (transitionState AGPS_STATE_RELEASED sm, cs)
         else Some (sm, cs)
       }
     | _ \<Rightarrow> Some (sm, cs))"

definition processAgpsEventGranted :: "sm_run \<Rightarrow> sm_run" where
  "processAgpsEventGranted = (\<lambda>(sm, cs). case mState sm of
       AGPS_STATE_PENDING \<Rightarrow>
         notifyAllSubscribers AGPS_EVENT_GRANTED False AGPS_NOTIFICATION_TYPE_FOR_ACTIVE_SUBSCRIBERS
           (transitionState AGPS_STATE_ACQUIRED sm, cs)
     | _ \<Rightarrow> (sm, cs))"

text \<open>The branch \<open>RELEASED\<close> and \<open>DENIED\<close> share in state \<open>RELEASING\<close>.\<close>

definition finish_release :: "sm_run \<Rightarrow> sm_run" where
  "finish_release r =
     (let (sm, cs) = notifyAllSubscribers AGPS_EVENT_RELEASED True
                       AGPS_NOTIFICATION_TYPE_FOR_INACTIVE_SUBSCRIBERS r
      in if anyActiveSubscribers sm
         then requestOrReleaseDataConn True (transitionState AGPS_STATE_PENDING sm, cs)
         else (transitionState AGPS_STATE_RELEASED sm, cs))"

definition processAgpsEventReleased :: "sm_run \<Rightarrow> sm_run" where
  "processAgpsEventReleased = (\<lambda>(sm, cs). case mState sm of
       AGPS_STATE_ACQUIRED \<Rightarrow>
         notifyAllSubscribers AGPS_EVENT_RELEASED True AGPS_NOTIFICATION_TYPE_FOR_ALL_SUBSCRIBERS
           (transitionState AGPS_STATE_RELEASED sm, cs)
     | AGPS_STATE_RELEASING \<Rightarrow> finish_release (sm, cs)
     | _ \<Rightarrow> (sm, cs))"

definition processAgpsEventDenied :: "sm_run \<Rightarrow> sm_run" where
  "processAgpsEventDenied = (\<lambda>(sm, cs). case mState sm of
       AGPS_STATE_RELEASING \<Rightarrow> finish_release (sm, cs)
     | AGPS_STATE_PENDING \<Rightarrow>
         notifyAllSubscribers AGPS_EVENT_DENIED True AGPS_NOTIFICATION_TYPE_FOR_ALL_SUBSCRIBERS
           (transitionState AGPS_STATE_RELEASED sm, cs)
     | _ \<Rightarrow> (sm, cs))"

definition processAgpsEvent :: "AgpsEvent \<Rightarrow> sm_run \<Rightarrow> sm_run option" where
  "processAgpsEvent event r = (case event of
       AGPS_EVENT_SUBSCRIBE \<Rightarrow> processAgpsEventSubscribe r
     | AGPS_EVENT_UNSUBSCRIBE \<Rightarrow> processAgpsEventUnsubscribe r
     | AGPS_EVENT_GRANTED \<Rightarrow> Some (processAgpsEventGranted r)
     | AGPS_EVENT_RELEASED \<Rightarrow> Some (processAgpsEventReleased r)
     | AGPS_EVENT_DENIED \<Rightarrow> Some (processAgpsEventDenied r)
     | AGPS_EVENT_INVALID \<Rightarrow> Some r)"

section \<open>The manager\<close>

record gps_conf =
  CAPABILITIES :: u32
  USE_EMERGENCY_PDN_FOR_EMERGENCY_SUPL :: u32

record AgpsManager =
  mAgnssNif :: "AgpsStateMachine option"
  mInternetNif :: "AgpsStateMachine option"

definition new_AgpsManager :: AgpsManager where
  "new_AgpsManager = \<lparr>mAgnssNif = None, mInternetNif = None\<rparr>"

definition isRegistered :: "AgpsManager \<Rightarrow> bool" where
  "isRegistered m \<longleftrightarrow> mAgnssNif m \<noteq> None \<or> mInternetNif m \<noteq> None"

definition createAgpsStateMachines :: "gps_conf \<Rightarrow> u32 \<Rightarrow> u32 \<Rightarrow> AgpsManager \<Rightarrow> AgpsManager" where
  "createAgpsStateMachines conf junk atlType m =
     (let agpsCapable = (CAPABILITIES conf AND LOC_GPS_CAPABILITY_MSA \<noteq> 0 \<or>
                         CAPABILITIES conf AND LOC_GPS_CAPABILITY_MSB \<noteq> 0);
          m = (if mInternetNif m = None \<and> atlType AND AGPS_ATL_TYPE_WWAN \<noteq> 0
               then m\<lparr>mInternetNif := Some (new_AgpsStateMachine junk LOC_AGPS_TYPE_WWAN_ANY)\<rparr> else m)
      in if agpsCapable \<and> mAgnssNif m = None \<and> atlType AND AGPS_ATL_TYPE_SUPL \<noteq> 0 \<and>
            atlType AND AGPS_ATL_TYPE_SUPL_ES \<noteq> 0
         then m\<lparr>mAgnssNif := Some (new_AgpsStateMachine junk LOC_AGPS_TYPE_SUPL)\<rparr> else m)"

text \<open>Which machine serves a type, as the accessors of the manager's field.\<close>

definition serves_agnss :: "int \<Rightarrow> bool" where
  "serves_agnss agpsType \<longleftrightarrow> agpsType = LOC_AGPS_TYPE_INVALID \<or> agpsType = LOC_AGPS_TYPE_SUPL \<or>
     agpsType = LOC_AGPS_TYPE_SUPL_ES"

definition getAgpsStateMachine :: "int \<Rightarrow> AgpsManager \<Rightarrow> AgpsStateMachine option" where
  "getAgpsStateMachine agpsType m = (if serves_agnss agpsType then mAgnssNif m else mInternetNif m)"

definition setAgpsStateMachine :: "int \<Rightarrow> AgpsStateMachine \<Rightarrow> AgpsManager \<Rightarrow> AgpsManager" where
  "setAgpsStateMachine agpsType sm m =
     (if serves_agnss agpsType then m\<lparr>mAgnssNif := Some sm\<rparr> else m\<lparr>mInternetNif := Some sm\<rparr>)"

type_synonym mgr_run = "AgpsManager \<times> agps_call list"

definition non_emergency :: "gps_conf \<Rightarrow> int \<times> u32 \<Rightarrow> int \<times> u32" where
  "non_emergency conf = (\<lambda>(agpsType, apnMask).
     if USE_EMERGENCY_PDN_FOR_EMERGENCY_SUPL conf = 0 \<and> agpsType = LOC_AGPS_TYPE_SUPL_ES
     then (LOC_AGPS_TYPE_SUPL,
           (apnMask AND NOT LOC_APN_TYPE_MASK_EMERGENCY) OR LOC_APN_TYPE_MASK_SUPL)
     else (agpsType, apnMask))"

text \<open>
  The subscriber is a local variable: when \<open>requestATL\<close> returns, \<open>mCurrentSubscriber\<close>
  dangles.
\<close>

definition requestATL :: "gps_conf \<Rightarrow> int \<Rightarrow> int \<Rightarrow> u32 \<Rightarrow> mgr_run \<Rightarrow> mgr_run option" where
  "requestATL conf connHandle agpsType0 mask0 = (\<lambda>(m, cs).
     let (agpsType, apnMask) = non_emergency conf (agpsType0, mask0)
     in case getAgpsStateMachine agpsType m of
          None \<Rightarrow>
            Some (m, cs @ [AtlOpenStatus connHandle 0 None 0 AGPS_APN_BEARER_INVALID agpsType apnMask])
        | Some sm \<Rightarrow> do {
            (sm, cs) \<leftarrow> processAgpsEvent AGPS_EVENT_SUBSCRIBE
              (sm\<lparr>mAgpsType := agpsType, mApnTypeMask := apnMask,
                  mCurrentSubscriber := SubLocal
                    \<lparr>mConnHandle = connHandle, mWaitForCloseComplete = True, mIsInactive = False,
                     mSubApnTypeMask = apnMask\<rparr>\<rparr>, cs);
            Some (setAgpsStateMachine agpsType (sm\<lparr>mCurrentSubscriber := SubDangling\<rparr>) m, cs)
          })"

definition unsubscribe_on ::
  "(AgpsStateMachine \<Rightarrow> AgpsManager) \<Rightarrow> sub_ptr \<Rightarrow> AgpsStateMachine \<Rightarrow> agps_call list \<Rightarrow> mgr_run option" where
  "unsubscribe_on put p sm cs = do {
     (sm, cs) \<leftarrow> processAgpsEvent AGPS_EVENT_UNSUBSCRIBE (sm\<lparr>mCurrentSubscriber := p\<rparr>, cs);
     Some (put sm, cs)
   }"

definition sub_lookup :: "int \<Rightarrow> AgpsStateMachine option \<Rightarrow> (AgpsStateMachine \<times> sub_ptr) option" where
  "sub_lookup connHandle nif = (case nif of
       None \<Rightarrow> None
     | Some sm \<Rightarrow> (case getSubscriber connHandle sm of SubNull \<Rightarrow> None | p \<Rightarrow> Some (sm, p)))"

definition releaseATL :: "int \<Rightarrow> mgr_run \<Rightarrow> mgr_run option" where
  "releaseATL connHandle = (\<lambda>(m, cs).
     case sub_lookup connHandle (mAgnssNif m) of
       Some (sm, p) \<Rightarrow> unsubscribe_on (\<lambda>sm. m\<lparr>mAgnssNif := Some sm\<rparr>) p sm cs
     | None \<Rightarrow>
         (case sub_lookup connHandle (mInternetNif m) of
            Some (sm, p) \<Rightarrow> unsubscribe_on (\<lambda>sm. m\<lparr>mInternetNif := Some sm\<rparr>) p sm cs
          | None \<Rightarrow> Some (m, cs)))"

text \<open>The reports of the framework use the machine without a null check.\<close>

definition send_event :: "int \<Rightarrow> (AgpsStateMachine \<Rightarrow> AgpsStateMachine) \<Rightarrow> AgpsEvent \<Rightarrow> mgr_run \<Rightarrow> mgr_run option" where
  "send_event agpsType f event = (\<lambda>(m, cs). do {
     sm \<leftarrow> getAgpsStateMachine agpsType m;
     (sm, cs) \<leftarrow> processAgpsEvent event (f sm, cs);
     Some (setAgpsStateMachine agpsType sm m, cs)
   })"

definition reportAtlOpenSuccess :: "int \<Rightarrow> bytes option \<Rightarrow> u32 \<Rightarrow> int \<Rightarrow> mgr_run \<Rightarrow> mgr_run option" where
  "reportAtlOpenSuccess agpsType apnName apnLen bearerType =
     send_event agpsType (\<lambda>sm. setAPN apnName apnLen (sm\<lparr>mBearer := bearerType\<rparr>)) AGPS_EVENT_GRANTED"

definition reportAtlOpenFailed :: "int \<Rightarrow> mgr_run \<Rightarrow> mgr_run option" where
  "reportAtlOpenFailed agpsType = send_event agpsType id AGPS_EVENT_DENIED"

definition reportAtlClosed :: "int \<Rightarrow> mgr_run \<Rightarrow> mgr_run option" where
  "reportAtlClosed agpsType = send_event agpsType id AGPS_EVENT_RELEASED"

definition handleModemSSR :: "AgpsManager \<Rightarrow> AgpsManager" where
  "handleModemSSR m =
     m\<lparr>mAgnssNif := map_option dropAllSubscribers (mAgnssNif m),
       mInternetNif := map_option dropAllSubscribers (mInternetNif m)\<rparr>"

section \<open>The abstract machine\<close>

text \<open>
  What the machine promises, without lists, pointers and configuration: the state of the link, the
  handles that want it and the handles that wait for its end. One operation gives the new state and
  what it tells: the handles told open, refused and closed, and the requests to the framework.
\<close>

datatype link = Down | Asked | Up | Closing

record agps_spec =
  link :: link
  users :: "int set"
  leavers :: "int set"

record told =
  opened :: "int set"
  refused :: "int set"
  closed :: "int set"
  asked :: "data_conn_status list"

datatype sm_op =
    Subscribe int int u32
  | Unsubscribe int
  | Granted "bytes option" u32 int
  | Denied
  | Released

definition nothing :: told where
  "nothing = \<lparr>opened = {}, refused = {}, closed = {}, asked = []\<rparr>"

definition join :: "int \<Rightarrow> agps_spec \<Rightarrow> agps_spec" where
  "join h a = (if h \<in> users a \<union> leavers a then a else a\<lparr>users := insert h (users a)\<rparr>)"

definition end_release :: "agps_spec \<Rightarrow> agps_spec \<times> told" where
  "end_release a = (if users a = {}
     then (\<lparr>link = Down, users = {}, leavers = {}\<rparr>, nothing\<lparr>closed := leavers a\<rparr>)
     else (a\<lparr>link := Asked, leavers := {}\<rparr>,
           nothing\<lparr>closed := leavers a, asked := [LOC_GPS_REQUEST_AGPS_DATA_CONN]\<rparr>))"

fun spec_step :: "sm_op \<Rightarrow> agps_spec \<Rightarrow> agps_spec \<times> told" where
  "spec_step (Subscribe h t apnMask) a = (case link a of
       Down \<Rightarrow> (join h a\<lparr>link := Asked\<rparr>, nothing\<lparr>asked := [LOC_GPS_REQUEST_AGPS_DATA_CONN]\<rparr>)
     | Up \<Rightarrow> (join h a, nothing\<lparr>opened := {h}\<rparr>)
     | _ \<Rightarrow> (join h a, nothing))"
| "spec_step (Unsubscribe h) a =
     (if h \<notin> users a \<union> leavers a then (a, nothing)
      else let a' = a\<lparr>users := users a - {h}, leavers := insert h (leavers a)\<rparr>
           in if users a' = {} \<and> link a \<noteq> Closing
              then (a'\<lparr>link := Closing\<rparr>, nothing\<lparr>asked := [LOC_GPS_RELEASE_AGPS_DATA_CONN]\<rparr>)
              else (a', nothing))"
| "spec_step (Granted apn len bearer) a =
     (if link a = Asked then (a\<lparr>link := Up\<rparr>, nothing\<lparr>opened := users a\<rparr>) else (a, nothing))"
| "spec_step Denied a = (case link a of
       Asked \<Rightarrow> (\<lparr>link = Down, users = {}, leavers = {}\<rparr>, nothing\<lparr>refused := users a \<union> leavers a\<rparr>)
     | Closing \<Rightarrow> end_release a
     | _ \<Rightarrow> (a, nothing))"
| "spec_step Released a = (case link a of
       Up \<Rightarrow> (\<lparr>link = Down, users = {}, leavers = {}\<rparr>, nothing\<lparr>closed := users a \<union> leavers a\<rparr>)
     | Closing \<Rightarrow> end_release a
     | _ \<Rightarrow> (a, nothing))"

section \<open>The machine's invariant and its abstraction\<close>

definition handles :: "(nat \<times> AgpsSubscriber) list \<Rightarrow> int list" where
  "handles subs = map (\<lambda>(a, s). mConnHandle s) subs"

definition apn_ok :: "AgpsStateMachine \<Rightarrow> bool" where
  "apn_ok sm \<longleftrightarrow> (case mAPN sm of
       None \<Rightarrow> mAPNLen sm = 0
     | Some s \<Rightarrow> unat (mAPNLen sm) \<le> MAX_APN_LEN \<and> length s = unat (mAPNLen sm) + 1 \<and>
                length (cstr_of s) = unat (mAPNLen sm))"

definition subs_ok :: "(nat \<times> AgpsSubscriber) list \<Rightarrow> nat \<Rightarrow> bool" where
  "subs_ok subs n \<longleftrightarrow> distinct (map fst subs) \<and> (\<forall>(a, s) \<in> set subs. a < n \<and> mWaitForCloseComplete s) \<and>
     distinct (handles subs)"

definition sm_ok :: "AgpsStateMachine \<Rightarrow> bool" where
  "sm_ok sm \<longleftrightarrow> subs_ok (mSubscriberList sm) (mNextObject sm) \<and> apn_ok sm \<and>
     (case mState sm of
        AGPS_STATE_INVALID \<Rightarrow> False
      | AGPS_STATE_RELEASED \<Rightarrow> mSubscriberList sm = []
      | AGPS_STATE_RELEASING \<Rightarrow> True
      | _ \<Rightarrow> mSubscriberList sm = [] \<or> anyActiveSubscribers sm)"

definition link_of :: "AgpsState \<Rightarrow> link" where
  "link_of st = (case st of
       AGPS_STATE_PENDING \<Rightarrow> Asked | AGPS_STATE_ACQUIRED \<Rightarrow> Up | AGPS_STATE_RELEASING \<Rightarrow> Closing
     | _ \<Rightarrow> Down)"

definition users_of :: "bool \<Rightarrow> (nat \<times> AgpsSubscriber) list \<Rightarrow> int set" where
  "users_of inactive subs = {h. \<exists>(a, s) \<in> set subs. mConnHandle s = h \<and> mIsInactive s = inactive}"

definition abs_sm :: "AgpsStateMachine \<Rightarrow> agps_spec" where
  "abs_sm sm = \<lparr>link = link_of (mState sm), users = users_of False (mSubscriberList sm),
                leavers = users_of True (mSubscriberList sm)\<rparr>"

lemma apn_ok_simps [simp]:
  "apn_ok (sm\<lparr>mState := x\<rparr>) = apn_ok sm"
  "apn_ok (sm\<lparr>mSubscriberList := y\<rparr>) = apn_ok sm"
  "apn_ok (sm\<lparr>mNextObject := n\<rparr>) = apn_ok sm"
  "apn_ok (sm\<lparr>mCurrentSubscriber := p\<rparr>) = apn_ok sm"
  "apn_ok (sm\<lparr>mAgpsType := t\<rparr>) = apn_ok sm"
  "apn_ok (sm\<lparr>mApnTypeMask := m\<rparr>) = apn_ok sm"
  by (simp_all add: apn_ok_def cong: option.case_cong)

text \<open>What a list of callbacks tells.\<close>

fun conn_status :: "agps_call \<Rightarrow> data_conn_status list" where
  "conn_status (FrameworkStatus st) = [nif_status st]"
| "conn_status _ = []"

definition abs_calls :: "agps_call list \<Rightarrow> told" where
  "abs_calls cs =
     \<lparr>opened = {h. \<exists>ok apn len b t m. AtlOpenStatus h ok apn len b t m \<in> set cs \<and> ok \<noteq> 0},
      refused = {h. \<exists>apn len b t m. AtlOpenStatus h 0 apn len b t m \<in> set cs},
      closed = {h. \<exists>ok. AtlCloseStatus h ok \<in> set cs},
      asked = concat (map conn_status cs)\<rparr>"

text \<open>One operation on a machine, as the manager's methods perform it.\<close>

definition new_subscriber :: "int \<Rightarrow> u32 \<Rightarrow> AgpsSubscriber" where
  "new_subscriber h apnMask = \<lparr>mConnHandle = h, mWaitForCloseComplete = True, mIsInactive = False,
     mSubApnTypeMask = apnMask\<rparr>"

fun sm_step :: "sm_op \<Rightarrow> AgpsStateMachine \<Rightarrow> sm_run option" where
  "sm_step (Subscribe h t apnMask) sm =
     map_option (\<lambda>(sm, cs). (sm\<lparr>mCurrentSubscriber := SubDangling\<rparr>, cs))
       (processAgpsEvent AGPS_EVENT_SUBSCRIBE
          (sm\<lparr>mAgpsType := t, mApnTypeMask := apnMask,
              mCurrentSubscriber := SubLocal (new_subscriber h apnMask)\<rparr>, []))"
| "sm_step (Unsubscribe h) sm =
     (case getSubscriber h sm of SubNull \<Rightarrow> Some (sm, [])
      | p \<Rightarrow> processAgpsEvent AGPS_EVENT_UNSUBSCRIBE (sm\<lparr>mCurrentSubscriber := p\<rparr>, []))"
| "sm_step (Granted apn len bearer) sm =
     processAgpsEvent AGPS_EVENT_GRANTED (setAPN apn len (sm\<lparr>mBearer := bearer\<rparr>), [])"
| "sm_step Denied sm = processAgpsEvent AGPS_EVENT_DENIED (sm, [])"
| "sm_step Released sm = processAgpsEvent AGPS_EVENT_RELEASED (sm, [])"

section \<open>Lemmas on the list and the notifications\<close>

lemma notify_loop_eq:
  "notify_loop sm ev del nt subs cs =
     (if del then filter (\<lambda>(a, s). \<not> notify_matches nt s) subs else subs,
      cs @ concat (map (\<lambda>(a, s). notify_call sm ev (mConnHandle s))
                     (filter (\<lambda>(a, s). notify_matches nt s) subs)))"
  by (induction sm ev del nt subs cs rule: notify_loop.induct) (auto simp: Let_def split: prod.splits)

lemma abs_calls_Nil [simp]: "abs_calls [] = nothing"
  by (simp add: abs_calls_def nothing_def)

lemma asked_nothing [simp]: "asked nothing = []"
  by (simp add: nothing_def)

lemma abs_calls_framework:
  "abs_calls (cs @ [FrameworkStatus st]) = abs_calls cs\<lparr>asked := asked (abs_calls cs) @ [nif_status st]\<rparr>"
  by (simp add: abs_calls_def)

lemma conn_status_notify: "c \<in> set (notify_call sm ev h) \<Longrightarrow> conn_status c = []"
  by (cases ev) (auto simp: notify_call_def)

lemma conn_status_notify_all:
  "concat (map conn_status (concat (map (\<lambda>(a, s). notify_call sm ev (mConnHandle s)) subs))) = []"
  by (auto simp: conn_status_notify)

definition told_by :: "AgpsEvent \<Rightarrow> int set \<Rightarrow> told" where
  "told_by ev H = (case ev of
       AGPS_EVENT_GRANTED \<Rightarrow> nothing\<lparr>opened := H\<rparr>
     | AGPS_EVENT_DENIED \<Rightarrow> nothing\<lparr>refused := H\<rparr>
     | AGPS_EVENT_RELEASED \<Rightarrow> nothing\<lparr>closed := H\<rparr>
     | AGPS_EVENT_UNSUBSCRIBE \<Rightarrow> nothing\<lparr>closed := H\<rparr>
     | _ \<Rightarrow> nothing)"

lemma abs_calls_notify_all:
  "abs_calls (concat (map (\<lambda>(a, s). notify_call sm ev (mConnHandle s)) subs)) =
     told_by ev (set (handles subs))"
  unfolding abs_calls_def conn_status_notify_all
  by (cases ev) (force simp: notify_call_def told_by_def nothing_def handles_def)+

lemma set_handles: "set (handles subs) = users_of False subs \<union> users_of True subs"
  by (force simp: handles_def users_of_def)

lemma handles_filter:
  "set (handles (filter (\<lambda>(a, s). mIsInactive s) subs)) = users_of True subs"
  "set (handles (filter (\<lambda>(a, s). \<not> mIsInactive s) subs)) = users_of False subs"
  by (auto simp: handles_def users_of_def)

lemma any_active_users: "anyActiveSubscribers sm \<longleftrightarrow> users_of False (mSubscriberList sm) \<noteq> {}"
  by (auto simp: anyActiveSubscribers_def users_of_def list_ex_iff)

lemma notify_matches_simps [simp]:
  "notify_matches AGPS_NOTIFICATION_TYPE_FOR_ALL_SUBSCRIBERS s"
  "notify_matches AGPS_NOTIFICATION_TYPE_FOR_INACTIVE_SUBSCRIBERS s = mIsInactive s"
  "notify_matches AGPS_NOTIFICATION_TYPE_FOR_ACTIVE_SUBSCRIBERS s = (\<not> mIsInactive s)"
  by (simp_all add: notify_matches_def)

lemma users_of_Nil [simp]: "users_of b [] = {}"
  by (simp add: users_of_def)

lemma users_of_filter [simp]:
  "users_of False (filter (\<lambda>(a, s). \<not> mIsInactive s) subs) = users_of False subs"
  "users_of True (filter (\<lambda>(a, s). \<not> mIsInactive s) subs) = {}"
  by (auto simp: users_of_def)

lemma subs_ok_filter: "subs_ok subs n \<Longrightarrow> subs_ok (filter P subs) n"
  by (auto simp: subs_ok_def handles_def distinct_map_filter)

lemma users_empty: "users_of False subs = {} \<Longrightarrow> filter (\<lambda>(a, s). \<not> mIsInactive s) subs = []"
  by (auto simp: users_of_def filter_empty_conv)

section \<open>Each operation refines its abstract step\<close>

lemmas agps_simps = processAgpsEvent_def processAgpsEventSubscribe_def processAgpsEventUnsubscribe_def
  processAgpsEventGranted_def processAgpsEventDenied_def processAgpsEventReleased_def
  notifyAllSubscribers_def notify_loop_eq requestOrReleaseDataConn_def transitionState_def
  finish_release_def abs_calls_notify_all abs_calls_framework

lemma finish_release_refines:
  assumes "sm_ok sm" "mState sm = AGPS_STATE_RELEASING" "finish_release (sm, []) = (sm', cs)"
  shows "sm_ok sm' \<and> (abs_sm sm', abs_calls cs) = end_release (abs_sm sm)"
  using assms subs_ok_filter[of "mSubscriberList sm" "mNextObject sm" "\<lambda>(a, s). \<not> mIsInactive s"]
    users_empty[of "mSubscriberList sm"]
  by (auto simp: agps_simps sm_ok_def any_active_users abs_sm_def link_of_def
      end_release_def told_by_def handles_filter split: if_splits)

lemma subs_ok_Nil [simp]: "subs_ok [] n"
  by (simp add: subs_ok_def handles_def)

lemma denied_refines:
  assumes "sm_ok sm"
  shows "\<exists>sm' cs. sm_step Denied sm = Some (sm', cs) \<and> sm_ok sm' \<and>
    (abs_sm sm', abs_calls cs) = spec_step Denied (abs_sm sm)"
proof (cases "mState sm = AGPS_STATE_RELEASING")
  case True
  with finish_release_refines[OF assms this] show ?thesis
    by (cases "finish_release (sm, [])")
       (simp add: processAgpsEvent_def processAgpsEventDenied_def abs_sm_def link_of_def)
next
  case False
  with assms show ?thesis
    by (cases "mState sm")
      (auto simp: agps_simps sm_ok_def abs_sm_def link_of_def told_by_def set_handles)
qed

lemma released_refines:
  assumes "sm_ok sm"
  shows "\<exists>sm' cs. sm_step Released sm = Some (sm', cs) \<and> sm_ok sm' \<and>
    (abs_sm sm', abs_calls cs) = spec_step Released (abs_sm sm)"
proof (cases "mState sm = AGPS_STATE_RELEASING")
  case True
  with finish_release_refines[OF assms this] show ?thesis
    by (cases "finish_release (sm, [])")
       (simp add: processAgpsEvent_def processAgpsEventReleased_def abs_sm_def link_of_def)
next
  case False
  with assms show ?thesis
    by (cases "mState sm")
      (auto simp: agps_simps sm_ok_def abs_sm_def link_of_def told_by_def set_handles)
qed

lemma setAPN_fields [simp]:
  "mSubscriberList (setAPN apn len sm) = mSubscriberList sm"
  "mNextObject (setAPN apn len sm) = mNextObject sm"
  "mState (setAPN apn len sm) = mState sm"
  "mCurrentSubscriber (setAPN apn len sm) = mCurrentSubscriber sm"
  "mAgpsType (setAPN apn len sm) = mAgpsType sm"
  by (auto simp: setAPN_def split: option.splits)

lemma cstr_of_terminated: "cstr_of (take (length (cstr_of s)) s @ [0]) = cstr_of s"
proof -
  have "take (length (cstr_of s)) s = cstr_of s"
    by (metis cstr_of_def takeWhile_eq_take)
  moreover have "cstr_of (cstr_of s @ [0]) = cstr_of s"
    by (auto simp: cstr_of_def takeWhile_append dest: set_takeWhileD)
  ultimately show ?thesis by simp
qed

lemma setAPN_ok: "apn_ok (setAPN apn len sm)"
  using cstr_of_terminated
  by (auto simp: setAPN_def apn_ok_def cstr_of_def split: option.splits)
     (metis length_takeWhile_le min.absorb2)+

lemma granted_refines:
  assumes "sm_ok sm"
  shows "\<exists>sm' cs. sm_step (Granted apn len bearer) sm = Some (sm', cs) \<and> sm_ok sm' \<and>
    (abs_sm sm', abs_calls cs) = spec_step (Granted apn len bearer) (abs_sm sm)"
  using assms setAPN_ok[of apn len "sm\<lparr>mBearer := bearer\<rparr>"]
  by (cases "mState sm")
    (auto simp: agps_simps sm_ok_def abs_sm_def link_of_def told_by_def handles_filter
      anyActiveSubscribers_def)


lemma present_iff:
  "list_ex (\<lambda>(a, t). equals t s) subs \<longleftrightarrow> mConnHandle s \<in> set (handles subs)"
  by (force simp: equals_def list_ex_iff handles_def)

lemma addSubscriber_local:
  "addSubscriber (SubLocal s) sm =
     Some (if mConnHandle s \<in> set (handles (mSubscriberList sm)) then sm
           else sm\<lparr>mSubscriberList := mSubscriberList sm @ [(mNextObject sm, s)],
                   mNextObject := mNextObject sm + 1\<rparr>)"
  by (simp add: addSubscriber_def deref_def present_iff)

lemma subs_ok_append:
  "subs_ok subs n \<Longrightarrow> mConnHandle s \<notin> set (handles subs) \<Longrightarrow> mWaitForCloseComplete s \<Longrightarrow>
   subs_ok (subs @ [(n, s)]) (Suc n)"
  by (force simp: subs_ok_def handles_def)

lemma users_of_append:
  "users_of b (subs @ [(n, s)]) =
     (if mIsInactive s = b then insert (mConnHandle s) (users_of b subs) else users_of b subs)"
  by (auto simp: users_of_def)

lemma new_subscriber_fields [simp]:
  "mConnHandle (new_subscriber h m) = h" "mWaitForCloseComplete (new_subscriber h m)"
  "\<not> mIsInactive (new_subscriber h m)"
  by (simp_all add: new_subscriber_def)

lemma abs_calls_granted:
  "abs_calls (notify_call sm AGPS_EVENT_GRANTED h) = nothing\<lparr>opened := {h}\<rparr>"
  by (simp add: abs_calls_def notify_call_def nothing_def)

lemma subscribe_refines:
  assumes "sm_ok sm"
  shows "\<exists>sm' cs. sm_step (Subscribe h t m) sm = Some (sm', cs) \<and> sm_ok sm' \<and>
    (abs_sm sm', abs_calls cs) = spec_step (Subscribe h t m) (abs_sm sm)"
proof (cases "h \<in> set (handles (mSubscriberList sm))")
  case True
  with assms show ?thesis
    by (cases "mState sm")
      (auto simp: agps_simps sm_ok_def abs_sm_def link_of_def set_handles addSubscriber_local join_def
        notifyEventToSubscriber_def deref_def abs_calls_granted anyActiveSubscribers_def
        abs_calls_framework[of "[]", simplified])
next
  case False
  with assms subs_ok_append[of "mSubscriberList sm" "mNextObject sm" "new_subscriber h m"] show ?thesis
    by (cases "mState sm")
      (auto simp: agps_simps sm_ok_def abs_sm_def link_of_def set_handles addSubscriber_local join_def
        notifyEventToSubscriber_def deref_def abs_calls_granted anyActiveSubscribers_def
        abs_calls_framework[of "[]", simplified] users_of_append users_of_append[of _ "[]", simplified])
qed


text \<open>The machine finds the subscriber by its handle and marks exactly that one.\<close>

definition inactivate :: "int \<Rightarrow> (nat \<times> AgpsSubscriber) list \<Rightarrow> (nat \<times> AgpsSubscriber) list" where
  "inactivate h subs =
     map (\<lambda>(b, s). (b, if mConnHandle s = h then s\<lparr>mIsInactive := True\<rparr> else s)) subs"

lemma getSubscriber_cases:
  assumes "subs_ok (mSubscriberList sm) n"
  obtains (absent) "h \<notin> set (handles (mSubscriberList sm))" "getSubscriber h sm = SubNull"
  | (present) a s where "(a, s) \<in> set (mSubscriberList sm)" "mConnHandle s = h"
      "getSubscriber h sm = SubHeap a" "map_of (mSubscriberList sm) a = Some s" "mWaitForCloseComplete s"
proof (cases "find (\<lambda>(a, s). mConnHandle s = h) (mSubscriberList sm)")
  case None
  show ?thesis
  proof (rule absent)
    show "h \<notin> set (handles (mSubscriberList sm))"
      using None by (auto simp: find_None_iff handles_def)
    show "getSubscriber h sm = SubNull"
      using None by (simp add: getSubscriber_def)
  qed
next
  case (Some p)
  then obtain a s where p: "p = (a, s)" "(a, s) \<in> set (mSubscriberList sm)" "mConnHandle s = h"
    by (cases p) (metis (mono_tags, lifting) case_prodD find_Some_iff nth_mem)
  moreover have "map_of (mSubscriberList sm) a = Some s" "mWaitForCloseComplete s"
    using p assms by (auto simp: subs_ok_def)
  ultimately show ?thesis
    using Some by (intro present) (auto simp: getSubscriber_def)
qed

lemma same_subscriber:
  "subs_ok subs n \<Longrightarrow> (a, s) \<in> set subs \<Longrightarrow> (b, t) \<in> set subs \<Longrightarrow> b = a \<longleftrightarrow> mConnHandle t = mConnHandle s"
  unfolding subs_ok_def handles_def
  by (metis (no_types, lifting) case_prod_conv distinct_map fst_conv inj_onD prod.inject)

lemma inactivate_eq:
  assumes "subs_ok subs n" "(a, s) \<in> set subs" "mConnHandle s = h"
  shows "map (\<lambda>(b, s). (b, if b = a then s\<lparr>mIsInactive := True\<rparr> else s)) subs = inactivate h subs"
  using same_subscriber[OF assms(1,2)] assms(3) by (auto simp: inactivate_def)

lemma handles_inactivate [simp]: "handles (inactivate h subs) = handles subs"
  by (induction subs) (auto simp: handles_def inactivate_def)

lemma subs_ok_inactivate: "subs_ok subs n \<Longrightarrow> subs_ok (inactivate h subs) n"
  by (auto simp: subs_ok_def) (force simp: inactivate_def comp_def split_def)+

lemma users_inactivate:
  "users_of False (inactivate h subs) = users_of False subs - {h}"
  "h \<in> set (handles subs) \<Longrightarrow> users_of True (inactivate h subs) = insert h (users_of True subs)"
  by (force simp: users_of_def inactivate_def handles_def split: if_splits)+

lemma unsubscribe_refines:
  assumes "sm_ok sm"
  shows "\<exists>sm' cs. sm_step (Unsubscribe h) sm = Some (sm', cs) \<and> sm_ok sm' \<and>
    (abs_sm sm', abs_calls cs) = spec_step (Unsubscribe h) (abs_sm sm)"
proof -
  have ok: "subs_ok (mSubscriberList sm) (mNextObject sm)"
    using assms by (simp add: sm_ok_def)
  from ok show ?thesis
  proof (cases rule: getSubscriber_cases[of sm "mNextObject sm" h])
    case absent
    with assms show ?thesis by (simp add: abs_sm_def set_handles)
  next
    case (present a s)
    have mem: "h \<in> set (handles (mSubscriberList sm))"
      using present(1,2) by (force simp: handles_def)
    moreover have "mSubscriberList sm \<noteq> []" using present(1) by auto
    ultimately show ?thesis
      using assms present ok subs_ok_inactivate[OF ok, of h]
        inactivate_eq[OF ok present(1,2)] users_inactivate[of h "mSubscriberList sm"]
      by (cases "mState sm")
        (auto simp: agps_simps unsubscribe_connected_def unsubscribe_current_def deref_def
          set_inactive_def sm_ok_def abs_sm_def link_of_def set_handles any_active_users Let_def
          abs_calls_framework[of "[]", simplified])
  qed
qed

end
