(* ===== verification/Machine.thy ===== *)
theory Machine
  imports Prelude
begin

text \<open>
  Components that react to calls: a partial step function gives, for one operation and a state, the
  new state and the callbacks made, \<open>None\<close> standing for undefined behaviour. This theory
  holds runs over sequences of operations, reachability, and the contract (a locale) under which
  an invariant holds in every reachable state and no admitted operation is undefined.
\<close>

fun run :: "('op \<Rightarrow> 's \<Rightarrow> ('s \<times> 'o list) option) \<Rightarrow> 'op list \<Rightarrow> 's \<Rightarrow> ('s \<times> 'o list) option" where
  "run step [] s = Some (s, [])"
| "run step (op # ops) s = do {
     (s, out) \<leftarrow> step op s;
     (s, more) \<leftarrow> run step ops s;
     Some (s, out @ more)
   }"

inductive reachable :: "('op \<Rightarrow> 's \<Rightarrow> ('s \<times> 'o list) option) \<Rightarrow> 's \<Rightarrow> 's \<Rightarrow> bool"
  for step :: "'op \<Rightarrow> 's \<Rightarrow> ('s \<times> 'o list) option" and start :: 's where
  start: "reachable step start start"
| forward: "reachable step start s \<Longrightarrow> step op s = Some (s', out) \<Longrightarrow> reachable step start s'"

inductive_cases reachableE: "reachable step start s"

lemma run_ConsE:
  assumes "run step (op # ops) s = Some (s', out)"
  obtains s1 o1 o2 where "step op s = Some (s1, o1)" "run step ops s1 = Some (s', o2)" "out = o1 @ o2"
  using assms by (auto simp: bind_eq_Some_conv)

lemma run_append:
  "run step (xs @ ys) s = do {
     (s, out) \<leftarrow> run step xs s;
     (s, more) \<leftarrow> run step ys s;
     Some (s, out @ more)
   }"
proof (induction xs arbitrary: s)
  case Nil
  show ?case by (cases "run step ys s") auto
next
  case (Cons op xs)
  show ?case
    by (cases "step op s")
      (auto simp: Cons.IH Option.bind_eq_Some_conv split: Option.bind_splits)
qed

lemma reachable_run:
  "reachable step start s \<Longrightarrow> run step ops s = Some (s', out) \<Longrightarrow> reachable step start s'"
proof (induction ops arbitrary: s out)
  case Nil
  then show ?case by simp
next
  case (Cons op ops)
  from Cons.prems(2) obtain s1 o1 o2 where "step op s = Some (s1, o1)" "run step ops s1 = Some (s', o2)"
    by (rule run_ConsE)
  with Cons show ?case by (blast intro: reachable.forward)
qed

lemma run_reachable: "run step ops start = Some (s, out) \<Longrightarrow> reachable step start s"
  by (rule reachable_run[OF reachable.start])

text \<open>Every operation of the sequence is admitted in the state it meets.\<close>

fun admitted :: "('op \<Rightarrow> 's \<Rightarrow> ('s \<times> 'o list) option) \<Rightarrow> ('op \<Rightarrow> 's \<Rightarrow> bool) \<Rightarrow> 'op list \<Rightarrow> 's \<Rightarrow> bool" where
  "admitted step ok [] s = True"
| "admitted step ok (op # ops) s =
     (ok op s \<and> (case step op s of None \<Rightarrow> True | Some (s', out) \<Rightarrow> admitted step ok ops s'))"

locale machine =
  fixes step :: "'op \<Rightarrow> 's \<Rightarrow> ('s \<times> 'o list) option"
    and start :: 's
    and inv :: "'s \<Rightarrow> bool"
    and ok :: "'op \<Rightarrow> 's \<Rightarrow> bool"
  assumes start_inv: "inv start"
    and step_inv: "inv s \<Longrightarrow> step op s = Some (s', out) \<Longrightarrow> inv s'"
    and step_defined: "inv s \<Longrightarrow> ok op s \<Longrightarrow> step op s \<noteq> None"
begin

lemma reachable_inv: "reachable step start s \<Longrightarrow> inv s"
  by (induction rule: reachable.induct) (auto intro: start_inv step_inv)

lemma run_inv: "inv s \<Longrightarrow> run step ops s = Some (s', out) \<Longrightarrow> inv s'"
proof (induction ops arbitrary: s out)
  case (Cons op ops)
  from Cons.prems(2) show ?case
    by (rule run_ConsE) (blast intro: Cons.IH step_inv[OF Cons.prems(1)])
qed simp

lemma run_defined: "inv s \<Longrightarrow> admitted step ok ops s \<Longrightarrow> \<exists>s' out. run step ops s = Some (s', out)"
proof (induction ops arbitrary: s)
  case Nil
  then show ?case by simp
next
  case (Cons op ops)
  obtain s1 o1 where s1: "step op s = Some (s1, o1)"
    using step_defined[OF Cons.prems(1), of op] Cons.prems(2) by (cases "step op s") auto
  then have "inv s1" "admitted step ok ops s1"
    using Cons.prems step_inv by auto
  with Cons.IH obtain s' out where "run step ops s1 = Some (s', out)" by blast
  with s1 show ?case by simp
qed

end

end
