(* ===== verification/AgpsMgr.thy ===== *)
theory AgpsMgr
  imports Agps Machine
begin

text \<open>
  The manager of the data call machines as one reactive component: its operations as the messages
  of \<open>GnssAdapter\<close> call them, the invariant of every reachable state, and the properties of
  the two machines it owns.
\<close>

section \<open>Operations\<close>

datatype agps_op =
    CreateMachines u32
  | RequestATL int int u32
  | ReleaseATL int
  | OpenSuccess int "bytes option" u32 int
  | OpenFailed int
  | Closed int
  | ModemSSR

fun agps_step :: "gps_conf \<Rightarrow> u32 \<Rightarrow> agps_op \<Rightarrow> AgpsManager \<Rightarrow> mgr_run option" where
  "agps_step conf junk (CreateMachines atlType) m = Some (createAgpsStateMachines conf junk atlType m, [])"
| "agps_step conf junk (RequestATL h t apnMask) m = requestATL conf h t apnMask (m, [])"
| "agps_step conf junk (ReleaseATL h) m = releaseATL h (m, [])"
| "agps_step conf junk (OpenSuccess t apn len bearer) m = reportAtlOpenSuccess t apn len bearer (m, [])"
| "agps_step conf junk (OpenFailed t) m = reportAtlOpenFailed t (m, [])"
| "agps_step conf junk (Closed t) m = reportAtlClosed t (m, [])"
| "agps_step conf junk ModemSSR m = Some (handleModemSSR m, [])"

text \<open>The framework may report only for a type whose machine exists.\<close>

fun agps_admits :: "agps_op \<Rightarrow> AgpsManager \<Rightarrow> bool" where
  "agps_admits (OpenSuccess t apn len bearer) m = (getAgpsStateMachine t m \<noteq> None)"
| "agps_admits (OpenFailed t) m = (getAgpsStateMachine t m \<noteq> None)"
| "agps_admits (Closed t) m = (getAgpsStateMachine t m \<noteq> None)"
| "agps_admits _ m = True"

definition mgr_ok :: "AgpsManager \<Rightarrow> bool" where
  "mgr_ok m \<longleftrightarrow> pred_option sm_ok (mAgnssNif m) \<and> pred_option sm_ok (mInternetNif m)"

section \<open>The operations in terms of one machine\<close>

lemma sm_refines:
  "sm_ok sm \<Longrightarrow> \<exists>sm' cs. sm_step op sm = Some (sm', cs) \<and> sm_ok sm' \<and>
     (abs_sm sm', abs_calls cs) = spec_step op (abs_sm sm)"
  by (cases op) (metis subscribe_refines unsubscribe_refines granted_refines denied_refines released_refines)+

definition put_sm :: "(AgpsStateMachine \<Rightarrow> AgpsManager) \<Rightarrow> sm_run option \<Rightarrow> mgr_run option" where
  "put_sm put r = map_option (\<lambda>(sm, cs). (put sm, cs)) r"

lemma bind_put_sm: "(r \<bind> (\<lambda>(sm, cs). Some (put sm, cs))) = put_sm put r"
  by (cases r) (auto simp: put_sm_def)

lemma requestATL_eq:
  assumes "non_emergency conf (t0, m0) = (t, mk)"
  shows "requestATL conf h t0 m0 (m, []) = (case getAgpsStateMachine t m of
      None \<Rightarrow> Some (m, [AtlOpenStatus h 0 None 0 AGPS_APN_BEARER_INVALID t mk])
    | Some sm \<Rightarrow> put_sm (\<lambda>sm. setAgpsStateMachine t sm m) (sm_step (Subscribe h t mk) sm))"
  using assms
  by (auto simp: requestATL_def new_subscriber_def put_sm_def map_option.compositionality comp_def
      split: option.splits intro!: option.map_cong0 split: Option.bind_splits)

lemma releaseATL_eq:
  "releaseATL h (m, []) = (
     case sub_lookup h (mAgnssNif m) of
       Some (sm, p) \<Rightarrow> put_sm (\<lambda>sm. m\<lparr>mAgnssNif := Some sm\<rparr>) (sm_step (Unsubscribe h) sm)
     | None \<Rightarrow> (case sub_lookup h (mInternetNif m) of
         Some (sm, p) \<Rightarrow> put_sm (\<lambda>sm. m\<lparr>mInternetNif := Some sm\<rparr>) (sm_step (Unsubscribe h) sm)
       | None \<Rightarrow> Some (m, [])))"
  by (auto simp: releaseATL_def sub_lookup_def unsubscribe_on_def bind_put_sm
      split: option.splits sub_ptr.splits)

lemma report_eq:
  "reportAtlOpenSuccess t apn len bearer (m, []) =
     (getAgpsStateMachine t m \<bind> (\<lambda>sm. put_sm (\<lambda>sm. setAgpsStateMachine t sm m) (sm_step (Granted apn len bearer) sm)))"
  "reportAtlOpenFailed t (m, []) =
     (getAgpsStateMachine t m \<bind> (\<lambda>sm. put_sm (\<lambda>sm. setAgpsStateMachine t sm m) (sm_step Denied sm)))"
  "reportAtlClosed t (m, []) =
     (getAgpsStateMachine t m \<bind> (\<lambda>sm. put_sm (\<lambda>sm. setAgpsStateMachine t sm m) (sm_step Released sm)))"
  by (simp_all add: reportAtlOpenSuccess_def reportAtlOpenFailed_def reportAtlClosed_def send_event_def
      bind_put_sm cong: option.case_cong)

declare sm_step.simps [simp del]

lemma mgr_ok_get: "mgr_ok m \<Longrightarrow> getAgpsStateMachine t m = Some sm \<Longrightarrow> sm_ok sm"
  by (auto simp: mgr_ok_def getAgpsStateMachine_def split: if_splits)

lemma mgr_ok_set: "mgr_ok m \<Longrightarrow> sm_ok sm \<Longrightarrow> mgr_ok (setAgpsStateMachine t sm m)"
  by (auto simp: mgr_ok_def setAgpsStateMachine_def)


text \<open>
  A step changes at most one machine, by one operation on it, unless it creates machines or drops
  all subscribers.
\<close>

inductive moves :: "AgpsManager \<Rightarrow> agps_call list \<Rightarrow> AgpsManager \<Rightarrow> bool" where
  stay: "moves m cs m"
| agnss: "mAgnssNif m = Some sm \<Longrightarrow> sm_step sop sm = Some (sm', cs) \<Longrightarrow> moves m cs (m\<lparr>mAgnssNif := Some sm'\<rparr>)"
| internet: "mInternetNif m = Some sm \<Longrightarrow> sm_step sop sm = Some (sm', cs) \<Longrightarrow> moves m cs (m\<lparr>mInternetNif := Some sm'\<rparr>)"

inductive_cases movesE: "moves m cs m'"

lemma moves_put:
  "getAgpsStateMachine t m = Some sm \<Longrightarrow>
   put_sm (\<lambda>sm. setAgpsStateMachine t sm m) (sm_step sop sm) = Some (m', cs) \<Longrightarrow> moves m cs m'"
  by (auto simp: put_sm_def getAgpsStateMachine_def setAgpsStateMachine_def
      split: if_splits intro: moves.intros)

lemma sub_lookup_Some: "sub_lookup h nif = Some (sm, p) \<Longrightarrow> nif = Some sm"
  by (auto simp: sub_lookup_def split: option.splits sub_ptr.splits)

lemma agps_step_moves:
  assumes "agps_step conf junk op m = Some (m', cs)"
  shows "moves m cs m' \<or> (\<exists>atl. op = CreateMachines atl) \<or> op = ModemSSR"
proof (cases op)
  case (RequestATL h t mk)
  obtain t' mk' where "non_emergency conf (t, mk) = (t', mk')" by fastforce
  with assms RequestATL show ?thesis
    by (auto simp: requestATL_eq split: option.splits intro: moves_put moves.stay)
next
  case (ReleaseATL h)
  with assms show ?thesis
    by (auto simp: releaseATL_eq put_sm_def split: option.splits
        dest!: sub_lookup_Some intro: moves.intros)
qed (use assms in \<open>auto simp: report_eq bind_eq_Some_conv intro: moves_put\<close>)

lemma sm_step_ok: "sm_ok sm \<Longrightarrow> sm_step op sm = Some (sm', cs) \<Longrightarrow> sm_ok sm'"
  using sm_refines[of sm op] by auto

lemma moves_ok: "moves m cs m' \<Longrightarrow> mgr_ok m \<Longrightarrow> mgr_ok m'"
  by (erule movesE) (auto simp: mgr_ok_def dest: sm_step_ok)

lemma new_machine_ok: "sm_ok (new_AgpsStateMachine junk t)"
  by (simp add: new_AgpsStateMachine_def sm_ok_def apn_ok_def)

lemma create_ok: "mgr_ok m \<Longrightarrow> mgr_ok (createAgpsStateMachines conf junk atl m)"
  by (auto simp: createAgpsStateMachines_def mgr_ok_def Let_def new_machine_ok)

lemma drop_ok: "sm_ok sm \<Longrightarrow> sm_ok (dropAllSubscribers sm)"
  by (auto simp: dropAllSubscribers_def sm_ok_def split: AgpsState.splits)

lemma ssr_ok: "mgr_ok m \<Longrightarrow> mgr_ok (handleModemSSR m)"
  by (auto simp: handleModemSSR_def mgr_ok_def drop_ok option.pred_map comp_def split: option.splits
      elim!: option.pred_mono_strong)

lemma agps_step_ok: "mgr_ok m \<Longrightarrow> agps_step conf junk op m = Some (m', cs) \<Longrightarrow> mgr_ok m'"
  using agps_step_moves[of conf junk op m m' cs] moves_ok create_ok ssr_ok by auto

lemma put_sm_defined: "sm_ok sm \<Longrightarrow> put_sm put (sm_step op sm) \<noteq> None"
  using sm_refines[of sm op] by (auto simp: put_sm_def)

lemma agps_step_defined:
  assumes "mgr_ok m" "agps_admits op m"
  shows "agps_step conf junk op m \<noteq> None"
proof (cases op)
  case (RequestATL h t mk)
  obtain t' mk' where "non_emergency conf (t, mk) = (t', mk')" by fastforce
  with assms RequestATL put_sm_defined show ?thesis
    by (simp add: requestATL_eq mgr_ok_get[OF assms(1)] del: not_None_eq split: option.split)
next
  case (ReleaseATL h)
  then show ?thesis
    using assms(1) unfolding mgr_ok_def
    by (auto simp: releaseATL_eq put_sm_defined[simplified] split: option.split dest!: sub_lookup_Some)
qed (use assms mgr_ok_get[OF assms(1)] in
    \<open>auto simp: report_eq put_sm_defined bind_eq_None_conv simp del: not_None_eq\<close>)

interpretation agps: machine "agps_step conf junk" new_AgpsManager mgr_ok agps_admits
proof unfold_locales
  show "mgr_ok new_AgpsManager"
    by (simp add: new_AgpsManager_def mgr_ok_def)
qed (auto intro: agps_step_ok simp: agps_step_defined simp del: not_None_eq)


section \<open>Facts of the abstract machine\<close>

definition clients :: "agps_spec \<Rightarrow> int set" where
  "clients a = users a \<union> leavers a"

definition dismissed :: "told \<Rightarrow> int set" where
  "dismissed t = refused t \<union> closed t"

lemma spec_told:
  "spec_step op a = (a', t) \<Longrightarrow> h \<in> clients a \<Longrightarrow> h \<in> clients a' \<or> h \<in> dismissed t"
  by (cases op)
    (auto simp: clients_def dismissed_def nothing_def join_def end_release_def Let_def
      split: link.splits if_splits)

lemma dismissed_append: "dismissed (abs_calls (cs @ ds)) = dismissed (abs_calls cs) \<union> dismissed (abs_calls ds)"
  by (auto simp: dismissed_def abs_calls_def)

lemma spec_settles:
  assumes "spec_step Released a = (a1, t1)" "spec_step Denied a1 = (a2, t2)"
    and "link a = Down \<Longrightarrow> clients a = {}"
  shows "link a2 = Down \<and> clients a2 = {} \<and> clients a \<subseteq> dismissed t1 \<union> dismissed t2"
  using assms by (auto simp: clients_def dismissed_def nothing_def end_release_def split: link.splits if_splits)

section \<open>Properties of the manager\<close>

definition subscribed :: "AgpsManager \<Rightarrow> int set" where
  "subscribed m =
     (case mAgnssNif m of None \<Rightarrow> {} | Some sm \<Rightarrow> clients (abs_sm sm)) \<union>
     (case mInternetNif m of None \<Rightarrow> {} | Some sm \<Rightarrow> clients (abs_sm sm))"

lemma sm_step_told:
  assumes "sm_ok sm" "sm_step op sm = Some (sm', cs)" "h \<in> clients (abs_sm sm)"
  shows "h \<in> clients (abs_sm sm') \<or> h \<in> dismissed (abs_calls cs)"
  using sm_refines[OF assms(1), of op] assms(2,3) spec_told[of op "abs_sm sm" "abs_sm sm'" "abs_calls cs" h]
  by auto

lemma moves_told:
  "moves m cs m' \<Longrightarrow> mgr_ok m \<Longrightarrow> h \<in> subscribed m \<Longrightarrow> h \<in> subscribed m' \<or> h \<in> dismissed (abs_calls cs)"
  by (erule movesE) (auto simp: subscribed_def mgr_ok_def dest: sm_step_told split: option.splits)

lemma create_subscribed: "subscribed m \<subseteq> subscribed (createAgpsStateMachines conf junk atl m)"
  by (auto simp: subscribed_def createAgpsStateMachines_def Let_def split: option.splits)

lemma run_told:
  "mgr_ok m \<Longrightarrow> ModemSSR \<notin> set ops \<Longrightarrow> run (agps_step conf junk) ops m = Some (m', cs) \<Longrightarrow>
   h \<in> subscribed m \<Longrightarrow> h \<in> subscribed m' \<or> h \<in> dismissed (abs_calls cs)"
proof (induction ops arbitrary: m cs)
  case (Cons op ops)
  from Cons.prems(3) obtain m1 c1 c2 where st: "agps_step conf junk op m = Some (m1, c1)"
    and rest: "run (agps_step conf junk) ops m1 = Some (m', c2)" "cs = c1 @ c2"
    by (rule run_ConsE)
  have "h \<in> subscribed m1 \<or> h \<in> dismissed (abs_calls c1)"
    using agps_step_moves[OF st] st Cons.prems moves_told create_subscribed by fastforce
  then show ?case
    using Cons.IH[OF agps_step_ok[OF Cons.prems(1) st] _ rest(1)] Cons.prems(2) rest(2)
    by (auto simp: dismissed_append)
qed simp

lemma sm_released: "sm_ok sm \<Longrightarrow> link (abs_sm sm) = Down \<longleftrightarrow> mState sm = AGPS_STATE_RELEASED"
  by (auto simp: abs_sm_def link_of_def sm_ok_def split: AgpsState.splits)

lemma clients_handles: "clients (abs_sm sm) = set (handles (mSubscriberList sm))"
  by (simp add: clients_def abs_sm_def set_handles)

lemma released_no_clients: "sm_ok sm \<Longrightarrow> link (abs_sm sm) = Down \<Longrightarrow> clients (abs_sm sm) = {}"
  by (auto simp: sm_released clients_handles handles_def) (simp add: sm_ok_def)

lemma get_set_sm [simp]: "getAgpsStateMachine t (setAgpsStateMachine t sm m) = Some sm"
  by (simp add: getAgpsStateMachine_def setAgpsStateMachine_def)


text \<open>
  \<open>r\<close> is the outcome of performing \<open>op\<close> on the machine that serves type \<open>t\<close>: the
  machine moves as the abstract one does, tells what that tells, and the other machine stays.
\<close>

definition performs :: "AgpsManager \<Rightarrow> int \<Rightarrow> sm_op \<Rightarrow> mgr_run option \<Rightarrow> bool" where
  "performs m t op r \<longleftrightarrow> (\<exists>sm sm' cs. getAgpsStateMachine t m = Some sm \<and>
     r = Some (setAgpsStateMachine t sm' m, cs) \<and>
     (abs_sm sm', abs_calls cs) = spec_step op (abs_sm sm))"

lemma performs_put:
  assumes "sm_ok sm" "getAgpsStateMachine t m = Some sm"
  shows "performs m t op (put_sm (\<lambda>sm. setAgpsStateMachine t sm m) (sm_step op sm))"
proof -
  obtain sm' cs where "sm_step op sm = Some (sm', cs)"
    "(abs_sm sm', abs_calls cs) = spec_step op (abs_sm sm)"
    using sm_refines[OF assms(1)] by blast
  with assms(2) show ?thesis by (auto simp: performs_def put_sm_def)
qed

lemma sub_lookup_client:
  assumes "sm_ok sm"
  shows "(\<exists>p. sub_lookup h (Some sm) = Some (sm, p)) \<longleftrightarrow> h \<in> clients (abs_sm sm)"
proof -
  have "subs_ok (mSubscriberList sm) (mNextObject sm)"
    using assms by (simp add: sm_ok_def)
  then show ?thesis
    by (rule getSubscriber_cases[of sm _ h]) (force simp: sub_lookup_def clients_handles handles_def)+
qed

lemma release_performs:
  assumes "mgr_ok m" "getAgpsStateMachine t m = Some sm" "h \<in> clients (abs_sm sm)"
    and "serves_agnss t \<or> (\<forall>other. mAgnssNif m = Some other \<longrightarrow> h \<notin> clients (abs_sm other))"
  shows "performs m t (Unsubscribe h) (releaseATL h (m, []))"
proof -
  have ok: "sm_ok sm" using assms(1,2) by (rule mgr_ok_get)
  obtain p where p: "sub_lookup h (Some sm) = Some (sm, p)"
    using assms(3) sub_lookup_client[OF ok] by blast
  have "sub_lookup h (mAgnssNif m) = None" if "\<not> serves_agnss t"
  proof (cases "mAgnssNif m")
    case None
    then show ?thesis by (simp add: sub_lookup_def)
  next
    case (Some other)
    then have "sm_ok other" using assms(1) by (simp add: mgr_ok_def)
    with Some that assms(4) sub_lookup_client[of other h] show ?thesis
      by (cases "sub_lookup h (mAgnssNif m)") (auto dest: sub_lookup_Some)
  qed
  with p assms(2) have "releaseATL h (m, []) = put_sm (\<lambda>sm. setAgpsStateMachine t sm m) (sm_step (Unsubscribe h) sm)"
    by (auto simp: releaseATL_eq getAgpsStateMachine_def setAgpsStateMachine_def split: if_splits)
  with performs_put[OF ok assms(2)] show ?thesis by simp
qed

section \<open>The properties\<close>

definition demo_conf :: gps_conf where
  "demo_conf = \<lparr>CAPABILITIES = 6, USE_EMERGENCY_PDN_FOR_EMERGENCY_SUPL = 0\<rparr>"

definition demo_ops :: "agps_op list" where
  "demo_ops = [CreateMachines 7, RequestATL 11 LOC_AGPS_TYPE_SUPL_ES 0x200, RequestATL 12 LOC_AGPS_TYPE_SUPL 0x10,
     OpenSuccess LOC_AGPS_TYPE_SUPL (Some (cstr ''apn'' @ [0])) 3 1, ReleaseATL 11]"

definition demo_mgr :: AgpsManager where
  "demo_mgr = (case run (agps_step demo_conf 0) demo_ops new_AgpsManager of Some (m, cs) \<Rightarrow> m | None \<Rightarrow> new_AgpsManager)"

lemma demo_run: "run (agps_step demo_conf 0) demo_ops new_AgpsManager \<noteq> None"
  by code_simp

lemma demo_reachable: "reachable (agps_step demo_conf 0) new_AgpsManager demo_mgr"
proof -
  obtain m cs where "run (agps_step demo_conf 0) demo_ops new_AgpsManager = Some (m, cs)"
    using demo_run by auto
  then show ?thesis
    using run_reachable by (auto simp: demo_mgr_def)
qed

lemma demo_client:
  obtains sm where "getAgpsStateMachine 1 demo_mgr = Some sm" "12 \<in> clients (abs_sm sm)"
proof -
  have "getAgpsStateMachine 1 demo_mgr \<noteq> None" by code_simp
  then obtain sm where sm: "getAgpsStateMachine 1 demo_mgr = Some sm" by auto
  have "sub_lookup 12 (getAgpsStateMachine 1 demo_mgr) \<noteq> None" by code_simp
  with sm have "\<exists>p. sub_lookup 12 (Some sm) = Some (sm, p)"
    by (cases "sub_lookup 12 (Some sm)") (auto dest: sub_lookup_Some)
  then have "12 \<in> clients (abs_sm sm)"
    using sub_lookup_client mgr_ok_get[OF agps.reachable_inv[OF demo_reachable] sm] by blast
  with sm show ?thesis by (rule that)
qed

text \<open>
  C16. In every reachable state of the manager each report of the framework, each request and each
  release moves the machine concerned exactly as the abstract machine moves, tells exactly the
  handles the abstract one tells, sends the framework the same requests, and leaves the other
  machine alone.
\<close>

theorem agps_refines:
  assumes "reachable (agps_step conf junk) new_AgpsManager m"
    and "getAgpsStateMachine t m = Some sm"
  shows "performs m t (Granted apn len bearer) (reportAtlOpenSuccess t apn len bearer (m, [])) \<and>
    performs m t Denied (reportAtlOpenFailed t (m, [])) \<and>
    performs m t Released (reportAtlClosed t (m, [])) \<and>
    (non_emergency conf (t0, mk0) = (t, mk) \<longrightarrow>
       performs m t (Subscribe h t mk) (requestATL conf h t0 mk0 (m, []))) \<and>
    (h \<in> clients (abs_sm sm) \<and>
       (serves_agnss t \<or> (\<forall>other. mAgnssNif m = Some other \<longrightarrow> h \<notin> clients (abs_sm other))) \<longrightarrow>
       performs m t (Unsubscribe h) (releaseATL h (m, [])))"
proof -
  have ok: "mgr_ok m" using assms(1) by (rule agps.reachable_inv)
  note put = performs_put[OF mgr_ok_get[OF ok assms(2)] assms(2)]
  from put release_performs[OF ok assms(2)] assms(2) show ?thesis
    by (simp add: report_eq requestATL_eq)
qed

theorem agps_refines_witness:
  "performs demo_mgr 1 (Unsubscribe 12) (releaseATL 12 (demo_mgr, []))"
proof -
  obtain sm where sm: "getAgpsStateMachine 1 demo_mgr = Some sm" and "12 \<in> clients (abs_sm sm)"
    by (rule demo_client)
  moreover have "serves_agnss 1" by code_simp
  ultimately show ?thesis
    using agps_refines[OF demo_reachable sm] by blast
qed

text \<open>
  C17. In every reachable state the subscriber lists are well formed (a machine that is released has
  no subscriber, handles are unique, a pending or open connection has an active subscriber unless
  the modem restarted) and every operation is defined: no null or dangling pointer is followed as
  long as the framework reports only for types whose machine was created.
\<close>

theorem agps_safe:
  assumes "reachable (agps_step conf junk) new_AgpsManager m" "admitted (agps_step conf junk) agps_admits ops m"
  shows "\<exists>m' cs. run (agps_step conf junk) ops m = Some (m', cs) \<and> mgr_ok m'"
proof -
  have "mgr_ok m" using assms(1) by (rule agps.reachable_inv)
  then show ?thesis
    using agps.run_defined[OF _ assms(2)] agps.run_inv by blast
qed

theorem agps_safe_witness:
  "\<exists>m' cs. run (agps_step demo_conf 0) [ReleaseATL 12, Closed LOC_AGPS_TYPE_SUPL] demo_mgr = Some (m', cs) \<and> mgr_ok m'"
proof (rule agps_safe[OF demo_reachable])
  show "admitted (agps_step demo_conf 0) agps_admits [ReleaseATL 12, Closed LOC_AGPS_TYPE_SUPL] demo_mgr"
    by code_simp
qed

text \<open>
  C18. No request is forgotten: over every sequence of operations without a modem restart, a handle
  that was subscribed either still is, or the modem was told that its connection was refused or is
  closed.
\<close>

theorem agps_told:
  assumes "reachable (agps_step conf junk) new_AgpsManager m" "ModemSSR \<notin> set ops"
    and "run (agps_step conf junk) ops m = Some (m', cs)" "h \<in> subscribed m"
  shows "h \<in> subscribed m' \<or> (\<exists>ok. AtlCloseStatus h ok \<in> set cs) \<or>
    (\<exists>apn len b t msk. AtlOpenStatus h 0 apn len b t msk \<in> set cs)"
  using run_told[OF agps.reachable_inv[OF assms(1)] assms(2,3,4)]
  by (auto simp: dismissed_def abs_calls_def)

theorem agps_told_witness:
  "\<exists>m' cs. run (agps_step demo_conf 0) [ReleaseATL 12, Closed LOC_AGPS_TYPE_SUPL] demo_mgr = Some (m', cs) \<and>
    (12 \<in> subscribed m' \<or> (\<exists>ok. AtlCloseStatus 12 ok \<in> set cs) \<or>
     (\<exists>apn len b t msk. AtlOpenStatus 12 0 apn len b t msk \<in> set cs))"
proof -
  let ?ops = "[ReleaseATL 12, Closed LOC_AGPS_TYPE_SUPL]"
  have "run (agps_step demo_conf 0) ?ops demo_mgr \<noteq> None" by code_simp
  then obtain m' cs where run: "run (agps_step demo_conf 0) ?ops demo_mgr = Some (m', cs)" by auto
  have "serves_agnss 1" by code_simp
  then have "12 \<in> subscribed demo_mgr"
    by (auto simp: subscribed_def getAgpsStateMachine_def intro: demo_client)
  with agps_told[OF demo_reachable _ run] run show ?thesis by auto
qed

text \<open>
  C19. Whatever state a machine has reached, a close report followed by a failure report of the
  framework brings it back to the released state without subscribers, and every subscriber it had
  has been told.
\<close>

theorem agps_settles:
  assumes "reachable (agps_step conf junk) new_AgpsManager m" "getAgpsStateMachine t m = Some sm"
  shows "\<exists>m' sm' cs. run (agps_step conf junk) [Closed t, OpenFailed t] m = Some (m', cs) \<and>
    getAgpsStateMachine t m' = Some sm' \<and> mState sm' = AGPS_STATE_RELEASED \<and> mSubscriberList sm' = [] \<and>
    set (handles (mSubscriberList sm)) \<subseteq> dismissed (abs_calls cs)"
proof -
  have ok: "sm_ok sm"
    using mgr_ok_get[OF agps.reachable_inv[OF assms(1)] assms(2)] .
  obtain sm1 c1 where 1: "sm_step Released sm = Some (sm1, c1)" "sm_ok sm1"
    "(abs_sm sm1, abs_calls c1) = spec_step Released (abs_sm sm)"
    using sm_refines[OF ok] by blast
  obtain sm2 c2 where 2: "sm_step Denied sm1 = Some (sm2, c2)" "sm_ok sm2"
    "(abs_sm sm2, abs_calls c2) = spec_step Denied (abs_sm sm1)"
    using sm_refines[OF 1(2)] by blast
  have "link (abs_sm sm2) = Down \<and> clients (abs_sm sm2) = {} \<and>
      clients (abs_sm sm) \<subseteq> dismissed (abs_calls c1) \<union> dismissed (abs_calls c2)"
    using spec_settles[OF 1(3)[symmetric] 2(3)[symmetric]] released_no_clients[OF ok] by blast
  with 1 2 assms(2) show ?thesis
    by (auto simp: report_eq put_sm_def sm_released clients_handles dismissed_append handles_def)
qed

theorem agps_settles_witness:
  "\<exists>m' sm' cs. run (agps_step demo_conf 0) [Closed 1, OpenFailed 1] demo_mgr = Some (m', cs) \<and>
    getAgpsStateMachine 1 m' = Some sm' \<and> mState sm' = AGPS_STATE_RELEASED \<and> mSubscriberList sm' = [] \<and>
    12 \<in> dismissed (abs_calls cs)"
proof -
  obtain sm where sm: "getAgpsStateMachine 1 demo_mgr = Some sm" and "12 \<in> clients (abs_sm sm)"
    by (rule demo_client)
  then show ?thesis
    using agps_settles[OF demo_reachable sm] unfolding clients_handles by blast
qed

text \<open>
  A report of the framework for a type whose machine was never created follows a null pointer.
\<close>

theorem agps_null_report:
  assumes "getAgpsStateMachine t m = None"
  shows "reportAtlOpenSuccess t apn len bearer (m, cs) = None \<and> reportAtlOpenFailed t (m, cs) = None \<and>
    reportAtlClosed t (m, cs) = None"
  using assms by (simp add: reportAtlOpenSuccess_def reportAtlOpenFailed_def reportAtlClosed_def send_event_def)

theorem agps_null_report_witness:
  "reportAtlOpenFailed LOC_AGPS_TYPE_SUPL
     (createAgpsStateMachines demo_conf 0 AGPS_ATL_TYPE_WWAN new_AgpsManager, []) = None"
proof -
  have "getAgpsStateMachine LOC_AGPS_TYPE_SUPL
      (createAgpsStateMachines demo_conf 0 AGPS_ATL_TYPE_WWAN new_AgpsManager) = None"
    by code_simp
  from agps_null_report[OF this] show ?thesis by blast
qed

end
