(* ===== verification/AgpsNative.thy ===== *)
theory AgpsNative
  imports AgpsMgr
begin

text \<open>
  The data call machines at work on a device without a network interface library:
  \<open>GnssAdapter\<close> turns requests of the modem and reports of the framework into messages of one
  queue, and \<open>NativeAgpsHandler\<close> (\<open>gps/gnss/NativeAgpsHandler.cpp\<close>) answers the machine's
  requests for a data connection from what it knows of the mobile network.

  The callback of a machine runs inside the machine's handler; the model runs it when the handler
  is done. The handler's only direct answer is \<open>reportAtlClosed\<close> for an unusable APN, which a
  machine ignores both before and after it has moved to the pending state.
\<close>

section \<open>The native handler\<close>

record NativeAgpsHandler =
  mConnected :: bool
  mApn :: bytes

datatype data_item = NetworkInfo u64 bytes | OtherItem

definition TYPE_MOBILE :: nat where "TYPE_MOBILE = 0"

text \<open>\<open>notify\<close>: network information updates the handler, other items are skipped.\<close>

fun notify_item :: "data_item \<Rightarrow> NativeAgpsHandler \<Rightarrow> NativeAgpsHandler" where
  "notify_item (NetworkInfo allTypes apn) h =
     (let mobileBit = push_bit TYPE_MOBILE (1 :: u64)
      in h\<lparr>mConnected := (allTypes AND mobileBit = mobileBit), mApn := apn\<rparr>)"
| "notify_item OtherItem h = h"

definition notify :: "data_item list \<Rightarrow> NativeAgpsHandler \<Rightarrow> NativeAgpsHandler" where
  "notify dlist h = fold notify_item dlist h"

section \<open>Messages of the adapter\<close>

datatype agps_msg =
    MsgRequestATL int int u32
  | MsgReleaseATL int
  | MsgAtlOpenSuccess int bytes int
  | MsgReportAtlPdn int int bytes int
  | MsgAtlClosed int
  | MsgAtlOpenFailed int

record agps_bus =
  bus_mgr :: AgpsManager
  bus_queue :: "agps_msg list"
  bus_native :: NativeAgpsHandler

type_synonym bus_run = "agps_bus \<times> agps_call list"

definition sendMsg :: "agps_msg \<Rightarrow> agps_bus \<Rightarrow> agps_bus" where
  "sendMsg msg b = b\<lparr>bus_queue := bus_queue b @ [msg]\<rparr>"

text \<open>A method of the manager run on the bus: the new state and the callbacks to be made.\<close>

definition on_mgr :: "(mgr_run \<Rightarrow> mgr_run option) \<Rightarrow> agps_bus \<Rightarrow> bus_run option" where
  "on_mgr f b = do {
     (m, cs) \<leftarrow> f (bus_mgr b, []);
     Some (b\<lparr>bus_mgr := m\<rparr>, cs)
   }"

definition adapter_requestATL :: "int \<Rightarrow> int \<Rightarrow> u32 \<Rightarrow> agps_bus \<Rightarrow> agps_bus" where
  "adapter_requestATL connHandle agpsType apnTypeMask b =
     sendMsg (MsgRequestATL connHandle agpsType apnTypeMask) b"

definition adapter_releaseATL :: "int \<Rightarrow> agps_bus \<Rightarrow> agps_bus" where
  "adapter_releaseATL connHandle b = sendMsg (MsgReleaseATL connHandle) b"

text \<open>\<open>apnName\<close> is the memory behind the pointer, with a terminator.\<close>

definition dataConnOpenCommand ::
  "int \<Rightarrow> bytes option \<Rightarrow> int \<Rightarrow> int \<Rightarrow> agps_bus \<Rightarrow> bus_run option" where
  "dataConnOpenCommand agpsType apnName apnLen bearerType b = (case apnName of
       None \<Rightarrow> on_mgr (reportAtlClosed agpsType) b
     | Some apn \<Rightarrow>
         if int MAX_APN_LEN < apnLen \<or> int (length (cstr_of apn)) \<noteq> apnLen
         then on_mgr (reportAtlClosed agpsType) b
         else Some (sendMsg (MsgAtlOpenSuccess agpsType (take (nat apnLen) apn @ [0]) bearerType) b, []))"

definition dataConnClosedCommand :: "int \<Rightarrow> agps_bus \<Rightarrow> bus_run option" where
  "dataConnClosedCommand agpsType b = Some (sendMsg (MsgAtlClosed agpsType) b, [])"

definition dataConnFailedCommand :: "int \<Rightarrow> agps_bus \<Rightarrow> bus_run option" where
  "dataConnFailedCommand agpsType b = Some (sendMsg (MsgAtlOpenFailed agpsType) b, [])"

definition reportPdnTypeFromWds :: "int \<Rightarrow> int \<Rightarrow> bytes \<Rightarrow> int \<Rightarrow> agps_bus \<Rightarrow> agps_bus" where
  "reportPdnTypeFromWds pdnType agpsType apnName bearerType b =
     sendMsg (MsgReportAtlPdn ((pdnType + 1) AND 3) agpsType apnName bearerType) b"

text \<open>\<open>c_str()\<close> of the handler's string adds the terminator, \<open>size()\<close> counts every byte.\<close>

definition processATLRequestRelease :: "AGnssExtStatusIpV4 \<Rightarrow> agps_bus \<Rightarrow> bus_run option" where
  "processATLRequestRelease statusInfo b =
     (if nif_type statusInfo = LOC_AGPS_TYPE_WWAN_ANY then
        (case nif_status statusInfo of
           LOC_GPS_REQUEST_AGPS_DATA_CONN \<Rightarrow>
             if mConnected (bus_native b)
             then dataConnOpenCommand LOC_AGPS_TYPE_WWAN_ANY (Some (mApn (bus_native b) @ [0]))
                    (int (length (mApn (bus_native b)))) AGPS_APN_BEARER_IPV4 b
             else dataConnFailedCommand LOC_AGPS_TYPE_WWAN_ANY b
         | LOC_GPS_RELEASE_AGPS_DATA_CONN \<Rightarrow> dataConnClosedCommand LOC_AGPS_TYPE_WWAN_ANY b)
      else Some (b, []))"

section \<open>The queue\<close>

text \<open>
  The handling of a message. \<open>wds\<close> is the query of the modem library, absent when the library
  is: it answers once, through its callback, with the type of the packet data network.
\<close>

fun proc :: "gps_conf \<Rightarrow> (bytes \<Rightarrow> int) option \<Rightarrow> agps_msg \<Rightarrow> agps_bus \<Rightarrow> bus_run option" where
  "proc conf wds (MsgRequestATL h t apnMask) b = on_mgr (requestATL conf h t apnMask) b"
| "proc conf wds (MsgReleaseATL h) b = on_mgr (releaseATL h) b"
| "proc conf wds (MsgAtlOpenSuccess t apnName bearer) b =
     (let apn = cstr_of apnName
      in case wds of
           Some getPdnType \<Rightarrow> Some (reportPdnTypeFromWds (getPdnType apn) t apn bearer b, [])
         | None \<Rightarrow> on_mgr (reportAtlOpenSuccess t (Some apnName) (of_nat (length apn)) bearer) b)"
| "proc conf wds (MsgReportAtlPdn pdnType t apn bearer) b =
     on_mgr (reportAtlOpenSuccess t (Some (apn @ [0])) (of_nat (length apn))
               (if pdnType \<le> 0 then bearer else pdnType)) b"
| "proc conf wds (MsgAtlClosed t) b = on_mgr (reportAtlClosed t) b"
| "proc conf wds (MsgAtlOpenFailed t) b = on_mgr (reportAtlOpenFailed t) b"

text \<open>
  The callbacks in the order they are made: those of the framework go to the native handler, whose
  own calls come first, the others reach the modem.
\<close>

partial_function (option) dispatch :: "agps_call list \<Rightarrow> agps_bus \<Rightarrow> bus_run option" where
  "dispatch cs b = (case cs of
       [] \<Rightarrow> Some (b, [])
     | c # rest \<Rightarrow>
         (case c of
            FrameworkStatus st \<Rightarrow> do {
              (b, more) \<leftarrow> processATLRequestRelease st b;
              dispatch (more @ rest) b
            }
          | _ \<Rightarrow> do {
              (b, out) \<leftarrow> dispatch rest b;
              Some (b, c # out)
            }))"

text \<open>One round of the message thread; an empty queue blocks it.\<close>

definition deliver :: "gps_conf \<Rightarrow> (bytes \<Rightarrow> int) option \<Rightarrow> agps_bus \<Rightarrow> bus_run option" where
  "deliver conf wds b = (case bus_queue b of
       [] \<Rightarrow> Some (b, [])
     | msg # queue \<Rightarrow> do {
         (b, cs) \<leftarrow> proc conf wds msg (b\<lparr>bus_queue := queue\<rparr>);
         dispatch cs b
       })"

datatype bus_op = ModemRequest int int u32 | ModemRelease int | Network "data_item list" | Deliver

fun bus_step :: "gps_conf \<Rightarrow> (bytes \<Rightarrow> int) option \<Rightarrow> bus_op \<Rightarrow> agps_bus \<Rightarrow> bus_run option" where
  "bus_step conf wds (ModemRequest h t apnMask) b = Some (adapter_requestATL h t apnMask b, [])"
| "bus_step conf wds (ModemRelease h) b = Some (adapter_releaseATL h b, [])"
| "bus_step conf wds (Network items) b = Some (b\<lparr>bus_native := notify items (bus_native b)\<rparr>, [])"
| "bus_step conf wds Deliver b = deliver conf wds b"

text \<open>
  The adapter after \<open>initDefaultAgps\<close> with the handler's own callback information: machines are
  created only when the configuration has a mobile assistance mode.
\<close>

definition initAgps :: "gps_conf \<Rightarrow> u32 \<Rightarrow> u32 \<Rightarrow> AgpsManager \<Rightarrow> AgpsManager" where
  "initAgps conf junk atlType m =
     (if \<not> (CAPABILITIES conf AND LOC_GPS_CAPABILITY_MSB \<noteq> 0 \<or> CAPABILITIES conf AND LOC_GPS_CAPABILITY_MSA \<noteq> 0)
      then m else createAgpsStateMachines conf junk atlType m)"

definition native_start :: "gps_conf \<Rightarrow> u32 \<Rightarrow> agps_bus" where
  "native_start conf junk =
     \<lparr>bus_mgr = initAgps conf junk AGPS_ATL_TYPE_WWAN new_AgpsManager, bus_queue = [],
      bus_native = \<lparr>mConnected = False, mApn = []\<rparr>\<rparr>"

text \<open>The rounds until the queue is empty.\<close>

partial_function (option) drain :: "gps_conf \<Rightarrow> (bytes \<Rightarrow> int) option \<Rightarrow> agps_bus \<Rightarrow> bus_run option" where
  "drain conf wds b =
     (if bus_queue b = [] then Some (b, [])
      else do {
        (b, out) \<leftarrow> deliver conf wds b;
        (b, more) \<leftarrow> drain conf wds b;
        Some (b, out @ more)
      })"


declare dispatch.simps [code] drain.simps [code]

section \<open>What the native handler answers\<close>

definition usable :: "NativeAgpsHandler \<Rightarrow> bool" where
  "usable h \<longleftrightarrow> length (mApn h) \<le> MAX_APN_LEN \<and> 0 \<notin> set (mApn h)"

definition answer :: "NativeAgpsHandler \<Rightarrow> data_conn_status \<Rightarrow> agps_msg" where
  "answer h st = (case st of
       LOC_GPS_REQUEST_AGPS_DATA_CONN \<Rightarrow>
         if mConnected h then MsgAtlOpenSuccess LOC_AGPS_TYPE_WWAN_ANY (mApn h @ [0]) AGPS_APN_BEARER_IPV4
         else MsgAtlOpenFailed LOC_AGPS_TYPE_WWAN_ANY
     | LOC_GPS_RELEASE_AGPS_DATA_CONN \<Rightarrow> MsgAtlClosed LOC_AGPS_TYPE_WWAN_ANY)"

definition calls_typed :: "int \<Rightarrow> agps_call list \<Rightarrow> bool" where
  "calls_typed t cs \<longleftrightarrow> (\<forall>st. FrameworkStatus st \<in> set cs \<longrightarrow> nif_type st = t)"

lemma cstr_of_usable: "0 \<notin> set apn \<Longrightarrow> cstr_of (apn @ [0]) = apn"
  by (induction apn) (auto simp: cstr_of_def)

lemma processATL_usable:
  "usable (bus_native b) \<Longrightarrow> nif_type st = LOC_AGPS_TYPE_WWAN_ANY \<Longrightarrow>
   processATLRequestRelease st b = Some (sendMsg (answer (bus_native b) (nif_status st)) b, [])"
  by (auto simp: processATLRequestRelease_def usable_def dataConnOpenCommand_def cstr_of_usable answer_def
      dataConnFailedCommand_def dataConnClosedCommand_def split: data_conn_status.splits)

lemma dispatch_usable:
  "usable (bus_native b) \<Longrightarrow> calls_typed LOC_AGPS_TYPE_WWAN_ANY cs \<Longrightarrow>
   \<exists>out. dispatch cs b = Some (b\<lparr>bus_queue := bus_queue b @
     map (answer (bus_native b)) (asked (abs_calls cs))\<rparr>, out)"
proof (induction cs arbitrary: b)
  case Nil
  then show ?case by (simp add: dispatch.simps)
next
  case (Cons c cs)
  have typed: "calls_typed LOC_AGPS_TYPE_WWAN_ANY cs"
    using Cons.prems(2) by (simp add: calls_typed_def)
  show ?case
  proof (cases c)
    case (FrameworkStatus st)
    let ?b = "sendMsg (answer (bus_native b) (nif_status st)) b"
    have "processATLRequestRelease st b = Some (?b, [])"
      using Cons.prems FrameworkStatus by (simp add: processATL_usable calls_typed_def)
    moreover obtain out where "dispatch cs ?b = Some (?b\<lparr>bus_queue := bus_queue ?b @
        map (answer (bus_native ?b)) (asked (abs_calls cs))\<rparr>, out)"
      using Cons.IH[of ?b] typed Cons.prems(1) by (auto simp: sendMsg_def)
    ultimately show ?thesis
      using FrameworkStatus by (subst dispatch.simps) (simp add: abs_calls_def sendMsg_def)
  qed (use Cons.IH[OF Cons.prems(1) typed] in \<open>subst dispatch.simps, auto simp: abs_calls_def\<close>)+
qed

fun op_type :: "sm_op \<Rightarrow> int \<Rightarrow> int" where
  "op_type (Subscribe h t apnMask) _ = t"
| "op_type _ t = t"

lemma notify_no_framework: "FrameworkStatus st \<notin> set (notify_call sm ev h)"
  by (cases ev) (auto simp: notify_call_def)

lemma calls_typed_simps [simp]:
  "calls_typed t []"
  "calls_typed t (notify_call sm ev h)"
  "calls_typed t (concat (map (\<lambda>(a, s). notify_call sm ev (mConnHandle s)) subs))"
  "calls_typed t (cs @ [FrameworkStatus st]) \<longleftrightarrow> calls_typed t cs \<and> nif_type st = t"
  "calls_typed t [FrameworkStatus st] \<longleftrightarrow> nif_type st = t"
  by (auto simp: calls_typed_def notify_no_framework)

lemma subscribe_typed:
  assumes "sm_step (Subscribe h t m) sm = Some (sm', cs)"
  shows "mAgpsType sm' = t \<and> calls_typed t cs"
  using assms
  by (auto simp: sm_step.simps agps_simps addSubscriber_local notifyEventToSubscriber_def deref_def
      split: AgpsState.splits if_splits)

lemma finish_typed: "finish_release (sm, []) = (sm', cs) \<Longrightarrow> mAgpsType sm' = mAgpsType sm \<and> calls_typed (mAgpsType sm) cs"
  by (auto simp: agps_simps split: if_splits)

lemma report_typed:
  assumes "sm_step op sm = Some (sm', cs)" "op = Granted apn len bearer \<or> op = Denied \<or> op = Released"
  shows "mAgpsType sm' = mAgpsType sm \<and> calls_typed (mAgpsType sm) cs"
  using assms
  by (auto simp: sm_step.simps processAgpsEvent_def processAgpsEventGranted_def processAgpsEventDenied_def
      processAgpsEventReleased_def notifyAllSubscribers_def notify_loop_eq transitionState_def
      dest: finish_typed split: AgpsState.splits)

lemma deleteSubscriber_type: "deleteSubscriber p sm = Some sm' \<Longrightarrow> mAgpsType sm' = mAgpsType sm"
  by (auto simp: deleteSubscriber_def bind_eq_Some_conv)

lemma notifyEvent_typed:
  "notifyEventToSubscriber ev p del (sm, []) = Some (sm', cs) \<Longrightarrow> mAgpsType sm' = mAgpsType sm \<and> calls_typed t cs"
  by (auto simp: notifyEventToSubscriber_def bind_eq_Some_conv Let_def deleteSubscriber_type split: if_splits)

lemma unsubscribe_current_typed:
  "unsubscribe_current (sm, []) = Some (sm', cs) \<Longrightarrow> mAgpsType sm' = mAgpsType sm \<and> calls_typed t cs"
  by (auto simp: unsubscribe_current_def bind_eq_Some_conv set_inactive_def
      dest: notifyEvent_typed split: if_splits sub_ptr.splits)

lemma unsubscribe_typed:
  assumes "sm_step (Unsubscribe h) sm = Some (sm', cs)"
  shows "mAgpsType sm' = mAgpsType sm \<and> calls_typed (mAgpsType sm) cs"
  using assms
  by (auto simp: sm_step.simps processAgpsEvent_def processAgpsEventUnsubscribe_def unsubscribe_connected_def
      requestOrReleaseDataConn_def transitionState_def bind_eq_Some_conv
      dest!: unsubscribe_current_typed notifyEvent_typed split: AgpsState.splits sub_ptr.splits if_splits)

lemma sm_step_typed:
  assumes "sm_step op sm = Some (sm', cs)"
  shows "mAgpsType sm' = op_type op (mAgpsType sm) \<and> calls_typed (mAgpsType sm') cs"
  using assms by (cases op) (auto dest: subscribe_typed unsubscribe_typed report_typed)


section \<open>Every question has its answer in the queue\<close>

fun is_answer :: "agps_msg \<Rightarrow> bool" where
  "is_answer (MsgAtlOpenSuccess t apn b) = True"
| "is_answer (MsgReportAtlPdn p t apn b) = True"
| "is_answer (MsgAtlOpenFailed t) = True"
| "is_answer _ = False"

fun is_closing :: "agps_msg \<Rightarrow> bool" where
  "is_closing (MsgAtlClosed t) = True"
| "is_closing (MsgAtlOpenFailed t) = True"
| "is_closing _ = False"

text \<open>The types the modem asks for: the two supplementary ones and the internet.\<close>

definition known_type :: "int \<Rightarrow> bool" where
  "known_type t \<longleftrightarrow> serves_agnss t \<or> t = LOC_AGPS_TYPE_WWAN_ANY"

fun msg_ok :: "agps_msg \<Rightarrow> bool" where
  "msg_ok (MsgRequestATL h t apnMask) = known_type t"
| "msg_ok (MsgReleaseATL h) = True"
| "msg_ok (MsgAtlOpenSuccess t apn b) = (t = LOC_AGPS_TYPE_WWAN_ANY)"
| "msg_ok (MsgReportAtlPdn p t apn b) = (t = LOC_AGPS_TYPE_WWAN_ANY)"
| "msg_ok (MsgAtlClosed t) = (t = LOC_AGPS_TYPE_WWAN_ANY)"
| "msg_ok (MsgAtlOpenFailed t) = (t = LOC_AGPS_TYPE_WWAN_ANY)"

definition bus_ok :: "agps_bus \<Rightarrow> bool" where
  "bus_ok b \<longleftrightarrow> mAgnssNif (bus_mgr b) = None \<and> usable (bus_native b) \<and> list_all msg_ok (bus_queue b) \<and>
     (\<exists>sm. mInternetNif (bus_mgr b) = Some sm \<and> sm_ok sm \<and> mAgpsType sm = LOC_AGPS_TYPE_WWAN_ANY \<and>
       (link (abs_sm sm) = Asked \<longrightarrow> list_ex is_answer (bus_queue b)) \<and>
       (link (abs_sm sm) = Closing \<longrightarrow> list_ex is_closing (bus_queue b)))"

text \<open>The work a queue and a machine hold: an upper bound of the rounds until the queue is empty.\<close>

fun weight :: "agps_msg \<Rightarrow> nat" where
  "weight (MsgRequestATL h t apnMask) = 3"
| "weight (MsgReleaseATL h) = 4"
| "weight (MsgAtlOpenSuccess t apn b) = 2"
| "weight _ = 1"

definition link_weight :: "link \<Rightarrow> nat" where
  "link_weight l = (if l = Closing then 2 else 0)"

definition load :: "agps_bus \<Rightarrow> nat" where
  "load b = sum_list (map weight (bus_queue b)) +
     (case mInternetNif (bus_mgr b) of None \<Rightarrow> 0 | Some sm \<Rightarrow> link_weight (link (abs_sm sm)))"

fun op_weight :: "sm_op \<Rightarrow> nat" where
  "op_weight (Subscribe h t apnMask) = 3"
| "op_weight (Unsubscribe h) = 4"
| "op_weight _ = 1"

definition ask_weight :: "data_conn_status \<Rightarrow> nat" where
  "ask_weight st = (if st = LOC_GPS_REQUEST_AGPS_DATA_CONN then 2 else 1)"

lemma spec_weight:
  "spec_step op a = (a', t) \<Longrightarrow>
   sum_list (map ask_weight (asked t)) + link_weight (link a') < op_weight op + link_weight (link a)"
  by (cases op)
    (auto simp: link_weight_def ask_weight_def join_def end_release_def Let_def
      split: link.splits if_splits)

lemma spec_asks:
  "spec_step op a = (a', t) \<Longrightarrow> link a' = Asked \<Longrightarrow>
   LOC_GPS_REQUEST_AGPS_DATA_CONN \<in> set (asked t) \<or> link a = Asked \<and> (\<nexists>apn len b. op = Granted apn len b) \<and> op \<noteq> Denied"
  by (cases op) (auto simp: join_def end_release_def Let_def split: link.splits if_splits)

lemma spec_closes:
  "spec_step op a = (a', t) \<Longrightarrow> link a' = Closing \<Longrightarrow>
   LOC_GPS_RELEASE_AGPS_DATA_CONN \<in> set (asked t) \<or> link a = Closing \<and> op \<noteq> Released \<and> op \<noteq> Denied"
  by (cases op) (auto simp: join_def end_release_def Let_def split: link.splits if_splits)

lemma answer_facts:
  "msg_ok (answer h st)" "weight (answer h st) \<le> ask_weight st"
  "is_answer (answer h st) \<longleftrightarrow> st = LOC_GPS_REQUEST_AGPS_DATA_CONN"
  "st = LOC_GPS_RELEASE_AGPS_DATA_CONN \<Longrightarrow> is_closing (answer h st)"
  by (cases st; simp add: answer_def ask_weight_def)+

lemma answers_weight: "sum_list (map weight (map (answer h) sts)) \<le> sum_list (map ask_weight sts)"
  by (induction sts) (auto simp: answer_facts(2) add_mono)

lemma answers_ex:
  "LOC_GPS_REQUEST_AGPS_DATA_CONN \<in> set sts \<Longrightarrow> list_ex is_answer (map (answer h) sts)"
  "LOC_GPS_RELEASE_AGPS_DATA_CONN \<in> set sts \<Longrightarrow> list_ex is_closing (map (answer h) sts)"
  by (force simp: list_ex_iff answer_facts(3,4))+

text \<open>
  One operation on the internet machine with its callbacks: the invariant survives and the load
  drops below that of the message it came from.
\<close>

lemma machine_round:
  assumes "mAgnssNif (bus_mgr b) = None" "usable (bus_native b)" "list_all msg_ok (bus_queue b)"
    and sm: "sm_ok sm" "mAgpsType sm = LOC_AGPS_TYPE_WWAN_ANY" "op_type op LOC_AGPS_TYPE_WWAN_ANY = LOC_AGPS_TYPE_WWAN_ANY"
    and ask: "link (abs_sm sm) = Asked \<Longrightarrow> (\<exists>apn len b. op = Granted apn len b) \<or> op = Denied \<or> list_ex is_answer (bus_queue b)"
    and cls: "link (abs_sm sm) = Closing \<Longrightarrow> op = Released \<or> op = Denied \<or> list_ex is_closing (bus_queue b)"
    and st: "sm_step op sm = Some (sm', cs)"
    and m': "m' = (bus_mgr b)\<lparr>mInternetNif := Some sm'\<rparr>"
  shows "\<exists>b' out. dispatch cs (b\<lparr>bus_mgr := m'\<rparr>) = Some (b', out) \<and> bus_ok b' \<and>
    load b' < sum_list (map weight (bus_queue b)) + op_weight op + link_weight (link (abs_sm sm))"
proof -
  let ?b' = "b\<lparr>bus_mgr := m', bus_queue := bus_queue b @ map (answer (bus_native b)) (asked (abs_calls cs))\<rparr>"
  have spec: "spec_step op (abs_sm sm) = (abs_sm sm', abs_calls cs)" and ok: "sm_ok sm'"
    using sm_refines[OF sm(1), of op] st by auto
  have typed: "mAgpsType sm' = LOC_AGPS_TYPE_WWAN_ANY" "calls_typed LOC_AGPS_TYPE_WWAN_ANY cs"
    using sm_step_typed[OF st] sm(2,3) by auto
  obtain out where out: "dispatch cs (b\<lparr>bus_mgr := m'\<rparr>) = Some (?b', out)"
    using dispatch_usable[of "b\<lparr>bus_mgr := m'\<rparr>" cs] assms(2) typed(2) by auto
  have "list_ex is_answer (bus_queue ?b')" if "link (abs_sm sm') = Asked"
    using spec_asks[OF spec that] ask answers_ex(1) by auto
  moreover have "list_ex is_closing (bus_queue ?b')" if "link (abs_sm sm') = Closing"
    using spec_closes[OF spec that] cls answers_ex(2) by auto
  ultimately have "bus_ok ?b'"
    using assms(1-3) m' ok typed(1)
    by (auto simp: bus_ok_def list_all_iff answer_facts(1))
  moreover have "load ?b' < sum_list (map weight (bus_queue b)) + op_weight op + link_weight (link (abs_sm sm))"
    using spec_weight[OF spec] answers_weight[of "bus_native b" "asked (abs_calls cs)"] m'
    by (auto simp: load_def)
  ultimately show ?thesis using out by blast
qed


lemma wwan_not_agnss [simp]: "\<not> serves_agnss LOC_AGPS_TYPE_WWAN_ANY"
  by (simp add: serves_agnss_def agps_type_defs)

lemma non_emergency_wwan [simp]:
  "non_emergency conf (LOC_AGPS_TYPE_WWAN_ANY, apnMask) = (LOC_AGPS_TYPE_WWAN_ANY, apnMask)"
  by (simp add: non_emergency_def agps_type_defs)

lemma non_emergency_agnss: "serves_agnss t \<Longrightarrow> non_emergency conf (t, apnMask) = (t', m') \<Longrightarrow> serves_agnss t'"
  by (auto simp: non_emergency_def serves_agnss_def split: if_splits)

text \<open>A manager with the internet machine alone performs every operation on that machine.\<close>

lemma only_internet:
  assumes "mAgnssNif m = None" "mInternetNif m = Some sm" "sm_ok sm"
  defines "on op \<equiv> put_sm (\<lambda>sm. m\<lparr>mInternetNif := Some sm\<rparr>) (sm_step op sm)"
  shows "requestATL conf h LOC_AGPS_TYPE_WWAN_ANY msk (m, []) = on (Subscribe h LOC_AGPS_TYPE_WWAN_ANY msk)"
    "releaseATL h (m, []) = on (Unsubscribe h)"
    "reportAtlOpenSuccess LOC_AGPS_TYPE_WWAN_ANY apn len bearer (m, []) = on (Granted apn len bearer)"
    "reportAtlOpenFailed LOC_AGPS_TYPE_WWAN_ANY (m, []) = on Denied"
    "reportAtlClosed LOC_AGPS_TYPE_WWAN_ANY (m, []) = on Released"
proof -
  have get: "getAgpsStateMachine LOC_AGPS_TYPE_WWAN_ANY m = Some sm"
    "\<And>sm. setAgpsStateMachine LOC_AGPS_TYPE_WWAN_ANY sm m = m\<lparr>mInternetNif := Some sm\<rparr>"
    using assms(2) by (simp_all add: getAgpsStateMachine_def setAgpsStateMachine_def)
  show "requestATL conf h LOC_AGPS_TYPE_WWAN_ANY msk (m, []) = on (Subscribe h LOC_AGPS_TYPE_WWAN_ANY msk)"
    "reportAtlOpenSuccess LOC_AGPS_TYPE_WWAN_ANY apn len bearer (m, []) = on (Granted apn len bearer)"
    "reportAtlOpenFailed LOC_AGPS_TYPE_WWAN_ANY (m, []) = on Denied"
    "reportAtlClosed LOC_AGPS_TYPE_WWAN_ANY (m, []) = on Released"
    using get by (simp_all add: requestATL_eq[OF non_emergency_wwan] report_eq on_def)
  show "releaseATL h (m, []) = on (Unsubscribe h)"
    using assms(1,2)
    by (auto simp: releaseATL_eq sub_lookup_def on_def put_sm_def sm_step.simps split: sub_ptr.splits)
qed

text \<open>The machine operation a message stands for.\<close>

fun msg_op :: "agps_msg \<Rightarrow> sm_op" where
  "msg_op (MsgRequestATL h t apnMask) = Subscribe h t apnMask"
| "msg_op (MsgReleaseATL h) = Unsubscribe h"
| "msg_op (MsgAtlOpenSuccess t apn bearer) =
     Granted (Some apn) (of_nat (length (cstr_of apn))) bearer"
| "msg_op (MsgReportAtlPdn pdn t apn bearer) =
     Granted (Some (apn @ [0])) (of_nat (length apn)) (if pdn \<le> 0 then bearer else pdn)"
| "msg_op (MsgAtlClosed t) = Released"
| "msg_op (MsgAtlOpenFailed t) = Denied"

lemma proc_round:
  assumes "bus_ok b" "bus_queue b = msg # q"
    and "\<nexists>h t apnMask. msg = MsgRequestATL h t apnMask \<and> serves_agnss t"
    and "wds = None \<or> (\<nexists>t apn bearer. msg = MsgAtlOpenSuccess t apn bearer)"
  shows "\<exists>b' out. deliver conf wds b = Some (b', out) \<and> bus_ok b' \<and> load b' < load b"
proof -
  let ?b = "b\<lparr>bus_queue := q\<rparr>"
  obtain sm where sm: "mInternetNif (bus_mgr b) = Some sm" "sm_ok sm" "mAgpsType sm = LOC_AGPS_TYPE_WWAN_ANY"
    and ask: "link (abs_sm sm) = Asked \<Longrightarrow> list_ex is_answer (bus_queue b)"
    and cls: "link (abs_sm sm) = Closing \<Longrightarrow> list_ex is_closing (bus_queue b)"
    and b: "mAgnssNif (bus_mgr b) = None" "usable (bus_native b)" "list_all msg_ok (bus_queue b)"
    using assms(1) by (auto simp: bus_ok_def)
  obtain sm' cs where st: "sm_step (msg_op msg) sm = Some (sm', cs)"
    using sm_refines[OF sm(2)] by blast
  have msg: "msg_ok msg" "list_all msg_ok q" using b(3) assms(2) by auto
  have "proc conf wds msg ?b = Some (?b\<lparr>bus_mgr := (bus_mgr b)\<lparr>mInternetNif := Some sm'\<rparr>\<rparr>, cs)"
    using only_internet[OF b(1) sm(1,2)] st msg(1) assms(3,4)
    by (cases msg) (auto simp: on_mgr_def put_sm_def known_type_def Let_def)
  moreover have "\<exists>b' out. dispatch cs (?b\<lparr>bus_mgr := (bus_mgr b)\<lparr>mInternetNif := Some sm'\<rparr>\<rparr>) = Some (b', out) \<and>
      bus_ok b' \<and> load b' < sum_list (map weight (bus_queue ?b)) + op_weight (msg_op msg) + link_weight (link (abs_sm sm))"
  proof (rule machine_round[where sm' = sm'])
    show "op_type (msg_op msg) LOC_AGPS_TYPE_WWAN_ANY = LOC_AGPS_TYPE_WWAN_ANY"
      using msg(1) assms(3) by (cases msg) (auto simp: known_type_def)
    show "(\<exists>apn len b. msg_op msg = Granted apn len b) \<or> msg_op msg = Denied \<or> list_ex is_answer (bus_queue ?b)"
      if "link (abs_sm sm) = Asked"
      using ask[OF that] assms(2) by (cases msg) auto
    show "msg_op msg = Released \<or> msg_op msg = Denied \<or> list_ex is_closing (bus_queue ?b)"
      if "link (abs_sm sm) = Closing"
      using cls[OF that] assms(2) by (cases msg) auto
  qed (use b sm msg st in auto)
  moreover have "op_weight (msg_op msg) \<le> weight msg" by (cases msg) auto
  ultimately show ?thesis
    using sm(1) assms(2) by (auto simp: deliver_def load_def)
qed

lemma refused_round:
  assumes "bus_ok b" "bus_queue b = MsgRequestATL h t apnMask # q" "serves_agnss t"
  shows "\<exists>b' out. deliver conf wds b = Some (b', out) \<and> bus_ok b' \<and> load b' < load b"
proof -
  obtain t' m' where ne: "non_emergency conf (t, apnMask) = (t', m')" by fastforce
  with assms(3) have "serves_agnss t'" by (metis non_emergency_agnss)
  with assms(1) have "getAgpsStateMachine t' (bus_mgr b) = None"
    by (simp add: bus_ok_def getAgpsStateMachine_def)
  then have "deliver conf wds b =
      Some (b\<lparr>bus_queue := q\<rparr>, [AtlOpenStatus h 0 None 0 AGPS_APN_BEARER_INVALID t' m'])"
    using assms(2) by (simp add: deliver_def on_mgr_def requestATL_eq[OF ne] dispatch.simps)
  then show ?thesis
    using assms(1,2) by (auto simp: bus_ok_def load_def)
qed

lemma pdn_round:
  assumes "bus_ok b" "bus_queue b = MsgAtlOpenSuccess t apn bearer # q" "wds = Some getPdnType"
  shows "\<exists>b' out. deliver conf wds b = Some (b', out) \<and> bus_ok b' \<and> load b' < load b"
proof -
  let ?m = "MsgReportAtlPdn ((getPdnType (cstr_of apn) + 1) AND 3) t (cstr_of apn) bearer"
  have "deliver conf wds b = Some (b\<lparr>bus_queue := q @ [?m]\<rparr>, [])"
    using assms(2,3) by (simp add: deliver_def reportPdnTypeFromWds_def sendMsg_def dispatch.simps Let_def)
  then show ?thesis
    using assms(1,2) by (auto simp: bus_ok_def load_def)
qed

lemma deliver_round:
  assumes "bus_ok b" "bus_queue b \<noteq> []"
  shows "\<exists>b' out. deliver conf wds b = Some (b', out) \<and> bus_ok b' \<and> load b' < load b"
proof -
  obtain msg q where q: "bus_queue b = msg # q" using assms(2) by (cases "bus_queue b") auto
  show ?thesis
  proof (cases "\<exists>h t apnMask. msg = MsgRequestATL h t apnMask \<and> serves_agnss t")
    case True
    then show ?thesis using refused_round[OF assms(1)] q by blast
  next
    case False
    note no_request = this
    show ?thesis
    proof (cases "\<exists>t apn bearer getPdnType. msg = MsgAtlOpenSuccess t apn bearer \<and> wds = Some getPdnType")
      case True
      then show ?thesis using pdn_round[OF assms(1)] q by blast
    next
      case False
      then have "wds = None \<or> (\<nexists>t apn bearer. msg = MsgAtlOpenSuccess t apn bearer)"
        by (cases wds) auto
      then show ?thesis by (rule proc_round[OF assms(1) q no_request])
    qed
  qed
qed


lemma drain_empty: "bus_queue b = [] \<Longrightarrow> drain conf wds b = Some (b, [])"
  by (simp add: drain.simps)

lemma drain_ok:
  "bus_ok b \<Longrightarrow> \<exists>b' out. drain conf wds b = Some (b', out) \<and> bus_ok b' \<and> bus_queue b' = []"
proof (induction "load b" arbitrary: b rule: less_induct)
  case less
  show ?case
  proof (cases "bus_queue b = []")
    case True
    with less.prems drain_empty show ?thesis by blast
  next
    case False
    obtain b1 o1 where b1: "deliver conf wds b = Some (b1, o1)" "bus_ok b1" "load b1 < load b"
      using deliver_round[OF less.prems False] by blast
    obtain b' out where "drain conf wds b1 = Some (b', out)" "bus_ok b'" "bus_queue b' = []"
      using less.hyps[OF b1(3,2)] by blast
    with b1(1) False show ?thesis by (subst drain.simps) simp
  qed
qed

section \<open>The bus as a machine\<close>

text \<open>The modem asks for known types, and the network reports an APN that fits.\<close>

fun item_ok :: "data_item \<Rightarrow> bool" where
  "item_ok (NetworkInfo allTypes apn) = (length apn \<le> MAX_APN_LEN \<and> 0 \<notin> set apn)"
| "item_ok OtherItem = True"

fun bus_admits :: "bus_op \<Rightarrow> bool" where
  "bus_admits (ModemRequest h t apnMask) = known_type t"
| "bus_admits (Network items) = list_all item_ok items"
| "bus_admits _ = True"

definition agps_capable :: "gps_conf \<Rightarrow> bool" where
  "agps_capable conf \<longleftrightarrow> CAPABILITIES conf AND LOC_GPS_CAPABILITY_MSB \<noteq> 0 \<or> CAPABILITIES conf AND LOC_GPS_CAPABILITY_MSA \<noteq> 0"

lemma notify_usable: "usable h \<Longrightarrow> list_all item_ok items \<Longrightarrow> usable (notify items h)"
proof -
  have item: "usable h \<Longrightarrow> item_ok i \<Longrightarrow> usable (notify_item i h)" for h i
    by (cases i) (auto simp: usable_def Let_def)
  show "usable h \<Longrightarrow> list_all item_ok items \<Longrightarrow> usable (notify items h)"
    unfolding notify_def by (induction items arbitrary: h) (auto simp: item)
qed

lemma bus_step_ok:
  assumes "bus_ok b" "bus_admits op"
  shows "\<exists>b' out. bus_step conf wds op b = Some (b', out) \<and> bus_ok b'"
proof (cases op)
  case (Network items)
  with assms notify_usable show ?thesis by (auto simp: bus_ok_def)
next
  case Deliver
  then show ?thesis
    using deliver_round[OF assms(1), of conf wds] assms(1)
    by (cases "bus_queue b = []") (simp add: deliver_def, fastforce)
qed (use assms in \<open>auto simp: bus_ok_def adapter_requestATL_def adapter_releaseATL_def sendMsg_def\<close>)

lemma native_start_ok: "agps_capable conf \<Longrightarrow> bus_ok (native_start conf junk)"
  by (auto simp: native_start_def initAgps_def agps_capable_def createAgpsStateMachines_def new_AgpsManager_def
      bus_ok_def usable_def new_machine_ok AGPS_ATL_TYPE_WWAN_def AGPS_ATL_TYPE_SUPL_def)
    (simp_all add: new_AgpsStateMachine_def abs_sm_def link_of_def)


text \<open>Steps the environment may take, and the states they reach.\<close>

definition native_step :: "gps_conf \<Rightarrow> (bytes \<Rightarrow> int) option \<Rightarrow> bus_op \<Rightarrow> agps_bus \<Rightarrow> bus_run option" where
  "native_step conf wds op b = (if bus_admits op then bus_step conf wds op b else None)"

lemma native_reachable_ok:
  assumes "reachable (native_step conf wds) (native_start conf junk) b" "agps_capable conf"
  shows "bus_ok b"
  using assms(1)
proof (induction rule: reachable.induct)
  case start
  then show ?case using assms(2) by (rule native_start_ok)
next
  case (forward b op b' out)
  then show ?case
    using bus_step_ok[of b op conf wds] by (auto simp: native_step_def split: if_splits)
qed

lemma link_states:
  "link (abs_sm sm) = Asked \<longleftrightarrow> mState sm = AGPS_STATE_PENDING"
  "link (abs_sm sm) = Closing \<longleftrightarrow> mState sm = AGPS_STATE_RELEASING"
  by (auto simp: abs_sm_def link_of_def split: AgpsState.splits)

definition demo_native :: "bus_op list" where
  "demo_native = [Network [NetworkInfo 1 (cstr ''internet'')], ModemRequest 5 LOC_AGPS_TYPE_WWAN_ANY 1,
     Deliver, ModemRelease 5]"

definition demo_bus :: agps_bus where
  "demo_bus = (case run (native_step demo_conf None) demo_native (native_start demo_conf 0) of
       Some (b, cs) \<Rightarrow> b | None \<Rightarrow> native_start demo_conf 0)"

lemma demo_capable: "agps_capable demo_conf"
  by code_simp

lemma demo_bus_reachable: "reachable (native_step demo_conf None) (native_start demo_conf 0) demo_bus"
proof -
  have "run (native_step demo_conf None) demo_native (native_start demo_conf 0) \<noteq> None"
    by code_simp
  then obtain b cs where "run (native_step demo_conf None) demo_native (native_start demo_conf 0) = Some (b, cs)"
    by auto
  then show ?thesis
    using run_reachable by (auto simp: demo_bus_def)
qed


lemma cstr_of_zero: "0 \<in> set xs \<Longrightarrow> length (cstr_of (xs @ ys)) < length xs"
  by (induction xs) (auto simp: cstr_of_def)

text \<open>The internet machine after its first request.\<close>

definition waiting_sm :: "u32 \<Rightarrow> int \<Rightarrow> int \<Rightarrow> AgpsStateMachine" where
  "waiting_sm msk h t =
     (new_AgpsStateMachine msk t)\<lparr>mSubscriberList := [(0, new_subscriber h msk)], mNextObject := 1,
       mCurrentSubscriber := SubDangling, mState := AGPS_STATE_PENDING\<rparr>"

lemma subscribe_fresh:
  "sm_step (Subscribe h t msk) (new_AgpsStateMachine junk t0) = Some (waiting_sm msk h t,
     [FrameworkStatus \<lparr>nif_type = t, nif_apnTypeMask = msk, nif_status = LOC_GPS_REQUEST_AGPS_DATA_CONN\<rparr>])"
  by (simp add: sm_step.simps agps_simps addSubscriber_local new_AgpsStateMachine_def waiting_sm_def handles_def)

lemma released_waiting: "sm_step Released (waiting_sm msk h t) = Some (waiting_sm msk h t, [])"
  by (simp add: sm_step.simps agps_simps waiting_sm_def)

lemma start_request:
  assumes "agps_capable conf" "\<not> serves_agnss t"
  shows "requestATL conf h t msk (bus_mgr (native_start conf junk), []) =
    Some (\<lparr>mAgnssNif = None, mInternetNif = Some (waiting_sm msk h t)\<rparr>,
      [FrameworkStatus \<lparr>nif_type = t, nif_apnTypeMask = msk, nif_status = LOC_GPS_REQUEST_AGPS_DATA_CONN\<rparr>])"
proof -
  have start: "bus_mgr (native_start conf junk) =
      \<lparr>mAgnssNif = None, mInternetNif = Some (new_AgpsStateMachine junk LOC_AGPS_TYPE_WWAN_ANY)\<rparr>"
    using assms(1) by (auto simp: native_start_def initAgps_def agps_capable_def createAgpsStateMachines_def
        new_AgpsManager_def AGPS_ATL_TYPE_WWAN_def AGPS_ATL_TYPE_SUPL_def)
  have "non_emergency conf (t, msk) = (t, msk)"
    using assms(2) by (auto simp: non_emergency_def serves_agnss_def)
  from requestATL_eq[OF this] show ?thesis
    using assms(2) start
    by (simp add: getAgpsStateMachine_def setAgpsStateMachine_def subscribe_fresh put_sm_def)
qed

section \<open>The properties\<close>

text \<open>
  With the native handler no question to the framework is ever without an answer: in every
  reachable state, while the machine waits for the connection an answer to its request is queued,
  and while it waits for the end of the connection the report of that end, or of a failure, is.
\<close>

theorem native_answers:
  assumes "reachable (native_step conf wds) (native_start conf junk) b" "agps_capable conf"
  shows "\<exists>sm. mInternetNif (bus_mgr b) = Some sm \<and> sm_ok sm \<and>
    (mState sm = AGPS_STATE_PENDING \<longrightarrow> list_ex is_answer (bus_queue b)) \<and>
    (mState sm = AGPS_STATE_RELEASING \<longrightarrow> list_ex is_closing (bus_queue b))"
  using native_reachable_ok[OF assms] by (auto simp: bus_ok_def link_states)

theorem native_answers_witness:
  "\<exists>sm. mInternetNif (bus_mgr demo_bus) = Some sm \<and> mState sm = AGPS_STATE_PENDING \<and>
    list_ex is_answer (bus_queue demo_bus)"
proof -
  have "map_option mState (mInternetNif (bus_mgr demo_bus)) = Some AGPS_STATE_PENDING"
    by code_simp
  then show ?thesis
    using native_answers[OF demo_bus_reachable demo_capable] by auto
qed

text \<open>
  While the modem asks only for the known types, the network reports only APNs that fit, and the
  library that opens the connection answers each call at once, the message thread empties its queue
  after finitely many rounds from every reachable state, without undefined behaviour, and then the
  machine is either released without subscribers or holds the connection: nobody is left waiting for an
  answer. The two theorems below show that this is not so for another APN or another type.
\<close>

theorem native_drains:
  assumes "reachable (native_step conf wds) (native_start conf junk) b" "agps_capable conf"
  shows "\<exists>b' out sm. drain conf wds b = Some (b', out) \<and> bus_queue b' = [] \<and>
    mInternetNif (bus_mgr b') = Some sm \<and>
    (mState sm = AGPS_STATE_RELEASED \<and> mSubscriberList sm = [] \<or> mState sm = AGPS_STATE_ACQUIRED)"
proof -
  obtain b' out where b': "drain conf wds b = Some (b', out)" "bus_ok b'" "bus_queue b' = []"
    using drain_ok[OF native_reachable_ok[OF assms]] by blast
  then obtain sm where sm: "mInternetNif (bus_mgr b') = Some sm" "sm_ok sm"
    "mState sm \<noteq> AGPS_STATE_PENDING" "mState sm \<noteq> AGPS_STATE_RELEASING"
    by (auto simp: bus_ok_def link_states)
  then have "mState sm = AGPS_STATE_RELEASED \<and> mSubscriberList sm = [] \<or> mState sm = AGPS_STATE_ACQUIRED"
    by (auto simp: sm_ok_def split: AgpsState.splits)
  with b' sm(1) show ?thesis by blast
qed

theorem native_drains_witness:
  "\<exists>b' out sm. drain demo_conf None demo_bus = Some (b', out) \<and> bus_queue b' = [] \<and>
    mInternetNif (bus_mgr b') = Some sm \<and>
    (mState sm = AGPS_STATE_RELEASED \<and> mSubscriberList sm = [] \<or> mState sm = AGPS_STATE_ACQUIRED)"
  using native_drains[OF demo_bus_reachable demo_capable] .

text \<open>
  An APN that is too long or contains a zero byte blocks the machine: the adapter reports the
  connection closed, which the machine ignores, so the request stays pending with an empty queue
  and the modem is never told.
\<close>

theorem native_bad_apn_blocks:
  assumes "agps_capable conf" "mConnected n" "\<not> usable n"
  shows "\<exists>b' sm. run (bus_step conf wds) [ModemRequest h LOC_AGPS_TYPE_WWAN_ANY msk, Deliver]
      (native_start conf junk\<lparr>bus_native := n\<rparr>) = Some (b', []) \<and>
    bus_queue b' = [] \<and> mInternetNif (bus_mgr b') = Some sm \<and> mState sm = AGPS_STATE_PENDING \<and>
    handles (mSubscriberList sm) = [h]"
proof -
  let ?b = "\<lparr>bus_mgr = \<lparr>mAgnssNif = None, mInternetNif = Some (waiting_sm msk h LOC_AGPS_TYPE_WWAN_ANY)\<rparr>,
    bus_queue = [], bus_native = n\<rparr>"
  have bad: "MAX_APN_LEN < length (mApn n) \<or> length (cstr_of (mApn n @ [0])) \<noteq> length (mApn n)"
    using assms(3) cstr_of_zero[of "mApn n" "[0]"] by (auto simp: usable_def)
  have closed: "reportAtlClosed LOC_AGPS_TYPE_WWAN_ANY (bus_mgr ?b, []) = Some (bus_mgr ?b, [])"
    by (simp add: report_eq getAgpsStateMachine_def setAgpsStateMachine_def released_waiting put_sm_def)
  have "run (bus_step conf wds) [ModemRequest h LOC_AGPS_TYPE_WWAN_ANY msk, Deliver]
      (native_start conf junk\<lparr>bus_native := n\<rparr>) = Some (?b, [])"
    using start_request[OF assms(1) wwan_not_agnss] assms(2) bad closed
    by (auto simp: adapter_requestATL_def sendMsg_def deliver_def on_mgr_def native_start_def dispatch.simps
        processATLRequestRelease_def dataConnOpenCommand_def)
  then show ?thesis
    by (simp add: waiting_sm_def handles_def)
qed

definition long_apn :: NativeAgpsHandler where
  "long_apn = \<lparr>mConnected = True, mApn = replicate 101 65\<rparr>"

theorem native_bad_apn_blocks_witness:
  "\<exists>b' sm. run (bus_step demo_conf None) [ModemRequest 7 LOC_AGPS_TYPE_WWAN_ANY 1, Deliver]
      (native_start demo_conf 0\<lparr>bus_native := long_apn\<rparr>) = Some (b', []) \<and>
    bus_queue b' = [] \<and> mInternetNif (bus_mgr b') = Some sm \<and> mState sm = AGPS_STATE_PENDING \<and>
    handles (mSubscriberList sm) = [7]"
  by (rule native_bad_apn_blocks[OF demo_capable])
     (simp_all add: long_apn_def usable_def MAX_APN_LEN_def)

text \<open>
  A request for any other type is served by the internet machine, whose question the native
  handler then ignores: the machine stays pending, and a later request for the internet type only
  joins the wait, with the queue empty and nothing told to the modem.
\<close>

theorem native_other_type_blocks:
  assumes "agps_capable conf" "\<not> known_type t" "h \<noteq> h'"
  shows "\<exists>b' sm. run (bus_step conf wds)
      [ModemRequest h t msk, Deliver, ModemRequest h' LOC_AGPS_TYPE_WWAN_ANY msk', Deliver]
      (native_start conf junk) = Some (b', []) \<and>
    bus_queue b' = [] \<and> mInternetNif (bus_mgr b') = Some sm \<and> mState sm = AGPS_STATE_PENDING \<and>
    handles (mSubscriberList sm) = [h, h']"
proof -
  have t: "\<not> serves_agnss t" "t \<noteq> LOC_AGPS_TYPE_WWAN_ANY"
    using assms(2) by (auto simp: known_type_def)
  let ?b = "(native_start conf junk)\<lparr>bus_mgr :=
    \<lparr>mAgnssNif = None, mInternetNif = Some (waiting_sm msk h t)\<rparr>\<rparr>"
  let ?s = "waiting_sm msk h t\<lparr>mAgpsType := LOC_AGPS_TYPE_WWAN_ANY, mApnTypeMask := msk',
      mSubscriberList := [(0, new_subscriber h msk), (1, new_subscriber h' msk')], mNextObject := 2\<rparr>"
  have queue: "bus_queue (native_start conf junk) = []"
    by (simp add: native_start_def)
  have first: "run (bus_step conf wds) [ModemRequest h t msk, Deliver] (native_start conf junk) = Some (?b, [])"
    using start_request[OF assms(1) t(1)] t(2) queue
    by (simp add: adapter_requestATL_def sendMsg_def deliver_def on_mgr_def dispatch.simps
        processATLRequestRelease_def)
  have join: "sm_step (Subscribe h' LOC_AGPS_TYPE_WWAN_ANY msk') (waiting_sm msk h t) = Some (?s, [])"
    using assms(3)
    by (simp add: sm_step.simps agps_simps addSubscriber_local waiting_sm_def handles_def)
  have second: "run (bus_step conf wds) [ModemRequest h' LOC_AGPS_TYPE_WWAN_ANY msk', Deliver] ?b =
      Some (?b\<lparr>bus_mgr := \<lparr>mAgnssNif = None, mInternetNif = Some ?s\<rparr>\<rparr>, [])"
    using queue
    by (simp add: adapter_requestATL_def sendMsg_def deliver_def on_mgr_def dispatch.simps
        requestATL_eq[OF non_emergency_wwan] getAgpsStateMachine_def setAgpsStateMachine_def join put_sm_def)
  have "run (bus_step conf wds)
      ([ModemRequest h t msk, Deliver] @ [ModemRequest h' LOC_AGPS_TYPE_WWAN_ANY msk', Deliver])
      (native_start conf junk) = Some (?b\<lparr>bus_mgr := \<lparr>mAgnssNif = None, mInternetNif = Some ?s\<rparr>\<rparr>, [])"
    unfolding run_append first by (simp add: second del: run.simps)
  then show ?thesis
    using queue by (simp add: waiting_sm_def handles_def del: run.simps)
qed

theorem native_other_type_blocks_witness:
  "\<exists>b' sm. run (bus_step demo_conf None)
      [ModemRequest 1 LOC_AGPS_TYPE_ANY 1, Deliver, ModemRequest 2 LOC_AGPS_TYPE_WWAN_ANY 1, Deliver]
      (native_start demo_conf 0) = Some (b', []) \<and>
    bus_queue b' = [] \<and> mInternetNif (bus_mgr b') = Some sm \<and> mState sm = AGPS_STATE_PENDING \<and>
    handles (mSubscriberList sm) = [1, 2]"
proof (rule native_other_type_blocks[OF demo_capable])
  show "\<not> known_type LOC_AGPS_TYPE_ANY" by code_simp
qed simp

end
