(* ===== verification/LocHeap.thy ===== *)
theory LocHeap
  imports Prelude "HOL-Library.Multiset"
begin

text \<open>
  The heap of rankable objects, \<open>gps/utils/LocHeap.cpp\<close> and \<open>LocHeap.h\<close>. A node holds a
  size, two subtrees and a pointer to a client object; \<open>Null\<close> is the null pointer. The links
  of a tree never change while data moves between nodes, so a tree is a value and the node that
  \<open>push\<close> hangs in, or \<open>pop\<close> takes out, is the leaf the recursion ends at. The type of
  the data is that of the client objects, equality is that of their addresses, and \<open>ranks\<close> is the client's virtual method,
  a parameter of every operation.
\<close>

section \<open>The code\<close>

datatype 'a LocHeapNode = Null | Node (mSize: int) (mLeft: "'a LocHeapNode") (mRight: "'a LocHeapNode") (mData: 'a)

definition outRanks :: "('a \<Rightarrow> 'a \<Rightarrow> int) \<Rightarrow> 'a \<Rightarrow> 'a \<Rightarrow> bool" where
  "outRanks ranks x y \<longleftrightarrow> ranks x y > 0"

definition new_LocHeapNode :: "'a \<Rightarrow> 'a LocHeapNode" where
  "new_LocHeapNode d = Node 1 Null Null d"

text \<open>\<open>push\<close> of a new node with data \<open>x\<close>: the swap leaves the lower ranked datum in it.\<close>

fun node_push :: "('a \<Rightarrow> 'a \<Rightarrow> int) \<Rightarrow> 'a \<Rightarrow> 'a LocHeapNode \<Rightarrow> 'a LocHeapNode" where
  "node_push ranks x Null = new_LocHeapNode x"
| "node_push ranks x (Node n l r d) =
     (let (d', x') = (if outRanks ranks x d then (x, d) else (d, x))
      in if l = Null then Node (n + 1) (new_LocHeapNode x') r d'
         else if r = Null then Node (n + 1) l (new_LocHeapNode x') d'
         else if mSize l \<le> mSize r then Node (n + 1) (node_push ranks x' l) r d'
         else Node (n + 1) l (node_push ranks x' r) d')"

fun set_data :: "'a \<Rightarrow> 'a LocHeapNode \<Rightarrow> 'a LocHeapNode" where
  "set_data x Null = Null"
| "set_data x (Node n l r d) = Node n l r x"

lemma size_set_data [simp]: "size (set_data x t) = size t"
  by (cases t) auto

text \<open>
  \<open>pop\<close>: the datum of the chosen subtree moves up, the popped one moves down to a leaf, which
  is detached. The first component is the datum of the node that is returned; a null tree is never
  popped.
\<close>

function node_pop :: "('a \<Rightarrow> 'a \<Rightarrow> int) \<Rightarrow> 'a LocHeapNode \<Rightarrow> 'a option \<times> 'a LocHeapNode" where
  "node_pop ranks Null = (None, Null)"
| "node_pop ranks (Node n l r d) =
     (if l = Null \<and> r = Null then (Some d, Null)
      else if l = Null \<or> r \<noteq> Null \<and> \<not> outRanks ranks (mData l) (mData r)
      then let (x, r') = node_pop ranks (set_data d r) in (x, Node (n - 1) l r' (mData r))
      else let (x, l') = node_pop ranks (set_data d l) in (x, Node (n - 1) l' r (mData l)))"
  by pat_completeness auto
termination by (relation "measure (size o snd)") auto

fun node_remove :: "('a \<Rightarrow> 'a \<Rightarrow> int) \<Rightarrow> 'a \<Rightarrow> 'a LocHeapNode \<Rightarrow> 'a option \<times> 'a LocHeapNode" where
  "node_remove ranks x Null = (None, Null)"
| "node_remove ranks x (Node n l r d) =
     (if x = d then node_pop ranks (Node n l r d)
      else if \<not> outRanks ranks x d then
        (case node_remove ranks x l of
           (Some y, l') \<Rightarrow> (Some y, Node (n - 1) l' r d)
         | (None, l') \<Rightarrow>
             (case node_remove ranks x r of
                (Some y, r') \<Rightarrow> (Some y, Node (n - 1) l' r' d)
              | (None, r') \<Rightarrow> (None, Node n l' r' d)))
      else (None, Node n l r d))"

fun checkNodes :: "('a \<Rightarrow> 'a \<Rightarrow> int) \<Rightarrow> 'a LocHeapNode \<Rightarrow> bool" where
  "checkNodes ranks Null = True"
| "checkNodes ranks (Node n l r d) =
     ((l = Null \<or> \<not> outRanks ranks (mData l) d \<and> checkNodes ranks l) \<and>
      (r = Null \<or> \<not> outRanks ranks (mData r) d \<and> checkNodes ranks r) \<and>
      n - (if l = Null then 0 else mSize l) - (if r = Null then 0 else mSize r) = 1)"

text \<open>The heap is a pointer to the top node.\<close>

definition heap_push :: "('a \<Rightarrow> 'a \<Rightarrow> int) \<Rightarrow> 'a \<Rightarrow> 'a LocHeapNode \<Rightarrow> 'a LocHeapNode" where
  "heap_push ranks x tree = (if tree = Null then new_LocHeapNode x else node_push ranks x tree)"

definition heap_peek :: "'a LocHeapNode \<Rightarrow> 'a option" where
  "heap_peek tree = (if tree \<noteq> Null then Some (mData tree) else None)"

definition heap_pop :: "('a \<Rightarrow> 'a \<Rightarrow> int) \<Rightarrow> 'a LocHeapNode \<Rightarrow> 'a option \<times> 'a LocHeapNode" where
  "heap_pop ranks tree = (if tree \<noteq> Null then node_pop ranks tree else (None, Null))"

definition heap_remove :: "('a \<Rightarrow> 'a \<Rightarrow> int) \<Rightarrow> 'a \<Rightarrow> 'a LocHeapNode \<Rightarrow> 'a option \<times> 'a LocHeapNode" where
  "heap_remove ranks x tree = (if tree \<noteq> Null then node_remove ranks x tree else (None, Null))"

definition checkTree :: "('a \<Rightarrow> 'a \<Rightarrow> int) \<Rightarrow> 'a LocHeapNode \<Rightarrow> bool" where
  "checkTree ranks tree \<longleftrightarrow> tree = Null \<or> checkNodes ranks tree"

definition getTreeSize :: "'a LocHeapNode \<Rightarrow> int" where
  "getTreeSize tree = (if tree = Null then 0 else mSize tree)"

section \<open>What a tree holds\<close>

fun contents :: "'a LocHeapNode \<Rightarrow> 'a multiset" where
  "contents Null = {#}"
| "contents (Node n l r d) = add_mset d (contents l + contents r)"

lemma contents_empty [simp]: "contents t = {#} \<longleftrightarrow> t = Null"
  by (cases t) auto

lemma mData_in: "t \<noteq> Null \<Longrightarrow> mData t \<in># contents t"
  by (cases t) auto

lemma contents_set_data: "t \<noteq> Null \<Longrightarrow> contents (set_data x t) = add_mset x (contents t - {#mData t#})"
  by (cases t) auto

lemma node_push_Null [simp]: "node_push ranks x t \<noteq> Null"
  by (cases t) (auto simp: new_LocHeapNode_def Let_def split: prod.splits)

lemma contents_push: "contents (node_push ranks x t) = add_mset x (contents t)"
  by (induction ranks x t rule: node_push.induct)
    (auto simp: new_LocHeapNode_def Let_def split: prod.splits if_splits)

lemma node_pop_data: "t \<noteq> Null \<Longrightarrow> fst (node_pop ranks t) = Some (mData t)"
proof (induction ranks t rule: node_pop.induct)
  case (2 ranks n l r d)
  have "set_data d r \<noteq> Null" "mData (set_data d r) = d" if "r \<noteq> Null" using that by (cases r; simp)+
  moreover have "set_data d l \<noteq> Null" "mData (set_data d l) = d" if "l \<noteq> Null" using that by (cases l; simp)+
  ultimately show ?case using "2.IH" by (auto split: prod.splits)
qed simp

lemma contents_pop:
  "t \<noteq> Null \<Longrightarrow> contents t = add_mset (mData t) (contents (snd (node_pop ranks t)))"
proof (induction ranks t rule: node_pop.induct)
  case (2 ranks n l r d)
  have r: "set_data d r \<noteq> Null" "mData (set_data d r) = d"
    "contents r = add_mset (mData r) (contents (set_data d r) - {#d#})" if "r \<noteq> Null"
    using that by (cases r; simp)+
  have l: "set_data d l \<noteq> Null" "mData (set_data d l) = d"
    "contents l = add_mset (mData l) (contents (set_data d l) - {#d#})" if "l \<noteq> Null"
    using that by (cases l; simp)+
  show ?case
    using "2.IH" r l by (auto split: prod.splits)
qed simp


section \<open>The contract of the rank and what it gives\<close>

text \<open>Sizes count the contents, and no datum outranks one above it.\<close>

fun sized :: "'a LocHeapNode \<Rightarrow> bool" where
  "sized Null = True"
| "sized (Node n l r d) \<longleftrightarrow> n = int (size (contents (Node n l r d))) \<and> sized l \<and> sized r"

fun ordered :: "('a \<Rightarrow> 'a \<Rightarrow> int) \<Rightarrow> 'a LocHeapNode \<Rightarrow> bool" where
  "ordered ranks Null = True"
| "ordered ranks (Node n l r d) \<longleftrightarrow>
     (\<forall>x \<in># contents l + contents r. \<not> outRanks ranks x d) \<and> ordered ranks l \<and> ordered ranks r"

lemma sized_mSize: "sized t \<Longrightarrow> t \<noteq> Null \<Longrightarrow> mSize t = int (size (contents t))"
  by (cases t) auto

lemma sized_set_data [simp]: "sized (set_data x t) = sized t"
  by (cases t) auto

lemma sized_push: "sized t \<Longrightarrow> sized (node_push ranks x t)"
  by (induction ranks x t rule: node_push.induct)
    (auto simp: new_LocHeapNode_def Let_def contents_push split: prod.splits if_splits)

lemma size_pop: "t \<noteq> Null \<Longrightarrow> size (contents t) = Suc (size (contents (snd (node_pop ranks t))))"
  using contents_pop[of t ranks] by (metis size_add_mset)

lemma sized_pop: "sized t \<Longrightarrow> sized (snd (node_pop ranks t))"
proof (induction ranks t rule: node_pop.induct)
  case (2 ranks n l r d)
  have r: "set_data d r \<noteq> Null" "size (contents (set_data d r)) = size (contents r)" if "r \<noteq> Null"
    using that by (cases r; simp)+
  have l: "set_data d l \<noteq> Null" "size (contents (set_data d l)) = size (contents l)" if "l \<noteq> Null"
    using that by (cases l; simp)+
  show ?case
    using 2 r l size_pop[of "set_data d r" ranks] size_pop[of "set_data d l" ranks]
    by (auto split: prod.splits)
qed simp

locale rankable =
  fixes ranks :: "'a \<Rightarrow> 'a \<Rightarrow> int" and ok :: "'a \<Rightarrow> bool"
  assumes asym: "ok x \<Longrightarrow> ok y \<Longrightarrow> ranks x y > 0 \<Longrightarrow> ranks y x \<le> 0"
    and neg_trans: "ok x \<Longrightarrow> ok y \<Longrightarrow> ok z \<Longrightarrow> ranks x y \<le> 0 \<Longrightarrow> ranks y z \<le> 0 \<Longrightarrow> ranks x z \<le> 0"
begin

definition all_ok :: "'a LocHeapNode \<Rightarrow> bool" where
  "all_ok t \<longleftrightarrow> (\<forall>x \<in># contents t. ok x)"

lemma all_ok_Node [simp]: "all_ok (Node n l r d) \<longleftrightarrow> ok d \<and> all_ok l \<and> all_ok r"
  by (auto simp: all_ok_def)

lemma all_ok_Null [simp]: "all_ok Null"
  by (simp add: all_ok_def)

lemma all_okD: "all_ok t \<Longrightarrow> x \<in># contents t \<Longrightarrow> ok x"
  by (simp add: all_ok_def)

lemma all_ok_push: "all_ok t \<Longrightarrow> ok x \<Longrightarrow> all_ok (node_push ranks x t)"
  by (auto simp: all_ok_def contents_push)

lemma not_outRanks: "\<not> outRanks ranks x y \<longleftrightarrow> ranks x y \<le> 0"
  by (auto simp: outRanks_def)

lemma self_ranks: "ok x \<Longrightarrow> ranks x x \<le> 0"
  using asym[of x x] by linarith

lemma top_outranks: "ordered ranks t \<Longrightarrow> all_ok t \<Longrightarrow> x \<in># contents t \<Longrightarrow> ranks x (mData t) \<le> 0"
  by (cases t) (auto simp: not_outRanks self_ranks)

lemma checkNodes_iff: "all_ok t \<Longrightarrow> checkNodes ranks t \<longleftrightarrow> sized t \<and> ordered ranks t"
proof (induction t)
  case (Node n l r d)
  have sub: "(\<forall>x \<in># contents s. ranks x d \<le> 0) \<longleftrightarrow> s = Null \<or> ranks (mData s) d \<le> 0"
    if "all_ok s" "ordered ranks s" "ok d" for s
    using that mData_in[of s] top_outranks[OF that(2,1)]
    by (cases "s = Null") (auto intro: neg_trans[of _ "mData s" d] all_okD)
  show ?case
    using Node sub[of l] sub[of r] sized_mSize[of l] sized_mSize[of r]
    by (auto simp: not_outRanks)
qed simp

lemma ordered_push: "ordered ranks t \<Longrightarrow> all_ok t \<Longrightarrow> ok x \<Longrightarrow> ordered ranks (node_push ranks x t)"
proof (induction t arbitrary: x)
  case Null
  then show ?case by (simp add: new_LocHeapNode_def)
next
  case (Node n l r d)
  obtain d' x' where swap: "(if outRanks ranks x d then (x, d) else (d, x)) = (d', x')" by fastforce
  have ok: "ok d'" "ok x'" "ranks x' d' \<le> 0"
    using swap Node.prems asym by (auto simp: outRanks_def split: if_splits)
  have below: "ranks y d' \<le> 0" if "y \<in># contents l + contents r" for y
  proof -
    have y: "ok y" "ranks y d \<le> 0"
      using that Node.prems by (auto simp: not_outRanks dest: all_okD)
    have "ranks d d' \<le> 0" using swap Node.prems asym self_ranks by (auto simp: outRanks_def split: if_splits)
    with y ok(1) Node.prems(2) show ?thesis by (auto intro: neg_trans[of y d d'])
  qed
  show ?case
    using Node swap ok below by (auto simp: Let_def contents_push new_LocHeapNode_def not_outRanks)
qed

lemma ordered_set_data:
  "ordered ranks t \<Longrightarrow> (\<And>x. x \<in># contents t \<Longrightarrow> ranks x d \<le> 0) \<Longrightarrow> ordered ranks (set_data d t)"
  by (cases t) (auto simp: not_outRanks)

text \<open>The subtree that takes over: it stays ordered with the popped datum on top.\<close>

lemma pop_child:
  assumes "s \<noteq> Null" "ordered ranks s" "all_ok s" "ok d" "\<And>x. x \<in># contents s \<Longrightarrow> ranks x d \<le> 0"
  shows "ordered ranks (set_data d s)" "all_ok (set_data d s)"
    "contents (snd (node_pop ranks (set_data d s))) = contents s - {#mData s#}"
proof -
  show "ordered ranks (set_data d s)" using assms by (intro ordered_set_data)
  show "all_ok (set_data d s)" using assms by (cases s) auto
  have "set_data d s \<noteq> Null" "mData (set_data d s) = d" using assms(1) by (cases s; simp)+
  then show "contents (snd (node_pop ranks (set_data d s))) = contents s - {#mData s#}"
    using contents_pop[of "set_data d s" ranks] contents_set_data[OF assms(1), of d] by simp
qed

lemma pop_order:
  assumes "s \<noteq> Null" "ordered ranks s" "all_ok s" "ordered ranks t" "all_ok t" "t = Null \<or> ranks (mData t) (mData s) \<le> 0"
    and "x \<in># contents s - {#mData s#} + contents t"
  shows "ranks x (mData s) \<le> 0"
proof (cases "x \<in># contents s")
  case True
  then show ?thesis using assms(2,3) by (intro top_outranks)
next
  case False
  then have "x \<in># contents t" using assms(7) by (auto dest: in_diffD)
  then have "t \<noteq> Null" "ranks x (mData t) \<le> 0" "ok x"
    using assms(4,5) by (auto intro: top_outranks dest: all_okD)
  then show ?thesis
    using assms by (auto intro: neg_trans[of x "mData t" "mData s"] all_okD mData_in)
qed

lemma ordered_pop: "ordered ranks t \<Longrightarrow> all_ok t \<Longrightarrow> ordered ranks (snd (node_pop ranks t))"
proof (induction "size t" arbitrary: t rule: less_induct)
  case less
  show ?case
  proof (cases t)
    case (Node n l r d)
    have p: "ordered ranks l" "ordered ranks r" "all_ok l" "all_ok r" "ok d"
      "\<And>x. x \<in># contents l \<Longrightarrow> ranks x d \<le> 0" "\<And>x. x \<in># contents r \<Longrightarrow> ranks x d \<le> 0"
      using less.prems Node by (auto simp: not_outRanks)
    note child = pop_child[OF _ p(1,3,5,6)] pop_child[OF _ p(2,4,5,7)]
    have ih: "ordered ranks (snd (node_pop ranks (set_data d l)))" if "l \<noteq> Null"
      using less.hyps[of "set_data d l"] child(1,2)[OF that] Node by simp
    have ih': "ordered ranks (snd (node_pop ranks (set_data d r)))" if "r \<noteq> Null"
      using less.hyps[of "set_data d r"] child(4,5)[OF that] Node by simp
    have lr: "ranks (mData r) (mData l) \<le> 0" if "outRanks ranks (mData l) (mData r)" "l \<noteq> Null" "r \<noteq> Null"
      using that p(3,4) by (intro asym) (auto simp: outRanks_def intro: all_okD mData_in)
    consider (leaf) "l = Null" "r = Null"
      | (right) "r \<noteq> Null" "l = Null \<or> ranks (mData l) (mData r) \<le> 0"
          "snd (node_pop ranks t) = Node (n - 1) l (snd (node_pop ranks (set_data d r))) (mData r)"
      | (left) "l \<noteq> Null" "r = Null \<or> ranks (mData r) (mData l) \<le> 0"
          "snd (node_pop ranks t) = Node (n - 1) (snd (node_pop ranks (set_data d l))) r (mData l)"
      using Node lr by (cases "l = Null"; cases "r = Null"; cases "outRanks ranks (mData l) (mData r)")
        (auto simp: not_outRanks split: prod.splits)
    then show ?thesis
    proof cases
      case leaf
      then show ?thesis using Node by simp
    next
      case right
      have "ranks x (mData r) \<le> 0" if "x \<in># contents l + (contents r - {#mData r#})" for x
        using pop_order[OF right(1) p(2,4,1,3) right(2), of x] that by (simp add: add.commute)
      then show ?thesis
        unfolding right(3) using ih'[OF right(1)] p(1) child(6)[OF right(1)] by (simp add: not_outRanks)
    next
      case left
      have "ranks x (mData l) \<le> 0" if "x \<in># contents l - {#mData l#} + contents r" for x
        using pop_order[OF left(1) p(1,3,2,4) left(2), of x] that by simp
      then show ?thesis
        unfolding left(3) using ih[OF left(1)] p(2) child(3)[OF left(1)] by (simp add: not_outRanks)
    qed
  qed simp
qed

lemma node_remove_absent: "x \<notin># contents t \<Longrightarrow> node_remove ranks x t = (None, t)"
  by (induction t) auto

lemma node_remove_present:
  "sized t \<Longrightarrow> ordered ranks t \<Longrightarrow> all_ok t \<Longrightarrow> x \<in># contents t \<Longrightarrow>
   \<exists>t'. node_remove ranks x t = (Some x, t') \<and> contents t = add_mset x (contents t') \<and> sized t' \<and> ordered ranks t'"
proof (induction t)
  case (Node n l r d)
  show ?case
  proof (cases "x = d")
    case True
    let ?t = "Node n l r d"
    obtain t' where t': "node_pop ranks ?t = (Some x, t')"
      using node_pop_data[of ?t ranks] True by (cases "node_pop ranks ?t") auto
    then have "contents ?t = add_mset x (contents t')" "sized t'" "ordered ranks t'"
      using contents_pop[of ?t ranks] sized_pop[OF Node.prems(1), of ranks] ordered_pop[OF Node.prems(2,3)] True
      by (auto simp del: node_pop.simps)
    with t' True show ?thesis by (simp del: node_pop.simps)
  next
    case False
    then have "\<not> outRanks ranks x d" using Node.prems by auto
    show ?thesis
    proof (cases "x \<in># contents l")
      case True
      with Node obtain l' where "node_remove ranks x l = (Some x, l')" "contents l = add_mset x (contents l')"
        "sized l'" "ordered ranks l'" by auto
      with False \<open>\<not> outRanks ranks x d\<close> Node.prems show ?thesis by auto
    next
      case no_left: False
      with Node.prems False have "x \<in># contents r" by auto
      with Node obtain r' where "node_remove ranks x r = (Some x, r')" "contents r = add_mset x (contents r')"
        "sized r'" "ordered ranks r'" by auto
      with False no_left \<open>\<not> outRanks ranks x d\<close> Node.prems node_remove_absent[OF no_left] show ?thesis by auto
    qed
  qed
qed simp

definition heap_inv :: "'a LocHeapNode \<Rightarrow> bool" where
  "heap_inv t \<longleftrightarrow> checkTree ranks t \<and> all_ok t"

lemma heap_inv_iff: "heap_inv t \<longleftrightarrow> sized t \<and> ordered ranks t \<and> all_ok t"
  using checkNodes_iff by (auto simp: heap_inv_def checkTree_def)

end

section \<open>Priority queues\<close>

text \<open>
  The interface a client of the heap relies on: a queue is a multiset of objects, and what it shows
  and gives first is outranked by nothing in it.
\<close>

fun pops :: "('q \<Rightarrow> 'a option \<times> 'q) \<Rightarrow> nat \<Rightarrow> 'q \<Rightarrow> 'a list \<times> 'q" where
  "pops pop 0 q = ([], q)"
| "pops pop (Suc n) q = (case pop q of
       (None, q') \<Rightarrow> ([], q')
     | (Some x, q') \<Rightarrow> (let (xs, q'') = pops pop n q' in (x # xs, q'')))"

locale rank_queue =
  fixes outr :: "'a \<Rightarrow> 'a \<Rightarrow> bool" and ok :: "'a \<Rightarrow> bool" and inv :: "'q \<Rightarrow> bool" and elems :: "'q \<Rightarrow> 'a multiset"
    and push :: "'a \<Rightarrow> 'q \<Rightarrow> 'q" and peek :: "'q \<Rightarrow> 'a option" and pop :: "'q \<Rightarrow> 'a option \<times> 'q"
    and remove :: "'a \<Rightarrow> 'q \<Rightarrow> 'a option \<times> 'q"
  assumes push_inv: "inv q \<Longrightarrow> ok x \<Longrightarrow> inv (push x q)"
    and push_elems: "inv q \<Longrightarrow> ok x \<Longrightarrow> elems (push x q) = add_mset x (elems q)"
    and inv_ok: "inv q \<Longrightarrow> x \<in># elems q \<Longrightarrow> ok x"
    and peek_None: "inv q \<Longrightarrow> peek q = None \<longleftrightarrow> elems q = {#}"
    and peek_in: "inv q \<Longrightarrow> peek q = Some x \<Longrightarrow> x \<in># elems q"
    and peek_top: "inv q \<Longrightarrow> peek q = Some x \<Longrightarrow> y \<in># elems q \<Longrightarrow> \<not> outr y x"
    and pop_peek: "inv q \<Longrightarrow> fst (pop q) = peek q"
    and pop_inv: "inv q \<Longrightarrow> inv (snd (pop q))"
    and pop_elems: "inv q \<Longrightarrow> peek q = Some x \<Longrightarrow> elems q = add_mset x (elems (snd (pop q)))"
    and remove_inv: "inv q \<Longrightarrow> inv (snd (remove x q))"
    and remove_elems: "inv q \<Longrightarrow> elems (snd (remove x q)) = elems q - {#x#}"
    and remove_result: "inv q \<Longrightarrow> fst (remove x q) = (if x \<in># elems q then Some x else None)"
begin

lemma pop_cases:
  assumes "inv q"
  obtains (empty) "elems q = {#}" "fst (pop q) = None"
  | (top) x q' where "pop q = (Some x, q')" "peek q = Some x" "inv q'" "elems q = add_mset x (elems q')"
      "\<And>y. y \<in># elems q' \<Longrightarrow> \<not> outr y x"
proof (cases "peek q")
  case None
  then show ?thesis using assms empty pop_peek peek_None by auto
next
  case (Some x)
  show ?thesis
  proof (rule top)
    show "pop q = (Some x, snd (pop q))" using pop_peek[OF assms] Some by (cases "pop q") auto
    show "\<not> outr y x" if "y \<in># elems (snd (pop q))" for y
      using peek_top[OF assms Some] pop_elems[OF assms Some] that by auto
  qed (use assms Some pop_inv pop_elems in auto)
qed

text \<open>Popping as often as there are objects gives them all, the higher ranked first.\<close>

lemma pops_sorted:
  "inv q \<Longrightarrow> size (elems q) \<le> n \<Longrightarrow> pops pop n q = (xs, q') \<Longrightarrow>
   mset xs = elems q \<and> sorted_wrt (\<lambda>x y. \<not> outr y x) xs"
proof (induction n arbitrary: q xs q')
  case 0
  then show ?case by simp
next
  case (Suc n)
  from Suc.prems(1) show ?case
  proof (cases rule: pop_cases)
    case empty
    then show ?thesis using Suc.prems(3) by (auto split: prod.splits option.splits)
  next
    case (top x q1)
    then obtain ys where ys: "pops pop n q1 = (ys, q')" "xs = x # ys"
      using Suc.prems(3) by (auto split: prod.splits)
    then show ?thesis
      using Suc.IH[OF top(3) _ ys(1)] Suc.prems(2) top(4,5) by (auto simp flip: set_mset_mset)
  qed
qed

end

sublocale rankable < heap: rank_queue "outRanks ranks" ok heap_inv contents "heap_push ranks" heap_peek
  "heap_pop ranks" "heap_remove ranks"
proof unfold_locales
  fix q x assume inv: "heap_inv q"
  then have q: "sized q" "ordered ranks q" "all_ok q" by (simp_all add: heap_inv_iff)
  have rem: "heap_remove ranks x q = (if x \<in># contents q then (Some x, snd (heap_remove ranks x q)) else (None, q)) \<and>
      contents (snd (heap_remove ranks x q)) = contents q - {#x#} \<and> heap_inv (snd (heap_remove ranks x q))"
    using node_remove_present[OF q, of x] node_remove_absent[of x q] inv q(3)
    by (cases "x \<in># contents q")
      (auto simp: heap_remove_def heap_inv_iff all_ok_def)
  then show "heap_inv (snd (heap_remove ranks x q))" "contents (snd (heap_remove ranks x q)) = contents q - {#x#}"
    "fst (heap_remove ranks x q) = (if x \<in># contents q then Some x else None)"
    by (simp_all add: prod_eq_iff split: if_splits)
  show "fst (heap_pop ranks q) = heap_peek q"
    using node_pop_data[of q ranks] by (simp add: heap_pop_def heap_peek_def)
  show "heap_inv (snd (heap_pop ranks q))"
    using q sized_pop[OF q(1), of ranks] ordered_pop[OF q(2,3)] contents_pop[of q ranks]
    by (auto simp: heap_pop_def heap_inv_iff all_ok_def)
  show "contents q = add_mset x (contents (snd (heap_pop ranks q)))" if "heap_peek q = Some x"
    using that contents_pop[of q ranks] by (auto simp: heap_pop_def heap_peek_def split: if_splits)
  show "\<not> outRanks ranks y x" if "heap_peek q = Some x" "y \<in># contents q" for y
    using that top_outranks[OF q(2,3)] by (auto simp: heap_peek_def not_outRanks split: if_splits)
  show "x \<in># contents q" if "heap_peek q = Some x"
    using that mData_in by (auto simp: heap_peek_def split: if_splits)
  show "ok x" if "x \<in># contents q" using that q(3) by (rule all_okD[rotated])
  show "heap_peek q = None \<longleftrightarrow> contents q = {#}" by (simp add: heap_peek_def)
  show "heap_inv (heap_push ranks x q)" if "ok x"
    using q that sized_push ordered_push all_ok_push
    by (auto simp: heap_push_def heap_inv_iff new_LocHeapNode_def)
  show "contents (heap_push ranks x q) = add_mset x (contents q)" if "ok x"
    by (auto simp: heap_push_def contents_push new_LocHeapNode_def)
qed


section \<open>Balance\<close>

fun depth :: "'a LocHeapNode \<Rightarrow> nat" where
  "depth Null = 0"
| "depth (Node n l r d) = Suc (max (depth l) (depth r))"

fun balanced :: "'a LocHeapNode \<Rightarrow> bool" where
  "balanced Null = True"
| "balanced (Node n l r d) \<longleftrightarrow> size (contents r) \<le> size (contents l) \<and>
     size (contents l) \<le> Suc (size (contents r)) \<and> balanced l \<and> balanced r"

lemma size_contents_0 [simp]: "size (contents t) = 0 \<longleftrightarrow> t = Null"
  by (metis contents_empty size_eq_0_iff_empty)

lemma balanced_push: "balanced t \<Longrightarrow> sized t \<Longrightarrow> balanced (node_push ranks x t)"
proof (induction ranks x t rule: node_push.induct)
  case (2 ranks x n l r d)
  obtain d' x' where swap: "(if outRanks ranks x d then (x, d) else (d, x)) = (d', x')" by fastforce
  show ?case
    using "2.IH"[OF swap[symmetric] refl] "2.prems" swap sized_mSize[of l] sized_mSize[of r]
    by (auto simp: Let_def contents_push new_LocHeapNode_def Suc_le_eq dest: le_neq_implies_less)
qed (simp add: new_LocHeapNode_def)

lemma balanced_depth: "balanced t \<Longrightarrow> size (contents t) < 2 ^ k \<Longrightarrow> depth t \<le> k"
proof (induction t arbitrary: k)
  case (Node n l r d)
  then obtain j where j: "k = Suc j" by (cases k) auto
  have "size (contents l) < 2 ^ j" "size (contents r) < 2 ^ j" using Node.prems j by auto
  with Node j show ?case by auto
qed simp

lemma fold_push:
  "sized t \<Longrightarrow> balanced t \<Longrightarrow> sized (fold (heap_push ranks) xs t) \<and> balanced (fold (heap_push ranks) xs t) \<and>
     contents (fold (heap_push ranks) xs t) = mset xs + contents t"
proof (induction xs arbitrary: t)
  case (Cons x xs)
  have "sized (heap_push ranks x t)" "balanced (heap_push ranks x t)" "contents (heap_push ranks x t) = add_mset x (contents t)"
    using Cons.prems sized_push balanced_push
    by (auto simp: heap_push_def contents_push new_LocHeapNode_def)
  with Cons.IH show ?case by simp
qed simp

section \<open>The heap as a priority queue\<close>

context rankable
begin

lemma heap_laws:
  assumes "checkTree ranks t" "\<forall>y \<in># contents t. ok y" "ok x"
  shows "checkTree ranks (heap_push ranks x t) \<and> contents (heap_push ranks x t) = add_mset x (contents t) \<and>
    checkTree ranks (snd (heap_pop ranks t)) \<and> fst (heap_pop ranks t) = heap_peek t \<and>
    (\<forall>top. heap_peek t = Some top \<longrightarrow> contents t = add_mset top (contents (snd (heap_pop ranks t))) \<and>
       (\<forall>y \<in># contents t. \<not> outRanks ranks y top)) \<and>
    checkTree ranks (snd (heap_remove ranks x t)) \<and> contents (snd (heap_remove ranks x t)) = contents t - {#x#} \<and>
    fst (heap_remove ranks x t) = (if x \<in># contents t then Some x else None)"
proof -
  have inv: "heap_inv t" using assms(1,2) by (simp add: heap_inv_def all_ok_def)
  show ?thesis
    using heap.push_inv[OF inv assms(3)] heap.push_elems[OF inv assms(3)] heap.pop_inv[OF inv] heap.pop_peek[OF inv]
      heap.pop_elems[OF inv] heap.peek_top[OF inv] heap.remove_inv[OF inv] heap.remove_elems[OF inv] heap.remove_result[OF inv]
    by (auto simp: heap_inv_def)
qed

lemma heap_sort:
  assumes "\<forall>x \<in> set xs. ok x"
  shows "\<exists>ys t'. pops (heap_pop ranks) (length xs) (fold (heap_push ranks) xs Null) = (ys, t') \<and>
    mset ys = mset xs \<and> sorted_wrt (\<lambda>x y. \<not> outRanks ranks y x) ys"
proof -
  have inv: "heap_inv (fold (heap_push ranks) xs Null)"
    by (rule fold_invariant[where Q = ok]) (use assms heap.push_inv in \<open>auto simp: heap_inv_iff\<close>)
  have "contents (fold (heap_push ranks) xs Null) = mset xs"
    using fold_push[of Null ranks xs] by simp
  with heap.pops_sorted[OF inv, of "length xs"] show ?thesis
    by (cases "pops (heap_pop ranks) (length xs) (fold (heap_push ranks) xs Null)") simp
qed

end

section \<open>The properties\<close>

text \<open>
  C25. For objects whose ranks order them (asymmetrically, with equal ranks transitive) every
  operation keeps the tree consistent as \<open>checkTree\<close> defines it: \<open>push\<close> adds the object,
  \<open>peek\<close> shows and \<open>pop\<close> takes one that nothing in the heap outranks, and \<open>remove\<close>
  takes out exactly the given object, or nothing when it is not in the heap. It goes by the identity of
  the object, as the comment in \<open>LocHeap.cpp\<close> says, and not by its rank, as that in \<open>LocHeap.h\<close> does: an
  object that only ranks the same is left in the heap, and the result is null.
\<close>

theorem heap_operations:
  assumes "rankable ranks ok" "checkTree ranks t" "\<forall>y \<in># contents t. ok y" "ok x"
  shows "checkTree ranks (heap_push ranks x t) \<and> contents (heap_push ranks x t) = add_mset x (contents t) \<and>
    checkTree ranks (snd (heap_pop ranks t)) \<and> fst (heap_pop ranks t) = heap_peek t \<and>
    (\<forall>top. heap_peek t = Some top \<longrightarrow> contents t = add_mset top (contents (snd (heap_pop ranks t))) \<and>
       (\<forall>y \<in># contents t. \<not> outRanks ranks y top)) \<and>
    checkTree ranks (snd (heap_remove ranks x t)) \<and> contents (snd (heap_remove ranks x t)) = contents t - {#x#} \<and>
    fst (heap_remove ranks x t) = (if x \<in># contents t then Some x else None)"
  using rankable.heap_laws[OF assms] .

definition earlier :: "int \<Rightarrow> int \<Rightarrow> int" where
  "earlier x y = y - x"

lemma earlier_rankable: "rankable earlier (\<lambda>_. True)"
  by unfold_locales (auto simp: earlier_def)

text \<open>
  Objects with an identity and a time, two of them with the same time: either can be removed, and a
  third object with this time, which is not in the heap, cannot.
\<close>

definition sooner :: "nat \<times> int \<Rightarrow> nat \<times> int \<Rightarrow> int" where
  "sooner x y = snd y - snd x"

lemma sooner_rankable: "rankable sooner (\<lambda>_. True)"
  by unfold_locales (auto simp: sooner_def)

theorem heap_operations_witness:
  "let t = fold (heap_push sooner) [(0, 5), (1, 2), (2, 9), (3, 5)] Null
   in checkTree sooner (heap_push sooner (4, 1) t) \<and> heap_peek t = Some (1, 2) \<and> (\<forall>y \<in># contents t. \<not> outRanks sooner y (1, 2)) \<and>
     fst (heap_remove sooner (3, 5) t) = Some (3, 5) \<and>
     contents (snd (heap_remove sooner (3, 5) t)) = {#(0, 5), (1, 2), (2, 9)#} \<and>
     fst (heap_remove sooner (4, 5) t) = None \<and> contents (snd (heap_remove sooner (4, 5) t)) = contents t"
proof -
  let ?t = "fold (heap_push sooner) [(0, 5), (1, 2), (2, 9), (3, 5)] Null"
  have t: "checkTree sooner ?t" "heap_peek ?t = Some (1, 2)" by code_simp+
  have c: "contents ?t = {#(0, 5), (1, 2), (2, 9), (3, 5)#}"
    using fold_push[of Null sooner "[(0, 5), (1, 2), (2, 9), (3, 5)]"] by (simp del: fold_simps)
  from heap_operations[OF sooner_rankable t(1), of "(4, 1)"] heap_operations[OF sooner_rankable t(1), of "(3, 5)"]
    heap_operations[OF sooner_rankable t(1), of "(4, 5)"] t(2)
  show ?thesis unfolding Let_def c by simp
qed

text \<open>
  Pushing any list of rankable objects into an empty heap and popping until it is empty
  gives a permutation of the list in which no object is outranked by a later one.
\<close>

theorem heap_sorts:
  assumes "rankable ranks ok" "\<forall>x \<in> set xs. ok x"
  shows "\<exists>ys t'. pops (heap_pop ranks) (length xs) (fold (heap_push ranks) xs Null) = (ys, t') \<and>
    mset ys = mset xs \<and> sorted_wrt (\<lambda>x y. \<not> outRanks ranks y x) ys"
  using rankable.heap_sort[OF assms] .

theorem heap_sorts_witness:
  "\<exists>ys t'. pops (heap_pop earlier) 4 (fold (heap_push earlier) [5, 2, 9, 2] Null) = (ys, t') \<and>
    mset ys = {#5, 2, 9, 2#} \<and> sorted_wrt (\<lambda>x y. \<not> outRanks earlier y x) ys"
  using heap_sorts[OF earlier_rankable, of "[5, 2, 9, 2]"] by (simp add: numeral_eq_Suc del: fold_simps)

text \<open>
  \<open>push\<close> balances: a heap built by pushing fewer than \<open>2\<^sup>k\<close> objects is at most
  \<open>k\<close> levels deep, so the recursion of the operations on it is at most \<open>k\<close> deep.
\<close>

theorem heap_push_depth:
  assumes "length xs < 2 ^ k"
  shows "depth (fold (heap_push ranks) xs Null) \<le> k"
  using fold_push[of Null ranks xs] assms by (intro balanced_depth) auto

theorem heap_push_depth_witness: "depth (fold (heap_push earlier) [7, 6, 5, 4, 3, 2, 1] Null) \<le> 3"
  by (rule heap_push_depth) simp

end
