(* ===== verification/LocTimer.thy ===== *)
theory LocTimer
  imports LocHeap Machine
begin

text \<open>
  The timer service, \<open>gps/utils/LocTimer.cpp\<close>: clients start and stop timers under their lock,
  a message thread keeps the running timers in a heap per container (timers and alarms) and the
  kernel timer of a container set to the soonest of them, and a polling thread turns an expired
  kernel timer into an expiry message.

  Timer objects (\<open>LocTimerDelegate\<close>) live in a store and are named by their address; the heap
  holds the address and the expiry time, which never changes. Following an address whose object
  has been deleted is undefined (\<open>None\<close>). The kernel's part is the expiry time a timer
  descriptor is set to, whether it is polled, and the events the polling thread has received and
  not yet handled.
\<close>

section \<open>Timers and their rank\<close>

record timespec =
  tv_sec :: int
  tv_nsec :: int

type_synonym timer_ref = "nat \<times> timespec"

text \<open>The conversion of a 64-bit difference to a C \<open>int\<close>.\<close>

definition to_int32 :: "int \<Rightarrow> int" where
  "to_int32 x = (x + 2 ^ 31) mod 2 ^ 32 - 2 ^ 31"

definition timer_ranks :: "timer_ref \<Rightarrow> timer_ref \<Rightarrow> int" where
  "timer_ranks x timer =
     (let rank = to_int32 (tv_sec (snd timer) - tv_sec (snd x))
      in if rank = 0 then to_int32 (tv_nsec (snd timer) - tv_nsec (snd x)) else rank)"

record LocTimerContainer =
  mTree :: "timer_ref LocHeapNode"
  mArmed :: "timespec option"
  mPolled :: bool

definition new_LocTimerContainer :: LocTimerContainer where
  "new_LocTimerContainer = \<lparr>mTree = Null, mArmed = None, mPolled = False\<rparr>"

record LocTimerDelegate =
  mClient :: "nat option"
  mFutureTime :: timespec
  mContainer :: "bool option"

datatype timer_msg = MsgTimerPush bool nat | MsgTimerRemove bool nat | MsgTimerExpire bool

text \<open>
  The containers by \<open>wakeOnExpire\<close>, the message queue, the timer objects and the \<open>mTimer\<close>
  field of every client.
\<close>

record timer_sys =
  ts_now :: timespec
  ts_containers :: "bool \<Rightarrow> LocTimerContainer option"
  ts_queue :: "timer_msg list"
  ts_timers :: "nat \<Rightarrow> LocTimerDelegate option"
  ts_clients :: "nat \<Rightarrow> nat option"
  ts_next :: nat
  ts_woken :: "bool list"

definition timer_start :: timer_sys where
  "timer_start = \<lparr>ts_now = \<lparr>tv_sec = 0, tv_nsec = 0\<rparr>, ts_containers = (\<lambda>_. None), ts_queue = [],
     ts_timers = (\<lambda>_. None), ts_clients = (\<lambda>_. None), ts_next = 0, ts_woken = []\<rparr>"

definition send_timer_msg :: "timer_msg \<Rightarrow> timer_sys \<Rightarrow> timer_sys" where
  "send_timer_msg msg s = s\<lparr>ts_queue := ts_queue s @ [msg]\<rparr>"

section \<open>The container\<close>

definition getSoonestTimer :: "LocTimerContainer \<Rightarrow> timer_ref option" where
  "getSoonestTimer c = heap_peek (mTree c)"

definition addPoll :: "LocTimerContainer \<Rightarrow> LocTimerContainer" where
  "addPoll c = c\<lparr>mPolled := True\<rparr>"

definition removePoll :: "LocTimerContainer \<Rightarrow> LocTimerContainer" where
  "removePoll c = c\<lparr>mPolled := False\<rparr>"

text \<open>\<open>timerfd_settime\<close> with an absolute time; a zero time disarms.\<close>

definition timerfd_settime :: "timespec option \<Rightarrow> LocTimerContainer \<Rightarrow> LocTimerContainer" where
  "timerfd_settime t c = c\<lparr>mArmed := t\<rparr>"

definition updateSoonestTime :: "timer_ref option \<Rightarrow> LocTimerContainer \<Rightarrow> LocTimerContainer" where
  "updateSoonestTime priorTop c =
     (let curTop = getSoonestTimer c
      in if curTop \<noteq> priorTop then
           (case curTop of
              None \<Rightarrow> timerfd_settime None (removePoll c)
            | Some cur \<Rightarrow>
                if (case priorTop of None \<Rightarrow> True | Some p \<Rightarrow> outRanks timer_ranks cur p)
                then timerfd_settime (Some (snd cur)) (addPoll c)
                else c)
         else c)"

definition container_push :: "timer_ref \<Rightarrow> LocTimerContainer \<Rightarrow> LocTimerContainer" where
  "container_push timer c =
     (let priorTop = getSoonestTimer c
      in updateSoonestTime priorTop (c\<lparr>mTree := heap_push timer_ranks timer (mTree c)\<rparr>))"

definition container_remove :: "timer_ref \<Rightarrow> LocTimerContainer \<Rightarrow> LocTimerContainer" where
  "container_remove timer c =
     (let priorTop = getSoonestTimer c;
          (removed, tree) = heap_remove timer_ranks timer (mTree c);
          c = c\<lparr>mTree := tree\<rparr>
      in if priorTop = removed then updateSoonestTime None c else c)"

definition popIfOutRanks :: "timer_ref \<Rightarrow> timer_ref LocHeapNode \<Rightarrow> timer_ref option \<times> timer_ref LocHeapNode" where
  "popIfOutRanks timer tree = (case heap_peek tree of
       Some cur \<Rightarrow> if \<not> outRanks timer_ranks timer cur then heap_pop timer_ranks tree else (None, tree)
     | None \<Rightarrow> (None, tree))"

section \<open>Clients\<close>

text \<open>The end of a client's timer: the object loses its client and its removal is posted.\<close>

definition destroyLocked :: "nat \<Rightarrow> timer_sys \<Rightarrow> timer_sys option" where
  "destroyLocked i s = do {
     d \<leftarrow> ts_timers s i;
     let s = s\<lparr>ts_timers := (ts_timers s)(i \<mapsto> d\<lparr>mClient := None, mContainer := None\<rparr>)\<rparr>;
     case mContainer d of
       Some w \<Rightarrow> Some (send_timer_msg (MsgTimerRemove w i) s)
     | None \<Rightarrow> Some s
   }"

definition stop :: "nat \<Rightarrow> timer_sys \<Rightarrow> (bool \<times> timer_sys) option" where
  "stop c s = (case ts_clients s c of
       None \<Rightarrow> Some (False, s)
     | Some i \<Rightarrow> do {
         s \<leftarrow> destroyLocked i (s\<lparr>ts_clients := (ts_clients s)(c := None)\<rparr>);
         Some (True, s)
       })"

text \<open>The expiry time: the clock plus the timeout, with the carry of the nanoseconds.\<close>

definition future_time :: "timespec \<Rightarrow> u32 \<Rightarrow> timespec" where
  "future_time t ms =
     (let sec = tv_sec t + uint (ms div 1000);
          nsec = tv_nsec t + uint ((ms mod 1000) * 1000000)
      in if nsec \<ge> 1000000000
         then \<lparr>tv_sec = sec + nsec div 1000000000, tv_nsec = nsec mod 1000000000\<rparr>
         else \<lparr>tv_sec = sec, tv_nsec = nsec\<rparr>)"

text \<open>\<open>avail\<close> says whether the kernel can create a timer descriptor for the container.\<close>

definition get_container :: "(bool \<Rightarrow> bool) \<Rightarrow> bool \<Rightarrow> timer_sys \<Rightarrow> bool \<times> timer_sys" where
  "get_container avail wake s = (case ts_containers s wake of
       Some c \<Rightarrow> (True, s)
     | None \<Rightarrow>
         if avail wake
         then (True, s\<lparr>ts_containers := (ts_containers s)(wake \<mapsto> new_LocTimerContainer)\<rparr>)
         else (False, s))"

definition start_timer :: "(bool \<Rightarrow> bool) \<Rightarrow> nat \<Rightarrow> u32 \<Rightarrow> bool \<Rightarrow> timer_sys \<Rightarrow> bool \<times> timer_sys" where
  "start_timer avail c ms wake s = (case ts_clients s c of
       Some i \<Rightarrow> (False, s)
     | None \<Rightarrow>
         let (found, s) = get_container avail wake s; i = ts_next s
         in if found
            then (True, send_timer_msg (MsgTimerPush wake i)
                   (s\<lparr>ts_timers := (ts_timers s)(i \<mapsto>
                        \<lparr>mClient = Some c, mFutureTime = future_time (ts_now s) ms, mContainer = Some wake\<rparr>),
                      ts_clients := (ts_clients s)(c \<mapsto> i), ts_next := i + 1\<rparr>))
            else (False, s))"

section \<open>The message thread\<close>

text \<open>The expiry of one timer: its client is stopped and, if it was running, called back.\<close>

definition delegate_expire :: "nat \<Rightarrow> timer_sys \<Rightarrow> (timer_sys \<times> nat list) option" where
  "delegate_expire i s = do {
     d \<leftarrow> ts_timers s i;
     case mClient d of
       None \<Rightarrow> Some (s, [])
     | Some c \<Rightarrow> do {
         (stopped, s) \<leftarrow> stop c s;
         Some (s, if stopped then [c] else [])
       }
   }"

lemma heap_pop_size:
  "heap_pop ranks t = (Some x, t') \<Longrightarrow> size (contents t') < size (contents t)"
  using size_pop[of t ranks] by (auto simp: heap_pop_def split: if_splits)

text \<open>The loop of the expiry message: the timer just popped, the heap that is left.\<close>

function expire_loop :: "timespec \<Rightarrow> timer_ref option \<times> timer_ref LocHeapNode \<Rightarrow> timer_sys \<Rightarrow>
    (timer_ref LocHeapNode \<times> timer_sys \<times> nat list) option" where
  "expire_loop t (None, tree) s = Some (tree, s, [])"
| "expire_loop t (Some timer, tree) s = do {
     (s, out) \<leftarrow> delegate_expire (fst timer) s;
     (tree, s, more) \<leftarrow> expire_loop t (popIfOutRanks (0, t) tree) s;
     Some (tree, s, out @ more)
   }"
  by pat_completeness auto
termination
proof (relation "measure (\<lambda>(t, (x, tree), s). case x of None \<Rightarrow> 0 | Some y \<Rightarrow> Suc (size (contents tree)))", goal_cases)
  case 1
  show ?case by simp
next
  case (2 t timer tree s x xa y)
  show ?case
    using heap_pop_size[of timer_ranks tree]
    by (cases "popIfOutRanks (0, t) tree") (auto simp: popIfOutRanks_def split: option.splits if_splits)
qed

definition on_container :: "bool \<Rightarrow> (LocTimerContainer \<Rightarrow> LocTimerContainer) \<Rightarrow> timer_sys \<Rightarrow> timer_sys option" where
  "on_container w f s = do {
     c \<leftarrow> ts_containers s w;
     Some (s\<lparr>ts_containers := (ts_containers s)(w \<mapsto> f c)\<rparr>)
   }"

fun proc_timer :: "timer_msg \<Rightarrow> timer_sys \<Rightarrow> (timer_sys \<times> nat list) option" where
  "proc_timer (MsgTimerPush w i) s = do {
     d \<leftarrow> ts_timers s i;
     s \<leftarrow> on_container w (container_push (i, mFutureTime d)) s;
     Some (s, [])
   }"
| "proc_timer (MsgTimerRemove w i) s = do {
     d \<leftarrow> ts_timers s i;
     s \<leftarrow> on_container w (container_remove (i, mFutureTime d)) s;
     Some (s\<lparr>ts_timers := (ts_timers s)(i := None)\<rparr>, [])
   }"
| "proc_timer (MsgTimerExpire w) s = do {
     c \<leftarrow> ts_containers s w;
     (tree, s, out) \<leftarrow> expire_loop (ts_now s) (heap_pop timer_ranks (mTree c)) s;
     s \<leftarrow> on_container w (\<lambda>c. updateSoonestTime None (c\<lparr>mTree := tree\<rparr>)) s;
     Some (s, out)
   }"

definition timer_deliver :: "timer_sys \<Rightarrow> (timer_sys \<times> nat list) option" where
  "timer_deliver s = (case ts_queue s of
       [] \<Rightarrow> Some (s, [])
     | msg # queue \<Rightarrow> proc_timer msg (s\<lparr>ts_queue := queue\<rparr>))"

section \<open>The polling thread\<close>

definition time_le :: "timespec \<Rightarrow> timespec \<Rightarrow> bool" where
  "time_le t u \<longleftrightarrow> tv_sec t < tv_sec u \<or> tv_sec t = tv_sec u \<and> tv_nsec t \<le> tv_nsec u"

definition fd_ready :: "timer_sys \<Rightarrow> bool \<Rightarrow> bool" where
  "fd_ready s w = (case ts_containers s w of
       None \<Rightarrow> False
     | Some c \<Rightarrow> mPolled c \<and> (case mArmed c of None \<Rightarrow> False | Some t \<Rightarrow> time_le t (ts_now s)))"

definition container_expire :: "bool \<Rightarrow> timer_sys \<Rightarrow> timer_sys option" where
  "container_expire w s = do {
     s \<leftarrow> on_container w (\<lambda>c. removePoll (timerfd_settime None c)) s;
     Some (send_timer_msg (MsgTimerExpire w) s)
   }"

text \<open>
  What can happen next: a client call, a message, the return of \<open>epoll_wait\<close> with the ready
  descriptors, the handling of one of its events, the passing of time.
\<close>

datatype timer_op = StartTimer nat u32 bool | StopTimer nat | DeliverTimer | PollReturn | PollHandle | Tick timespec

fun timer_step :: "(bool \<Rightarrow> bool) \<Rightarrow> timer_op \<Rightarrow> timer_sys \<Rightarrow> (timer_sys \<times> nat list) option" where
  "timer_step avail (StartTimer c ms wake) s = Some (snd (start_timer avail c ms wake s), [])"
| "timer_step avail (StopTimer c) s = map_option (\<lambda>(r, s). (s, [])) (stop c s)"
| "timer_step avail DeliverTimer s = timer_deliver s"
| "timer_step avail PollReturn s =
     Some (if ts_woken s = [] then s\<lparr>ts_woken := filter (fd_ready s) [False, True]\<rparr> else s, [])"
| "timer_step avail PollHandle s = (case ts_woken s of
       [] \<Rightarrow> Some (s, [])
     | w # ws \<Rightarrow> map_option (\<lambda>s. (s, [])) (container_expire w (s\<lparr>ts_woken := ws\<rparr>)))"
| "timer_step avail (Tick t) s = Some (if time_le (ts_now s) t then s\<lparr>ts_now := t\<rparr> else s, [])"


section \<open>Timers are rankable\<close>

text \<open>Times of the first \<open>2\<^sup>3\<^sup>1\<close> seconds after boot, with normalised nanoseconds.\<close>

definition time_ok :: "timespec \<Rightarrow> bool" where
  "time_ok t \<longleftrightarrow> 0 \<le> tv_sec t \<and> tv_sec t < 2 ^ 31 \<and> 0 \<le> tv_nsec t \<and> tv_nsec t < 1000000000"

definition timer_ok :: "timer_ref \<Rightarrow> bool" where
  "timer_ok r \<longleftrightarrow> time_ok (snd r)"

lemma to_int32_id: "- (2 ^ 31) \<le> x \<Longrightarrow> x < 2 ^ 31 \<Longrightarrow> to_int32 x = x"
  by (simp add: to_int32_def mod_pos_pos_trivial)

lemma timer_ranks_eq:
  "timer_ok x \<Longrightarrow> timer_ok y \<Longrightarrow> timer_ranks x y =
     (if tv_sec (snd y) = tv_sec (snd x) then tv_nsec (snd y) - tv_nsec (snd x) else tv_sec (snd y) - tv_sec (snd x))"
  by (auto simp: timer_ranks_def timer_ok_def time_ok_def to_int32_id)

lemma timer_outRanks: "timer_ok x \<Longrightarrow> timer_ok y \<Longrightarrow> outRanks timer_ranks x y \<longleftrightarrow> \<not> time_le (snd y) (snd x)"
  by (auto simp: outRanks_def timer_ranks_eq time_le_def)

interpretation timer: rankable timer_ranks timer_ok
  by unfold_locales (auto simp: timer_ranks_eq split: if_splits)

section \<open>The container and its kernel timer\<close>

lemma peek_push:
  "heap_peek (heap_push ranks x t) = (case heap_peek t of
     None \<Rightarrow> Some x | Some p \<Rightarrow> Some (if outRanks ranks x p then x else p))"
  by (cases t) (auto simp: heap_peek_def heap_push_def new_LocHeapNode_def Let_def)

lemma node_remove_keeps_top:
  "t \<noteq> Null \<Longrightarrow> x \<noteq> mData t \<Longrightarrow>
   snd (node_remove ranks x t) \<noteq> Null \<and> mData (snd (node_remove ranks x t)) = mData t"
  by (cases t) (auto split: prod.splits option.splits)

definition armed_ok :: "LocTimerContainer \<Rightarrow> bool" where
  "armed_ok c \<longleftrightarrow> mTree c \<noteq> Null \<longrightarrow> mPolled c \<and> mArmed c = map_option snd (heap_peek (mTree c))"

lemma update_None_armed: "armed_ok (updateSoonestTime None c)"
  by (auto simp: armed_ok_def updateSoonestTime_def getSoonestTimer_def addPoll_def timerfd_settime_def heap_peek_def)

lemma mTree_update [simp]: "mTree (updateSoonestTime p c) = mTree c"
  by (auto simp: updateSoonestTime_def timerfd_settime_def addPoll_def removePoll_def Let_def split: option.splits)

lemma mTree_push [simp]: "mTree (container_push x c) = heap_push timer_ranks x (mTree c)"
  by (simp add: container_push_def Let_def)

lemma mTree_remove [simp]: "mTree (container_remove x c) = snd (heap_remove timer_ranks x (mTree c))"
  by (auto simp: container_remove_def Let_def split: prod.splits)

lemma armed_ok_iff:
  "armed_ok c \<longleftrightarrow> (\<forall>p. heap_peek (mTree c) = Some p \<longrightarrow> mPolled c \<and> mArmed c = Some (snd p))"
  by (cases "mData (mTree c)") (auto simp: armed_ok_def heap_peek_def)

lemma push_armed: "armed_ok c \<Longrightarrow> armed_ok (container_push x c)"
  by (auto simp: armed_ok_iff container_push_def updateSoonestTime_def getSoonestTimer_def peek_push Let_def
      timerfd_settime_def addPoll_def split: option.splits if_splits)

lemma remove_armed: "armed_ok c \<Longrightarrow> armed_ok (container_remove x c)"
proof -
  assume armed: "armed_ok c"
  obtain y t where rem: "heap_remove timer_ranks x (mTree c) = (y, t)" by fastforce
  show "armed_ok (container_remove x c)"
  proof (cases "getSoonestTimer c = y")
    case True
    then show ?thesis by (simp add: container_remove_def rem update_None_armed)
  next
    case False
    show ?thesis
    proof (cases "mTree c = Null \<or> x = mData (mTree c)")
      case True
      then show ?thesis
        using False rem node_pop_data[of "mTree c" timer_ranks]
        by (cases "mTree c") (auto simp: getSoonestTimer_def heap_peek_def heap_remove_def simp del: node_pop.simps)
    next
      case top: False
      then show ?thesis
        using armed False rem node_remove_keeps_top[of "mTree c" x timer_ranks]
        by (auto simp: container_remove_def armed_ok_def heap_peek_def heap_remove_def)
    qed
  qed
qed


section \<open>The life of a timer object\<close>

definition about :: "nat \<Rightarrow> timer_msg \<Rightarrow> bool" where
  "about i m = (case m of MsgTimerPush w j \<Rightarrow> j = i | MsgTimerRemove w j \<Rightarrow> j = i | MsgTimerExpire w \<Rightarrow> False)"

definition refs :: "nat \<Rightarrow> timer_ref multiset \<Rightarrow> timer_ref multiset" where
  "refs i M = filter_mset (\<lambda>r. fst r = i) M"

text \<open>
  A timer object is announced by its push message, then sits in the heap of its container, and is
  deleted with its removal message, which is posted exactly when it loses its client. \<open>M\<close> gives
  the contents of the heaps, \<open>ms\<close> the queued messages about the object.
\<close>

definition life :: "(bool \<Rightarrow> bool) \<Rightarrow> (bool \<Rightarrow> timer_ref multiset) \<Rightarrow> timer_msg list \<Rightarrow> nat \<Rightarrow> LocTimerDelegate option \<Rightarrow> bool" where
  "life ex M ms i d = (case d of
       None \<Rightarrow> ms = [] \<and> (\<forall>w. refs i (M w) = {#})
     | Some d \<Rightarrow> timer_ok (i, mFutureTime d) \<and> (\<exists>w. ex w \<and> (\<forall>w'. w' \<noteq> w \<longrightarrow> refs i (M w') = {#}) \<and>
         (mClient d \<noteq> None \<and> mContainer d = Some w \<and>
            (ms = [MsgTimerPush w i] \<and> refs i (M w) = {#} \<or> ms = [] \<and> refs i (M w) = {#(i, mFutureTime d)#}) \<or>
          mClient d = None \<and> mContainer d = None \<and>
            (ms = [MsgTimerPush w i, MsgTimerRemove w i] \<and> refs i (M w) = {#} \<or>
             ms = [MsgTimerRemove w i] \<and> refs i (M w) \<subseteq># {#(i, mFutureTime d)#}))))"

definition heaps :: "timer_sys \<Rightarrow> bool \<Rightarrow> timer_ref multiset" where
  "heaps s w = (case ts_containers s w of None \<Rightarrow> {#} | Some c \<Rightarrow> contents (mTree c))"

definition has_container :: "timer_sys \<Rightarrow> bool \<Rightarrow> bool" where
  "has_container s w \<longleftrightarrow> ts_containers s w \<noteq> None"

text \<open>The books of the timer objects, with given contents of the heaps.\<close>

definition books :: "(bool \<Rightarrow> timer_ref multiset) \<Rightarrow> timer_sys \<Rightarrow> bool" where
  "books M s \<longleftrightarrow>
     (\<forall>i. life (has_container s) M (filter (about i) (ts_queue s)) i (ts_timers s i)) \<and>
     (\<forall>i \<ge> ts_next s. ts_timers s i = None) \<and>
     (\<forall>c i. ts_clients s c = Some i \<longleftrightarrow> (\<exists>d. ts_timers s i = Some d \<and> mClient d = Some c))"

definition conts_ok :: "timer_sys \<Rightarrow> bool" where
  "conts_ok s \<longleftrightarrow> (\<forall>w c. ts_containers s w = Some c \<longrightarrow> timer.heap_inv (mTree c) \<and>
     (MsgTimerExpire w \<notin> set (ts_queue s) \<longrightarrow> armed_ok c)) \<and>
     (\<forall>w. MsgTimerExpire w \<in> set (ts_queue s) \<or> w \<in> set (ts_woken s) \<longrightarrow> ts_containers s w \<noteq> None)"

definition clock_ok :: "timespec \<Rightarrow> bool" where
  "clock_ok t \<longleftrightarrow> 0 \<le> tv_sec t \<and> tv_sec t < 2 ^ 30 \<and> 0 \<le> tv_nsec t \<and> tv_nsec t < 1000000000"

definition timers_ok :: "timer_sys \<Rightarrow> bool" where
  "timers_ok s \<longleftrightarrow> books (heaps s) s \<and> conts_ok s \<and> clock_ok (ts_now s)"

text \<open>The expiry time a timer is started with is exactly its timeout after the clock.\<close>

definition nanos :: "timespec \<Rightarrow> int" where
  "nanos t = tv_sec t * 1000000000 + tv_nsec t"

lemma ms_parts: "uint ((ms mod 1000) * 1000000 :: u32) = (uint ms mod 1000) * 1000000"
  "uint (ms div 1000 :: u32) = uint ms div 1000"
proof -
  have "uint (ms mod 1000 :: u32) = uint ms mod 1000" by (simp add: uint_mod)
  moreover have "(uint ms mod 1000) * 1000000 < 2 ^ 32" "0 \<le> uint ms mod 1000"
    by (auto intro: order.strict_trans1[of _ "999 * 1000000"] simp: mult_right_mono)
  ultimately show "uint ((ms mod 1000) * 1000000 :: u32) = (uint ms mod 1000) * 1000000"
    by (simp add: uint_word_arith_bintrs take_bit_eq_mod mod_pos_pos_trivial)
  show "uint (ms div 1000 :: u32) = uint ms div 1000" by (simp add: uint_div)
qed

lemma future_time_nanos:
  assumes "0 \<le> tv_nsec t" "tv_nsec t < 1000000000"
  shows "nanos (future_time t ms) = nanos t + uint ms * 1000000 \<and>
    0 \<le> tv_nsec (future_time t ms) \<and> tv_nsec (future_time t ms) < 1000000000"
proof -
  have "uint ms mod 1000 * 1000000 + uint ms div 1000 * 1000000000 = uint ms * 1000000"
    using div_mult_mod_eq[of "uint ms" 1000] by linarith
  then show ?thesis
    using assms by (auto simp: future_time_def nanos_def ms_parts Let_def algebra_simps)
qed

lemma future_time_ok: "clock_ok t \<Longrightarrow> time_ok (future_time t ms)"
proof -
  assume t: "clock_ok t"
  have "uint ms < 2 ^ 32" using uint_lt2p[of ms] by simp
  then have "uint ms div 1000 \<le> 4294967" "0 \<le> uint ms div 1000"
    by (auto simp: pos_imp_zdiv_nonneg_iff)
  moreover have "(uint ms mod 1000) * 1000000 \<le> 999000000" "0 \<le> uint ms mod 1000" by auto
  ultimately show "time_ok (future_time t ms)"
    using t by (auto simp: future_time_def time_ok_def clock_ok_def ms_parts Let_def)
qed


section \<open>Every step keeps the books\<close>

lemma refs_simps [simp]:
  "refs i (add_mset r M) = (if fst r = i then add_mset r (refs i M) else refs i M)"
  "refs i {#} = {#}"
  "refs i (M + N) = refs i M + refs i N"
  by (simp_all add: refs_def)

lemma refs_diff: "refs i (M - N) = refs i M - refs i N"
  by (simp add: refs_def)

lemma about_simps [simp]:
  "about i (MsgTimerPush w j) \<longleftrightarrow> j = i"
  "about i (MsgTimerRemove w j) \<longleftrightarrow> j = i"
  "\<not> about i (MsgTimerExpire w)"
  by (simp_all add: about_def)

lemma has_container_other [simp]:
  "has_container (s\<lparr>ts_queue := q\<rparr>) = has_container s" "has_container (s\<lparr>ts_timers := t\<rparr>) = has_container s"
  "has_container (s\<lparr>ts_clients := cl\<rparr>) = has_container s" "has_container (s\<lparr>ts_next := n\<rparr>) = has_container s"
  "has_container (s\<lparr>ts_now := u\<rparr>) = has_container s" "has_container (s\<lparr>ts_woken := ws\<rparr>) = has_container s"
  by (simp_all add: has_container_def fun_eq_iff)

lemma booksD:
  assumes "books M s"
  shows "life (has_container s) M (filter (about i) (ts_queue s)) i (ts_timers s i)"
    and "ts_next s \<le> i \<Longrightarrow> ts_timers s i = None"
    and "ts_clients s c = Some i \<longleftrightarrow> (\<exists>d. ts_timers s i = Some d \<and> mClient d = Some c)"
  using assms by (auto simp: books_def)

lemma life_mono: "life ex M ms i d \<Longrightarrow> (\<And>w. ex w \<Longrightarrow> ex' w) \<Longrightarrow> life ex' M ms i d"
  by (auto simp: life_def split: option.splits)

lemma life_cong: "(\<And>w. refs i (M w) = refs i (M' w)) \<Longrightarrow> life ex M ms i d = life ex M' ms i d"
  by (cases d) (simp_all add: life_def)

text \<open>Stopping a client: the object loses it and its removal is queued.\<close>

lemma running_life:
  assumes "life ex M ms i (Some d)" "mClient d = Some c"
  obtains w where "mContainer d = Some w" "ex w"
    "life ex M (ms @ [MsgTimerRemove w i]) i (Some (d\<lparr>mClient := None, mContainer := None\<rparr>))"
  using assms by (auto simp: life_def timer_ok_def)

text \<open>What stays when clients are stopped.\<close>

definition same_frame :: "timer_sys \<Rightarrow> timer_sys \<Rightarrow> bool" where
  "same_frame s s' \<longleftrightarrow> ts_containers s' = ts_containers s \<and> ts_now s' = ts_now s \<and> ts_woken s' = ts_woken s \<and>
     (\<forall>w. MsgTimerExpire w \<in> set (ts_queue s') \<longleftrightarrow> MsgTimerExpire w \<in> set (ts_queue s))"

lemma same_frame_refl [simp]: "same_frame s s"
  by (simp add: same_frame_def)

lemma same_frame_trans: "same_frame s t \<Longrightarrow> same_frame t u \<Longrightarrow> same_frame s u"
  by (simp add: same_frame_def)

lemma stop_books:
  assumes "books M s"
  shows "\<exists>s'. stop c s = Some (ts_clients s c \<noteq> None, s') \<and> books M s' \<and> same_frame s s' \<and>
    ts_clients s' = (ts_clients s)(c := None) \<and>
    (\<forall>i d. ts_timers s i = Some d \<longrightarrow> (\<exists>d'. ts_timers s' i = Some d' \<and> (mClient d = Some c \<longrightarrow> mClient d' = None)))"
proof (cases "ts_clients s c")
  case None
  then show ?thesis using assms booksD(3)[OF assms, of c] by (auto simp: stop_def)
next
  case (Some i)
  then obtain d where d: "ts_timers s i = Some d" "mClient d = Some c"
    using booksD(3)[OF assms] by blast
  have l: "life (has_container s) M (filter (about i) (ts_queue s)) i (Some d)"
    using booksD(1)[OF assms, of i] d by simp
  from l d(2) obtain w where w: "mContainer d = Some w" "life (has_container s) M
      (filter (about i) (ts_queue s) @ [MsgTimerRemove w i]) i (Some (d\<lparr>mClient := None, mContainer := None\<rparr>))"
    by (rule running_life) blast
  let ?s = "s\<lparr>ts_clients := (ts_clients s)(c := None),
    ts_timers := (ts_timers s)(i \<mapsto> d\<lparr>mClient := None, mContainer := None\<rparr>), ts_queue := ts_queue s @ [MsgTimerRemove w i]\<rparr>"
  have st: "stop c s = Some (True, ?s)"
    using Some d w by (simp add: stop_def destroyLocked_def send_timer_msg_def)
  have "books M ?s"
    unfolding books_def
  proof (intro conjI allI impI)
    fix j
    show "life (has_container ?s) M (filter (about j) (ts_queue ?s)) j (ts_timers ?s j)"
      using w(2) booksD(1)[OF assms, of j] by simp
    show "ts_next ?s \<le> j \<Longrightarrow> ts_timers ?s j = None"
      using booksD(2)[OF assms, of j] d by auto
    show "ts_clients ?s c' = Some j \<longleftrightarrow> (\<exists>d. ts_timers ?s j = Some d \<and> mClient d = Some c')" for c'
      using booksD(3)[OF assms, of c' j] booksD(3)[OF assms, of c' i] d Some by auto
  qed
  have "j = i" if "ts_timers s j = Some e" "mClient e = Some c" for j e
    using booksD(3)[OF assms, of c j] Some that by auto
  then have "\<forall>j e. ts_timers s j = Some e \<longrightarrow> (\<exists>e'. ts_timers ?s j = Some e' \<and> (mClient e = Some c \<longrightarrow> mClient e' = None))"
    by auto
  moreover have "same_frame s ?s" by (simp add: same_frame_def)
  ultimately show ?thesis
    using st Some \<open>books M ?s\<close> by (intro exI[of _ ?s] conjI) simp_all
qed


lemma sub_single: "N \<subseteq># {#x#} \<Longrightarrow> y \<in># N \<Longrightarrow> N = {#x#} \<and> y = x"
  by (auto dest!: multi_member_split)

lemma stopped_in_heap:
  assumes "life ex M ms i (Some d)" "mClient d = None" "r \<in># refs i (M w)"
  shows "timer_ok (i, mFutureTime d) \<and> ex w \<and> mContainer d = None \<and> ms = [MsgTimerRemove w i] \<and>
    refs i (M w) = {#r#} \<and> r = (i, mFutureTime d) \<and> (\<forall>w'. w' \<noteq> w \<longrightarrow> refs i (M w') = {#})"
proof -
  obtain v where v: "ex v" "\<And>w'. w' \<noteq> v \<Longrightarrow> refs i (M w') = {#}"
    "ms = [MsgTimerPush v i, MsgTimerRemove v i] \<and> refs i (M v) = {#} \<or>
     ms = [MsgTimerRemove v i] \<and> refs i (M v) \<subseteq># {#(i, mFutureTime d)#}"
    using assms(1,2) unfolding life_def option.case by blast
  have w: "w = v" using v(2)[of w] assms(3) by (cases "w = v") auto
  then have "ms = [MsgTimerRemove v i]" "refs i (M v) = {#r#}" "r = (i, mFutureTime d)"
    using v(3) assms(3) sub_single[of "refs i (M v)" "(i, mFutureTime d)" r] by auto
  moreover have "timer_ok (i, mFutureTime d)" "mContainer d = None"
    using assms(1,2) by (auto simp: life_def)
  ultimately show ?thesis using v(1,2) w by blast
qed

text \<open>A stopped object may leave the heap.\<close>

lemma drop_books:
  assumes "books M s" "ts_timers s i = Some d" "mClient d = None" "(i, t) \<in># M w"
  shows "books (M(w := M w - {#(i, t)#})) s"
  unfolding books_def
proof (intro conjI allI impI)
  fix j
  show "life (has_container s) (M(w := M w - {#(i, t)#})) (filter (about j) (ts_queue s)) j (ts_timers s j)"
  proof (cases "j = i")
    case False
    then have "refs j ((M(w := M w - {#(i, t)#})) w') = refs j (M w')" for w' by (simp add: refs_diff)
    then show ?thesis using booksD(1)[OF assms(1), of j] by (subst life_cong)
  next
    case True
    have in_refs: "(i, t) \<in># refs i (M w)" using assms(4) by (simp add: refs_def)
    have "life (has_container s) M (filter (about i) (ts_queue s)) i (Some d)"
      using booksD(1)[OF assms(1), of i] assms(2) by simp
    note facts = stopped_in_heap[OF this assms(3) in_refs]
    then have "refs i ((M(w := M w - {#(i, t)#})) w') = {#}" for w' by (simp add: refs_diff)
    with True assms(2,3) facts show ?thesis unfolding life_def by (auto intro!: exI[of _ w])
  qed
qed (use assms(1) in \<open>auto simp: books_def\<close>)


lemma in_heap_live:
  assumes "books M s" "(i, t) \<in># M w"
  shows "\<exists>d. ts_timers s i = Some d"
proof (rule ccontr)
  assume "\<nexists>d. ts_timers s i = Some d"
  then have "refs i (M w) = {#}" using booksD(1)[OF assms(1), of i] by (auto simp: life_def)
  moreover have "(i, t) \<in># refs i (M w)" using assms(2) by (simp add: refs_def)
  ultimately show False by simp
qed

lemma delegate_expire_books:
  assumes "books M s" "(i, t) \<in># M w"
  shows "\<exists>s' out. delegate_expire i s = Some (s', out) \<and> books (M(w := M w - {#(i, t)#})) s' \<and> same_frame s s' \<and>
    (\<forall>c. ts_clients s' c = (if c \<in> set out then None else ts_clients s c)) \<and> distinct out \<and>
    (\<forall>c \<in> set out. ts_clients s c = Some i)"
proof -
  obtain d where d: "ts_timers s i = Some d" using in_heap_live[OF assms] by blast
  show ?thesis
  proof (cases "mClient d")
    case None
    with d drop_books[OF assms(1) d _ assms(2)] show ?thesis by (auto simp: delegate_expire_def)
  next
    case (Some c)
    then have c: "ts_clients s c = Some i" using booksD(3)[OF assms(1)] d by blast
    obtain s' where st: "stop c s = Some (ts_clients s c \<noteq> None, s')" "books M s'" "same_frame s s'"
      "ts_clients s' = (ts_clients s)(c := None)" and timers: "\<forall>i d. ts_timers s i = Some d \<longrightarrow>
        (\<exists>d'. ts_timers s' i = Some d' \<and> (mClient d = Some c \<longrightarrow> mClient d' = None))"
      using stop_books[OF assms(1)] by blast
    obtain d' where "ts_timers s' i = Some d'" "mClient d' = None"
      using timers d Some by blast
    with st c have s': "stop c s = Some (True, s')" "books M s'" "same_frame s s'"
      "ts_clients s' = (ts_clients s)(c := None)" "ts_timers s' i = Some d'" "mClient d' = None"
      by auto
    with d Some c drop_books[OF s'(2,5,6) assms(2)] show ?thesis by (auto simp: delegate_expire_def)
  qed
qed

lemma expire_loop_books:
  assumes "books (M(w := (case x of None \<Rightarrow> contents tree | Some r \<Rightarrow> add_mset r (contents tree)))) s" "timer.heap_inv tree"
  shows "\<exists>tree' s' out. expire_loop t (x, tree) s = Some (tree', s', out) \<and> books (M(w := contents tree')) s' \<and>
    timer.heap_inv tree' \<and> same_frame s s' \<and>
    (\<forall>c. ts_clients s' c = (if c \<in> set out then None else ts_clients s c)) \<and> distinct out \<and>
    (\<forall>c \<in> set out. ts_clients s c \<noteq> None)"
  using assms
proof (induction "case x of None \<Rightarrow> 0 | Some r \<Rightarrow> Suc (size (contents tree))" arbitrary: x tree s rule: less_induct)
  case less
  show ?case
  proof (cases x)
    case None
    with less.prems show ?thesis by auto
  next
    case (Some r)
    let ?M = "M(w := add_mset r (contents tree))"
    obtain s1 o1 where s1: "delegate_expire (fst r) s = Some (s1, o1)" "books (M(w := contents tree)) s1" "same_frame s s1"
      "\<forall>c. ts_clients s1 c = (if c \<in> set o1 then None else ts_clients s c)" "distinct o1" "\<forall>c \<in> set o1. ts_clients s c = Some (fst r)"
      using delegate_expire_books[of ?M s "fst r" "snd r" w] less.prems(1) Some by auto
    obtain y tree1 where pop: "popIfOutRanks (0, t) tree = (y, tree1)" by fastforce
    have one: "contents tree = (case y of None \<Rightarrow> contents tree1 | Some r' \<Rightarrow> add_mset r' (contents tree1)) \<and> timer.heap_inv tree1"
      using pop less.prems(2) timer.heap.pop_inv[OF less.prems(2)] timer.heap.pop_elems[OF less.prems(2)]
        timer.heap.pop_peek[OF less.prems(2)]
      by (auto simp: popIfOutRanks_def split: option.splits if_splits)
    have less': "(case y of None \<Rightarrow> 0 | Some r \<Rightarrow> Suc (size (contents tree1))) < (case x of None \<Rightarrow> 0 | Some r \<Rightarrow> Suc (size (contents tree)))"
      using one Some by (auto split: option.splits)
    obtain tree' s' o2 where s': "expire_loop t (y, tree1) s1 = Some (tree', s', o2)" "books (M(w := contents tree')) s'"
      "timer.heap_inv tree'" "same_frame s1 s'" "\<forall>c. ts_clients s' c = (if c \<in> set o2 then None else ts_clients s1 c)"
      "distinct o2" "\<forall>c \<in> set o2. ts_clients s1 c \<noteq> None"
      using less.hyps[OF less'] s1(2) one by (metis (no_types, lifting))
    have "distinct (o1 @ o2)" using s1(4,5) s'(6,7) by auto
    moreover have "expire_loop t (x, tree) s = Some (tree', s', o1 @ o2)" using Some s1(1) pop s'(1) by simp
    ultimately show ?thesis
      using s1(4,6) s'(2,3,5,7) same_frame_trans[OF s1(3) s'(4)] by (auto split: if_splits)
  qed
qed


text \<open>The messages about one object change only its own entry of the books.\<close>

lemma books_change:
  assumes "books M s"
    and "life (has_container s') M' (filter (about i) (ts_queue s')) i (ts_timers s' i)"
    and "\<And>j. j \<noteq> i \<Longrightarrow> filter (about j) (ts_queue s') = filter (about j) (ts_queue s) \<and> ts_timers s' j = ts_timers s j"
    and "\<And>j w. j \<noteq> i \<Longrightarrow> refs j (M' w) = refs j (M w)"
    and "\<And>w. has_container s w \<Longrightarrow> has_container s' w"
    and "\<And>j. ts_next s' \<le> j \<Longrightarrow> ts_timers s' j = None"
    and "\<And>c j. ts_clients s' c = Some j \<longleftrightarrow> (\<exists>d. ts_timers s' j = Some d \<and> mClient d = Some c)"
  shows "books M' s'"
  unfolding books_def
proof (intro conjI allI impI)
  fix j
  show "life (has_container s') M' (filter (about j) (ts_queue s')) j (ts_timers s' j)"
  proof (cases "j = i")
    case True
    with assms(2) show ?thesis by simp
  next
    case False
    have "life (has_container s') M (filter (about j) (ts_queue s)) j (ts_timers s j)"
      using booksD(1)[OF assms(1), of j] by (rule life_mono) (rule assms(5))
    then show ?thesis using assms(3,4)[OF False] life_cong[of j M' M] by simp
  qed
qed (use assms(6,7) in auto)

lemma lifeE:
  assumes "life ex M ms i (Some d)"
  obtains v where "timer_ok (i, mFutureTime d)" "ex v" "\<And>w'. w' \<noteq> v \<Longrightarrow> refs i (M w') = {#}"
    "mClient d \<noteq> None \<and> mContainer d = Some v \<and>
       (ms = [MsgTimerPush v i] \<and> refs i (M v) = {#} \<or> ms = [] \<and> refs i (M v) = {#(i, mFutureTime d)#}) \<or>
     mClient d = None \<and> mContainer d = None \<and>
       (ms = [MsgTimerPush v i, MsgTimerRemove v i] \<and> refs i (M v) = {#} \<or>
        ms = [MsgTimerRemove v i] \<and> refs i (M v) \<subseteq># {#(i, mFutureTime d)#})"
  using assms unfolding life_def option.case by blast

lemma push_life:
  assumes "life ex M (MsgTimerPush w i # ms) i d"
  obtains d' where "d = Some d'" "ex w" "timer_ok (i, mFutureTime d')" "refs i (M w) = {#}"
    "life ex (M(w := add_mset (i, mFutureTime d') (M w))) ms i d"
proof (cases d)
  case None
  with assms show ?thesis by (simp add: life_def)
next
  case (Some e)
  from assms[unfolded Some] obtain v where ok: "timer_ok (i, mFutureTime e)" and
    v: "ex v" "\<And>w'. w' \<noteq> v \<Longrightarrow> refs i (M w') = {#}" and
    alt: "mClient e \<noteq> None \<and> mContainer e = Some v \<and> v = w \<and> ms = [] \<and> refs i (M v) = {#} \<or>
      mClient e = None \<and> mContainer e = None \<and> v = w \<and> ms = [MsgTimerRemove v i] \<and> refs i (M v) = {#}"
    by (rule lifeE) auto
  have l: "life ex (M(w := add_mset (i, mFutureTime e) (M w))) ms i d"
    using alt v ok Some unfolding life_def by (auto intro!: exI[of _ w])
  show ?thesis by (rule that[of e]) (use Some ok v(1) alt l in auto)
qed

lemma remove_life:
  assumes "life ex M (MsgTimerRemove w i # ms) i d"
  obtains d' where "d = Some d'" "mClient d' = None" "ex w" "timer_ok (i, mFutureTime d')" "ms = []"
    "life ex (M(w := M w - {#(i, mFutureTime d')#})) [] i None"
proof (cases d)
  case None
  with assms show ?thesis by (simp add: life_def)
next
  case (Some e)
  from assms[unfolded Some] obtain v where ok: "timer_ok (i, mFutureTime e)" and
    v: "ex v" "\<And>w'. w' \<noteq> v \<Longrightarrow> refs i (M w') = {#}" and
    alt: "mClient e = None \<and> v = w \<and> ms = [] \<and> refs i (M v) \<subseteq># {#(i, mFutureTime e)#}"
    by (rule lifeE) auto
  have "refs i ((M(w := M w - {#(i, mFutureTime e)#})) w') = {#}" for w'
    using alt v(2)[of w'] by (cases "w' = w") (auto simp: refs_diff Diff_eq_empty_iff_mset)
  then have l: "life ex (M(w := M w - {#(i, mFutureTime e)#})) [] i None" by (simp add: life_def)
  show ?thesis by (rule that[of e]) (use Some ok v(1) alt l in simp_all)
qed


lemma heaps_update:
  "ts_containers s w = Some c \<Longrightarrow> heaps (s\<lparr>ts_containers := (ts_containers s)(w \<mapsto> c')\<rparr>) = (heaps s)(w := contents (mTree c'))"
  by (auto simp: heaps_def)

lemma heaps_other [simp]:
  "heaps (s\<lparr>ts_queue := q\<rparr>) = heaps s" "heaps (s\<lparr>ts_timers := t\<rparr>) = heaps s"
  "heaps (s\<lparr>ts_clients := cl\<rparr>) = heaps s" "heaps (s\<lparr>ts_next := n\<rparr>) = heaps s"
  "heaps (s\<lparr>ts_now := u\<rparr>) = heaps s" "heaps (s\<lparr>ts_woken := ws\<rparr>) = heaps s"
  by (simp_all add: heaps_def fun_eq_iff)

lemma push_message_ok:
  assumes "timers_ok s" "ts_queue s = MsgTimerPush w i # q"
  shows "\<exists>s'. proc_timer (MsgTimerPush w i) (s\<lparr>ts_queue := q\<rparr>) = Some (s', []) \<and> timers_ok s'"
proof -
  have b: "books (heaps s) s" and cs: "conts_ok s" and ck: "clock_ok (ts_now s)"
    using assms(1) by (simp_all add: timers_ok_def)
  have "life (has_container s) (heaps s) (MsgTimerPush w i # filter (about i) q) i (ts_timers s i)"
    using booksD(1)[OF b, of i] assms(2) by simp
  then obtain d where d: "ts_timers s i = Some d" "has_container s w" "timer_ok (i, mFutureTime d)"
    "refs i (heaps s w) = {#}" and
    l: "life (has_container s) ((heaps s)(w := add_mset (i, mFutureTime d) (heaps s w))) (filter (about i) q) i (ts_timers s i)"
    by (rule push_life)
  then obtain c where c: "ts_containers s w = Some c" by (auto simp: has_container_def)
  let ?s = "s\<lparr>ts_queue := q, ts_containers := (ts_containers s)(w \<mapsto> container_push (i, mFutureTime d) c)\<rparr>"
  have inv: "timer.heap_inv (mTree c)" using cs c by (simp add: conts_ok_def)
  have keep: "has_container ?s v" if "has_container s v" for v
    using that by (cases "v = w") (auto simp: has_container_def)
  have heaps: "heaps ?s = (heaps s)(w := add_mset (i, mFutureTime d) (heaps s w))"
    using heaps_update[of "s\<lparr>ts_queue := q\<rparr>" w c] c timer.heap.push_elems[OF inv d(3)] by (simp add: heaps_def)
  have "books (heaps ?s) ?s"
    unfolding heaps
  proof (rule books_change[OF b, where i = i])
    show "life (has_container ?s) ((heaps s)(w := add_mset (i, mFutureTime d) (heaps s w)))
        (filter (about i) (ts_queue ?s)) i (ts_timers ?s i)"
      using life_mono[OF l keep] by simp
  qed (use assms(2) booksD(2,3)[OF b] keep in auto)
  moreover have "conts_ok ?s"
    using cs c timer.heap.push_inv[OF inv d(3)] push_armed[of c] assms(2) by (auto simp: conts_ok_def)
  ultimately show ?thesis
    using d c ck by (auto simp: on_container_def timers_ok_def)
qed

lemma remove_message_ok:
  assumes "timers_ok s" "ts_queue s = MsgTimerRemove w i # q"
  shows "\<exists>s'. proc_timer (MsgTimerRemove w i) (s\<lparr>ts_queue := q\<rparr>) = Some (s', []) \<and> timers_ok s'"
proof -
  have b: "books (heaps s) s" and cs: "conts_ok s" and ck: "clock_ok (ts_now s)"
    using assms(1) by (simp_all add: timers_ok_def)
  have "life (has_container s) (heaps s) (MsgTimerRemove w i # filter (about i) q) i (ts_timers s i)"
    using booksD(1)[OF b, of i] assms(2) by simp
  then obtain d where d: "ts_timers s i = Some d" "mClient d = None" "has_container s w"
    "timer_ok (i, mFutureTime d)" "filter (about i) q = []" and
    l: "life (has_container s) ((heaps s)(w := heaps s w - {#(i, mFutureTime d)#})) [] i None"
    by (rule remove_life)
  then obtain c where c: "ts_containers s w = Some c" by (auto simp: has_container_def)
  let ?s = "s\<lparr>ts_queue := q, ts_containers := (ts_containers s)(w \<mapsto> container_remove (i, mFutureTime d) c),
    ts_timers := (ts_timers s)(i := None)\<rparr>"
  have inv: "timer.heap_inv (mTree c)" using cs c by (simp add: conts_ok_def)
  have keep: "has_container ?s v" if "has_container s v" for v
    using that by (cases "v = w") (auto simp: has_container_def)
  have heaps: "heaps ?s = (heaps s)(w := heaps s w - {#(i, mFutureTime d)#})"
    using heaps_update[of "s\<lparr>ts_queue := q\<rparr>" w c] c timer.heap.remove_elems[OF inv] by (simp add: heaps_def)
  have "books (heaps ?s) ?s"
    unfolding heaps
  proof (rule books_change[OF b, where i = i])
    show "life (has_container ?s) ((heaps s)(w := heaps s w - {#(i, mFutureTime d)#}))
        (filter (about i) (ts_queue ?s)) i (ts_timers ?s i)"
      using life_mono[OF l keep] d(5) by simp
    show "ts_clients ?s e = Some j \<longleftrightarrow> (\<exists>d. ts_timers ?s j = Some d \<and> mClient d = Some e)" for e j
      using booksD(3)[OF b, of e j] d by auto
  qed (use assms(2) booksD(2)[OF b] keep in \<open>auto simp: refs_diff\<close>)
  moreover have "conts_ok ?s"
    using cs c timer.heap.remove_inv[OF inv] remove_armed[of c] assms(2) by (auto simp: conts_ok_def)
  ultimately show ?thesis
    using d c ck by (auto simp: on_container_def timers_ok_def)
qed


lemma expire_message_ok:
  assumes "timers_ok s" "ts_queue s = MsgTimerExpire w # q"
  shows "\<exists>s' out. proc_timer (MsgTimerExpire w) (s\<lparr>ts_queue := q\<rparr>) = Some (s', out) \<and> timers_ok s' \<and>
    distinct out \<and> (\<forall>c \<in> set out. ts_clients s c \<noteq> None) \<and>
    (\<forall>c. ts_clients s' c = (if c \<in> set out then None else ts_clients s c))"
proof -
  let ?q = "s\<lparr>ts_queue := q\<rparr>"
  have b: "books (heaps s) s" and cs: "conts_ok s" and ck: "clock_ok (ts_now s)"
    using assms(1) by (simp_all add: timers_ok_def)
  have bq: "books (heaps s) ?q" using b assms(2) by (simp add: books_def)
  obtain c where c: "ts_containers s w = Some c" using cs assms(2) by (auto simp: conts_ok_def)
  have inv: "timer.heap_inv (mTree c)" using cs c by (simp add: conts_ok_def)
  obtain x tree where pop: "heap_pop timer_ranks (mTree c) = (x, tree)" by fastforce
  have tree: "contents (mTree c) = (case x of None \<Rightarrow> contents tree | Some r \<Rightarrow> add_mset r (contents tree))"
    "timer.heap_inv tree"
    using pop timer.heap.pop_inv[OF inv] timer.heap.pop_elems[OF inv] timer.heap.pop_peek[OF inv]
      node_pop_data[of "mTree c" timer_ranks]
    by (auto simp: heap_pop_def split: option.splits if_splits)
  have "(heaps s)(w := case x of None \<Rightarrow> contents tree | Some r \<Rightarrow> add_mset r (contents tree)) = heaps s"
    using c tree(1) by (auto simp: heaps_def)
  with bq have "books ((heaps s)(w := case x of None \<Rightarrow> contents tree | Some r \<Rightarrow> add_mset r (contents tree))) ?q"
    by simp
  from expire_loop_books[OF this tree(2), of "ts_now s"] obtain tree' s' out where
    loop: "expire_loop (ts_now s) (x, tree) ?q = Some (tree', s', out)" "books ((heaps s)(w := contents tree')) s'"
      "timer.heap_inv tree'" "same_frame ?q s'" "distinct out" "\<forall>c \<in> set out. ts_clients s c \<noteq> None"
      "\<forall>c. ts_clients s' c = (if c \<in> set out then None else ts_clients s c)"
    by auto
  let ?c = "updateSoonestTime None (c\<lparr>mTree := tree'\<rparr>)"
  let ?s = "s'\<lparr>ts_containers := (ts_containers s')(w \<mapsto> ?c)\<rparr>"
  have fr: "ts_containers s' = ts_containers s" "ts_now s' = ts_now s" "ts_woken s' = ts_woken s"
    "\<And>w. MsgTimerExpire w \<in> set (ts_queue s') \<longleftrightarrow> MsgTimerExpire w \<in> set q"
    using loop(4) by (simp_all add: same_frame_def)
  have keep: "has_container ?s v = has_container s' v" for v
    using c fr(1) by (cases "v = w") (auto simp: has_container_def)
  have "heaps ?s = (heaps s)(w := contents tree')"
    using c fr(1) by (auto simp: heaps_def)
  then have "books (heaps ?s) ?s"
    using loop(2) keep[THEN ext[of "has_container ?s" "has_container s'"]] by (simp add: books_def)
  moreover have "conts_ok ?s"
    using cs c fr loop(3) update_None_armed[of "c\<lparr>mTree := tree'\<rparr>"] assms(2) by (auto simp: conts_ok_def)
  moreover have "proc_timer (MsgTimerExpire w) ?q = Some (?s, out)"
    using c pop loop(1) fr(1) by (simp add: on_container_def)
  ultimately show ?thesis
    using ck fr(2) loop(5-7) by (auto simp: timers_ok_def)
qed

lemma start_ok:
  assumes "timers_ok s"
  shows "timers_ok (snd (start_timer avail c ms wake s))"
proof (cases "ts_clients s c")
  case (Some i)
  with assms show ?thesis by (simp add: start_timer_def)
next
  case None
  obtain found s1 where get: "get_container avail wake s = (found, s1)" by fastforce
  have b: "books (heaps s) s" and cs: "conts_ok s" and ck: "clock_ok (ts_now s)"
    using assms by (simp_all add: timers_ok_def)
  have s1: "heaps s1 = heaps s" "ts_queue s1 = ts_queue s" "ts_timers s1 = ts_timers s" "ts_clients s1 = ts_clients s"
    "ts_next s1 = ts_next s" "ts_now s1 = ts_now s" "\<And>w. has_container s w \<Longrightarrow> has_container s1 w"
    "found \<Longrightarrow> has_container s1 wake"
    using get by (auto simp: get_container_def heaps_def has_container_def new_LocTimerContainer_def fun_eq_iff
        split: option.splits if_splits)
  have cs1: "conts_ok s1"
    using cs get by (auto simp: get_container_def conts_ok_def new_LocTimerContainer_def armed_ok_def
        timer.heap_inv_iff split: option.splits if_splits)
  have b1: "books (heaps s) s1"
    using b s1 life_mono[of "has_container s" _ _ _ _ "has_container s1"] unfolding books_def by auto
  show ?thesis
  proof (cases found)
    case False
    with None get b1 cs1 ck s1 show ?thesis by (simp add: start_timer_def timers_ok_def)
  next
    case True
    let ?i = "ts_next s"
    let ?d = "\<lparr>mClient = Some c, mFutureTime = future_time (ts_now s) ms, mContainer = Some wake\<rparr>"
    let ?s = "s1\<lparr>ts_timers := (ts_timers s)(?i \<mapsto> ?d), ts_clients := (ts_clients s)(c \<mapsto> ?i), ts_next := ?i + 1,
      ts_queue := ts_queue s @ [MsgTimerPush wake ?i]\<rparr>"
    have fresh: "ts_timers s ?i = None" using booksD(2)[OF b] by simp
    then have l: "filter (about ?i) (ts_queue s) = []" "\<And>w. refs ?i (heaps s w) = {#}"
      using booksD(1)[OF b, of ?i] by (simp_all add: life_def)
    have "books (heaps s) ?s"
    proof (rule books_change[OF b1, where i = ?i])
      show "life (has_container ?s) (heaps s) (filter (about ?i) (ts_queue ?s)) ?i (ts_timers ?s ?i)"
        using l s1(8)[OF True] future_time_ok[OF ck, of ms] by (auto simp: life_def timer_ok_def intro!: exI[of _ wake])
      show "ts_clients ?s e = Some j \<longleftrightarrow> (\<exists>d. ts_timers ?s j = Some d \<and> mClient d = Some e)" for e j
        using booksD(3)[OF b, of e j] None fresh by auto
    qed (use booksD(2)[OF b] s1 in auto)
    moreover have "conts_ok ?s" using cs1 s1(2) by (auto simp: conts_ok_def)
    moreover have "snd (start_timer avail c ms wake s) = ?s"
      using None get True s1 by (simp add: start_timer_def send_timer_msg_def Let_def)
    ultimately show ?thesis using ck s1(1,6) by (simp add: timers_ok_def)
  qed
qed


lemma deliver_ok:
  assumes "timers_ok s"
  shows "\<exists>s' out. timer_deliver s = Some (s', out) \<and> timers_ok s' \<and> distinct out \<and>
    (\<forall>c \<in> set out. ts_clients s c \<noteq> None \<and> ts_clients s' c = None)"
proof (cases "ts_queue s")
  case Nil
  with assms show ?thesis by (simp add: timer_deliver_def)
next
  case (Cons msg q)
  then show ?thesis
    using push_message_ok[OF assms] remove_message_ok[OF assms] expire_message_ok[OF assms]
    by (cases msg) (fastforce simp add: timer_deliver_def simp del: proc_timer.simps)+
qed

lemma poll_handle_ok:
  assumes "timers_ok s" "ts_woken s = w # ws"
  shows "\<exists>s'. container_expire w (s\<lparr>ts_woken := ws\<rparr>) = Some s' \<and> timers_ok s'"
proof -
  have b: "books (heaps s) s" and cs: "conts_ok s" and ck: "clock_ok (ts_now s)"
    using assms(1) by (simp_all add: timers_ok_def)
  obtain c where c: "ts_containers s w = Some c" using cs assms(2) by (auto simp: conts_ok_def)
  let ?c = "removePoll (timerfd_settime None c)"
  let ?s = "s\<lparr>ts_woken := ws, ts_containers := (ts_containers s)(w \<mapsto> ?c), ts_queue := ts_queue s @ [MsgTimerExpire w]\<rparr>"
  have tree: "mTree ?c = mTree c" by (simp add: removePoll_def timerfd_settime_def)
  have keep: "has_container ?s v = has_container s v" for v
    using c by (cases "v = w") (auto simp: has_container_def)
  have heaps: "heaps ?s = heaps s" using c tree by (auto simp: heaps_def)
  have "books (heaps ?s) ?s"
    unfolding heaps using b keep[THEN ext[of "has_container ?s" "has_container s"]] by (simp add: books_def)
  moreover have "conts_ok ?s" using cs c tree assms(2) by (auto simp: conts_ok_def)
  ultimately show ?thesis
    using ck c by (auto simp: container_expire_def on_container_def send_timer_msg_def timers_ok_def)
qed

text \<open>The clock moves within the range in which ranks are exact.\<close>

fun timer_admits :: "timer_op \<Rightarrow> timer_sys \<Rightarrow> bool" where
  "timer_admits (Tick t) s = clock_ok t"
| "timer_admits _ s = True"

lemma timer_step_ok:
  assumes "timers_ok s" "timer_admits op s"
  shows "\<exists>s' out. timer_step avail op s = Some (s', out) \<and> timers_ok s' \<and> distinct out \<and>
    (\<forall>c \<in> set out. ts_clients s c \<noteq> None \<and> ts_clients s' c = None)"
proof (cases op)
  case (StartTimer c ms wake)
  then show ?thesis using start_ok[OF assms(1)] by simp
next
  case (StopTimer c)
  have b: "books (heaps s) s" and rest: "conts_ok s" "clock_ok (ts_now s)"
    using assms(1) by (simp_all add: timers_ok_def)
  obtain s' where s': "stop c s = Some (ts_clients s c \<noteq> None, s')" "books (heaps s) s'" "same_frame s s'"
    using stop_books[OF b] by blast
  moreover have "heaps s' = heaps s" using s'(3) by (simp add: heaps_def same_frame_def fun_eq_iff)
  ultimately show ?thesis
    using StopTimer rest by (auto simp: timers_ok_def conts_ok_def same_frame_def)
next
  case DeliverTimer
  then show ?thesis using deliver_ok[OF assms(1)] by simp
next
  case PollReturn
  have "fd_ready s w \<Longrightarrow> ts_containers s w \<noteq> None" for w
    by (auto simp: fd_ready_def split: option.splits)
  then show ?thesis
    using PollReturn assms(1) by (auto simp: timers_ok_def conts_ok_def books_def) (metis (full_types))
next
  case PollHandle
  then show ?thesis
    using assms(1) poll_handle_ok[OF assms(1)] by (cases "ts_woken s") fastforce+
next
  case (Tick t)
  then show ?thesis using assms by (auto simp: timers_ok_def conts_ok_def books_def)
qed

definition timer_run :: "(bool \<Rightarrow> bool) \<Rightarrow> timer_op \<Rightarrow> timer_sys \<Rightarrow> (timer_sys \<times> nat list) option" where
  "timer_run avail op s = (if timer_admits op s then timer_step avail op s else None)"

lemma timer_start_ok: "timers_ok timer_start"
  by (simp add: timers_ok_def timer_start_def books_def life_def conts_ok_def clock_ok_def heaps_def)

interpretation timers: machine "timer_run avail" timer_start timers_ok timer_admits
proof unfold_locales
  show "timers_ok timer_start" by (rule timer_start_ok)
  show "timers_ok s'" if "timers_ok s" "timer_run avail op s = Some (s', out)" for s op s' out
    using timer_step_ok[OF that(1), of op avail] that(2) by (auto simp: timer_run_def split: if_splits)
  show "timer_run avail op s \<noteq> None" if "timers_ok s" "timer_admits op s" for s op
    using timer_step_ok[OF that, of avail] that(2) by (auto simp: timer_run_def)
qed


section \<open>The properties\<close>

text \<open>
  A first timer, due soon, is stopped by its client after \<open>epoll_wait\<close> has returned for it and
  before its event is handled; a second timer is due in a minute.
\<close>

definition race_ops :: "timer_op list" where
  "race_ops = [StartTimer 1 10 False, StartTimer 2 60000 False, DeliverTimer, DeliverTimer,
     Tick \<lparr>tv_sec = 0, tv_nsec = 20000000\<rparr>, PollReturn, StopTimer 1, PollHandle, DeliverTimer]"

definition race_state :: timer_sys where
  "race_state = (case run (timer_run (\<lambda>_. True)) race_ops timer_start of Some (s, out) \<Rightarrow> s | None \<Rightarrow> timer_start)"

lemma race_reachable: "reachable (timer_run (\<lambda>_. True)) timer_start race_state"
proof -
  have "run (timer_run (\<lambda>_. True)) race_ops timer_start \<noteq> None" by code_simp
  then obtain s out where "run (timer_run (\<lambda>_. True)) race_ops timer_start = Some (s, out)" by auto
  then show ?thesis using run_reachable by (auto simp: race_state_def)
qed

text \<open>
  C28. No timer is lost: in every reachable state a container that holds timers either has an expiry
  message under way or its kernel timer is polled and set to the time of a timer that is due no
  later than any other in the container.
\<close>

theorem timers_armed:
  assumes "reachable (timer_run avail) timer_start s"
    and "ts_containers s w = Some c" "mTree c \<noteq> Null" "MsgTimerExpire w \<notin> set (ts_queue s)"
  shows "\<exists>r \<in># contents (mTree c). mPolled c \<and> mArmed c = Some (snd r) \<and>
    (\<forall>r' \<in># contents (mTree c). time_le (snd r) (snd r'))"
proof -
  have inv: "timer.heap_inv (mTree c)" and arm: "armed_ok c"
    using timers.reachable_inv[OF assms(1)] assms(2,4) by (auto simp: timers_ok_def conts_ok_def)
  obtain r where r: "heap_peek (mTree c) = Some r" using assms(3) by (auto simp: heap_peek_def)
  have "time_le (snd r) (snd r')" if "r' \<in># contents (mTree c)" for r'
    using timer.heap.peek_top[OF inv r that] timer_outRanks[of r' r] timer.heap.inv_ok[OF inv]
      timer.heap.peek_in[OF inv r] that by blast
  with arm r timer.heap.peek_in[OF inv r] show ?thesis by (auto simp: armed_ok_iff)
qed

definition two_timers :: timer_sys where
  "two_timers = (case run (timer_run (\<lambda>_. True)) (take 4 race_ops) timer_start of Some (s, out) \<Rightarrow> s | None \<Rightarrow> timer_start)"

theorem timers_armed_witness:
  "\<exists>c. ts_containers two_timers False = Some c \<and> (\<exists>r \<in># contents (mTree c). mPolled c \<and> mArmed c = Some (snd r))"
proof -
  have run: "run (timer_run (\<lambda>_. True)) (take 4 race_ops) timer_start \<noteq> None" by code_simp
  then have reach: "reachable (timer_run (\<lambda>_. True)) timer_start two_timers"
    using run_reachable by (auto simp: two_timers_def)
  have "map_option (\<lambda>c. mTree c \<noteq> Null) (ts_containers two_timers False) = Some True" by code_simp
  then obtain c where c: "ts_containers two_timers False = Some c" "mTree c \<noteq> Null" by auto
  have "MsgTimerExpire False \<notin> set (ts_queue two_timers)" by code_simp
  from timers_armed[OF reach c this] c show ?thesis by blast
qed

text \<open>
  C29. Under every interleaving of clients, message thread, polling thread and clock no deleted
  timer object is followed and no missing container is used; a step calls back only clients
  whose timer is running, each once, and leaves them without a running timer.
\<close>

theorem timers_safe:
  assumes "reachable (timer_run avail) timer_start s" "timer_admits op s"
  shows "\<exists>s' out. timer_run avail op s = Some (s', out) \<and> distinct out \<and>
    (\<forall>c \<in> set out. ts_clients s c \<noteq> None \<and> ts_clients s' c = None)"
  using timer_step_ok[OF timers.reachable_inv[OF assms(1)] assms(2), of avail] assms(2)
  by (auto simp: timer_run_def)

theorem timers_safe_witness:
  "\<exists>s' out. timer_run (\<lambda>_. True) DeliverTimer race_state = Some (s', out) \<and> distinct out \<and>
    (\<forall>c \<in> set out. ts_clients race_state c \<noteq> None \<and> ts_clients s' c = None)"
  by (rule timers_safe[OF race_reachable]) simp

text \<open>
  A timer expires exactly its timeout after the clock at its start, to the nanosecond and for
  every 32-bit number of milliseconds, and the time is normalised.
\<close>

theorem timer_expiry_time:
  assumes "0 \<le> tv_nsec (ts_now s)" "tv_nsec (ts_now s) < 1000000000" "ts_clients s c = None"
    and "start_timer avail c ms wake s = (True, s')"
  shows "\<exists>i d. ts_clients s' c = Some i \<and> ts_timers s' i = Some d \<and>
    nanos (mFutureTime d) = nanos (ts_now s) + uint ms * 1000000 \<and>
    0 \<le> tv_nsec (mFutureTime d) \<and> tv_nsec (mFutureTime d) < 1000000000"
  using assms future_time_nanos[OF assms(1,2), of ms]
  by (auto simp: start_timer_def get_container_def send_timer_msg_def Let_def split: option.splits if_splits prod.splits)

theorem timer_expiry_time_witness:
  "\<exists>i d. ts_clients (snd (start_timer (\<lambda>_. True) 1 4294967295 True timer_start)) 1 = Some i \<and>
    ts_timers (snd (start_timer (\<lambda>_. True) 1 4294967295 True timer_start)) i = Some d \<and>
    nanos (mFutureTime d) = 4294967295000000"
proof -
  let ?r = "start_timer (\<lambda>_. True) 1 4294967295 True timer_start"
  have "?r = (True, snd ?r)" by (simp add: start_timer_def timer_start_def get_container_def)
  from timer_expiry_time[OF _ _ _ this] show ?thesis
    by (auto simp: timer_start_def nanos_def)
qed

text \<open>
  An expiry message calls the client of the soonest timer without looking at the clock. So when
  the timer an expiry was for is stopped while the expiry is under way, the next timer fires,
  however far in the future it is due.
\<close>

theorem expiry_fires_unchecked:
  assumes "reachable (timer_run avail) timer_start s" "ts_queue s = MsgTimerExpire w # q"
    and "ts_containers s w = Some co" "heap_peek (mTree co) = Some (i, t)" "ts_clients s c = Some i"
  shows "\<exists>s' out. timer_run avail DeliverTimer s = Some (s', c # out)"
proof -
  have ok: "timers_ok s" using assms(1) by (rule timers.reachable_inv)
  then have b: "books (heaps s) (s\<lparr>ts_queue := q\<rparr>)" using assms(2) by (simp add: timers_ok_def books_def)
  obtain d where d: "ts_timers s i = Some d" "mClient d = Some c"
    using ok assms(5) by (auto simp: timers_ok_def books_def)
  obtain s1 where s1: "stop c (s\<lparr>ts_queue := q\<rparr>) = Some (True, s1)"
    using stop_books[OF b, of c] assms(5) by auto
  have ex: "delegate_expire i (s\<lparr>ts_queue := q\<rparr>) = Some (s1, [c])"
    using d s1 by (simp add: delegate_expire_def)
  have inv: "timer.heap_inv (mTree co)" using ok assms(3) by (auto simp: timers_ok_def conts_ok_def)
  obtain tree where pop: "heap_pop timer_ranks (mTree co) = (Some (i, t), tree)"
    using timer.heap.pop_peek[OF inv] assms(4) by (cases "heap_pop timer_ranks (mTree co)") auto
  obtain s' out where run: "timer_deliver s = Some (s', out)" using deliver_ok[OF ok] by blast
  then have "\<exists>more. out = c # more"
    using assms(2,3) pop ex by (auto simp: timer_deliver_def bind_eq_Some_conv)
  with run show ?thesis by (auto simp: timer_run_def)
qed

theorem expiry_fires_unchecked_witness:
  "\<exists>s' out t. timer_run (\<lambda>_. True) DeliverTimer race_state = Some (s', 2 # out) \<and>
    map_option mFutureTime (ts_timers race_state 1) = Some t \<and>
    tv_sec t = 60 \<and> ts_now race_state = \<lparr>tv_sec = 0, tv_nsec = 20000000\<rparr>"
proof -
  have q: "ts_queue race_state = MsgTimerExpire False # []" by code_simp
  have "map_option (heap_peek o mTree) (ts_containers race_state False) = Some (Some (1, \<lparr>tv_sec = 60, tv_nsec = 0\<rparr>))"
    by code_simp
  then obtain co where co: "ts_containers race_state False = Some co" "heap_peek (mTree co) = Some (1, \<lparr>tv_sec = 60, tv_nsec = 0\<rparr>)"
    by auto
  have c: "ts_clients race_state 2 = Some 1" by code_simp
  have "map_option mFutureTime (ts_timers race_state 1) = Some \<lparr>tv_sec = 60, tv_nsec = 0\<rparr>"
    "ts_now race_state = \<lparr>tv_sec = 0, tv_nsec = 20000000\<rparr>" by code_simp+
  with expiry_fires_unchecked[OF race_reachable q co c] show ?thesis by auto
qed


text \<open>
  Removing the last timer of a container leaves its kernel timer armed and polled: the branch
  that disarms is skipped because the heap's top and the prior top passed to it are both null.
\<close>

theorem last_timer_stays_armed:
  assumes "mTree c = new_LocHeapNode timer"
  shows "container_remove timer c = c\<lparr>mTree := Null\<rparr>"
  using assms
  by (simp add: container_remove_def getSoonestTimer_def heap_peek_def heap_remove_def new_LocHeapNode_def
      updateSoonestTime_def)

theorem last_timer_stays_armed_witness:
  "mArmed (container_remove (0, \<lparr>tv_sec = 5, tv_nsec = 0\<rparr>)
     (container_push (0, \<lparr>tv_sec = 5, tv_nsec = 0\<rparr>) new_LocTimerContainer)) = Some \<lparr>tv_sec = 5, tv_nsec = 0\<rparr>"
proof -
  let ?r = "(0, \<lparr>tv_sec = 5, tv_nsec = 0\<rparr>) :: timer_ref"
  let ?c = "container_push ?r new_LocTimerContainer"
  have "mTree ?c = new_LocHeapNode ?r" "mArmed ?c = Some \<lparr>tv_sec = 5, tv_nsec = 0\<rparr>" by code_simp+
  with last_timer_stays_armed[of ?c ?r] show ?thesis by simp
qed

end
