(* ===== verification/LinkedList.thy ===== *)
theory LinkedList
  imports Prelude
begin

text \<open>
  The doubly linked list of \<open>gps/utils/linked_list.c\<close>, with the pointers of the code: the elements
  live in a memory of their own, addressed by numbers, and \<open>None\<close> is the null pointer. Following a
  pointer to an element that is not allocated makes an operation undefined (\<open>None\<close>). The result of
  \<open>malloc\<close> is an argument; calls of a client's deallocation function are recorded in order.
\<close>

section \<open>State\<close>

datatype linked_list_err_type =
    eLINKED_LIST_SUCCESS | eLINKED_LIST_FAILURE_GENERAL | eLINKED_LIST_INVALID_PARAMETER
  | eLINKED_LIST_INVALID_HANDLE | eLINKED_LIST_UNAVAILABLE_RESOURCE | eLINKED_LIST_INSUFFICIENT_BUFFER
  | eLINKED_LIST_EMPTY

type_synonym addr = nat

text \<open>An element, with data of type \<open>'d\<close> and a deallocation function named by an \<open>'f\<close>.\<close>

record ('d, 'f) list_element =
  le_next :: "addr option"
  le_prev :: "addr option"
  le_data_ptr :: 'd
  le_dealloc_func :: "'f option"

record ('d, 'f) list_state =
  p_head :: "addr option"
  p_tail :: "addr option"
  elems :: "addr \<rightharpoonup> ('d, 'f) list_element"
  deallocs :: "('f \<times> 'd) list"

definition new_list :: "('d, 'f) list_state" where
  "new_list = \<lparr>p_head = None, p_tail = None, elems = Map.empty, deallocs = []\<rparr>"

section \<open>Operations\<close>

text \<open>
  \<open>list_data\<close> is the pointer to the list, \<open>None\<close> when it is null. \<open>linked_list_init\<close> gets a
  pointer to it and the outcome of \<open>calloc\<close>.
\<close>

definition linked_list_init ::
  "bool \<Rightarrow> bool \<Rightarrow> linked_list_err_type \<times> ('d, 'f) list_state option" where
  "linked_list_init nonnull calloc_ok =
     (if \<not> nonnull then (eLINKED_LIST_INVALID_PARAMETER, None)
      else if \<not> calloc_ok then (eLINKED_LIST_FAILURE_GENERAL, None)
      else (eLINKED_LIST_SUCCESS, Some new_list))"

definition linked_list_add ::
  "addr option \<Rightarrow> 'd option \<Rightarrow> 'f option \<Rightarrow> ('d, 'f) list_state option \<Rightarrow>
     (linked_list_err_type \<times> ('d, 'f) list_state option) option" where
  "linked_list_add malloc_result data_obj dealloc list_data =
     (case list_data of None \<Rightarrow> Some (eLINKED_LIST_INVALID_HANDLE, list_data)
      | Some l \<Rightarrow> (case data_obj of None \<Rightarrow> Some (eLINKED_LIST_INVALID_PARAMETER, list_data)
      | Some d \<Rightarrow> (case malloc_result of None \<Rightarrow> Some (eLINKED_LIST_FAILURE_GENERAL, list_data)
      | Some elem \<Rightarrow> (let tmp = p_head l;
            mem = (elems l)(elem \<mapsto> \<lparr>le_next = tmp, le_prev = None, le_data_ptr = d, le_dealloc_func = dealloc\<rparr>) in
          case tmp of
            Some t \<Rightarrow> do {
              te \<leftarrow> mem t;
              Some (eLINKED_LIST_SUCCESS, Some (l\<lparr>p_head := Some elem, elems := mem(t \<mapsto> te\<lparr>le_prev := Some elem\<rparr>)\<rparr>))
            }
          | None \<Rightarrow> Some (eLINKED_LIST_SUCCESS, Some (l\<lparr>p_head := Some elem, p_tail := Some elem, elems := mem\<rparr>))))))"

text \<open>The middle component is what is written to \<open>*data_obj\<close>, if anything is.\<close>

definition linked_list_remove ::
  "bool \<Rightarrow> ('d, 'f) list_state option \<Rightarrow>
     (linked_list_err_type \<times> 'd option \<times> ('d, 'f) list_state option) option" where
  "linked_list_remove data_obj_nonnull list_data =
     (case list_data of None \<Rightarrow> Some (eLINKED_LIST_INVALID_HANDLE, None, list_data)
      | Some l \<Rightarrow>
         if \<not> data_obj_nonnull then Some (eLINKED_LIST_INVALID_PARAMETER, None, list_data)
         else (case p_tail l of None \<Rightarrow> Some (eLINKED_LIST_UNAVAILABLE_RESOURCE, None, list_data)
         | Some tmp \<Rightarrow> do {
             te \<leftarrow> elems l tmp;
             l \<leftarrow> (case le_prev te of
                     Some pr \<Rightarrow> do {
                       pe \<leftarrow> elems l pr;
                       Some (l\<lparr>p_tail := Some pr, elems := (elems l)(pr \<mapsto> pe\<lparr>le_next := None\<rparr>)\<rparr>)
                     }
                   | None \<Rightarrow> Some (l\<lparr>p_tail := None, p_head := None\<rparr>));
             te \<leftarrow> elems l tmp;
             Some (eLINKED_LIST_SUCCESS, Some (le_data_ptr te), Some (l\<lparr>elems := (elems l)(tmp := None)\<rparr>))
           }))"

text \<open>For a null list the error code itself is returned, which reads as true.\<close>

definition linked_list_empty :: "('d, 'f) list_state option \<Rightarrow> int" where
  "linked_list_empty list_data =
     (case list_data of None \<Rightarrow> -3 | Some l \<Rightarrow> if p_head l = None then 1 else 0)"

definition call_dealloc :: "('d, 'f) list_element \<Rightarrow> ('d, 'f) list_state \<Rightarrow> ('d, 'f) list_state" where
  "call_dealloc e l =
     (case le_dealloc_func e of None \<Rightarrow> l | Some f \<Rightarrow> l\<lparr>deallocs := deallocs l @ [(f, le_data_ptr e)]\<rparr>)"

partial_function (option) flush_loop :: "('d, 'f) list_state \<Rightarrow> ('d, 'f) list_state option" where
  "flush_loop l =
     (case p_head l of None \<Rightarrow> Some l
      | Some h \<Rightarrow> do {
          he \<leftarrow> elems l h;
          let l = call_dealloc he l;
          flush_loop (l\<lparr>elems := (elems l)(h := None), p_head := le_next he\<rparr>)
        })"

definition linked_list_flush ::
  "('d, 'f) list_state option \<Rightarrow> (linked_list_err_type \<times> ('d, 'f) list_state option) option" where
  "linked_list_flush list_data =
     (case list_data of None \<Rightarrow> Some (eLINKED_LIST_INVALID_HANDLE, list_data)
      | Some l \<Rightarrow> do {
          l \<leftarrow> flush_loop l;
          Some (eLINKED_LIST_SUCCESS, Some (l\<lparr>p_tail := None\<rparr>))
        })"

text \<open>\<open>linked_list_destroy\<close> gives the deallocation calls made; the list itself is gone.\<close>

definition linked_list_destroy ::
  "('d, 'f) list_state option option \<Rightarrow> (linked_list_err_type \<times> ('f \<times> 'd) list) option" where
  "linked_list_destroy list_data =
     (case list_data of None \<Rightarrow> Some (eLINKED_LIST_INVALID_HANDLE, [])
      | Some p_list \<Rightarrow> do {
          (_, l) \<leftarrow> linked_list_flush p_list;
          Some (eLINKED_LIST_SUCCESS, case l of None \<Rightarrow> [] | Some l \<Rightarrow> deallocs l)
        })"

text \<open>The address of the first element the client's function accepts.\<close>

partial_function (option) search_loop ::
  "('d \<Rightarrow> bool) \<Rightarrow> (addr \<rightharpoonup> ('d, 'f) list_element) \<Rightarrow> addr option \<Rightarrow> addr option option" where
  "search_loop equal mem tmp =
     (case tmp of None \<Rightarrow> Some None
      | Some t \<Rightarrow> do {
          te \<leftarrow> mem t;
          if equal (le_data_ptr te) then Some (Some t) else search_loop equal mem (le_next te)
        })"

definition unlink :: "addr \<Rightarrow> ('d, 'f) list_state \<Rightarrow> ('d, 'f) list_state option" where
  "unlink tmp l = do {
     te \<leftarrow> elems l tmp;
     l \<leftarrow> (case le_prev te of None \<Rightarrow> Some (l\<lparr>p_head := le_next te\<rparr>)
          | Some pr \<Rightarrow> do { pe \<leftarrow> elems l pr; Some (l\<lparr>elems := (elems l)(pr \<mapsto> pe\<lparr>le_next := le_next te\<rparr>)\<rparr>) });
     te \<leftarrow> elems l tmp;
     case le_next te of None \<Rightarrow> Some (l\<lparr>p_tail := le_prev te\<rparr>)
     | Some nx \<Rightarrow> do { ne \<leftarrow> elems l nx; Some (l\<lparr>elems := (elems l)(nx \<mapsto> ne\<lparr>le_prev := le_prev te\<rparr>)\<rparr>) }
   }"

text \<open>
  \<open>want\<close> says whether \<open>data_p\<close> is not null. The middle component is what is written through it:
  nothing, a null pointer or the data.
\<close>

definition linked_list_search ::
  "bool \<Rightarrow> ('d \<Rightarrow> bool) option \<Rightarrow> bool \<Rightarrow> ('d, 'f) list_state option \<Rightarrow>
     (linked_list_err_type \<times> 'd option option \<times> ('d, 'f) list_state option) option" where
  "linked_list_search want equal rm_if_found list_data =
     (case (list_data, equal) of
        (Some l, Some eq) \<Rightarrow>
          (if p_tail l = None then Some (eLINKED_LIST_UNAVAILABLE_RESOURCE, None, list_data)
           else do {
             found \<leftarrow> search_loop eq (elems l) (p_head l);
             case found of None \<Rightarrow> Some (eLINKED_LIST_SUCCESS, if want then Some None else None, list_data)
             | Some tmp \<Rightarrow> do {
                 te \<leftarrow> elems l tmp;
                 let out = (if want then Some (Some (le_data_ptr te)) else None);
                 if rm_if_found then do {
                   l \<leftarrow> unlink tmp l;
                   let l = (if want then l else call_dealloc te l);
                   Some (eLINKED_LIST_SUCCESS, out, Some (l\<lparr>elems := (elems l)(tmp := None)\<rparr>))
                 } else Some (eLINKED_LIST_SUCCESS, out, list_data)
               }
           })
      | _ \<Rightarrow> Some (eLINKED_LIST_INVALID_HANDLE, None, list_data))"

section \<open>Chains of elements\<close>

definition first_or :: "'a option \<Rightarrow> 'a list \<Rightarrow> 'a option" where
  "first_or d xs = (case xs of [] \<Rightarrow> d | x # _ \<Rightarrow> Some x)"

definition last_or :: "'a option \<Rightarrow> 'a list \<Rightarrow> 'a option" where
  "last_or d xs = (if xs = [] then d else Some (last xs))"

lemma first_or_simps [simp]: "first_or d [] = d" "first_or d (x # xs) = Some x" "first_or d (xs @ ys) = first_or (first_or d ys) xs"
  by (simp_all add: first_or_def split: list.split)

lemma last_or_simps [simp]: "last_or d [] = d" "last_or d (x # xs) = last_or (Some x) xs" "last_or d (xs @ ys) = last_or (last_or d xs) ys"
  by (simp_all add: last_or_def)

lemma first_last_None [simp]: "first_or None xs = None \<longleftrightarrow> xs = []" "last_or None xs = None \<longleftrightarrow> xs = []"
  "None = first_or None xs \<longleftrightarrow> xs = []" "None = last_or None xs \<longleftrightarrow> xs = []"
  by (auto simp: first_or_def last_or_def split: list.split)

lemma dom_only: "dom m = {a} \<Longrightarrow> m(a := None) = Map.empty"
  by (rule dom_eq_empty_conv [THEN iffD1]) simp

text \<open>
  \<open>chain mem pr xs nx\<close>: the elements at the addresses \<open>xs\<close> are linked to one another in both
  directions, the first one back to \<open>pr\<close> and the last one on to \<open>nx\<close>.
\<close>

fun chain :: "(addr \<rightharpoonup> ('d, 'f) list_element) \<Rightarrow> addr option \<Rightarrow> addr list \<Rightarrow> addr option \<Rightarrow> bool" where
  "chain mem pr [] nx \<longleftrightarrow> True"
| "chain mem pr (a # as) nx \<longleftrightarrow>
     (case mem a of None \<Rightarrow> False | Some e \<Rightarrow> le_prev e = pr \<and> le_next e = first_or nx as) \<and> chain mem (Some a) as nx"

lemma chain_append [simp]:
  "chain mem pr (xs @ ys) nx \<longleftrightarrow> chain mem pr xs (first_or nx ys) \<and> chain mem (last_or pr xs) ys nx"
  by (induction xs arbitrary: pr) (auto simp: first_or_def split: option.splits list.splits)

lemma chain_frame [simp]: "a \<notin> set xs \<Longrightarrow> chain (mem(a := e)) pr xs nx = chain mem pr xs nx"
  by (induction xs arbitrary: pr) auto

lemma chain_frame_if [simp]: "a \<notin> set xs \<Longrightarrow> chain (\<lambda>b. if b = a then e else mem b) pr xs nx = chain mem pr xs nx"
  using chain_frame [of a xs mem e] by (simp add: fun_upd_def)

text \<open>What the list holds, from the newest element to the oldest.\<close>

definition content :: "(addr \<rightharpoonup> ('d, 'f) list_element) \<Rightarrow> addr \<Rightarrow> 'd \<times> 'f option" where
  "content mem a = (let e = the (mem a) in (le_data_ptr e, le_dealloc_func e))"

definition list_at :: "addr list \<Rightarrow> ('d, 'f) list_state \<Rightarrow> bool" where
  "list_at as l \<longleftrightarrow> distinct as \<and> dom (elems l) = set as \<and> chain (elems l) None as None \<and>
     p_head l = first_or None as \<and> p_tail l = last_or None as"

definition represents :: "('d, 'f) list_state \<Rightarrow> ('d \<times> 'f option) list \<Rightarrow> bool" where
  "represents l xs \<longleftrightarrow> (\<exists>as. list_at as l \<and> xs = map (content (elems l)) as)"

lemma represents_new: "represents new_list []"
  by (simp add: represents_def list_at_def new_list_def)


section \<open>The operations on chains\<close>

lemma chain_first: "chain mem pr as nx \<Longrightarrow> first_or None as = Some a \<Longrightarrow>
   \<exists>bs e. as = a # bs \<and> mem a = Some e \<and> le_prev e = pr \<and> le_next e = first_or nx bs"
  by (cases as) (auto split: option.splits)

lemma chain_set_prev:
  "chain mem pr as nx \<Longrightarrow> as = a # bs \<Longrightarrow> distinct as \<Longrightarrow> mem a = Some e \<Longrightarrow> chain (mem(a \<mapsto> e\<lparr>le_prev := pr'\<rparr>)) pr' as nx"
  by auto

lemma content_upd [simp]: "b \<noteq> a \<Longrightarrow> content (mem(a := e)) b = content mem b"
  by (simp add: content_def)

lemma content_links [simp]:
  "mem a = Some e \<Longrightarrow> content (mem(a \<mapsto> e\<lparr>le_prev := p\<rparr>)) b = content mem b"
  "mem a = Some e \<Longrightarrow> content (mem(a \<mapsto> e\<lparr>le_next := p\<rparr>)) b = content mem b"
  by (simp_all add: content_def)

lemma map_content_upd [simp]: "a \<notin> set as \<Longrightarrow> map (content (mem(a := e))) as = map (content mem) as"
  by (auto simp: content_def)

lemma add_represents:
  assumes "represents l xs" "elems l a = None"
  shows "\<exists>l'. linked_list_add (Some a) (Some d) f (Some l) = Some (eLINKED_LIST_SUCCESS, Some l') \<and>
     represents l' ((d, f) # xs) \<and> deallocs l' = deallocs l"
proof -
  from assms(1) obtain as where as: "list_at as l" "xs = map (content (elems l)) as" by (auto simp: represents_def)
  have a: "a \<notin> set as" using as(1) assms(2) by (auto simp: list_at_def)
  show ?thesis
  proof (cases as)
    case Nil
    with as show ?thesis
      by (auto simp: linked_list_add_def represents_def list_at_def content_def intro!: exI [of _ "[a]"])
  next
    case (Cons t ts)
    from as(1) obtain te where te: "elems l t = Some te" unfolding list_at_def Cons by (auto split: option.splits)
    let ?new = "\<lparr>le_next = Some t, le_prev = None, le_data_ptr = d, le_dealloc_func = f\<rparr>"
    let ?mem = "(elems l)(a \<mapsto> ?new)"
    have t: "a \<noteq> t" "t \<notin> set ts" "p_head l = Some t" using a as(1) Cons by (auto simp: list_at_def)
    let ?l' = "l\<lparr>p_head := Some a, elems := ?mem(t \<mapsto> te\<lparr>le_prev := Some a\<rparr>)\<rparr>"
    have "list_at (a # as) ?l'"
      using as(1) a te t unfolding Cons list_at_def by (auto split: option.splits)
    moreover have "map (content (elems ?l')) (a # as) = (d, f) # xs"
      using as(2) a t te by (auto simp: content_def Cons)
    ultimately show ?thesis
      using te t by (auto simp: linked_list_add_def represents_def)
  qed
qed

lemma remove_represents:
  assumes "represents l (xs @ [(d, f)])"
  shows "\<exists>l'. linked_list_remove True (Some l) = Some (eLINKED_LIST_SUCCESS, Some d, Some l') \<and>
     represents l' xs \<and> deallocs l' = deallocs l"
proof -
  from assms obtain as where as: "list_at as l" "xs @ [(d, f)] = map (content (elems l)) as" by (auto simp: represents_def)
  then obtain bs a where as': "as = bs @ [a]" by (cases as rule: rev_cases) auto
  have a: "a \<notin> set bs" "distinct bs" and tail: "p_tail l = Some a" and xs: "xs = map (content (elems l)) bs" "content (elems l) a = (d, f)"
    using as by (auto simp: list_at_def as')
  obtain te where te: "elems l a = Some te" "le_prev te = last_or None bs" "le_data_ptr te = d"
    using as(1) xs(2) by (auto simp: list_at_def as' content_def split: option.splits)
  show ?thesis
  proof (cases bs rule: rev_cases)
    case Nil
    with as(1) te tail xs show ?thesis
      by (auto simp: linked_list_remove_def represents_def list_at_def as' dom_only intro!: exI [of _ "[]"])
  next
    case (snoc cs p)
    obtain pe where pe: "elems l p = Some pe" using as(1) by (auto simp: list_at_def as' snoc split: option.splits)
    let ?l' = "l\<lparr>p_tail := Some p, elems := ((elems l)(p \<mapsto> pe\<lparr>le_next := None\<rparr>))(a := None)\<rparr>"
    have n: "p \<noteq> a" "p \<notin> set cs" "a \<notin> set cs" using a by (auto simp: snoc)
    have "list_at bs ?l'"
      using as(1) n pe unfolding list_at_def as' snoc by (auto split: option.splits)
    moreover have "xs = map (content (elems ?l')) bs" using xs(1) a pe by simp
    ultimately have "represents ?l' xs" by (auto simp: represents_def)
    with te tail pe n snoc show ?thesis by (auto simp: linked_list_remove_def)
  qed
qed

lemma empty_represents: "represents l xs \<Longrightarrow> linked_list_empty (Some l) = (if xs = [] then 1 else 0)"
  by (auto simp: represents_def list_at_def linked_list_empty_def)

lemma remove_empty: "represents l [] \<Longrightarrow> linked_list_remove b (Some l) =
   Some (if b then eLINKED_LIST_UNAVAILABLE_RESOURCE else eLINKED_LIST_INVALID_PARAMETER, None, Some l)"
  by (auto simp: represents_def list_at_def linked_list_remove_def)


text \<open>The deallocation calls for the elements with a deallocation function.\<close>

definition dealloc_calls :: "('d \<times> 'f option) list \<Rightarrow> ('f \<times> 'd) list" where
  "dealloc_calls xs = List.map_filter (\<lambda>(d, f). map_option (\<lambda>f. (f, d)) f) xs"

lemma dealloc_calls_simps [simp]:
  "dealloc_calls [] = []" "dealloc_calls ((d, None) # xs) = dealloc_calls xs"
  "dealloc_calls ((d, Some f) # xs) = (f, d) # dealloc_calls xs" "dealloc_calls (xs @ ys) = dealloc_calls xs @ dealloc_calls ys"
  by (simp_all add: dealloc_calls_def List.map_filter_def)

lemma call_dealloc_sel [simp]:
  "p_head (call_dealloc e l) = p_head l" "p_tail (call_dealloc e l) = p_tail l" "elems (call_dealloc e l) = elems l"
  "deallocs (call_dealloc e l) = deallocs l @ dealloc_calls [(le_data_ptr e, le_dealloc_func e)]"
  by (simp_all add: call_dealloc_def split: option.split)

lemma flush_loop_chain:
  assumes "chain (elems l) pr as None" "distinct as" "p_head l = first_or None as"
  shows "\<exists>l'. flush_loop l = Some l' \<and> p_head l' = None \<and> p_tail l' = p_tail l \<and>
     elems l' = elems l |` (- set as) \<and> deallocs l' = deallocs l @ dealloc_calls (map (content (elems l)) as)"
  using assms
proof (induction as arbitrary: l pr)
  case Nil
  then show ?case by (subst flush_loop.simps) (simp add: restrict_map_def)
next
  case (Cons a as)
  from Cons.prems(1) obtain e where e: "elems l a = Some e" "le_next e = first_or None as" "chain (elems l) (Some a) as None"
    by (auto split: option.splits)
  let ?l = "(call_dealloc e l)\<lparr>elems := (elems l)(a := None), p_head := first_or None as\<rparr>"
  have step: "flush_loop l = flush_loop ?l"
    by (subst flush_loop.simps) (use Cons.prems(3) e in simp)
  have "\<exists>l'. flush_loop ?l = Some l' \<and> p_head l' = None \<and> p_tail l' = p_tail ?l \<and>
     elems l' = elems ?l |` (- set as) \<and> deallocs l' = deallocs ?l @ dealloc_calls (map (content (elems ?l)) as)"
    by (rule Cons.IH [where pr = "Some a"]) (use Cons.prems(2) e in simp_all)
  moreover have "elems ?l |` (- set as) = elems l |` (- set (a # as))" by (auto simp: restrict_map_def fun_eq_iff)
  moreover have "deallocs ?l @ dealloc_calls (map (content (elems ?l)) as) = deallocs l @ dealloc_calls (map (content (elems l)) (a # as))"
    using Cons.prems(2) e by (simp add: content_def dealloc_calls_def List.map_filter_def)
  ultimately show ?case unfolding step by simp
qed

lemma flush_represents:
  assumes "represents l xs"
  shows "\<exists>l'. linked_list_flush (Some l) = Some (eLINKED_LIST_SUCCESS, Some l') \<and> represents l' [] \<and>
     deallocs l' = deallocs l @ dealloc_calls xs"
proof -
  from assms obtain as where as: "list_at as l" "xs = map (content (elems l)) as" by (auto simp: represents_def)
  then obtain l' where l': "flush_loop l = Some l'" "p_head l' = None" "elems l' = elems l |` (- set as)"
    "deallocs l' = deallocs l @ dealloc_calls xs"
    using flush_loop_chain [of l None as] by (auto simp: list_at_def)
  have "elems l' = Map.empty" using as(1) l'(3) by (auto simp: list_at_def restrict_map_def fun_eq_iff dom_def)
  with l' show ?thesis by (auto simp: linked_list_flush_def represents_def list_at_def intro!: exI [of _ "[]"])
qed


lemma search_loop_chain:
  assumes "chain mem pr as None"
  shows "search_loop eq mem (first_or None as) = Some (find (\<lambda>a. eq (fst (content mem a))) as)"
  using assms
proof (induction as arbitrary: pr)
  case Nil
  then show ?case by (subst search_loop.simps) simp
next
  case (Cons a as)
  then show ?case by (subst search_loop.simps) (auto simp: content_def split: option.splits)
qed

lemma unlink_list_at:
  assumes "list_at (xs @ a # ys) l"
  shows "\<exists>l'. unlink a l = Some l' \<and> list_at (xs @ ys) (l'\<lparr>elems := (elems l')(a := None)\<rparr>) \<and>
     deallocs l' = deallocs l \<and> (\<forall>b. b \<noteq> a \<longrightarrow> content (elems l') b = content (elems l) b)"
proof -
  have n: "a \<notin> set xs" "a \<notin> set ys" "distinct xs" "distinct ys" "set xs \<inter> set ys = {}" using assms by (auto simp: list_at_def)
  obtain e where e: "elems l a = Some e" "le_prev e = last_or None xs" "le_next e = first_or None ys"
    using assms by (auto simp: list_at_def split: option.splits)
  obtain l1 where l1: "(case le_prev e of None \<Rightarrow> Some (l\<lparr>p_head := le_next e\<rparr>)
          | Some pr \<Rightarrow> do { pe \<leftarrow> elems l pr; Some (l\<lparr>elems := (elems l)(pr \<mapsto> pe\<lparr>le_next := le_next e\<rparr>)\<rparr>) }) = Some l1"
    "elems l1 a = Some e" "p_head l1 = first_or (first_or None ys) xs" "p_tail l1 = p_tail l" "deallocs l1 = deallocs l"
    "chain (elems l1) None xs (first_or None ys)" "chain (elems l1) (Some a) ys None" "dom (elems l1) = dom (elems l)"
    "\<forall>b. content (elems l1) b = content (elems l) b"
  proof (cases xs rule: rev_cases)
    case Nil
    with assms e that [of "l\<lparr>p_head := le_next e\<rparr>"] show thesis by (auto simp: list_at_def split: option.splits)
  next
    case (snoc us p)
    then obtain pe where pe: "elems l p = Some pe" using assms by (auto simp: list_at_def split: option.splits)
    have p: "p \<noteq> a" "p \<notin> set us" "p \<notin> set ys" using n snoc by auto
    show thesis
      by (rule that [of "l\<lparr>elems := (elems l)(p \<mapsto> pe\<lparr>le_next := le_next e\<rparr>)\<rparr>"])
         (use assms e pe p snoc in \<open>auto simp: list_at_def split: option.splits\<close>)
  qed
  show ?thesis
  proof (cases ys)
    case Nil
    with l1 e n have "unlink a l = Some (l1\<lparr>p_tail := le_prev e\<rparr>)" by (simp add: unlink_def)
    with l1 e n Nil assms show ?thesis by (auto simp: list_at_def)
  next
    case (Cons y vs)
    then obtain ye where ye: "elems l1 y = Some ye" using l1(7) by (auto split: option.splits)
    have y: "y \<noteq> a" "y \<notin> set xs" "y \<notin> set vs" using n Cons by auto
    have "unlink a l = Some (l1\<lparr>elems := (elems l1)(y \<mapsto> ye\<lparr>le_prev := le_prev e\<rparr>)\<rparr>)"
      using l1(1,2) e ye Cons by (simp add: unlink_def)
    with l1 e ye y n Cons assms show ?thesis by (auto simp: list_at_def)
  qed
qed


text \<open>The first entry of a list that satisfies a predicate, and the list without it.\<close>

fun take_first :: "('a \<Rightarrow> bool) \<Rightarrow> 'a list \<Rightarrow> ('a \<times> 'a list) option" where
  "take_first P [] = None"
| "take_first P (x # xs) = (if P x then Some (x, xs) else map_option (\<lambda>(y, ys). (y, x # ys)) (take_first P xs))"

lemma take_first_None: "take_first P xs = None \<longleftrightarrow> (\<forall>x \<in> set xs. \<not> P x)"
  by (induction xs) auto

lemma take_first_append: "\<forall>u \<in> set us. \<not> P u \<Longrightarrow> P x \<Longrightarrow> take_first P (us @ x # vs) = Some (x, us @ vs)"
  by (induction us) auto

lemma find_SomeD: "find P xs = Some x \<Longrightarrow> \<exists>us vs. xs = us @ x # vs \<and> P x \<and> (\<forall>u \<in> set us. \<not> P u)"
  by (induction xs) (force split: if_splits intro: exI [of _ "[]"] exI [of _ "_ # _"])+

lemma search_represents:
  assumes "represents l xs" "xs \<noteq> []"
  shows "\<exists>l'. linked_list_search want (Some eq) rm (Some l) = Some (eLINKED_LIST_SUCCESS,
       if want then Some (map_option (\<lambda>((d, f), ys). d) (take_first (eq \<circ> fst) xs)) else None, Some l') \<and>
     represents l' (case take_first (eq \<circ> fst) xs of Some (x, ys) \<Rightarrow> if rm then ys else xs | None \<Rightarrow> xs) \<and>
     deallocs l' = deallocs l @ (case take_first (eq \<circ> fst) xs of
       Some (x, ys) \<Rightarrow> if rm \<and> \<not> want then dealloc_calls [x] else [] | None \<Rightarrow> [])"
proof -
  from assms obtain as where as: "list_at as l" "xs = map (content (elems l)) as" "as \<noteq> []" by (auto simp: represents_def)
  then have tail: "p_tail l \<noteq> None" and s: "search_loop eq (elems l) (p_head l) = Some (find (\<lambda>a. eq (fst (content (elems l) a))) as)"
    using search_loop_chain [of "elems l" None as eq] by (auto simp: list_at_def)
  show ?thesis
  proof (cases "find (\<lambda>a. eq (fst (content (elems l) a))) as")
    case None
    then have "take_first (eq \<circ> fst) xs = None" by (auto simp: take_first_None find_None_iff as(2))
    with s tail None assms show ?thesis by (auto simp: linked_list_search_def)
  next
    case (Some a)
    from find_SomeD [OF Some] obtain us vs where u: "as = us @ a # vs" "eq (fst (content (elems l) a))"
      "\<forall>u \<in> set us. \<not> eq (fst (content (elems l) u))" by auto
    let ?c = "content (elems l)"
    have tf: "take_first (eq \<circ> fst) xs = Some (?c a, map ?c (us @ vs))"
      unfolding as(2) u(1) using u(2,3) take_first_append [of "map ?c us" "eq \<circ> fst" "?c a" "map ?c vs"] by simp
    obtain e where e: "elems l a = Some e" "?c a = (le_data_ptr e, le_dealloc_func e)"
      using as(1) u(1) by (auto simp: list_at_def content_def split: option.splits)
    obtain l' where l': "unlink a l = Some l'" "list_at (us @ vs) (l'\<lparr>elems := (elems l')(a := None)\<rparr>)" "deallocs l' = deallocs l"
      "\<forall>b. b \<noteq> a \<longrightarrow> content (elems l') b = ?c b"
      using unlink_list_at as(1) u(1) by blast
    have "map (content ((elems l')(a := None))) (us @ vs) = map ?c (us @ vs)"
      using as(1) u(1) l'(4) by (auto simp: list_at_def)
    then have r: "represents (l'\<lparr>elems := (elems l')(a := None)\<rparr>) (map ?c (us @ vs))"
      using l'(2) by (auto simp: represents_def)
    then have r2: "represents ((call_dealloc e l')\<lparr>elems := (elems l')(a := None)\<rparr>) (map ?c (us @ vs))"
      by (simp add: represents_def list_at_def)
    show ?thesis
      unfolding tf linked_list_search_def using s tail Some e l'(1,3) r r2 assms(1)
      by (cases rm; cases want) auto
  qed
qed

section \<open>First in, first out\<close>

text \<open>
  The contract a client of a queue relies on: \<open>rep s xs\<close> says that \<open>s\<close> holds the entries
  \<open>xs\<close>, the newest first. \<open>ledger\<close> is the client's account of what went in and what came out.
\<close>

definition ledger :: "('s \<Rightarrow> 'x list \<Rightarrow> bool) \<Rightarrow> 'x list \<Rightarrow> 'x list \<Rightarrow> 's \<Rightarrow> bool" where
  "ledger rep ins outs s \<longleftrightarrow> (\<exists>xs. rep s xs \<and> ins = outs @ rev xs)"

locale fifo =
  fixes rep :: "'s \<Rightarrow> 'x list \<Rightarrow> bool"
    and add :: "'a \<Rightarrow> 'x \<Rightarrow> 's \<Rightarrow> 's option"
    and take_out :: "'s \<Rightarrow> ('d \<times> 's) option"
    and clear :: "'s \<Rightarrow> 's option"
    and fresh :: "'a \<Rightarrow> 's \<Rightarrow> bool"
    and key :: "'x \<Rightarrow> 'd"
  assumes rep_det: "rep s xs \<Longrightarrow> rep s ys \<Longrightarrow> xs = ys"
    and add_rep: "rep s xs \<Longrightarrow> fresh a s \<Longrightarrow> \<exists>s'. add a x s = Some s' \<and> rep s' (x # xs)"
    and take_rep: "rep s (xs @ [x]) \<Longrightarrow> \<exists>s'. take_out s = Some (key x, s') \<and> rep s' xs"
    and take_none: "rep s [] \<Longrightarrow> take_out s = None"
    and clear_rep: "rep s xs \<Longrightarrow> \<exists>s'. clear s = Some s' \<and> rep s' []"
begin

lemma ledger_start: "rep s [] \<Longrightarrow> ledger rep [] [] s"
  by (auto simp: ledger_def)

lemma ledger_rep: "ledger rep ins outs s \<Longrightarrow> rep s xs \<Longrightarrow> ins = outs @ rev xs"
  using rep_det by (auto simp: ledger_def)

lemma ledger_in: "ledger rep ins outs s \<Longrightarrow> rep s xs \<Longrightarrow> rep s' (x # xs) \<Longrightarrow> ledger rep (ins @ [x]) outs s'"
  by (auto simp: ledger_def dest: rep_det)

lemma ledger_out: "ledger rep ins outs s \<Longrightarrow> rep s (xs @ [x]) \<Longrightarrow> rep s' xs \<Longrightarrow> ledger rep ins (outs @ [x]) s'"
  by (auto simp: ledger_def dest: rep_det)

lemma ledger_clear: "rep s' [] \<Longrightarrow> ledger rep ins ins s'"
  by (auto simp: ledger_def)

lemma ledger_same: "ledger rep ins outs s \<Longrightarrow> rep s xs \<Longrightarrow> rep s' xs \<Longrightarrow> ledger rep ins outs s'"
  by (auto simp: ledger_def dest: rep_det)

text \<open>The calls: what is taken out is what went in first and is not out yet.\<close>

lemma ledger_add:
  assumes "ledger rep ins outs s" "fresh a s" "add a x s = Some s'"
  shows "ledger rep (ins @ [x]) outs s'"
proof -
  obtain xs where xs: "rep s xs" using assms(1) by (auto simp: ledger_def)
  with add_rep [OF xs assms(2), of x] assms(3) ledger_in [OF assms(1) xs] show ?thesis by auto
qed

lemma ledger_take:
  assumes "ledger rep ins outs s" "take_out s = Some (d, s')"
  shows "\<exists>x. ledger rep ins (outs @ [x]) s' \<and> d = key x"
proof -
  obtain xs where xs: "rep s xs" using assms(1) by (auto simp: ledger_def)
  then obtain ys y where "xs = ys @ [y]" using assms(2) take_none by (cases xs rule: rev_cases) auto
  with xs assms(2) take_rep [of s ys y] ledger_out [OF assms(1)] show ?thesis by auto
qed

lemma take_order:
  assumes "ledger rep ins outs s" "length outs < length ins"
  shows "\<exists>s'. take_out s = Some (key (ins ! length outs), s') \<and> ledger rep ins (outs @ [ins ! length outs]) s'"
proof -
  obtain xs where xs: "rep s xs" "ins = outs @ rev xs" using assms(1) by (auto simp: ledger_def)
  then obtain ys y where y: "xs = ys @ [y]" using assms(2) by (cases xs rule: rev_cases) auto
  with xs take_rep [of s ys y] ledger_out [OF assms(1)] show ?thesis by (auto simp: nth_append)
qed

end


lemma chain_det:
  "chain mem pr as None \<Longrightarrow> chain mem pr bs None \<Longrightarrow> first_or None as = first_or None bs \<Longrightarrow> as = bs"
proof (induction as arbitrary: bs pr)
  case (Cons a as)
  then obtain cs where "bs = a # cs" by (cases bs) auto
  with Cons show ?case by (auto split: option.splits)
qed simp

text \<open>The calls the message queue makes, as partial functions on lists that exist.\<close>

definition ll_add :: "addr \<Rightarrow> 'd \<times> 'f option \<Rightarrow> ('d, 'f) list_state \<Rightarrow> ('d, 'f) list_state option" where
  "ll_add a x l = (case linked_list_add (Some a) (Some (fst x)) (snd x) (Some l) of
     Some (eLINKED_LIST_SUCCESS, l') \<Rightarrow> l' | _ \<Rightarrow> None)"

definition ll_take :: "('d, 'f) list_state \<Rightarrow> ('d \<times> ('d, 'f) list_state) option" where
  "ll_take l = (case linked_list_remove True (Some l) of
     Some (eLINKED_LIST_SUCCESS, Some d, Some l') \<Rightarrow> Some (d, l') | _ \<Rightarrow> None)"

definition ll_clear :: "('d, 'f) list_state \<Rightarrow> ('d, 'f) list_state option" where
  "ll_clear l = (case linked_list_flush (Some l) of Some (eLINKED_LIST_SUCCESS, l') \<Rightarrow> l' | _ \<Rightarrow> None)"

interpretation ll: fifo represents ll_add ll_take ll_clear "\<lambda>a l. elems l a = None" fst
proof
  fix s :: "('d, 'f) list_state" and xs ys
  show "represents s xs \<Longrightarrow> represents s ys \<Longrightarrow> xs = ys"
    using chain_det by (fastforce simp: represents_def list_at_def)
  show "\<exists>s'. ll_add a x s = Some s' \<and> represents s' (x # xs)" if "represents s xs" "elems s a = None" for a x
    using add_represents [OF that, of "fst x" "snd x"] by (auto simp: ll_add_def)
  show "\<exists>s'. ll_take s = Some (fst x, s') \<and> represents s' xs" if "represents s (xs @ [x])" for x
    using remove_represents [of s xs "fst x" "snd x"] that by (auto simp: ll_take_def)
  show "represents s [] \<Longrightarrow> ll_take s = None"
    using remove_empty [of s True] by (simp add: ll_take_def)
  show "\<exists>s'. ll_clear s = Some s' \<and> represents s' []" if "represents s xs"
    using flush_represents [OF that] by (auto simp: ll_clear_def)
qed

section \<open>Properties\<close>

text \<open>
  C36. The doubly linked list implements a queue: while its pointers are consistent, no operation
  follows a pointer to an element that is not allocated, adding puts the data in front, removing
  gives the oldest data and drops it, the emptiness test is right, and flushing ends, empties the
  list and calls each deallocation function exactly once, the newest element first. Every operation
  leaves the pointers consistent, and no element leaks.
\<close>

theorem list_refines:
  assumes "represents l xs"
  shows "(elems l a = None \<longrightarrow> (\<exists>l'. linked_list_add (Some a) (Some d) f (Some l) = Some (eLINKED_LIST_SUCCESS, Some l') \<and>
      represents l' ((d, f) # xs) \<and> deallocs l' = deallocs l)) \<and>
    (\<exists>err out l'. linked_list_remove True (Some l) = Some (err, out, Some l') \<and> deallocs l' = deallocs l \<and>
      (if xs = [] then err = eLINKED_LIST_UNAVAILABLE_RESOURCE \<and> out = None \<and> l' = l
       else err = eLINKED_LIST_SUCCESS \<and> out = Some (fst (last xs)) \<and> represents l' (butlast xs))) \<and>
    linked_list_empty (Some l) = (if xs = [] then 1 else 0) \<and>
    (\<exists>l'. linked_list_flush (Some l) = Some (eLINKED_LIST_SUCCESS, Some l') \<and> elems l' = Map.empty \<and>
      represents l' [] \<and> deallocs l' = deallocs l @ dealloc_calls xs)"
proof (intro conjI impI)
  show "\<exists>l'. linked_list_add (Some a) (Some d) f (Some l) = Some (eLINKED_LIST_SUCCESS, Some l') \<and>
      represents l' ((d, f) # xs) \<and> deallocs l' = deallocs l" if "elems l a = None"
    using add_represents [OF assms that] .
  show "\<exists>err out l'. linked_list_remove True (Some l) = Some (err, out, Some l') \<and> deallocs l' = deallocs l \<and>
      (if xs = [] then err = eLINKED_LIST_UNAVAILABLE_RESOURCE \<and> out = None \<and> l' = l
       else err = eLINKED_LIST_SUCCESS \<and> out = Some (fst (last xs)) \<and> represents l' (butlast xs))"
  proof (cases xs rule: rev_cases)
    case Nil
    with assms remove_empty [of l True] show ?thesis by simp
  next
    case (snoc ys y)
    with assms remove_represents [of l ys "fst y" "snd y"] show ?thesis by auto
  qed
  show "linked_list_empty (Some l) = (if xs = [] then 1 else 0)" using empty_represents [OF assms] .
  obtain l' where "linked_list_flush (Some l) = Some (eLINKED_LIST_SUCCESS, Some l')" "represents l' []"
    "deallocs l' = deallocs l @ dealloc_calls xs" using flush_represents [OF assms] by blast
  then show "\<exists>l'. linked_list_flush (Some l) = Some (eLINKED_LIST_SUCCESS, Some l') \<and> elems l' = Map.empty \<and>
      represents l' [] \<and> deallocs l' = deallocs l @ dealloc_calls xs"
    by (auto simp: represents_def list_at_def)
qed

text \<open>Two elements at the addresses 7 and 5, the second one with a deallocation function.\<close>

definition two_list :: "(string, nat) list_state" where
  "two_list = \<lparr>p_head = Some 7, p_tail = Some 5,
     elems = [7 \<mapsto> \<lparr>le_next = Some 5, le_prev = None, le_data_ptr = ''new'', le_dealloc_func = None\<rparr>,
       5 \<mapsto> \<lparr>le_next = None, le_prev = Some 7, le_data_ptr = ''old'', le_dealloc_func = Some 1\<rparr>], deallocs = []\<rparr>"

lemma two_list_represents: "represents two_list [(''new'', None), (''old'', Some 1)]"
  unfolding represents_def by (rule exI [of _ "[7, 5]"]) (auto simp: list_at_def two_list_def content_def last_or_def)

theorem list_refines_witness:
  "\<exists>l'. linked_list_flush (Some two_list) = Some (eLINKED_LIST_SUCCESS, Some l') \<and> deallocs l' = [(1, ''old'')]"
  using list_refines [OF two_list_represents, of 3 "''x''" None] by (auto simp: two_list_def)

text \<open>
  Searching a list that is not empty finds the newest entry the client's function accepts: the
  data is written out when asked for, a null pointer when nothing matches. With removal exactly that
  entry goes, the neighbours are linked to one another, and it is deallocated just when its data was
  not handed out.
\<close>

theorem list_search:
  assumes "represents l xs" "xs \<noteq> []"
  shows "\<exists>l'. linked_list_search want (Some eq) rm (Some l) = Some (eLINKED_LIST_SUCCESS,
       if want then Some (map_option (\<lambda>((d, f), ys). d) (take_first (eq \<circ> fst) xs)) else None, Some l') \<and>
     represents l' (case take_first (eq \<circ> fst) xs of Some (x, ys) \<Rightarrow> if rm then ys else xs | None \<Rightarrow> xs) \<and>
     deallocs l' = deallocs l @ (case take_first (eq \<circ> fst) xs of
       Some (x, ys) \<Rightarrow> if rm \<and> \<not> want then dealloc_calls [x] else [] | None \<Rightarrow> [])"
  using assms by (rule search_represents)

theorem list_search_witness:
  "\<exists>l'. linked_list_search False (Some (\<lambda>d. d = ''old'')) True (Some two_list) = Some (eLINKED_LIST_SUCCESS, None, Some l') \<and>
     represents l' [(''new'', None)] \<and> deallocs l' = [(1, ''old'')]"
  using list_search [OF two_list_represents, of False "\<lambda>d. d = ''old''" True] by (auto simp: two_list_def)

end
