(* ===== verification/MsgQ.thy ===== *)
theory MsgQ
  imports LinkedList Machine "HOL-Library.Multiset"
begin

text \<open>
  The message queue \<open>gps/utils/msg_q.c\<close> and the message task \<open>gps/utils/MsgTask.cpp\<close> on top of it.
  Every function holds the queue's mutex from the first to the last access, so that the calls of
  several threads are interleaved as wholes; only \<open>msg_q_rcv\<close> gives the mutex away, in
  \<open>pthread_cond_wait\<close>, and is split there. The threads in the wait and those that have left it but
  not yet the mutex are part of the state. Which waiting thread a signal wakes, when a thread wakes
  up spuriously and what \<open>malloc\<close> returns are arguments of the steps.
\<close>

section \<open>State\<close>

text \<open>\<open>msg_q_rmv\<close> returns one value that is not an enumerator of its result type.\<close>

datatype msq_q_err_type =
    eMSG_Q_SUCCESS | eMSG_Q_FAILURE_GENERAL | eMSG_Q_INVALID_PARAMETER | eMSG_Q_INVALID_HANDLE
  | eMSG_Q_UNAVAILABLE_RESOURCE | eMSG_Q_INSUFFICIENT_BUFFER | other_value linked_list_err_type

type_synonym tid = nat

record ('d, 'f) msg_q =
  msg_list :: "('d, 'f) list_state option"
  unblocked :: bool
  sleepers :: "tid list"
  woken :: "tid list"

fun convert_linked_list_err_type :: "linked_list_err_type \<Rightarrow> msq_q_err_type" where
  "convert_linked_list_err_type eLINKED_LIST_SUCCESS = eMSG_Q_SUCCESS"
| "convert_linked_list_err_type eLINKED_LIST_INVALID_PARAMETER = eMSG_Q_INVALID_PARAMETER"
| "convert_linked_list_err_type eLINKED_LIST_INVALID_HANDLE = eMSG_Q_INVALID_HANDLE"
| "convert_linked_list_err_type eLINKED_LIST_UNAVAILABLE_RESOURCE = eMSG_Q_UNAVAILABLE_RESOURCE"
| "convert_linked_list_err_type eLINKED_LIST_INSUFFICIENT_BUFFER = eMSG_Q_INSUFFICIENT_BUFFER"
| "convert_linked_list_err_type _ = eMSG_Q_FAILURE_GENERAL"

section \<open>Condition variable\<close>

text \<open>A signal wakes \<open>who\<close>, one of the waiting threads, if there are any.\<close>

definition pthread_cond_signal :: "tid option \<Rightarrow> ('d, 'f) msg_q \<Rightarrow> ('d, 'f) msg_q option" where
  "pthread_cond_signal who q =
     (if sleepers q = [] then Some q
      else (case who of None \<Rightarrow> None
        | Some t \<Rightarrow> if t \<in> set (sleepers q)
            then Some (q\<lparr>sleepers := remove1 t (sleepers q), woken := t # woken q\<rparr>) else None))"

definition pthread_cond_broadcast :: "('d, 'f) msg_q \<Rightarrow> ('d, 'f) msg_q" where
  "pthread_cond_broadcast q = q\<lparr>sleepers := [], woken := sleepers q @ woken q\<rparr>"

definition pthread_cond_wait :: "tid \<Rightarrow> ('d, 'f) msg_q \<Rightarrow> ('d, 'f) msg_q" where
  "pthread_cond_wait t q = q\<lparr>sleepers := t # sleepers q\<rparr>"

section \<open>Operations\<close>

text \<open>The arguments say whether the pointer is not null and which of the four calls succeed.\<close>

definition msg_q_init ::
  "bool \<Rightarrow> bool \<Rightarrow> bool \<Rightarrow> bool \<Rightarrow> bool \<Rightarrow> msq_q_err_type \<times> ('d, 'f) msg_q option" where
  "msg_q_init nonnull calloc_ok list_ok mutex_ok cond_ok =
     (if \<not> nonnull then (eMSG_Q_INVALID_PARAMETER, None)
      else if \<not> calloc_ok then (eMSG_Q_FAILURE_GENERAL, None)
      else (let (err, l) = linked_list_init True list_ok in
        if err \<noteq> eLINKED_LIST_SUCCESS then (eMSG_Q_FAILURE_GENERAL, None)
        else if \<not> mutex_ok then (eMSG_Q_FAILURE_GENERAL, None)
        else if \<not> cond_ok then (eMSG_Q_FAILURE_GENERAL, None)
        else (eMSG_Q_SUCCESS, Some \<lparr>msg_list = l, unblocked = False, sleepers = [], woken = []\<rparr>)))"

definition msg_q_init2 :: "bool \<Rightarrow> bool \<Rightarrow> bool \<Rightarrow> bool \<Rightarrow> ('d, 'f) msg_q option" where
  "msg_q_init2 calloc_ok list_ok mutex_ok cond_ok =
     (let (err, q) = msg_q_init True calloc_ok list_ok mutex_ok cond_ok in
      if err \<noteq> eMSG_Q_SUCCESS then None else q)"

text \<open>The second component is the deallocation calls made.\<close>

definition msg_q_destroy :: "('d, 'f) msg_q option option \<Rightarrow> (msq_q_err_type \<times> ('f \<times> 'd) list) option" where
  "msg_q_destroy msg_q_data =
     (case msg_q_data of None \<Rightarrow> Some (eMSG_Q_INVALID_HANDLE, [])
      | Some p_msg_q \<Rightarrow> do {
          q \<leftarrow> p_msg_q;
          (_, calls) \<leftarrow> linked_list_destroy (Some (msg_list q));
          Some (eMSG_Q_SUCCESS, calls)
        })"

definition msg_q_snd ::
  "addr option \<Rightarrow> tid option \<Rightarrow> 'd option \<Rightarrow> 'f option \<Rightarrow> ('d, 'f) msg_q option \<Rightarrow>
     (msq_q_err_type \<times> ('d, 'f) msg_q option) option" where
  "msg_q_snd malloc_result who msg_obj dealloc msg_q_data =
     (case msg_q_data of None \<Rightarrow> Some (eMSG_Q_INVALID_HANDLE, msg_q_data)
      | Some q \<Rightarrow>
         if msg_obj = None then Some (eMSG_Q_INVALID_PARAMETER, msg_q_data)
         else if unblocked q then Some (eMSG_Q_UNAVAILABLE_RESOURCE, msg_q_data)
         else do {
           (rv, l) \<leftarrow> linked_list_add malloc_result msg_obj dealloc (msg_list q);
           q \<leftarrow> pthread_cond_signal who (q\<lparr>msg_list := l\<rparr>);
           Some (convert_linked_list_err_type rv, Some q)
         })"

text \<open>
  The loop of \<open>msg_q_rcv\<close> from its test on, for a thread that has the mutex: it goes to sleep
  (\<open>None\<close>), or takes the oldest message and returns.
\<close>

definition rcv_loop ::
  "tid \<Rightarrow> ('d, 'f) msg_q \<Rightarrow> ((msq_q_err_type \<times> 'd option) option \<times> ('d, 'f) msg_q) option" where
  "rcv_loop t q =
     (if linked_list_empty (msg_list q) \<noteq> 0 \<and> \<not> unblocked q then Some (None, pthread_cond_wait t q)
      else do {
        (rv, d, l) \<leftarrow> linked_list_remove True (msg_list q);
        Some (Some (convert_linked_list_err_type rv, d), q\<lparr>msg_list := l\<rparr>)
      })"

definition msg_q_rcv ::
  "tid \<Rightarrow> bool \<Rightarrow> ('d, 'f) msg_q option \<Rightarrow>
     ((msq_q_err_type \<times> 'd option) option \<times> ('d, 'f) msg_q option) option" where
  "msg_q_rcv t msg_obj_nonnull msg_q_data =
     (case msg_q_data of None \<Rightarrow> Some (Some (eMSG_Q_INVALID_HANDLE, None), msg_q_data)
      | Some q \<Rightarrow>
         if \<not> msg_obj_nonnull then Some (Some (eMSG_Q_INVALID_PARAMETER, None), msg_q_data)
         else if unblocked q then Some (Some (eMSG_Q_UNAVAILABLE_RESOURCE, None), msg_q_data)
         else map_option (apsnd Some) (rcv_loop t q))"

text \<open>A thread that left the wait gets the mutex again and goes round the loop.\<close>

definition rcv_resume ::
  "tid \<Rightarrow> ('d, 'f) msg_q \<Rightarrow> ((msq_q_err_type \<times> 'd option) option \<times> ('d, 'f) msg_q) option" where
  "rcv_resume t q = rcv_loop t (q\<lparr>woken := remove1 t (woken q)\<rparr>)"

definition msg_q_rmv ::
  "bool \<Rightarrow> ('d, 'f) msg_q option \<Rightarrow> ((msq_q_err_type \<times> 'd option) \<times> ('d, 'f) msg_q option) option" where
  "msg_q_rmv msg_obj_nonnull msg_q_data =
     (case msg_q_data of None \<Rightarrow> Some ((eMSG_Q_INVALID_HANDLE, None), msg_q_data)
      | Some q \<Rightarrow>
         if \<not> msg_obj_nonnull then Some ((eMSG_Q_INVALID_PARAMETER, None), msg_q_data)
         else if unblocked q then Some ((eMSG_Q_UNAVAILABLE_RESOURCE, None), msg_q_data)
         else if linked_list_empty (msg_list q) \<noteq> 0 then Some ((other_value eLINKED_LIST_EMPTY, None), msg_q_data)
         else do {
           (rv, d, l) \<leftarrow> linked_list_remove True (msg_list q);
           Some ((convert_linked_list_err_type rv, d), Some (q\<lparr>msg_list := l\<rparr>))
         })"

definition msg_q_flush ::
  "('d, 'f) msg_q option \<Rightarrow> (msq_q_err_type \<times> ('d, 'f) msg_q option) option" where
  "msg_q_flush msg_q_data =
     (case msg_q_data of None \<Rightarrow> Some (eMSG_Q_INVALID_HANDLE, msg_q_data)
      | Some q \<Rightarrow> do {
          (rv, l) \<leftarrow> linked_list_flush (msg_list q);
          Some (convert_linked_list_err_type rv, Some (q\<lparr>msg_list := l\<rparr>))
        })"

definition msg_q_unblock :: "('d, 'f) msg_q option \<Rightarrow> msq_q_err_type \<times> ('d, 'f) msg_q option" where
  "msg_q_unblock msg_q_data =
     (case msg_q_data of None \<Rightarrow> (eMSG_Q_INVALID_HANDLE, msg_q_data)
      | Some q \<Rightarrow>
         if unblocked q then (eMSG_Q_UNAVAILABLE_RESOURCE, msg_q_data)
         else (eMSG_Q_SUCCESS, Some (pthread_cond_broadcast (q\<lparr>unblocked := True\<rparr>))))"

section \<open>Interleavings\<close>

text \<open>
  The operations of the threads on one queue. A step is possible when \<open>malloc\<close> returns an address
  that is not in use, a signal wakes a waiting thread, a thread calls \<open>msg_q_rcv\<close> only when it is
  not inside it, and a thread resumes only after it was woken.
\<close>

datatype ('d, 'f) q_op =
    Snd "addr option" "tid option" 'd "'f option" | Rcv tid | Resume tid | Spurious tid | Rmv tid | Flush | Unblock

datatype ('d, 'f) q_out =
    Accepted 'd "'f option" | Refused 'd msq_q_err_type | Received tid 'd | Failed tid msq_q_err_type | Dealloc 'f 'd

fun rcv_out :: "tid \<Rightarrow> (msq_q_err_type \<times> 'd option) option \<Rightarrow> ('d, 'f) q_out list" where
  "rcv_out t None = []"
| "rcv_out t (Some (err, Some d)) = [Received t d]"
| "rcv_out t (Some (err, None)) = [Failed t err]"

fun q_ok :: "('d, 'f) q_op \<Rightarrow> ('d, 'f) msg_q \<Rightarrow> bool" where
  "q_ok (Snd a who d f) q \<longleftrightarrow>
     (case (a, msg_list q) of (Some x, Some l) \<Rightarrow> elems l x = None | _ \<Rightarrow> True) \<and>
     (sleepers q = [] \<or> (case who of None \<Rightarrow> False | Some t \<Rightarrow> t \<in> set (sleepers q)))"
| "q_ok (Rcv t) q \<longleftrightarrow> t \<notin> set (sleepers q) \<union> set (woken q)"
| "q_ok (Resume t) q \<longleftrightarrow> t \<in> set (woken q)"
| "q_ok (Spurious t) q \<longleftrightarrow> t \<in> set (sleepers q)"
| "q_ok _ q \<longleftrightarrow> True"

definition new_deallocs :: "('d, 'f) list_state option \<Rightarrow> ('d, 'f) list_state option \<Rightarrow> ('d, 'f) q_out list" where
  "new_deallocs l l' = (case (l, l') of
     (Some l, Some l') \<Rightarrow> map (\<lambda>(f, d). Dealloc f d) (drop (length (deallocs l)) (deallocs l')) | _ \<Rightarrow> [])"

fun q_do :: "('d, 'f) q_op \<Rightarrow> ('d, 'f) msg_q \<Rightarrow> (('d, 'f) msg_q \<times> ('d, 'f) q_out list) option" where
  "q_do (Snd a who d f) q = do {
     (rv, q) \<leftarrow> msg_q_snd a who (Some d) f (Some q);
     q \<leftarrow> q;
     Some (q, [if rv = eMSG_Q_SUCCESS then Accepted d f else Refused d rv])
   }"
| "q_do (Rcv t) q = do { (r, q) \<leftarrow> msg_q_rcv t True (Some q); q \<leftarrow> q; Some (q, rcv_out t r) }"
| "q_do (Resume t) q = do { (r, q) \<leftarrow> rcv_resume t q; Some (q, rcv_out t r) }"
| "q_do (Spurious t) q = Some (q\<lparr>sleepers := remove1 t (sleepers q), woken := t # woken q\<rparr>, [])"
| "q_do (Rmv t) q = do { (r, q) \<leftarrow> msg_q_rmv True (Some q); q \<leftarrow> q; Some (q, rcv_out t (Some r)) }"
| "q_do Flush q = do { (rv, q') \<leftarrow> msg_q_flush (Some q); q' \<leftarrow> q'; Some (q', new_deallocs (msg_list q) (msg_list q')) }"
| "q_do Unblock q = do { q \<leftarrow> snd (msg_q_unblock (Some q)); Some (q, []) }"

definition q_step :: "('d, 'f) q_op \<Rightarrow> ('d, 'f) msg_q \<Rightarrow> (('d, 'f) msg_q \<times> ('d, 'f) q_out list) option" where
  "q_step op q = (if q_ok op q then q_do op q else None)"

definition q_start :: "('d, 'f) msg_q" where
  "q_start = the (msg_q_init2 True True True True)"

section \<open>Invariant\<close>

text \<open>
  The list is consistent, no thread is in two places, every message has a thread on its way to it as
  long as any thread sleeps, and nobody sleeps after an unblock.
\<close>

definition holding :: "('d, 'f) msg_q \<Rightarrow> ('d, 'f) list_state \<Rightarrow> ('d \<times> 'f option) list \<Rightarrow> bool" where
  "holding q l xs \<longleftrightarrow> msg_list q = Some l \<and> represents l xs"

definition threads_ok :: "nat \<Rightarrow> ('d, 'f) msg_q \<Rightarrow> bool" where
  "threads_ok n q \<longleftrightarrow> distinct (sleepers q @ woken q) \<and> (n \<le> length (woken q) \<or> sleepers q = []) \<and>
     (unblocked q \<longrightarrow> sleepers q = [])"

definition q_inv :: "('d, 'f) msg_q \<Rightarrow> bool" where
  [guard_defs]: "q_inv q \<longleftrightarrow> (\<exists>l xs. holding q l xs \<and> threads_ok (length xs) q)"

lemma start_sel [simp]: "msg_list q_start = Some new_list" "unblocked q_start = False" "sleepers q_start = []" "woken q_start = []"
  by (simp_all add: q_start_def msg_q_init2_def msg_q_init_def linked_list_init_def)

lemma start_inv: "q_inv q_start"
  using represents_new by (fastforce simp: q_inv_def holding_def threads_ok_def)

text \<open>What one step does to the messages, the account of the queue's client.\<close>

fun moved :: "bool \<Rightarrow> ('d \<times> 'f option) list \<Rightarrow> ('d, 'f) q_out list \<Rightarrow> ('d \<times> 'f option) list \<Rightarrow> bool" where
  "moved True xs out ys \<longleftrightarrow> ys = [] \<and> out = map (\<lambda>(f, d). Dealloc f d) (dealloc_calls xs)"
| "moved False xs [Accepted d f] ys \<longleftrightarrow> ys = (d, f) # xs"
| "moved False xs [Received t d] ys \<longleftrightarrow> (\<exists>f. xs = ys @ [(d, f)])"
| "moved False xs [Refused d err] ys \<longleftrightarrow> ys = xs"
| "moved False xs [Failed t err] ys \<longleftrightarrow> ys = xs"
| "moved False xs [] ys \<longleftrightarrow> ys = xs"
| "moved False xs out ys \<longleftrightarrow> False"

lemma signal_cases:
  assumes "q_ok (Snd a who d f) q" "sleepers q' = sleepers q"
  shows "\<exists>q''. pthread_cond_signal who q' = Some q'' \<and> msg_list q'' = msg_list q' \<and> unblocked q'' = unblocked q' \<and>
     (sleepers q = [] \<and> sleepers q'' = [] \<and> woken q'' = woken q' \<or>
      (\<exists>t \<in> set (sleepers q). sleepers q'' = remove1 t (sleepers q) \<and> woken q'' = t # woken q'))"
  using assms by (auto simp: pthread_cond_signal_def split: option.splits)

lemma snd_step:
  assumes h: "holding q l xs" "threads_ok (length xs) q" and ok: "q_ok (Snd a who d f) q"
  shows "\<exists>q' o' l' ys. q_do (Snd a who d f) q = Some (q', [o']) \<and> holding q' l' ys \<and> threads_ok (length ys) q' \<and>
     moved False xs [o'] ys"
proof (cases "unblocked q")
  case True
  then show ?thesis using h by (auto simp: msg_q_snd_def holding_def )
next
  case False
  let ?ys = "if a = None then xs else (d, f) # xs" and ?rv = "if a = None then eLINKED_LIST_FAILURE_GENERAL else eLINKED_LIST_SUCCESS"
  have "\<exists>l'. linked_list_add a (Some d) f (Some l) = Some (?rv, Some l') \<and> represents l' ?ys"
  proof (cases a)
    case None
    with h(1) show ?thesis by (simp add: holding_def linked_list_add_def)
  next
    case (Some x)
    then have "elems l x = None" using ok h(1) by (simp add: holding_def)
    with Some add_represents [of l xs x d f] h(1) show ?thesis by (auto simp: holding_def)
  qed
  then obtain l' where add: "linked_list_add a (Some d) f (Some l) = Some (?rv, Some l')" "represents l' ?ys" by blast
  obtain q' where q': "pthread_cond_signal who (q\<lparr>msg_list := Some l'\<rparr>) = Some q'" "msg_list q' = Some l'" "unblocked q' = unblocked q"
    "sleepers q = [] \<and> sleepers q' = [] \<and> woken q' = woken q \<or>
      (\<exists>t \<in> set (sleepers q). sleepers q' = remove1 t (sleepers q) \<and> woken q' = t # woken q)"
    using signal_cases [OF ok, of "q\<lparr>msg_list := Some l'\<rparr>", simplified] by blast
  have "threads_ok (length ?ys) q'" using h(2) q'(3,4) by (auto simp: threads_ok_def)
  moreover have "q_do (Snd a who d f) q = Some (q', [if a = None then Refused d eMSG_Q_FAILURE_GENERAL else Accepted d f])"
    using h(1) False add(1) q'(1) by (simp add: msg_q_snd_def holding_def)
  moreover have "holding q' l' ?ys" using add(2) q'(2) by (simp add: holding_def)
  moreover have "moved False xs [if a = None then Refused d eMSG_Q_FAILURE_GENERAL else Accepted d f] ?ys"
    by simp
  ultimately show ?thesis by blast
qed


lemma last_pair: "xs \<noteq> [] \<Longrightarrow> \<exists>f. xs = butlast xs @ [(fst (last xs), f)]"
  by (rule exI [of _ "snd (last xs)"]) simp

lemma remove_step:
  assumes "represents l xs" "xs \<noteq> []"
  shows "\<exists>l'. linked_list_remove True (Some l) = Some (eLINKED_LIST_SUCCESS, Some (fst (last xs)), Some l') \<and> represents l' (butlast xs)"
proof -
  from last_pair [OF assms(2)] obtain f where "xs = butlast xs @ [(fst (last xs), f)]" by blast
  then show ?thesis using remove_represents [of l "butlast xs" "fst (last xs)" f] assms(1) by auto
qed

text \<open>One round of the receiving loop, for a thread that holds the mutex and is nowhere else.\<close>

lemma rcv_loop_step:
  assumes h: "holding q l xs" and t: "distinct (t # sleepers q @ woken q)"
    and n: "xs = [] \<or> length xs \<le> Suc (length (woken q)) \<or> sleepers q = []" "unblocked q \<longrightarrow> sleepers q = []"
  shows "\<exists>r q' l' ys. rcv_loop t q = Some (r, q') \<and> holding q' l' ys \<and> threads_ok (length ys) q' \<and>
     moved False xs (rcv_out t r) ys \<and> (r = None \<longleftrightarrow> xs = [] \<and> \<not> unblocked q) \<and>
     (xs \<noteq> [] \<longrightarrow> r = Some (eMSG_Q_SUCCESS, Some (fst (last xs))))"
proof (cases "xs = []")
  case True
  with h have e: "linked_list_empty (msg_list q) = 1" using empty_represents [of l xs] by (simp add: holding_def)
  show ?thesis
  proof (cases "unblocked q")
    case True
    then have "rcv_loop t q = Some (Some (eMSG_Q_UNAVAILABLE_RESOURCE, None), q)"
      using h remove_empty [of l True] \<open>xs = []\<close> by (auto simp: rcv_loop_def holding_def)
    with h t n True \<open>xs = []\<close> show ?thesis by (auto simp: threads_ok_def )
  next
    case False
    with e have "rcv_loop t q = Some (None, pthread_cond_wait t q)" by (simp add: rcv_loop_def)
    with h t n False \<open>xs = []\<close> show ?thesis
      by (auto simp: threads_ok_def  pthread_cond_wait_def holding_def)
  qed
next
  case False
  with h have e: "linked_list_empty (msg_list q) = 0" using empty_represents [of l xs] by (simp add: holding_def)
  obtain l' where l': "linked_list_remove True (Some l) = Some (eLINKED_LIST_SUCCESS, Some (fst (last xs)), Some l')" "represents l' (butlast xs)"
    using remove_step [of l xs] h False by (auto simp: holding_def)
  let ?q = "q\<lparr>msg_list := Some l'\<rparr>"
  have run: "rcv_loop t q = Some (Some (eMSG_Q_SUCCESS, Some (fst (last xs))), ?q)"
    using e l'(1) h by (simp add: rcv_loop_def holding_def)
  have "moved False xs [Received t (fst (last xs))] (butlast xs)" using last_pair [OF False] by simp
  moreover have "holding ?q l' (butlast xs)" "threads_ok (length (butlast xs)) ?q"
    using l'(2) t n False by (auto simp: holding_def threads_ok_def)
  ultimately show ?thesis using run False by (intro exI conjI) auto
qed

text \<open>Every possible step is defined and keeps the invariant; the list changes as \<open>moved\<close> says.\<close>

lemma q_do_step:
  assumes h: "holding q l xs" "threads_ok (length xs) q" and ok: "q_ok op q"
  shows "\<exists>q' out l' ys. q_do op q = Some (q', out) \<and> holding q' l' ys \<and> threads_ok (length ys) q' \<and> moved (op = Flush) xs out ys"
proof (cases op)
  case (Snd a who d f)
  then show ?thesis using snd_step [OF h, of a who d f] ok by fastforce
next
  case (Rcv t)
  show ?thesis
  proof (cases "unblocked q")
    case True
    then show ?thesis using h Rcv by (auto simp: msg_q_rcv_def )
  next
    case False
    then show ?thesis
      using rcv_loop_step [of q l xs t] h ok Rcv by (fastforce simp: msg_q_rcv_def threads_ok_def)
  qed
next
  case (Resume t)
  let ?q = "q\<lparr>woken := remove1 t (woken q)\<rparr>"
  have "holding ?q l xs" "distinct (t # sleepers ?q @ woken ?q)"
    "xs = [] \<or> length xs \<le> Suc (length (woken ?q)) \<or> sleepers ?q = []" "unblocked ?q \<longrightarrow> sleepers ?q = []"
    using h ok Resume by (auto simp: holding_def threads_ok_def length_remove1)
  from rcv_loop_step [OF this] show ?thesis using Resume by (fastforce simp: rcv_resume_def)
next
  case (Spurious t)
  then show ?thesis using h ok by (auto simp: holding_def threads_ok_def )
next
  case (Rmv t)
  consider "unblocked q" | "xs = []" "\<not> unblocked q" | "xs \<noteq> []" "\<not> unblocked q" by blast
  then show ?thesis
  proof cases
    case 1
    then show ?thesis using h Rmv by (auto simp: msg_q_rmv_def )
  next
    case 2
    then have "linked_list_empty (msg_list q) = 1" using h(1) empty_represents [of l xs] by (simp add: holding_def)
    with 2 h Rmv show ?thesis by (auto simp: msg_q_rmv_def )
  next
    case 3
    then have e: "linked_list_empty (msg_list q) = 0" using h(1) empty_represents [of l xs] by (simp add: holding_def)
    obtain l' where l': "linked_list_remove True (Some l) = Some (eLINKED_LIST_SUCCESS, Some (fst (last xs)), Some l')"
      "represents l' (butlast xs)" using remove_step [of l xs] h(1) 3 by (auto simp: holding_def)
    have "q_do op q = Some (q\<lparr>msg_list := Some l'\<rparr>, [Received t (fst (last xs))])"
      using e l'(1) h(1) 3 Rmv by (simp add: msg_q_rmv_def holding_def)
    moreover have "moved (op = Flush) xs [Received t (fst (last xs))] (butlast xs)" using last_pair [OF 3(1)] Rmv by simp
    ultimately show ?thesis using l'(2) h(2) 3 by (auto simp: holding_def threads_ok_def)
  qed
next
  case Flush
  obtain l' where l': "linked_list_flush (Some l) = Some (eLINKED_LIST_SUCCESS, Some l')" "represents l' []"
    "deallocs l' = deallocs l @ dealloc_calls xs" using flush_represents [of l xs] h(1) by (auto simp: holding_def)
  let ?out = "map (\<lambda>(f, d). Dealloc f d) (dealloc_calls xs)"
  have "q_do op q = Some (q\<lparr>msg_list := Some l'\<rparr>, ?out)"
    using h(1) l' Flush by (simp add: msg_q_flush_def holding_def new_deallocs_def)
  moreover have "moved (op = Flush) xs ?out []" using Flush by (auto split: list.splits q_out.splits)
  ultimately show ?thesis using h(2) l'(2) by (auto simp: holding_def threads_ok_def)
next
  case Unblock
  then show ?thesis using h
    by (cases "unblocked q") (auto simp: msg_q_unblock_def pthread_cond_broadcast_def holding_def threads_ok_def )
qed


interpretation queue: machine q_step q_start q_inv q_ok
proof
  show "q_inv q_start" by (rule start_inv)
  fix q op q' out
  assume inv: "q_inv q"
  then obtain l xs where h: "holding q l xs" "threads_ok (length xs) q" by (auto simp: q_inv_def)
  show "q_inv q'" if "q_step op q = Some (q', out)"
    using that q_do_step [OF h, of op] by (auto simp: q_step_def q_inv_def split: if_splits)
  show "q_step op q \<noteq> None" if "q_ok op q"
    using that q_do_step [OF h, of op] by (auto simp: q_step_def)
qed

section \<open>Accounts\<close>

fun accepted :: "('d, 'f) q_out list \<Rightarrow> ('d \<times> 'f option) list" where
  "accepted [] = []"
| "accepted (Accepted d f # out) = (d, f) # accepted out"
| "accepted (_ # out) = accepted out"

fun refused :: "('d, 'f) q_out list \<Rightarrow> 'd list" where
  "refused [] = []"
| "refused (Refused d err # out) = d # refused out"
| "refused (_ # out) = refused out"

fun received :: "('d, 'f) q_out list \<Rightarrow> 'd list" where
  "received [] = []"
| "received (Received t d # out) = d # received out"
| "received (_ # out) = received out"

fun deallocated :: "('d, 'f) q_out list \<Rightarrow> ('f \<times> 'd) list" where
  "deallocated [] = []"
| "deallocated (Dealloc f d # out) = (f, d) # deallocated out"
| "deallocated (_ # out) = deallocated out"

lemma accounts_append [simp]: "accepted (a @ b) = accepted a @ accepted b" "received (a @ b) = received a @ received b"
  by (induction a rule: accepted.induct) auto

lemma accounts_deallocs [simp]: "accepted (map (\<lambda>(f, d). Dealloc f d) xs) = []" "received (map (\<lambda>(f, d). Dealloc f d) xs) = []"
  "refused (map (\<lambda>(f, d). Dealloc f d) xs) = []" "deallocated (map (\<lambda>(f, d). Dealloc f d) xs) = xs"
  by (induction xs) auto

lemma dealloc_all: "\<forall>x \<in> set xs. snd x \<noteq> None \<Longrightarrow> map snd (dealloc_calls xs) = map fst xs"
  by (induction xs) auto

lemma step_ledger:
  assumes h: "holding q l xs" "threads_ok (length xs) q" and led: "ledger represents ins outs l" and step: "q_step op q = Some (q', out)"
  shows "\<exists>l' ys outs'. holding q' l' ys \<and> threads_ok (length ys) q' \<and> ledger represents (ins @ accepted out) outs' l' \<and>
     (op \<noteq> Flush \<longrightarrow> map fst outs' = map fst outs @ received out) \<and>
     ((\<forall>x \<in> set ins. snd x \<noteq> None) \<longrightarrow> mset (map fst outs') = mset (map fst outs) + mset (received out) + mset (map snd (deallocated out)))"
proof -
  from q_do_step [OF h, of op] step obtain l' ys where
    s: "holding q' l' ys" "threads_ok (length ys) q'" "moved (op = Flush) xs out ys"
    by (auto simp: q_step_def split: if_splits)
  have r: "represents l xs" "represents l' ys" using h(1) s(1) by (auto simp: holding_def)
  note ins = ll.ledger_rep [OF led r(1)]
  show ?thesis
  proof (cases "op = Flush")
    case True
    with s have "ledger represents ins ins l'" "out = map (\<lambda>(f, d). Dealloc f d) (dealloc_calls xs)"
      using ll.ledger_clear r(2) by auto
    with s True ins dealloc_all [of xs] show ?thesis by (intro exI [of _ l'] exI [of _ ys] exI [of _ ins]) auto
  next
    case False
    with s(3) have "moved False xs out ys" by simp
    then consider d f where "out = [Accepted d f]" "ys = (d, f) # xs" | t d f where "out = [Received t d]" "xs = ys @ [(d, f)]"
      | "accepted out = []" "received out = []" "deallocated out = []" "ys = xs"
      by (cases "(False, xs, out, ys)" rule: moved.cases) auto
    then show ?thesis
    proof cases
      case (1 d f)
      with ll.ledger_in [OF led r(1), of l' "(d, f)"] r(2) s show ?thesis
        by (intro exI [of _ l'] exI [of _ ys] exI [of _ outs]) auto
    next
      case (2 t d f)
      with ll.ledger_out [OF led, of ys "(d, f)" l'] r s show ?thesis
        by (intro exI [of _ l'] exI [of _ ys] exI [of _ "outs @ [(d, f)]"]) auto
    next
      case 3
      with ll.ledger_same [OF led r(1), of l'] r(2) s show ?thesis
        by (intro exI [of _ l'] exI [of _ ys] exI [of _ outs]) auto
    qed
  qed
qed


lemma run_ledger:
  assumes "holding q l xs" "threads_ok (length xs) q" "ledger represents ins outs l" "run q_step ops q = Some (q', out)"
  shows "\<exists>l' ys outs'. holding q' l' ys \<and> threads_ok (length ys) q' \<and> ledger represents (ins @ accepted out) outs' l' \<and>
     (Flush \<notin> set ops \<longrightarrow> map fst outs' = map fst outs @ received out)"
  using assms
proof (induction ops arbitrary: q l xs ins outs out)
  case Nil
  then show ?case by auto
next
  case (Cons op ops)
  from Cons.prems(4) obtain q1 o1 o2 where r: "q_step op q = Some (q1, o1)" "run q_step ops q1 = Some (q', o2)" "out = o1 @ o2"
    by (rule run_ConsE)
  from step_ledger [OF Cons.prems(1-3) r(1)] obtain l1 ys outs1 where
    1: "holding q1 l1 ys" "threads_ok (length ys) q1" "ledger represents (ins @ accepted o1) outs1 l1"
      "op \<noteq> Flush \<longrightarrow> map fst outs1 = map fst outs @ received o1" by blast
  from Cons.IH [OF 1(1-3) r(2)] obtain l' ys' outs' where
    2: "holding q' l' ys'" "threads_ok (length ys') q'" "ledger represents ((ins @ accepted o1) @ accepted o2) outs' l'"
      "Flush \<notin> set ops \<longrightarrow> map fst outs' = map fst outs1 @ received o2" by blast
  then show ?case
    by (intro exI [of _ l'] exI [of _ ys'] exI [of _ outs']) (use 1(4) r(3) in auto)
qed

lemma start_ledger: "ledger represents [] [] (new_list :: ('d, 'f) list_state)"
  using ll.ledger_start [OF represents_new] .

section \<open>The message task\<close>

text \<open>
  \<open>MsgTask\<close>: the queue that the task and its thread share, and whether the thread's loop still
  calls \<open>MTRunnable::run\<close>. The thread is number 0 on the queue. All messages are sent with
  \<open>LocMsgDestroy\<close>, the only deallocation function. After the destructor of the runnable the
  queue is gone, and using it is undefined.
\<close>

record 'm task =
  t_q :: "('m, unit) msg_q option"
  t_running :: bool

definition LocMsgDestroy :: unit where "LocMsgDestroy = ()"

datatype 'm task_op =
    SendMsg "addr option" "tid option" "'m option" | RunTask | RunResumed | RunSpurious | Interrupt | Destroy

datatype 'm task_out = Processed 'm | Deleted 'm | Leaked 'm

text \<open>\<open>sendMsg\<close> ignores the result: a message the queue does not take is lost.\<close>

fun task_event :: "('m, unit) q_out \<Rightarrow> 'm task_out list" where
  "task_event (Accepted m f) = []"
| "task_event (Refused m err) = [Leaked m]"
| "task_event (Received t m) = [Processed m, Deleted m]"
| "task_event (Failed t err) = []"
| "task_event (Dealloc f m) = [Deleted m]"

definition on_queue :: "('m, unit) q_op \<Rightarrow> 'm task \<Rightarrow> ('m task \<times> ('m, unit) q_out list) option" where
  "on_queue op s = do { q \<leftarrow> t_q s; (q, out) \<leftarrow> q_step op q; Some (s\<lparr>t_q := Some q\<rparr>, out) }"

definition sendMsg :: "addr option \<Rightarrow> tid option \<Rightarrow> 'm option \<Rightarrow> 'm task \<Rightarrow> ('m task \<times> ('m, unit) q_out list) option" where
  "sendMsg malloc_result who msg s =
     (case msg of Some m \<Rightarrow> on_queue (Snd malloc_result who m (Some LocMsgDestroy)) s | None \<Rightarrow> Some (s, []))"

text \<open>
  \<open>run\<close> up to the point where the thread sleeps (\<open>Rcv\<close>) or from there on (\<open>Resume\<close>). It
  returns false when receiving fails, and the loop of the thread ends; a message is processed and
  deleted (\<open>task_event\<close>).
\<close>

definition MTRunnable_run :: "('m, unit) q_op \<Rightarrow> 'm task \<Rightarrow> ('m task \<times> ('m, unit) q_out list) option" where
  "MTRunnable_run op s =
     (if \<not> t_running s then None
      else do {
        (s, out) \<leftarrow> on_queue op s;
        Some (s\<lparr>t_running := (\<forall>x \<in> set out. case x of Failed t err \<Rightarrow> False | _ \<Rightarrow> True)\<rparr>, out)
      })"

definition MTRunnable_destructor :: "'m task \<Rightarrow> ('m task \<times> ('m, unit) q_out list) option" where
  "MTRunnable_destructor s =
     (if t_running s then None
      else do {
        (s, out) \<leftarrow> on_queue Flush s;
        (_, calls) \<leftarrow> msg_q_destroy (Some (t_q s));
        Some (s\<lparr>t_q := None\<rparr>, out)
      })"

fun task_do :: "'m task_op \<Rightarrow> 'm task \<Rightarrow> ('m task \<times> ('m, unit) q_out list) option" where
  "task_do (SendMsg a who msg) s = sendMsg a who msg s"
| "task_do RunTask s = MTRunnable_run (Rcv 0) s"
| "task_do RunResumed s = MTRunnable_run (Resume 0) s"
| "task_do RunSpurious s = on_queue (Spurious 0) s"
| "task_do Interrupt s = on_queue Unblock s"
| "task_do Destroy s = MTRunnable_destructor s"

definition task_step :: "'m task_op \<Rightarrow> 'm task \<Rightarrow> ('m task \<times> 'm task_out list) option" where
  "task_step op s = map_option (\<lambda>(s, out). (s, concat (map task_event out))) (task_do op s)"

definition task_start :: "'m task" where
  "task_start = \<lparr>t_q = msg_q_init2 True True True True, t_running = True\<rparr>"


fun q_sent :: "('d, 'f) q_op \<Rightarrow> 'd list" where
  "q_sent (Snd a who d f) = [d]"
| "q_sent _ = []"

lemma no_sends [simp]:
  "accepted (rcv_out t r) = []" "refused (rcv_out t r) = []" "accepted (new_deallocs l l') = []" "refused (new_deallocs l l') = []"
  by (cases "(t, r)" rule: rcv_out.cases; auto simp: new_deallocs_def split: option.splits)+

lemma step_sent: "q_step op q = Some (q', out) \<Longrightarrow> map fst (accepted out) @ refused out = q_sent op"
  by (cases op) (auto simp: q_step_def bind_eq_Some_conv split: if_splits)


section \<open>Accounting for the messages of a task\<close>

fun deleted :: "'m task_out list \<Rightarrow> 'm list" where
  "deleted [] = []"
| "deleted (Deleted m # out) = m # deleted out"
| "deleted (_ # out) = deleted out"

fun processed :: "'m task_out list \<Rightarrow> 'm list" where
  "processed [] = []"
| "processed (Processed m # out) = m # processed out"
| "processed (_ # out) = processed out"

fun leaked :: "'m task_out list \<Rightarrow> 'm list" where
  "leaked [] = []"
| "leaked (Leaked m # out) = m # leaked out"
| "leaked (_ # out) = leaked out"

fun sent :: "'m task_op list \<Rightarrow> 'm list" where
  "sent [] = []"
| "sent (SendMsg a who (Some m) # ops) = m # sent ops"
| "sent (_ # ops) = sent ops"

lemma task_append [simp]: "deleted (a @ b) = deleted a @ deleted b" "leaked (a @ b) = leaked a @ leaked b" "processed (a @ b) = processed a @ processed b"
  by (induction a rule: deleted.induct) auto

lemma task_events:
  "leaked (concat (map task_event out)) = refused out" "processed (concat (map task_event out)) = received out"
  "mset (deleted (concat (map task_event out))) = mset (received out) + mset (map snd (deallocated out))"
  by (induction out rule: deallocated.induct) auto

lemma sent_Cons: "sent (op # ops) = sent [op] @ sent ops"
  by (cases "op # ops" rule: sent.cases) auto

text \<open>The messages a task's queue holds; every one has a deallocation function.\<close>

definition queued :: "'m task \<Rightarrow> 'm list \<Rightarrow> bool" where
  "queued s ms \<longleftrightarrow> (case t_q s of None \<Rightarrow> ms = []
     | Some q \<Rightarrow> \<exists>l xs. holding q l xs \<and> threads_ok (length xs) q \<and> (\<forall>x \<in> set xs. snd x \<noteq> None) \<and> ms = map fst xs)"

fun with_dealloc :: "('d, 'f) q_op \<Rightarrow> bool" where
  "with_dealloc (Snd a who d f) \<longleftrightarrow> f \<noteq> None"
| "with_dealloc _ \<longleftrightarrow> True"

lemma on_queue_account:
  assumes "queued s ms" "on_queue op s = Some (s', out)" "with_dealloc op"
  shows "\<exists>ms'. queued s' ms' \<and> t_running s' = t_running s \<and>
     mset ms + mset (q_sent op) = mset ms' + mset (refused out) + mset (received out) + mset (map snd (deallocated out))"
proof -
  from assms(2) obtain q q' where q: "t_q s = Some q" "q_step op q = Some (q', out)" "s' = s\<lparr>t_q := Some q'\<rparr>"
    by (auto simp: on_queue_def bind_eq_Some_conv)
  with assms(1) obtain l xs where h: "holding q l xs" "threads_ok (length xs) q" and some: "\<forall>x \<in> set xs. snd x \<noteq> None" and ms: "ms = map fst xs"
    by (auto simp: queued_def)
  from q_do_step [OF h, of op] q(2) obtain l' ys where s: "holding q' l' ys" "threads_ok (length ys) q'" "moved (op = Flush) xs out ys"
    by (auto simp: q_step_def split: if_splits)
  have sent: "mset (q_sent op) = mset (map fst (accepted out)) + mset (refused out)" using step_sent [OF q(2)] by (metis mset_append)
  have acc: "snd x \<noteq> None" if "x \<in> set (accepted out)" for x
  proof (cases op)
    case (Snd a who d f)
    with q(2) assms(3) that show ?thesis by (auto simp: q_step_def bind_eq_Some_conv split: if_splits)
  qed (use q(2) that in \<open>auto simp: q_step_def bind_eq_Some_conv split: if_splits\<close>)
  have acct: "(\<forall>x \<in> set ys. snd x \<noteq> None) \<and> mset (map fst xs) + mset (map fst (accepted out)) =
      mset (map fst ys) + mset (received out) + mset (map snd (deallocated out))"
  proof (cases "op = Flush")
    case True
    then show ?thesis using s(3) dealloc_all [OF some] by auto
  next
    case False
    with s(3) have "moved False xs out ys" by simp
    then show ?thesis
      using some acc by (cases "(False, xs, out, ys)" rule: moved.cases) auto
  qed
  then have "queued s' (map fst ys)" unfolding queued_def q(3) using s(1,2) by auto
  with acct show ?thesis by (intro exI [of _ "map fst ys"]) (simp add: q(3) ms sent)
qed

lemma task_step_account:
  assumes "queued s ms" "task_step op s = Some (s', out)"
  shows "\<exists>ms'. queued s' ms' \<and> mset ms + mset (sent [op]) = mset ms' + mset (leaked out) + mset (deleted out)"
proof -
  from assms(2) obtain qout where d: "task_do op s = Some (s', qout)" "out = concat (map task_event qout)"
    by (auto simp: task_step_def)
  have Q: "\<exists>ms'. queued s1 ms' \<and> mset ms + mset (q_sent qop) = mset ms' + mset (leaked out) + mset (deleted out)"
    if "on_queue qop s = Some (s1, qout)" "with_dealloc qop" for qop s1
    using on_queue_account [OF assms(1) that] by (auto simp: d(2) task_events ac_simps)
  have running: "queued (s1\<lparr>t_running := b\<rparr>) ms' = queued s1 ms'" for s1 b ms' by (simp add: queued_def)
  show ?thesis
  proof (cases op)
    case (SendMsg a who msg)
    show ?thesis
    proof (cases msg)
      case None
      with SendMsg d assms(1) show ?thesis by (auto simp: sendMsg_def)
    next
      case (Some m)
      with SendMsg d Q [of "Snd a who m (Some LocMsgDestroy)" s'] show ?thesis by (auto simp: sendMsg_def)
    qed
  next
    case RunTask
    with d obtain s1 where "on_queue (Rcv 0) s = Some (s1, qout)" "\<exists>b. s' = s1\<lparr>t_running := b\<rparr>"
      by (auto simp: MTRunnable_run_def bind_eq_Some_conv split: if_splits)
    with Q [of "Rcv 0" s1] running RunTask show ?thesis by auto
  next
    case RunResumed
    with d obtain s1 where "on_queue (Resume 0) s = Some (s1, qout)" "\<exists>b. s' = s1\<lparr>t_running := b\<rparr>"
      by (auto simp: MTRunnable_run_def bind_eq_Some_conv split: if_splits)
    with Q [of "Resume 0" s1] running RunResumed show ?thesis by auto
  next
    case RunSpurious
    with d Q [of "Spurious 0" s'] show ?thesis by auto
  next
    case Interrupt
    with d Q [of Unblock s'] show ?thesis by auto
  next
    case Destroy
    with d obtain s1 where s1: "on_queue Flush s = Some (s1, qout)" "s' = s1\<lparr>t_q := None\<rparr>"
      by (auto simp: MTRunnable_destructor_def bind_eq_Some_conv split: if_splits)
    from s1(1) obtain q q' where q: "t_q s = Some q" "q_step Flush q = Some (q', qout)" "t_q s1 = Some q'"
      by (auto simp: on_queue_def bind_eq_Some_conv)
    with assms(1) obtain l xs where h: "holding q l xs" "threads_ok (length xs) q" by (auto simp: queued_def)
    from q_do_step [OF h, of Flush] q(2) obtain l' where h': "holding q' l' []" by (auto simp: q_step_def)
    from Q [OF s1(1)] obtain ms' where ms': "queued s1 ms'" "mset ms = mset ms' + mset (leaked out) + mset (deleted out)" by auto
    moreover have "ms' = []" using ms'(1) q(3) h' ll.rep_det by (auto simp: queued_def holding_def)
    ultimately show ?thesis using s1(2) Destroy by (auto simp: queued_def)
  qed
qed

lemma task_run_account:
  assumes "queued s ms" "run task_step ops s = Some (s', out)"
  shows "\<exists>ms'. queued s' ms' \<and> mset ms + mset (sent ops) = mset ms' + mset (leaked out) + mset (deleted out)"
  using assms
proof (induction ops arbitrary: s ms out)
  case (Cons op ops)
  from Cons.prems(2) obtain s1 o1 o2 where r: "task_step op s = Some (s1, o1)" "run task_step ops s1 = Some (s', o2)" "out = o1 @ o2"
    by (rule run_ConsE)
  from task_step_account [OF Cons.prems(1) r(1)] obtain ms1 where
    1: "queued s1 ms1" "mset ms + mset (sent [op]) = mset ms1 + mset (leaked o1) + mset (deleted o1)" by blast
  from Cons.IH [OF 1(1) r(2)] obtain ms' where
    2: "queued s' ms'" "mset ms1 + mset (sent ops) = mset ms' + mset (leaked o2) + mset (deleted o2)" by blast
  have "mset ms + mset (sent (op # ops)) = (mset ms + mset (sent [op])) + mset (sent ops)" by (subst sent_Cons) simp
  also have "\<dots> = (mset ms1 + mset (sent ops)) + (mset (leaked o1) + mset (deleted o1))" unfolding 1(2) by (simp add: ac_simps)
  also have "\<dots> = mset ms' + mset (leaked out) + mset (deleted out)" unfolding 2(2) r(3) by (simp add: ac_simps)
  finally show ?case using 2(1) by blast
qed auto


section \<open>Properties\<close>

text \<open>
  C38. Under every interleaving of senders and receivers the queue is first in, first out: no
  operation is undefined, and as long as the queue is not flushed the messages received so far,
  followed by those still in the queue from the oldest on, are exactly the messages accepted, in the
  order in which they were accepted. Nothing is lost, duplicated or reordered.
\<close>

theorem msg_q_fifo:
  assumes "admitted q_step q_ok ops q_start"
  shows "\<exists>q out l xs. run q_step ops q_start = Some (q, out) \<and> msg_list q = Some l \<and> represents l xs \<and>
     (Flush \<notin> set ops \<longrightarrow> map fst (accepted out) = received out @ rev (map fst xs))"
proof -
  obtain q out where run: "run q_step ops q_start = Some (q, out)"
    using queue.run_defined [OF start_inv assms] by blast
  have h: "holding q_start new_list []" "threads_ok (length []) q_start"
    using represents_new by (simp_all add: holding_def threads_ok_def)
  from run_ledger [OF h start_ledger run] obtain l xs outs where
    1: "holding q l xs" "ledger represents (accepted out) outs l" "Flush \<notin> set ops \<longrightarrow> map fst outs = received out" by auto
  then have "accepted out = outs @ rev xs" using ll.ledger_rep by (auto simp: holding_def)
  with 1 run show ?thesis by (auto simp: holding_def rev_map)
qed

text \<open>One receiver goes to sleep, two messages are sent, and it takes the older one.\<close>

definition wit_ops :: "(string, unit) q_op list" where
  "wit_ops = [Rcv 0, Snd (Some 4) (Some 0) ''a'' None, Snd (Some 9) None ''b'' None, Resume 0]"

lemmas wit_simps = wit_ops_def q_step_def q_start_def msg_q_init2_def msg_q_init_def linked_list_init_def new_list_def
  msg_q_rcv_def rcv_loop_def linked_list_empty_def pthread_cond_wait_def msg_q_snd_def linked_list_add_def Let_def
  pthread_cond_signal_def rcv_resume_def linked_list_remove_def

lemma wit_ops_admitted: "admitted q_step q_ok wit_ops q_start"
  by (simp add: wit_simps)

theorem msg_q_fifo_witness:
  "\<exists>q out. run q_step wit_ops q_start = Some (q, out) \<and> out = [Accepted ''a'' None, Accepted ''b'' None, Received 0 ''a''] \<and>
     (\<exists>l xs. msg_list q = Some l \<and> represents l xs \<and> map fst (accepted out) = received out @ rev (map fst xs))"
proof -
  have "Flush \<notin> set wit_ops" by (simp add: wit_ops_def)
  moreover have "map_option snd (run q_step wit_ops q_start) = Some [Accepted ''a'' None, Accepted ''b'' None, Received 0 ''a'']"
    by (simp add: wit_simps)
  ultimately show ?thesis using msg_q_fifo [OF wit_ops_admitted] by auto
qed

text \<open>
  C39. No wake-up is lost: in every state the threads can bring about, as long as a receiver sleeps
  there are at least as many receivers on their way to the mutex as there are messages, and each of
  them takes the oldest message when it gets there. After an unblock no receiver sleeps, and one
  that gets the mutex returns.
\<close>

theorem msg_q_wakeups:
  assumes "reachable q_step q_start q"
  shows "\<exists>l xs. msg_list q = Some l \<and> represents l xs \<and> (sleepers q = [] \<or> length xs \<le> length (woken q)) \<and>
     (unblocked q \<longrightarrow> sleepers q = []) \<and>
     (\<forall>t \<in> set (woken q). \<exists>q' out. q_step (Resume t) q = Some (q', out) \<and>
        (xs \<noteq> [] \<longrightarrow> out = [Received t (fst (last xs))]) \<and> (unblocked q \<longrightarrow> out \<noteq> []))"
proof -
  from queue.reachable_inv [OF assms] obtain l xs where h: "holding q l xs" "threads_ok (length xs) q" by (auto simp: q_inv_def)
  have "\<exists>q' out. q_step (Resume t) q = Some (q', out) \<and>
      (xs \<noteq> [] \<longrightarrow> out = [Received t (fst (last xs))]) \<and> (unblocked q \<longrightarrow> out \<noteq> [])" if t: "t \<in> set (woken q)" for t
  proof -
    let ?q = "q\<lparr>woken := remove1 t (woken q)\<rparr>"
    have "holding ?q l xs" "distinct (t # sleepers ?q @ woken ?q)"
      "xs = [] \<or> length xs \<le> Suc (length (woken ?q)) \<or> sleepers ?q = []" "unblocked ?q \<longrightarrow> sleepers ?q = []"
      using h t by (auto simp: holding_def threads_ok_def length_remove1)
    from rcv_loop_step [OF this] obtain r q' where r: "rcv_loop t ?q = Some (r, q')" "r = None \<longleftrightarrow> xs = [] \<and> \<not> unblocked q"
      "xs \<noteq> [] \<longrightarrow> r = Some (eMSG_Q_SUCCESS, Some (fst (last xs)))" by auto
    have "rcv_out t r \<noteq> []" if "r \<noteq> None" using that by (cases "(t, r)" rule: rcv_out.cases) auto
    with r t show ?thesis by (auto simp: q_step_def rcv_resume_def)
  qed
  with h show ?thesis by (auto simp: holding_def threads_ok_def)
qed

theorem msg_q_wakeups_witness:
  "\<exists>q. run q_step (take 2 wit_ops) q_start = Some (q, [Accepted ''a'' None]) \<and> woken q = [0] \<and>
     (\<exists>q' out. q_step (Resume 0) q = Some (q', out))"
proof -
  obtain q where q: "run q_step (take 2 wit_ops) q_start = Some (q, [Accepted ''a'' None])" "woken q = [0]"
    by (simp add: wit_simps)
  from msg_q_wakeups [OF run_reachable [OF q(1)]] q show ?thesis by auto
qed

text \<open>
  A message task accounts for every message handed to it: after any sequence of sends, rounds
  of its thread, interruption and destruction, each message sent is, counted with multiplicity,
  either deleted exactly once (after it was processed, or by the flush of the destructor), or still
  in the queue, or lost because the queue did not take it and \<open>sendMsg\<close> ignored that.
\<close>

theorem msg_task_accounts:
  assumes "run task_step ops task_start = Some (s, out)"
  shows "\<exists>ms. queued s ms \<and> mset (sent ops) = mset (deleted out) + mset ms + mset (leaked out)"
proof -
  have "queued task_start []"
    using represents_new by (fastforce simp: queued_def task_start_def msg_q_init2_def msg_q_init_def linked_list_init_def
        holding_def threads_ok_def)
  from task_run_account [OF this assms] show ?thesis by (auto simp: ac_simps)
qed

text \<open>The thread sleeps, is woken by a message and processes it; after the interruption a send is lost.\<close>

definition wit_task :: "string task_op list" where
  "wit_task = [RunTask, SendMsg (Some 4) (Some 0) (Some ''a''), RunResumed, Interrupt, SendMsg (Some 5) None (Some ''b'')]"

theorem msg_task_accounts_witness:
  "\<exists>s out. run task_step wit_task task_start = Some (s, out) \<and> out = [Processed ''a'', Deleted ''a'', Leaked ''b''] \<and>
     (\<exists>ms. queued s ms \<and> mset [''a'', ''b''] = mset (deleted out) + mset ms + mset (leaked out))"
proof -
  obtain s where run: "run task_step wit_task task_start = Some (s, [Processed ''a'', Deleted ''a'', Leaked ''b''])"
    by (simp add: wit_task_def task_step_def task_start_def on_queue_def sendMsg_def MTRunnable_run_def wit_simps
        msg_q_unblock_def pthread_cond_broadcast_def)
  from msg_task_accounts [OF run] run show ?thesis by (auto simp: wit_task_def)
qed

end
