(* ===== verification/SkipList.thy ===== *)
theory SkipList
  imports Prelude
begin

text \<open>
  The list with levels behind the log buffer (\<open>gps/utils/SkipList.h\<close>): one main list in the
  order of insertion, and for every level a head iterator, a tail iterator and, in each node, an
  iterator to the next node of the same level.

  A \<open>std::list\<close> iterator stays valid until its node is erased, so the model names every node by
  a number that is never reused: the main list is a list of numbered nodes, an iterator is the
  number of a node and \<open>None\<close> is \<open>end()\<close>. Dereferencing \<open>end()\<close> or the iterator of an erased
  node, and indexing a vector out of range, is undefined behaviour and gives \<open>None\<close>.

  The locale \<open>levelled\<close> is what a client relies on, in terms of the sequence of pairs of datum
  and level; its derived facts are about the data of one level. The interpretation \<open>sl\<close> shows
  that the iterators implement it.
\<close>

section \<open>Data\<close>

type_synonym node_iter = "nat option"

record 'a skip_node =
  mLevel :: int
  mData :: 'a
  mNextInLevel :: node_iter

record 'a skip_list =
  mMainList :: "(nat \<times> 'a skip_node) list"
  mHeadVec :: "node_iter list"
  mTailVec :: "node_iter list"
  sl_fresh :: nat

definition vec_at :: "'a list \<Rightarrow> int \<Rightarrow> 'a option" where
  "vec_at v l = (if 0 \<le> l \<and> l < int (length v) then Some (v ! nat l) else None)"

definition vec_put :: "'a list \<Rightarrow> int \<Rightarrow> 'a \<Rightarrow> 'a list option" where
  "vec_put v l x = (if 0 \<le> l \<and> l < int (length v) then Some (v[nat l := x]) else None)"

definition node_deref :: "'a skip_list \<Rightarrow> node_iter \<Rightarrow> 'a skip_node option" where
  "node_deref sl it = (case it of None \<Rightarrow> None | Some i \<Rightarrow> map_of (mMainList sl) i)"

definition set_next :: "'a skip_list \<Rightarrow> node_iter \<Rightarrow> node_iter \<Rightarrow> 'a skip_list option" where
  "set_next sl it v = do {
     node_deref sl it;
     Some (sl\<lparr>mMainList := map (\<lambda>(i, n). if Some i = it then (i, n\<lparr>mNextInLevel := v\<rparr>) else (i, n))
       (mMainList sl)\<rparr>)
   }"

definition erase_node :: "'a skip_list \<Rightarrow> node_iter \<Rightarrow> 'a skip_list option" where
  "erase_node sl it = do {
     node_deref sl it;
     Some (sl\<lparr>mMainList := filter (\<lambda>(i, n). Some i \<noteq> it) (mMainList sl)\<rparr>)
   }"

section \<open>Operations\<close>

definition SkipList :: "nat \<Rightarrow> 'a skip_list" where
  "SkipList totalLevels = \<lparr>mMainList = [], mHeadVec = replicate totalLevels None,
     mTailVec = replicate totalLevels None, sl_fresh = 0\<rparr>"

definition sl_append :: "'a \<Rightarrow> int \<Rightarrow> 'a skip_list \<Rightarrow> 'a skip_list option" where
  "sl_append data level sl =
     (if level < 0 \<or> level \<ge> int (length (mHeadVec sl)) then Some sl
      else do {
        let iter = sl_fresh sl;
        let node = \<lparr>mLevel = level, mData = data, mNextInLevel = None\<rparr>;
        let sl = sl\<lparr>mMainList := mMainList sl @ [(iter, node)], sl_fresh := Suc iter\<rparr>;
        h \<leftarrow> vec_at (mHeadVec sl) level;
        sl \<leftarrow> (if h = None
               then do {
                 hs \<leftarrow> vec_put (mHeadVec sl) level (Some iter);
                 Some (sl\<lparr>mHeadVec := hs\<rparr>)
               }
               else do {
                 t \<leftarrow> vec_at (mTailVec sl) level;
                 set_next sl t (Some iter)
               });
        ts \<leftarrow> vec_put (mTailVec sl) level (Some iter);
        Some (sl\<lparr>mTailVec := ts\<rparr>)
      })"

definition sl_pop :: "int \<Rightarrow> 'a skip_list \<Rightarrow> 'a skip_list option" where
  "sl_pop level sl = do {
     h \<leftarrow> vec_at (mHeadVec sl) level;
     if h = None then Some sl
     else do {
       n \<leftarrow> node_deref sl h;
       sl \<leftarrow> (if mNextInLevel n = None
              then do {
                ts \<leftarrow> vec_put (mTailVec sl) level None;
                Some (sl\<lparr>mTailVec := ts\<rparr>)
              }
              else Some sl);
       let tmp_iter = mNextInLevel n;
       sl \<leftarrow> erase_node sl h;
       hs \<leftarrow> vec_put (mHeadVec sl) level tmp_iter;
       Some (sl\<lparr>mHeadVec := hs\<rparr>)
     }
   }"

definition sl_pop_front :: "'a skip_list \<Rightarrow> 'a skip_list option" where
  "sl_pop_front sl = (case mMainList sl of [] \<Rightarrow> None | (i, n) # _ \<Rightarrow> sl_pop (mLevel n) sl)"

definition sl_front :: "int \<Rightarrow> 'a skip_list \<Rightarrow> 'a option" where
  "sl_front level sl = do {
     h \<leftarrow> vec_at (mHeadVec sl) level;
     n \<leftarrow> node_deref sl h;
     Some (mData n)
   }"

definition sl_size :: "'a skip_list \<Rightarrow> nat" where
  "sl_size sl = length (mMainList sl)"

definition sl_flush :: "'a skip_list \<Rightarrow> 'a skip_list" where
  "sl_flush sl = sl\<lparr>mMainList := [], mHeadVec := map (\<lambda>_. None) (mHeadVec sl),
     mTailVec := map (\<lambda>_. None) (mTailVec sl)\<rparr>"

definition sl_dump :: "'a skip_list \<Rightarrow> ('a \<times> int) list" where
  "sl_dump sl = map (\<lambda>(i, n). (mData n, mLevel n)) (mMainList sl)"

partial_function (option) sl_dump_loop ::
  "'a skip_list \<Rightarrow> node_iter \<Rightarrow> ('a \<times> int) list \<Rightarrow> ('a \<times> int) list option" where
  "sl_dump_loop sl head li =
     (if head = None then Some li
      else do {
        n \<leftarrow> node_deref sl head;
        sl_dump_loop sl (mNextInLevel n) (li @ [(mData n, mLevel n)])
      })"

definition sl_dump_level :: "int \<Rightarrow> 'a skip_list \<Rightarrow> ('a \<times> int) list option" where
  "sl_dump_level level sl = do {
     h \<leftarrow> vec_at (mHeadVec sl) level;
     sl_dump_loop sl h []
   }"

section \<open>The contract\<close>

text \<open>Removal of the oldest datum of a level, and the data of one level.\<close>

fun drop_level :: "int \<Rightarrow> ('a \<times> int) list \<Rightarrow> ('a \<times> int) list" where
  "drop_level l [] = []"
| "drop_level l ((x, k) # xs) = (if k = l then xs else (x, k) # drop_level l xs)"

definition level_view :: "int \<Rightarrow> ('a \<times> int) list \<Rightarrow> 'a list" where
  "level_view l xs = map fst (filter (\<lambda>(x, k). k = l) xs)"

fun opt_hd :: "'a list \<Rightarrow> 'a option" where
  "opt_hd [] = None"
| "opt_hd (x # xs) = Some x"

lemma level_view_simps [simp]:
  "level_view l [] = []"
  "level_view l ((x, k) # xs) = (if k = l then x # level_view l xs else level_view l xs)"
  "level_view l (xs @ ys) = level_view l xs @ level_view l ys"
  by (simp_all add: level_view_def)

lemma level_view_drop_level:
  "level_view l (drop_level k xs) = (if k = l then tl (level_view l xs) else level_view l xs)"
  by (induction k xs rule: drop_level.induct) auto

lemma length_drop_level: "level_view l xs \<noteq> [] \<Longrightarrow> Suc (length (drop_level l xs)) = length xs"
  by (induction l xs rule: drop_level.induct) auto

lemma drop_level_none: "level_view l xs = [] \<Longrightarrow> drop_level l xs = xs"
  by (induction l xs rule: drop_level.induct) (auto split: if_splits)

locale levelled =
  fixes append :: "'a \<Rightarrow> int \<Rightarrow> 's \<Rightarrow> 's option"
    and pop :: "int \<Rightarrow> 's \<Rightarrow> 's option"
    and front :: "int \<Rightarrow> 's \<Rightarrow> 'a option"
    and flush :: "'s \<Rightarrow> 's"
    and dump :: "int \<Rightarrow> 's \<Rightarrow> ('a \<times> int) list option"
    and abs :: "'s \<Rightarrow> ('a \<times> int) list"
    and inv :: "'s \<Rightarrow> bool"
    and levels :: "'s \<Rightarrow> nat"
  assumes append: "inv s \<Longrightarrow> 0 \<le> l \<Longrightarrow> l < int (levels s) \<Longrightarrow>
      \<exists>s'. append x l s = Some s' \<and> inv s' \<and> levels s' = levels s \<and> abs s' = abs s @ [(x, l)]"
    and append_out: "l < 0 \<or> l \<ge> int (levels s) \<Longrightarrow> append x l s = Some s"
    and pop: "inv s \<Longrightarrow> 0 \<le> l \<Longrightarrow> l < int (levels s) \<Longrightarrow>
      \<exists>s'. pop l s = Some s' \<and> inv s' \<and> levels s' = levels s \<and> abs s' = drop_level l (abs s)"
    and front: "inv s \<Longrightarrow> 0 \<le> l \<Longrightarrow> l < int (levels s) \<Longrightarrow> front l s = opt_hd (level_view l (abs s))"
    and flush: "inv s \<Longrightarrow> inv (flush s) \<and> levels (flush s) = levels s \<and> abs (flush s) = []"
    and dump: "inv s \<Longrightarrow> 0 \<le> l \<Longrightarrow> l < int (levels s) \<Longrightarrow>
      dump l s = Some (filter (\<lambda>(x, k). k = l) (abs s))"
begin

lemma view_append:
  assumes "inv s" "0 \<le> l" "l < int (levels s)"
  obtains s' where "append x l s = Some s'" "inv s'" "levels s' = levels s"
    "abs s' = abs s @ [(x, l)]" "level_view l (abs s') = level_view l (abs s) @ [x]" "\<And>k. k \<noteq> l \<Longrightarrow> level_view k (abs s') = level_view k (abs s)"
  using append[OF assms, of x] by auto

lemma view_pop:
  assumes "inv s" "0 \<le> l" "l < int (levels s)"
  obtains s' where "pop l s = Some s'" "inv s'" "levels s' = levels s" "abs s' = drop_level l (abs s)"
    "level_view l (abs s') = tl (level_view l (abs s))" "\<And>k. k \<noteq> l \<Longrightarrow> level_view k (abs s') = level_view k (abs s)"
  using pop[OF assms] by (auto simp: level_view_drop_level)

lemma front_Cons:
  "inv s \<Longrightarrow> 0 \<le> l \<Longrightarrow> l < int (levels s) \<Longrightarrow> level_view l (abs s) = x # xs \<Longrightarrow> front l s = Some x"
  by (simp add: front)

lemma front_Nil:
  "inv s \<Longrightarrow> 0 \<le> l \<Longrightarrow> l < int (levels s) \<Longrightarrow> level_view l (abs s) = [] \<Longrightarrow> front l s = None"
  by (simp add: front)

lemma view_flush: "inv s \<Longrightarrow> level_view l (abs (flush s)) = []"
  by (simp add: flush)

lemma dump_view:
  "inv s \<Longrightarrow> 0 \<le> l \<Longrightarrow> l < int (levels s) \<Longrightarrow>
   map_option (map fst) (dump l s) = Some (level_view l (abs s))"
  by (simp add: dump level_view_def)

end

section \<open>Invariant\<close>

text \<open>The element that follows \<open>x\<close>, and the numbers of the nodes of a level.\<close>

fun next_of :: "'a list \<Rightarrow> 'a \<Rightarrow> 'a option" where
  "next_of [] x = None"
| "next_of (y # ys) x = (if y = x then opt_hd ys else next_of ys x)"

definition opt_last :: "'a list \<Rightarrow> 'a option" where
  "opt_last xs = (if xs = [] then None else Some (last xs))"

definition level_ids :: "int \<Rightarrow> (nat \<times> 'a skip_node) list \<Rightarrow> nat list" where
  "level_ids l ns = map fst (filter (\<lambda>(i, n). mLevel n = l) ns)"

definition sl_inv :: "'a skip_list \<Rightarrow> bool" where
  "sl_inv sl \<longleftrightarrow>
     distinct (map fst (mMainList sl)) \<and>
     (\<forall>i\<in>set (map fst (mMainList sl)). i < sl_fresh sl) \<and>
     length (mTailVec sl) = length (mHeadVec sl) \<and>
     (\<forall>(i, n)\<in>set (mMainList sl). 0 \<le> mLevel n \<and> mLevel n < int (length (mHeadVec sl)) \<and>
        mNextInLevel n = next_of (level_ids (mLevel n) (mMainList sl)) i) \<and>
     (\<forall>l<length (mHeadVec sl). mHeadVec sl ! l = opt_hd (level_ids (int l) (mMainList sl)) \<and>
        mTailVec sl ! l = opt_last (level_ids (int l) (mMainList sl)))"

lemma opt_hd_append [simp]: "opt_hd (xs @ ys) = (if xs = [] then opt_hd ys else opt_hd xs)"
  by (cases xs) auto

lemma opt_hd_None [simp]: "opt_hd xs = None \<longleftrightarrow> xs = []"
  by (cases xs) auto

lemma opt_hd_hd: "xs \<noteq> [] \<Longrightarrow> opt_hd xs = Some (hd xs)"
  by (cases xs) auto

lemma next_of_append:
  "distinct xs \<Longrightarrow> x \<in> set xs \<Longrightarrow>
   next_of (xs @ ys) x = (if x = last xs then opt_hd ys else next_of xs x)"
  by (induction xs) auto

lemma next_of_notin: "x \<notin> set xs \<Longrightarrow> next_of xs x = None"
  by (induction xs) auto

lemma next_of_last: "distinct xs \<Longrightarrow> xs \<noteq> [] \<Longrightarrow> next_of xs (last xs) = None"
  by (induction xs) auto

lemma next_of_tl: "distinct xs \<Longrightarrow> x \<in> set (tl xs) \<Longrightarrow> next_of (tl xs) x = next_of xs x"
  by (cases xs) auto

lemma next_of_new: "x \<notin> set xs \<Longrightarrow> next_of (xs @ [x]) x = None"
  by (induction xs) auto

lemma level_ids_simps [simp]:
  "level_ids l [] = []"
  "level_ids l ((i, n) # ns) = (if mLevel n = l then i # level_ids l ns else level_ids l ns)"
  "level_ids l (ms @ ns) = level_ids l ms @ level_ids l ns"
  by (simp_all add: level_ids_def)

lemma set_level_ids: "set (level_ids l ns) \<subseteq> fst ` set ns"
  by (auto simp: level_ids_def)

lemma distinct_level_ids: "distinct (map fst ns) \<Longrightarrow> distinct (level_ids l ns)"
  unfolding level_ids_def by (induction ns) auto

lemma level_ids_mem: "(i, n) \<in> set ns \<Longrightarrow> i \<in> set (level_ids (mLevel n) ns)"
  by (force simp: level_ids_def)

lemma level_ids_set_next:
  "level_ids l (map (\<lambda>(i, n). if P i then (i, n\<lparr>mNextInLevel := v\<rparr>) else (i, n)) ns) = level_ids l ns"
  by (induction ns) auto

lemma level_ids_erase:
  "level_ids l (filter (\<lambda>(i, n). i \<noteq> h) ns) = removeAll h (level_ids l ns)"
  by (induction ns) (auto split: if_splits)

lemma level_ids_disjoint:
  "distinct (map fst ns) \<Longrightarrow> i \<in> set (level_ids l ns) \<Longrightarrow> i \<in> set (level_ids k ns) \<Longrightarrow> l = k"
proof (induction ns)
  case (Cons p ns)
  then show ?case using set_level_ids[of l ns] set_level_ids[of k ns]
    by (cases p) (auto split: if_splits)
qed simp

lemma removeAll_hd: "distinct xs \<Longrightarrow> xs \<noteq> [] \<Longrightarrow> removeAll (hd xs) xs = tl xs"
  by (cases xs) auto

text \<open>The iterators of a list that satisfies the invariant.\<close>

lemma sl_head:
  "sl_inv sl \<Longrightarrow> 0 \<le> l \<Longrightarrow> l < int (length (mHeadVec sl)) \<Longrightarrow>
   vec_at (mHeadVec sl) l = Some (opt_hd (level_ids l (mMainList sl)))"
  by (auto simp: sl_inv_def vec_at_def)

lemma sl_tail:
  "sl_inv sl \<Longrightarrow> 0 \<le> l \<Longrightarrow> l < int (length (mHeadVec sl)) \<Longrightarrow>
   vec_at (mTailVec sl) l = Some (opt_last (level_ids l (mMainList sl)))"
  by (auto simp: sl_inv_def vec_at_def)

lemma sl_deref: "sl_inv sl \<Longrightarrow> (i, n) \<in> set (mMainList sl) \<Longrightarrow> node_deref sl (Some i) = Some n"
  by (auto simp: sl_inv_def node_deref_def)

lemma sl_deref_id:
  assumes "sl_inv sl" "i \<in> set (level_ids l (mMainList sl))"
  obtains n where "node_deref sl (Some i) = Some n" "(i, n) \<in> set (mMainList sl)" "mLevel n = l"
    "mNextInLevel n = next_of (level_ids l (mMainList sl)) i"
proof -
  from assms(2) obtain n where n: "(i, n) \<in> set (mMainList sl)" "mLevel n = l"
    by (auto simp: level_ids_def)
  then have "mNextInLevel n = next_of (level_ids l (mMainList sl)) i"
    using assms(1) by (auto simp: sl_inv_def)
  with that n sl_deref[OF assms(1) n(1)] show thesis by blast
qed

section \<open>Append\<close>

text \<open>The list with the new node in place, its predecessor in the level linked to it.\<close>

definition linked :: "'a skip_list \<Rightarrow> int \<Rightarrow> 'a \<Rightarrow> 'a skip_list" where
  "linked sl l x = sl\<lparr>
     mMainList := map (\<lambda>(i, n). if Some i = opt_last (level_ids l (mMainList sl))
         then (i, n\<lparr>mNextInLevel := Some (sl_fresh sl)\<rparr>) else (i, n)) (mMainList sl)
       @ [(sl_fresh sl, \<lparr>mLevel = l, mData = x, mNextInLevel = None\<rparr>)],
     mHeadVec := (if level_ids l (mMainList sl) = [] then (mHeadVec sl)[nat l := Some (sl_fresh sl)]
       else mHeadVec sl),
     mTailVec := (mTailVec sl)[nat l := Some (sl_fresh sl)],
     sl_fresh := Suc (sl_fresh sl)\<rparr>"

lemma fresh_notin: "sl_inv sl \<Longrightarrow> sl_fresh sl \<notin> fst ` set (mMainList sl)"
  by (fastforce simp: sl_inv_def)

lemma opt_last_mem: "opt_last xs = Some i \<longleftrightarrow> xs \<noteq> [] \<and> i = last xs"
  by (auto simp: opt_last_def)

lemma map_no_update:
  "\<forall>p\<in>set ns. \<not> P (fst p) \<Longrightarrow> map (\<lambda>(i, n). if P i then f i n else (i, n)) ns = ns"
  by (induction ns) auto

lemma sl_append_linked:
  assumes inv: "sl_inv sl" and l: "0 \<le> l" "l < int (length (mHeadVec sl))"
  shows "sl_append x l sl = Some (linked sl l x)"
proof -
  have len: "length (mTailVec sl) = length (mHeadVec sl)" using inv by (simp add: sl_inv_def)
  show ?thesis
  proof (cases "level_ids l (mMainList sl) = []")
    case True
    then have "map (\<lambda>(i, n). if Some i = opt_last (level_ids l (mMainList sl))
         then (i, n\<lparr>mNextInLevel := Some (sl_fresh sl)\<rparr>) else (i, n)) (mMainList sl) = mMainList sl"
      by (intro map_no_update) (simp add: opt_last_def)
    with True l len show ?thesis
      by (simp add: sl_append_def sl_head[OF inv l] vec_put_def linked_def Let_def)
  next
    case False
    let ?t = "last (level_ids l (mMainList sl))"
    obtain n where n: "(?t, n) \<in> set (mMainList sl)"
      using False by (auto intro: sl_deref_id[OF inv last_in_set])
    then have "?t \<noteq> sl_fresh sl" using fresh_notin[OF inv] by force
    moreover obtain n' where "map_of (mMainList sl) ?t = Some n'"
      using n by (metis weak_map_of_SomeI)
    ultimately show ?thesis
      using False l len
      by (simp add: sl_append_def sl_head[OF inv l] sl_tail[OF inv l] vec_put_def linked_def Let_def
          set_next_def node_deref_def opt_last_def opt_hd_hd map_add_def)
  qed
qed

lemma level_ids_linked:
  "level_ids k (mMainList (linked sl l x)) =
     level_ids k (mMainList sl) @ (if k = l then [sl_fresh sl] else [])"
  by (simp add: linked_def level_ids_set_next)

lemma linked_ids: "map fst (mMainList (linked sl l x)) = map fst (mMainList sl) @ [sl_fresh sl]"
  by (simp add: linked_def split_def if_distrib comp_def)

lemma linked_node:
  assumes inv: "sl_inv sl" and mem: "(i, n) \<in> set (mMainList (linked sl l x))"
  shows "mNextInLevel n = next_of (level_ids (mLevel n) (mMainList (linked sl l x))) i"
    and "(\<exists>m. (i, m) \<in> set (mMainList sl) \<and> mLevel m = mLevel n) \<or> mLevel n = l"
proof -
  let ?ids = "\<lambda>k. level_ids k (mMainList sl)"
  have dist: "distinct (?ids k)" for k
    using inv by (auto simp: sl_inv_def intro: distinct_level_ids)
  consider (new) "i = sl_fresh sl" "n = \<lparr>mLevel = l, mData = x, mNextInLevel = None\<rparr>"
    | (old) m where "(i, m) \<in> set (mMainList sl)"
        "n = (if Some i = opt_last (?ids l) then m\<lparr>mNextInLevel := Some (sl_fresh sl)\<rparr> else m)"
    using mem by (auto simp: linked_def split: if_splits)
  then have "mNextInLevel n = next_of (level_ids (mLevel n) (mMainList (linked sl l x))) i \<and>
    ((\<exists>m. (i, m) \<in> set (mMainList sl) \<and> mLevel m = mLevel n) \<or> mLevel n = l)"
  proof cases
    case new
    have "i \<notin> set (?ids l)" using fresh_notin[OF inv] set_level_ids[of l "mMainList sl"] new by auto
    then have "next_of (?ids l @ [i]) i = None" by (rule next_of_new)
    with new show ?thesis by (simp add: level_ids_linked)
  next
    case old
    have im: "i \<in> set (?ids (mLevel m))" using old(1) by (rule level_ids_mem)
    have nx: "mNextInLevel m = next_of (?ids (mLevel m)) i" using inv old(1) by (auto simp: sl_inv_def)
    have lv: "mLevel n = mLevel m" using old(2) by simp
    have "mNextInLevel n = next_of (level_ids (mLevel m) (mMainList (linked sl l x))) i"
    proof (cases "mLevel m = l")
      case True
      then show ?thesis
        using old(2) nx im dist[of l]
        by (auto simp: level_ids_linked next_of_append opt_last_def)
    next
      case False
      then have "Some i \<noteq> opt_last (?ids l)"
        using level_ids_disjoint[of "mMainList sl" i l "mLevel m"] im inv last_in_set[of "?ids l"]
        by (auto simp: opt_last_def sl_inv_def)
      with False old(2) nx show ?thesis by (simp add: level_ids_linked)
    qed
    with lv old(1) show ?thesis by auto
  qed
  then show "mNextInLevel n = next_of (level_ids (mLevel n) (mMainList (linked sl l x))) i"
    and "(\<exists>m. (i, m) \<in> set (mMainList sl) \<and> mLevel m = mLevel n) \<or> mLevel n = l" by auto
qed

lemma sl_inv_linked:
  assumes inv: "sl_inv sl" and l: "0 \<le> l" "l < int (length (mHeadVec sl))"
  shows "sl_inv (linked sl l x)"
proof -
  have len: "length (mHeadVec (linked sl l x)) = length (mHeadVec sl)"
    "length (mTailVec (linked sl l x)) = length (mHeadVec sl)"
    using inv by (simp_all add: linked_def sl_inv_def)
  have ids: "distinct (map fst (mMainList (linked sl l x)))"
    "\<forall>i\<in>set (map fst (mMainList (linked sl l x))). i < sl_fresh (linked sl l x)"
    using inv fresh_notin[OF inv] unfolding linked_ids
    by (auto simp: sl_inv_def linked_def less_SucI)
  have nodes: "0 \<le> mLevel n \<and> mLevel n < int (length (mHeadVec sl)) \<and>
      mNextInLevel n = next_of (level_ids (mLevel n) (mMainList (linked sl l x))) i"
    if "(i, n) \<in> set (mMainList (linked sl l x))" for i n
    using linked_node[OF inv that] inv l by (auto simp: sl_inv_def)
  have "mHeadVec (linked sl l x) ! k = opt_hd (level_ids (int k) (mMainList (linked sl l x))) \<and>
      mTailVec (linked sl l x) ! k = opt_last (level_ids (int k) (mMainList (linked sl l x)))"
    if "k < length (mHeadVec sl)" for k
    using inv l that unfolding level_ids_linked
    by (auto simp: linked_def sl_inv_def nth_list_update opt_last_def)
  with len ids nodes show ?thesis by (auto simp: sl_inv_def)
qed

lemma sl_dump_linked: "sl_dump (linked sl l x) = sl_dump sl @ [(x, l)]"
  by (simp add: linked_def sl_dump_def split_def comp_def if_distrib)

section \<open>Pop\<close>

definition unlinked :: "'a skip_list \<Rightarrow> int \<Rightarrow> 'a skip_list" where
  "unlinked sl l = sl\<lparr>
     mMainList := filter (\<lambda>(i, n). i \<noteq> hd (level_ids l (mMainList sl))) (mMainList sl),
     mHeadVec := (mHeadVec sl)[nat l := opt_hd (tl (level_ids l (mMainList sl)))],
     mTailVec := (if tl (level_ids l (mMainList sl)) = [] then (mTailVec sl)[nat l := None]
       else mTailVec sl)\<rparr>"

lemma next_of_hd: "xs \<noteq> [] \<Longrightarrow> next_of xs (hd xs) = opt_hd (tl xs)"
  by (cases xs) auto

lemma sl_pop_unlinked:
  assumes inv: "sl_inv sl" and l: "0 \<le> l" "l < int (length (mHeadVec sl))"
    and ne: "level_ids l (mMainList sl) \<noteq> []"
  shows "sl_pop l sl = Some (unlinked sl l)"
proof -
  let ?h = "hd (level_ids l (mMainList sl))"
  have len: "length (mTailVec sl) = length (mHeadVec sl)" using inv by (simp add: sl_inv_def)
  obtain n where n: "node_deref sl (Some ?h) = Some n"
    and nx: "mNextInLevel n = opt_hd (tl (level_ids l (mMainList sl)))"
    using ne next_of_hd[OF ne] by (metis sl_deref_id[OF inv hd_in_set])
  then have "node_deref (sl\<lparr>mTailVec := ts\<rparr>) (Some ?h) = Some n" for ts by (simp add: node_deref_def)
  with n nx ne l len show ?thesis
    by (simp add: sl_pop_def sl_head[OF inv l] opt_hd_hd vec_put_def erase_node_def unlinked_def Let_def)
qed

lemma level_ids_unlinked:
  assumes inv: "sl_inv sl" and ne: "level_ids l (mMainList sl) \<noteq> []"
  shows "level_ids k (mMainList (unlinked sl l)) =
    (if k = l then tl (level_ids l (mMainList sl)) else level_ids k (mMainList sl))"
proof -
  have dist: "distinct (map fst (mMainList sl))" using inv by (simp add: sl_inv_def)
  have "hd (level_ids l (mMainList sl)) \<notin> set (level_ids k (mMainList sl))" if "k \<noteq> l"
    using level_ids_disjoint[OF dist] hd_in_set[OF ne] that by blast
  then show ?thesis
    using removeAll_hd[OF distinct_level_ids[OF dist] ne]
    by (auto simp: unlinked_def level_ids_erase)
qed

lemma sl_inv_unlinked:
  assumes inv: "sl_inv sl" and l: "0 \<le> l" "l < int (length (mHeadVec sl))"
    and ne: "level_ids l (mMainList sl) \<noteq> []"
  shows "sl_inv (unlinked sl l)"
proof -
  let ?ids = "\<lambda>k. level_ids k (mMainList sl)"
  have dist: "distinct (?ids k)" for k
    using inv by (auto simp: sl_inv_def intro: distinct_level_ids)
  have len: "length (mHeadVec (unlinked sl l)) = length (mHeadVec sl)"
    "length (mTailVec (unlinked sl l)) = length (mHeadVec sl)"
    using inv by (simp_all add: unlinked_def sl_inv_def)
  have ids: "distinct (map fst (mMainList (unlinked sl l)))"
    "\<forall>i\<in>set (map fst (mMainList (unlinked sl l))). i < sl_fresh (unlinked sl l)"
    using inv by (auto simp: unlinked_def sl_inv_def distinct_map_filter)
  have nodes: "0 \<le> mLevel n \<and> mLevel n < int (length (mHeadVec sl)) \<and>
      mNextInLevel n = next_of (level_ids (mLevel n) (mMainList (unlinked sl l))) i"
    if mem: "(i, n) \<in> set (mMainList (unlinked sl l))" for i n
  proof -
    have old: "(i, n) \<in> set (mMainList sl)" "i \<noteq> hd (?ids l)" using mem by (auto simp: unlinked_def)
    have "i \<in> set (tl (?ids l))" if "mLevel n = l"
      using level_ids_mem[OF old(1)] old(2) that by (cases "?ids l") auto
    then have "next_of (level_ids (mLevel n) (mMainList (unlinked sl l))) i = next_of (?ids (mLevel n)) i"
      using next_of_tl[OF dist[of l], of i] by (simp add: level_ids_unlinked[OF inv ne])
    with old(1) inv show ?thesis by (auto simp: sl_inv_def)
  qed
  have "mHeadVec (unlinked sl l) ! k = opt_hd (level_ids (int k) (mMainList (unlinked sl l))) \<and>
      mTailVec (unlinked sl l) ! k = opt_last (level_ids (int k) (mMainList (unlinked sl l)))"
    if "k < length (mHeadVec sl)" for k
    using inv l that ne unfolding level_ids_unlinked[OF inv ne]
    by (auto simp: unlinked_def sl_inv_def nth_list_update opt_last_def last_tl)
  with len ids nodes show ?thesis by (auto simp: sl_inv_def)
qed

lemma drop_level_erase:
  "distinct (map fst ns) \<Longrightarrow> level_ids l ns \<noteq> [] \<Longrightarrow>
   map (\<lambda>(i, n). (mData n, mLevel n)) (filter (\<lambda>(i, n). i \<noteq> hd (level_ids l ns)) ns) =
   drop_level l (map (\<lambda>(i, n). (mData n, mLevel n)) ns)"
proof (induction ns)
  case (Cons p ns)
  obtain i n where p: "p = (i, n)" by (cases p)
  show ?case
  proof (cases "mLevel n = l")
    case True
    have "filter (\<lambda>(j, n). j \<noteq> i) ns = ns"
      using Cons.prems(1) p by (force simp: filter_id_conv)
    with True p show ?thesis by simp
  next
    case False
    then have "level_ids l ns \<noteq> []" using Cons.prems(2) p by simp
    moreover from this have "hd (level_ids l ns) \<in> fst ` set ns"
      using set_level_ids[of l ns] hd_in_set by blast
    ultimately show ?thesis using Cons p False by auto
  qed
qed simp

lemma level_view_dump: "level_view l (sl_dump sl) = map mData (map snd (filter (\<lambda>(i, n). mLevel n = l) (mMainList sl)))"
  by (simp add: level_view_def sl_dump_def filter_map comp_def split_def)

lemma level_view_Nil: "level_view l (sl_dump sl) = [] \<longleftrightarrow> level_ids l (mMainList sl) = []"
  by (simp add: level_view_dump level_ids_def)

section \<open>Dump\<close>

lemma sl_dump_loop_suffix:
  assumes inv: "sl_inv sl"
  shows "filter (\<lambda>(i, n). mLevel n = l) (mMainList sl) = pre @ rest \<Longrightarrow>
    sl_dump_loop sl (opt_hd (map fst rest)) li = Some (li @ map (\<lambda>(i, n). (mData n, mLevel n)) rest)"
proof (induction rest arbitrary: pre li)
  case Nil
  then show ?case by (simp add: sl_dump_loop.simps)
next
  case (Cons p rest)
  obtain i n where p: "p = (i, n)" by (cases p)
  have "(i, n) \<in> set (filter (\<lambda>(i, n). mLevel n = l) (mMainList sl))"
    unfolding Cons.prems p by simp
  then have mem: "(i, n) \<in> set (mMainList sl)" "mLevel n = l" by auto
  have ids: "level_ids l (mMainList sl) = map fst pre @ i # map fst rest"
    by (simp add: level_ids_def Cons.prems p)
  have "distinct (level_ids l (mMainList sl))"
    using inv by (auto simp: sl_inv_def intro: distinct_level_ids)
  then have "next_of (level_ids l (mMainList sl)) i = opt_hd (map fst rest)"
    unfolding ids using next_of_append[of "map fst pre @ [i]" i "map fst rest"] by simp
  then have "mNextInLevel n = opt_hd (map fst rest)"
    using inv mem by (auto simp: sl_inv_def)
  with Cons.IH[of "pre @ [(i, n)]" "li @ [(mData n, mLevel n)]"] Cons.prems p
    sl_deref[OF inv mem(1)] show ?case
    by (simp add: sl_dump_loop.simps[of sl "Some i"])
qed

lemma sl_dump_level_filter:
  assumes inv: "sl_inv sl" and l: "0 \<le> l" "l < int (length (mHeadVec sl))"
  shows "sl_dump_level l sl = Some (filter (\<lambda>(x, k). k = l) (sl_dump sl))"
  using sl_dump_loop_suffix[OF inv, of l "[]" _ "[]"]
  by (simp add: sl_dump_level_def sl_head[OF inv l] level_ids_def sl_dump_def filter_map comp_def split_def)

section \<open>The iterators implement the contract\<close>

interpretation sl: levelled sl_append sl_pop sl_front sl_flush sl_dump_level sl_dump sl_inv
  "\<lambda>sl. length (mHeadVec sl)"
proof (standard, goal_cases)
  case (1 s l x)
  then have "sl_append x l s = Some (linked s l x)" "sl_inv (linked s l x)"
    by (simp_all add: sl_append_linked sl_inv_linked)
  moreover have "length (mHeadVec (linked s l x)) = length (mHeadVec s)" by (simp add: linked_def)
  ultimately show ?case
    by (intro exI[of _ "linked s l x"]) (simp add: sl_dump_linked)
next
  case (2 l s x)
  then show ?case by (auto simp: sl_append_def)
next
  case (3 s l)
  show ?case
  proof (cases "level_ids l (mMainList s) = []")
    case True
    then have "sl_pop l s = Some s" using sl_head[OF 3] by (simp add: sl_pop_def)
    moreover have "drop_level l (sl_dump s) = sl_dump s"
      using True by (intro drop_level_none) (simp add: level_view_Nil)
    ultimately show ?thesis using 3(1) by simp
  next
    case False
    have "sl_dump (unlinked s l) = drop_level l (sl_dump s)"
      using drop_level_erase[OF _ False] 3 by (simp add: sl_dump_def unlinked_def sl_inv_def)
    moreover have "length (mHeadVec (unlinked s l)) = length (mHeadVec s)" by (simp add: unlinked_def)
    ultimately show ?thesis
      by (intro exI[of _ "unlinked s l"]) (simp add: sl_pop_unlinked[OF 3 False] sl_inv_unlinked[OF 3 False])
  qed
next
  case (4 s l)
  show ?case
  proof (cases "filter (\<lambda>(i, n). mLevel n = l) (mMainList s)")
    case Nil
    with 4 show ?thesis by (simp add: sl_front_def sl_head level_view_dump level_ids_def node_deref_def)
  next
    case (Cons p ps)
    then have "p \<in> set (mMainList s)" using list.set_intros(1)[of p ps] unfolding Cons[symmetric] by simp
    with 4 Cons show ?thesis
      by (cases p) (simp add: sl_front_def sl_head level_view_dump level_ids_def sl_deref)
  qed
next
  case (5 s)
  then show ?case by (simp add: sl_flush_def sl_inv_def sl_dump_def opt_last_def)
next
  case (6 s l)
  then show ?case by (simp add: sl_dump_level_filter)
qed

lemma sl_inv_SkipList: "sl_inv (SkipList n)"
  by (simp add: SkipList_def sl_inv_def opt_last_def)

section \<open>Histories\<close>

text \<open>
  Sequences of calls on a fresh list, on the code's data and on the sequence of pairs. A call the
  specification does not admit (a level out of range for \<open>pop(level)\<close>, \<open>pop()\<close> on an empty list)
  ends the specification's run with \<open>None\<close>.
\<close>

datatype 'a sl_call = Append 'a int | Pop int | PopFront | Flush

fun sl_step :: "'a sl_call \<Rightarrow> 'a skip_list \<Rightarrow> 'a skip_list option" where
  "sl_step (Append x l) sl = sl_append x l sl"
| "sl_step (Pop l) sl = sl_pop l sl"
| "sl_step PopFront sl = sl_pop_front sl"
| "sl_step Flush sl = Some (sl_flush sl)"

fun sl_run :: "'a sl_call list \<Rightarrow> 'a skip_list \<Rightarrow> 'a skip_list option" where
  "sl_run [] sl = Some sl"
| "sl_run (c # cs) sl = sl_step c sl \<bind> sl_run cs"

fun seq_step :: "nat \<Rightarrow> 'a sl_call \<Rightarrow> ('a \<times> int) list \<Rightarrow> ('a \<times> int) list option" where
  "seq_step n (Append x l) xs = Some (if 0 \<le> l \<and> l < int n then xs @ [(x, l)] else xs)"
| "seq_step n (Pop l) xs = (if 0 \<le> l \<and> l < int n then Some (drop_level l xs) else None)"
| "seq_step n PopFront xs = (if xs = [] then None else Some (tl xs))"
| "seq_step n Flush xs = Some []"

fun seq_run :: "nat \<Rightarrow> 'a sl_call list \<Rightarrow> ('a \<times> int) list \<Rightarrow> ('a \<times> int) list option" where
  "seq_run n [] xs = Some xs"
| "seq_run n (c # cs) xs = seq_step n c xs \<bind> seq_run n cs"

lemma drop_level_hd: "xs \<noteq> [] \<Longrightarrow> drop_level (snd (hd xs)) xs = tl xs"
  by (cases xs) auto

lemma sl_pop_front_tl:
  assumes inv: "sl_inv sl" and ne: "sl_dump sl \<noteq> []"
  shows "\<exists>sl'. sl_pop_front sl = Some sl' \<and> sl_inv sl' \<and>
    length (mHeadVec sl') = length (mHeadVec sl) \<and> sl_dump sl' = tl (sl_dump sl)"
proof -
  from ne obtain i n ns where ml: "mMainList sl = (i, n) # ns"
    by (cases "mMainList sl") (auto simp: sl_dump_def)
  then have "0 \<le> mLevel n" "mLevel n < int (length (mHeadVec sl))"
    using inv by (auto simp: sl_inv_def)
  from sl.pop[OF inv this] show ?thesis
    using drop_level_hd[OF ne] by (simp add: sl_pop_front_def ml) (simp add: sl_dump_def ml)
qed

lemma sl_step_refines:
  assumes "sl_inv sl" "seq_step (length (mHeadVec sl)) c (sl_dump sl) = Some xs"
  shows "\<exists>sl'. sl_step c sl = Some sl' \<and> sl_inv sl' \<and>
    length (mHeadVec sl') = length (mHeadVec sl) \<and> sl_dump sl' = xs"
proof (cases c)
  case (Append x l)
  with assms sl.append[OF assms(1), of l x] sl.append_out[of l sl x] show ?thesis
    by (cases "0 \<le> l \<and> l < int (length (mHeadVec sl))") auto
next
  case (Pop l)
  with assms sl.pop[OF assms(1), of l] show ?thesis by (auto split: if_splits)
next
  case PopFront
  with assms sl_pop_front_tl[of sl] show ?thesis by (auto split: if_splits)
next
  case Flush
  with assms sl.flush[OF assms(1)] show ?thesis by auto
qed

lemma sl_run_refines:
  "sl_inv sl \<Longrightarrow> seq_run (length (mHeadVec sl)) cs (sl_dump sl) = Some xs \<Longrightarrow>
   \<exists>sl'. sl_run cs sl = Some sl' \<and> sl_inv sl' \<and>
     length (mHeadVec sl') = length (mHeadVec sl) \<and> sl_dump sl' = xs"
proof (induction cs arbitrary: sl)
  case (Cons c cs)
  from Cons.prems(2) obtain ys where ys: "seq_step (length (mHeadVec sl)) c (sl_dump sl) = Some ys"
    "seq_run (length (mHeadVec sl)) cs ys = Some xs"
    by (auto simp: bind_eq_Some_conv)
  with sl_step_refines[OF Cons.prems(1) ys(1)] Cons.IH show ?case by auto metis
qed simp

text \<open>
  C26. Whatever sequence of append, pop of a level, pop and flush is applied to a fresh list of
  \<open>n\<close> levels, as long as pop is called on existing levels and on a list that is not empty, no
  iterator is dereferenced out of its life time, and the list then holds exactly what the plain
  sequence of (datum, level) pairs holds: dump gives the sequence, size its length, dump of a
  level the pairs of this level in their order, and front the oldest datum of the level.
\<close>

theorem skip_list_refines_sequence:
  fixes cs :: "'a sl_call list"
  assumes "seq_run n cs [] = Some xs"
  shows "\<exists>sl. sl_run cs (SkipList n) = Some sl \<and> sl_dump sl = xs \<and> sl_size sl = length xs \<and>
    (\<forall>l. 0 \<le> l \<and> l < int n \<longrightarrow>
       sl_dump_level l sl = Some (filter (\<lambda>(x, k). k = l) xs) \<and>
       sl_front l sl = opt_hd (level_view l xs))"
proof -
  have "length (mHeadVec (SkipList n :: 'a skip_list)) = n" "sl_dump (SkipList n :: 'a skip_list) = []"
    by (simp_all add: SkipList_def sl_dump_def)
  then obtain sl where sl: "sl_run cs (SkipList n) = Some sl" "sl_inv sl" "length (mHeadVec sl) = n"
    "sl_dump sl = xs"
    using sl_run_refines[OF sl_inv_SkipList, of n cs xs] assms by auto
  moreover have "sl_size sl = length xs" using sl(4) by (auto simp: sl_size_def sl_dump_def)
  ultimately show ?thesis using sl.dump[OF sl(2)] sl.front[OF sl(2)] by auto
qed

theorem skip_list_refines_sequence_witness:
  "\<exists>sl. sl_run [Append ''a'' 1, Append ''b'' 0, Append ''c'' 1, Append ''z'' 7, Pop 1, PopFront,
       Append ''d'' 0] (SkipList 2) = Some sl \<and> sl_dump sl = [(''c'', 1), (''d'', 0)] \<and>
     sl_dump_level 1 sl = Some [(''c'', 1)] \<and> sl_front 0 sl = Some ''d''"
proof -
  let ?cs = "[Append ''a'' 1, Append ''b'' 0, Append ''c'' 1, Append ''z'' 7, Pop 1, PopFront, Append ''d'' 0]"
  have "seq_run 2 ?cs [] = Some [(''c'', 1), (''d'', 0)]" by simp
  from skip_list_refines_sequence[OF this] obtain sl where
    "sl_run ?cs (SkipList 2) = Some sl" "sl_dump sl = [(''c'', 1), (''d'', 0)]"
    "\<forall>l. 0 \<le> l \<and> l < int 2 \<longrightarrow>
       sl_dump_level l sl = Some (filter (\<lambda>(x, k). k = l) [(''c'', 1), (''d'', 0)]) \<and>
       sl_front l sl = opt_hd (level_view l [(''c'', 1), (''d'', 0)])" by blast
  then show ?thesis by (intro exI[of _ sl]) simp
qed

end
