(* ===== verification/LogBuffer.thy ===== *)
theory LogBuffer
  imports SkipList
begin

text \<open>
  The in-memory log buffer (\<open>gps/utils/LogBuffer.h\<close>, \<open>LogBuffer.cpp\<close>): messages of five levels
  in one list with levels, each level bounded by an age and a number of messages read from
  \<open>gps.conf\<close>. Time stamps are 64-bit and their difference wraps; the message counter of a level
  is an \<open>int\<close> that is compared as an unsigned number. The signal handler and the file output
  are outside the model; \<open>dump\<close> gives the lines it hands to its callback.
\<close>

section \<open>State\<close>

type_synonym log_item = "u64 \<times> string"

record ConfigsInLevel =
  mTimeDepthThres :: u32
  mMaxNumThres :: u32
  mCurrentSize :: int

record LogBuffer =
  mLogList :: "log_item skip_list"
  mConfigVec :: "ConfigsInLevel list"

definition TIME_DEPTH_THRESHOLD_MINIMAL_IN_SEC :: u32 where
  "TIME_DEPTH_THRESHOLD_MINIMAL_IN_SEC = 60"

definition MAXIMUM_NUM_IN_LIST :: u32 where
  "MAXIMUM_NUM_IN_LIST = 50"

definition TOTAL_LOG_LEVELS :: nat where
  "TOTAL_LOG_LEVELS = 5"

definition mLevelMap :: "string list" where
  "mLevelMap = [''E'', ''W'', ''I'', ''D'', ''V'']"

section \<open>Operations\<close>

text \<open>
  The constructor. \<open>conf\<close> is what \<open>gps.conf\<close> gives for a parameter name, if it is present.
\<close>

definition level_config :: "(string \<Rightarrow> u32 option) \<Rightarrow> string \<Rightarrow> ConfigsInLevel" where
  "level_config conf lvl =
     \<lparr>mTimeDepthThres = (case conf (lvl @ ''_LEVEL_TIME_DEPTH'') of
        None \<Rightarrow> TIME_DEPTH_THRESHOLD_MINIMAL_IN_SEC | Some v \<Rightarrow> v),
      mMaxNumThres = (case conf (lvl @ ''_LEVEL_MAX_CAPACITY'') of
        None \<Rightarrow> MAXIMUM_NUM_IN_LIST | Some v \<Rightarrow> v),
      mCurrentSize = 0\<rparr>"

definition LogBuffer_new :: "(string \<Rightarrow> u32 option) \<Rightarrow> LogBuffer" where
  "LogBuffer_new conf = \<lparr>mLogList = SkipList TOTAL_LOG_LEVELS,
     mConfigVec = map (level_config conf) [''E'', ''W'', ''I'', ''D'', ''V'']\<rparr>"

text \<open>The condition of the trimming loop, on the oldest message of the level and its settings.\<close>

definition over_limit :: "u64 \<Rightarrow> log_item \<Rightarrow> ConfigsInLevel \<Rightarrow> bool" where
  "over_limit timestamp item c \<longleftrightarrow>
     timestamp - fst item > ucast (mTimeDepthThres c) \<or> word_of_int (mCurrentSize c) > mMaxNumThres c"

lemma sl_pop_shrinks:
  assumes "sl_front l sl = Some x" "sl_pop l sl = Some sl'"
  shows "length (mMainList sl') < length (mMainList sl)"
proof -
  from assms(1) obtain i n where h: "vec_at (mHeadVec sl) l = Some (Some i)" "map_of (mMainList sl) i = Some n"
    by (auto simp: sl_front_def node_deref_def bind_eq_Some_conv split: option.splits)
  from h(2) have "(i, n) \<in> set (mMainList sl)" by (rule map_of_SomeD)
  then have "length (filter (\<lambda>(j, n). j \<noteq> i) (mMainList sl)) < length (mMainList sl)"
    by (intro length_filter_less) auto
  with assms(2) h show ?thesis
    by (auto simp: sl_pop_def erase_node_def node_deref_def bind_eq_Some_conv Let_def split: if_splits)
qed

function lb_trim :: "int \<Rightarrow> u64 \<Rightarrow> LogBuffer \<Rightarrow> LogBuffer option" where
  "lb_trim level timestamp lb = do {
     item \<leftarrow> sl_front level (mLogList lb);
     c \<leftarrow> vec_at (mConfigVec lb) level;
     if over_limit timestamp item c
     then do {
       ll \<leftarrow> sl_pop level (mLogList lb);
       cs \<leftarrow> vec_put (mConfigVec lb) level (c\<lparr>mCurrentSize := mCurrentSize c - 1\<rparr>);
       lb_trim level timestamp (lb\<lparr>mLogList := ll, mConfigVec := cs\<rparr>)
     }
     else Some lb
   }"
  by pat_completeness auto
termination
  by (relation "measure (\<lambda>(l, t, lb). length (mMainList (mLogList lb)))") (auto simp: sl_pop_shrinks)

declare lb_trim.simps [simp del]

definition lb_append :: "string \<Rightarrow> int \<Rightarrow> u64 \<Rightarrow> LogBuffer \<Rightarrow> LogBuffer option" where
  "lb_append data level timestamp lb = do {
     ll \<leftarrow> sl_append (timestamp, data) level (mLogList lb);
     c \<leftarrow> vec_at (mConfigVec lb) level;
     if mCurrentSize c = 2 ^ 31 - 1 then None
     else do {
       cs \<leftarrow> vec_put (mConfigVec lb) level (c\<lparr>mCurrentSize := mCurrentSize c + 1\<rparr>);
       lb_trim level timestamp (lb\<lparr>mLogList := ll, mConfigVec := cs\<rparr>)
     }
   }"

definition lb_flush :: "LogBuffer \<Rightarrow> LogBuffer" where
  "lb_flush lb = lb\<lparr>mLogList := sl_flush (mLogList lb)\<rparr>"

text \<open>The lines of a dump: the heading with level and number of messages, then one line each.\<close>

datatype dump_line = Heading int nat | Message u64 string string

definition lb_line :: "log_item \<times> int \<Rightarrow> dump_line option" where
  "lb_line p = (case p of ((ts, msg), l) \<Rightarrow> do {
     name \<leftarrow> vec_at mLevelMap l;
     Some (Message ts name msg)
   })"

definition lb_dump :: "int \<Rightarrow> LogBuffer \<Rightarrow> dump_line list option" where
  "lb_dump level lb = do {
     li \<leftarrow> (if level = - 1 then Some (sl_dump (mLogList lb)) else sl_dump_level level (mLogList lb));
     ls \<leftarrow> those (map lb_line li);
     Some (Heading level (length li) # ls)
   }"

section \<open>Invariant\<close>

definition log_view :: "int \<Rightarrow> LogBuffer \<Rightarrow> log_item list" where
  "log_view l lb = level_view l (sl_dump (mLogList lb))"

definition lb_shape :: "LogBuffer \<Rightarrow> bool" where
  "lb_shape lb \<longleftrightarrow> sl_inv (mLogList lb) \<and> length (mHeadVec (mLogList lb)) = TOTAL_LOG_LEVELS \<and>
     length (mConfigVec lb) = TOTAL_LOG_LEVELS"

definition level_counted :: "LogBuffer \<Rightarrow> nat \<Rightarrow> bool" where
  "level_counted lb l \<longleftrightarrow> mCurrentSize (mConfigVec lb ! l) = int (length (log_view (int l) lb))"

definition lb_inv :: "LogBuffer \<Rightarrow> bool" where
  "lb_inv lb \<longleftrightarrow> lb_shape lb \<and> (\<forall>l<TOTAL_LOG_LEVELS. level_counted lb l \<and>
     1 \<le> mMaxNumThres (mConfigVec lb ! l) \<and> unat (mMaxNumThres (mConfigVec lb ! l)) < 2 ^ 31 - 1 \<and>
     length (log_view (int l) lb) \<le> unat (mMaxNumThres (mConfigVec lb ! l)))"

section \<open>What a level keeps\<close>

text \<open>
  The newest messages up to the capacity, without the leading ones older than the time depth.
\<close>

definition kept :: "u64 \<Rightarrow> ConfigsInLevel \<Rightarrow> log_item list \<Rightarrow> log_item list" where
  "kept ts c xs = dropWhile (\<lambda>m. ts - fst m > ucast (mTimeDepthThres c))
     (drop (length xs - unat (mMaxNumThres c)) xs)"

lemma kept_Cons:
  "kept ts c (x # xs) =
     (if ts - fst x > ucast (mTimeDepthThres c) \<or> Suc (length xs) > unat (mMaxNumThres c)
      then kept ts c xs else x # xs)"
  by (cases "Suc (length xs) > unat (mMaxNumThres c)") (auto simp: kept_def Suc_diff_le)

lemma kept_length: "length (kept ts c xs) \<le> unat (mMaxNumThres c)"
proof -
  have "length (kept ts c xs) \<le> length (drop (length xs - unat (mMaxNumThres c)) xs)"
    unfolding kept_def by (rule length_dropWhile_le)
  then show ?thesis by simp
qed

lemma kept_nonempty:
  assumes "0 < unat (mMaxNumThres c)" shows "kept ts c (xs @ [(ts, d)]) \<noteq> []"
proof -
  have "(ts, d) \<in> set (drop (length (xs @ [(ts, d)]) - unat (mMaxNumThres c)) (xs @ [(ts, d)]))"
    using assms by simp
  then show ?thesis unfolding kept_def dropWhile_eq_Nil_conv by (metis diff_self fst_conv word_not_simps(1))
qed

lemma over_limit_iff:
  assumes "mCurrentSize c = int n" "n < 2 ^ 31"
  shows "over_limit ts item c \<longleftrightarrow>
    ts - fst item > ucast (mTimeDepthThres c) \<or> n > unat (mMaxNumThres c)"
proof -
  have "unat (word_of_int (int n) :: u32) = n"
    using assms(2) by (simp add: unsigned_of_nat take_bit_nat_eq_self)
  then show ?thesis using assms(1) by (simp add: over_limit_def word_less_nat_alt)
qed

section \<open>Trimming\<close>

lemma shape_level:
  "lb_shape lb \<Longrightarrow> l < TOTAL_LOG_LEVELS \<Longrightarrow> int l < int (length (mHeadVec (mLogList lb)))"
  by (simp add: lb_shape_def)

lemma shape_config:
  "lb_shape lb \<Longrightarrow> l < TOTAL_LOG_LEVELS \<Longrightarrow>
   vec_at (mConfigVec lb) (int l) = Some (mConfigVec lb ! l) \<and>
   vec_put (mConfigVec lb) (int l) c = Some ((mConfigVec lb)[l := c])"
  by (simp add: lb_shape_def vec_at_def vec_put_def)

text \<open>One turn of the loop on a level that is not empty.\<close>

lemma lb_trim_step:
  assumes sh: "lb_shape lb" and l: "l < TOTAL_LOG_LEVELS"
    and xs: "log_view (int l) lb = x # xs"
    and n: "mCurrentSize (mConfigVec lb ! l) = int (length (x # xs))" "length (x # xs) < 2 ^ 31"
    and c: "c = mConfigVec lb ! l"
  obtains (stop) "kept ts c (x # xs) = x # xs" "lb_trim (int l) ts lb = Some lb"
  | (turn) lb' where "kept ts c (x # xs) = kept ts c xs"
      "lb_trim (int l) ts lb = lb_trim (int l) ts lb'" "lb_shape lb'"
      "log_view (int l) lb' = xs" "\<And>k. k \<noteq> int l \<Longrightarrow> log_view k lb' = log_view k lb"
      "mConfigVec lb' = (mConfigVec lb)[l := c\<lparr>mCurrentSize := int (length xs)\<rparr>]"
proof -
  have inv: "sl_inv (mLogList lb)" using sh by (simp add: lb_shape_def)
  note lvl = inv of_nat_0_le_iff shape_level[OF sh l]
  have fr: "sl_front (int l) (mLogList lb) = Some x"
    using sl.front_Cons[OF lvl] xs by (simp add: log_view_def)
  obtain ll where ll: "sl_pop (int l) (mLogList lb) = Some ll" "sl_inv ll"
    "length (mHeadVec ll) = length (mHeadVec (mLogList lb))"
    "level_view (int l) (sl_dump ll) = tl (log_view (int l) lb)"
    "\<And>k. k \<noteq> int l \<Longrightarrow> level_view k (sl_dump ll) = log_view k lb"
    using sl.view_pop[OF lvl] unfolding log_view_def by metis
  have ov: "kept ts c (x # xs) = (if over_limit ts x c then kept ts c xs else x # xs)"
    using over_limit_iff[of c "Suc (length xs)" ts x] n c by (simp add: kept_Cons)
  show thesis
  proof (cases "over_limit ts x c")
    case True
    let ?lb = "lb\<lparr>mLogList := ll, mConfigVec := (mConfigVec lb)[l := c\<lparr>mCurrentSize := int (length xs)\<rparr>]\<rparr>"
    have "mCurrentSize c - 1 = int (length xs)" using n(1) c by simp
    then have "lb_trim (int l) ts lb = lb_trim (int l) ts ?lb"
      using True fr ll(1) c shape_config[OF sh l] by (subst lb_trim.simps) (simp del: of_nat_Suc)
    moreover have "lb_shape ?lb" using sh ll by (simp add: lb_shape_def)
    moreover have "log_view (int l) ?lb = xs" using ll(4) xs by (simp add: log_view_def)
    moreover have "log_view k ?lb = log_view k lb" if "k \<noteq> int l" for k
      using ll(5)[OF that] by (simp add: log_view_def)
    ultimately show thesis using turn[of ?lb] ov True by simp
  next
    case False
    then have "lb_trim (int l) ts lb = Some lb"
      using fr c shape_config[OF sh l] by (subst lb_trim.simps) simp
    with stop False ov show thesis by simp
  qed
qed

lemma lb_trim_kept:
  assumes "lb_shape lb" and l: "l < TOTAL_LOG_LEVELS"
    and "log_view (int l) lb = xs" "mCurrentSize (mConfigVec lb ! l) = int (length xs)"
    and n: "length xs < 2 ^ 31" and ne: "kept ts (mConfigVec lb ! l) xs \<noteq> []"
  shows "\<exists>lb'. lb_trim (int l) ts lb = Some lb' \<and> lb_shape lb' \<and>
    log_view (int l) lb' = kept ts (mConfigVec lb ! l) xs \<and>
    (\<forall>k. k \<noteq> int l \<longrightarrow> log_view k lb' = log_view k lb) \<and>
    mConfigVec lb' = (mConfigVec lb)[l := (mConfigVec lb ! l)
      \<lparr>mCurrentSize := int (length (kept ts (mConfigVec lb ! l) xs))\<rparr>]"
  using assms
proof (induction xs arbitrary: lb)
  case Nil
  then show ?case by (simp add: kept_def)
next
  case (Cons x xs)
  let ?c = "mConfigVec lb ! l"
  have len: "l < length (mConfigVec lb)" using Cons.prems(1) l by (simp add: lb_shape_def)
  show ?case
  proof (rule lb_trim_step[OF Cons.prems(1) l Cons.prems(3-5) refl, of ts])
    assume "kept ts ?c (x # xs) = x # xs" "lb_trim (int l) ts lb = Some lb"
    moreover have "(mConfigVec lb)[l := ?c\<lparr>mCurrentSize := int (length (x # xs))\<rparr>] = mConfigVec lb"
      unfolding Cons.prems(4)[symmetric] by simp
    ultimately show ?case using Cons.prems by simp
  next
    fix lb' assume t: "kept ts ?c (x # xs) = kept ts ?c xs" "lb_trim (int l) ts lb = lb_trim (int l) ts lb'"
      "lb_shape lb'" "log_view (int l) lb' = xs" "\<And>k. k \<noteq> int l \<Longrightarrow> log_view k lb' = log_view k lb"
      "mConfigVec lb' = (mConfigVec lb)[l := ?c\<lparr>mCurrentSize := int (length xs)\<rparr>]"
    have same: "kept ts (mConfigVec lb' ! l) xs = kept ts ?c xs"
      using t(6) len by (simp add: kept_def)
    then have "\<exists>lb''. lb_trim (int l) ts lb' = Some lb'' \<and> lb_shape lb'' \<and>
      log_view (int l) lb'' = kept ts (mConfigVec lb' ! l) xs \<and>
      (\<forall>k. k \<noteq> int l \<longrightarrow> log_view k lb'' = log_view k lb') \<and>
      mConfigVec lb'' = (mConfigVec lb')[l := (mConfigVec lb' ! l)
        \<lparr>mCurrentSize := int (length (kept ts (mConfigVec lb' ! l) xs))\<rparr>]"
      using Cons.IH[OF t(3) l t(4)] Cons.prems(5,6) t(1,6) len by simp
    then show ?case using t(1,2,5,6) same len by simp
  qed
qed

section \<open>Append\<close>

text \<open>The state the loop of append starts in.\<close>

lemma lb_append_entry:
  assumes sh: "lb_shape lb" and l: "l < TOTAL_LOG_LEVELS"
    and n: "mCurrentSize (mConfigVec lb ! l) < 2 ^ 31 - 1"
  obtains lb1 where "lb_append d (int l) ts lb = lb_trim (int l) ts lb1" "lb_shape lb1"
    "log_view (int l) lb1 = log_view (int l) lb @ [(ts, d)]"
    "\<And>k. k \<noteq> int l \<Longrightarrow> log_view k lb1 = log_view k lb"
    "mConfigVec lb1 = (mConfigVec lb)[l := (mConfigVec lb ! l)
      \<lparr>mCurrentSize := mCurrentSize (mConfigVec lb ! l) + 1\<rparr>]"
proof -
  have inv: "sl_inv (mLogList lb)" using sh by (simp add: lb_shape_def)
  obtain ll where ll: "sl_append (ts, d) (int l) (mLogList lb) = Some ll" "sl_inv ll"
    "length (mHeadVec ll) = length (mHeadVec (mLogList lb))"
    "level_view (int l) (sl_dump ll) = log_view (int l) lb @ [(ts, d)]"
    "\<And>k. k \<noteq> int l \<Longrightarrow> level_view k (sl_dump ll) = log_view k lb"
    using sl.view_append[OF inv of_nat_0_le_iff shape_level[OF sh l], of "(ts, d)"]
    unfolding log_view_def by metis
  let ?lb = "lb\<lparr>mLogList := ll, mConfigVec := (mConfigVec lb)[l := (mConfigVec lb ! l)
      \<lparr>mCurrentSize := mCurrentSize (mConfigVec lb ! l) + 1\<rparr>]\<rparr>"
  have "lb_append d (int l) ts lb = lb_trim (int l) ts ?lb"
    using n ll(1) shape_config[OF sh l] by (simp add: lb_append_def)
  moreover have "lb_shape ?lb" using sh ll by (simp add: lb_shape_def)
  ultimately show thesis using that[of ?lb] ll(4,5) by (simp add: log_view_def)
qed

lemma log_levels: "l < TOTAL_LOG_LEVELS \<Longrightarrow> lb_shape lb \<Longrightarrow> l < length (mConfigVec lb)"
  by (simp add: lb_shape_def)

lemma kept_update [simp]: "kept ts (c\<lparr>mCurrentSize := n\<rparr>) xs = kept ts c xs"
  by (simp add: kept_def)

lemma lb_append_kept:
  assumes "lb_inv lb" and l: "l < TOTAL_LOG_LEVELS"
  shows "\<exists>lb'. lb_append d (int l) ts lb = Some lb' \<and> lb_inv lb' \<and>
    log_view (int l) lb' = kept ts (mConfigVec lb ! l) (log_view (int l) lb @ [(ts, d)]) \<and>
    (\<forall>k. k \<noteq> int l \<longrightarrow> log_view k lb' = log_view k lb) \<and>
    mMaxNumThres (mConfigVec lb' ! l) = mMaxNumThres (mConfigVec lb ! l)"
proof -
  let ?c = "mConfigVec lb ! l" let ?xs = "log_view (int l) lb @ [(ts, d)]"
  have sh: "lb_shape lb" and cnt: "mCurrentSize ?c = int (length (log_view (int l) lb))"
    and max: "1 \<le> mMaxNumThres ?c" "unat (mMaxNumThres ?c) < 2 ^ 31 - 1"
    and len: "length (log_view (int l) lb) \<le> unat (mMaxNumThres ?c)"
    using assms by (auto simp: lb_inv_def level_counted_def)
  have n: "mCurrentSize ?c < 2 ^ 31 - 1" using cnt len max(2) by simp
  obtain lb1 where 1: "lb_append d (int l) ts lb = lb_trim (int l) ts lb1" "lb_shape lb1"
    "log_view (int l) lb1 = ?xs" "\<And>k. k \<noteq> int l \<Longrightarrow> log_view k lb1 = log_view k lb"
    "mConfigVec lb1 = (mConfigVec lb)[l := ?c\<lparr>mCurrentSize := mCurrentSize ?c + 1\<rparr>]"
    using lb_append_entry[OF sh l n] by metis
  have "0 < unat (mMaxNumThres ?c)" using max(1) by (simp add: word_le_nat_alt)
  then have ne: "kept ts (mConfigVec lb1 ! l) ?xs \<noteq> []"
    using kept_nonempty 1(5) log_levels[OF l sh] by simp
  have "\<exists>lb'. lb_trim (int l) ts lb1 = Some lb' \<and> lb_shape lb' \<and>
    log_view (int l) lb' = kept ts (mConfigVec lb1 ! l) ?xs \<and>
    (\<forall>k. k \<noteq> int l \<longrightarrow> log_view k lb' = log_view k lb1) \<and>
    mConfigVec lb' = (mConfigVec lb1)[l := (mConfigVec lb1 ! l)
      \<lparr>mCurrentSize := int (length (kept ts (mConfigVec lb1 ! l) ?xs))\<rparr>]"
    using 1(5) log_levels[OF l sh] cnt len max(2)
    by (intro lb_trim_kept[OF 1(2) l 1(3) _ _ ne]) simp_all
  then obtain lb' where 2: "lb_trim (int l) ts lb1 = Some lb'" "lb_shape lb'"
    "log_view (int l) lb' = kept ts ?c ?xs" "\<forall>k. k \<noteq> int l \<longrightarrow> log_view k lb' = log_view k lb"
    "mConfigVec lb' = (mConfigVec lb)[l := ?c\<lparr>mCurrentSize := int (length (kept ts ?c ?xs))\<rparr>]"
    using 1(4,5) log_levels[OF l sh] by auto
  have "lb_inv lb'"
    using assms 2 kept_length[of ts ?c ?xs] log_levels[OF _ sh]
    by (auto simp: lb_inv_def level_counted_def nth_list_update)
  with 1(1) 2 log_levels[OF l sh] show ?thesis by auto
qed

text \<open>
  C27. On a buffer whose counters are right, and whose capacities are at least one and below the
  largest int, appending to an existing level always returns: the counters stay right, the
  level then holds the newest messages up to its capacity from which the leading messages older
  than the time depth (as an unsigned 64-bit difference) are gone, and all other levels keep
  their messages.
\<close>

theorem log_append_keeps:
  assumes "lb_inv lb" and l: "l < TOTAL_LOG_LEVELS"
  shows "\<exists>lb'. lb_append d (int l) ts lb = Some lb' \<and> lb_inv lb' \<and>
    log_view (int l) lb' = dropWhile (\<lambda>m. ts - fst m > ucast (mTimeDepthThres (mConfigVec lb ! l)))
      (drop (length (log_view (int l) lb) + 1 - unat (mMaxNumThres (mConfigVec lb ! l)))
        (log_view (int l) lb @ [(ts, d)])) \<and>
    (\<forall>k. k \<noteq> int l \<longrightarrow> log_view k lb' = log_view k lb)"
  using lb_append_kept[OF assms, of d ts] by (auto simp: kept_def)

lemma lb_inv_new:
  assumes "\<And>n v. conf (n @ ''_LEVEL_MAX_CAPACITY'') = Some v \<Longrightarrow> 1 \<le> v \<and> unat v < 2 ^ 31 - 1"
  shows "lb_inv (LogBuffer_new conf)"
proof -
  have "1 \<le> mMaxNumThres (level_config conf n) \<and> unat (mMaxNumThres (level_config conf n)) < 2 ^ 31 - 1"
    for n using assms[of n] by (auto simp: level_config_def MAXIMUM_NUM_IN_LIST_def split: option.split)
  moreover have "mCurrentSize (level_config conf n) = 0" for n by (simp add: level_config_def)
  moreover have "mConfigVec (LogBuffer_new conf) ! l = level_config conf (mLevelMap ! l)"
    if "l < TOTAL_LOG_LEVELS" for l
    using that nth_map[of l mLevelMap "level_config conf"]
    by (simp add: LogBuffer_new_def mLevelMap_def TOTAL_LOG_LEVELS_def)
  moreover have "log_view k (LogBuffer_new conf) = []" for k
    by (simp add: LogBuffer_new_def log_view_def SkipList_def sl_dump_def)
  moreover have "lb_shape (LogBuffer_new conf)"
    using sl_inv_SkipList by (simp add: lb_shape_def LogBuffer_new_def SkipList_def TOTAL_LOG_LEVELS_def)
  ultimately show ?thesis by (simp add: lb_inv_def level_counted_def)
qed

theorem log_append_keeps_witness:
  "\<exists>lb'. lb_append ''m'' 2 100 (LogBuffer_new (\<lambda>_. None)) = Some lb' \<and> lb_inv lb' \<and>
     log_view 2 lb' = [(100, ''m'')]"
proof -
  let ?lb = "LogBuffer_new (\<lambda>_. None)"
  have inv: "lb_inv ?lb" by (rule lb_inv_new) simp
  have l: "(2::nat) < TOTAL_LOG_LEVELS" by (simp add: TOTAL_LOG_LEVELS_def)
  have v: "log_view 2 ?lb = []"
    by (simp add: LogBuffer_new_def log_view_def SkipList_def sl_dump_def)
  have "mMaxNumThres (mConfigVec ?lb ! 2) = 50"
    by (simp add: LogBuffer_new_def level_config_def MAXIMUM_NUM_IN_LIST_def)
  with log_append_keeps[OF inv l, of "''m''" 100] v show ?thesis by auto
qed

section \<open>Flush\<close>

text \<open>A level whose counter is out of step: the loop empties it and dereferences \<open>end()\<close>.\<close>

lemma lb_trim_empties:
  assumes sh: "lb_shape lb" and l: "l < TOTAL_LOG_LEVELS"
    and v: "log_view (int l) lb = [x]" and ov: "over_limit ts x (mConfigVec lb ! l)"
  shows "lb_trim (int l) ts lb = None"
proof -
  have inv: "sl_inv (mLogList lb)" using sh by (simp add: lb_shape_def)
  note lvl = inv of_nat_0_le_iff shape_level[OF sh l]
  have fr: "sl_front (int l) (mLogList lb) = Some x"
    using sl.front_Cons[OF lvl] v by (simp add: log_view_def)
  obtain ll where ll: "sl_pop (int l) (mLogList lb) = Some ll" "sl_inv ll"
    "length (mHeadVec ll) = length (mHeadVec (mLogList lb))" "level_view (int l) (sl_dump ll) = []"
    using sl.view_pop[OF lvl] v unfolding log_view_def by (metis list.sel(3))
  have "sl_front (int l) ll = None"
    using sl.front_Nil[OF ll(2) of_nat_0_le_iff _ ll(4)] lvl(3) ll(3) by simp
  with fr ll(1) ov shape_config[OF sh l] show ?thesis
    by (subst lb_trim.simps, simp) (subst lb_trim.simps, simp)
qed

lemma lb_flush_facts:
  assumes "lb_shape lb"
  shows "lb_shape (lb_flush lb)" "log_view k (lb_flush lb) = []" "mConfigVec (lb_flush lb) = mConfigVec lb"
  using assms sl.flush[of "mLogList lb"] by (auto simp: lb_flush_def lb_shape_def log_view_def)

text \<open>
  Flushing with \<open>flush\<close> empties the list but leaves the message counters as they are: after a flush, the
  first message appended to a level that was full is removed again by the trimming loop, which
  then reads the front of the empty level, an undefined dereference of \<open>end()\<close>.
\<close>

theorem log_flush_breaks_append:
  assumes "lb_inv lb" and l: "l < TOTAL_LOG_LEVELS"
    and full: "length (log_view (int l) lb) = unat (mMaxNumThres (mConfigVec lb ! l))"
  shows "sl_dump (mLogList (lb_flush lb)) = [] \<and> lb_append d (int l) ts (lb_flush lb) = None"
proof -
  let ?c = "mConfigVec lb ! l"
  have sh: "lb_shape lb" and cnt: "mCurrentSize ?c = int (unat (mMaxNumThres ?c))"
    and max: "unat (mMaxNumThres ?c) < 2 ^ 31 - 1"
    using assms by (auto simp: lb_inv_def level_counted_def)
  note fl = lb_flush_facts[OF sh]
  have "mCurrentSize (mConfigVec (lb_flush lb) ! l) < 2 ^ 31 - 1"
    using max[unfolded of_nat_less_iff[where 'a = int, symmetric]] fl(3) cnt by simp
  then obtain lb1 where 1: "lb_append d (int l) ts (lb_flush lb) = lb_trim (int l) ts lb1" "lb_shape lb1"
    "log_view (int l) lb1 = [(ts, d)]"
    "mConfigVec lb1 = (mConfigVec lb)[l := ?c\<lparr>mCurrentSize := mCurrentSize ?c + 1\<rparr>]"
    using lb_append_entry[OF fl(1) l, of d ts] fl(2,3) by (metis append_Nil)
  have "over_limit ts (ts, d) (mConfigVec lb1 ! l)"
    using over_limit_iff[of "mConfigVec lb1 ! l" "Suc (unat (mMaxNumThres ?c))" ts "(ts, d)"]
      1(4) log_levels[OF l sh] cnt max by simp
  then have "lb_trim (int l) ts lb1 = None" by (rule lb_trim_empties[OF 1(2) l 1(3)])
  moreover have "sl_dump (mLogList (lb_flush lb)) = []"
    using sl.flush[of "mLogList lb"] sh by (simp add: lb_flush_def lb_shape_def)
  ultimately show ?thesis using 1(1) by simp
qed

definition one_message :: "string \<Rightarrow> u32 option" where
  "one_message p = (if p = ''E_LEVEL_MAX_CAPACITY'' then Some 1 else None)"

theorem log_flush_breaks_append_witness:
  "\<exists>lb. lb_append ''a'' 0 5 (LogBuffer_new one_message) = Some lb \<and>
     lb_append ''b'' 0 6 lb \<noteq> None \<and> lb_append ''b'' 0 6 (lb_flush lb) = None"
proof -
  let ?lb = "LogBuffer_new one_message"
  have inv: "lb_inv ?lb" by (rule lb_inv_new) (auto simp: one_message_def split: if_splits)
  have l: "0 < TOTAL_LOG_LEVELS" by (simp add: TOTAL_LOG_LEVELS_def)
  have cfg: "mConfigVec ?lb ! 0 = \<lparr>mTimeDepthThres = 60, mMaxNumThres = 1, mCurrentSize = 0\<rparr>"
    by (simp add: LogBuffer_new_def level_config_def one_message_def TIME_DEPTH_THRESHOLD_MINIMAL_IN_SEC_def)
  have "log_view 0 ?lb = []" by (simp add: LogBuffer_new_def log_view_def SkipList_def sl_dump_def)
  then obtain lb where lb: "lb_append ''a'' 0 5 ?lb = Some lb" "lb_inv lb"
    "log_view 0 lb = [(5, ''a'')]" "mMaxNumThres (mConfigVec lb ! 0) = 1"
    using lb_append_kept[OF inv l, of "''a''" 5] cfg by (auto simp: kept_def)
  moreover have "lb_append ''b'' 0 6 lb \<noteq> None"
    using lb_append_kept[OF lb(2) l, of "''b''" 6] by auto
  moreover have "lb_append ''b'' 0 6 (lb_flush lb) = None"
    using log_flush_breaks_append[OF lb(2) l, of "''b''" 6] lb(3,4) by simp
  ultimately show ?thesis by blast
qed

end
