(* ===== verification/SyncReq.thy ===== *)
theory SyncReq
  imports Machine
begin

text \<open>
  Synchronous requests to the modem (\<open>location/loc_api/loc_api_v02/loc_api_sync_req.cpp\<close>): a
  thread takes one of eight slots, sends its request, and sleeps on the slot's condition variable
  until the indication it named arrives, the call's time is over, or it wakes up without reason.

  Threads interleave. A thread's call is cut into steps where it releases a lock or calls outside:
  taking a slot and freeing it are under the module's mutex; filling the slot, entering the wait
  and leaving it are under the slot's lock. The delivery of an indication holds the module's mutex
  and takes the slot locks one after the other; as each turn of its loop touches one slot only and
  a thread touches only its own slot, a thread's step in the middle of the loop has the effect of
  the same step before or after the loop, and the delivery is one step. What
  \<open>locClientSendReq\<close> returns, when a wait times out and when it ends spuriously are arguments of
  the steps. Memory is a map from the address of a buffer to its bytes; a \<open>memcpy\<close> longer than
  its buffer is undefined. Handle 0 is the null pointer. The length of the time-out is not modelled.
\<close>

section \<open>State\<close>

datatype locClientStatusEnumType =
    eLOC_CLIENT_SUCCESS | eLOC_CLIENT_FAILURE_GENERAL | eLOC_CLIENT_FAILURE_UNSUPPORTED
  | eLOC_CLIENT_FAILURE_INVALID_PARAMETER | eLOC_CLIENT_FAILURE_ENGINE_BUSY
  | eLOC_CLIENT_FAILURE_PHONE_OFFLINE | eLOC_CLIENT_FAILURE_TIMEOUT
  | eLOC_CLIENT_FAILURE_SERVICE_NOT_PRESENT | eLOC_CLIENT_FAILURE_SERVICE_VERSION_UNSUPPORTED
  | eLOC_CLIENT_FAILURE_CLIENT_VERSION_UNSUPPORTED | eLOC_CLIENT_FAILURE_INVALID_HANDLE
  | eLOC_CLIENT_FAILURE_INTERNAL | eLOC_CLIENT_FAILURE_NOT_INITIALIZED
  | eLOC_CLIENT_FAILURE_NOT_ENOUGH_MEMORY | eLOC_CLIENT_FAILURE_INVALID_MESSAGE_ID

type_synonym handle = nat
type_synonym address = nat
type_synonym thread = nat

definition LOC_SYNC_REQ_BUFFER_SIZE :: nat where
  "LOC_SYNC_REQ_BUFFER_SIZE = 8"

definition LOC_CLIENT_INVALID_HANDLE_VALUE :: handle where
  "LOC_CLIENT_INVALID_HANDLE_VALUE = 0"

definition ETIMEDOUT :: int where
  "ETIMEDOUT = 110"

definition EBUSY :: int where
  "EBUSY = 16"

definition EINVAL :: int where
  "EINVAL = 22"

record loc_sync_req_data_s_type =
  client_handle :: handle
  ind_arrived_cond :: "thread list"
  ind_is_selected :: bool
  ind_is_waiting :: bool
  ind_has_arrived :: bool
  req_id :: u32
  recv_ind_payload_ptr :: "address option"
  recv_ind_id :: u32

text \<open>The arguments of \<open>loc_sync_send_req\<close>, and where a thread is inside the call.\<close>

record sync_call =
  call_client :: handle
  call_req :: u32
  call_ind :: u32
  call_payload :: "address option"

datatype place =
    Idle
  | Allocated sync_call nat
  | Selected sync_call nat
  | SendFailed sync_call nat locClientStatusEnumType
  | Accepted sync_call nat
  | Waiting sync_call nat
  | Woken sync_call nat int
  | Waited sync_call nat int

record sync_state =
  loc_sync_call_initialized :: bool
  in_use :: bool
  slot_in_use :: "bool list"
  slots :: "loc_sync_req_data_s_type list"
  place_of :: "thread \<Rightarrow> place"
  buffers :: "address \<Rightarrow> bytes"

datatype sync_out = Found nat | SentReq thread | Returned thread locClientStatusEnumType

section \<open>The functions of the module\<close>

definition reset_slot :: "loc_sync_req_data_s_type \<Rightarrow> loc_sync_req_data_s_type" where
  "reset_slot slot = slot\<lparr>client_handle := LOC_CLIENT_INVALID_HANDLE_VALUE, ind_is_selected := False,
     ind_is_waiting := False, ind_has_arrived := False, recv_ind_id := 0,
     recv_ind_payload_ptr := None, req_id := 0\<rparr>"

definition loc_sync_req_init :: "sync_state \<Rightarrow> sync_state" where
  "loc_sync_req_init s =
     (if loc_sync_call_initialized s then s
      else s\<lparr>in_use := False, slot_in_use := replicate LOC_SYNC_REQ_BUFFER_SIZE False,
        slots := map (\<lambda>slot. (reset_slot slot)\<lparr>ind_arrived_cond := []\<rparr>) (slots s),
        loc_sync_call_initialized := True\<rparr>)"

definition put_slot :: "nat \<Rightarrow> loc_sync_req_data_s_type \<Rightarrow> sync_state \<Rightarrow> sync_state" where
  "put_slot i slot s = s\<lparr>slots := (slots s)[i := slot]\<rparr>"

definition put_place :: "thread \<Rightarrow> place \<Rightarrow> sync_state \<Rightarrow> sync_state" where
  "put_place t p s = s\<lparr>place_of := (place_of s)(t := p)\<rparr>"

text \<open>A thread leaves the condition variable with the result \<open>rc\<close>.\<close>

definition leave_cond :: "thread \<Rightarrow> int \<Rightarrow> sync_state \<Rightarrow> sync_state" where
  "leave_cond t rc s = (case place_of s t of
     Waiting c i \<Rightarrow> put_place t (Woken c i rc)
       (put_slot i ((slots s ! i)\<lparr>ind_arrived_cond := removeAll t (ind_arrived_cond (slots s ! i))\<rparr>) s)
   | _ \<Rightarrow> s)"

definition signal_cond :: "nat \<Rightarrow> sync_state \<Rightarrow> sync_state" where
  "signal_cond i s = (case ind_arrived_cond (slots s ! i) of [] \<Rightarrow> s | t # _ \<Rightarrow> leave_cond t 0 s)"

text \<open>One turn of the loop of \<open>loc_sync_process_ind\<close>; the first result is \<open>consumed\<close>.\<close>

definition copy_payload :: "address option \<Rightarrow> bytes option \<Rightarrow> sync_state \<Rightarrow> (bool \<times> sync_state) option" where
  "copy_payload ptr payload s = (case (ptr, payload) of
     (Some a, Some bs) \<Rightarrow>
       if length bs > 0
       then (if length bs \<le> length (buffers s a)
             then Some (True, s\<lparr>buffers := (buffers s)(a := overwrite 0 bs (buffers s a))\<rparr>) else None)
       else Some (False, s)
   | _ \<Rightarrow> Some (False, s))"

definition visit_slot :: "handle \<Rightarrow> u32 \<Rightarrow> bytes option \<Rightarrow> nat \<Rightarrow> sync_state
    \<Rightarrow> (bool \<times> sync_state \<times> sync_out list) option" where
  "visit_slot client ind_id payload i s =
     (let slot = slots s ! i in
      if slot_in_use s ! i \<and> client_handle slot = client \<and> ind_id = recv_ind_id slot
         \<and> \<not> ind_has_arrived slot
      then do {
        (consumed, s) \<leftarrow> copy_payload (recv_ind_payload_ptr slot) payload s;
        let s = (if ind_is_waiting slot
                 then signal_cond i (put_slot i (slot\<lparr>recv_ind_id := ind_id\<rparr>) s)
                 else put_slot i (slot\<lparr>ind_has_arrived := True\<rparr>) s);
        Some (consumed, s, [Found i])
      }
      else Some (False, s, []))"

fun visit_slots :: "handle \<Rightarrow> u32 \<Rightarrow> bytes option \<Rightarrow> nat list \<Rightarrow> bool \<Rightarrow> bool \<Rightarrow> sync_state
    \<Rightarrow> (bool \<times> sync_state \<times> sync_out list) option" where
  "visit_slots client ind_id payload [] used consumed s = Some (used, s, [])"
| "visit_slots client ind_id payload (i # is) used consumed s =
     (if consumed then Some (used, s, [])
      else do {
        let used = (used \<or> slot_in_use s ! i);
        (consumed, s, out) \<leftarrow> visit_slot client ind_id payload i s;
        (used, s, more) \<leftarrow> visit_slots client ind_id payload is used consumed s;
        Some (used, s, out @ more)
      })"

definition loc_sync_process_ind :: "handle \<Rightarrow> u32 \<Rightarrow> bytes option \<Rightarrow> sync_state
    \<Rightarrow> (sync_state \<times> sync_out list) option" where
  "loc_sync_process_ind client ind_id payload s =
     (if \<not> in_use s then Some (s, [])
      else do {
        (used, s, out) \<leftarrow> visit_slots client ind_id payload [0..<LOC_SYNC_REQ_BUFFER_SIZE] False False s;
        Some (if \<not> used then s\<lparr>in_use := False\<rparr> else s, out)
      })"

definition loc_alloc_slot :: "sync_state \<Rightarrow> int \<times> sync_state" where
  "loc_alloc_slot s = (case find (\<lambda>i. \<not> slot_in_use s ! i) [0..<LOC_SYNC_REQ_BUFFER_SIZE] of
     None \<Rightarrow> (- 1, s)
   | Some i \<Rightarrow> (int i, s\<lparr>slot_in_use := (slot_in_use s)[i := True], in_use := True\<rparr>))"

definition loc_free_slot :: "nat \<Rightarrow> sync_state \<Rightarrow> sync_state" where
  "loc_free_slot select_id s =
     (let s = put_slot select_id (reset_slot (slots s ! select_id))
                (s\<lparr>slot_in_use := (slot_in_use s)[select_id := False]\<rparr>) in
      if \<forall>i\<in>set [0..<LOC_SYNC_REQ_BUFFER_SIZE]. \<not> slot_in_use s ! i then s\<lparr>in_use := False\<rparr> else s)"

text \<open>The second half of \<open>loc_sync_select_ind\<close>, after a slot was found.\<close>

definition select_slot :: "sync_call \<Rightarrow> nat \<Rightarrow> sync_state \<Rightarrow> sync_state" where
  "select_slot c i s = put_slot i ((slots s ! i)\<lparr>client_handle := call_client c, ind_is_selected := True,
     ind_is_waiting := False, ind_has_arrived := False, recv_ind_id := call_ind c, req_id := call_req c,
     recv_ind_payload_ptr := call_payload c\<rparr>) s"

text \<open>
  \<open>loc_sync_wait_for_ind\<close> up to \<open>pthread_cond_timedwait\<close>: the checks, with the value returned
  when the function does not get to wait.
\<close>

definition enter_wait :: "thread \<Rightarrow> sync_call \<Rightarrow> nat \<Rightarrow> sync_state \<Rightarrow> sync_state" where
  "enter_wait t c i s =
     (if ind_has_arrived (slots s ! i) then put_place t (Waited c i 0) s
      else if ind_is_waiting (slots s ! i) then put_place t (Waited c i (- EBUSY)) s
      else put_place t (Waiting c i)
        (put_slot i ((slots s ! i)\<lparr>ind_is_waiting := True,
           ind_arrived_cond := t # ind_arrived_cond (slots s ! i)\<rparr>) s))"

definition leave_wait :: "thread \<Rightarrow> sync_call \<Rightarrow> nat \<Rightarrow> int \<Rightarrow> sync_state \<Rightarrow> sync_state" where
  "leave_wait t c i rc s =
     put_place t (Waited c i (if rc = ETIMEDOUT then - ETIMEDOUT else 0))
       (put_slot i ((slots s ! i)\<lparr>ind_is_waiting := False\<rparr>) s)"

text \<open>The status \<open>loc_sync_send_req\<close> makes of the result of the wait.\<close>

definition wait_status :: "int \<Rightarrow> locClientStatusEnumType" where
  "wait_status rc =
     (if rc < 0 then (if rc = - ETIMEDOUT then eLOC_CLIENT_FAILURE_TIMEOUT else eLOC_CLIENT_FAILURE_INTERNAL)
      else eLOC_CLIENT_SUCCESS)"

section \<open>Steps of the threads\<close>

datatype sync_op =
    Init
  | Call thread sync_call
  | Select thread
  | Send thread locClientStatusEnumType
  | Wait thread
  | Timeout thread
  | Spurious thread
  | Resume thread
  | Release thread
  | Ind handle u32 "bytes option"

text \<open>
  \<open>loc_sync_send_req\<close> is \<open>Call\<close>, \<open>Select\<close>, \<open>Send\<close>, \<open>Wait\<close>, \<open>Resume\<close> and \<open>Release\<close> of one
  thread. A step of a thread that is elsewhere does not exist and gives \<open>None\<close>.
\<close>

fun sync_step :: "sync_op \<Rightarrow> sync_state \<Rightarrow> (sync_state \<times> sync_out list) option" where
  "sync_step Init s = Some (loc_sync_req_init s, [])"
| "sync_step (Call t c) s = (case place_of s t of
     Idle \<Rightarrow> (let (select_id, s) = loc_alloc_slot s in
       if select_id < 0 then Some (s, [Returned t eLOC_CLIENT_SUCCESS])
       else Some (put_place t (Allocated c (nat select_id)) s, []))
   | _ \<Rightarrow> None)"
| "sync_step (Select t) s = (case place_of s t of
     Allocated c i \<Rightarrow> Some (put_place t (Selected c i) (select_slot c i s), [])
   | _ \<Rightarrow> None)"
| "sync_step (Send t status) s = (case place_of s t of
     Selected c i \<Rightarrow>
       Some (put_place t (if status \<noteq> eLOC_CLIENT_SUCCESS then SendFailed c i status else Accepted c i) s,
         [SentReq t])
   | _ \<Rightarrow> None)"
| "sync_step (Wait t) s = (case place_of s t of
     Accepted c i \<Rightarrow>
       if i \<ge> LOC_SYNC_REQ_BUFFER_SIZE \<or> \<not> slot_in_use s ! i
       then Some (put_place t Idle s, [Returned t (wait_status (- EINVAL))])
       else Some (enter_wait t c i s, [])
   | _ \<Rightarrow> None)"
| "sync_step (Timeout t) s = (case place_of s t of
     Waiting c i \<Rightarrow> Some (leave_cond t ETIMEDOUT s, []) | _ \<Rightarrow> None)"
| "sync_step (Spurious t) s = (case place_of s t of
     Waiting c i \<Rightarrow> Some (leave_cond t 0 s, []) | _ \<Rightarrow> None)"
| "sync_step (Resume t) s = (case place_of s t of
     Woken c i rc \<Rightarrow> Some (leave_wait t c i rc s, []) | _ \<Rightarrow> None)"
| "sync_step (Release t) s = (case place_of s t of
     SendFailed c i status \<Rightarrow> Some (put_place t Idle (loc_free_slot i s), [Returned t status])
   | Waited c i rc \<Rightarrow> Some (put_place t Idle (loc_free_slot i s), [Returned t (wait_status rc)])
   | _ \<Rightarrow> None)"
| "sync_step (Ind client ind_id payload) s = loc_sync_process_ind client ind_id payload s"

definition zero_slot :: loc_sync_req_data_s_type where
  "zero_slot = \<lparr>client_handle = 0, ind_arrived_cond = [], ind_is_selected = False, ind_is_waiting = False,
     ind_has_arrived = False, req_id = 0, recv_ind_payload_ptr = None, recv_ind_id = 0\<rparr>"

text \<open>
  The module's static data after its initialisation, which the client's open function performs
  before any request, with buffers of the given contents.
\<close>

definition sync_start :: "(address \<Rightarrow> bytes) \<Rightarrow> sync_state" where
  "sync_start m = loc_sync_req_init \<lparr>loc_sync_call_initialized = False, in_use = False,
     slot_in_use = replicate LOC_SYNC_REQ_BUFFER_SIZE False,
     slots = replicate LOC_SYNC_REQ_BUFFER_SIZE zero_slot, place_of = (\<lambda>_. Idle), buffers = m\<rparr>"

section \<open>Invariant\<close>

text \<open>The slot and the call of a thread.\<close>

fun slot_of :: "place \<Rightarrow> nat option" where
  "slot_of Idle = None"
| "slot_of (Allocated c i) = Some i"
| "slot_of (Selected c i) = Some i"
| "slot_of (SendFailed c i status) = Some i"
| "slot_of (Accepted c i) = Some i"
| "slot_of (Waiting c i) = Some i"
| "slot_of (Woken c i rc) = Some i"
| "slot_of (Waited c i rc) = Some i"

fun call_of :: "place \<Rightarrow> sync_call option" where
  "call_of Idle = None"
| "call_of (Allocated c i) = Some c"
| "call_of (Selected c i) = Some c"
| "call_of (SendFailed c i status) = Some c"
| "call_of (Accepted c i) = Some c"
| "call_of (Waiting c i) = Some c"
| "call_of (Woken c i rc) = Some c"
| "call_of (Waited c i rc) = Some c"

definition quiet :: "loc_sync_req_data_s_type \<Rightarrow> bool" where
  "quiet slot \<longleftrightarrow> \<not> ind_is_waiting slot \<and> ind_arrived_cond slot = []"

definition filled :: "sync_call \<Rightarrow> loc_sync_req_data_s_type \<Rightarrow> bool" where
  "filled c slot \<longleftrightarrow> client_handle slot = call_client c \<and> recv_ind_id slot = call_ind c \<and>
     recv_ind_payload_ptr slot = call_payload c"

text \<open>What a slot holds for its thread.\<close>

fun fits :: "thread \<Rightarrow> place \<Rightarrow> loc_sync_req_data_s_type \<Rightarrow> bool" where
  "fits t Idle slot = True"
| "fits t (Allocated c i) slot = (quiet slot \<and> recv_ind_payload_ptr slot = None)"
| "fits t (Selected c i) slot = (quiet slot \<and> filled c slot)"
| "fits t (SendFailed c i status) slot = (quiet slot \<and> filled c slot \<and> status \<noteq> eLOC_CLIENT_SUCCESS)"
| "fits t (Accepted c i) slot = (quiet slot \<and> filled c slot)"
| "fits t (Waiting c i) slot = (ind_is_waiting slot \<and> ind_arrived_cond slot = [t] \<and>
     \<not> ind_has_arrived slot \<and> filled c slot)"
| "fits t (Woken c i rc) slot = (ind_is_waiting slot \<and> ind_arrived_cond slot = [] \<and>
     \<not> ind_has_arrived slot \<and> filled c slot)"
| "fits t (Waited c i rc) slot = (quiet slot \<and> filled c slot)"

definition sync_shape :: "sync_state \<Rightarrow> bool" where
  "sync_shape s \<longleftrightarrow> loc_sync_call_initialized s \<and>
     length (slot_in_use s) = LOC_SYNC_REQ_BUFFER_SIZE \<and> length (slots s) = LOC_SYNC_REQ_BUFFER_SIZE \<and>
     (in_use s \<longleftrightarrow> (\<exists>i<LOC_SYNC_REQ_BUFFER_SIZE. slot_in_use s ! i))"

definition owners_fit :: "sync_state \<Rightarrow> bool" where
  "owners_fit s \<longleftrightarrow> (\<forall>t i. slot_of (place_of s t) = Some i \<longrightarrow> i < LOC_SYNC_REQ_BUFFER_SIZE \<and>
     slot_in_use s ! i \<and> fits t (place_of s t) (slots s ! i))"

definition one_owner :: "sync_state \<Rightarrow> bool" where
  "one_owner s \<longleftrightarrow>
     (\<forall>t u i. slot_of (place_of s t) = Some i \<longrightarrow> slot_of (place_of s u) = Some i \<longrightarrow> t = u) \<and>
     (\<forall>i<LOC_SYNC_REQ_BUFFER_SIZE. slot_in_use s ! i \<longrightarrow> (\<exists>t. slot_of (place_of s t) = Some i))"

definition free_quiet :: "sync_state \<Rightarrow> bool" where
  "free_quiet s \<longleftrightarrow> (\<forall>i<LOC_SYNC_REQ_BUFFER_SIZE. \<not> slot_in_use s ! i \<longrightarrow>
     quiet (slots s ! i) \<and> recv_ind_payload_ptr (slots s ! i) = None)"

definition sync_inv :: "sync_state \<Rightarrow> bool" where
  "sync_inv s \<longleftrightarrow> sync_shape s \<and> owners_fit s \<and> one_owner s \<and> free_quiet s"

lemmas sync_inv_defs = sync_inv_def sync_shape_def owners_fit_def one_owner_def free_quiet_def

lemma sync_inv_owned:
  assumes "sync_inv s" "slot_of (place_of s t) = Some i"
  shows "i < LOC_SYNC_REQ_BUFFER_SIZE" "slot_in_use s ! i" "fits t (place_of s t) (slots s ! i)"
    "i < length (slots s)" "i < length (slot_in_use s)"
  using assms by (auto simp: sync_inv_defs)

lemma sync_inv_owner:
  assumes "sync_inv s" "i < LOC_SYNC_REQ_BUFFER_SIZE" "slot_in_use s ! i"
  obtains t where "slot_of (place_of s t) = Some i"
  using assms by (auto simp: sync_inv_def one_owner_def)

lemma put_sel [simp]:
  "slots (put_place t p s) = slots s" "slot_in_use (put_place t p s) = slot_in_use s"
  "buffers (put_place t p s) = buffers s" "place_of (put_place t p s) = (place_of s)(t := p)"
  "slots (put_slot i sl s) = (slots s)[i := sl]" "slot_in_use (put_slot i sl s) = slot_in_use s"
  "buffers (put_slot i sl s) = buffers s" "place_of (put_slot i sl s) = place_of s"
  "in_use (put_place t p s) = in_use s" "in_use (put_slot i sl s) = in_use s"
  "loc_sync_call_initialized (put_place t p s) = loc_sync_call_initialized s"
  "loc_sync_call_initialized (put_slot i sl s) = loc_sync_call_initialized s"
  by (simp_all add: put_place_def put_slot_def)

text \<open>A thread moves on with its slot.\<close>

lemma sync_inv_move:
  assumes inv: "sync_inv s" and i: "slot_of (place_of s t) = Some i" "slot_of p = Some i"
    and fit: "fits t p sl"
  shows "sync_inv (put_place t p (put_slot i sl s))"
proof -
  have other: "slot_of (place_of s u) \<noteq> Some i" if "u \<noteq> t" for u
    using inv i(1) that by (auto simp: sync_inv_def one_owner_def)
  note own = sync_inv_owned[OF inv i(1)]
  let ?s = "put_place t p (put_slot i sl s)"
  have so: "slot_of (place_of ?s u) = slot_of (place_of s u)" for u using i by simp
  have "sync_shape ?s" using inv by (simp add: sync_inv_def sync_shape_def)
  moreover have "owners_fit ?s" unfolding owners_fit_def
  proof (intro allI impI)
    fix u j assume uj: "slot_of (place_of ?s u) = Some j"
    then have old: "slot_of (place_of s u) = Some j" using so by simp
    show "j < LOC_SYNC_REQ_BUFFER_SIZE \<and> slot_in_use ?s ! j \<and> fits u (place_of ?s u) (slots ?s ! j)"
    proof (cases "u = t")
      case True
      then show ?thesis using old i own fit by simp
    next
      case False
      then have "j \<noteq> i" using other[OF False] old by auto
      then show ?thesis using False sync_inv_owned[OF inv old] by simp
    qed
  qed
  moreover have "one_owner ?s" using inv unfolding sync_inv_def one_owner_def so by simp
  moreover have "free_quiet ?s" using inv own by (auto simp: sync_inv_def free_quiet_def nth_list_update)
  ultimately show ?thesis by (simp add: sync_inv_def)
qed

lemma sync_inv_buffers: "sync_inv (s\<lparr>buffers := m\<rparr>) = sync_inv s"
  by (simp add: sync_inv_defs)

lemma put_same: "place_of s t = p \<Longrightarrow> put_place t p s = s" "slots s ! i = sl \<Longrightarrow> put_slot i sl s = s"
  by (auto simp: put_place_def put_slot_def fun_upd_idem)

lemma sync_inv_place:
  assumes "sync_inv s" "slot_of (place_of s t) = Some i" "slot_of p = Some i" "fits t p (slots s ! i)"
  shows "sync_inv (put_place t p s)"
  using sync_inv_move[OF assms] by (simp add: put_same)

lemma sync_inv_slot:
  assumes "sync_inv s" "slot_of (place_of s t) = Some i" "fits t (place_of s t) sl"
  shows "sync_inv (put_slot i sl s)"
  using sync_inv_move[OF assms(1,2,2,3)] by (simp add: put_same)

lemma slot_ofD:
  "slot_of p = Some i \<Longrightarrow> (\<exists>c. p = Allocated c i) \<or> (\<exists>c. p = Selected c i) \<or> (\<exists>c st. p = SendFailed c i st)
    \<or> (\<exists>c. p = Accepted c i) \<or> (\<exists>c. p = Waiting c i) \<or> (\<exists>c rc. p = Woken c i rc) \<or> (\<exists>c rc. p = Waited c i rc)"
  by (cases p) auto

section \<open>Delivery of an indication\<close>

text \<open>What a matching turn of the loop does for the thread that owns the slot.\<close>

definition delivered :: "thread \<Rightarrow> nat \<Rightarrow> sync_state \<Rightarrow> sync_state" where
  "delivered t i s = (case place_of s t of
     Waiting c j \<Rightarrow> put_place t (Woken c i 0) (put_slot i ((slots s ! i)\<lparr>ind_arrived_cond := []\<rparr>) s)
   | Woken c j rc \<Rightarrow> s
   | _ \<Rightarrow> put_slot i ((slots s ! i)\<lparr>ind_has_arrived := True\<rparr>) s)"

definition slot_matches :: "handle \<Rightarrow> u32 \<Rightarrow> sync_state \<Rightarrow> nat \<Rightarrow> bool" where
  "slot_matches client ind_id s i \<longleftrightarrow> slot_in_use s ! i \<and> client_handle (slots s ! i) = client \<and>
     ind_id = recv_ind_id (slots s ! i) \<and> \<not> ind_has_arrived (slots s ! i)"

lemma copy_payload_state:
  assumes "copy_payload ptr payload s = Some (consumed, s1)"
  obtains (kept) "s1 = s" "\<not> consumed"
  | (copied) a bs where "ptr = Some a" "payload = Some bs" "consumed" "length bs > 0" "length bs \<le> length (buffers s a)"
      "s1 = s\<lparr>buffers := (buffers s)(a := overwrite 0 bs (buffers s a))\<rparr>"
  using assms by (auto simp: copy_payload_def split: option.splits if_splits)

lemma copy_payload_sel:
  assumes "copy_payload ptr payload s = Some (consumed, s1)"
  shows "slots s1 = slots s" "slot_in_use s1 = slot_in_use s" "place_of s1 = place_of s" "in_use s1 = in_use s"
    "sync_inv s1 = sync_inv s"
  using assms by (rule copy_payload_state; simp add: sync_inv_buffers)+

lemma visit_slot_miss: "\<not> slot_matches client ind_id s i \<Longrightarrow> visit_slot client ind_id payload i s = Some (False, s, [])"
  by (auto simp: visit_slot_def slot_matches_def Let_def)

lemma visit_slot_hit:
  assumes inv: "sync_inv s" and own: "slot_of (place_of s t) = Some i" and hit: "slot_matches client ind_id s i"
  shows "visit_slot client ind_id payload i s =
    map_option (\<lambda>(consumed, s). (consumed, delivered t i s, [Found i]))
      (copy_payload (recv_ind_payload_ptr (slots s ! i)) payload s)"
proof (cases "copy_payload (recv_ind_payload_ptr (slots s ! i)) payload s")
  case None
  then show ?thesis using hit by (simp add: visit_slot_def slot_matches_def Let_def)
next
  case (Some r)
  obtain consumed s1 where r: "r = (consumed, s1)" by (cases r)
  note sel = copy_payload_sel[OF Some[unfolded r]]
  have same: "(slots s ! i)\<lparr>recv_ind_id := ind_id\<rparr> = slots s1 ! i"
    using hit sel by (simp add: slot_matches_def)
  have inv1: "sync_inv s1" and own1: "slot_of (place_of s1 t) = Some i" using inv own sel by auto
  note fit = sync_inv_owned(3)[OF inv1 own1]
  have "visit_slot client ind_id payload i s =
    Some (consumed, if ind_is_waiting (slots s1 ! i) then signal_cond i s1
       else put_slot i ((slots s1 ! i)\<lparr>ind_has_arrived := True\<rparr>) s1, [Found i])"
    using hit Some r sel same by (simp add: visit_slot_def slot_matches_def Let_def put_same)
  moreover have "(if ind_is_waiting (slots s1 ! i) then signal_cond i s1
       else put_slot i ((slots s1 ! i)\<lparr>ind_has_arrived := True\<rparr>) s1) = delivered t i s1"
    using slot_ofD[OF own1] fit
    by (elim disjE exE) (auto simp: delivered_def signal_cond_def leave_cond_def quiet_def)
  ultimately show ?thesis using Some r by simp
qed

lemma delivered_inv:
  assumes inv: "sync_inv s" and own: "slot_of (place_of s t) = Some i"
  shows "sync_inv (delivered t i s)"
  using slot_ofD[OF own] sync_inv_owned(3)[OF inv own] inv
  by (elim disjE exE)
    (auto simp: delivered_def quiet_def filled_def intro!: sync_inv_slot[OF inv own] sync_inv_move[OF inv own])

lemma delivered_sel [simp]:
  "buffers (delivered t i s) = buffers s" "slot_in_use (delivered t i s) = slot_in_use s"
  "in_use (delivered t i s) = in_use s"
  by (auto simp: delivered_def split: place.split)

lemma delivered_place:
  "slot_of (place_of s t) = Some i \<Longrightarrow> slot_of (place_of (delivered t i s) u) = slot_of (place_of s u)"
  "call_of (place_of (delivered t i s) u) = call_of (place_of s u)"
  by (auto simp: delivered_def split: place.split)

lemma delivered_frame:
  assumes "sync_inv s" "slot_of (place_of s t) = Some i" "j \<noteq> i" shows "slots (delivered t i s) ! j = slots s ! j"
  using assms by (auto simp: delivered_def split: place.split)

text \<open>One turn of the loop on an owned slot.\<close>

lemma visit_slot_cases:
  assumes inv: "sync_inv s" and i: "i < LOC_SYNC_REQ_BUFFER_SIZE"
    and v: "visit_slot client ind_id payload i s = Some (consumed, s', out)"
  obtains (miss) "s' = s" "out = []" "\<not> consumed" "\<not> slot_matches client ind_id s i"
  | (hit) t s1 where "slot_of (place_of s t) = Some i" "slot_matches client ind_id s i"
      "copy_payload (recv_ind_payload_ptr (slots s ! i)) payload s = Some (consumed, s1)"
      "s' = delivered t i s1" "out = [Found i]"
proof (cases "slot_matches client ind_id s i")
  case True
  then have "slot_in_use s ! i" by (simp add: slot_matches_def)
  then obtain t where t: "slot_of (place_of s t) = Some i" using sync_inv_owner[OF inv i] by blast
  show thesis using v t True hit unfolding visit_slot_hit[OF inv t True] by auto
next
  case False
  with v miss show thesis by (simp add: visit_slot_miss)
qed

lemma visit_slot_inv:
  assumes inv: "sync_inv s" and i: "i < LOC_SYNC_REQ_BUFFER_SIZE"
    and v: "visit_slot client ind_id payload i s = Some (consumed, s', out)"
  shows "sync_inv s' \<and> slot_in_use s' = slot_in_use s \<and> in_use s' = in_use s \<and>
    (consumed \<longrightarrow> slot_in_use s ! i)"
proof (rule visit_slot_cases[OF assms])
  fix t s1 assume h: "slot_of (place_of s t) = Some i" "slot_matches client ind_id s i"
    "copy_payload (recv_ind_payload_ptr (slots s ! i)) payload s = Some (consumed, s1)" "s' = delivered t i s1"
  note sel = copy_payload_sel[OF h(3)]
  have "sync_inv (delivered t i s1)" using inv h(1) sel by (intro delivered_inv) simp_all
  with h sel show ?thesis by (simp add: slot_matches_def)
qed (use inv in simp)

lemma visit_slots_ConsE:
  assumes "visit_slots client ind_id payload (i # is) used consumed s = Some (used', s', out)" "\<not> consumed"
  obtains c1 s1 o1 o2 where "visit_slot client ind_id payload i s = Some (c1, s1, o1)"
    "visit_slots client ind_id payload is (used \<or> slot_in_use s ! i) c1 s1 = Some (used', s', o2)" "out = o1 @ o2"
  using assms by (auto simp: bind_eq_Some_conv)

lemma visit_slots_inv:
  "sync_inv s \<Longrightarrow> \<forall>i\<in>set is. i < LOC_SYNC_REQ_BUFFER_SIZE \<Longrightarrow> consumed \<longrightarrow> used \<Longrightarrow>
   visit_slots client ind_id payload is used consumed s = Some (used', s', out) \<Longrightarrow>
   sync_inv s' \<and> slot_in_use s' = slot_in_use s \<and> in_use s' = in_use s \<and>
   (\<not> used' \<longrightarrow> \<not> used \<and> (\<forall>i\<in>set is. \<not> slot_in_use s ! i))"
proof (induction "is" arbitrary: used consumed s out)
  case (Cons i "is")
  show ?case
  proof (cases consumed)
    case False
    from Cons.prems(4) False obtain c1 s1 o1 o2 where
      1: "visit_slot client ind_id payload i s = Some (c1, s1, o1)" and
      2: "visit_slots client ind_id payload is (used \<or> slot_in_use s ! i) c1 s1 = Some (used', s', o2)"
      by (rule visit_slots_ConsE)
    have "i < LOC_SYNC_REQ_BUFFER_SIZE" using Cons.prems(2) by simp
    note v = visit_slot_inv[OF Cons.prems(1) this 1]
    show ?thesis using Cons.IH[OF _ _ _ 2] v Cons.prems(2) by auto
  qed (use Cons.prems in auto)
qed auto

text \<open>The loop of an initialised module never clears \<open>in_use\<close>: a slot is in use when it starts.\<close>

lemma process_ind_visits:
  assumes inv: "sync_inv s" and p: "loc_sync_process_ind client ind_id payload s = Some (s', out)"
  obtains (unused) "\<not> in_use s" "s' = s" "out = []"
  | (visited) used where "in_use s"
      "visit_slots client ind_id payload [0..<LOC_SYNC_REQ_BUFFER_SIZE] False False s = Some (used, s', out)"
proof (cases "in_use s")
  case True
  then obtain used s1 where 1: "visit_slots client ind_id payload [0..<LOC_SYNC_REQ_BUFFER_SIZE] False False s
      = Some (used, s1, out)" "s' = (if \<not> used then s1\<lparr>in_use := False\<rparr> else s1)"
    using p by (auto simp: loc_sync_process_ind_def bind_eq_Some_conv)
  have "\<exists>i<LOC_SYNC_REQ_BUFFER_SIZE. slot_in_use s ! i" using inv True by (simp add: sync_inv_def sync_shape_def)
  then have used using visit_slots_inv[OF inv _ _ 1(1)] by auto
  with 1 True visited show thesis by simp
next
  case False
  with p have "s' = s" "out = []" by (simp_all add: loc_sync_process_ind_def)
  with False show thesis by (rule unused)
qed

lemma process_ind_inv:
  assumes "sync_inv s" "loc_sync_process_ind client ind_id payload s = Some (s', out)"
  shows "sync_inv s'"
proof (rule process_ind_visits[OF assms])
  fix used assume "visit_slots client ind_id payload [0..<LOC_SYNC_REQ_BUFFER_SIZE] False False s = Some (used, s', out)"
  from visit_slots_inv[OF assms(1) _ _ this] show ?thesis by simp
qed (use assms in simp)

section \<open>Every step keeps the invariant\<close>

lemma find_upt: "find P [0..<n] = Some i \<Longrightarrow> i < n \<and> P i"
  by (auto simp: find_Some_iff)

lemma alloc_inv:
  assumes inv: "sync_inv s" and idle: "place_of s t = Idle"
    and f: "find (\<lambda>i. \<not> slot_in_use s ! i) [0..<LOC_SYNC_REQ_BUFFER_SIZE] = Some i"
  shows "sync_inv (put_place t (Allocated c i) (s\<lparr>slot_in_use := (slot_in_use s)[i := True], in_use := True\<rparr>))"
proof -
  have i: "i < LOC_SYNC_REQ_BUFFER_SIZE" "\<not> slot_in_use s ! i" using find_upt[OF f] by auto
  have none: "slot_of (place_of s u) \<noteq> Some i" for u using sync_inv_owned(2)[OF inv] i by blast
  have q: "quiet (slots s ! i) \<and> recv_ind_payload_ptr (slots s ! i) = None"
    using inv i by (simp add: sync_inv_def free_quiet_def)
  have len: "i < length (slot_in_use s)" using inv i by (simp add: sync_inv_def sync_shape_def)
  let ?s = "put_place t (Allocated c i) (s\<lparr>slot_in_use := (slot_in_use s)[i := True], in_use := True\<rparr>)"
  have "sync_shape ?s" using inv i len by (auto simp: sync_inv_def sync_shape_def intro!: exI[of _ i])
  moreover have "owners_fit ?s" using inv i len none q
    by (auto simp: sync_inv_def owners_fit_def nth_list_update)
  moreover have "one_owner ?s" using inv i len none idle
    unfolding sync_inv_def one_owner_def by (auto simp: nth_list_update) (metis slot_of.simps(1) option.distinct(1))+
  moreover have "free_quiet ?s" using inv len by (auto simp: sync_inv_def free_quiet_def nth_list_update)
  ultimately show ?thesis by (simp add: sync_inv_def)
qed

lemma free_inv:
  assumes inv: "sync_inv s" and own: "slot_of (place_of s t) = Some i"
    and q: "quiet (slots s ! i)"
  shows "sync_inv (put_place t Idle (loc_free_slot i s))"
proof -
  note o = sync_inv_owned[OF inv own]
  have other: "slot_of (place_of s u) \<noteq> Some i" if "u \<noteq> t" for u
    using inv own that by (auto simp: sync_inv_def one_owner_def)
  let ?s = "put_place t Idle (loc_free_slot i s)"
  have sel: "slot_in_use ?s = (slot_in_use s)[i := False]" "slots ?s = (slots s)[i := reset_slot (slots s ! i)]"
    "place_of ?s = (place_of s)(t := Idle)" "loc_sync_call_initialized ?s = loc_sync_call_initialized s"
    "in_use ?s = (in_use s \<and> \<not> (\<forall>j<LOC_SYNC_REQ_BUFFER_SIZE. \<not> (slot_in_use s)[i := False] ! j))"
    by (auto simp: loc_free_slot_def Let_def)
  have "in_use s" using inv o by (auto simp: sync_inv_def sync_shape_def)
  then have "sync_shape ?s" using inv unfolding sync_inv_def sync_shape_def sel by simp
  moreover have "owners_fit ?s" unfolding owners_fit_def sel
  proof (intro allI impI)
    fix u j assume "slot_of (((place_of s)(t := Idle)) u) = Some j"
    then have u: "u \<noteq> t" "slot_of (place_of s u) = Some j" by (auto split: if_splits)
    then have "j \<noteq> i" using other by auto
    with u sync_inv_owned[OF inv u(2)]
    show "j < LOC_SYNC_REQ_BUFFER_SIZE \<and> (slot_in_use s)[i := False] ! j \<and>
      fits u (((place_of s)(t := Idle)) u) ((slots s)[i := reset_slot (slots s ! i)] ! j)" by simp
  qed
  moreover have "one_owner ?s"
    using inv o own unfolding sync_inv_def one_owner_def sel
    by (auto simp: nth_list_update split: if_splits) (metis option.inject)
  moreover have "free_quiet ?s" using inv o q unfolding sync_inv_def free_quiet_def sel
    by (auto simp: nth_list_update reset_slot_def quiet_def)
  ultimately show ?thesis by (simp add: sync_inv_def)
qed

lemma sync_start_inv: "sync_inv (sync_start m)"
  by (simp add: sync_inv_defs sync_start_def loc_sync_req_init_def reset_slot_def quiet_def)

lemma step_alloc:
  assumes "sync_inv s" "place_of s t = Idle"
  obtains (full) "sync_step (Call t c) s = Some (s, [Returned t eLOC_CLIENT_SUCCESS])"
      "\<forall>i<LOC_SYNC_REQ_BUFFER_SIZE. slot_in_use s ! i"
  | (slot) i where "find (\<lambda>i. \<not> slot_in_use s ! i) [0..<LOC_SYNC_REQ_BUFFER_SIZE] = Some i"
      "sync_step (Call t c) s = Some (put_place t (Allocated c i)
         (s\<lparr>slot_in_use := (slot_in_use s)[i := True], in_use := True\<rparr>), [])"
proof (cases "find (\<lambda>i. \<not> slot_in_use s ! i) [0..<LOC_SYNC_REQ_BUFFER_SIZE]")
  case None
  then have "\<forall>i<LOC_SYNC_REQ_BUFFER_SIZE. slot_in_use s ! i" by (simp add: find_None_iff)
  with None assms full show thesis by (simp add: loc_alloc_slot_def)
next
  case (Some i)
  with assms slot show thesis by (simp add: loc_alloc_slot_def)
qed

lemma step_wait:
  "sync_inv s \<Longrightarrow> place_of s t = Accepted c i \<Longrightarrow> sync_step (Wait t) s = Some (enter_wait t c i s, [])"
  using sync_inv_owned[of s t i] by simp

lemma enter_wait_cases:
  assumes inv: "sync_inv s" and p: "place_of s t = Accepted c i"
  obtains (arrived) "ind_has_arrived (slots s ! i)" "enter_wait t c i s = put_place t (Waited c i 0) s"
  | (sleeps) "\<not> ind_has_arrived (slots s ! i)" "enter_wait t c i s = put_place t (Waiting c i)
      (put_slot i ((slots s ! i)\<lparr>ind_is_waiting := True, ind_arrived_cond := [t]\<rparr>) s)"
  using sync_inv_owned(3)[OF inv, of t i] p by (auto simp: enter_wait_def quiet_def)

lemma leave_cond_waiting:
  assumes "sync_inv s" "place_of s t = Waiting c i"
  shows "leave_cond t rc s = put_place t (Woken c i rc) (put_slot i ((slots s ! i)\<lparr>ind_arrived_cond := []\<rparr>) s)"
  using sync_inv_owned(3)[OF assms(1), of t i] assms(2) by (simp add: leave_cond_def)

lemma fits_simps: "quiet (sl\<lparr>ind_is_waiting := False\<rparr>) = (ind_arrived_cond sl = [])"
  "filled c (sl\<lparr>ind_is_waiting := b\<rparr>) = filled c sl" "filled c (sl\<lparr>ind_arrived_cond := ts\<rparr>) = filled c sl"
  by (auto simp: quiet_def filled_def)

lemma sync_step_inv:
  assumes inv: "sync_inv s" and st: "sync_step op s = Some (s', out)"
  shows "sync_inv s'"
proof (cases op)
  case Init
  with inv st show ?thesis by (auto simp: loc_sync_req_init_def sync_inv_def sync_shape_def)
next
  case (Call t c)
  then have "place_of s t = Idle" using st by (auto split: place.splits)
  with inv show ?thesis
    by (rule step_alloc[where c = c]) (use inv st Call \<open>place_of s t = Idle\<close> alloc_inv in auto)
next
  case (Select t)
  then obtain c i where "place_of s t = Allocated c i" "s' = put_place t (Selected c i) (select_slot c i s)"
    using st by (auto split: place.splits)
  then show ?thesis using sync_inv_owned(3)[OF inv, of t i] unfolding select_slot_def
    by (auto simp: quiet_def filled_def intro!: sync_inv_move[OF inv])
next
  case (Send t status)
  then show ?thesis using st sync_inv_owned(3)[OF inv, of t]
    by (auto split: place.splits intro!: sync_inv_place[OF inv])
next
  case (Wait t)
  then obtain c i where p: "place_of s t = Accepted c i" using st by (auto split: place.splits)
  then have s': "s' = enter_wait t c i s" using step_wait[OF inv p] st Wait by simp
  from inv p show ?thesis
  proof (rule enter_wait_cases)
    show ?thesis if "enter_wait t c i s = put_place t (Waited c i 0) s"
      using that s' p sync_inv_owned(3)[OF inv, of t i] by (auto intro!: sync_inv_place[OF inv])
    show ?thesis if "\<not> ind_has_arrived (slots s ! i)" "enter_wait t c i s = put_place t (Waiting c i)
      (put_slot i ((slots s ! i)\<lparr>ind_is_waiting := True, ind_arrived_cond := [t]\<rparr>) s)"
      using that s' p sync_inv_owned(3)[OF inv, of t i]
      by (auto simp: filled_def intro!: sync_inv_move[OF inv])
  qed
next
  case (Timeout t)
  then show ?thesis using st sync_inv_owned(3)[OF inv, of t]
    by (auto simp: leave_cond_waiting[OF inv] fits_simps split: place.splits intro!: sync_inv_move[OF inv])
next
  case (Spurious t)
  then show ?thesis using st sync_inv_owned(3)[OF inv, of t]
    by (auto simp: leave_cond_waiting[OF inv] fits_simps split: place.splits intro!: sync_inv_move[OF inv])
next
  case (Resume t)
  then show ?thesis using st sync_inv_owned(3)[OF inv, of t] unfolding leave_wait_def
    by (auto simp: leave_wait_def fits_simps split: place.splits intro!: sync_inv_move[OF inv])
next
  case (Release t)
  then show ?thesis using st sync_inv_owned(3)[OF inv, of t]
    by (auto split: place.splits intro!: free_inv[OF inv])
next
  case (Ind client ind_id payload)
  with st process_ind_inv[OF inv] show ?thesis by simp
qed

section \<open>Admitted steps are defined\<close>

text \<open>
  A thread's step is admitted where the thread is; an indication is admitted when its payload fits
  into the buffer of every call that waits for it.
\<close>

definition payload_fits :: "handle \<Rightarrow> u32 \<Rightarrow> bytes option \<Rightarrow> sync_state \<Rightarrow> bool" where
  "payload_fits client ind_id payload s \<longleftrightarrow>
     (\<forall>slot\<in>set (slots s). client_handle slot = client \<and> recv_ind_id slot = ind_id \<longrightarrow>
        (case (recv_ind_payload_ptr slot, payload) of
           (Some a, Some bs) \<Rightarrow> length bs \<le> length (buffers s a) | _ \<Rightarrow> True))"

fun sync_ok :: "sync_op \<Rightarrow> sync_state \<Rightarrow> bool" where
  "sync_ok Init s = True"
| "sync_ok (Call t c) s = (case place_of s t of Idle \<Rightarrow> True | _ \<Rightarrow> False)"
| "sync_ok (Select t) s = (case place_of s t of Allocated c i \<Rightarrow> True | _ \<Rightarrow> False)"
| "sync_ok (Send t status) s = (case place_of s t of Selected c i \<Rightarrow> True | _ \<Rightarrow> False)"
| "sync_ok (Wait t) s = (case place_of s t of Accepted c i \<Rightarrow> True | _ \<Rightarrow> False)"
| "sync_ok (Timeout t) s = (case place_of s t of Waiting c i \<Rightarrow> True | _ \<Rightarrow> False)"
| "sync_ok (Spurious t) s = (case place_of s t of Waiting c i \<Rightarrow> True | _ \<Rightarrow> False)"
| "sync_ok (Resume t) s = (case place_of s t of Woken c i rc \<Rightarrow> True | _ \<Rightarrow> False)"
| "sync_ok (Release t) s =
     (case place_of s t of SendFailed c i status \<Rightarrow> True | Waited c i rc \<Rightarrow> True | _ \<Rightarrow> False)"
| "sync_ok (Ind client ind_id payload) s = payload_fits client ind_id payload s"

lemma copy_payload_defined:
  assumes "payload_fits (client_handle (slots s ! i)) (recv_ind_id (slots s ! i)) payload s" "i < length (slots s)"
  shows "copy_payload (recv_ind_payload_ptr (slots s ! i)) payload s \<noteq> None"
  using assms nth_mem[OF assms(2)]
  by (fastforce simp: payload_fits_def copy_payload_def split: option.splits)

lemma payload_fits_put_slot:
  assumes fit: "payload_fits client ind_id payload s" and i: "i < length (slots s)"
    and same: "client_handle sl = client_handle (slots s ! i)" "recv_ind_id sl = recv_ind_id (slots s ! i)"
      "recv_ind_payload_ptr sl = recv_ind_payload_ptr (slots s ! i)"
  shows "payload_fits client ind_id payload (put_slot i sl s)"
  unfolding payload_fits_def
proof
  fix slot assume "slot \<in> set (slots (put_slot i sl s))"
  then have "slot = sl \<or> slot \<in> set (slots s)" using set_update_subset_insert[of "slots s" i sl] by auto
  with fit nth_mem[OF i] same
  show "client_handle slot = client \<and> recv_ind_id slot = ind_id \<longrightarrow>
    (case (recv_ind_payload_ptr slot, payload) of
       (Some a, Some bs) \<Rightarrow> length bs \<le> length (buffers (put_slot i sl s) a) | _ \<Rightarrow> True)"
    unfolding payload_fits_def put_sel by metis
qed

lemma payload_fits_delivered:
  assumes "payload_fits client ind_id payload s" "i < length (slots s)"
  shows "payload_fits client ind_id payload (delivered t i s)"
proof -
  have "payload_fits client ind_id payload (put_place t p s') = payload_fits client ind_id payload s'" for p s'
    unfolding payload_fits_def put_sel by simp
  with assms show ?thesis by (auto simp: delivered_def payload_fits_put_slot split: place.split)
qed

lemma visit_slots_defined:
  "sync_inv s \<Longrightarrow> payload_fits client ind_id payload s \<Longrightarrow> \<forall>i\<in>set is. i < LOC_SYNC_REQ_BUFFER_SIZE \<Longrightarrow>
   visit_slots client ind_id payload is used consumed s \<noteq> None"
proof (induction "is" arbitrary: used consumed s)
  case (Cons i "is")
  have i: "i < LOC_SYNC_REQ_BUFFER_SIZE" "i < length (slots s)"
    using Cons.prems by (auto simp: sync_inv_def sync_shape_def)
  obtain c1 s1 o1 where v: "visit_slot client ind_id payload i s = Some (c1, s1, o1)"
    and fit: "c1 \<or> payload_fits client ind_id payload s1"
  proof (cases "slot_matches client ind_id s i")
    case True
    then obtain t where t: "slot_of (place_of s t) = Some i"
      using sync_inv_owner[OF Cons.prems(1) i(1)] by (auto simp: slot_matches_def)
    obtain c1 s0 where c: "copy_payload (recv_ind_payload_ptr (slots s ! i)) payload s = Some (c1, s0)"
      using copy_payload_defined[OF _ i(2), of payload] Cons.prems(2) True by (auto simp: slot_matches_def)
    have "c1 \<or> payload_fits client ind_id payload (delivered t i s0)"
      by (rule copy_payload_state[OF c]) (use payload_fits_delivered[OF Cons.prems(2) i(2)] in auto)
    with that c show thesis unfolding visit_slot_hit[OF Cons.prems(1) t True] by simp
  next
    case False
    with that Cons.prems(2) show thesis by (simp add: visit_slot_miss)
  qed
  note inv1 = visit_slot_inv[OF Cons.prems(1) i(1) v]
  have "visit_slots client ind_id payload is u c1 s1 \<noteq> None" for u
  proof (cases c1)
    case True
    then show ?thesis by (cases "is") auto
  next
    case False
    with Cons.IH[of s1 u c1] inv1 fit Cons.prems(3) show ?thesis by simp
  qed
  then obtain u2 s2 o2 where "visit_slots client ind_id payload is (used \<or> slot_in_use s ! i) c1 s1 = Some (u2, s2, o2)"
    by (metis not_Some_eq prod_cases3)
  with v show ?case by simp
qed simp

lemma sync_step_defined:
  assumes "sync_inv s" "sync_ok op s" shows "sync_step op s \<noteq> None"
  using assms
proof (cases op)
  case (Call t c)
  with assms show ?thesis by (cases "place_of s t") (auto simp: Let_def split: prod.splits)
next
  case (Ind client ind_id payload)
  with assms visit_slots_defined[OF assms(1), of client ind_id payload "[0..<LOC_SYNC_REQ_BUFFER_SIZE]" False False]
  show ?thesis by (auto simp: loc_sync_process_ind_def)
qed (auto split: place.splits)

interpretation sync: machine sync_step "sync_start m" sync_inv sync_ok for m
  by standard (auto intro: sync_start_inv sync_step_inv dest: sync_step_defined)

section \<open>Writes to the callers' buffers\<close>

text \<open>The write of a payload for one call in progress.\<close>

definition writes :: "handle \<Rightarrow> u32 \<Rightarrow> bytes option \<Rightarrow> sync_state \<Rightarrow> (address \<Rightarrow> bytes) \<Rightarrow> (address \<Rightarrow> bytes) \<Rightarrow> bool" where
  "writes client ind_id payload s m m' \<longleftrightarrow>
     (\<exists>t c a bs. call_of (place_of s t) = Some c \<and> call_client c = client \<and> call_ind c = ind_id \<and>
        call_payload c = Some a \<and> payload = Some bs \<and> m' = m(a := overwrite 0 bs (m a)))"

lemma visit_slot_writes:
  assumes inv: "sync_inv s" and i: "i < LOC_SYNC_REQ_BUFFER_SIZE"
    and v: "visit_slot client ind_id payload i s = Some (consumed, s', out)"
  shows "(\<not> consumed \<and> buffers s' = buffers s) \<or>
    (consumed \<and> writes client ind_id payload s (buffers s) (buffers s'))"
proof (rule visit_slot_cases[OF assms])
  fix t s1 assume h: "slot_of (place_of s t) = Some i" "slot_matches client ind_id s i"
    "copy_payload (recv_ind_payload_ptr (slots s ! i)) payload s = Some (consumed, s1)" "s' = delivered t i s1"
  have fit: "recv_ind_payload_ptr (slots s ! i) = Some a \<Longrightarrow>
      \<exists>c. call_of (place_of s t) = Some c \<and> filled c (slots s ! i)" for a
    using slot_ofD[OF h(1)] sync_inv_owned(3)[OF inv h(1)] by auto
  from h(3) show ?thesis
  proof (rule copy_payload_state)
    fix a bs assume c: "recv_ind_payload_ptr (slots s ! i) = Some a" "payload = Some bs" "consumed"
      "s1 = s\<lparr>buffers := (buffers s)(a := overwrite 0 bs (buffers s a))\<rparr>"
    from fit[OF c(1)] obtain k where "call_of (place_of s t) = Some k" "filled k (slots s ! i)" by blast
    then have "call_client k = client" "call_ind k = ind_id" "call_payload k = Some a"
      using c(1) h(2) by (auto simp: filled_def slot_matches_def)
    moreover have "buffers s' = (buffers s)(a := overwrite 0 bs (buffers s a))" using c(4) h(4) by simp
    ultimately show ?thesis using c(2,3) \<open>call_of (place_of s t) = Some k\<close> unfolding writes_def by blast
  qed (use h in simp)
qed simp

lemma visit_slot_places:
  assumes "sync_inv s" "i < LOC_SYNC_REQ_BUFFER_SIZE" "visit_slot client ind_id payload i s = Some (consumed, s', out)"
  shows "call_of (place_of s' t) = call_of (place_of s t) \<and> slot_of (place_of s' t) = slot_of (place_of s t)"
  by (rule visit_slot_cases[OF assms]) (auto simp: delivered_place copy_payload_sel)

lemma visit_slots_writes:
  "sync_inv s \<Longrightarrow> \<forall>i\<in>set is. i < LOC_SYNC_REQ_BUFFER_SIZE \<Longrightarrow>
   visit_slots client ind_id payload is used consumed s = Some (used', s', out) \<Longrightarrow>
   buffers s' = buffers s \<or> writes client ind_id payload s (buffers s) (buffers s')"
proof (induction "is" arbitrary: used consumed s out)
  case (Cons i "is")
  show ?case
  proof (cases consumed)
    case False
    from Cons.prems(3) False obtain c1 s1 o1 o2 where
      1: "visit_slot client ind_id payload i s = Some (c1, s1, o1)" and
      2: "visit_slots client ind_id payload is (used \<or> slot_in_use s ! i) c1 s1 = Some (used', s', o2)"
      by (rule visit_slots_ConsE)
    have i: "i < LOC_SYNC_REQ_BUFFER_SIZE" using Cons.prems(2) by simp
    have same: "writes client ind_id payload s1 m m' = writes client ind_id payload s m m'" for m m'
      using visit_slot_places[OF Cons.prems(1) i 1] by (simp add: writes_def)
    have IH: "buffers s' = buffers s1 \<or> writes client ind_id payload s (buffers s1) (buffers s')"
      using Cons.IH[OF _ _ 2] visit_slot_inv[OF Cons.prems(1) i 1] same Cons.prems(2) by auto
    have stop: "c1 \<Longrightarrow> s' = s1" using 2 by (cases "is") auto
    show ?thesis using visit_slot_writes[OF Cons.prems(1) i 1] IH stop by (cases c1) auto
  qed (use Cons.prems in auto)
qed auto

lemma step_buffers:
  "sync_step op s = Some (s', out) \<Longrightarrow> (\<forall>client ind_id payload. op \<noteq> Ind client ind_id payload) \<Longrightarrow>
   buffers s' = buffers s"
  by (cases op)
    (auto simp: loc_sync_req_init_def loc_alloc_slot_def select_slot_def enter_wait_def leave_cond_def
      leave_wait_def loc_free_slot_def Let_def split: place.splits option.splits if_splits)

text \<open>
  C14. No step of the module ever writes to memory except the delivery of an indication, and this
  only into the payload buffer of a call that is still in progress and waits for exactly this
  indication of this client: after \<open>loc_sync_send_req\<close> has returned, its buffer, often a local
  variable of the caller, is never written again, whatever indications come late.
\<close>

theorem sync_writes_live_buffers_only:
  assumes "reachable sync_step (sync_start m) s" "sync_step op s = Some (s', out)" "buffers s' a \<noteq> buffers s a"
  shows "\<exists>t c bs. op = Ind (call_client c) (call_ind c) (Some bs) \<and> call_of (place_of s t) = Some c \<and>
    call_payload c = Some a \<and> buffers s' a = overwrite 0 bs (buffers s a)"
proof -
  have inv: "sync_inv s" using assms(1) by (rule sync.reachable_inv)
  obtain client ind_id payload where op: "op = Ind client ind_id payload"
    using step_buffers[OF assms(2)] assms(3) by metis
  then have "loc_sync_process_ind client ind_id payload s = Some (s', out)" using assms(2) by simp
  with inv show ?thesis
  proof (rule process_ind_visits)
    fix used assume "visit_slots client ind_id payload [0..<LOC_SYNC_REQ_BUFFER_SIZE] False False s = Some (used, s', out)"
    from visit_slots_writes[OF inv _ this] assms(3)
    obtain t c b bs where w: "call_of (place_of s t) = Some c" "call_client c = client" "call_ind c = ind_id"
      "call_payload c = Some b" "payload = Some bs" "buffers s' = (buffers s)(b := overwrite 0 bs (buffers s b))"
      unfolding writes_def by (metis atLeastLessThan_iff set_upt)
    then have "b = a" using assms(3) by (metis fun_upd_other)
    with w op show ?thesis by auto
  qed (use assms(3) in simp)
qed

section \<open>What a successful return means\<close>

text \<open>
  Two observations beside the state: a thread has heard an indication of its client with its
  number, delivered to its slot since it selected the slot; and a thread was woken spuriously.
\<close>

type_synonym monitor = "(thread \<Rightarrow> bool) \<times> (thread \<Rightarrow> bool)"

definition hears :: "handle \<Rightarrow> u32 \<Rightarrow> place \<Rightarrow> sync_out list \<Rightarrow> bool" where
  "hears client ind_id p out = (case (call_of p, slot_of p) of
     (Some c, Some i) \<Rightarrow> Found i \<in> set out \<and> call_client c = client \<and> call_ind c = ind_id
   | _ \<Rightarrow> False)"

fun observe :: "sync_op \<Rightarrow> sync_state \<Rightarrow> sync_out list \<Rightarrow> monitor \<Rightarrow> monitor" where
  "observe (Select t) s out (h, w) = (h(t := False), w(t := False))"
| "observe (Spurious t) s out (h, w) = (h, w(t := True))"
| "observe (Ind client ind_id payload) s out (h, w) =
     (\<lambda>t. h t \<or> hears client ind_id (place_of s t) out, w)"
| "observe op s out hw = hw"

definition watched :: "sync_op \<Rightarrow> sync_state \<times> monitor \<Rightarrow> ((sync_state \<times> monitor) \<times> sync_out list) option" where
  "watched op sm = do {
     (s', out) \<leftarrow> sync_step op (fst sm);
     Some ((s', observe op (fst sm) out (snd sm)), out)
   }"

definition watched_start :: "(address \<Rightarrow> bytes) \<Rightarrow> sync_state \<times> monitor" where
  "watched_start m = (sync_start m, (\<lambda>_. False, \<lambda>_. False))"

fun explained :: "place \<Rightarrow> loc_sync_req_data_s_type \<Rightarrow> bool \<Rightarrow> bool \<Rightarrow> bool" where
  "explained (Selected c i) slot h w = (ind_has_arrived slot \<longrightarrow> h)"
| "explained (Accepted c i) slot h w = (ind_has_arrived slot \<longrightarrow> h)"
| "explained (Woken c i rc) slot h w = (rc = ETIMEDOUT \<or> h \<or> w)"
| "explained (Waited c i rc) slot h w = (rc \<ge> 0 \<longrightarrow> h \<or> w)"
| "explained p slot h w = True"

definition watch_inv :: "sync_state \<times> monitor \<Rightarrow> bool" where
  "watch_inv sm \<longleftrightarrow> sync_inv (fst sm) \<and>
     (\<forall>t i. slot_of (place_of (fst sm) t) = Some i \<longrightarrow>
        explained (place_of (fst sm) t) (slots (fst sm) ! i) (fst (snd sm) t) (snd (snd sm) t))"

text \<open>The delivery, seen from one thread: nothing happens to it, or it hears the indication.\<close>

definition untouched :: "thread \<Rightarrow> nat \<Rightarrow> sync_state \<Rightarrow> sync_state \<Rightarrow> bool" where
  "untouched t i s s' \<longleftrightarrow> place_of s' t = place_of s t \<and> slots s' ! i = slots s ! i"

lemma visit_slot_thread:
  assumes inv: "sync_inv s" and i: "i < LOC_SYNC_REQ_BUFFER_SIZE" and t: "slot_of (place_of s t) = Some j"
    and v: "visit_slot client ind_id payload i s = Some (consumed, s', out)"
  shows "untouched t j s s' \<or> hears client ind_id (place_of s t) out \<or>
    (\<exists>c. place_of s t = Allocated c j \<and> place_of s' t = Allocated c j)"
proof (rule visit_slot_cases[OF inv i v])
  fix u s1 assume h: "slot_of (place_of s u) = Some i" "slot_matches client ind_id s i"
    "copy_payload (recv_ind_payload_ptr (slots s ! i)) payload s = Some (consumed, s1)" "s' = delivered u i s1"
    "out = [Found i]"
  note sel = copy_payload_sel[OF h(3)]
  show ?thesis
  proof (cases "t = u")
    case True
    then have "j = i" using t h(1) by simp
    with True h sync_inv_owned(3)[OF inv h(1)] slot_ofD[OF h(1)] sel show ?thesis
      by (elim disjE exE) (auto simp: hears_def filled_def slot_matches_def delivered_def)
  next
    case False
    then have "j \<noteq> i" using inv t h(1) by (auto simp: sync_inv_def one_owner_def)
    moreover have "slots s' ! j = slots s1 ! j"
      using delivered_frame[of s1 u i j] inv sel h(1,4) \<open>j \<noteq> i\<close> by simp
    moreover have "place_of s' t = place_of s1 t"
      using False h(4) by (auto simp: delivered_def split: place.split)
    ultimately show ?thesis using sel by (simp add: untouched_def)
  qed
qed (simp add: untouched_def)

lemma hears_append: "hears client ind_id p (out @ os) \<longleftrightarrow> hears client ind_id p out \<or> hears client ind_id p os"
  by (auto simp: hears_def split: option.splits)

lemma visit_slots_thread:
  "sync_inv s \<Longrightarrow> \<forall>i\<in>set is. i < LOC_SYNC_REQ_BUFFER_SIZE \<Longrightarrow> slot_of (place_of s t) = Some j \<Longrightarrow>
   visit_slots client ind_id payload is used consumed s = Some (used', s', out) \<Longrightarrow>
   untouched t j s s' \<or> hears client ind_id (place_of s t) out \<or>
   (\<exists>c. place_of s t = Allocated c j \<and> place_of s' t = Allocated c j)"
proof (induction "is" arbitrary: used consumed s out)
  case (Cons i "is")
  show ?case
  proof (cases consumed)
    case False
    from Cons.prems(4) False obtain c1 s1 o1 o2 where
      1: "visit_slot client ind_id payload i s = Some (c1, s1, o1)" and
      2: "visit_slots client ind_id payload is (used \<or> slot_in_use s ! i) c1 s1 = Some (used', s', o2)" and
      out: "out = o1 @ o2"
      by (rule visit_slots_ConsE)
    have i: "i < LOC_SYNC_REQ_BUFFER_SIZE" using Cons.prems(2) by simp
    have s1: "sync_inv s1" "slot_of (place_of s1 t) = Some j" "call_of (place_of s1 t) = call_of (place_of s t)"
      using visit_slot_inv[OF Cons.prems(1) i 1] visit_slot_places[OF Cons.prems(1) i 1, of t] Cons.prems(3) by auto
    have same: "hears client ind_id (place_of s1 t) o2 = hears client ind_id (place_of s t) o2"
      using s1 Cons.prems(3) by (simp add: hears_def)
    show ?thesis
      using visit_slot_thread[OF Cons.prems(1) i Cons.prems(3) 1] Cons.IH[OF s1(1) _ s1(2) 2] Cons.prems(2) same
      unfolding out hears_append untouched_def by auto
  qed (use Cons.prems in \<open>auto simp: untouched_def\<close>)
qed (auto simp: untouched_def)

lemma visit_slots_places:
  "sync_inv s \<Longrightarrow> \<forall>i\<in>set is. i < LOC_SYNC_REQ_BUFFER_SIZE \<Longrightarrow>
   visit_slots client ind_id payload is used consumed s = Some (used', s', out) \<Longrightarrow>
   slot_of (place_of s' t) = slot_of (place_of s t)"
proof (induction "is" arbitrary: used consumed s out)
  case (Cons i "is")
  show ?case
  proof (cases consumed)
    case False
    from Cons.prems(3) False obtain c1 s1 o1 o2 where
      1: "visit_slot client ind_id payload i s = Some (c1, s1, o1)" and
      2: "visit_slots client ind_id payload is (used \<or> slot_in_use s ! i) c1 s1 = Some (used', s', o2)"
      by (rule visit_slots_ConsE)
    have i: "i < LOC_SYNC_REQ_BUFFER_SIZE" using Cons.prems(2) by simp
    show ?thesis
      using Cons.IH[OF _ _ 2] visit_slot_inv[OF Cons.prems(1) i 1] visit_slot_places[OF Cons.prems(1) i 1, of t]
        Cons.prems(2) by simp
  qed (use Cons.prems in auto)
qed auto

lemma process_ind_thread:
  assumes inv: "sync_inv s" and p: "loc_sync_process_ind client ind_id payload s = Some (s', out)"
    and j: "slot_of (place_of s' t) = Some j"
  shows "slot_of (place_of s t) = Some j \<and> (untouched t j s s' \<or> hears client ind_id (place_of s t) out \<or>
    (\<exists>c. place_of s t = Allocated c j \<and> place_of s' t = Allocated c j))"
proof (rule process_ind_visits[OF inv p])
  fix used assume v: "visit_slots client ind_id payload [0..<LOC_SYNC_REQ_BUFFER_SIZE] False False s = Some (used, s', out)"
  have "slot_of (place_of s t) = Some j" using visit_slots_places[OF inv _ v, of t] j by simp
  with visit_slots_thread[OF inv _ _ v, of t j] show ?thesis by simp
qed (use j in \<open>simp add: untouched_def\<close>)

text \<open>The step of one thread leaves the other threads and their slots alone.\<close>

fun op_thread :: "sync_op \<Rightarrow> thread option" where
  "op_thread Init = None"
| "op_thread (Call t c) = Some t"
| "op_thread (Select t) = Some t"
| "op_thread (Send t status) = Some t"
| "op_thread (Wait t) = Some t"
| "op_thread (Timeout t) = Some t"
| "op_thread (Spurious t) = Some t"
| "op_thread (Resume t) = Some t"
| "op_thread (Release t) = Some t"
| "op_thread (Ind client ind_id payload) = None"

lemma free_slot_sel [simp]:
  "slots (loc_free_slot i s) = (slots s)[i := reset_slot (slots s ! i)]"
  "place_of (loc_free_slot i s) = place_of s"
  by (auto simp: loc_free_slot_def Let_def)

lemma alloc_slot_sel:
  "loc_alloc_slot s = (k, s') \<Longrightarrow> slots s' = slots s \<and> place_of s' = place_of s"
  by (auto simp: loc_alloc_slot_def split: option.splits)

lemma step_frame:
  assumes "sync_step op s = Some (s', out)" "op_thread op = Some t"
  shows "u \<noteq> t \<Longrightarrow> place_of s' u = place_of s u"
    and "slot_of (place_of s t) \<noteq> Some j \<Longrightarrow> slots s' ! j = slots s ! j"
  using assms
  by (cases op; auto simp: select_slot_def enter_wait_def leave_cond_def leave_wait_def alloc_slot_sel
      split: place.splits prod.splits if_splits dest: alloc_slot_sel)+

lemma step_untouched:
  assumes inv: "sync_inv s" and st: "sync_step op s = Some (s', out)" "op_thread op = Some t"
    and u: "u \<noteq> t" "slot_of (place_of s' u) = Some j"
  shows "slot_of (place_of s u) = Some j \<and> untouched u j s s'"
proof -
  have p: "place_of s' u = place_of s u" using step_frame(1)[OF st u(1)] .
  then have "slot_of (place_of s t) \<noteq> Some j" using inv u by (auto simp: sync_inv_def one_owner_def)
  then have "slots s' ! j = slots s ! j" by (rule step_frame(2)[OF st])
  with p u show ?thesis by (simp add: untouched_def)
qed

lemma observe_other:
  "op_thread op = Some t \<Longrightarrow> u \<noteq> t \<Longrightarrow>
   fst (observe op s out hw) u = fst hw u \<and> snd (observe op s out hw) u = snd hw u"
  by (cases hw; cases op) auto

text \<open>The thread that makes the step.\<close>

lemma explained_own:
  assumes inv: "sync_inv s" and st: "sync_step op s = Some (s', out)" "op_thread op = Some t"
    and i: "slot_of (place_of s' t) = Some i"
    and ex: "\<And>j. slot_of (place_of s t) = Some j \<Longrightarrow> explained (place_of s t) (slots s ! j) (h t) (w t)"
  shows "explained (place_of s' t) (slots s' ! i) (fst (observe op s out (h, w)) t) (snd (observe op s out (h, w)) t)"
proof (cases op)
  case (Select u)
  then obtain c j where p: "place_of s t = Allocated c j" "s' = put_place t (Selected c j) (select_slot c j s)"
    using st by (auto split: place.splits)
  then have "j < length (slots s)" "i = j" using sync_inv_owned(4)[OF inv, of t j] i by auto
  with p Select show ?thesis by (simp add: select_slot_def)
next
  case (Wait u)
  then obtain c j where p: "place_of s t = Accepted c j" using st by (auto split: place.splits)
  then have s': "s' = enter_wait t c j s" using step_wait[OF inv p] st Wait by (metis op_thread.simps(5) option.inject prod.inject)
  from inv p show ?thesis
    by (rule enter_wait_cases) (use s' Wait st ex[of j] p in auto)
next
  case (Resume u)
  with st i ex show ?thesis by (auto simp: leave_wait_def ETIMEDOUT_def split: place.splits)
next
  case (Timeout u)
  with st i ex show ?thesis by (auto simp: leave_cond_def split: place.splits)
next
  case (Spurious u)
  with st i ex show ?thesis by (auto simp: leave_cond_def split: place.splits)
next
  case (Call u c)
  with st i ex show ?thesis by (auto split: place.splits prod.splits if_splits dest: alloc_slot_sel)
qed (use st i ex in \<open>auto split: place.splits if_splits\<close>)

lemma untouched_explained:
  "untouched t i s s' \<Longrightarrow> explained (place_of s t) (slots s ! i) h w \<Longrightarrow> explained (place_of s' t) (slots s' ! i) h w"
  by (simp add: untouched_def)

lemma explained_heard: "explained p slot True w"
  by (cases p) auto

lemma explained_mono: "explained p slot h w \<Longrightarrow> explained p slot (h \<or> g) w"
  by (cases p) auto

lemma watch_step_inv:
  assumes inv: "watch_inv sm" and st: "watched op sm = Some (sm', out)"
  shows "watch_inv sm'"
proof -
  obtain s h w where sm: "sm = (s, (h, w))" by (cases sm) auto
  from st obtain s' where s': "sync_step op s = Some (s', out)" "sm' = (s', observe op s out (h, w))"
    by (auto simp: watched_def sm bind_eq_Some_conv)
  have si: "sync_inv s" and ex: "\<And>t i. slot_of (place_of s t) = Some i \<Longrightarrow> explained (place_of s t) (slots s ! i) (h t) (w t)"
    using inv by (auto simp: watch_inv_def sm)
  have "explained (place_of s' t) (slots s' ! i) (fst (observe op s out (h, w)) t) (snd (observe op s out (h, w)) t)"
    if i: "slot_of (place_of s' t) = Some i" for t i
  proof (cases "op_thread op")
    case (Some u)
    show ?thesis
    proof (cases "t = u")
      case True
      with Some i s'(1) si ex show ?thesis by (intro explained_own) auto
    next
      case False
      with step_untouched[OF si s'(1) Some False i] observe_other[OF Some False, of s out "(h, w)"] ex
      show ?thesis by (auto intro: untouched_explained)
    qed
  next
    case None
    then consider "op = Init" | client ind_id payload where "op = Ind client ind_id payload" by (cases op) auto
    then show ?thesis
    proof cases
      case 1
      then have "s' = s" using s'(1) si by (auto simp: loc_sync_req_init_def sync_inv_def sync_shape_def)
      with 1 i ex show ?thesis by simp
    next
      case 2
      with process_ind_thread[OF si, of client ind_id payload s' out t i] s'(1) i ex[of t i]
      show ?thesis by (auto simp: explained_heard intro: untouched_explained explained_mono)
    qed
  qed
  with s' sync_step_inv[OF si s'(1)] show ?thesis by (simp add: watch_inv_def)
qed

interpretation watch: machine watched "watched_start m" watch_inv "\<lambda>op sm. sync_ok op (fst sm)" for m
proof (standard, goal_cases)
  case 1
  show ?case using sync_start_inv[of m]
    by (simp add: watch_inv_def watched_start_def sync_start_def loc_sync_req_init_def)
next
  case (2 s op s' out)
  then show ?case by (rule watch_step_inv)
next
  case (3 s op)
  then obtain r where "sync_step op (fst s) = Some r"
    using sync_step_defined[of "fst s" op] by (auto simp: watch_inv_def)
  then show ?case by (cases r) (simp add: watched_def)
qed

lemma visit_slots_out:
  "visit_slots client ind_id payload is used consumed s = Some (used', s', out) \<Longrightarrow> \<forall>x\<in>set out. \<exists>i. x = Found i"
proof (induction "is" arbitrary: used consumed s out)
  case (Cons i "is")
  show ?case
  proof (cases consumed)
    case False
    from Cons.prems False obtain c1 s1 o1 o2 where
      1: "visit_slot client ind_id payload i s = Some (c1, s1, o1)" and
      2: "visit_slots client ind_id payload is (used \<or> slot_in_use s ! i) c1 s1 = Some (used', s', o2)" and
      out: "out = o1 @ o2"
      by (rule visit_slots_ConsE)
    from 1 have "o1 = [] \<or> o1 = [Found i]"
      by (auto simp: visit_slot_def Let_def bind_eq_Some_conv split: if_splits)
    with Cons.IH[OF 2] out show ?thesis by auto
  qed (use Cons.prems in simp)
qed simp

lemma process_ind_out:
  "loc_sync_process_ind client ind_id payload s = Some (s', out) \<Longrightarrow> \<forall>x\<in>set out. \<exists>i. x = Found i"
  by (auto simp: loc_sync_process_ind_def bind_eq_Some_conv split: if_splits dest: visit_slots_out)

text \<open>
  C12. Whatever the interleaving of threads and indications: when \<open>loc_sync_send_req\<close> returns
  success after it took a slot, an indication of the call's client with the call's number was
  delivered to this slot since it was selected, or the wait ended by a spurious wake-up, which the
  code does not check for. Time-outs and failed sends are never reported as success.
\<close>

theorem sync_success_heard_or_spurious:
  assumes "reachable watched (watched_start m) (s, (heard, spurious))"
    and "sync_step op s = Some (s', out)" "Returned t eLOC_CLIENT_SUCCESS \<in> set out" "\<And>c. op \<noteq> Call t c"
  shows "op = Release t \<and> (heard t \<or> spurious t)"
proof -
  have inv: "watch_inv (s, (heard, spurious))" using assms(1) by (rule watch.reachable_inv)
  then have si: "sync_inv s" by (simp add: watch_inv_def)
  show ?thesis
  proof (cases op)
    case (Release u)
    have ex: "explained (place_of s u) (slots s ! i) (heard u) (spurious u)"
      if "slot_of (place_of s u) = Some i" for i using inv that by (simp add: watch_inv_def)
    from Release assms(2,3) ex sync_inv_owned(3)[OF si, of u] show ?thesis
      by (cases "place_of s u") (auto simp: wait_status_def split: if_splits)
  next
    case (Wait u)
    with assms(2,3) step_wait[OF si] show ?thesis by (auto split: place.splits)
  next
    case (Call u c)
    with assms(2,3) assms(4)[of c] show ?thesis by (auto split: place.splits prod.splits if_splits)
  next
    case (Ind client ind_id payload)
    with assms(2,3) process_ind_out[of client ind_id payload s s' out] show ?thesis by auto
  qed (use assms(2,3) in \<open>auto split: place.splits\<close>)
qed

section \<open>All slots taken\<close>

lemma busy_threads:
  assumes "sync_inv s"
  shows "bij_betw (\<lambda>t. the (slot_of (place_of s t))) {t. place_of s t \<noteq> Idle}
    {i. i < LOC_SYNC_REQ_BUFFER_SIZE \<and> slot_in_use s ! i}"
proof (rule bij_betwI')
  have ex: "\<exists>i. slot_of (place_of s t) = Some i" if "place_of s t \<noteq> Idle" for t
    using that by (cases "place_of s t") auto
  fix t assume t: "t \<in> {t. place_of s t \<noteq> Idle}"
  show "the (slot_of (place_of s t)) \<in> {i. i < LOC_SYNC_REQ_BUFFER_SIZE \<and> slot_in_use s ! i}"
    using ex[of t] sync_inv_owned[OF assms] t by auto
  fix u assume "u \<in> {t. place_of s t \<noteq> Idle}"
  then show "(the (slot_of (place_of s t)) = the (slot_of (place_of s u))) = (t = u)"
    using ex[of t] ex[of u] t assms by (auto simp: sync_inv_def one_owner_def)
next
  fix i assume "i \<in> {i. i < LOC_SYNC_REQ_BUFFER_SIZE \<and> slot_in_use s ! i}"
  then obtain t where "slot_of (place_of s t) = Some i" using sync_inv_owner[OF assms] by blast
  then show "\<exists>t\<in>{t. place_of s t \<noteq> Idle}. i = the (slot_of (place_of s t))"
    by (intro bexI[of _ t]) auto
qed

lemma all_taken_iff:
  assumes "sync_inv s"
  shows "(\<forall>i<LOC_SYNC_REQ_BUFFER_SIZE. slot_in_use s ! i) \<longleftrightarrow> card {t. place_of s t \<noteq> Idle} = LOC_SYNC_REQ_BUFFER_SIZE"
proof -
  let ?U = "{i. i < LOC_SYNC_REQ_BUFFER_SIZE \<and> slot_in_use s ! i}"
  have "?U \<subseteq> {..<LOC_SYNC_REQ_BUFFER_SIZE}" by auto
  then have "card ?U = card {..<LOC_SYNC_REQ_BUFFER_SIZE} \<longleftrightarrow> ?U = {..<LOC_SYNC_REQ_BUFFER_SIZE}"
    by (intro iffI) (erule (1) card_subset_eq[OF finite_lessThan], erule arg_cong)
  moreover have "?U = {..<LOC_SYNC_REQ_BUFFER_SIZE} \<longleftrightarrow> (\<forall>i<LOC_SYNC_REQ_BUFFER_SIZE. slot_in_use s ! i)"
    unfolding set_eq_iff mem_Collect_eq lessThan_iff by metis
  ultimately show ?thesis unfolding bij_betw_same_card[OF busy_threads[OF assms]] by simp
qed

text \<open>
  Exactly when eight threads are inside a synchronous request, a further request takes no
  slot, and then it returns success at once although nothing was sent to the modem and nothing was
  written to its buffer; in every other case the request gets a slot.
\<close>

theorem sync_ninth_request:
  assumes "reachable sync_step (sync_start m) s" "place_of s t = Idle"
  shows "if card {t. place_of s t \<noteq> Idle} = LOC_SYNC_REQ_BUFFER_SIZE
    then sync_step (Call t c) s = Some (s, [Returned t eLOC_CLIENT_SUCCESS])
    else \<exists>s' i. sync_step (Call t c) s = Some (s', []) \<and> place_of s' t = Allocated c i"
proof -
  have inv: "sync_inv s" using assms(1) by (rule sync.reachable_inv)
  show ?thesis
  proof (rule step_alloc[OF inv assms(2), of c])
    fix i assume "find (\<lambda>i. \<not> slot_in_use s ! i) [0..<LOC_SYNC_REQ_BUFFER_SIZE] = Some i"
      "sync_step (Call t c) s = Some (put_place t (Allocated c i)
         (s\<lparr>slot_in_use := (slot_in_use s)[i := True], in_use := True\<rparr>), [])"
    then show ?thesis using all_taken_iff[OF inv] find_upt[of "\<lambda>i. \<not> slot_in_use s ! i"] by auto
  qed (use all_taken_iff[OF inv] in auto)
qed

section \<open>Witnesses\<close>

definition sync_demo_call :: sync_call where
  "sync_demo_call = \<lparr>call_client = 3, call_req = 9, call_ind = 9, call_payload = Some 40\<rparr>"

definition sync_demo_ops :: "sync_op list" where
  "sync_demo_ops = [Call 1 sync_demo_call, Select 1, Send 1 eLOC_CLIENT_SUCCESS, Wait 1]"

definition sync_demo_state :: "sync_op list \<Rightarrow> sync_state" where
  "sync_demo_state ops = fst (the (run sync_step ops (sync_start (\<lambda>_. [0, 0, 0]))))"

lemma sync_demo_reachable:
  assumes "run sync_step ops (sync_start (\<lambda>_. [0, 0, 0])) \<noteq> None"
  shows "reachable sync_step (sync_start (\<lambda>_. [0, 0, 0])) (sync_demo_state ops)"
  using assms run_reachable by (fastforce simp: sync_demo_state_def)

theorem sync_writes_live_buffers_only_witness:
  "\<exists>s' out. sync_step (Ind 3 9 (Some [5, 6])) (sync_demo_state sync_demo_ops) = Some (s', out) \<and>
     buffers s' 40 = [5, 6, 0] \<and>
     (\<exists>t c. call_of (place_of (sync_demo_state sync_demo_ops) t) = Some c \<and> call_payload c = Some 40)"
proof -
  let ?s = "sync_demo_state sync_demo_ops"
  have r: "reachable sync_step (sync_start (\<lambda>_. [0, 0, 0])) ?s" by (rule sync_demo_reachable) code_simp
  have d: "sync_step (Ind 3 9 (Some [5, 6])) ?s \<noteq> None" by code_simp
  have b: "buffers (fst (the (sync_step (Ind 3 9 (Some [5, 6])) ?s))) 40 = [5, 6, 0]" by code_simp
  have b0: "buffers ?s 40 = [0, 0, 0]" by code_simp
  from d obtain s' out where s': "sync_step (Ind 3 9 (Some [5, 6])) ?s = Some (s', out)" by fastforce
  with b b0 have "buffers s' 40 \<noteq> buffers ?s 40" by simp
  from sync_writes_live_buffers_only[OF r s' this] s' b show ?thesis by auto
qed

theorem sync_success_heard_or_spurious_witness:
  "\<exists>s h w s'. run watched (sync_demo_ops @ [Spurious 1, Resume 1]) (watched_start (\<lambda>_. [0, 0, 0])) = Some ((s, (h, w)), [SentReq 1]) \<and>
     sync_step (Release 1) s = Some (s', [Returned 1 eLOC_CLIENT_SUCCESS]) \<and> (h 1 \<or> w 1) \<and> \<not> h 1"
proof -
  let ?r = "run watched (sync_demo_ops @ [Spurious 1, Resume 1]) (watched_start (\<lambda>_. [0, 0, 0]))"
  have "?r \<noteq> None" "snd (the ?r) = [SentReq 1]" by code_simp+
  then obtain s h w where r: "?r = Some ((s, (h, w)), [SentReq 1])" by (metis option.collapse prod.collapse)
  have "\<not> fst (snd (fst (the ?r))) 1" by code_simp
  then have nh: "\<not> h 1" using r by simp
  have "map_option snd (sync_step (Release 1) (fst (fst (the ?r)))) = Some [Returned 1 eLOC_CLIENT_SUCCESS]" by code_simp
  then have "map_option snd (sync_step (Release 1) s) = Some [Returned 1 eLOC_CLIENT_SUCCESS]"
    unfolding r by (simp only: option.sel fst_conv)
  then obtain x where x: "sync_step (Release 1) s = Some x" "snd x = [Returned 1 eLOC_CLIENT_SUCCESS]"
    unfolding map_option_eq_Some by (elim exE conjE)
  obtain s' out where "x = (s', out)" by (rule prod.exhaust)
  with x have s': "sync_step (Release 1) s = Some (s', [Returned 1 eLOC_CLIENT_SUCCESS])"
    by (simp only: snd_conv)
  have "Release 1 = Release 1 \<and> (h 1 \<or> w 1)"
    by (rule sync_success_heard_or_spurious[OF run_reachable[OF r] s']) simp_all
  then have hw: "h 1 \<or> w 1" by (rule conjunct2)
  show ?thesis by (rule exI, rule exI, rule exI, rule exI, intro conjI, rule r, rule s', rule hw, rule nh)
qed

theorem sync_ninth_request_witness:
  "let s = sync_demo_state (map (\<lambda>i. Call i sync_demo_call) [0..<8]) in
   sync_step (Call 8 sync_demo_call) s = Some (s, [Returned 8 eLOC_CLIENT_SUCCESS])"
proof -
  let ?s = "sync_demo_state (map (\<lambda>i. Call i sync_demo_call) [0..<8])"
  have r: "reachable sync_step (sync_start (\<lambda>_. [0, 0, 0])) ?s" by (rule sync_demo_reachable) code_simp
  have idle: "place_of ?s 8 = Idle" by code_simp
  have "map_option snd (sync_step (Call 8 sync_demo_call) ?s) = Some [Returned 8 eLOC_CLIENT_SUCCESS]" by code_simp
  with sync_ninth_request[OF r idle, of sync_demo_call] show ?thesis by (auto split: if_splits)
qed

end
