(* ===== verification/StdMap.thy ===== *)
theory StdMap
  imports Prelude
begin

text \<open>
  \<open>std::map\<close> as the adapters use it: a list of key and value in ascending order of the keys, which
  is the order of iteration. \<open>find\<close> is \<open>map_of\<close>; assignment through \<open>operator[]\<close> replaces the
  value of a key or inserts it at its place; \<open>erase\<close> removes a key. The locale \<open>dictionary\<close> is the
  contract of such a map, and the interpretation \<open>sm\<close> proves it for the ordered list.
\<close>

section \<open>Operations\<close>

definition sm_put :: "'k::linorder \<Rightarrow> 'v \<Rightarrow> ('k \<times> 'v) list \<Rightarrow> ('k \<times> 'v) list" where
  "sm_put k v xs = takeWhile (\<lambda>p. fst p < k) xs @ (k, v) # dropWhile (\<lambda>p. fst p \<le> k) xs"

definition sm_erase :: "'k \<Rightarrow> ('k \<times> 'v) list \<Rightarrow> ('k \<times> 'v) list" where
  "sm_erase k xs = filter (\<lambda>p. fst p \<noteq> k) xs"

definition smap_ok :: "('k::linorder \<times> 'v) list \<Rightarrow> bool" where
  "smap_ok xs \<longleftrightarrow> sorted_wrt (<) (map fst xs)"

section \<open>Contract\<close>

locale dictionary =
  fixes find :: "'m \<Rightarrow> 'k \<Rightarrow> 'v option"
    and put :: "'k \<Rightarrow> 'v \<Rightarrow> 'm \<Rightarrow> 'm"
    and erase :: "'k \<Rightarrow> 'm \<Rightarrow> 'm"
    and ok :: "'m \<Rightarrow> bool"
  assumes put_ok: "ok m \<Longrightarrow> ok (put k v m)"
    and erase_ok: "ok m \<Longrightarrow> ok (erase k m)"
    and find_put: "ok m \<Longrightarrow> find (put k v m) = (find m)(k \<mapsto> v)"
    and find_erase: "ok m \<Longrightarrow> find (erase k m) = (find m)(k := None)"
begin

lemma find_put_same: "ok m \<Longrightarrow> find (put k v m) k = Some v"
  by (simp add: find_put)

lemma find_put_other: "ok m \<Longrightarrow> j \<noteq> k \<Longrightarrow> find (put k v m) j = find m j"
  by (simp add: find_put)

lemma find_erase_put: "ok m \<Longrightarrow> find (erase k (put k v m)) = find (erase k m)"
  by (simp add: find_put find_erase put_ok)

text \<open>Erasing all keys a list names, in any order.\<close>

lemma erase_fold:
  "ok m \<Longrightarrow> ok (fold erase ks m) \<and> find (fold erase ks m) = (\<lambda>k. if k \<in> set ks then None else find m k)"
  by (induction ks arbitrary: m) (auto simp: erase_ok find_erase fun_eq_iff)

end

section \<open>The ordered list implements the contract\<close>

lemma sm_ok_Cons: "smap_ok ((k, v) # xs) \<longleftrightarrow> smap_ok xs \<and> (\<forall>p\<in>set xs. k < fst p)"
  by (auto simp: smap_ok_def)

lemma sm_put_Cons:
  "sm_put k v ((j, w) # xs) =
     (if j < k then (j, w) # sm_put k v xs
      else if j = k then (k, v) # dropWhile (\<lambda>p. fst p \<le> k) xs
      else (k, v) # (j, w) # xs)"
  by (auto simp: sm_put_def)

lemma sm_ok_tail: "smap_ok xs \<Longrightarrow> \<forall>p\<in>set xs. k < fst p \<Longrightarrow> dropWhile (\<lambda>p. fst p \<le> k) xs = xs"
  by (cases xs) (auto simp: sm_ok_Cons)

lemma set_sm_put: "smap_ok xs \<Longrightarrow> p \<in> set (sm_put k v xs) \<Longrightarrow> p = (k, v) \<or> p \<in> set xs"
  by (auto simp: sm_put_def dest: set_takeWhileD set_dropWhileD)

lemma sm_put_ok: "smap_ok xs \<Longrightarrow> smap_ok (sm_put k v xs)"
proof (induction xs)
  case Nil
  show ?case by (simp add: sm_put_def smap_ok_def)
next
  case (Cons x xs)
  obtain j w where x: "x = (j, w)" by (cases x)
  from Cons.prems have ok: "smap_ok xs" "\<forall>p\<in>set xs. j < fst p" by (auto simp: x sm_ok_Cons)
  consider "j < k" | "j = k" | "k < j" by fastforce
  then show ?case
  proof cases
    case 1
    then have "\<forall>p\<in>set (sm_put k v xs). j < fst p" using ok(2) set_sm_put[OF ok(1)] by force
    then show ?thesis using 1 Cons.IH[OF ok(1)] by (simp add: x sm_put_Cons sm_ok_Cons)
  next
    case 2
    then show ?thesis using ok sm_ok_tail[OF ok(1), of k] by (simp add: x sm_put_Cons sm_ok_Cons)
  next
    case 3
    then show ?thesis using ok by (auto simp: x sm_put_Cons sm_ok_Cons)
  qed
qed

lemma map_of_sm_put: "smap_ok xs \<Longrightarrow> map_of (sm_put k v xs) = (map_of xs)(k \<mapsto> v)"
proof (induction xs)
  case Nil
  show ?case by (simp add: sm_put_def)
next
  case (Cons x xs)
  obtain j w where x: "x = (j, w)" by (cases x)
  from Cons.prems have ok: "smap_ok xs" "\<forall>p\<in>set xs. j < fst p" by (auto simp: x sm_ok_Cons)
  show ?case using Cons.IH[OF ok(1)] ok sm_ok_tail[OF ok(1), of k]
    by (auto simp: x sm_put_Cons fun_eq_iff)
qed

lemma sm_erase_ok: "smap_ok xs \<Longrightarrow> smap_ok (sm_erase k xs)"
  by (simp add: smap_ok_def sm_erase_def sorted_wrt_map sorted_wrt_filter)

lemma map_of_sm_erase: "map_of (sm_erase k xs) = (map_of xs)(k := None)"
  unfolding sm_erase_def by (induction xs) (auto simp: fun_eq_iff)

interpretation sm: dictionary map_of sm_put sm_erase smap_ok
  by standard (simp_all add: sm_put_ok sm_erase_ok map_of_sm_put map_of_sm_erase)

lemma sm_ok_Nil [simp]: "smap_ok []"
  by (simp add: smap_ok_def)

lemma sm_ok_distinct: "smap_ok xs \<Longrightarrow> distinct (map fst xs)"
  by (simp add: smap_ok_def strict_sorted_iff)

lemma sm_find_mem: "smap_ok xs \<Longrightarrow> (k, v) \<in> set xs \<longleftrightarrow> map_of xs k = Some v"
  by (simp add: sm_ok_distinct)

end
