(* ===== verification/AdapterBase.thy ===== *)
theory AdapterBase
  imports StdMap
begin

unbundle bit_operations_syntax

text \<open>
  What the adapters inherit (\<open>gps/core/LocAdapterBase.h\<close>, \<open>LocAdapterBase.cpp\<close>): the table of
  clients with their callbacks, the event mask, the capabilities and the messages that wait for
  them, and the generator of session numbers. A client is the address of its \<open>LocationAPI\<close>
  object; of its callbacks the model keeps which ones are set. \<open>updateClientsEventMask\<close> is virtual
  and is an argument, the mask an adapter derives from the table. What the modem supports
  (\<open>ContextBase\<close>) is an argument too.
\<close>

type_synonym client = nat

datatype LocationError =
    LOCATION_ERROR_SUCCESS | LOCATION_ERROR_GENERAL_FAILURE | LOCATION_ERROR_CALLBACK_MISSING
  | LOCATION_ERROR_INVALID_PARAMETER | LOCATION_ERROR_ID_EXISTS | LOCATION_ERROR_ID_UNKNOWN
  | LOCATION_ERROR_ALREADY_STARTED | LOCATION_ERROR_GEOFENCES_AT_MAX | LOCATION_ERROR_NOT_SUPPORTED
  | LOCATION_ERROR_TIMEOUT

text \<open>A \<open>Location\<close> is only passed on; it is kept as its bytes.\<close>

type_synonym Location = bytes

record LocationCallbacks =
  capabilitiesCb :: bool
  responseCb :: bool
  collectiveResponseCb :: bool
  trackingCb :: bool
  batchingCb :: bool
  geofenceBreachCb :: bool
  geofenceStatusCb :: bool
  gnssLocationInfoCb :: bool
  gnssSvCb :: bool
  gnssNmeaCb :: bool
  gnssDataCb :: bool
  gnssMeasurementsCb :: bool
  batchingStatusCb :: bool
  locationSystemInfoCb :: bool
  engineLocationsInfoCb :: bool

text \<open>The options of a session, which the adapters extend.\<close>

record LocationOptions =
  opt_size :: u32
  minInterval :: u32
  minDistance :: u32
  opt_mode :: u32
  locReqEngTypeMask :: u32

record 'msg adapter_base =
  mClientData :: "(client \<times> LocationCallbacks) list"
  mEvtMask :: u64
  mIsEngineCapabilitiesKnown :: bool
  mPendingMsgs :: "'msg list"

datatype loc_registration_mask_status =
  LOC_REGISTRATION_MASK_ENABLED | LOC_REGISTRATION_MASK_DISABLED | LOC_REGISTRATION_MASK_SET

definition updateEvtMask :: "u64 \<Rightarrow> loc_registration_mask_status \<Rightarrow> ('msg, 'a) adapter_base_scheme \<Rightarrow> ('msg, 'a) adapter_base_scheme" where
  "updateEvtMask event status s = (case status of
     LOC_REGISTRATION_MASK_ENABLED \<Rightarrow> s\<lparr>mEvtMask := mEvtMask s OR event\<rparr>
   | LOC_REGISTRATION_MASK_DISABLED \<Rightarrow> s\<lparr>mEvtMask := mEvtMask s AND NOT event\<rparr>
   | LOC_REGISTRATION_MASK_SET \<Rightarrow> s\<lparr>mEvtMask := event\<rparr>)"

section \<open>Session keys\<close>

datatype LocationSessionKey = LocationSessionKey (session_client: client) (session_id: u32)

text \<open>The comparison \<open>operator <\<close>, which is the order of the keys.\<close>

definition session_less :: "LocationSessionKey \<Rightarrow> LocationSessionKey \<Rightarrow> bool" where
  "session_less l r \<longleftrightarrow> session_id l < session_id r \<or> (session_id l = session_id r \<and> session_client l < session_client r)"

instantiation LocationSessionKey :: linorder
begin

definition less_LocationSessionKey :: "LocationSessionKey \<Rightarrow> LocationSessionKey \<Rightarrow> bool" where
  "less_LocationSessionKey = session_less"

definition less_eq_LocationSessionKey :: "LocationSessionKey \<Rightarrow> LocationSessionKey \<Rightarrow> bool" where
  "less_eq_LocationSessionKey l r \<longleftrightarrow> l < r \<or> l = r"

instance
  by standard
    (auto simp: less_LocationSessionKey_def session_less_def less_eq_LocationSessionKey_def intro: LocationSessionKey.expand)

end

section \<open>Session numbers\<close>

text \<open>The new value of the counter is the number handed out.\<close>

definition generateSessionId :: "u32 \<Rightarrow> u32" where
  "generateSessionId mSessionIdCounter =
     (let c = mSessionIdCounter + 1 in if c = 0xFFFFFFFF then 1 else c)"

fun session_ids :: "nat \<Rightarrow> u32 \<Rightarrow> u32 list" where
  "session_ids 0 c = []"
| "session_ids (Suc n) c = generateSessionId c # session_ids n (generateSessionId c)"

section \<open>Clients\<close>

definition saveClient ::
  "((client \<times> LocationCallbacks) list \<Rightarrow> u64) \<Rightarrow> client \<Rightarrow> LocationCallbacks
    \<Rightarrow> ('msg, 'a) adapter_base_scheme \<Rightarrow> ('msg, 'a) adapter_base_scheme" where
  "saveClient eventMask client callbacks s =
     (let cs = sm_put client callbacks (mClientData s) in s\<lparr>mClientData := cs, mEvtMask := eventMask cs\<rparr>)"

definition eraseClient ::
  "((client \<times> LocationCallbacks) list \<Rightarrow> u64) \<Rightarrow> client
    \<Rightarrow> ('msg, 'a) adapter_base_scheme \<Rightarrow> ('msg, 'a) adapter_base_scheme" where
  "eraseClient eventMask client s =
     (let cs = (if map_of (mClientData s) client \<noteq> None then sm_erase client (mClientData s) else mClientData s)
      in s\<lparr>mClientData := cs, mEvtMask := eventMask cs\<rparr>)"

definition no_callbacks :: LocationCallbacks where
  "no_callbacks = \<lparr>capabilitiesCb = False, responseCb = False, collectiveResponseCb = False, trackingCb = False,
     batchingCb = False, geofenceBreachCb = False, geofenceStatusCb = False, gnssLocationInfoCb = False,
     gnssSvCb = False, gnssNmeaCb = False, gnssDataCb = False, gnssMeasurementsCb = False,
     batchingStatusCb = False, locationSystemInfoCb = False, engineLocationsInfoCb = False\<rparr>"

definition getClientCallbacks :: "client \<Rightarrow> ('msg, 'a) adapter_base_scheme \<Rightarrow> LocationCallbacks" where
  "getClientCallbacks client s = (case map_of (mClientData s) client of None \<Rightarrow> no_callbacks | Some c \<Rightarrow> c)"

section \<open>Capabilities\<close>

datatype adapter_message =
  DISTANCE_BASE_TRACKING | DISTANCE_BASE_LOCATION_BATCHING | OUTDOOR_TRIP_BATCHING

datatype supported_feature =
    FEATURE_DEBUG_NMEA | FEATURE_CONSTELLATION_ENABLEMENT | FEATURE_AGPM | FEATURE_LOCATION_PRIVACY
  | FEATURE_MEASUREMENTS_CORRECTION | FEATURE_ROBUST_LOCATION | FEATURE_EDGNSS

record engine_support =
  isMessageSupported :: "adapter_message \<Rightarrow> bool"
  isFeatureSupported :: "supported_feature \<Rightarrow> bool"
  gnssConstellationConfig :: bool
  getCarrierCapabilities :: u32

definition flag :: "bool \<Rightarrow> nat \<Rightarrow> u64" where
  "flag b n = (if b then push_bit n 1 else 0)"

definition getCapabilities :: "engine_support \<Rightarrow> ('msg, 'a) adapter_base_scheme \<Rightarrow> u64" where
  "getCapabilities eng s =
     (if mIsEngineCapabilitiesKnown s
      then flag True 0
        OR flag (isMessageSupported eng DISTANCE_BASE_LOCATION_BATCHING) 1
        OR flag (isMessageSupported eng DISTANCE_BASE_LOCATION_BATCHING) 3
        OR flag (isMessageSupported eng DISTANCE_BASE_TRACKING) 2
        OR flag (isMessageSupported eng OUTDOOR_TRIP_BATCHING) 9
        OR flag True 4
        OR flag (gnssConstellationConfig eng) 5
        OR flag (getCarrierCapabilities eng AND 2 \<noteq> 0) 6
        OR flag (getCarrierCapabilities eng AND 4 \<noteq> 0) 7
        OR flag (isFeatureSupported eng FEATURE_DEBUG_NMEA) 8
        OR flag (isFeatureSupported eng FEATURE_CONSTELLATION_ENABLEMENT) 10
        OR flag (isFeatureSupported eng FEATURE_AGPM) 11
        OR flag (isFeatureSupported eng FEATURE_LOCATION_PRIVACY) 12
        OR flag (isFeatureSupported eng FEATURE_MEASUREMENTS_CORRECTION) 13
        OR flag (isFeatureSupported eng FEATURE_ROBUST_LOCATION) 14
        OR flag (isFeatureSupported eng FEATURE_EDGNSS) 15
      else 0)"

text \<open>The clients whose capabilities callback is called, with the mask.\<close>

definition broadcastCapabilities :: "u64 \<Rightarrow> ('msg, 'a) adapter_base_scheme \<Rightarrow> (client \<times> u64) list" where
  "broadcastCapabilities capmask s =
     map (\<lambda>p. (fst p, capmask)) (filter (\<lambda>p. capabilitiesCb (snd p)) (mClientData s))"

section \<open>Session numbers are fresh\<close>

lemma unat_generateSessionId:
  assumes "1 \<le> c" "c < 0xFFFFFFFF"
  shows "unat (generateSessionId c) = unat c mod 4294967294 + 1"
proof -
  have c: "1 \<le> unat c" "unat c < 4294967295" using assms by (auto simp: word_le_nat_alt word_less_nat_alt)
  then have s: "unat (c + 1) = unat c + 1" by (simp add: unat_word_ariths)
  have "c + 1 = 0xFFFFFFFF \<longleftrightarrow> unat c = 4294967294"
    using s by (simp add: word_unat_eq_iff)
  with c s show ?thesis by (auto simp: generateSessionId_def Let_def)
qed

lemma generateSessionId_range:
  assumes "1 \<le> c" "c < 0xFFFFFFFF" shows "1 \<le> generateSessionId c \<and> generateSessionId c < 0xFFFFFFFF"
proof -
  have "unat c mod 4294967294 < 4294967294" by simp
  then show ?thesis using unat_generateSessionId[OF assms] by (simp add: word_le_nat_alt word_less_nat_alt)
qed

lemma unat_session_ids:
  "1 \<le> c \<Longrightarrow> c < 0xFFFFFFFF \<Longrightarrow> i < n \<Longrightarrow>
   unat (session_ids n c ! i) = (unat c + i) mod 4294967294 + 1"
proof (induction n arbitrary: c i)
  case (Suc n)
  show ?case
  proof (cases i)
    case 0
    then show ?thesis using unat_generateSessionId[OF Suc.prems(1,2)] by simp
  next
    case (Suc j)
    then have "unat (session_ids (Suc n) c ! i) = (unat (generateSessionId c) + j) mod 4294967294 + 1"
      using Suc.IH[of "generateSessionId c" j] Suc.prems generateSessionId_range[OF Suc.prems(1,2)] by simp
    also have "\<dots> = (unat c mod 4294967294 + (j + 1)) mod 4294967294 + 1"
      using unat_generateSessionId[OF Suc.prems(1,2)] by simp
    also have "\<dots> = (unat c + i) mod 4294967294 + 1"
      unfolding mod_add_left_eq using Suc by simp
    finally show ?thesis .
  qed
qed simp

lemma length_session_ids [simp]: "length (session_ids n c) = n"
  by (induction n arbitrary: c) auto

lemma session_ids_fresh:
  assumes "1 \<le> c" "c < 0xFFFFFFFF" "n \<le> 4294967294"
  shows "distinct (session_ids n c) \<and> (\<forall>i\<in>set (session_ids n c). i \<noteq> 0 \<and> i \<noteq> 0xFFFFFFFF)"
proof
  show "distinct (session_ids n c)"
    unfolding distinct_conv_nth
  proof (intro allI impI)
    fix i j assume ij: "i < length (session_ids n c)" "j < length (session_ids n c)" "i \<noteq> j"
    have "(unat c + i) mod 4294967294 \<noteq> (unat c + j) mod 4294967294"
    proof
      assume "(unat c + i) mod 4294967294 = (unat c + j) mod 4294967294"
      then obtain q r where "i + 4294967294 * q = j + 4294967294 * r" by (auto simp: nat_mod_eq_iff)
      then have "i mod 4294967294 = j mod 4294967294" by (metis mod_mult_self2)
      with ij assms(3) show False by simp
    qed
    then show "session_ids n c ! i \<noteq> session_ids n c ! j"
      using unat_session_ids[OF assms(1,2)] ij by (metis add_right_cancel length_session_ids)
  qed
  show "\<forall>i\<in>set (session_ids n c). i \<noteq> 0 \<and> i \<noteq> 0xFFFFFFFF"
  proof
    fix i assume "i \<in> set (session_ids n c)"
    then obtain k where "k < n" "i = session_ids n c ! k" by (auto simp: in_set_conv_nth)
    then have "unat i = (unat c + k) mod 4294967294 + 1" using unat_session_ids[OF assms(1,2)] by simp
    moreover have "(unat c + k) mod 4294967294 < 4294967294" by simp
    ultimately have "0 < unat i" "unat i < 4294967295" by simp_all
    then show "i \<noteq> 0 \<and> i \<noteq> 0xFFFFFFFF" by auto
  qed
qed

end
