(* ===== verification/Geofence.thy ===== *)
theory Geofence
  imports AdapterBase
begin

unbundle bit_operations_syntax

text \<open>
  The geofence adapter (\<open>gps/geofence/GeofenceAdapter.cpp\<close>, \<open>GeofenceAdapter.h\<close>). Two threads work
  on queues of their own: the adapter's message thread runs the messages of clients and of the
  modem, and the thread of the modem interface runs the calls the adapter makes and sends each
  answer back to the adapter's queue. A command for several geofences is first passed once through
  the modem's queue, item by item, then each item makes its own call to the modem.

  A closure that the code sends through the queues is a constructor of the message types with what
  it captures. The arrays a command allocates (identifiers, options, positions, results) live in
  \<open>batches\<close> until the code deletes them; an access after that is undefined and gives \<open>None\<close>.
  Allocation does not fail. The modem's answers are arguments. Doubles are copied only and are kept
  as their bits.
\<close>

section \<open>Data\<close>

type_synonym double = u64

datatype GeofenceKey = GeofenceKey (key_client: client) (key_id: u32)

text \<open>The comparison \<open>operator <\<close>, which is the order of the keys.\<close>

definition key_less :: "GeofenceKey \<Rightarrow> GeofenceKey \<Rightarrow> bool" where
  "key_less l r \<longleftrightarrow> key_id l < key_id r \<or> (key_id l = key_id r \<and> key_client l < key_client r)"

instantiation GeofenceKey :: linorder
begin

definition less_GeofenceKey :: "GeofenceKey \<Rightarrow> GeofenceKey \<Rightarrow> bool" where
  "less_GeofenceKey = key_less"

definition less_eq_GeofenceKey :: "GeofenceKey \<Rightarrow> GeofenceKey \<Rightarrow> bool" where
  "less_eq_GeofenceKey l r \<longleftrightarrow> l < r \<or> l = r"

instance
  by standard (auto simp: less_GeofenceKey_def key_less_def less_eq_GeofenceKey_def intro: GeofenceKey.expand)

end

record GeofenceOption =
  opt_breachTypeMask :: u16
  opt_responsiveness :: u32
  opt_dwellTime :: u32

record GeofenceInfo =
  info_latitude :: double
  info_longitude :: double
  info_radius :: double

record GeofenceObject =
  obj_key :: GeofenceKey
  obj_breachMask :: u16
  obj_responsiveness :: u32
  obj_dwellTime :: u32
  obj_latitude :: double
  obj_longitude :: double
  obj_radius :: double
  obj_paused :: bool

datatype gf_command = AddGf | RemoveGf | PauseGf | ResumeGf | ModifyGf

text \<open>The arrays of a command; a result that was never written is \<open>None\<close>.\<close>

record gf_batch =
  b_ids :: "u32 list"
  b_options :: "GeofenceOption list"
  b_infos :: "GeofenceInfo list"
  b_errs :: "LocationError option list"

text \<open>What the closure of one item captures: its index, the number of items, the client and the arrays.\<close>

record gf_item =
  it_command :: gf_command
  it_client :: client
  it_count :: nat
  it_batch :: nat
  it_index :: nat

datatype breach_type = BREACH_ENTER | BREACH_EXIT | BREACH_DWELL_IN | BREACH_DWELL_OUT | BREACH_UNKNOWN

text \<open>
  Messages of the adapter's thread. \<open>Queued\<close> is the closure of an item that comes back from the
  call queue, \<open>Answered\<close> the one that receives the answer to the item's call.
\<close>

datatype gf_msg =
    MsgAddClient client LocationCallbacks
  | MsgRemoveClient client bool
  | MsgRequestCapabilities client
  | MsgSSREvent
  | MsgGeofences gf_command client "u32 list" "GeofenceOption list option" "GeofenceInfo list option"
  | MsgGeofenceBreach "u32 list" Location breach_type u64
  | MsgGeofenceStatus bool
  | Queued gf_item
  | Answered gf_item u32 LocationError
  | StopAnswered u32 LocationError
  | RestartAnswered GeofenceObject LocationError u32
  | Ignored LocationError

text \<open>Messages of the modem interface's thread: a call, and where its answer goes.\<close>

datatype modem_call =
    addGeofence u32 GeofenceOption GeofenceInfo
  | removeGeofence u32 u32
  | pauseGeofence u32 u32
  | resumeGeofence u32 u32
  | modifyGeofence u32 u32 GeofenceOption

datatype answer_to = ToItem gf_item u32 | ToAdd gf_item | ToStop u32 | ToRestart GeofenceObject | ToNobody

datatype api_msg = CallQueue gf_item | Modem modem_call answer_to

datatype gf_out =
    CapabilitiesCb client u64
  | CollectiveResponse client "LocationError option list" "u32 list"
  | BreachCb client "u32 list" Location breach_type u64
  | StatusCb client bool
  | RemoveClientCb client

record gf_state = "gf_msg adapter_base" +
  mGeofences :: "(u32 \<times> GeofenceObject) list"
  mGeofenceIds :: "(GeofenceKey \<times> u32) list"
  batches :: "nat \<Rightarrow> gf_batch option"
  next_batch :: nat

text \<open>What running a message gives: the state, messages to itself, calls to the modem, callbacks.\<close>

type_synonym gf_result = "gf_state \<times> gf_msg list \<times> api_msg list \<times> gf_out list"

section \<open>Table of geofences\<close>

definition gf_event_mask :: "(client \<times> LocationCallbacks) list \<Rightarrow> u64" where
  "gf_event_mask cs =
     (if \<exists>p\<in>set cs. geofenceBreachCb (snd p) then push_bit 21 1 OR push_bit 28 1 else 0)
     OR (if \<exists>p\<in>set cs. geofenceStatusCb (snd p) then push_bit 14 1 else 0)"

definition getHwIdFromClient :: "client \<Rightarrow> u32 \<Rightarrow> gf_state \<Rightarrow> u32 option" where
  "getHwIdFromClient client clientId s = map_of (mGeofenceIds s) (GeofenceKey client clientId)"

definition getGeofenceKeyFromHwId :: "u32 \<Rightarrow> gf_state \<Rightarrow> GeofenceKey option" where
  "getGeofenceKeyFromHwId hwId s = map_option obj_key (map_of (mGeofences s) hwId)"

definition saveGeofenceItem ::
  "client \<Rightarrow> u32 \<Rightarrow> u32 \<Rightarrow> GeofenceOption \<Rightarrow> GeofenceInfo \<Rightarrow> gf_state \<Rightarrow> gf_state" where
  "saveGeofenceItem client clientId hwId options info s =
     (let key = GeofenceKey client clientId;
          object = \<lparr>obj_key = key, obj_breachMask = opt_breachTypeMask options,
            obj_responsiveness = opt_responsiveness options, obj_dwellTime = opt_dwellTime options,
            obj_latitude = info_latitude info, obj_longitude = info_longitude info,
            obj_radius = info_radius info, obj_paused = False\<rparr>
      in s\<lparr>mGeofences := sm_put hwId object (mGeofences s), mGeofenceIds := sm_put key hwId (mGeofenceIds s)\<rparr>)"

definition removeGeofenceItem :: "u32 \<Rightarrow> gf_state \<Rightarrow> gf_state" where
  "removeGeofenceItem hwId s = (case getGeofenceKeyFromHwId hwId s of
     None \<Rightarrow> s
   | Some key \<Rightarrow>
       if map_of (mGeofenceIds s) key \<noteq> None
       then (let s = s\<lparr>mGeofenceIds := sm_erase key (mGeofenceIds s)\<rparr> in
         if map_of (mGeofences s) hwId \<noteq> None then s\<lparr>mGeofences := sm_erase hwId (mGeofences s)\<rparr> else s)
       else s)"

definition with_item :: "u32 \<Rightarrow> (GeofenceObject \<Rightarrow> GeofenceObject) \<Rightarrow> gf_state \<Rightarrow> gf_state" where
  "with_item hwId f s = (case map_of (mGeofences s) hwId of
     None \<Rightarrow> s | Some object \<Rightarrow> s\<lparr>mGeofences := sm_put hwId (f object) (mGeofences s)\<rparr>)"

definition pauseGeofenceItem :: "u32 \<Rightarrow> gf_state \<Rightarrow> gf_state" where
  "pauseGeofenceItem hwId s = with_item hwId (\<lambda>ob. ob\<lparr>obj_paused := True\<rparr>) s"

definition resumeGeofenceItem :: "u32 \<Rightarrow> gf_state \<Rightarrow> gf_state" where
  "resumeGeofenceItem hwId s = with_item hwId (\<lambda>ob. ob\<lparr>obj_paused := False\<rparr>) s"

definition modifyGeofenceItem :: "u32 \<Rightarrow> GeofenceOption \<Rightarrow> gf_state \<Rightarrow> gf_state" where
  "modifyGeofenceItem hwId options s = with_item hwId (\<lambda>ob. ob\<lparr>obj_breachMask := opt_breachTypeMask options,
     obj_responsiveness := opt_responsiveness options, obj_dwellTime := opt_dwellTime options\<rparr>) s"

section \<open>Clients and restarts\<close>

definition stopClientSessions :: "client \<Rightarrow> gf_state \<Rightarrow> gf_state \<times> api_msg list" where
  "stopClientSessions client s =
     (s\<lparr>mGeofenceIds := filter (\<lambda>p. key_client (fst p) \<noteq> client) (mGeofenceIds s)\<rparr>,
      map (\<lambda>p. Modem (removeGeofence (snd p) (key_id (fst p))) (ToStop (snd p)))
        (filter (\<lambda>p. key_client (fst p) = client) (mGeofenceIds s)))"

definition stop_answered :: "u32 \<Rightarrow> LocationError \<Rightarrow> gf_state \<Rightarrow> gf_state" where
  "stop_answered hwId err s =
     (if err = LOCATION_ERROR_SUCCESS \<and> map_of (mGeofences s) hwId \<noteq> None
      then s\<lparr>mGeofences := sm_erase hwId (mGeofences s)\<rparr> else s)"

definition object_option :: "GeofenceObject \<Rightarrow> GeofenceOption" where
  "object_option ob = \<lparr>opt_breachTypeMask = obj_breachMask ob, opt_responsiveness = obj_responsiveness ob,
     opt_dwellTime = obj_dwellTime ob\<rparr>"

definition object_info :: "GeofenceObject \<Rightarrow> GeofenceInfo" where
  "object_info ob = \<lparr>info_latitude = obj_latitude ob, info_longitude = obj_longitude ob,
     info_radius = obj_radius ob\<rparr>"

definition restartGeofences :: "gf_state \<Rightarrow> gf_state \<times> api_msg list" where
  "restartGeofences s =
     (if mGeofences s = [] then (s, [])
      else (s\<lparr>mGeofences := [], mGeofenceIds := []\<rparr>,
        map (\<lambda>p. Modem (addGeofence (key_id (obj_key (snd p))) (object_option (snd p)) (object_info (snd p)))
          (ToRestart (snd p))) (mGeofences s)))"

definition restart_answered :: "GeofenceObject \<Rightarrow> LocationError \<Rightarrow> u32 \<Rightarrow> gf_state \<Rightarrow> gf_state \<times> api_msg list" where
  "restart_answered ob err hwId s =
     (if err = LOCATION_ERROR_SUCCESS
      then (saveGeofenceItem (key_client (obj_key ob)) (key_id (obj_key ob)) hwId (object_option ob) (object_info ob) s,
        if obj_paused ob then [Modem (pauseGeofence hwId (key_id (obj_key ob))) ToNobody] else [])
      else (s, []))"

section \<open>Commands for several geofences\<close>

definition reportResponse :: "client \<Rightarrow> LocationError option list \<Rightarrow> u32 list \<Rightarrow> gf_state \<Rightarrow> gf_out list" where
  "reportResponse client errs ids s = (case map_of (mClientData s) client of
     Some c \<Rightarrow> if collectiveResponseCb c then [CollectiveResponse client errs ids] else []
   | None \<Rightarrow> [])"

text \<open>The end of a command: the response, and the deletion of its arrays.\<close>

definition finish_batch :: "gf_item \<Rightarrow> gf_state \<Rightarrow> (gf_state \<times> gf_out list) option" where
  "finish_batch it s = do {
     bt \<leftarrow> batches s (it_batch it);
     Some (s\<lparr>batches := (batches s)(it_batch it := None)\<rparr>, reportResponse (it_client it) (b_errs bt) (b_ids bt) s)
   }"

definition finish_if_last :: "gf_item \<Rightarrow> gf_state \<Rightarrow> (gf_state \<times> gf_out list) option" where
  "finish_if_last it s = (if it_index it = it_count it - 1 then finish_batch it s else Some (s, []))"

definition set_err :: "gf_item \<Rightarrow> LocationError \<Rightarrow> gf_state \<Rightarrow> gf_state option" where
  "set_err it err s = do {
     bt \<leftarrow> batches s (it_batch it);
     Some (s\<lparr>batches := (batches s)(it_batch it := Some (bt\<lparr>b_errs := (b_errs bt)[it_index it := Some err]\<rparr>))\<rparr>)
   }"

text \<open>
  The five messages that start a command: the array of results is allocated, and every item is sent
  through the call queue, unless an argument of add or modify is null, which gives every item an
  error that nobody reports.
\<close>

definition start_batch :: "gf_command \<Rightarrow> client \<Rightarrow> u32 list \<Rightarrow> GeofenceOption list option
    \<Rightarrow> GeofenceInfo list option \<Rightarrow> gf_state \<Rightarrow> gf_state \<times> api_msg list" where
  "start_batch cmd client ids options infos s =
     (let b = next_batch s;
          missing = (case cmd of AddGf \<Rightarrow> options = None \<or> infos = None | ModifyGf \<Rightarrow> options = None | _ \<Rightarrow> False);
          bt = \<lparr>b_ids = ids, b_options = (case options of None \<Rightarrow> [] | Some os \<Rightarrow> os),
            b_infos = (case infos of None \<Rightarrow> [] | Some is \<Rightarrow> is),
            b_errs = replicate (length ids) (if missing then Some LOCATION_ERROR_INVALID_PARAMETER else None)\<rparr>
      in (s\<lparr>batches := (batches s)(b := Some bt), next_batch := Suc b\<rparr>,
        if missing then []
        else map (\<lambda>i. CallQueue \<lparr>it_command = cmd, it_client = client, it_count = length ids, it_batch = b,
          it_index = i\<rparr>) [0..<length ids]))"

text \<open>An item comes back from the call queue and makes its call.\<close>

definition item_call :: "gf_item \<Rightarrow> gf_batch \<Rightarrow> u32 \<Rightarrow> modem_call" where
  "item_call it bt hwId = (let i = it_index it in case it_command it of
     AddGf \<Rightarrow> addGeofence (b_ids bt ! i) (b_options bt ! i) (b_infos bt ! i)
   | RemoveGf \<Rightarrow> removeGeofence hwId (b_ids bt ! i)
   | PauseGf \<Rightarrow> pauseGeofence hwId (b_ids bt ! i)
   | ResumeGf \<Rightarrow> resumeGeofence hwId (b_ids bt ! i)
   | ModifyGf \<Rightarrow> modifyGeofence hwId (b_ids bt ! i) (b_options bt ! i))"

definition item_queued :: "gf_item \<Rightarrow> gf_state \<Rightarrow> (gf_state \<times> api_msg list \<times> gf_out list) option" where
  "item_queued it s = do {
     bt \<leftarrow> batches s (it_batch it);
     if it_command it = AddGf then Some (s, [Modem (item_call it bt 0) (ToAdd it)], [])
     else (case getHwIdFromClient (it_client it) (b_ids bt ! it_index it) s of
       Some hwId \<Rightarrow> do {
         s \<leftarrow> set_err it LOCATION_ERROR_SUCCESS s;
         Some (s, [Modem (item_call it bt hwId) (ToItem it hwId)], [])
       }
     | None \<Rightarrow> do {
         s \<leftarrow> set_err it LOCATION_ERROR_ID_UNKNOWN s;
         (s, out) \<leftarrow> finish_if_last it s;
         Some (s, [], out)
       })
   }"

text \<open>The answers to the calls of the five commands.\<close>

definition add_answered :: "gf_item \<Rightarrow> u32 \<Rightarrow> LocationError \<Rightarrow> gf_state \<Rightarrow> (gf_state \<times> gf_out list) option" where
  "add_answered it hwId err s = do {
     s \<leftarrow> (if err = LOCATION_ERROR_SUCCESS
           then do {
             bt \<leftarrow> batches s (it_batch it);
             let i = it_index it;
             Some (saveGeofenceItem (it_client it) (b_ids bt ! i) hwId (b_options bt ! i) (b_infos bt ! i) s)
           }
           else Some s);
     s \<leftarrow> set_err it err s;
     finish_if_last it s
   }"

definition remove_answered :: "gf_item \<Rightarrow> u32 \<Rightarrow> LocationError \<Rightarrow> gf_state \<Rightarrow> (gf_state \<times> gf_out list) option" where
  "remove_answered it hwId err s = do {
     let s = (if err = LOCATION_ERROR_SUCCESS then removeGeofenceItem hwId s else s);
     s \<leftarrow> set_err it err s;
     finish_if_last it s
   }"

definition pause_answered :: "gf_item \<Rightarrow> u32 \<Rightarrow> LocationError \<Rightarrow> gf_state \<Rightarrow> (gf_state \<times> gf_out list) option" where
  "pause_answered it hwId err s = do {
     let s = (if err = LOCATION_ERROR_SUCCESS then pauseGeofenceItem hwId s else s);
     s \<leftarrow> set_err it err s;
     finish_if_last it s
   }"

definition resume_answered :: "gf_item \<Rightarrow> u32 \<Rightarrow> LocationError \<Rightarrow> gf_state \<Rightarrow> (gf_state \<times> gf_out list) option" where
  "resume_answered it hwId err s =
     (if err = LOCATION_ERROR_SUCCESS
      then do {
        s \<leftarrow> set_err it err s;
        finish_if_last it (resumeGeofenceItem hwId s)
      }
      else Some (s, []))"

definition modify_answered :: "gf_item \<Rightarrow> u32 \<Rightarrow> LocationError \<Rightarrow> gf_state \<Rightarrow> (gf_state \<times> gf_out list) option" where
  "modify_answered it hwId err s = do {
     s \<leftarrow> (if err = LOCATION_ERROR_SUCCESS
           then do {
             s \<leftarrow> set_err it err s;
             bt \<leftarrow> batches s (it_batch it);
             Some (modifyGeofenceItem hwId (b_options bt ! it_index it) s)
           }
           else Some s);
     finish_if_last it s
   }"

definition item_answered :: "gf_item \<Rightarrow> u32 \<Rightarrow> LocationError \<Rightarrow> gf_state \<Rightarrow> (gf_state \<times> gf_out list) option" where
  "item_answered it hwId err s = (case it_command it of
     AddGf \<Rightarrow> add_answered it hwId err s
   | RemoveGf \<Rightarrow> remove_answered it hwId err s
   | PauseGf \<Rightarrow> pause_answered it hwId err s
   | ResumeGf \<Rightarrow> resume_answered it hwId err s
   | ModifyGf \<Rightarrow> modify_answered it hwId err s)"

section \<open>Reports of the modem\<close>

text \<open>The identifiers of one client among the breached geofences.\<close>

definition breached_ids :: "client \<Rightarrow> u32 list \<Rightarrow> gf_state \<Rightarrow> u32 list" where
  "breached_ids client hwIds s =
     concat (map (\<lambda>h. case getGeofenceKeyFromHwId h s of
       Some key \<Rightarrow> if key_client key = client then [key_id key] else [] | None \<Rightarrow> []) hwIds)"

definition geofenceBreach :: "u32 list \<Rightarrow> Location \<Rightarrow> breach_type \<Rightarrow> u64 \<Rightarrow> gf_state \<Rightarrow> gf_out list" where
  "geofenceBreach hwIds location breachType timestamp s =
     concat (map (\<lambda>(client, c). let clientIds = breached_ids client hwIds s in
       if length clientIds > 0 \<and> geofenceBreachCb c then [BreachCb client clientIds location breachType timestamp] else [])
       (mClientData s))"

definition geofenceStatus :: "bool \<Rightarrow> gf_state \<Rightarrow> gf_out list" where
  "geofenceStatus available s =
     map (\<lambda>p. StatusCb (fst p) available) (filter (\<lambda>p. geofenceStatusCb (snd p)) (mClientData s))"

section \<open>The adapter's thread\<close>

fun gf_proc :: "engine_support \<Rightarrow> gf_msg \<Rightarrow> gf_state \<Rightarrow> gf_result option" where
  "gf_proc eng (MsgAddClient client callbacks) s = Some (saveClient gf_event_mask client callbacks s, [], [], [])"
| "gf_proc eng (MsgRemoveClient client cb) s =
     (let (s, calls) = stopClientSessions client s in
      Some (eraseClient gf_event_mask client s, [], calls, if cb then [RemoveClientCb client] else []))"
| "gf_proc eng (MsgRequestCapabilities client) s =
     (if \<not> mIsEngineCapabilitiesKnown s
      then Some (s\<lparr>mPendingMsgs := mPendingMsgs s @ [MsgRequestCapabilities client]\<rparr>, [], [], [])
      else Some (s, [], [], if capabilitiesCb (getClientCallbacks client s)
        then [CapabilitiesCb client (getCapabilities eng s)] else []))"
| "gf_proc eng MsgSSREvent s =
     (let s = s\<lparr>mIsEngineCapabilitiesKnown := True\<rparr>;
          out = map (\<lambda>(c, m). CapabilitiesCb c m) (broadcastCapabilities (getCapabilities eng s) s);
          (s, calls) = restartGeofences s
      in Some (s\<lparr>mPendingMsgs := []\<rparr>, mPendingMsgs s, calls, out))"
| "gf_proc eng (MsgGeofences cmd client ids options infos) s =
     (let (s, calls) = start_batch cmd client ids options infos s in Some (s, [], calls, []))"
| "gf_proc eng (MsgGeofenceBreach hwIds location breachType timestamp) s =
     Some (s, [], [], geofenceBreach hwIds location breachType timestamp s)"
| "gf_proc eng (MsgGeofenceStatus available) s = Some (s, [], [], geofenceStatus available s)"
| "gf_proc eng (Queued it) s = do {
     (s, calls, out) \<leftarrow> item_queued it s;
     Some (s, [], calls, out)
   }"
| "gf_proc eng (Answered it hwId err) s = do {
     (s, out) \<leftarrow> item_answered it hwId err s;
     Some (s, [], [], out)
   }"
| "gf_proc eng (StopAnswered hwId err) s = Some (stop_answered hwId err s, [], [], [])"
| "gf_proc eng (RestartAnswered ob err hwId) s =
     (let (s, calls) = restart_answered ob err hwId s in Some (s, [], calls, []))"
| "gf_proc eng (Ignored err) s = Some (s, [], [], [])"

section \<open>The two threads\<close>

text \<open>The modem interface runs a call; \<open>ans\<close> is the modem's answer.\<close>

fun api_reply :: "api_msg \<Rightarrow> LocationError \<times> u32 \<Rightarrow> gf_msg" where
  "api_reply (CallQueue it) ans = Queued it"
| "api_reply (Modem call (ToItem it hwId)) ans = Answered it hwId (fst ans)"
| "api_reply (Modem call (ToAdd it)) ans = Answered it (snd ans) (fst ans)"
| "api_reply (Modem call (ToStop hwId)) ans = StopAnswered hwId (fst ans)"
| "api_reply (Modem call (ToRestart ob)) ans = RestartAnswered ob (fst ans) (snd ans)"
| "api_reply (Modem call ToNobody) ans = Ignored (fst ans)"

record gf_system =
  adapter :: gf_state
  adapter_queue :: "gf_msg list"
  api_queue :: "api_msg list"
  calls_done :: nat
  callbacks_made :: "gf_out list"

datatype gf_thread = AdapterThread | ApiThread

text \<open>
  One message of one of the threads; a thread with an empty queue waits. \<open>modem n\<close> is the answer to
  the \<open>n\<close>th call.
\<close>

definition gf_step :: "engine_support \<Rightarrow> (nat \<Rightarrow> LocationError \<times> u32) \<Rightarrow> gf_thread \<Rightarrow> gf_system \<Rightarrow> gf_system option" where
  "gf_step eng modem th y = (case th of
     AdapterThread \<Rightarrow> (case adapter_queue y of
       [] \<Rightarrow> Some y
     | m # ms \<Rightarrow> do {
         (s, self, calls, out) \<leftarrow> gf_proc eng m (adapter y);
         Some (y\<lparr>adapter := s, adapter_queue := ms @ self, api_queue := api_queue y @ calls,
           callbacks_made := callbacks_made y @ out\<rparr>)
       })
   | ApiThread \<Rightarrow> (case api_queue y of
       [] \<Rightarrow> Some y
     | c # cs \<Rightarrow> Some (y\<lparr>api_queue := cs, adapter_queue := adapter_queue y @ [api_reply c (modem (calls_done y))],
         calls_done := Suc (calls_done y)\<rparr>)))"

fun gf_run :: "engine_support \<Rightarrow> (nat \<Rightarrow> LocationError \<times> u32) \<Rightarrow> gf_thread list \<Rightarrow> gf_system \<Rightarrow> gf_system option" where
  "gf_run eng modem [] y = Some y"
| "gf_run eng modem (th # ths) y = gf_step eng modem th y \<bind> gf_run eng modem ths"

text \<open>
  The commands of the clients, which only put a message into the adapter's queue. Remove, pause,
  resume and modify are given an array of identifiers that is not null.
\<close>

definition addGeofencesCommand :: "client \<Rightarrow> nat \<Rightarrow> GeofenceOption list option \<Rightarrow> GeofenceInfo list option
    \<Rightarrow> u32 \<Rightarrow> gf_system \<Rightarrow> u32 list option \<times> u32 \<times> gf_system" where
  "addGeofencesCommand client count options infos counter y =
     (if count = 0 then (None, counter, y)
      else (let ids = session_ids count counter in
        (Some ids, last ids, y\<lparr>adapter_queue := adapter_queue y @ [MsgGeofences AddGf client ids options infos]\<rparr>)))"

definition geofencesCommand :: "gf_command \<Rightarrow> client \<Rightarrow> u32 list \<Rightarrow> GeofenceOption list option \<Rightarrow> gf_system \<Rightarrow> gf_system" where
  "geofencesCommand cmd client ids options y =
     (if ids = [] then y
      else y\<lparr>adapter_queue := adapter_queue y @ [MsgGeofences cmd client ids options None]\<rparr>)"

text \<open>The events of the modem and the commands for clients, which do the same.\<close>

definition gf_send :: "gf_msg \<Rightarrow> gf_system \<Rightarrow> gf_system" where
  "gf_send m y = y\<lparr>adapter_queue := adapter_queue y @ [m]\<rparr>"

definition geofenceBreachEvent :: "u32 list option \<Rightarrow> Location \<Rightarrow> breach_type \<Rightarrow> u64 \<Rightarrow> gf_system \<Rightarrow> gf_system" where
  "geofenceBreachEvent hwIds location breachType timestamp y = (case hwIds of
     None \<Rightarrow> y
   | Some hs \<Rightarrow> if hs = [] then y else gf_send (MsgGeofenceBreach hs location breachType timestamp) y)"

definition geofenceStatusEvent :: "bool \<Rightarrow> gf_system \<Rightarrow> gf_system" where
  "geofenceStatusEvent available y = gf_send (MsgGeofenceStatus available) y"

definition handleEngineUpEvent :: "gf_system \<Rightarrow> gf_system" where
  "handleEngineUpEvent y = gf_send MsgSSREvent y"

definition addClientCommand :: "client \<Rightarrow> LocationCallbacks \<Rightarrow> gf_system \<Rightarrow> gf_system" where
  "addClientCommand client callbacks y = gf_send (MsgAddClient client callbacks) y"

definition removeClientCommand :: "client \<Rightarrow> bool \<Rightarrow> gf_system \<Rightarrow> gf_system" where
  "removeClientCommand client rmClientCb y = gf_send (MsgRemoveClient client rmClientCb) y"

definition requestCapabilitiesCommand :: "client \<Rightarrow> gf_system \<Rightarrow> gf_system" where
  "requestCapabilitiesCommand client y = gf_send (MsgRequestCapabilities client) y"

end
