(* ===== verification/GeofenceRun.thy ===== *)
theory GeofenceRun
  imports Geofence
begin

text \<open>
  The two threads of the geofence adapter as one line of messages. The messages in the adapter's
  queue, followed by the answers to the calls still in the modem's queue, form a line that a step
  of the modem's thread does not change and a step of the adapter's thread works off from the
  front. Hence the schedule of the threads does not matter, and the commands can be followed along
  the line: first all items of a command come back from the call queue, then the answers come, in
  the order of the items.
\<close>

section \<open>One line\<close>

definition replies :: "(nat \<Rightarrow> LocationError \<times> u32) \<Rightarrow> nat \<Rightarrow> api_msg list \<Rightarrow> gf_msg list" where
  "replies modem n calls = map (\<lambda>(k, c). api_reply c (modem k)) (enumerate n calls)"

lemma replies_simps [simp]:
  "replies modem n [] = []"
  "replies modem n (c # cs) = api_reply c (modem n) # replies modem (Suc n) cs"
  "replies modem n (cs @ ds) = replies modem n cs @ replies modem (n + length cs) ds"
  by (simp_all add: replies_def enumerate_append_eq)

lemma length_replies [simp]: "length (replies modem n calls) = length calls"
  by (simp add: replies_def)

record gf_line =
  l_state :: gf_state
  l_queue :: "gf_msg list"
  l_calls :: nat
  l_out :: "gf_out list"

definition line_of :: "(nat \<Rightarrow> LocationError \<times> u32) \<Rightarrow> gf_system \<Rightarrow> gf_line" where
  "line_of modem y = \<lparr>l_state = adapter y, l_queue = adapter_queue y @ replies modem (calls_done y) (api_queue y),
     l_calls = calls_done y + length (api_queue y), l_out = callbacks_made y\<rparr>"

definition line_step :: "engine_support \<Rightarrow> (nat \<Rightarrow> LocationError \<times> u32) \<Rightarrow> gf_line \<Rightarrow> gf_line option" where
  "line_step eng modem l = (case l_queue l of
     [] \<Rightarrow> Some l
   | m # ms \<Rightarrow> do {
       (s, self, calls, out) \<leftarrow> gf_proc eng m (l_state l);
       Some \<lparr>l_state = s, l_queue = ms @ replies modem (l_calls l) calls,
         l_calls = l_calls l + length calls, l_out = l_out l @ out\<rparr>
     })"

fun line_run :: "engine_support \<Rightarrow> (nat \<Rightarrow> LocationError \<times> u32) \<Rightarrow> nat \<Rightarrow> gf_line \<Rightarrow> gf_line option" where
  "line_run eng modem 0 l = Some l"
| "line_run eng modem (Suc k) l = line_step eng modem l \<bind> line_run eng modem k"

text \<open>No request for the capabilities waits, and none will.\<close>

definition settled :: "gf_state \<Rightarrow> bool" where
  "settled s \<longleftrightarrow> mIsEngineCapabilitiesKnown s \<and> mPendingMsgs s = []"

lemma base_fields:
  "mPendingMsgs (saveGeofenceItem c i h op nfo s) = mPendingMsgs s"
  "mIsEngineCapabilitiesKnown (saveGeofenceItem c i h op nfo s) = mIsEngineCapabilitiesKnown s"
  "mPendingMsgs (removeGeofenceItem h s) = mPendingMsgs s"
  "mIsEngineCapabilitiesKnown (removeGeofenceItem h s) = mIsEngineCapabilitiesKnown s"
  "mPendingMsgs (with_item h f s) = mPendingMsgs s"
  "mIsEngineCapabilitiesKnown (with_item h f s) = mIsEngineCapabilitiesKnown s"
  by (auto simp: saveGeofenceItem_def removeGeofenceItem_def with_item_def Let_def split: option.splits)

lemma settled_items [simp]:
  "settled (saveGeofenceItem c i h op nfo s) = settled s" "settled (removeGeofenceItem h s) = settled s"
  "settled (pauseGeofenceItem h s) = settled s" "settled (resumeGeofenceItem h s) = settled s"
  "settled (modifyGeofenceItem h op s) = settled s" "settled (s\<lparr>batches := bs\<rparr>) = settled s"
  by (simp_all add: settled_def base_fields pauseGeofenceItem_def resumeGeofenceItem_def modifyGeofenceItem_def)

lemma settled_finish: "finish_if_last it s = Some (s', out) \<Longrightarrow> settled s' = settled s"
  by (auto simp: finish_if_last_def finish_batch_def bind_eq_Some_conv split: if_splits)

lemma settled_err: "set_err it err s = Some s' \<Longrightarrow> settled s' = settled s"
  by (auto simp: set_err_def bind_eq_Some_conv)

lemma settled_answered: "item_answered it h err s = Some (s', out) \<Longrightarrow> settled s' = settled s"
  by (auto simp: item_answered_def add_answered_def remove_answered_def pause_answered_def resume_answered_def
      modify_answered_def Let_def bind_eq_Some_conv split: gf_command.splits if_splits
      dest!: settled_finish settled_err)

lemma settled_queued: "item_queued it s = Some (s', calls, out) \<Longrightarrow> settled s' = settled s"
  by (auto simp: item_queued_def bind_eq_Some_conv split: option.splits if_splits
      dest!: settled_finish settled_err)

lemma settled_proc:
  "settled s \<Longrightarrow> gf_proc eng m s = Some (s', self, calls, out) \<Longrightarrow> settled s' \<and> self = []"
  by (cases m)
    (auto simp: saveClient_def eraseClient_def stopClientSessions_def restartGeofences_def stop_answered_def
      restart_answered_def start_batch_def Let_def bind_eq_Some_conv settled_answered settled_queued
      split: if_splits prod.splits; simp add: settled_def)+

section \<open>Schedules do not matter\<close>

lemma step_api: "gf_step eng modem ApiThread y = Some y' \<Longrightarrow> line_of modem y' = line_of modem y \<and> adapter y' = adapter y"
  by (cases "api_queue y") (auto simp: gf_step_def line_of_def)

lemma step_api_defined: "gf_step eng modem ApiThread y \<noteq> None"
  by (cases "api_queue y") (auto simp: gf_step_def)

lemma step_adapter:
  assumes "settled (adapter y)" "adapter_queue y \<noteq> []"
  shows "map_option (line_of modem) (gf_step eng modem AdapterThread y) = line_step eng modem (line_of modem y)"
proof -
  obtain m ms where q: "adapter_queue y = m # ms" using assms(2) by (cases "adapter_queue y") auto
  show ?thesis
  proof (cases "gf_proc eng m (adapter y)")
    case None
    then show ?thesis by (simp add: gf_step_def line_step_def line_of_def q)
  next
    case (Some r)
    obtain s self calls out where r: "r = (s, self, calls, out)" by (cases r)
    have "self = []" using settled_proc[OF assms(1) Some[unfolded r]] by simp
    with Some r show ?thesis by (simp add: gf_step_def line_step_def line_of_def q)
  qed
qed

lemma step_settled: "settled (adapter y) \<Longrightarrow> gf_step eng modem th y = Some y' \<Longrightarrow> settled (adapter y')"
  by (cases th; cases "adapter_queue y"; cases "api_queue y")
    (auto simp: gf_step_def bind_eq_Some_conv dest: settled_proc)

lemma step_line:
  assumes "settled (adapter y)"
  shows "(case gf_step eng modem th y of
      None \<Rightarrow> line_step eng modem (line_of modem y) = None
    | Some y' \<Rightarrow> line_of modem y' = line_of modem y \<or> line_step eng modem (line_of modem y) = Some (line_of modem y'))"
proof (cases "th = AdapterThread \<and> adapter_queue y \<noteq> []")
  case True
  then have "map_option (line_of modem) (gf_step eng modem th y) = line_step eng modem (line_of modem y)"
    using step_adapter[OF assms] by simp
  then show ?thesis by (cases "gf_step eng modem th y") simp_all
next
  case False
  show ?thesis
  proof (cases th)
    case AdapterThread
    with False show ?thesis by (simp add: gf_step_def)
  next
    case ApiThread
    with step_api_defined[of eng modem y] obtain y' where "gf_step eng modem th y = Some y'" by auto
    with ApiThread step_api[of eng modem y y'] show ?thesis by simp
  qed
qed

lemma line_run_add: "line_run eng modem (j + k) l = line_run eng modem j l \<bind> line_run eng modem k"
  by (induction j arbitrary: l) (auto split: Option.bind_splits)

lemma run_line:
  "settled (adapter y) \<Longrightarrow>
   (case gf_run eng modem sched y of
      None \<Rightarrow> (\<exists>k. line_run eng modem k (line_of modem y) = None)
    | Some y' \<Rightarrow> (\<exists>k. line_run eng modem k (line_of modem y) = Some (line_of modem y')))"
proof (induction sched arbitrary: y)
  case Nil
  show ?case by (auto intro!: exI[of _ 0])
next
  case (Cons th sched)
  note sl = step_line[OF Cons.prems, of eng modem th]
  show ?case
  proof (cases "gf_step eng modem th y")
    case None
    then have "line_run eng modem 1 (line_of modem y) = None" using sl by simp
    then have "\<exists>k. line_run eng modem k (line_of modem y) = None" by (rule exI)
    with None show ?thesis by simp
  next
    case (Some y1)
    have "settled (adapter y1)" by (rule step_settled[OF Cons.prems Some])
    note IH = Cons.IH[OF this]
    from sl Some have "\<exists>j. line_run eng modem j (line_of modem y) = Some (line_of modem y1)"
      by (auto intro: exI[of _ 0] exI[of _ "Suc 0"])
    then obtain j where "line_run eng modem j (line_of modem y) = Some (line_of modem y1)" ..
    then have "line_run eng modem (j + k) (line_of modem y) = line_run eng modem k (line_of modem y1)" for k
      by (simp add: line_run_add)
    with IH Some show ?thesis by (auto split: option.splits) (metis+)
  qed
qed

definition drained :: "gf_system \<Rightarrow> bool" where
  "drained y \<longleftrightarrow> adapter_queue y = [] \<and> api_queue y = []"

lemma replies_Nil [simp]: "replies modem n calls = [] \<longleftrightarrow> calls = []"
  by (metis length_0_conv length_replies)

lemma drained_line: "drained y \<longleftrightarrow> l_queue (line_of modem y) = []"
  by (auto simp: drained_def line_of_def)

lemma line_run_done: "l_queue l = [] \<Longrightarrow> line_run eng modem k l = Some l"
  by (induction k) (auto simp: line_step_def)

lemma line_run_defined:
  assumes "line_run eng modem k l = Some l'" "l_queue l' = []"
  shows "line_run eng modem j l \<noteq> None \<and> (\<forall>l''. line_run eng modem j l = Some l'' \<longrightarrow> l_queue l'' = [] \<longrightarrow> l'' = l')"
proof (cases "j \<le> k")
  case True
  then obtain d where "k = j + d" using le_Suc_ex by blast
  with assms show ?thesis by (auto simp: line_run_add line_run_done bind_eq_Some_conv)
next
  case False
  then obtain d where "j = k + d" using le_Suc_ex[of k j] by auto
  with assms show ?thesis by (simp add: line_run_add line_run_done)
qed

text \<open>
  Once the capabilities are known, the schedule of the two threads is irrelevant: if one schedule
  works off both queues then no schedule is undefined, and all that do leave the same adapter and
  have made the same callbacks in the same order.
\<close>

lemma schedules_agree:
  assumes "settled (adapter y)" "gf_run eng modem sched y = Some y'" "drained y'"
  shows "gf_run eng modem sched2 y \<noteq> None" 
    and "gf_run eng modem sched2 y = Some y'' \<Longrightarrow> drained y'' \<Longrightarrow>
      adapter y'' = adapter y' \<and> callbacks_made y'' = callbacks_made y'"
proof -
  from run_line[OF assms(1), of eng modem sched] assms(2)
  obtain k where k: "line_run eng modem k (line_of modem y) = Some (line_of modem y')" by auto
  note def = line_run_defined[OF k assms(3)[unfolded drained_line[of _ modem]]]
  show "gf_run eng modem sched2 y \<noteq> None"
  proof
    assume "gf_run eng modem sched2 y = None"
    then obtain j where "line_run eng modem j (line_of modem y) = None"
      using run_line[OF assms(1), of eng modem sched2] by auto
    with def[of j] show False by simp
  qed
  assume 2: "gf_run eng modem sched2 y = Some y''" "drained y''"
  then obtain j where "line_run eng modem j (line_of modem y) = Some (line_of modem y'')"
    using run_line[OF assms(1), of eng modem sched2] by auto
  with def 2(2)[unfolded drained_line[of _ modem]] have "line_of modem y'' = line_of modem y'" by blast
  then show "adapter y'' = adapter y' \<and> callbacks_made y'' = callbacks_made y'"
    by (simp add: line_of_def)
qed

text \<open>A fair schedule for a line that ends: the modem's thread first, then one adapter message.\<close>

lemma api_all:
  "\<exists>sched y'. gf_run eng modem sched y = Some y' \<and> api_queue y' = [] \<and> line_of modem y' = line_of modem y"
proof (induction "length (api_queue y)" arbitrary: y)
  case 0
  then show ?case by (intro exI[of _ "[]"]) simp
next
  case (Suc n)
  then obtain y1 where y1: "gf_step eng modem ApiThread y = Some y1" "n = length (api_queue y1)"
    by (cases "api_queue y") (auto simp: gf_step_def)
  from Suc.hyps(1)[OF y1(2)] obtain sched y' where "gf_run eng modem sched y1 = Some y'" "api_queue y' = []"
    "line_of modem y' = line_of modem y1" by blast
  with y1(1) step_api[OF y1(1)] show ?case by (intro exI[of _ "ApiThread # sched"]) auto
qed

lemma gf_run_append: "gf_run eng modem (a @ b) y = gf_run eng modem a y \<bind> gf_run eng modem b"
  by (induction a arbitrary: y) (auto split: Option.bind_splits)

lemma gf_run_settled: "settled (adapter y) \<Longrightarrow> gf_run eng modem sched y = Some y' \<Longrightarrow> settled (adapter y')"
  by (induction sched arbitrary: y) (auto simp: bind_eq_Some_conv dest: step_settled)

lemma schedule_exists:
  "settled (adapter y) \<Longrightarrow>
   \<exists>sched. (case line_run eng modem k (line_of modem y) of
      None \<Rightarrow> gf_run eng modem sched y = None
    | Some l \<Rightarrow> (\<exists>y'. gf_run eng modem sched y = Some y' \<and> line_of modem y' = l \<and> api_queue y' = []))"
proof (induction k arbitrary: y)
  case 0
  obtain sched y' where "gf_run eng modem sched y = Some y'" "api_queue y' = []" "line_of modem y' = line_of modem y"
    using api_all[of eng modem y] by blast
  then show ?case by auto
next
  case (Suc k)
  obtain sched y1 where 1: "gf_run eng modem sched y = Some y1" "api_queue y1 = []" "line_of modem y1 = line_of modem y"
    using api_all[of eng modem y] by blast
  have s1: "settled (adapter y1)" by (rule gf_run_settled[OF Suc.prems 1(1)])
  show ?case
  proof (cases "adapter_queue y1")
    case Nil
    then have "l_queue (line_of modem y) = []" using 1(2,3) by (metis drained_def drained_line)
    with 1 show ?thesis by (auto simp: line_step_def line_run_done simp del: line_run.simps)
  next
    case (Cons m ms)
    then have st: "map_option (line_of modem) (gf_step eng modem AdapterThread y1) = line_step eng modem (line_of modem y)"
      using step_adapter[OF s1] 1(3) by simp
    show ?thesis
    proof (cases "gf_step eng modem AdapterThread y1")
      case None
      with st[symmetric] 1(1) show ?thesis by (auto simp: gf_run_append intro!: exI[of _ "sched @ [AdapterThread]"])
    next
      case (Some y2)
      from Suc.IH[OF step_settled[OF s1 Some]] obtain s2 where
        "case line_run eng modem k (line_of modem y2) of None \<Rightarrow> gf_run eng modem s2 y2 = None
         | Some l \<Rightarrow> (\<exists>y'. gf_run eng modem s2 y2 = Some y' \<and> line_of modem y' = l \<and> api_queue y' = [])" by blast
      with st[symmetric] Some 1(1) show ?thesis
        by (intro exI[of _ "sched @ AdapterThread # s2"]) (auto simp: gf_run_append split: option.splits)
    qed
  qed
qed

lemma drained_end:
  assumes "settled (adapter y)" "line_run eng modem k (line_of modem y) = Some l" "l_queue l = []"
    and run: "gf_run eng modem sched y = Some y'" and dr: "drained y'"
  shows "line_of modem y' = l"
proof -
  obtain j where "line_run eng modem j (line_of modem y) = Some (line_of modem y')"
    using run_line[OF assms(1), of eng modem sched] run by auto
  then show ?thesis using line_run_defined[OF assms(2,3)] dr[unfolded drained_line[of _ modem]] by simp
qed

lemma line_schedule:
  assumes "settled (adapter y)" "line_run eng modem k (line_of modem y) = Some l" "l_queue l = []"
  shows "\<exists>sched y'. gf_run eng modem sched y = Some y' \<and> drained y'"
proof -
  obtain sched y' where "gf_run eng modem sched y = Some y'" "line_of modem y' = l"
    using schedule_exists[OF assms(1), of eng modem k] assms(2) by auto
  moreover from this have "drained y'" using assms(3) by (simp add: drained_line[of _ modem])
  ultimately show ?thesis by blast
qed

section \<open>A command along the line\<close>

text \<open>Item \<open>i\<close> of a command, and what the table says about it when the items come back.\<close>

definition item_of :: "gf_command \<Rightarrow> client \<Rightarrow> u32 list \<Rightarrow> nat \<Rightarrow> nat \<Rightarrow> gf_item" where
  "item_of cmd client ids b i = \<lparr>it_command = cmd, it_client = client, it_count = length ids, it_batch = b, it_index = i\<rparr>"

lemma item_of_sel [simp]:
  "it_command (item_of cmd client ids b i) = cmd" "it_client (item_of cmd client ids b i) = client"
  "it_count (item_of cmd client ids b i) = length ids" "it_batch (item_of cmd client ids b i) = b"
  "it_index (item_of cmd client ids b i) = i"
  by (simp_all add: item_of_def)

definition hw_of :: "client \<Rightarrow> u32 list \<Rightarrow> gf_state \<Rightarrow> nat \<Rightarrow> u32 option" where
  "hw_of client ids s i = getHwIdFromClient client (ids ! i) s"

definition known_items :: "client \<Rightarrow> u32 list \<Rightarrow> gf_state \<Rightarrow> nat \<Rightarrow> nat list" where
  "known_items client ids s n = filter (\<lambda>i. hw_of client ids s i \<noteq> None) [0..<n]"

definition looked_up :: "client \<Rightarrow> u32 list \<Rightarrow> gf_state \<Rightarrow> nat \<Rightarrow> LocationError option" where
  "looked_up client ids s i =
     Some (if hw_of client ids s i = None then LOCATION_ERROR_ID_UNKNOWN else LOCATION_ERROR_SUCCESS)"

definition with_batch :: "nat \<Rightarrow> gf_batch option \<Rightarrow> gf_state \<Rightarrow> gf_state" where
  "with_batch b bt s = s\<lparr>batches := (batches s)(b := bt)\<rparr>"

lemma with_batch_sel [simp]:
  "batches (with_batch b bt s) b = bt" "mGeofences (with_batch b bt s) = mGeofences s"
  "mGeofenceIds (with_batch b bt s) = mGeofenceIds s" "mClientData (with_batch b bt s) = mClientData s"
  "with_batch b bt2 (with_batch b bt s) = with_batch b bt2 s" "hw_of client ids (with_batch b bt s) = hw_of client ids s"
  "settled (with_batch b bt s) = settled s"
  by (simp_all add: with_batch_def hw_of_def[abs_def] getHwIdFromClient_def)

lemma set_err_batch:
  "batches s (it_batch it) = Some bt \<Longrightarrow>
   set_err it err s = Some (with_batch (it_batch it) (Some (bt\<lparr>b_errs := (b_errs bt)[it_index it := Some err]\<rparr>)) s)"
  by (simp add: set_err_def with_batch_def)

lemma finish_batch_batch:
  "batches s (it_batch it) = Some bt \<Longrightarrow>
   finish_batch it s = Some (with_batch (it_batch it) None s, reportResponse (it_client it) (b_errs bt) (b_ids bt) s)"
  by (simp add: finish_batch_def with_batch_def)

definition item_calls :: "gf_command \<Rightarrow> client \<Rightarrow> nat \<Rightarrow> gf_batch \<Rightarrow> gf_state \<Rightarrow> nat \<Rightarrow> api_msg list" where
  "item_calls cmd client b bt s i = (case hw_of client (b_ids bt) s i of None \<Rightarrow> []
     | Some h \<Rightarrow> [Modem (item_call (item_of cmd client (b_ids bt) b i) bt h) (ToItem (item_of cmd client (b_ids bt) b i) h)])"

text \<open>One item of a remove, pause, resume or modify command comes back from the call queue.\<close>

lemma item_call_errs [simp]: "item_call it (bt\<lparr>b_errs := es\<rparr>) h = item_call it bt h"
  by (simp add: item_call_def Let_def split: gf_command.split)

lemma queued_step:
  assumes cmd: "cmd \<noteq> AddGf" and bt: "batches s b = Some bt"
    and go: "i < length (b_ids bt) - 1 \<or> hw_of client (b_ids bt) s i \<noteq> None"
  shows "gf_proc eng (Queued (item_of cmd client (b_ids bt) b i)) s =
    Some (with_batch b (Some (bt\<lparr>b_errs := (b_errs bt)[i := looked_up client (b_ids bt) s i]\<rparr>)) s, [],
      item_calls cmd client b bt s i, [])"
  using assms set_err_batch[of s "item_of cmd client (b_ids bt) b i" bt]
  by (auto simp: item_queued_def hw_of_def looked_up_def item_calls_def finish_if_last_def split: option.split)

lemma queued_last:
  assumes cmd: "cmd \<noteq> AddGf" and bt: "batches s b = Some bt"
    and last: "Suc i = length (b_ids bt)" "hw_of client (b_ids bt) s i = None"
  shows "gf_proc eng (Queued (item_of cmd client (b_ids bt) b i)) s =
    Some (with_batch b None s, [], [],
      reportResponse client ((b_errs bt)[i := Some LOCATION_ERROR_ID_UNKNOWN]) (b_ids bt) s)"
  using assms(1,2) last(2) last(1)[symmetric]
    set_err_batch[of s "item_of cmd client (b_ids bt) b i" bt LOCATION_ERROR_ID_UNKNOWN]
  by (simp add: item_queued_def hw_of_def finish_if_last_def finish_batch_batch reportResponse_def)

text \<open>All items up to \<open>j\<close> have come back; their calls are at the end of the line.\<close>

definition looked_upto :: "client \<Rightarrow> u32 list \<Rightarrow> gf_state \<Rightarrow> nat \<Rightarrow> LocationError option list" where
  "looked_upto client ids s j = map (looked_up client ids s) [0..<j] @ replicate (length ids - j) None"

definition calls_upto :: "gf_command \<Rightarrow> client \<Rightarrow> nat \<Rightarrow> gf_batch \<Rightarrow> gf_state \<Rightarrow> nat \<Rightarrow> api_msg list" where
  "calls_upto cmd client b bt s j = concat (map (item_calls cmd client b bt s) [0..<j])"

lemma looked_upto_Suc:
  "j < length ids \<Longrightarrow> (looked_upto client ids s j)[j := looked_up client ids s j] = looked_upto client ids s (Suc j)"
  by (simp add: looked_upto_def list_update_append Suc_diff_le flip: Cons_replicate_eq)
    (metis Cons_replicate_eq Suc_diff_Suc diff_Suc_1 list_update_code(2) replicate_Suc)

lemma upt_drop: "j < n \<Longrightarrow> [j..<n] = j # [Suc j..<n]"
  by (rule upt_conv_Cons)

lemma first_phase:
  assumes cmd: "cmd \<noteq> AddGf" and bt: "bt = \<lparr>b_ids = ids, b_options = os, b_infos = is, b_errs = es\<rparr>"
    and l: "l = \<lparr>l_state = with_batch b (Some (bt\<lparr>b_errs := looked_upto client ids s 0\<rparr>)) s,
      l_queue = map (\<lambda>i. Queued (item_of cmd client ids b i)) [0..<length ids], l_calls = m, l_out = out\<rparr>"
  shows "j \<le> length ids \<Longrightarrow> j < length ids \<or> hw_of client ids s (length ids - 1) \<noteq> None \<Longrightarrow>
    line_run eng modem j l = Some \<lparr>l_state = with_batch b (Some (bt\<lparr>b_errs := looked_upto client ids s j\<rparr>)) s,
      l_queue = map (\<lambda>i. Queued (item_of cmd client ids b i)) [j..<length ids] @ replies modem m (calls_upto cmd client b bt s j),
      l_calls = m + length (calls_upto cmd client b bt s j), l_out = out\<rparr>"
proof (induction j)
  case 0
  show ?case by (simp add: l calls_upto_def)
next
  case (Suc j)
  then have j: "j < length ids" by simp
  have go: "j < length ids - 1 \<or> hw_of client ids s j \<noteq> None"
  proof (cases "Suc j = length ids")
    case True
    then have "length ids - 1 = j" by simp
    with Suc.prems(2) True show ?thesis by simp
  next
    case False
    with j have "j < length ids - 1" by linarith
    then show ?thesis ..
  qed
  let ?s = "with_batch b (Some (bt\<lparr>b_errs := looked_upto client ids s j\<rparr>)) s"
  let ?bt = "bt\<lparr>b_errs := looked_upto client ids s j\<rparr>"
  have ids: "b_ids ?bt = ids" by (simp add: bt)
  have lk: "looked_up client ids ?s j = looked_up client ids s j" by (simp add: looked_up_def)
  have ic: "item_calls cmd client b ?bt ?s j = item_calls cmd client b bt s j"
    by (simp add: item_calls_def bt item_call_def split: option.split gf_command.split)
  have "gf_proc eng (Queued (item_of cmd client ids b j)) ?s =
    Some (with_batch b (Some (bt\<lparr>b_errs := looked_upto client ids s (Suc j)\<rparr>)) s, [], item_calls cmd client b bt s j, [])"
    using queued_step[OF cmd, of ?s b ?bt j client eng] go looked_upto_Suc[OF j, of client s] ids lk ic by simp
  moreover have "line_run eng modem (Suc j) l = line_run eng modem j l \<bind> line_run eng modem 1"
    using line_run_add[of eng modem j 1 l] by simp
  ultimately show ?case
    using Suc.IH j by (simp add: line_step_def upt_drop[OF j] calls_upto_def ac_simps)
qed

section \<open>The answers to a remove or pause command\<close>

definition act :: "gf_command \<Rightarrow> u32 \<Rightarrow> LocationError \<Rightarrow> gf_state \<Rightarrow> gf_state" where
  "act cmd h err s =
     (if err = LOCATION_ERROR_SUCCESS
      then (if cmd = RemoveGf then removeGeofenceItem h s else pauseGeofenceItem h s) else s)"

lemma act_sel [simp]:
  "batches (act cmd h err s) = batches s" "mClientData (act cmd h err s) = mClientData s"
  "settled (act cmd h err s) = settled s"
  by (auto simp: act_def removeGeofenceItem_def pauseGeofenceItem_def with_item_def Let_def settled_def split: option.split)

lemma act_with_batch [simp]: "act cmd h err (with_batch b bt s) = with_batch b bt (act cmd h err s)"
  by (auto simp: act_def removeGeofenceItem_def pauseGeofenceItem_def with_item_def with_batch_def
      getGeofenceKeyFromHwId_def Let_def split: option.split)

lemma answered_proc:
  assumes "cmd \<in> {RemoveGf, PauseGf}"
  shows "gf_proc eng (Answered (item_of cmd client ids b i) h err) s = do {
    s \<leftarrow> set_err (item_of cmd client ids b i) err (act cmd h err s);
    (s, out) \<leftarrow> finish_if_last (item_of cmd client ids b i) s;
    Some (s, [], [], out)
  }"
  using assms by (auto simp: item_answered_def remove_answered_def pause_answered_def act_def)

lemma answered_step:
  assumes "cmd \<in> {RemoveGf, PauseGf}" "batches s b = Some bt" "i < length ids - 1"
  shows "gf_proc eng (Answered (item_of cmd client ids b i) h err) s =
    Some (with_batch b (Some (bt\<lparr>b_errs := (b_errs bt)[i := Some err]\<rparr>)) (act cmd h err s), [], [], [])"
  using assms(2,3) set_err_batch[of "act cmd h err s" "item_of cmd client ids b i" bt]
  unfolding answered_proc[OF assms(1)] by (simp add: finish_if_last_def)

lemma answered_last:
  assumes "cmd \<in> {RemoveGf, PauseGf}" "batches s b = Some bt" "i = length ids - 1" "b_ids bt = ids"
  shows "gf_proc eng (Answered (item_of cmd client ids b i) h err) s =
    Some (with_batch b None (act cmd h err s), [], [],
      reportResponse client ((b_errs bt)[i := Some err]) ids s)"
  using assms(2,3,4) set_err_batch[of "act cmd h err s" "item_of cmd client ids b i" bt]
  unfolding answered_proc[OF assms(1)] by (simp add: finish_if_last_def finish_batch_batch reportResponse_def)

lemma answered_freed:
  assumes "cmd \<in> {RemoveGf, PauseGf}" "batches s b = None"
  shows "gf_proc eng (Answered (item_of cmd client ids b i) h err) s = None"
  using assms(2) unfolding answered_proc[OF assms(1)] by (simp add: set_err_def)

type_synonym item_answer = "nat \<times> u32 \<times> LocationError"

definition answer_msg :: "gf_command \<Rightarrow> client \<Rightarrow> u32 list \<Rightarrow> nat \<Rightarrow> item_answer \<Rightarrow> gf_msg" where
  "answer_msg cmd client ids b a = Answered (item_of cmd client ids b (fst a)) (fst (snd a)) (snd (snd a))"

definition act_all :: "gf_command \<Rightarrow> item_answer list \<Rightarrow> gf_state \<Rightarrow> gf_state" where
  "act_all cmd as s = fold (\<lambda>a. act cmd (fst (snd a)) (snd (snd a))) as s"

definition errs_all :: "item_answer list \<Rightarrow> LocationError option list \<Rightarrow> LocationError option list" where
  "errs_all as es = fold (\<lambda>a es. es[fst a := Some (snd (snd a))]) as es"

lemma all_Cons [simp]:
  "act_all cmd (a # as) s = act_all cmd as (act cmd (fst (snd a)) (snd (snd a)) s)" "act_all cmd [] s = s"
  "errs_all (a # as) es = errs_all as (es[fst a := Some (snd (snd a))])" "errs_all [] es = es"
  by (simp_all add: act_all_def errs_all_def)

lemma act_all_clients [simp]: "mClientData (act_all cmd as s) = mClientData s"
  by (induction as arbitrary: s) auto

lemma act_all_with_batch [simp]: "act_all cmd as (with_batch b bt s) = with_batch b bt (act_all cmd as s)"
  by (induction as arbitrary: s) auto

lemma act_all_batches [simp]: "batches (act_all cmd as s) = batches s"
  by (induction as arbitrary: s) auto

lemma reportResponse_cong: "mClientData s = mClientData t \<Longrightarrow> reportResponse c es ids s = reportResponse c es ids t"
  by (simp add: reportResponse_def)

lemma second_phase:
  assumes cmd: "cmd \<in> {RemoveGf, PauseGf}"
  shows "as \<noteq> [] \<Longrightarrow> \<forall>a\<in>set (butlast as). fst a < length ids - 1 \<Longrightarrow> fst (last as) = length ids - 1 \<Longrightarrow>
    batches s b = Some bt \<Longrightarrow> b_ids bt = ids \<Longrightarrow>
    line_run eng modem (length as) \<lparr>l_state = s, l_queue = map (answer_msg cmd client ids b) as, l_calls = m, l_out = out\<rparr>
    = Some \<lparr>l_state = with_batch b None (act_all cmd as s), l_queue = [], l_calls = m,
        l_out = out @ reportResponse client (errs_all as (b_errs bt)) ids s\<rparr>"
proof (induction as arbitrary: s bt)
  case (Cons a as)
  show ?case
  proof (cases "as = []")
    case True
    with Cons.prems answered_last[OF cmd Cons.prems(4)] show ?thesis
      by (simp add: line_step_def answer_msg_def)
  next
    case False
    let ?s = "act cmd (fst (snd a)) (snd (snd a)) s"
    let ?bt = "bt\<lparr>b_errs := (b_errs bt)[fst a := Some (snd (snd a))]\<rparr>"
    have "fst a < length ids - 1" using Cons.prems(2) False by simp
    then have "line_step eng modem \<lparr>l_state = s, l_queue = map (answer_msg cmd client ids b) (a # as), l_calls = m, l_out = out\<rparr>
      = Some \<lparr>l_state = with_batch b (Some ?bt) ?s, l_queue = map (answer_msg cmd client ids b) as, l_calls = m, l_out = out\<rparr>"
      using answered_step[OF cmd Cons.prems(4)] by (simp add: line_step_def answer_msg_def)
    moreover have "reportResponse client es ids (with_batch b (Some ?bt) ?s) = reportResponse client es ids s" for es
      by (rule reportResponse_cong) simp
    ultimately show ?thesis
      using Cons.IH[of "with_batch b (Some ?bt) ?s" ?bt] Cons.prems False by simp
  qed
qed simp

section \<open>A whole command\<close>

definition item_answers :: "(nat \<Rightarrow> LocationError \<times> u32) \<Rightarrow> nat \<Rightarrow> client \<Rightarrow> u32 list \<Rightarrow> gf_state \<Rightarrow> nat list \<Rightarrow> item_answer list" where
  "item_answers modem n client ids s ks =
     map (\<lambda>(j, k). (k, the (hw_of client ids s k), fst (modem j))) (enumerate n ks)"

lemma item_answers_simps [simp]:
  "item_answers modem n client ids s [] = []"
  "item_answers modem n client ids s (k # ks) =
     (k, the (hw_of client ids s k), fst (modem n)) # item_answers modem (Suc n) client ids s ks"
  by (simp_all add: item_answers_def)

lemma item_answers_fst [simp]: "map fst (item_answers modem n client ids s ks) = ks"
  by (induction ks arbitrary: n) auto

lemma item_answers_nth:
  "j < length ks \<Longrightarrow> item_answers modem n client ids s ks ! j = (ks ! j, the (hw_of client ids s (ks ! j)), fst (modem (n + j)))"
  by (simp add: item_answers_def nth_enumerate_eq)

lemma length_item_answers [simp]: "length (item_answers modem n client ids s ks) = length ks"
  by (simp add: item_answers_def)

lemma bex_item_answers:
  "(\<exists>a\<in>set (item_answers modem n client ids s ks). P a) \<longleftrightarrow>
   (\<exists>j<length ks. P (ks ! j, the (hw_of client ids s (ks ! j)), fst (modem (n + j))))"
proof -
  have "(\<exists>a\<in>set xs. P a) \<longleftrightarrow> (\<exists>j<length xs. P (xs ! j))" for xs by (metis in_set_conv_nth)
  then show ?thesis by (simp add: item_answers_nth cong: conj_cong)
qed

lemma calls_upto_known:
  "concat (map (item_calls cmd client b bt s) xs) =
   map (\<lambda>k. Modem (item_call (item_of cmd client (b_ids bt) b k) bt (the (hw_of client (b_ids bt) s k)))
     (ToItem (item_of cmd client (b_ids bt) b k) (the (hw_of client (b_ids bt) s k))))
     (filter (\<lambda>i. hw_of client (b_ids bt) s i \<noteq> None) xs)"
  by (induction xs) (auto simp: item_calls_def split: option.split)

lemma replies_known:
  assumes "b_ids bt = ids"
  shows "replies modem n (calls_upto cmd client b bt s j) =
    map (answer_msg cmd client ids b) (item_answers modem n client ids s (known_items client ids s j))"
proof -
  have "replies modem n (map (\<lambda>k. Modem (c k) (ToItem (item_of cmd client ids b k) (h k))) ks) =
    map (answer_msg cmd client ids b) (map (\<lambda>(j, k). (k, h k, fst (modem j))) (enumerate n ks))" for c h ks
    by (induction ks arbitrary: n) (auto simp: answer_msg_def)
  then show ?thesis by (simp add: calls_upto_def calls_upto_known assms known_items_def item_answers_def)
qed

definition plain_batch :: "u32 list \<Rightarrow> GeofenceOption list option \<Rightarrow> gf_batch" where
  "plain_batch ids options = \<lparr>b_ids = ids, b_options = (case options of None \<Rightarrow> [] | Some os \<Rightarrow> os), b_infos = [],
     b_errs = replicate (length ids) None\<rparr>"

definition started :: "gf_state \<Rightarrow> gf_state" where
  "started s = s\<lparr>next_batch := Suc (next_batch s)\<rparr>"

lemma started_sel [simp]:
  "mGeofences (started s) = mGeofences s" "mGeofenceIds (started s) = mGeofenceIds s"
  "mClientData (started s) = mClientData s" "hw_of client ids (started s) = hw_of client ids s"
  by (simp_all add: started_def hw_of_def[abs_def] getHwIdFromClient_def)

lemma known_items_started [simp]: "known_items client ids (started s) n = known_items client ids s n"
  by (simp add: known_items_def)

lemma item_answers_started [simp]: "item_answers modem n client ids (started s) ks = item_answers modem n client ids s ks"
  by (simp add: item_answers_def)

lemma replies_queue:
  "replies modem n (map (\<lambda>i. CallQueue (f i)) xs) = map (\<lambda>i. Queued (f i)) xs"
  by (induction xs arbitrary: n) auto

text \<open>The line after the message that starts the command.\<close>

lemma command_started:
  assumes cmd: "cmd \<in> {RemoveGf, PauseGf, ResumeGf}" and y: "drained y" and ids: "ids \<noteq> []"
  shows "line_run eng modem 1 (line_of modem (geofencesCommand cmd client ids options y)) = Some
    \<lparr>l_state = with_batch (next_batch (adapter y)) (Some ((plain_batch ids options)\<lparr>b_errs := looked_upto client ids (started (adapter y)) 0\<rparr>))
       (started (adapter y)),
     l_queue = map (\<lambda>i. Queued (item_of cmd client ids (next_batch (adapter y)) i)) [0..<length ids],
     l_calls = calls_done y + length ids, l_out = callbacks_made y\<rparr>"
proof -
  have "(case cmd of AddGf \<Rightarrow> options = None \<or> None = (None :: GeofenceInfo list option) | ModifyGf \<Rightarrow> options = None | _ \<Rightarrow> False) = False"
    using cmd by auto
  then have "start_batch cmd client ids options None (adapter y) =
    (with_batch (next_batch (adapter y)) (Some (plain_batch ids options)) (started (adapter y)),
     map (\<lambda>i. CallQueue (item_of cmd client ids (next_batch (adapter y)) i)) [0..<length ids])"
    unfolding start_batch_def by (simp add: with_batch_def started_def plain_batch_def item_of_def Let_def)
  then show ?thesis
    using ids y
    by (simp add: line_of_def geofencesCommand_def drained_def line_step_def replies_queue looked_upto_def)
      (simp add: plain_batch_def)
qed

lemma known_last:
  assumes "ids \<noteq> []" "hw_of client ids s (length ids - 1) \<noteq> None"
  shows "known_items client ids s (length ids) = known_items client ids s (length ids - 1) @ [length ids - 1]"
  using assms by (cases ids rule: rev_cases) (auto simp: known_items_def)

text \<open>The last identifier is known: all answers arrive before the arrays are deleted.\<close>

lemma command_line:
  assumes cmd: "cmd \<in> {RemoveGf, PauseGf}" and y: "drained y" and ids: "ids \<noteq> []"
    and last: "hw_of client ids (adapter y) (length ids - 1) \<noteq> None"
    and as: "as = item_answers modem (calls_done y + length ids) client ids (adapter y)
      (known_items client ids (adapter y) (length ids))"
  shows "\<exists>k. line_run eng modem k (line_of modem (geofencesCommand cmd client ids options y)) = Some
    \<lparr>l_state = with_batch (next_batch (adapter y)) None (act_all cmd as (started (adapter y))), l_queue = [],
     l_calls = calls_done y + length ids + length as,
     l_out = callbacks_made y @ reportResponse client
       (errs_all as (map (looked_up client ids (adapter y)) [0..<length ids])) ids (adapter y)\<rparr>"
proof -
  let ?s = "started (adapter y)" let ?b = "next_batch (adapter y)" let ?n = "length ids"
  let ?bt = "plain_batch ids options"
  let ?bt1 = "?bt\<lparr>b_errs := looked_upto client ids ?s ?n\<rparr>"
  have cmd3: "cmd \<in> {RemoveGf, PauseGf, ResumeGf}" "cmd \<noteq> AddGf" using cmd by auto
  have l1: "line_run eng modem 1 (line_of modem (geofencesCommand cmd client ids options y)) = Some
    \<lparr>l_state = with_batch ?b (Some (?bt\<lparr>b_errs := looked_upto client ids ?s 0\<rparr>)) ?s,
     l_queue = map (\<lambda>i. Queued (item_of cmd client ids ?b i)) [0..<?n],
     l_calls = calls_done y + ?n, l_out = callbacks_made y\<rparr>" (is "_ = Some ?l1")
    by (rule command_started[OF cmd3(1) y ids])
  have l2: "line_run eng modem ?n ?l1 = Some \<lparr>l_state = with_batch ?b (Some ?bt1) ?s,
      l_queue = replies modem (calls_done y + ?n) (calls_upto cmd client ?b ?bt ?s ?n),
      l_calls = calls_done y + ?n + length (calls_upto cmd client ?b ?bt ?s ?n), l_out = callbacks_made y\<rparr>"
    using first_phase[OF cmd3(2) plain_batch_def[of ids options] refl, where j = ?n and s = ?s and client = client
        and b = ?b and m = "calls_done y + ?n" and out = "callbacks_made y"] last by simp
  have as': "replies modem (calls_done y + ?n) (calls_upto cmd client ?b ?bt ?s ?n) = map (answer_msg cmd client ids ?b) as"
    using replies_known[of ?bt ids] by (simp add: plain_batch_def as)
  have len: "length (calls_upto cmd client ?b ?bt ?s ?n) = length as"
    using arg_cong[OF as', of length] by simp
  have fsts: "map fst as = known_items client ids (adapter y) (?n - 1) @ [?n - 1]"
    unfolding as item_answers_fst by (rule known_last[OF ids last])
  have ne: "as \<noteq> []" using fsts by auto
  have lst: "fst (last as) = ?n - 1" using arg_cong[OF fsts, of List.last] ne by (simp add: last_map)
  have bl: "\<forall>a\<in>set (butlast as). fst a < ?n - 1"
  proof
    fix a assume "a \<in> set (butlast as)"
    then have "fst a \<in> set (butlast (map fst as))" by (simp add: map_butlast[symmetric])
    then show "fst a < ?n - 1" unfolding fsts by (simp add: known_items_def)
  qed
  have "line_run eng modem (length as) \<lparr>l_state = with_batch ?b (Some ?bt1) ?s,
      l_queue = map (answer_msg cmd client ids ?b) as, l_calls = calls_done y + ?n + length as, l_out = callbacks_made y\<rparr>
    = Some \<lparr>l_state = with_batch ?b None (act_all cmd as (with_batch ?b (Some ?bt1) ?s)), l_queue = [],
        l_calls = calls_done y + ?n + length as,
        l_out = callbacks_made y @ reportResponse client (errs_all as (b_errs ?bt1)) ids (with_batch ?b (Some ?bt1) ?s)\<rparr>"
    by (rule second_phase[OF cmd ne bl lst]) (simp_all add: plain_batch_def)
  moreover have "reportResponse client es ids (with_batch ?b (Some ?bt1) ?s) = reportResponse client es ids (adapter y)" for es
    by (rule reportResponse_cong) simp
  moreover have "b_errs ?bt1 = map (looked_up client ids (adapter y)) [0..<?n]"
    by (simp add: looked_upto_def looked_up_def)
  ultimately have "line_run eng modem (1 + (?n + length as)) (line_of modem (geofencesCommand cmd client ids options y)) = Some
    \<lparr>l_state = with_batch ?b None (act_all cmd as ?s), l_queue = [],
     l_calls = calls_done y + ?n + length as,
     l_out = callbacks_made y @ reportResponse client
       (errs_all as (map (looked_up client ids (adapter y)) [0..<?n])) ids (adapter y)\<rparr>"
    unfolding line_run_add l1 by (simp add: line_run_add l2 as' len)
  then show ?thesis ..
qed

text \<open>The last identifier is unknown: the arrays are gone when the first answer comes.\<close>

lemma known_nonempty:
  assumes "g \<in> set ids" "getHwIdFromClient client g s \<noteq> None" "hw_of client ids s (length ids - 1) = None"
  shows "known_items client ids s (length ids - 1) \<noteq> []"
proof -
  obtain i where i: "i < length ids" "ids ! i = g" using assms(1) by (auto simp: in_set_conv_nth)
  with assms(2) have hi: "hw_of client ids s i \<noteq> None" by (simp add: hw_of_def)
  with assms(3) have "i \<noteq> length ids - 1" by auto
  with i(1) have "i \<in> set (filter (\<lambda>i. hw_of client ids s i \<noteq> None) [0..<length ids - 1])" using hi by auto
  then show ?thesis unfolding known_items_def by (metis empty_iff list.set(1))
qed

lemma command_freed:
  assumes cmd: "cmd \<in> {RemoveGf, PauseGf}" and y: "drained y"
    and ids: "ids \<noteq> []" "getHwIdFromClient client (last ids) (adapter y) = None"
    and some_known: "g \<in> set ids" "getHwIdFromClient client g (adapter y) \<noteq> None"
  shows "\<exists>k. line_run eng modem k (line_of modem (geofencesCommand cmd client ids options y)) = None"
proof -
  let ?s = "started (adapter y)" let ?b = "next_batch (adapter y)" let ?n = "length ids - 1"
  let ?bt = "plain_batch ids options"
  have cmd3: "cmd \<in> {RemoveGf, PauseGf, ResumeGf}" "cmd \<noteq> AddGf" using cmd by auto
  have n: "Suc ?n = length ids" "[?n..<length ids] = [?n]" using ids(1) by (cases ids; simp)+
  have lst: "hw_of client ids (adapter y) ?n = None" using ids by (simp add: hw_of_def last_conv_nth)
  have l1: "line_run eng modem 1 (line_of modem (geofencesCommand cmd client ids options y)) = Some
    \<lparr>l_state = with_batch ?b (Some (?bt\<lparr>b_errs := looked_upto client ids ?s 0\<rparr>)) ?s,
     l_queue = map (\<lambda>i. Queued (item_of cmd client ids ?b i)) [0..<length ids],
     l_calls = calls_done y + length ids, l_out = callbacks_made y\<rparr>" (is "_ = Some ?l1")
    by (rule command_started[OF cmd3(1) y ids(1)])
  let ?bt1 = "?bt\<lparr>b_errs := looked_upto client ids ?s ?n\<rparr>"
  let ?s1 = "with_batch ?b (Some ?bt1) ?s"
  let ?cs = "calls_upto cmd client ?b ?bt ?s ?n"
  have l2: "line_run eng modem ?n ?l1 = Some \<lparr>l_state = ?s1,
      l_queue = Queued (item_of cmd client ids ?b ?n) # replies modem (calls_done y + length ids) ?cs,
      l_calls = calls_done y + length ids + length ?cs, l_out = callbacks_made y\<rparr>" (is "_ = Some ?l2")
    using first_phase[OF cmd3(2) plain_batch_def[of ids options] refl, where j = ?n and s = ?s and client = client
        and b = ?b and m = "calls_done y + length ids" and out = "callbacks_made y"] n by simp
  obtain k ks where "known_items client ids (adapter y) ?n = k # ks"
    using known_nonempty[OF some_known lst] by (cases "known_items client ids (adapter y) ?n") auto
  then obtain a as where q: "replies modem (calls_done y + length ids) ?cs = answer_msg cmd client ids ?b a # as"
    using replies_known[of ?bt ids] by (simp add: plain_batch_def)
  have bt1: "batches ?s1 ?b = Some ?bt1" "b_ids ?bt1 = ids" by (simp_all add: plain_batch_def)
  have "gf_proc eng (Queued (item_of cmd client ids ?b ?n)) ?s1 = Some (with_batch ?b None ?s1, [], [],
      reportResponse client ((b_errs ?bt1)[?n := Some LOCATION_ERROR_ID_UNKNOWN]) ids ?s1)"
    using queued_last[OF cmd3(2) bt1(1), of ?n client eng] n(1) lst bt1(2) by simp
  then have "line_run eng modem 2 ?l2 = None"
    using q answered_freed[OF cmd, of "with_batch ?b None ?s" ?b]
    by (simp add: numeral_2_eq_2 line_step_def answer_msg_def del: gf_proc.simps)
  then have "line_run eng modem (1 + (?n + 2)) (line_of modem (geofencesCommand cmd client ids options y)) = None"
    unfolding line_run_add l1 by (simp only: line_run_add l2 Option.bind.simps)
  then show ?thesis ..
qed

section \<open>The results reported\<close>

lemma length_errs_all [simp]: "length (errs_all as es) = length es"
  by (induction as arbitrary: es) auto

lemma errs_all_other: "i \<notin> fst ` set as \<Longrightarrow> errs_all as es ! i = es ! i"
  by (induction as arbitrary: es) auto

lemma errs_all_answer:
  "distinct (map fst as) \<Longrightarrow> a \<in> set as \<Longrightarrow> fst a < length es \<Longrightarrow> errs_all as es ! fst a = Some (snd (snd a))"
proof (induction as arbitrary: es)
  case (Cons x as)
  then show ?case by (cases "a = x") (auto simp: errs_all_other)
qed simp

lemma known_items_iff: "i \<in> set (known_items client ids s n) \<longleftrightarrow> i < n \<and> hw_of client ids s i \<noteq> None"
  by (auto simp: known_items_def)

lemma distinct_known: "distinct (known_items client ids s n)"
  by (simp add: known_items_def)

text \<open>Entry \<open>i\<close> of the results: unknown, or the modem's answer to the call of the item.\<close>

lemma command_errs:
  assumes as: "as = item_answers modem m client ids s (known_items client ids s (length ids))"
    and es: "es = errs_all as (map (looked_up client ids s) [0..<length ids])"
  shows "length es = length ids"
    and "i < length ids \<Longrightarrow> hw_of client ids s i = None \<Longrightarrow> es ! i = Some LOCATION_ERROR_ID_UNKNOWN"
    and "j < length (known_items client ids s (length ids)) \<Longrightarrow>
      es ! (known_items client ids s (length ids) ! j) = Some (fst (modem (m + j)))"
proof -
  let ?ks = "known_items client ids s (length ids)"
  show "length es = length ids" by (simp add: es)
  have fsts: "fst ` set as = set ?ks" unfolding as by (metis item_answers_fst set_map)
  show "es ! i = Some LOCATION_ERROR_ID_UNKNOWN" if "i < length ids" "hw_of client ids s i = None"
    using that fsts by (simp add: es errs_all_other known_items_iff looked_up_def)
  assume j: "j < length ?ks"
  have a: "as ! j = (?ks ! j, the (hw_of client ids s (?ks ! j)), fst (modem (m + j)))"
    unfolding as by (rule item_answers_nth[OF j])
  have "as ! j \<in> set as" using j by (simp add: as)
  moreover have "distinct (map fst as)" unfolding as item_answers_fst by (rule distinct_known)
  moreover have "?ks ! j < length ids" using nth_mem[OF j] by (simp add: known_items_iff)
  ultimately show "es ! (?ks ! j) = Some (fst (modem (m + j)))"
    using errs_all_answer[of as "as ! j"] a by (simp add: es)
qed

section \<open>The tables\<close>

text \<open>Every identifier leads to an entry that knows it.\<close>

definition gf_tables_ok :: "gf_state \<Rightarrow> bool" where
  "gf_tables_ok s \<longleftrightarrow> smap_ok (mGeofences s) \<and> smap_ok (mGeofenceIds s) \<and>
     (\<forall>key h. map_of (mGeofenceIds s) key = Some h \<longrightarrow>
        (\<exists>ob. map_of (mGeofences s) h = Some ob \<and> obj_key ob = key))"

lemma gf_tables_ok_entry:
  "gf_tables_ok s \<Longrightarrow> map_of (mGeofenceIds s) key = Some h \<Longrightarrow>
   \<exists>ob. map_of (mGeofences s) h = Some ob \<and> obj_key ob = key"
  by (simp add: gf_tables_ok_def)

lemma remove_item:
  assumes ok: "gf_tables_ok s" and k: "map_of (mGeofenceIds s) key = Some h"
  shows "gf_tables_ok (removeGeofenceItem h s)"
    "map_of (mGeofenceIds (removeGeofenceItem h s)) = (map_of (mGeofenceIds s))(key := None)"
    "map_of (mGeofences (removeGeofenceItem h s)) = (map_of (mGeofences s))(h := None)"
proof -
  obtain ob where ob: "map_of (mGeofences s) h = Some ob" "obj_key ob = key" using gf_tables_ok_entry[OF ok k] by blast
  have r: "removeGeofenceItem h s = s\<lparr>mGeofenceIds := sm_erase key (mGeofenceIds s), mGeofences := sm_erase h (mGeofences s)\<rparr>"
    using ob k by (simp add: removeGeofenceItem_def getGeofenceKeyFromHwId_def)
  have sms: "smap_ok (mGeofences s)" "smap_ok (mGeofenceIds s)" using ok by (simp_all add: gf_tables_ok_def)
  show ids: "map_of (mGeofenceIds (removeGeofenceItem h s)) = (map_of (mGeofenceIds s))(key := None)"
    and gfs: "map_of (mGeofences (removeGeofenceItem h s)) = (map_of (mGeofences s))(h := None)"
    by (simp_all add: r sm.find_erase sms)
  have "\<exists>ob. map_of (mGeofences (removeGeofenceItem h s)) h' = Some ob \<and> obj_key ob = key'"
    if "map_of (mGeofenceIds (removeGeofenceItem h s)) key' = Some h'" for key' h'
  proof -
    from that ids have k': "map_of (mGeofenceIds s) key' = Some h'" "key' \<noteq> key" by (auto split: if_splits)
    from gf_tables_ok_entry[OF ok k'(1)] obtain ob' where "map_of (mGeofences s) h' = Some ob'" "obj_key ob' = key'" by blast
    moreover from this have "h' \<noteq> h" using ob k'(2) by auto
    ultimately show ?thesis using gfs by auto
  qed
  with sms show "gf_tables_ok (removeGeofenceItem h s)" by (auto simp: gf_tables_ok_def r sm.erase_ok)
qed

text \<open>The other operations on the tables; a new number must be free, as the modem hands it out.\<close>

lemma save_item:
  assumes ok: "gf_tables_ok s" and fresh: "map_of (mGeofences s) h = None"
  shows "gf_tables_ok (saveGeofenceItem client i h op nfo s)"
proof -
  have sms: "smap_ok (mGeofences s)" "smap_ok (mGeofenceIds s)" using ok by (simp_all add: gf_tables_ok_def)
  have "h' \<noteq> h" if "map_of (mGeofenceIds s) key = Some h'" for key h'
    using gf_tables_ok_entry[OF ok that] fresh by auto
  with ok sms show ?thesis
    by (auto simp: gf_tables_ok_def saveGeofenceItem_def Let_def sm.put_ok sm.find_put)
qed

lemma with_item_tables:
  assumes ok: "gf_tables_ok s" and key: "\<And>ob. obj_key (f ob) = obj_key ob"
  shows "gf_tables_ok (with_item h f s)"
proof (cases "map_of (mGeofences s) h")
  case None
  with ok show ?thesis by (simp add: with_item_def)
next
  case (Some ob)
  have "smap_ok (mGeofences s)" using ok by (simp add: gf_tables_ok_def)
  with ok Some key show ?thesis by (force simp: gf_tables_ok_def with_item_def sm.put_ok sm.find_put)
qed

lemma sm_ok_filter: "smap_ok xs \<Longrightarrow> smap_ok (filter P xs)"
  by (simp add: smap_ok_def sorted_wrt_map sorted_wrt_filter)

lemma sm_find_filter: "smap_ok xs \<Longrightarrow> map_of (filter P xs) k = Some v \<Longrightarrow> map_of xs k = Some v"
  using sm_find_mem[of xs k v] sm_find_mem[OF sm_ok_filter, of xs k v P] by simp

lemma stop_tables: "gf_tables_ok s \<Longrightarrow> gf_tables_ok (fst (stopClientSessions client s))"
  by (auto simp: gf_tables_ok_def stopClientSessions_def sm_ok_filter dest: sm_find_filter)

lemma restart_tables: "gf_tables_ok s \<Longrightarrow> gf_tables_ok (fst (restartGeofences s))"
  by (auto simp: gf_tables_ok_def restartGeofences_def)

text \<open>
  A paused geofence that is set up again after a restart of the modem is paused there, but the
  adapter's entry says that it is active, so that the next restart does not pause it any more.
\<close>

lemma restart_forgets_pause:
  assumes "smap_ok (mGeofences s)" "obj_paused ob"
    "restart_answered ob LOCATION_ERROR_SUCCESS h s = (s', calls)"
  shows "calls = [Modem (pauseGeofence h (key_id (obj_key ob))) ToNobody]"
    "\<exists>ob'. map_of (mGeofences s') h = Some ob' \<and> obj_key ob' = obj_key ob \<and> \<not> obj_paused ob'"
  using assms by (auto simp: restart_answered_def saveGeofenceItem_def Let_def sm.find_put)

lemma remove_absent: "map_of (mGeofences s) h = None \<Longrightarrow> removeGeofenceItem h s = s"
  by (simp add: removeGeofenceItem_def getGeofenceKeyFromHwId_def)

definition answer_key :: "client \<Rightarrow> u32 list \<Rightarrow> item_answer \<Rightarrow> GeofenceKey" where
  "answer_key client ids a = GeofenceKey client (ids ! fst a)"

text \<open>An item whose geofence is in the tables, or was removed by an earlier item of the command.\<close>

definition still :: "client \<Rightarrow> u32 list \<Rightarrow> item_answer \<Rightarrow> gf_state \<Rightarrow> bool" where
  "still client ids a s \<longleftrightarrow> map_of (mGeofenceIds s) (answer_key client ids a) = Some (fst (snd a)) \<or>
     map_of (mGeofenceIds s) (answer_key client ids a) = None \<and> map_of (mGeofences s) (fst (snd a)) = None"

lemma act_remove:
  assumes ok: "gf_tables_ok s" and a: "still client ids a s"
  shows "gf_tables_ok (act RemoveGf (fst (snd a)) (snd (snd a)) s)"
    "map_of (mGeofenceIds (act RemoveGf (fst (snd a)) (snd (snd a)) s)) =
       (if snd (snd a) = LOCATION_ERROR_SUCCESS then (map_of (mGeofenceIds s))(answer_key client ids a := None)
        else map_of (mGeofenceIds s))"
    "still client ids c s \<Longrightarrow> still client ids c (act RemoveGf (fst (snd a)) (snd (snd a)) s)"
    "map_of (mGeofences (act RemoveGf (fst (snd a)) (snd (snd a)) s)) =
       (if snd (snd a) = LOCATION_ERROR_SUCCESS then (map_of (mGeofences s))(fst (snd a) := None) else map_of (mGeofences s))"
proof -
  let ?h = "fst (snd a)" let ?k = "answer_key client ids a"
  consider (err) "snd (snd a) \<noteq> LOCATION_ERROR_SUCCESS"
    | (gone) "snd (snd a) = LOCATION_ERROR_SUCCESS" "map_of (mGeofenceIds s) ?k = None" "map_of (mGeofences s) ?h = None"
    | (there) "snd (snd a) = LOCATION_ERROR_SUCCESS" "map_of (mGeofenceIds s) ?k = Some ?h"
    using a by (auto simp: still_def)
  then have "gf_tables_ok (act RemoveGf ?h (snd (snd a)) s) \<and>
    map_of (mGeofenceIds (act RemoveGf ?h (snd (snd a)) s)) =
       (if snd (snd a) = LOCATION_ERROR_SUCCESS then (map_of (mGeofenceIds s))(?k := None) else map_of (mGeofenceIds s)) \<and>
    (still client ids c s \<longrightarrow> still client ids c (act RemoveGf ?h (snd (snd a)) s)) \<and>
    map_of (mGeofences (act RemoveGf ?h (snd (snd a)) s)) =
       (if snd (snd a) = LOCATION_ERROR_SUCCESS then (map_of (mGeofences s))(?h := None) else map_of (mGeofences s))"
  proof cases
    case err
    with ok show ?thesis by (simp add: act_def)
  next
    case gone
    with ok show ?thesis by (simp add: act_def remove_absent fun_upd_idem)
  next
    case there
    note rm = remove_item[OF ok there(2)]
    from gf_tables_ok_entry[OF ok there(2)] obtain ob where ob: "map_of (mGeofences s) ?h = Some ob" "obj_key ob = ?k" by blast
    have "still client ids c (removeGeofenceItem ?h s)" if c: "still client ids c s"
    proof (cases "fst (snd c) = ?h")
      case True
      with c ob gf_tables_ok_entry[OF ok, of "answer_key client ids c" ?h] have "answer_key client ids c = ?k"
        by (auto simp: still_def)
      with True show ?thesis by (simp add: still_def rm)
    next
      case False
      with c there(2) have "answer_key client ids c = ?k \<Longrightarrow> False" by (auto simp: still_def)
      with False c show ?thesis by (auto simp: still_def rm)
    qed
    with there rm show ?thesis by (simp add: act_def)
  qed
  then show "gf_tables_ok (act RemoveGf ?h (snd (snd a)) s)"
    "map_of (mGeofenceIds (act RemoveGf ?h (snd (snd a)) s)) =
       (if snd (snd a) = LOCATION_ERROR_SUCCESS then (map_of (mGeofenceIds s))(?k := None) else map_of (mGeofenceIds s))"
    "still client ids c s \<Longrightarrow> still client ids c (act RemoveGf ?h (snd (snd a)) s)"
    "map_of (mGeofences (act RemoveGf ?h (snd (snd a)) s)) =
       (if snd (snd a) = LOCATION_ERROR_SUCCESS then (map_of (mGeofences s))(?h := None) else map_of (mGeofences s))" by auto
qed

lemma act_all_remove:
  "gf_tables_ok s \<Longrightarrow> \<forall>a\<in>set as. still client ids a s \<Longrightarrow>
   gf_tables_ok (act_all RemoveGf as s) \<and>
   map_of (mGeofenceIds (act_all RemoveGf as s)) = (\<lambda>key. if \<exists>a\<in>set as. snd (snd a) = LOCATION_ERROR_SUCCESS \<and>
     key = answer_key client ids a then None else map_of (mGeofenceIds s) key) \<and>
   map_of (mGeofences (act_all RemoveGf as s)) = (\<lambda>h. if \<exists>a\<in>set as. snd (snd a) = LOCATION_ERROR_SUCCESS \<and>
     fst (snd a) = h then None else map_of (mGeofences s) h)"
proof (induction as arbitrary: s)
  case (Cons a as)
  let ?s = "act RemoveGf (fst (snd a)) (snd (snd a)) s"
  have a: "still client ids a s" using Cons.prems(2) by simp
  note step = act_remove[OF Cons.prems(1) a]
  have "\<forall>c\<in>set as. still client ids c ?s" using Cons.prems(2) step(3) by simp
  note IH = Cons.IH[OF step(1) this]
  show ?case using IH step(2,4) by (auto simp: fun_eq_iff)
qed simp

lemma act_all_pause:
  "gf_tables_ok s \<Longrightarrow> gf_tables_ok (act_all PauseGf as s) \<and> mGeofenceIds (act_all PauseGf as s) = mGeofenceIds s \<and>
   map_of (mGeofences (act_all PauseGf as s)) = (\<lambda>h. if \<exists>a\<in>set as. snd (snd a) = LOCATION_ERROR_SUCCESS \<and> fst (snd a) = h
     then map_option (\<lambda>ob. ob\<lparr>obj_paused := True\<rparr>) (map_of (mGeofences s) h) else map_of (mGeofences s) h)"
proof (induction as arbitrary: s)
  case (Cons a as)
  let ?h = "fst (snd a)"
  define t where "t = act PauseGf ?h (snd (snd a)) s"
  have sm: "smap_ok (mGeofences s)" using Cons.prems by (simp add: gf_tables_ok_def)
  have ok: "gf_tables_ok t" using with_item_tables[OF Cons.prems] Cons.prems by (simp add: t_def act_def pauseGeofenceItem_def)
  have ids: "mGeofenceIds t = mGeofenceIds s" by (simp add: t_def act_def pauseGeofenceItem_def with_item_def split: option.splits)
  have gfs: "map_of (mGeofences t) h = (if snd (snd a) = LOCATION_ERROR_SUCCESS \<and> ?h = h
      then map_option (\<lambda>ob. ob\<lparr>obj_paused := True\<rparr>) (map_of (mGeofences s) h) else map_of (mGeofences s) h)" for h
    using sm by (auto simp: t_def act_def pauseGeofenceItem_def with_item_def sm.find_put split: option.splits)
  have two: "map_option (\<lambda>ob. ob\<lparr>obj_paused := True\<rparr>) (map_option (\<lambda>ob. ob\<lparr>obj_paused := True\<rparr>) x) =
      map_option (\<lambda>ob. ob\<lparr>obj_paused := True\<rparr>) (x :: GeofenceObject option)" for x by (cases x) simp_all
  have "act_all PauseGf (a # as) s = act_all PauseGf as t" by (simp add: t_def)
  then show ?case using Cons.IH[OF ok] ids by (auto simp: fun_eq_iff gfs two)
qed simp

lemma command_still:
  assumes "a \<in> set (item_answers modem m client ids s (known_items client ids s (length ids)))"
  shows "still client ids a s"
proof -
  have "\<exists>h. hw_of client ids s (fst a) = Some h"
    using assms known_items_iff[of "fst a" client ids s "length ids"]
    by (metis (no_types) image_eqI item_answers_fst not_None_eq set_map)
  moreover have "fst (snd a) = the (hw_of client ids s (fst a))"
    using assms by (auto simp: item_answers_def)
  ultimately show ?thesis by (auto simp: still_def hw_of_def getHwIdFromClient_def answer_key_def)
qed

text \<open>The tables after all the answers of a command.\<close>

lemma command_tables:
  assumes cmd: "cmd \<in> {RemoveGf, PauseGf}" and ks: "ks = known_items client ids s (length ids)"
    and as: "as = item_answers modem n client ids s ks" and s': "s' = with_batch b None (act_all cmd as (started s))"
    and ok: "gf_tables_ok s"
  shows "gf_tables_ok s'"
    "map_of (mGeofenceIds s') key = (if cmd = RemoveGf \<and> (\<exists>j<length ks. key = GeofenceKey client (ids ! (ks ! j)) \<and>
       fst (modem (n + j)) = LOCATION_ERROR_SUCCESS) then None else map_of (mGeofenceIds s) key)"
    "map_of (mGeofences s') h = (if \<exists>j<length ks. getHwIdFromClient client (ids ! (ks ! j)) s = Some h \<and>
       fst (modem (n + j)) = LOCATION_ERROR_SUCCESS
     then (if cmd = RemoveGf then None else map_option (\<lambda>ob. ob\<lparr>obj_paused := True\<rparr>) (map_of (mGeofences s) h))
     else map_of (mGeofences s) h)"
proof -
  have eq: "gf_tables_ok (started s) = gf_tables_ok s" "still client ids a (started s) = still client ids a s"
    "gf_tables_ok (with_batch b None t) = gf_tables_ok t" for a b t
    by (simp_all add: gf_tables_ok_def still_def)
  have st: "\<forall>a\<in>set as. still client ids a (started s)" using command_still eq by (auto simp: as ks)
  have hw: "the (hw_of client ids s (ks ! j)) = h \<longleftrightarrow> getHwIdFromClient client (ids ! (ks ! j)) s = Some h" if "j < length ks" for j h
  proof -
    have "ks ! j \<in> set ks" using that by simp
    then show ?thesis unfolding ks known_items_iff by (auto simp: hw_of_def)
  qed
  have key: "(\<exists>a\<in>set as. snd (snd a) = LOCATION_ERROR_SUCCESS \<and> key = answer_key client ids a) \<longleftrightarrow>
      (\<exists>j<length ks. key = GeofenceKey client (ids ! (ks ! j)) \<and> fst (modem (n + j)) = LOCATION_ERROR_SUCCESS)" for key
    unfolding as bex_item_answers by (auto simp: answer_key_def)
  have num: "(\<exists>a\<in>set as. snd (snd a) = LOCATION_ERROR_SUCCESS \<and> fst (snd a) = h) \<longleftrightarrow>
      (\<exists>j<length ks. getHwIdFromClient client (ids ! (ks ! j)) s = Some h \<and> fst (modem (n + j)) = LOCATION_ERROR_SUCCESS)" for h
    unfolding as bex_item_answers using hw by auto
  have r: "gf_tables_ok s' \<and> map_of (mGeofenceIds s') key = (if cmd = RemoveGf \<and> (\<exists>a\<in>set as. snd (snd a) = LOCATION_ERROR_SUCCESS \<and>
      key = answer_key client ids a) then None else map_of (mGeofenceIds s) key) \<and>
    map_of (mGeofences s') h = (if \<exists>a\<in>set as. snd (snd a) = LOCATION_ERROR_SUCCESS \<and> fst (snd a) = h
     then (if cmd = RemoveGf then None else map_option (\<lambda>ob. ob\<lparr>obj_paused := True\<rparr>) (map_of (mGeofences s) h))
     else map_of (mGeofences s) h)" for key h
  proof (cases "cmd = RemoveGf")
    case True
    with act_all_remove[OF _ st] ok eq show ?thesis by (auto simp: s')
  next
    case False
    with cmd have "cmd = PauseGf" by simp
    with act_all_pause[of "started s" as] ok eq show ?thesis by (auto simp: s')
  qed
  show "gf_tables_ok s'"
    "map_of (mGeofenceIds s') key = (if cmd = RemoveGf \<and> (\<exists>j<length ks. key = GeofenceKey client (ids ! (ks ! j)) \<and>
       fst (modem (n + j)) = LOCATION_ERROR_SUCCESS) then None else map_of (mGeofenceIds s) key)"
    "map_of (mGeofences s') h = (if \<exists>j<length ks. getHwIdFromClient client (ids ! (ks ! j)) s = Some h \<and>
       fst (modem (n + j)) = LOCATION_ERROR_SUCCESS
     then (if cmd = RemoveGf then None else map_option (\<lambda>ob. ob\<lparr>obj_paused := True\<rparr>) (map_of (mGeofences s) h))
     else map_of (mGeofences s) h)"
    using r[of key h] unfolding key num by simp_all
qed

section \<open>Properties\<close>

text \<open>
  Once the modem's capabilities are known, the schedule of the two threads is irrelevant: if
  some schedule works off both queues, then no schedule runs into undefined behaviour, and all
  schedules that work them off leave the same adapter and have made the same callbacks in the same
  order, whatever commands, restarts and reports are in the queue and whatever the modem answers.
\<close>

theorem geofence_schedule_irrelevant:
  assumes "settled (adapter y)" "gf_run eng modem sched y = Some y'" "drained y'"
  shows "\<exists>y''. gf_run eng modem sched2 y = Some y'' \<and>
    (drained y'' \<longrightarrow> adapter y'' = adapter y' \<and> callbacks_made y'' = callbacks_made y')"
  using schedules_agree[OF assms, of sched2] by (cases "gf_run eng modem sched2 y") auto

text \<open>
  C30. A remove or pause command whose last identifier is known, given to an idle adapter: some
  schedule works it off and every one that does makes exactly one callback, the client's collective
  response, with one result per identifier: ID_UNKNOWN for those not in the table, and for the
  others, in their order, the modem's answers. The arrays of the command are freed. If the tables were
  consistent they still are; after a remove exactly the geofences whose removal the modem confirmed are
  gone from both tables and nothing else has changed, and after a pause exactly the geofences whose pause
  the modem confirmed are marked as paused, and everything else in the tables is as before.
\<close>

theorem geofence_command_correct:
  assumes cmd: "cmd \<in> {RemoveGf, PauseGf}" and y: "settled (adapter y)" "drained y"
    and ids: "ids \<noteq> []" "getHwIdFromClient client (last ids) (adapter y) \<noteq> None"
    and cl: "map_of (mClientData (adapter y)) client = Some c" "collectiveResponseCb c"
    and ks: "ks = filter (\<lambda>i. getHwIdFromClient client (ids ! i) (adapter y) \<noteq> None) [0..<length ids]"
  shows "(\<exists>sched y'. gf_run eng modem sched (geofencesCommand cmd client ids options y) = Some y' \<and> drained y') \<and>
    (\<forall>sched y'. gf_run eng modem sched (geofencesCommand cmd client ids options y) = Some y' \<and> drained y' \<longrightarrow>
      (\<exists>errs. callbacks_made y' = callbacks_made y @ [CollectiveResponse client errs ids] \<and>
         length errs = length ids \<and>
         (\<forall>i<length ids. getHwIdFromClient client (ids ! i) (adapter y) = None \<longrightarrow> errs ! i = Some LOCATION_ERROR_ID_UNKNOWN) \<and>
         (\<forall>j<length ks. errs ! (ks ! j) = Some (fst (modem (calls_done y + length ids + j))))) \<and>
      batches (adapter y') = (batches (adapter y))(next_batch (adapter y) := None) \<and>
      (gf_tables_ok (adapter y) \<longrightarrow> gf_tables_ok (adapter y') \<and>
        (\<forall>key. map_of (mGeofenceIds (adapter y')) key =
          (if cmd = RemoveGf \<and> (\<exists>j<length ks. key = GeofenceKey client (ids ! (ks ! j)) \<and>
             fst (modem (calls_done y + length ids + j)) = LOCATION_ERROR_SUCCESS)
           then None else map_of (mGeofenceIds (adapter y)) key)) \<and>
        (\<forall>h. map_of (mGeofences (adapter y')) h =
          (if \<exists>j<length ks. getHwIdFromClient client (ids ! (ks ! j)) (adapter y) = Some h \<and>
             fst (modem (calls_done y + length ids + j)) = LOCATION_ERROR_SUCCESS
           then (if cmd = RemoveGf then None else map_option (\<lambda>ob. ob\<lparr>obj_paused := True\<rparr>) (map_of (mGeofences (adapter y)) h))
           else map_of (mGeofences (adapter y)) h))))"
proof -
  let ?y = "geofencesCommand cmd client ids options y" let ?s = "adapter y"
  have ks': "ks = known_items client ids ?s (length ids)" by (simp add: ks known_items_def hw_of_def)
  have lst: "hw_of client ids ?s (length ids - 1) \<noteq> None" using ids by (simp add: hw_of_def last_conv_nth)
  define as where "as = item_answers modem (calls_done y + length ids) client ids ?s ks"
  define es where "es = errs_all as (map (looked_up client ids ?s) [0..<length ids])"
  define s' where "s' = with_batch (next_batch ?s) None (act_all cmd as (started ?s))"
  have st: "settled (adapter ?y)" using y(1) by (simp add: geofencesCommand_def)
  have rep: "reportResponse client es ids ?s = [CollectiveResponse client es ids]" for es
    using cl by (simp add: reportResponse_def)
  obtain k where k: "line_run eng modem k (line_of modem ?y) = Some
    \<lparr>l_state = s', l_queue = [], l_calls = calls_done y + length ids + length as,
     l_out = callbacks_made y @ [CollectiveResponse client es ids]\<rparr>" (is "_ = Some ?l")
    using command_line[OF cmd y(2) ids(1) lst as_def[unfolded ks'], of eng options] rep
    unfolding s'_def es_def by auto
  have ex: "\<exists>sched y'. gf_run eng modem sched ?y = Some y' \<and> drained y'"
    using line_schedule[OF st k] by simp
  have fin: "adapter y' = s' \<and> callbacks_made y' = callbacks_made y @ [CollectiveResponse client es ids]"
    if run: "gf_run eng modem sched ?y = Some y'" and dr: "drained y'" for sched y'
    using drained_end[OF st k _ run dr] by (simp add: line_of_def)
  note errs = command_errs[OF as_def[unfolded ks'] es_def]
  have bat: "batches s' = (batches ?s)(next_batch ?s := None)"
    by (simp add: s'_def with_batch_def act_all_batches) (simp add: started_def)
  note tab = command_tables[OF cmd ks' as_def s'_def]
  show ?thesis using ex fin errs bat tab by (auto simp: hw_of_def ks')
qed

text \<open>
  C32. A remove or pause command with a known identifier and an unknown one in the last place is
  always a use after free: the unknown last item sends the response and deletes the arrays when it
  comes back from the call queue, before any answer of the modem; the first answer then writes into
  the deleted array. No schedule of the threads works the command off, and some schedule is
  undefined, whatever the modem answers.
\<close>

theorem geofence_unknown_last_is_use_after_free:
  assumes cmd: "cmd \<in> {RemoveGf, PauseGf}" and y: "settled (adapter y)" "drained y"
    and ids: "ids \<noteq> []" "getHwIdFromClient client (last ids) (adapter y) = None"
    and some_known: "g \<in> set ids" "getHwIdFromClient client g (adapter y) \<noteq> None"
  shows "(\<exists>sched. gf_run eng modem sched (geofencesCommand cmd client ids options y) = None) \<and>
    (\<forall>sched y'. gf_run eng modem sched (geofencesCommand cmd client ids options y) = Some y' \<longrightarrow> \<not> drained y')"
proof -
  let ?y = "geofencesCommand cmd client ids options y"
  obtain k where k: "line_run eng modem k (line_of modem ?y) = None"
    using command_freed[OF cmd y(2) ids] some_known by blast
  have st: "settled (adapter ?y)" using y(1) by (simp add: geofencesCommand_def)
  have "\<not> drained y'" if run: "gf_run eng modem sched ?y = Some y'" for sched y'
  proof
    assume "drained y'"
    then have "l_queue (line_of modem y') = []" by (simp add: drained_line[of _ modem])
    moreover obtain j where "line_run eng modem j (line_of modem ?y) = Some (line_of modem y')"
      using run_line[OF st, of eng modem sched] unfolding run by auto
    ultimately show False using line_run_defined[of eng modem j "line_of modem ?y" "line_of modem y'" k] k by simp
  qed
  moreover have "\<exists>sched. gf_run eng modem sched ?y = None"
    using schedule_exists[OF st, of eng modem k] k by auto
  ultimately show ?thesis by blast
qed

text \<open>One identifier that is known: the line of the command.\<close>

lemma single_command_line:
  assumes y: "drained y" and g: "getHwIdFromClient client g (adapter y) = Some h"
    and cmd: "cmd \<in> {ResumeGf, ModifyGf}" and err: "fst (modem (Suc (calls_done y))) \<noteq> LOCATION_ERROR_SUCCESS"
    and cl: "map_of (mClientData (adapter y)) client = Some c" "collectiveResponseCb c"
  shows "\<exists>k l. line_run eng modem k (line_of modem (geofencesCommand cmd client [g] (Some [op]) y)) = Some l \<and>
    l_queue l = [] \<and> mGeofences (l_state l) = mGeofences (adapter y) \<and>
    l_out l = callbacks_made y @ (if cmd = ModifyGf then [CollectiveResponse client [Some LOCATION_ERROR_SUCCESS] [g]] else []) \<and>
    (batches (l_state l) (next_batch (adapter y)) \<noteq> None) = (cmd = ResumeGf)"
proof -
  from y have q: "adapter_queue y = []" "api_queue y = []" by (simp_all add: drained_def)
  from g have m: "map_of (mGeofenceIds (adapter y)) (GeofenceKey client g) = Some h" by (simp add: getHwIdFromClient_def)
  note defs = line_of_def geofencesCommand_def line_step_def start_batch_def item_queued_def getHwIdFromClient_def
    set_err_def item_answered_def resume_answered_def modify_answered_def finish_if_last_def finish_batch_def reportResponse_def
  from cmd show ?thesis
  proof (elim insertE emptyE)
    assume "cmd = ResumeGf"
    then show ?thesis using q m err cl
      by (intro exI[of _ "Suc (Suc (Suc 0))"]) (simp add: defs Let_def)
  next
    assume "cmd = ModifyGf"
    then show ?thesis using q m err cl
      by (intro exI[of _ "Suc (Suc (Suc 0))"]) (simp add: defs Let_def)
  qed
qed

text \<open>
  When the modem refuses to resume or to modify a geofence that the client named in a command of
  its own, a failed resume is never answered at all and its arrays are never freed, and a failed
  modify is reported to the client as a success although the adapter's table is unchanged. This
  holds for every schedule that works the command off, and there is one.
\<close>

theorem geofence_failures_hidden:
  assumes y: "settled (adapter y)" "drained y" and g: "getHwIdFromClient client g (adapter y) = Some h"
    and cmd: "cmd \<in> {ResumeGf, ModifyGf}" and err: "fst (modem (Suc (calls_done y))) \<noteq> LOCATION_ERROR_SUCCESS"
    and cl: "map_of (mClientData (adapter y)) client = Some c" "collectiveResponseCb c"
  shows "(\<exists>sched y'. gf_run eng modem sched (geofencesCommand cmd client [g] (Some [op]) y) = Some y' \<and> drained y') \<and>
    (\<forall>sched y'. gf_run eng modem sched (geofencesCommand cmd client [g] (Some [op]) y) = Some y' \<and> drained y' \<longrightarrow>
      mGeofences (adapter y') = mGeofences (adapter y) \<and>
      callbacks_made y' = callbacks_made y @
        (if cmd = ModifyGf then [CollectiveResponse client [Some LOCATION_ERROR_SUCCESS] [g]] else []) \<and>
      (batches (adapter y') (next_batch (adapter y)) \<noteq> None) = (cmd = ResumeGf))"
proof -
  let ?y = "geofencesCommand cmd client [g] (Some [op]) y"
  have st: "settled (adapter ?y)" using y(1) by (simp add: geofencesCommand_def)
  obtain k l where k: "line_run eng modem k (line_of modem ?y) = Some l" "l_queue l = []"
    and l: "mGeofences (l_state l) = mGeofences (adapter y)"
      "l_out l = callbacks_made y @ (if cmd = ModifyGf then [CollectiveResponse client [Some LOCATION_ERROR_SUCCESS] [g]] else [])"
      "(batches (l_state l) (next_batch (adapter y)) \<noteq> None) = (cmd = ResumeGf)"
    using single_command_line[where modem = modem and eng = eng and op = op, OF y(2) g cmd err cl] by blast
  have "adapter y' = l_state l \<and> callbacks_made y' = l_out l"
    if run: "gf_run eng modem sched ?y = Some y'" and dr: "drained y'" for sched y'
    using drained_end[OF st k run dr] by (auto simp: line_of_def)
  then show ?thesis using line_schedule[OF st k] l by metis
qed

section \<open>Witnesses\<close>

definition demo_engine :: engine_support where
  "demo_engine = \<lparr>isMessageSupported = (\<lambda>_. False), isFeatureSupported = (\<lambda>_. False),
     gnssConstellationConfig = False, getCarrierCapabilities = 0\<rparr>"

definition demo_object :: "u32 \<Rightarrow> GeofenceObject" where
  "demo_object i = \<lparr>obj_key = GeofenceKey 7 i, obj_breachMask = 3, obj_responsiveness = 1000, obj_dwellTime = 0,
     obj_latitude = 0, obj_longitude = 0, obj_radius = 0, obj_paused = False\<rparr>"

text \<open>Client 7 has the geofences 2 and 3, number 100 and 101 of the modem.\<close>

definition demo_gf :: gf_system where
  "demo_gf = \<lparr>adapter = \<lparr>mClientData = [(7, no_callbacks\<lparr>collectiveResponseCb := True\<rparr>)], mEvtMask = 0,
       mIsEngineCapabilitiesKnown = True, mPendingMsgs = [],
       mGeofences = [(100, demo_object 2), (101, demo_object 3)],
       mGeofenceIds = [(GeofenceKey 7 2, 100), (GeofenceKey 7 3, 101)],
       batches = (\<lambda>_. None), next_batch = 0\<rparr>,
     adapter_queue = [], api_queue = [], calls_done = 0, callbacks_made = []\<rparr>"

definition demo_modem :: "nat \<Rightarrow> LocationError \<times> u32" where
  "demo_modem n = (if n = 4 then LOCATION_ERROR_SUCCESS else LOCATION_ERROR_GENERAL_FAILURE, 0)"

lemma demo_facts:
  "settled (adapter demo_gf)" "drained demo_gf"
  "map_of (mClientData (adapter demo_gf)) 7 = Some (no_callbacks\<lparr>collectiveResponseCb := True\<rparr>)"
  "getHwIdFromClient 7 2 (adapter demo_gf) = Some 100" "getHwIdFromClient 7 3 (adapter demo_gf) = Some 101"
  "getHwIdFromClient 7 9 (adapter demo_gf) = None" "gf_tables_ok (adapter demo_gf)"
  "calls_done demo_gf = 0" "callbacks_made demo_gf = []" "next_batch (adapter demo_gf) = 0"
  by (auto simp: settled_def drained_def demo_gf_def getHwIdFromClient_def gf_tables_ok_def smap_ok_def demo_object_def
      less_GeofenceKey_def key_less_def split: if_splits)

theorem geofence_schedule_irrelevant_witness:
  "\<exists>y''. gf_run demo_engine demo_modem [ApiThread, AdapterThread]
      (demo_gf\<lparr>adapter_queue := [MsgGeofenceStatus True]\<rparr>) = Some y'' \<and>
    (drained y'' \<longrightarrow> adapter y'' = adapter demo_gf \<and> callbacks_made y'' = [])"
proof -
  let ?y = "demo_gf\<lparr>adapter_queue := [MsgGeofenceStatus True]\<rparr>"
  have r: "gf_run demo_engine demo_modem [AdapterThread] ?y = Some demo_gf"
    by (simp add: gf_step_def geofenceStatus_def demo_gf_def no_callbacks_def)
  have "settled (adapter ?y)" using demo_facts(1) by simp
  from geofence_schedule_irrelevant[OF this r demo_facts(2), of "[ApiThread, AdapterThread]"]
  show ?thesis unfolding demo_facts(9) .
qed

theorem geofence_command_correct_witness:
  "\<exists>sched y' errs. gf_run demo_engine demo_modem sched (geofencesCommand RemoveGf 7 [9, 2, 3] None demo_gf) = Some y' \<and>
     callbacks_made y' = [CollectiveResponse 7 errs [9, 2, 3]] \<and> errs ! 0 = Some LOCATION_ERROR_ID_UNKNOWN \<and>
     map_of (mGeofenceIds (adapter y')) (GeofenceKey 7 3) = None \<and> map_of (mGeofences (adapter y')) 101 = None"
proof -
  have ks: "[1, 2] = filter (\<lambda>i. getHwIdFromClient 7 ([9, 2, 3] ! i) (adapter demo_gf) \<noteq> None) [0..<length [9, 2, 3 :: u32]]"
    using demo_facts(4-6) by (simp add: upt_rec)
  have p: "RemoveGf \<in> {RemoveGf, PauseGf}" "[9, 2, 3 :: u32] \<noteq> []"
    "getHwIdFromClient 7 (last [9, 2, 3]) (adapter demo_gf) \<noteq> None" "collectiveResponseCb (no_callbacks\<lparr>collectiveResponseCb := True\<rparr>)"
    using demo_facts(5) by simp_all
  note correct = geofence_command_correct[OF p(1) demo_facts(1,2) p(2,3) demo_facts(3) p(4) ks, of demo_engine demo_modem None]
  from conjunct1[OF correct] obtain sched y' where
    r: "gf_run demo_engine demo_modem sched (geofencesCommand RemoveGf 7 [9, 2, 3] None demo_gf) = Some y'" "drained y'"
    by blast
  note fin = conjunct2[OF correct, rule_format, OF conjI[OF r]]
  from fin obtain errs where e: "callbacks_made y' = [CollectiveResponse 7 errs [9, 2, 3]]"
    "\<forall>i<length [9, 2, 3 :: u32]. getHwIdFromClient 7 ([9, 2, 3] ! i) (adapter demo_gf) = None \<longrightarrow> errs ! i = Some LOCATION_ERROR_ID_UNKNOWN"
    unfolding demo_facts(9) append_Nil by blast
  have "errs ! 0 = Some LOCATION_ERROR_ID_UNKNOWN" using e(2) demo_facts(6) by force
  moreover have "map_of (mGeofenceIds (adapter y')) (GeofenceKey 7 3) = None"
    using fin demo_facts(7,8) by (simp add: demo_modem_def numeral_eq_Suc)
  moreover have "map_of (mGeofences (adapter y')) 101 = None"
  proof -
    have "\<exists>j<length [1, 2 :: nat]. getHwIdFromClient 7 ([9, 2, 3] ! ([1, 2] ! j)) (adapter demo_gf) = Some 101 \<and>
       fst (demo_modem (calls_done demo_gf + length [9, 2, 3 :: u32] + j)) = LOCATION_ERROR_SUCCESS"
      using demo_facts(5,8) by (intro exI[of _ 1]) (simp add: demo_modem_def)
    then show ?thesis using fin demo_facts(7) by simp
  qed
  ultimately show ?thesis using r e(1) by blast
qed

theorem geofence_unknown_last_is_use_after_free_witness:
  "\<exists>sched. gf_run demo_engine demo_modem sched (geofencesCommand RemoveGf 7 [2, 9] None demo_gf) = None"
  using geofence_unknown_last_is_use_after_free[of RemoveGf demo_gf "[2, 9]" 7 2 demo_engine demo_modem None]
    demo_facts by simp

theorem geofence_failures_hidden_witness:
  "\<exists>sched y'. gf_run demo_engine demo_modem sched (geofencesCommand ModifyGf 7 [2] (Some [object_option (demo_object 2)]) demo_gf) = Some y' \<and>
     callbacks_made y' = [CollectiveResponse 7 [Some LOCATION_ERROR_SUCCESS] [2]]"
  using geofence_failures_hidden[where modem = demo_modem and eng = demo_engine and cmd = ModifyGf
      and op = "object_option (demo_object 2)", OF demo_facts(1,2,4) _ _ demo_facts(3)] demo_facts(8,9)
  by (auto simp: demo_modem_def)

end
