(* ===== verification/SetMap.thy ===== *)
theory SetMap
  imports StdMap
begin

text \<open>
  The map of sets of \<open>gps/utils/LocUnorderedSetMap.h\<close>, which the observer of the system status keeps
  its subscriptions in. An \<open>unordered_set\<close> is a list without duplicates and an \<open>unordered_map\<close> an
  ordered list of pairs: the order in which the code traverses these containers is not specified,
  and is here that of the lists; what is proved speaks of the sets of elements only.

  Two functions read an element after they have erased it: \<open>removeAndReturnInterset\<close> advances an
  erased iterator, and \<open>trimOrRemove\<close> takes the key from one. The language leaves this undefined.
  The argument \<open>stale\<close> says what the memory of an erased node gives: with \<open>False\<close> the access is
  undefined and the result \<open>None\<close>; with \<open>True\<close> the node still holds what it held, which is what an
  allocator gives that does not reuse the memory at once.
\<close>

section \<open>Operations on sets\<close>

fun trimSet :: "'v list \<Rightarrow> 'v list \<Rightarrow> 'v list option \<Rightarrow> 'v list \<times> 'v list option" where
  "trimSet fromSet [] goneVals = (fromSet, goneVals)"
| "trimSet fromSet (v # rVals) goneVals =
     (if v \<in> set fromSet then trimSet (removeAll v fromSet) rVals (map_option (List.insert v) goneVals)
      else trimSet fromSet rVals goneVals)"

fun interset_loop :: "bool \<Rightarrow> 'v list \<Rightarrow> 'v list \<Rightarrow> 'v list \<Rightarrow> 'v list
    \<Rightarrow> ('v list \<times> 'v list \<times> 'v list) option" where
  "interset_loop stale [] s1 s2 common = Some (common, s1, s2)"
| "interset_loop stale (b # bs) s1 s2 common =
     (if b \<in> set s1
      then (if stale
            then interset_loop stale bs (removeAll b s1) (removeAll b s2) (List.insert b common)
            else None)
      else interset_loop stale bs s1 s2 common)"

definition removeAndReturnInterset ::
  "bool \<Rightarrow> 'v list \<Rightarrow> 'v list \<Rightarrow> ('v list \<times> 'v list \<times> 'v list) option" where
  "removeAndReturnInterset stale s1 s2 = interset_loop stale s2 s1 s2 []"

section \<open>The map\<close>

type_synonym ('k, 'v) setmap = "('k \<times> 'v list) list"

definition setmap_empty :: "('k, 'v) setmap \<Rightarrow> bool" where
  "setmap_empty m \<longleftrightarrow> m = []"

definition getValSetPtr :: "'k \<Rightarrow> ('k, 'v) setmap \<Rightarrow> 'v list option" where
  "getValSetPtr key m = map_of m key"

definition getValSet :: "'k \<Rightarrow> ('k, 'v) setmap \<Rightarrow> 'v list" where
  "getValSet key m = (case map_of m key of Some vals \<Rightarrow> vals | None \<Rightarrow> [])"

definition getKeys :: "('k, 'v) setmap \<Rightarrow> 'k list" where
  "getKeys m = fold (\<lambda>entry keys. List.insert (fst entry) keys) m []"

definition setmap_remove :: "'k \<Rightarrow> ('k, 'v) setmap \<Rightarrow> bool \<times> ('k, 'v) setmap" where
  "setmap_remove key m = (map_of m key \<noteq> None, sm_erase key m)"

text \<open>The private \<open>trimOrRemove\<close>, on the entry an iterator points to.\<close>

definition trim_entry :: "'k::linorder \<Rightarrow> 'v list \<Rightarrow> 'v list \<Rightarrow> 'v list option \<Rightarrow> ('k, 'v) setmap
    \<Rightarrow> bool \<times> 'v list option \<times> ('k, 'v) setmap" where
  "trim_entry key vals rVals goneVals m =
     (let (vals, goneVals) = trimSet vals rVals goneVals in
      if vals = [] then (True, goneVals, sm_erase key m) else (False, goneVals, sm_put key vals m))"

fun trimOrRemove :: "bool \<Rightarrow> 'k::linorder list \<Rightarrow> 'v list \<Rightarrow> 'k list option \<Rightarrow> 'v list option \<Rightarrow> ('k, 'v) setmap
    \<Rightarrow> ('k list option \<times> 'v list option \<times> ('k, 'v) setmap) option" where
  "trimOrRemove stale [] rVals goneKeys goneVals m = Some (goneKeys, goneVals, m)"
| "trimOrRemove stale (key # keys) rVals goneKeys goneVals m = (case map_of m key of
     None \<Rightarrow> trimOrRemove stale keys rVals goneKeys goneVals m
   | Some vals \<Rightarrow>
       (let (removed, goneVals, m) = trim_entry key vals rVals goneVals m in
        if removed \<and> goneKeys \<noteq> None
        then (if stale then trimOrRemove stale keys rVals (map_option (List.insert key) goneKeys) goneVals m
              else None)
        else trimOrRemove stale keys rVals goneKeys goneVals m))"

definition setmap_add :: "'k::linorder \<Rightarrow> 'v list \<Rightarrow> ('k, 'v) setmap \<Rightarrow> bool \<times> ('k, 'v) setmap" where
  "setmap_add key newVals m =
     (if newVals = [] then (False, m)
      else (case map_of m key of
        Some vals \<Rightarrow> (False, sm_put key (fold List.insert newVals vals) m)
      | None \<Rightarrow> (True, sm_put key newVals m)))"

fun add_keys :: "'k::linorder list \<Rightarrow> 'v list \<Rightarrow> 'k list option \<Rightarrow> ('k, 'v) setmap
    \<Rightarrow> 'k list option \<times> ('k, 'v) setmap" where
  "add_keys [] newVals newKeys m = (newKeys, m)"
| "add_keys (key # keys) newVals newKeys m =
     (let (added, m) = setmap_add key newVals m in
      add_keys keys newVals (if added then map_option (List.insert key) newKeys else newKeys) m)"

text \<open>The result, what is left of \<open>newVals\<close>, and the map.\<close>

definition setmap_update :: "bool \<Rightarrow> 'k::linorder \<Rightarrow> 'v list \<Rightarrow> ('k, 'v) setmap
    \<Rightarrow> ('v list \<times> 'v list \<times> ('k, 'v) setmap) option" where
  "setmap_update stale key newVals m =
     (if newVals = [] then Some ([], newVals, sm_erase key m)
      else do {
        let curVals = getValSet key m;
        let m = sm_put key newVals m;
        (goneVals, curVals, newVals) \<leftarrow> removeAndReturnInterset stale curVals newVals;
        Some (goneVals, newVals, m)
      })"

section \<open>The relation a map stands for\<close>

definition setmap_ok :: "('k::linorder, 'v) setmap \<Rightarrow> bool" where
  "setmap_ok m \<longleftrightarrow> smap_ok m \<and> (\<forall>k vs. map_of m k = Some vs \<longrightarrow> vs \<noteq> [] \<and> distinct vs)"

definition setmap_rel :: "('k, 'v) setmap \<Rightarrow> ('k \<times> 'v) set" where
  "setmap_rel m = {(k, v). \<exists>vs. map_of m k = Some vs \<and> v \<in> set vs}"

text \<open>
  What a client of such a map may rely on: adding and trimming act on the relation, the keys that are
  reported as new or as gone are those that enter or leave its domain.
\<close>

locale relation_map =
  fixes rel :: "'m \<Rightarrow> ('k \<times> 'v) set"
    and ok :: "'m \<Rightarrow> bool"
    and add :: "'k list \<Rightarrow> 'v list \<Rightarrow> 'm \<Rightarrow> 'k list \<times> 'm"
    and trim :: "'k list \<Rightarrow> 'v list \<Rightarrow> 'm \<Rightarrow> ('k list \<times> 'v list \<times> 'm) option"
  assumes add_ok: "ok m \<Longrightarrow> distinct vs \<Longrightarrow> ok (snd (add ks vs m))"
    and add_rel: "ok m \<Longrightarrow> distinct vs \<Longrightarrow> rel (snd (add ks vs m)) = rel m \<union> set ks \<times> set vs"
    and add_new: "ok m \<Longrightarrow> distinct vs \<Longrightarrow> vs \<noteq> [] \<Longrightarrow> set (fst (add ks vs m)) = set ks - Domain (rel m)"
    and trim_some: "ok m \<Longrightarrow> \<exists>gk gv m'. trim ks vs m = Some (gk, gv, m') \<and> ok m' \<and>
      rel m' = rel m - set ks \<times> set vs \<and> set gk = Domain (rel m) - Domain (rel m') \<and>
      set gv = (rel m `` set ks) \<inter> set vs"

text \<open>
  Two such maps that are kept as each other's converse, one from clients to items and one from items
  to clients: the three ways of changing both keep them so, and report the items that get their
  first client or lose their last one.
\<close>

locale subscriptions =
  fwd: relation_map crel cok cadd ctrim + bwd: relation_map irel iok iadd itrim
  for crel :: "'m \<Rightarrow> ('c \<times> 'i) set" and cok cadd ctrim
    and irel :: "'n \<Rightarrow> ('i \<times> 'c) set" and iok iadd itrim
begin

lemma subscribe_both:
  assumes "cok a" "iok b" "irel b = (crel a)\<inverse>" "distinct is"
  shows "cok (snd (cadd [c] is a)) \<and> iok (snd (iadd is [c] b)) \<and>
    crel (snd (cadd [c] is a)) = crel a \<union> {c} \<times> set is \<and>
    irel (snd (iadd is [c] b)) = (crel (snd (cadd [c] is a)))\<inverse> \<and>
    set (fst (iadd is [c] b)) = Range (crel (snd (cadd [c] is a))) - Range (crel a)"
  using assms by (auto simp: fwd.add_ok fwd.add_rel bwd.add_ok bwd.add_rel bwd.add_new)

lemma drop_both:
  assumes "cok a" "iok b" "irel b = (crel a)\<inverse>" "crel a' = crel a - {c} \<times> D" "set is = crel a `` {c} \<inter> D"
  shows "\<exists>gk gv b'. itrim is [c] b = Some (gk, gv, b') \<and> iok b' \<and> irel b' = (crel a')\<inverse> \<and>
    set gk = Range (crel a) - Range (crel a')"
proof -
  from bwd.trim_some[OF assms(2), of "is" "[c]"] obtain gk gv b' where
    t: "itrim is [c] b = Some (gk, gv, b')" "iok b'" "irel b' = irel b - set is \<times> {c}"
      "set gk = Domain (irel b) - Domain (irel b')" by auto
  from t(3) assms(3-5) have b': "irel b' = (crel a')\<inverse>" by auto
  with t(4) assms(3) have "set gk = Range (crel a) - Range (crel a')" by (simp only: Domain_converse)
  with t(1,2) b' show ?thesis by blast
qed

lemma unsubscribe_both:
  assumes "cok a" "iok b" "irel b = (crel a)\<inverse>"
  shows "\<exists>gc unused a' gone gv b'. ctrim [c] ds a = Some (gc, unused, a') \<and> itrim unused [c] b = Some (gone, gv, b') \<and>
    cok a' \<and> iok b' \<and> crel a' = crel a - {c} \<times> set ds \<and> irel b' = (crel a')\<inverse> \<and>
    set gone = Range (crel a) - Range (crel a')"
proof -
  from fwd.trim_some[OF assms(1), of "[c]" ds] obtain gc unused a' where
    t: "ctrim [c] ds a = Some (gc, unused, a')" "cok a'" "crel a' = crel a - {c} \<times> set ds"
      "set unused = crel a `` {c} \<inter> set ds" by auto
  from drop_both[OF assms t(3,4)] t show ?thesis by blast
qed

end

section \<open>The map implements the contract\<close>

lemma setmap_rel_put:
  "smap_ok m \<Longrightarrow> setmap_rel (sm_put k vs m) = {p \<in> setmap_rel m. fst p \<noteq> k} \<union> {k} \<times> set vs"
  by (auto simp: setmap_rel_def sm.find_put split: if_splits)

lemma setmap_rel_erase: "smap_ok m \<Longrightarrow> setmap_rel (sm_erase k m) = {p \<in> setmap_rel m. fst p \<noteq> k}"
  by (auto simp: setmap_rel_def sm.find_erase split: if_splits)

lemma setmap_rel_get: "map_of m k = Some vs \<Longrightarrow> setmap_rel m `` {k} = set vs"
  by (auto simp: setmap_rel_def)

lemma setmap_ok_put: "setmap_ok m \<Longrightarrow> vs \<noteq> [] \<Longrightarrow> distinct vs \<Longrightarrow> setmap_ok (sm_put k vs m)"
  by (auto simp: setmap_ok_def sm.put_ok sm.find_put split: if_splits)

lemma setmap_ok_erase: "setmap_ok m \<Longrightarrow> setmap_ok (sm_erase k m)"
  by (auto simp: setmap_ok_def sm.erase_ok sm.find_erase split: if_splits)

lemma setmap_domain: "setmap_ok m \<Longrightarrow> Domain (setmap_rel m) = dom (map_of m)"
  by (fastforce simp: setmap_ok_def setmap_rel_def intro: hd_in_set)

lemma setmap_okD: "setmap_ok m \<Longrightarrow> map_of m k = Some vs \<Longrightarrow> vs \<noteq> [] \<and> distinct vs"
  by (simp add: setmap_ok_def)

lemma setmap_ok_smap: "setmap_ok m \<Longrightarrow> smap_ok m"
  by (simp add: setmap_ok_def)

lemma getValSet_rel: "set (getValSet k m) = setmap_rel m `` {k}"
  by (cases "map_of m k") (auto simp: getValSet_def setmap_rel_def)

lemma distinct_insert_fold: "distinct s \<Longrightarrow> distinct (fold List.insert xs s)"
  by (induction xs arbitrary: s) auto

lemma set_insert_fold: "set (fold List.insert xs s) = set s \<union> set xs"
  by (induction xs arbitrary: s) auto

lemma set_getKeys: "set (getKeys m) = dom (map_of m)"
proof -
  have "set (fold (\<lambda>entry keys. List.insert (fst entry) keys) m ks) = set ks \<union> fst ` set m" for ks
    by (induction m arbitrary: ks) auto
  then show ?thesis by (simp add: getKeys_def dom_map_of_conv_image_fst)
qed

lemma trimSet_spec:
  "distinct from \<Longrightarrow> trimSet from rv gone = (from', gone') \<Longrightarrow>
   set from' = set from - set rv \<and> distinct from' \<and> (gone' = None) = (gone = None) \<and>
   (\<forall>g. gone = Some g \<longrightarrow> set (the gone') = set g \<union> set from \<inter> set rv)"
proof (induction "from" rv gone rule: trimSet.induct)
  case (2 "from" v rv gone)
  show ?case
  proof (cases "v \<in> set from")
    case True
    with 2 show ?thesis by (cases gone) (auto simp: distinct_removeAll)
  next
    case False
    with 2 show ?thesis by auto
  qed
qed auto

lemma setmap_add_spec:
  assumes "setmap_ok m" "distinct vs" "setmap_add k vs m = (added, m')"
  shows "setmap_ok m' \<and> setmap_rel m' = setmap_rel m \<union> {k} \<times> set vs \<and>
    (vs \<noteq> [] \<longrightarrow> added = (k \<notin> Domain (setmap_rel m)))"
proof (cases "vs = []")
  case False
  note sm = setmap_ok_smap[OF assms(1)]
  show ?thesis
  proof (cases "map_of m k")
    case None
    then have "k \<notin> Domain (setmap_rel m)" by (auto simp: setmap_rel_def)
    with None False assms sm show ?thesis by (auto simp: setmap_add_def setmap_ok_put setmap_rel_put)
  next
    case (Some ws)
    then have ws: "ws \<noteq> []" "distinct ws" "setmap_rel m `` {k} = set ws"
      using setmap_okD[OF assms(1)] setmap_rel_get[of m k ws] by auto
    let ?ws = "fold List.insert vs ws"
    have "?ws \<noteq> []" using ws(1) set_insert_fold[of vs ws] by fastforce
    moreover have "m' = sm_put k ?ws m" "\<not> added" using Some False assms(3) by (auto simp: setmap_add_def)
    moreover have "k \<in> Domain (setmap_rel m)" using Some setmap_domain[OF assms(1)] by auto
    ultimately show ?thesis using assms(1) sm ws
      by (auto simp: setmap_ok_put setmap_rel_put distinct_insert_fold set_insert_fold)
  qed
qed (use assms in \<open>auto simp: setmap_add_def\<close>)

lemma add_keys_spec:
  "setmap_ok m \<Longrightarrow> distinct vs \<Longrightarrow> add_keys ks vs nk m = (nk', m') \<Longrightarrow>
   setmap_ok m' \<and> setmap_rel m' = setmap_rel m \<union> set ks \<times> set vs \<and> (nk' = None) = (nk = None) \<and>
   (\<forall>g. nk = Some g \<and> vs \<noteq> [] \<longrightarrow> set (the nk') = set g \<union> (set ks - Domain (setmap_rel m)))"
proof (induction ks arbitrary: nk m)
  case (Cons k ks)
  obtain added m1 where a: "setmap_add k vs m = (added, m1)" by fastforce
  note s = setmap_add_spec[OF Cons.prems(1,2) a]
  from Cons.prems(3) a have "add_keys ks vs (if added then map_option (List.insert k) nk else nk) m1 = (nk', m')"
    by simp
  from Cons.IH[OF _ Cons.prems(2) this] s show ?case by (cases nk; cases added) auto
qed auto

lemma trim_entry_spec:
  assumes "setmap_ok m" "map_of m k = Some vals" "trim_entry k vals rv gv m = (removed, gv', m')"
  shows "setmap_ok m' \<and> setmap_rel m' = setmap_rel m - {k} \<times> set rv \<and> removed = (k \<notin> Domain (setmap_rel m')) \<and>
    (gv' = None) = (gv = None) \<and> (\<forall>g. gv = Some g \<longrightarrow> set (the gv') = set g \<union> setmap_rel m `` {k} \<inter> set rv)"
proof -
  obtain vs' g' where t: "trimSet vals rv gv = (vs', g')" by fastforce
  note v = setmap_okD[OF assms(1,2)] and sm = setmap_ok_smap[OF assms(1)] and r = setmap_rel_get[OF assms(2)]
  note s = trimSet_spec[OF conjunct2[OF v] t]
  have m': "m' = (if vs' = [] then sm_erase k m else sm_put k vs' m)" "removed = (vs' = [])" "gv' = g'"
    using assms(3) t by (auto simp: trim_entry_def split: if_splits)
  show ?thesis
  proof (cases "vs' = []")
    case True
    with s r have "setmap_rel m `` {k} \<subseteq> set rv" by auto
    with True m' s r sm assms(1) show ?thesis by (auto simp: setmap_ok_erase setmap_rel_erase)
  next
    case False
    then have "hd vs' \<in> set vs'" by simp
    with False m' s r sm assms(1) show ?thesis by (auto simp: setmap_ok_put setmap_rel_put)
  qed
qed

lemma trimOrRemove_spec:
  "setmap_ok m \<Longrightarrow> \<exists>gk' gv' m'. trimOrRemove True ks rv gk gv m = Some (gk', gv', m') \<and> setmap_ok m' \<and>
     setmap_rel m' = setmap_rel m - set ks \<times> set rv \<and> (gk' = None) = (gk = None) \<and> (gv' = None) = (gv = None) \<and>
     (\<forall>g. gk = Some g \<longrightarrow> set (the gk') = set g \<union> (Domain (setmap_rel m) - Domain (setmap_rel m'))) \<and>
     (\<forall>g. gv = Some g \<longrightarrow> set (the gv') = set g \<union> (setmap_rel m `` set ks) \<inter> set rv)"
proof (induction ks arbitrary: gk gv m)
  case (Cons k ks)
  show ?case
  proof (cases "map_of m k")
    case None
    then have "k \<notin> Domain (setmap_rel m)" by (auto simp: setmap_rel_def)
    then have "setmap_rel m `` (insert k S) = setmap_rel m `` S" "setmap_rel m - insert k S \<times> T = setmap_rel m - S \<times> T" for S T
      by auto
    with None Cons.IH[OF Cons.prems, of gk gv] show ?thesis by simp
  next
    case (Some vals)
    obtain removed g1 m1 where e: "trim_entry k vals rv gv m = (removed, g1, m1)" by (metis prod_cases3)
    note s = trim_entry_spec[OF Cons.prems Some e]
    let ?gk = "if removed \<and> gk \<noteq> None then map_option (List.insert k) gk else gk"
    have ok1: "setmap_ok m1" using s by simp
    obtain gk' gv' m' where
      r: "trimOrRemove True ks rv ?gk g1 m1 = Some (gk', gv', m')" "setmap_ok m'"
        "setmap_rel m' = setmap_rel m1 - set ks \<times> set rv" "(gk' = None) = (?gk = None)" "(gv' = None) = (g1 = None)"
        "\<forall>g. ?gk = Some g \<longrightarrow> set (the gk') = set g \<union> (Domain (setmap_rel m1) - Domain (setmap_rel m'))"
        "\<forall>g. g1 = Some g \<longrightarrow> set (the gv') = set g \<union> (setmap_rel m1 `` set ks) \<inter> set rv"
      using Cons.IH[OF ok1, of ?gk g1] by (elim exE conjE) (rule that)
    have step: "trimOrRemove True (k # ks) rv gk gv m = Some (gk', gv', m')"
      using r(1) Some e by (auto split: if_splits)
    have rel: "setmap_rel m' = setmap_rel m - set (k # ks) \<times> set rv" using r(3) s by auto
    have keys: "set (the gk') = set g \<union> (Domain (setmap_rel m) - Domain (setmap_rel m'))" if "gk = Some g" for g
    proof -
      have "Domain (setmap_rel m) - Domain (setmap_rel m') =
          (if removed then insert k (Domain (setmap_rel m1) - Domain (setmap_rel m')) else Domain (setmap_rel m1) - Domain (setmap_rel m'))"
        (is "?L = ?R")
      proof (intro set_eqI)
        fix x
        have k: "k \<in> Domain (setmap_rel m)" using Some setmap_domain[OF Cons.prems] by auto
        have "x \<noteq> k \<Longrightarrow> x \<in> Domain (setmap_rel m) \<longleftrightarrow> x \<in> Domain (setmap_rel m1)" using s by auto
        moreover have "k \<in> Domain (setmap_rel m') \<Longrightarrow> k \<in> Domain (setmap_rel m1)" using r(3) by auto
        moreover have "removed \<longleftrightarrow> k \<notin> Domain (setmap_rel m1)" using s by simp
        ultimately show "x \<in> ?L \<longleftrightarrow> x \<in> ?R" using k by (cases "x = k"; cases removed) (simp_all, blast)
      qed
      with that r(6) show ?thesis by (cases removed) auto
    qed
    have vals: "set (the gv') = set g \<union> (setmap_rel m `` set (k # ks)) \<inter> set rv" if "gv = Some g" for g
    proof -
      from that s obtain h where "g1 = Some h" "set h = set g \<union> setmap_rel m `` {k} \<inter> set rv" by auto
      with r(7) s show ?thesis by auto
    qed
    from step rel keys vals r(2,4,5) s show ?thesis by auto
  qed
qed auto

lemma interset_loop_spec:
  "distinct s1 \<Longrightarrow> distinct s2 \<Longrightarrow> distinct bs \<Longrightarrow> set bs \<subseteq> set s2 \<Longrightarrow>
   \<exists>common' s1' s2'. interset_loop True bs s1 s2 common = Some (common', s1', s2') \<and>
     set common' = set common \<union> set s1 \<inter> set bs \<and> distinct s2' \<and> set s2' = set s2 - set s1 \<inter> set bs"
proof (induction bs arbitrary: s1 s2 common)
  case (Cons b bs)
  show ?case
  proof (cases "b \<in> set s1")
    case True
    have "set bs \<subseteq> set (removeAll b s2)" using Cons.prems by auto
    with True Cons.IH[of "removeAll b s1" "removeAll b s2" "List.insert b common"] Cons.prems
    show ?thesis by (auto simp: distinct_removeAll)
  next
    case False
    with Cons.IH[of s1 s2 common] Cons.prems show ?thesis by auto
  qed
qed auto

lemma interset_loop_strict:
  "interset_loop False bs s1 s2 common = (if set bs \<inter> set s1 = {} then Some (common, s1, s2) else None)"
  by (induction bs) auto

text \<open>
  What \<open>update\<close> does: it returns the values that stay, where its description promises those that go.
\<close>

lemma setmap_update_spec:
  assumes "setmap_ok m" "distinct vs" "vs \<noteq> []"
  shows "\<exists>gone rest. setmap_update True k vs m = Some (gone, rest, sm_put k vs m) \<and>
    set gone = setmap_rel m `` {k} \<inter> set vs \<and> distinct rest \<and> set rest = set vs - setmap_rel m `` {k}"
proof -
  have "distinct (getValSet k m)"
    using setmap_okD[OF assms(1), of k] by (auto simp: getValSet_def split: option.splits)
  from interset_loop_spec[OF this assms(2,2), of "[]"] assms(3) getValSet_rel[of k m] show ?thesis
    by (auto simp: setmap_update_def removeAndReturnInterset_def)
qed

lemma setmap_update_strict:
  assumes "vs \<noteq> []"
  shows "setmap_update False k vs m =
    (if set vs \<inter> setmap_rel m `` {k} = {} then Some ([], vs, sm_put k vs m) else None)"
  using assms getValSet_rel[of k m]
  by (simp add: setmap_update_def removeAndReturnInterset_def interset_loop_strict)

text \<open>With undefined accesses to erased nodes, trimming is defined just while no entry is emptied.\<close>

lemma trimOrRemove_strict_one:
  assumes "setmap_ok m" "map_of m k = Some vals"
  shows "(trimOrRemove False [k] rv (Some gk) gv m = None) = (set vals \<subseteq> set rv)"
proof -
  obtain vs' g' where t: "trimSet vals rv gv = (vs', g')" by fastforce
  from trimSet_spec[OF conjunct2[OF setmap_okD[OF assms]] t] have "(set vs' = {}) = (set vals \<subseteq> set rv)" by auto
  then have "(vs' = []) = (set vals \<subseteq> set rv)" by simp
  with t assms(2) show ?thesis by (auto simp: trim_entry_def)
qed

text \<open>A null \<open>goneVals\<close> only leaves the record of the values out.\<close>

lemma trimSet_null: "trimSet vals rv None = (fst (trimSet vals rv (Some g)), None)"
  by (induction vals rv "Some g" arbitrary: g rule: trimSet.induct) auto

lemma trim_entry_null:
  "trim_entry k vals rv None m = (let (r, g, m') = trim_entry k vals rv (Some g) m in (r, None, m'))"
  by (simp add: trim_entry_def trimSet_null[of vals rv g] case_prod_beta Let_def)

lemma trimSet_goneVals: "snd (trimSet vals rv (Some g)) \<noteq> None"
  by (induction vals rv "Some g" arbitrary: g rule: trimSet.induct) auto

lemma trimOrRemove_null:
  "trimOrRemove stale ks rv gk None m = map_option (\<lambda>(gk, gv, m). (gk, None, m)) (trimOrRemove stale ks rv gk (Some g) m)"
proof (induction ks arbitrary: gk g m)
  case (Cons k ks)
  show ?case
  proof (cases "map_of m k")
    case (Some vals)
    obtain r g1 m1 where e: "trim_entry k vals rv (Some g) m = (r, Some g1, m1)"
    proof -
      obtain vs' g' where "trimSet vals rv (Some g) = (vs', Some g')"
        using trimSet_goneVals[of vals rv g] by (cases "trimSet vals rv (Some g)") auto
      with that show thesis by (cases "vs' = []") (auto simp: trim_entry_def)
    qed
    with Some Cons.IH[of _ m1 g1] trim_entry_null[of k vals rv m g] show ?thesis by (cases stale; cases gk) simp_all
  qed (use Cons.IH in simp)
qed simp

interpretation um: relation_map setmap_rel setmap_ok
  "\<lambda>ks vs m. map_prod the id (add_keys ks vs (Some []) m)"
  "\<lambda>ks vs m. map_option (\<lambda>(gk, gv, m). (the gk, the gv, m)) (trimOrRemove True ks vs (Some []) (Some []) m)"
proof
  fix m :: "('a, 'b) setmap" and vs ks assume ok: "setmap_ok m"
  obtain nk m' where a: "add_keys ks vs (Some []) m = (nk, m')" by fastforce
  { assume "distinct vs"
    note s = add_keys_spec[OF ok this a]
    show "setmap_ok (snd (map_prod the id (add_keys ks vs (Some []) m)))" using a s by simp
    show "setmap_rel (snd (map_prod the id (add_keys ks vs (Some []) m))) = setmap_rel m \<union> set ks \<times> set vs" using a s by simp
    show "set (fst (map_prod the id (add_keys ks vs (Some []) m))) = set ks - Domain (setmap_rel m)" if "vs \<noteq> []"
      using a s that by simp }
  from trimOrRemove_spec[OF ok, of ks vs "Some []" "Some []"]
  show "\<exists>gk gv m'. map_option (\<lambda>(gk, gv, m). (the gk, the gv, m)) (trimOrRemove True ks vs (Some []) (Some []) m) =
      Some (gk, gv, m') \<and> setmap_ok m' \<and> setmap_rel m' = setmap_rel m - set ks \<times> set vs \<and>
      set gk = Domain (setmap_rel m) - Domain (setmap_rel m') \<and> set gv = (setmap_rel m `` set ks) \<inter> set vs"
    by auto
qed

interpretation subs: subscriptions setmap_rel setmap_ok
  "\<lambda>ks vs m. map_prod the id (add_keys ks vs (Some []) m)"
  "\<lambda>ks vs m. map_option (\<lambda>(gk, gv, m). (the gk, the gv, m)) (trimOrRemove True ks vs (Some []) (Some []) m)"
  setmap_rel setmap_ok
  "\<lambda>ks vs m. map_prod the id (add_keys ks vs (Some []) m)"
  "\<lambda>ks vs m. map_option (\<lambda>(gk, gv, m). (the gk, the gv, m)) (trimOrRemove True ks vs (Some []) (Some []) m)"
  by (rule subscriptions.intro) (rule um.relation_map_axioms)+

end
