(* ===== verification/OsObserver.thy ===== *)
theory OsObserver
  imports SetMap Machine
begin

text \<open>
  The observer of the operating system (\<open>gps/core/SystemStatusOsObserver.cpp\<close>,
  \<open>SystemStatusOsObserver.h\<close>): clients subscribe to data items (airplane mode, network, ...), the
  observer subscribes with the framework for what any client wants, keeps the last value of each
  item and passes changes on. With it, from \<open>gps/core/SystemStatus.cpp\<close>, the short histories in
  which the system status records the items (\<open>setIteminReport\<close>, \<open>eventDataItemNotify\<close>).

  The public functions only send messages to the observer's thread; \<open>obs_proc\<close> runs one. The classes
  of the data items are in a library that is not in the repository: \<open>createNewDataItem\<close> and the
  \<open>copy\<close> of an item are arguments (\<open>item_library\<close>), and so are \<open>ignore\<close>, \<open>equals\<close> and \<open>collate\<close>
  of the recorded items, which are parameters of the template \<open>setIteminReport\<close>. A client or a
  framework object is its address, 0 the null pointer.
\<close>

type_synonym DataItemId = int
type_synonym dclient = nat

section \<open>Histories of the system status\<close>

record 'i item_class =
  ignore :: "'i \<Rightarrow> bool"
  equals :: "'i \<Rightarrow> 'i \<Rightarrow> bool"
  collate :: "'i \<Rightarrow> 'i \<Rightarrow> 'i"

definition maxItem :: nat where
  "maxItem = 5"

text \<open>An entry of a history is \<open>mUtcReported\<close> and the item.\<close>

definition setIteminReport :: "'i item_class \<Rightarrow> (nat \<times> 'i) list \<Rightarrow> nat \<times> 'i \<Rightarrow> bool \<times> (nat \<times> 'i) list" where
  "setIteminReport cl report s =
     (if ignore cl (snd s) then (False, report)
      else (let item = (if report = [] then snd s else collate cl (snd s) (snd (last report))) in
        if report \<noteq> [] \<and> equals cl (snd (last report)) item
        then (False, report[length report - 1 := (fst s, snd (last report))])
        else (let report = report @ [(fst s, item)] in
          (True, if length report > maxItem then tl report else report))))"

text \<open>The identifiers \<open>eventDataItemNotify\<close> has a case for, by their numbers in \<open>DataItemId.h\<close>.\<close>

definition recorded_items :: "DataItemId list" where
  "recorded_items =
     [0 \<comment> \<open>AIRPLANEMODE\<close>, 1 \<comment> \<open>ENH\<close>, 2 \<comment> \<open>GPSSTATE\<close>, 3 \<comment> \<open>NLPSTATUS\<close>, 4 \<comment> \<open>WIFIHARDWARESTATE\<close>,
      5 \<comment> \<open>NETWORKINFO\<close>, 7 \<comment> \<open>RILSERVICEINFO\<close>, 8 \<comment> \<open>RILCELLINFO\<close>, 9 \<comment> \<open>SERVICESTATUS\<close>, 10 \<comment> \<open>MODEL\<close>,
      11 \<comment> \<open>MANUFACTURER\<close>, 13 \<comment> \<open>ASSISTED_GPS\<close>, 14 \<comment> \<open>SCREEN_STATE\<close>, 15 \<comment> \<open>POWER_CONNECTED_STATE\<close>,
      16 \<comment> \<open>TIMEZONE_CHANGE\<close>, 17 \<comment> \<open>TIME_CHANGE\<close>, 18 \<comment> \<open>WIFI_SUPPLICANT_STATUS\<close>, 19 \<comment> \<open>SHUTDOWN_STATE\<close>,
      20 \<comment> \<open>TAC\<close>, 21 \<comment> \<open>MCCMNC\<close>, 22 \<comment> \<open>BTLE_SCAN\<close>, 23 \<comment> \<open>BT_SCAN\<close>]"

definition eventDataItemNotify :: "(DataItemId \<Rightarrow> 'i item_class) \<Rightarrow> nat \<Rightarrow> DataItemId \<times> 'i
    \<Rightarrow> (DataItemId \<Rightarrow> (nat \<times> 'i) list) \<Rightarrow> bool \<times> (DataItemId \<Rightarrow> (nat \<times> 'i) list)" where
  "eventDataItemNotify classes now d reports =
     (if fst d \<in> set recorded_items
      then (let (ret, report) = setIteminReport (classes (fst d)) (reports (fst d)) (now, snd d) in
        (ret, reports(fst d := report)))
      else (False, reports))"

section \<open>The observer\<close>

record 'i item_library =
  createNewDataItem :: "DataItemId \<Rightarrow> 'i option"
  copy :: "'i \<Rightarrow> 'i \<Rightarrow> 'i \<times> bool"
  classes :: "DataItemId \<Rightarrow> 'i item_class"

record 'i os_observer =
  mSubscriptionObj :: "nat option"
  mFrameworkActionReqObj :: "nat option"
  mClientToDataItems :: "(dclient, DataItemId) setmap"
  mDataItemToClients :: "(DataItemId, dclient) setmap"
  mDataItemCache :: "(DataItemId \<times> 'i) list"
  mActiveRequestCount :: "(DataItemId \<times> int) list"
  mBackHaulConnReqCache :: "string list"
  mReports :: "DataItemId \<Rightarrow> (nat \<times> 'i) list"

datatype 'i obs_msg =
    SetSubsObj nat
  | HandleSubscribeReq "DataItemId list" dclient bool
  | HandleUpdateSubscriptionReq "DataItemId list" dclient
  | HandleUnsubscribeReq "DataItemId list" dclient
  | HandleUnsubscribeAllReq dclient
  | HandleNotify "(DataItemId \<times> 'i) option list"
  | HandleTurnOnMsg nat DataItemId int
  | HandleTurnOffMsg nat DataItemId
  | HandleConnectBackhaul nat string
  | HandleDisconnectBackhaul nat string

text \<open>Calls to the framework objects and to the clients.\<close>

datatype 'i obs_out =
    FwSubscribe nat "DataItemId list"
  | FwRequestData nat "DataItemId list"
  | FwUnsubscribe nat "DataItemId list"
  | ClientNotify dclient "(DataItemId \<times> 'i) list"
  | FwTurnOn nat DataItemId int
  | FwTurnOff nat DataItemId
  | FwConnectBackhaul nat string
  | FwDisconnectBackhaul nat string

text \<open>\<open>containerTransfer\<close> from a list to a set and from a set to a list.\<close>

definition list_to_set :: "'a list \<Rightarrow> 'a list" where
  "list_to_set l = fold List.insert l []"

definition set_to_list :: "'a list \<Rightarrow> 'a list" where
  "set_to_list s = rev s"

definition sendCachedDataItems :: "DataItemId list \<Rightarrow> dclient \<Rightarrow> 'i os_observer \<Rightarrow> 'i obs_out list" where
  "sendCachedDataItems s to ob =
     (if to = 0 then []
      else (let dataItems = fold (\<lambda>each ds. case map_of (mDataItemCache ob) each of
              Some v \<Rightarrow> (each, v) # ds | None \<Rightarrow> ds) s [] in
        if dataItems = [] then [] else [ClientNotify to dataItems]))"

definition updateCache :: "'i item_library \<Rightarrow> nat \<Rightarrow> (DataItemId \<times> 'i) option \<Rightarrow> 'i os_observer
    \<Rightarrow> bool \<times> 'i os_observer" where
  "updateCache lib now d ob = (case d of
     None \<Rightarrow> (False, ob)
   | Some (i, v) \<Rightarrow>
       (let (ret, reports) = eventDataItemNotify (classes lib) now (i, v) (mReports ob);
            ob = ob\<lparr>mReports := reports\<rparr> in
        if \<not> ret then (False, ob)
        else (case map_of (mDataItemCache ob) i of
          None \<Rightarrow> (case createNewDataItem lib i of
            Some dataitem \<Rightarrow>
              (True, ob\<lparr>mDataItemCache := sm_put i (fst (copy lib dataitem v)) (mDataItemCache ob)\<rparr>)
          | None \<Rightarrow> (False, ob))
        | Some old \<Rightarrow>
            (let (new, dataItemUpdated) = copy lib old v in
             (dataItemUpdated, ob\<lparr>mDataItemCache := sm_put i new (mDataItemCache ob)\<rparr>)))))"

text \<open>The call to the subscription object, when there is one and there is something to call it for.\<close>

definition to_framework :: "'i os_observer \<Rightarrow> (nat \<Rightarrow> DataItemId list \<Rightarrow> 'i obs_out) \<Rightarrow> DataItemId list \<Rightarrow> 'i obs_out list" where
  "to_framework ob call s = (case mSubscriptionObj ob of
     Some subs \<Rightarrow> if s = [] then [] else [call subs (set_to_list s)] | None \<Rightarrow> [])"

definition subscribe_proc :: "DataItemId list \<Rightarrow> dclient \<Rightarrow> bool \<Rightarrow> 'i os_observer \<Rightarrow> 'i os_observer \<times> 'i obs_out list" where
  "subscribe_proc l client toRequestData ob =
     (let s = list_to_set l;
          (new, d2c) = add_keys s [client] (Some []) (mDataItemToClients ob);
          ob = ob\<lparr>mDataItemToClients := d2c, mClientToDataItems := snd (setmap_add client s (mClientToDataItems ob))\<rparr>;
          first = sendCachedDataItems s client ob
      in (ob, first @ (case mSubscriptionObj ob of
            None \<Rightarrow> []
          | Some subs \<Rightarrow> if toRequestData then [FwRequestData subs l] else to_framework ob FwSubscribe (the new))))"

definition update_proc :: "bool \<Rightarrow> DataItemId list \<Rightarrow> dclient \<Rightarrow> 'i os_observer \<Rightarrow> ('i os_observer \<times> 'i obs_out list) option" where
  "update_proc stale l client ob = do {
     (unused, s, c2d) \<leftarrow> setmap_update stale client (list_to_set l) (mClientToDataItems ob);
     (gone, _, d2c) \<leftarrow> trimOrRemove stale unused [client] (Some []) None (mDataItemToClients ob);
     let (new, d2c) = add_keys s [client] (Some []) d2c;
     let ob = ob\<lparr>mClientToDataItems := c2d, mDataItemToClients := d2c\<rparr>;
     Some (ob, sendCachedDataItems s client ob @ to_framework ob FwSubscribe (the new)
                 @ to_framework ob FwUnsubscribe (the gone))
   }"

definition unsubscribe_proc :: "bool \<Rightarrow> DataItemId list \<Rightarrow> dclient \<Rightarrow> 'i os_observer
    \<Rightarrow> ('i os_observer \<times> 'i obs_out list) option" where
  "unsubscribe_proc stale l client ob = do {
     (_, unused, c2d) \<leftarrow> trimOrRemove stale [client] (list_to_set l) (Some []) (Some []) (mClientToDataItems ob);
     (gone, _, d2c) \<leftarrow> trimOrRemove stale (the unused) [client] (Some []) None (mDataItemToClients ob);
     let ob = ob\<lparr>mClientToDataItems := c2d, mDataItemToClients := d2c\<rparr>;
     Some (ob, to_framework ob FwUnsubscribe (the gone))
   }"

definition unsubscribeAll_proc :: "bool \<Rightarrow> dclient \<Rightarrow> 'i os_observer \<Rightarrow> ('i os_observer \<times> 'i obs_out list) option" where
  "unsubscribeAll_proc stale client ob =
     (let diByClient = getValSet client (mClientToDataItems ob) in
      if diByClient = [] then Some (ob, [])
      else do {
        let c2d = snd (setmap_remove client (mClientToDataItems ob));
        (gone, _, d2c) \<leftarrow> trimOrRemove stale diByClient [client] (Some []) None (mDataItemToClients ob);
        let ob = ob\<lparr>mClientToDataItems := c2d, mDataItemToClients := d2c\<rparr>;
        Some (ob, to_framework ob FwUnsubscribe (the gone))
      })"

text \<open>The first loop of \<open>HandleNotify\<close>: the identifiers of the items that changed.\<close>

fun cache_items :: "'i item_library \<Rightarrow> nat \<Rightarrow> (DataItemId \<times> 'i) option list \<Rightarrow> DataItemId list \<Rightarrow> 'i os_observer
    \<Rightarrow> DataItemId list \<times> 'i os_observer" where
  "cache_items lib now [] ids ob = (ids, ob)"
| "cache_items lib now (d # ds) ids ob =
     (let (updated, ob) = updateCache lib now d ob in
      cache_items lib now ds (if updated then List.insert (fst (the d)) ids else ids) ob)"

definition clients_of :: "DataItemId list \<Rightarrow> 'i os_observer \<Rightarrow> dclient list" where
  "clients_of ids ob = fold (\<lambda>each cs. case getValSetPtr each (mDataItemToClients ob) of
     Some clients \<Rightarrow> fold List.insert clients cs | None \<Rightarrow> cs) ids []"

definition notify_proc :: "'i item_library \<Rightarrow> nat \<Rightarrow> (DataItemId \<times> 'i) option list \<Rightarrow> 'i os_observer
    \<Rightarrow> 'i os_observer \<times> 'i obs_out list" where
  "notify_proc lib now ds ob =
     (let (ids, ob) = cache_items lib now ds [] ob in
      (ob, concat (map (\<lambda>client. sendCachedDataItems
         (filter (\<lambda>d. d \<in> set ids) (getValSet client (mClientToDataItems ob))) client ob) (clients_of ids ob))))"

fun obs_proc :: "bool \<Rightarrow> 'i item_library \<Rightarrow> nat \<times> 'i obs_msg \<Rightarrow> 'i os_observer \<Rightarrow> ('i os_observer \<times> 'i obs_out list) option" where
  "obs_proc stale lib (now, SetSubsObj subs) ob =
     (let ob = ob\<lparr>mSubscriptionObj := Some subs\<rparr>; dis = set_to_list (getKeys (mDataItemToClients ob)) in
      Some (ob, if setmap_empty (mDataItemToClients ob) then [] else [FwSubscribe subs dis, FwRequestData subs dis]))"
| "obs_proc stale lib (now, HandleSubscribeReq l client toRequestData) ob = Some (subscribe_proc l client toRequestData ob)"
| "obs_proc stale lib (now, HandleUpdateSubscriptionReq l client) ob = update_proc stale l client ob"
| "obs_proc stale lib (now, HandleUnsubscribeReq l client) ob = unsubscribe_proc stale l client ob"
| "obs_proc stale lib (now, HandleUnsubscribeAllReq client) ob = unsubscribeAll_proc stale client ob"
| "obs_proc stale lib (now, HandleNotify ds) ob = Some (notify_proc lib now ds ob)"
| "obs_proc stale lib (now, HandleTurnOnMsg fw dit timeOut) ob = Some (ob, [FwTurnOn fw dit timeOut])"
| "obs_proc stale lib (now, HandleTurnOffMsg fw dit) ob = Some (ob, [FwTurnOff fw dit])"
| "obs_proc stale lib (now, HandleConnectBackhaul fw name) ob = Some (ob, [FwConnectBackhaul fw name])"
| "obs_proc stale lib (now, HandleDisconnectBackhaul fw name) ob = Some (ob, [FwDisconnectBackhaul fw name])"

section \<open>The public functions\<close>

text \<open>They give the messages that are sent to the observer's thread.\<close>

definition setSubscriptionObj :: "nat \<Rightarrow> 'i obs_msg list" where
  "setSubscriptionObj subs = (if subs = 0 then [] else [SetSubsObj subs])"

definition obs_subscribe :: "DataItemId list \<Rightarrow> dclient \<Rightarrow> bool \<Rightarrow> 'i obs_msg list" where
  "obs_subscribe l client toRequestData =
     (if l = [] \<or> client = 0 then [] else [HandleSubscribeReq l client toRequestData])"

definition updateSubscription :: "DataItemId list \<Rightarrow> dclient \<Rightarrow> 'i obs_msg list" where
  "updateSubscription l client = (if l = [] \<or> client = 0 then [] else [HandleUpdateSubscriptionReq l client])"

definition obs_unsubscribe :: "DataItemId list \<Rightarrow> dclient \<Rightarrow> 'i obs_msg list" where
  "obs_unsubscribe l client = (if l = [] \<or> client = 0 then [] else [HandleUnsubscribeReq l client])"

definition unsubscribeAll :: "dclient \<Rightarrow> 'i obs_msg list" where
  "unsubscribeAll client = (if client = 0 then [] else [HandleUnsubscribeAllReq client])"

text \<open>
  \<open>notify\<close> builds its vector with the length of the list already, and appends the copies behind the
  null pointers this leaves in front.
\<close>

definition obs_notify :: "'i item_library \<Rightarrow> (DataItemId \<times> 'i) list \<Rightarrow> 'i obs_msg list" where
  "obs_notify lib dlist =
     (if dlist = [] then []
      else (let vec = replicate (length dlist) None @
              concat (map (\<lambda>(i, v). case createNewDataItem lib i of
                Some di \<Rightarrow> [Some (i, fst (copy lib di v))] | None \<Rightarrow> []) dlist) in
        if vec = [] then [] else [HandleNotify vec]))"

definition turnOn :: "DataItemId \<Rightarrow> int \<Rightarrow> 'i os_observer \<Rightarrow> 'i os_observer \<times> 'i obs_msg list" where
  "turnOn dit timeOut ob = (case mFrameworkActionReqObj ob of
     None \<Rightarrow> (ob, [])
   | Some fw \<Rightarrow> (case map_of (mActiveRequestCount ob) dit of
       None \<Rightarrow> (ob\<lparr>mActiveRequestCount := sm_put dit 1 (mActiveRequestCount ob)\<rparr>, [HandleTurnOnMsg fw dit timeOut])
     | Some n \<Rightarrow> (ob\<lparr>mActiveRequestCount := sm_put dit (n + 1) (mActiveRequestCount ob)\<rparr>, [])))"

definition turnOff :: "DataItemId \<Rightarrow> 'i os_observer \<Rightarrow> 'i os_observer \<times> 'i obs_msg list" where
  "turnOff dit ob = (case mFrameworkActionReqObj ob of
     None \<Rightarrow> (ob, [])
   | Some fw \<Rightarrow> (case map_of (mActiveRequestCount ob) dit of
       None \<Rightarrow> (ob, [])
     | Some n \<Rightarrow>
         if n - 1 = 0 then (ob\<lparr>mActiveRequestCount := sm_erase dit (mActiveRequestCount ob)\<rparr>, [HandleTurnOffMsg fw dit])
         else (ob\<lparr>mActiveRequestCount := sm_put dit (n - 1) (mActiveRequestCount ob)\<rparr>, [])))"

text \<open>The functions of the builds with GLib; the boolean is the returned value.\<close>

definition connectBackhaul :: "string \<Rightarrow> 'i os_observer \<Rightarrow> bool \<times> 'i os_observer \<times> 'i obs_msg list" where
  "connectBackhaul name ob = (case mFrameworkActionReqObj ob of
     Some fw \<Rightarrow> (True, ob, [HandleConnectBackhaul fw name])
   | None \<Rightarrow> (False, ob\<lparr>mBackHaulConnReqCache := List.insert name (mBackHaulConnReqCache ob)\<rparr>, []))"

definition disconnectBackhaul :: "string \<Rightarrow> 'i os_observer \<Rightarrow> bool \<times> 'i os_observer \<times> 'i obs_msg list" where
  "disconnectBackhaul name ob = (case mFrameworkActionReqObj ob of
     Some fw \<Rightarrow> (False, ob, [HandleDisconnectBackhaul fw name])
   | None \<Rightarrow> (False, ob\<lparr>mBackHaulConnReqCache := removeAll name (mBackHaulConnReqCache ob)\<rparr>, []))"

fun connect_all :: "string list \<Rightarrow> 'i os_observer \<Rightarrow> 'i os_observer \<times> 'i obs_msg list" where
  "connect_all [] ob = (ob, [])"
| "connect_all (name # names) ob =
     (let (_, ob, msgs) = connectBackhaul name ob; (ob, more) = connect_all names ob in (ob, msgs @ more))"

definition setFrameworkActionReqObj :: "nat \<Rightarrow> 'i os_observer \<Rightarrow> 'i os_observer \<times> 'i obs_msg list" where
  "setFrameworkActionReqObj fw ob =
     (let ob = ob\<lparr>mFrameworkActionReqObj := (if fw = 0 then None else Some fw)\<rparr>;
          (ob, msgs) = connect_all (mBackHaulConnReqCache ob) ob
      in (ob\<lparr>mBackHaulConnReqCache := []\<rparr>, msgs))"

definition new_observer :: "'i os_observer" where
  "new_observer = \<lparr>mSubscriptionObj = None, mFrameworkActionReqObj = None, mClientToDataItems = [],
     mDataItemToClients = [], mDataItemCache = [], mActiveRequestCount = [], mBackHaulConnReqCache = [],
     mReports = (\<lambda>_. [])\<rparr>"

end
