(* ===== verification/OsSubs.thy ===== *)
theory OsSubs
  imports OsObserver
begin

text \<open>
  What the observer of the operating system promises and keeps. The specification is one relation,
  which client wants which item; the two maps of the observer are this relation and its converse, and
  the framework is subscribed for its range.
\<close>

section \<open>Specification\<close>

definition wants :: "'i os_observer \<Rightarrow> (dclient \<times> DataItemId) set" where
  "wants ob = setmap_rel (mClientToDataItems ob)"

definition paired :: "'i os_observer \<Rightarrow> bool" where
  "paired ob \<longleftrightarrow> setmap_ok (mClientToDataItems ob) \<and> setmap_ok (mDataItemToClients ob) \<and>
     setmap_rel (mDataItemToClients ob) = (wants ob)\<inverse>"

fun spec_wants :: "'i obs_msg \<Rightarrow> (dclient \<times> DataItemId) set \<Rightarrow> (dclient \<times> DataItemId) set" where
  "spec_wants (HandleSubscribeReq l c r) R = R \<union> {c} \<times> set l"
| "spec_wants (HandleUpdateSubscriptionReq l c) R = (R - {c} \<times> UNIV) \<union> {c} \<times> set l"
| "spec_wants (HandleUnsubscribeReq l c) R = R - {c} \<times> set l"
| "spec_wants (HandleUnsubscribeAllReq c) R = R - {c} \<times> UNIV"
| "spec_wants _ R = R"

definition fw_subscribed :: "'i obs_out list \<Rightarrow> DataItemId set" where
  "fw_subscribed out = {d. \<exists>subs l. FwSubscribe subs l \<in> set out \<and> d \<in> set l}"

definition fw_unsubscribed :: "'i obs_out list \<Rightarrow> DataItemId set" where
  "fw_unsubscribed out = {d. \<exists>subs l. FwUnsubscribe subs l \<in> set out \<and> d \<in> set l}"

text \<open>An update is admitted only for a client that has no subscription yet.\<close>

definition proper :: "nat \<times> 'i obs_msg \<Rightarrow> 'i os_observer \<Rightarrow> bool" where
  "proper m ob = (case snd m of
     HandleUpdateSubscriptionReq l c \<Rightarrow> getValSet c (mClientToDataItems ob) = [] | _ \<Rightarrow> True)"

section \<open>Single messages\<close>

lemma set_list_to_set [simp]: "set (list_to_set l) = set l" "distinct (list_to_set l)"
  by (simp_all add: list_to_set_def set_insert_fold distinct_insert_fold)

lemma set_set_to_list [simp]: "set (set_to_list s) = set s"
  by (simp add: set_to_list_def)

lemma fw_append [simp]:
  "fw_subscribed (xs @ ys) = fw_subscribed xs \<union> fw_subscribed ys"
  "fw_unsubscribed (xs @ ys) = fw_unsubscribed xs \<union> fw_unsubscribed ys"
  "fw_subscribed [] = {}" "fw_unsubscribed [] = {}"
  by (auto simp: fw_subscribed_def fw_unsubscribed_def)

lemma fw_calls [simp]:
  "fw_subscribed [FwSubscribe subs l] = set l" "fw_unsubscribed [FwSubscribe subs l] = {}"
  "fw_subscribed [FwUnsubscribe subs l] = {}" "fw_unsubscribed [FwUnsubscribe subs l] = set l"
  "fw_subscribed [FwRequestData subs l] = {}" "fw_unsubscribed [FwRequestData subs l] = {}"
  "fw_subscribed [FwSubscribe subs l, FwRequestData subs l] = set l"
  "fw_unsubscribed [FwSubscribe subs l, FwRequestData subs l] = {}"
  by (auto simp: fw_subscribed_def fw_unsubscribed_def)

lemma fw_sendCached [simp]:
  "fw_subscribed (sendCachedDataItems s c ob) = {}" "fw_unsubscribed (sendCachedDataItems s c ob) = {}"
  by (auto simp: fw_subscribed_def fw_unsubscribed_def sendCachedDataItems_def Let_def)

lemma fw_to_framework:
  "fw_subscribed (to_framework ob FwSubscribe s) = (if mSubscriptionObj ob = None then {} else set s)"
  "fw_unsubscribed (to_framework ob FwSubscribe s) = {}"
  "fw_unsubscribed (to_framework ob FwUnsubscribe s) = (if mSubscriptionObj ob = None then {} else set s)"
  "fw_subscribed (to_framework ob FwUnsubscribe s) = {}"
  by (auto simp: to_framework_def split: option.splits)

lemmas paired_D = paired_def[THEN iffD1, THEN conjunct1] paired_def[THEN iffD1, THEN conjunct2, THEN conjunct1]
  paired_def[THEN iffD1, THEN conjunct2, THEN conjunct2, unfolded wants_def]

lemma subscribe_step:
  assumes "paired ob" "subscribe_proc l c r ob = (ob', out)"
  shows "paired ob' \<and> wants ob' = wants ob \<union> {c} \<times> set l \<and> fw_unsubscribed out = {} \<and>
    mSubscriptionObj ob' = mSubscriptionObj ob \<and>
    fw_subscribed out = (if mSubscriptionObj ob = None \<or> r then {} else Range (wants ob') - Range (wants ob))"
proof -
  obtain nk d2c where a: "add_keys (list_to_set l) [c] (Some []) (mDataItemToClients ob) = (nk, d2c)" by fastforce
  obtain ad c2d where b: "setmap_add c (list_to_set l) (mClientToDataItems ob) = (ad, c2d)" by fastforce
  note sa = add_keys_spec[OF paired_D(2)[OF assms(1)] _ a] and sb = setmap_add_spec[OF paired_D(1)[OF assms(1)] _ b]
  have ob': "ob' = ob\<lparr>mDataItemToClients := d2c, mClientToDataItems := c2d\<rparr>"
    using assms(2) a b by (auto simp: subscribe_proc_def Let_def)
  have pair: "setmap_rel d2c = (setmap_rel c2d)\<inverse>" using sa sb paired_D(3)[OF assms(1)] by auto
  have new: "set (the nk) = Range (setmap_rel c2d) - Range (wants ob)"
    using sa sb paired_D(3)[OF assms(1)] by (auto simp: wants_def)
  have out: "fw_subscribed out = (if mSubscriptionObj ob = None \<or> r then {} else set (the nk)) \<and> fw_unsubscribed out = {}"
    using assms(2) a b by (auto simp: subscribe_proc_def Let_def fw_to_framework split: option.splits)
  show ?thesis using sa sb pair new out by (simp add: ob' paired_def wants_def)
qed

text \<open>The end of the three messages that drop items of a client.\<close>

lemma drop_step:
  assumes "paired ob" "setmap_ok c2d" "setmap_rel c2d = wants ob - {c} \<times> D" "set is = wants ob `` {c} \<inter> D"
  shows "\<exists>gone d2c. trimOrRemove True is [c] (Some []) None (mDataItemToClients ob) = Some (Some gone, None, d2c) \<and>
    setmap_ok d2c \<and> setmap_rel d2c = (setmap_rel c2d)\<inverse> \<and> set gone = Range (wants ob) - Range (setmap_rel c2d)"
proof -
  from subs.drop_both[OF paired_D(1,2,3)[OF assms(1)] assms(3)[unfolded wants_def] assms(4)[unfolded wants_def]]
  obtain gk gv d2c where t: "map_option (\<lambda>(gk, gv, m). (the gk, the gv, m))
      (trimOrRemove True is [c] (Some []) (Some []) (mDataItemToClients ob)) = Some (gk, gv, d2c)" "setmap_ok d2c"
      "setmap_rel d2c = (setmap_rel c2d)\<inverse>" "set gk = Range (wants ob) - Range (setmap_rel c2d)"
    by (auto simp: wants_def)
  from trimOrRemove_spec[OF paired_D(2)[OF assms(1)], of "is" "[c]" "Some []" "Some []"] t(1)
  obtain gv' where "trimOrRemove True is [c] (Some []) (Some []) (mDataItemToClients ob) = Some (Some gk, gv', d2c)"
    by auto
  with t trimOrRemove_null[of True "is" "[c]" "Some []" "mDataItemToClients ob" "[]"] show ?thesis by auto
qed

lemma unsubscribe_step:
  assumes "paired ob"
  shows "\<exists>ob' out. unsubscribe_proc True l c ob = Some (ob', out) \<and> paired ob' \<and> wants ob' = wants ob - {c} \<times> set l \<and>
    fw_subscribed out = {} \<and> mSubscriptionObj ob' = mSubscriptionObj ob \<and>
    fw_unsubscribed out = (if mSubscriptionObj ob = None then {} else Range (wants ob) - Range (wants ob'))"
proof -
  from trimOrRemove_spec[OF paired_D(1)[OF assms], of "[c]" "list_to_set l" "Some []" "Some []"]
  obtain gk unused c2d where t: "trimOrRemove True [c] (list_to_set l) (Some []) (Some []) (mClientToDataItems ob) = Some (gk, unused, c2d)"
      "setmap_ok c2d" "setmap_rel c2d = wants ob - {c} \<times> set l" "set (the unused) = wants ob `` {c} \<inter> set l"
    by (auto simp: wants_def)
  from drop_step[OF assms t(2,3,4)] t show ?thesis
    by (auto simp: unsubscribe_proc_def paired_def wants_def fw_to_framework Let_def)
qed

lemma unsubscribeAll_step:
  assumes "paired ob"
  shows "\<exists>ob' out. unsubscribeAll_proc True c ob = Some (ob', out) \<and> paired ob' \<and> wants ob' = wants ob - {c} \<times> UNIV \<and>
    fw_subscribed out = {} \<and> mSubscriptionObj ob' = mSubscriptionObj ob \<and>
    fw_unsubscribed out = (if mSubscriptionObj ob = None then {} else Range (wants ob) - Range (wants ob'))"
proof (cases "getValSet c (mClientToDataItems ob) = []")
  case True
  then have "wants ob - {c} \<times> UNIV = wants ob" using getValSet_rel[of c "mClientToDataItems ob"] by (auto simp: wants_def)
  with True assms show ?thesis by (simp add: unsubscribeAll_proc_def)
next
  case False
  let ?c2d = "sm_erase c (mClientToDataItems ob)"
  note ok = paired_D(1)[OF assms]
  have rel: "setmap_rel ?c2d = wants ob - {c} \<times> UNIV"
    using setmap_rel_erase[OF setmap_ok_smap[OF ok]] by (auto simp: wants_def)
  from drop_step[OF assms setmap_ok_erase[OF ok] rel, of "getValSet c (mClientToDataItems ob)"]
    getValSet_rel[of c "mClientToDataItems ob"] False rel setmap_ok_erase[OF ok, of c]
  show ?thesis by (auto simp: unsubscribeAll_proc_def setmap_remove_def paired_def wants_def fw_to_framework Let_def)
qed

text \<open>
  An update in full: the client map gets the new set, but in the item map the client is taken from
  the items it keeps and left with the items it drops.
\<close>

lemma update_step:
  assumes "paired ob" "l \<noteq> []"
  shows "\<exists>ob' out. update_proc True l c ob = Some (ob', out) \<and>
    setmap_ok (mClientToDataItems ob') \<and> setmap_ok (mDataItemToClients ob') \<and>
    wants ob' = (wants ob - {c} \<times> UNIV) \<union> {c} \<times> set l \<and>
    setmap_rel (mDataItemToClients ob') =
      ((wants ob)\<inverse> - (wants ob `` {c} \<inter> set l) \<times> {c}) \<union> (set l - wants ob `` {c}) \<times> {c} \<and>
    mSubscriptionObj ob' = mSubscriptionObj ob \<and>
    (wants ob `` {c} = {} \<longrightarrow> fw_unsubscribed out = {} \<and>
      fw_subscribed out = (if mSubscriptionObj ob = None then {} else Range (wants ob') - Range (wants ob)))"
proof -
  note ok = paired_D[OF assms(1)]
  have ne: "list_to_set l \<noteq> []" using assms(2) set_list_to_set(1)[of l] by (metis set_empty)
  from setmap_update_spec[OF ok(1) set_list_to_set(2) ne, of c] obtain unused rest where
    u: "setmap_update True c (list_to_set l) (mClientToDataItems ob) =
        Some (unused, rest, sm_put c (list_to_set l) (mClientToDataItems ob))"
      "set unused = wants ob `` {c} \<inter> set l" "distinct rest" "set rest = set l - wants ob `` {c}"
    by (auto simp: wants_def)
  from trimOrRemove_spec[OF ok(2), of unused "[c]" "Some []" None] obtain gone d1 where
    t: "trimOrRemove True unused [c] (Some []) None (mDataItemToClients ob) = Some (Some gone, None, d1)"
      "setmap_ok d1" "setmap_rel d1 = (wants ob)\<inverse> - (wants ob `` {c} \<inter> set l) \<times> {c}"
      "set gone = Domain ((wants ob)\<inverse>) - Domain (setmap_rel d1)"
    using u(2) ok(3) by (auto simp: wants_def)
  obtain nk d2 where a: "add_keys rest [c] (Some []) d1 = (nk, d2)" by fastforce
  note sa = add_keys_spec[OF t(2) _ a]
  have put: "setmap_ok (sm_put c (list_to_set l) (mClientToDataItems ob))"
    "setmap_rel (sm_put c (list_to_set l) (mClientToDataItems ob)) = (wants ob - {c} \<times> UNIV) \<union> {c} \<times> set l"
    using setmap_ok_put[OF ok(1) ne] setmap_rel_put[OF setmap_ok_smap[OF ok(1)]] by (auto simp: wants_def)
  let ?ob = "ob\<lparr>mClientToDataItems := sm_put c (list_to_set l) (mClientToDataItems ob), mDataItemToClients := d2\<rparr>"
  have step: "update_proc True l c ob = Some (?ob, sendCachedDataItems rest c ?ob @ to_framework ?ob FwSubscribe (the nk)
      @ to_framework ?ob FwUnsubscribe gone)"
    using u(1) t(1) a by (simp add: update_proc_def Let_def)
  have fresh: "set gone = {} \<and> set (the nk) = Range (setmap_rel (sm_put c (list_to_set l) (mClientToDataItems ob))) - Range (wants ob)"
    if "wants ob `` {c} = {}"
  proof -
    have d1: "setmap_rel d1 = (wants ob)\<inverse>" using t(3) that by simp
    have "set (the nk) = set rest - Domain (setmap_rel d1)" using sa by auto
    moreover have "(wants ob - {c} \<times> UNIV) = wants ob" using that by auto
    ultimately show ?thesis using t(4) d1 u(4) that put(2) by auto
  qed
  have d2: "setmap_ok d2" "setmap_rel d2 =
      ((wants ob)\<inverse> - (wants ob `` {c} \<inter> set l) \<times> {c}) \<union> (set l - wants ob `` {c}) \<times> {c}"
    using sa t(3) u(4) by simp_all
  have w: "wants ?ob = setmap_rel (sm_put c (list_to_set l) (mClientToDataItems ob))" by (simp add: wants_def)
  show ?thesis
    by (rule exI[of _ ?ob], rule exI, rule conjI[OF step])
      (use put d2 fresh in \<open>simp add: w fw_to_framework\<close>)
qed

lemma update_step_empty: "update_proc stale [] c ob = (let ob' = ob\<lparr>mClientToDataItems := sm_erase c (mClientToDataItems ob)\<rparr> in
    Some (ob', sendCachedDataItems [] c ob'))"
  by (simp add: update_proc_def setmap_update_def list_to_set_def to_framework_def Let_def split: option.splits)

section \<open>Notifications\<close>

lemma updateCache_keeps:
  assumes "updateCache lib now d ob = (b, ob')"
  shows "mClientToDataItems ob' = mClientToDataItems ob \<and> mDataItemToClients ob' = mDataItemToClients ob \<and>
    mSubscriptionObj ob' = mSubscriptionObj ob"
  using assms by (auto simp: updateCache_def Let_def split: option.splits prod.splits if_splits)

lemma updateCache_cached:
  assumes "smap_ok (mDataItemCache ob)" "updateCache lib now d ob = (b, ob')"
  shows "smap_ok (mDataItemCache ob') \<and> dom (map_of (mDataItemCache ob)) \<subseteq> dom (map_of (mDataItemCache ob')) \<and>
    (b \<longrightarrow> d \<noteq> None \<and> fst (the d) \<in> dom (map_of (mDataItemCache ob')))"
  using assms by (auto simp: updateCache_def Let_def sm.put_ok sm.find_put split: option.splits prod.splits if_splits)

lemma cache_items_keeps:
  "cache_items lib now ds ids ob = (ids', ob') \<Longrightarrow>
   mClientToDataItems ob' = mClientToDataItems ob \<and> mDataItemToClients ob' = mDataItemToClients ob \<and>
   mSubscriptionObj ob' = mSubscriptionObj ob"
proof (induction ds arbitrary: ids ob)
  case (Cons d ds)
  obtain b ob1 where u: "updateCache lib now d ob = (b, ob1)" by fastforce
  with Cons.prems Cons.IH[of _ ob1] updateCache_keeps[OF u] show ?case by simp
qed simp

lemma cache_items_cached:
  "smap_ok (mDataItemCache ob) \<Longrightarrow> set ids \<subseteq> dom (map_of (mDataItemCache ob)) \<Longrightarrow>
   cache_items lib now ds ids ob = (ids', ob') \<Longrightarrow>
   smap_ok (mDataItemCache ob') \<and> set ids' \<subseteq> dom (map_of (mDataItemCache ob'))"
proof (induction ds arbitrary: ids ob)
  case (Cons d ds)
  obtain b ob1 where u: "updateCache lib now d ob = (b, ob1)" by fastforce
  from updateCache_cached[OF Cons.prems(1) u] Cons.prems u show ?case
    by (intro Cons.IH[of ob1 "if b then List.insert (fst (the d)) ids else ids"]) auto
qed simp

lemma clients_of_spec:
  "distinct (clients_of ids ob) \<and> set (clients_of ids ob) = setmap_rel (mDataItemToClients ob) `` set ids"
proof -
  let ?f = "\<lambda>each cs. case getValSetPtr each (mDataItemToClients ob) of Some clients \<Rightarrow> fold List.insert clients cs | None \<Rightarrow> cs"
  let ?R = "setmap_rel (mDataItemToClients ob)"
  have "distinct cs \<Longrightarrow> distinct (fold ?f ids cs) \<and> set (fold ?f ids cs) = set cs \<union> ?R `` set ids" for cs
  proof (induction ids arbitrary: cs)
    case (Cons d ids)
    have d: "?R `` set (d # ids) = ?R `` {d} \<union> ?R `` set ids" by auto
    show ?case
    proof (cases "getValSetPtr d (mDataItemToClients ob)")
      case None
      then have "?R `` {d} = {}" by (simp add: getValSetPtr_def setmap_rel_def)
      with None Cons show ?thesis unfolding d by simp
    next
      case (Some clients)
      then have "?R `` {d} = set clients" using setmap_rel_get by (simp add: getValSetPtr_def)
      with Some Cons.IH[of "fold List.insert clients cs"] Cons.prems show ?thesis
        unfolding d by (simp add: distinct_insert_fold set_insert_fold Un_assoc)
    qed
  qed simp
  from this[of "[]"] show ?thesis by (simp add: clients_of_def)
qed

text \<open>What is sent to a client for a set of items.\<close>

lemma sendCached_spec:
  assumes "distinct s" "set s \<subseteq> dom (map_of (mDataItemCache ob))" "c \<noteq> 0"
  shows "\<exists>items. sendCachedDataItems s c ob = (if s = [] then [] else [ClientNotify c items]) \<and> distinct (map fst items) \<and>
    set items = {(d, v). d \<in> set s \<and> map_of (mDataItemCache ob) d = Some v}"
proof -
  let ?f = "\<lambda>each ds. case map_of (mDataItemCache ob) each of Some v \<Rightarrow> (each, v) # ds | None \<Rightarrow> ds"
  have "set s \<subseteq> dom (map_of (mDataItemCache ob)) \<Longrightarrow> fold ?f s ds = rev (map (\<lambda>d. (d, the (map_of (mDataItemCache ob) d))) s) @ ds" for ds
    by (induction s arbitrary: ds) auto
  with assms(2) have "fold ?f s [] = rev (map (\<lambda>d. (d, the (map_of (mDataItemCache ob) d))) s)" (is "_ = ?items") by simp
  moreover have "distinct (map fst ?items)" using assms(1) by (simp add: rev_map[symmetric] comp_def)
  moreover have "set ?items = {(d, v). d \<in> set s \<and> map_of (mDataItemCache ob) d = Some v}" using assms(2) by force
  ultimately show ?thesis using assms(3) by (auto simp: sendCachedDataItems_def intro!: exI[of _ ?items])
qed

lemma notify_keeps:
  assumes "notify_proc lib now ds ob = (ob', out)"
  shows "mClientToDataItems ob' = mClientToDataItems ob \<and> mDataItemToClients ob' = mDataItemToClients ob \<and>
    mSubscriptionObj ob' = mSubscriptionObj ob \<and> fw_subscribed out = {} \<and> fw_unsubscribed out = {}"
proof -
  obtain ids ob1 where c: "cache_items lib now ds [] ob = (ids, ob1)" by fastforce
  have "fw_subscribed (concat (map (\<lambda>c. sendCachedDataItems (f c) c ob1) cs)) = {} \<and>
      fw_unsubscribed (concat (map (\<lambda>c. sendCachedDataItems (f c) c ob1) cs)) = {}" for f cs
    by (induction cs) simp_all
  with assms c cache_items_keeps[OF c] show ?thesis by (auto simp: notify_proc_def)
qed

text \<open>The notifications one client gets among those of several.\<close>

lemma one_client:
  assumes "distinct cs" "\<And>k x. x \<in> set (f k) \<Longrightarrow> \<exists>is. x = ClientNotify k is"
  shows "filter (\<lambda>x. \<exists>is. x = ClientNotify c is) (concat (map f cs)) = (if c \<in> set cs then f c else [])"
  using assms(1)
proof (induction cs)
  case (Cons k cs)
  have "filter (\<lambda>x. \<exists>is. x = ClientNotify c is) (f k) = (if k = c then f c else [])"
  proof (cases "k = c")
    case True
    then show ?thesis using assms(2) by (auto simp: filter_id_conv)
  next
    case False
    then show ?thesis using assms(2)[of _ k] by (auto simp: filter_empty_conv)
  qed
  with Cons show ?case by auto
qed simp

section \<open>All messages\<close>

fun spec_subscribed :: "'i obs_msg \<Rightarrow> (dclient \<times> DataItemId) set \<Rightarrow> (dclient \<times> DataItemId) set \<Rightarrow> DataItemId set" where
  "spec_subscribed (SetSubsObj subs) R R' = Range R'"
| "spec_subscribed (HandleSubscribeReq l c r) R R' = (if r then {} else Range R' - Range R)"
| "spec_subscribed _ R R' = Range R' - Range R"

definition obs_good :: "'i os_observer \<Rightarrow> bool" where
  "obs_good ob \<longleftrightarrow> paired ob \<and> smap_ok (mDataItemCache ob)"

lemma proc_cache:
  assumes "smap_ok (mDataItemCache ob)" "obs_proc stale lib m ob = Some (ob', out)"
  shows "smap_ok (mDataItemCache ob')"
proof -
  obtain now msg where m: "m = (now, msg)" by fastforce
  show ?thesis
  proof (cases msg)
    case (HandleNotify ds)
    obtain ids ob1 where c: "cache_items lib now ds [] ob = (ids, ob1)" by fastforce
    from cache_items_cached[OF assms(1) _ c] assms(2) c show ?thesis by (auto simp: m HandleNotify notify_proc_def)
  qed (use assms in \<open>auto simp: m subscribe_proc_def update_proc_def unsubscribe_proc_def unsubscribeAll_proc_def
      Let_def bind_eq_Some_conv case_prod_unfold split: if_splits\<close>)
qed

lemma proper_update: "proper (now, HandleUpdateSubscriptionReq l c) ob \<Longrightarrow> wants ob `` {c} = {}"
  using getValSet_rel[of c "mClientToDataItems ob"] by (simp add: proper_def wants_def)

lemma proc_step:
  assumes "paired ob" "proper m ob"
  shows "\<exists>ob' out. obs_proc True lib m ob = Some (ob', out) \<and> paired ob' \<and> wants ob' = spec_wants (snd m) (wants ob) \<and>
    fw_subscribed out = (if mSubscriptionObj ob' = None then {} else spec_subscribed (snd m) (wants ob) (wants ob')) \<and>
    fw_unsubscribed out = (if mSubscriptionObj ob' = None then {} else Range (wants ob) - Range (wants ob'))"
proof -
  obtain now msg where m: "m = (now, msg)" by fastforce
  show ?thesis
  proof (cases msg)
    case (SetSubsObj subs)
    have "Range (wants ob) = set (getKeys (mDataItemToClients ob))"
      using set_getKeys[of "mDataItemToClients ob"] setmap_domain[OF paired_D(2)[OF assms(1)]] paired_D(3)[OF assms(1)]
      by (simp add: wants_def)
    moreover have "setmap_empty (mDataItemToClients ob) \<Longrightarrow> getKeys (mDataItemToClients ob) = []"
      by (simp add: setmap_empty_def getKeys_def)
    ultimately show ?thesis using assms(1) by (auto simp: m SetSubsObj Let_def paired_def wants_def)
  next
    case (HandleSubscribeReq l c r)
    obtain ob' out where p: "subscribe_proc l c r ob = (ob', out)" by fastforce
    from subscribe_step[OF assms(1) p] p show ?thesis by (auto simp: m HandleSubscribeReq)
  next
    case (HandleUpdateSubscriptionReq l c)
    note fresh = proper_update[OF assms(2)[unfolded m HandleUpdateSubscriptionReq]]
    show ?thesis
    proof (cases "l = []")
      case True
      have "setmap_rel (sm_erase c (mClientToDataItems ob)) = wants ob"
        using setmap_rel_erase[OF setmap_ok_smap[OF paired_D(1)[OF assms(1)]], of c] fresh by (auto simp: wants_def)
      moreover have "wants ob - {c} \<times> UNIV = wants ob" using fresh by auto
      ultimately show ?thesis using True assms(1) setmap_ok_erase[OF paired_D(1)[OF assms(1)], of c]
        by (simp add: m HandleUpdateSubscriptionReq update_step_empty Let_def paired_def wants_def)
    next
      case False
      have w: "wants ob - {c} \<times> UNIV = wants ob" using fresh by auto
      from update_step[OF assms(1) False, of c] obtain ob' out where
        u: "update_proc True l c ob = Some (ob', out)" "setmap_ok (mClientToDataItems ob')" "setmap_ok (mDataItemToClients ob')"
          "wants ob' = wants ob \<union> {c} \<times> set l" "setmap_rel (mDataItemToClients ob') = (wants ob)\<inverse> \<union> set l \<times> {c}"
          "mSubscriptionObj ob' = mSubscriptionObj ob" "fw_unsubscribed out = {}"
          "fw_subscribed out = (if mSubscriptionObj ob = None then {} else Range (wants ob') - Range (wants ob))"
        by (auto simp: fresh w)
      then have "paired ob'" "Range (wants ob) - Range (wants ob') = {}" by (auto simp: paired_def)
      with u show ?thesis by (intro exI[of _ ob'] exI[of _ out]) (simp add: m HandleUpdateSubscriptionReq w)
    qed
  next
    case (HandleUnsubscribeReq l c)
    from unsubscribe_step[OF assms(1), of l c] obtain ob' out where
      u: "unsubscribe_proc True l c ob = Some (ob', out)" "paired ob'" "wants ob' = wants ob - {c} \<times> set l" "fw_subscribed out = {}"
        "mSubscriptionObj ob' = mSubscriptionObj ob"
        "fw_unsubscribed out = (if mSubscriptionObj ob = None then {} else Range (wants ob) - Range (wants ob'))" by blast
    from u(3) have "Range (wants ob') - Range (wants ob) = {}" by auto
    with u show ?thesis by (intro exI[of _ ob'] exI[of _ out]) (simp add: m HandleUnsubscribeReq)
  next
    case (HandleUnsubscribeAllReq c)
    from unsubscribeAll_step[OF assms(1), of c] obtain ob' out where
      u: "unsubscribeAll_proc True c ob = Some (ob', out)" "paired ob'" "wants ob' = wants ob - {c} \<times> UNIV" "fw_subscribed out = {}"
        "mSubscriptionObj ob' = mSubscriptionObj ob"
        "fw_unsubscribed out = (if mSubscriptionObj ob = None then {} else Range (wants ob) - Range (wants ob'))" by blast
    from u(3) have "Range (wants ob') - Range (wants ob) = {}" by auto
    with u show ?thesis by (intro exI[of _ ob'] exI[of _ out]) (simp add: m HandleUnsubscribeAllReq)
  next
    case (HandleNotify ds)
    obtain ob' out where p: "notify_proc lib now ds ob = (ob', out)" by fastforce
    from notify_keeps[OF p] p assms(1) show ?thesis by (auto simp: m HandleNotify paired_def wants_def)
  qed (use assms(1) in \<open>auto simp: m fw_subscribed_def fw_unsubscribed_def\<close>)
qed

lemma new_observer_good: "obs_good new_observer" "wants new_observer = {}"
  by (simp_all add: obs_good_def paired_def wants_def new_observer_def setmap_ok_def setmap_rel_def)

lemma run_good:
  "obs_good ob \<Longrightarrow> admitted (obs_proc True lib) proper ops ob \<Longrightarrow>
   \<exists>ob' out. run (obs_proc True lib) ops ob = Some (ob', out) \<and> obs_good ob' \<and>
     wants ob' = fold (\<lambda>m. spec_wants (snd m)) ops (wants ob)"
proof (induction ops arbitrary: ob)
  case (Cons m ops)
  from proc_step[of ob m lib] Cons.prems obtain ob1 out1 where
    s: "obs_proc True lib m ob = Some (ob1, out1)" "paired ob1" "wants ob1 = spec_wants (snd m) (wants ob)"
    by (auto simp: obs_good_def)
  then have "obs_good ob1" "admitted (obs_proc True lib) proper ops ob1"
    using Cons.prems proc_cache[OF _ s(1)] by (auto simp: obs_good_def)
  from Cons.IH[OF this] s(1,3) show ?case by auto
qed simp

lemma run_state:
  assumes "admitted (obs_proc True lib) proper ops new_observer" "run (obs_proc True lib) ops new_observer = Some (ob, out)"
  shows "obs_good ob" "wants ob = fold (\<lambda>m. spec_wants (snd m)) ops {}"
  using run_good[OF new_observer_good(1) assms(1)] assms(2) by (auto simp: new_observer_good(2))

lemma fst_graph: "S \<subseteq> dom f \<Longrightarrow> fst ` {(d, v). d \<in> S \<and> f d = Some v} = S"
  by (force simp: image_iff)

lemma sendCached_to: "x \<in> set (sendCachedDataItems s c ob) \<Longrightarrow> \<exists>items. x = ClientNotify c items"
  by (auto simp: sendCachedDataItems_def Let_def split: if_splits)

text \<open>The notifications of one client, for the items that changed.\<close>

lemma notify_one_client:
  assumes "cache_items lib now ds [] ob = (ids, ob1)" "notify_proc lib now ds ob = (ob', out)"
  shows "filter (\<lambda>x. \<exists>items. x = ClientNotify c items) out =
    (if c \<in> setmap_rel (mDataItemToClients ob) `` set ids
     then sendCachedDataItems (filter (\<lambda>d. d \<in> set ids) (getValSet c (mClientToDataItems ob))) c ob1 else []) \<and> ob' = ob1"
proof -
  let ?f = "\<lambda>k. sendCachedDataItems (filter (\<lambda>d. d \<in> set ids) (getValSet k (mClientToDataItems ob))) k ob1"
  have out: "out = concat (map ?f (clients_of ids ob1))" "ob' = ob1"
    using assms cache_items_keeps[OF assms(1)] by (auto simp: notify_proc_def)
  have "filter (\<lambda>x. \<exists>items. x = ClientNotify c items) (concat (map ?f (clients_of ids ob1))) =
      (if c \<in> set (clients_of ids ob1) then ?f c else [])"
    by (rule one_client) (use clients_of_spec[of ids ob1] sendCached_to in blast)+
  with out clients_of_spec[of ids ob1] cache_items_keeps[OF assms(1)] show ?thesis by simp
qed

lemma cache_one_item: "cache_items lib now [Some (d, v)] [] ob = (ids, ob1) \<Longrightarrow> set ids \<subseteq> {d}"
  by (auto simp: Let_def split: prod.splits if_splits)

section \<open>Erased nodes\<close>

lemma trimOrRemove_strict:
  "setmap_ok m \<Longrightarrow> trimOrRemove False ks rv (Some g) gv m =
     (if \<exists>k\<in>set ks. k \<in> Domain (setmap_rel m) \<and> setmap_rel m `` {k} \<subseteq> set rv then None
      else trimOrRemove True ks rv (Some g) gv m)"
proof (induction ks arbitrary: gv m)
  case (Cons k ks)
  show ?case
  proof (cases "map_of m k")
    case None
    then have "k \<notin> Domain (setmap_rel m)" by (auto simp: setmap_rel_def)
    with None Cons show ?thesis by simp blast
  next
    case (Some vals)
    obtain removed g1 m1 where e: "trim_entry k vals rv gv m = (removed, g1, m1)" by (metis prod_cases3)
    note s = trim_entry_spec[OF Cons.prems Some e]
    have k: "k \<in> Domain (setmap_rel m)" using Some setmap_domain[OF Cons.prems] by auto
    have r: "removed \<longleftrightarrow> setmap_rel m `` {k} \<subseteq> set rv" using s by auto
    show ?thesis
    proof (cases removed)
      case True
      with Some e k r show ?thesis by auto
    next
      case False
      have same: "(j \<in> Domain (setmap_rel m1) \<and> setmap_rel m1 `` {j} \<subseteq> set rv) =
          (j \<in> Domain (setmap_rel m) \<and> setmap_rel m `` {j} \<subseteq> set rv)" for j
      proof (cases "j = k")
        case True
        have "setmap_rel m1 `` {k} = setmap_rel m `` {k} - set rv" using s by auto
        with False r True show ?thesis by auto
      next
        case False
        then have "setmap_rel m1 `` {j} = setmap_rel m `` {j}" "j \<in> Domain (setmap_rel m1) \<longleftrightarrow> j \<in> Domain (setmap_rel m)"
          using s by auto
        then show ?thesis by simp
      qed
      have ok1: "setmap_ok m1" using s by simp
      from False Some e k r Cons.IH[OF ok1, of g1] show ?thesis by (simp add: same) blast
    qed
  qed
qed simp

text \<open>
  As the language defines it, unsubscribing is defined only while the client keeps another item and
  every dropped item keeps another client: otherwise the key of an erased entry is read.
\<close>

theorem unsubscribe_reads_erased_key:
  assumes "paired ob"
  shows "(unsubscribe_proc False l c ob = None) \<longleftrightarrow> wants ob `` {c} \<inter> set l \<noteq> {} \<and>
    (wants ob `` {c} \<subseteq> set l \<or> (\<exists>d\<in>wants ob `` {c} \<inter> set l. \<forall>k. (k, d) \<in> wants ob \<longrightarrow> k = c))"
proof -
  from trimOrRemove_spec[OF paired_D(1)[OF assms], of "[c]" "list_to_set l" "Some []" "Some []"]
  obtain gk unused c2d where t: "trimOrRemove True [c] (list_to_set l) (Some []) (Some []) (mClientToDataItems ob) = Some (gk, unused, c2d)"
      "set (the unused) = wants ob `` {c} \<inter> set l"
    by (auto simp: wants_def)
  from trimOrRemove_spec[OF paired_D(2)[OF assms], of "the unused" "[c]" "Some []" None]
  have two: "trimOrRemove True (the unused) [c] (Some []) None (mDataItemToClients ob) \<noteq> None" by auto
  have one: "(\<exists>k\<in>set [c]. k \<in> Domain (setmap_rel (mClientToDataItems ob)) \<and>
      setmap_rel (mClientToDataItems ob) `` {k} \<subseteq> set (list_to_set l)) \<longleftrightarrow> wants ob `` {c} \<noteq> {} \<and> wants ob `` {c} \<subseteq> set l"
    by (auto simp: wants_def)
  have last: "(\<exists>d\<in>set (the unused). d \<in> Domain (setmap_rel (mDataItemToClients ob)) \<and>
      setmap_rel (mDataItemToClients ob) `` {d} \<subseteq> set [c]) \<longleftrightarrow>
      (\<exists>d\<in>wants ob `` {c} \<inter> set l. \<forall>k. (k, d) \<in> wants ob \<longrightarrow> k = c)"
    unfolding t(2) paired_D(3)[OF assms] by (auto simp: wants_def)
  show ?thesis
    unfolding unsubscribe_proc_def trimOrRemove_strict[OF paired_D(1)[OF assms]] one
    using trimOrRemove_strict[OF paired_D(2)[OF assms], of "the unused" "[c]" "[]" None, unfolded last] t two
    by (cases "wants ob `` {c} \<noteq> {} \<and> wants ob `` {c} \<subseteq> set l") (auto simp: Let_def)
qed

lemma unsubscribeAll_reads_erased_key:
  assumes "paired ob"
  shows "(unsubscribeAll_proc False c ob = None) \<longleftrightarrow> (\<exists>d\<in>wants ob `` {c}. \<forall>k. (k, d) \<in> wants ob \<longrightarrow> k = c)"
proof (cases "getValSet c (mClientToDataItems ob) = []")
  case True
  then have "wants ob `` {c} = {}" using getValSet_rel[of c "mClientToDataItems ob"] by (simp add: wants_def)
  with True show ?thesis by (simp add: unsubscribeAll_proc_def)
next
  case False
  let ?ds = "getValSet c (mClientToDataItems ob)"
  have ds: "set ?ds = wants ob `` {c}" using getValSet_rel[of c "mClientToDataItems ob"] by (simp add: wants_def)
  have last: "(\<exists>d\<in>set ?ds. d \<in> Domain (setmap_rel (mDataItemToClients ob)) \<and>
      setmap_rel (mDataItemToClients ob) `` {d} \<subseteq> set [c]) \<longleftrightarrow> (\<exists>d\<in>wants ob `` {c}. \<forall>k. (k, d) \<in> wants ob \<longrightarrow> k = c)"
    unfolding ds paired_D(3)[OF assms] by (auto simp: wants_def)
  from trimOrRemove_spec[OF paired_D(2)[OF assms], of ?ds "[c]" "Some []" None]
  have "trimOrRemove True ?ds [c] (Some []) None (mDataItemToClients ob) \<noteq> None" by auto
  with False trimOrRemove_strict[OF paired_D(2)[OF assms], of ?ds "[c]" "[]" None, unfolded last] show ?thesis
    by (auto simp: unsubscribeAll_proc_def Let_def)
qed

text \<open>A defined message does the same whatever erased memory holds.\<close>

lemma trimOrRemove_same:
  "setmap_ok m \<Longrightarrow> trimOrRemove False ks rv (Some g) gv m \<noteq> None \<Longrightarrow>
   trimOrRemove False ks rv (Some g) gv m = trimOrRemove True ks rv (Some g) gv m"
  by (auto simp: trimOrRemove_strict split: if_splits)

lemma unsubscribe_same:
  assumes "paired ob" "unsubscribe_proc False l c ob \<noteq> None"
  shows "unsubscribe_proc False l c ob = unsubscribe_proc True l c ob"
  using assms(2) trimOrRemove_same[OF paired_D(1)[OF assms(1)], of "[c]" "list_to_set l" "[]" "Some []"]
    trimOrRemove_same[OF paired_D(2)[OF assms(1)], of _ "[c]" "[]" None]
  by (auto simp: unsubscribe_proc_def Let_def bind_eq_None_conv split: prod.splits Option.bind_splits)

lemma unsubscribeAll_same:
  assumes "paired ob" "unsubscribeAll_proc False c ob \<noteq> None"
  shows "unsubscribeAll_proc False c ob = unsubscribeAll_proc True c ob"
  using assms(2) trimOrRemove_same[OF paired_D(2)[OF assms(1)], of _ "[c]" "[]" None]
  by (auto simp: unsubscribeAll_proc_def Let_def split: prod.splits Option.bind_splits if_splits)

lemma interset_fresh: "interset_loop stale bs [] s2 common = Some (common, [], s2)"
  by (induction bs) simp_all

lemma update_same:
  assumes "wants ob `` {c} = {}"
  shows "update_proc False l c ob = update_proc True l c ob"
proof -
  have "getValSet c (mClientToDataItems ob) = []"
    using assms getValSet_rel[of c "mClientToDataItems ob"] by (simp add: wants_def)
  then show ?thesis by (simp add: update_proc_def setmap_update_def removeAndReturnInterset_def interset_fresh)
qed

text \<open>
  The messages the language defines, on the relation: a client that unsubscribes keeps another item and
  leaves every item to another client. An update is admitted only for a client without a subscription.
\<close>

fun lawful_msg :: "'i obs_msg \<Rightarrow> (dclient \<times> DataItemId) set \<Rightarrow> bool" where
  "lawful_msg (HandleUpdateSubscriptionReq l c) R \<longleftrightarrow> R `` {c} = {}"
| "lawful_msg (HandleUnsubscribeReq l c) R \<longleftrightarrow> R `` {c} \<inter> set l = {} \<or>
     (\<not> R `` {c} \<subseteq> set l \<and> (\<forall>d\<in>R `` {c} \<inter> set l. \<exists>k. k \<noteq> c \<and> (k, d) \<in> R))"
| "lawful_msg (HandleUnsubscribeAllReq c) R \<longleftrightarrow> (\<forall>d\<in>R `` {c}. \<exists>k. k \<noteq> c \<and> (k, d) \<in> R)"
| "lawful_msg _ R \<longleftrightarrow> True"

fun lawful :: "(nat \<times> 'i obs_msg) list \<Rightarrow> (dclient \<times> DataItemId) set \<Rightarrow> bool" where
  "lawful [] R \<longleftrightarrow> True"
| "lawful (m # ms) R \<longleftrightarrow> lawful_msg (snd m) R \<and> lawful ms (spec_wants (snd m) R)"

lemma lawful_iff:
  assumes "paired ob"
  shows "obs_proc False lib (now, HandleUnsubscribeReq l c) ob = None \<longleftrightarrow> \<not> lawful_msg (HandleUnsubscribeReq l c) (wants ob)"
    "obs_proc False lib (now, HandleUnsubscribeAllReq c) ob = None \<longleftrightarrow> \<not> lawful_msg (HandleUnsubscribeAllReq c) (wants ob)"
  by (simp_all only: obs_proc.simps lawful_msg.simps unsubscribe_reads_erased_key[OF assms] unsubscribeAll_reads_erased_key[OF assms])
    blast+

lemma lawful_same:
  assumes "paired ob" "lawful_msg (snd m) (wants ob)"
  shows "obs_proc False lib m ob = obs_proc True lib m ob"
proof -
  obtain now msg where m: "m = (now, msg)" by fastforce
  show ?thesis
  proof (cases msg)
    case (HandleUpdateSubscriptionReq l c)
    then show ?thesis using update_same assms(2) by (simp add: m)
  next
    case (HandleUnsubscribeReq l c)
    have "unsubscribe_proc False l c ob \<noteq> None"
      using lawful_iff(1)[OF assms(1), of lib now l c] assms(2) unfolding m snd_conv HandleUnsubscribeReq obs_proc.simps by blast
    from unsubscribe_same[OF assms(1) this] show ?thesis by (simp add: m HandleUnsubscribeReq)
  next
    case (HandleUnsubscribeAllReq c)
    have "unsubscribeAll_proc False c ob \<noteq> None"
      using lawful_iff(2)[OF assms(1), of lib now c] assms(2) unfolding m snd_conv HandleUnsubscribeAllReq obs_proc.simps by blast
    from unsubscribeAll_same[OF assms(1) this] show ?thesis by (simp add: m HandleUnsubscribeAllReq)
  qed (simp_all add: m)
qed

lemma lawful_proper: "lawful_msg (snd m) (wants ob) \<Longrightarrow> proper m ob"
  by (auto simp: proper_def wants_def getValSet_rel[symmetric] split: obs_msg.splits)


section \<open>Changes\<close>

text \<open>
  When the value \<open>v\<close> reported for the item \<open>d\<close> is a change, and what is passed on for it. The status
  system records the item, does not ignore the value and, once it is put together with the last one,
  finds it different from it; and the cache either gets its first value of the item or says that its
  copy of it was updated.
\<close>

definition changes :: "'i item_library \<Rightarrow> 'i os_observer \<Rightarrow> DataItemId \<Rightarrow> 'i \<Rightarrow> bool" where
  "changes lib ob d v \<longleftrightarrow> d \<in> set recorded_items \<and> \<not> ignore (classes lib d) v \<and>
     (mReports ob d \<noteq> [] \<longrightarrow> \<not> equals (classes lib d) (snd (last (mReports ob d)))
        (collate (classes lib d) v (snd (last (mReports ob d))))) \<and>
     (case map_of (mDataItemCache ob) d of None \<Rightarrow> createNewDataItem lib d \<noteq> None | Some old \<Rightarrow> snd (copy lib old v))"

definition next_value :: "'i item_library \<Rightarrow> 'i os_observer \<Rightarrow> DataItemId \<Rightarrow> 'i \<Rightarrow> 'i" where
  "next_value lib ob d v =
     fst (copy lib (case map_of (mDataItemCache ob) d of None \<Rightarrow> the (createNewDataItem lib d) | Some old \<Rightarrow> old) v)"

definition reported_ids :: "(DataItemId \<times> 'i) option list \<Rightarrow> DataItemId list" where
  "reported_ids ds = List.map_filter (map_option fst) ds"

lemma reported_ids_simps [simp]:
  "reported_ids [] = []" "reported_ids (None # ds) = reported_ids ds" "reported_ids (Some x # ds) = fst x # reported_ids ds"
  by (simp_all add: reported_ids_def)

lemma set_reported_ids: "d \<in> set (reported_ids ds) \<longleftrightarrow> (\<exists>v. Some (d, v) \<in> set ds)"
  by (induction ds) (auto simp: reported_ids_def split: option.splits)

lemma updateCache_spec:
  assumes "smap_ok (mDataItemCache ob)" "updateCache lib now (Some (d, v)) ob = (b, ob')"
  shows "b = changes lib ob d v \<and> (b \<longrightarrow> map_of (mDataItemCache ob') d = Some (next_value lib ob d v)) \<and>
    (\<forall>e. e \<noteq> d \<longrightarrow> map_of (mDataItemCache ob') e = map_of (mDataItemCache ob) e \<and> mReports ob' e = mReports ob e)"
  using assms
  by (cases "map_of (mDataItemCache ob) d"; cases "createNewDataItem lib d")
    (auto simp: updateCache_def eventDataItemNotify_def setIteminReport_def changes_def next_value_def Let_def sm.find_put
      split: if_splits prod.splits)

lemma cache_items_spec:
  "smap_ok (mDataItemCache ob) \<Longrightarrow> distinct (reported_ids ds) \<Longrightarrow> cache_items lib now ds ids ob = (ids', ob') \<Longrightarrow>
   set ids' = set ids \<union> {d. \<exists>v. Some (d, v) \<in> set ds \<and> changes lib ob d v} \<and>
   (\<forall>d v. Some (d, v) \<in> set ds \<and> changes lib ob d v \<longrightarrow> map_of (mDataItemCache ob') d = Some (next_value lib ob d v)) \<and>
   (\<forall>e. e \<notin> set (reported_ids ds) \<longrightarrow> map_of (mDataItemCache ob') e = map_of (mDataItemCache ob) e)"
proof (induction ds arbitrary: ids ob)
  case (Cons x ds)
  show ?case
  proof (cases x)
    case None
    with Cons.prems Cons.IH[of ob ids] show ?thesis by (simp add: updateCache_def)
  next
    case (Some dv)
    obtain d v where x: "x = Some (d, v)" using Some by (cases dv) auto
    obtain b ob1 where u: "updateCache lib now (Some (d, v)) ob = (b, ob1)" by fastforce
    note c = updateCache_spec[OF Cons.prems(1) u]
    have same: "changes lib ob1 e w = changes lib ob e w" "next_value lib ob1 e w = next_value lib ob e w" if "e \<noteq> d" for e w
      using c that by (simp_all add: changes_def next_value_def)
    have fresh: "Some (d, w) \<notin> set ds" for w using Cons.prems(2) by (auto simp: x set_reported_ids)
    have "cache_items lib now ds (if b then List.insert d ids else ids) ob1 = (ids', ob')"
      using Cons.prems(3) u by (cases b) (auto simp: x)
    from Cons.IH[OF _ _ this] updateCache_cached[OF Cons.prems(1) u] Cons.prems(2)
    have ih: "set ids' = set (if b then List.insert d ids else ids) \<union> {e. \<exists>w. Some (e, w) \<in> set ds \<and> changes lib ob1 e w}"
      "\<And>e w. Some (e, w) \<in> set ds \<Longrightarrow> changes lib ob1 e w \<Longrightarrow> map_of (mDataItemCache ob') e = Some (next_value lib ob1 e w)"
      "\<And>e. e \<notin> set (reported_ids ds) \<Longrightarrow> map_of (mDataItemCache ob') e = map_of (mDataItemCache ob1) e"
      by (simp_all add: x)
    have 1: "set ids' = set ids \<union> {e. \<exists>w. Some (e, w) \<in> set (x # ds) \<and> changes lib ob e w}"
    proof -
      have "{e. \<exists>w. Some (e, w) \<in> set ds \<and> changes lib ob1 e w} = {e. \<exists>w. Some (e, w) \<in> set ds \<and> changes lib ob e w}"
        using same(1) fresh by (metis (no_types, opaque_lifting))
      moreover have "set (if b then List.insert d ids else ids) = set ids \<union> {e. e = d \<and> changes lib ob d v}" using c by auto
      ultimately show ?thesis using ih(1) unfolding x by auto
    qed
    have 2: "map_of (mDataItemCache ob') e = Some (next_value lib ob e w)" if "Some (e, w) \<in> set (x # ds)" "changes lib ob e w" for e w
    proof (cases "e = d")
      case True
      with that fresh x have "w = v" by auto
      with True ih(3)[of d] fresh c that(2) show ?thesis by (simp add: set_reported_ids)
    next
      case False
      with that x ih(2)[of e w] same[OF False] show ?thesis by simp
    qed
    show ?thesis using 1 2 ih(3) c by (auto simp: x)
  qed
qed simp

section \<open>Theorems\<close>

lemma lawful_run:
  "obs_good ob \<Longrightarrow> lawful ops (wants ob) \<Longrightarrow>
   \<exists>ob' out. run (obs_proc False lib) ops ob = Some (ob', out) \<and> obs_good ob' \<and>
     wants ob' = fold (\<lambda>m. spec_wants (snd m)) ops (wants ob)"
proof (induction ops arbitrary: ob)
  case (Cons m ops)
  have p: "paired ob" "lawful_msg (snd m) (wants ob)" using Cons.prems by (simp_all add: obs_good_def)
  from proc_step[OF p(1) lawful_proper[OF p(2)], of lib] lawful_same[OF p, of lib] obtain ob1 out1 where
    s: "obs_proc False lib m ob = Some (ob1, out1)" "paired ob1" "wants ob1 = spec_wants (snd m) (wants ob)" by auto
  then have "obs_good ob1" "lawful ops (wants ob1)"
    using Cons.prems proc_cache[OF _ s(1)] by (auto simp: obs_good_def)
  from Cons.IH[OF this] s(1,3) show ?case by auto
qed simp

lemma lawful_state:
  assumes "lawful ops {}" "run (obs_proc False lib) ops new_observer = Some (ob, out)"
  shows "obs_good ob"
  using lawful_run[OF new_observer_good(1), of ops lib] assms by (auto simp: new_observer_good(2))


text \<open>
  C31. In every state such a sequence leads to, a report of the framework in which no item occurs twice
  reaches exactly the clients it concerns. The items that changed are those the status system records,
  whose value is not ignored and, put together with the last recorded one, not equal to it, and for which
  the cache gets its first value or says that its copy was updated (what ignoring, putting together,
  comparing and copying do is up to the classes of the items). A client is notified once if it wants one
  of the items that changed, with exactly the items that changed and that it wants, each once and with
  the cached value updated by the reported one; a client that wants none of them is not notified.
\<close>

theorem notify_delivers:
  assumes "lawful ops {}" "run (obs_proc False lib) ops new_observer = Some (ob, out0)"
    and once: "distinct (reported_ids ds)" and c: "c \<noteq> 0"
  shows "\<exists>ob' out items. obs_proc False lib (now, HandleNotify ds) ob = Some (ob', out) \<and> wants ob' = wants ob \<and>
    filter (\<lambda>x. \<exists>items. x = ClientNotify c items) out = (if items = [] then [] else [ClientNotify c items]) \<and>
    distinct (map fst items) \<and>
    set items = {(d, next_value lib ob d v) | d v. (c, d) \<in> wants ob \<and> Some (d, v) \<in> set ds \<and> changes lib ob d v}"
proof -
  note good = lawful_state[OF assms(1,2), unfolded obs_good_def]
  obtain ids ob1 where ids: "cache_items lib now ds [] ob = (ids, ob1)" by fastforce
  note spec = cache_items_spec[OF conjunct2[OF good] once ids]
  let ?s = "filter (\<lambda>d. d \<in> set ids) (getValSet c (mClientToDataItems ob))"
  obtain ob2 out where n: "notify_proc lib now ds ob = (ob2, out)" by fastforce
  note one = notify_one_client[OF ids n, of c]
  have s: "set ?s = wants ob `` {c} \<inter> set ids" using getValSet_rel[of c "mClientToDataItems ob"] by (auto simp: wants_def)
  have "distinct (getValSet c (mClientToDataItems ob))"
    using setmap_okD[OF paired_D(1)[OF conjunct1[OF good]], of c] by (auto simp: getValSet_def split: option.splits)
  moreover have cached: "set ids \<subseteq> dom (map_of (mDataItemCache ob1))" using cache_items_cached[OF conjunct2[OF good] _ ids] by simp
  ultimately obtain items where i: "sendCachedDataItems ?s c ob1 = (if ?s = [] then [] else [ClientNotify c items])"
      "distinct (map fst items)" "set items = {(d, v). d \<in> set ?s \<and> map_of (mDataItemCache ob1) d = Some v}"
    using sendCached_spec[of ?s ob1 c] c by auto
  have val: "set items = {(d, next_value lib ob d v) | d v. (c, d) \<in> wants ob \<and> Some (d, v) \<in> set ds \<and> changes lib ob d v}"
    unfolding i(3) s using spec by (auto; metis option.inject)
  have "fst ` set items = set ?s" unfolding i(3) s by (rule fst_graph) (use cached in blast)
  then have none: "items = [] \<longleftrightarrow> ?s = []" by (metis image_is_empty set_empty)
  have "c \<in> setmap_rel (mDataItemToClients ob) `` set ids \<longleftrightarrow> wants ob `` {c} \<inter> set ids \<noteq> {}"
    unfolding paired_D(3)[OF conjunct1[OF good]] by (auto simp: wants_def)
  then have mem: "c \<in> setmap_rel (mDataItemToClients ob) `` set ids \<longleftrightarrow> ?s \<noteq> []" unfolding s[symmetric] set_empty by simp
  have sent: "filter (\<lambda>x. \<exists>items. x = ClientNotify c items) out = (if items = [] then [] else [ClientNotify c items])"
    using one[THEN conjunct1] unfolding mem i(1) none by (cases "?s = []") (simp_all only: if_True if_False not_True_eq_False simp_thms)
  have "wants ob2 = wants ob" using notify_keeps[OF n] by (simp add: wants_def)
  then show ?thesis using n sent i(2) val by (intro exI[of _ ob2] exI[of _ out] exI[of _ items]) (simp only: obs_proc.simps simp_thms)
qed

text \<open>
  A client that updates its subscription and keeps an item loses it: the item stays in the
  client's set, but the client is taken from the item's, so that a change of this item is never
  passed on to it. The code gets there only by advancing an iterator it has erased, which the
  language leaves undefined.
\<close>

theorem update_subscription_loses:
  assumes "admitted (obs_proc True lib) proper ops new_observer" "run (obs_proc True lib) ops new_observer = Some (ob, out0)"
    and kept: "d \<in> set l" "(c, d) \<in> wants ob"
  shows "obs_proc False lib (now, HandleUpdateSubscriptionReq l c) ob = None \<and>
    (\<exists>ob' out. obs_proc True lib (now, HandleUpdateSubscriptionReq l c) ob = Some (ob', out) \<and>
       (c, d) \<in> wants ob' \<and> (d, c) \<notin> setmap_rel (mDataItemToClients ob') \<and>
       (\<forall>later v items. ClientNotify c items \<notin> set (snd (notify_proc lib later [Some (d, v)] ob'))))"
proof -
  note good = run_state(1)[OF assms(1,2), unfolded obs_good_def]
  have ne: "l \<noteq> []" "list_to_set l \<noteq> []" using kept(1) set_list_to_set(1)[of l] by fastforce+
  have "set (list_to_set l) \<inter> setmap_rel (mClientToDataItems ob) `` {c} \<noteq> {}" using kept by (auto simp: wants_def)
  then have strict: "update_proc False l c ob = None"
    using setmap_update_strict[OF ne(2), of c "mClientToDataItems ob"] by (simp add: update_proc_def)
  from update_step[OF conjunct1[OF good] ne(1), of c] kept obtain ob' out where
    u: "update_proc True l c ob = Some (ob', out)" "(c, d) \<in> wants ob'" "(d, c) \<notin> setmap_rel (mDataItemToClients ob')"
    by auto
  have "ClientNotify c items \<notin> set (snd (notify_proc lib later [Some (d, v)] ob'))" for later v items
  proof -
    obtain ids ob1 where i: "cache_items lib later [Some (d, v)] [] ob' = (ids, ob1)" by fastforce
    obtain ob2 out2 where n: "notify_proc lib later [Some (d, v)] ob' = (ob2, out2)" by fastforce
    have "filter (\<lambda>x. \<exists>items. x = ClientNotify c items) out2 = []"
      using notify_one_client[OF i n, of c] cache_one_item[OF i] u(3) by auto
    then show ?thesis using n by (auto simp: filter_empty_conv)
  qed
  with strict u show ?thesis by auto
qed

section \<open>Requests for data and framework modules\<close>

text \<open>
  Requesting the data of an item nobody is subscribed to enters the client as a subscriber without
  subscribing the framework, and a later subscription of any client no longer does so.
\<close>

theorem request_data_is_no_subscription:
  assumes "paired ob" "d \<in> set l" "subscribe_proc l c True ob = (ob1, out1)" "subscribe_proc l2 c2 False ob1 = (ob2, out2)"
  shows "d \<notin> fw_subscribed out1 \<and> d \<notin> fw_subscribed out2 \<and> (c, d) \<in> wants ob2"
  using subscribe_step[OF assms(1,3)] subscribe_step[OF _ assms(4)] assms(2) by (auto split: if_splits)

text \<open>
  A module of the framework is turned on by the first of the requests for it and off by the last
  release: a request and its release leave the counts as they were.
\<close>

theorem turn_on_off:
  assumes "smap_ok (mActiveRequestCount ob)" "mFrameworkActionReqObj ob = Some fw"
    and pos: "\<And>n. map_of (mActiveRequestCount ob) d = Some n \<Longrightarrow> 0 < n"
    and on: "turnOn d t ob = (ob1, on)" and off: "turnOff d ob1 = (ob2, off)"
  shows "map_of (mActiveRequestCount ob2) = map_of (mActiveRequestCount ob) \<and>
    on = (if d \<in> dom (map_of (mActiveRequestCount ob)) then [] else [HandleTurnOnMsg fw d t]) \<and>
    off = (if d \<in> dom (map_of (mActiveRequestCount ob)) then [] else [HandleTurnOffMsg fw d])"
proof (cases "map_of (mActiveRequestCount ob) d")
  case None
  then show ?thesis using assms(1,2) on off
    by (auto simp: turnOn_def turnOff_def sm.find_put sm.find_erase sm.put_ok fun_eq_iff split: if_splits)
next
  case (Some n)
  with pos have "n \<noteq> 0" by auto
  with Some show ?thesis using assms(1,2) on off
    by (auto simp: turnOn_def turnOff_def sm.find_put sm.find_erase sm.put_ok fun_eq_iff split: if_splits)
qed

section \<open>Instances\<close>

definition demo_library :: "nat item_library" where
  "demo_library = \<lparr>createNewDataItem = (\<lambda>_. Some 0), copy = (\<lambda>old new. (new, old \<noteq> new)),
     classes = (\<lambda>_. \<lparr>ignore = (\<lambda>_. False), equals = (=), collate = (\<lambda>new old. new)\<rparr>)\<rparr>"

definition demo_obs :: "(nat \<times> nat obs_msg) list" where
  "demo_obs = [(1, SetSubsObj 9), (2, HandleSubscribeReq [0, 5] 1 False), (3, HandleSubscribeReq [5] 2 False),
     (4, HandleNotify [None, Some (5, 7)])]"

lemmas demo_obs_simps = demo_obs_def demo_library_def new_observer_def proper_def subscribe_proc_def list_to_set_def
  setmap_add_def sm_put_def sm_erase_def setmap_empty_def sendCachedDataItems_def to_framework_def set_to_list_def getKeys_def
  notify_proc_def updateCache_def eventDataItemNotify_def recorded_items_def setIteminReport_def maxItem_def
  clients_of_def getValSetPtr_def getValSet_def List.insert_def

definition demo_observer :: "nat os_observer" where
  "demo_observer = \<lparr>mSubscriptionObj = Some 9, mFrameworkActionReqObj = None, mClientToDataItems = [(1, [5, 0]), (2, [5])],
     mDataItemToClients = [(0, [1]), (5, [2, 1])], mDataItemCache = [(5, 7)], mActiveRequestCount = [],
     mBackHaulConnReqCache = [], mReports = (\<lambda>_. [])(5 := [(4, 7)])\<rparr>"

lemma demo_obs_run: "admitted (obs_proc True demo_library) proper demo_obs new_observer"
  "run (obs_proc True demo_library) demo_obs new_observer =
     Some (demo_observer, [FwSubscribe 9 [5, 0], ClientNotify 1 [(5, 7)], ClientNotify 2 [(5, 7)]])"
  by (simp_all add: demo_obs_simps demo_observer_def)

lemma demo_wants: "wants demo_observer `` {1} = {0, 5}" "(1, 5) \<in> wants demo_observer"
  by (simp_all add: demo_observer_def wants_def getValSet_rel[symmetric] getValSet_def insert_commute)
    (simp add: setmap_rel_def)

lemma demo_lawful: "lawful demo_obs {}"
  by (simp add: demo_obs_def)

lemma demo_obs_strict: "run (obs_proc False demo_library) demo_obs new_observer =
     Some (demo_observer, [FwSubscribe 9 [5, 0], ClientNotify 1 [(5, 7)], ClientNotify 2 [(5, 7)]])"
  by (simp add: demo_obs_simps demo_observer_def)


text \<open>Item 0 is new and item 5 changes; item 14 changes too, but client 1 does not want it.\<close>

theorem notify_delivers_witness:
  "\<exists>ob' out items. obs_proc False demo_library (5, HandleNotify [None, Some (0, 3), Some (5, 8), Some (14, 1)]) demo_observer = Some (ob', out) \<and>
     filter (\<lambda>x. \<exists>items. x = ClientNotify 1 items) out = [ClientNotify 1 items] \<and> set items = {(0, 3), (5, 8)}"
proof -
  let ?ds = "[None, Some (0, 3), Some (5, 8), Some (14, 1)] :: (DataItemId \<times> nat) option list"
  from notify_delivers[OF demo_lawful demo_obs_strict, of ?ds 1 5] obtain ob' out items where
    n: "obs_proc False demo_library (5, HandleNotify ?ds) demo_observer = Some (ob', out)"
      "filter (\<lambda>x. \<exists>items. x = ClientNotify 1 items) out = (if items = [] then [] else [ClientNotify 1 items])"
      "set items = {(d, next_value demo_library demo_observer d v) | d v. (1, d) \<in> wants demo_observer \<and> Some (d, v) \<in> set ?ds \<and>
         changes demo_library demo_observer d v}" by auto
  have "(1, d) \<in> wants demo_observer \<longleftrightarrow> d \<in> {0, 5}" for d using demo_wants(1) by (metis Image_singleton_iff)
  moreover have "changes demo_library demo_observer 0 3" "changes demo_library demo_observer 5 8"
    by (simp_all add: changes_def demo_library_def demo_observer_def recorded_items_def)
  moreover have "next_value demo_library demo_observer 0 3 = 3" "next_value demo_library demo_observer 5 8 = 8"
    by (simp_all add: next_value_def demo_library_def demo_observer_def)
  ultimately have "set items = {(0, 3), (5, 8)}" unfolding n(3) by auto
  with n(2) have "set items = {(0, 3), (5, 8)}" "filter (\<lambda>x. \<exists>items. x = ClientNotify 1 items) out = [ClientNotify 1 items]"
    by auto
  with n(1) show ?thesis by blast
qed

theorem update_subscription_loses_witness:
  "\<exists>ob' out. obs_proc False demo_library (5, HandleUpdateSubscriptionReq [5, 2] 1) demo_observer = None \<and>
     obs_proc True demo_library (5, HandleUpdateSubscriptionReq [5, 2] 1) demo_observer = Some (ob', out) \<and>
     (1, 5) \<in> wants ob' \<and> (5, 1) \<notin> setmap_rel (mDataItemToClients ob')"
  using update_subscription_loses[OF demo_obs_run, of 5 "[5, 2]" 1 5] demo_wants(2) by auto

end
