(* ===== verification/CfgText.thy ===== *)
theory CfgText
  imports Prelude
begin

text \<open>
  The text functions under the configuration files: \<open>loc_util_trim_space\<close> and
  \<open>loc_util_split_string\<close> of \<open>gps/utils/loc_misc_utils.cpp\<close>, and what the code uses of the C library
  (\<open>isspace\<close>, \<open>strtok_r\<close>, \<open>strtol\<close>, \<open>atoi\<close>, \<open>strlcpy\<close>, \<open>fgets\<close>). A C string is the list of the
  characters before its terminator; where a function works on the memory of a string, the buffer
  with its terminator is a list of characters. \<open>long\<close> has 64 bits.
\<close>

section \<open>The C library\<close>

definition NUL :: char where
  "NUL = CHR 0x00"

definition newline :: char where
  "newline = CHR 0x0A"

definition isspace :: "char \<Rightarrow> bool" where
  "isspace c \<longleftrightarrow> c \<in> set [CHR 0x20, CHR 0x09, CHR 0x0A, CHR 0x0B, CHR 0x0C, CHR 0x0D]"

definition c_string :: "char list \<Rightarrow> string" where
  "c_string buf = takeWhile (\<lambda>c. c \<noteq> NUL) buf"

definition strlcpy :: "string \<Rightarrow> nat \<Rightarrow> string" where
  "strlcpy src len = take (len - 1) src"

text \<open>\<open>strtok_r\<close> gives the token and the text behind the delimiter that ended it.\<close>

definition strtok_r :: "char list \<Rightarrow> string \<Rightarrow> (string \<times> string) option" where
  "strtok_r delims s =
     (let s = dropWhile (\<lambda>c. c \<in> set delims) s in
      if s = [] then None
      else Some (takeWhile (\<lambda>c. c \<notin> set delims) s, drop 1 (dropWhile (\<lambda>c. c \<notin> set delims) s)))"

text \<open>The value of a digit; a character that is none has a value of at least 36.\<close>

definition digit_value :: "char \<Rightarrow> nat" where
  "digit_value c =
     (let n = of_char c in
      if 48 \<le> n \<and> n \<le> 57 then n - 48
      else if 97 \<le> n \<and> n \<le> 122 then n - 87
      else if 65 \<le> n \<and> n \<le> 90 then n - 55 else 36)"

definition digits :: "nat \<Rightarrow> string \<Rightarrow> string" where
  "digits base s = takeWhile (\<lambda>c. digit_value c < base) s"

definition digits_value :: "nat \<Rightarrow> string \<Rightarrow> nat" where
  "digits_value base s = foldl (\<lambda>n c. n * base + digit_value c) 0 s"

definition strtol :: "string \<Rightarrow> nat \<Rightarrow> int" where
  "strtol s base =
     (let s = dropWhile isspace s;
          negative = (s \<noteq> [] \<and> hd s = CHR ''-'');
          s = (if s \<noteq> [] \<and> (hd s = CHR ''-'' \<or> hd s = CHR ''+'') then tl s else s);
          s = (if base = 16 \<and> length s > 2 \<and> s ! 0 = CHR ''0'' \<and> (s ! 1 = CHR ''x'' \<or> s ! 1 = CHR ''X'')
                 \<and> digit_value (s ! 2) < 16 then drop 2 s else s);
          n = int (digits_value base (digits base s))
      in max (- (2 ^ 63)) (min (2 ^ 63 - 1) (if negative then - n else n)))"

definition atoi :: "string \<Rightarrow> u32" where
  "atoi s = word_of_int (strtol s 10)"

text \<open>\<open>fgets\<close> gives the line it read and what is left of the file, for a buffer of at least two bytes.\<close>

definition fgets :: "nat \<Rightarrow> string \<Rightarrow> (string \<times> string) option" where
  "fgets len content =
     (let n = min (len - 1) (length (takeWhile (\<lambda>c. c \<noteq> newline) content) + 1) in
      if content = [] then None else Some (take n content, drop n content))"

section \<open>Trimming\<close>

text \<open>
  The loop copies from the first character that is no space on to the beginning of the string, and
  remembers where it stood behind the last one; what it has written is \<open>out\<close>.
\<close>

fun trim_loop :: "string \<Rightarrow> bool \<Rightarrow> string \<Rightarrow> nat option \<Rightarrow> string \<times> nat option" where
  "trim_loop [] first_nonspace out last_nonspace = (out, last_nonspace)"
| "trim_loop (c # cs) first_nonspace out last_nonspace =
     (let first_nonspace = (first_nonspace \<or> \<not> isspace c) in
      if first_nonspace
      then (let out = out @ [c] in
        trim_loop cs first_nonspace out (if \<not> isspace c then Some (length out) else last_nonspace))
      else trim_loop cs first_nonspace out last_nonspace)"

definition loc_util_trim_space :: "string \<Rightarrow> string" where
  "loc_util_trim_space org_string = (case trim_loop org_string False [] None of
     (out, Some last_nonspace) \<Rightarrow> take last_nonspace out
   | (out, None) \<Rightarrow> org_string)"

section \<open>Splitting\<close>

text \<open>
  The loop over the buffer: the number of strings, the offsets stored in \<open>split_strings_ptr\<close>, and the
  buffer, in which terminators replace delimiters.
\<close>

fun split_loop :: "char \<Rightarrow> nat \<Rightarrow> nat \<Rightarrow> char list \<Rightarrow> nat \<Rightarrow> nat list \<Rightarrow> char list \<Rightarrow> nat \<times> nat list \<times> char list" where
  "split_loop delimiter max_num i [] num ptrs buf = (num, ptrs, buf)"
| "split_loop delimiter max_num i (c # cs) num ptrs buf =
     (if c = delimiter \<or> c = NUL
      then (let buf = buf[i := NUL]; num = num + 1 in
        if cs \<noteq> [] \<and> num < max_num
        then split_loop delimiter max_num (i + 1) cs num (ptrs @ [i + 1]) buf
        else (num, ptrs, buf))
      else split_loop delimiter max_num (i + 1) cs num ptrs buf)"

text \<open>What the caller sees: the returned number, the strings, and what the split string now reads.\<close>

definition loc_util_split_string :: "string \<Rightarrow> nat \<Rightarrow> char \<Rightarrow> nat \<times> string list \<times> string" where
  "loc_util_split_string raw_string max_num_substrings delimiter =
     (let (num, ptrs, buf) = split_loop delimiter max_num_substrings 0 (raw_string @ [NUL]) 0 [0] (raw_string @ [NUL])
      in (num, map (\<lambda>p. c_string (drop p buf)) ptrs, c_string buf))"

section \<open>References\<close>

definition strip :: "string \<Rightarrow> string" where
  "strip s = rev (dropWhile isspace (rev (dropWhile isspace s)))"

fun split_on :: "char \<Rightarrow> string \<Rightarrow> string list" where
  "split_on d [] = [[]]"
| "split_on d (c # cs) =
     (if c = d then [] # split_on d cs else (c # hd (split_on d cs)) # tl (split_on d cs))"

lemma trim_loop_spaces: "\<forall>c\<in>set s. isspace c \<Longrightarrow> trim_loop s False out l = (out, l)"
  by (induction s) auto

lemma trim_loop_skip: "trim_loop s False [] l = trim_loop (dropWhile isspace s) False [] l"
  by (induction s) auto

lemma dropWhile_rev_snoc: "rev (dropWhile P (rev (xs @ [x]))) = (if P x then rev (dropWhile P (rev xs)) else xs @ [x])"
  by simp

lemma trim_loop_found:
  "trim_loop s True out l = (out @ s,
     (let t = rev (dropWhile isspace (rev s)) in if t = [] then l else Some (length out + length t)))"
proof (induction s arbitrary: out l)
  case (Cons c s)
  let ?t = "rev (dropWhile isspace (rev s))"
  have "rev (dropWhile isspace (rev (c # s))) = (if ?t = [] then (if isspace c then [] else [c]) else c # ?t)"
    by (auto simp: dropWhile_append)
  with Cons.IH[of "out @ [c]"] show ?case by (auto simp: Let_def)
qed simp

text \<open>Trimming removes the spaces at both ends, but leaves a string of spaces alone as it is.\<close>

lemma trim_space_correct:
  "loc_util_trim_space s = (if \<forall>c\<in>set s. isspace c then s else strip s)"
proof (cases "\<forall>c\<in>set s. isspace c")
  case True
  then show ?thesis by (simp add: loc_util_trim_space_def trim_loop_spaces)
next
  case False
  then obtain c t where t: "dropWhile isspace s = c # t" "\<not> isspace c"
    by (cases "dropWhile isspace s") (auto simp: dropWhile_eq_Nil_conv dropWhile_eq_Cons_conv)
  let ?r = "rev (dropWhile isspace (rev t))"
  have "strip s = c # ?r" using t by (simp add: strip_def dropWhile_append)
  moreover have "?r = take (length ?r) t" by (metis append_eq_conv_conj rev_rev_ident rev_append takeWhile_dropWhile_id)
  moreover have "trim_loop s False [] None = trim_loop t True [c] (Some 1)"
    using trim_loop_skip[of s None] t by simp
  moreover have "length (dropWhile isspace (rev t)) \<le> length t" using length_dropWhile_le[of isspace "rev t"] by simp
  ultimately show ?thesis using False trim_loop_found[of t "[c]" "Some 1"]
    by (auto simp: loc_util_trim_space_def Let_def min_absorb2)
qed

lemma split_on_nonempty [simp]: "split_on d s \<noteq> []"
  by (cases s) auto

lemma split_on_chars: "p \<in> set (split_on d s) \<Longrightarrow> set p \<subseteq> set s - {d}"
proof (induction s arbitrary: p)
  case (Cons c s)
  have "hd (split_on d s) \<in> set (split_on d s)" by simp
  moreover have "q \<in> set (tl (split_on d s)) \<Longrightarrow> q \<in> set (split_on d s)" for q by (meson list.set_sel(2) split_on_nonempty)
  ultimately show ?case using Cons by (cases "c = d") fastforce+
qed simp

lemma c_string_NUL: "NUL \<notin> set s \<Longrightarrow> c_string (s @ NUL # t) = s"
  by (induction s) (auto simp: c_string_def)

lemma split_loop_spec:
  "NUL \<notin> set s \<Longrightarrow> d \<noteq> NUL \<Longrightarrow> num < m \<Longrightarrow>
   \<exists>new tail. split_loop d m (length pre) (s @ [NUL]) num ptrs (pre @ s @ [NUL]) =
       (num + min (m - num) (length (split_on d s)), ptrs @ new, pre @ hd (split_on d s) @ NUL # tail) \<and>
     map (\<lambda>p. c_string (drop p (pre @ hd (split_on d s) @ NUL # tail))) new = take (m - num - 1) (tl (split_on d s))"
proof (induction s arbitrary: pre num ptrs)
  case Nil
  then show ?case by (auto simp: list_update_append)
next
  case (Cons c s)
  show ?case
  proof (cases "c = d")
    case False
    with Cons.prems Cons.IH[of num "pre @ [c]" ptrs] show ?thesis by auto
  next
    case True
    have zap: "(pre @ c # s @ [NUL])[length pre := NUL] = (pre @ [NUL]) @ s @ [NUL]" by (simp add: list_update_append)
    show ?thesis
    proof (cases "num + 1 < m")
      case False
      with Cons.prems have "m = num + 1" by simp
      then show ?thesis using True zap by (auto simp: min_def)
    next
      case more: True
      from Cons.prems Cons.IH[of "num + 1" "pre @ [NUL]" "ptrs @ [length pre + 1]"] more obtain new tail where
        r: "split_loop d m (length pre + 1) (s @ [NUL]) (num + 1) (ptrs @ [length pre + 1]) ((pre @ [NUL]) @ s @ [NUL]) =
            (num + 1 + min (m - (num + 1)) (length (split_on d s)), (ptrs @ [length pre + 1]) @ new,
             (pre @ [NUL]) @ hd (split_on d s) @ NUL # tail)"
          "map (\<lambda>p. c_string (drop p ((pre @ [NUL]) @ hd (split_on d s) @ NUL # tail))) new =
            take (m - (num + 1) - 1) (tl (split_on d s))" by auto
      have "NUL \<notin> set (hd (split_on d s))" using split_on_chars[of "hd (split_on d s)" d s] Cons.prems(1) by auto
      then have first: "c_string (drop (length pre + 1) (pre @ NUL # hd (split_on d s) @ NUL # tail)) = hd (split_on d s)"
        by (simp add: c_string_NUL)
      have "take (m - num - 1) (split_on d s) = hd (split_on d s) # take (m - (num + 1) - 1) (tl (split_on d s))"
        using more by (cases "split_on d s") (auto simp: take_Cons')
      then show ?thesis using True more zap r first
        by (intro exI[of _ "(length pre + 1) # new"] exI[of _ "hd (split_on d s) @ NUL # tail"]) simp
    qed
  qed
qed

lemma split_string_pieces:
  assumes "NUL \<notin> set raw" "d \<noteq> NUL" "0 < m"
  shows "loc_util_split_string raw m d =
    (min m (length (split_on d raw)), take m (split_on d raw), hd (split_on d raw))"
proof -
  from split_loop_spec[OF assms, of "[]" "[0]"] obtain new tail where
    r: "split_loop d m 0 (raw @ [NUL]) 0 [0] (raw @ [NUL]) =
        (min m (length (split_on d raw)), 0 # new, hd (split_on d raw) @ NUL # tail)"
      "map (\<lambda>p. c_string (drop p (hd (split_on d raw) @ NUL # tail))) new = take (m - 1) (tl (split_on d raw))" by auto
  have "c_string (hd (split_on d raw) @ NUL # tail) = hd (split_on d raw)"
    using split_on_chars[of "hd (split_on d raw)" d raw] assms(1) by (intro c_string_NUL) auto
  with r assms(3) show ?thesis
    by (cases "split_on d raw"; cases m) (auto simp: loc_util_split_string_def)
qed

end
