(* ===== verification/CfgTable.thy ===== *)
theory CfgTable
  imports CfgText
begin

text \<open>
  Reading of configuration text (\<open>gps/utils/loc_cfg.cpp\<close>, \<open>loc_cfg.h\<close>): a table names parameters and
  the variables to store their values in, and each line \<open>NAME = VALUE\<close> of the text sets the entries of
  its name. A variable is known by its name, and the memory has one map for the variables of each
  type. The double a text stands for is not computed with and is kept as that text (\<open>Atof\<close>). An open
  file is what is left to read of its text.
\<close>

type_synonym address = string

datatype c_double = Zero | Atof string

record loc_param_s_type =
  param_name :: string
  param_ptr :: "address option"
  param_set :: "address option"
  param_type :: char

record loc_param_v_type =
  v_param_name :: string
  v_param_str_value :: string
  v_param_int_value :: u32
  v_param_double_value :: c_double

record memory =
  strs :: "address \<Rightarrow> string"
  nums :: "address \<Rightarrow> u32"
  dbls :: "address \<Rightarrow> c_double"
  sets :: "address \<Rightarrow> u8"

definition LOC_MAX_PARAM_STRING :: nat where
  "LOC_MAX_PARAM_STRING = 172"

definition put_set :: "address option \<Rightarrow> u8 \<Rightarrow> memory \<Rightarrow> memory" where
  "put_set p b m = (case p of None \<Rightarrow> m | Some a \<Rightarrow> m\<lparr>sets := (sets m)(a := b)\<rparr>)"

definition loc_set_config_entry :: "loc_param_s_type \<Rightarrow> loc_param_v_type \<Rightarrow> nat \<Rightarrow> memory \<Rightarrow> int \<times> memory" where
  "loc_set_config_entry config_entry config_value string_len m = (case param_ptr config_entry of
     None \<Rightarrow> (- 1, m)
   | Some a \<Rightarrow>
       if param_name config_entry \<noteq> v_param_name config_value then (- 1, m)
       else if param_type config_entry = CHR ''s''
       then (0, put_set (param_set config_entry) 1 (m\<lparr>strs := (strs m)(a :=
         (if v_param_str_value config_value = ''NULL'' then [] else strlcpy (v_param_str_value config_value) string_len))\<rparr>))
       else if param_type config_entry = CHR ''n''
       then (0, put_set (param_set config_entry) 1 (m\<lparr>nums := (nums m)(a := v_param_int_value config_value)\<rparr>))
       else if param_type config_entry = CHR ''f''
       then (0, put_set (param_set config_entry) 1 (m\<lparr>dbls := (dbls m)(a := v_param_double_value config_value)\<rparr>))
       else (- 1, m))"

text \<open>The numbers a value stands for.\<close>

definition is_hex :: "string \<Rightarrow> bool" where
  "is_hex s \<longleftrightarrow> length s \<ge> 3 \<and> s ! 0 = CHR ''0'' \<and> (s ! 1 = CHR ''x'' \<or> s ! 1 = CHR ''X'')"

definition config_value :: "string \<Rightarrow> string \<Rightarrow> loc_param_v_type" where
  "config_value name s =
     \<lparr>v_param_name = name, v_param_str_value = s,
      v_param_int_value = (if is_hex s then word_of_int (strtol (drop 2 s) 16) else atoi s),
      v_param_double_value = (if is_hex s then Zero else Atof s)\<rparr>"

fun fill_table :: "loc_param_s_type list \<Rightarrow> loc_param_v_type \<Rightarrow> nat \<Rightarrow> memory \<Rightarrow> nat \<times> memory" where
  "fill_table [] v string_len m = (0, m)"
| "fill_table (e # es) v string_len m =
     (let (r, m) = loc_set_config_entry e v string_len m; (n, m) = fill_table es v string_len m in
      (if r = 0 then n + 1 else n, m))"

definition loc_fill_conf_item :: "string \<Rightarrow> loc_param_s_type list \<Rightarrow> nat \<Rightarrow> memory \<Rightarrow> nat \<times> memory" where
  "loc_fill_conf_item input_buf config_table string_len m = (case strtok_r [CHR ''=''] input_buf of
     None \<Rightarrow> (0, m)
   | Some (name, lasts) \<Rightarrow> (case strtok_r [] lasts of
       None \<Rightarrow> (0, m)
     | Some (value_text, _) \<Rightarrow>
         fill_table config_table
           (config_value (loc_util_trim_space name) (loc_util_trim_space value_text)) string_len m))"

section \<open>Reading a file\<close>

fun clear_sets :: "loc_param_s_type list \<Rightarrow> memory \<Rightarrow> memory" where
  "clear_sets [] m = m"
| "clear_sets (e # es) m = clear_sets es (put_set (param_set e) 0 m)"

text \<open>The loop of \<open>loc_read_conf_r_long\<close>. With a buffer of less than two bytes it never ends.\<close>

lemma fgets_shrinks: "\<not> n < 2 \<Longrightarrow> fgets n content = Some (line, rest) \<Longrightarrow> length rest < length content"
  by (auto simp: fgets_def Let_def split: if_splits)

function read_loop :: "loc_param_s_type list \<Rightarrow> nat \<Rightarrow> u32 \<Rightarrow> string \<Rightarrow> memory \<Rightarrow> (string \<times> memory) option" where
  "read_loop config_table string_len num_params content m =
     (if num_params = 0 then Some (content, m)
      else if string_len < 2 then None
      else (case fgets string_len content of
        None \<Rightarrow> Some (content, m)
      | Some (input_buf, rest) \<Rightarrow>
          (let (n, m) = loc_fill_conf_item (c_string input_buf) config_table string_len m in
           read_loop config_table string_len (num_params - of_nat n) rest m)))"
  by pat_completeness auto
termination
  by (relation "measure (\<lambda>(t, n, k, content, m). length content)") (auto simp: fgets_shrinks)

declare read_loop.simps [simp del]

definition loc_read_conf_r_long :: "string option \<Rightarrow> loc_param_s_type list \<Rightarrow> nat \<Rightarrow> memory
    \<Rightarrow> (int \<times> string option \<times> memory) option" where
  "loc_read_conf_r_long conf_fp config_table string_len m = (case conf_fp of
     None \<Rightarrow> Some (- 1, None, m)
   | Some content \<Rightarrow> do {
       (rest, m) \<leftarrow> read_loop config_table string_len (of_nat (length config_table)) content (clear_sets config_table m);
       Some (0, Some rest, m)
     })"

definition loc_param_table :: "loc_param_s_type list" where
  "loc_param_table =
     [\<lparr>param_name = ''DEBUG_LEVEL'', param_ptr = Some ''DEBUG_LEVEL'', param_set = None, param_type = CHR ''n''\<rparr>,
      \<lparr>param_name = ''TIMESTAMP'', param_ptr = Some ''TIMESTAMP'', param_set = None, param_type = CHR ''n''\<rparr>,
      \<lparr>param_name = ''DATUM_TYPE'', param_ptr = Some ''DATUM_TYPE'', param_set = None, param_type = CHR ''n''\<rparr>,
      \<lparr>param_name = ''LOG_BUFFER_ENABLED'', param_ptr = Some ''sLogBufferEnabled'', param_set = None, param_type = CHR ''n''\<rparr>]"

text \<open>A file that cannot be opened is \<open>None\<close>, a null table is the empty one.\<close>

definition loc_read_conf_long :: "string option \<Rightarrow> loc_param_s_type list \<Rightarrow> nat \<Rightarrow> memory \<Rightarrow> memory option" where
  "loc_read_conf_long conf_file config_table string_len m = (case conf_file of
     None \<Rightarrow> Some m
   | Some content \<Rightarrow> do {
       m \<leftarrow> (if config_table = [] then Some m
             else do {
               (_, _, m) \<leftarrow> loc_read_conf_r_long (Some content) config_table string_len m;
               Some m
             });
       (_, _, m) \<leftarrow> loc_read_conf_r_long (Some content) loc_param_table string_len m;
       Some m
     })"

definition loc_read_conf_r :: "string option \<Rightarrow> loc_param_s_type list \<Rightarrow> memory \<Rightarrow> (int \<times> string option \<times> memory) option" where
  "loc_read_conf_r conf_fp config_table m = loc_read_conf_r_long conf_fp config_table LOC_MAX_PARAM_STRING m"

definition loc_read_conf :: "string option \<Rightarrow> loc_param_s_type list \<Rightarrow> memory \<Rightarrow> memory option" where
  "loc_read_conf conf_file config_table m = loc_read_conf_long conf_file config_table LOC_MAX_PARAM_STRING m"

section \<open>Updating from a buffer\<close>

lemma strtok_shrinks:
  assumes "strtok_r ds s = Some (tok, rest)"
  shows "length rest < length s"
proof -
  let ?t = "dropWhile (\<lambda>c. c \<in> set ds) s"
  from assms have r: "?t \<noteq> []" "rest = drop 1 (dropWhile (\<lambda>c. c \<notin> set ds) ?t)"
    by (auto simp: strtok_r_def Let_def split: if_splits)
  have "length (dropWhile (\<lambda>c. c \<notin> set ds) ?t) \<le> length ?t" "length ?t \<le> length s"
    by (rule length_dropWhile_le)+
  moreover have "0 < length ?t" using r(1) by blast
  ultimately show ?thesis unfolding r(2) length_drop by linarith
qed

function update_loop :: "loc_param_s_type list \<Rightarrow> nat \<Rightarrow> u32 \<Rightarrow> (string \<times> string) option \<Rightarrow> int \<Rightarrow> memory \<Rightarrow> int \<times> memory" where
  "update_loop config_table string_len num_params None ret m = (ret, m)"
| "update_loop config_table string_len num_params (Some (input_buf, saveptr)) ret m =
     (if num_params = 0 then (ret, m)
      else (let (n, m) = loc_fill_conf_item input_buf config_table string_len m in
        update_loop config_table string_len (num_params - of_nat n) (strtok_r [newline] saveptr) (ret + 1) m))"
  by pat_completeness auto
termination
  by (relation "measure (\<lambda>(t, n, k, s, r, m). case s of None \<Rightarrow> 0 | Some (b, rest) \<Rightarrow> Suc (length rest))")
    (auto split: option.splits dest: strtok_shrinks)

text \<open>\<open>conf_data\<close> holds at least \<open>length\<close> bytes; \<open>malloc_ok\<close> says whether the copy can be allocated.\<close>

definition loc_update_conf_long :: "bool \<Rightarrow> char list option \<Rightarrow> nat \<Rightarrow> loc_param_s_type list \<Rightarrow> nat \<Rightarrow> memory \<Rightarrow> int \<times> memory" where
  "loc_update_conf_long malloc_ok conf_data len config_table string_len m = (case conf_data of
     None \<Rightarrow> (- 1, m)
   | Some data \<Rightarrow>
       if len = 0 \<or> config_table = [] \<or> \<not> malloc_ok then (- 1, m)
       else update_loop config_table string_len (of_nat (length config_table) - 1)
         (strtok_r [newline] (c_string (take len data))) 0 m)"

definition loc_update_conf :: "bool \<Rightarrow> char list option \<Rightarrow> nat \<Rightarrow> loc_param_s_type list \<Rightarrow> memory \<Rightarrow> int \<times> memory" where
  "loc_update_conf malloc_ok conf_data len config_table m =
     loc_update_conf_long malloc_ok conf_data len config_table LOC_MAX_PARAM_STRING m"

end
