(* ===== verification/CfgRead.thy ===== *)
theory CfgRead
  imports CfgTable
begin

text \<open>
  What reading a configuration text does. A line is a name and a value with spaces around them; the
  entries of a table are described by the value of their variable.
\<close>

section \<open>Lines\<close>

definition word_ok :: "string \<Rightarrow> bool" where
  "word_ok s \<longleftrightarrow> s \<noteq> [] \<and> NUL \<notin> set s \<and> newline \<notin> set s \<and> \<not> isspace (hd s) \<and> \<not> isspace (last s)"

definition padding :: "string \<Rightarrow> bool" where
  "padding s \<longleftrightarrow> (\<forall>c\<in>set s. isspace c) \<and> newline \<notin> set s"

definition is_line :: "string \<Rightarrow> string \<Rightarrow> string \<Rightarrow> bool" where
  "is_line tx n v \<longleftrightarrow> word_ok n \<and> CHR ''='' \<notin> set n \<and> word_ok v \<and>
     (\<exists>a b c d. tx = a @ n @ b @ CHR ''='' # c @ v @ d @ [newline] \<and> padding a \<and> padding b \<and> padding c \<and> padding d)"

text \<open>A line without a value, such as a blank one or a remark.\<close>

definition is_remark :: "string \<Rightarrow> bool" where
  "is_remark tx \<longleftrightarrow> tx \<noteq> [] \<and> last tx = newline \<and> newline \<notin> set (butlast tx) \<and> NUL \<notin> set tx \<and> CHR ''='' \<notin> set tx"

lemma isspace_facts: "isspace newline" "\<not> isspace NUL" "\<not> isspace (CHR ''='')" "newline \<noteq> NUL" "newline \<noteq> CHR ''=''" "NUL \<noteq> CHR ''=''"
  by (simp_all add: isspace_def newline_def NUL_def)

lemma padding_chars: "padding s \<Longrightarrow> c \<in> set s \<Longrightarrow> isspace c \<and> c \<noteq> NUL \<and> c \<noteq> CHR ''='' \<and> c \<noteq> newline"
  using isspace_facts by (auto simp: padding_def)

lemma strip_word:
  assumes "\<forall>c\<in>set a. isspace c" "\<forall>c\<in>set b. isspace c" "word_ok w"
  shows "loc_util_trim_space (a @ w @ b) = w"
proof -
  from assms(3) have w: "w \<noteq> []" "\<not> isspace (hd w)" "\<not> isspace (last w)" by (auto simp: word_ok_def)
  then have "\<not> (\<forall>c\<in>set (a @ w @ b). isspace c)" using hd_in_set[of w] by auto
  moreover have "dropWhile isspace (a @ w @ b) = w @ b"
    using assms(1) w by (cases w) (auto simp: dropWhile_append dropWhile_eq_Nil_conv)
  moreover have "dropWhile isspace (rev b @ rev w) = rev w"
    using assms(2) w by (cases w rule: rev_cases) (auto simp: dropWhile_append)
  ultimately show ?thesis by (simp only: trim_space_correct strip_def if_False rev_append rev_rev_ident)
qed

lemma fill_words:
  assumes t: "tx = a @ n @ b @ CHR ''='' # c @ v @ d" and pad: "\<forall>x\<in>set (a @ b). isspace x" "\<forall>x\<in>set (c @ d). isspace x"
    and w: "word_ok n" "CHR ''='' \<notin> set n" "word_ok v"
  shows "c_string tx = tx \<and> loc_fill_conf_item tx table len m = fill_table table (config_value n v) len m"
proof -
  have sp: "x \<noteq> NUL \<and> x \<noteq> CHR ''=''" if "isspace x" for x using that isspace_facts by auto
  then have eq: "\<forall>x\<in>set (a @ n @ b). x \<noteq> CHR ''=''" using pad w by auto
  have ne: "a @ n @ b \<noteq> []" using w by (auto simp: word_ok_def)
  have "strtok_r [CHR ''=''] tx = Some (a @ n @ b, c @ v @ d)"
  proof -
    have tx: "tx = (a @ n @ b) @ CHR ''='' # c @ v @ d" using t by simp
    have "dropWhile (\<lambda>x. x \<in> set [CHR ''='']) tx = tx"
      unfolding tx using eq ne by (cases "a @ n @ b") auto
    moreover have "takeWhile (\<lambda>x. x \<notin> set [CHR ''='']) tx = a @ n @ b"
      unfolding tx using eq by (subst takeWhile_append2) auto
    moreover have "dropWhile (\<lambda>x. x \<notin> set [CHR ''='']) tx = CHR ''='' # c @ v @ d"
      unfolding tx using eq by (subst dropWhile_append2) auto
    ultimately show ?thesis using tx by (auto simp: strtok_r_def Let_def)
  qed
  moreover
  have all: "dropWhile (\<lambda>c. True) s = []" for s :: string by (induction s) auto
  have "c @ v @ d \<noteq> []" using w by (auto simp: word_ok_def)
  then have "strtok_r [] (c @ v @ d) = Some (c @ v @ d, [])" by (simp add: strtok_r_def all del: append_is_Nil_conv)
  moreover
  have "loc_util_trim_space (a @ n @ b) = n" "loc_util_trim_space (c @ v @ d) = v"
    using strip_word[of a b n] strip_word[of c d v] pad w by auto
  moreover have "\<forall>x\<in>set tx. x \<noteq> NUL" using t w pad sp isspace_facts(6) by (auto simp: word_ok_def)
  then have "c_string tx = tx" by (simp add: c_string_def takeWhile_eq_all_conv)
  ultimately show ?thesis by (simp add: loc_fill_conf_item_def)
qed

text \<open>A line is used in the same way with and without its end.\<close>

lemma fill_line:
  assumes "is_line tx n v"
  shows "c_string tx = tx \<and> loc_fill_conf_item tx table len m = fill_table table (config_value n v) len m"
    "loc_fill_conf_item (butlast tx) table len m = fill_table table (config_value n v) len m"
proof -
  from assms obtain a b c d where
    t: "tx = a @ n @ b @ CHR ''='' # c @ v @ d @ [newline]" and pad: "padding a" "padding b" "padding c" "padding d"
    and w: "word_ok n" "CHR ''='' \<notin> set n" "word_ok v" by (auto simp: is_line_def)
  from pad have sp: "\<forall>x\<in>set (a @ b). isspace x" "\<forall>x\<in>set (c @ d @ [newline]). isspace x" "\<forall>x\<in>set (c @ d). isspace x"
    using isspace_facts(1) by (auto simp: padding_def)
  show "c_string tx = tx \<and> loc_fill_conf_item tx table len m = fill_table table (config_value n v) len m"
    by (rule fill_words[OF t sp(1,2) w])
  have "butlast tx = a @ n @ b @ CHR ''='' # c @ v @ d" by (simp add: t butlast_append)
  then show "loc_fill_conf_item (butlast tx) table len m = fill_table table (config_value n v) len m"
    using fill_words[OF _ sp(1,3) w] by blast
qed

lemma fill_remark:
  assumes "is_remark tx"
  shows "c_string tx = tx \<and> loc_fill_conf_item tx table len m = (0, m)"
proof -
  from assms have t: "tx \<noteq> []" "NUL \<notin> set tx" "\<forall>c\<in>set tx. c \<noteq> CHR ''=''" by (auto simp: is_remark_def)
  then have "hd tx \<noteq> CHR ''=''" by simp
  then have "dropWhile (\<lambda>c. c \<in> set [CHR ''='']) tx = tx" by (simp add: dropWhile_eq_self_iff)
  moreover have "takeWhile (\<lambda>c. c \<notin> set [CHR ''='']) tx = tx" "dropWhile (\<lambda>c. c \<notin> set [CHR ''='']) tx = []"
    using t(3) by (simp_all add: takeWhile_eq_all_conv)
  ultimately have "strtok_r [CHR ''=''] tx = Some (tx, [])"
    using t(1) by (simp only: strtok_r_def Let_def if_False drop_Nil)
  moreover have "strtok_r [] [] = None" by (simp add: strtok_r_def)
  moreover have "c_string tx = tx" using t(2) by (auto simp: c_string_def takeWhile_eq_all_conv)
  ultimately show ?thesis by (simp add: loc_fill_conf_item_def)
qed

lemma fgets_line:
  assumes "newline \<notin> set t" "length t + 1 < len"
  shows "fgets len (t @ newline # rest) = Some (t @ [newline], rest)"
proof -
  have "takeWhile (\<lambda>c. c \<noteq> newline) (t @ newline # rest) = t" using assms(1) by (induction t) auto
  then have "min (len - 1) (length (takeWhile (\<lambda>c. c \<noteq> newline) (t @ newline # rest)) + 1) = length t + 1"
    using assms(2) by (intro min_absorb2[THEN trans]) auto
  then show ?thesis by (simp add: fgets_def)
qed

text \<open>A line of a text: a remark, or a name and a value.\<close>

type_synonym text_line = "string \<times> (string \<times> string) option"

fun line_ok :: "nat \<Rightarrow> text_line \<Rightarrow> bool" where
  "line_ok len (tx, None) \<longleftrightarrow> is_remark tx \<and> length tx < len"
| "line_ok len (tx, Some (n, v)) \<longleftrightarrow> is_line tx n v \<and> length tx < len"

fun fill_setting :: "loc_param_s_type list \<Rightarrow> nat \<Rightarrow> (string \<times> string) option \<Rightarrow> memory \<Rightarrow> nat \<times> memory" where
  "fill_setting table len None m = (0, m)"
| "fill_setting table len (Some (n, v)) m = fill_table table (config_value n v) len m"

lemma line_ends:
  assumes "line_ok len (tx, s)"
  shows "\<exists>t. tx = t @ [newline] \<and> newline \<notin> set t"
proof (cases s)
  case None
  with assms have "tx = butlast tx @ [newline]" "newline \<notin> set (butlast tx)"
    using append_butlast_last_id[of tx] by (auto simp: is_remark_def)
  then show ?thesis by blast
next
  case (Some nv)
  with assms show ?thesis using padding_chars isspace_facts(5)
    by (cases nv) (fastforce simp: is_line_def word_ok_def)
qed

lemma read_loop_line:
  assumes "line_ok len (tx, s)" "num \<noteq> 0" "fill_setting table len s m = (k, m')"
  shows "read_loop table len num (tx @ rest) m = read_loop table len (num - of_nat k) rest m'"
proof -
  obtain t where t: "tx = t @ [newline]" "newline \<notin> set t" using line_ends[OF assms(1)] by blast
  have len: "length tx < len" using assms(1) by (cases s) auto
  have "fgets len (tx @ rest) = Some (tx, rest)" using fgets_line[OF t(2), of len rest] len t(1) by simp
  moreover have "loc_fill_conf_item (c_string tx) table len m = (k, m')"
    using assms(1,3) fill_remark[of tx table len m] fill_line(1)[of tx _ _ table len m]
    by (cases "(len, tx, s)" rule: line_ok.cases) auto
  ultimately show ?thesis using assms(2) len t(1) by (subst read_loop.simps) simp
qed

section \<open>Tables\<close>

datatype cell = CStr string | CNum u32 | CDbl c_double

definition entry_value :: "loc_param_s_type \<Rightarrow> memory \<Rightarrow> cell" where
  "entry_value e m =
     (if param_type e = CHR ''s'' then CStr (strs m (the (param_ptr e)))
      else if param_type e = CHR ''n'' then CNum (nums m (the (param_ptr e)))
      else CDbl (dbls m (the (param_ptr e))))"

text \<open>What a value is stored as in an entry.\<close>

definition stored :: "loc_param_s_type \<Rightarrow> nat \<Rightarrow> string \<Rightarrow> cell" where
  "stored e len v =
     (if param_type e = CHR ''s'' then CStr (if v = ''NULL'' then [] else take (len - 1) v)
      else if param_type e = CHR ''n'' then CNum (if is_hex v then word_of_int (strtol (drop 2 v) 16) else atoi v)
      else CDbl (if is_hex v then Zero else Atof v))"

definition entry_ok :: "loc_param_s_type \<Rightarrow> bool" where
  "entry_ok e \<longleftrightarrow> param_ptr e \<noteq> None \<and> param_type e \<in> set ''snf''"

definition table_ok :: "loc_param_s_type list \<Rightarrow> bool" where
  "table_ok table \<longleftrightarrow> (\<forall>e\<in>set table. entry_ok e) \<and> distinct (map param_name table) \<and>
     distinct (map param_ptr table) \<and> distinct (filter (\<lambda>p. p \<noteq> None) (map param_set table)) \<and> length table < 2 ^ 32"

lemma set_entry_own:
  assumes "entry_ok e" "param_name e = n"
  shows "fst (loc_set_config_entry e (config_value n v) len m) = 0 \<and>
    entry_value e (snd (loc_set_config_entry e (config_value n v) len m)) = stored e len v \<and>
    (\<forall>a. sets (snd (loc_set_config_entry e (config_value n v) len m)) a = (if param_set e = Some a then 1 else sets m a))"
  using assms by (auto simp: entry_ok_def loc_set_config_entry_def config_value_def put_set_def entry_value_def
      stored_def strlcpy_def split: option.splits)

lemma set_entry_other:
  assumes "entry_ok d" "param_ptr d \<noteq> param_ptr e"
  shows "entry_value d (snd (loc_set_config_entry e v len m)) = entry_value d m"
  using assms by (auto simp: entry_ok_def loc_set_config_entry_def put_set_def entry_value_def split: option.splits)

lemma set_entry_unnamed:
  "param_name e \<noteq> n \<Longrightarrow> loc_set_config_entry e (config_value n v) len m = (- 1, m)"
  by (simp add: loc_set_config_entry_def config_value_def split: option.splits)

lemma fill_table_none:
  "n \<notin> param_name ` set table \<Longrightarrow> fill_table table (config_value n v) len m = (0, m)"
  by (induction table) (auto simp: set_entry_unnamed)

lemma fill_table_one:
  assumes "table_ok table" "e \<in> set table"
  shows "fill_table table (config_value (param_name e) v) len m =
    (1, snd (loc_set_config_entry e (config_value (param_name e) v) len m))"
proof -
  have "\<forall>e\<in>set table. entry_ok e" "distinct (map param_name table)" using assms(1) by (auto simp: table_ok_def)
  then show ?thesis using assms(2)
  proof (induction table arbitrary: m)
    case (Cons x xs)
    show ?case
    proof (cases "x = e")
      case True
      have "fst (loc_set_config_entry e (config_value (param_name e) v) len m) = 0"
        using set_entry_own[of e "param_name e"] Cons.prems True by simp
      moreover have "param_name e \<notin> param_name ` set xs" using Cons.prems(2) True by auto
      ultimately show ?thesis using True fill_table_none[of "param_name e" xs]
        by (cases "loc_set_config_entry e (config_value (param_name e) v) len m") simp
    next
      case False
      then have "param_name x \<noteq> param_name e" "e \<in> set xs" using Cons.prems by auto
      then show ?thesis using Cons.IH[of m] Cons.prems set_entry_unnamed[of x "param_name e"] by simp
    qed
  qed simp
qed

section \<open>A text of lines\<close>

text \<open>The settings of a text in their order, and what storing all of them gives.\<close>

definition settings :: "text_line list \<Rightarrow> (string \<times> string) list" where
  "settings ls = concat (map (\<lambda>(tx, s). case s of None \<Rightarrow> [] | Some nv \<Rightarrow> [nv]) ls)"

definition store_all :: "loc_param_s_type list \<Rightarrow> nat \<Rightarrow> (string \<times> string) list \<Rightarrow> memory \<Rightarrow> memory" where
  "store_all table len nvs m = fold (\<lambda>(n, v) m. snd (fill_table table (config_value n v) len m)) nvs m"

lemma settings_Cons:
  "settings ((tx, None) # ls) = settings ls" "settings ((tx, Some nv) # ls) = nv # settings ls" "settings [] = []"
  by (simp_all add: settings_def)

lemma store_all_Cons:
  "store_all table len ((n, v) # nvs) m = store_all table len nvs (snd (fill_table table (config_value n v) len m))"
  by (simp add: store_all_def)

lemma store_all_none: "fst ` set nvs \<inter> param_name ` set table = {} \<Longrightarrow> store_all table len nvs m = m"
  by (induction nvs arbitrary: m) (auto simp: store_all_def fill_table_none)

lemma read_loop_lines:
  assumes "table_ok table" "2 \<le> len"
  shows "\<forall>l\<in>set ls. line_ok len l \<Longrightarrow> distinct (map fst (settings ls)) \<Longrightarrow>
    fst ` set (settings ls) \<inter> param_name ` set table \<subseteq> R \<Longrightarrow> R \<subseteq> param_name ` set table \<Longrightarrow>
    \<exists>rest. read_loop table len (of_nat (card R)) (concat (map fst ls)) m = Some (rest, store_all table len (settings ls) m)"
proof (induction ls arbitrary: R m)
  case Nil
  have "fgets len [] = None" by (simp add: fgets_def)
  then show ?case using assms(2) by (subst read_loop.simps) (simp add: store_all_def settings_Cons)
next
  case (Cons l ls)
  obtain tx s where l: "l = (tx, s)" by (cases l)
  have fin: "finite R" using Cons.prems(4) by (rule finite_subset) simp
  have "card R \<le> length table"
    using card_mono[OF _ Cons.prems(4)] card_length[of "map param_name table"] by auto
  then have small: "card R < 2 ^ 32" using assms by (simp add: table_ok_def)
  show ?case
  proof (cases "R = {}")
    case True
    then have "store_all table len (settings (l # ls)) m = m" using Cons.prems(3) by (intro store_all_none) auto
    with True show ?thesis by (subst read_loop.simps) simp
  next
    case False
    with fin have pos: "card R \<noteq> 0" by simp
    with small have nz: "(of_nat (card R) :: u32) \<noteq> 0" by (simp add: word_of_nat_eq_0_iff nat_dvd_not_less)
    have line: "line_ok len (tx, s)" using Cons.prems(1) by (simp add: l)
    note step = read_loop_line[OF line nz, of table m _ _ "concat (map fst ls)"]
    show ?thesis
    proof (cases s)
      case None
      then show ?thesis using Cons.IH[of R m] Cons.prems step[of 0 m] by (simp add: l settings_Cons)
    next
      case (Some nv)
      obtain n v where nv: "nv = (n, v)" by (cases nv)
      obtain k m1 where f: "fill_table table (config_value n v) len m = (k, m1)" by fastforce
      have k: "(of_nat (card R) :: u32) - of_nat k = of_nat (card (R - {n}))"
      proof (cases "n \<in> param_name ` set table")
        case True
        then obtain e where e: "e \<in> set table" "n = param_name e" by auto
        then have "k = 1" using fill_table_one[OF assms(1) e(1), of v len m] f by simp
        moreover have "n \<in> R" using Cons.prems(3) True by (auto simp: l Some nv settings_Cons)
        moreover from pos obtain r where "card R = Suc r" by (cases "card R") auto
        ultimately show ?thesis using fin by (simp add: card_Diff_singleton)
      next
        case False
        then have "k = 0" "n \<notin> R" using fill_table_none[of n table v len m] f Cons.prems(4) by auto
        then show ?thesis by simp
      qed
      have "\<exists>rest. read_loop table len (of_nat (card (R - {n}))) (concat (map fst ls)) m1 =
          Some (rest, store_all table len (settings ls) m1)"
        using Cons.prems by (intro Cons.IH) (auto simp: l Some nv settings_Cons)
      then show ?thesis using step[of k m1] k f by (simp add: l Some nv settings_Cons store_all_Cons)
    qed
  qed
qed

text \<open>An entry after the lines are stored.\<close>

lemma distinct_sets:
  assumes "table_ok table" "e \<in> set table" "d \<in> set table" "param_set e = Some a" "param_set d = Some a"
  shows "e = d"
proof -
  have "distinct (map param_name table)" using assms(1) by (simp add: table_ok_def)
  have dist: "distinct (filter (\<lambda>p. p \<noteq> None) (map param_set table))" using assms(1) by (simp add: table_ok_def)
  from assms(2,3) obtain i j where ij: "i < length table" "table ! i = e" "j < length table" "table ! j = d"
    by (auto simp: in_set_conv_nth)
  have "filter (\<lambda>p. p \<noteq> None) (map param_set table) = map param_set (filter (\<lambda>e. param_set e \<noteq> None) table)"
    by (simp add: filter_map comp_def)
  then have "inj_on param_set (set (filter (\<lambda>e. param_set e \<noteq> None) table))" using dist by (simp add: distinct_map)
  then show ?thesis using assms(2-5) by (auto simp: inj_on_def)
qed

lemma fill_table_other:
  assumes "table_ok table" "e \<in> set table" "n \<noteq> param_name e" "fill_table table (config_value n v) len m = (k, m1)"
  shows "entry_value e m1 = entry_value e m \<and> (\<forall>a. param_set e = Some a \<longrightarrow> sets m1 a = sets m a)"
proof (cases "n \<in> param_name ` set table")
  case True
  then obtain d where d: "d \<in> set table" "n = param_name d" by auto
  with assms(3) have "d \<noteq> e" by auto
  have ok: "entry_ok e" "entry_ok d" using assms(1,2) d(1) by (auto simp: table_ok_def)
  have "distinct (map param_ptr table)" using assms(1) by (simp add: table_ok_def)
  then have "param_ptr e \<noteq> param_ptr d" using d \<open>d \<noteq> e\<close> assms(2) by (auto simp: distinct_map inj_on_def)
  moreover have "m1 = snd (loc_set_config_entry d (config_value n v) len m)"
    using fill_table_one[OF assms(1) d(1), of v len m] assms(4) d by simp
  moreover have "param_set d \<noteq> Some a" if "param_set e = Some a" for a
    using distinct_sets[OF assms(1) d(1) assms(2)] that \<open>d \<noteq> e\<close> by auto
  ultimately show ?thesis
    using set_entry_other[OF ok(1)] set_entry_own[OF ok(2) d(2)[symmetric], of v len m] by auto
next
  case False
  then show ?thesis using fill_table_none[of n table v len m] assms(4) by simp
qed

lemma store_all_untouched:
  assumes "table_ok table" "e \<in> set table" "param_name e \<notin> fst ` set nvs"
  shows "entry_value e (store_all table len nvs m) = entry_value e m \<and>
    (\<forall>a. param_set e = Some a \<longrightarrow> sets (store_all table len nvs m) a = sets m a)"
  using assms(3)
proof (induction nvs arbitrary: m)
  case (Cons nv nvs)
  obtain n v where nv: "nv = (n, v)" by (cases nv)
  obtain k m1 where f: "fill_table table (config_value n v) len m = (k, m1)" by fastforce
  moreover have "n \<noteq> param_name e" using Cons.prems by (auto simp: nv)
  ultimately show ?case using fill_table_other[OF assms(1,2), of n v len m k m1] Cons.IH[of m1] Cons.prems
    by (simp add: nv store_all_Cons)
qed (simp add: store_all_def)

lemma store_all_entry:
  assumes "table_ok table" "e \<in> set table"
  shows "distinct (map fst nvs) \<Longrightarrow>
    entry_value e (store_all table len nvs m) =
      (case map_of nvs (param_name e) of Some v \<Rightarrow> stored e len v | None \<Rightarrow> entry_value e m) \<and>
    (\<forall>a. param_set e = Some a \<longrightarrow> sets (store_all table len nvs m) a =
      (if param_name e \<in> fst ` set nvs then 1 else sets m a))"
proof (induction nvs arbitrary: m)
  case (Cons nv nvs)
  obtain n v where nv: "nv = (n, v)" by (cases nv)
  obtain k m1 where f: "fill_table table (config_value n v) len m = (k, m1)" by fastforce
  have ok: "entry_ok e" using assms by (simp add: table_ok_def)
  show ?case
  proof (cases "n = param_name e")
    case True
    then have "param_name e \<notin> fst ` set nvs" using Cons.prems by (auto simp: nv)
    moreover have "m1 = snd (loc_set_config_entry e (config_value n v) len m)"
      using fill_table_one[OF assms, of v len m] f True by simp
    ultimately show ?thesis
      using store_all_untouched[OF assms, of nvs len m1] set_entry_own[OF ok True[symmetric], of v len m] True f
      by (auto simp: nv store_all_Cons)
  next
    case False
    then show ?thesis using Cons.IH[of m1] Cons.prems fill_table_other[OF assms False f] f
      by (auto simp: nv store_all_Cons split: option.splits)
  qed
qed (simp add: store_all_def)

section \<open>Reading a file\<close>

lemma clear_sets_other [simp]:
  "entry_value e (clear_sets table m) = entry_value e m"
proof (induction table arbitrary: m)
  case (Cons x xs)
  have "entry_value e (put_set (param_set x) 0 m) = entry_value e m"
    by (simp add: put_set_def entry_value_def split: option.splits)
  with Cons show ?case by simp
qed simp

lemma clear_sets_sets:
  "sets (clear_sets table m) a = (if Some a \<in> param_set ` set table then 0 else sets m a)"
proof (induction table arbitrary: m)
  case (Cons x xs)
  then show ?case by (auto simp: put_set_def split: option.splits)
qed simp

text \<open>
  C24. A file of well-formed lines with different names, each of which fits in the buffer, is read without
  an error: every variable whose name has a line holds the value of that line and its flag is set;
  every other one keeps its value and its flag is clear.
\<close>

theorem read_conf_correct:
  assumes "table_ok table" "2 \<le> len" "\<forall>l\<in>set ls. line_ok len l" "distinct (map fst (settings ls))" "e \<in> set table"
  shows "\<exists>rest m'. loc_read_conf_r_long (Some (concat (map fst ls))) table len m = Some (0, Some rest, m') \<and>
    entry_value e m' =
      (case map_of (settings ls) (param_name e) of Some v \<Rightarrow> stored e len v | None \<Rightarrow> entry_value e m) \<and>
    (\<forall>a. param_set e = Some a \<longrightarrow> sets m' a = (if param_name e \<in> fst ` set (settings ls) then 1 else 0))"
proof -
  let ?R = "param_name ` set table" and ?m = "clear_sets table m"
  have "card ?R = length table" using assms(1) distinct_card[of "map param_name table"] by (simp add: table_ok_def)
  then obtain rest where "read_loop table len (of_nat (length table)) (concat (map fst ls)) ?m =
      Some (rest, store_all table len (settings ls) ?m)"
    using read_loop_lines[OF assms(1-4), of ?R ?m] by auto
  moreover have "sets ?m a = 0" if "param_set e = Some a" for a
    using assms(5) that[symmetric] by (simp add: clear_sets_sets)
  ultimately show ?thesis
    using store_all_entry[OF assms(1,5,4), of len ?m]
    by (simp add: loc_read_conf_r_long_def cong: option.case_cong)
qed

section \<open>Repeated names\<close>

text \<open>
  The loop counts the lines it has used, not the entries it has filled: after as many lines as the
  table has entries it stops, whatever their names. Here every line has the name of one entry.
\<close>

lemma read_loop_counts:
  assumes "table_ok table"
  shows "\<forall>l\<in>set ls. line_ok len l \<Longrightarrow> length (settings ls) < 2 ^ 32 \<Longrightarrow>
    fst ` set (settings ls) \<subseteq> param_name ` set table \<Longrightarrow>
    \<exists>left. read_loop table len (of_nat (length (settings ls))) (concat (map fst ls) @ rest) m =
      Some (left, store_all table len (settings ls) m)"
proof (induction ls arbitrary: m)
  case Nil
  then show ?case by (subst read_loop.simps) (simp add: settings_Cons store_all_def)
next
  case (Cons l ls)
  obtain tx s where l: "l = (tx, s)" by (cases l)
  have line: "line_ok len (tx, s)" using Cons.prems(1) by (simp add: l)
  show ?case
  proof (cases "settings (l # ls)")
    case Nil
    then show ?thesis by (subst read_loop.simps) (simp add: store_all_def)
  next
    case (Cons _ _)
    then have nz: "(of_nat (length (settings (l # ls))) :: u32) \<noteq> 0"
      using Cons.prems(2) by (simp add: word_of_nat_eq_0_iff nat_dvd_not_less del: of_nat_Suc)
    note step = read_loop_line[OF line nz, of table m _ _ "concat (map fst ls) @ rest"]
    show ?thesis
    proof (cases s)
      case None
      then show ?thesis using Cons.IH[of m] Cons.prems step[of 0 m] by (simp add: l settings_Cons)
    next
      case (Some nv)
      obtain n v where nv: "nv = (n, v)" by (cases nv)
      obtain e where e: "e \<in> set table" "n = param_name e" using Cons.prems(3) by (auto simp: l Some nv settings_Cons)
      obtain m1 where f: "fill_table table (config_value n v) len m = (1, m1)"
        using fill_table_one[OF assms e(1), of v len m] e(2) by blast
      then show ?thesis using Cons.IH[of m1] Cons.prems step[of 1 m1]
        by (simp add: l Some nv settings_Cons store_all_Cons)
    qed
  qed
qed

text \<open>
  When the first lines of a file hold as many settings of entries as the table has entries, no line
  behind them is read: an entry without a line among them keeps its value and its flag is clear,
  whatever the rest of the file holds. A name that has two lines is enough for that.
\<close>

theorem read_conf_stops_early:
  assumes "table_ok table" "\<forall>l\<in>set ls. line_ok len l" "length (settings ls) = length table"
    "fst ` set (settings ls) \<subseteq> param_name ` set table" "e \<in> set table" "param_name e \<notin> fst ` set (settings ls)"
  shows "\<exists>left m'. loc_read_conf_r_long (Some (concat (map fst ls) @ rest)) table len m = Some (0, Some left, m') \<and>
    entry_value e m' = entry_value e m \<and> (\<forall>a. param_set e = Some a \<longrightarrow> sets m' a = 0)"
proof -
  let ?m = "clear_sets table m"
  have "length table < 2 ^ 32" using assms(1) by (simp add: table_ok_def)
  then obtain left where "read_loop table len (of_nat (length table)) (concat (map fst ls) @ rest) ?m =
      Some (left, store_all table len (settings ls) ?m)"
    using read_loop_counts[OF assms(1,2) _ assms(4), of rest ?m] assms(3) by auto
  moreover have "sets ?m a = 0" if "param_set e = Some a" for a
    using assms(5) that[symmetric] by (simp add: clear_sets_sets)
  ultimately show ?thesis using store_all_untouched[OF assms(1,5,6), of len ?m]
    by (simp add: loc_read_conf_r_long_def)
qed

section \<open>Updating from a buffer\<close>

lemma line_body:
  assumes "is_line tx n v"
  shows "\<exists>t. tx = t @ [newline] \<and> newline \<notin> set t \<and> t \<noteq> []"
proof -
  obtain t where t: "tx = t @ [newline]" "newline \<notin> set t"
    using line_ends[of "Suc (length tx)" tx "Some (n, v)"] assms by auto
  moreover have "length tx > 1" using assms by (auto simp: is_line_def)
  ultimately show ?thesis by auto
qed

text \<open>Here every line is a setting, given as its text, its name and its value.\<close>

lemma strtok_line:
  assumes "newline \<notin> set t" "t \<noteq> []"
  shows "strtok_r [newline] (t @ newline # rest) = Some (t, rest)"
proof -
  have "takeWhile (\<lambda>x. x \<notin> set [newline]) (t @ newline # rest) = t"
    using assms(1) by (subst takeWhile_append2) auto
  moreover have "dropWhile (\<lambda>x. x \<notin> set [newline]) (t @ newline # rest) = newline # rest"
    using assms(1) by (subst dropWhile_append2) auto
  moreover have "dropWhile (\<lambda>x. x \<in> set [newline]) (t @ newline # rest) = t @ newline # rest"
    using assms by (cases t) auto
  ultimately show ?thesis by (simp add: strtok_r_def Let_def)
qed

lemma update_loop_lines:
  assumes "table_ok table"
  shows "\<forall>(tx, n, v)\<in>set ls. is_line tx n v \<and> n \<in> param_name ` set table \<Longrightarrow> num < 2 ^ 32 \<Longrightarrow>
    update_loop table len (of_nat num) (strtok_r [newline] (concat (map fst ls))) ret m =
      (ret + int (min num (length ls)), store_all table len (take num (map snd ls)) m)"
proof (induction ls arbitrary: num ret m)
  case Nil
  then show ?case by (simp add: strtok_r_def store_all_def)
next
  case (Cons l ls)
  obtain tx n v where l: "l = (tx, n, v)" by (cases l)
  have line: "is_line tx n v" using Cons.prems(1) by (simp add: l)
  obtain e where e: "e \<in> set table" "n = param_name e" using Cons.prems(1) by (auto simp: l)
  obtain m1 where f: "fill_table table (config_value n v) len m = (1, m1)"
    using fill_table_one[OF assms e(1), of v len m] e(2) by blast
  obtain t where t: "tx = t @ [newline]" "newline \<notin> set t" "t \<noteq> []"
    using line_body[OF line] by blast
  have tok: "strtok_r [newline] (concat (map fst (l # ls))) = Some (t, concat (map fst ls))"
    using strtok_line[OF t(2,3)] by (simp add: l t(1))
  have item: "loc_fill_conf_item t table len m = (1, m1)" using fill_line(2)[OF line] f by (simp add: t(1))
  show ?case
  proof (cases num)
    case 0
    then show ?thesis using tok by (simp add: store_all_def)
  next
    case (Suc k)
    then have "(of_nat num :: u32) \<noteq> 0" using Cons.prems(2) by (simp add: word_of_nat_eq_0_iff nat_dvd_not_less del: of_nat_Suc)
    moreover have "(of_nat num :: u32) - of_nat 1 = of_nat k" using Suc by simp
    ultimately have "update_loop table len (of_nat num) (strtok_r [newline] (concat (map fst (l # ls)))) ret m =
        update_loop table len (of_nat k) (strtok_r [newline] (concat (map fst ls))) (ret + 1) m1"
      by (simp only: tok update_loop.simps item Let_def prod.case if_False)
    also have "\<dots> = (ret + 1 + int (min k (length ls)), store_all table len (take k (map snd ls)) m1)"
      using Cons.prems Suc by (intro Cons.IH) auto
    finally show ?thesis using f Suc by (simp only: l list.map snd_conv take_Suc_Cons store_all_Cons list.size) simp
  qed
qed

lemma lines_no_NUL:
  assumes "\<forall>(tx, n, v)\<in>set ls. is_line tx n v"
  shows "c_string (concat (map fst ls)) = concat (map fst ls)"
proof -
  have "NUL \<notin> set tx" if "(tx, n, v) \<in> set ls" for tx n v
  proof -
    have "c_string tx = tx" using fill_line(1)[of tx n v] that assms by blast
    then show ?thesis by (auto simp: c_string_def takeWhile_eq_all_conv)
  qed
  then show ?thesis by (auto simp: c_string_def takeWhile_eq_all_conv)
qed

lemma update_conf_lines:
  assumes "table_ok table" "table \<noteq> []" "ls \<noteq> []" "\<forall>(tx, n, v)\<in>set ls. is_line tx n v \<and> n \<in> param_name ` set table"
  shows "loc_update_conf_long True (Some (concat (map fst ls))) (length (concat (map fst ls))) table len m =
    (int (min (length table - 1) (length ls)), store_all table len (take (length table - 1) (map snd ls)) m)"
proof -
  let ?tx = "concat (map fst ls)" and ?n = "length table - 1"
  have small: "?n < 2 ^ 32" "0 < length table" using assms(1,2) by (auto simp: table_ok_def)
  have "\<forall>(tx, n, v)\<in>set ls. is_line tx n v" using assms(4) by fastforce
  then have "c_string ?tx = ?tx" by (rule lines_no_NUL)
  moreover have "?tx \<noteq> []" using assms(3,4) by (cases ls) (auto simp: is_line_def)
  moreover have "(of_nat (length table) - 1 :: u32) = of_nat ?n" using small(2) by (cases "length table") auto
  ultimately show ?thesis using update_loop_lines[OF assms(1,4) small(1), of len 0 m] assms(2)
    by (simp only: loc_update_conf_long_def option.case take_all order_refl) simp
qed

text \<open>
  A buffer with one line for each entry of the table: all but the last line are stored, and the
  number returned is one less than the number of entries. The count of what is still to come starts
  one too low.
\<close>

theorem update_conf_skips_last:
  assumes "table_ok table" "\<forall>(tx, n, v)\<in>set ls. is_line tx n v" "map (fst \<circ> snd) ls = map param_name table"
    "e \<in> set table"
  shows "\<exists>m'. loc_update_conf_long True (Some (concat (map fst ls))) (length (concat (map fst ls))) table len m =
      (int (length table - 1), m') \<and>
    entry_value e m' = (if e = last table then entry_value e m else stored e len (the (map_of (map snd ls) (param_name e))))"
proof -
  let ?n = "length table - 1" and ?nvs = "map snd ls"
  have ne: "table \<noteq> []" using assms(4) by auto
  then have tail: "table = butlast table @ [last table]" by simp
  have len: "length ls = length table" using assms(3) by (metis length_map)
  have "(fst \<circ> snd) ` set ls = param_name ` set table" using assms(3) by (metis list.set_map)
  then have "(fst \<circ> snd) l \<in> param_name ` set table" if "l \<in> set ls" for l using that by blast
  then have names: "\<forall>(tx, n, v)\<in>set ls. is_line tx n v \<and> n \<in> param_name ` set table" using assms(2) by fastforce
  have run: "loc_update_conf_long True (Some (concat (map fst ls))) (length (concat (map fst ls))) table len m =
      (int ?n, store_all table len (take ?n ?nvs) m)"
    using update_conf_lines[OF assms(1) ne _ names, of len m] len ne by (cases ls) (auto simp: min_def)
  have tab: "distinct (map param_name (butlast table @ [last table]))" using assms(1) tail by (simp add: table_ok_def)
  have first: "map fst (take ?n ?nvs) = map param_name (butlast table)"
    using assms(3) len by (simp add: take_map[symmetric] butlast_conv_take)
  then have dom: "fst ` set (take ?n ?nvs) = param_name ` set (butlast table)" by (metis list.set_map)
  have dist: "distinct (map fst ?nvs)" "distinct (map fst (take ?n ?nvs))"
    using assms(1,3) tab first by (auto simp: table_ok_def)
  have "entry_value e (store_all table len (take ?n ?nvs) m) =
      (if e = last table then entry_value e m else stored e len (the (map_of ?nvs (param_name e))))"
  proof (cases "e = last table")
    case True
    then show ?thesis using store_all_untouched[OF assms(1,4), of "take ?n ?nvs" len m] tab dom by simp
  next
    case False
    then have "e \<in> set (butlast table)" using assms(4) tail by (metis Un_iff set_append set_ConsD list.set(1) empty_iff)
    then obtain v where v: "(param_name e, v) \<in> set (take ?n ?nvs)" using dom by force
    then have "map_of (take ?n ?nvs) (param_name e) = Some v" "map_of ?nvs (param_name e) = Some v"
      using dist in_set_takeD[OF v] by (auto intro: map_of_is_SomeI)
    then show ?thesis using store_all_entry[OF assms(1,4) dist(2), of len m] False by simp
  qed
  with run show ?thesis by blast
qed

section \<open>Witnesses\<close>

text \<open>A table of two numbers and a text of two lines with a remark between them.\<close>

definition sample_table :: "loc_param_s_type list" where
  "sample_table =
     [\<lparr>param_name = ''A'', param_ptr = Some ''a'', param_set = Some ''sa'', param_type = CHR ''n''\<rparr>,
      \<lparr>param_name = ''B'', param_ptr = Some ''b'', param_set = Some ''sb'', param_type = CHR ''s''\<rparr>]"

lemma sample_table_ok: "table_ok sample_table"
  by (simp add: table_ok_def entry_ok_def sample_table_def)

lemma sample_words: "word_ok ''A''" "word_ok ''B''" "word_ok ''7''" "word_ok ''x''" "padding []" "padding '' ''"
  by (simp_all add: word_ok_def padding_def isspace_def NUL_def newline_def)

lemma sample_lines:
  "is_line (''A = 7'' @ [newline]) ''A'' ''7''" "is_line (''B=x'' @ [newline]) ''B'' ''x''" "is_remark [newline]"
proof -
  show "is_line (''A = 7'' @ [newline]) ''A'' ''7''" unfolding is_line_def
    using sample_words by (intro conjI exI[of _ "[]"] exI[of _ "'' ''"]) auto
  show "is_line (''B=x'' @ [newline]) ''B'' ''x''" unfolding is_line_def
    using sample_words by (intro conjI exI[of _ "[]"]) auto
  show "is_remark [newline]" by (simp add: is_remark_def newline_def NUL_def)
qed

theorem read_conf_correct_witness:
  "\<exists>rest m'. loc_read_conf_r_long (Some (''A = 7'' @ [newline, newline] @ ''B=x'' @ [newline])) sample_table 172
      \<lparr>strs = (\<lambda>_. []), nums = (\<lambda>_. 0), dbls = (\<lambda>_. Zero), sets = (\<lambda>_. 0)\<rparr> = Some (0, Some rest, m') \<and>
    nums m' ''a'' = 7 \<and> sets m' ''sa'' = 1"
  using read_conf_correct[OF sample_table_ok, of 172
      "[(''A = 7'' @ [newline], Some (''A'', ''7'')), ([newline], None), (''B=x'' @ [newline], Some (''B'', ''x''))]"
      "hd sample_table" "\<lparr>strs = (\<lambda>_. []), nums = (\<lambda>_. 0), dbls = (\<lambda>_. Zero), sets = (\<lambda>_. 0)\<rparr>"]
    sample_lines
  by (simp add: settings_Cons sample_table_def entry_value_def stored_def is_hex_def atoi_def strtol_def isspace_def
      digits_def digits_value_def digit_value_def)

theorem read_conf_stops_early_witness:
  "\<exists>left m'. loc_read_conf_r_long (Some (''A = 7'' @ [newline] @ ''A = 7'' @ [newline] @ ''B=x'' @ [newline])) sample_table 172
      \<lparr>strs = (\<lambda>_. []), nums = (\<lambda>_. 0), dbls = (\<lambda>_. Zero), sets = (\<lambda>_. 0)\<rparr> = Some (0, Some left, m') \<and>
    strs m' ''b'' = [] \<and> sets m' ''sb'' = 0"
  using read_conf_stops_early[OF sample_table_ok, of
      "[(''A = 7'' @ [newline], Some (''A'', ''7'')), (''A = 7'' @ [newline], Some (''A'', ''7''))]" 172
      "last sample_table" "''B=x'' @ [newline]"
      "\<lparr>strs = (\<lambda>_. []), nums = (\<lambda>_. 0), dbls = (\<lambda>_. Zero), sets = (\<lambda>_. 0)\<rparr>"]
    sample_lines
  by (simp add: settings_Cons sample_table_def entry_value_def)

theorem update_conf_skips_last_witness:
  "\<exists>m'. loc_update_conf_long True (Some (''A = 7'' @ [newline] @ ''B=x'' @ [newline])) 10 sample_table 172
      \<lparr>strs = (\<lambda>_. []), nums = (\<lambda>_. 0), dbls = (\<lambda>_. Zero), sets = (\<lambda>_. 0)\<rparr> = (1, m') \<and> strs m' ''b'' = []"
  using update_conf_skips_last[OF sample_table_ok, of
      "[(''A = 7'' @ [newline], ''A'', ''7''), (''B=x'' @ [newline], ''B'', ''x'')]"
      "last sample_table" 172 "\<lparr>strs = (\<lambda>_. []), nums = (\<lambda>_. 0), dbls = (\<lambda>_. Zero), sets = (\<lambda>_. 0)\<rparr>"]
    sample_lines
  by (simp add: sample_table_def entry_value_def numeral_eq_Suc)

end
