(* ===== verification/CfgProc.thy ===== *)
theory CfgProc
  imports CfgRead Machine
begin

text \<open>
  \<open>loc_read_process_conf\<close> (\<open>gps/utils/loc_cfg.cpp\<close>): which location processes of a configuration file are
  to be launched, with which groups and arguments. The file is a sequence of blocks that begin with
  \<open>PROCESS_NAME\<close>; a block is read into the static structure \<open>conf\<close>, whose members are variables of the
  memory named \<open>conf.\<dots>\<close>. Splitting a member cuts it off behind its first word. An array write whose
  index is past the end makes the result \<open>None\<close>. The device's names and the group database are
  arguments.
\<close>

unbundle bit_operations_syntax

definition MAX_NUM_STRINGS :: nat where "MAX_NUM_STRINGS = 20"
definition LOC_PROCESS_MAX_NUM_GROUPS :: nat where "LOC_PROCESS_MAX_NUM_GROUPS = 20"
definition LOC_PROCESS_MAX_NUM_ARGS :: nat where "LOC_PROCESS_MAX_NUM_ARGS = 25"
definition LOC_PROCESS_MAX_ARG_STR_LENGTH :: nat where "LOC_PROCESS_MAX_ARG_STR_LENGTH = 32"

definition CONFIG_MASK_TARGET_ALL :: u8 where "CONFIG_MASK_TARGET_ALL = 0x01"
definition CONFIG_MASK_TARGET_FOUND :: u8 where "CONFIG_MASK_TARGET_FOUND = 0x02"
definition CONFIG_MASK_TARGET_CHECK :: u8 where "CONFIG_MASK_TARGET_CHECK = 0x03"
definition CONFIG_MASK_BASEBAND_ALL :: u8 where "CONFIG_MASK_BASEBAND_ALL = 0x04"
definition CONFIG_MASK_BASEBAND_FOUND :: u8 where "CONFIG_MASK_BASEBAND_FOUND = 0x08"
definition CONFIG_MASK_BASEBAND_CHECK :: u8 where "CONFIG_MASK_BASEBAND_CHECK = 0x0c"
definition CONFIG_MASK_AUTOPLATFORM_ALL :: u8 where "CONFIG_MASK_AUTOPLATFORM_ALL = 0x10"
definition CONFIG_MASK_AUTOPLATFORM_FOUND :: u8 where "CONFIG_MASK_AUTOPLATFORM_FOUND = 0x20"
definition CONFIG_MASK_AUTOPLATFORM_CHECK :: u8 where "CONFIG_MASK_AUTOPLATFORM_CHECK = 0x30"
definition CONFIG_MASK_SOCID_ALL :: u8 where "CONFIG_MASK_SOCID_ALL = 0x40"
definition CONFIG_MASK_SOCID_FOUND :: u8 where "CONFIG_MASK_SOCID_FOUND = 0x80"
definition CONFIG_MASK_SOCID_CHECK :: u8 where "CONFIG_MASK_SOCID_CHECK = 0xc0"

lemmas config_mask_defs =
  CONFIG_MASK_TARGET_ALL_def CONFIG_MASK_TARGET_FOUND_def CONFIG_MASK_TARGET_CHECK_def
  CONFIG_MASK_BASEBAND_ALL_def CONFIG_MASK_BASEBAND_FOUND_def CONFIG_MASK_BASEBAND_CHECK_def
  CONFIG_MASK_AUTOPLATFORM_ALL_def CONFIG_MASK_AUTOPLATFORM_FOUND_def CONFIG_MASK_AUTOPLATFORM_CHECK_def
  CONFIG_MASK_SOCID_ALL_def CONFIG_MASK_SOCID_FOUND_def CONFIG_MASK_SOCID_CHECK_def

definition LOC_FEATURE_MASK_GTP_WIFI_BASIC :: u32 where "LOC_FEATURE_MASK_GTP_WIFI_BASIC = 0x01"
definition LOC_FEATURE_MASK_GTP_WIFI_PREMIUM :: u32 where "LOC_FEATURE_MASK_GTP_WIFI_PREMIUM = 0x02"
definition LOC_FEATURE_MASK_GTP_CELL_BASIC :: u32 where "LOC_FEATURE_MASK_GTP_CELL_BASIC = 0x04"
definition LOC_FEATURE_MASK_GTP_CELL_PREMIUM :: u32 where "LOC_FEATURE_MASK_GTP_CELL_PREMIUM = 0x08"
definition LOC_FEATURE_MASK_SAP_BASIC :: u32 where "LOC_FEATURE_MASK_SAP_BASIC = 0x40"
definition LOC_FEATURE_MASK_SAP_PREMIUM :: u32 where "LOC_FEATURE_MASK_SAP_PREMIUM = 0x80"
definition LOC_FEATURE_MASK_GTP_WAA_BASIC :: u32 where "LOC_FEATURE_MASK_GTP_WAA_BASIC = 0x100"
definition LOC_FEATURE_MASK_GTP_MODEM_CELL_BASIC :: u32 where "LOC_FEATURE_MASK_GTP_MODEM_CELL_BASIC = 0x400"
definition LOC_FEATURE_MASK_ODCPI :: u32 where "LOC_FEATURE_MASK_ODCPI = 0x1000"
definition LOC_FEATURE_MASK_FREE_WIFI_SCAN_INJECT :: u32 where "LOC_FEATURE_MASK_FREE_WIFI_SCAN_INJECT = 0x2000"
definition LOC_FEATURE_MASK_SUPL_WIFI :: u32 where "LOC_FEATURE_MASK_SUPL_WIFI = 0x4000"
definition LOC_FEATURE_MASK_WIFI_SUPPLICANT_INFO :: u32 where "LOC_FEATURE_MASK_WIFI_SUPPLICANT_INFO = 0x8000"

section \<open>Tables\<close>

definition str_param :: "string \<Rightarrow> address \<Rightarrow> loc_param_s_type" where
  "str_param n a = \<lparr>param_name = n, param_ptr = Some a, param_set = None, param_type = CHR ''s''\<rparr>"

definition num_param :: "string \<Rightarrow> address \<Rightarrow> loc_param_s_type" where
  "num_param n a = \<lparr>param_name = n, param_ptr = Some a, param_set = None, param_type = CHR ''n''\<rparr>"

definition gps_conf_parameter_table :: "loc_param_s_type list" where
  "gps_conf_parameter_table = [num_param ''SGLTE_TARGET'' ''conf.sglte_target'']"

definition loc_feature_conf_table :: "loc_param_s_type list" where
  "loc_feature_conf_table =
     [str_param ''GTP_MODE'' ''conf.feature_gtp_mode'',
      str_param ''GTP_WAA'' ''conf.feature_gtp_waa'',
      str_param ''SAP'' ''conf.feature_sap'',
      str_param ''ODCPI'' ''conf.feature_odcpi'',
      str_param ''FREE_WIFI_SCAN_INJECT'' ''conf.feature_free_wifi_scan_inject'',
      str_param ''SUPL_WIFI'' ''conf.feature_supl_wifi'',
      str_param ''WIFI_SUPPLICANT_INFO'' ''conf.feature_wifi_supplicant_info'']"

definition loc_process_conf_parameter_table :: "loc_param_s_type list" where
  "loc_process_conf_parameter_table =
     [str_param ''PROCESS_NAME'' ''conf.proc_name'',
      str_param ''PROCESS_ARGUMENT'' ''conf.proc_argument'',
      str_param ''PROCESS_STATE'' ''conf.proc_status'',
      str_param ''PROCESS_GROUPS'' ''conf.group_list'',
      num_param ''PREMIUM_FEATURE'' ''conf.premium_feature'',
      num_param ''IZAT_FEATURE_MASK'' ''conf.loc_feature_mask'',
      str_param ''PLATFORMS'' ''conf.platform_list'',
      str_param ''SOC_IDS'' ''conf.soc_id_list'',
      str_param ''BASEBAND'' ''conf.baseband'',
      str_param ''LOW_RAM_TARGETS'' ''conf.low_ram_targets'',
      str_param ''HARDWARE_TYPE'' ''conf.auto_platform'',
      num_param ''VENDOR_ENHANCED_PROCESS'' ''conf.vendor_enhanced_process'']"

section \<open>Processes and the device\<close>

datatype loc_process_e_status = ENABLED | RUNNING | DISABLED | DISABLED_FROM_CONF | DISABLED_VIA_VENDOR_ENHANCED_CHECK

record loc_process_info_s_type =
  proc_status :: loc_process_e_status
  proc_id :: u32
  name :: "string list"
  group_list :: "u32 list"
  num_groups :: u8
  args :: "string list"
  argumentString :: string

text \<open>An element of the array that \<open>calloc\<close> gives.\<close>

definition zeroed_process :: loc_process_info_s_type where
  "zeroed_process =
     \<lparr>proc_status = ENABLED, proc_id = 0, name = [[], []], group_list = replicate LOC_PROCESS_MAX_NUM_GROUPS 0,
      num_groups = 0, args = replicate LOC_PROCESS_MAX_NUM_ARGS [], argumentString = []\<rparr>"

record device =
  platform_name :: string
  baseband_name :: string
  autoplatform_name :: string
  socid_value :: string
  low_ram_target :: bool
  vendor_enhanced :: bool
  getgrnam :: "string \<Rightarrow> u32 option"
  use_glib :: bool

section \<open>The service bits\<close>

definition gtp_mode_service :: "string \<Rightarrow> u32" where
  "gtp_mode_service v =
     (if v = ''DISABLED'' then 0
      else if v = ''LEGACY_WWAN'' then LOC_FEATURE_MASK_GTP_MODEM_CELL_BASIC
      else if v = ''SDK'' then LOC_FEATURE_MASK_GTP_WIFI_BASIC
      else if v = ''SDK_WIFI'' then LOC_FEATURE_MASK_GTP_WIFI_BASIC
      else 0)"

definition gtp_waa_service :: "string \<Rightarrow> u32" where
  "gtp_waa_service v = (if v = ''BASIC'' then LOC_FEATURE_MASK_GTP_WAA_BASIC else if v = ''DISABLED'' then 0 else 0)"

definition sap_service :: "bool \<Rightarrow> string \<Rightarrow> u32" where
  "sap_service glib v =
     (if v = ''PREMIUM'' \<or> v = ''PREMIUM_ENV_AIDING'' then LOC_FEATURE_MASK_SAP_PREMIUM
      else if v = ''BASIC'' then LOC_FEATURE_MASK_SAP_BASIC
      else if v = ''MODEM_DEFAULT'' then LOC_FEATURE_MASK_SAP_BASIC
      else if v = ''DISABLED'' then (if glib then LOC_FEATURE_MASK_SAP_BASIC else 0)
      else LOC_FEATURE_MASK_SAP_BASIC)"

definition basic_service :: "u32 \<Rightarrow> string \<Rightarrow> u32" where
  "basic_service b v = (if v = ''BASIC'' then b else if v = ''DISABLED'' then 0 else if v = ''PREMIUM'' then b else 0)"

definition loc_service_mask :: "device \<Rightarrow> memory \<Rightarrow> u32" where
  "loc_service_mask d m =
     gtp_mode_service (strs m ''conf.feature_gtp_mode'')
     OR gtp_waa_service (strs m ''conf.feature_gtp_waa'')
     OR sap_service (use_glib d) (strs m ''conf.feature_sap'')
     OR basic_service LOC_FEATURE_MASK_ODCPI (strs m ''conf.feature_odcpi'')
     OR basic_service LOC_FEATURE_MASK_FREE_WIFI_SCAN_INJECT (strs m ''conf.feature_free_wifi_scan_inject'')
     OR basic_service LOC_FEATURE_MASK_SUPL_WIFI (strs m ''conf.feature_supl_wifi'')
     OR basic_service LOC_FEATURE_MASK_WIFI_SUPPLICANT_INFO (strs m ''conf.feature_wifi_supplicant_info'')"

section \<open>Which devices a block is for\<close>

text \<open>\<open>split_strings\<close> is an array of \<open>MAX_NUM_STRINGS\<close> pointers; one more that is written makes the result \<open>None\<close>.\<close>

definition split_member :: "address \<Rightarrow> memory \<Rightarrow> (nat \<times> string list \<times> memory) option" where
  "split_member a m =
     (let (nstrings, split_strings, left) = loc_util_split_string (strs m a) MAX_NUM_STRINGS (CHR '' '')
      in if length split_strings \<le> MAX_NUM_STRINGS then Some (nstrings, split_strings, m\<lparr>strs := (strs m)(a := left)\<rparr>)
         else None)"

definition platform_check :: "device \<Rightarrow> u8 \<Rightarrow> memory \<Rightarrow> (u8 \<times> memory) option" where
  "platform_check d config_mask m = do {
     (nstrings, split_strings, m) \<leftarrow> split_member ''conf.platform_list'' m;
     Some
      (if split_strings ! 0 = ''all''
       then (if nstrings = 1 \<or> (nstrings = 2 \<and> split_strings ! 1 = ''exclude'')
             then config_mask OR CONFIG_MASK_TARGET_ALL
             else if nstrings > 2 \<and> split_strings ! 1 = ''exclude''
             then (let config_mask = config_mask OR CONFIG_MASK_TARGET_FOUND in
                   if list_ex (\<lambda>s. platform_name d = s) (drop 2 split_strings)
                   then config_mask AND NOT CONFIG_MASK_TARGET_FOUND else config_mask)
             else config_mask)
       else if list_ex (\<lambda>s. platform_name d = s) split_strings
       then config_mask OR CONFIG_MASK_TARGET_FOUND else config_mask, m)
   }"

definition soc_check :: "device \<Rightarrow> u8 \<Rightarrow> memory \<Rightarrow> (u8 \<times> memory) option" where
  "soc_check d config_mask m = do {
     (nstrings, split_strings, m) \<leftarrow> split_member ''conf.soc_id_list'' m;
     Some
      (if split_strings ! 0 = ''all''
       then (if nstrings = 1 \<or> (nstrings = 2 \<and> split_strings ! 1 = ''exclude'')
             then config_mask OR CONFIG_MASK_SOCID_ALL
             else if nstrings > 2 \<and> split_strings ! 1 = ''exclude''
             then (let config_mask = config_mask OR CONFIG_MASK_SOCID_FOUND in
                   if list_ex (\<lambda>s. socid_value d = s) (drop 2 split_strings)
                   then config_mask AND NOT CONFIG_MASK_SOCID_FOUND else config_mask)
             else config_mask)
       else if list_ex (\<lambda>s. socid_value d = s) split_strings
       then config_mask OR CONFIG_MASK_SOCID_FOUND else config_mask, m)
   }"

definition baseband_check :: "device \<Rightarrow> u8 \<Rightarrow> memory \<Rightarrow> (u8 \<times> memory) option" where
  "baseband_check d config_mask m = do {
     (nstrings, split_strings, m) \<leftarrow> split_member ''conf.baseband'' m;
     Some
      (if split_strings ! 0 = ''all''
       then (if nstrings = 1 \<or> (nstrings = 2 \<and> split_strings ! 1 = ''exclude'')
             then config_mask OR CONFIG_MASK_BASEBAND_ALL
             else if nstrings > 2 \<and> split_strings ! 1 = ''exclude''
             then (let config_mask = config_mask OR CONFIG_MASK_BASEBAND_FOUND in
                   if list_ex (\<lambda>s. baseband_name d = s) (drop 2 split_strings)
                   then config_mask AND NOT CONFIG_MASK_BASEBAND_FOUND else config_mask)
             else config_mask)
       else if list_ex (\<lambda>s. baseband_name d = s \<or> s = ''sglte'' \<and> nums m ''conf.sglte_target'' \<noteq> 0) split_strings
       then config_mask OR CONFIG_MASK_BASEBAND_FOUND else config_mask, m)
   }"

definition autoplatform_check :: "device \<Rightarrow> u8 \<Rightarrow> memory \<Rightarrow> (u8 \<times> memory) option" where
  "autoplatform_check d config_mask m = do {
     (nstrings, split_strings, m) \<leftarrow> split_member ''conf.auto_platform'' m;
     Some
      (if split_strings ! 0 = ''all'' then config_mask OR CONFIG_MASK_AUTOPLATFORM_ALL
       else if list_ex (\<lambda>s. autoplatform_name d = s) split_strings
       then config_mask OR CONFIG_MASK_AUTOPLATFORM_FOUND else config_mask, m)
   }"

section \<open>Groups and arguments\<close>

fun set_groups :: "(string \<Rightarrow> u32 option) \<Rightarrow> string list \<Rightarrow> loc_process_info_s_type \<Rightarrow> loc_process_info_s_type option" where
  "set_groups grp [] p = Some p"
| "set_groups grp (s # ss) p = (case grp s of
     None \<Rightarrow> set_groups grp ss p
   | Some gid \<Rightarrow>
       if unat (num_groups p) < length (group_list p)
       then set_groups grp ss (p\<lparr>group_list := (group_list p)[unat (num_groups p) := gid], num_groups := num_groups p + 1\<rparr>)
       else None)"

definition strlcat :: "string \<Rightarrow> string \<Rightarrow> nat \<Rightarrow> string" where
  "strlcat dst src len = (if length dst < len then take (len - 1) (dst @ src) else dst)"

definition arg_gtp_waa :: string where
  "arg_gtp_waa = strlcat ''--'' ''gtp-waa'' (LOC_PROCESS_MAX_ARG_STR_LENGTH - 3)"
definition arg_gtp_modem_cell :: string where
  "arg_gtp_modem_cell = strlcat ''--'' ''gtp-modem-cell'' (LOC_PROCESS_MAX_ARG_STR_LENGTH - 3)"
definition arg_gtp_wifi :: string where
  "arg_gtp_wifi = strlcat ''--'' ''gtp-wifi'' (LOC_PROCESS_MAX_ARG_STR_LENGTH - 3)"
definition arg_sap :: string where
  "arg_sap = strlcat ''--'' ''sap'' (LOC_PROCESS_MAX_ARG_STR_LENGTH - 3)"

text \<open>\<open>strlcpy(child_proc[j].args[i++], s, \<dots>)\<close>, and two of them in a row.\<close>

definition put_arg :: "string \<Rightarrow> nat \<times> loc_process_info_s_type \<Rightarrow> (nat \<times> loc_process_info_s_type) option" where
  "put_arg s ip = (case ip of (i, p) \<Rightarrow>
     if i < length (args p)
     then Some (i + 1, p\<lparr>args := (args p)[i := strlcpy s LOC_PROCESS_MAX_ARG_STR_LENGTH]\<rparr>) else None)"

definition put_option :: "string \<Rightarrow> string \<Rightarrow> nat \<times> loc_process_info_s_type \<Rightarrow> (nat \<times> loc_process_info_s_type) option" where
  "put_option s mode ip = Option.bind (put_arg s ip) (put_arg mode)"

definition premium_args :: "u32 \<Rightarrow> u32 \<Rightarrow> nat \<times> loc_process_info_s_type \<Rightarrow> (nat \<times> loc_process_info_s_type) option" where
  "premium_args loc_feature_mask service ip = do {
     ip \<leftarrow> (if loc_feature_mask AND (LOC_FEATURE_MASK_GTP_WIFI_BASIC OR LOC_FEATURE_MASK_GTP_WIFI_PREMIUM) \<noteq> 0
       then put_option arg_gtp_wifi
         (if service AND LOC_FEATURE_MASK_GTP_WIFI_BASIC \<noteq> 0 then ''BASIC''
          else if service AND LOC_FEATURE_MASK_GTP_WIFI_PREMIUM \<noteq> 0 then ''PREMIUM'' else ''DISABLED'') ip
       else Some ip);
     ip \<leftarrow> (if loc_feature_mask AND (LOC_FEATURE_MASK_GTP_CELL_BASIC OR LOC_FEATURE_MASK_GTP_CELL_PREMIUM) \<noteq> 0
       then put_option arg_gtp_modem_cell
         (if service AND LOC_FEATURE_MASK_GTP_MODEM_CELL_BASIC \<noteq> 0 then ''BASIC'' else ''DISABLED'') ip
       else Some ip);
     ip \<leftarrow> (if loc_feature_mask AND (LOC_FEATURE_MASK_SAP_BASIC OR LOC_FEATURE_MASK_SAP_PREMIUM) \<noteq> 0
       then put_option arg_sap
         (if service AND LOC_FEATURE_MASK_SAP_BASIC \<noteq> 0 then ''BASIC''
          else if service AND LOC_FEATURE_MASK_SAP_PREMIUM \<noteq> 0 then ''PREMIUM'' else ''DISABLED'') ip
       else Some ip);
     (if loc_feature_mask AND LOC_FEATURE_MASK_GTP_WAA_BASIC \<noteq> 0
       then put_option arg_gtp_waa
         (if service AND LOC_FEATURE_MASK_GTP_WAA_BASIC \<noteq> 0 then ''BASIC'' else ''DISABLED'') ip
       else Some ip)
   }"

fun copy_args :: "nat \<Rightarrow> string list \<Rightarrow> loc_process_info_s_type \<Rightarrow> loc_process_info_s_type option" where
  "copy_args index [] p = Some p"
| "copy_args index (s # ss) p =
     (if index < LOC_PROCESS_MAX_NUM_ARGS
      then (if index < length (args p)
            then copy_args (index + 1) ss (p\<lparr>args := (args p)[index := strlcpy s LOC_PROCESS_MAX_ARG_STR_LENGTH]\<rparr>)
            else None)
      else Some p)"

definition base_name :: "string \<Rightarrow> string" where
  "base_name s = (if s \<noteq> [] \<and> hd s = CHR ''/'' then rev (takeWhile (\<lambda>c. c \<noteq> CHR ''/'') (rev s)) else s)"

text \<open>
  The arguments of a process that passed the checks of its device. \<open>temp_args\<close> is an array of
  \<open>LOC_PROCESS_MAX_NUM_ARGS\<close> pointers on the stack, written from index \<open>i\<close> on.
\<close>

definition set_args :: "u32 \<Rightarrow> memory \<Rightarrow> loc_process_info_s_type \<Rightarrow> loc_process_info_s_type option" where
  "set_args service m p = do {
     (i, p) \<leftarrow> put_arg (base_name (name p ! 0)) (0, p);
     (i, p) \<leftarrow> (if nums m ''conf.premium_feature'' \<noteq> 0
       then (if nums m ''conf.loc_feature_mask'' AND service \<noteq> 0
             then premium_args (nums m ''conf.loc_feature_mask'') service (i, p\<lparr>proc_status := ENABLED\<rparr>)
             else Some (i, p))
       else Some (i, p\<lparr>proc_status := ENABLED\<rparr>));
     if strs m ''conf.proc_argument'' \<noteq> []
     then (let (n, temp_args, left) = loc_util_split_string (strlcpy (strs m ''conf.proc_argument'') LOC_MAX_PARAM_STRING)
             (LOC_PROCESS_MAX_NUM_ARGS - i) (CHR '' '')
       in if i + length temp_args \<le> LOC_PROCESS_MAX_NUM_ARGS then copy_args i temp_args (p\<lparr>argumentString := left\<rparr>)
          else None)
     else Some p
   }"

section \<open>A block\<close>

text \<open>The body of the loop over the processes, behind the reading of the block.\<close>

definition set_process :: "device \<Rightarrow> u32 \<Rightarrow> memory \<Rightarrow> loc_process_info_s_type \<Rightarrow> (loc_process_info_s_type \<times> memory) option" where
  "set_process d service m p =
     (if strs m ''conf.proc_name'' = [] \<or> strs m ''conf.group_list'' = [] \<or> strs m ''conf.platform_list'' = []
         \<or> strs m ''conf.baseband'' = [] \<or> strs m ''conf.proc_status'' = [] \<or> strs m ''conf.auto_platform'' = []
         \<or> strs m ''conf.soc_id_list'' = []
      then Some (p, m)
      else if \<not> vendor_enhanced d \<and> nums m ''conf.vendor_enhanced_process'' \<noteq> 0
      then Some (p\<lparr>proc_status := DISABLED_VIA_VENDOR_ENHANCED_CHECK\<rparr>, m)
      else if strs m ''conf.proc_status'' = ''DISABLED''
      then Some (p\<lparr>proc_status := DISABLED_FROM_CONF\<rparr>, m)
      else if length (strs m ''conf.proc_name'') + 1 > LOC_MAX_PARAM_STRING
      then Some (p, m)
      else do {
        let p = p\<lparr>name := (name p)[0 := strlcpy (strs m ''conf.proc_name'') LOC_MAX_PARAM_STRING], num_groups := 0\<rparr>;
        (ngroups, split_strings, m) \<leftarrow> split_member ''conf.group_list'' m;
        p \<leftarrow> set_groups (getgrnam d) split_strings p;
        (config_mask, m) \<leftarrow> platform_check d 0 m;
        (config_mask, m) \<leftarrow> soc_check d config_mask m;
        (config_mask, m) \<leftarrow> baseband_check d config_mask m;
        (config_mask, m) \<leftarrow> autoplatform_check d config_mask m;
        (nstrings, split_strings, m) \<leftarrow> split_member ''conf.low_ram_targets'' m;
        if split_strings ! 0 = ''DISABLED'' \<and> low_ram_target d
        then Some (p\<lparr>proc_status := DISABLED\<rparr>, m)
        else if config_mask AND CONFIG_MASK_TARGET_CHECK \<noteq> 0 \<and> config_mask AND CONFIG_MASK_BASEBAND_CHECK \<noteq> 0
            \<and> config_mask AND CONFIG_MASK_AUTOPLATFORM_CHECK \<noteq> 0 \<and> config_mask AND CONFIG_MASK_SOCID_CHECK \<noteq> 0
            \<and> proc_status p \<noteq> DISABLED_FROM_CONF \<and> proc_status p \<noteq> DISABLED_VIA_VENDOR_ENHANCED_CHECK
        then do { p \<leftarrow> set_args service m p; Some (p, m) }
        else Some (p, m)
      })"

section \<open>The file\<close>

text \<open>Counting the processes: \<open>Some None\<close> is the exit through \<open>err\<close>.\<close>

lemma read_loop_shrinks:
  "read_loop table len num content m = Some (rest, m') \<Longrightarrow>
   length rest \<le> length content \<and> (length rest = length content \<longrightarrow> m' = m)"
proof (induction table len num content m rule: read_loop.induct)
  case (1 table len num content m)
  show ?case
  proof (cases "num = 0 \<or> len < 2 \<or> fgets len content = None")
    case True
    then show ?thesis using "1.prems" by (subst (asm) read_loop.simps) (auto split: if_splits)
  next
    case False
    then obtain line left where f: "fgets len content = Some (line, left)" by auto
    obtain n m1 where g: "loc_fill_conf_item (c_string line) table len m = (n, m1)" by fastforce
    have "read_loop table len (num - of_nat n) left m1 = Some (rest, m')"
      using "1.prems" False f g by (subst (asm) read_loop.simps) simp
    then have "length rest \<le> length left" using "1.IH" False f g by auto
    then show ?thesis using fgets_shrinks[OF _ f] False by auto
  qed
qed

lemma clear_sets_none: "\<forall>e\<in>set table. param_set e = None \<Longrightarrow> clear_sets table m = m"
  by (induction table arbitrary: m) (auto simp: put_set_def)

definition clear_proc_name :: "memory \<Rightarrow> memory" where
  "clear_proc_name m = m\<lparr>strs := (strs m)(''conf.proc_name'' := [])\<rparr>"

lemma count_shrinks:
  assumes "loc_read_conf_r fp (take 1 loc_process_conf_parameter_table) (clear_proc_name m) = Some (r, fp', m')" "r = 0"
    "strs m' ''conf.proc_name'' \<noteq> []"
  shows "\<exists>c c'. fp = Some c \<and> fp' = Some c' \<and> length c' < length c"
proof -
  let ?t = "take 1 loc_process_conf_parameter_table"
  have none: "\<forall>e\<in>set ?t. param_set e = None"
    by (simp add: loc_process_conf_parameter_table_def str_param_def)
  from assms(1,2) obtain c c' where c: "fp = Some c" "fp' = Some c'"
    "read_loop ?t LOC_MAX_PARAM_STRING (of_nat (length ?t)) c (clear_sets ?t (clear_proc_name m)) = Some (c', m')"
    by (auto simp: loc_read_conf_r_def loc_read_conf_r_long_def split: option.splits bind_splits)
  then have "length c' \<le> length c \<and> (length c' = length c \<longrightarrow> m' = clear_proc_name m)"
    using read_loop_shrinks clear_sets_none[OF none] by metis
  then show ?thesis using c assms(3) by (auto simp: clear_proc_name_def)
qed

function count_loop :: "string option \<Rightarrow> u8 \<Rightarrow> memory \<Rightarrow> (u8 option \<times> memory) option" where
  "count_loop conf_fp proc_list_length m =
     (case loc_read_conf_r conf_fp (take 1 loc_process_conf_parameter_table) (clear_proc_name m) of
        None \<Rightarrow> None
      | Some (r, conf_fp, m) \<Rightarrow>
          if r \<noteq> 0 then Some (None, m)
          else if strs m ''conf.proc_name'' = [] then Some (Some proc_list_length, m)
          else count_loop conf_fp (proc_list_length + 1) m)"
  by pat_completeness auto
termination
  by (relation "measure (\<lambda>(fp, n, m). case fp of None \<Rightarrow> 0 | Some c \<Rightarrow> length c)")
    (auto dest!: count_shrinks[OF _ refl, unfolded One_nat_def])

declare count_loop.simps [simp del]

fun proc_loop :: "device \<Rightarrow> u32 \<Rightarrow> nat \<Rightarrow> string option \<Rightarrow> memory \<Rightarrow> (loc_process_info_s_type list option \<times> memory) option" where
  "proc_loop d service 0 conf_fp m = Some (Some [], m)"
| "proc_loop d service (Suc n) conf_fp m = do {
     let p = zeroed_process\<lparr>proc_status := DISABLED, group_list := replicate LOC_PROCESS_MAX_NUM_GROUPS 0\<rparr>;
     (r, conf_fp, m) \<leftarrow> loc_read_conf_r conf_fp loc_process_conf_parameter_table m;
     if r \<noteq> 0 then Some (None, m)
     else do {
       (p, m) \<leftarrow> set_process d service m p;
       (ps, m) \<leftarrow> proc_loop d service n conf_fp m;
       Some (map_option (\<lambda>ps. p # ps) ps, m)
     }
   }"

text \<open>
  The arguments: the device, whether both result pointers are given, the text of \<open>gps.conf\<close> and of the
  file (\<open>None\<close> when it cannot be opened), and whether the memory for the table can be had. The result is
  the value returned, what was stored through the two result pointers (\<open>None\<close>: nothing; otherwise the number
  of processes and the table), and the memory.
\<close>

definition loc_read_process_conf :: "device \<Rightarrow> bool \<Rightarrow> string option \<Rightarrow> string option \<Rightarrow> bool \<Rightarrow> memory
    \<Rightarrow> (int \<times> (u32 \<times> loc_process_info_s_type list option) option \<times> memory) option" where
  "loc_read_process_conf d ptrs_ok gps_conf conf_file calloc_ok m = (if \<not> ptrs_ok then Some (- 1, None, m) else do {
     m \<leftarrow> loc_read_conf gps_conf gps_conf_parameter_table m;
     m \<leftarrow> loc_read_conf conf_file loc_feature_conf_table m;
     let service = loc_service_mask d m;
     (case conf_file of None \<Rightarrow> Some (- 1, Some (0, None), m)
      | Some content \<Rightarrow> do {
          (proc_list_length, m) \<leftarrow> count_loop (Some content) 0 m;
          (case proc_list_length of None \<Rightarrow> Some (- 1, Some (0, None), m)
           | Some n \<Rightarrow>
               if \<not> calloc_ok then Some (- 1, Some (0, None), m)
               else do {
                 (ps, m) \<leftarrow> proc_loop d service (unat n) (Some content) m;
                 (case ps of None \<Rightarrow> Some (- 1, Some (0, None), m) | Some ps \<Rightarrow> Some (0, Some (ucast n, Some ps), m))
               })
        })
   })"

end
