(* ===== verification/CfgLaunch.thy ===== *)
theory CfgLaunch
  imports CfgProc
begin

text \<open>
  What \<open>loc_read_process_conf\<close> does: it returns for every file and never writes past an array, it
  counts the \<open>PROCESS_NAME\<close> lines, and a block's process is enabled exactly when its lists select the
  device.
\<close>

section \<open>It returns\<close>

lemma read_loop_total: "2 \<le> len \<Longrightarrow> \<exists>rest m'. read_loop table len num content m = Some (rest, m')"
proof (induction table len num content m rule: read_loop.induct)
  case (1 table len num content m)
  then show ?case
    by (subst read_loop.simps) (auto split: option.splits prod.splits)
qed

lemma read_conf_r_total:
  "\<exists>rest m'. loc_read_conf_r (Some content) table m = Some (0, Some rest, m')"
  using read_loop_total[of LOC_MAX_PARAM_STRING table "of_nat (length table)" content "clear_sets table m"]
  by (auto simp: loc_read_conf_r_def loc_read_conf_r_long_def LOC_MAX_PARAM_STRING_def)

lemma read_conf_total: "\<exists>m'. loc_read_conf conf_file table m = Some m'"
proof (cases conf_file)
  case (Some content)
  have "\<exists>rest m'. loc_read_conf_r_long (Some content) t LOC_MAX_PARAM_STRING m = Some (0, Some rest, m')" for t m
    using read_conf_r_total[of content t m] by (simp add: loc_read_conf_r_def)
  note t = this
  obtain rest m1 where 1: "loc_read_conf_r_long (Some content) table LOC_MAX_PARAM_STRING m = Some (0, Some rest, m1)"
    using t by blast
  obtain r2 m2 where 2: "loc_read_conf_r_long (Some content) loc_param_table LOC_MAX_PARAM_STRING m1 = Some (0, Some r2, m2)"
    using t by blast
  obtain r3 m3 where 3: "loc_read_conf_r_long (Some content) loc_param_table LOC_MAX_PARAM_STRING m = Some (0, Some r3, m3)"
    using t by blast
  show ?thesis using Some 1 2 3 by (auto simp: loc_read_conf_def loc_read_conf_long_def)
qed (simp add: loc_read_conf_def loc_read_conf_long_def)

lemma count_loop_total: "\<exists>n m'. count_loop (Some content) k m = Some (Some n, m')"
proof (induction "Some content" k m arbitrary: content rule: count_loop.induct)
  case (1 k m)
  obtain rest m1 where r: "loc_read_conf_r (Some content) (take 1 loc_process_conf_parameter_table) (clear_proc_name m) =
      Some (0, Some rest, m1)" using read_conf_r_total by blast
  show ?case using 1[OF r] r by (subst count_loop.simps) auto
qed

section \<open>Array bounds\<close>

text \<open>What fits: every string member of \<open>conf\<close> is an array of \<open>LOC_MAX_PARAM_STRING\<close> bytes.\<close>

definition conf_fits :: "memory \<Rightarrow> bool" where
  "conf_fits m \<longleftrightarrow> (\<forall>a. length (strs m a) < LOC_MAX_PARAM_STRING)"

lemma put_set_fits [simp]: "conf_fits (put_set a x m) = conf_fits m"
  by (simp add: put_set_def conf_fits_def split: option.splits)

lemma clear_sets_fits [simp]: "conf_fits (clear_sets table m) = conf_fits m"
  by (induction table arbitrary: m) auto

lemma set_entry_fits: "conf_fits m \<Longrightarrow> loc_set_config_entry e v LOC_MAX_PARAM_STRING m = (r, m') \<Longrightarrow> conf_fits m'"
proof -
  have "length (strlcpy x LOC_MAX_PARAM_STRING) < LOC_MAX_PARAM_STRING" for x by (simp add: strlcpy_def LOC_MAX_PARAM_STRING_def)
  then show "conf_fits m \<Longrightarrow> loc_set_config_entry e v LOC_MAX_PARAM_STRING m = (r, m') \<Longrightarrow> conf_fits m'"
    by (auto simp: loc_set_config_entry_def split: option.splits if_splits)
       (auto simp: conf_fits_def LOC_MAX_PARAM_STRING_def)
qed

lemma fill_table_fits: "conf_fits m \<Longrightarrow> fill_table es v LOC_MAX_PARAM_STRING m = (n, m') \<Longrightarrow> conf_fits m'"
  by (induction es arbitrary: m n m') (auto simp: Let_def split: prod.splits if_splits dest: set_entry_fits)

lemma read_loop_fits:
  "read_loop table len num content m = Some (rest, m') \<Longrightarrow> len = LOC_MAX_PARAM_STRING \<Longrightarrow> conf_fits m \<Longrightarrow> conf_fits m'"
proof (induction table len num content m rule: read_loop.induct)
  case (1 table len num content m)
  have f: "conf_fits m1" if "loc_fill_conf_item x table len m = (n, m1)" for x n m1
    using that 1(3,4) by (auto simp: loc_fill_conf_item_def split: option.splits prod.splits dest: fill_table_fits)
  show ?case using 1(2)
    by (subst (asm) read_loop.simps) (use 1 f in \<open>auto split: if_splits option.splits prod.splits\<close>)
qed

lemma read_conf_r_fits: "loc_read_conf_r fp table m = Some (r, fp', m') \<Longrightarrow> conf_fits m \<Longrightarrow> conf_fits m'"
  by (auto simp: loc_read_conf_r_def loc_read_conf_r_long_def Option.bind_eq_Some_conv split: option.splits dest: read_loop_fits)

lemma read_conf_fits: "loc_read_conf conf_file table m = Some m' \<Longrightarrow> conf_fits m \<Longrightarrow> conf_fits m'"
  by (auto simp: loc_read_conf_def loc_read_conf_long_def Option.bind_eq_Some_conv loc_read_conf_r_def [symmetric]
      split: option.splits if_splits dest!: read_conf_r_fits)

lemma clear_name_fits: "conf_fits m \<Longrightarrow> conf_fits (clear_proc_name m)"
  by (simp add: conf_fits_def clear_proc_name_def LOC_MAX_PARAM_STRING_def)

lemma count_loop_fits: "count_loop fp k m = Some (r, m') \<Longrightarrow> conf_fits m \<Longrightarrow> conf_fits m'"
proof (induction fp k m rule: count_loop.induct)
  case (1 fp k m)
  show ?case using 1(2)
    by (subst (asm) count_loop.simps)
       (use 1(1,3) clear_name_fits in \<open>auto split: option.splits prod.splits if_splits dest: read_conf_r_fits\<close>)
qed

lemma split_loop_bound:
  "num < k \<Longrightarrow> length ptrs \<le> num + 1 \<Longrightarrow> split_loop d k i cs num ptrs buf = (n, ptrs', buf') \<Longrightarrow> length ptrs' \<le> k"
  by (induction d k i cs num ptrs buf rule: split_loop.induct) (auto simp: Let_def split: if_splits)

lemma split_string_bound: "0 < k \<Longrightarrow> loc_util_split_string s k d = (n, ps, left) \<Longrightarrow> length ps \<le> k"
  using split_loop_bound[of 0 k "[0]" d 0 "s @ [NUL]" "s @ [NUL]"]
  by (auto simp: loc_util_split_string_def split: prod.splits)

text \<open>Splitting a string keeps its terminator in place, so that it never grows.\<close>

lemma nul_update: "buf ! e = NUL \<Longrightarrow> e < length buf \<Longrightarrow> buf[i := NUL] ! e = NUL"
  by (cases "i = e") auto

lemma split_loop_ends:
  "split_loop d k i cs num ptrs buf = (n, ptrs', buf') \<Longrightarrow> buf ! e = NUL \<Longrightarrow> e < length buf \<Longrightarrow>
   buf' ! e = NUL \<and> length buf' = length buf"
  by (induction d k i cs num ptrs buf rule: split_loop.induct)
    (auto simp: Let_def nul_update split: if_splits)

lemma c_string_le:
  assumes "e < length xs" "xs ! e = NUL"
  shows "length (c_string xs) \<le> e"
proof (rule ccontr)
  assume "\<not> length (c_string xs) \<le> e"
  then have l: "e < length (takeWhile (\<lambda>c. c \<noteq> NUL) xs)" by (simp add: c_string_def)
  then have "takeWhile (\<lambda>c. c \<noteq> NUL) xs ! e \<noteq> NUL" using nth_mem set_takeWhileD by fast
  then show False using takeWhile_nth[OF l] assms(2) by simp
qed

lemma split_string_left: "loc_util_split_string s k d = (n, ps, left) \<Longrightarrow> length left \<le> length s"
  using split_loop_ends[of d k 0 "s @ [NUL]" 0 "[0]" "s @ [NUL]" _ _ _ "length s"] c_string_le[of "length s"]
  by (auto simp: loc_util_split_string_def nth_append split: prod.splits)

lemma split_member_total:
  "\<exists>n ps m'. split_member a m = Some (n, ps, m') \<and> length ps \<le> MAX_NUM_STRINGS \<and> (conf_fits m \<longrightarrow> conf_fits m')"
proof -
  obtain n ps left where s: "loc_util_split_string (strs m a) MAX_NUM_STRINGS (CHR '' '') = (n, ps, left)"
    by (cases "loc_util_split_string (strs m a) MAX_NUM_STRINGS (CHR '' '')") auto
  then have "length ps \<le> MAX_NUM_STRINGS" using split_string_bound[OF _ s] by (simp add: MAX_NUM_STRINGS_def)
  then show ?thesis using s split_string_left[OF s] by (auto simp: split_member_def conf_fits_def intro: le_less_trans)
qed

text \<open>The arrays and strings of an element of the table hold what they have room for.\<close>

definition process_ok :: "loc_process_info_s_type \<Rightarrow> bool" where
  "process_ok p \<longleftrightarrow> length (group_list p) = LOC_PROCESS_MAX_NUM_GROUPS \<and> unat (num_groups p) \<le> LOC_PROCESS_MAX_NUM_GROUPS
     \<and> length (args p) = LOC_PROCESS_MAX_NUM_ARGS \<and> (\<forall>s\<in>set (args p). length s < LOC_PROCESS_MAX_ARG_STR_LENGTH)
     \<and> length (name p) = 2 \<and> (\<forall>s\<in>set (name p). length s < LOC_MAX_PARAM_STRING)
     \<and> length (argumentString p) < LOC_MAX_PARAM_STRING"

lemma set_groups_ok:
  "process_ok p \<Longrightarrow> unat (num_groups p) + length ss \<le> LOC_PROCESS_MAX_NUM_GROUPS \<Longrightarrow>
   \<exists>p'. set_groups grp ss p = Some p' \<and> process_ok p' \<and> proc_status p' = proc_status p \<and> name p' = name p"
proof (induction ss arbitrary: p)
  case (Cons s ss)
  show ?case
  proof (cases "grp s")
    case None
    then show ?thesis using Cons by simp
  next
    case (Some gid)
    let ?p = "p\<lparr>group_list := (group_list p)[unat (num_groups p) := gid], num_groups := num_groups p + 1\<rparr>"
    have n: "unat (num_groups p + 1) = unat (num_groups p) + 1"
      using Cons.prems(2) by (simp add: LOC_PROCESS_MAX_NUM_GROUPS_def unat_word_ariths)
    then have "process_ok ?p" using Cons.prems by (simp add: process_ok_def)
    then show ?thesis using Cons.IH[of ?p] Cons.prems Some n by (simp add: process_ok_def)
  qed
qed simp

lemma put_arg_ok:
  assumes "process_ok p" "i < LOC_PROCESS_MAX_NUM_ARGS"
  shows "\<exists>p'. put_arg s (i, p) = Some (i + 1, p') \<and> process_ok p' \<and> proc_status p' = proc_status p"
proof -
  have "length (strlcpy s LOC_PROCESS_MAX_ARG_STR_LENGTH) < LOC_PROCESS_MAX_ARG_STR_LENGTH"
    by (simp add: strlcpy_def LOC_PROCESS_MAX_ARG_STR_LENGTH_def)
  then show ?thesis using assms set_update_subset_insert[of "args p" i]
    by (auto simp: put_arg_def process_ok_def)
qed

lemma put_option_ok:
  assumes "process_ok p" "i + 1 < LOC_PROCESS_MAX_NUM_ARGS"
  shows "\<exists>p'. put_option s mode (i, p) = Some (i + 2, p') \<and> process_ok p' \<and> proc_status p' = proc_status p"
proof -
  obtain p1 where 1: "put_arg s (i, p) = Some (i + 1, p1)" "process_ok p1" "proc_status p1 = proc_status p"
    using put_arg_ok[OF assms(1), of i s] assms(2) by auto
  then show ?thesis using put_arg_ok[OF 1(2), of "i + 1" mode] assms(2) by (auto simp: put_option_def)
qed

lemma copy_args_ok: "process_ok p \<Longrightarrow> \<exists>p'. copy_args i ss p = Some p' \<and> process_ok p' \<and> proc_status p' = proc_status p"
proof (induction ss arbitrary: i p)
  case (Cons s ss)
  let ?p = "p\<lparr>args := (args p)[i := strlcpy s LOC_PROCESS_MAX_ARG_STR_LENGTH]\<rparr>"
  have len: "length (args p) = LOC_PROCESS_MAX_NUM_ARGS" using Cons.prems by (simp add: process_ok_def)
  then have "process_ok ?p" if "i < LOC_PROCESS_MAX_NUM_ARGS"
    using put_arg_ok[OF Cons.prems that, of s] that by (simp add: put_arg_def)
  then show ?case using Cons.IH[of ?p "i + 1"] Cons.prems len by simp
qed simp

text \<open>A step that leaves at most \<open>n\<close> arguments and keeps the status.\<close>

definition stage :: "nat \<Rightarrow> loc_process_e_status \<Rightarrow> (nat \<times> loc_process_info_s_type) option \<Rightarrow> bool" where
  "stage n st r \<longleftrightarrow> (\<exists>i p. r = Some (i, p) \<and> i \<le> n \<and> process_ok p \<and> proc_status p = st)"

lemma stage_bind:
  assumes "stage n st r" "\<And>i p. i \<le> n \<Longrightarrow> process_ok p \<Longrightarrow> proc_status p = st \<Longrightarrow> stage k st (f (i, p))"
  shows "stage k st (Option.bind r f)"
  using assms by (auto simp: stage_def)

lemma stage_option:
  assumes "process_ok p" "proc_status p = st" "i \<le> n" "n + 2 \<le> LOC_PROCESS_MAX_NUM_ARGS"
  shows "stage (n + 2) st (if c then put_option s mode (i, p) else Some (i, p))"
  using put_option_ok[OF assms(1), of i s mode] assms by (auto simp: stage_def)

lemma premium_args_ok:
  assumes "process_ok p" "proc_status p = st" "i \<le> n" "n + 8 \<le> LOC_PROCESS_MAX_NUM_ARGS"
  shows "stage (n + 8) st (premium_args feature service (i, p))"
proof -
  have "n + 8 = n + 2 + 2 + 2 + 2" by simp
  then show ?thesis unfolding premium_args_def
    by (simp only:, intro stage_bind[OF stage_option] stage_option) (use assms in auto)
qed

lemma set_args_ok:
  assumes "process_ok p" "proc_status p = DISABLED"
  shows "\<exists>p'. set_args service m p = Some p' \<and> process_ok p' \<and>
    (proc_status p' = ENABLED \<longleftrightarrow> nums m ''conf.premium_feature'' = 0 \<or> nums m ''conf.loc_feature_mask'' AND service \<noteq> 0)"
proof -
  let ?on = "nums m ''conf.premium_feature'' = 0 \<or> nums m ''conf.loc_feature_mask'' AND service \<noteq> 0"
  obtain p1 where 1: "put_arg (base_name (name p ! 0)) (0, p) = Some (1, p1)" "process_ok p1" "proc_status p1 = DISABLED"
    using put_arg_ok[OF assms(1), of 0 "base_name (name p ! 0)"] assms(2) by (auto simp: LOC_PROCESS_MAX_NUM_ARGS_def)
  have on: "process_ok (p1\<lparr>proc_status := ENABLED\<rparr>)" using 1(2) by (simp add: process_ok_def)
  have "stage 9 (if ?on then ENABLED else DISABLED) (if nums m ''conf.premium_feature'' \<noteq> 0
       then (if nums m ''conf.loc_feature_mask'' AND service \<noteq> 0
             then premium_args (nums m ''conf.loc_feature_mask'') service (1, p1\<lparr>proc_status := ENABLED\<rparr>)
             else Some (1, p1))
       else Some (1, p1\<lparr>proc_status := ENABLED\<rparr>))"
    using premium_args_ok[OF on refl, of 1 1] 1 on by (auto simp: stage_def LOC_PROCESS_MAX_NUM_ARGS_def)
  then obtain i p2 where 2: "(if nums m ''conf.premium_feature'' \<noteq> 0
       then (if nums m ''conf.loc_feature_mask'' AND service \<noteq> 0
             then premium_args (nums m ''conf.loc_feature_mask'') service (1, p1\<lparr>proc_status := ENABLED\<rparr>)
             else Some (1, p1))
       else Some (1, p1\<lparr>proc_status := ENABLED\<rparr>)) = Some (i, p2)" "process_ok p2" "i \<le> 9"
    "proc_status p2 = (if ?on then ENABLED else DISABLED)" unfolding stage_def by blast
  let ?s = "strlcpy (strs m ''conf.proc_argument'') LOC_MAX_PARAM_STRING"
  obtain n temp_args left where sp: "loc_util_split_string ?s (LOC_PROCESS_MAX_NUM_ARGS - i) (CHR '' '') = (n, temp_args, left)"
    by (cases "loc_util_split_string ?s (LOC_PROCESS_MAX_NUM_ARGS - i) (CHR '' '')") auto
  have room: "i + length temp_args \<le> LOC_PROCESS_MAX_NUM_ARGS"
    using split_string_bound[OF _ sp] 2(3) by (simp add: LOC_PROCESS_MAX_NUM_ARGS_def)
  have "length left < LOC_MAX_PARAM_STRING"
    using split_string_left[OF sp] by (simp add: strlcpy_def LOC_MAX_PARAM_STRING_def)
  then have "process_ok (p2\<lparr>argumentString := left\<rparr>)" using 2(2) by (simp add: process_ok_def)
  from copy_args_ok[OF this, of i temp_args] obtain p3 where
    "copy_args i temp_args (p2\<lparr>argumentString := left\<rparr>) = Some p3" "process_ok p3" "proc_status p3 = proc_status p2" by auto
  then show ?thesis using 1(1) 2 sp room unfolding set_args_def
    by (simp only: bind.simps prod.case) auto
qed

section \<open>Which processes are launched\<close>

text \<open>
  A list of words selects a device when one of its words is the device's, or when it is \<open>all\<close>, alone
  or followed by \<open>exclude\<close> and words none of which is the device's. Only the first twenty words count.
\<close>

definition list_words :: "string \<Rightarrow> string list" where
  "list_words s = take MAX_NUM_STRINGS (split_on (CHR '' '') s)"

definition selects :: "(string \<Rightarrow> bool) \<Rightarrow> (string \<Rightarrow> bool) \<Rightarrow> string list \<Rightarrow> bool" where
  "selects ex inc ws \<longleftrightarrow>
     (if hd ws = ''all'' then length ws = 1 \<or> (length ws \<ge> 2 \<and> ws ! 1 = ''exclude'' \<and> \<not> list_ex ex (drop 2 ws))
      else list_ex inc ws)"

definition launchable :: "device \<Rightarrow> u32 \<Rightarrow> memory \<Rightarrow> bool" where
  "launchable d service m \<longleftrightarrow>
     strs m ''conf.proc_name'' \<noteq> [] \<and> strs m ''conf.group_list'' \<noteq> [] \<and> strs m ''conf.platform_list'' \<noteq> []
     \<and> strs m ''conf.baseband'' \<noteq> [] \<and> strs m ''conf.proc_status'' \<noteq> [] \<and> strs m ''conf.auto_platform'' \<noteq> []
     \<and> strs m ''conf.soc_id_list'' \<noteq> []
     \<and> (vendor_enhanced d \<or> nums m ''conf.vendor_enhanced_process'' = 0)
     \<and> strs m ''conf.proc_status'' \<noteq> ''DISABLED''
     \<and> length (strs m ''conf.proc_name'') < LOC_MAX_PARAM_STRING
     \<and> selects (\<lambda>s. platform_name d = s) (\<lambda>s. platform_name d = s) (list_words (strs m ''conf.platform_list''))
     \<and> selects (\<lambda>s. socid_value d = s) (\<lambda>s. socid_value d = s) (list_words (strs m ''conf.soc_id_list''))
     \<and> selects (\<lambda>s. baseband_name d = s) (\<lambda>s. baseband_name d = s \<or> s = ''sglte'' \<and> nums m ''conf.sglte_target'' \<noteq> 0)
         (list_words (strs m ''conf.baseband''))
     \<and> (hd (list_words (strs m ''conf.auto_platform'')) = ''all''
         \<or> autoplatform_name d \<in> set (list_words (strs m ''conf.auto_platform'')))
     \<and> \<not> (hd (list_words (strs m ''conf.low_ram_targets'')) = ''DISABLED'' \<and> low_ram_target d)
     \<and> (nums m ''conf.premium_feature'' = 0 \<or> nums m ''conf.loc_feature_mask'' AND service \<noteq> 0)"

text \<open>The three checks of lists with exclusions are one function of the bits they use.\<close>

definition list_bits :: "u8 \<Rightarrow> u8 \<Rightarrow> (string \<Rightarrow> bool) \<Rightarrow> (string \<Rightarrow> bool) \<Rightarrow> u8 \<Rightarrow> string list \<Rightarrow> u8" where
  "list_bits A F ex inc c ws =
     (if ws ! 0 = ''all''
      then (if length ws = 1 \<or> (length ws = 2 \<and> ws ! 1 = ''exclude'') then c OR A
            else if length ws > 2 \<and> ws ! 1 = ''exclude''
            then (let c = c OR F in if list_ex ex (drop 2 ws) then c AND NOT F else c)
            else c)
      else if list_ex inc ws then c OR F else c)"

lemma list_words_nonempty [simp]: "list_words s \<noteq> []"
  by (simp add: list_words_def MAX_NUM_STRINGS_def)

lemma list_words_chars: "NUL \<notin> set s \<Longrightarrow> NUL \<notin> set (hd (list_words s))"
  using split_on_chars[of "hd (split_on (CHR '' '') s)" "CHR '' ''" s]
  by (auto simp: list_words_def MAX_NUM_STRINGS_def hd_take)

lemma split_member_words:
  assumes "NUL \<notin> set (strs m a)"
  shows "split_member a m = Some (length (list_words (strs m a)), list_words (strs m a),
    m\<lparr>strs := (strs m)(a := hd (list_words (strs m a)))\<rparr>)"
proof -
  have "hd (list_words (strs m a)) = hd (split_on (CHR '' '') (strs m a))"
    by (simp add: list_words_def MAX_NUM_STRINGS_def hd_take)
  then show ?thesis using split_string_pieces[OF assms, of "CHR '' ''" MAX_NUM_STRINGS]
    by (simp add: split_member_def list_words_def NUL_def MAX_NUM_STRINGS_def min.commute)
qed

lemma or_and_other: "F AND K = (0 :: 'a :: len word) \<Longrightarrow> (c OR F) AND K = c AND K"
  by (simp add: bit.conj_disj_distrib2)

lemma clear_and_other: "F AND K = (0 :: 'a :: len word) \<Longrightarrow> ((c OR F) AND NOT F) AND K = c AND K"
  by (auto simp: bit_eq_iff bit_simps)

lemma or_and_own: "F AND K \<noteq> (0 :: 'a :: len word) \<Longrightarrow> (c OR F) AND K \<noteq> 0"
  by (auto simp: bit_eq_iff bit_simps)

lemma clear_and_own: "c AND K = (0 :: 'a :: len word) \<Longrightarrow> ((c OR F) AND NOT F) AND K = 0"
  by (auto simp: bit_eq_iff bit_simps)

lemma list_bits_own:
  assumes "A AND K \<noteq> 0" "F AND K \<noteq> 0" "c AND K = 0" "ws \<noteq> []"
  shows "list_bits A F ex inc c ws AND K \<noteq> 0 \<longleftrightarrow> selects ex inc ws"
  using assms or_and_own[of A K c] or_and_own[of F K c] clear_and_own[of c K F]
  by (auto simp: list_bits_def selects_def Let_def hd_conv_nth)

lemma list_bits_other:
  assumes "A AND J = 0" "F AND J = 0"
  shows "list_bits A F ex inc c ws AND J = c AND J"
  using or_and_other[OF assms(1), of c] or_and_other[OF assms(2), of c] clear_and_other[OF assms(2), of c]
  by (simp add: list_bits_def Let_def)

text \<open>A member that was split is cut off behind its first word.\<close>

definition cut_member :: "address \<Rightarrow> memory \<Rightarrow> memory" where
  "cut_member a m = m\<lparr>strs := (strs m)(a := hd (list_words (strs m a)))\<rparr>"

lemma cut_member_simps [simp]:
  "strs (cut_member a m) b = (if b = a then hd (list_words (strs m a)) else strs m b)" "nums (cut_member a m) = nums m"
  by (simp_all add: cut_member_def)

definition auto_bits :: "device \<Rightarrow> u8 \<Rightarrow> string list \<Rightarrow> u8" where
  "auto_bits d c ws =
     (if ws ! 0 = ''all'' then c OR CONFIG_MASK_AUTOPLATFORM_ALL
      else if list_ex (\<lambda>s. autoplatform_name d = s) ws then c OR CONFIG_MASK_AUTOPLATFORM_FOUND else c)"

lemma check_bits:
  "NUL \<notin> set (strs m ''conf.platform_list'') \<Longrightarrow> platform_check d c m = Some
     (list_bits CONFIG_MASK_TARGET_ALL CONFIG_MASK_TARGET_FOUND (\<lambda>s. platform_name d = s) (\<lambda>s. platform_name d = s) c
       (list_words (strs m ''conf.platform_list'')), cut_member ''conf.platform_list'' m)"
  "NUL \<notin> set (strs m ''conf.soc_id_list'') \<Longrightarrow> soc_check d c m = Some
     (list_bits CONFIG_MASK_SOCID_ALL CONFIG_MASK_SOCID_FOUND (\<lambda>s. socid_value d = s) (\<lambda>s. socid_value d = s) c
       (list_words (strs m ''conf.soc_id_list'')), cut_member ''conf.soc_id_list'' m)"
  "NUL \<notin> set (strs m ''conf.baseband'') \<Longrightarrow> baseband_check d c m = Some
     (list_bits CONFIG_MASK_BASEBAND_ALL CONFIG_MASK_BASEBAND_FOUND (\<lambda>s. baseband_name d = s)
       (\<lambda>s. baseband_name d = s \<or> s = ''sglte'' \<and> nums m ''conf.sglte_target'' \<noteq> 0) c
       (list_words (strs m ''conf.baseband'')), cut_member ''conf.baseband'' m)"
  "NUL \<notin> set (strs m ''conf.auto_platform'') \<Longrightarrow> autoplatform_check d c m = Some
     (auto_bits d c (list_words (strs m ''conf.auto_platform'')), cut_member ''conf.auto_platform'' m)"
  "NUL \<notin> set (strs m a) \<Longrightarrow> split_member a m = Some (length (list_words (strs m a)), list_words (strs m a), cut_member a m)"
  by (simp_all add: platform_check_def soc_check_def baseband_check_def autoplatform_check_def split_member_words
      list_bits_def auto_bits_def cut_member_def Let_def)

text \<open>The four fields of the bits are independent.\<close>

lemma config_bits:
  assumes "w1 \<noteq> []" "w2 \<noteq> []" "w3 \<noteq> []" "w4 \<noteq> []"
  assumes c1: "c1 = list_bits CONFIG_MASK_TARGET_ALL CONFIG_MASK_TARGET_FOUND e1 i1 0 w1"
  assumes c2: "c2 = list_bits CONFIG_MASK_SOCID_ALL CONFIG_MASK_SOCID_FOUND e2 i2 c1 w2"
  assumes c3: "c3 = list_bits CONFIG_MASK_BASEBAND_ALL CONFIG_MASK_BASEBAND_FOUND e3 i3 c2 w3"
  assumes c4: "c4 = auto_bits d c3 w4"
  shows "c4 AND CONFIG_MASK_TARGET_CHECK \<noteq> 0 \<longleftrightarrow> selects e1 i1 w1"
    and "c4 AND CONFIG_MASK_SOCID_CHECK \<noteq> 0 \<longleftrightarrow> selects e2 i2 w2"
    and "c4 AND CONFIG_MASK_BASEBAND_CHECK \<noteq> 0 \<longleftrightarrow> selects e3 i3 w3"
    and "c4 AND CONFIG_MASK_AUTOPLATFORM_CHECK \<noteq> 0 \<longleftrightarrow> hd w4 = ''all'' \<or> autoplatform_name d \<in> set w4"
proof -
  have auto_other: "auto_bits d c w4 AND J = c AND J"
    if "CONFIG_MASK_AUTOPLATFORM_ALL AND J = 0" "CONFIG_MASK_AUTOPLATFORM_FOUND AND J = 0" for c J
    using or_and_other[OF that(1), of c] or_and_other[OF that(2), of c] by (simp add: auto_bits_def)
  show "c4 AND CONFIG_MASK_TARGET_CHECK \<noteq> 0 \<longleftrightarrow> selects e1 i1 w1"
    using list_bits_own[OF _ _ _ assms(1), of CONFIG_MASK_TARGET_ALL CONFIG_MASK_TARGET_CHECK CONFIG_MASK_TARGET_FOUND 0 e1 i1]
    by (simp add: c4 c3 c2 c1 auto_other list_bits_other config_mask_defs)
  show "c4 AND CONFIG_MASK_SOCID_CHECK \<noteq> 0 \<longleftrightarrow> selects e2 i2 w2"
    using list_bits_own[OF _ _ _ assms(2), of CONFIG_MASK_SOCID_ALL CONFIG_MASK_SOCID_CHECK CONFIG_MASK_SOCID_FOUND c1 e2 i2]
    by (simp add: c4 c3 c2 c1 auto_other list_bits_other config_mask_defs)
  show "c4 AND CONFIG_MASK_BASEBAND_CHECK \<noteq> 0 \<longleftrightarrow> selects e3 i3 w3"
    using list_bits_own[OF _ _ _ assms(3), of CONFIG_MASK_BASEBAND_ALL CONFIG_MASK_BASEBAND_CHECK CONFIG_MASK_BASEBAND_FOUND c2 e3 i3]
    by (simp add: c4 c3 c2 c1 auto_other list_bits_other config_mask_defs)
  have "c3 AND CONFIG_MASK_AUTOPLATFORM_CHECK = 0"
    by (simp add: c3 c2 c1 list_bits_other config_mask_defs)
  then show "c4 AND CONFIG_MASK_AUTOPLATFORM_CHECK \<noteq> 0 \<longleftrightarrow> hd w4 = ''all'' \<or> autoplatform_name d \<in> set w4"
    using or_and_own[of CONFIG_MASK_AUTOPLATFORM_ALL CONFIG_MASK_AUTOPLATFORM_CHECK c3]
      or_and_own[of CONFIG_MASK_AUTOPLATFORM_FOUND CONFIG_MASK_AUTOPLATFORM_CHECK c3] assms(4)
    by (auto simp: c4 auto_bits_def config_mask_defs list_ex_iff hd_conv_nth)
qed

text \<open>
  The processes of a block behind its early exits: the groups, the bits of the checks, and the first
  word of \<open>LOW_RAM_TARGETS\<close> decide.
\<close>

definition named :: "memory \<Rightarrow> loc_process_info_s_type \<Rightarrow> loc_process_info_s_type" where
  "named m p = p\<lparr>name := (name p)[0 := strlcpy (strs m ''conf.proc_name'') LOC_MAX_PARAM_STRING], num_groups := 0\<rparr>"

lemma named_groups:
  assumes "process_ok p" "proc_status p = DISABLED" "split_member a m = Some (n, ps, m1)"
  shows "\<exists>p'. set_groups grp ps (named m p) = Some p' \<and> process_ok p' \<and> proc_status p' = DISABLED"
proof -
  have "length ps \<le> MAX_NUM_STRINGS"
    using assms(3) split_member_total[of a m] by auto
  then have "unat (num_groups (named m p)) + length ps \<le> LOC_PROCESS_MAX_NUM_GROUPS"
    by (simp add: named_def MAX_NUM_STRINGS_def LOC_PROCESS_MAX_NUM_GROUPS_def)
  moreover have "process_ok (named m p)" "proc_status (named m p) = DISABLED"
    using assms set_update_subset_insert[of "name p" 0 "strlcpy (strs m ''conf.proc_name'') LOC_MAX_PARAM_STRING"]
    by (auto simp: named_def process_ok_def strlcpy_def LOC_MAX_PARAM_STRING_def)
  ultimately show ?thesis using set_groups_ok by metis
qed

lemma check_total:
  "\<exists>c' m'. platform_check d c m = Some (c', m') \<and> (conf_fits m \<longrightarrow> conf_fits m')"
  "\<exists>c' m'. soc_check d c m = Some (c', m') \<and> (conf_fits m \<longrightarrow> conf_fits m')"
  "\<exists>c' m'. baseband_check d c m = Some (c', m') \<and> (conf_fits m \<longrightarrow> conf_fits m')"
  "\<exists>c' m'. autoplatform_check d c m = Some (c', m') \<and> (conf_fits m \<longrightarrow> conf_fits m')"
  using split_member_total[of "''conf.platform_list''" m] split_member_total[of "''conf.soc_id_list''" m]
    split_member_total[of "''conf.baseband''" m] split_member_total[of "''conf.auto_platform''" m]
  by (auto simp: platform_check_def soc_check_def baseband_check_def autoplatform_check_def)

lemma set_process_total:
  assumes "process_ok p" "proc_status p = DISABLED"
  shows "\<exists>p' m'. set_process d service m p = Some (p', m') \<and> process_ok p' \<and> (conf_fits m \<longrightarrow> conf_fits m')"
proof -
  obtain n ps m1 where g: "split_member ''conf.group_list'' m = Some (n, ps, m1)" "conf_fits m \<longrightarrow> conf_fits m1"
    using split_member_total by blast
  from named_groups[OF assms g(1), of "getgrnam d"] obtain p1 where
    p1: "set_groups (getgrnam d) ps (named m p) = Some p1" "process_ok p1" "proc_status p1 = DISABLED" by blast
  obtain c1 m2 where 1: "platform_check d 0 m1 = Some (c1, m2)" "conf_fits m1 \<longrightarrow> conf_fits m2" using check_total(1) by blast
  obtain c2 m3 where 2: "soc_check d c1 m2 = Some (c2, m3)" "conf_fits m2 \<longrightarrow> conf_fits m3" using check_total(2) by blast
  obtain c3 m4 where 3: "baseband_check d c2 m3 = Some (c3, m4)" "conf_fits m3 \<longrightarrow> conf_fits m4" using check_total(3) by blast
  obtain c4 m5 where 4: "autoplatform_check d c3 m4 = Some (c4, m5)" "conf_fits m4 \<longrightarrow> conf_fits m5" using check_total(4) by blast
  obtain k qs m6 where 5: "split_member ''conf.low_ram_targets'' m5 = Some (k, qs, m6)" "conf_fits m5 \<longrightarrow> conf_fits m6"
    using split_member_total by blast
  obtain p2 where p2: "set_args service m6 p1 = Some p2" "process_ok p2" using set_args_ok[OF p1(2,3)] by blast
  have st: "process_ok (q\<lparr>proc_status := x\<rparr>)" if "process_ok q" for q x using that by (simp add: process_ok_def)
  show ?thesis using g p1 1 2 3 4 5 p2 st assms by (simp add: set_process_def named_def[symmetric] Let_def)
qed

definition early_exit :: "device \<Rightarrow> memory \<Rightarrow> bool" where
  "early_exit d m \<longleftrightarrow>
     (strs m ''conf.proc_name'' = [] \<or> strs m ''conf.group_list'' = [] \<or> strs m ''conf.platform_list'' = []
         \<or> strs m ''conf.baseband'' = [] \<or> strs m ''conf.proc_status'' = [] \<or> strs m ''conf.auto_platform'' = []
         \<or> strs m ''conf.soc_id_list'' = [])
     \<or> (\<not> vendor_enhanced d \<and> nums m ''conf.vendor_enhanced_process'' \<noteq> 0)
     \<or> strs m ''conf.proc_status'' = ''DISABLED'' \<or> length (strs m ''conf.proc_name'') + 1 > LOC_MAX_PARAM_STRING"

text \<open>The checks of a block in the order of the code, without its groups and arguments.\<close>

definition check_all :: "device \<Rightarrow> memory \<Rightarrow> (u8 \<times> string list \<times> memory) option" where
  "check_all d m = do {
     (c, m) \<leftarrow> platform_check d 0 m;
     (c, m) \<leftarrow> soc_check d c m;
     (c, m) \<leftarrow> baseband_check d c m;
     (c, m) \<leftarrow> autoplatform_check d c m;
     (n, ws, m) \<leftarrow> split_member ''conf.low_ram_targets'' m;
     Some (c, ws, m)
   }"

definition checks_pass :: "device \<Rightarrow> memory \<Rightarrow> bool" where
  "checks_pass d m \<longleftrightarrow>
     selects (\<lambda>s. platform_name d = s) (\<lambda>s. platform_name d = s) (list_words (strs m ''conf.platform_list''))
     \<and> selects (\<lambda>s. socid_value d = s) (\<lambda>s. socid_value d = s) (list_words (strs m ''conf.soc_id_list''))
     \<and> selects (\<lambda>s. baseband_name d = s) (\<lambda>s. baseband_name d = s \<or> s = ''sglte'' \<and> nums m ''conf.sglte_target'' \<noteq> 0)
         (list_words (strs m ''conf.baseband''))
     \<and> (hd (list_words (strs m ''conf.auto_platform'')) = ''all''
         \<or> autoplatform_name d \<in> set (list_words (strs m ''conf.auto_platform'')))"

lemma check_all_correct:
  assumes "\<forall>a. NUL \<notin> set (strs m a)"
  shows "\<exists>c m'. check_all d m = Some (c, list_words (strs m ''conf.low_ram_targets''), m') \<and> nums m' = nums m \<and>
    (c AND CONFIG_MASK_TARGET_CHECK \<noteq> 0 \<and> c AND CONFIG_MASK_BASEBAND_CHECK \<noteq> 0 \<and>
     c AND CONFIG_MASK_AUTOPLATFORM_CHECK \<noteq> 0 \<and> c AND CONFIG_MASK_SOCID_CHECK \<noteq> 0 \<longleftrightarrow> checks_pass d m)"
proof -
  let ?w = "\<lambda>a. list_words (strs m a)"
  let ?m2 = "cut_member ''conf.platform_list'' m"
  let ?m3 = "cut_member ''conf.soc_id_list'' ?m2"
  let ?m4 = "cut_member ''conf.baseband'' ?m3"
  let ?m5 = "cut_member ''conf.auto_platform'' ?m4"
  let ?m6 = "cut_member ''conf.low_ram_targets'' ?m5"
  obtain c1 where 1: "platform_check d 0 m = Some (c1, ?m2)" "c1 = list_bits CONFIG_MASK_TARGET_ALL CONFIG_MASK_TARGET_FOUND
      (\<lambda>s. platform_name d = s) (\<lambda>s. platform_name d = s) 0 (?w ''conf.platform_list'')"
    using check_bits(1)[of m d 0] assms by simp
  obtain c2 where 2: "soc_check d c1 ?m2 = Some (c2, ?m3)" "c2 = list_bits CONFIG_MASK_SOCID_ALL CONFIG_MASK_SOCID_FOUND
      (\<lambda>s. socid_value d = s) (\<lambda>s. socid_value d = s) c1 (?w ''conf.soc_id_list'')"
    using check_bits(2)[of ?m2 d c1] assms by simp
  obtain c3 where 3: "baseband_check d c2 ?m3 = Some (c3, ?m4)" "c3 = list_bits CONFIG_MASK_BASEBAND_ALL CONFIG_MASK_BASEBAND_FOUND
      (\<lambda>s. baseband_name d = s) (\<lambda>s. baseband_name d = s \<or> s = ''sglte'' \<and> nums m ''conf.sglte_target'' \<noteq> 0) c2 (?w ''conf.baseband'')"
    using check_bits(3)[of ?m3 d c2] assms by simp
  obtain c4 where 4: "autoplatform_check d c3 ?m4 = Some (c4, ?m5)" "c4 = auto_bits d c3 (?w ''conf.auto_platform'')"
    using check_bits(4)[of ?m4 d c3] assms by simp
  have 5: "split_member ''conf.low_ram_targets'' ?m5 = Some (length (?w ''conf.low_ram_targets''), ?w ''conf.low_ram_targets'', ?m6)"
    using check_bits(5)[of ?m5 "''conf.low_ram_targets''"] assms by simp
  note bits = config_bits[OF _ _ _ _ 1(2) 2(2) 3(2) 4(2), OF list_words_nonempty list_words_nonempty list_words_nonempty list_words_nonempty]
  have "check_all d m = Some (c4, ?w ''conf.low_ram_targets'', ?m6)"
    by (simp only: check_all_def bind.simps prod.case 1(1) 2(1) 3(1) 4(1) 5)
  then show ?thesis using bits by (auto simp: checks_pass_def)
qed

lemma set_process_run:
  assumes "\<not> early_exit d m" "split_member ''conf.group_list'' m = Some (n, ps, m1)"
    "set_groups (getgrnam d) ps (named m p) = Some p1" "proc_status p1 = DISABLED" "check_all d m1 = Some (c, ws, m6)"
    "set_args service m6 p1 = Some p2"
  shows "set_process d service m p = (if ws ! 0 = ''DISABLED'' \<and> low_ram_target d then Some (p1\<lparr>proc_status := DISABLED\<rparr>, m6)
      else if c AND CONFIG_MASK_TARGET_CHECK \<noteq> 0 \<and> c AND CONFIG_MASK_BASEBAND_CHECK \<noteq> 0
            \<and> c AND CONFIG_MASK_AUTOPLATFORM_CHECK \<noteq> 0 \<and> c AND CONFIG_MASK_SOCID_CHECK \<noteq> 0
      then Some (p2, m6) else Some (p1, m6))"
proof -
  from assms(5) obtain c1 m2 c2 m3 c3 m4 m5 k where checks: "platform_check d 0 m1 = Some (c1, m2)" "soc_check d c1 m2 = Some (c2, m3)"
    "baseband_check d c2 m3 = Some (c3, m4)" "autoplatform_check d c3 m4 = Some (c, m5)" "split_member ''conf.low_ram_targets'' m5 = Some (k, ws, m6)"
    unfolding check_all_def by (auto simp: Option.bind_eq_Some_conv)
  have exits: "(strs m ''conf.proc_name'' = [] \<or> strs m ''conf.group_list'' = [] \<or> strs m ''conf.platform_list'' = []
         \<or> strs m ''conf.baseband'' = [] \<or> strs m ''conf.proc_status'' = [] \<or> strs m ''conf.auto_platform'' = []
         \<or> strs m ''conf.soc_id_list'' = []) = False"
      "(\<not> vendor_enhanced d \<and> nums m ''conf.vendor_enhanced_process'' \<noteq> 0) = False"
      "(strs m ''conf.proc_status'' = ''DISABLED'') = False"
      "(length (strs m ''conf.proc_name'') + 1 > LOC_MAX_PARAM_STRING) = False"
    using assms(1) unfolding early_exit_def by blast+
  show ?thesis unfolding set_process_def using assms(4)
    by (simp only: exits if_False named_def[symmetric] Let_def assms(2,3,6) prod.case bind.simps checks
        loc_process_e_status.simps not_False_eq_True simp_thms)
qed

text \<open>A new element of the table before its block is read into it.\<close>

definition new_process :: loc_process_info_s_type where
  "new_process = zeroed_process\<lparr>proc_status := DISABLED, group_list := replicate LOC_PROCESS_MAX_NUM_GROUPS 0\<rparr>"

lemma new_process_ok: "process_ok new_process" "proc_status new_process = DISABLED"
  by (auto simp: new_process_def zeroed_process_def process_ok_def LOC_PROCESS_MAX_ARG_STR_LENGTH_def LOC_MAX_PARAM_STRING_def)

text \<open>
  C11. The process of a block is enabled exactly when \<open>launchable\<close> holds of the block: every mandatory
  parameter has a value, the process is not disabled in the file or by the vendor check, its lists
  select the platform, the SoC, the baseband and the hardware type of the device, it is not kept off
  devices with little memory, and a premium process has a feature that is in service.
\<close>

theorem launch_decision:
  assumes "\<forall>a. NUL \<notin> set (strs m a)"
  shows "\<exists>p' m'. set_process d service m new_process = Some (p', m') \<and> (proc_status p' = ENABLED \<longleftrightarrow> launchable d service m)"
proof (cases "early_exit d m")
  case True
  then show ?thesis using set_process_total[OF new_process_ok, of d service m] new_process_ok(2)
    by (auto simp: set_process_def launchable_def early_exit_def split: if_splits)
next
  case False
  let ?m1 = "cut_member ''conf.group_list'' m"
  have g: "split_member ''conf.group_list'' m = Some (length (list_words (strs m ''conf.group_list'')),
      list_words (strs m ''conf.group_list''), ?m1)" using assms by (simp add: check_bits)
  from named_groups[OF new_process_ok g, of "getgrnam d"] obtain p1 where
    p1: "set_groups (getgrnam d) (list_words (strs m ''conf.group_list'')) (named m new_process) = Some p1"
      "process_ok p1" "proc_status p1 = DISABLED" by blast
  have "\<forall>a. NUL \<notin> set (strs ?m1 a)" using assms list_words_chars by auto
  from check_all_correct[OF this, of d] obtain c m6 where
    c: "check_all d ?m1 = Some (c, list_words (strs m ''conf.low_ram_targets''), m6)" "nums m6 = nums m"
      "c AND CONFIG_MASK_TARGET_CHECK \<noteq> 0 \<and> c AND CONFIG_MASK_BASEBAND_CHECK \<noteq> 0 \<and>
       c AND CONFIG_MASK_AUTOPLATFORM_CHECK \<noteq> 0 \<and> c AND CONFIG_MASK_SOCID_CHECK \<noteq> 0 \<longleftrightarrow> checks_pass d m"
    by (auto simp: checks_pass_def)
  obtain p2 where p2: "set_args service m6 p1 = Some p2" "proc_status p2 = ENABLED \<longleftrightarrow>
      nums m ''conf.premium_feature'' = 0 \<or> nums m ''conf.loc_feature_mask'' AND service \<noteq> 0"
    using set_args_ok[OF p1(2,3), of service m6] c(2) by auto
  show ?thesis using set_process_run[OF False g p1(1,3) c(1) p2(1)] False p1(3) p2(2) unfolding c(3)
    by (auto simp: launchable_def checks_pass_def early_exit_def hd_conv_nth)
qed

section \<open>The whole file\<close>

lemma proc_loop_total:
  "\<exists>ps m'. proc_loop d service n (Some content) m = Some (Some ps, m') \<and> length ps = n \<and> (\<forall>p\<in>set ps. process_ok p) \<and>
     (conf_fits m \<longrightarrow> conf_fits m')"
proof (induction n arbitrary: content m)
  case (Suc n)
  obtain rest m1 where r: "loc_read_conf_r (Some content) loc_process_conf_parameter_table m = Some (0, Some rest, m1)"
    using read_conf_r_total by blast
  obtain p m2 where p: "set_process d service m1 new_process = Some (p, m2)" "process_ok p" "conf_fits m1 \<longrightarrow> conf_fits m2"
    using set_process_total[OF new_process_ok] by blast
  obtain ps m3 where ps: "proc_loop d service n (Some rest) m2 = Some (Some ps, m3)" "length ps = n" "\<forall>p\<in>set ps. process_ok p"
    "conf_fits m2 \<longrightarrow> conf_fits m3"
    using Suc.IH by blast
  show ?case using r p ps read_conf_r_fits[OF r] by (simp add: new_process_def[symmetric])
qed simp

text \<open>
  C21. Reading the processes of a file always returns and never writes past the end of an array, whatever
  the files hold: neither the array of groups and the array of arguments of a process, nor the arrays of
  pointers the lists and the arguments are split into, nor the 172 bytes of a member of \<open>conf\<close>, of a name or
  of an argument string. Without both result pointers -1 is returned and nothing is written. Otherwise, on
  success there are as many processes as the number says, each with at most twenty groups and with arguments
  and names that fit, and every failure returns -1 and gives no process and no table.
\<close>

theorem read_process_conf_safe:
  assumes "conf_fits m"
  shows "\<exists>ret out m'. loc_read_process_conf d ptrs_ok gps_conf conf_file calloc_ok m = Some (ret, out, m') \<and> conf_fits m' \<and>
    (case out of None \<Rightarrow> \<not> ptrs_ok \<and> ret = - 1 \<and> m' = m
     | Some (n, None) \<Rightarrow> ptrs_ok \<and> ret = - 1 \<and> n = 0
     | Some (n, Some ps) \<Rightarrow> ptrs_ok \<and> ret = 0 \<and> unat n = length ps \<and> list_all process_ok ps)"
proof (cases ptrs_ok)
  case True
  obtain m1 where 1: "loc_read_conf gps_conf gps_conf_parameter_table m = Some m1" using read_conf_total by blast
  obtain m2 where 2: "loc_read_conf conf_file loc_feature_conf_table m1 = Some m2" using read_conf_total by blast
  have f: "conf_fits m2" using read_conf_fits[OF 2] read_conf_fits[OF 1 assms] by blast
  show ?thesis
  proof (cases conf_file)
    case None
    then show ?thesis using 1 2 f True by (simp add: loc_read_process_conf_def)
  next
    case (Some content)
    obtain n m3 where 3: "count_loop (Some content) 0 m2 = Some (Some n, m3)" using count_loop_total by blast
    note f3 = count_loop_fits[OF 3 f]
    obtain ps m4 where 4: "proc_loop d (loc_service_mask d m2) (unat n) (Some content) m3 = Some (Some ps, m4)"
      "length ps = unat n" "\<forall>p\<in>set ps. process_ok p" "conf_fits m4" using proc_loop_total f3 by blast
    have "unat n < 2 ^ 32" using unsigned_less[of n, where ?'a = nat] by simp
    then have "unat (ucast n :: u32) = unat n" by (simp add: unsigned_ucast_eq take_bit_nat_eq_self)
    then show ?thesis using Some 1 2 3 4 f3 True by (simp add: loc_read_process_conf_def list_all_iff)
  qed
qed (use assms in \<open>simp add: loc_read_process_conf_def\<close>)

section \<open>The number of processes\<close>

definition names_process :: "text_line \<Rightarrow> bool" where
  "names_process l \<longleftrightarrow> (case snd l of None \<Rightarrow> False | Some (n, v) \<Rightarrow> n = ''PROCESS_NAME'')"

definition store_name :: "text_line \<Rightarrow> memory \<Rightarrow> memory" where
  "store_name l m = m\<lparr>strs := (strs m)(''conf.proc_name'' :=
     (if snd (the (snd l)) = ''NULL'' then [] else strlcpy (snd (the (snd l))) LOC_MAX_PARAM_STRING))\<rparr>"

abbreviation name_table :: "loc_param_s_type list" where
  "name_table \<equiv> take 1 loc_process_conf_parameter_table"

lemma fill_name:
  "fill_setting name_table LOC_MAX_PARAM_STRING s m =
     (if names_process (tx, s) then (1, store_name (tx, s) m) else (0, m))"
proof (cases s)
  case (Some nv)
  then show ?thesis
    by (cases nv) (simp add: names_process_def store_name_def loc_process_conf_parameter_table_def str_param_def
        loc_set_config_entry_def config_value_def put_set_def)
qed (simp add: names_process_def)

lemma read_name:
  "\<forall>l\<in>set ls. line_ok LOC_MAX_PARAM_STRING l \<Longrightarrow>
   read_loop name_table LOC_MAX_PARAM_STRING 1 (concat (map fst ls)) m =
     (case dropWhile (\<lambda>l. \<not> names_process l) ls of
        [] \<Rightarrow> Some ([], m)
      | l # rest \<Rightarrow> Some (concat (map fst rest), store_name l m))"
proof (induction ls)
  case Nil
  show ?case by (subst read_loop.simps) (simp add: fgets_def LOC_MAX_PARAM_STRING_def)
next
  case (Cons l ls)
  obtain tx s where l: "l = (tx, s)" by (cases l)
  have line: "line_ok LOC_MAX_PARAM_STRING (tx, s)" using Cons.prems by (simp add: l)
  note step = read_loop_line[OF line, of 1 name_table m _ _ "concat (map fst ls)"]
  show ?case
  proof (cases "names_process l")
    case True
    then have "fill_setting name_table LOC_MAX_PARAM_STRING s m = (1, store_name l m)" using fill_name[of s m tx] by (simp add: l)
    from step[OF _ this] show ?thesis using True by (simp add: l) (subst read_loop.simps, simp)
  next
    case False
    then have "fill_setting name_table LOC_MAX_PARAM_STRING s m = (0, m)" using fill_name[of s m tx] by (simp add: l)
    from step[OF _ this] show ?thesis using False Cons by (simp add: l)
  qed
qed

lemma store_name_nonempty:
  assumes "line_ok len l" "names_process l" "snd (the (snd l)) \<noteq> ''NULL''"
  shows "strs (store_name l m) ''conf.proc_name'' \<noteq> []"
proof -
  obtain tx n v where l: "l = (tx, Some (n, v))" using assms(2) by (cases l) (auto simp: names_process_def split: option.splits)
  then show ?thesis using assms(1,3)
    by (auto simp: store_name_def is_line_def word_ok_def strlcpy_def LOC_MAX_PARAM_STRING_def)
qed

text \<open>
  The processes of a file are counted by their \<open>PROCESS_NAME\<close> lines, in a byte: with 256 of them the
  number is zero.
\<close>

theorem process_count:
  assumes "\<forall>l\<in>set ls. line_ok LOC_MAX_PARAM_STRING l"
    "\<forall>l\<in>set ls. names_process l \<longrightarrow> snd (the (snd l)) \<noteq> ''NULL''"
  shows "\<exists>m'. count_loop (Some (concat (map fst ls))) k m = Some (Some (k + of_nat (length (filter names_process ls))), m')"
  using assms
proof (induction "length ls" arbitrary: ls k m rule: less_induct)
  case less
  have none: "clear_sets name_table (clear_proc_name m) = clear_proc_name m"
    by (rule clear_sets_none) (simp add: loc_process_conf_parameter_table_def str_param_def)
  have len: "of_nat (length name_table) = (1 :: u32)" by (simp add: loc_process_conf_parameter_table_def)
  note read = read_name[OF less.prems(1), of "clear_proc_name m"]
  show ?case
  proof (cases "dropWhile (\<lambda>l. \<not> names_process l) ls")
    case Nil
    then have "filter names_process ls = []" by (auto simp: dropWhile_eq_Nil_conv filter_empty_conv)
    moreover have "loc_read_conf_r (Some (concat (map fst ls))) name_table (clear_proc_name m) = Some (0, Some [], clear_proc_name m)"
      using read Nil by (simp only: loc_read_conf_r_def loc_read_conf_r_long_def none len option.case list.case) simp
    ultimately show ?thesis by (subst count_loop.simps) (simp add: clear_proc_name_def)
  next
    case (Cons l rest)
    then have ls: "ls = takeWhile (\<lambda>l. \<not> names_process l) ls @ l # rest" by (metis takeWhile_dropWhile_id)
    have l: "names_process l" using Cons by (metis hd_dropWhile list.distinct(1) list.sel(1))
    have "filter names_process (takeWhile (\<lambda>l. \<not> names_process l) ls) = []" by (auto simp: filter_empty_conv dest: set_takeWhileD)
    then have cnt: "length (filter names_process ls) = Suc (length (filter names_process rest))"
      using l by (subst ls) simp
    have sub: "set (l # rest) \<subseteq> set ls" by (subst ls) auto
    let ?m = "store_name l (clear_proc_name m)"
    have r: "loc_read_conf_r (Some (concat (map fst ls))) name_table (clear_proc_name m) = Some (0, Some (concat (map fst rest)), ?m)"
      using read Cons by (simp only: loc_read_conf_r_def loc_read_conf_r_long_def none len option.case list.case) simp
    have "strs ?m ''conf.proc_name'' \<noteq> []" using store_name_nonempty[OF _ l] less.prems sub l by auto
    moreover have "length rest < length ls" by (subst ls) simp
    then have "\<exists>m'. count_loop (Some (concat (map fst rest))) (k + 1) ?m =
        Some (Some (k + 1 + of_nat (length (filter names_process rest))), m')"
      using less.hyps[of rest "k + 1" ?m] less.prems sub by auto
    ultimately show ?thesis using r cnt by (subst count_loop.simps) (simp add: add.assoc)
  qed
qed

section \<open>Witnesses\<close>

text \<open>A device and a block that is for it.\<close>

definition sample_device :: device where
  "sample_device = \<lparr>platform_name = ''holi'', baseband_name = ''msm'', autoplatform_name = [], socid_value = ''454'',
     low_ram_target = False, vendor_enhanced = True, getgrnam = (\<lambda>s. if s = ''gps'' then Some 1021 else None), use_glib = False\<rparr>"

definition sample_block :: memory where
  "sample_block = \<lparr>strs = (\<lambda>_. [])(''conf.proc_name'' := ''lowi'', ''conf.proc_status'' := ''ENABLED'', ''conf.group_list'' := ''gps net'',
      ''conf.platform_list'' := ''all exclude msm8937'', ''conf.soc_id_list'' := ''all'', ''conf.baseband'' := ''all'',
      ''conf.auto_platform'' := ''all''),
    nums = (\<lambda>_. 0), dbls = (\<lambda>_. Zero), sets = (\<lambda>_. 0)\<rparr>"

lemma sample_launchable: "launchable sample_device 0 sample_block"
  by code_simp

theorem launch_decision_witness:
  "(\<forall>a. NUL \<notin> set (strs sample_block a)) \<and>
   (\<exists>p' m'. set_process sample_device 0 sample_block new_process = Some (p', m') \<and> proc_status p' = ENABLED)"
proof -
  have "\<forall>a. NUL \<notin> set (strs sample_block a)" by (simp add: sample_block_def NUL_def)
  then show ?thesis using launch_decision[of sample_block sample_device 0] sample_launchable by simp
qed

text \<open>One process, whose argument has more words than there is room for.\<close>

theorem read_process_conf_safe_witness:
  "\<exists>out m'. loc_read_process_conf sample_device True None
       (Some (concat (map (\<lambda>l. l @ [newline]) [''PROCESS_NAME=x'', ''PROCESS_ARGUMENT=1 2 3 4 5 6 7 8 9 10 11 12 13 14 15 16 17 18 19 20 21 22 23 24 25 26 27''])))
       True sample_block = Some (0, Some (1, Some out), m') \<and> list_all process_ok out \<and> conf_fits m'"
proof -
  let ?file = "Some (concat (map (\<lambda>l. l @ [newline]) [''PROCESS_NAME=x'', ''PROCESS_ARGUMENT=1 2 3 4 5 6 7 8 9 10 11 12 13 14 15 16 17 18 19 20 21 22 23 24 25 26 27'']))"
  have f: "conf_fits sample_block" by (simp add: conf_fits_def sample_block_def LOC_MAX_PARAM_STRING_def)
  have "map_option (\<lambda>(r, out, m). (r, map_option fst out)) (loc_read_process_conf sample_device True None ?file True sample_block) = Some (0, Some 1)"
    by code_simp
  moreover obtain ret out m' where "loc_read_process_conf sample_device True None ?file True sample_block = Some (ret, out, m')"
    "conf_fits m'" "case out of None \<Rightarrow> \<not> True \<and> ret = - 1 \<and> m' = sample_block
     | Some (n, None) \<Rightarrow> True \<and> ret = - 1 \<and> n = 0
     | Some (n, Some ps) \<Rightarrow> True \<and> ret = 0 \<and> unat n = length ps \<and> list_all process_ok ps"
    using read_process_conf_safe[OF f, of sample_device True None ?file True] by blast
  ultimately show ?thesis by (cases out) (simp_all split: prod.splits option.splits)
qed

theorem process_count_witness:
  "\<exists>m'. count_loop (Some (''PROCESS_NAME=x'' @ [newline])) 0 sample_block = Some (Some 1, m')"
proof -
  have "word_ok ''PROCESS_NAME''" "word_ok ''x''" "padding []"
    by (simp_all add: word_ok_def padding_def isspace_def NUL_def newline_def)
  then have "is_line (''PROCESS_NAME=x'' @ [newline]) ''PROCESS_NAME'' ''x''"
    unfolding is_line_def by (intro conjI exI[of _ "[]"]) auto
  then show ?thesis
    using process_count[of "[(''PROCESS_NAME=x'' @ [newline], Some (''PROCESS_NAME'', ''x''))]" 0 sample_block]
    by (simp add: names_process_def LOC_MAX_PARAM_STRING_def)
qed

end
