(* ===== verification/Batching.thy ===== *)
theory Batching
  imports AdapterBase CfgTable
begin

unbundle bit_operations_syntax

text \<open>
  The batching adapter (\<open>gps/batching/BatchingAdapter.cpp\<close>, \<open>BatchingAdapter.h\<close>). Batching sessions are
  passed to the modem one by one; trip sessions share one outdoor trip batch of the modem, which is
  restarted with the smallest remaining distance and the smallest interval of all of them.

  The adapter's thread runs the messages in \<open>adapter_queue\<close>, the thread of the modem interface the calls in
  \<open>api_queue\<close>; the answer to a call comes back as a message with the closure that waits for it, a
  constructor of \<open>bt_reply\<close> with what it captures. The modem's answers are arguments. Dereferencing the
  end of a map gives \<open>None\<close>. When trips are completed the code reads a map node after erasing it, which
  the language leaves undefined; \<open>erased_trip\<close> says what the memory of an erased trip gives, any values at all or,
  with \<open>None\<close>, nothing defined.
\<close>

section \<open>Data\<close>

type_synonym BatchingMode = u32

definition BATCHING_MODE_ROUTINE :: BatchingMode where "BATCHING_MODE_ROUTINE = 0"
definition BATCHING_MODE_TRIP :: BatchingMode where "BATCHING_MODE_TRIP = 1"
definition BATCHING_MODE_NO_AUTO_REPORT :: BatchingMode where "BATCHING_MODE_NO_AUTO_REPORT = 2"

lemmas mode_defs = BATCHING_MODE_ROUTINE_def BATCHING_MODE_TRIP_def BATCHING_MODE_NO_AUTO_REPORT_def

datatype BatchingStatus =
  BATCHING_STATUS_TRIP_COMPLETED | BATCHING_STATUS_POSITION_AVAILABE | BATCHING_STATUS_POSITION_UNAVAILABLE

record BatchingOptions = LocationOptions +
  batchingMode :: BatchingMode

definition default_options :: BatchingOptions where
  "default_options = \<lparr>opt_size = 0, minInterval = 0, minDistance = 0, opt_mode = 0, locReqEngTypeMask = 0,
     batchingMode = BATCHING_MODE_ROUTINE\<rparr>"

record TripSessionStatus =
  accumulatedDistanceOngoingBatch :: u32
  accumulatedDistanceThisTrip :: u32
  accumulatedDistanceOnTripRestart :: u32
  tripDistance :: u32
  tripTBFInterval :: u32

record LocApiBatchData =
  accumulatedDistance :: u32
  numOfBatchedPositions :: u32

definition LOC_API_ADAPTER_BIT_BATCH_FULL :: u64 where
  "LOC_API_ADAPTER_BIT_BATCH_FULL = push_bit 19 1"

definition LOC_API_ADAPTER_BIT_BATCH_STATUS :: u64 where
  "LOC_API_ADAPTER_BIT_BATCH_STATUS = push_bit 31 1"

text \<open>Calls to the modem interface, and the closures that wait for their answers.\<close>

datatype bt_call =
    startBatchingCall u32 BatchingOptions u32 u32
  | stopBatchingCall u32
  | startOutdoorTripBatching u32 u32 u32
  | reStartOutdoorTripBatching u32 u32 u32
  | stopOutdoorTripBatching bool
  | queryAccumulatedTripDistance
  | getBatchedLocations u64
  | getBatchedTripLocations u64 u32

datatype bt_reply =
    StartReply client u32 BatchingOptions
  | StopReply client u32 BatchingOptions bool BatchingOptions
  | TripStartReply client u32 BatchingOptions
  | TripQueryReply client u32 BatchingOptions
  | TripRestartReply client u32
  | TripStopReply client u32 bool BatchingOptions
  | RestartQueryReply bool u32 u32 u32
  | RestartReply u32 u32 u32
  | EngineUpReply
  | LocationsReply client u32
  | NoReply

datatype bt_msg =
    MsgAddClient client LocationCallbacks
  | MsgRemoveClient client bool
  | MsgRequestCapabilities client
  | MsgSSREvent
  | MsgReadConfig
  | MsgSetConfig
  | MsgStartBatching client u32 BatchingOptions
  | MsgUpdateBatching client u32 BatchingOptions
  | MsgStopBatching client u32
  | MsgGetBatchedLocations client u32 u64
  | MsgReportLocations "Location list" BatchingMode
  | MsgReportCompletedTrips u32
  | MsgReportBatchStatus BatchingStatus
  | Answered bt_reply LocationError LocApiBatchData

datatype bt_out =
    CapabilitiesCb client u64
  | ResponseCb client LocationError u32
  | BatchingCb client "Location list" BatchingMode
  | BatchingStatusCb client BatchingStatus "u32 list"
  | RemoveClientCb client

record bt_state = "bt_msg adapter_base" +
  mBatchingSessions :: "(LocationSessionKey \<times> BatchingOptions) list"
  mTripSessions :: "(u32 \<times> TripSessionStatus) list"
  mOngoingTripDistance :: u32
  mOngoingTripTBFInterval :: u32
  mTripWithOngoingTBFDropped :: bool
  mTripWithOngoingTripDistanceDropped :: bool
  mBatchingTimeout :: u32
  mBatchingAccuracy :: u32
  mBatchSize :: u64
  mTripBatchSize :: u64
  api_batch_sizes :: "u64 \<times> u64"
  adapter_queue :: "bt_msg list"
  api_queue :: "(bt_call \<times> bt_reply) list"
  callbacks_made :: "bt_out list"

text \<open>The effects: a message to the own queue, a call to the modem interface, a callback of a client.\<close>

definition bt_send :: "bt_msg \<Rightarrow> bt_state \<Rightarrow> bt_state" where
  "bt_send msg s = s\<lparr>adapter_queue := adapter_queue s @ [msg]\<rparr>"

definition call_api :: "bt_call \<Rightarrow> bt_reply \<Rightarrow> bt_state \<Rightarrow> bt_state" where
  "call_api c k s = s\<lparr>api_queue := api_queue s @ [(c, k)]\<rparr>"

definition call_back :: "bt_out list \<Rightarrow> bt_state \<Rightarrow> bt_state" where
  "call_back out s = s\<lparr>callbacks_made := callbacks_made s @ out\<rparr>"

section \<open>Sessions\<close>

definition hasBatchingCallback :: "client \<Rightarrow> bt_state \<Rightarrow> bool" where
  "hasBatchingCallback client s = (case map_of (mClientData s) client of None \<Rightarrow> False | Some c \<Rightarrow> batchingCb c)"

definition isBatchingSession :: "client \<Rightarrow> u32 \<Rightarrow> bt_state \<Rightarrow> bool" where
  "isBatchingSession client sessionId s \<longleftrightarrow> map_of (mBatchingSessions s) (LocationSessionKey client sessionId) \<noteq> None"

definition isTripSession :: "u32 \<Rightarrow> bt_state \<Rightarrow> bool" where
  "isTripSession sessionId s \<longleftrightarrow> map_of (mTripSessions s) sessionId \<noteq> None"

definition saveBatchingSession :: "client \<Rightarrow> u32 \<Rightarrow> BatchingOptions \<Rightarrow> bt_state \<Rightarrow> bt_state" where
  "saveBatchingSession client sessionId options s =
     s\<lparr>mBatchingSessions := sm_put (LocationSessionKey client sessionId) options (mBatchingSessions s)\<rparr>"

definition eraseBatchingSession :: "client \<Rightarrow> u32 \<Rightarrow> bt_state \<Rightarrow> bt_state" where
  "eraseBatchingSession client sessionId s =
     s\<lparr>mBatchingSessions := sm_erase (LocationSessionKey client sessionId) (mBatchingSessions s)\<rparr>"

definition bt_reportResponse :: "client \<Rightarrow> LocationError \<Rightarrow> u32 \<Rightarrow> bt_state \<Rightarrow> bt_state" where
  "bt_reportResponse client err sessionId s = (case map_of (mClientData s) client of
     Some c \<Rightarrow> if responseCb c then call_back [ResponseCb client err sessionId] s else s
   | None \<Rightarrow> s)"

definition autoReportBatchingSessionsCount :: "bt_state \<Rightarrow> u32" where
  "autoReportBatchingSessionsCount s =
     of_nat (length (filter (\<lambda>p. batchingMode (snd p) \<noteq> BATCHING_MODE_NO_AUTO_REPORT) (mBatchingSessions s)))
     + of_nat (length (mTripSessions s))"

section \<open>Sessions of the modem\<close>

definition startBatching :: "client \<Rightarrow> u32 \<Rightarrow> BatchingOptions \<Rightarrow> bt_state \<Rightarrow> bt_state" where
  "startBatching client sessionId options s =
     (let s = (if batchingMode options \<noteq> BATCHING_MODE_NO_AUTO_REPORT \<and> autoReportBatchingSessionsCount s = 0
               then updateEvtMask LOC_API_ADAPTER_BIT_BATCH_FULL LOC_REGISTRATION_MASK_ENABLED s else s);
          s = saveBatchingSession client sessionId options s
      in call_api (startBatchingCall sessionId options (mBatchingAccuracy s) (mBatchingTimeout s))
           (StartReply client sessionId options) s)"

definition start_reply :: "client \<Rightarrow> u32 \<Rightarrow> BatchingOptions \<Rightarrow> LocationError \<Rightarrow> bt_state \<Rightarrow> bt_state" where
  "start_reply client sessionId options err s =
     (let s = (if err \<noteq> LOCATION_ERROR_SUCCESS then eraseBatchingSession client sessionId s else s);
          s = (if err \<noteq> LOCATION_ERROR_SUCCESS \<and> batchingMode options \<noteq> BATCHING_MODE_NO_AUTO_REPORT
                  \<and> autoReportBatchingSessionsCount s = 0
               then updateEvtMask LOC_API_ADAPTER_BIT_BATCH_FULL LOC_REGISTRATION_MASK_DISABLED s else s)
      in bt_reportResponse client err sessionId s)"

definition new_trip :: "u32 \<Rightarrow> BatchingOptions \<Rightarrow> TripSessionStatus" where
  "new_trip ongoing options =
     \<lparr>accumulatedDistanceOngoingBatch = ongoing, accumulatedDistanceThisTrip = 0, accumulatedDistanceOnTripRestart = 0,
      tripDistance = minDistance options, tripTBFInterval = minInterval options\<rparr>"

definition startTripBatchingMultiplex :: "client \<Rightarrow> u32 \<Rightarrow> BatchingOptions \<Rightarrow> bt_state \<Rightarrow> bt_state" where
  "startTripBatchingMultiplex client sessionId options s =
     (if length (mTripSessions s) = 0
      then (let s = (if autoReportBatchingSessionsCount s = 0
                     then updateEvtMask LOC_API_ADAPTER_BIT_BATCH_FULL LOC_REGISTRATION_MASK_ENABLED s else s);
                s = saveBatchingSession client sessionId options s;
                s = s\<lparr>mTripSessions := sm_put sessionId (new_trip 0 options) (mTripSessions s)\<rparr>
            in call_api (startOutdoorTripBatching (minDistance options) (minInterval options) (mBatchingTimeout s))
                 (TripStartReply client sessionId options) s)
      else call_api queryAccumulatedTripDistance (TripQueryReply client sessionId options) s)"

definition trip_start_reply :: "client \<Rightarrow> u32 \<Rightarrow> BatchingOptions \<Rightarrow> LocationError \<Rightarrow> bt_state \<Rightarrow> bt_state" where
  "trip_start_reply client sessionId options err s =
     (let s = (if err = LOCATION_ERROR_SUCCESS
               then s\<lparr>mOngoingTripDistance := minDistance options, mOngoingTripTBFInterval := minInterval options\<rparr>
               else (let s = eraseBatchingSession client sessionId s;
                         s = s\<lparr>mTripSessions := sm_erase sessionId (mTripSessions s)\<rparr>
                     in if autoReportBatchingSessionsCount s = 0
                        then updateEvtMask LOC_API_ADAPTER_BIT_BATCH_FULL LOC_REGISTRATION_MASK_DISABLED s else s))
      in bt_reportResponse client err sessionId s)"

text \<open>Every trip starts to count anew; what it had is remembered.\<close>

definition restart_trip :: "TripSessionStatus \<Rightarrow> TripSessionStatus" where
  "restart_trip t = t\<lparr>accumulatedDistanceOngoingBatch := 0, accumulatedDistanceOnTripRestart := accumulatedDistanceThisTrip t\<rparr>"

definition trip_query_reply :: "client \<Rightarrow> u32 \<Rightarrow> BatchingOptions \<Rightarrow> LocationError \<Rightarrow> LocApiBatchData \<Rightarrow> bt_state \<Rightarrow> bt_state" where
  "trip_query_reply client sessionId options err data s =
     (let ongoingTripDistance = mOngoingTripDistance s;
          ongoingTripInterval = mOngoingTripTBFInterval s;
          (ongoingTripInterval, needsRestart) =
            (if ongoingTripInterval > minInterval options then (minInterval options, True) else (ongoingTripInterval, False));
          newTripSession = new_trip (accumulatedDistance data) options;
          (ongoingTripDistance, needsRestart, s) =
            (if err \<noteq> LOCATION_ERROR_SUCCESS
             then (if minDistance options < ongoingTripDistance then (minDistance options, True, s)
                   else (ongoingTripDistance, needsRestart, s))
             else (let remaining = ongoingTripDistance - accumulatedDistance data;
                       (d, r) = (if minDistance options < remaining then (minDistance options, True)
                                 else if needsRestart then (remaining, needsRestart)
                                 else (ongoingTripDistance, needsRestart))
                   in (d, r, s\<lparr>mTripSessions := sm_put sessionId newTripSession (mTripSessions s)\<rparr>)))
      in if needsRestart
         then call_api (reStartOutdoorTripBatching ongoingTripDistance ongoingTripInterval (mBatchingTimeout s))
           (TripRestartReply client sessionId)
           (s\<lparr>mOngoingTripDistance := ongoingTripDistance, mOngoingTripTBFInterval := ongoingTripInterval,
              mTripSessions := map (\<lambda>p. (fst p, restart_trip (snd p))) (mTripSessions s)\<rparr>)
         else bt_reportResponse client LOCATION_ERROR_SUCCESS sessionId s)"

section \<open>Restarting the trip batch\<close>

text \<open>The smallest remaining distance and the smallest interval of the trips; a value of zero counts as none.\<close>

fun min_remaining :: "TripSessionStatus list \<Rightarrow> u32 \<Rightarrow> u32" where
  "min_remaining [] d = d"
| "min_remaining (t # ts) d =
     min_remaining ts (if d = 0 \<or> d > tripDistance t - accumulatedDistanceThisTrip t
                       then tripDistance t - accumulatedDistanceThisTrip t else d)"

fun min_interval :: "TripSessionStatus list \<Rightarrow> u32 \<Rightarrow> u32" where
  "min_interval [] i = i"
| "min_interval (t # ts) i = min_interval ts (if i = 0 \<or> i > tripTBFInterval t then tripTBFInterval t else i)"

definition restartTripBatching :: "bool \<Rightarrow> u32 \<Rightarrow> bt_state \<Rightarrow> bt_state" where
  "restartTripBatching queryAccumulatedDistance accDist s =
     (if length (mTripSessions s) = 0
      then (let s = call_api (stopOutdoorTripBatching True) NoReply s;
                s = s\<lparr>mOngoingTripDistance := 0, mOngoingTripTBFInterval := 0\<rparr>
            in if autoReportBatchingSessionsCount s = 0
               then updateEvtMask LOC_API_ADAPTER_BIT_BATCH_FULL LOC_REGISTRATION_MASK_DISABLED s else s)
      else call_api queryAccumulatedTripDistance
        (RestartQueryReply queryAccumulatedDistance (min_remaining (map snd (mTripSessions s)) 0)
          (min_interval (map snd (mTripSessions s)) 0) accDist) s)"

definition restart_query_reply :: "bool \<Rightarrow> u32 \<Rightarrow> u32 \<Rightarrow> u32 \<Rightarrow> LocApiBatchData \<Rightarrow> bt_state \<Rightarrow> bt_state" where
  "restart_query_reply queryAccumulatedDistance minRemainingDistance minTBFInterval accDist data s =
     (let ongoingTripDistance = mOngoingTripDistance s;
          ongoingTripInterval = mOngoingTripTBFInterval s;
          distance = (if queryAccumulatedDistance then accumulatedDistance data else accDist);
          (ongoingTripDistance, needsRestart) =
            (if \<not> mTripWithOngoingTripDistanceDropped s \<and> ongoingTripDistance - distance \<noteq> 0
             then (if minRemainingDistance < ongoingTripDistance - distance then (minRemainingDistance, True)
                   else (ongoingTripDistance, False))
             else if minRemainingDistance \<noteq> 0 then (minRemainingDistance, True)
             else (ongoingTripDistance, False));
          (ongoingTripInterval, needsRestart) =
            (if minTBFInterval < ongoingTripInterval \<or> (minTBFInterval \<noteq> ongoingTripInterval \<and> mTripWithOngoingTBFDropped s)
             then (minTBFInterval, True) else (ongoingTripInterval, needsRestart))
      in if needsRestart
         then call_api (reStartOutdoorTripBatching ongoingTripDistance ongoingTripInterval (mBatchingTimeout s))
           (RestartReply distance ongoingTripDistance ongoingTripInterval) s
         else s)"

definition count_distance :: "u32 \<Rightarrow> TripSessionStatus \<Rightarrow> TripSessionStatus" where
  "count_distance distance t =
     t\<lparr>accumulatedDistanceThisTrip := accumulatedDistanceOnTripRestart t + (distance - accumulatedDistanceOngoingBatch t)\<rparr>"

definition restart_reply :: "u32 \<Rightarrow> u32 \<Rightarrow> u32 \<Rightarrow> LocationError \<Rightarrow> bt_state \<Rightarrow> bt_state" where
  "restart_reply distance ongoingTripDistance ongoingTripInterval err s =
     (if err = LOCATION_ERROR_SUCCESS
      then s\<lparr>mTripSessions := map (\<lambda>p. (fst p, restart_trip (count_distance distance (snd p)))) (mTripSessions s),
             mOngoingTripDistance := ongoingTripDistance, mOngoingTripTBFInterval := ongoingTripInterval\<rparr>
      else s)"

section \<open>Stopping\<close>

text \<open>A session is started again with new options in the mode they name.\<close>

definition start_again :: "client \<Rightarrow> u32 \<Rightarrow> BatchingOptions \<Rightarrow> bt_state \<Rightarrow> bt_state" where
  "start_again client sessionId options s =
     (if batchingMode options = BATCHING_MODE_ROUTINE \<or> batchingMode options = BATCHING_MODE_NO_AUTO_REPORT
      then startBatching client sessionId options s
      else if batchingMode options = BATCHING_MODE_TRIP then startTripBatchingMultiplex client sessionId options s
      else s)"

definition stopBatching :: "client \<Rightarrow> u32 \<Rightarrow> bool \<Rightarrow> BatchingOptions \<Rightarrow> bt_state \<Rightarrow> bt_state" where
  "stopBatching client sessionId restartNeeded options s =
     (case map_of (mBatchingSessions s) (LocationSessionKey client sessionId) of
        None \<Rightarrow> s
      | Some flpOptions \<Rightarrow>
          call_api (stopBatchingCall sessionId) (StopReply client sessionId flpOptions restartNeeded options)
            (eraseBatchingSession client sessionId s))"

definition stop_reply :: "client \<Rightarrow> u32 \<Rightarrow> BatchingOptions \<Rightarrow> bool \<Rightarrow> BatchingOptions \<Rightarrow> LocationError \<Rightarrow> bt_state \<Rightarrow> bt_state" where
  "stop_reply client sessionId flpOptions restartNeeded options err s =
     (let s = (if err \<noteq> LOCATION_ERROR_SUCCESS then saveBatchingSession client sessionId options s
               else (let s = (if autoReportBatchingSessionsCount s = 0 \<and> batchingMode flpOptions \<noteq> BATCHING_MODE_NO_AUTO_REPORT
                              then updateEvtMask LOC_API_ADAPTER_BIT_BATCH_FULL LOC_REGISTRATION_MASK_DISABLED s else s)
                     in if restartNeeded then start_again client sessionId options s else s))
      in bt_reportResponse client err sessionId s)"

text \<open>A trip ends whose interval or distance is the one of the ongoing batch.\<close>

definition note_dropped :: "TripSessionStatus \<Rightarrow> bt_state \<Rightarrow> bt_state" where
  "note_dropped t s =
     (let s = (if tripTBFInterval t = mOngoingTripTBFInterval s then s\<lparr>mTripWithOngoingTBFDropped := True\<rparr> else s)
      in if tripDistance t = mOngoingTripDistance s then s\<lparr>mTripWithOngoingTripDistanceDropped := True\<rparr> else s)"

definition stopTripBatchingMultiplexCommon ::
  "LocationError \<Rightarrow> client \<Rightarrow> u32 \<Rightarrow> bool \<Rightarrow> BatchingOptions \<Rightarrow> bt_state \<Rightarrow> bt_state option" where
  "stopTripBatchingMultiplexCommon err client sessionId restartNeeded options s =
     (case map_of (mTripSessions s) sessionId of
        None \<Rightarrow> None
      | Some tripSess \<Rightarrow>
          (let s = note_dropped tripSess s;
               s = s\<lparr>mTripSessions := sm_erase sessionId (mTripSessions s)\<rparr>;
               s = (if length (mTripSessions s) = 0 then s\<lparr>mOngoingTripDistance := 0, mOngoingTripTBFInterval := 0\<rparr>
                    else restartTripBatching True 0 s);
               s = (if restartNeeded then start_again client sessionId options (eraseBatchingSession client sessionId s) else s)
           in Some (bt_reportResponse client err sessionId s)))"

definition stopTripBatchingMultiplex :: "client \<Rightarrow> u32 \<Rightarrow> bool \<Rightarrow> BatchingOptions \<Rightarrow> bt_state \<Rightarrow> bt_state option" where
  "stopTripBatchingMultiplex client sessionId restartNeeded options s =
     (if length (mTripSessions s) = 1
      then Some (call_api (stopOutdoorTripBatching True) (TripStopReply client sessionId restartNeeded options) s)
      else stopTripBatchingMultiplexCommon LOCATION_ERROR_SUCCESS client sessionId restartNeeded options s)"

definition trip_stop_reply :: "client \<Rightarrow> u32 \<Rightarrow> bool \<Rightarrow> BatchingOptions \<Rightarrow> LocationError \<Rightarrow> bt_state \<Rightarrow> bt_state option" where
  "trip_stop_reply client sessionId restartNeeded options err s =
     (let s = (if err = LOCATION_ERROR_SUCCESS \<and> autoReportBatchingSessionsCount s = 1
               then updateEvtMask LOC_API_ADAPTER_BIT_BATCH_FULL LOC_REGISTRATION_MASK_DISABLED s else s)
      in stopTripBatchingMultiplexCommon err client sessionId restartNeeded options s)"

section \<open>Clients and restarts\<close>

definition bt_event_mask :: "u32 \<Rightarrow> (client \<times> LocationCallbacks) list \<Rightarrow> u64" where
  "bt_event_mask count cs =
     (if \<exists>p\<in>set cs. batchingCb (snd p) then LOC_API_ADAPTER_BIT_BATCH_STATUS else 0)
     OR (if count > 0 then LOC_API_ADAPTER_BIT_BATCH_FULL else 0)"

fun stop_sessions :: "(LocationSessionKey \<times> BatchingOptions) list \<Rightarrow> bt_state \<Rightarrow> bt_state option" where
  "stop_sessions [] s = Some s"
| "stop_sessions ((key, options) # vBatchingClient) s = do {
     s \<leftarrow> (if batchingMode options \<noteq> BATCHING_MODE_TRIP
           then Some (stopBatching (session_client key) (session_id key) False default_options s)
           else stopTripBatchingMultiplex (session_client key) (session_id key) False default_options s);
     stop_sessions vBatchingClient s
   }"

definition bt_stopClientSessions :: "client \<Rightarrow> bt_state \<Rightarrow> bt_state option" where
  "bt_stopClientSessions client s = stop_sessions (filter (\<lambda>p. session_client (fst p) = client) (mBatchingSessions s)) s"

text \<open>The loop over the trips in \<open>restartSessions\<close> works on copies of the trips.\<close>

definition restartSessions :: "bt_state \<Rightarrow> bt_state" where
  "restartSessions s =
     (let s = (if autoReportBatchingSessionsCount s > 0
               then updateEvtMask LOC_API_ADAPTER_BIT_BATCH_FULL LOC_REGISTRATION_MASK_ENABLED s else s);
          s = s\<lparr>api_queue := api_queue s @
            map (\<lambda>(key, options). (startBatchingCall (session_id key) options (mBatchingAccuracy s) (mBatchingTimeout s), NoReply))
              (filter (\<lambda>p. batchingMode (snd p) \<noteq> BATCHING_MODE_TRIP) (mBatchingSessions s))\<rparr>
      in if length (mTripSessions s) > 0
         then (let s = s\<lparr>mOngoingTripDistance := min_remaining (map snd (mTripSessions s)) 0,
                         mOngoingTripTBFInterval := min_interval (map snd (mTripSessions s)) 0\<rparr>
               in call_api (startOutdoorTripBatching (mOngoingTripDistance s) (mOngoingTripTBFInterval s) (mBatchingTimeout s))
                    EngineUpReply s)
         else s)"

definition engine_up_reply :: "LocationError \<Rightarrow> bt_state \<Rightarrow> bt_state" where
  "engine_up_reply err s =
     (if err \<noteq> LOCATION_ERROR_SUCCESS then s\<lparr>mOngoingTripDistance := 0, mOngoingTripTBFInterval := 0\<rparr> else s)"

definition set_api_sizes :: "bt_state \<Rightarrow> bt_state" where
  "set_api_sizes s = s\<lparr>api_batch_sizes := (mBatchSize s, mTripBatchSize s)\<rparr>"

definition engine_up :: "engine_support \<Rightarrow> bt_state \<Rightarrow> bt_state" where
  "engine_up eng s =
     (let s = s\<lparr>mIsEngineCapabilitiesKnown := True\<rparr>;
          s = call_back (map (\<lambda>(c, m). CapabilitiesCb c m) (broadcastCapabilities (getCapabilities eng s) s)) s;
          s = restartSessions (set_api_sizes s)
      in s\<lparr>adapter_queue := adapter_queue s @ mPendingMsgs s, mPendingMsgs := []\<rparr>)"

section \<open>Configuration\<close>

definition flp_conf_param_table :: "loc_param_s_type list" where
  "flp_conf_param_table =
     map (\<lambda>(n, a). \<lparr>param_name = n, param_ptr = Some a, param_set = None, param_type = CHR ''n''\<rparr>)
       [(''BATCH_SIZE'', ''batchSize''), (''OUTDOOR_TRIP_BATCH_SIZE'', ''tripBatchSize''),
        (''BATCH_SESSION_TIMEOUT'', ''batchingTimeout''), (''ACCURACY'', ''batchingAccuracy'')]"

text \<open>The local variables begin as zero; what else the memory holds is not used.\<close>

definition read_config :: "string option \<Rightarrow> bt_state \<Rightarrow> bt_state option" where
  "read_config flp_conf s = do {
     m \<leftarrow> loc_read_conf flp_conf flp_conf_param_table \<lparr>strs = (\<lambda>_. []), nums = (\<lambda>_. 0), dbls = (\<lambda>_. Zero), sets = (\<lambda>_. 0)\<rparr>;
     Some (s\<lparr>mBatchSize := ucast (nums m ''batchSize''), mTripBatchSize := ucast (nums m ''tripBatchSize''),
       mBatchingTimeout := nums m ''batchingTimeout'', mBatchingAccuracy := nums m ''batchingAccuracy''\<rparr>)
   }"

section \<open>Commands\<close>

text \<open>A command that comes before the capabilities are known waits.\<close>

definition start_batching :: "engine_support \<Rightarrow> client \<Rightarrow> u32 \<Rightarrow> BatchingOptions \<Rightarrow> bt_state \<Rightarrow> bt_state" where
  "start_batching eng client sessionId options s =
     (let err = (if \<not> hasBatchingCallback client s then LOCATION_ERROR_CALLBACK_MISSING
                 else if opt_size options = 0 then LOCATION_ERROR_INVALID_PARAMETER
                 else if \<not> isMessageSupported eng DISTANCE_BASE_LOCATION_BATCHING then LOCATION_ERROR_NOT_SUPPORTED
                 else LOCATION_ERROR_SUCCESS)
      in if err = LOCATION_ERROR_SUCCESS
         then (if batchingMode options = BATCHING_MODE_ROUTINE \<or> batchingMode options = BATCHING_MODE_NO_AUTO_REPORT
               then startBatching client sessionId options s
               else if batchingMode options = BATCHING_MODE_TRIP then startTripBatchingMultiplex client sessionId options s
               else bt_reportResponse client LOCATION_ERROR_INVALID_PARAMETER sessionId s)
         else s)"

definition update_batching :: "client \<Rightarrow> u32 \<Rightarrow> BatchingOptions \<Rightarrow> bt_state \<Rightarrow> bt_state option" where
  "update_batching client sessionId options s =
     (let err = (if \<not> isBatchingSession client sessionId s then LOCATION_ERROR_ID_UNKNOWN
                 else if opt_size options = 0 \<or> batchingMode options > BATCHING_MODE_NO_AUTO_REPORT then LOCATION_ERROR_INVALID_PARAMETER
                 else LOCATION_ERROR_SUCCESS)
      in if err = LOCATION_ERROR_SUCCESS
         then (if \<not> isTripSession sessionId s then Some (stopBatching client sessionId True options s)
               else stopTripBatchingMultiplex client sessionId True options s)
         else Some s)"

definition stop_batching :: "client \<Rightarrow> u32 \<Rightarrow> bt_state \<Rightarrow> bt_state option" where
  "stop_batching client sessionId s =
     (if isBatchingSession client sessionId s
      then (if isTripSession sessionId s then stopTripBatchingMultiplex client sessionId False default_options s
            else Some (stopBatching client sessionId False default_options s))
      else Some s)"

definition get_batched_locations :: "client \<Rightarrow> u32 \<Rightarrow> u64 \<Rightarrow> bt_state \<Rightarrow> bt_state" where
  "get_batched_locations client sessionId count s =
     (let err = (if \<not> hasBatchingCallback client s then LOCATION_ERROR_CALLBACK_MISSING
                 else if \<not> isBatchingSession client sessionId s then LOCATION_ERROR_ID_UNKNOWN
                 else LOCATION_ERROR_SUCCESS)
      in if err = LOCATION_ERROR_SUCCESS
         then (if isTripSession sessionId s then call_api (getBatchedTripLocations count 0) (LocationsReply client sessionId) s
               else call_api (getBatchedLocations count) (LocationsReply client sessionId) s)
         else bt_reportResponse client err sessionId s)"

section \<open>Reports of the modem\<close>

definition reportLocations :: "Location list \<Rightarrow> BatchingMode \<Rightarrow> bt_state \<Rightarrow> bt_state" where
  "reportLocations locations mode s =
     call_back (map (\<lambda>p. BatchingCb (fst p) locations mode) (filter (\<lambda>p. batchingCb (snd p)) (mClientData s))) s"

definition reportBatchStatusChange :: "BatchingStatus \<Rightarrow> u32 list \<Rightarrow> bt_state \<Rightarrow> bt_state" where
  "reportBatchStatusChange status completedTripsList s =
     call_back (map (\<lambda>p. BatchingStatusCb (fst p) status completedTripsList)
       (filter (\<lambda>p. batchingStatusCb (snd p)) (mClientData s))) s"

text \<open>The loop over the trips: those left to visit, those kept, the identifiers of the completed ones.\<close>

fun completed_loop :: "(TripSessionStatus \<Rightarrow> TripSessionStatus option) \<Rightarrow> u32 \<Rightarrow> (u32 \<times> TripSessionStatus) list
    \<Rightarrow> (u32 \<times> TripSessionStatus) list \<Rightarrow> u32 list \<Rightarrow> bt_state \<Rightarrow> (u32 list \<times> bt_state) option" where
  "completed_loop erased distance [] kept completed s = Some (completed, s\<lparr>mTripSessions := kept\<rparr>)"
| "completed_loop erased distance ((i, t) # trips) kept completed s =
     (let t = count_distance distance t in
      if tripDistance t \<le> accumulatedDistanceThisTrip t
      then (case erased t of
              None \<Rightarrow> None
            | Some t \<Rightarrow> completed_loop erased distance trips kept (completed @ [i]) (note_dropped t s))
      else completed_loop erased distance trips (kept @ [(i, t)]) completed s)"

definition report_completed :: "(TripSessionStatus \<Rightarrow> TripSessionStatus option) \<Rightarrow> u32 \<Rightarrow> bt_state \<Rightarrow> bt_state option" where
  "report_completed erased distance s = do {
     (completed, s) \<leftarrow> completed_loop erased distance (mTripSessions s) [] [] s;
     Some (if length completed > 0
           then restartTripBatching False distance (reportBatchStatusChange BATCHING_STATUS_TRIP_COMPLETED completed s)
           else s)
   }"

section \<open>The threads\<close>

fun bt_answered :: "bt_reply \<Rightarrow> LocationError \<Rightarrow> LocApiBatchData \<Rightarrow> bt_state \<Rightarrow> bt_state option" where
  "bt_answered (StartReply client i options) err data s = Some (start_reply client i options err s)"
| "bt_answered (StopReply client i flp restart options) err data s = Some (stop_reply client i flp restart options err s)"
| "bt_answered (TripStartReply client i options) err data s = Some (trip_start_reply client i options err s)"
| "bt_answered (TripQueryReply client i options) err data s = Some (trip_query_reply client i options err data s)"
| "bt_answered (TripRestartReply client i) err data s = Some (bt_reportResponse client err i s)"
| "bt_answered (TripStopReply client i restart options) err data s = trip_stop_reply client i restart options err s"
| "bt_answered (RestartQueryReply q d i a) err data s = Some (restart_query_reply q d i a data s)"
| "bt_answered (RestartReply a d i) err data s = Some (restart_reply a d i err s)"
| "bt_answered EngineUpReply err data s = Some (engine_up_reply err s)"
| "bt_answered (LocationsReply client i) err data s = Some (bt_reportResponse client err i s)"
| "bt_answered NoReply err data s = Some s"

record bt_env =
  engine :: engine_support
  flp_conf_file :: "string option"
  erased_trip :: "TripSessionStatus \<Rightarrow> TripSessionStatus option"

definition pend :: "bt_msg \<Rightarrow> bt_state \<Rightarrow> bt_state" where
  "pend msg s = s\<lparr>mPendingMsgs := mPendingMsgs s @ [msg]\<rparr>"

fun bt_proc :: "bt_env \<Rightarrow> bt_msg \<Rightarrow> bt_state \<Rightarrow> bt_state option" where
  "bt_proc e (MsgAddClient client callbacks) s =
     Some (saveClient (bt_event_mask (autoReportBatchingSessionsCount s)) client callbacks s)"
| "bt_proc e (MsgRemoveClient client cb) s = do {
     s \<leftarrow> bt_stopClientSessions client s;
     let s = eraseClient (bt_event_mask (autoReportBatchingSessionsCount s)) client s;
     Some (if cb then call_back [RemoveClientCb client] s else s)
   }"
| "bt_proc e (MsgRequestCapabilities client) s =
     (if \<not> mIsEngineCapabilitiesKnown s then Some (pend (MsgRequestCapabilities client) s)
      else Some (if capabilitiesCb (getClientCallbacks client s)
        then call_back [CapabilitiesCb client (getCapabilities (engine e) s)] s else s))"
| "bt_proc e MsgSSREvent s = Some (engine_up (engine e) s)"
| "bt_proc e MsgReadConfig s = read_config (flp_conf_file e) s"
| "bt_proc e MsgSetConfig s = Some (set_api_sizes s)"
| "bt_proc e (MsgStartBatching client i options) s =
     (if \<not> mIsEngineCapabilitiesKnown s then Some (pend (MsgStartBatching client i options) s)
      else Some (start_batching (engine e) client i options s))"
| "bt_proc e (MsgUpdateBatching client i options) s =
     (if \<not> mIsEngineCapabilitiesKnown s then Some (pend (MsgUpdateBatching client i options) s)
      else update_batching client i options s)"
| "bt_proc e (MsgStopBatching client i) s =
     (if \<not> mIsEngineCapabilitiesKnown s then Some (pend (MsgStopBatching client i) s)
      else stop_batching client i s)"
| "bt_proc e (MsgGetBatchedLocations client i count) s =
     (if \<not> mIsEngineCapabilitiesKnown s then Some (pend (MsgGetBatchedLocations client i count) s)
      else Some (get_batched_locations client i count s))"
| "bt_proc e (MsgReportLocations locations mode) s = Some (reportLocations locations mode s)"
| "bt_proc e (MsgReportCompletedTrips distance) s = report_completed (erased_trip e) distance s"
| "bt_proc e (MsgReportBatchStatus status) s = Some (reportBatchStatusChange status [] s)"
| "bt_proc e (Answered k err data) s = bt_answered k err data s"

datatype bt_step_kind = AdapterStep | ApiStep LocationError LocApiBatchData | Command bt_msg

text \<open>
  A step: the adapter's thread runs its next message, the modem interface its next call with the
  answer given, or a client or the modem sends a message. A thread with an empty queue waits.
\<close>

definition bt_step :: "bt_env \<Rightarrow> bt_step_kind \<Rightarrow> bt_state \<Rightarrow> bt_state option" where
  "bt_step e k s = (case k of
     AdapterStep \<Rightarrow> (case adapter_queue s of [] \<Rightarrow> Some s | msg # ms \<Rightarrow> bt_proc e msg (s\<lparr>adapter_queue := ms\<rparr>))
   | ApiStep err data \<Rightarrow> (case api_queue s of
       [] \<Rightarrow> Some s | (c, r) # cs \<Rightarrow> Some (bt_send (Answered r err data) (s\<lparr>api_queue := cs\<rparr>)))
   | Command msg \<Rightarrow> Some (bt_send msg s))"

fun bt_run :: "bt_env \<Rightarrow> bt_step_kind list \<Rightarrow> bt_state \<Rightarrow> bt_state option" where
  "bt_run e [] s = Some s"
| "bt_run e (k # ks) s = Option.bind (bt_step e k s) (bt_run e ks)"

text \<open>The commands and events, which only send a message; a start hands out a session number.\<close>

definition startBatchingCommand :: "client \<Rightarrow> BatchingOptions \<Rightarrow> u32 \<Rightarrow> bt_state \<Rightarrow> u32 \<times> bt_state" where
  "startBatchingCommand client options counter s =
     (let sessionId = generateSessionId counter in (sessionId, bt_send (MsgStartBatching client sessionId options) s))"

definition updateBatchingOptionsCommand :: "client \<Rightarrow> u32 \<Rightarrow> BatchingOptions \<Rightarrow> bt_state \<Rightarrow> bt_state" where
  "updateBatchingOptionsCommand client i options s = bt_send (MsgUpdateBatching client i options) s"

definition stopBatchingCommand :: "client \<Rightarrow> u32 \<Rightarrow> bt_state \<Rightarrow> bt_state" where
  "stopBatchingCommand client i s = bt_send (MsgStopBatching client i) s"

definition getBatchedLocationsCommand :: "client \<Rightarrow> u32 \<Rightarrow> u64 \<Rightarrow> bt_state \<Rightarrow> bt_state" where
  "getBatchedLocationsCommand client i count s = bt_send (MsgGetBatchedLocations client i count) s"

definition reportLocationsEvent :: "Location list \<Rightarrow> BatchingMode \<Rightarrow> bt_state \<Rightarrow> bt_state" where
  "reportLocationsEvent locations mode s = bt_send (MsgReportLocations locations mode) s"

definition reportCompletedTripsEvent :: "u32 \<Rightarrow> bt_state \<Rightarrow> bt_state" where
  "reportCompletedTripsEvent distance s = bt_send (MsgReportCompletedTrips distance) s"

definition reportBatchStatusChangeEvent :: "BatchingStatus \<Rightarrow> bt_state \<Rightarrow> bt_state" where
  "reportBatchStatusChangeEvent status s = bt_send (MsgReportBatchStatus status) s"

definition bt_handleEngineUpEvent :: "bt_state \<Rightarrow> bt_state" where
  "bt_handleEngineUpEvent s = bt_send MsgSSREvent s"

definition readConfigCommand :: "bt_state \<Rightarrow> bt_state" where
  "readConfigCommand s = bt_send MsgReadConfig s"

definition setConfigCommand :: "bt_state \<Rightarrow> bt_state" where
  "setConfigCommand s = bt_send MsgSetConfig s"

text \<open>The adapter after its construction.\<close>

definition new_batching :: bt_state where
  "new_batching = setConfigCommand (readConfigCommand
     \<lparr>mClientData = [], mEvtMask = 0, mIsEngineCapabilitiesKnown = False, mPendingMsgs = [],
      mBatchingSessions = [], mTripSessions = [], mOngoingTripDistance = 0, mOngoingTripTBFInterval = 0,
      mTripWithOngoingTBFDropped = False, mTripWithOngoingTripDistanceDropped = False, mBatchingTimeout = 0,
      mBatchingAccuracy = 1, mBatchSize = 0, mTripBatchSize = 0, api_batch_sizes = (0, 0),
      adapter_queue = [], api_queue = [], callbacks_made = []\<rparr>)"

end
