(* ===== verification/BatchingRun.thy ===== *)
theory BatchingRun
  imports Batching
begin

unbundle bit_operations_syntax

text \<open>
  What the batching adapter does. Whenever a session wants batches to be reported, the adapter is
  registered for the event, as long as no stop fails and no trip joins a batch that has just ended;
  the completed trips are reported to those who want to know; and runs in which the bookkeeping of
  trips goes wrong.
\<close>

section \<open>Fields\<close>

lemma effects_simps [simp]:
  "mEvtMask (call_api c k s) = mEvtMask s" "mBatchingSessions (call_api c k s) = mBatchingSessions s" "mTripSessions (call_api c k s) = mTripSessions s"
  "mEvtMask (call_back out s) = mEvtMask s" "mBatchingSessions (call_back out s) = mBatchingSessions s" "mTripSessions (call_back out s) = mTripSessions s"
  "mEvtMask (bt_send msg s) = mEvtMask s" "mBatchingSessions (bt_send msg s) = mBatchingSessions s" "mTripSessions (bt_send msg s) = mTripSessions s"
  "mEvtMask (pend msg s) = mEvtMask s" "mBatchingSessions (pend msg s) = mBatchingSessions s" "mTripSessions (pend msg s) = mTripSessions s"
  by (simp_all add: call_api_def call_back_def bt_send_def pend_def)

lemma response_simps [simp]:
  "mEvtMask (bt_reportResponse client err i s) = mEvtMask s"
  "mBatchingSessions (bt_reportResponse client err i s) = mBatchingSessions s"
  "mTripSessions (bt_reportResponse client err i s) = mTripSessions s"
  by (simp_all add: bt_reportResponse_def split: option.splits)

lemma mask_simps [simp]:
  "mBatchingSessions (updateEvtMask b st s) = mBatchingSessions s"
  "mTripSessions (updateEvtMask b st s) = mTripSessions s"
  by (cases st; simp add: updateEvtMask_def)+

lemma session_simps [simp]:
  "mEvtMask (saveBatchingSession client i options s) = mEvtMask s"
  "mEvtMask (eraseBatchingSession client i s) = mEvtMask s"
  "mTripSessions (saveBatchingSession client i options s) = mTripSessions s"
  "mTripSessions (eraseBatchingSession client i s) = mTripSessions s"
  by (simp_all add: saveBatchingSession_def eraseBatchingSession_def)

lemma dropped_simps [simp]:
  "mEvtMask (note_dropped t s) = mEvtMask s" "mBatchingSessions (note_dropped t s) = mBatchingSessions s"
  "mTripSessions (note_dropped t s) = mTripSessions s" "mClientData (note_dropped t s) = mClientData s"
  by (simp_all add: note_dropped_def Let_def)

section \<open>Registration for full batches\<close>

text \<open>The sessions that want their batches reported, counted without overflow.\<close>

definition auto_sessions :: "bt_state \<Rightarrow> nat" where
  "auto_sessions s =
     length (filter (\<lambda>p. batchingMode (snd p) \<noteq> BATCHING_MODE_NO_AUTO_REPORT) (mBatchingSessions s)) + length (mTripSessions s)"

definition full_bit :: "bt_state \<Rightarrow> bool" where
  "full_bit s \<longleftrightarrow> mEvtMask s AND LOC_API_ADAPTER_BIT_BATCH_FULL \<noteq> 0"

definition registered :: "bt_state \<Rightarrow> bool" where
  "registered s \<longleftrightarrow> auto_sessions s \<noteq> 0 \<longrightarrow> full_bit s"

definition few :: "bt_state \<Rightarrow> bool" where
  "few s \<longleftrightarrow> int (length (mBatchingSessions s) + length (mTripSessions s)) < 2 ^ 31"

lemma few_auto:
  assumes "few s" shows "auto_sessions s < 2 ^ 31"
proof -
  have "int (length (mBatchingSessions s) + length (mTripSessions s)) < int (2 ^ 31)" using assms by (simp add: few_def)
  then have "length (mBatchingSessions s) + length (mTripSessions s) < 2 ^ 31" by (simp only: of_nat_less_iff)
  then show ?thesis
    using length_filter_le[of "\<lambda>p. batchingMode (snd p) \<noteq> BATCHING_MODE_NO_AUTO_REPORT" "mBatchingSessions s"]
    unfolding auto_sessions_def by linarith
qed

lemma count_eq: "autoReportBatchingSessionsCount s = of_nat (auto_sessions s)"
  by (simp add: autoReportBatchingSessionsCount_def auto_sessions_def)

lemma count_small:
  assumes "auto_sessions s < 2 ^ 32"
  shows "autoReportBatchingSessionsCount s = 0 \<longleftrightarrow> auto_sessions s = 0"
    "autoReportBatchingSessionsCount s = 1 \<longleftrightarrow> auto_sessions s = 1"
    "autoReportBatchingSessionsCount s > 0 \<longleftrightarrow> auto_sessions s \<noteq> 0"
proof -
  have u: "unat (of_nat (auto_sessions s) :: u32) = auto_sessions s" using assms by (simp add: unat_of_nat)
  show z: "autoReportBatchingSessionsCount s = 0 \<longleftrightarrow> auto_sessions s = 0"
    unfolding count_eq word_unat_eq_iff u by simp
  show "autoReportBatchingSessionsCount s = 1 \<longleftrightarrow> auto_sessions s = 1"
    unfolding count_eq word_unat_eq_iff u by simp
  show "autoReportBatchingSessionsCount s > 0 \<longleftrightarrow> auto_sessions s \<noteq> 0"
    using z by (simp add: word_gt_0)
qed

lemma full_bit_mask [simp]:
  "full_bit (updateEvtMask LOC_API_ADAPTER_BIT_BATCH_FULL LOC_REGISTRATION_MASK_ENABLED s)"
  by (simp add: full_bit_def updateEvtMask_def LOC_API_ADAPTER_BIT_BATCH_FULL_def bit.conj_disj_distrib2)

lemma auto_fields: "mBatchingSessions s = mBatchingSessions t \<Longrightarrow> mTripSessions s = mTripSessions t \<Longrightarrow> auto_sessions s = auto_sessions t"
  by (simp add: auto_sessions_def)

lemma registered_fields:
  "mEvtMask s = mEvtMask t \<Longrightarrow> mBatchingSessions s = mBatchingSessions t \<Longrightarrow> mTripSessions s = mTripSessions t \<Longrightarrow> registered s = registered t"
  by (simp add: registered_def full_bit_def auto_sessions_def)

lemma registered_effects [simp]:
  "registered (call_api c k s) = registered s" "registered (call_back out s) = registered s"
  "registered (bt_send msg s) = registered s" "registered (pend msg s) = registered s"
  "registered (bt_reportResponse client err i s) = registered s"
  by (rule registered_fields; simp)+

lemma auto_erase: "auto_sessions (eraseBatchingSession client i s) \<le> auto_sessions s"
proof -
  have "length (filter P (sm_erase k xs)) \<le> length (filter P xs)" for P :: "'k \<times> 'v \<Rightarrow> bool" and k xs
  proof -
    have "filter P (sm_erase k xs) = filter (\<lambda>p. fst p \<noteq> k) (filter P xs)"
      by (simp add: sm_erase_def conj_commute)
    then show ?thesis using length_filter_le[of "\<lambda>p. fst p \<noteq> k" "filter P xs"] by simp
  qed
  then show ?thesis by (simp add: auto_sessions_def eraseBatchingSession_def)
qed

lemma registered_less: "registered s \<Longrightarrow> mEvtMask t = mEvtMask s \<Longrightarrow> auto_sessions t \<le> auto_sessions s \<Longrightarrow> registered t"
  by (auto simp: registered_def full_bit_def)

lemma registered_erase [intro]: "registered s \<Longrightarrow> registered (eraseBatchingSession client i s)"
  by (erule registered_less) (simp_all add: auto_erase)

lemma registered_disable:
  "auto_sessions s < 2 ^ 32 \<Longrightarrow> registered s \<Longrightarrow>
   registered (if b \<and> autoReportBatchingSessionsCount s = 0
     then updateEvtMask LOC_API_ADAPTER_BIT_BATCH_FULL LOC_REGISTRATION_MASK_DISABLED s else s)"
  by (auto simp: registered_def count_small auto_fields[of "updateEvtMask _ _ s" s])

text \<open>Once the event is registered, sessions may be added.\<close>

lemma full_bit_enable:
  "auto_sessions s < 2 ^ 32 \<Longrightarrow> registered s \<Longrightarrow>
   full_bit (if autoReportBatchingSessionsCount s = 0
     then updateEvtMask LOC_API_ADAPTER_BIT_BATCH_FULL LOC_REGISTRATION_MASK_ENABLED s else s)"
  by (auto simp: registered_def count_small)

lemma full_bit_fields: "mEvtMask s = mEvtMask t \<Longrightarrow> full_bit s = full_bit t"
  by (simp add: full_bit_def)

lemma registered_full: "full_bit s \<Longrightarrow> registered s"
  by (simp add: registered_def)

lemma filter_dropWhile_le: "length (filter P (dropWhile R xs)) \<le> length (filter P xs)"
  by (induction xs) auto

lemma filter_put_le:
  "(\<And>x. Q x \<Longrightarrow> R x) \<Longrightarrow> length (filter P (takeWhile Q xs)) + length (filter P (dropWhile R xs)) \<le> length (filter P xs)"
  using filter_dropWhile_le[of P R] by (induction xs) (auto simp: le_SucI)

lemma auto_save_silent:
  assumes "batchingMode options = BATCHING_MODE_NO_AUTO_REPORT"
  shows "auto_sessions (saveBatchingSession client i options s) \<le> auto_sessions s"
  using assms filter_put_le[of "\<lambda>p. fst p < LocationSessionKey client i" "\<lambda>p. fst p \<le> LocationSessionKey client i"
      "\<lambda>p. batchingMode (snd p) \<noteq> BATCHING_MODE_NO_AUTO_REPORT" "mBatchingSessions s"]
  by (simp add: auto_sessions_def saveBatchingSession_def sm_put_def)

section \<open>The operations keep the registration\<close>

lemma registered_start:
  assumes "auto_sessions s < 2 ^ 32" "registered s"
  shows "registered (startBatching client i options s)"
proof (cases "batchingMode options = BATCHING_MODE_NO_AUTO_REPORT")
  case True
  then show ?thesis using registered_less[OF assms(2)] auto_save_silent[OF True]
    by (simp add: startBatching_def Let_def)
next
  case False
  let ?s = "if autoReportBatchingSessionsCount s = 0
    then updateEvtMask LOC_API_ADAPTER_BIT_BATCH_FULL LOC_REGISTRATION_MASK_ENABLED s else s"
  have "full_bit (saveBatchingSession client i options ?s)"
    using full_bit_enable[OF assms] by (simp only: full_bit_fields[OF session_simps(1)])
  then show ?thesis using False by (simp add: startBatching_def Let_def registered_full)
qed

lemma registered_start_reply:
  assumes "auto_sessions s < 2 ^ 32" "registered s"
  shows "registered (start_reply client i options err s)"
proof -
  let ?s = "if err \<noteq> LOCATION_ERROR_SUCCESS then eraseBatchingSession client i s else s"
  have "auto_sessions ?s < 2 ^ 32" "registered ?s"
    using assms auto_erase[of client i s] by (auto intro: le_less_trans)
  from registered_disable[OF this, of "err \<noteq> LOCATION_ERROR_SUCCESS \<and> batchingMode options \<noteq> BATCHING_MODE_NO_AUTO_REPORT"]
  show ?thesis by (simp add: start_reply_def Let_def conj_assoc)
qed

lemma registered_start_trip:
  assumes "auto_sessions s < 2 ^ 32" "registered s"
  shows "registered (startTripBatchingMultiplex client i options s)"
proof (cases "length (mTripSessions s) = 0")
  case True
  let ?s = "if autoReportBatchingSessionsCount s = 0
    then updateEvtMask LOC_API_ADAPTER_BIT_BATCH_FULL LOC_REGISTRATION_MASK_ENABLED s else s"
  have "full_bit ((saveBatchingSession client i options ?s)\<lparr>mTripSessions := x\<rparr>)" for x
    using full_bit_enable[OF assms] full_bit_fields[of "(saveBatchingSession client i options ?s)\<lparr>mTripSessions := x\<rparr>" ?s] by simp
  then show ?thesis using True by (simp add: startTripBatchingMultiplex_def Let_def registered_full)
qed (use assms in \<open>simp add: startTripBatchingMultiplex_def\<close>)

lemma registered_start_again:
  "auto_sessions s < 2 ^ 32 \<Longrightarrow> registered s \<Longrightarrow> registered (start_again client i options s)"
  by (simp add: start_again_def registered_start registered_start_trip)

lemma registered_trips:
  assumes "registered s" "length ts \<le> length (mTripSessions s)"
  shows "registered (s\<lparr>mTripSessions := ts, mOngoingTripDistance := d, mOngoingTripTBFInterval := i\<rparr>)"
    "registered (s\<lparr>mTripSessions := ts\<rparr>)"
  by (rule registered_less[OF assms(1)]; use assms(2) in \<open>simp add: auto_sessions_def\<close>)+

lemma erase_trip_le: "length (sm_erase i ts) \<le> length ts"
  by (simp add: sm_erase_def)

lemma registered_trip_start_reply:
  assumes "auto_sessions s < 2 ^ 32" "registered s"
  shows "registered (trip_start_reply client i options err s)"
proof -
  let ?s = "(eraseBatchingSession client i s)\<lparr>mTripSessions := sm_erase i (mTripSessions s)\<rparr>"
  have r: "registered ?s" 
    using registered_trips(2)[OF registered_erase[OF assms(2), of client i], of "sm_erase i (mTripSessions s)"]
    by (simp add: erase_trip_le)
  have "auto_sessions ?s \<le> auto_sessions (eraseBatchingSession client i s)"
    by (simp add: auto_sessions_def erase_trip_le)
  then have "auto_sessions ?s < 2 ^ 32" using auto_erase[of client i s] assms(1) by linarith
  from registered_disable[OF this r, of True] show ?thesis using assms(2) registered_trips(1)[OF assms(2) order_refl]
    by (auto simp: trip_start_reply_def Let_def registered_def full_bit_def auto_sessions_def)
qed

lemma registered_trip_query_reply:
  assumes "registered s" "err = LOCATION_ERROR_SUCCESS \<longrightarrow> mTripSessions s \<noteq> []"
  shows "registered (trip_query_reply client i options err data s)"
proof -
  have same: "mEvtMask (trip_query_reply client i options err data s) = mEvtMask s"
    "mBatchingSessions (trip_query_reply client i options err data s) = mBatchingSessions s"
    by (simp_all add: trip_query_reply_def Let_def)
  show ?thesis
  proof (cases "mTripSessions s = []")
    case True
    then have "length (mTripSessions (trip_query_reply client i options err data s)) = length (mTripSessions s)"
      using assms(2) by (simp add: trip_query_reply_def Let_def)
    then show ?thesis using same by (intro registered_less[OF assms(1)]) (simp_all add: auto_sessions_def)
  next
    case False
    then have "full_bit s" using assms(1) by (simp add: registered_def auto_sessions_def)
    then show ?thesis using same by (simp add: registered_def full_bit_def)
  qed
qed

lemma registered_restart_trips:
  assumes "auto_sessions s < 2 ^ 32" "registered s"
  shows "registered (restartTripBatching q d s)"
proof -
  let ?s = "(call_api (stopOutdoorTripBatching True) NoReply s)\<lparr>mOngoingTripDistance := 0, mOngoingTripTBFInterval := 0\<rparr>"
  have "registered ?s" by (rule registered_less[OF assms(2)]) (simp_all add: auto_sessions_def)
  moreover have "auto_sessions ?s < 2 ^ 32" using assms(1) by (simp add: auto_sessions_def)
  ultimately show ?thesis using registered_disable[of ?s True] assms(2)
    by (simp add: restartTripBatching_def Let_def)
qed

lemma registered_replies:
  assumes "registered s"
  shows "registered (restart_query_reply q d i a data s)" "registered (restart_reply a d i err s)"
    "registered (engine_up_reply err s)"
proof -
  show "registered (restart_query_reply q d i a data s)" using assms by (simp add: restart_query_reply_def Let_def)
  show "registered (restart_reply a d i err s)"
    using registered_trips(1)[OF assms, of "map (\<lambda>p. (fst p, restart_trip (count_distance a (snd p)))) (mTripSessions s)"] assms
    by (simp add: restart_reply_def)
  show "registered (engine_up_reply err s)" unfolding engine_up_reply_def
    by (auto intro: registered_less[OF assms] simp: auto_sessions_def)
qed

lemma registered_stop: "registered s \<Longrightarrow> registered (stopBatching client i b options s)"
  by (auto simp: stopBatching_def split: option.splits)

lemma registered_stop_reply:
  assumes "auto_sessions s < 2 ^ 32" "registered s"
  shows "registered (stop_reply client i flp b options LOCATION_ERROR_SUCCESS s)"
proof -
  let ?s = "if batchingMode flp \<noteq> BATCHING_MODE_NO_AUTO_REPORT \<and> autoReportBatchingSessionsCount s = 0
    then updateEvtMask LOC_API_ADAPTER_BIT_BATCH_FULL LOC_REGISTRATION_MASK_DISABLED s else s"
  have "registered ?s" by (rule registered_disable[OF assms])
  moreover have "auto_sessions ?s < 2 ^ 32" using assms(1) by (simp add: auto_sessions_def)
  ultimately show ?thesis by (simp add: stop_reply_def Let_def registered_start_again conj_commute)
qed

text \<open>Stopping a trip may begin with the event off when this trip is the last that wants it.\<close>

lemma registered_stop_trip_common:
  assumes "auto_sessions s < 2 ^ 32" "registered s \<or> auto_sessions s = 1"
    "stopTripBatchingMultiplexCommon err client i b options s = Some s'"
  shows "registered s'"
proof -
  obtain t where t: "map_of (mTripSessions s) i = Some t"
    using assms(3) by (auto simp: stopTripBatchingMultiplexCommon_def split: option.splits)
  let ?ts = "sm_erase i (mTripSessions s)"
  have "length ?ts < length (mTripSessions s)"
    using map_of_SomeD[OF t] unfolding sm_erase_def by (intro length_filter_less) auto
  define f where "f = (note_dropped t s)\<lparr>mTripSessions := ?ts\<rparr>"
  have auto_f: "auto_sessions f < auto_sessions s"
    using \<open>length ?ts < length (mTripSessions s)\<close> by (simp add: f_def auto_sessions_def)
  then have small: "auto_sessions f < 2 ^ 32" using assms(1) less_trans by blast
  have reg_f: "registered f"
    using assms(2) auto_f by (auto simp: registered_def full_bit_def f_def)
  have s: "s' = bt_reportResponse client err i
      (let s = (if length (mTripSessions f) = 0 then f\<lparr>mOngoingTripDistance := 0, mOngoingTripTBFInterval := 0\<rparr>
         else restartTripBatching True 0 f)
       in if b then start_again client i options (eraseBatchingSession client i s) else s)"
    using assms(3) t by (auto simp: stopTripBatchingMultiplexCommon_def f_def Let_def)
  let ?s = "if length (mTripSessions f) = 0 then f\<lparr>mOngoingTripDistance := 0, mOngoingTripTBFInterval := 0\<rparr>
         else restartTripBatching True 0 f"
  have r: "registered ?s"
    using registered_restart_trips[OF small reg_f] registered_trips(1)[OF reg_f order_refl] by simp
  have "auto_sessions ?s \<le> auto_sessions f"
    by (simp add: auto_sessions_def restartTripBatching_def Let_def)
  then have "auto_sessions (eraseBatchingSession client i ?s) < 2 ^ 32"
    using auto_erase[of client i ?s] small by linarith
  then show ?thesis using r registered_start_again[OF _ registered_erase[OF r], of client i client i options]
    unfolding s Let_def by simp
qed

lemma registered_trip_stop_reply:
  assumes "auto_sessions s < 2 ^ 32" "registered s" "trip_stop_reply client i b options err s = Some s'"
  shows "registered s'"
proof -
  let ?s = "if err = LOCATION_ERROR_SUCCESS \<and> autoReportBatchingSessionsCount s = 1
    then updateEvtMask LOC_API_ADAPTER_BIT_BATCH_FULL LOC_REGISTRATION_MASK_DISABLED s else s"
  have same: "auto_sessions ?s = auto_sessions s" by (simp add: auto_sessions_def)
  have "registered ?s \<or> auto_sessions ?s = 1" unfolding same using assms(2) count_small(2)[OF assms(1)] by auto
  moreover have "stopTripBatchingMultiplexCommon err client i b options ?s = Some s'"
    using assms(3) by (simp add: trip_stop_reply_def Let_def)
  ultimately show ?thesis using registered_stop_trip_common[of ?s] assms(1) same by metis
qed

lemma auto_stop_trip:
  assumes "stopTripBatchingMultiplex client i False options s = Some s'"
  shows "auto_sessions s' \<le> auto_sessions s"
  using assms erase_trip_le[of i "mTripSessions s"]
  by (auto simp: stopTripBatchingMultiplex_def stopTripBatchingMultiplexCommon_def Let_def auto_sessions_def
      restartTripBatching_def split: if_splits option.splits)

lemma registered_stop_trip:
  assumes "auto_sessions s < 2 ^ 32" "registered s" "stopTripBatchingMultiplex client i b options s = Some s'"
  shows "registered s'"
  using assms registered_stop_trip_common[OF assms(1), of LOCATION_ERROR_SUCCESS client i b options s']
  by (auto simp: stopTripBatchingMultiplex_def split: if_splits)

lemma registered_stop_sessions:
  "auto_sessions s < 2 ^ 32 \<Longrightarrow> registered s \<Longrightarrow> stop_sessions ks s = Some s' \<Longrightarrow> registered s' \<and> auto_sessions s' \<le> auto_sessions s"
proof (induction ks s rule: stop_sessions.induct)
  case (2 key options ks s)
  obtain s1 where s1: "(if batchingMode options \<noteq> BATCHING_MODE_TRIP
       then Some (stopBatching (session_client key) (session_id key) False default_options s)
       else stopTripBatchingMultiplex (session_client key) (session_id key) False default_options s) = Some s1"
    "stop_sessions ks s1 = Some s'" using "2.prems"(3) by (auto simp: bind_eq_Some_conv)
  have "auto_sessions (stopBatching (session_client key) (session_id key) False default_options s) \<le> auto_sessions s"
    using auto_erase[of "session_client key" "session_id key" s]
    by (auto simp: stopBatching_def auto_sessions_def split: option.splits)
  then have "registered s1" "auto_sessions s1 \<le> auto_sessions s"
    using s1(1) "2.prems" registered_stop registered_stop_trip auto_stop_trip by (auto split: if_splits)
  then show ?case using "2.IH"[OF s1(1)] s1(2) "2.prems"(1) by auto
qed simp

lemma registered_event_mask:
  assumes "auto_sessions s < 2 ^ 32" "mBatchingSessions s' = mBatchingSessions s" "mTripSessions s' = mTripSessions s"
    "mEvtMask s' = bt_event_mask (autoReportBatchingSessionsCount s) cs"
  shows "registered s'"
proof -
  have "full_bit s'" if "autoReportBatchingSessionsCount s > 0"
    using assms(4) that by (simp add: full_bit_def bt_event_mask_def bit.conj_disj_distrib2 LOC_API_ADAPTER_BIT_BATCH_FULL_def
        LOC_API_ADAPTER_BIT_BATCH_STATUS_def)
  then show ?thesis using count_small(3)[OF assms(1)] auto_fields[OF assms(2,3)] by (simp add: registered_def)
qed

lemma registered_restart_sessions:
  assumes "registered s"
  shows "registered (restartSessions s)"
proof -
  have "mEvtMask (restartSessions s) = mEvtMask (if autoReportBatchingSessionsCount s > 0
      then updateEvtMask LOC_API_ADAPTER_BIT_BATCH_FULL LOC_REGISTRATION_MASK_ENABLED s else s)"
    "mBatchingSessions (restartSessions s) = mBatchingSessions s" "mTripSessions (restartSessions s) = mTripSessions s"
    by (simp_all add: restartSessions_def Let_def)
  then show ?thesis using assms full_bit_mask[of s] by (auto simp: registered_def full_bit_def auto_sessions_def)
qed

lemma registered_engine_up:
  assumes "registered s"
  shows "registered (engine_up eng s)"
proof -
  define s1 where "s1 = set_api_sizes (call_back (map (\<lambda>(c, m). CapabilitiesCb c m)
    (broadcastCapabilities (getCapabilities eng (s\<lparr>mIsEngineCapabilitiesKnown := True\<rparr>)) (s\<lparr>mIsEngineCapabilitiesKnown := True\<rparr>)))
    (s\<lparr>mIsEngineCapabilitiesKnown := True\<rparr>))"
  have "registered s1"
    by (rule registered_less[OF assms]) (simp_all add: s1_def set_api_sizes_def auto_sessions_def)
  then have r: "registered (restartSessions s1)" by (rule registered_restart_sessions)
  have "engine_up eng s = (restartSessions s1)\<lparr>adapter_queue := adapter_queue (restartSessions s1) @ mPendingMsgs (restartSessions s1),
      mPendingMsgs := []\<rparr>" by (simp add: engine_up_def s1_def Let_def)
  then show ?thesis using registered_less[OF r] by (simp add: auto_sessions_def)
qed

lemma completed_loop_fields:
  "completed_loop e d ts kept ended s = Some (ids, s') \<Longrightarrow>
   mEvtMask s' = mEvtMask s \<and> mBatchingSessions s' = mBatchingSessions s \<and> length (mTripSessions s') \<le> length kept + length ts"
  by (induction e d ts kept ended s rule: completed_loop.induct)
    (auto simp: Let_def split: if_splits option.splits intro: le_SucI)

lemma registered_completed:
  assumes "auto_sessions s < 2 ^ 32" "registered s" "report_completed e d s = Some s'"
  shows "registered s'"
proof -
  obtain ids s1 where c: "completed_loop e d (mTripSessions s) [] [] s = Some (ids, s1)"
    "s' = (if length ids > 0 then restartTripBatching False d (reportBatchStatusChange BATCHING_STATUS_TRIP_COMPLETED ids s1) else s1)"
    using assms(3) by (auto simp: report_completed_def bind_eq_Some_conv)
  have le: "auto_sessions s1 \<le> auto_sessions s" using completed_loop_fields[OF c(1)] by (simp add: auto_sessions_def)
  then have r: "registered s1" using completed_loop_fields[OF c(1)] by (intro registered_less[OF assms(2)]) auto
  have "auto_sessions (reportBatchStatusChange BATCHING_STATUS_TRIP_COMPLETED ids s1) < 2 ^ 32"
    using le assms(1) by (simp add: reportBatchStatusChange_def auto_sessions_def)
  then show ?thesis using registered_restart_trips[of "reportBatchStatusChange BATCHING_STATUS_TRIP_COMPLETED ids s1"] r c(2)
    by (simp add: reportBatchStatusChange_def)
qed

section \<open>Every reachable state\<close>

text \<open>
  A message that keeps the registration: no failed stop of a session, and no trip that joins a batch
  all of whose trips have ended meanwhile.
\<close>

fun harmless :: "bt_msg \<Rightarrow> bt_state \<Rightarrow> bool" where
  "harmless (Answered (StopReply client i flp b options) err data) s \<longleftrightarrow> err = LOCATION_ERROR_SUCCESS"
| "harmless (Answered (TripQueryReply client i options) err data) s \<longleftrightarrow> (err = LOCATION_ERROR_SUCCESS \<longrightarrow> mTripSessions s \<noteq> [])"
| "harmless msg s \<longleftrightarrow> True"

lemma registered_start_batching:
  "auto_sessions s < 2 ^ 32 \<Longrightarrow> registered s \<Longrightarrow> registered (start_batching eng client i options s)"
  by (simp add: start_batching_def Let_def registered_start registered_start_trip)

lemma registered_answered:
  assumes "auto_sessions s < 2 ^ 32" "registered s" "harmless (Answered k err data) s" "bt_answered k err data s = Some s'"
  shows "registered s'"
  using assms
  by (cases k) (auto simp: registered_start_reply registered_stop_reply registered_trip_start_reply
      registered_trip_query_reply registered_replies intro: registered_trip_stop_reply)

lemma registered_remove_client:
  assumes "auto_sessions s < 2 ^ 32" "registered s" "bt_proc e (MsgRemoveClient client cb) s = Some s'"
  shows "registered s'"
proof -
  obtain s1 where s1: "bt_stopClientSessions client s = Some s1" using assms(3) by (auto simp: bind_eq_Some_conv)
  let ?s = "eraseClient (bt_event_mask (autoReportBatchingSessionsCount s1)) client s1"
  have "auto_sessions s1 < 2 ^ 32"
    using registered_stop_sessions[OF assms(1,2)] s1 assms(1) unfolding bt_stopClientSessions_def by (meson le_less_trans)
  then have "registered ?s" by (rule registered_event_mask) (simp_all add: eraseClient_def Let_def)
  then show ?thesis using assms(3) s1 by (auto simp: Let_def)
qed

lemma registered_proc:
  assumes "auto_sessions s < 2 ^ 32" "registered s" "harmless msg s" "bt_proc e msg s = Some s'"
  shows "registered s'"
proof (cases msg)
  case (MsgAddClient client callbacks)
  then show ?thesis using assms(4) registered_event_mask[OF assms(1)] by (auto simp: saveClient_def Let_def)
next
  case (MsgRemoveClient client cb)
  then show ?thesis using registered_remove_client assms by blast
next
  case MsgReadConfig
  then obtain x y z w where "s' = s\<lparr>mBatchSize := x, mTripBatchSize := y, mBatchingTimeout := z, mBatchingAccuracy := w\<rparr>"
    using assms(4) by (auto simp: read_config_def bind_eq_Some_conv)
  then show ?thesis using registered_less[OF assms(2)] by (simp add: auto_sessions_def)
next
  case MsgSetConfig
  then show ?thesis using assms registered_less[OF assms(2)] by (auto simp: set_api_sizes_def auto_sessions_def)
next
  case (MsgUpdateBatching client i options)
  then show ?thesis using assms registered_stop registered_stop_trip
    by (auto simp: update_batching_def Let_def split: if_splits)
next
  case (MsgStopBatching client i)
  then show ?thesis using assms registered_stop registered_stop_trip
    by (auto simp: stop_batching_def split: if_splits)
next
  case (Answered k err data)
  then show ?thesis using registered_answered assms by auto
next
  case (MsgRequestCapabilities client)
  then show ?thesis using assms(2,4) by (auto split: if_splits)
next
  case MsgSSREvent
  then show ?thesis using assms(2,4) registered_engine_up by auto
next
  case (MsgStartBatching client i options)
  then show ?thesis using assms registered_start_batching by (auto split: if_splits)
next
  case (MsgGetBatchedLocations client i count)
  then show ?thesis using assms(2,4) by (auto simp: get_batched_locations_def Let_def split: if_splits)
next
  case (MsgReportLocations locations mode)
  then show ?thesis using assms(2,4) by (auto simp: reportLocations_def)
next
  case (MsgReportCompletedTrips distance)
  then show ?thesis using assms registered_completed by auto
next
  case (MsgReportBatchStatus status)
  then show ?thesis using assms(2,4) by (auto simp: reportBatchStatusChange_def)
qed

inductive bt_reach :: "bt_env \<Rightarrow> bt_state \<Rightarrow> bool" for e where
  created: "bt_reach e new_batching"
| stepped: "bt_reach e s \<Longrightarrow> few s \<Longrightarrow> (\<forall>msg ms. k = AdapterStep \<longrightarrow> adapter_queue s = msg # ms \<longrightarrow> harmless msg s) \<Longrightarrow>
    bt_step e k s = Some s' \<Longrightarrow> bt_reach e s'"

lemma harmless_fields: "mTripSessions t = mTripSessions s \<Longrightarrow> harmless msg t = harmless msg s"
  by (cases "(msg, s)" rule: harmless.cases) auto

text \<open>
  C34. As long as no stop fails and no trip joins a batch that has ended, the adapter is registered for
  full batches whenever a session wants them reported.
\<close>

theorem batch_full_registered:
  assumes "bt_reach e s" "auto_sessions s \<noteq> 0"
  shows "mEvtMask s AND LOC_API_ADAPTER_BIT_BATCH_FULL \<noteq> 0"
proof -
  have "registered s" using assms(1)
  proof induction
    case created
    show ?case by (simp add: registered_def auto_sessions_def new_batching_def setConfigCommand_def readConfigCommand_def bt_send_def)
  next
    case (stepped s k s')
    have small: "auto_sessions s < 2 ^ 32" using few_auto[OF stepped.hyps(2)] by simp
    show ?case
    proof (cases k)
      case AdapterStep
      show ?thesis
      proof (cases "adapter_queue s")
        case Nil
        then show ?thesis using stepped AdapterStep by (simp add: bt_step_def)
      next
        case (Cons msg ms)
        let ?s = "s\<lparr>adapter_queue := ms\<rparr>"
        have same: "auto_sessions ?s = auto_sessions s" by (simp add: auto_sessions_def)
        moreover have "registered ?s" using stepped.IH same by (simp add: registered_def full_bit_def)
        moreover have "harmless msg ?s" using stepped.hyps(3) Cons AdapterStep harmless_fields[of ?s s msg] by simp
        moreover have "bt_proc e msg ?s = Some s'" using stepped.hyps(4) Cons AdapterStep by (simp add: bt_step_def)
        ultimately show ?thesis using registered_proc[of ?s] small by simp
      qed
    next
      case (ApiStep err data)
      have "registered (s\<lparr>api_queue := x\<rparr>)" for x
        by (rule registered_less[OF stepped.IH]) (simp_all add: auto_sessions_def)
      then show ?thesis using stepped ApiStep by (auto simp: bt_step_def split: list.splits)
    next
      case (Command msg)
      then show ?thesis using stepped by (auto simp: bt_step_def)
    qed
  qed
  then show ?thesis using assms(2) by (simp add: registered_def full_bit_def)
qed

section \<open>Completed trips\<close>

text \<open>
  What a trip has covered when the modem counts \<open>d\<close> in its batch: what it had covered when the batch was
  started again, and what the batch has counted since the trip joined it, in 32-bit arithmetic.
\<close>

definition covered :: "u32 \<Rightarrow> TripSessionStatus \<Rightarrow> u32" where
  "covered d t = accumulatedDistanceOnTripRestart t + (d - accumulatedDistanceOngoingBatch t)"

definition ends_at :: "u32 \<Rightarrow> u32 \<times> TripSessionStatus \<Rightarrow> bool" where
  "ends_at distance p \<longleftrightarrow> tripDistance (snd p) \<le> covered distance (snd p)"

lemma count_covered: "count_distance d t = t\<lparr>accumulatedDistanceThisTrip := covered d t\<rparr>"
  by (simp add: count_distance_def covered_def)

definition ended_trips :: "u32 \<Rightarrow> bt_state \<Rightarrow> u32 list" where
  "ended_trips d s = map fst (filter (ends_at d) (mTripSessions s))"

lemma completed_loop_run:
  "(\<forall>t. erased t \<noteq> None) \<or> (\<forall>p\<in>set ts. \<not> ends_at d p) \<Longrightarrow>
   \<exists>s'. completed_loop erased d ts kept ended s = Some (ended @ map fst (filter (ends_at d) ts), s') \<and>
     mTripSessions s' = kept @ map (\<lambda>p. (fst p, count_distance d (snd p))) (filter (\<lambda>p. \<not> ends_at d p) ts) \<and>
     mClientData s' = mClientData s \<and> callbacks_made s' = callbacks_made s"
proof (induction ts arbitrary: kept ended s)
  case (Cons p ts)
  obtain i t where p: "p = (i, t)" by (cases p)
  have td: "tripDistance (count_distance d t) = tripDistance t" "accumulatedDistanceThisTrip (count_distance d t) = covered d t"
    by (simp_all add: count_covered)
  have ts: "(\<forall>t. erased t \<noteq> None) \<or> (\<forall>p\<in>set ts. \<not> ends_at d p)" using Cons.prems by auto
  show ?case
  proof (cases "ends_at d p")
    case True
    with Cons.prems obtain t' where "erased (count_distance d t) = Some t'" by fastforce
    with True show ?thesis using Cons.IH[OF ts, of kept "ended @ [i]" "note_dropped t' s"]
      by (auto simp: p ends_at_def td note_dropped_def Let_def)
  next
    case False
    then show ?thesis using Cons.IH[OF ts, of "kept @ [(i, count_distance d t)]" ended s] by (auto simp: p ends_at_def td)
  qed
qed simp

lemma completed_loop_freed:
  "completed_loop (\<lambda>_. None) d ts kept ended s = None \<longleftrightarrow> filter (ends_at d) ts \<noteq> []"
  by (induction ts arbitrary: kept) (auto simp: ends_at_def count_covered simp del: not_None_eq)

lemma restart_keeps [simp]:
  "mTripSessions (restartTripBatching q d s) = mTripSessions s" "callbacks_made (restartTripBatching q d s) = callbacks_made s"
proof -
  have "callbacks_made (call_api c k s) = callbacks_made s" "callbacks_made (updateEvtMask b st s) = callbacks_made s" for c k b st s
    by (cases st; simp add: call_api_def updateEvtMask_def)+
  then show "callbacks_made (restartTripBatching q d s) = callbacks_made s" by (simp add: restartTripBatching_def Let_def)
qed (simp add: restartTripBatching_def Let_def)

text \<open>
  C6. When the modem reports the distance \<open>d\<close>, a trip is complete if its distance is at most what it had
  covered when the batch was last started again plus what the batch has counted since the trip joined it.
  Every complete trip is taken from the table, and the identifiers of the complete trips, in the order of the
  table, are reported to every client with a status callback, in one call each; nobody is called when no trip
  is complete. Every other trip stays, with the distance it has covered. The code reads a trip it has just
  erased: the claim holds whatever values the erased memory gives, or when no trip is complete; where such a
  read is undefined, the report is undefined exactly when a trip is complete. And starting the batch again
  loses nothing: whatever a new batch counts is added to what each trip had covered.
\<close>

theorem completed_trips_reported:
  assumes "(\<forall>t. erased t \<noteq> None) \<or> (\<forall>(i, t)\<in>set (mTripSessions s).
      \<not> tripDistance t \<le> accumulatedDistanceOnTripRestart t + (d - accumulatedDistanceOngoingBatch t))"
  shows "(\<exists>s'. report_completed erased d s = Some s' \<and>
      mTripSessions s' =
        map (\<lambda>(i, t). (i, t\<lparr>accumulatedDistanceThisTrip := accumulatedDistanceOnTripRestart t + (d - accumulatedDistanceOngoingBatch t)\<rparr>))
          (filter (\<lambda>(i, t). \<not> tripDistance t \<le> accumulatedDistanceOnTripRestart t + (d - accumulatedDistanceOngoingBatch t))
            (mTripSessions s)) \<and>
      (let ended = map fst (filter (\<lambda>(i, t). tripDistance t \<le> accumulatedDistanceOnTripRestart t + (d - accumulatedDistanceOngoingBatch t))
             (mTripSessions s))
       in (report_completed (\<lambda>_. None) d s = None \<longleftrightarrow> ended \<noteq> []) \<and>
        callbacks_made s' = callbacks_made s @
        (if ended = [] then []
         else map (\<lambda>p. BatchingStatusCb (fst p) BATCHING_STATUS_TRIP_COMPLETED ended)
           (filter (\<lambda>p. batchingStatusCb (snd p)) (mClientData s))))) \<and>
    (\<forall>d' i t'. (i, t') \<in> set (mTripSessions (restart_reply d x y LOCATION_ERROR_SUCCESS s)) \<longrightarrow>
      (\<exists>t. (i, t) \<in> set (mTripSessions s) \<and> tripDistance t' = tripDistance t \<and>
         accumulatedDistanceOnTripRestart t' + (d' - accumulatedDistanceOngoingBatch t') =
         accumulatedDistanceOnTripRestart t + (d - accumulatedDistanceOngoingBatch t) + d'))"
    (is "(\<exists>s'. ?report s') \<and> _")
proof
  have none: "(\<forall>t. erased t \<noteq> None) \<or> (\<forall>p\<in>set (mTripSessions s). \<not> ends_at d p)"
    using assms by (auto simp: ends_at_def covered_def)
  obtain s1 where c: "completed_loop erased d (mTripSessions s) [] [] s = Some (ended_trips d s, s1)"
    "mTripSessions s1 = map (\<lambda>p. (fst p, count_distance d (snd p))) (filter (\<lambda>p. \<not> ends_at d p) (mTripSessions s))"
    "mClientData s1 = mClientData s" "callbacks_made s1 = callbacks_made s"
    using completed_loop_run[OF none, of "[]" "[]" s] by (auto simp: ended_trips_def)
  have f: "(\<lambda>(i :: u32, t). tripDistance t \<le> accumulatedDistanceOnTripRestart t + (d - accumulatedDistanceOngoingBatch t)) = ends_at d"
    "(\<lambda>(i :: u32, t). \<not> tripDistance t \<le> accumulatedDistanceOnTripRestart t + (d - accumulatedDistanceOngoingBatch t)) = (\<lambda>p. \<not> ends_at d p)"
    "(\<lambda>(i :: u32, t). (i, t\<lparr>accumulatedDistanceThisTrip := accumulatedDistanceOnTripRestart t + (d - accumulatedDistanceOngoingBatch t)\<rparr>)) =
      (\<lambda>p. (fst p, count_distance d (snd p)))"
    by (auto simp: fun_eq_iff ends_at_def covered_def count_distance_def)
  have u: "report_completed (\<lambda>_. None) d s = None \<longleftrightarrow> ended_trips d s \<noteq> []"
    using completed_loop_freed[of d "mTripSessions s" "[]" "[]" s]
    by (auto simp: report_completed_def ended_trips_def bind_eq_None_conv split: prod.splits)
  show "\<exists>s'. ?report s'"
    unfolding f Let_def ended_trips_def [symmetric]
    using c u by (auto simp: report_completed_def reportBatchStatusChange_def call_back_def)
qed (auto simp: restart_reply_def restart_trip_def count_distance_def algebra_simps)

text \<open>Two trips and a report that completes one of them.\<close>

definition two_trips :: bt_state where
  "two_trips = new_batching\<lparr>mClientData := [(7, no_callbacks\<lparr>batchingStatusCb := True\<rparr>)],
     mTripSessions := [(1, \<lparr>accumulatedDistanceOngoingBatch = 100, accumulatedDistanceThisTrip = 0, accumulatedDistanceOnTripRestart = 50,
                            tripDistance = 300, tripTBFInterval = 1000\<rparr>),
                       (2, \<lparr>accumulatedDistanceOngoingBatch = 0, accumulatedDistanceThisTrip = 0, accumulatedDistanceOnTripRestart = 50,
                            tripDistance = 500, tripTBFInterval = 1000\<rparr>)]\<rparr>"

theorem completed_trips_reported_witness:
  "\<exists>s'. report_completed (\<lambda>t. Some (t\<lparr>tripDistance := 0\<rparr>)) 350 two_trips = Some s' \<and>
     map (\<lambda>(i, t). (i, accumulatedDistanceThisTrip t)) (mTripSessions s') = [(2, 400)] \<and>
     callbacks_made s' = callbacks_made two_trips @ [BatchingStatusCb 7 BATCHING_STATUS_TRIP_COMPLETED [1]]"
  using completed_trips_reported [of "\<lambda>t. Some (t\<lparr>tripDistance := 0\<rparr>)" two_trips 350 0 0] by (auto simp: two_trips_def no_callbacks_def)

section \<open>Trips that are not in both tables\<close>

text \<open>A trip that ends stays in the table of sessions; the client can then not be removed.\<close>

lemma stop_ended_trip:
  "mTripSessions s = [] \<Longrightarrow> (key, options) \<in> set ks \<Longrightarrow> batchingMode options = BATCHING_MODE_TRIP \<Longrightarrow> stop_sessions ks s = None"
proof (induction ks s rule: stop_sessions.induct)
  case (2 key' options' ks s)
  have "mTripSessions (stopBatching c i b o' s) = []" for c i b o'
    using "2.prems"(1) by (simp add: stopBatching_def split: option.splits)
  then show ?case using 2 by (auto simp: stopTripBatchingMultiplex_def stopTripBatchingMultiplexCommon_def)
qed simp

lemma remove_after_trip:
  assumes "mTripSessions s = []" "map_of (mBatchingSessions s) (LocationSessionKey client i) = Some options"
    "batchingMode options = BATCHING_MODE_TRIP"
  shows "bt_proc e (MsgRemoveClient client cb) s = None"
proof -
  have "(LocationSessionKey client i, options) \<in> set (filter (\<lambda>p. session_client (fst p) = client) (mBatchingSessions s))"
    using map_of_SomeD[OF assms(2)] by simp
  from stop_ended_trip[OF assms(1) this assms(3)] show ?thesis by (simp add: bt_stopClientSessions_def)
qed

lemma send_process:
  assumes "adapter_queue s = []"
  shows "bt_run e (Command msg # AdapterStep # ks) s = Option.bind (bt_proc e msg s) (bt_run e ks)"
proof -
  have "(bt_send msg s)\<lparr>adapter_queue := []\<rparr> = s" "adapter_queue (bt_send msg s) = [msg]"
    using assms by (simp_all add: bt_send_def)
  then show ?thesis by (simp add: bt_step_def)
qed

lemma call_process:
  assumes "adapter_queue s = []" "api_queue s = []"
  shows "bt_run e (ApiStep err data # AdapterStep # ks) (call_api c r s) = Option.bind (bt_answered r err data s) (bt_run e ks)"
proof -
  have "(bt_send (Answered r err data) (s\<lparr>api_queue := []\<rparr>))\<lparr>adapter_queue := []\<rparr> = s"
    "adapter_queue (bt_send (Answered r err data) (s\<lparr>api_queue := []\<rparr>)) = [Answered r err data]"
    using assms by (simp_all add: bt_send_def)
  moreover have "(call_api c r s)\<lparr>api_queue := []\<rparr> = s\<lparr>api_queue := []\<rparr>" "api_queue (call_api c r s) = [(c, r)]"
    using assms by (simp_all add: call_api_def)
  ultimately show ?thesis by (simp add: bt_step_def)
qed

text \<open>
  C13. The only trip of a client is stopped, or completed, and then the client is removed: the removal
  stops the trip a second time, looks it up in the table of trips, and follows the end of the map.
\<close>

theorem removal_after_trip_undefined:
  assumes "mTripSessions s = [(i, t)]" "map_of (mBatchingSessions s) (LocationSessionKey client i) = Some options"
    "batchingMode options = BATCHING_MODE_TRIP" "mIsEngineCapabilitiesKnown s" "adapter_queue s = []" "api_queue s = []"
  shows "bt_run e [Command (MsgStopBatching client i), AdapterStep, ApiStep LOCATION_ERROR_SUCCESS data, AdapterStep,
      Command (MsgRemoveClient client cb), AdapterStep] s = None \<and>
    (ends_at d (i, t) \<longrightarrow> bt_run e [Command (MsgReportCompletedTrips d), AdapterStep, Command (MsgRemoveClient client cb), AdapterStep] s = None)"
proof -
  have trip: "isTripSession i s" "isBatchingSession client i s" using assms(1,2) by (simp_all add: isTripSession_def isBatchingSession_def)
  have stop: "bt_proc e (MsgStopBatching client i) s =
      Some (call_api (stopOutdoorTripBatching True) (TripStopReply client i False default_options) s)"
    using trip assms(1,4) by (simp add: stop_batching_def stopTripBatchingMultiplex_def)
  obtain s1 where s1: "bt_answered (TripStopReply client i False default_options) LOCATION_ERROR_SUCCESS data s = Some s1"
    "mTripSessions s1 = []" "mBatchingSessions s1 = mBatchingSessions s" "adapter_queue s1 = []"
    using assms(1,5) by (auto simp: trip_stop_reply_def stopTripBatchingMultiplexCommon_def sm_erase_def Let_def
        bt_reportResponse_def call_back_def note_dropped_def updateEvtMask_def split: option.splits)
  have "bt_run e [Command (MsgStopBatching client i), AdapterStep, ApiStep LOCATION_ERROR_SUCCESS data, AdapterStep,
      Command (MsgRemoveClient client cb), AdapterStep] s = bt_run e [Command (MsgRemoveClient client cb), AdapterStep] s1"
    using send_process[OF assms(5)] call_process[OF assms(5,6)] stop s1(1) by simp
  moreover have "bt_proc e (MsgRemoveClient client cb) s1 = None" using remove_after_trip[of s1] s1 assms(2,3) by simp
  moreover have "bt_run e [Command (MsgReportCompletedTrips d), AdapterStep, Command (MsgRemoveClient client cb), AdapterStep] s = None"
    if stop_at: "ends_at d (i, t)"
  proof -
    have end_it: "tripDistance t \<le> accumulatedDistanceThisTrip (count_distance d t)" "tripDistance (count_distance d t) = tripDistance t"
      using stop_at by (simp_all add: ends_at_def count_covered)
    show ?thesis
    proof (cases "erased_trip e (count_distance d t)")
      case (Some t')
      with end_it obtain s2 where s2: "report_completed (erased_trip e) d s = Some s2" "mTripSessions s2 = []"
        "mBatchingSessions s2 = mBatchingSessions s" "adapter_queue s2 = []"
        using assms(1,5) by (auto simp: report_completed_def restartTripBatching_def reportBatchStatusChange_def call_back_def
            call_api_def note_dropped_def updateEvtMask_def Let_def)
      then have "bt_proc e (MsgRemoveClient client cb) s2 = None" using remove_after_trip[of s2] assms(2,3) by simp
      then show ?thesis using send_process[OF assms(5)] send_process[OF s2(4)] s2(1) by simp
    next
      case None
      with end_it have "report_completed (erased_trip e) d s = None" using assms(1) by (simp add: report_completed_def)
      then show ?thesis using send_process[OF assms(5)] by simp
    qed
  qed
  ultimately show ?thesis using send_process[OF s1(4)] by simp
qed

text \<open>
  A trip that joins another one is never entered in the table of sessions: it is started and answered
  with success, but a command to stop it does nothing and is not answered.
\<close>

theorem joining_trip_unstoppable:
  assumes "mTripSessions s \<noteq> []" "smap_ok (mTripSessions s)" "\<not> isBatchingSession client i s" "mIsEngineCapabilitiesKnown s"
    "hasBatchingCallback client s" "opt_size options \<noteq> 0" "isMessageSupported (engine e) DISTANCE_BASE_LOCATION_BATCHING"
    "batchingMode options = BATCHING_MODE_TRIP" "adapter_queue s = []" "api_queue s = []"
  shows "\<exists>s'. bt_run e [Command (MsgStartBatching client i options), AdapterStep, ApiStep LOCATION_ERROR_SUCCESS data, AdapterStep] s = Some s'
    \<and> isTripSession i s' \<and> bt_proc e (MsgStopBatching client i) s' = Some s'"
proof -
  let ?r = "TripQueryReply client i options"
  have start: "bt_proc e (MsgStartBatching client i options) s = Some (call_api queryAccumulatedTripDistance ?r s)"
    using assms by (simp add: start_batching_def startTripBatchingMultiplex_def mode_defs)
  define s' where "s' = trip_query_reply client i options LOCATION_ERROR_SUCCESS data s"
  have run: "bt_run e [Command (MsgStartBatching client i options), AdapterStep, ApiStep LOCATION_ERROR_SUCCESS data, AdapterStep] s = Some s'"
    using send_process[OF assms(9)] call_process[OF assms(9,10)] start by (simp add: s'_def)
  have "map_of (sm_put i (new_trip (accumulatedDistance data) options) (mTripSessions s)) i \<noteq> None"
    using map_of_sm_put[OF assms(2)] by simp
  moreover have "map_of (map (\<lambda>p. (fst p, f (snd p))) ts) k = map_option f (map_of ts k)" for f :: "TripSessionStatus \<Rightarrow> TripSessionStatus" and ts and k :: u32
    by (induction ts) auto
  ultimately have "isTripSession i s'" by (auto simp: s'_def isTripSession_def trip_query_reply_def Let_def)
  moreover have "mBatchingSessions s' = mBatchingSessions s" "mIsEngineCapabilitiesKnown s'"
    using assms(4) by (auto simp: s'_def trip_query_reply_def Let_def bt_reportResponse_def call_back_def call_api_def split: option.splits)
  then have "bt_proc e (MsgStopBatching client i) s' = Some s'"
    using assms(3) by (simp add: stop_batching_def isBatchingSession_def)
  ultimately show ?thesis using run by blast
qed

text \<open>
  C23. The batch is also started again when a trip joins the others and asks for a shorter distance or
  interval, and there distance is lost: the code means to record the total distance so far of every trip, but
  records the distance of the last report. Take an idle adapter with a trip \<open>t\<close> in its table, and a client
  that starts another trip; the modem answers that its batch has counted \<open>a\<close>, and the new trip makes the
  batch start again. Whatever the new batch counts, \<open>t\<close> is then credited with the distance of its last report
  and the new count; the other restart of the batch (\<open>restart_reply\<close>) records what \<open>t\<close> has covered with the \<open>a\<close> of
  this batch.
\<close>

theorem joining_restart_loses_distance:
  assumes "map_of (mTripSessions s) k = Some t" "k \<noteq> i" "smap_ok (mTripSessions s)" "mIsEngineCapabilitiesKnown s"
    "hasBatchingCallback client s" "opt_size options \<noteq> 0" "isMessageSupported (engine e) DISTANCE_BASE_LOCATION_BATCHING"
    "batchingMode options = BATCHING_MODE_TRIP" "adapter_queue s = []" "api_queue s = []"
    "minDistance options < mOngoingTripDistance s - accumulatedDistance data \<or> minInterval options < mOngoingTripTBFInterval s"
  shows "\<exists>s' t'. bt_run e [Command (MsgStartBatching client i options), AdapterStep, ApiStep LOCATION_ERROR_SUCCESS data, AdapterStep] s = Some s' \<and>
    map_of (mTripSessions s') k = Some t' \<and> tripDistance t' = tripDistance t \<and>
    (\<forall>n. covered n t' = accumulatedDistanceThisTrip t + n) \<and>
    (\<forall>n. covered n (restart_trip (count_distance (accumulatedDistance data) t)) = covered (accumulatedDistance data) t + n)"
proof -
  let ?r = "TripQueryReply client i options"
  have start: "bt_proc e (MsgStartBatching client i options) s = Some (call_api queryAccumulatedTripDistance ?r s)"
    using assms by (auto simp: start_batching_def startTripBatchingMultiplex_def mode_defs)
  define s' where "s' = trip_query_reply client i options LOCATION_ERROR_SUCCESS data s"
  have run: "bt_run e [Command (MsgStartBatching client i options), AdapterStep, ApiStep LOCATION_ERROR_SUCCESS data, AdapterStep] s = Some s'"
    using send_process[OF assms(9)] call_process[OF assms(9,10)] start by (simp add: s'_def)
  have m: "map_of (map (\<lambda>p. (fst p, f (snd p))) ts) k = map_option f (map_of ts k)" for f :: "TripSessionStatus \<Rightarrow> TripSessionStatus" and ts and k :: u32
    by (induction ts) auto
  have "map_of (mTripSessions s') k = Some (restart_trip t)"
    using assms(1,2,11) map_of_sm_put[OF assms(3)] by (auto simp: s'_def trip_query_reply_def Let_def m)
  moreover have "\<forall>n. covered n (restart_trip t) = accumulatedDistanceThisTrip t + n" "tripDistance (restart_trip t) = tripDistance t"
    "\<forall>n. covered n (restart_trip (count_distance (accumulatedDistance data) t)) = covered (accumulatedDistance data) t + n"
    by (simp_all add: covered_def restart_trip_def count_distance_def)
  ultimately show ?thesis using run by blast
qed

text \<open>A stop that fails puts default options in place of those of the session.\<close>

lemma failed_stop_replaces_options:
  assumes "smap_ok (mBatchingSessions s)" "err \<noteq> LOCATION_ERROR_SUCCESS"
  shows "map_of (mBatchingSessions (stop_reply client i flp False default_options err s)) (LocationSessionKey client i) = Some default_options"
  using assms map_of_sm_put[OF assms(1)] by (simp add: stop_reply_def saveBatchingSession_def)

section \<open>Witnesses\<close>

definition trip_options :: BatchingOptions where
  "trip_options = default_options\<lparr>opt_size := 24, minInterval := 1000, minDistance := 500, batchingMode := BATCHING_MODE_TRIP\<rparr>"

definition trip_state :: bt_state where
  "trip_state = new_batching\<lparr>mClientData := [(7, no_callbacks\<lparr>batchingCb := True, responseCb := True\<rparr>)], mIsEngineCapabilitiesKnown := True,
     mBatchingSessions := [(LocationSessionKey 7 1, trip_options)], mTripSessions := [(1, new_trip 0 trip_options)],
     mOngoingTripDistance := 500, mOngoingTripTBFInterval := 1000, mEvtMask := LOC_API_ADAPTER_BIT_BATCH_FULL, adapter_queue := []\<rparr>"

definition sample_env :: bt_env where
  "sample_env = \<lparr>engine = \<lparr>isMessageSupported = (\<lambda>_. True), isFeatureSupported = (\<lambda>_. True), gnssConstellationConfig = True,
     getCarrierCapabilities = 0\<rparr>, flp_conf_file = None, erased_trip = Some\<rparr>"

lemma trip_state_facts:
  "mTripSessions trip_state = [(1, new_trip 0 trip_options)]"
  "mBatchingSessions trip_state = [(LocationSessionKey 7 1, trip_options)]"
  "batchingMode trip_options = BATCHING_MODE_TRIP" "opt_size trip_options \<noteq> 0" "mIsEngineCapabilitiesKnown trip_state"
  "adapter_queue trip_state = []" "api_queue trip_state = []" "hasBatchingCallback 7 trip_state"
  by (simp_all add: trip_state_def trip_options_def new_batching_def setConfigCommand_def readConfigCommand_def bt_send_def
      hasBatchingCallback_def no_callbacks_def)

theorem removal_after_trip_undefined_witness:
  "bt_run sample_env [Command (MsgStopBatching 7 1), AdapterStep, ApiStep LOCATION_ERROR_SUCCESS \<lparr>accumulatedDistance = 0, numOfBatchedPositions = 0\<rparr>,
     AdapterStep, Command (MsgRemoveClient 7 True), AdapterStep] trip_state = None"
  using removal_after_trip_undefined[of trip_state 1 "new_trip 0 trip_options" 7 trip_options sample_env _ True]
    trip_state_facts by simp

text \<open>A trip of 500 that has covered 100 when a trip of 200 joins it: a report of 450 in the new batch does not complete it.\<close>

definition short_trip :: BatchingOptions where
  "short_trip = trip_options\<lparr>minDistance := 200\<rparr>"

theorem joining_restart_loses_distance_witness:
  "\<exists>s' t'. bt_run sample_env [Command (MsgStartBatching 7 2 short_trip), AdapterStep,
     ApiStep LOCATION_ERROR_SUCCESS \<lparr>accumulatedDistance = 100, numOfBatchedPositions = 3\<rparr>, AdapterStep] trip_state = Some s' \<and>
     map_of (mTripSessions s') 1 = Some t' \<and> tripDistance t' = 500 \<and> covered 450 t' = 450 \<and> \<not> ends_at 450 (1, t')"
proof -
  have t: "map_of (mTripSessions trip_state) 1 = Some (new_trip 0 trip_options)" by (simp add: trip_state_facts)
  have "\<exists>s' t'. bt_run sample_env [Command (MsgStartBatching 7 2 short_trip), AdapterStep,
     ApiStep LOCATION_ERROR_SUCCESS \<lparr>accumulatedDistance = 100, numOfBatchedPositions = 3\<rparr>, AdapterStep] trip_state = Some s' \<and>
     map_of (mTripSessions s') 1 = Some t' \<and> tripDistance t' = tripDistance (new_trip 0 trip_options) \<and>
     (\<forall>n. covered n t' = accumulatedDistanceThisTrip (new_trip 0 trip_options) + n) \<and>
     (\<forall>n. covered n (restart_trip (count_distance (accumulatedDistance \<lparr>accumulatedDistance = 100, numOfBatchedPositions = 3\<rparr>) (new_trip 0 trip_options))) =
       covered (accumulatedDistance \<lparr>accumulatedDistance = 100, numOfBatchedPositions = 3\<rparr>) (new_trip 0 trip_options) + n)"
    by (rule joining_restart_loses_distance [OF t])
       (use trip_state_facts in \<open>simp_all add: short_trip_def smap_ok_def sample_env_def, simp_all add: trip_state_def trip_options_def\<close>)
  then obtain s' t' where s': "bt_run sample_env [Command (MsgStartBatching 7 2 short_trip), AdapterStep,
     ApiStep LOCATION_ERROR_SUCCESS \<lparr>accumulatedDistance = 100, numOfBatchedPositions = 3\<rparr>, AdapterStep] trip_state = Some s'"
    "map_of (mTripSessions s') 1 = Some t'" "tripDistance t' = 500" "covered 450 t' = 450"
    by (auto simp: new_trip_def trip_options_def)
  then show ?thesis by (intro exI [of _ s'] exI [of _ t']) (simp add: ends_at_def)
qed

theorem joining_trip_unstoppable_witness:
  "\<exists>s'. bt_run sample_env [Command (MsgStartBatching 7 2 trip_options), AdapterStep,
     ApiStep LOCATION_ERROR_SUCCESS \<lparr>accumulatedDistance = 100, numOfBatchedPositions = 3\<rparr>, AdapterStep] trip_state = Some s'
    \<and> isTripSession 2 s' \<and> bt_proc sample_env (MsgStopBatching 7 2) s' = Some s'"
  using joining_trip_unstoppable[of trip_state 7 2 trip_options sample_env] trip_state_facts
  by (simp add: isBatchingSession_def smap_ok_def sample_env_def)

text \<open>A run whose steps are all admitted.\<close>

fun ok_run :: "bt_env \<Rightarrow> bt_step_kind list \<Rightarrow> bt_state \<Rightarrow> bool" where
  "ok_run e [] s \<longleftrightarrow> True"
| "ok_run e (k # ks) s \<longleftrightarrow> few s \<and> (k = AdapterStep \<longrightarrow> (case adapter_queue s of [] \<Rightarrow> True | msg # ms \<Rightarrow> harmless msg s)) \<and>
     (case bt_step e k s of None \<Rightarrow> False | Some s' \<Rightarrow> ok_run e ks s')"

lemma reach_run: "bt_reach e s \<Longrightarrow> ok_run e ks s \<Longrightarrow> \<exists>s'. bt_run e ks s = Some s' \<and> bt_reach e s'"
proof (induction ks arbitrary: s)
  case (Cons k ks)
  then obtain s1 where s1: "bt_step e k s = Some s1" "ok_run e ks s1" by (auto split: option.splits)
  then have "bt_reach e s1" using Cons.prems by (intro bt_reach.stepped[OF Cons.prems(1) _ _ s1(1)]) auto
  then show ?case using Cons.IH s1 by auto
qed auto

definition sample_run :: "bt_step_kind list" where
  "sample_run = [AdapterStep, AdapterStep, Command (MsgAddClient 7 (no_callbacks\<lparr>batchingCb := True\<rparr>)), AdapterStep,
     Command MsgSSREvent, AdapterStep, Command (MsgStartBatching 7 1 (default_options\<lparr>opt_size := 24\<rparr>)), AdapterStep]"

text \<open>A client is added and starts a session once the modem is up.\<close>

theorem batch_full_registered_witness:
  "\<exists>s. bt_reach sample_env s \<and> auto_sessions s = 1 \<and> mEvtMask s AND LOC_API_ADAPTER_BIT_BATCH_FULL \<noteq> 0"
proof -
  have "ok_run sample_env sample_run new_batching" by code_simp
  then obtain s where s: "bt_run sample_env sample_run new_batching = Some s" "bt_reach sample_env s"
    using reach_run[OF bt_reach.created] by blast
  have "map_option auto_sessions (bt_run sample_env sample_run new_batching) = Some 1" by code_simp
  then have "auto_sessions s = 1" using s(1) by simp
  then show ?thesis using batch_full_registered[OF s(2)] s(2) by auto
qed

end
