(* ===== verification/Ntrip.thy ===== *)
theory Ntrip
  imports CfgText
begin

unbundle bit_operations_syntax

text \<open>
  The source of differential corrections (\<open>gps/gnss/GnssAdapter.cpp\<close>, \<open>handleEnablePPENtrip\<close> to
  \<open>reportGGAToNtrip\<close>; \<open>gps/gnss/XtraSystemStatusObserver.cpp\<close>, \<open>startDgnssSource\<close> to
  \<open>updateNmeaToDgnssServer\<close>). While a tracking session runs and the stream is enabled, the XTRA
  service is told to connect to the caster; a caster that needs the position is connected once a GGA
  sentence with a fix has been seen, and is told the position every ten minutes.

  Whether a session runs and the time since boot are arguments. \<open>sent\<close> is what the XTRA service was sent.
  An exception of the C++ library that nothing catches is \<open>None\<close>.
\<close>

section \<open>State\<close>

record GnssNtripConnectionParams =
  ntrip_size :: u32
  requiresNmeaLocation :: bool
  hostNameOrIp :: string
  mountPoint :: string
  username :: string
  password :: string
  port :: u32
  useSSL :: bool

record dgnss =
  mDgnssState :: u16
  mSendNmeaConsent :: bool
  ntripParams :: GnssNtripConnectionParams
  ntrip_nmea :: string
  mDgnssLastNmeaBootTimeMilli :: u64
  mNtripParamsString :: string
  sent :: "string list"

definition DGNSS_STATE_ENABLE_NTRIP_COMMAND :: u16 where "DGNSS_STATE_ENABLE_NTRIP_COMMAND = 1"
definition DGNSS_STATE_NO_NMEA_PENDING :: u16 where "DGNSS_STATE_NO_NMEA_PENDING = 2"
definition DGNSS_STATE_NTRIP_SESSION_STARTED :: u16 where "DGNSS_STATE_NTRIP_SESSION_STARTED = 4"
definition DGNSS_RANGE_UPDATE_TIME_10MIN_IN_MILLI :: u64 where "DGNSS_RANGE_UPDATE_TIME_10MIN_IN_MILLI = 600000"

lemmas dgnss_bits = DGNSS_STATE_ENABLE_NTRIP_COMMAND_def DGNSS_STATE_NO_NMEA_PENDING_def DGNSS_STATE_NTRIP_SESSION_STARTED_def

definition set_state :: "u16 \<Rightarrow> dgnss \<Rightarrow> dgnss" where
  "set_state b d = d\<lparr>mDgnssState := mDgnssState d OR b\<rparr>"

definition clear_state :: "u16 \<Rightarrow> dgnss \<Rightarrow> dgnss" where
  "clear_state b d = d\<lparr>mDgnssState := mDgnssState d AND NOT b\<rparr>"

definition has_state :: "u16 \<Rightarrow> dgnss \<Rightarrow> bool" where
  "has_state b d \<longleftrightarrow> mDgnssState d AND b \<noteq> 0"

definition isDgnssNmeaRequired :: "dgnss \<Rightarrow> bool" where
  "isDgnssNmeaRequired d \<longleftrightarrow> mSendNmeaConsent d \<and> requiresNmeaLocation (ntripParams d)"

section \<open>Messages to the XTRA service\<close>

fun decimal :: "nat \<Rightarrow> string" where
  "decimal n = (if n < 10 then [char_of (48 + n)] else decimal (n div 10) @ [char_of (48 + n mod 10)])"

declare decimal.simps [simp del]

text \<open>A stream of lines; a string given by its \<open>data()\<close> is printed up to its first zero.\<close>

definition lines :: "string list \<Rightarrow> string" where
  "lines ls = concat (map (\<lambda>l. l @ [newline]) ls)"

definition start_message :: "GnssNtripConnectionParams \<Rightarrow> string \<Rightarrow> string" where
  "start_message p nmea = lines
     ([''startDgnssSource'', if useSSL p then ''1'' else ''0'', c_string (hostNameOrIp p), decimal (unat (port p)),
       c_string (mountPoint p), c_string (username p), c_string (password p)]
      @ (if requiresNmeaLocation p \<and> nmea \<noteq> [] then [c_string nmea] else []))"

definition startDgnssSource :: "dgnss \<Rightarrow> dgnss" where
  "startDgnssSource d =
     (let s = start_message (ntripParams d) (ntrip_nmea d) in d\<lparr>sent := sent d @ [s], mNtripParamsString := s\<rparr>)"

definition restartDgnssSource :: "dgnss \<Rightarrow> dgnss" where
  "restartDgnssSource d =
     (if mNtripParamsString d \<noteq> [] then d\<lparr>sent := sent d @ [mNtripParamsString d]\<rparr> else d)"

definition stopDgnssSource :: "dgnss \<Rightarrow> dgnss" where
  "stopDgnssSource d = d\<lparr>mNtripParamsString := [], sent := sent d @ [''stopDgnssSource'']\<rparr>"

definition updateNmeaToDgnssServer :: "dgnss \<Rightarrow> dgnss" where
  "updateNmeaToDgnssServer d = d\<lparr>sent := sent d @ [lines [''updateDgnssServerNmea'', c_string (ntrip_nmea d)]]\<rparr>"

section \<open>Starting and stopping the source\<close>

definition checkUpdateDgnssNtrip :: "bool \<Rightarrow> u64 \<Rightarrow> bool \<Rightarrow> dgnss \<Rightarrow> dgnss" where
  "checkUpdateDgnssNtrip inSession curBootTime isLocationValid d =
     (if inSession
      then (if mDgnssState d = DGNSS_STATE_ENABLE_NTRIP_COMMAND OR DGNSS_STATE_NO_NMEA_PENDING
            then (let d = startDgnssSource (set_state DGNSS_STATE_NTRIP_SESSION_STARTED d)
                  in if isDgnssNmeaRequired d then d\<lparr>mDgnssLastNmeaBootTimeMilli := curBootTime\<rparr> else d)
            else if has_state DGNSS_STATE_NTRIP_SESSION_STARTED d \<and> isLocationValid \<and> isDgnssNmeaRequired d
                    \<and> curBootTime - mDgnssLastNmeaBootTimeMilli d > DGNSS_RANGE_UPDATE_TIME_10MIN_IN_MILLI
            then (updateNmeaToDgnssServer d)\<lparr>mDgnssLastNmeaBootTimeMilli := curBootTime\<rparr>
            else d)
      else d)"

definition stopDgnssNtrip :: "dgnss \<Rightarrow> dgnss" where
  "stopDgnssNtrip d =
     (let d = d\<lparr>ntrip_nmea := []\<rparr>
      in if has_state DGNSS_STATE_NTRIP_SESSION_STARTED d
         then stopDgnssSource (clear_state DGNSS_STATE_NTRIP_SESSION_STARTED d) else d)"

text \<open>What stopping a tracking session does to the source.\<close>

definition session_stopped :: "dgnss \<Rightarrow> dgnss" where
  "session_stopped d =
     stopDgnssNtrip (if isDgnssNmeaRequired d then clear_state DGNSS_STATE_NO_NMEA_PENDING d else d)"

definition same_params :: "GnssNtripConnectionParams \<Rightarrow> GnssNtripConnectionParams \<Rightarrow> bool" where
  "same_params p q \<longleftrightarrow> useSSL p = useSSL q \<and> hostNameOrIp p = hostNameOrIp q \<and> port p = port q
     \<and> mountPoint p = mountPoint q \<and> username p = username q \<and> password p = password q
     \<and> requiresNmeaLocation p = requiresNmeaLocation q"

definition handleEnablePPENtrip :: "bool \<Rightarrow> u64 \<Rightarrow> GnssNtripConnectionParams \<Rightarrow> dgnss \<Rightarrow> dgnss" where
  "handleEnablePPENtrip inSession now params d =
     (if same_params (ntripParams d) params \<and> has_state DGNSS_STATE_ENABLE_NTRIP_COMMAND d then d
      else (let d = set_state DGNSS_STATE_ENABLE_NTRIP_COMMAND d;
                d = set_state DGNSS_STATE_NO_NMEA_PENDING d;
                d = clear_state DGNSS_STATE_NTRIP_SESSION_STARTED d;
                d = d\<lparr>ntripParams := params, ntrip_nmea := []\<rparr>
            in if isDgnssNmeaRequired d
               then (clear_state DGNSS_STATE_NO_NMEA_PENDING d)\<lparr>mDgnssLastNmeaBootTimeMilli := 0\<rparr>
               else checkUpdateDgnssNtrip inSession now False d))"

definition handleDisablePPENtrip :: "dgnss \<Rightarrow> dgnss" where
  "handleDisablePPENtrip d =
     stopDgnssNtrip (set_state DGNSS_STATE_NO_NMEA_PENDING (clear_state DGNSS_STATE_ENABLE_NTRIP_COMMAND d))"

text \<open>The command refuses incomplete parameters; otherwise it sends the message.\<close>

definition ntrip_params_ok :: "GnssNtripConnectionParams \<Rightarrow> bool" where
  "ntrip_params_ok params \<longleftrightarrow> \<not> (ntrip_size params = 0 \<or> hostNameOrIp params = [] \<or> mountPoint params = []
     \<or> username params = [] \<or> password params = [])"

section \<open>GGA sentences\<close>

text \<open>\<open>std::string::find\<close>; \<open>None\<close> is \<open>npos\<close>.\<close>

fun find_at :: "string \<Rightarrow> nat \<Rightarrow> string \<Rightarrow> nat option" where
  "find_at pat i [] = (if pat = [] then Some i else None)"
| "find_at pat i (c # cs) = (if take (length pat) (c # cs) = pat then Some i else find_at pat (Suc i) cs)"

definition str_find :: "string \<Rightarrow> nat \<Rightarrow> string \<Rightarrow> nat option" where
  "str_find pat pos s = (if pos \<le> length s then find_at pat pos (drop pos s) else None)"

definition substr :: "nat \<Rightarrow> nat \<Rightarrow> string \<Rightarrow> string" where
  "substr pos n s = take n (drop pos s)"

definition POS_OF_GGA :: nat where "POS_OF_GGA = 3"
definition COMMAS_BEFORE_VALID :: nat where "COMMAS_BEFORE_VALID = 6"

function comma_loop :: "string \<Rightarrow> nat option \<Rightarrow> nat \<Rightarrow> nat option \<times> nat" where
  "comma_loop s foundPos foundNth = (case foundPos of
     None \<Rightarrow> (None, foundNth)
   | Some p \<Rightarrow> if foundNth < COMMAS_BEFORE_VALID then comma_loop s (str_find '','' (p + 1) s) (foundNth + 1)
               else (Some p, foundNth))"
  by pat_completeness auto
termination by (relation "measure (\<lambda>(s, p, n). COMMAS_BEFORE_VALID - n)") auto

declare comma_loop.simps [simp del]

text \<open>The sentence cut out of what was reported.\<close>

definition gga_sentence :: "string \<Rightarrow> nat \<Rightarrow> string" where
  "gga_sentence nmea foundPos = (case str_find ''$'' foundPos nmea of
     Some foundNextSentence \<Rightarrow> substr (foundPos - POS_OF_GGA) foundNextSentence nmea
   | None \<Rightarrow> drop (foundPos - POS_OF_GGA) nmea)"

text \<open>Whether the sixth field is given and is not zero; \<open>at\<close> throws outside the string.\<close>

definition gga_has_fix :: "string \<Rightarrow> bool option" where
  "gga_has_fix gga =
     (let (foundPos, foundNth) = comma_loop gga (str_find '','' 0 gga) 0
      in if foundNth = COMMAS_BEFORE_VALID
         then (case foundPos of None \<Rightarrow> None | Some p \<Rightarrow> Some (gga ! (p - 1) \<noteq> CHR ''0''))
         else Some False)"

definition reportGGAToNtrip :: "bool \<Rightarrow> u64 \<Rightarrow> string option \<Rightarrow> dgnss \<Rightarrow> dgnss option" where
  "reportGGAToNtrip inSession now nmea d = (case nmea of
     None \<Rightarrow> Some d
   | Some nmea \<Rightarrow>
       (if \<not> isDgnssNmeaRequired d \<or> nmea = [] then Some d
        else (case str_find ''GGA'' 0 nmea of
          None \<Rightarrow> Some d
        | Some foundPos \<Rightarrow>
            (if foundPos \<ge> POS_OF_GGA
             then do {
               fixed \<leftarrow> gga_has_fix (gga_sentence nmea foundPos);
               Some (if fixed
                     then checkUpdateDgnssNtrip inSession now True
                       ((set_state DGNSS_STATE_NO_NMEA_PENDING d)\<lparr>ntrip_nmea := gga_sentence nmea foundPos\<rparr>)
                     else d)
             }
             else Some d))))"

text \<open>A position whose GGA sentence the adapter has generated itself.\<close>

definition position_gga :: "bool \<Rightarrow> u64 \<Rightarrow> string option \<Rightarrow> bool \<Rightarrow> dgnss \<Rightarrow> dgnss" where
  "position_gga inSession now gga isLocationValid d = (case gga of
     Some nmea \<Rightarrow> if isDgnssNmeaRequired d
       then checkUpdateDgnssNtrip inSession now isLocationValid
         ((set_state DGNSS_STATE_NO_NMEA_PENDING d)\<lparr>ntrip_nmea := nmea\<rparr>)
       else d
   | None \<Rightarrow> d)"

text \<open>The constructor does not initialise the parameters; \<open>junk\<close> is what their plain fields hold.\<close>

definition new_dgnss :: "GnssNtripConnectionParams \<Rightarrow> dgnss" where
  "new_dgnss junk = \<lparr>mDgnssState = 0, mSendNmeaConsent = False,
     ntripParams = junk\<lparr>hostNameOrIp := [], mountPoint := [], username := [], password := []\<rparr>,
     ntrip_nmea = [], mDgnssLastNmeaBootTimeMilli = 0, mNtripParamsString = [], sent = []\<rparr>"

end
