(* ===== verification/Tracking.thy ===== *)
theory Tracking
  imports AdapterBase Ntrip
begin

unbundle bit_operations_syntax

text \<open>
  The tracking sessions of the GNSS adapter (\<open>gps/gnss/GnssAdapter.cpp\<close>, \<open>GnssAdapter.h\<close>). The modem has
  one time based tracking session: the adapter keeps the sessions of its clients and asks the modem for
  the smallest interval of them, again whenever it changes. Distance based sessions are passed to the modem one
  by one. When an engine needs measurements at a high rate the modem runs at the shortest interval.

  As in the batching adapter, the adapter's thread runs the messages in \<open>tk_queue\<close> and the thread of the
  modem interface the calls in \<open>tk_api\<close>; an answer comes back as a message with the closure that waits for
  it (\<open>tk_reply\<close>). What surrounds the adapter when a message runs (time, what the modem supports,
  configuration) is the argument \<open>tk_env\<close>. The engine hub, which is loaded from another library, and the parts of
  the adapter that are not modelled here appear as the calls made to them, in \<open>tk_effects\<close> with the callbacks of
  the clients. Calling an empty \<open>std::function\<close> or following the end of a map gives \<open>None\<close>.
\<close>

section \<open>Data\<close>

record TrackingOptions = LocationOptions +
  powerMode :: u32
  tbm :: u32

definition GNSS_POWER_MODE_INVALID :: u32 where "GNSS_POWER_MODE_INVALID = 0"
definition GNSS_POWER_MODE_M1 :: u32 where "GNSS_POWER_MODE_M1 = 1"
definition GNSS_POWER_MODE_M2 :: u32 where "GNSS_POWER_MODE_M2 = 2"
definition GNSS_POWER_MODE_M4 :: u32 where "GNSS_POWER_MODE_M4 = 4"

definition MIN_TRACKING_INTERVAL :: u32 where "MIN_TRACKING_INTERVAL = 100"
definition TRACKING_TBM_THRESHOLD_MILLIS :: u32 where "TRACKING_TBM_THRESHOLD_MILLIS = 480000"

lemmas tk_consts = GNSS_POWER_MODE_INVALID_def GNSS_POWER_MODE_M1_def GNSS_POWER_MODE_M2_def GNSS_POWER_MODE_M4_def
  MIN_TRACKING_INTERVAL_def TRACKING_TBM_THRESHOLD_MILLIS_def

definition zero_options :: TrackingOptions where
  "zero_options = \<lparr>opt_size = 0, minInterval = 0, minDistance = 0, opt_mode = 0, locReqEngTypeMask = 0,
     powerMode = 0, tbm = 0\<rparr>"

definition setLocationOptions :: "TrackingOptions \<Rightarrow> TrackingOptions \<Rightarrow> TrackingOptions" where
  "setLocationOptions options out = out\<lparr>opt_size := 28, minInterval := minInterval options,
     minDistance := minDistance options, opt_mode := opt_mode options, locReqEngTypeMask := locReqEngTypeMask options\<rparr>"

datatype LocPositionMode =
  LOC_POSITION_MODE_INVALID | LOC_POSITION_MODE_STANDALONE | LOC_POSITION_MODE_MS_BASED | LOC_POSITION_MODE_MS_ASSISTED

record LocPosMode =
  pos_mode :: LocPositionMode
  recurrence :: u32
  pos_min_interval :: u32
  preferred_accuracy :: u32
  preferred_time :: u32
  share_position :: bool
  credentials :: string
  provider :: string
  pos_powerMode :: u32
  timeBetweenMeasurements :: u32

definition default_LocPosMode :: LocPosMode where
  "default_LocPosMode = \<lparr>pos_mode = LOC_POSITION_MODE_MS_BASED, recurrence = 0, pos_min_interval = 1000,
     preferred_accuracy = 50, preferred_time = 120000, share_position = True, credentials = [], provider = [],
     pos_powerMode = GNSS_POWER_MODE_INVALID, timeBetweenMeasurements = 1000\<rparr>"

definition LocPosMode_equals :: "LocPosMode \<Rightarrow> LocPosMode \<Rightarrow> bool" where
  "LocPosMode_equals m n \<longleftrightarrow> pos_mode n = pos_mode m \<and> recurrence n = recurrence m \<and> pos_min_interval n = pos_min_interval m
     \<and> preferred_accuracy n = preferred_accuracy m \<and> preferred_time n = preferred_time m \<and> pos_powerMode n = pos_powerMode m
     \<and> timeBetweenMeasurements n = timeBetweenMeasurements m \<and> strncmp_eq (credentials n) (credentials m) 13
     \<and> strncmp_eq (provider n) (provider m) 7"

definition convertOptions :: "TrackingOptions \<Rightarrow> LocPosMode \<Rightarrow> LocPosMode" where
  "convertOptions trackingOptions out = out\<lparr>
     pos_mode := (if opt_mode trackingOptions = 1 then LOC_POSITION_MODE_MS_BASED
                  else if opt_mode trackingOptions = 2 then LOC_POSITION_MODE_MS_ASSISTED
                  else LOC_POSITION_MODE_STANDALONE),
     share_position := True, pos_min_interval := minInterval trackingOptions,
     pos_powerMode := powerMode trackingOptions, timeBetweenMeasurements := tbm trackingOptions\<rparr>"

text \<open>Calls to the modem interface, and the closures that wait for their answers.\<close>

datatype tk_call =
    ApiStartTimeBasedTracking TrackingOptions
  | ApiStopFix
  | ApiStartDistanceBasedTracking u32 LocationOptions
  | ApiStopDistanceBasedTracking u32
  | ApiConfigMinGpsWeek u16

datatype tk_reply =
    StartTimeReply client u32
  | UpdateTimeReply client u32 TrackingOptions
  | StopTimeReply client u32
  | StartDistanceReply client u32
  | StopDistanceReply client u32
  | RemoveDistanceReply client u32
  | SwitchReply client u32 TrackingOptions
  | UpdateDistanceReply client u32 TrackingOptions
  | RestartDistanceReply client u32 TrackingOptions
  | ControlReply u32
  | IgnoredReply
  | NullReply

datatype tk_msg =
    MsgAddClient client LocationCallbacks
  | MsgRemoveClient client bool
  | MsgRequestCapabilities client
  | MsgReadConfig
  | MsgHandleEngineUpEvent
  | MsgStartTracking client u32 TrackingOptions
  | MsgUpdateTracking client u32 TrackingOptions
  | MsgStopTracking client u32
  | MsgPowerStateCb bool
  | MsgConfigMinGpsWeek u32 u16
  | MsgEnableNtrip GnssNtripConnectionParams
  | MsgDisableNtrip
  | MsgReportGGA "string option"
  | MsgReportPosition u32 u32 u32 "string option" bool
  | MsgXtraStatusRequested
  | TkAnswered tk_reply LocationError

datatype other_part =
    readConfig | setConfig | gnssSvIdConfigUpdate | gnssSvTypeConfigUpdate | updateSystemPowerState
  | gnssSecondaryBandConfigUpdate | initCDFWService | onStatusRequested

datatype tk_effect =
    CapabilitiesCb client u64
  | ResponseCb client LocationError u32
  | ControlResponseCb LocationError u32
  | LocationSystemInfoCb client
  | PowerStateCb bool
  | RemoveClientCb client
  | GnssSetFixMode LocPosMode
  | GnssStartFix
  | GnssStopFix
  | UpdateNmeaMask u32
  | OtherPart other_part

record tk_state = "tk_msg adapter_base" +
  mTimeBasedTrackingSessions :: "(LocationSessionKey \<times> TrackingOptions) list"
  mDistanceBasedTrackingSessions :: "(LocationSessionKey \<times> LocationOptions) list"
  mLocPositionMode :: LocPosMode
  mNHzNeeded :: bool
  mSPEAlreadyRunningAtHighestInterval :: bool
  mPowerOn :: bool
  mPowerStateCb :: bool
  mPrevNmeaRptTimeNsec :: u64
  mOdcpiRequestActive :: bool
  mDgnss :: dgnss
  tk_queue :: "tk_msg list"
  tk_api :: "(tk_call \<times> tk_reply) list"
  tk_effects :: "tk_effect list"

record tk_env =
  tk_engine :: engine_support
  qwesFeatureStatus :: u64
  bootTime :: u64
  nmeaMask :: u32
  systemInfoKnown :: bool
  externalDrEnabled :: bool
  engHubLoaded :: bool
  logEnabled :: bool
  agpsRegistered :: bool
  odcpiRequestCb :: bool
  controlResponseCb :: bool
  nmeaProviderAp :: bool
  nmeaRateNHz :: bool

text \<open>The effects: a message to the own queue, a call to the modem interface, a call to anything else.\<close>

definition tk_send :: "tk_msg \<Rightarrow> tk_state \<Rightarrow> tk_state" where
  "tk_send msg s = s\<lparr>tk_queue := tk_queue s @ [msg]\<rparr>"

definition tk_call_api :: "tk_call \<Rightarrow> tk_reply \<Rightarrow> tk_state \<Rightarrow> tk_state" where
  "tk_call_api c k s = s\<lparr>tk_api := tk_api s @ [(c, k)]\<rparr>"

definition tk_do :: "tk_effect list \<Rightarrow> tk_state \<Rightarrow> tk_state" where
  "tk_do es s = s\<lparr>tk_effects := tk_effects s @ es\<rparr>"

definition tk_pend :: "tk_msg \<Rightarrow> tk_state \<Rightarrow> tk_state" where
  "tk_pend msg s = s\<lparr>mPendingMsgs := mPendingMsgs s @ [msg]\<rparr>"

definition isInSession :: "tk_state \<Rightarrow> bool" where
  "isInSession s \<longleftrightarrow> mTimeBasedTrackingSessions s \<noteq> []"

definition on_dgnss :: "(dgnss \<Rightarrow> dgnss) \<Rightarrow> tk_state \<Rightarrow> tk_state" where
  "on_dgnss f s = s\<lparr>mDgnss := f (mDgnss s)\<rparr>"

definition check_ntrip :: "tk_env \<Rightarrow> tk_state \<Rightarrow> tk_state" where
  "check_ntrip e s = on_dgnss (checkUpdateDgnssNtrip (isInSession s) (bootTime e) False) s"

section \<open>Clients\<close>

definition gnss_getCapabilities :: "tk_env \<Rightarrow> u64" where
  "gnss_getCapabilities e = (let eng = tk_engine e in
     flag True 0
     OR flag True 4
     OR flag (getCarrierCapabilities eng AND 2 \<noteq> 0) 6
     OR flag (getCarrierCapabilities eng AND 4 \<noteq> 0) 7
     OR flag (isMessageSupported eng DISTANCE_BASE_LOCATION_BATCHING) 1
     OR flag (isMessageSupported eng DISTANCE_BASE_LOCATION_BATCHING) 3
     OR flag (isMessageSupported eng DISTANCE_BASE_TRACKING) 2
     OR flag (isMessageSupported eng OUTDOOR_TRIP_BATCHING) 9
     OR flag (gnssConstellationConfig eng) 5
     OR flag (isFeatureSupported eng FEATURE_DEBUG_NMEA) 8
     OR flag (isFeatureSupported eng FEATURE_CONSTELLATION_ENABLEMENT) 10
     OR flag (isFeatureSupported eng FEATURE_AGPM) 11
     OR qwesFeatureStatus e)"

definition client_mask :: "u32 \<Rightarrow> LocationCallbacks \<Rightarrow> u64" where
  "client_mask nmea c =
     flag (trackingCb c \<or> gnssLocationInfoCb c \<or> engineLocationsInfoCb c) 0
     OR flag (gnssSvCb c) 1
     OR flag (gnssNmeaCb c \<and> nmea \<noteq> 0) 2
     OR flag (gnssMeasurementsCb c) 26
     OR flag (gnssDataCb c) 0
     OR flag (gnssDataCb c) 2"

definition LOC_API_ADAPTER_BIT_GNSS_NHZ_MEASUREMENT :: u64 where
  "LOC_API_ADAPTER_BIT_GNSS_NHZ_MEASUREMENT = push_bit 37 1"

text \<open>The mask the adapter registers for; \<open>old\<close> is the mask before.\<close>

definition gnss_event_mask :: "tk_env \<Rightarrow> u64 \<Rightarrow> (client \<times> LocationCallbacks) list \<Rightarrow> u64" where
  "gnss_event_mask e old cs =
     (let m = flag True 36 OR flag True 38;
          m = foldl (\<lambda>m p. m OR client_mask (nmeaMask e) (snd p)) m cs;
          m = (if externalDrEnabled e \<or> engHubLoaded e
               then m OR flag True 26 OR flag True 23 OR flag True 33 OR flag True 35
                 OR (old AND LOC_API_ADAPTER_BIT_GNSS_NHZ_MEASUREMENT)
               else m);
          m = m OR flag (agpsRegistered e) 6 OR flag (odcpiRequestCb e) 9 OR flag True 36 OR flag True 4
      in if m AND flag True 26 \<noteq> 0 \<and> logEnabled e then m OR flag True 39 else m)"

definition debug_nmea :: "tk_env \<Rightarrow> tk_state \<Rightarrow> tk_state" where
  "debug_nmea e s =
     tk_do (map (\<lambda>p. UpdateNmeaMask (nmeaMask e OR 0x00020000)) (filter (\<lambda>p. gnssDataCb (snd p)) (mClientData s))) s"

definition notifyClientOfCachedLocationSystemInfo :: "tk_env \<Rightarrow> client \<Rightarrow> LocationCallbacks \<Rightarrow> tk_state \<Rightarrow> tk_state" where
  "notifyClientOfCachedLocationSystemInfo e client callbacks s =
     (if systemInfoKnown e \<and> locationSystemInfoCb callbacks
         \<and> \<not> (case map_of (mClientData s) client of None \<Rightarrow> False | Some c \<Rightarrow> locationSystemInfoCb c)
      then tk_do [LocationSystemInfoCb client] s else s)"

definition hasCallbacksToStartTracking :: "client \<Rightarrow> tk_state \<Rightarrow> bool" where
  "hasCallbacksToStartTracking client s = (case map_of (mClientData s) client of
     Some c \<Rightarrow> trackingCb c \<or> gnssLocationInfoCb c \<or> engineLocationsInfoCb c \<or> gnssMeasurementsCb c
       \<or> gnssDataCb c \<or> gnssSvCb c \<or> gnssNmeaCb c
   | None \<Rightarrow> False)"

definition tk_reportResponse :: "client \<Rightarrow> LocationError \<Rightarrow> u32 \<Rightarrow> tk_state \<Rightarrow> tk_state" where
  "tk_reportResponse client err sessionId s = (case map_of (mClientData s) client of
     Some c \<Rightarrow> if responseCb c then tk_do [ResponseCb client err sessionId] s else s
   | None \<Rightarrow> s)"

definition control_response :: "tk_env \<Rightarrow> LocationError \<Rightarrow> u32 \<Rightarrow> tk_state \<Rightarrow> tk_state" where
  "control_response e err sessionId s = (if controlResponseCb e then tk_do [ControlResponseCb err sessionId] s else s)"

section \<open>Sessions\<close>

definition isTimeBasedTrackingSession :: "client \<Rightarrow> u32 \<Rightarrow> tk_state \<Rightarrow> bool" where
  "isTimeBasedTrackingSession client sessionId s \<longleftrightarrow>
     map_of (mTimeBasedTrackingSessions s) (LocationSessionKey client sessionId) \<noteq> None"

definition isDistanceBasedTrackingSession :: "client \<Rightarrow> u32 \<Rightarrow> tk_state \<Rightarrow> bool" where
  "isDistanceBasedTrackingSession client sessionId s \<longleftrightarrow>
     map_of (mDistanceBasedTrackingSessions s) (LocationSessionKey client sessionId) \<noteq> None"

definition reportPowerStateIfChanged :: "tk_state \<Rightarrow> tk_state" where
  "reportPowerStateIfChanged s =
     (let newPowerOn = (mTimeBasedTrackingSessions s \<noteq> [] \<or> mDistanceBasedTrackingSessions s \<noteq> [])
      in if newPowerOn \<noteq> mPowerOn s
         then (let s = s\<lparr>mPowerOn := newPowerOn\<rparr> in if mPowerStateCb s then tk_do [PowerStateCb newPowerOn] s else s)
         else s)"

text \<open>A distance based session keeps only the location options.\<close>

definition saveTrackingSession :: "tk_env \<Rightarrow> client \<Rightarrow> u32 \<Rightarrow> TrackingOptions \<Rightarrow> tk_state \<Rightarrow> tk_state" where
  "saveTrackingSession e client sessionId options s =
     (let key = LocationSessionKey client sessionId
      in reportPowerStateIfChanged
        (if minDistance options > 0 \<and> isMessageSupported (tk_engine e) DISTANCE_BASE_TRACKING
         then s\<lparr>mDistanceBasedTrackingSessions :=
            sm_put key (LocationOptions.truncate options) (mDistanceBasedTrackingSessions s)\<rparr>
         else s\<lparr>mTimeBasedTrackingSessions := sm_put key options (mTimeBasedTrackingSessions s)\<rparr>))"

definition eraseTrackingSession :: "client \<Rightarrow> u32 \<Rightarrow> tk_state \<Rightarrow> tk_state" where
  "eraseTrackingSession client sessionId s =
     (let key = LocationSessionKey client sessionId
      in reportPowerStateIfChanged
        (if map_of (mTimeBasedTrackingSessions s) key \<noteq> None
         then s\<lparr>mTimeBasedTrackingSessions := sm_erase key (mTimeBasedTrackingSessions s)\<rparr>
         else if map_of (mDistanceBasedTrackingSessions s) key \<noteq> None
         then s\<lparr>mDistanceBasedTrackingSessions := sm_erase key (mDistanceBasedTrackingSessions s)\<rparr>
         else s))"

definition setLocPositionMode :: "LocPosMode \<Rightarrow> tk_state \<Rightarrow> tk_state" where
  "setLocPositionMode m s = (if \<not> LocPosMode_equals (mLocPositionMode s) m then s\<lparr>mLocPositionMode := m\<rparr> else s)"

text \<open>Whether the modem runs at the shortest interval already, and the options to ask it for.\<close>

definition checkAndSetSPEToRunforNHz :: "TrackingOptions \<Rightarrow> tk_state \<Rightarrow> bool \<times> TrackingOptions \<times> tk_state" where
  "checkAndSetSPEToRunforNHz out s =
     (if \<not> mNHzNeeded s then (False, out, s)
      else if mSPEAlreadyRunningAtHighestInterval s then (True, out, s)
      else if minInterval out > MIN_TRACKING_INTERVAL
      then (False, out\<lparr>minInterval := MIN_TRACKING_INTERVAL\<rparr>, s\<lparr>mSPEAlreadyRunningAtHighestInterval := True\<rparr>)
      else (False, out, s))"

section \<open>The time based session of the modem\<close>

definition announce :: "TrackingOptions \<Rightarrow> tk_state \<Rightarrow> tk_state" where
  "announce options s =
     (let s = setLocPositionMode (convertOptions options default_LocPosMode) s
      in tk_do [GnssSetFixMode (mLocPositionMode s), GnssStartFix] s)"

definition startTimeBasedTracking :: "client \<Rightarrow> u32 \<Rightarrow> TrackingOptions \<Rightarrow> tk_state \<Rightarrow> tk_state" where
  "startTimeBasedTracking client sessionId trackingOptions s =
     (let s = announce trackingOptions s;
          (already, tempOptions, s) = checkAndSetSPEToRunforNHz trackingOptions s
      in if \<not> already then tk_call_api (ApiStartTimeBasedTracking tempOptions) (StartTimeReply client sessionId) s
         else tk_reportResponse client LOCATION_ERROR_SUCCESS sessionId s)"

definition start_time_reply :: "tk_env \<Rightarrow> client \<Rightarrow> u32 \<Rightarrow> LocationError \<Rightarrow> tk_state \<Rightarrow> tk_state" where
  "start_time_reply e client sessionId err s =
     tk_reportResponse client err sessionId
       (if err \<noteq> LOCATION_ERROR_SUCCESS then eraseTrackingSession client sessionId s else check_ntrip e s)"

definition updateTracking :: "client \<Rightarrow> u32 \<Rightarrow> TrackingOptions \<Rightarrow> TrackingOptions \<Rightarrow> tk_state \<Rightarrow> tk_state" where
  "updateTracking client sessionId updatedOptions oldOptions s =
     (let s = announce updatedOptions s;
          (already, tempOptions, s) = checkAndSetSPEToRunforNHz updatedOptions s
      in if \<not> already
         then tk_call_api (ApiStartTimeBasedTracking tempOptions) (UpdateTimeReply client sessionId oldOptions) s
         else tk_reportResponse client LOCATION_ERROR_SUCCESS sessionId s)"

definition update_time_reply :: "tk_env \<Rightarrow> client \<Rightarrow> u32 \<Rightarrow> TrackingOptions \<Rightarrow> LocationError \<Rightarrow> tk_state \<Rightarrow> tk_state" where
  "update_time_reply e client sessionId oldOptions err s =
     tk_reportResponse client err sessionId
       (if err \<noteq> LOCATION_ERROR_SUCCESS then saveTrackingSession e client sessionId oldOptions s else s)"

definition stopTracking :: "client \<Rightarrow> u32 \<Rightarrow> tk_state \<Rightarrow> tk_state" where
  "stopTracking client i s =
     (let s = tk_do [GnssStopFix] s;
          s = tk_call_api ApiStopFix (StopTimeReply client i) s;
          s = on_dgnss session_stopped s
      in s\<lparr>mSPEAlreadyRunningAtHighestInterval := False\<rparr>)"

text \<open>
  The loop over the sessions, the one with the given key left out: the options of the session with the
  smallest interval, and the smallest power mode. A size of zero means not set yet.
\<close>

fun multiplex :: "LocationSessionKey option \<Rightarrow> (LocationSessionKey \<times> TrackingOptions) list
    \<Rightarrow> TrackingOptions \<Rightarrow> u32 \<Rightarrow> TrackingOptions \<times> u32" where
  "multiplex skip [] mo mp = (mo, mp)"
| "multiplex skip ((k, o1) # ss) mo mp =
     multiplex skip ss
       (if Some k \<noteq> skip \<and> (opt_size mo = 0 \<or> minInterval o1 < minInterval mo) then o1 else mo)
       (if Some k \<noteq> skip \<and> (mp = GNSS_POWER_MODE_INVALID \<or> powerMode o1 < mp) then powerMode o1 else mp)"

text \<open>Each multiplexer says whether the client is to be answered at once.\<close>

definition startTimeBasedTrackingMultiplex :: "client \<Rightarrow> u32 \<Rightarrow> TrackingOptions \<Rightarrow> tk_state \<Rightarrow> bool \<times> tk_state" where
  "startTimeBasedTrackingMultiplex client sessionId options s =
     (if mTimeBasedTrackingSessions s = []
      then (False, startTimeBasedTracking client sessionId options (s\<lparr>mPrevNmeaRptTimeNsec := 0\<rparr>))
      else (let (mo, mp) = multiplex None (mTimeBasedTrackingSessions s) zero_options GNSS_POWER_MODE_INVALID;
                (mo, updateOptions) = (if minInterval options < minInterval mo
                  then (mo\<lparr>minInterval := minInterval options\<rparr>, True) else (mo, False));
                (mo, updateOptions) = (if powerMode options < mp
                  then (mo\<lparr>powerMode := powerMode options\<rparr>, True) else (mo, updateOptions))
            in if updateOptions then (False, startTimeBasedTracking client sessionId mo s) else (True, s)))"

definition updateTrackingMultiplex :: "client \<Rightarrow> u32 \<Rightarrow> TrackingOptions \<Rightarrow> tk_state \<Rightarrow> (bool \<times> tk_state) option" where
  "updateTrackingMultiplex client i trackingOptions s =
     (let key = LocationSessionKey client i in case map_of (mTimeBasedTrackingSessions s) key of
        None \<Rightarrow> None
      | Some oldOptions \<Rightarrow> Some
          (if minInterval oldOptions \<noteq> minInterval trackingOptions \<or> powerMode oldOptions \<noteq> powerMode trackingOptions
           then (let (mo, mp) = multiplex (Some key) (mTimeBasedTrackingSessions s) zero_options GNSS_POWER_MODE_INVALID;
                     (mo, updateOptions) = (if minInterval trackingOptions < minInterval mo
                       then (mo\<lparr>minInterval := minInterval trackingOptions\<rparr>, True) else (mo, False));
                     (mo, updateOptions) = (if powerMode trackingOptions < mp
                       then (mo\<lparr>powerMode := powerMode trackingOptions\<rparr>, True) else (mo, updateOptions));
                     (mo, updateOptions) = (if length (mTimeBasedTrackingSessions s) = 1
                       then (trackingOptions, True) else (mo, updateOptions))
                 in if updateOptions then (False, updateTracking client i mo oldOptions s) else (True, s))
           else (True, s)))"

definition stopTimeBasedTrackingMultiplex :: "client \<Rightarrow> u32 \<Rightarrow> tk_state \<Rightarrow> bool \<times> tk_state" where
  "stopTimeBasedTrackingMultiplex client i s =
     (if length (mTimeBasedTrackingSessions s) = 1 then (False, stopTracking client i s)
      else (let key = LocationSessionKey client i in case map_of (mTimeBasedTrackingSessions s) key of
        None \<Rightarrow> (True, s)
      | Some stopped \<Rightarrow>
          (let (mo, mp) = multiplex (Some key) (mTimeBasedTrackingSessions s) zero_options GNSS_POWER_MODE_INVALID
           in if minInterval stopped < minInterval mo \<or> powerMode stopped < mp
              then (False, startTimeBasedTracking client i (mo\<lparr>powerMode := mp\<rparr>) s)
              else (True, s))))"

section \<open>Restarting\<close>

text \<open>The loop that looks for the smallest interval and for the smallest valid power mode.\<close>

fun smallest_loop :: "(LocationSessionKey \<times> TrackingOptions) list \<Rightarrow> TrackingOptions \<Rightarrow> TrackingOptions
    \<Rightarrow> TrackingOptions \<times> TrackingOptions" where
  "smallest_loop [] si hp = (si, hp)"
| "smallest_loop ((k, o1) # ss) si hp =
     smallest_loop ss
       (if opt_size si = 0 \<or> minInterval o1 < minInterval si then o1 else si)
       (if opt_size hp = 0 \<or> (GNSS_POWER_MODE_INVALID \<noteq> powerMode o1 \<and> powerMode o1 < powerMode hp) then o1 else hp)"

definition checkAndRestartTimeBasedSession :: "tk_state \<Rightarrow> tk_state" where
  "checkAndRestartTimeBasedSession s =
     (if mTimeBasedTrackingSessions s \<noteq> []
      then (let (si, hp) = smallest_loop (mTimeBasedTrackingSessions s) zero_options zero_options;
                (already, hp, s) = checkAndSetSPEToRunforNHz (setLocationOptions si hp) s
            in if \<not> already then tk_call_api (ApiStartTimeBasedTracking hp) NullReply s else s)
      else s)"

definition checkAndRestartSPESession :: "tk_state \<Rightarrow> tk_state" where
  "checkAndRestartSPESession s =
     (let s = s\<lparr>mSPEAlreadyRunningAtHighestInterval := False\<rparr>;
          s = checkAndRestartTimeBasedSession s
      in foldl (\<lambda>s p. tk_call_api (ApiStartDistanceBasedTracking (session_id (fst p)) (snd p)) IgnoredReply s)
           s (mDistanceBasedTrackingSessions s))"

definition tk_restartSessions :: "tk_env \<Rightarrow> bool \<Rightarrow> tk_state \<Rightarrow> tk_state" where
  "tk_restartSessions e modemSSR s =
     (let s = (if modemSSR then s\<lparr>mOdcpiRequestActive := False\<rparr> else s);
          s = s\<lparr>mSPEAlreadyRunningAtHighestInterval := False\<rparr>;
          s = (if mTimeBasedTrackingSessions s \<noteq> []
               then check_ntrip e (tk_do [GnssSetFixMode (mLocPositionMode s), GnssStartFix] s) else s)
      in checkAndRestartSPESession s)"

definition suspendSessions :: "tk_state \<Rightarrow> tk_state" where
  "suspendSessions s =
     (if mTimeBasedTrackingSessions s \<noteq> []
      then (let s = tk_do [GnssStopFix] s;
                s = tk_call_api ApiStopFix NullReply s;
                s = on_dgnss session_stopped s
            in s\<lparr>mSPEAlreadyRunningAtHighestInterval := False\<rparr>)
      else s)"

definition configMinGpsWeek :: "tk_env \<Rightarrow> u32 \<Rightarrow> u16 \<Rightarrow> tk_state \<Rightarrow> tk_state" where
  "configMinGpsWeek e sessionId minGpsWeek s =
     (let s = suspendSessions s;
          s = tk_call_api (ApiConfigMinGpsWeek minGpsWeek) (if sessionId \<noteq> 0 then ControlReply sessionId else NullReply) s
      in tk_restartSessions e False s)"

definition handle_engine_up :: "tk_env \<Rightarrow> tk_state \<Rightarrow> tk_state" where
  "handle_engine_up e s =
     (let s = s\<lparr>mIsEngineCapabilitiesKnown := True\<rparr>;
          s = tk_do (map (\<lambda>(c, m). CapabilitiesCb c m) (broadcastCapabilities (gnss_getCapabilities e) s)) s;
          s = tk_do (map OtherPart [setConfig, gnssSvIdConfigUpdate, gnssSvTypeConfigUpdate, updateSystemPowerState,
                gnssSecondaryBandConfigUpdate, initCDFWService]) s;
          s = tk_restartSessions e True s
      in s\<lparr>tk_queue := tk_queue s @ mPendingMsgs s, mPendingMsgs := []\<rparr>)"

text \<open>The engine hub says whether it needs the high rate, and measurements at the high rate.\<close>

definition updateNHzRequirementCb :: "bool \<Rightarrow> bool \<Rightarrow> tk_state \<Rightarrow> tk_state" where
  "updateNHzRequirementCb nHzNeeded nHzMeasNeeded s =
     (let checked = (mEvtMask s AND LOC_API_ADAPTER_BIT_GNSS_NHZ_MEASUREMENT \<noteq> 0);
          s = (if nHzMeasNeeded \<and> \<not> checked
               then updateEvtMask LOC_API_ADAPTER_BIT_GNSS_NHZ_MEASUREMENT LOC_REGISTRATION_MASK_ENABLED s
               else if checked
               then updateEvtMask LOC_API_ADAPTER_BIT_GNSS_NHZ_MEASUREMENT LOC_REGISTRATION_MASK_DISABLED s
               else s)
      in if mNHzNeeded s \<noteq> nHzNeeded then checkAndRestartSPESession (s\<lparr>mNHzNeeded := nHzNeeded\<rparr>) else s)"

section \<open>Commands\<close>

definition clamp_interval :: "TrackingOptions \<Rightarrow> TrackingOptions" where
  "clamp_interval o1 =
     (if minInterval o1 < MIN_TRACKING_INTERVAL then o1\<lparr>minInterval := MIN_TRACKING_INTERVAL\<rparr> else o1)"

definition limit_tbm :: "TrackingOptions \<Rightarrow> TrackingOptions" where
  "limit_tbm o1 =
     (if powerMode o1 = GNSS_POWER_MODE_M4 \<and> tbm o1 > TRACKING_TBM_THRESHOLD_MILLIS
      then o1\<lparr>powerMode := GNSS_POWER_MODE_M2\<rparr> else o1)"

definition answer_now :: "bool \<Rightarrow> client \<Rightarrow> u32 \<Rightarrow> tk_state \<Rightarrow> tk_state" where
  "answer_now reportToClientWithNoWait client sessionId s =
     (if reportToClientWithNoWait then tk_reportResponse client LOCATION_ERROR_SUCCESS sessionId s else s)"

text \<open>Start a time based session: the modem first, then the own table.\<close>

definition start_time_session :: "tk_env \<Rightarrow> client \<Rightarrow> u32 \<Rightarrow> TrackingOptions \<Rightarrow> tk_state \<Rightarrow> tk_state" where
  "start_time_session e client sessionId options s =
     (let (now, s) = startTimeBasedTrackingMultiplex client sessionId options s
      in answer_now now client sessionId (saveTrackingSession e client sessionId options s))"

definition stop_time_session :: "client \<Rightarrow> u32 \<Rightarrow> tk_state \<Rightarrow> tk_state" where
  "stop_time_session client sessionId s =
     (let (now, s) = stopTimeBasedTrackingMultiplex client sessionId s
      in answer_now now client sessionId (eraseTrackingSession client sessionId s))"

definition start_tracking :: "tk_env \<Rightarrow> client \<Rightarrow> u32 \<Rightarrow> TrackingOptions \<Rightarrow> tk_state \<Rightarrow> tk_state" where
  "start_tracking e client sessionId options s =
     (if \<not> mIsEngineCapabilitiesKnown s \<and> minDistance options > 0
      then tk_pend (MsgStartTracking client sessionId options) s
      else if \<not> hasCallbacksToStartTracking client s then s
      else if opt_size options = 0 then s
      else (let options = clamp_interval options
            in if minDistance options > 0 \<and> isMessageSupported (tk_engine e) DISTANCE_BASE_TRACKING
               then tk_call_api (ApiStartDistanceBasedTracking sessionId (LocationOptions.truncate options))
                 (StartDistanceReply client sessionId) (saveTrackingSession e client sessionId options s)
               else start_time_session e client sessionId (limit_tbm options) s))"

definition update_tracking :: "tk_env \<Rightarrow> client \<Rightarrow> u32 \<Rightarrow> TrackingOptions \<Rightarrow> tk_state \<Rightarrow> tk_state option" where
  "update_tracking e client sessionId options s =
     (if \<not> mIsEngineCapabilitiesKnown s \<and> minDistance options > 0
      then Some (tk_pend (MsgUpdateTracking client sessionId options) s)
      else (let isTimeBased = isTimeBasedTrackingSession client sessionId s;
                isDistanceBased = isDistanceBasedTrackingSession client sessionId s;
                err = (if \<not> isTimeBased \<and> \<not> isDistanceBased then LOCATION_ERROR_ID_UNKNOWN
                       else if opt_size options = 0 then LOCATION_ERROR_INVALID_PARAMETER else LOCATION_ERROR_SUCCESS)
            in if err \<noteq> LOCATION_ERROR_SUCCESS then Some (tk_reportResponse client err sessionId s)
               else (let options = clamp_interval (limit_tbm options)
                     in if isTimeBased \<and> minDistance options > 0
                        then Some (let (now, s) = stopTimeBasedTrackingMultiplex client sessionId s;
                                       s = eraseTrackingSession client sessionId s;
                                       s = answer_now now client sessionId s;
                                       s = saveTrackingSession e client sessionId options s
                                   in tk_call_api (ApiStartDistanceBasedTracking sessionId (LocationOptions.truncate options))
                                        IgnoredReply s)
                        else if isDistanceBased \<and> minDistance options = 0
                        then Some (tk_call_api (ApiStopDistanceBasedTracking sessionId) (SwitchReply client sessionId options)
                               (eraseTrackingSession client sessionId s))
                        else if isTimeBased
                        then do {
                          (now, s) \<leftarrow> updateTrackingMultiplex client sessionId options s;
                          Some (answer_now now client sessionId (saveTrackingSession e client sessionId options s))
                        }
                        else Some (tk_call_api (ApiStopDistanceBasedTracking sessionId)
                               (UpdateDistanceReply client sessionId options) s))))"

definition stop_tracking :: "client \<Rightarrow> u32 \<Rightarrow> tk_state \<Rightarrow> tk_state" where
  "stop_tracking client sessionId s =
     (if isTimeBasedTrackingSession client sessionId s then stop_time_session client sessionId s
      else if isDistanceBasedTrackingSession client sessionId s
      then tk_call_api (ApiStopDistanceBasedTracking sessionId) (StopDistanceReply client sessionId) s
      else tk_reportResponse client LOCATION_ERROR_ID_UNKNOWN sessionId s)"

definition tk_stopClientSessions :: "client \<Rightarrow> tk_state \<Rightarrow> tk_state" where
  "tk_stopClientSessions client s =
     (let keys = map fst (filter (\<lambda>p. session_client (fst p) = client) (mTimeBasedTrackingSessions s));
          s = foldl (\<lambda>s k. eraseTrackingSession (session_client k) (session_id k)
                (snd (stopTimeBasedTrackingMultiplex (session_client k) (session_id k) s))) s keys
      in foldl (\<lambda>s p. tk_call_api (ApiStopDistanceBasedTracking (session_id (fst p)))
                 (RemoveDistanceReply client (session_id (fst p))) s)
           s (filter (\<lambda>p. session_client (fst p) = client) (mDistanceBasedTrackingSessions s)))"

section \<open>Answers of the modem\<close>

fun tk_answered :: "tk_env \<Rightarrow> tk_reply \<Rightarrow> LocationError \<Rightarrow> tk_state \<Rightarrow> tk_state" where
  "tk_answered e (StartTimeReply client i) err s = start_time_reply e client i err s"
| "tk_answered e (UpdateTimeReply client i old) err s = update_time_reply e client i old err s"
| "tk_answered e (StopTimeReply client i) err s = tk_reportResponse client err i s"
| "tk_answered e (StartDistanceReply client i) err s =
     tk_reportResponse client err i (if err \<noteq> LOCATION_ERROR_SUCCESS then eraseTrackingSession client i s else s)"
| "tk_answered e (StopDistanceReply client i) err s =
     tk_reportResponse client err i (if err = LOCATION_ERROR_SUCCESS then eraseTrackingSession client i s else s)"
| "tk_answered e (RemoveDistanceReply client i) err s =
     (if err = LOCATION_ERROR_SUCCESS then eraseTrackingSession client i s else s)"
| "tk_answered e (SwitchReply client i options) err s = start_time_session e client i options s"
| "tk_answered e (UpdateDistanceReply client i options) err s =
     (if err = LOCATION_ERROR_SUCCESS
      then tk_call_api (ApiStartDistanceBasedTracking i (LocationOptions.truncate options))
        (RestartDistanceReply client i options) s
      else s)"
| "tk_answered e (RestartDistanceReply client i options) err s =
     tk_reportResponse client err i (if err = LOCATION_ERROR_SUCCESS then saveTrackingSession e client i options s else s)"
| "tk_answered e (ControlReply i) err s = control_response e err i s"
| "tk_answered e IgnoredReply err s = s"
| "tk_answered e NullReply err s = s"

section \<open>Reports of positions\<close>

text \<open>Whether a position is to be turned into NMEA sentences, at most about one in a second if so configured.\<close>

definition needToGenerateNmeaReport :: "tk_env \<Rightarrow> u32 \<Rightarrow> u32 \<Rightarrow> u32 \<Rightarrow> tk_state \<Rightarrow> bool \<times> tk_state" where
  "needToGenerateNmeaReport e gpsTimeOfWeekMs tv_sec tv_nsec s =
     (if nmeaProviderAp e \<and> mTimeBasedTrackingSessions s \<noteq> []
      then (let currentTimeNsec = ucast tv_sec * 1000000000 + ucast tv_nsec;
                retVal = (nmeaRateNHz e \<or> 1000 \<le> pos_min_interval (mLocPositionMode s)
                  \<or> mPrevNmeaRptTimeNsec s = 0 \<or> (gpsTimeOfWeekMs \<noteq> 0 \<and> 99 \<ge> gpsTimeOfWeekMs mod 1000)
                  \<or> 975 \<le> (currentTimeNsec - mPrevNmeaRptTimeNsec s) div 1000000)
            in (retVal, if retVal then s\<lparr>mPrevNmeaRptTimeNsec := currentTimeNsec\<rparr> else s))
      else (False, s))"

text \<open>
  Of the report of a position, what concerns the source of corrections; \<open>gga\<close> is the GGA sentence generated
  from the position, if there is one.
\<close>

definition report_position :: "tk_env \<Rightarrow> u32 \<Rightarrow> u32 \<Rightarrow> u32 \<Rightarrow> string option \<Rightarrow> bool \<Rightarrow> tk_state \<Rightarrow> tk_state" where
  "report_position e gpsTimeOfWeekMs tv_sec tv_nsec gga isLocationValid s =
     (let (generate, s) = needToGenerateNmeaReport e gpsTimeOfWeekMs tv_sec tv_nsec s
      in if generate then on_dgnss (position_gga (isInSession s) (bootTime e) gga isLocationValid) s else s)"

section \<open>The threads\<close>

fun tk_proc :: "tk_env \<Rightarrow> tk_msg \<Rightarrow> tk_state \<Rightarrow> tk_state option" where
  "tk_proc e (MsgAddClient client callbacks) s =
     Some (debug_nmea e (saveClient (gnss_event_mask e (mEvtMask s)) client callbacks
       (notifyClientOfCachedLocationSystemInfo e client callbacks s)))"
| "tk_proc e (MsgRemoveClient client cb) s = Some
     (let s = tk_stopClientSessions client s;
          s = debug_nmea e (eraseClient (gnss_event_mask e (mEvtMask s)) client s)
      in if cb then tk_do [RemoveClientCb client] s else s)"
| "tk_proc e (MsgRequestCapabilities client) s = Some
     (if \<not> mIsEngineCapabilitiesKnown s then tk_pend (MsgRequestCapabilities client) s
      else if capabilitiesCb (getClientCallbacks client s)
      then tk_do [CapabilitiesCb client (getCapabilities (tk_engine e) s)] s else s)"
| "tk_proc e MsgReadConfig s = Some (tk_do [OtherPart readConfig] s)"
| "tk_proc e MsgHandleEngineUpEvent s = Some (handle_engine_up e s)"
| "tk_proc e (MsgStartTracking client i options) s = Some (start_tracking e client i options s)"
| "tk_proc e (MsgUpdateTracking client i options) s = update_tracking e client i options s"
| "tk_proc e (MsgStopTracking client i) s = Some (stop_tracking client i s)"
| "tk_proc e (MsgPowerStateCb cb) s =
     (if cb then Some (tk_do [PowerStateCb (mPowerOn s)] (s\<lparr>mPowerStateCb := True\<rparr>)) else None)"
| "tk_proc e (MsgConfigMinGpsWeek i week) s = Some (configMinGpsWeek e i week s)"
| "tk_proc e (MsgEnableNtrip params) s = Some (on_dgnss (handleEnablePPENtrip (isInSession s) (bootTime e) params) s)"
| "tk_proc e MsgDisableNtrip s = Some (on_dgnss handleDisablePPENtrip s)"
| "tk_proc e (MsgReportGGA nmea) s = do {
     d \<leftarrow> reportGGAToNtrip (isInSession s) (bootTime e) nmea (mDgnss s);
     Some (s\<lparr>mDgnss := d\<rparr>)
   }"
| "tk_proc e (MsgReportPosition tow sec nsec gga valid) s = Some (report_position e tow sec nsec gga valid s)"
| "tk_proc e MsgXtraStatusRequested s = Some (on_dgnss restartDgnssSource (tk_do [OtherPart onStatusRequested] s))"
| "tk_proc e (TkAnswered k err) s = Some (tk_answered e k err s)"

datatype tk_step_kind =
    AdapterStep tk_env
  | ApiStep LocationError
  | HubStep bool bool
  | ConsentStep bool
  | Command tk_msg

text \<open>
  A step: the adapter's thread runs its next message, the modem interface its next call with the answer
  given, the hub calls the adapter back, the consent to send the position changes, or a message is sent.
  A call without a response object is not answered.
\<close>

definition tk_step :: "tk_step_kind \<Rightarrow> tk_state \<Rightarrow> tk_state option" where
  "tk_step k s = (case k of
     AdapterStep e \<Rightarrow> (case tk_queue s of [] \<Rightarrow> Some s | msg # ms \<Rightarrow> tk_proc e msg (s\<lparr>tk_queue := ms\<rparr>))
   | ApiStep err \<Rightarrow> (case tk_api s of
       [] \<Rightarrow> Some s
     | (c, r) # cs \<Rightarrow> Some (let s = s\<lparr>tk_api := cs\<rparr> in if r = NullReply then s else tk_send (TkAnswered r err) s))
   | HubStep needed meas \<Rightarrow> Some (updateNHzRequirementCb needed meas s)
   | ConsentStep consent \<Rightarrow> Some (on_dgnss (mSendNmeaConsent_update (\<lambda>_. consent)) s)
   | Command msg \<Rightarrow> Some (tk_send msg s))"

fun tk_run :: "tk_step_kind list \<Rightarrow> tk_state \<Rightarrow> tk_state option" where
  "tk_run [] s = Some s"
| "tk_run (k # ks) s = Option.bind (tk_step k s) (tk_run ks)"

text \<open>The commands, which only send a message; a start hands out a session number.\<close>

definition startTrackingCommand :: "client \<Rightarrow> TrackingOptions \<Rightarrow> u32 \<Rightarrow> tk_state \<Rightarrow> u32 \<times> tk_state" where
  "startTrackingCommand client options counter s =
     (let sessionId = generateSessionId counter in (sessionId, tk_send (MsgStartTracking client sessionId options) s))"

definition updateTrackingOptionsCommand :: "client \<Rightarrow> u32 \<Rightarrow> TrackingOptions \<Rightarrow> tk_state \<Rightarrow> tk_state" where
  "updateTrackingOptionsCommand client i options s = tk_send (MsgUpdateTracking client i options) s"

definition stopTrackingCommand :: "client \<Rightarrow> u32 \<Rightarrow> tk_state \<Rightarrow> tk_state" where
  "stopTrackingCommand client i s = tk_send (MsgStopTracking client i) s"

definition getPowerStateChangesCommand :: "bool \<Rightarrow> tk_state \<Rightarrow> tk_state" where
  "getPowerStateChangesCommand cb s = tk_send (MsgPowerStateCb cb) s"

definition tk_handleEngineUpEvent :: "tk_state \<Rightarrow> tk_state" where
  "tk_handleEngineUpEvent s = tk_send MsgHandleEngineUpEvent (tk_send MsgReadConfig s)"

definition configMinGpsWeekCommand :: "u16 \<Rightarrow> u32 \<Rightarrow> tk_state \<Rightarrow> u32 \<times> tk_state" where
  "configMinGpsWeekCommand week counter s =
     (let sessionId = generateSessionId counter in (sessionId, tk_send (MsgConfigMinGpsWeek sessionId week) s))"

definition enablePPENtripStreamCommand :: "GnssNtripConnectionParams \<Rightarrow> tk_state \<Rightarrow> tk_state" where
  "enablePPENtripStreamCommand params s = (if ntrip_params_ok params then tk_send (MsgEnableNtrip params) s else s)"

definition disablePPENtripStreamCommand :: "tk_state \<Rightarrow> tk_state" where
  "disablePPENtripStreamCommand s = tk_send MsgDisableNtrip s"

text \<open>The tracking part of the adapter after its construction.\<close>

definition new_tracking :: "GnssNtripConnectionParams \<Rightarrow> tk_state" where
  "new_tracking junk =
     \<lparr>mClientData = [], mEvtMask = 0, mIsEngineCapabilitiesKnown = False, mPendingMsgs = [],
      mTimeBasedTrackingSessions = [], mDistanceBasedTrackingSessions = [],
      mLocPositionMode = default_LocPosMode\<lparr>pos_mode := LOC_POSITION_MODE_INVALID\<rparr>,
      mNHzNeeded = False, mSPEAlreadyRunningAtHighestInterval = False, mPowerOn = False, mPowerStateCb = False,
      mPrevNmeaRptTimeNsec = 0, mOdcpiRequestActive = False, mDgnss = new_dgnss junk,
      tk_queue = [], tk_api = [], tk_effects = []\<rparr>"

end
