(* ===== verification/TrackingPower.thy ===== *)
theory TrackingPower
  imports Tracking
begin

text \<open>
  The power state of the GNSS adapter: it is on exactly while there is a session of either kind, and whoever
  asked for its changes has last been told what it is, under every sequence of steps and whatever the modem answers.
  Operations that touch neither the sessions nor the power state keep \<open>power_view\<close>; the two that save and erase
  sessions report the change.
\<close>

section \<open>Power state\<close>

definition power_reports :: "tk_state \<Rightarrow> bool list" where
  "power_reports s = List.map_filter (\<lambda>e. case e of PowerStateCb b \<Rightarrow> Some b | _ \<Rightarrow> None) (tk_effects s)"

text \<open>What the power state depends on.\<close>

definition power_view :: "tk_state \<Rightarrow> _" where
  "power_view s = (mTimeBasedTrackingSessions s, mDistanceBasedTrackingSessions s, mPowerOn s, mPowerStateCb s, power_reports s)"

definition power_ok :: "tk_state \<Rightarrow> bool" where
  "power_ok s \<longleftrightarrow> mPowerOn s = (mTimeBasedTrackingSessions s \<noteq> [] \<or> mDistanceBasedTrackingSessions s \<noteq> [])
     \<and> (mPowerStateCb s \<longrightarrow> power_reports s \<noteq> [] \<and> last (power_reports s) = mPowerOn s)"

lemma power_ok_view: "power_view s = power_view t \<Longrightarrow> power_ok s = power_ok t"
  by (simp add: power_view_def power_ok_def)

lemma view_effects [simp]:
  "power_view (tk_send msg s) = power_view s" "power_view (tk_call_api c k s) = power_view s"
  "power_view (tk_pend msg s) = power_view s" "power_view (on_dgnss f s) = power_view s"
  "power_view (check_ntrip e s) = power_view s"
  by (simp_all add: power_view_def power_reports_def tk_send_def tk_call_api_def tk_pend_def on_dgnss_def check_ntrip_def)

lemma view_fields [simp]:
  "power_view (s\<lparr>tk_queue := q\<rparr>) = power_view s" "power_view (s\<lparr>tk_api := c\<rparr>) = power_view s"
  "power_view (s\<lparr>mSPEAlreadyRunningAtHighestInterval := b\<rparr>) = power_view s" "power_view (s\<lparr>mNHzNeeded := b\<rparr>) = power_view s"
  "power_view (s\<lparr>mPrevNmeaRptTimeNsec := n\<rparr>) = power_view s" "power_view (s\<lparr>mOdcpiRequestActive := b\<rparr>) = power_view s"
  "power_view (s\<lparr>mIsEngineCapabilitiesKnown := b\<rparr>) = power_view s" "power_view (s\<lparr>mPendingMsgs := ms\<rparr>) = power_view s"
  "power_view (s\<lparr>mLocPositionMode := m\<rparr>) = power_view s" "power_view (s\<lparr>mDgnss := d\<rparr>) = power_view s"
  "power_view (s\<lparr>mClientData := cs\<rparr>) = power_view s" "power_view (s\<lparr>mEvtMask := em\<rparr>) = power_view s"
  "power_view (s\<lparr>mClientData := cs, mEvtMask := em\<rparr>) = power_view s"
  "power_view (s\<lparr>tk_queue := q, mPendingMsgs := ms\<rparr>) = power_view s"
  by (simp_all add: power_view_def power_reports_def)

lemma power_reports_append [simp]:
  "power_reports (tk_do es s) = power_reports s @ List.map_filter (\<lambda>e. case e of PowerStateCb b \<Rightarrow> Some b | _ \<Rightarrow> None) es"
  by (simp add: power_reports_def tk_do_def map_filter_def)

lemma view_do: "(\<forall>x\<in>set es. \<forall>b. x \<noteq> PowerStateCb b) \<Longrightarrow> power_view (tk_do es s) = power_view s"
proof -
  assume "\<forall>x\<in>set es. \<forall>b. x \<noteq> PowerStateCb b"
  then have "List.map_filter (\<lambda>e. case e of PowerStateCb b \<Rightarrow> Some b | _ \<Rightarrow> None) es = []"
    by (induction es) (auto simp: map_filter_def split: tk_effect.splits)
  then show ?thesis by (simp add: power_view_def) (simp add: tk_do_def)
qed

lemma view_steps [simp]:
  "power_view (tk_reportResponse client err i s) = power_view s"
  "power_view (control_response e err i s) = power_view s"
  "power_view (answer_now b client i s) = power_view s"
  "power_view (setLocPositionMode m s) = power_view s"
  "power_view (updateEvtMask bits st s) = power_view s"
  "power_view (debug_nmea e s) = power_view s"
  "power_view (notifyClientOfCachedLocationSystemInfo e client cb s) = power_view s"
  "power_view (saveClient em client cb s) = power_view s" "power_view (eraseClient em client s) = power_view s"
  by (auto simp: tk_reportResponse_def control_response_def answer_now_def setLocPositionMode_def updateEvtMask_def debug_nmea_def
      notifyClientOfCachedLocationSystemInfo_def saveClient_def eraseClient_def view_do Let_def
      split: option.splits loc_registration_mask_status.splits)

lemma view_announce [simp]: "power_view (announce o1 s) = power_view s"
  by (simp add: announce_def Let_def view_do)

lemma view_check [simp]: "power_view (snd (snd (checkAndSetSPEToRunforNHz o1 s))) = power_view s"
  by (simp add: checkAndSetSPEToRunforNHz_def)

lemma view_start [simp]:
  "power_view (startTimeBasedTracking client i o1 s) = power_view s"
  "power_view (updateTracking client i o1 old s) = power_view s"
  "power_view (stopTracking client i s) = power_view s"
  "power_view (suspendSessions s) = power_view s"
  "power_view (checkAndRestartTimeBasedSession s) = power_view s"
  by (simp_all add: startTimeBasedTracking_def updateTracking_def stopTracking_def suspendSessions_def view_do
      checkAndRestartTimeBasedSession_def checkAndSetSPEToRunforNHz_def Let_def split: prod.splits)

lemma view_multiplex [simp]:
  "power_view (snd (startTimeBasedTrackingMultiplex client i o1 s)) = power_view s"
  "power_view (snd (stopTimeBasedTrackingMultiplex client i s)) = power_view s"
  by (simp_all add: startTimeBasedTrackingMultiplex_def stopTimeBasedTrackingMultiplex_def Let_def split: prod.splits option.splits)

lemma view_update_multiplex:
  "updateTrackingMultiplex client i o1 s = Some (b, s') \<Longrightarrow> power_view s' = power_view s"
  by (auto simp: updateTrackingMultiplex_def Let_def split: option.splits if_splits prod.splits)

lemma view_foldl: "(\<And>s x. power_view (f s x) = power_view s) \<Longrightarrow> power_view (foldl f s xs) = power_view s"
  by (induction xs arbitrary: s) auto

lemma view_restart [simp]:
  "power_view (checkAndRestartSPESession s) = power_view s"
  "power_view (tk_restartSessions e b s) = power_view s"
  by (simp_all add: checkAndRestartSPESession_def tk_restartSessions_def Let_def view_foldl view_do)

lemma view_more [simp]:
  "power_view (configMinGpsWeek e i w s) = power_view s"
  "power_view (updateNHzRequirementCb a b s) = power_view s"
  "power_view (handle_engine_up e s) = power_view s"
  "power_view (report_position e tow sec nsec gga v s) = power_view s"
  by (auto simp: report_position_def needToGenerateNmeaReport_def configMinGpsWeek_def updateNHzRequirementCb_def handle_engine_up_def Let_def view_do case_prod_beta)

text \<open>After the report the power state is right again, whatever has become of the sessions.\<close>

lemma power_reported:
  assumes "mPowerStateCb s \<longrightarrow> power_reports s \<noteq> [] \<and> last (power_reports s) = mPowerOn s"
  shows "power_ok (reportPowerStateIfChanged s)"
proof -
  have "power_reports (s\<lparr>mPowerOn := b\<rparr>) = power_reports s" for b by (simp add: power_reports_def)
  then show ?thesis using assms
    by (auto simp: reportPowerStateIfChanged_def power_ok_def Let_def map_filter_def)
      (auto simp: tk_do_def)
qed

lemma power_save: "power_ok s \<Longrightarrow> power_ok (saveTrackingSession e client i o1 s)"
  unfolding saveTrackingSession_def Let_def
  by (rule power_reported) (auto simp: power_ok_def power_reports_def)

lemma power_erase: "power_ok s \<Longrightarrow> power_ok (eraseTrackingSession client i s)"
  unfolding eraseTrackingSession_def Let_def
  by (rule power_reported) (auto simp: power_ok_def power_reports_def)

lemma power_congs [simp]:
  "power_ok (tk_send msg s) = power_ok s" "power_ok (tk_call_api c k s) = power_ok s" "power_ok (tk_pend msg s) = power_ok s"
  "power_ok (on_dgnss f s) = power_ok s" "power_ok (check_ntrip e s) = power_ok s" "power_ok (s\<lparr>tk_queue := q\<rparr>) = power_ok s"
  "power_ok (s\<lparr>tk_api := a\<rparr>) = power_ok s" "power_ok (s\<lparr>mDgnss := d\<rparr>) = power_ok s"
  "power_ok (tk_reportResponse client err i s) = power_ok s" "power_ok (control_response e err i s) = power_ok s"
  "power_ok (answer_now now client i s) = power_ok s" "power_ok (configMinGpsWeek e i w s) = power_ok s"
  "power_ok (updateNHzRequirementCb x y s) = power_ok s" "power_ok (handle_engine_up e s) = power_ok s"
  "power_ok (report_position e tow sec nsec gga v s) = power_ok s"
  "power_ok (debug_nmea e s) = power_ok s" "power_ok (saveClient em client cb s) = power_ok s"
  "power_ok (notifyClientOfCachedLocationSystemInfo e client cb s) = power_ok s" "power_ok (eraseClient em client s) = power_ok s"
  "power_ok (snd (startTimeBasedTrackingMultiplex client i o1 s)) = power_ok s"
  "power_ok (snd (stopTimeBasedTrackingMultiplex client i s)) = power_ok s"
  by (rule power_ok_view; simp)+

lemma power_do: "(\<forall>x\<in>set es. \<forall>b. x \<noteq> PowerStateCb b) \<Longrightarrow> power_ok (tk_do es s) = power_ok s"
  by (rule power_ok_view) (rule view_do)

lemma power_foldl: "(\<And>s x. power_ok s \<Longrightarrow> power_ok (f s x)) \<Longrightarrow> power_ok s \<Longrightarrow> power_ok (foldl f s xs)"
  by (induction xs arbitrary: s) auto

lemma power_time_session:
  "power_ok s \<Longrightarrow> power_ok (start_time_session e client i o1 s)" "power_ok s \<Longrightarrow> power_ok (stop_time_session client i s)"
  by (auto simp: start_time_session_def stop_time_session_def case_prod_beta intro!: power_save power_erase)

lemma power_commands:
  "power_ok s \<Longrightarrow> power_ok (start_tracking e client i o1 s)" "power_ok s \<Longrightarrow> power_ok (stop_tracking client i s)"
  "power_ok s \<Longrightarrow> power_ok (tk_stopClientSessions client s)"
  by (auto simp: start_tracking_def stop_tracking_def tk_stopClientSessions_def Let_def
      intro!: power_save power_erase power_time_session power_foldl)

lemma power_update:
  assumes "power_ok s" "update_tracking e client i o1 s = Some s'" shows "power_ok s'"
proof -
  have "power_ok t" if "updateTrackingMultiplex client i (clamp_interval (limit_tbm o1)) s = Some (b, t)" for b t
    using power_ok_view[OF view_update_multiplex[OF that]] assms(1) by simp
  then show ?thesis using assms
    by (auto simp: update_tracking_def Let_def case_prod_beta Option.bind_eq_Some_conv split: if_splits
        intro!: power_save power_erase)
qed

lemma power_answered: "power_ok s \<Longrightarrow> power_ok (tk_answered e k err s)"
  by (cases k) (auto simp: start_time_reply_def update_time_reply_def intro!: power_save power_erase power_time_session)

lemma power_proc: "power_ok s \<Longrightarrow> tk_proc e msg s = Some s' \<Longrightarrow> power_ok s'"
proof (cases msg)
  case (MsgPowerStateCb cb)
  assume "power_ok s" "tk_proc e msg s = Some s'"
  moreover have "power_reports (s\<lparr>mPowerStateCb := True\<rparr>) = power_reports s" by (simp add: power_reports_def)
  ultimately show ?thesis using MsgPowerStateCb
    by (auto simp: power_ok_def map_filter_def split: if_splits) (auto simp: tk_do_def)
qed (auto simp: Let_def power_do Option.bind_eq_Some_conv intro: power_commands power_update power_answered)

lemma power_step: "power_ok s \<Longrightarrow> tk_step k s = Some s' \<Longrightarrow> power_ok s'"
  by (auto simp: tk_step_def Let_def split: tk_step_kind.splits list.splits prod.splits if_splits dest!: power_proc[rotated])

lemma power_run: "power_ok s \<Longrightarrow> tk_run ks s = Some s' \<Longrightarrow> power_ok s'"
  by (induction ks arbitrary: s) (auto simp: Option.bind_eq_Some_conv intro: power_step)

text \<open>
  C15. After any sequence of steps, whatever the modem answers, the power state is on exactly while a time based
  or distance based session exists, and once a power state callback is registered the last value it was
  given is the power state.
\<close>

theorem power_state_reported:
  assumes "tk_run ks (new_tracking junk) = Some s"
  shows "mPowerOn s = (mTimeBasedTrackingSessions s \<noteq> [] \<or> mDistanceBasedTrackingSessions s \<noteq> [])
    \<and> (mPowerStateCb s \<longrightarrow> power_reports s \<noteq> [] \<and> last (power_reports s) = mPowerOn s)"
proof -
  have "power_ok (new_tracking junk)" by (simp add: power_ok_def new_tracking_def)
  then show ?thesis using power_run[OF _ assms] by (simp add: power_ok_def)
qed

end
