(* ===== verification/TrackingRun.thy ===== *)
theory TrackingRun
  imports TrackingPower
begin

text \<open>
  What the modem is asked for. \<open>asked\<close> is the time based session the modem will have once the calls under way are
  worked off; \<open>covered\<close> is the invariant that it runs exactly while the adapter has time based sessions, at least as
  fast as each of them wants, and that the flag for the high rate is right. Every orderly step keeps it: the modem succeeds and
  supports distance based tracking. \<open>lines_ok\<close> says that what the closures under way have captured was checked.
\<close>

section \<open>What the modem is asked for\<close>

text \<open>The time based session of the modem: a call that succeeds replaces it or ends it.\<close>

fun ask :: "tk_call \<Rightarrow> TrackingOptions option \<Rightarrow> TrackingOptions option" where
  "ask (ApiStartTimeBasedTracking o1) m = Some o1"
| "ask ApiStopFix m = None"
| "ask (ApiStartDistanceBasedTracking i o1) m = m"
| "ask (ApiStopDistanceBasedTracking i) m = m"
| "ask (ApiConfigMinGpsWeek w) m = m"

text \<open>What it will be once the calls under way are worked off.\<close>

definition asked :: "TrackingOptions option \<Rightarrow> tk_state \<Rightarrow> TrackingOptions option" where
  "asked m s = foldl (\<lambda>m c. ask (fst c) m) m (tk_api s)"

text \<open>The modem runs exactly while there is a time based session, at least as fast as each of them wants.\<close>

definition covers :: "TrackingOptions option \<Rightarrow> (LocationSessionKey \<times> TrackingOptions) list \<Rightarrow> bool" where
  "covers a ss = (case a of None \<Rightarrow> ss = []
     | Some o1 \<Rightarrow> ss \<noteq> [] \<and> (\<forall>p\<in>set ss. minInterval o1 \<le> minInterval (snd p)))"

definition good_options :: "TrackingOptions \<Rightarrow> bool" where
  "good_options o1 \<longleftrightarrow> opt_size o1 \<noteq> 0 \<and> MIN_TRACKING_INTERVAL \<le> minInterval o1"

definition sessions_ok :: "tk_state \<Rightarrow> bool" where
  "sessions_ok s \<longleftrightarrow> smap_ok (mTimeBasedTrackingSessions s)
     \<and> (\<forall>p\<in>set (mTimeBasedTrackingSessions s). good_options (snd p))"

text \<open>The flag that the modem runs at the shortest interval is set only while this is needed and asked for.\<close>

definition flag_ok :: "TrackingOptions option \<Rightarrow> tk_state \<Rightarrow> bool" where
  "flag_ok m s \<longleftrightarrow> (mSPEAlreadyRunningAtHighestInterval s \<longrightarrow>
     mNHzNeeded s \<and> (\<exists>o1. asked m s = Some o1 \<and> minInterval o1 \<le> MIN_TRACKING_INTERVAL))"

definition covered :: "TrackingOptions option \<Rightarrow> tk_state \<Rightarrow> bool" where
  "covered m s \<longleftrightarrow> sessions_ok s \<and> flag_ok m s \<and> covers (asked m s) (mTimeBasedTrackingSessions s)"

section \<open>The loops find the smallest interval\<close>

primrec smallest :: "TrackingOptions list \<Rightarrow> TrackingOptions \<Rightarrow> TrackingOptions" where
  "smallest [] mo = mo"
| "smallest (o1 # os) mo = smallest os (if opt_size mo = 0 \<or> minInterval o1 < minInterval mo then o1 else mo)"

lemma smallest_le:
  "\<forall>o1\<in>set os. opt_size o1 \<noteq> 0 \<Longrightarrow> opt_size mo \<noteq> 0 \<Longrightarrow>
   minInterval (smallest os mo) \<le> minInterval mo \<and> (\<forall>o1\<in>set os. minInterval (smallest os mo) \<le> minInterval o1)
   \<and> (smallest os mo = mo \<or> smallest os mo \<in> set os)"
proof (induction os arbitrary: mo)
  case (Cons o1 os)
  define mo1 where "mo1 = (if opt_size mo = 0 \<or> minInterval o1 < minInterval mo then o1 else mo)"
  have m: "smallest (o1 # os) mo = smallest os mo1" by (simp add: mo1_def)
  have 1: "opt_size mo1 \<noteq> 0" "minInterval mo1 \<le> minInterval mo" "minInterval mo1 \<le> minInterval o1" "mo1 = mo \<or> mo1 = o1"
    using Cons.prems by (auto simp: mo1_def)
  show ?case using Cons.IH[of mo1] Cons.prems 1 unfolding m by (auto intro: order_trans)
qed simp

lemma smallest_zero:
  assumes "\<forall>o1\<in>set os. opt_size o1 \<noteq> 0" "os \<noteq> []"
  shows "smallest os zero_options \<in> set os \<and> (\<forall>o1\<in>set os. minInterval (smallest os zero_options) \<le> minInterval o1)"
proof -
  obtain o1 os' where "os = o1 # os'" using assms(2) by (cases os) auto
  moreover have "smallest (o1 # os') zero_options = smallest os' o1" by (simp add: zero_options_def)
  ultimately show ?thesis using smallest_le[of os' o1] assms(1) by auto
qed

definition others :: "LocationSessionKey option \<Rightarrow> (LocationSessionKey \<times> TrackingOptions) list \<Rightarrow> TrackingOptions list" where
  "others skip ss = map snd (filter (\<lambda>p. Some (fst p) \<noteq> skip) ss)"

lemma multiplex_smallest: "fst (multiplex skip ss mo mp) = smallest (others skip ss) mo"
  by (induction skip ss mo mp rule: multiplex.induct) (auto simp: others_def)

lemma restart_smallest: "fst (smallest_loop ss si hp) = smallest (map snd ss) si"
  by (induction ss si hp rule: smallest_loop.induct) auto

section \<open>What the requests depend on\<close>

definition track_view :: "tk_state \<Rightarrow> _" where
  "track_view s = (mTimeBasedTrackingSessions s, mSPEAlreadyRunningAtHighestInterval s, tk_api s, tk_queue s, mPendingMsgs s,
     mNHzNeeded s)"

lemma track_viewD:
  assumes "track_view s = track_view t"
  shows "mTimeBasedTrackingSessions s = mTimeBasedTrackingSessions t"
    "mSPEAlreadyRunningAtHighestInterval s = mSPEAlreadyRunningAtHighestInterval t"
    "tk_api s = tk_api t" "tk_queue s = tk_queue t" "mPendingMsgs s = mPendingMsgs t" "mNHzNeeded s = mNHzNeeded t"
  using assms by (simp_all add: track_view_def)

lemma track_fields [simp]:
  "track_view (tk_do es s) = track_view s" "track_view (on_dgnss f s) = track_view s" "track_view (check_ntrip e s) = track_view s"
  "track_view (tk_reportResponse client err i s) = track_view s" "track_view (control_response e err i s) = track_view s"
  "track_view (answer_now b client i s) = track_view s" "track_view (setLocPositionMode m s) = track_view s"
  "track_view (reportPowerStateIfChanged s) = track_view s" "track_view (announce o1 s) = track_view s"
  "track_view (updateEvtMask bits st s) = track_view s" "track_view (debug_nmea e s) = track_view s"
  "track_view (notifyClientOfCachedLocationSystemInfo e client cb s) = track_view s"
  "track_view (saveClient em client cb s) = track_view s" "track_view (eraseClient em client s) = track_view s"
  "track_view (s\<lparr>mPrevNmeaRptTimeNsec := n\<rparr>) = track_view s" "track_view (s\<lparr>mOdcpiRequestActive := b\<rparr>) = track_view s"
  "track_view (s\<lparr>mIsEngineCapabilitiesKnown := b\<rparr>) = track_view s"
  "track_view (report_position e tow sec nsec gga v s) = track_view s"
  "track_view (s\<lparr>mDgnss := d\<rparr>) = track_view s" "track_view (s\<lparr>mPowerStateCb := b\<rparr>) = track_view s"
  by (simp_all add: track_view_def tk_do_def on_dgnss_def check_ntrip_def tk_reportResponse_def control_response_def
      answer_now_def setLocPositionMode_def reportPowerStateIfChanged_def announce_def updateEvtMask_def debug_nmea_def
      notifyClientOfCachedLocationSystemInfo_def saveClient_def eraseClient_def report_position_def needToGenerateNmeaReport_def Let_def
      split: option.splits loc_registration_mask_status.splits)

lemmas track_sel [simp] = track_fields[THEN track_viewD(1)] track_fields[THEN track_viewD(2)] track_fields[THEN track_viewD(3)]
  track_fields[THEN track_viewD(4)] track_fields[THEN track_viewD(5)] track_fields[THEN track_viewD(6)]

lemma track_send [simp]:
  "mTimeBasedTrackingSessions (tk_call_api c k s) = mTimeBasedTrackingSessions s"
  "mSPEAlreadyRunningAtHighestInterval (tk_call_api c k s) = mSPEAlreadyRunningAtHighestInterval s"
  "tk_api (tk_call_api c k s) = tk_api s @ [(c, k)]" "tk_queue (tk_call_api c k s) = tk_queue s"
  "mPendingMsgs (tk_call_api c k s) = mPendingMsgs s" "mNHzNeeded (tk_call_api c k s) = mNHzNeeded s"
  "mNHzNeeded (tk_send msg s) = mNHzNeeded s" "mNHzNeeded (tk_pend msg s) = mNHzNeeded s"
  "mTimeBasedTrackingSessions (tk_send msg s) = mTimeBasedTrackingSessions s"
  "mSPEAlreadyRunningAtHighestInterval (tk_send msg s) = mSPEAlreadyRunningAtHighestInterval s"
  "tk_api (tk_send msg s) = tk_api s" "tk_queue (tk_send msg s) = tk_queue s @ [msg]" "mPendingMsgs (tk_send msg s) = mPendingMsgs s"
  "mTimeBasedTrackingSessions (tk_pend msg s) = mTimeBasedTrackingSessions s"
  "mSPEAlreadyRunningAtHighestInterval (tk_pend msg s) = mSPEAlreadyRunningAtHighestInterval s"
  "tk_api (tk_pend msg s) = tk_api s" "tk_queue (tk_pend msg s) = tk_queue s" "mPendingMsgs (tk_pend msg s) = mPendingMsgs s @ [msg]"
  by (simp_all add: tk_call_api_def tk_send_def tk_pend_def)

lemma asked_call [simp]: "asked m (tk_call_api c k s) = ask c (asked m s)"
  by (simp add: asked_def)

lemma covered_fields:
  "mTimeBasedTrackingSessions s = mTimeBasedTrackingSessions t \<Longrightarrow>
   mSPEAlreadyRunningAtHighestInterval s = mSPEAlreadyRunningAtHighestInterval t \<Longrightarrow>
   mNHzNeeded s = mNHzNeeded t \<Longrightarrow> asked m s = asked n t \<Longrightarrow>
   covered m s = covered n t"
  by (simp add: covered_def sessions_ok_def flag_ok_def)

lemma asked_api: "tk_api s = tk_api t \<Longrightarrow> asked m s = asked m t"
  by (simp add: asked_def)

lemma covered_view: "track_view s = track_view t \<Longrightarrow> covered m s = covered m t"
  using track_viewD[of s t] by (intro covered_fields asked_api) auto

lemma covered_simps [simp]:
  "covered m (tk_do es s) = covered m s" "covered m (on_dgnss f s) = covered m s" "covered m (check_ntrip e s) = covered m s"
  "covered m (tk_reportResponse client err i s) = covered m s" "covered m (control_response e err i s) = covered m s"
  "covered m (answer_now b client i s) = covered m s" "covered m (reportPowerStateIfChanged s) = covered m s"
  "covered m (updateEvtMask bits st s) = covered m s" "covered m (debug_nmea e s) = covered m s"
  "covered m (notifyClientOfCachedLocationSystemInfo e client cb s) = covered m s"
  "covered m (saveClient em client cb s) = covered m s" "covered m (eraseClient em client s) = covered m s"
  "covered m (report_position e tow sec nsec gga v s) = covered m s"
  "covered m (s\<lparr>mDgnss := d\<rparr>) = covered m s" "covered m (s\<lparr>mPowerStateCb := b\<rparr>) = covered m s"
  by (rule covered_view; simp)+

lemma covered_queue [simp]:
  "covered m (s\<lparr>tk_queue := q\<rparr>) = covered m s" "covered m (tk_send msg s) = covered m s" "covered m (tk_pend msg s) = covered m s"
  "covered m (s\<lparr>tk_queue := q, mPendingMsgs := ms\<rparr>) = covered m s"
  "covered m (s\<lparr>mDistanceBasedTrackingSessions := ds\<rparr>) = covered m s"
  by (rule covered_fields; simp add: asked_def)+

lemma covered_call [simp]: "\<forall>a. ask c a = a \<Longrightarrow> covered m (tk_call_api c k s) = covered m s"
  by (rule covered_fields) auto

section \<open>Requests\<close>

definition request_ok :: "TrackingOptions option \<Rightarrow> u32 \<Rightarrow> tk_state \<Rightarrow> tk_state \<Rightarrow> bool" where
  "request_ok m n s s' \<longleftrightarrow> mTimeBasedTrackingSessions s' = mTimeBasedTrackingSessions s \<and> flag_ok m s'
     \<and> (\<exists>a. asked m s' = Some a \<and> minInterval a \<le> n)"

lemma check_sel [simp]:
  "mTimeBasedTrackingSessions (snd (snd (checkAndSetSPEToRunforNHz o1 s))) = mTimeBasedTrackingSessions s"
  "tk_api (snd (snd (checkAndSetSPEToRunforNHz o1 s))) = tk_api s"
  by (simp_all add: checkAndSetSPEToRunforNHz_def)

lemma check_request:
  assumes "flag_ok m s" "MIN_TRACKING_INTERVAL \<le> minInterval o1"
  shows "let (already, o2, s') = checkAndSetSPEToRunforNHz o1 s in
    request_ok m (minInterval o1) s (if \<not> already then tk_call_api (ApiStartTimeBasedTracking o2) k s' else s')"
  using assms by (auto simp: checkAndSetSPEToRunforNHz_def request_ok_def flag_ok_def asked_def tk_call_api_def intro: order_trans)

lemma request_view:
  "track_view s1 = track_view s \<Longrightarrow> track_view s2 = track_view s' \<Longrightarrow> request_ok m n s1 s2 = request_ok m n s s'"
  using track_viewD[of s1 s] track_viewD[of s2 s'] asked_api[of s2 s' m]
  by (simp add: request_ok_def flag_ok_def)

lemma track_request:
  assumes "flag_ok m s" "MIN_TRACKING_INTERVAL \<le> minInterval o1"
  shows "request_ok m (minInterval o1) s (startTimeBasedTracking client i o1 s)"
    "request_ok m (minInterval o1) s (updateTracking client i o1 old s)"
proof -
  have v: "track_view (announce o1 s) = track_view s" by simp
  have f: "flag_ok m (announce o1 s)"
    using assms(1) asked_api[of "announce o1 s" s m] by (simp add: flag_ok_def)
  obtain b o2 s1 where c: "checkAndSetSPEToRunforNHz o1 (announce o1 s) = (b, o2, s1)" by (metis prod_cases3)
  have r: "request_ok m (minInterval o1) s (if \<not> b then tk_call_api (ApiStartTimeBasedTracking o2) k s1 else s1)" for k
    using check_request[OF f assms(2), of k] request_view[OF v refl] by (simp add: c)
  show "request_ok m (minInterval o1) s (startTimeBasedTracking client i o1 s)"
    using r[of "StartTimeReply client i"] request_view[OF refl, of "tk_reportResponse client LOCATION_ERROR_SUCCESS i s1" s1]
    by (simp add: startTimeBasedTracking_def Let_def c split: if_splits)
  show "request_ok m (minInterval o1) s (updateTracking client i o1 old s)"
    using r[of "UpdateTimeReply client i old"] request_view[OF refl, of "tk_reportResponse client LOCATION_ERROR_SUCCESS i s1" s1]
    by (simp add: updateTracking_def Let_def c split: if_splits)
qed

section \<open>Sessions\<close>

lemma set_put_session:
  assumes "smap_ok ss" "p \<in> set (sm_put k v ss)" shows "p = (k, v) \<or> p \<in> set ss \<and> fst p \<noteq> k"
proof -
  have "map_of (sm_put k v ss) (fst p) = Some (snd p)"
    using assms(2) sm_find_mem[OF sm.put_ok[OF assms(1)], of "fst p" "snd p"] by simp
  then show ?thesis using assms(1) sm_find_mem[OF assms(1), of "fst p" "snd p"] by (auto simp: sm.find_put prod_eq_iff split: if_splits)
qed

lemma put_not_Nil [simp]: "sm_put k v ss \<noteq> []"
  by (simp add: sm_put_def)

lemma covers_put:
  assumes "smap_ok ss" "minInterval a \<le> minInterval o1" "\<forall>p\<in>set ss. fst p \<noteq> k \<longrightarrow> minInterval a \<le> minInterval (snd p)"
  shows "covers (Some a) (sm_put k o1 ss)"
  using assms set_put_session[OF assms(1)] by (fastforce simp: covers_def)

lemma save_time_sel [simp]:
  "tk_api (saveTrackingSession e client i o1 s) = tk_api s" "tk_queue (saveTrackingSession e client i o1 s) = tk_queue s"
  "mPendingMsgs (saveTrackingSession e client i o1 s) = mPendingMsgs s"
  "mSPEAlreadyRunningAtHighestInterval (saveTrackingSession e client i o1 s) = mSPEAlreadyRunningAtHighestInterval s"
  "mNHzNeeded (saveTrackingSession e client i o1 s) = mNHzNeeded s"
  "mTimeBasedTrackingSessions (saveTrackingSession e client i o1 s) =
     (if minDistance o1 > 0 \<and> isMessageSupported (tk_engine e) DISTANCE_BASE_TRACKING then mTimeBasedTrackingSessions s
      else sm_put (LocationSessionKey client i) o1 (mTimeBasedTrackingSessions s))"
  by (simp_all add: saveTrackingSession_def Let_def)

lemma erase_time_sel [simp]:
  "tk_api (eraseTrackingSession client i s) = tk_api s" "tk_queue (eraseTrackingSession client i s) = tk_queue s"
  "mPendingMsgs (eraseTrackingSession client i s) = mPendingMsgs s"
  "mSPEAlreadyRunningAtHighestInterval (eraseTrackingSession client i s) = mSPEAlreadyRunningAtHighestInterval s"
  "mNHzNeeded (eraseTrackingSession client i s) = mNHzNeeded s"
  by (simp_all add: eraseTrackingSession_def Let_def)

lemma erase_time_absent: "map_of ss k = None \<Longrightarrow> sm_erase k ss = ss"
  by (force simp: sm_erase_def map_of_eq_None_iff filter_id_conv)

lemma erase_time_sessions [simp]:
  "mTimeBasedTrackingSessions (eraseTrackingSession client i s) =
     sm_erase (LocationSessionKey client i) (mTimeBasedTrackingSessions s)"
  by (auto simp: eraseTrackingSession_def Let_def erase_time_absent)

lemma save_distance:
  "minDistance o1 > 0 \<Longrightarrow> isMessageSupported (tk_engine e) DISTANCE_BASE_TRACKING \<Longrightarrow>
   covered m (saveTrackingSession e client i o1 s) = covered m s"
  by (rule covered_fields) (simp_all add: asked_def)

lemma save_time_covered:
  assumes "sessions_ok s" "flag_ok m s" "good_options o1" "minDistance o1 = 0"
    "covers (asked m s) (sm_put (LocationSessionKey client i) o1 (mTimeBasedTrackingSessions s))"
  shows "covered m (saveTrackingSession e client i o1 s)"
proof -
  have "asked m (saveTrackingSession e client i o1 s) = asked m s" by (rule asked_api) simp
  moreover have "sessions_ok (saveTrackingSession e client i o1 s)"
    using assms(1,3,4) set_put_session by (fastforce simp: sessions_ok_def sm.put_ok)
  ultimately show ?thesis using assms(2,4,5) by (simp add: covered_def flag_ok_def)
qed

lemma erase_time_covered:
  assumes "sessions_ok s" "flag_ok m s" "covers (asked m s) (sm_erase (LocationSessionKey client i) (mTimeBasedTrackingSessions s))"
  shows "covered m (eraseTrackingSession client i s)"
proof -
  have "asked m (eraseTrackingSession client i s) = asked m s" by (rule asked_api) simp
  moreover have "sessions_ok (eraseTrackingSession client i s)"
    using assms(1) by (auto simp: sessions_ok_def sm.erase_ok) (auto simp: sm_erase_def)
  ultimately show ?thesis using assms(2,3) by (simp add: covered_def flag_ok_def)
qed

lemma good_sizes: "sessions_ok s \<Longrightarrow> \<forall>o1\<in>set (others skip (mTimeBasedTrackingSessions s)). opt_size o1 \<noteq> 0"
  by (auto simp: sessions_ok_def good_options_def others_def)

lemma others_None [simp]: "others None ss = map snd ss"
  by (simp add: others_def)

lemma request_covers:
  assumes "request_ok m n s s'" "smap_ok (mTimeBasedTrackingSessions s)" "n \<le> minInterval o1"
    "\<forall>p\<in>set (mTimeBasedTrackingSessions s). fst p \<noteq> k \<longrightarrow> n \<le> minInterval (snd p)"
  shows "covers (asked m s') (sm_put k o1 (mTimeBasedTrackingSessions s'))"
proof -
  from assms(1) obtain a where a: "asked m s' = Some a" "minInterval a \<le> n" "mTimeBasedTrackingSessions s' = mTimeBasedTrackingSessions s"
    by (auto simp: request_ok_def)
  have "covers (Some a) (sm_put k o1 (mTimeBasedTrackingSessions s))"
    using a(2) assms(2-4) by (intro covers_put) (auto intro: order_trans)
  then show ?thesis by (simp add: a)
qed

text \<open>What the loop finds when there is another session.\<close>

lemma multiplex_others:
  assumes "sessions_ok s" "others skip (mTimeBasedTrackingSessions s) \<noteq> []"
    "multiplex skip (mTimeBasedTrackingSessions s) zero_options GNSS_POWER_MODE_INVALID = (mo, mp)"
  shows "mo \<in> set (others skip (mTimeBasedTrackingSessions s))"
    "\<forall>o1\<in>set (others skip (mTimeBasedTrackingSessions s)). minInterval mo \<le> minInterval o1"
    "MIN_TRACKING_INTERVAL \<le> minInterval mo"
proof -
  have "mo = smallest (others skip (mTimeBasedTrackingSessions s)) zero_options"
    using multiplex_smallest[of skip "mTimeBasedTrackingSessions s" zero_options GNSS_POWER_MODE_INVALID] assms(3) by simp
  then show mo: "mo \<in> set (others skip (mTimeBasedTrackingSessions s))"
      "\<forall>o1\<in>set (others skip (mTimeBasedTrackingSessions s)). minInterval mo \<le> minInterval o1"
    using smallest_zero[OF good_sizes[OF assms(1)] assms(2)] by auto
  then show "MIN_TRACKING_INTERVAL \<le> minInterval mo"
    using assms(1) by (auto simp: sessions_ok_def good_options_def others_def)
qed

text \<open>The options asked for when the new ones take part.\<close>

definition joined :: "TrackingOptions \<Rightarrow> TrackingOptions \<Rightarrow> u32 \<Rightarrow> TrackingOptions" where
  "joined o1 mo mp =
     (let mo = (if minInterval o1 < minInterval mo then mo\<lparr>minInterval := minInterval o1\<rparr> else mo)
      in if powerMode o1 < mp then mo\<lparr>powerMode := powerMode o1\<rparr> else mo)"

lemma joined_interval [simp]: "minInterval (joined o1 mo mp) = min (minInterval o1) (minInterval mo)"
  by (auto simp: joined_def Let_def min_def)

lemma start_multiplex_joined:
  assumes "mTimeBasedTrackingSessions s \<noteq> []"
    "multiplex None (mTimeBasedTrackingSessions s) zero_options GNSS_POWER_MODE_INVALID = (mo, mp)"
  shows "startTimeBasedTrackingMultiplex client i o1 s =
     (if minInterval o1 < minInterval mo \<or> powerMode o1 < mp
      then (False, startTimeBasedTracking client i (joined o1 mo mp) s) else (True, s))"
  using assms by (simp add: startTimeBasedTrackingMultiplex_def joined_def)

lemma start_covered:
  assumes "covered m s" "good_options o1" "minDistance o1 = 0"
  shows "covered m (start_time_session e client i o1 s)"
proof -
  let ?ss = "mTimeBasedTrackingSessions s" and ?k = "LocationSessionKey client i"
  let ?r = "startTimeBasedTrackingMultiplex client i o1 s"
  have ok: "sessions_ok s" "flag_ok m s" "covers (asked m s) ?ss" "smap_ok ?ss"
    using assms(1) by (auto simp: covered_def sessions_ok_def)
  have good: "MIN_TRACKING_INTERVAL \<le> minInterval o1" using assms(2) by (simp add: good_options_def)
  have save: "covered m (start_time_session e client i o1 s)"
    if "sessions_ok (snd ?r)" "flag_ok m (snd ?r)" "covers (asked m (snd ?r)) (sm_put ?k o1 (mTimeBasedTrackingSessions (snd ?r)))"
    using save_time_covered[OF that(1,2) assms(2,3) that(3)] by (simp add: start_time_session_def case_prod_beta)
  have requested: "covered m (start_time_session e client i o1 s)"
    if r: "request_ok m n s (snd ?r)" and n: "n \<le> minInterval o1" "\<forall>p\<in>set ?ss. n \<le> minInterval (snd p)" for n
    by (rule save) (use r n ok request_covers[OF r ok(4) n(1), of ?k] in \<open>auto simp: request_ok_def sessions_ok_def\<close>)
  show ?thesis
  proof (cases "?ss = []")
    case True
    have f: "flag_ok m (s\<lparr>mPrevNmeaRptTimeNsec := 0\<rparr>)" using ok(2) by (simp add: flag_ok_def asked_def)
    have "request_ok m (minInterval o1) s (snd ?r)"
      using track_request(1)[OF f good, of client i] request_view[of "s\<lparr>mPrevNmeaRptTimeNsec := 0\<rparr>" s] True
      by (simp add: startTimeBasedTrackingMultiplex_def)
    then show ?thesis by (rule requested) (simp_all add: True)
  next
    case False
    obtain mo mp where mux: "multiplex None ?ss zero_options GNSS_POWER_MODE_INVALID = (mo, mp)" by fastforce
    note r = start_multiplex_joined[OF False mux, of client i o1]
    have mo: "mo \<in> snd ` set ?ss" "\<forall>p\<in>set ?ss. minInterval mo \<le> minInterval (snd p)" "MIN_TRACKING_INTERVAL \<le> minInterval mo"
      using multiplex_others[OF ok(1) _ mux] False by auto
    show ?thesis
    proof (cases "minInterval o1 < minInterval mo \<or> powerMode o1 < mp")
      case True
      show ?thesis
        by (rule requested[of "minInterval (joined o1 mo mp)"])
          (use track_request(1)[OF ok(2), of "joined o1 mo mp" client i] True good mo in \<open>auto simp: r min.coboundedI2\<close>)
    next
      case n: False
      from ok(3) False obtain a where a: "asked m s = Some a" "\<forall>p\<in>set ?ss. minInterval a \<le> minInterval (snd p)"
        by (auto simp: covers_def split: option.splits)
      have "minInterval a \<le> minInterval o1" using a(2) mo(1) n by (auto intro: order_trans)
      with a have "covers (asked m s) (sm_put ?k o1 ?ss)" by (simp add: covers_put[OF ok(4)])
      then show ?thesis by (intro save) (use n ok in \<open>simp_all add: r\<close>)
    qed
  qed
qed

lemma update_multiplex_joined:
  assumes "map_of (mTimeBasedTrackingSessions s) (LocationSessionKey client i) = Some old"
    "multiplex (Some (LocationSessionKey client i)) (mTimeBasedTrackingSessions s) zero_options GNSS_POWER_MODE_INVALID = (mo, mp)"
  shows "updateTrackingMultiplex client i o1 s = Some
     (if minInterval old \<noteq> minInterval o1 \<or> powerMode old \<noteq> powerMode o1
      then (if length (mTimeBasedTrackingSessions s) = 1 then (False, updateTracking client i o1 old s)
            else if minInterval o1 < minInterval mo \<or> powerMode o1 < mp
            then (False, updateTracking client i (joined o1 mo mp) old s) else (True, s))
      else (True, s))"
  using assms by (simp add: updateTrackingMultiplex_def joined_def)

lemma others_one:
  assumes "smap_ok ss" "map_of ss k = Some v"
  shows "others (Some k) ss = [] \<longleftrightarrow> length ss = 1"
proof -
  have d: "distinct (map fst ss)" by (rule sm_ok_distinct[OF assms(1)])
  have m: "(k, v) \<in> set ss" using assms by (simp add: sm_find_mem)
  have "others (Some k) ss = [] \<longleftrightarrow> (\<forall>p\<in>set ss. fst p = k)" by (simp add: others_def filter_empty_conv)
  also have "\<dots> \<longleftrightarrow> set (map fst ss) = {k}" using m by force
  also have "\<dots> \<longleftrightarrow> length ss = 1"
  proof
    assume "set (map fst ss) = {k}"
    then have "card (set (map fst ss)) = 1" by simp
    then show "length ss = 1" using distinct_card[OF d] by simp
  next
    assume "length ss = 1"
    then obtain p where "ss = [p]" by (auto simp: length_Suc_conv)
    with m show "set (map fst ss) = {k}" by auto
  qed
  finally show ?thesis .
qed

lemma update_covered:
  assumes "covered m s" "good_options o1" "minDistance o1 = 0"
    "map_of (mTimeBasedTrackingSessions s) (LocationSessionKey client i) = Some old"
  shows "\<exists>b s'. updateTrackingMultiplex client i o1 s = Some (b, s') \<and> covered m (saveTrackingSession e client i o1 s')"
proof -
  let ?ss = "mTimeBasedTrackingSessions s" and ?k = "LocationSessionKey client i"
  have ok: "sessions_ok s" "flag_ok m s" "covers (asked m s) ?ss" "smap_ok ?ss"
    using assms(1) by (auto simp: covered_def sessions_ok_def)
  have old: "(?k, old) \<in> set ?ss" using assms(4) ok(4) by (simp add: sm_find_mem)
  have good: "MIN_TRACKING_INTERVAL \<le> minInterval o1" using assms(2) by (simp add: good_options_def)
  obtain mo mp where mux: "multiplex (Some ?k) ?ss zero_options GNSS_POWER_MODE_INVALID = (mo, mp)" by fastforce
  obtain b s' where r: "updateTrackingMultiplex client i o1 s = Some (b, s')"
    using update_multiplex_joined[OF assms(4) mux, of o1] by fastforce
  have requested: "covered m (saveTrackingSession e client i o1 s')"
    if "request_ok m n s s'" "n \<le> minInterval o1" "\<forall>p\<in>set ?ss. fst p \<noteq> ?k \<longrightarrow> n \<le> minInterval (snd p)" for n
    by (rule save_time_covered[OF _ _ assms(2,3)])
      (use that ok request_covers[OF that(1) ok(4) that(2,3)] in \<open>auto simp: request_ok_def sessions_ok_def\<close>)
  have kept: "covered m (saveTrackingSession e client i o1 s)" if "\<exists>o2\<in>snd ` set ?ss. minInterval o2 \<le> minInterval o1"
  proof -
    from ok(3) old obtain a where a: "asked m s = Some a" "\<forall>p\<in>set ?ss. minInterval a \<le> minInterval (snd p)"
      by (auto simp: covers_def split: option.splits)
    then have "minInterval a \<le> minInterval o1" using that by (auto intro: order_trans)
    with a have "covers (asked m s) (sm_put ?k o1 ?ss)" by (simp add: covers_put[OF ok(4)])
    then show ?thesis by (rule save_time_covered[OF ok(1,2) assms(2,3)])
  qed
  have "covered m (saveTrackingSession e client i o1 s')"
  proof (cases "length ?ss = 1")
    case True
    then have "\<forall>p\<in>set ?ss. fst p = ?k" using others_one[OF ok(4) assms(4)] by (simp add: others_def filter_empty_conv)
    moreover have "s' = updateTracking client i o1 old s \<or> s' = s \<and> minInterval old = minInterval o1"
      using update_multiplex_joined[OF assms(4) mux, of o1] r True by (auto split: if_splits)
    ultimately show ?thesis
      using requested[of "minInterval o1"] track_request(2)[OF ok(2) good, of client i old] kept old by force
  next
    case False
    have mo: "mo \<in> set (others (Some ?k) ?ss)" "\<forall>o2\<in>set (others (Some ?k) ?ss). minInterval mo \<le> minInterval o2"
        "MIN_TRACKING_INTERVAL \<le> minInterval mo"
      using multiplex_others[OF ok(1) _ mux] False others_one[OF ok(4) assms(4)] by auto
    have o2: "minInterval mo \<le> minInterval (snd p)" if "p \<in> set ?ss" "fst p \<noteq> ?k" for p
      using mo(2) that by (cases p) (auto simp: others_def)
    from mo(1) have "mo \<in> snd ` set ?ss" by (auto simp: others_def)
    moreover have "s' = updateTracking client i (joined o1 mo mp) old s
        \<or> s' = s \<and> (minInterval old = minInterval o1 \<or> minInterval mo \<le> minInterval o1)"
      using update_multiplex_joined[OF assms(4) mux, of o1] r False by (auto split: if_splits)
    ultimately show ?thesis
      using requested[of "minInterval (joined o1 mo mp)"] track_request(2)[OF ok(2), of "joined o1 mo mp" client i old] good mo(3) o2 kept old
      by (fastforce simp: min_le_iff_disj)
  qed
  with r show ?thesis by blast
qed

lemma stop_covered:
  assumes "covered m s" "map_of (mTimeBasedTrackingSessions s) (LocationSessionKey client i) = Some old"
  shows "covered m (eraseTrackingSession client i (snd (stopTimeBasedTrackingMultiplex client i s)))"
proof -
  let ?ss = "mTimeBasedTrackingSessions s" and ?k = "LocationSessionKey client i"
  let ?s = "snd (stopTimeBasedTrackingMultiplex client i s)"
  have ok: "sessions_ok s" "flag_ok m s" "covers (asked m s) ?ss" "smap_ok ?ss"
    using assms(1) by (auto simp: covered_def sessions_ok_def)
  have others: "others (Some ?k) ?ss = map snd (sm_erase ?k ?ss)" by (simp add: others_def sm_erase_def)
  have erase: "covered m (eraseTrackingSession client i ?s)"
    if "mTimeBasedTrackingSessions ?s = ?ss" "flag_ok m ?s" "covers (asked m ?s) (sm_erase ?k ?ss)"
    by (rule erase_time_covered) (use that ok(1) in \<open>simp_all add: sessions_ok_def\<close>)
  show ?thesis
  proof (cases "length ?ss = 1")
    case True
    then have "sm_erase ?k ?ss = []" using others_one[OF ok(4) assms(2)] others by simp
    then show ?thesis
      using True by (intro erase) (simp_all add: stopTimeBasedTrackingMultiplex_def stopTracking_def flag_ok_def covers_def asked_def tk_call_api_def
          on_dgnss_def tk_do_def)
  next
    case False
    then have ne: "others (Some ?k) ?ss \<noteq> []" using others_one[OF ok(4) assms(2)] by simp
    obtain mo mp where mux: "multiplex (Some ?k) ?ss zero_options GNSS_POWER_MODE_INVALID = (mo, mp)" by fastforce
    have mo: "\<forall>p\<in>set (sm_erase ?k ?ss). minInterval mo \<le> minInterval (snd p)" "MIN_TRACKING_INTERVAL \<le> minInterval (mo\<lparr>powerMode := mp\<rparr>)"
      using multiplex_others[OF ok(1) ne mux] by (auto simp: others)
    have s: "?s = startTimeBasedTracking client i (mo\<lparr>powerMode := mp\<rparr>) s \<or> ?s = s"
      using False by (auto simp: stopTimeBasedTrackingMultiplex_def assms(2) mux)
    have kept: "covers (asked m s) (sm_erase ?k ?ss)"
      using ok(3) ne by (auto simp: covers_def others split: option.splits) (auto simp: sm_erase_def)
    show ?thesis
      using s
    proof
      assume "?s = s" then show ?thesis using erase ok(2) kept by simp
    next
      assume q: "?s = startTimeBasedTracking client i (mo\<lparr>powerMode := mp\<rparr>) s"
      have "request_ok m (minInterval mo) s ?s"
        using track_request(1)[OF ok(2) mo(2), of client i] by (simp add: q)
      then show ?thesis
        using mo(1) ne by (intro erase) (fastforce simp: request_ok_def covers_def others intro: order_trans)+
    qed
  qed
qed

lemma stop_session_covered:
  "covered m s \<Longrightarrow> isTimeBasedTrackingSession client i s \<Longrightarrow> covered m (stop_time_session client i s)"
  using stop_covered[of m s client i] by (auto simp: stop_time_session_def isTimeBasedTrackingSession_def case_prod_beta)

section \<open>Restarts\<close>

lemma distance_calls_covered:
  "(\<And>p. \<forall>a. ask (f p) a = a) \<Longrightarrow> covered m (foldl (\<lambda>s p. tk_call_api (f p) (k p) s) s ps) = covered m s"
  by (induction ps arbitrary: s) auto

lemma restart_covered:
  assumes "sessions_ok s" "mTimeBasedTrackingSessions s = [] \<longrightarrow> asked m s = None"
  shows "covered m (checkAndRestartSPESession s)"
proof -
  let ?ss = "mTimeBasedTrackingSessions s"
  let ?t = "s\<lparr>mSPEAlreadyRunningAtHighestInterval := False\<rparr>"
  have t: "flag_ok m ?t" "sessions_ok ?t" "asked m ?t = asked m s" using assms(1) by (simp_all add: flag_ok_def sessions_ok_def asked_def)
  have "covered m (checkAndRestartTimeBasedSession ?t)"
  proof (cases "?ss = []")
    case True
    then show ?thesis using t assms by (simp add: checkAndRestartTimeBasedSession_def covered_def covers_def)
  next
    case False
    obtain si hp where sl: "smallest_loop ?ss zero_options zero_options = (si, hp)" by fastforce
    then have "si = smallest (map snd ?ss) zero_options" using restart_smallest[of ?ss zero_options zero_options] by simp
    then have si: "si \<in> snd ` set ?ss" "\<forall>p\<in>set ?ss. minInterval si \<le> minInterval (snd p)"
      using smallest_zero[of "map snd ?ss"] False assms(1) by (auto simp: sessions_ok_def good_options_def)
    then have g: "MIN_TRACKING_INTERVAL \<le> minInterval (setLocationOptions si hp)"
      using assms(1) by (auto simp: setLocationOptions_def sessions_ok_def good_options_def)
    have "request_ok m (minInterval (setLocationOptions si hp)) ?t (checkAndRestartTimeBasedSession ?t)"
      using check_request[OF t(1) g, of NullReply] False
      by (simp add: checkAndRestartTimeBasedSession_def sl split: prod.splits if_splits)
    then show ?thesis
      using si(2) False t(2) by (fastforce simp: request_ok_def covered_def covers_def sessions_ok_def setLocationOptions_def intro: order_trans)
  qed
  then show ?thesis by (simp add: checkAndRestartSPESession_def Let_def distance_calls_covered)
qed

lemma restart_sessions_covered:
  assumes "sessions_ok s" "mTimeBasedTrackingSessions s = [] \<longrightarrow> asked m s = None"
  shows "covered m (tk_restartSessions e b s)"
  unfolding tk_restartSessions_def Let_def
  by (rule restart_covered) (use assms in \<open>auto simp: sessions_ok_def asked_def\<close>)

lemma covered_restart: "covered m s \<Longrightarrow> sessions_ok s \<and> (mTimeBasedTrackingSessions s = [] \<longrightarrow> asked m s = None)"
  by (auto simp: covered_def covers_def split: option.splits)

lemma suspend_sel [simp]: "mTimeBasedTrackingSessions (suspendSessions s) = mTimeBasedTrackingSessions s"
  by (simp add: suspendSessions_def Let_def)

lemma week_covered:
  assumes "covered m s" shows "covered m (configMinGpsWeek e i w s)"
proof -
  have "asked m (suspendSessions s) = (if mTimeBasedTrackingSessions s = [] then asked m s else None)"
    by (simp add: suspendSessions_def Let_def asked_def)
  then show ?thesis
    unfolding configMinGpsWeek_def Let_def
    by (intro restart_sessions_covered) (use covered_restart[OF assms] in \<open>auto simp: sessions_ok_def\<close>)
qed

lemma hub_covered: "covered m s \<Longrightarrow> covered m (updateNHzRequirementCb x y s)"
  using covered_restart[of m s]
  by (auto simp: updateNHzRequirementCb_def Let_def sessions_ok_def asked_def intro!: restart_covered)

lemma engine_up_covered:
  assumes "sessions_ok s" "mTimeBasedTrackingSessions s = [] \<longrightarrow> asked m s = None" shows "covered m (handle_engine_up e s)"
  using assms by (auto simp: handle_engine_up_def Let_def sessions_ok_def asked_def intro!: restart_sessions_covered)

section \<open>Commands and answers\<close>

lemma stop_multiplex_sel [simp]:
  "mTimeBasedTrackingSessions (snd (stopTimeBasedTrackingMultiplex client i s)) = mTimeBasedTrackingSessions s"
  "mDistanceBasedTrackingSessions (snd (stopTimeBasedTrackingMultiplex client i s)) = mDistanceBasedTrackingSessions s"
  using view_multiplex(2)[of client i s] by (simp_all add: power_view_def)

lemma stop_keys_covered:
  "covered m s \<Longrightarrow> distinct ks \<Longrightarrow> \<forall>k\<in>set ks. map_of (mTimeBasedTrackingSessions s) k \<noteq> None \<Longrightarrow>
   covered m (foldl (\<lambda>s k. eraseTrackingSession (session_client k) (session_id k)
     (snd (stopTimeBasedTrackingMultiplex (session_client k) (session_id k) s))) s ks)"
proof (induction ks arbitrary: s)
  case (Cons k ks)
  from Cons.prems(3) obtain old where "map_of (mTimeBasedTrackingSessions s) k = Some old" by auto
  then have "covered m (eraseTrackingSession (session_client k) (session_id k)
      (snd (stopTimeBasedTrackingMultiplex (session_client k) (session_id k) s)))"
    using stop_covered[OF Cons.prems(1), of "session_client k" "session_id k"] by simp
  moreover have "\<forall>j\<in>set ks. map_of (mTimeBasedTrackingSessions (eraseTrackingSession (session_client k) (session_id k)
      (snd (stopTimeBasedTrackingMultiplex (session_client k) (session_id k) s)))) j \<noteq> None"
    using Cons.prems(2,3) by (auto simp: map_of_sm_erase)
  ultimately show ?case using Cons.prems(2) Cons.IH by simp
qed simp

lemma remove_covered:
  assumes "covered m s" shows "covered m (tk_stopClientSessions client s)"
proof -
  have "smap_ok (mTimeBasedTrackingSessions s)" using assms by (simp add: covered_def sessions_ok_def)
  then have d: "distinct (map fst (mTimeBasedTrackingSessions s))" by (rule sm_ok_distinct)
  have "covered m (foldl (\<lambda>s k. eraseTrackingSession (session_client k) (session_id k)
     (snd (stopTimeBasedTrackingMultiplex (session_client k) (session_id k) s))) s
     (map fst (filter (\<lambda>p. session_client (fst p) = client) (mTimeBasedTrackingSessions s))))"
    by (rule stop_keys_covered[OF assms distinct_map_filter[OF d]]) (auto dest: weak_map_of_SomeI)
  then show ?thesis by (simp add: tk_stopClientSessions_def Let_def distance_calls_covered)
qed

lemma clamp_good: "opt_size o1 \<noteq> 0 \<Longrightarrow> good_options (clamp_interval (limit_tbm o1)) \<and> good_options (limit_tbm (clamp_interval o1))"
  by (auto simp: good_options_def clamp_interval_def limit_tbm_def)

lemma clamp_distance [simp]:
  "minDistance (clamp_interval o1) = minDistance o1" "minDistance (limit_tbm o1) = minDistance o1"
  "opt_size (clamp_interval o1) = opt_size o1" "opt_size (limit_tbm o1) = opt_size o1"
  by (simp_all add: clamp_interval_def limit_tbm_def)

lemma start_command_covered:
  assumes "covered m s" "isMessageSupported (tk_engine e) DISTANCE_BASE_TRACKING"
  shows "covered m (start_tracking e client i o1 s)"
proof (cases "minDistance o1 = 0")
  case True
  then show ?thesis using assms(1) clamp_good[of o1]
    by (auto simp: start_tracking_def Let_def intro!: start_covered)
next
  case False
  then have "minDistance o1 > 0" by (simp add: word_gt_0)
  then show ?thesis using assms by (auto simp: start_tracking_def Let_def save_distance)
qed

text \<open>A switch to time based tracking of a session that is in both tables takes it from the wrong one.\<close>

definition in_both :: "client \<Rightarrow> u32 \<Rightarrow> tk_state \<Rightarrow> bool" where
  "in_both client i s \<longleftrightarrow> isTimeBasedTrackingSession client i s \<and> isDistanceBasedTrackingSession client i s"

lemma update_command_covered:
  assumes "covered m s" "isMessageSupported (tk_engine e) DISTANCE_BASE_TRACKING" "update_tracking e client i o1 s = Some s'"
    "\<not> (in_both client i s \<and> minDistance o1 = 0)"
  shows "covered m s'"
proof -
  let ?o = "clamp_interval (limit_tbm o1)"
  have pos: "minDistance o1 > 0" if "minDistance o1 \<noteq> 0" using that by (simp add: word_gt_0)
  have moved: "covered m (eraseTrackingSession client i (snd (stopTimeBasedTrackingMultiplex client i s)))"
    if "isTimeBasedTrackingSession client i s"
    using that stop_covered[OF assms(1)] by (auto simp: isTimeBasedTrackingSession_def)
  have erased: "covered m (eraseTrackingSession client i s)" if "\<not> isTimeBasedTrackingSession client i s"
  proof -
    have "covered m (eraseTrackingSession client i s) = covered m s"
      by (rule covered_fields) (use that in \<open>auto simp: asked_def isTimeBasedTrackingSession_def erase_time_absent\<close>)
    with assms(1) show ?thesis by simp
  qed
  have updated: "covered m (saveTrackingSession e client i ?o t)"
    if "isTimeBasedTrackingSession client i s" "updateTrackingMultiplex client i ?o s = Some (b, t)" "opt_size o1 \<noteq> 0" "minDistance o1 = 0" for b t
    using update_covered[OF assms(1), of ?o client i] that clamp_good[of o1] by (fastforce simp: isTimeBasedTrackingSession_def)
  show ?thesis
  proof (cases "isTimeBasedTrackingSession client i s \<and> minDistance o1 \<noteq> 0")
    case True
    then show ?thesis using assms pos moved
      by (auto simp: update_tracking_def Let_def case_prod_beta save_distance split: if_splits)
  next
    case False
    then show ?thesis using assms erased updated
      by (auto simp: update_tracking_def Let_def case_prod_beta Option.bind_eq_Some_conv in_both_def split: if_splits)
  qed
qed

section \<open>Messages under way\<close>

text \<open>The options a closure has captured are those a command has checked.\<close>

fun reply_ok :: "tk_reply \<Rightarrow> bool" where
  "reply_ok (SwitchReply client i o1) = (good_options o1 \<and> minDistance o1 = 0)"
| "reply_ok (UpdateDistanceReply client i o1) = (minDistance o1 > 0)"
| "reply_ok (RestartDistanceReply client i o1) = (minDistance o1 > 0)"
| "reply_ok _ = True"

fun message_ok :: "tk_msg \<Rightarrow> bool" where
  "message_ok (TkAnswered k err) = (reply_ok k \<and> err = LOCATION_ERROR_SUCCESS)"
| "message_ok _ = True"

fun answer_msg :: "tk_msg \<Rightarrow> bool" where
  "answer_msg (TkAnswered k err) = True"
| "answer_msg _ = False"

lemma no_answer_ok [simp]: "\<not> answer_msg msg \<Longrightarrow> message_ok msg"
  by (cases msg) auto

definition lines_ok :: "tk_state \<Rightarrow> bool" where
  "lines_ok s \<longleftrightarrow> (\<forall>p\<in>set (tk_api s). reply_ok (snd p)) \<and> (\<forall>msg\<in>set (tk_queue s). message_ok msg)
     \<and> (\<forall>msg\<in>set (mPendingMsgs s). \<not> answer_msg msg)"

lemma lines_fields:
  "tk_api s = tk_api t \<Longrightarrow> tk_queue s = tk_queue t \<Longrightarrow> mPendingMsgs s = mPendingMsgs t \<Longrightarrow> lines_ok s = lines_ok t"
  by (simp add: lines_ok_def)

lemma lines_view [simp]:
  "lines_ok (tk_do es s) = lines_ok s" "lines_ok (on_dgnss f s) = lines_ok s" "lines_ok (check_ntrip e s) = lines_ok s"
  "lines_ok (tk_reportResponse client err i s) = lines_ok s" "lines_ok (control_response e err i s) = lines_ok s"
  "lines_ok (answer_now b client i s) = lines_ok s" "lines_ok (updateEvtMask bits st s) = lines_ok s"
  "lines_ok (debug_nmea e s) = lines_ok s" "lines_ok (announce o1 s) = lines_ok s"
  "lines_ok (notifyClientOfCachedLocationSystemInfo e client cb s) = lines_ok s"
  "lines_ok (saveClient em client cb s) = lines_ok s" "lines_ok (eraseClient em client s) = lines_ok s"
  "lines_ok (report_position e tow sec nsec gga v s) = lines_ok s"
  "lines_ok (s\<lparr>mDgnss := d\<rparr>) = lines_ok s" "lines_ok (s\<lparr>mPowerStateCb := b\<rparr>) = lines_ok s"
  "lines_ok (s\<lparr>mNHzNeeded := b\<rparr>) = lines_ok s" "lines_ok (s\<lparr>mSPEAlreadyRunningAtHighestInterval := b\<rparr>) = lines_ok s"
  "lines_ok (s\<lparr>mPrevNmeaRptTimeNsec := n\<rparr>) = lines_ok s" "lines_ok (s\<lparr>mOdcpiRequestActive := b\<rparr>) = lines_ok s"
  "lines_ok (s\<lparr>mIsEngineCapabilitiesKnown := b\<rparr>) = lines_ok s"
  "lines_ok (saveTrackingSession e client i o1 s) = lines_ok s" "lines_ok (eraseTrackingSession client i s) = lines_ok s"
  by (rule lines_fields; simp)+

lemma lines_call [simp]: "lines_ok (tk_call_api c k s) \<longleftrightarrow> lines_ok s \<and> reply_ok k"
  by (auto simp: lines_ok_def)

lemma lines_pend [simp]: "lines_ok (tk_pend msg s) \<longleftrightarrow> lines_ok s \<and> \<not> answer_msg msg"
  by (auto simp: lines_ok_def)

lemma lines_check [simp]: "lines_ok (snd (snd (checkAndSetSPEToRunforNHz o1 s))) = lines_ok s"
  by (simp add: checkAndSetSPEToRunforNHz_def)

lemma lines_requests [simp]:
  "lines_ok s \<Longrightarrow> lines_ok (startTimeBasedTracking client i o1 s)"
  "lines_ok s \<Longrightarrow> lines_ok (updateTracking client i o1 old s)"
  "lines_ok s \<Longrightarrow> lines_ok (stopTracking client i s)"
  "lines_ok s \<Longrightarrow> lines_ok (suspendSessions s)"
  "lines_ok s \<Longrightarrow> lines_ok (checkAndRestartTimeBasedSession s)"
  by (simp_all add: startTimeBasedTracking_def updateTracking_def stopTracking_def suspendSessions_def
      checkAndRestartTimeBasedSession_def case_prod_beta Let_def)

lemma lines_multiplex [simp]:
  "lines_ok s \<Longrightarrow> lines_ok (snd (startTimeBasedTrackingMultiplex client i o1 s))"
  "lines_ok s \<Longrightarrow> lines_ok (snd (stopTimeBasedTrackingMultiplex client i s))"
  by (simp_all add: startTimeBasedTrackingMultiplex_def stopTimeBasedTrackingMultiplex_def case_prod_beta Let_def split: option.splits)

lemma lines_update_multiplex: "updateTrackingMultiplex client i o1 s = Some (b, s') \<Longrightarrow> lines_ok s \<Longrightarrow> lines_ok s'"
  by (auto simp: updateTrackingMultiplex_def Let_def split: option.splits if_splits prod.splits)

lemma lines_foldl: "(\<And>s x. lines_ok s \<Longrightarrow> lines_ok (f s x)) \<Longrightarrow> lines_ok s \<Longrightarrow> lines_ok (foldl f s xs)"
  by (induction xs arbitrary: s) auto

lemma lines_restart [simp]:
  "lines_ok s \<Longrightarrow> lines_ok (checkAndRestartSPESession s)"
  "lines_ok s \<Longrightarrow> lines_ok (tk_restartSessions e b s)"
  "lines_ok s \<Longrightarrow> lines_ok (configMinGpsWeek e i w s)"
  "lines_ok s \<Longrightarrow> lines_ok (updateNHzRequirementCb x y s)"
  by (simp_all add: checkAndRestartSPESession_def tk_restartSessions_def configMinGpsWeek_def updateNHzRequirementCb_def Let_def lines_foldl)

lemma lines_engine_up: "lines_ok s \<Longrightarrow> lines_ok (handle_engine_up e s)"
proof -
  assume "lines_ok s"
  then have "lines_ok (tk_restartSessions e True (tk_do xs (tk_do ys (s\<lparr>mIsEngineCapabilitiesKnown := True\<rparr>))))" for xs ys by simp
  then show ?thesis by (auto simp: handle_engine_up_def Let_def lines_ok_def)
qed

lemma lines_commands:
  "lines_ok s \<Longrightarrow> lines_ok (start_tracking e client i o1 s)" "lines_ok s \<Longrightarrow> lines_ok (stop_tracking client i s)"
  "lines_ok s \<Longrightarrow> lines_ok (tk_stopClientSessions client s)" "lines_ok s \<Longrightarrow> lines_ok (start_time_session e client i o1 s)"
  by (simp_all add: start_tracking_def stop_tracking_def tk_stopClientSessions_def start_time_session_def stop_time_session_def
      case_prod_beta Let_def lines_foldl)

lemma lines_update:
  assumes "lines_ok s" "update_tracking e client i o1 s = Some s'" shows "lines_ok s'"
  using assms clamp_good[of o1]
  by (auto simp: update_tracking_def Let_def case_prod_beta Option.bind_eq_Some_conv word_gt_0 split: if_splits
      intro: lines_update_multiplex)

lemma lines_answered: "lines_ok s \<Longrightarrow> reply_ok k \<Longrightarrow> lines_ok (tk_answered e k err s)"
  by (cases k) (auto simp: start_time_reply_def update_time_reply_def intro: lines_commands)

lemma lines_proc: "lines_ok s \<Longrightarrow> message_ok msg \<Longrightarrow> tk_proc e msg s = Some s' \<Longrightarrow> lines_ok s'"
  by (cases msg) (auto simp: Let_def Option.bind_eq_Some_conv split: if_splits
      intro: lines_commands lines_update lines_answered lines_engine_up)

section \<open>Every step\<close>

lemma saved_covered:
  "covered m s \<Longrightarrow> minDistance o1 > 0 \<Longrightarrow> isMessageSupported (tk_engine e) DISTANCE_BASE_TRACKING \<Longrightarrow>
   covered m (saveTrackingSession e client i o1 s)"
  by (simp add: save_distance)

lemma stop_command_covered: "covered m s \<Longrightarrow> covered m (stop_tracking client i s)"
  by (simp add: stop_tracking_def stop_session_covered)

text \<open>Erasing a distance based session: the table of time based ones is left alone unless the session is in both.\<close>

fun erases :: "tk_msg \<Rightarrow> tk_state \<Rightarrow> bool" where
  "erases (MsgUpdateTracking client i o1) s = (in_both client i s \<and> minDistance o1 = 0)"
| "erases (TkAnswered (StopDistanceReply client i) err) s = isTimeBasedTrackingSession client i s"
| "erases (TkAnswered (RemoveDistanceReply client i) err) s = isTimeBasedTrackingSession client i s"
| "erases _ s = False"

lemma erase_other:
  assumes "covered m s" "\<not> isTimeBasedTrackingSession client i s" shows "covered m (eraseTrackingSession client i s)"
proof -
  have "covered m (eraseTrackingSession client i s) = covered m s"
    by (rule covered_fields) (use assms in \<open>auto simp: asked_def isTimeBasedTrackingSession_def erase_time_absent\<close>)
  with assms(1) show ?thesis by simp
qed

lemma answered_covered:
  assumes "covered m s" "reply_ok k" "isMessageSupported (tk_engine e) DISTANCE_BASE_TRACKING"
    "\<not> erases (TkAnswered k LOCATION_ERROR_SUCCESS) s"
  shows "covered m (tk_answered e k LOCATION_ERROR_SUCCESS s)"
  using assms by (cases k) (auto simp: start_time_reply_def update_time_reply_def intro: start_covered saved_covered erase_other)

lemma proc_covered:
  assumes "covered m s" "message_ok msg" "isMessageSupported (tk_engine e) DISTANCE_BASE_TRACKING" "\<not> erases msg s"
    "tk_proc e msg s = Some s'"
  shows "covered m s'"
proof (cases msg)
  case (TkAnswered k err)
  with assms show ?thesis using answered_covered[of m s k e] by simp
next
  case (MsgHandleEngineUpEvent)
  then show ?thesis using assms(5) covered_restart[OF assms(1)] engine_up_covered by auto
next
  case (MsgUpdateTracking client i o1)
  then show ?thesis using assms update_command_covered by simp
qed (use assms in \<open>auto simp: Let_def Option.bind_eq_Some_conv split: if_splits
      intro: start_command_covered stop_command_covered week_covered remove_covered\<close>)

text \<open>
  A step is orderly if the modem succeeds and supports distance based tracking, answers come only from the
  modem, and the message that runs does not take a time based session from the table as if it were distance
  based.
\<close>

fun orderly :: "tk_step_kind \<Rightarrow> tk_state \<Rightarrow> bool" where
  "orderly (AdapterStep e) s = (isMessageSupported (tk_engine e) DISTANCE_BASE_TRACKING
     \<and> (tk_queue s \<noteq> [] \<longrightarrow> \<not> erases (hd (tk_queue s)) s))"
| "orderly (ApiStep err) s = (err = LOCATION_ERROR_SUCCESS)"
| "orderly (Command msg) s = (\<not> answer_msg msg)"
| "orderly _ s = True"

text \<open>The modem carries out the call whose turn it is.\<close>

fun modem_step :: "tk_step_kind \<Rightarrow> tk_state \<Rightarrow> TrackingOptions option \<Rightarrow> TrackingOptions option" where
  "modem_step (ApiStep err) s m =
     (if tk_api s \<noteq> [] \<and> err = LOCATION_ERROR_SUCCESS then ask (fst (hd (tk_api s))) m else m)"
| "modem_step _ s m = m"

inductive tk_reach :: "GnssNtripConnectionParams \<Rightarrow> tk_state \<Rightarrow> TrackingOptions option \<Rightarrow> bool" for junk where
  init: "tk_reach junk (new_tracking junk) None"
| step: "tk_reach junk s m \<Longrightarrow> orderly k s \<Longrightarrow> tk_step k s = Some s' \<Longrightarrow> tk_reach junk s' (modem_step k s m)"

fun orderly_run :: "tk_step_kind list \<Rightarrow> tk_state \<Rightarrow> TrackingOptions option \<Rightarrow> (tk_state \<times> TrackingOptions option) option" where
  "orderly_run [] s m = Some (s, m)"
| "orderly_run (k # ks) s m =
     (if orderly k s then Option.bind (tk_step k s) (\<lambda>s'. orderly_run ks s' (modem_step k s m)) else None)"

lemma orderly_reach: "tk_reach junk s m \<Longrightarrow> orderly_run ks s m = Some (s', m') \<Longrightarrow> tk_reach junk s' m'"
  by (induction ks arbitrary: s m) (auto simp: Option.bind_eq_Some_conv split: if_splits intro: tk_reach.step)

lemma lines_step:
  assumes "lines_ok s" "orderly k s" "tk_step k s = Some s'" shows "lines_ok s'"
proof (cases k)
  case (AdapterStep e)
  show ?thesis
  proof (cases "tk_queue s")
    case (Cons msg ms)
    have "lines_ok (s\<lparr>tk_queue := ms\<rparr>)" "message_ok msg" using assms(1) by (simp_all add: lines_ok_def Cons)
    then show ?thesis using assms(3) AdapterStep Cons lines_proc by (simp add: tk_step_def)
  qed (use assms AdapterStep in \<open>simp add: tk_step_def\<close>)
next
  case (ApiStep err)
  show ?thesis
  proof (cases "tk_api s")
    case (Cons c cs)
    have "lines_ok (s\<lparr>tk_api := cs\<rparr>)" "reply_ok (snd c)" using assms(1) by (simp_all add: lines_ok_def Cons)
    then show ?thesis using assms ApiStep Cons
      by (cases c) (auto simp: tk_step_def Let_def lines_ok_def tk_send_def split: if_splits)
  qed (use assms ApiStep in \<open>simp add: tk_step_def\<close>)
next
  case (HubStep x y)
  then show ?thesis using assms(1,3) by (auto simp: tk_step_def)
next
  case (ConsentStep b)
  then show ?thesis using assms(1,3) by (auto simp: tk_step_def)
next
  case (Command msg)
  then show ?thesis using assms by (auto simp: tk_step_def lines_ok_def tk_send_def)
qed

lemma step_covered:
  assumes "covered m s" "lines_ok s" "orderly k s" "tk_step k s = Some s'" shows "covered (modem_step k s m) s'"
proof (cases k)
  case (AdapterStep e)
  show ?thesis
  proof (cases "tk_queue s")
    case (Cons msg ms)
    have "erases msg (s\<lparr>tk_queue := ms\<rparr>) = erases msg s"
      by (induction msg s rule: erases.induct) (simp_all add: in_both_def isTimeBasedTrackingSession_def isDistanceBasedTrackingSession_def)
    then show ?thesis
      using assms AdapterStep Cons proc_covered[of m "s\<lparr>tk_queue := ms\<rparr>" msg e s'] by (simp add: tk_step_def lines_ok_def)
  qed (use assms AdapterStep in \<open>simp add: tk_step_def\<close>)
next
  case (ApiStep err)
  show ?thesis
  proof (cases "tk_api s")
    case (Cons c cs)
    have "covered (ask (fst c) m) (s\<lparr>tk_api := cs\<rparr>) = covered m s"
      by (rule covered_fields) (simp_all add: asked_def Cons)
    then show ?thesis using assms ApiStep Cons by (auto simp: tk_step_def Let_def split: prod.splits if_splits)
  qed (use assms ApiStep in \<open>simp add: tk_step_def\<close>)
qed (use assms in \<open>auto simp: tk_step_def intro: hub_covered\<close>)

lemma reach_covered: "tk_reach junk s m \<Longrightarrow> covered m s \<and> lines_ok s"
proof (induction rule: tk_reach.induct)
  case init
  show ?case by (simp add: new_tracking_def covered_def covers_def sessions_ok_def flag_ok_def asked_def lines_ok_def)
next
  case (step s m k s')
  then show ?case using step_covered lines_step by blast
qed

text \<open>
  C40. In every interleaving of the adapter, the modem interface, the engine hub and the clients in which
  the modem succeeds and supports distance based tracking, and no session that is in both tables is taken for a
  distance based one, the modem ends up with a time based session exactly while the adapter has one, with an
  interval that is at most that of each of them; when no call is under way it has it now.
\<close>

theorem modem_serves_sessions:
  assumes "tk_reach junk s m"
  shows "covers (asked m s) (mTimeBasedTrackingSessions s)
    \<and> (tk_api s = [] \<longrightarrow> (m = None \<longleftrightarrow> mTimeBasedTrackingSessions s = [])
        \<and> (\<forall>o1 k o2. m = Some o1 \<longrightarrow> (k, o2) \<in> set (mTimeBasedTrackingSessions s) \<longrightarrow> minInterval o1 \<le> minInterval o2))"
proof -
  have "covers (asked m s) (mTimeBasedTrackingSessions s)" using reach_covered[OF assms] by (simp add: covered_def)
  then show ?thesis by (auto simp: covers_def asked_def split: option.splits)
qed

end
