(* ===== verification/TrackingCases.thy ===== *)
theory TrackingCases
  imports TrackingRun
begin

unbundle bit_operations_syntax

text \<open>
  Runs of the tracking sessions in which the bookkeeping goes wrong: a start that fails while the high
  rate is needed, a session that outlives the start it relies on, a session that is switched to distances the
  modem does not support, the registration for measurements at the high rate, and a session in both tables.
\<close>

section \<open>Failed starts\<close>

lemma report_sel [simp]:
  "mClientData (tk_reportResponse client err i s) = mClientData s"
  "mDistanceBasedTrackingSessions (tk_reportResponse client err i s) = mDistanceBasedTrackingSessions s"
  "mIsEngineCapabilitiesKnown (tk_reportResponse client err i s) = mIsEngineCapabilitiesKnown s"
  by (simp_all add: tk_reportResponse_def tk_do_def split: option.splits)

lemma power_sel [simp]:
  "mClientData (reportPowerStateIfChanged s) = mClientData s"
  "mIsEngineCapabilitiesKnown (reportPowerStateIfChanged s) = mIsEngineCapabilitiesKnown s"
  by (simp_all add: reportPowerStateIfChanged_def tk_do_def Let_def)

lemma session_sel [simp]:
  "mClientData (saveTrackingSession e client i o1 s) = mClientData s"
  "mIsEngineCapabilitiesKnown (saveTrackingSession e client i o1 s) = mIsEngineCapabilitiesKnown s"
  "mClientData (eraseTrackingSession client i s) = mClientData s"
  "mIsEngineCapabilitiesKnown (eraseTrackingSession client i s) = mIsEngineCapabilitiesKnown s"
  by (simp_all add: saveTrackingSession_def eraseTrackingSession_def Let_def)

lemma announce_sel [simp]:
  "mClientData (announce o1 s) = mClientData s" "mIsEngineCapabilitiesKnown (announce o1 s) = mIsEngineCapabilitiesKnown s"
  by (simp_all add: announce_def setLocPositionMode_def tk_do_def Let_def)

text \<open>The high rate is needed and the modem is asked for it; the call under way is for the first session.\<close>

lemma first_start:
  assumes "mNHzNeeded s" "\<not> mSPEAlreadyRunningAtHighestInterval s" "mTimeBasedTrackingSessions s = []"
    "minInterval o1 > MIN_TRACKING_INTERVAL" "minDistance o1 = 0"
  shows "let s' = start_time_session e client i o1 s in
    mNHzNeeded s' \<and> mSPEAlreadyRunningAtHighestInterval s' \<and> mClientData s' = mClientData s
    \<and> mIsEngineCapabilitiesKnown s' = mIsEngineCapabilitiesKnown s
    \<and> mTimeBasedTrackingSessions s' = [(LocationSessionKey client i, o1)]
    \<and> tk_api s' = tk_api s @ [(ApiStartTimeBasedTracking (o1\<lparr>minInterval := MIN_TRACKING_INTERVAL\<rparr>), StartTimeReply client i)]"
  using assms
  by (simp add: start_time_session_def startTimeBasedTrackingMultiplex_def startTimeBasedTracking_def checkAndSetSPEToRunforNHz_def
      answer_now_def sm_put_def tk_call_api_def Let_def)

text \<open>With the flag set, a first session is answered at once and the modem is asked for nothing.\<close>

lemma believed_start:
  assumes "mNHzNeeded s" "mSPEAlreadyRunningAtHighestInterval s" "mTimeBasedTrackingSessions s = []" "minDistance o1 = 0"
    "map_of (mClientData s) client = Some cb" "responseCb cb"
  shows "let s' = start_time_session e client i o1 s in
    tk_api s' = tk_api s \<and> mTimeBasedTrackingSessions s' = [(LocationSessionKey client i, o1)]
    \<and> ResponseCb client LOCATION_ERROR_SUCCESS i \<in> set (tk_effects s')"
proof -
  have "set (tk_effects t) \<subseteq> set (tk_effects (saveTrackingSession e client i o1 t))" for t
    by (auto simp: saveTrackingSession_def reportPowerStateIfChanged_def tk_do_def Let_def)
  moreover have "ResponseCb client LOCATION_ERROR_SUCCESS i \<in> set (tk_effects (tk_reportResponse client LOCATION_ERROR_SUCCESS i t))"
    if "mClientData t = mClientData s" for t
    using that assms(5,6) by (simp add: tk_reportResponse_def tk_do_def)
  ultimately show ?thesis using assms
    by (fastforce simp: start_time_session_def startTimeBasedTrackingMultiplex_def startTimeBasedTracking_def checkAndSetSPEToRunforNHz_def
        answer_now_def sm_put_def Let_def)
qed

theorem failed_start_believed:
  assumes "mNHzNeeded s" "\<not> mSPEAlreadyRunningAtHighestInterval s" "mTimeBasedTrackingSessions s = []"
    "minInterval o1 > MIN_TRACKING_INTERVAL" "minDistance o1 = 0" "err \<noteq> LOCATION_ERROR_SUCCESS"
    "map_of (mClientData s) client = Some cb" "responseCb cb"
  shows "let s1 = start_time_session e client i o1 s;
             s2 = tk_answered e (StartTimeReply client i) err (s1\<lparr>tk_api := []\<rparr>);
             s3 = start_time_session e client j o1 s2
         in tk_api s3 = [] \<and> mTimeBasedTrackingSessions s3 = [(LocationSessionKey client j, o1)]
            \<and> ResponseCb client LOCATION_ERROR_SUCCESS j \<in> set (tk_effects s3)"
proof -
  define s1 where "s1 = start_time_session e client i o1 s"
  define s2 where "s2 = tk_answered e (StartTimeReply client i) err (s1\<lparr>tk_api := []\<rparr>)"
  have "mNHzNeeded s2" "mSPEAlreadyRunningAtHighestInterval s2" "mTimeBasedTrackingSessions s2 = []"
      "mClientData s2 = mClientData s" "tk_api s2 = []"
    using first_start[OF assms(1-5), of e client i] assms(6)
    by (auto simp: s2_def s1_def start_time_reply_def sm_erase_def Let_def)
  then show ?thesis
    using believed_start[of s2 o1 client cb e j] assms(5,7,8)
    unfolding Let_def s1_def[symmetric] s2_def[symmetric] by simp
qed

text \<open>A session that joins while the first start is under way is left behind when that start fails.\<close>

theorem late_failure_strands:
  assumes "mTimeBasedTrackingSessions s = [(LocationSessionKey a i, o1)]" "opt_size o1 \<noteq> 0"
    "minInterval o1 \<le> minInterval o2" "powerMode o1 \<le> powerMode o2" "minDistance o2 = 0"
    "LocationSessionKey b j \<noteq> LocationSessionKey a i" "err \<noteq> LOCATION_ERROR_SUCCESS"
  shows "let s' = tk_answered e (StartTimeReply a i) err (start_time_session e b j o2 s)
         in mTimeBasedTrackingSessions s' = [(LocationSessionKey b j, o2)] \<and> tk_api s' = tk_api s"
proof -
  have "multiplex None (mTimeBasedTrackingSessions s) zero_options GNSS_POWER_MODE_INVALID = (o1, powerMode o1)"
    using assms(2) by (simp add: assms(1) zero_options_def)
  then have "startTimeBasedTrackingMultiplex b j o2 s = (True, s)"
    using assms(1,3,4) by (simp add: startTimeBasedTrackingMultiplex_def not_less)
  then show ?thesis using assms
    by (auto simp: start_time_session_def start_time_reply_def sm_put_def sm_erase_def Let_def)
qed

text \<open>An update that fails after the session has been stopped brings the session back.\<close>

theorem failed_update_revives:
  assumes "minDistance old = 0" "err \<noteq> LOCATION_ERROR_SUCCESS" "smap_ok (mTimeBasedTrackingSessions s)"
  shows "let s' = tk_answered e (UpdateTimeReply client i old) err (stop_tracking client i s)
         in isTimeBasedTrackingSession client i s' \<and> (power_ok s \<longrightarrow> mPowerOn s')"
proof -
  let ?t = "stop_tracking client i s"
  have ok: "smap_ok (mTimeBasedTrackingSessions ?t)"
    using assms(3) by (auto simp: stop_tracking_def stop_time_session_def case_prod_beta sm.erase_ok)
  have p: "power_ok s \<longrightarrow> power_ok (tk_answered e (UpdateTimeReply client i old) err ?t)" by (blast intro: power_answered power_commands)
  have "mTimeBasedTrackingSessions (tk_answered e (UpdateTimeReply client i old) err ?t)
      = sm_put (LocationSessionKey client i) old (mTimeBasedTrackingSessions ?t)"
    using assms(1,2) by (simp add: update_time_reply_def)
  then show ?thesis using ok p by (simp add: isTimeBasedTrackingSession_def sm.find_put power_ok_def Let_def)
qed

section \<open>Distances the modem does not support\<close>

theorem unsupported_switch_stops_modem:
  assumes "mTimeBasedTrackingSessions s = [(LocationSessionKey client i, old)]" "mIsEngineCapabilitiesKnown s"
    "\<not> isMessageSupported (tk_engine e) DISTANCE_BASE_TRACKING" "opt_size o1 \<noteq> 0" "minDistance o1 > 0"
  shows "\<exists>s'. update_tracking e client i o1 s = Some s' \<and> asked m s' = None
    \<and> mTimeBasedTrackingSessions s' = [(LocationSessionKey client i, clamp_interval (limit_tbm o1))]"
proof -
  have d: "isTimeBasedTrackingSession client i s" "minDistance o1 \<noteq> 0" using assms by (auto simp: isTimeBasedTrackingSession_def)
  have stop: "stopTimeBasedTrackingMultiplex client i s = (False, stopTracking client i s)"
    by (simp add: stopTimeBasedTrackingMultiplex_def assms(1))
  have "mTimeBasedTrackingSessions (stopTracking client i s) = [(LocationSessionKey client i, old)]" "asked m (stopTracking client i s) = None"
    by (simp_all add: stopTracking_def assms(1) Let_def asked_def)
  then show ?thesis
    using assms d asked_api[of "saveTrackingSession e client i (clamp_interval (limit_tbm o1)) (eraseTrackingSession client i (stopTracking client i s))" "stopTracking client i s" m]
    by (simp add: update_tracking_def stop Let_def answer_now_def sm_erase_def sm_put_def)
qed

section \<open>Measurements at the high rate\<close>

text \<open>The hub asks for the measurements and, without any change, asks again: the registration is gone.\<close>

theorem repeated_request_unregisters:
  assumes "mEvtMask s AND LOC_API_ADAPTER_BIT_GNSS_NHZ_MEASUREMENT = 0"
  shows "mEvtMask (updateNHzRequirementCb b True s) AND LOC_API_ADAPTER_BIT_GNSS_NHZ_MEASUREMENT \<noteq> 0
    \<and> mEvtMask (updateNHzRequirementCb b True (updateNHzRequirementCb b True s)) AND LOC_API_ADAPTER_BIT_GNSS_NHZ_MEASUREMENT = 0"
proof -
  have call: "mEvtMask (tk_call_api c k t) = mEvtMask t" for c k t by (simp add: tk_call_api_def)
  have fold: "mEvtMask (foldl (\<lambda>s p. tk_call_api (f p) k s) t ps) = mEvtMask t" for f k t and ps :: "(LocationSessionKey \<times> LocationOptions) list"
    by (induction ps arbitrary: t) (auto simp: call)
  have restart: "mEvtMask (checkAndRestartSPESession t) = mEvtMask t" for t
    by (simp add: checkAndRestartSPESession_def checkAndRestartTimeBasedSession_def checkAndSetSPEToRunforNHz_def call fold Let_def
        split: prod.splits)
  have m: "mEvtMask (updateNHzRequirementCb b True t) =
      (if mEvtMask t AND LOC_API_ADAPTER_BIT_GNSS_NHZ_MEASUREMENT = 0 then mEvtMask t OR LOC_API_ADAPTER_BIT_GNSS_NHZ_MEASUREMENT
       else mEvtMask t AND NOT LOC_API_ADAPTER_BIT_GNSS_NHZ_MEASUREMENT)" for t
    by (simp add: updateNHzRequirementCb_def updateEvtMask_def restart Let_def)
  have "(mEvtMask s OR LOC_API_ADAPTER_BIT_GNSS_NHZ_MEASUREMENT) AND LOC_API_ADAPTER_BIT_GNSS_NHZ_MEASUREMENT
      = LOC_API_ADAPTER_BIT_GNSS_NHZ_MEASUREMENT"
    by (simp add: bit.conj_disj_distrib2)
  moreover have "LOC_API_ADAPTER_BIT_GNSS_NHZ_MEASUREMENT \<noteq> 0" by (simp add: LOC_API_ADAPTER_BIT_GNSS_NHZ_MEASUREMENT_def)
  moreover have "(x AND NOT LOC_API_ADAPTER_BIT_GNSS_NHZ_MEASUREMENT) AND LOC_API_ADAPTER_BIT_GNSS_NHZ_MEASUREMENT = 0" for x :: u64
    by (simp add: and.assoc)
  ultimately show ?thesis using assms by (simp add: m)
qed

section \<open>Refused starts\<close>

text \<open>A start without the callbacks or with empty options changes nothing and is not answered.\<close>

lemma refused_start:
  "\<not> hasCallbacksToStartTracking client s \<or> opt_size o1 = 0 \<Longrightarrow> mIsEngineCapabilitiesKnown s \<Longrightarrow> start_tracking e client i o1 s = s"
  by (auto simp: start_tracking_def)

section \<open>Capabilities\<close>

text \<open>
  The mask that is broadcast and the mask a client is given on request come from different functions: what
  the adapters have in common does not know the licensed features, and the GNSS adapter leaves out four features.
\<close>

lemma capabilities_differ:
  assumes "mIsEngineCapabilitiesKnown s" "isFeatureSupported (tk_engine e) FEATURE_EDGNSS" "qwesFeatureStatus e = 0"
  shows "bit (getCapabilities (tk_engine e) s) 15 \<and> \<not> bit (gnss_getCapabilities e) 15"
  using assms by (simp add: getCapabilities_def gnss_getCapabilities_def flag_def bit_or_iff bit_push_bit_iff bit_1_iff Let_def)

section \<open>Sample runs\<close>

definition tk_sample_env :: tk_env where
  "tk_sample_env = \<lparr>tk_engine = \<lparr>isMessageSupported = (\<lambda>_. True), isFeatureSupported = (\<lambda>_. True), gnssConstellationConfig = True,
     getCarrierCapabilities = 0\<rparr>, qwesFeatureStatus = 0, bootTime = 1000, nmeaMask = 0, systemInfoKnown = False,
     externalDrEnabled = False, engHubLoaded = False, logEnabled = False, agpsRegistered = False, odcpiRequestCb = False,
     controlResponseCb = False, nmeaProviderAp = False, nmeaRateNHz = True\<rparr>"

definition sample_params :: GnssNtripConnectionParams where
  "sample_params = \<lparr>ntrip_size = 0, requiresNmeaLocation = False, hostNameOrIp = [], mountPoint = [], username = [], password = [],
     port = 0, useSSL = False\<rparr>"

definition track_options :: "u32 \<Rightarrow> u32 \<Rightarrow> u32 \<Rightarrow> TrackingOptions" where
  "track_options interval distance pm = \<lparr>opt_size = 28, minInterval = interval, minDistance = distance, opt_mode = 0,
     locReqEngTypeMask = 0, powerMode = pm, tbm = 0\<rparr>"

text \<open>The adapter works off its queue, and the modem its calls, in turns.\<close>

definition turn :: "tk_step_kind list" where
  "turn = [AdapterStep tk_sample_env, ApiStep LOCATION_ERROR_SUCCESS, AdapterStep tk_sample_env]"

definition two_sessions :: "tk_step_kind list" where
  "two_sessions =
     [Command (MsgAddClient 7 (no_callbacks\<lparr>trackingCb := True, responseCb := True\<rparr>)), AdapterStep tk_sample_env,
      Command (MsgPowerStateCb True), AdapterStep tk_sample_env]
     @ Command (MsgStartTracking 7 1 (track_options 1000 0 3)) # turn
     @ Command (MsgStartTracking 7 2 (track_options 500 0 3)) # turn"

text \<open>
  Two sessions; the faster one is stopped. The modem has been told both times.
\<close>

lemma two_sessions_run:
  "map_option (\<lambda>(s, m). (map (\<lambda>p. minInterval (snd p)) (mTimeBasedTrackingSessions s), map_option minInterval m, tk_api s))
     (orderly_run two_sessions (new_tracking sample_params) None) = Some ([1000, 500], Some 500, [])"
  "map_option (\<lambda>(s, m). (map (\<lambda>p. minInterval (snd p)) (mTimeBasedTrackingSessions s), map_option minInterval m, tk_api s))
     (orderly_run (two_sessions @ Command (MsgStopTracking 7 2) # turn) (new_tracking sample_params) None) = Some ([1000], Some 1000, [])"
  by code_simp+

text \<open>The properties at this run: both sessions are served, the power state is on and was reported.\<close>

theorem modem_serves_sessions_witness:
  "\<exists>s m o1. tk_reach sample_params s m \<and> tk_api s = [] \<and> length (mTimeBasedTrackingSessions s) = 2 \<and> m = Some o1
     \<and> (\<forall>p\<in>set (mTimeBasedTrackingSessions s). minInterval o1 \<le> minInterval (snd p))"
proof -
  obtain s m where r: "orderly_run two_sessions (new_tracking sample_params) None = Some (s, m)"
    and f: "map (\<lambda>p. minInterval (snd p)) (mTimeBasedTrackingSessions s) = [1000, 500]" "tk_api s = []"
    using two_sessions_run(1) by (auto simp: map_option_case split: option.splits)
  have reach: "tk_reach sample_params s m" by (rule orderly_reach[OF tk_reach.init r])
  have l: "length (mTimeBasedTrackingSessions s) = 2" using arg_cong[OF f(1), of length] by simp
  then have "m \<noteq> None" using modem_serves_sessions[OF reach] f(2) by auto
  then show ?thesis using modem_serves_sessions[OF reach] f(2) reach l by fastforce
qed

theorem power_state_reported_witness:
  "\<exists>s. tk_run two_sessions (new_tracking sample_params) = Some s \<and> mTimeBasedTrackingSessions s \<noteq> [] \<and> mPowerOn s
     \<and> last (power_reports s)"
proof -
  have "map_option (\<lambda>s. (mTimeBasedTrackingSessions s = [], mPowerStateCb s)) (tk_run two_sessions (new_tracking sample_params)) = Some (False, True)"
    by code_simp
  then obtain s where s: "tk_run two_sessions (new_tracking sample_params) = Some s" "mTimeBasedTrackingSessions s \<noteq> []" "mPowerStateCb s"
    by auto
  then show ?thesis using power_state_reported[OF s(1)] by auto
qed

text \<open>The faster session is slowed down instead: the modem goes on at the old interval.\<close>

lemma slower_update_not_passed_on:
  "map_option (\<lambda>(s, m). (map (\<lambda>p. minInterval (snd p)) (mTimeBasedTrackingSessions s), map_option minInterval m, tk_api s))
     (orderly_run (two_sessions @ Command (MsgUpdateTracking 7 2 (track_options 5000 0 3)) # turn) (new_tracking sample_params) None)
   = Some ([1000, 5000], Some 500, [])"
  by code_simp

text \<open>
  A session wants the high accuracy of power mode M1 at a long interval, another one a shorter interval in
  mode M3. A third session with a still shorter interval has the modem restarted in mode M3.
\<close>

lemma power_mode_lost:
  "map_option (\<lambda>(s, m). (map (\<lambda>p. powerMode (snd p)) (mTimeBasedTrackingSessions s), map_option (\<lambda>o1. (minInterval o1, powerMode o1)) m))
     (orderly_run (two_sessions @ Command (MsgStartTracking 7 3 (track_options 5000 0 1)) # turn
        @ Command (MsgStartTracking 7 4 (track_options 200 0 3)) # turn) (new_tracking sample_params) None)
   = Some ([3, 3, 1, 3], Some (200, 3))"
  by code_simp

text \<open>
  Two updates of a distance based session follow each other, the second one to time based tracking. The
  answer to the first one puts the session back into the table of distance based sessions: it is in both.
\<close>

lemma session_in_both_tables:
  "map_option (\<lambda>(s, m). (in_both 7 1 s, tk_api s))
     (orderly_run
       ([Command (MsgAddClient 7 (no_callbacks\<lparr>trackingCb := True, responseCb := True\<rparr>)), AdapterStep tk_sample_env,
         Command MsgHandleEngineUpEvent, AdapterStep tk_sample_env]
        @ Command (MsgStartTracking 7 1 (track_options 1000 50 3)) # turn
        @ [Command (MsgUpdateTracking 7 1 (track_options 1000 60 3)), Command (MsgUpdateTracking 7 1 (track_options 1000 0 3)),
           AdapterStep tk_sample_env, AdapterStep tk_sample_env, ApiStep LOCATION_ERROR_SUCCESS, ApiStep LOCATION_ERROR_SUCCESS,
           AdapterStep tk_sample_env, AdapterStep tk_sample_env, ApiStep LOCATION_ERROR_SUCCESS, ApiStep LOCATION_ERROR_SUCCESS,
           AdapterStep tk_sample_env, AdapterStep tk_sample_env])
       (new_tracking sample_params) None) = Some (True, [])"
  by code_simp

end
