(* ===== verification/NtripRun.thy ===== *)
theory NtripRun
  imports TrackingCases
begin

unbundle bit_operations_syntax

text \<open>
  The source of corrections under every sequence of steps of the adapter: without consent no position leaves
  the adapter, and a source that is marked as started runs for an enabled stream. Then runs in which a position is
  sent after the consent was withdrawn and in which a source is never stopped, and what is cut out as GGA sentence.
\<close>

section \<open>Steps that reach the source\<close>

text \<open>What the source keeps is changed only by its own operations.\<close>

inductive dgnss_step :: "bool \<Rightarrow> dgnss \<Rightarrow> dgnss \<Rightarrow> bool" where
  check: "dgnss_step c d (checkUpdateDgnssNtrip b n v d)"
| stopped: "dgnss_step c d (session_stopped d)"
| enabled: "dgnss_step c d (handleEnablePPENtrip b n p d)"
| disabled: "dgnss_step c d (handleDisablePPENtrip d)"
| restarted: "dgnss_step c d (restartDgnssSource d)"
| gga: "reportGGAToNtrip b n nmea d = Some d' \<Longrightarrow> dgnss_step c d d'"
| position: "dgnss_step c d (position_gga b n g v d)"
| consent: "consent \<longrightarrow> c \<Longrightarrow> dgnss_step c d (d\<lparr>mSendNmeaConsent := consent\<rparr>)"

inductive dgnss_steps :: "bool \<Rightarrow> dgnss \<Rightarrow> dgnss \<Rightarrow> bool" for c where
  none: "dgnss_steps c d d"
| more: "dgnss_steps c d d' \<Longrightarrow> dgnss_step c d' d'' \<Longrightarrow> dgnss_steps c d d''"

lemma dgnss_steps_trans: "dgnss_steps c d d' \<Longrightarrow> dgnss_steps c d' d'' \<Longrightarrow> dgnss_steps c d d''"
  by (rotate_tac, induction rule: dgnss_steps.induct) (auto intro: dgnss_steps.more)

lemma dgnss_one: "dgnss_step c d d' \<Longrightarrow> dgnss_steps c d d'"
  by (blast intro: dgnss_steps.intros)

definition reaches :: "bool \<Rightarrow> tk_state \<Rightarrow> tk_state \<Rightarrow> bool" where
  "reaches c s s' \<longleftrightarrow> dgnss_steps c (mDgnss s) (mDgnss s')"

lemma reaches_same: "mDgnss s' = mDgnss s \<Longrightarrow> reaches c s s'"
  by (simp add: reaches_def dgnss_steps.none)

lemma reaches_on: "dgnss_step c (mDgnss s) d \<Longrightarrow> mDgnss s' = d \<Longrightarrow> reaches c s s'"
  by (simp add: reaches_def dgnss_one)

lemma reaches_trans: "reaches c s t \<Longrightarrow> reaches c t u \<Longrightarrow> reaches c s u"
  by (auto simp: reaches_def intro: dgnss_steps_trans)

lemma dgnss_kept [simp]:
  "mDgnss (tk_do es s) = mDgnss s" "mDgnss (tk_call_api a k s) = mDgnss s" "mDgnss (tk_send msg s) = mDgnss s"
  "mDgnss (tk_pend msg s) = mDgnss s" "mDgnss (on_dgnss f s) = f (mDgnss s)"
  "mDgnss (tk_reportResponse client err i s) = mDgnss s" "mDgnss (control_response e err i s) = mDgnss s"
  "mDgnss (answer_now b client i s) = mDgnss s" "mDgnss (announce o1 s) = mDgnss s"
  "mDgnss (updateEvtMask bits st s) = mDgnss s" "mDgnss (debug_nmea e s) = mDgnss s"
  "mDgnss (notifyClientOfCachedLocationSystemInfo e client cb s) = mDgnss s"
  "mDgnss (saveClient em client cb s) = mDgnss s" "mDgnss (eraseClient em client s) = mDgnss s"
  "mDgnss (reportPowerStateIfChanged s) = mDgnss s"
  "mDgnss (snd (snd (checkAndSetSPEToRunforNHz o1 s))) = mDgnss s"
  by (simp_all add: tk_do_def tk_call_api_def tk_send_def tk_pend_def on_dgnss_def tk_reportResponse_def control_response_def
      answer_now_def announce_def setLocPositionMode_def updateEvtMask_def debug_nmea_def notifyClientOfCachedLocationSystemInfo_def
      saveClient_def eraseClient_def reportPowerStateIfChanged_def checkAndSetSPEToRunforNHz_def Let_def
      split: option.splits loc_registration_mask_status.splits)

lemma dgnss_kept_more [simp]:
  "mDgnss (saveTrackingSession e client i o1 s) = mDgnss s" "mDgnss (eraseTrackingSession client i s) = mDgnss s"
  "mDgnss (startTimeBasedTracking client i o1 s) = mDgnss s" "mDgnss (updateTracking client i o1 old s) = mDgnss s"
  "mDgnss (checkAndRestartTimeBasedSession s) = mDgnss s"
  by (simp_all add: saveTrackingSession_def eraseTrackingSession_def startTimeBasedTracking_def updateTracking_def
      checkAndRestartTimeBasedSession_def case_prod_beta Let_def)

lemma dgnss_foldl: "(\<And>s x. mDgnss (f s x) = mDgnss s) \<Longrightarrow> mDgnss (foldl f s xs) = mDgnss s"
  by (induction xs arbitrary: s) auto

lemma dgnss_restart [simp]: "mDgnss (checkAndRestartSPESession s) = mDgnss s"
  by (simp add: checkAndRestartSPESession_def Let_def dgnss_foldl)

lemma dgnss_multiplex [simp]:
  "mDgnss (snd (startTimeBasedTrackingMultiplex client i o1 s)) = mDgnss s"
  "mDgnss (snd (stopTimeBasedTrackingMultiplex client i s)) =
     (if length (mTimeBasedTrackingSessions s) = 1 then session_stopped (mDgnss s) else mDgnss s)"
  by (simp_all add: startTimeBasedTrackingMultiplex_def stopTimeBasedTrackingMultiplex_def stopTracking_def case_prod_beta Let_def
      split: option.splits)

lemma dgnss_update_multiplex: "updateTrackingMultiplex client i o1 s = Some (b, s') \<Longrightarrow> mDgnss s' = mDgnss s"
  by (auto simp: updateTrackingMultiplex_def Let_def split: option.splits if_splits prod.splits)

lemma dgnss_start_session [simp]: "mDgnss (start_time_session e client i o1 s) = mDgnss s"
  by (simp add: start_time_session_def case_prod_beta)

lemma dgnss_start_tracking [simp]: "mDgnss (start_tracking e client i o1 s) = mDgnss s"
  by (simp add: start_tracking_def Let_def)

lemma reaches_stop: "mDgnss s' = mDgnss (snd (stopTimeBasedTrackingMultiplex client i s)) \<Longrightarrow> reaches c s s'"
  by (auto simp: reaches_def intro: dgnss_one dgnss_step.stopped dgnss_steps.none)

lemma reaches_foldl: "(\<And>s x. reaches c s (f s x)) \<Longrightarrow> reaches c s (foldl f s xs)"
  by (induction xs arbitrary: s) (auto intro: reaches_trans reaches_same)

lemma reaches_stop_commands:
  "reaches c s (stop_tracking client i s)" "reaches c s (tk_stopClientSessions client s)"
proof -
  show "reaches c s (stop_tracking client i s)"
    by (auto simp: stop_tracking_def stop_time_session_def case_prod_beta simp del: dgnss_multiplex intro: reaches_stop reaches_same)
  have "reaches c s (foldl (\<lambda>s k. eraseTrackingSession (session_client k) (session_id k)
      (snd (stopTimeBasedTrackingMultiplex (session_client k) (session_id k) s))) s ks)" for ks
    by (rule reaches_foldl) (rule reaches_stop, simp)
  then show "reaches c s (tk_stopClientSessions client s)"
    by (auto simp: tk_stopClientSessions_def reaches_def dgnss_foldl Let_def)
qed

lemma reaches_restart: "reaches c s (tk_restartSessions e b s)"
proof (cases "mTimeBasedTrackingSessions s = []")
  case True
  then show ?thesis by (intro reaches_same) (simp add: tk_restartSessions_def Let_def)
next
  case False
  then show ?thesis
    by (intro reaches_on[OF dgnss_step.check[of c _ True "bootTime e" False]])
      (simp add: tk_restartSessions_def check_ntrip_def isInSession_def Let_def)
qed

lemma reaches_week: "reaches c s (configMinGpsWeek e i w s)"
proof -
  have "reaches c s (suspendSessions s)"
    by (auto simp: suspendSessions_def reaches_def Let_def intro: dgnss_one dgnss_step.stopped dgnss_steps.none)
  moreover have "reaches c (suspendSessions s) (configMinGpsWeek e i w s)"
    using reaches_restart[of c "tk_call_api (ApiConfigMinGpsWeek w) k (suspendSessions s)" e False for k]
    by (simp add: configMinGpsWeek_def reaches_def Let_def)
  ultimately show ?thesis by (rule reaches_trans)
qed

lemma reaches_engine_up: "reaches c s (handle_engine_up e s)"
  using reaches_restart[of c "tk_do ys (tk_do xs (s\<lparr>mIsEngineCapabilitiesKnown := True\<rparr>))" e True for xs ys]
  by (simp add: handle_engine_up_def reaches_def Let_def)

lemma reaches_update: "update_tracking e client i o1 s = Some s' \<Longrightarrow> reaches c s s'"
proof -
  assume u: "update_tracking e client i o1 s = Some s'"
  have "reaches c s (answer_now a client i (saveTrackingSession e client i o2 t))"
    if "updateTrackingMultiplex client i o2 s = Some (a, t)" for a t o2
    using dgnss_update_multiplex[OF that] by (intro reaches_same) simp
  with u show ?thesis
    by (auto simp: update_tracking_def Let_def case_prod_beta Option.bind_eq_Some_conv simp del: dgnss_multiplex split: if_splits
        intro: reaches_same reaches_stop)
qed

lemma reaches_answered: "reaches c s (tk_answered e k err s)"
  by (cases k) (auto simp: start_time_reply_def update_time_reply_def check_ntrip_def intro: reaches_same reaches_on[OF dgnss_step.check])

lemma reaches_position: "reaches c s (report_position e tow sec nsec gga v s)"
proof -
  obtain b s1 where n: "needToGenerateNmeaReport e tow sec nsec s = (b, s1)" by fastforce
  then have "mDgnss s1 = mDgnss s" by (auto simp: needToGenerateNmeaReport_def Let_def split: if_splits)
  then show ?thesis
    by (auto simp: report_position_def n reaches_def intro: dgnss_one dgnss_step.position dgnss_steps.none)
qed

lemma reaches_proc: "tk_proc e msg s = Some s' \<Longrightarrow> reaches c s s'"
proof (cases msg)
  case (MsgRemoveClient client cb)
  assume "tk_proc e msg s = Some s'"
  then show ?thesis using MsgRemoveClient reaches_stop_commands(2)[of c s client] by (auto simp: reaches_def Let_def)
next
  case (MsgReportGGA nmea)
  assume "tk_proc e msg s = Some s'"
  then show ?thesis using MsgReportGGA by (auto simp: Option.bind_eq_Some_conv intro: reaches_on dgnss_step.gga)
qed (auto simp: Let_def reaches_week reaches_position reaches_engine_up reaches_answered reaches_stop_commands split: if_splits
    intro: reaches_same reaches_update reaches_on[OF dgnss_step.enabled] reaches_on[OF dgnss_step.disabled] reaches_on[OF dgnss_step.restarted])

text \<open>Whether a step gives the consent.\<close>

fun gives_consent :: "tk_step_kind \<Rightarrow> bool" where
  "gives_consent (ConsentStep b) = b"
| "gives_consent _ = False"

lemma reaches_step: "gives_consent k \<longrightarrow> c \<Longrightarrow> tk_step k s = Some s' \<Longrightarrow> reaches c s s'"
proof (cases k)
  case (AdapterStep e)
  assume "tk_step k s = Some s'"
  then show ?thesis using AdapterStep reaches_proc[of e _ "s\<lparr>tk_queue := q\<rparr>" s' c for q]
    by (auto simp: tk_step_def reaches_def dgnss_steps.none split: list.splits)
next
  case (ConsentStep b)
  assume "gives_consent k \<longrightarrow> c" "tk_step k s = Some s'"
  then show ?thesis using ConsentStep by (auto simp: tk_step_def intro!: reaches_on[OF dgnss_step.consent[of b]])
qed (auto simp: tk_step_def Let_def updateNHzRequirementCb_def split: list.splits prod.splits if_splits intro!: reaches_same)

lemma reaches_run: "\<forall>k\<in>set ks. gives_consent k \<longrightarrow> c \<Longrightarrow> tk_run ks s = Some s' \<Longrightarrow> reaches c s s'"
  by (induction ks arbitrary: s) (auto simp: Option.bind_eq_Some_conv reaches_same intro: reaches_trans reaches_step)

section \<open>No position without consent\<close>

definition no_position :: "dgnss \<Rightarrow> bool" where
  "no_position d \<longleftrightarrow> \<not> mSendNmeaConsent d \<and> ntrip_nmea d = []
     \<and> (mNtripParamsString d = [] \<or> (\<exists>p. mNtripParamsString d = start_message p []))
     \<and> (\<forall>msg\<in>set (sent d). msg = ''stopDgnssSource'' \<or> (\<exists>p. msg = start_message p []))"

lemma state_sel [simp]:
  "mSendNmeaConsent (set_state b d) = mSendNmeaConsent d" "ntrip_nmea (set_state b d) = ntrip_nmea d"
  "mNtripParamsString (set_state b d) = mNtripParamsString d" "sent (set_state b d) = sent d" "ntripParams (set_state b d) = ntripParams d"
  "mSendNmeaConsent (clear_state b d) = mSendNmeaConsent d" "ntrip_nmea (clear_state b d) = ntrip_nmea d"
  "mNtripParamsString (clear_state b d) = mNtripParamsString d" "sent (clear_state b d) = sent d" "ntripParams (clear_state b d) = ntripParams d"
  "mDgnssState (set_state b d) = mDgnssState d OR b" "mDgnssState (clear_state b d) = mDgnssState d AND NOT b"
  by (simp_all add: set_state_def clear_state_def)

lemma no_position_step: "dgnss_step False d d' \<Longrightarrow> no_position d \<Longrightarrow> no_position d'"
proof (induction "False" d d' rule: dgnss_step.induct)
  case (gga b n nmea d d')
  then have "d' = d" by (auto simp: reportGGAToNtrip_def no_position_def isDgnssNmeaRequired_def split: option.splits)
  with gga show ?case by simp
qed (auto simp: no_position_def checkUpdateDgnssNtrip_def startDgnssSource_def isDgnssNmeaRequired_def session_stopped_def
    stopDgnssNtrip_def stopDgnssSource_def handleEnablePPENtrip_def handleDisablePPENtrip_def restartDgnssSource_def position_gga_def Let_def split: option.splits)

lemma no_position_steps: "dgnss_steps False d d' \<Longrightarrow> no_position d \<Longrightarrow> no_position d'"
  by (induction rule: dgnss_steps.induct) (auto intro: no_position_step)

section \<open>Messages and what waits behind them\<close>

text \<open>
  Running a message neither reads nor, but for the start of the engine, changes the queue, so that two runs
  that differ only in the messages that wait can be compared.
\<close>

definition with_queue :: "tk_msg list \<Rightarrow> tk_state \<Rightarrow> tk_state" where
  "with_queue q s = s\<lparr>tk_queue := q\<rparr>"

lemma with_queue_sel [simp]:
  "tk_queue (with_queue q s) = q" "with_queue q (with_queue q' s) = with_queue q s" "with_queue (tk_queue s) s = s"
  "mClientData (with_queue q s) = mClientData s" "mEvtMask (with_queue q s) = mEvtMask s"
  "mIsEngineCapabilitiesKnown (with_queue q s) = mIsEngineCapabilitiesKnown s" "mPendingMsgs (with_queue q s) = mPendingMsgs s"
  "mTimeBasedTrackingSessions (with_queue q s) = mTimeBasedTrackingSessions s" "mDistanceBasedTrackingSessions (with_queue q s) = mDistanceBasedTrackingSessions s"
  "mLocPositionMode (with_queue q s) = mLocPositionMode s" "mNHzNeeded (with_queue q s) = mNHzNeeded s"
  "mSPEAlreadyRunningAtHighestInterval (with_queue q s) = mSPEAlreadyRunningAtHighestInterval s" "mPowerOn (with_queue q s) = mPowerOn s"
  "mPowerStateCb (with_queue q s) = mPowerStateCb s" "mPrevNmeaRptTimeNsec (with_queue q s) = mPrevNmeaRptTimeNsec s"
  "mOdcpiRequestActive (with_queue q s) = mOdcpiRequestActive s" "mDgnss (with_queue q s) = mDgnss s"
  "tk_api (with_queue q s) = tk_api s" "tk_effects (with_queue q s) = tk_effects s"
  by (simp_all add: with_queue_def)

lemma with_queue_upd [simp]:
  "(with_queue q s)\<lparr>mClientData := x0\<rparr> = with_queue q (s\<lparr>mClientData := x0\<rparr>)"
  "(with_queue q s)\<lparr>mEvtMask := x1\<rparr> = with_queue q (s\<lparr>mEvtMask := x1\<rparr>)"
  "(with_queue q s)\<lparr>mIsEngineCapabilitiesKnown := x2\<rparr> = with_queue q (s\<lparr>mIsEngineCapabilitiesKnown := x2\<rparr>)"
  "(with_queue q s)\<lparr>mPendingMsgs := x3\<rparr> = with_queue q (s\<lparr>mPendingMsgs := x3\<rparr>)"
  "(with_queue q s)\<lparr>mTimeBasedTrackingSessions := x4\<rparr> = with_queue q (s\<lparr>mTimeBasedTrackingSessions := x4\<rparr>)"
  "(with_queue q s)\<lparr>mDistanceBasedTrackingSessions := x5\<rparr> = with_queue q (s\<lparr>mDistanceBasedTrackingSessions := x5\<rparr>)"
  "(with_queue q s)\<lparr>mLocPositionMode := x6\<rparr> = with_queue q (s\<lparr>mLocPositionMode := x6\<rparr>)"
  "(with_queue q s)\<lparr>mNHzNeeded := x7\<rparr> = with_queue q (s\<lparr>mNHzNeeded := x7\<rparr>)"
  "(with_queue q s)\<lparr>mSPEAlreadyRunningAtHighestInterval := x8\<rparr> = with_queue q (s\<lparr>mSPEAlreadyRunningAtHighestInterval := x8\<rparr>)"
  "(with_queue q s)\<lparr>mPowerOn := x9\<rparr> = with_queue q (s\<lparr>mPowerOn := x9\<rparr>)"
  "(with_queue q s)\<lparr>mPowerStateCb := x10\<rparr> = with_queue q (s\<lparr>mPowerStateCb := x10\<rparr>)"
  "(with_queue q s)\<lparr>mPrevNmeaRptTimeNsec := x11\<rparr> = with_queue q (s\<lparr>mPrevNmeaRptTimeNsec := x11\<rparr>)"
  "(with_queue q s)\<lparr>mOdcpiRequestActive := x12\<rparr> = with_queue q (s\<lparr>mOdcpiRequestActive := x12\<rparr>)"
  "(with_queue q s)\<lparr>mDgnss := x13\<rparr> = with_queue q (s\<lparr>mDgnss := x13\<rparr>)"
  "(with_queue q s)\<lparr>tk_api := x14\<rparr> = with_queue q (s\<lparr>tk_api := x14\<rparr>)"
  "(with_queue q s)\<lparr>tk_effects := x15\<rparr> = with_queue q (s\<lparr>tk_effects := x15\<rparr>)"
  by (simp_all add: with_queue_def)

lemma queue_free [simp]:
  "tk_do es (with_queue q s) = with_queue q (tk_do es s)"
  "tk_call_api a k (with_queue q s) = with_queue q (tk_call_api a k s)"
  "tk_pend msg (with_queue q s) = with_queue q (tk_pend msg s)"
  "on_dgnss f (with_queue q s) = with_queue q (on_dgnss f s)"
  "isInSession (with_queue q s) = isInSession s"
  "isTimeBasedTrackingSession client i (with_queue q s) = isTimeBasedTrackingSession client i s"
  "isDistanceBasedTrackingSession client i (with_queue q s) = isDistanceBasedTrackingSession client i s"
  "hasCallbacksToStartTracking client (with_queue q s) = hasCallbacksToStartTracking client s"
  "getClientCallbacks client (with_queue q s) = getClientCallbacks client s"
  "getCapabilities eng (with_queue q s) = getCapabilities eng s"
  "broadcastCapabilities m (with_queue q s) = broadcastCapabilities m s"
  by (simp_all add: tk_do_def tk_call_api_def tk_pend_def on_dgnss_def isInSession_def isTimeBasedTrackingSession_def
      isDistanceBasedTrackingSession_def hasCallbacksToStartTracking_def getClientCallbacks_def getCapabilities_def broadcastCapabilities_def)

lemma queue_free_parts [simp]:
  "check_ntrip e (with_queue q s) = with_queue q (check_ntrip e s)"
  "tk_reportResponse client err i (with_queue q s) = with_queue q (tk_reportResponse client err i s)"
  "control_response e err i (with_queue q s) = with_queue q (control_response e err i s)"
  "answer_now b client i (with_queue q s) = with_queue q (answer_now b client i s)"
  "announce o1 (with_queue q s) = with_queue q (announce o1 s)"
  "updateEvtMask bits st (with_queue q s) = with_queue q (updateEvtMask bits st s)"
  "debug_nmea e (with_queue q s) = with_queue q (debug_nmea e s)"
  "notifyClientOfCachedLocationSystemInfo e client cb (with_queue q s) = with_queue q (notifyClientOfCachedLocationSystemInfo e client cb s)"
  "saveClient em client cb (with_queue q s) = with_queue q (saveClient em client cb s)"
  "eraseClient em client (with_queue q s) = with_queue q (eraseClient em client s)"
  "reportPowerStateIfChanged (with_queue q s) = with_queue q (reportPowerStateIfChanged s)"
  "checkAndSetSPEToRunforNHz o1 (with_queue q s) =
     (fst (checkAndSetSPEToRunforNHz o1 s), fst (snd (checkAndSetSPEToRunforNHz o1 s)), with_queue q (snd (snd (checkAndSetSPEToRunforNHz o1 s))))"
  by (simp_all add: check_ntrip_def tk_reportResponse_def control_response_def
      answer_now_def announce_def setLocPositionMode_def updateEvtMask_def debug_nmea_def notifyClientOfCachedLocationSystemInfo_def
      saveClient_def eraseClient_def reportPowerStateIfChanged_def checkAndSetSPEToRunforNHz_def Let_def
      split: option.splits loc_registration_mask_status.splits)

lemma queue_free_sessions [simp]:
  "saveTrackingSession e client i o1 (with_queue q s) = with_queue q (saveTrackingSession e client i o1 s)"
  "eraseTrackingSession client i (with_queue q s) = with_queue q (eraseTrackingSession client i s)"
  "startTimeBasedTracking client i o1 (with_queue q s) = with_queue q (startTimeBasedTracking client i o1 s)"
  "updateTracking client i o1 old (with_queue q s) = with_queue q (updateTracking client i o1 old s)"
  "checkAndRestartTimeBasedSession (with_queue q s) = with_queue q (checkAndRestartTimeBasedSession s)"
  "stopTracking client i (with_queue q s) = with_queue q (stopTracking client i s)"
  "suspendSessions (with_queue q s) = with_queue q (suspendSessions s)"
  by (simp_all add: saveTrackingSession_def eraseTrackingSession_def startTimeBasedTracking_def updateTracking_def
      checkAndRestartTimeBasedSession_def stopTracking_def suspendSessions_def case_prod_beta Let_def)

lemma foldl_with_queue: "(\<And>s x. f (with_queue q s) x = with_queue q (f s x)) \<Longrightarrow> foldl f (with_queue q s) xs = with_queue q (foldl f s xs)"
  by (induction xs arbitrary: s) auto

lemma queue_free_restart [simp]:
  "checkAndRestartSPESession (with_queue q s) = with_queue q (checkAndRestartSPESession s)"
  "tk_restartSessions e b (with_queue q s) = with_queue q (tk_restartSessions e b s)"
  "configMinGpsWeek e i w (with_queue q s) = with_queue q (configMinGpsWeek e i w s)"
proof -
  show *: "checkAndRestartSPESession (with_queue q s) = with_queue q (checkAndRestartSPESession s)" for s
    by (simp add: checkAndRestartSPESession_def Let_def foldl_with_queue)
  show **: "tk_restartSessions e b (with_queue q s) = with_queue q (tk_restartSessions e b s)" for s b
    by (simp add: tk_restartSessions_def * Let_def)
  show "configMinGpsWeek e i w (with_queue q s) = with_queue q (configMinGpsWeek e i w s)"
    by (simp add: configMinGpsWeek_def ** Let_def)
qed

lemma queue_free_multiplex [simp]:
  "startTimeBasedTrackingMultiplex client i o1 (with_queue q s) = map_prod id (with_queue q) (startTimeBasedTrackingMultiplex client i o1 s)"
  "stopTimeBasedTrackingMultiplex client i (with_queue q s) = map_prod id (with_queue q) (stopTimeBasedTrackingMultiplex client i s)"
  "updateTrackingMultiplex client i o1 (with_queue q s) = map_option (map_prod id (with_queue q)) (updateTrackingMultiplex client i o1 s)"
  by (simp_all add: startTimeBasedTrackingMultiplex_def stopTimeBasedTrackingMultiplex_def updateTrackingMultiplex_def
      case_prod_beta Let_def split: option.splits)

lemma queue_free_commands [simp]:
  "start_time_session e client i o1 (with_queue q s) = with_queue q (start_time_session e client i o1 s)"
  "stop_time_session client i (with_queue q s) = with_queue q (stop_time_session client i s)"
  "start_tracking e client i o1 (with_queue q s) = with_queue q (start_tracking e client i o1 s)"
  "stop_tracking client i (with_queue q s) = with_queue q (stop_tracking client i s)"
  "tk_stopClientSessions client (with_queue q s) = with_queue q (tk_stopClientSessions client s)"
  "report_position e tow sec nsec gga v (with_queue q s) = with_queue q (report_position e tow sec nsec gga v s)"
  by (simp_all add: start_time_session_def stop_time_session_def start_tracking_def stop_tracking_def tk_stopClientSessions_def
      report_position_def needToGenerateNmeaReport_def case_prod_beta Let_def foldl_with_queue)

lemma queue_free_update: "update_tracking e client i o1 (with_queue q s) = map_option (with_queue q) (update_tracking e client i o1 s)"
  by (simp add: update_tracking_def case_prod_beta Let_def map_option_bind option.map_comp comp_def map_option_case split: option.splits)

lemma queue_free_answered: "tk_answered e k err (with_queue q s) = with_queue q (tk_answered e k err s)"
  by (cases k) (simp_all add: start_time_reply_def update_time_reply_def)

lemma pending_kept [simp]:
  "mPendingMsgs (tk_do es s) = mPendingMsgs s" "mPendingMsgs (tk_call_api a k s) = mPendingMsgs s"
  "mPendingMsgs (tk_pend msg s) = mPendingMsgs s @ [msg]" "mPendingMsgs (on_dgnss f s) = mPendingMsgs s"
  "mPendingMsgs (tk_reportResponse client err i s) = mPendingMsgs s" "mPendingMsgs (control_response e err i s) = mPendingMsgs s"
  "mPendingMsgs (answer_now b client i s) = mPendingMsgs s" "mPendingMsgs (announce o1 s) = mPendingMsgs s"
  "mPendingMsgs (updateEvtMask bits st s) = mPendingMsgs s" "mPendingMsgs (debug_nmea e s) = mPendingMsgs s"
  "mPendingMsgs (notifyClientOfCachedLocationSystemInfo e client cb s) = mPendingMsgs s"
  "mPendingMsgs (saveClient em client cb s) = mPendingMsgs s" "mPendingMsgs (eraseClient em client s) = mPendingMsgs s"
  "mPendingMsgs (reportPowerStateIfChanged s) = mPendingMsgs s" "mPendingMsgs (check_ntrip e s) = mPendingMsgs s"
  "mPendingMsgs (snd (snd (checkAndSetSPEToRunforNHz o1 s))) = mPendingMsgs s"
  by (simp_all add: tk_do_def tk_call_api_def tk_pend_def on_dgnss_def tk_reportResponse_def control_response_def check_ntrip_def
      answer_now_def announce_def setLocPositionMode_def updateEvtMask_def debug_nmea_def notifyClientOfCachedLocationSystemInfo_def
      saveClient_def eraseClient_def reportPowerStateIfChanged_def checkAndSetSPEToRunforNHz_def Let_def
      split: option.splits loc_registration_mask_status.splits)

lemma pending_sessions [simp]:
  "mPendingMsgs (saveTrackingSession e client i o1 s) = mPendingMsgs s" "mPendingMsgs (eraseTrackingSession client i s) = mPendingMsgs s"
  "mPendingMsgs (startTimeBasedTracking client i o1 s) = mPendingMsgs s" "mPendingMsgs (updateTracking client i o1 old s) = mPendingMsgs s"
  "mPendingMsgs (checkAndRestartTimeBasedSession s) = mPendingMsgs s" "mPendingMsgs (stopTracking client i s) = mPendingMsgs s"
  "mPendingMsgs (suspendSessions s) = mPendingMsgs s"
  by (simp_all add: saveTrackingSession_def eraseTrackingSession_def startTimeBasedTracking_def updateTracking_def
      checkAndRestartTimeBasedSession_def stopTracking_def suspendSessions_def case_prod_beta Let_def)

lemma pending_foldl: "(\<And>s x. mPendingMsgs (f s x) = mPendingMsgs s) \<Longrightarrow> mPendingMsgs (foldl f s xs) = mPendingMsgs s"
  by (induction xs arbitrary: s) auto

lemma pending_restart [simp]:
  "mPendingMsgs (checkAndRestartSPESession s) = mPendingMsgs s" "mPendingMsgs (tk_restartSessions e b s) = mPendingMsgs s"
  "mPendingMsgs (configMinGpsWeek e i w s) = mPendingMsgs s"
  "mPendingMsgs (snd (startTimeBasedTrackingMultiplex client i o1 s)) = mPendingMsgs s"
  "mPendingMsgs (snd (stopTimeBasedTrackingMultiplex client i s)) = mPendingMsgs s"
  by (simp_all add: tk_restartSessions_def checkAndRestartSPESession_def configMinGpsWeek_def startTimeBasedTrackingMultiplex_def
      stopTimeBasedTrackingMultiplex_def pending_foldl case_prod_beta Let_def split: option.splits)

lemma pending_update: "updateTrackingMultiplex client i o1 s = Some (b, s') \<Longrightarrow> mPendingMsgs s' = mPendingMsgs s"
  by (auto simp: updateTrackingMultiplex_def case_prod_beta Let_def split: option.splits if_splits)

lemma pending_commands [simp]:
  "mPendingMsgs (start_time_session e client i o1 s) = mPendingMsgs s" "mPendingMsgs (stop_tracking client i s) = mPendingMsgs s"
  "mPendingMsgs (tk_stopClientSessions client s) = mPendingMsgs s" "mPendingMsgs (report_position e tow sec nsec gga v s) = mPendingMsgs s"
  "mPendingMsgs (tk_answered e k err s) = mPendingMsgs s" "mPendingMsgs (handle_engine_up e s) = []"
  by (simp_all add: start_time_session_def stop_time_session_def stop_tracking_def tk_stopClientSessions_def report_position_def
      needToGenerateNmeaReport_def handle_engine_up_def case_prod_beta Let_def pending_foldl)
    (cases k, simp_all add: start_time_reply_def update_time_reply_def start_time_session_def case_prod_beta)

lemma queue_free_up: "handle_engine_up e (with_queue q s) = with_queue (q @ mPendingMsgs s) (handle_engine_up e s)"
proof -
  have q: "s\<lparr>tk_queue := x\<rparr> = with_queue x s" for x and s :: tk_state by (simp add: with_queue_def)
  show ?thesis by (simp add: handle_engine_up_def q Let_def)
qed

text \<open>A message runs the same whatever waits behind it.\<close>

definition released :: "tk_msg \<Rightarrow> tk_state \<Rightarrow> tk_msg list" where
  "released msg s = (if msg = MsgHandleEngineUpEvent then mPendingMsgs s else [])"

lemma queue_free_proc:
  "tk_proc e msg (with_queue q s) = map_option (with_queue (q @ released msg s)) (tk_proc e msg s)"
  by (cases msg)
    (simp_all add: released_def queue_free_up queue_free_update queue_free_answered Let_def map_option_bind option.map_comp comp_def)

definition plain_msg :: "tk_msg \<Rightarrow> bool" where
  "plain_msg msg = (case msg of MsgReportGGA _ \<Rightarrow> False | MsgReportPosition _ _ _ _ _ \<Rightarrow> False | _ \<Rightarrow> True)"

lemma pending_proc:
  assumes "tk_proc e msg s = Some s'" "list_all plain_msg (mPendingMsgs s)"
  shows "list_all plain_msg (mPendingMsgs s')"
  using assms
  by (cases msg) (auto simp: plain_msg_def start_tracking_def update_tracking_def Let_def case_prod_beta bind_eq_Some_conv
      dest!: pending_update split: if_splits)


text \<open>The same step with other sentences and positions in it.\<close>

fun other_msg :: "(string option \<Rightarrow> string option) \<Rightarrow> (bool \<Rightarrow> bool) \<Rightarrow> tk_msg \<Rightarrow> tk_msg" where
  "other_msg f u (MsgReportGGA nmea) = MsgReportGGA (f nmea)"
| "other_msg f u (MsgReportPosition tow sec nsec gga valid) = MsgReportPosition tow sec nsec (f gga) (u valid)"
| "other_msg f u msg = msg"

fun other_step :: "(string option \<Rightarrow> string option) \<Rightarrow> (bool \<Rightarrow> bool) \<Rightarrow> tk_step_kind \<Rightarrow> tk_step_kind" where
  "other_step f u (Command msg) = Command (other_msg f u msg)"
| "other_step f u k = k"

lemma other_plain: "plain_msg msg \<Longrightarrow> other_msg f u msg = msg"
  by (cases msg) (auto simp: plain_msg_def)

lemma other_pending: "list_all plain_msg ms \<Longrightarrow> map (other_msg f u) ms = ms"
  by (induction ms) (auto simp: other_plain)

lemma other_proc:
  assumes "\<not> mSendNmeaConsent (mDgnss s)"
  shows "tk_proc e (other_msg f u msg) s = tk_proc e msg s"
proof -
  have n: "mDgnss (snd (needToGenerateNmeaReport e a b c s)) = mDgnss s" for a b c
    by (simp add: needToGenerateNmeaReport_def Let_def)
  with assms show ?thesis
    by (cases msg) (auto simp: reportGGAToNtrip_def position_gga_def isDgnssNmeaRequired_def report_position_def on_dgnss_def
        case_prod_beta split: option.splits)
qed

lemma other_released: "released (other_msg f u msg) s = released msg s"
  by (cases msg) (simp_all add: released_def)

text \<open>Without consent the two runs differ in the messages that wait, and in nothing else.\<close>

definition quiet :: "tk_state \<Rightarrow> bool" where
  "quiet s \<longleftrightarrow> \<not> mSendNmeaConsent (mDgnss s) \<and> list_all plain_msg (mPendingMsgs s)"

lemma other_adapter:
  assumes "quiet s" "tk_step (AdapterStep e) s = Some t"
  shows "tk_step (AdapterStep e) (with_queue (map (other_msg f u) (tk_queue s)) s) = Some (with_queue (map (other_msg f u) (tk_queue t)) t)"
proof (cases "tk_queue s")
  case Nil
  with assms show ?thesis by (simp add: tk_step_def)
next
  case (Cons msg ms)
  let ?g = "other_msg f u"
  have w: "s'\<lparr>tk_queue := q\<rparr> = with_queue q s'" for q and s' :: tk_state by (simp add: with_queue_def)
  from assms(2) Cons have p: "tk_proc e msg (with_queue ms s) = Some t" by (simp add: tk_step_def w)
  then obtain t0 where t0: "tk_proc e msg s = Some t0" "t = with_queue (ms @ released msg s) t0"
    by (auto simp: queue_free_proc)
  have "map ?g (released msg s) = released msg s"
    using assms(1) other_pending by (auto simp: quiet_def released_def)
  then show ?thesis
    using Cons t0 assms(1) by (simp add: tk_step_def w queue_free_proc other_proc quiet_def other_released)
qed


lemma consent_step: "dgnss_step False d d' \<Longrightarrow> \<not> mSendNmeaConsent d \<Longrightarrow> \<not> mSendNmeaConsent d'"
  by (induction "False" d d' rule: dgnss_step.induct)
    (auto simp: checkUpdateDgnssNtrip_def startDgnssSource_def session_stopped_def stopDgnssNtrip_def stopDgnssSource_def
      handleEnablePPENtrip_def handleDisablePPENtrip_def restartDgnssSource_def position_gga_def reportGGAToNtrip_def
      isDgnssNmeaRequired_def Let_def split: option.splits)

lemma consent_steps: "dgnss_steps False d d' \<Longrightarrow> \<not> mSendNmeaConsent d \<Longrightarrow> \<not> mSendNmeaConsent d'"
  by (induction rule: dgnss_steps.induct) (auto dest: consent_step)

lemma quiet_step:
  assumes "tk_step k s = Some t" "\<not> gives_consent k" "quiet s"
  shows "quiet t"
proof -
  have "\<not> mSendNmeaConsent (mDgnss t)"
    using reaches_step [OF _ assms(1), of False] consent_steps assms(2,3) by (simp add: reaches_def quiet_def)
  moreover have "list_all plain_msg (mPendingMsgs t)"
    using assms(1,3) pending_proc
    by (fastforce simp: tk_step_def tk_send_def quiet_def updateNHzRequirementCb_def Let_def
        split: tk_step_kind.splits list.splits if_splits)
  ultimately show ?thesis by (simp add: quiet_def)
qed

lemma other_step_same:
  assumes "tk_step k s = Some t" "quiet s"
  shows "tk_step (other_step f u k) (with_queue (map (other_msg f u) (tk_queue s)) s) =
    Some (with_queue (map (other_msg f u) (tk_queue t)) t)"
proof (cases k)
  case (AdapterStep e)
  with other_adapter [OF assms(2)] assms(1) show ?thesis by simp
next
  case (HubStep a b)
  have "updateNHzRequirementCb a b (with_queue q s) = with_queue q (updateNHzRequirementCb a b s)" for q
    by (simp add: updateNHzRequirementCb_def Let_def)
  moreover from this [of "tk_queue s"] have "tk_queue (updateNHzRequirementCb a b s) = tk_queue s"
    by (metis with_queue_sel(1,3))
  ultimately show ?thesis using HubStep assms(1) by (simp add: tk_step_def)
qed (use assms(1) in \<open>auto simp: tk_step_def tk_send_def with_queue_def on_dgnss_def Let_def split: list.splits\<close>)

lemma other_run:
  assumes "tk_run ks s = Some t" "\<forall>k\<in>set ks. \<not> gives_consent k" "quiet s"
  shows "tk_run (map (other_step f u) ks) (with_queue (map (other_msg f u) (tk_queue s)) s) =
    Some (with_queue (map (other_msg f u) (tk_queue t)) t)"
  using assms
proof (induction ks arbitrary: s)
  case (Cons k ks)
  then obtain s1 where s1: "tk_step k s = Some s1" "tk_run ks s1 = Some t" by (auto simp: Option.bind_eq_Some_conv)
  with Cons.prems have "quiet s1" using quiet_step by auto
  with Cons.IH [OF s1(2)] other_step_same [OF s1(1) Cons.prems(3)] Cons.prems show ?case by simp
qed simp

text \<open>
  C3. Without the user's consent nothing that is sent to the service for the corrections depends on the
  position. Take any sequence of steps of the adapter, its commands, the modem interface and the hub in which
  the consent is never given, with any streams enabled. Replace the GGA sentences that arrive and those the
  adapter generates from positions, and whether these are valid, by any others (\<open>f\<close> and \<open>u\<close>): the run is
  again defined and sends exactly the same messages, in the same order. They are requests to stop and requests
  to start made without a sentence; the position is never updated.
\<close>

theorem position_needs_consent:
  assumes "tk_run ks (new_tracking junk) = Some s" "\<forall>k\<in>set ks. \<not> gives_consent k"
  shows "(\<exists>s'. tk_run (map (other_step f u) ks) (new_tracking junk) = Some s' \<and> sent (mDgnss s') = sent (mDgnss s))
    \<and> (\<forall>msg\<in>set (sent (mDgnss s)). msg = ''stopDgnssSource'' \<or> (\<exists>p. msg = start_message p []))"
proof
  have q: "quiet (new_tracking junk)" by (simp add: quiet_def new_tracking_def new_dgnss_def)
  have w: "with_queue (map (other_msg f u) (tk_queue (new_tracking junk))) (new_tracking junk) = new_tracking junk"
    by (simp add: with_queue_def new_tracking_def)
  show "\<exists>s'. tk_run (map (other_step f u) ks) (new_tracking junk) = Some s' \<and> sent (mDgnss s') = sent (mDgnss s)"
    using other_run [OF assms q, of f u] unfolding w by simp
  have "reaches False (new_tracking junk) s" by (rule reaches_run) (use assms in auto)
  moreover have "no_position (mDgnss (new_tracking junk))" by (simp add: new_tracking_def new_dgnss_def no_position_def)
  ultimately have "no_position (mDgnss s)" using no_position_steps by (auto simp: reaches_def)
  then show "\<forall>msg\<in>set (sent (mDgnss s)). msg = ''stopDgnssSource'' \<or> (\<exists>p. msg = start_message p [])"
    by (simp add: no_position_def)
qed

text \<open>
  A stream that needs the position is enabled during a session; it is started without one, and whatever other
  sentence arrives. With the consent given first, the sentence is sent.
\<close>

definition stream_params :: GnssNtripConnectionParams where
  "stream_params = \<lparr>ntrip_size = 160, requiresNmeaLocation = True, hostNameOrIp = ''h'', mountPoint = ''m'', username = ''u'', password = ''p'',
     port = 2101, useSSL = True\<rparr>"

definition stream_run :: "tk_step_kind list" where
  "stream_run = two_sessions @ [Command (MsgEnableNtrip stream_params), AdapterStep tk_sample_env,
     Command (MsgReportGGA (Some ''$GPGGA,1,2,3,4,5,1,7'')), AdapterStep tk_sample_env]"

lemma stream_run_with_consent:
  "map_option (\<lambda>s. sent (mDgnss s)) (tk_run (ConsentStep True # stream_run) (new_tracking sample_params)) =
     Some [start_message stream_params ''$GPGGA,1,2,3,4,5,1,7'']"
  by code_simp

theorem position_needs_consent_witness:
  "\<exists>s s'. tk_run stream_run (new_tracking sample_params) = Some s \<and> sent (mDgnss s) \<noteq> []
     \<and> tk_run (map (other_step (\<lambda>_. Some ''$GPGGA,9,9,9,9,9,1,9'') (\<lambda>_. True)) stream_run) (new_tracking sample_params) = Some s'
     \<and> sent (mDgnss s') = sent (mDgnss s)"
proof -
  have c: "\<forall>k\<in>set stream_run. \<not> gives_consent k" by code_simp
  have "map_option (\<lambda>s. sent (mDgnss s) = []) (tk_run stream_run (new_tracking sample_params)) = Some False" by code_simp
  then obtain s where s: "tk_run stream_run (new_tracking sample_params) = Some s" "sent (mDgnss s) \<noteq> []" by auto
  then show ?thesis using position_needs_consent[OF s(1) c] by blast
qed

section \<open>A started source runs\<close>

text \<open>Whether the service has been told to run the source, from what it was sent.\<close>

definition source_on :: "string list \<Rightarrow> bool" where
  "source_on msgs = foldl (\<lambda>on msg. if msg = ''stopDgnssSource'' then False
     else if take 16 msg = ''startDgnssSource'' then True else on) False msgs"

lemma start_prefix [simp]: "take 16 (start_message p nmea) = ''startDgnssSource''" "start_message p nmea \<noteq> []"
  by (simp_all add: start_message_def lines_def)

lemma update_prefix [simp]: "take 16 (lines [''updateDgnssServerNmea'', x]) = ''updateDgnssServe''"
  by (simp add: lines_def)

lemma start_not_stop [simp]: "start_message p nmea \<noteq> ''stopDgnssSource''"
  using start_prefix(1)[of p nmea] by fastforce

lemma update_not_stop [simp]: "lines [''updateDgnssServerNmea'', x] \<noteq> ''stopDgnssSource''"
  using update_prefix[of x] by fastforce

lemma source_on_append [simp]:
  "source_on (msgs @ [start_message p nmea])" "\<not> source_on (msgs @ [''stopDgnssSource''])"
  "source_on (msgs @ [lines [''updateDgnssServerNmea'', x]]) = source_on msgs"
  by (simp_all add: source_on_def)

definition started_ok :: "dgnss \<Rightarrow> bool" where
  "started_ok d \<longleftrightarrow> (has_state DGNSS_STATE_NTRIP_SESSION_STARTED d \<longrightarrow>
       has_state DGNSS_STATE_ENABLE_NTRIP_COMMAND d \<and> source_on (sent d))
     \<and> (mNtripParamsString d = [] \<or> (\<exists>p nmea. mNtripParamsString d = start_message p nmea) \<and> source_on (sent d))"

lemma has_state_bits:
  "has_state DGNSS_STATE_NTRIP_SESSION_STARTED d = bit (mDgnssState d) 2"
  "has_state DGNSS_STATE_ENABLE_NTRIP_COMMAND d = bit (mDgnssState d) 0"
proof -
  have "mDgnssState d AND 2 ^ n = 0 \<longleftrightarrow> \<not> bit (mDgnssState d) n" for n
    by (auto simp: and_exp_eq_0_iff_not_bit)
  from this[of 2] this[of 0] show "has_state DGNSS_STATE_NTRIP_SESSION_STARTED d = bit (mDgnssState d) 2"
    "has_state DGNSS_STATE_ENABLE_NTRIP_COMMAND d = bit (mDgnssState d) 0"
    by (simp_all add: has_state_def dgnss_bits)
qed

lemma state_bits:
  "bit (x OR DGNSS_STATE_NTRIP_SESSION_STARTED) n \<longleftrightarrow> bit x n \<or> n = 2"
  "bit (x OR DGNSS_STATE_NO_NMEA_PENDING) n \<longleftrightarrow> bit x n \<or> n = 1"
  "bit (x OR DGNSS_STATE_ENABLE_NTRIP_COMMAND) n \<longleftrightarrow> bit x n \<or> n = 0"
  "n < 16 \<Longrightarrow> bit (x AND NOT DGNSS_STATE_NTRIP_SESSION_STARTED) n \<longleftrightarrow> bit x n \<and> n \<noteq> 2"
  "n < 16 \<Longrightarrow> bit (x AND NOT DGNSS_STATE_NO_NMEA_PENDING) n \<longleftrightarrow> bit x n \<and> n \<noteq> 1"
  "n < 16 \<Longrightarrow> bit (x AND NOT DGNSS_STATE_ENABLE_NTRIP_COMMAND) n \<longleftrightarrow> bit x n \<and> n \<noteq> 0" for x :: u16
proof -
  have e: "bit (x OR 2 ^ k) n \<longleftrightarrow> bit x n \<or> n = k" "n < 16 \<Longrightarrow> bit (x AND NOT (2 ^ k)) n \<longleftrightarrow> bit x n \<and> n \<noteq> k" if "k < 16" for k
    using that by (auto simp: bit_or_iff bit_and_iff bit_not_iff bit_exp_iff)
  have b: "DGNSS_STATE_NTRIP_SESSION_STARTED = 2 ^ 2" "DGNSS_STATE_NO_NMEA_PENDING = 2 ^ 1" "DGNSS_STATE_ENABLE_NTRIP_COMMAND = 2 ^ 0"
    by (simp_all add: dgnss_bits)
  show "bit (x OR DGNSS_STATE_NTRIP_SESSION_STARTED) n \<longleftrightarrow> bit x n \<or> n = 2"
    "n < 16 \<Longrightarrow> bit (x AND NOT DGNSS_STATE_NTRIP_SESSION_STARTED) n \<longleftrightarrow> bit x n \<and> n \<noteq> 2"
    "bit (x OR DGNSS_STATE_NO_NMEA_PENDING) n \<longleftrightarrow> bit x n \<or> n = 1"
    "n < 16 \<Longrightarrow> bit (x AND NOT DGNSS_STATE_NO_NMEA_PENDING) n \<longleftrightarrow> bit x n \<and> n \<noteq> 1"
    "bit (x OR DGNSS_STATE_ENABLE_NTRIP_COMMAND) n \<longleftrightarrow> bit x n \<or> n = 0"
    "n < 16 \<Longrightarrow> bit (x AND NOT DGNSS_STATE_ENABLE_NTRIP_COMMAND) n \<longleftrightarrow> bit x n \<and> n \<noteq> 0"
    unfolding b by (rule e; simp)+
qed

lemma enable_bit [simp]: "bit DGNSS_STATE_ENABLE_NTRIP_COMMAND 0"
  by (simp add: dgnss_bits)

lemma started_check: "started_ok d \<Longrightarrow> started_ok (checkUpdateDgnssNtrip b n v d)"
  by (auto simp: started_ok_def checkUpdateDgnssNtrip_def startDgnssSource_def updateNmeaToDgnssServer_def has_state_bits state_bits Let_def)


lemma started_stop: "started_ok d \<Longrightarrow> started_ok (stopDgnssNtrip d)"
  by (auto simp: started_ok_def stopDgnssNtrip_def stopDgnssSource_def has_state_bits state_bits Let_def)

lemma started_clear: "started_ok d \<Longrightarrow> started_ok (clear_state DGNSS_STATE_NO_NMEA_PENDING d)"
  "started_ok d \<Longrightarrow> started_ok (clear_state DGNSS_STATE_NTRIP_SESSION_STARTED d)"
  "started_ok d \<Longrightarrow> started_ok (set_state DGNSS_STATE_NO_NMEA_PENDING d)"
  "started_ok d \<Longrightarrow> started_ok (set_state DGNSS_STATE_ENABLE_NTRIP_COMMAND d)"
  by (simp_all add: started_ok_def has_state_bits state_bits)

lemma started_fields [simp]:
  "started_ok (d\<lparr>ntrip_nmea := x\<rparr>) = started_ok d" "started_ok (d\<lparr>mSendNmeaConsent := b\<rparr>) = started_ok d"
  "started_ok (d\<lparr>mDgnssLastNmeaBootTimeMilli := n\<rparr>) = started_ok d" "started_ok (d\<lparr>ntripParams := p\<rparr>) = started_ok d"
  by (simp_all add: started_ok_def has_state_def)

lemma started_disable: "started_ok d \<Longrightarrow> started_ok (handleDisablePPENtrip d)"
  by (auto simp: started_ok_def handleDisablePPENtrip_def stopDgnssNtrip_def stopDgnssSource_def has_state_bits state_bits Let_def)

lemma started_enable: "started_ok d \<Longrightarrow> started_ok (handleEnablePPENtrip b n p d)"
  by (auto simp: handleEnablePPENtrip_def Let_def intro!: started_check started_clear)

lemma started_restart: "started_ok d \<Longrightarrow> started_ok (restartDgnssSource d)"
  by (auto simp: started_ok_def restartDgnssSource_def has_state_def)

lemma started_gga: "started_ok d \<Longrightarrow> reportGGAToNtrip b n nmea d = Some d' \<Longrightarrow> started_ok d'"
  by (auto simp: reportGGAToNtrip_def Option.bind_eq_Some_conv split: option.splits if_splits intro!: started_check started_clear)

lemma started_position: "started_ok d \<Longrightarrow> started_ok (position_gga b n g v d)"
  by (auto simp: position_gga_def split: option.splits intro!: started_check started_clear)

lemma started_step: "dgnss_step c d d' \<Longrightarrow> started_ok d \<Longrightarrow> started_ok d'"
  by (induction rule: dgnss_step.induct)
    (auto simp: session_stopped_def intro: started_check started_stop started_clear started_enable started_disable started_restart started_gga started_position)

lemma started_steps: "dgnss_steps c d d' \<Longrightarrow> started_ok d \<Longrightarrow> started_ok d'"
  by (induction rule: dgnss_steps.induct) (auto intro: started_step)

theorem started_source_runs:
  assumes "tk_run ks (new_tracking junk) = Some s" "has_state DGNSS_STATE_NTRIP_SESSION_STARTED (mDgnss s)"
  shows "has_state DGNSS_STATE_ENABLE_NTRIP_COMMAND (mDgnss s) \<and> source_on (sent (mDgnss s))"
proof -
  have "reaches True (new_tracking junk) s" by (rule reaches_run[OF _ assms(1)]) simp
  moreover have "started_ok (mDgnss (new_tracking junk))" by (simp add: new_tracking_def new_dgnss_def started_ok_def has_state_def)
  ultimately have "started_ok (mDgnss s)" using started_steps by (auto simp: reaches_def)
  with assms(2) show ?thesis by (simp add: started_ok_def)
qed

section \<open>A source that is never stopped\<close>

text \<open>
  While the source runs, the stream is enabled with other parameters, whose caster needs the position: the source is
  no longer marked as started, and neither the end of the session nor disabling the stream stops it.
\<close>

theorem replaced_source_not_stopped:
  assumes "source_on (sent d)" "mSendNmeaConsent d" "requiresNmeaLocation p" "\<not> same_params (ntripParams d) p"
  shows "let d' = handleDisablePPENtrip (session_stopped (handleEnablePPENtrip b n p d))
         in source_on (sent d') \<and> sent d' = sent d \<and> \<not> has_state DGNSS_STATE_ENABLE_NTRIP_COMMAND d'
            \<and> \<not> has_state DGNSS_STATE_NTRIP_SESSION_STARTED d'"
proof -
  have e: "handleEnablePPENtrip b n p d =
      (clear_state DGNSS_STATE_NO_NMEA_PENDING ((clear_state DGNSS_STATE_NTRIP_SESSION_STARTED
        (set_state DGNSS_STATE_NO_NMEA_PENDING (set_state DGNSS_STATE_ENABLE_NTRIP_COMMAND d)))
          \<lparr>ntripParams := p, ntrip_nmea := []\<rparr>))\<lparr>mDgnssLastNmeaBootTimeMilli := 0\<rparr>"
    using assms by (simp add: handleEnablePPENtrip_def isDgnssNmeaRequired_def)
  show ?thesis using assms
    by (simp add: e session_stopped_def handleDisablePPENtrip_def stopDgnssNtrip_def isDgnssNmeaRequired_def has_state_bits state_bits Let_def)
qed

section \<open>A position after the consent was withdrawn\<close>

text \<open>
  A sentence arrives after a session has ended; the consent is withdrawn; the next session sends the position to the
  caster.
\<close>

theorem position_after_withdrawal:
  assumes "mDgnssState d = DGNSS_STATE_ENABLE_NTRIP_COMMAND" "mSendNmeaConsent d" "requiresNmeaLocation (ntripParams d)"
    "str_find ''GGA'' 0 nmea = Some k" "POS_OF_GGA \<le> k" "gga_has_fix (gga_sentence nmea k) = Some True"
  shows "\<exists>d1. reportGGAToNtrip False n (Some nmea) d = Some d1
    \<and> sent (checkUpdateDgnssNtrip True n' False (d1\<lparr>mSendNmeaConsent := False\<rparr>)) = sent d @ [start_message (ntripParams d) (gga_sentence nmea k)]"
proof -
  have "nmea \<noteq> []" using assms(4) by (auto simp: str_find_def)
  then have "reportGGAToNtrip False n (Some nmea) d = Some ((set_state DGNSS_STATE_NO_NMEA_PENDING d)\<lparr>ntrip_nmea := gga_sentence nmea k\<rparr>)"
    using assms by (simp add: reportGGAToNtrip_def isDgnssNmeaRequired_def checkUpdateDgnssNtrip_def)
  then show ?thesis
    using assms(1) by (simp add: checkUpdateDgnssNtrip_def startDgnssSource_def isDgnssNmeaRequired_def set_state_def Let_def)
qed

section \<open>Sentences\<close>

lemma find_at_char: "c \<notin> set xs \<Longrightarrow> find_at [c] i (xs @ c # ys) = Some (i + length xs)"
  by (induction xs arbitrary: i) auto

text \<open>
  The position of the next sentence is used as the length of the text to take: characters of the following sentence
  are taken as well, as many as stood before the GGA sentence.
\<close>

theorem gga_sentence_overlong:
  assumes "length g \<ge> 3" "CHR ''$'' \<notin> set (drop 3 g)"
  shows "gga_sentence (before @ g @ CHR ''$'' # after) (length before + 3) = g @ take (length before) (CHR ''$'' # after)"
proof -
  have "drop (length before + 3) (before @ g @ CHR ''$'' # after) = drop 3 g @ CHR ''$'' # after" using assms(1) by simp
  then have "str_find ''$'' (length before + 3) (before @ g @ CHR ''$'' # after) = Some (length before + 3 + length (drop 3 g))"
    using find_at_char[OF assms(2)] assms(1) by (simp add: str_find_def)
  then show ?thesis using assms(1) by (simp add: gga_sentence_def POS_OF_GGA_def substr_def)
qed

text \<open>A sentence with exactly six commas makes \<open>at\<close> throw.\<close>

lemma gga_six_commas_throws: "gga_has_fix ''$GPGGA,1,2,3,4,5,6'' = None"
  by code_simp

text \<open>A fix is read from the field behind the sixth comma.\<close>

lemma gga_fix_examples:
  "gga_has_fix ''$GPGGA,1,2,3,4,5,0,7'' = Some False" "gga_has_fix ''$GPGGA,1,2,3,4,5,1,7'' = Some True"
  by code_simp+

end
