(* ===== verification/Spec2Isabelle.thy ===== *)
theory Spec2Isabelle
  imports SparseCrc GptStages BootSwitch AgpsNative LocTimer MsgQ LogBuffer SyncReq GeofenceRun OsSubs CfgLaunch BatchingRun NtripRun
begin

text \<open>
  A verification development for the native services of the Motorola cypfr device tree: the A/B boot
  control with the partition tables it edits, and the core of the location service with the
  infrastructure it runs on.

  \<^bold>\<open>The program.\<close> The repository holds programs that share a device but not a process.

  \<^item> \<open>src/gpt-utils\<close> reads and writes GUID partition tables. A device has a primary and a backup copy
    of its table; \<open>gpt-utils.cpp\<close> updates the boot partitions in three stages (main, backup,
    finalize), and offers \<open>gpt_disk\<close>, both copies of a table in memory, to load, search, checksum and
    commit. \<open>recovery-ufs-bsg.cpp\<close> tells a UFS device which boot unit to start from.
    \<open>sparse_crc32.cpp\<close> is a checksum of its own.
  \<^item> \<open>src/bootctrl\<close> is the boot control service: it keeps slot attributes (active, successful,
    unbootable) in the table entries of the partitions, through \<open>gpt_disk\<close>. The library
    \<open>libboot_control_qti.cpp\<close> is behind the HIDL service \<open>BootControl.cpp\<close>; \<open>boot_control.cpp\<close> is the
    older hardware module.
  \<^item> \<open>src/gps/gnss\<close>: \<open>Agps.cpp\<close> holds the state machines that ask for a mobile data call on behalf of
    the modem and tell the subscribers the outcome; \<open>NativeAgpsHandler.cpp\<close> answers such requests
    inside the service, through messages of \<open>GnssAdapter.cpp\<close>. The same adapter keeps the tracking
    sessions of the clients, asks the modem for what they need together, and starts and stops the source
    of corrections, through \<open>XtraSystemStatusObserver.cpp\<close>.
  \<^item> \<open>src/gps/utils\<close> is what they run on: \<open>linked_list.c\<close> under \<open>msg_q.c\<close> under \<open>MsgTask.cpp\<close>, the
    thread that processes messages in order; \<open>LocHeap.cpp\<close> under \<open>LocTimer.cpp\<close>, the timers;
    \<open>SkipList.h\<close> under \<open>LogBuffer.cpp\<close>, the last log messages of every level.
  \<^item> \<open>src/gps/core\<close>: \<open>LocAdapterBase.cpp\<close> keeps the clients of an adapter and numbers their sessions;
    \<open>src/gps/geofence/GeofenceAdapter.cpp\<close> is the adapter for geofences, which keeps two tables of
    them and carries out commands for several geofences through the queue of the modem interface.
  \<^item> \<open>src/gps/core/SystemStatusOsObserver.cpp\<close>, on \<open>src/gps/utils/LocUnorderedSetMap.h\<close>: clients subscribe
    to data items of the operating system, and the observer subscribes with the framework for what any
    of them wants; \<open>SystemStatus.cpp\<close> records the items.
  \<^item> \<open>src/gps/batching/BatchingAdapter.cpp\<close>: batching sessions of clients, and trips that share one
    batch of the modem.
  \<^item> \<open>src/gps/utils/loc_cfg.cpp\<close>, on \<open>loc_misc_utils.cpp\<close>: configuration files are read into tables of
    variables, and \<open>loc_read_process_conf\<close> chooses from one of them the processes to launch.
  \<^item> \<open>src/location/loc_api/loc_api_v02/loc_api_sync_req.cpp\<close> makes a modem request synchronous: a thread
    sends it and sleeps in one of eight slots until the indication with its number arrives.

  \<^bold>\<open>The theories\<close>, in the order in which they build on one another.

  \<^item> \<open>Prelude\<close>: words and bytes, slices and overwriting of byte lists, and \<open>wp\<close>, a rule set that
    steps through computations with an option result in the order the code runs.
  \<^item> \<open>GptBytes\<close>, \<open>BlockDev\<close>: the byte accessors, and the world the code acts on: block devices as byte
    lists, and the system calls, each of which may fail at any time (\<open>env_ok\<close> decides by the number
    of the call). What the repository does not contain is a field of \<open>env\<close>: zlib's \<open>crc32\<close>,
    properties, links and directories.
  \<^item> \<open>GptEntry\<close>: searching a table and swapping the boot chain. C1, C2: the search finds the first
    match, and the swap exchanges every partition with its backup and nothing else. Beside them: the swap
    undoes itself.
  \<^item> \<open>UfsBsg\<close>, \<open>GptUpdate\<close>, \<open>GptSafety\<close>: the boot unit queries and the update stages, and what each
    reading and writing call does to the headers, as \<open>wp\<close> rules.
  \<^item> \<open>GptStages\<close> (on \<open>GptStore\<close>, for the entries): the stages on whole copies, entries and their checksum
    included. C4: whatever calls fail, a device that had a whole copy keeps one and its primary entries;
    C5: a stage that reports success has done its work; C22: the three stages in order complete an
    update when no call fails.
  \<^item> \<open>GptDisk\<close>, \<open>GptStore\<close>: the \<open>gpt_disk\<close> interface. C7: at any failure of a commit one copy is intact; C8: what is committed is read
    back. Beside them: updating the checksums makes both copies valid.
  \<^item> \<open>BootCtl\<close>, \<open>BootAttr\<close>: the boot control library. The locale \<open>attr_store\<close> is the contract of a store
    of named attributes, interpreted on the tables of the devices. C9: an attribute update is exactly
    its specification on the lists of entries of both copies, for all three attributes; C10: it leaves every device bootable. Beside them: a slot
    made unbootable is not bootable, a slot marked successful is successful, and when the slot suffix
    table is read inside its bounds and when not.
  \<^item> \<open>BootHal\<close>: the HIDL service and the hardware module; both generations behave alike.
  \<^item> \<open>BootSwitch\<close>: switching the active slot. C33: with the slots on two devices it does what it is
    for; C35: on one device the change of slot A is overwritten. Beside them: it succeeds when no call
    fails.
  \<^item> \<open>SparseCrc\<close>. C20: the table-driven checksum equals the bitwise one.
  \<^item> \<open>Machine\<close>: runs, reachable states and the locale \<open>machine\<close>: an invariant kept by every step, and
    admitted operations that are always defined. Interpreted by \<open>AgpsMgr\<close>, \<open>LocTimer\<close>, \<open>MsgQ\<close>
    and twice by \<open>SyncReq\<close>.
  \<^item> \<open>Agps\<close>, \<open>AgpsMgr\<close>: the data call machines and their manager. C16: they refine an abstract machine
    on lists of subscribers; C17: the state is consistent and no operation is undefined; C18: no
    request is forgotten; C19: two reports of the framework bring a machine back to rest.
  \<^item> \<open>AgpsNative\<close>: the native handler, the adapter's messages and their queue. Shown: for
    the known types and APNs that fit every request has its answer under way and the queue drains; and two ways in
    which another request blocks.
  \<^item> \<open>LocHeap\<close>: the pointer tree as a datatype. The locale \<open>rankable\<close> states what the heap needs of
    its objects, \<open>rank_queue\<close> what a client may rely on, and a sublocale gives the one from the other.
    C25: the operations keep the heap and act as on a multiset, and removal is by identity. Beside it: it sorts and stays shallow.
  \<^item> \<open>LocTimer\<close>: timers, their two containers, the messages and the thread that waits for the kernel
    timers, as one machine over all interleavings. C28: the soonest timer is always armed; C29: no
    object is used after its deletion. Beside them: expiry times, early firing, and a kernel timer that
    stays armed.
  \<^item> \<open>LinkedList\<close>: the doubly linked list with its pointers in an explicit memory. C36: it implements
    a queue, its flush ends, nothing leaks. Beside it: searching. The locale \<open>fifo\<close> is the contract of a
    queue with a client's account of what went in and out, interpreted on the list as \<open>ll\<close>.
  \<^item> \<open>MsgQ\<close>: the message queue with its condition variable and waiting threads, and the message task.
    C38: first in, first out under every interleaving; C39: no lost wake-up. Beside them: where every
    message handed to a task goes.
  \<^item> \<open>SkipList\<close>: a list of nodes with an iterator to the next of the same level. The locale \<open>levelled\<close> is
    the contract of such a container, interpreted as \<open>sl\<close>. C26: it implements a plain sequence.
  \<^item> \<open>LogBuffer\<close>: the log buffer on it. C27: appending keeps the newest messages within capacity and
    time depth. Beside it: after a flush, appending to a level that was full is undefined.
  \<^item> \<open>SyncReq\<close>: the synchronous requests of any number of threads. C12: success means an indication was
    heard or the thread was woken spuriously; C14: only buffers of calls in progress are written.
    Beside them: the ninth request returns success without being sent.
  \<^item> \<open>StdMap\<close>: \<open>std::map\<close> as an ordered list of pairs, with the locale \<open>dictionary\<close> interpreted as
    \<open>sm\<close>. \<open>AdapterBase\<close>: what adapters inherit; session numbers are fresh.
  \<^item> \<open>Geofence\<close>, \<open>GeofenceRun\<close>: the geofence adapter, and its runs with the thread of the modem
    interface. C30: remove and pause do what they promise, to the client and in the tables, when the
    last identifier is known; C32: otherwise freed arrays are used. Beside them: the schedule of the two
    threads is irrelevant while the modem's answers depend only on the number of the call, and failures of
    resume and modify are hidden from the client.
  \<^item> \<open>SetMap\<close>: the map of sets of \<open>LocUnorderedSetMap.h\<close>. The locale \<open>relation_map\<close> is what such a map
    promises of the relation it stands for, \<open>subscriptions\<close> what two of them that are each other's
    converse give, both interpreted on it (\<open>um\<close>, \<open>subs\<close>).
  \<^item> \<open>OsObserver\<close>, \<open>OsSubs\<close>: the observer of the operating system and the histories of the system status.
    C37: as far as the language defines the code, the observer keeps the relation that subscribing specifies and
    subscribes the framework for it, and which unsubscriptions are undefined; C31: a report reaches exactly the
    clients it concerns, with the items that changed. Beside them: an update of a
    subscription loses the items that are kept (with erased nodes that stay readable), requests for
    data that block a subscription, and the counting of modules turned on and off.
  \<^item> \<open>CfgText\<close>, \<open>CfgTable\<close>, \<open>CfgRead\<close>: configuration text. \<open>CfgText\<close> has the functions of the C library
    that are used and shows that trimming and splitting equal simple references; \<open>CfgTable\<close> has the
    tables, with a variable known by its name. C24: a file of well-formed lines is read into the
    variables its lines name. Beside it: names that are repeated end the reading early, and an update
    from a buffer leaves the last entry out.
  \<^item> \<open>CfgProc\<close>, \<open>CfgLaunch\<close>: the processes to launch. C21: reading always returns and stays inside
    every array it writes, the pointers of the split strings included; C11: which process is enabled on which device. Beside them: the number of processes, which
    is counted in a byte.
  \<^item> \<open>Batching\<close>, \<open>BatchingRun\<close>: the batching adapter with its two threads; its configuration is read by
    the functions of \<open>CfgTable\<close>. C34: the adapter is registered for full batches when a session wants
    them, unless a stop fails or a trip joins a batch that has ended; C6: completed trips, by their
    distance at restarts and in the batch, are reported whatever the memory of an erased trip holds; C13: a client whose
    trip has ended cannot be removed; C23: a trip that joins makes the others lose distance. Beside them: a trip
    that joins another cannot be stopped, and a failed stop changes the options of its session.
  \<^item> \<open>Ntrip\<close>, \<open>Tracking\<close>: the source of corrections, and the tracking sessions of the GNSS adapter with its
    threads; a step carries what surrounds the adapter at that time. \<open>TrackingPower\<close>, C15: the power state follows the
    sessions and is reported. \<open>TrackingRun\<close>, C40: while the modem succeeds it tracks exactly when a
    session wants it, and fast enough for all. \<open>TrackingCases\<close>: failed starts that are taken for
    running sessions, sessions that are left behind or brought back, and further runs that go wrong.
    \<open>NtripRun\<close>, C3: without consent nothing that is sent depends on the position. Beside it: a source marked as started runs, a position that is sent
    after the consent was withdrawn, a source that is never stopped, and the cutting of GGA sentences.

  \<^bold>\<open>Conventions.\<close> Undefined behaviour of the code (a null or dangling pointer, an index outside an
  array) is the value \<open>None\<close> of an option type, error codes are integers or constructors as in the code,
  and \<open>u8\<close>, \<open>u32\<close>, \<open>u64\<close> are words of that width. Loops over data in memory are recursive functions;
  those that follow pointers (\<open>flush_loop\<close>, \<open>search_loop\<close>, \<open>sl_dump_loop\<close>) are partial functions in the option monad
  that are shown to return for consistent lists. No definition uses fuel. Interleavings are sequences
  of steps; a section of code under one mutex is one step, and what the scheduler, the allocator or
  the kernel may choose is an argument of the step. Hypotheses such as \<open>world_ok\<close> (the tables of all
  devices are laid out as their headers say), \<open>no_fail\<close> (every call succeeds) or \<open>placed\<close> (where
  partitions are) are definitions, and each property with a hypothesis is followed by an instance.

  \<^bold>\<open>Simplifications.\<close> A call that fails has no effect, so that a write torn in the middle is not
  considered (\<open>blk_rw\<close>). The expiry of a kernel timer and the handling of a timer message are one step
  each, and so is the request of the engine hub for the high rate, which the code makes on the hub's
  thread. A restart of the modem does not end its tracking session in \<open>modem_step\<close>. The modem answers
  the calls of the geofence adapter by their number. A copy into a payload that is too short is undefined
  (\<open>copy_payload\<close>), as is a read of erased memory unless an argument says what it gives
  (\<open>stale\<close>, \<open>erased_trip\<close>).

  \<^bold>\<open>Not modelled.\<close> The freeing of memory where it only returns buffers, logging, and time limits of
  system calls. Of the components above: the C wrapper of the timers (\<open>loc_timer_start\<close>,
  \<open>loc_timer_stop\<close>), the static helpers that \<open>boot_control.cpp\<close> repeats word for word from the
  library, the events of \<open>LocAdapterBase\<close> that only ask whether an adapter wants them, the signal
  handler and the output files of the log buffer, the values of doubles in configuration files and the
  start of logging after reading one, how long a synchronous request waits (it may time
  out at any moment), and of \<open>GnssAdapter.cpp\<close> everything but the AGPS
  messages, the tracking sessions and the source of corrections (its configuration, its reports, NI requests and
  position injection). Of the rest of the repository:
  the parsers and item classes of the system status and the NMEA text, which compute with floating
  point; the client bookkeeping of \<open>LocationAPI.cpp\<close>, which passes structures on; the
  generated modem tables (\<open>location_service_v02\<close>) and the conversions to and from generated classes
  (\<open>LocApiV02.cpp\<close>, \<open>LocationApiPbMsgConv.cpp\<close>), whose other side is not in the repository; the
  Android GNSS, audio and Bluetooth services, which are glue around generated interfaces; sockets and
  dynamic loading; build files, overlays and policies.
\<close>

end
